(* ===== verification/Prelude.thy ===== *)
theory Prelude
  imports Main "HOL-Library.Word"
begin

text \<open>
  The prelude of the development: the Rust machine types, the three ways a Rust function ends
  (a value, an error value, a panic), explicit state passing for \<^verbatim>\<open>&mut self\<close> methods,
  indexing and slicing with the panic written out, and a small weakest-precondition calculus
  that the component theories use to show that an operation keeps an invariant and never panics.

  \<^verbatim>\<open>usize\<close> is \<open>nat\<close>; the few places where the code guards \<^verbatim>\<open>usize\<close> arithmetic
  (\<^verbatim>\<open>checked_add\<close>, \<^verbatim>\<open>checked_mul\<close>) keep the 64-bit bound.
\<close>

named_theorems res_simps \<open>rewriting of results and actions\<close>
named_theorems wp_simps \<open>weakest preconditions of the operations\<close>
named_theorems no_panic \<open>operations that never panic\<close>

subsection \<open>Machine types\<close>

type_synonym byte = "8 word"
type_synonym u16 = "16 word"
type_synonym u32 = "32 word"
type_synonym u64 = "64 word"

definition usize_max :: nat where
  "usize_max = 2 ^ 64 - 1"

definition checked_add_usize :: "nat \<Rightarrow> nat \<Rightarrow> nat option" where
  "checked_add_usize a b = (if a + b \<le> usize_max then Some (a + b) else None)"

definition checked_mul_usize :: "nat \<Rightarrow> nat \<Rightarrow> nat option" where
  "checked_mul_usize a b = (if a * b \<le> usize_max then Some (a * b) else None)"

definition checked_add_u64 :: "u64 \<Rightarrow> u64 \<Rightarrow> u64 option" where
  "checked_add_u64 a b = (if unat a + unat b < 2 ^ 64 then Some (a + b) else None)"

definition checked_mul_u64 :: "u64 \<Rightarrow> u64 \<Rightarrow> u64 option" where
  "checked_mul_u64 a b = (if unat a * unat b < 2 ^ 64 then Some (a * b) else None)"

lemma checked_add_u64_Some:
  "checked_add_u64 a b = Some c \<longleftrightarrow> unat a + unat b < 2 ^ 64 \<and> unat c = unat a + unat b"
proof
  assume "checked_add_u64 a b = Some c"
  then show "unat a + unat b < 2 ^ 64 \<and> unat c = unat a + unat b"
    by (auto simp: checked_add_u64_def unat_word_ariths split: if_splits)
next
  assume h: "unat a + unat b < 2 ^ 64 \<and> unat c = unat a + unat b"
  then have "unat (a + b) = unat c" by (simp add: unat_word_ariths)
  then have "a + b = c" by (simp only: word_unat_eq_iff)
  with h show "checked_add_u64 a b = Some c" by (simp add: checked_add_u64_def)
qed

lemma checked_mul_u64_Some:
  "checked_mul_u64 a b = Some c \<longleftrightarrow> unat a * unat b < 2 ^ 64 \<and> unat c = unat a * unat b"
proof
  assume "checked_mul_u64 a b = Some c"
  then show "unat a * unat b < 2 ^ 64 \<and> unat c = unat a * unat b"
    by (auto simp: checked_mul_u64_def unat_word_ariths split: if_splits)
next
  assume h: "unat a * unat b < 2 ^ 64 \<and> unat c = unat a * unat b"
  then have "unat (a * b) = unat c" by (simp add: unat_word_ariths)
  then have "a * b = c" by (simp only: word_unat_eq_iff)
  with h show "checked_mul_u64 a b = Some c" by (simp add: checked_mul_u64_def)
qed

subsection \<open>Results: a value, an error, a panic\<close>

datatype ('e, 'a) res = Ok 'a | Err 'e | Panic

fun rbind :: "('e, 'a) res \<Rightarrow> ('a \<Rightarrow> ('e, 'b) res) \<Rightarrow> ('e, 'b) res" where
  "rbind (Ok a) k = k a"
| "rbind (Err e) k = Err e"
| "rbind Panic k = Panic"

text \<open>The \<^verbatim>\<open>?\<close> operator at a function boundary is \<open>rbind\<close>; \<^verbatim>\<open>ok_or\<close> turns a missing
  value into an error, \<^verbatim>\<open>unwrap\<close> into a panic.\<close>

fun ok_or :: "'e \<Rightarrow> 'a option \<Rightarrow> ('e, 'a) res" where
  "ok_or e None = Err e"
| "ok_or e (Some a) = Ok a"

fun unwrap :: "'a option \<Rightarrow> ('e, 'a) res" where
  "unwrap None = Panic"
| "unwrap (Some a) = Ok a"

definition index_r :: "'a list \<Rightarrow> nat \<Rightarrow> ('e, 'a) res" where
  "index_r xs i = (if i < length xs then Ok (xs ! i) else Panic)"

text \<open>Slices \<^verbatim>\<open>xs[a..b]\<close> (a panic out of range) and \<^verbatim>\<open>xs.get(a..b)\<close> (a missing value).\<close>

definition region :: "nat \<Rightarrow> nat \<Rightarrow> 'a list \<Rightarrow> 'a list" where
  "region off n xs = take n (drop off xs)"

definition region_r :: "nat \<Rightarrow> nat \<Rightarrow> 'a list \<Rightarrow> ('e, 'a list) res" where
  "region_r a b xs = (if a \<le> b \<and> b \<le> length xs then Ok (region a (b - a) xs) else Panic)"

definition get_range :: "nat \<Rightarrow> nat \<Rightarrow> 'a list \<Rightarrow> 'a list option" where
  "get_range a b xs = (if a \<le> b \<and> b \<le> length xs then Some (region a (b - a) xs) else None)"

definition get_index :: "nat \<Rightarrow> 'a list \<Rightarrow> 'a option" where
  "get_index i xs = (if i < length xs then Some (xs ! i) else None)"

lemma rbind_eq_Ok [res_simps]: "rbind m k = Ok b \<longleftrightarrow> (\<exists>a. m = Ok a \<and> k a = Ok b)"
  by (cases m) auto

lemma rbind_eq_Err [res_simps]:
  "rbind m k = Err e \<longleftrightarrow> m = Err e \<or> (\<exists>a. m = Ok a \<and> k a = Err e)"
  by (cases m) auto

lemma rbind_eq_Panic [res_simps]:
  "rbind m k = Panic \<longleftrightarrow> m = Panic \<or> (\<exists>a. m = Ok a \<and> k a = Panic)"
  by (cases m) auto

text \<open>Panic freedom, one bind at a time.\<close>

lemma rbind_no_panic [no_panic]:
  "m \<noteq> Panic \<Longrightarrow> (\<And>a. m = Ok a \<Longrightarrow> k a \<noteq> Panic) \<Longrightarrow> rbind m k \<noteq> Panic"
  by (cases m) auto

lemma if_no_panic [no_panic]:
  "(b \<Longrightarrow> x \<noteq> Panic) \<Longrightarrow> (\<not> b \<Longrightarrow> y \<noteq> Panic) \<Longrightarrow> (if b then x else y) \<noteq> Panic"
  by simp

lemma ok_or_simps [res_simps]:
  "ok_or e m = Ok a \<longleftrightarrow> m = Some a"
  "ok_or e m = Err e' \<longleftrightarrow> m = None \<and> e' = e"
  "ok_or e m \<noteq> Panic"
  by (cases m; auto)+

lemma unwrap_simps [res_simps]:
  "unwrap m = Ok a \<longleftrightarrow> m = Some a"
  "unwrap m \<noteq> Err e"
  "unwrap m = Panic \<longleftrightarrow> m = None"
  by (cases m; auto)+

lemma index_r_simps [res_simps]:
  "index_r xs i = Ok a \<longleftrightarrow> i < length xs \<and> a = xs ! i"
  "index_r xs i \<noteq> Err e"
  "index_r xs i = Panic \<longleftrightarrow> length xs \<le> i"
  by (auto simp: index_r_def)

lemma region_r_simps [res_simps]:
  "region_r a b xs = Ok ys \<longleftrightarrow> a \<le> b \<and> b \<le> length xs \<and> ys = region a (b - a) xs"
  "region_r a b xs \<noteq> Err e"
  "region_r a b xs = Panic \<longleftrightarrow> \<not> (a \<le> b \<and> b \<le> length xs)"
  by (auto simp: region_r_def)

lemma get_range_eq_Some:
  "get_range a b xs = Some ys \<longleftrightarrow> a \<le> b \<and> b \<le> length xs \<and> ys = region a (b - a) xs"
  by (auto simp: get_range_def)

lemma get_index_eq_Some: "get_index i xs = Some x \<longleftrightarrow> i < length xs \<and> x = xs ! i"
  by (auto simp: get_index_def)

lemma length_region [simp]: "length (region off n xs) = min n (length xs - off)"
  by (simp add: region_def)

subsection \<open>Actions: state passing with results\<close>

text \<open>A \<^verbatim>\<open>&mut self\<close> method takes the state and gives the result together with the state it
  leaves behind, also when it ends in an error: several operations of the program change the
  state and then report an error.\<close>

type_synonym ('s, 'e, 'a) action = "'s \<Rightarrow> ('e, 'a) res \<times> 's"

definition abind ::
  "('s, 'e, 'a) action \<Rightarrow> ('a \<Rightarrow> ('s, 'e, 'b) action) \<Rightarrow> ('s, 'e, 'b) action" where
  "abind m k s =
     (case m s of
        (Ok a, s') \<Rightarrow> k a s'
      | (Err e, s') \<Rightarrow> (Err e, s')
      | (Panic, s') \<Rightarrow> (Panic, s'))"

definition aret :: "'a \<Rightarrow> ('s, 'e, 'a) action" where
  "aret a s = (Ok a, s)"

definition afail :: "'e \<Rightarrow> ('s, 'e, 'a) action" where
  "afail e s = (Err e, s)"

definition alift :: "('e, 'a) res \<Rightarrow> ('s, 'e, 'a) action" where
  "alift r s = (r, s)"

definition aget :: "('s \<Rightarrow> 'a) \<Rightarrow> ('s, 'e, 'a) action" where
  "aget f s = (Ok (f s), s)"

definition amod :: "('s \<Rightarrow> 's) \<Rightarrow> ('s, 'e, unit) action" where
  "amod f s = (Ok (), f s)"

text \<open>A read of the state that can fail or panic.\<close>

definition aread :: "('s \<Rightarrow> ('e, 'a) res) \<Rightarrow> ('s, 'e, 'a) action" where
  "aread f s = (f s, s)"

subsection \<open>Weakest preconditions\<close>

text \<open>\<open>wp m Q E s\<close>: run from \<open>s\<close>, the action does not panic, a value satisfies \<open>Q\<close>
  with the state it leaves, an error satisfies \<open>E\<close> with the state it leaves.\<close>

definition wp ::
  "('s, 'e, 'a) action \<Rightarrow> ('a \<Rightarrow> 's \<Rightarrow> bool) \<Rightarrow> ('e \<Rightarrow> 's \<Rightarrow> bool) \<Rightarrow> 's \<Rightarrow> bool" where
  "wp m Q E s =
     (case m s of
        (Ok a, s') \<Rightarrow> Q a s'
      | (Err e, s') \<Rightarrow> E e s'
      | (Panic, s') \<Rightarrow> False)"

lemma wp_abind [wp_simps]: "wp (abind m k) Q E = wp m (\<lambda>a. wp (k a) Q E) E"
  by (rule ext) (auto simp: wp_def abind_def split: prod.splits res.splits)

lemma wp_aret [wp_simps]: "wp (aret a) Q E = Q a"
  by (rule ext) (simp add: wp_def aret_def)

lemma wp_afail [wp_simps]: "wp (afail e) Q E = E e"
  by (rule ext) (simp add: wp_def afail_def)

lemma wp_aget [wp_simps]: "wp (aget f) Q E = (\<lambda>s. Q (f s) s)"
  by (rule ext) (simp add: wp_def aget_def)

lemma wp_amod [wp_simps]: "wp (amod f) Q E = (\<lambda>s. Q () (f s))"
  by (rule ext) (simp add: wp_def amod_def)

lemma wp_alift [wp_simps]:
  "wp (alift r) Q E = (\<lambda>s. case r of Ok a \<Rightarrow> Q a s | Err e \<Rightarrow> E e s | Panic \<Rightarrow> False)"
  by (rule ext) (simp add: wp_def alift_def split: res.splits)

lemma wp_aread [wp_simps]:
  "wp (aread f) Q E = (\<lambda>s. case f s of Ok a \<Rightarrow> Q a s | Err e \<Rightarrow> E e s | Panic \<Rightarrow> False)"
  by (rule ext) (simp add: wp_def aread_def split: res.splits)

lemma wp_mono:
  assumes "wp m Q E s"
    and "\<And>a s'. Q a s' \<Longrightarrow> Q' a s'" and "\<And>e s'. E e s' \<Longrightarrow> E' e s'"
  shows "wp m Q' E' s"
  using assms by (auto simp: wp_def split: prod.splits res.splits)

lemma wp_not_panic: "wp m Q E s \<Longrightarrow> fst (m s) \<noteq> Panic"
  by (auto simp: wp_def split: prod.splits res.splits)

lemma wp_snd: "wp m (\<lambda>_. P) (\<lambda>_. P) s \<Longrightarrow> P (snd (m s))"
  by (auto simp: wp_def split: prod.splits res.splits)

lemma wp_Ok: "wp m Q E s \<Longrightarrow> m s = (Ok a, s') \<Longrightarrow> Q a s'"
  by (simp add: wp_def)

lemma wp_Err: "wp m Q E s \<Longrightarrow> m s = (Err e, s') \<Longrightarrow> E e s'"
  by (simp add: wp_def)

lemma wpI:
  assumes "\<And>a s'. m s = (Ok a, s') \<Longrightarrow> Q a s'"
    and "\<And>e s'. m s = (Err e, s') \<Longrightarrow> E e s'"
    and "fst (m s) \<noteq> Panic"
  shows "wp m Q E s"
  using assms by (auto simp: wp_def split: prod.splits res.splits)

lemma abind_eq_Ok [res_simps]:
  "abind m k s = (Ok b, t) \<longleftrightarrow> (\<exists>a s'. m s = (Ok a, s') \<and> k a s' = (Ok b, t))"
  by (auto simp: abind_def split: prod.splits res.splits)

lemma abind_eq_Err [res_simps]:
  "abind m k s = (Err e, t) \<longleftrightarrow>
     m s = (Err e, t) \<or> (\<exists>a s'. m s = (Ok a, s') \<and> k a s' = (Err e, t))"
  by (auto simp: abind_def split: prod.splits res.splits)

lemma action_eq_simps [res_simps]:
  "aret a s = (r, t) \<longleftrightarrow> r = Ok a \<and> t = s"
  "afail e s = (r', t) \<longleftrightarrow> r' = Err e \<and> t = s"
  "aget f s = (r'', t) \<longleftrightarrow> r'' = Ok (f s) \<and> t = s"
  "amod g s = (r3, t) \<longleftrightarrow> r3 = Ok () \<and> t = g s"
  "alift q s = (r4, t) \<longleftrightarrow> q = r4 \<and> t = s"
  "aread h s = (r5, t) \<longleftrightarrow> h s = r5 \<and> t = s"
  by (auto simp: aret_def afail_def aget_def amod_def alift_def aread_def)

lemmas action_defs = abind_def aret_def afail_def aget_def amod_def alift_def aread_def

subsection \<open>Lists\<close>

text \<open>Rust's \<^verbatim>\<open>iter().position(p)\<close> and \<^verbatim>\<open>find_map\<close>.\<close>

fun position :: "('a \<Rightarrow> bool) \<Rightarrow> 'a list \<Rightarrow> nat option" where
  "position p [] = None"
| "position p (x # xs) = (if p x then Some 0 else map_option Suc (position p xs))"

fun find_map :: "('a \<Rightarrow> 'b option) \<Rightarrow> 'a list \<Rightarrow> 'b option" where
  "find_map f [] = None"
| "find_map f (x # xs) = (case f x of None \<Rightarrow> find_map f xs | Some y \<Rightarrow> Some y)"

text \<open>\<^verbatim>\<open>iter().flatten()\<close> over an array of optional entries.\<close>

definition flatten :: "'a option list \<Rightarrow> 'a list" where
  "flatten xs = List.map_filter (\<lambda>x. x) xs"

lemma flatten_simps [simp]:
  "flatten [] = []"
  "flatten (None # xs) = flatten xs"
  "flatten (Some a # xs) = a # flatten xs"
  by (simp_all add: flatten_def map_filter_simps)

lemma flatten_append [simp]: "flatten (xs @ ys) = flatten xs @ flatten ys"
  by (induction xs) (auto simp: flatten_def map_filter_simps split: option.splits)

lemma flatten_replicate_None [simp]: "flatten (replicate n None) = []"
  by (induction n) auto

lemma set_flatten: "set (flatten xs) = {a. Some a \<in> set xs}"
  by (induction xs) (auto simp: flatten_def map_filter_simps split: option.splits)

lemma in_flatten_iff: "a \<in> set (flatten xs) \<longleftrightarrow> (\<exists>i < length xs. xs ! i = Some a)"
  by (simp add: set_flatten in_set_conv_nth)

lemma length_flatten_le: "length (flatten xs) \<le> length xs"
  by (induction xs) (auto simp: flatten_def map_filter_simps split: option.splits)

lemma flatten_update:
  "i < length xs \<Longrightarrow>
     flatten (xs[i := v]) =
       flatten (take i xs) @ (case v of None \<Rightarrow> [] | Some a \<Rightarrow> [a]) @ flatten (drop (Suc i) xs)"
  by (simp add: upd_conv_take_nth_drop split: option.splits)

lemma flatten_split:
  "i < length xs \<Longrightarrow>
     flatten xs =
       flatten (take i xs) @ (case xs ! i of None \<Rightarrow> [] | Some a \<Rightarrow> [a]) @ flatten (drop (Suc i) xs)"
  using flatten_update [of i xs "xs ! i"] by simp

lemma position_eq_Some:
  "position p xs = Some i \<longleftrightarrow> i < length xs \<and> p (xs ! i) \<and> (\<forall>j < i. \<not> p (xs ! j))"
proof (induction xs arbitrary: i)
  case Nil
  then show ?case by simp
next
  case (Cons x xs)
  show ?case
  proof (cases i)
    case 0
    then show ?thesis by auto
  next
    case (Suc k)
    then show ?thesis
      by (auto simp: Cons.IH less_Suc_eq_0_disj)
  qed
qed

lemma position_SomeD:
  assumes "position p xs = Some i"
  shows "i < length xs" and "p (xs ! i)"
  using assms by (simp_all add: position_eq_Some)

lemma position_eq_None: "position p xs = None \<longleftrightarrow> (\<forall>x \<in> set xs. \<not> p x)"
  by (induction xs) auto

lemma find_map_SomeD: "find_map f xs = Some y \<Longrightarrow> \<exists>x \<in> set xs. f x = Some y"
  by (induction xs) (auto split: option.splits)

lemma find_map_eq_None: "find_map f xs = None \<longleftrightarrow> (\<forall>x \<in> set xs. f x = None)"
  by (induction xs) (auto split: option.splits)

lemma find_map_append:
  "find_map f (xs @ ys) = (case find_map f xs of None \<Rightarrow> find_map f ys | Some y \<Rightarrow> Some y)"
  by (induction xs) (auto split: option.splits)

lemma distinct_update:
  "distinct xs \<Longrightarrow> i < length xs \<Longrightarrow> v \<notin> set xs \<Longrightarrow> distinct (xs[i := v])"
  by (simp add: distinct_list_update)

end
