(* ===== verification/Bytes.thy ===== *)
theory Bytes
  imports Prelude
begin

text \<open>
  Little-endian integers in byte buffers: \<^verbatim>\<open>to_le_bytes\<close> and \<^verbatim>\<open>from_le_bytes\<close> of the
  Rust core library, and the overwriting of a region of a buffer
  (\<^verbatim>\<open>out[a..b].copy_from_slice(..)\<close>). The locale \<open>fixed_codec\<close> is the contract that the wire
  formats rely on: a fixed width and the two round trips. Inside it the read-after-write laws of a
  buffer are proved once; it is interpreted for the 16, 32 and 64 bit integers of the formats.
\<close>

named_theorems buffer_simps \<open>reading regions of a buffer after writes\<close>

subsection \<open>Little-endian numbers\<close>

fun le_bytes :: "nat \<Rightarrow> nat \<Rightarrow> byte list" where
  "le_bytes 0 v = []"
| "le_bytes (Suc n) v = word_of_nat (v mod 256) # le_bytes n (v div 256)"

fun le_val :: "byte list \<Rightarrow> nat" where
  "le_val [] = 0"
| "le_val (b # bs) = unat b + 256 * le_val bs"

lemma length_le_bytes [simp]: "length (le_bytes n v) = n"
  by (induction n arbitrary: v) auto

lemma unat_byte_of_mod [simp]: "unat (word_of_nat (v mod 256) :: byte) = v mod 256"
  by (simp add: unat_of_nat)

lemma le_val_le_bytes: "le_val (le_bytes n v) = v mod 256 ^ n"
proof (induction n arbitrary: v)
  case 0
  then show ?case by simp
next
  case (Suc n)
  have "v mod 256 ^ Suc n = v mod 256 + 256 * (v div 256 mod 256 ^ n)"
    by (simp add: mod_mult2_eq)
  then show ?case by (simp add: Suc.IH del: power_Suc)
qed

lemma unat_byte_less: "unat (b :: byte) < 256"
proof -
  have "unat b < 2 ^ LENGTH(8)" by (rule unsigned_less)
  then show ?thesis by simp
qed

lemma le_val_bound: "le_val bs < 256 ^ length bs"
proof (induction bs)
  case Nil
  then show ?case by simp
next
  case (Cons b bs)
  have "unat b < 256" by (rule unat_byte_less)
  with Cons.IH show ?case by simp
qed

lemma le_bytes_le_val: "le_bytes (length bs) (le_val bs) = bs"
proof (induction bs)
  case Nil
  then show ?case by simp
next
  case (Cons b bs)
  have "unat b < 256" by (rule unat_byte_less)
  with Cons.IH show ?case by simp
qed

definition to_le :: "nat \<Rightarrow> 'a::len word \<Rightarrow> byte list" where
  "to_le n w = le_bytes n (unat w)"

definition from_le :: "byte list \<Rightarrow> 'a::len word" where
  "from_le bs = word_of_nat (le_val bs)"

lemma length_to_le [simp]: "length (to_le n w) = n"
  by (simp add: to_le_def)

lemma from_le_to_le:
  fixes w :: "'a::len word"
  assumes "LENGTH('a) = 8 * n"
  shows "from_le (to_le n w) = w"
proof -
  have "unat w < 2 ^ LENGTH('a)" by (rule unsigned_less)
  also have "(2::nat) ^ LENGTH('a) = 256 ^ n" by (simp add: assms power_mult)
  finally have "unat w mod 256 ^ n = unat w" by simp
  then show ?thesis by (simp add: from_le_def to_le_def le_val_le_bytes)
qed

lemma to_le_from_le:
  assumes "LENGTH('a::len) = 8 * n" and "length bs = n"
  shows "to_le n (from_le bs :: 'a word) = bs"
proof -
  have "(2::nat) ^ LENGTH('a) = 256 ^ length bs" by (simp add: assms power_mult)
  with le_val_bound [of bs] have "unat (from_le bs :: 'a word) = le_val bs"
    by (simp add: from_le_def unat_of_nat)
  with le_bytes_le_val [of bs] show ?thesis by (simp add: to_le_def assms)
qed

subsection \<open>Overwriting a region\<close>

definition overwrite :: "nat \<Rightarrow> 'a list \<Rightarrow> 'a list \<Rightarrow> 'a list" where
  "overwrite off bs out = take off out @ bs @ drop (off + length bs) out"

lemma length_overwrite [simp]:
  "off + length bs \<le> length out \<Longrightarrow> length (overwrite off bs out) = length out"
  by (simp add: overwrite_def)

lemma region_overwrite_same [buffer_simps]:
  "off + length bs \<le> length out \<Longrightarrow> n = length bs \<Longrightarrow> region off n (overwrite off bs out) = bs"
  by (simp add: overwrite_def region_def)

lemma region_overwrite_before [buffer_simps]:
  assumes "off + length bs \<le> length out" and "a + n \<le> off"
  shows "region a n (overwrite off bs out) = region a n out"
proof -
  from assms(2) have "n \<le> off - a" by simp
  with assms show ?thesis by (simp add: overwrite_def region_def drop_take)
qed

lemma region_overwrite_after [buffer_simps]:
  assumes "off + length bs \<le> length out" and "off + length bs \<le> a"
  shows "region a n (overwrite off bs out) = region a n out"
  using assms by (simp add: overwrite_def region_def)

lemma region_take [buffer_simps]: "a + n \<le> m \<Longrightarrow> region a n (take m xs) = region a n xs"
  by (simp add: region_def drop_take min_def)

lemma region_replicate [buffer_simps]:
  "a + n \<le> m \<Longrightarrow> region a n (replicate m x @ ys) = replicate n x"
  by (simp add: region_def min_def)

lemma take_overwrite_le:
  "off + length bs \<le> m \<Longrightarrow> m \<le> length out \<Longrightarrow>
     take m (overwrite off bs out) = overwrite off bs (take m out)"
  by (simp add: overwrite_def drop_take)

lemma drop_overwrite:
  "m \<le> off \<Longrightarrow> off \<le> length out \<Longrightarrow> drop m (overwrite off bs out) = overwrite (off - m) bs (drop m out)"
  by (simp add: overwrite_def drop_take)

lemma drop_overwrite_after [buffer_simps]:
  "off + length bs \<le> length out \<Longrightarrow> off + length bs \<le> m \<Longrightarrow>
     drop m (overwrite off bs out) = drop m out"
  by (simp add: overwrite_def)

lemma overwrite_end:
  "off + length bs = length out \<Longrightarrow> overwrite off bs out = take off out @ bs"
  by (simp add: overwrite_def)

lemma region_0: "region 0 n xs = take n xs"
  by (simp add: region_def)

lemma region_to_end: "n = length xs - off \<Longrightarrow> region off n xs = drop off xs"
  by (simp add: region_def)

lemma region_region:
  "a + n \<le> m \<Longrightarrow> region a n (region off m xs) = region (off + a) n xs"
  by (simp add: region_def drop_take add.commute min_def)

lemma nth_region [simp]: "i < n \<Longrightarrow> off + i < length xs \<Longrightarrow> region off n xs ! i = xs ! (off + i)"
  by (simp add: region_def)

subsection \<open>The contract of a fixed-width field\<close>

locale fixed_codec =
  fixes width :: nat
    and enc :: "'v \<Rightarrow> byte list"
    and dec :: "byte list \<Rightarrow> 'v"
  assumes length_enc [simp]: "length (enc v) = width"
    and dec_enc [simp]: "dec (enc v) = v"
    and enc_dec: "length bs = width \<Longrightarrow> enc (dec bs) = bs"
begin

lemma enc_inject: "enc v = enc w \<longleftrightarrow> v = w"
  using dec_enc by metis

lemma dec_inject: "length as = width \<Longrightarrow> length bs = width \<Longrightarrow> dec as = dec bs \<longleftrightarrow> as = bs"
  using enc_dec by metis

text \<open>A field whose value is known is the encoding of that value.\<close>

lemma dec_eqD: "dec bs = v \<Longrightarrow> length bs = width \<Longrightarrow> bs = enc v"
  using enc_dec by metis

text \<open>A field reads back as it was written, and a write leaves every disjoint field alone.\<close>

lemma read_written:
  "off + width \<le> length out \<Longrightarrow> dec (region off width (overwrite off (enc v) out)) = v"
  by (simp add: region_overwrite_same)

lemma read_other:
  assumes "off + width \<le> length out" and "a + n \<le> off \<or> off + width \<le> a"
  shows "region a n (overwrite off (enc v) out) = region a n out"
  using assms by (auto simp: region_overwrite_before region_overwrite_after)

text \<open>Writing the value read from a region changes nothing.\<close>

lemma write_read:
  assumes "off + width \<le> length out"
  shows "overwrite off (enc (dec (region off width out))) out = out"
proof -
  have "length (region off width out) = width" using assms by simp
  then have "enc (dec (region off width out)) = region off width out" by (rule enc_dec)
  then show ?thesis using assms
    by (simp add: overwrite_def region_def)
       (metis add.commute append_take_drop_id drop_drop)
qed

end

interpretation le16: fixed_codec 2 "to_le 2 :: u16 \<Rightarrow> byte list" "from_le"
  by unfold_locales (simp_all add: from_le_to_le to_le_from_le)

interpretation le32: fixed_codec 4 "to_le 4 :: u32 \<Rightarrow> byte list" "from_le"
  by unfold_locales (simp_all add: from_le_to_le to_le_from_le)

interpretation le64: fixed_codec 8 "to_le 8 :: u64 \<Rightarrow> byte list" "from_le"
  by unfold_locales (simp_all add: from_le_to_le to_le_from_le)

text \<open>The byte pattern of zero.\<close>

lemma le_bytes_0: "le_bytes n 0 = replicate n 0"
  by (induction n) auto

lemma to_le_0 [simp]: "to_le n 0 = replicate n 0"
  by (simp add: to_le_def le_bytes_0)

lemma from_le_replicate_0 [simp]: "from_le (replicate n 0) = 0"
proof -
  have "le_val (replicate n 0) = 0" by (induction n) auto
  then show ?thesis by (simp add: from_le_def)
qed

subsection \<open>Cutting a buffer into fields\<close>

lemma region_drop: "b = a + n \<Longrightarrow> region a n xs @ drop b xs = drop a xs"
  by (simp add: region_def) (metis add.commute append_take_drop_id drop_drop)

lemma region_0_drop: "region 0 n xs @ drop n xs = xs"
  by (simp add: region_0)

subsection \<open>Buffers as concatenated fields\<close>

text \<open>Writing field after field into a buffer turns it into a concatenation of fields, and a
  concatenation is read field by field. No rule needs the length of the whole buffer.\<close>

named_theorems chunk_simps \<open>overwriting and reading concatenated fields\<close>

lemma overwrite_append [chunk_simps]:
  "length xs \<le> off \<Longrightarrow> overwrite off bs (xs @ ys) = xs @ overwrite (off - length xs) bs ys"
  by (simp add: overwrite_def)

lemma overwrite_drop [chunk_simps]:
  "overwrite k bs (drop m z) = region m k z @ bs @ drop (k + length bs + m) z"
  by (simp add: overwrite_def region_def)

lemma overwrite_at_0 [chunk_simps]: "overwrite 0 bs xs = bs @ drop (length bs) xs"
  by (simp add: overwrite_def)

lemma overwrite_overwrite:
  assumes "off \<le> length xs"
  shows "overwrite (off + length as) bs (overwrite off as xs) = overwrite off (as @ bs) xs"
  using assms by (simp add: overwrite_def add.commute add.left_commute)

lemma region_append_skip [chunk_simps]:
  "length xs \<le> a \<Longrightarrow> region a n (xs @ ys) = region (a - length xs) n ys"
  by (simp add: region_def)

lemma region_append_first [chunk_simps]: "length xs = n \<Longrightarrow> region 0 n (xs @ ys) = xs"
  by (simp add: region_def)

lemma region_append_last [chunk_simps]: "length xs = n \<Longrightarrow> region 0 n xs = xs"
  by (simp add: region_def)

lemma region_zero_length [chunk_simps]: "region a 0 xs = []"
  by (simp add: region_def)

subsection \<open>Panicking accesses to a buffer\<close>

text \<open>\<^verbatim>\<open>out[off..off + n].copy_from_slice(bytes)\<close> and reads of an integer by indexing.\<close>

definition write_r :: "nat \<Rightarrow> byte list \<Rightarrow> (byte list, 'e, unit) action" where
  "write_r off bs out =
     (if off + length bs \<le> length out then (Ok (), overwrite off bs out) else (Panic, out))"

definition fill_zero_r :: "nat \<Rightarrow> (byte list, 'e, unit) action" where
  "fill_zero_r n = write_r 0 (replicate n 0)"

lemma wp_write_r [wp_simps]:
  "wp (write_r off bs) Q E out \<longleftrightarrow> off + length bs \<le> length out \<and> Q () (overwrite off bs out)"
  by (simp add: wp_def write_r_def)

lemma wp_fill_zero_r [wp_simps]:
  "wp (fill_zero_r n) Q E out \<longleftrightarrow> n \<le> length out \<and> Q () (overwrite 0 (replicate n 0) out)"
  by (simp add: fill_zero_r_def wp_write_r)

definition read_int_r :: "nat \<Rightarrow> nat \<Rightarrow> byte list \<Rightarrow> ('e, 'a::len word) res" where
  "read_int_r n off bytes =
     (if off + n \<le> length bytes then Ok (from_le (region off n bytes)) else Panic)"

lemma read_int_r_simps [res_simps]:
  "read_int_r n off bytes = Ok v \<longleftrightarrow> off + n \<le> length bytes \<and> v = from_le (region off n bytes)"
  "read_int_r n off bytes \<noteq> Err e"
  "read_int_r n off bytes = Panic \<longleftrightarrow> \<not> off + n \<le> length bytes"
  by (auto simp: read_int_r_def)

end
