(* ===== verification/StreamProto.thy ===== *)
theory StreamProto
  imports Bytes
begin

text \<open>
  The WRST version 1 stream records of \<^verbatim>\<open>crates/wyrmroot-stream-proto/src/lib.rs\<close>: one DATA
  record is a 24-byte header and a payload of at most 1024 bytes. \<open>encode_data\<close> writes a record
  into the caller's buffer, \<open>decode_data\<close> accepts exactly one complete datagram.
\<close>

definition STREAM_HEADER_BYTES :: nat where "STREAM_HEADER_BYTES = 24"
definition MAX_PAYLOAD_BYTES :: nat where "MAX_PAYLOAD_BYTES = 1024"
definition STREAM_MAGIC :: "byte list" where "STREAM_MAGIC = [87, 82, 83, 84]" \<comment> \<open>\<open>b"WRST"\<close>\<close>
definition STREAM_MAJOR :: u16 where "STREAM_MAJOR = 1"
definition STREAM_MINOR :: u16 where "STREAM_MINOR = 0"
definition STREAM_DATA :: u16 where "STREAM_DATA = 1"

lemmas stream_consts = STREAM_HEADER_BYTES_def MAX_PAYLOAD_BYTES_def STREAM_MAGIC_def
  STREAM_MAJOR_def STREAM_MINOR_def STREAM_DATA_def

datatype stream_error =
    TooShort | Magic | Version | HeaderBytes | MessageTypeMismatch | Flags
  | PayloadTooLarge | SizeMismatch | Reserved

definition encode_data :: "byte list \<Rightarrow> (byte list, stream_error, nat) action" where
  "encode_data payload output =
     (if length payload > MAX_PAYLOAD_BYTES then (Err PayloadTooLarge, output)
      else case checked_add_usize STREAM_HEADER_BYTES (length payload) of
        None \<Rightarrow> (Err SizeMismatch, output)
      | Some nbytes \<Rightarrow>
          if length output < nbytes then (Err SizeMismatch, output)
          else
            abind (fill_zero_r nbytes) (\<lambda>_.
            abind (write_r 0 STREAM_MAGIC) (\<lambda>_.
            abind (write_r 4 (to_le 2 STREAM_MAJOR)) (\<lambda>_.
            abind (write_r 6 (to_le 2 STREAM_MINOR)) (\<lambda>_.
            abind (write_r 8 (to_le 2 (word_of_nat STREAM_HEADER_BYTES :: u16))) (\<lambda>_.
            abind (write_r 10 (to_le 2 STREAM_DATA)) (\<lambda>_.
            abind (write_r 16 (to_le 4 (word_of_nat (length payload) :: u32))) (\<lambda>_.
            abind (write_r STREAM_HEADER_BYTES payload) (\<lambda>_.
            aret nbytes)))))))) output)"

definition decode_data :: "byte list \<Rightarrow> (stream_error, byte list) res" where
  "decode_data bytes =
     (if length bytes < STREAM_HEADER_BYTES then Err TooShort
      else rbind (region_r 0 4 bytes) (\<lambda>magic.
      if magic \<noteq> STREAM_MAGIC then Err Magic
      else rbind (read_int_r 2 4 bytes) (\<lambda>major :: u16.
      rbind (read_int_r 2 6 bytes) (\<lambda>minor :: u16.
      if major \<noteq> STREAM_MAJOR \<or> minor \<noteq> STREAM_MINOR then Err Version
      else rbind (read_int_r 2 8 bytes) (\<lambda>header :: u16.
      if unat header \<noteq> STREAM_HEADER_BYTES then Err HeaderBytes
      else rbind (read_int_r 2 10 bytes) (\<lambda>kind :: u16.
      if kind \<noteq> STREAM_DATA then Err MessageTypeMismatch
      else rbind (read_int_r 4 12 bytes) (\<lambda>flags :: u32.
      if flags \<noteq> 0 then Err Flags
      else rbind (read_int_r 4 16 bytes) (\<lambda>declared :: u32.
      let payload = unat declared in
      if payload > MAX_PAYLOAD_BYTES then Err PayloadTooLarge
      else rbind (read_int_r 4 20 bytes) (\<lambda>reserved :: u32.
      if reserved \<noteq> 0 then Err Reserved
      else case checked_add_usize STREAM_HEADER_BYTES payload of
        None \<Rightarrow> Err SizeMismatch
      | Some stop \<Rightarrow>
          if stop \<noteq> length bytes then Err SizeMismatch
          else region_r STREAM_HEADER_BYTES stop bytes)))))))))"

subsection \<open>The canonical record\<close>

definition stream_record :: "byte list \<Rightarrow> byte list" where
  "stream_record payload =
     STREAM_MAGIC @ to_le 2 STREAM_MAJOR @ to_le 2 STREAM_MINOR @ to_le 2 (24 :: u16) @
     to_le 2 STREAM_DATA @ to_le 4 (0 :: u32) @ to_le 4 (word_of_nat (length payload) :: u32) @
     to_le 4 (0 :: u32) @ payload"

lemma length_stream_record [simp]: "length (stream_record p) = 24 + length p"
  by (simp add: stream_record_def stream_consts)

text \<open>The header cut into its fields.\<close>

lemma stream_fields:
  "bs = region 0 4 bs @ region 4 2 bs @ region 6 2 bs @ region 8 2 bs @ region 10 2 bs @ region 12 4 bs @
     region 16 4 bs @ region 20 4 bs @ drop 24 bs"
  by (simp add: region_drop)

lemma encode_data_Ok:
  assumes "length payload \<le> MAX_PAYLOAD_BYTES" and "24 + length payload \<le> length out"
  shows "encode_data payload out =
    (Ok (24 + length payload), stream_record payload @ drop (24 + length payload) out)"
proof -
  let ?n = "24 + length payload"
  define o1 where "o1 = overwrite 0 (replicate ?n 0) out"
  define o2 where "o2 = overwrite 0 STREAM_MAGIC o1"
  define o3 where "o3 = overwrite 4 (to_le 2 STREAM_MAJOR) o2"
  define o4 where "o4 = overwrite 6 (to_le 2 STREAM_MINOR) o3"
  define o5 where "o5 = overwrite 8 (to_le 2 (24 :: u16)) o4"
  define o6 where "o6 = overwrite 10 (to_le 2 STREAM_DATA) o5"
  define o7 where "o7 = overwrite 16 (to_le 4 (word_of_nat (length payload) :: u32)) o6"
  define o8 where "o8 = overwrite 24 payload o7"
  note os = o8_def o7_def o6_def o5_def o4_def o3_def o2_def
  have len1: "length o1 = length out" using assms(2) by (simp add: o1_def)
  have z: "region a k o1 = replicate k 0" if "a + k \<le> ?n" for a k
    using that assms(2) by (simp add: o1_def overwrite_def region_replicate)
  have run: "encode_data payload out = (Ok ?n, o8)"
    using assms len1
    by (simp add: encode_data_def stream_consts checked_add_usize_def usize_max_def action_defs
          fill_zero_r_def write_r_def o1_def os)
  have fields: "region 0 4 o8 = STREAM_MAGIC" "region 4 2 o8 = to_le 2 STREAM_MAJOR"
    "region 6 2 o8 = to_le 2 STREAM_MINOR" "region 8 2 o8 = to_le 2 (24 :: u16)"
    "region 10 2 o8 = to_le 2 STREAM_DATA"
    "region 16 4 o8 = to_le 4 (word_of_nat (length payload) :: u32)"
    using assms(2) len1
    by (simp_all add: os buffer_simps stream_consts)
  have zeros: "region 12 4 o8 = replicate 4 0" "region 20 4 o8 = replicate 4 0"
    using assms(2) len1 z [of 12 4] z [of 20 4]
    by (simp_all add: os buffer_simps stream_consts)
  have len7: "length o7 = length out"
    using assms(2) len1 by (simp add: os stream_consts)
  have "drop ?n o7 = drop ?n o1"
    using assms(2) len1 by (simp add: os buffer_simps stream_consts)
  also have "drop ?n o1 = drop ?n out" by (simp add: o1_def overwrite_def)
  finally have rest: "drop 24 o8 = payload @ drop ?n out"
    using assms(2) len7 by (simp add: o8_def overwrite_def)
  have "o8 = stream_record payload @ drop ?n out"
    by (subst stream_fields) (simp add: fields zeros rest stream_record_def)
  with run show ?thesis by simp
qed

lemma decode_data_iff:
  "decode_data bytes = Ok payload \<longleftrightarrow>
     length payload \<le> MAX_PAYLOAD_BYTES \<and> bytes = stream_record payload"
proof
  assume d: "decode_data bytes = Ok payload"
  then have len: "24 \<le> length bytes" and
    fields: "region 0 4 bytes = STREAM_MAGIC" "from_le (region 4 2 bytes) = STREAM_MAJOR"
      "from_le (region 6 2 bytes) = STREAM_MINOR" "unat (from_le (region 8 2 bytes) :: u16) = 24"
      "from_le (region 10 2 bytes) = STREAM_DATA" "from_le (region 12 4 bytes) = (0 :: u32)"
      "from_le (region 20 4 bytes) = (0 :: u32)"
    and size: "unat (from_le (region 16 4 bytes) :: u32) \<le> MAX_PAYLOAD_BYTES"
      "24 + unat (from_le (region 16 4 bytes) :: u32) = length bytes"
    and p: "payload = region 24 (length bytes - 24) bytes"
    by (auto simp: decode_data_def res_simps checked_add_usize_def Let_def STREAM_HEADER_BYTES_def
          split: if_splits)
  from fields(4) have f4: "from_le (region 8 2 bytes) = (24 :: u16)"
    by (simp add: word_unat_eq_iff)
  have p': "payload = drop 24 bytes" using p by (simp add: region_def)
  have words: "region 4 2 bytes = to_le 2 STREAM_MAJOR" "region 6 2 bytes = to_le 2 STREAM_MINOR"
      "region 8 2 bytes = to_le 2 (24 :: u16)" "region 10 2 bytes = to_le 2 STREAM_DATA"
    using le16.dec_eqD [OF fields(2)] le16.dec_eqD [OF fields(3)] le16.dec_eqD [OF f4]
      le16.dec_eqD [OF fields(5)] len by auto
  have lp: "length payload = unat (from_le (region 16 4 bytes) :: u32)" using p' size(2) by simp
  have dwords: "region 12 4 bytes = to_le 4 (0 :: u32)" "region 20 4 bytes = to_le 4 (0 :: u32)"
      "region 16 4 bytes = to_le 4 (word_of_nat (length payload) :: u32)"
    using le32.dec_eqD [OF fields(6)] le32.dec_eqD [OF fields(7)] le32.dec_eqD [OF refl] len
    by (auto simp: lp)
  have "bytes = stream_record payload"
    by (subst stream_fields) (simp only: fields(1) words dwords p' [symmetric] stream_record_def)
  with lp size show "length payload \<le> MAX_PAYLOAD_BYTES \<and> bytes = stream_record payload" by simp
next
  assume h: "length payload \<le> MAX_PAYLOAD_BYTES \<and> bytes = stream_record payload"
  then have n: "length payload < 2 ^ 32" by (simp add: MAX_PAYLOAD_BYTES_def)
  from h n show "decode_data bytes = Ok payload"
    by (simp add: decode_data_def res_simps stream_consts checked_add_usize_def usize_max_def
          stream_record_def region_def unat_of_nat read_int_r_def region_r_def Let_def)
qed

lemma decode_data_no_panic [no_panic]: "decode_data bytes \<noteq> Panic"
  by (auto simp: decode_data_def res_simps stream_consts checked_add_usize_def Let_def
        split: if_splits)

subsection \<open>Properties\<close>

text \<open>Encoding a payload of at most 1024 bytes into a buffer that is long enough succeeds, leaves
  the bytes behind the record alone, and decoding the record gives the payload back.\<close>

theorem stream_roundtrip:
  assumes "length payload \<le> MAX_PAYLOAD_BYTES" and "24 + length payload \<le> length out"
  shows "\<exists>out'. encode_data payload out = (Ok (24 + length payload), out') \<and>
    drop (24 + length payload) out' = drop (24 + length payload) out \<and>
    decode_data (take (24 + length payload) out') = Ok payload"
  using encode_data_Ok [OF assms] assms(1) by (simp add: decode_data_iff)

theorem stream_roundtrip_witness:
  "\<exists>out'. encode_data [1, 2, 3] (replicate 40 255) = (Ok 27, out') \<and> decode_data (take 27 out') = Ok [1, 2, 3]"
  using stream_roundtrip [of "[1, 2, 3]" "replicate 40 255"] by (simp add: MAX_PAYLOAD_BYTES_def) blast

text \<open>The decoder accepts only canonical records: a datagram it accepts is, byte for byte, what
  the encoder writes for the payload it returns.\<close>

theorem stream_canonical:
  assumes "decode_data bytes = Ok payload"
  shows "encode_data payload bytes = (Ok (length bytes), bytes)"
proof -
  from assms have d: "length payload \<le> MAX_PAYLOAD_BYTES" "bytes = stream_record payload"
    by (simp_all add: decode_data_iff)
  then show ?thesis using encode_data_Ok [OF d(1), of bytes] by simp
qed

theorem stream_canonical_witness:
  "encode_data [7] (stream_record [7]) = (Ok 25, stream_record [7])"
proof -
  have "decode_data (stream_record [7]) = Ok [7]" by (simp add: decode_data_iff MAX_PAYLOAD_BYTES_def)
  from stream_canonical [OF this] show ?thesis by simp
qed

end
