(* ===== verification/Utf8.thy ===== *)
theory Utf8
  imports Bytes
begin

text \<open>
  What the sources use of Rust's \<^verbatim>\<open>str\<close>: UTF-8 validation (\<^verbatim>\<open>core::str::from_utf8\<close>), the
  scalars of a string (\<^verbatim>\<open>chars\<close>), their encoding (\<^verbatim>\<open>encode_utf8\<close>) and character boundaries
  (\<^verbatim>\<open>str::get\<close>). A string is its byte list, a \<^verbatim>\<open>char\<close> its scalar value. The main result is
  that decoding and encoding are inverse: a valid byte list is the concatenated encoding of exactly
  one list of scalars.
\<close>

type_synonym scalar = nat

definition is_scalar :: "scalar \<Rightarrow> bool" where
  "is_scalar c \<longleftrightarrow> c < 0xD800 \<or> 0xE000 \<le> c \<and> c < 0x110000"

definition len_utf8 :: "scalar \<Rightarrow> nat" where
  "len_utf8 c = (if c < 0x80 then 1 else if c < 0x800 then 2 else if c < 0x10000 then 3 else 4)"

definition nat_byte :: "nat \<Rightarrow> byte" where
  "nat_byte n = word_of_nat n"

definition encode_utf8 :: "scalar \<Rightarrow> byte list" where
  "encode_utf8 c =
     map nat_byte
       (if c < 0x80 then [c]
        else if c < 0x800 then [0xC0 + c div 64, 0x80 + c mod 64]
        else if c < 0x10000 then [0xE0 + c div 4096, 0x80 + c div 64 mod 64, 0x80 + c mod 64]
        else [0xF0 + c div 262144, 0x80 + c div 4096 mod 64, 0x80 + c div 64 mod 64, 0x80 + c mod 64])"

definition is_cont :: "byte \<Rightarrow> bool" where
  "is_cont b \<longleftrightarrow> 0x80 \<le> unat b \<and> unat b \<le> 0xBF"

text \<open>The first scalar of a byte list: the value and the remaining bytes, following the table of
  well-formed sequences of the Rust core library.\<close>

fun utf8_step :: "byte list \<Rightarrow> (scalar \<times> byte list) option" where
  "utf8_step [] = None"
| "utf8_step (b0 # rest) =
     (let x = unat b0 in
      if x < 0x80 then Some (x, rest)
      else if 0xC2 \<le> x \<and> x \<le> 0xDF then
        (case rest of
           b1 # r \<Rightarrow> if is_cont b1 then Some ((x - 0xC0) * 64 + (unat b1 - 0x80), r) else None
         | _ \<Rightarrow> None)
      else if 0xE0 \<le> x \<and> x \<le> 0xEF then
        (case rest of
           b1 # b2 # r \<Rightarrow>
             if is_cont b1 \<and> is_cont b2 \<and> (x = 0xE0 \<longrightarrow> 0xA0 \<le> unat b1) \<and>
                (x = 0xED \<longrightarrow> unat b1 \<le> 0x9F)
             then Some ((x - 0xE0) * 4096 + (unat b1 - 0x80) * 64 + (unat b2 - 0x80), r)
             else None
         | _ \<Rightarrow> None)
      else if 0xF0 \<le> x \<and> x \<le> 0xF4 then
        (case rest of
           b1 # b2 # b3 # r \<Rightarrow>
             if is_cont b1 \<and> is_cont b2 \<and> is_cont b3 \<and> (x = 0xF0 \<longrightarrow> 0x90 \<le> unat b1) \<and>
                (x = 0xF4 \<longrightarrow> unat b1 \<le> 0x8F)
             then Some ((x - 0xF0) * 262144 + (unat b1 - 0x80) * 4096 + (unat b2 - 0x80) * 64 +
                    (unat b3 - 0x80), r)
             else None
         | _ \<Rightarrow> None)
      else None)"

lemma utf8_step_shorter: "utf8_step bs = Some (c, r) \<Longrightarrow> length r < length bs"
  by (cases bs) (auto simp: Let_def split: if_splits list.splits)

function utf8_chars :: "byte list \<Rightarrow> scalar list option" where
  "utf8_chars bs =
     (if bs = [] then Some []
      else case utf8_step bs of
        None \<Rightarrow> None
      | Some (c, r) \<Rightarrow> map_option (\<lambda>cs. c # cs) (utf8_chars r))"
  by pat_completeness auto
termination
  by (relation "measure length") (auto dest: utf8_step_shorter)

declare utf8_chars.simps [simp del]

definition valid_utf8 :: "byte list \<Rightarrow> bool" where
  "valid_utf8 bs \<longleftrightarrow> utf8_chars bs \<noteq> None"

definition str_chars :: "byte list \<Rightarrow> scalar list" where
  "str_chars s = (case utf8_chars s of Some cs \<Rightarrow> cs | None \<Rightarrow> [])"

text \<open>\<^verbatim>\<open>str::is_char_boundary\<close> and \<^verbatim>\<open>str::get(a..b)\<close>.\<close>

definition char_boundary :: "byte list \<Rightarrow> nat \<Rightarrow> bool" where
  "char_boundary bs i \<longleftrightarrow> i = 0 \<or> i = length bs \<or> i < length bs \<and> \<not> is_cont (bs ! i)"

definition str_get :: "nat \<Rightarrow> nat \<Rightarrow> byte list \<Rightarrow> byte list option" where
  "str_get a b bs =
     (if a \<le> b \<and> b \<le> length bs \<and> char_boundary bs a \<and> char_boundary bs b
      then Some (region a (b - a) bs) else None)"

text \<open>ASCII text: string literals, \<^verbatim>\<open>is_ascii_lowercase\<close> and \<^verbatim>\<open>is_ascii_digit\<close>.\<close>

definition ascii :: "string \<Rightarrow> byte list" where
  "ascii s = map of_char s"

definition ascii_lowercase :: "byte \<Rightarrow> bool" where
  "ascii_lowercase b \<longleftrightarrow> 97 \<le> b \<and> b \<le> 122"

definition ascii_digit :: "byte \<Rightarrow> bool" where
  "ascii_digit b \<longleftrightarrow> 48 \<le> b \<and> b \<le> 57"

subsection \<open>Encoding and decoding are inverse\<close>

lemma unat_nat_byte: "n < 256 \<Longrightarrow> unat (nat_byte n) = n"
  by (simp add: nat_byte_def unat_of_nat)

lemma nat_byte_unat [simp]: "nat_byte (unat b) = b"
  by (simp add: nat_byte_def)

lemma nat_byte_eqI: "unat b = n \<Longrightarrow> nat_byte n = b"
  by auto

lemma length_encode_utf8 [simp]: "length (encode_utf8 c) = len_utf8 c"
  by (simp add: encode_utf8_def len_utf8_def)

lemma len_utf8_pos [simp]: "0 < len_utf8 c"
  by (simp add: len_utf8_def)

lemma encode_utf8_neq_Nil [simp]: "encode_utf8 c \<noteq> []"
  by (simp add: encode_utf8_def)

lemma base_64_digits:
  fixes a b d e :: nat
  assumes "b < 64" "d < 64" "e < 64"
  shows "(a * 64 + e) div 64 = a" "(a * 64 + e) mod 64 = e"
    and "(a * 4096 + b * 64 + e) div 4096 = a" "(a * 4096 + b * 64 + e) div 64 mod 64 = b"
    and "(a * 4096 + b * 64 + e) mod 64 = e"
    and "(a * 262144 + b * 4096 + d * 64 + e) div 262144 = a"
    and "(a * 262144 + b * 4096 + d * 64 + e) div 4096 mod 64 = b"
    and "(a * 262144 + b * 4096 + d * 64 + e) div 64 mod 64 = d"
    and "(a * 262144 + b * 4096 + d * 64 + e) mod 64 = e"
proof -
  have q: "(h * n + l) div n = h" "(h * n + l) mod n = l" if "l < n" for h l n :: nat
    using that by simp_all
  have e3: "a * 4096 + b * 64 + e = (a * 64 + b) * 64 + e"
    and f3: "a * 4096 + b * 64 + e = a * 4096 + (b * 64 + e)"
    and e4: "a * 262144 + b * 4096 + d * 64 + e = (a * 4096 + b * 64 + d) * 64 + e"
    and f4: "a * 262144 + b * 4096 + d * 64 + e = (a * 64 + b) * 4096 + (d * 64 + e)"
    and g4: "a * 262144 + b * 4096 + d * 64 + e = a * 262144 + (b * 4096 + d * 64 + e)"
    and h4: "a * 4096 + b * 64 + d = (a * 64 + b) * 64 + d"
    by simp_all
  have r: "b * 64 + e < 4096" "d * 64 + e < 4096" "b * 4096 + d * 64 + e < 262144"
    using assms by linarith+
  show "(a * 64 + e) div 64 = a" "(a * 64 + e) mod 64 = e" using assms q by blast+
  show "(a * 4096 + b * 64 + e) div 4096 = a" using q(1) [OF r(1)] f3 by simp
  show "(a * 4096 + b * 64 + e) div 64 mod 64 = b" "(a * 4096 + b * 64 + e) mod 64 = e"
    using assms q by (simp_all only: e3)
  show "(a * 262144 + b * 4096 + d * 64 + e) div 262144 = a" using q(1) [OF r(3)] g4 by simp
  show "(a * 262144 + b * 4096 + d * 64 + e) div 4096 mod 64 = b"
    using q(1) [OF r(2)] q(2) [OF assms(1)] by (simp only: f4)
  show "(a * 262144 + b * 4096 + d * 64 + e) div 64 mod 64 = d"
    using q(1) [OF assms(3)] q(2) [OF assms(2)] by (simp only: e4 h4)
  show "(a * 262144 + b * 4096 + d * 64 + e) mod 64 = e"
    using q(2) [OF assms(3)] by (simp only: e4)
qed

text \<open>A scalar of two, three or four bytes by its base-64 digits: how it is encoded and how its
  encoding is read.\<close>

lemma encode_digits:
  assumes "b < 64" "d < 64" "e < 64"
  shows "2 \<le> a \<Longrightarrow> a < 32 \<Longrightarrow> encode_utf8 (a * 64 + e) = map nat_byte [0xC0 + a, 0x80 + e]"
    and "a < 16 \<Longrightarrow> (a = 0 \<longrightarrow> 32 \<le> b) \<Longrightarrow>
      encode_utf8 (a * 4096 + b * 64 + e) = map nat_byte [0xE0 + a, 0x80 + b, 0x80 + e]"
    and "a < 5 \<Longrightarrow> (a = 0 \<longrightarrow> 16 \<le> b) \<Longrightarrow>
      encode_utf8 (a * 262144 + b * 4096 + d * 64 + e) =
        map nat_byte [0xF0 + a, 0x80 + b, 0x80 + d, 0x80 + e]"
proof -
  note dig = base_64_digits [OF assms, of a]
  show "encode_utf8 (a * 64 + e) = map nat_byte [0xC0 + a, 0x80 + e]" if "2 \<le> a" "a < 32"
  proof -
    have "\<not> a * 64 + e < 0x80" "a * 64 + e < 0x800" using that assms by linarith+
    then show ?thesis by (simp only: encode_utf8_def dig if_False if_True)
  qed
  show "encode_utf8 (a * 4096 + b * 64 + e) = map nat_byte [0xE0 + a, 0x80 + b, 0x80 + e]"
    if "a < 16" "a = 0 \<longrightarrow> 32 \<le> b"
  proof -
    have "0x800 \<le> a * 4096 + b * 64 + e" using that by (cases "a = 0") auto
    moreover have "a * 4096 + b * 64 + e < 0x10000" using that assms by linarith
    ultimately have "\<not> a * 4096 + b * 64 + e < 0x80" "\<not> a * 4096 + b * 64 + e < 0x800"
      "a * 4096 + b * 64 + e < 0x10000" by linarith+
    then show ?thesis by (simp only: encode_utf8_def dig if_False if_True)
  qed
  show "encode_utf8 (a * 262144 + b * 4096 + d * 64 + e) =
      map nat_byte [0xF0 + a, 0x80 + b, 0x80 + d, 0x80 + e]"
    if "a < 5" "a = 0 \<longrightarrow> 16 \<le> b"
  proof -
    let ?c = "a * 262144 + b * 4096 + d * 64 + e"
    have "0x10000 \<le> ?c" using that by (cases "a = 0") auto
    then have "\<not> ?c < 0x80" "\<not> ?c < 0x800" "\<not> ?c < 0x10000" by linarith+
    then show ?thesis by (simp only: encode_utf8_def dig if_False if_True)
  qed
qed

lemma step_digits:
  assumes "b < 64" "d < 64" "e < 64"
  shows "2 \<le> a \<Longrightarrow> a < 32 \<Longrightarrow>
      utf8_step (map nat_byte [0xC0 + a, 0x80 + e] @ r) = Some (a * 64 + e, r)"
    and "a < 16 \<Longrightarrow> (a = 0 \<longrightarrow> 32 \<le> b) \<Longrightarrow> (a = 13 \<longrightarrow> b < 32) \<Longrightarrow>
      utf8_step (map nat_byte [0xE0 + a, 0x80 + b, 0x80 + e] @ r) = Some (a * 4096 + b * 64 + e, r)"
    and "a < 5 \<Longrightarrow> (a = 0 \<longrightarrow> 16 \<le> b) \<Longrightarrow> (a = 4 \<longrightarrow> b < 16) \<Longrightarrow>
      utf8_step (map nat_byte [0xF0 + a, 0x80 + b, 0x80 + d, 0x80 + e] @ r) =
        Some (a * 262144 + b * 4096 + d * 64 + e, r)"
  using assms by (auto simp: unat_nat_byte is_cont_def Let_def)

text \<open>Every scalar has such digits.\<close>

lemma scalar_digits:
  assumes "is_scalar c"
  obtains (one) "c < 0x80"
  | (two) a e where "c = a * 64 + e" "2 \<le> a" "a < 32" "e < 64"
  | (three) a b e where "c = a * 4096 + b * 64 + e" "a < 16" "a = 0 \<longrightarrow> 32 \<le> b"
      "a = 13 \<longrightarrow> b < 32" "b < 64" "e < 64"
  | (four) a b d e where "c = a * 262144 + b * 4096 + d * 64 + e" "a < 5" "a = 0 \<longrightarrow> 16 \<le> b"
      "a = 4 \<longrightarrow> b < 16" "b < 64" "d < 64" "e < 64"
proof -
  have c: "c < 0x110000" using assms by (auto simp: is_scalar_def)
  have e1: "c = c div 64 * 64 + c mod 64" by simp
  have "c div 64 = c div 64 div 64 * 64 + c div 64 mod 64" by simp
  then have e2: "c = c div 64 div 64 * 4096 + c div 64 mod 64 * 64 + c mod 64"
    using e1 by linarith
  have "c div 64 div 64 = c div 64 div 64 div 64 * 64 + c div 64 div 64 mod 64" by simp
  then have e3: "c = c div 64 div 64 div 64 * 262144 + c div 64 div 64 mod 64 * 4096 +
      c div 64 mod 64 * 64 + c mod 64"
    using e2 by linarith
  consider "c < 0x80" | "0x80 \<le> c" "c < 0x800" | "0x800 \<le> c" "c < 0x10000" | "0x10000 \<le> c"
    by linarith
  then show thesis
  proof cases
    case 1
    then show ?thesis by (rule one)
  next
    case 2
    then show ?thesis using two [OF e1] by simp
  next
    case 3
    obtain a b e where d: "c = a * 4096 + b * 64 + e" "b < 64" "e < 64"
      using e2 by (meson mod_less_divisor zero_less_numeral)
    have "a < 16" using 3 d by linarith
    moreover have "a = 0 \<longrightarrow> 32 \<le> b" using 3 d by auto
    moreover have "a = 13 \<longrightarrow> b < 32" using assms d by (auto simp: is_scalar_def)
    ultimately show ?thesis using d by (intro three)
  next
    case 4
    obtain a b d e where d: "c = a * 262144 + b * 4096 + d * 64 + e" "b < 64" "d < 64" "e < 64"
      using e3 by (meson mod_less_divisor zero_less_numeral)
    have "a < 5" using c d by linarith
    moreover have "a = 0 \<longrightarrow> 16 \<le> b" using 4 d by auto
    moreover have "a = 4 \<longrightarrow> b < 16" using c d by auto
    ultimately show ?thesis using d by (intro four)
  qed
qed

lemma utf8_step_encode:
  assumes "is_scalar c"
  shows "utf8_step (encode_utf8 c @ r) = Some (c, r)"
  using assms
proof (cases rule: scalar_digits)
  case one
  then show ?thesis by (simp add: encode_utf8_def unat_nat_byte)
next
  case (two a e)
  then show ?thesis
    by (simp only: encode_digits(1) [of e e e a] step_digits(1) [of e e e a])
next
  case (three a b e)
  then show ?thesis
    by (simp only: encode_digits(2) [of b b e a] step_digits(2) [of b b e a])
next
  case (four a b d e)
  then show ?thesis
    by (simp only: encode_digits(3) [of b d e a] step_digits(3) [of b d e a])
qed

lemma cont_digit:
  assumes "is_cont b"
  obtains e where "e < 64" "unat b = 0x80 + e"
proof
  show "unat b - 0x80 < 64" "unat b = 0x80 + (unat b - 0x80)"
    using assms by (auto simp: is_cont_def)
qed

lemma utf8_step_two:
  assumes "utf8_step (b0 # rest) = Some (c, r)" and "0xC2 \<le> unat b0" "unat b0 \<le> 0xDF"
  shows "is_scalar c \<and> b0 # rest = encode_utf8 c @ r"
proof -
  from assms obtain b1 where b1: "rest = b1 # r" "is_cont b1"
    and c: "c = (unat b0 - 0xC0) * 64 + (unat b1 - 0x80)"
    by (auto simp: Let_def split: list.splits if_splits)
  obtain e where e: "e < 64" "unat b1 = 0x80 + e" using b1(2) by (rule cont_digit)
  obtain a where a: "unat b0 = 0xC0 + a" "2 \<le> a" "a < 32"
    using assms by (intro that [of "unat b0 - 0xC0"]) auto
  have cc: "c = a * 64 + e" using c e a by simp
  have "is_scalar c" using cc e a by (simp add: is_scalar_def)
  moreover have "b0 # rest = encode_utf8 c @ r"
    by (simp only: cc encode_digits(1) [OF e(1) e(1) e(1) a(2,3)] b1 a(1) [symmetric]
          e(2) [symmetric] list.map append.simps nat_byte_unat)
  ultimately show ?thesis by simp
qed

lemma utf8_step_three:
  assumes "utf8_step (b0 # rest) = Some (c, r)" and "0xE0 \<le> unat b0" "unat b0 \<le> 0xEF"
  shows "is_scalar c \<and> b0 # rest = encode_utf8 c @ r"
proof -
  from assms obtain b1 b2 where b: "rest = b1 # b2 # r" "is_cont b1" "is_cont b2"
      "unat b0 = 0xE0 \<longrightarrow> 0xA0 \<le> unat b1" "unat b0 = 0xED \<longrightarrow> unat b1 \<le> 0x9F"
    and c: "c = (unat b0 - 0xE0) * 4096 + (unat b1 - 0x80) * 64 + (unat b2 - 0x80)"
    by (auto simp: Let_def split: list.splits if_splits)
  obtain d where d: "d < 64" "unat b1 = 0x80 + d" using b(2) by (rule cont_digit)
  obtain e where e: "e < 64" "unat b2 = 0x80 + e" using b(3) by (rule cont_digit)
  obtain a where a: "unat b0 = 0xE0 + a" "a < 16"
    using assms by (intro that [of "unat b0 - 0xE0"]) auto
  have cc: "c = a * 4096 + d * 64 + e" using c a d e by simp
  have lo: "a = 0 \<longrightarrow> 32 \<le> d" and su: "a = 13 \<longrightarrow> d < 32" using b(4,5) a d by auto
  have "is_scalar c" using cc d(1) e(1) a(2) su
    by (cases "a = 13"; cases "a \<le> 12") (auto simp: is_scalar_def)
  moreover have "b0 # rest = encode_utf8 c @ r"
    by (simp only: cc encode_digits(2) [OF d(1) d(1) e(1) a(2) lo] b(1) a(1) [symmetric]
          e(2) [symmetric] d(2) [symmetric] list.map append.simps nat_byte_unat)
  ultimately show ?thesis by simp
qed

lemma utf8_step_four:
  assumes "utf8_step (b0 # rest) = Some (c, r)" and "0xF0 \<le> unat b0" "unat b0 \<le> 0xF4"
  shows "is_scalar c \<and> b0 # rest = encode_utf8 c @ r"
proof -
  from assms obtain b1 b2 b3 where b: "rest = b1 # b2 # b3 # r" "is_cont b1" "is_cont b2"
      "is_cont b3" "unat b0 = 0xF0 \<longrightarrow> 0x90 \<le> unat b1" "unat b0 = 0xF4 \<longrightarrow> unat b1 \<le> 0x8F"
    and c: "c = (unat b0 - 0xF0) * 262144 + (unat b1 - 0x80) * 4096 + (unat b2 - 0x80) * 64 +
              (unat b3 - 0x80)"
    by (auto simp: Let_def split: list.splits if_splits)
  obtain d where d: "d < 64" "unat b1 = 0x80 + d" using b(2) by (rule cont_digit)
  obtain e where e: "e < 64" "unat b2 = 0x80 + e" using b(3) by (rule cont_digit)
  obtain f where f: "f < 64" "unat b3 = 0x80 + f" using b(4) by (rule cont_digit)
  obtain a where a: "unat b0 = 0xF0 + a" "a < 5"
    using assms by (intro that [of "unat b0 - 0xF0"]) auto
  have cc: "c = a * 262144 + d * 4096 + e * 64 + f" using c a d e f by simp
  have lo: "a = 0 \<longrightarrow> 16 \<le> d" and hi: "a = 4 \<longrightarrow> d < 16" using b(5,6) a d by auto
  have "is_scalar c" using cc d(1) e(1) f(1) a(2) lo hi
    by (cases "a = 0"; cases "a = 4") (auto simp: is_scalar_def)
  moreover have "b0 # rest = encode_utf8 c @ r"
    by (simp only: cc encode_digits(3) [OF d(1) e(1) f(1) a(2) lo] b(1) a(1) [symmetric]
          f(2) [symmetric] e(2) [symmetric] d(2) [symmetric] list.map append.simps nat_byte_unat)
  ultimately show ?thesis by simp
qed

lemma utf8_step_SomeD:
  assumes "utf8_step bs = Some (c, r)"
  shows "is_scalar c" and "bs = encode_utf8 c @ r"
proof -
  obtain b0 rest where bs: "bs = b0 # rest" using assms by (cases bs) auto
  note step = assms [unfolded bs]
  consider (one) "unat b0 < 0x80" | (two) "0xC2 \<le> unat b0" "unat b0 \<le> 0xDF"
    | (three) "0xE0 \<le> unat b0" "unat b0 \<le> 0xEF" | (four) "0xF0 \<le> unat b0" "unat b0 \<le> 0xF4"
    using step by (auto simp: Let_def split: if_splits)
  then have "is_scalar c \<and> bs = encode_utf8 c @ r"
  proof cases
    case one
    then have "c = unat b0" "r = rest" using step by (auto simp: Let_def)
    with one show ?thesis by (simp add: bs is_scalar_def encode_utf8_def)
  qed (use utf8_step_two utf8_step_three utf8_step_four step bs in blast)+
  then show "is_scalar c" and "bs = encode_utf8 c @ r" by auto
qed

abbreviation encode_str :: "scalar list \<Rightarrow> byte list" where
  "encode_str cs \<equiv> concat (map encode_utf8 cs)"

lemma utf8_chars_encode:
  assumes "\<forall>c \<in> set cs. is_scalar c"
  shows "utf8_chars (encode_str cs) = Some cs"
  using assms
proof (induction cs)
  case Nil
  then show ?case by (simp add: utf8_chars.simps)
next
  case (Cons c cs)
  then show ?case
    by (subst utf8_chars.simps) (simp add: utf8_step_encode)
qed

lemma str_chars_encode [simp]: "\<forall>c \<in> set cs. is_scalar c \<Longrightarrow> str_chars (encode_str cs) = cs"
  by (simp add: str_chars_def utf8_chars_encode)

lemma utf8_chars_SomeD:
  assumes "utf8_chars bs = Some cs"
  shows "bs = encode_str cs" and "\<forall>c \<in> set cs. is_scalar c"
proof -
  from assms have "bs = encode_str cs \<and> (\<forall>c \<in> set cs. is_scalar c)"
  proof (induction bs arbitrary: cs rule: utf8_chars.induct)
    case (1 bs)
    show ?case
    proof (cases "bs = []")
      case True
      with "1.prems" show ?thesis by (simp add: utf8_chars.simps)
    next
      case False
      with "1.prems" obtain c r ds where s: "utf8_step bs = Some (c, r)"
        and ds: "utf8_chars r = Some ds" "cs = c # ds"
        by (subst (asm) utf8_chars.simps) (auto split: option.splits)
      from "1.IH" [OF False s refl ds(1)] utf8_step_SomeD [OF s] ds(2)
      show ?thesis by simp
    qed
  qed
  then show "bs = encode_str cs" and "\<forall>c \<in> set cs. is_scalar c" by auto
qed

lemma utf8_chars_iff:
  "utf8_chars bs = Some cs \<longleftrightarrow> bs = encode_str cs \<and> (\<forall>c \<in> set cs. is_scalar c)"
  using utf8_chars_encode utf8_chars_SomeD by blast

lemma valid_utf8_iff: "valid_utf8 bs \<longleftrightarrow> (\<exists>cs. bs = encode_str cs \<and> (\<forall>c \<in> set cs. is_scalar c))"
  by (auto simp: valid_utf8_def utf8_chars_iff)

lemma valid_utf8_append: "valid_utf8 a \<Longrightarrow> valid_utf8 b \<Longrightarrow> valid_utf8 (a @ b)"
  unfolding valid_utf8_iff
  by (elim exE conjE, rule_tac x = "cs @ csa" in exI) auto

lemma encode_utf8_inject:
  "is_scalar c \<Longrightarrow> is_scalar d \<Longrightarrow> encode_utf8 c = encode_utf8 d \<Longrightarrow> c = d"
  using utf8_step_encode [of c "[]"] utf8_step_encode [of d "[]"] by simp

subsection \<open>Character boundaries\<close>

lemma encode_utf8_first_not_cont: "is_scalar c \<Longrightarrow> \<not> is_cont (encode_utf8 c ! 0)"
  by (auto simp: encode_utf8_def is_cont_def unat_nat_byte is_scalar_def)

lemma char_boundary_encode:
  assumes "\<forall>c \<in> set bs. is_scalar c"
  shows "char_boundary (encode_str as @ encode_str bs) (length (encode_str as))"
proof (cases bs)
  case Nil
  then show ?thesis by (simp add: char_boundary_def)
next
  case (Cons c cs)
  with assms have "\<not> is_cont (encode_utf8 c ! 0)" by (simp add: encode_utf8_first_not_cont)
  with Cons show ?thesis
    by (simp add: char_boundary_def nth_append)
qed

lemma char_boundary_0 [simp]: "char_boundary bs 0"
  by (simp add: char_boundary_def)

lemma char_boundary_length [simp]: "char_boundary bs (length bs)"
  by (simp add: char_boundary_def)

text \<open>The pieces of a string between characters.\<close>

lemma str_get_before:
  assumes "\<forall>c \<in> set (b @ a). is_scalar c"
  shows "str_get 0 (length (encode_str b)) (encode_str (b @ a)) = Some (encode_str b)"
  using char_boundary_encode [of a b] assms by (simp add: str_get_def region_def)

lemma str_get_after:
  assumes "\<forall>c \<in> set (b @ a). is_scalar c"
  shows "str_get (length (encode_str b)) (length (encode_str (b @ a))) (encode_str (b @ a)) = Some (encode_str a)"
  using char_boundary_encode [of a b] assms
    char_boundary_length [of "encode_str b @ encode_str a"] by (simp add: str_get_def region_def)

lemma str_get_middle:
  assumes "\<forall>c \<in> set (x @ y @ z). is_scalar c"
  shows "str_get (length (encode_str x)) (length (encode_str (x @ y))) (encode_str (x @ y @ z)) = Some (encode_str y)"
  using char_boundary_encode [of "y @ z" x] char_boundary_encode [of z "x @ y"] assms
  by (simp add: str_get_def region_def)

text \<open>ASCII text is valid.\<close>

lemma utf8_step_ascii: "unat b < 0x80 \<Longrightarrow> utf8_step (b # r) = Some (unat b, r)"
  by (simp add: Let_def)

lemma valid_utf8_Nil [simp]: "valid_utf8 []"
  by (simp add: valid_utf8_def utf8_chars.simps)

lemma valid_utf8_ascii: "(\<forall>b \<in> set bs. unat b < 0x80) \<Longrightarrow> valid_utf8 bs"
proof (induction bs)
  case Nil
  then show ?case by simp
next
  case (Cons b bs)
  then show ?case
    unfolding valid_utf8_def by (subst utf8_chars.simps) (simp add: utf8_step_ascii)
qed

text \<open>A scalar outside ASCII is a lead byte that tells the length, and continuation bytes.\<close>

lemma encode_utf8_shape:
  assumes "is_scalar c" and "0x80 \<le> c"
  shows "\<exists>b bs. encode_utf8 c = b # bs \<and> bs \<noteq> [] \<and> 0xC2 \<le> unat b \<and> unat b \<le> 0xF4 \<and>
    (\<forall>x \<in> set bs. is_cont x) \<and>
    Suc (length bs) = (if unat b < 0xE0 then 2 else if unat b < 0xF0 then 3 else 4)"
  using assms(1)
proof (cases rule: scalar_digits)
  case (two a e)
  then show ?thesis
    unfolding two(1) encode_digits(1) [OF two(4,4,4,2,3)] by (auto simp: unat_nat_byte is_cont_def)
next
  case (three a b e)
  then show ?thesis
    unfolding three(1) encode_digits(2) [OF three(5,6,6,2,3)] by (auto simp: unat_nat_byte is_cont_def)
next
  case (four a b d e)
  then show ?thesis
    unfolding four(1) encode_digits(3) [OF four(5,6,7,2,3)] by (auto simp: unat_nat_byte is_cont_def)
qed (use assms(2) in simp)

lemma encode_utf8_ascii: "c < 0x80 \<Longrightarrow> encode_utf8 c = [nat_byte c]"
  by (simp add: encode_utf8_def)

end
