(* ===== verification/RegistryProto.thy ===== *)
theory RegistryProto
  imports Bytes Utf8 "HOL-Library.List_Lexorder"
begin

text \<open>
  The WRRG version 1 registry protocol of \<^verbatim>\<open>crates/wyrmroot-registry-proto/src/lib.rs\<close>: the
  message types, the validating parser (\<open>parse\<close>), the encoders that write into the caller's
  buffer, and the correlation environment. Every read of the parser is written with the error or
  panic the source has at that place.

  One place of the source (\<^verbatim>\<open>validate_page_shape\<close>) subtracts 16-bit numbers before it has
  checked that the difference exists. What Rust does there depends on the build profile: with
  overflow checks it panics, without them it wraps. The profile is the parameter \<open>oc\<close> of the
  functions that reach it.
\<close>

subsection \<open>Constants\<close>

definition HEADER_BYTES :: nat where "HEADER_BYTES = 64"
definition MAX_SERVICES :: nat where "MAX_SERVICES = 32"
definition MAX_SERVICE_NAME_BYTES :: nat where "MAX_SERVICE_NAME_BYTES = 128"
definition MAX_PROTOCOL_VERSIONS :: nat where "MAX_PROTOCOL_VERSIONS = 4"
definition MAX_OUTSTANDING_PER_CLIENT :: nat where "MAX_OUTSTANDING_PER_CLIENT = 16"
definition MAX_CLIENT_REPLAY :: nat where "MAX_CLIENT_REPLAY = 32"
definition MAX_PUBLICATION_REPLAY :: nat where "MAX_PUBLICATION_REPLAY = 8"
definition MAX_PENDING_WATCHES :: nat where "MAX_PENDING_WATCHES = 32"
definition SERVICE_LIST_PREFIX_BYTES :: nat where "SERVICE_LIST_PREFIX_BYTES = 80"
definition SERVICE_LIST_RECORD_BYTES :: nat where "SERVICE_LIST_RECORD_BYTES = 168"
definition MAX_SERVICE_LIST_RECORDS :: nat where "MAX_SERVICE_LIST_RECORDS = 2"
definition MAX_SERVICE_LIST_PAGES :: nat where "MAX_SERVICE_LIST_PAGES = 16"
definition CORRELATION_ENVIRONMENT_COUNT :: nat where "CORRELATION_ENVIRONMENT_COUNT = 3"
definition MAX_CORRELATION_ENVIRONMENT_BYTES :: nat where "MAX_CORRELATION_ENVIRONMENT_BYTES = 64"

definition REGISTRY_GENERATION_ENV :: "byte list" where
  "REGISTRY_GENERATION_ENV = ascii ''WYR_REGISTRY_GENERATION=''"
definition ENDPOINT_ID_ENV :: "byte list" where
  "ENDPOINT_ID_ENV = ascii ''WYR_REGISTRY_ENDPOINT_ID=''"
definition ENDPOINT_GENERATION_ENV :: "byte list" where
  "ENDPOINT_GENERATION_ENV = ascii ''WYR_REGISTRY_ENDPOINT_GENERATION=''"

definition WRRG_MAGIC :: "byte list" where "WRRG_MAGIC = [87, 82, 82, 71]" \<comment> \<open>\<open>b"WRRG"\<close>\<close>
definition WRRG_MAJOR :: u16 where "WRRG_MAJOR = 1"
definition WRRG_MINOR :: u16 where "WRRG_MINOR = 0"

lemmas proto_consts = HEADER_BYTES_def MAX_SERVICES_def MAX_SERVICE_NAME_BYTES_def
  MAX_PROTOCOL_VERSIONS_def SERVICE_LIST_PREFIX_BYTES_def SERVICE_LIST_RECORD_BYTES_def
  MAX_SERVICE_LIST_RECORDS_def MAX_SERVICE_LIST_PAGES_def WRRG_MAGIC_def WRRG_MAJOR_def WRRG_MINOR_def

subsection \<open>Data\<close>

datatype proto_error =
    E_WrongSize | E_WrongMagic | E_UnsupportedVersion | E_UnknownMessageType | E_NonzeroFlags
  | E_NonzeroReserved | E_WrongHandleCount | E_ZeroIdentity | E_WrongEndpointScope | E_InvalidScope
  | E_InvalidServiceName | E_InvalidProtocolId | E_InvalidVersionList | E_NoncanonicalVersions
  | E_ArithmeticOverflow | E_InvalidCorrelationEnvironment | E_InvalidServiceList
  | E_InvalidErrorCode

datatype message_type =
    T_InstallPublication | T_InstallClient | T_Publish | T_Published | T_Retire | T_Retired
  | T_LookupConnect | T_ConnectOffer | T_Connected | T_Enumerate | T_ServiceList | T_Watch
  | T_GenerationChanged | T_Cancel | T_Cancelled | T_Error

text \<open>The discriminants (\<^verbatim>\<open>message_type as u32\<close>) and their parser.\<close>

fun message_type_code :: "message_type \<Rightarrow> u32" where
  "message_type_code T_InstallPublication = 1"
| "message_type_code T_InstallClient = 2"
| "message_type_code T_Publish = 3"
| "message_type_code T_Published = 4"
| "message_type_code T_Retire = 5"
| "message_type_code T_Retired = 6"
| "message_type_code T_LookupConnect = 7"
| "message_type_code T_ConnectOffer = 8"
| "message_type_code T_Connected = 9"
| "message_type_code T_Enumerate = 10"
| "message_type_code T_ServiceList = 11"
| "message_type_code T_Watch = 12"
| "message_type_code T_GenerationChanged = 13"
| "message_type_code T_Cancel = 14"
| "message_type_code T_Cancelled = 15"
| "message_type_code T_Error = 16"

definition parse_message_type :: "u32 \<Rightarrow> (proto_error, message_type) res" where
  "parse_message_type v =
     (if v = 1 then Ok T_InstallPublication else if v = 2 then Ok T_InstallClient
      else if v = 3 then Ok T_Publish else if v = 4 then Ok T_Published
      else if v = 5 then Ok T_Retire else if v = 6 then Ok T_Retired
      else if v = 7 then Ok T_LookupConnect else if v = 8 then Ok T_ConnectOffer
      else if v = 9 then Ok T_Connected else if v = 10 then Ok T_Enumerate
      else if v = 11 then Ok T_ServiceList else if v = 12 then Ok T_Watch
      else if v = 13 then Ok T_GenerationChanged else if v = 14 then Ok T_Cancel
      else if v = 15 then Ok T_Cancelled else if v = 16 then Ok T_Error
      else Err E_UnknownMessageType)"

record header =
  h_message_type :: message_type
  h_registry_generation :: u64
  h_endpoint_id :: u64
  h_endpoint_generation :: u64
  h_transaction_id :: u64

record parsed_header =
  ph_header :: header
  ph_declared_size :: nat
  ph_declared_handle_count :: nat

record decoded_header =
  dh_major :: u16
  dh_minor :: u16
  dh_message_type :: "message_type option"
  dh_flags :: u32
  dh_declared_size :: u32
  dh_declared_handle_count :: u32
  dh_registry_generation :: u64
  dh_endpoint_id :: u64
  dh_endpoint_generation :: u64
  dh_transaction_id :: u64
  dh_reserved :: u64

datatype protocol_version = ProtocolVersion (pv_major: u16) (pv_minor: u16)

text \<open>The derived \<^verbatim>\<open>Ord\<close> of \<^verbatim>\<open>ProtocolVersion\<close> compares the fields in order.\<close>

instantiation protocol_version :: linorder
begin

definition less_eq_protocol_version :: "protocol_version \<Rightarrow> protocol_version \<Rightarrow> bool" where
  "less_eq_protocol_version a b \<longleftrightarrow>
     pv_major a < pv_major b \<or> pv_major a = pv_major b \<and> pv_minor a \<le> pv_minor b"

definition less_protocol_version :: "protocol_version \<Rightarrow> protocol_version \<Rightarrow> bool" where
  "less_protocol_version a b \<longleftrightarrow>
     pv_major a < pv_major b \<or> pv_major a = pv_major b \<and> pv_minor a < pv_minor b"

instance
  by standard
    (auto simp: less_eq_protocol_version_def less_protocol_version_def
       intro: protocol_version.expand)

end

abbreviation default_version :: protocol_version where
  "default_version \<equiv> ProtocolVersion 0 0"

datatype enumeration_scope = ScopeNone | ScopeBootstrapMetadata

text \<open>A version list borrows the bytes of the message; \<open>vl_len\<close> and \<open>vl_get\<close> read it.\<close>

record version_list =
  vl_bytes :: "byte list"

record install_publication =
  ip_endpoint_id :: u64
  ip_endpoint_generation :: u64
  ip_supervisor_role_id :: u32
  ip_publication_id :: u64
  ip_service_generation :: u64
  ip_protocol_id :: u64
  ip_versions :: version_list
  ip_service_name :: "byte list"

record install_client =
  ic_endpoint_id :: u64
  ic_endpoint_generation :: u64
  ic_client_id :: u64
  ic_client_generation :: u64
  ic_scope :: enumeration_scope

record lookup_request =
  lk_protocol_id :: u64
  lk_version :: protocol_version
  lk_service_name :: "byte list"

record watch_request =
  wt_protocol_id :: u64
  wt_last_observed_generation :: u64
  wt_service_name :: "byte list"

record service_list_record =
  sr_protocol_id :: u64
  sr_service_generation :: u64
  sr_versions :: "protocol_version list"
  sr_version_count :: byte
  sr_service_name :: "byte list"

record service_list_page =
  sp_bytes :: "byte list"
  sp_page_index :: u16
  sp_page_count :: u16
  sp_record_count :: u16
  sp_total_count :: u16

datatype error_code =
    C_MalformedRequest | C_CorrelationMismatch | C_WrongEndpointKind | C_TransactionLive
  | C_TransactionReplay | C_OutstandingLimit | C_Capacity | C_NotPublished | C_UnsupportedVersion
  | C_EnumerationDenied | C_UnknownTransaction | C_InvalidState | C_ForwardFailed

fun error_code_code :: "error_code \<Rightarrow> u32" where
  "error_code_code C_MalformedRequest = 1"
| "error_code_code C_CorrelationMismatch = 2"
| "error_code_code C_WrongEndpointKind = 3"
| "error_code_code C_TransactionLive = 4"
| "error_code_code C_TransactionReplay = 5"
| "error_code_code C_OutstandingLimit = 6"
| "error_code_code C_Capacity = 7"
| "error_code_code C_NotPublished = 8"
| "error_code_code C_UnsupportedVersion = 9"
| "error_code_code C_EnumerationDenied = 10"
| "error_code_code C_UnknownTransaction = 11"
| "error_code_code C_InvalidState = 12"
| "error_code_code C_ForwardFailed = 13"

definition parse_error_code :: "u32 \<Rightarrow> (proto_error, error_code) res" where
  "parse_error_code v =
     (if v = 1 then Ok C_MalformedRequest else if v = 2 then Ok C_CorrelationMismatch
      else if v = 3 then Ok C_WrongEndpointKind else if v = 4 then Ok C_TransactionLive
      else if v = 5 then Ok C_TransactionReplay else if v = 6 then Ok C_OutstandingLimit
      else if v = 7 then Ok C_Capacity else if v = 8 then Ok C_NotPublished
      else if v = 9 then Ok C_UnsupportedVersion else if v = 10 then Ok C_EnumerationDenied
      else if v = 11 then Ok C_UnknownTransaction else if v = 12 then Ok C_InvalidState
      else if v = 13 then Ok C_ForwardFailed else Err E_InvalidErrorCode)"

datatype message =
    M_InstallPublication install_publication
  | M_InstallClient install_client
  | M_Publish
  | M_Published
  | M_Retire
  | M_Retired
  | M_LookupConnect lookup_request
  | M_ConnectOffer lookup_request
  | M_Connected
  | M_Enumerate
  | M_ServiceList service_list_page
  | M_Watch watch_request
  | M_GenerationChanged u64
  | M_Cancel u64
  | M_Cancelled u64
  | M_Error error_code

record parsed_message =
  pm_header :: header
  pm_message :: message

subsection \<open>Reading and writing fields\<close>

definition get_u16 :: "byte list \<Rightarrow> nat \<Rightarrow> u16 option" where
  "get_u16 bytes offset =
     Option.bind (checked_add_usize offset 2) (\<lambda>stop.
       map_option from_le (get_range offset stop bytes))"

definition get_u64 :: "byte list \<Rightarrow> nat \<Rightarrow> u64 option" where
  "get_u64 bytes offset =
     Option.bind (checked_add_usize offset 8) (\<lambda>stop.
       map_option from_le (get_range offset stop bytes))"

definition read_u16 :: "byte list \<Rightarrow> nat \<Rightarrow> (proto_error, u16) res" where
  "read_u16 bytes offset = ok_or E_WrongSize (get_u16 bytes offset)"

definition read_u32 :: "byte list \<Rightarrow> nat \<Rightarrow> (proto_error, u32) res" where
  "read_u32 bytes offset =
     rbind (ok_or E_ArithmeticOverflow (checked_add_usize offset 4)) (\<lambda>stop.
     rbind (ok_or E_WrongSize (get_range offset stop bytes)) (\<lambda>value.
     Ok (from_le value)))"

definition read_u64 :: "byte list \<Rightarrow> nat \<Rightarrow> (proto_error, u64) res" where
  "read_u64 bytes offset =
     rbind (ok_or E_ArithmeticOverflow (checked_add_usize offset 8)) (\<lambda>stop.
     rbind (ok_or E_WrongSize (get_range offset stop bytes)) (\<lambda>value.
     Ok (from_le value)))"

definition put_field :: "nat \<Rightarrow> byte list \<Rightarrow> (byte list, proto_error, unit) action" where
  "put_field offset value bytes =
     (case checked_add_usize offset (length value) of
        None \<Rightarrow> (Err E_ArithmeticOverflow, bytes)
      | Some stop \<Rightarrow>
          if stop \<le> length bytes then (Ok (), overwrite offset value bytes)
          else (Err E_WrongSize, bytes))"

definition put_u16 :: "nat \<Rightarrow> u16 \<Rightarrow> (byte list, proto_error, unit) action" where
  "put_u16 offset value = put_field offset (to_le 2 value)"

definition put_u32 :: "nat \<Rightarrow> u32 \<Rightarrow> (byte list, proto_error, unit) action" where
  "put_u32 offset value = put_field offset (to_le 4 value)"

definition put_u64 :: "nat \<Rightarrow> u64 \<Rightarrow> (byte list, proto_error, unit) action" where
  "put_u64 offset value = put_field offset (to_le 8 value)"

definition vl_len :: "version_list \<Rightarrow> nat" where
  "vl_len v = length (vl_bytes v) div 4"

definition vl_is_empty :: "version_list \<Rightarrow> bool" where
  "vl_is_empty v \<longleftrightarrow> vl_bytes v = []"

definition vl_get :: "version_list \<Rightarrow> nat \<Rightarrow> protocol_version option" where
  "vl_get v index =
     Option.bind (checked_mul_usize index 4) (\<lambda>offset.
     Option.bind (get_u16 (vl_bytes v) offset) (\<lambda>major.
     Option.bind (get_u16 (vl_bytes v) (offset + 2)) (\<lambda>minor.
     Some (ProtocolVersion major minor))))"

definition vl_contains :: "version_list \<Rightarrow> protocol_version \<Rightarrow> bool" where
  "vl_contains v version = list_ex (\<lambda>index. vl_get v index = Some version) [0..<vl_len v]"

subsection \<open>Validation\<close>

definition validate_name :: "byte list \<Rightarrow> (proto_error, unit) res" where
  "validate_name name =
     (if name = [] \<or> length name > MAX_SERVICE_NAME_BYTES \<or> \<not> ascii_lowercase (name ! 0)
      then Err E_InvalidServiceName
      else if \<not> list_all (\<lambda>b. ascii_lowercase b \<or> ascii_digit b \<or> b = 46 \<or> b = 45) (drop 1 name)
      then Err E_InvalidServiceName
      else Ok ())"

text \<open>\<^verbatim>\<open>versions.windows(2)\<close>: every adjacent pair is strictly increasing.\<close>

fun windows_increasing :: "protocol_version list \<Rightarrow> bool" where
  "windows_increasing (a # b # vs) = (a < b \<and> windows_increasing (b # vs))"
| "windows_increasing vs = True"

definition validate_versions :: "protocol_version list \<Rightarrow> (proto_error, unit) res" where
  "validate_versions versions =
     (if versions = [] \<or> length versions > MAX_PROTOCOL_VERSIONS then Err E_InvalidVersionList
      else if \<not> windows_increasing versions then Err E_NoncanonicalVersions
      else Ok ())"

fun validate_version_loop ::
  "version_list \<Rightarrow> protocol_version option \<Rightarrow> nat list \<Rightarrow> (proto_error, unit) res" where
  "validate_version_loop v previous [] = Ok ()"
| "validate_version_loop v previous (index # rest) =
     rbind (ok_or E_InvalidVersionList (vl_get v index)) (\<lambda>current.
     if (case previous of None \<Rightarrow> False | Some value \<Rightarrow> value \<ge> current)
     then Err E_NoncanonicalVersions
     else validate_version_loop v (Some current) rest)"

definition validate_version_list :: "version_list \<Rightarrow> (proto_error, unit) res" where
  "validate_version_list v = validate_version_loop v None [0..<vl_len v]"

text \<open>16-bit arithmetic under the build profile.\<close>

definition sub_u16 :: "bool \<Rightarrow> u16 \<Rightarrow> u16 \<Rightarrow> ('e, u16) res" where
  "sub_u16 oc a b = (if oc \<and> a < b then Panic else Ok (a - b))"

definition add_u16 :: "bool \<Rightarrow> u16 \<Rightarrow> u16 \<Rightarrow> ('e, u16) res" where
  "add_u16 oc a b = (if oc \<and> unat a + unat b \<ge> 2 ^ 16 then Panic else Ok (a + b))"

definition mul_u16 :: "bool \<Rightarrow> u16 \<Rightarrow> u16 \<Rightarrow> ('e, u16) res" where
  "mul_u16 oc a b = (if oc \<and> unat a * unat b \<ge> 2 ^ 16 then Panic else Ok (a * b))"

definition div_ceil_2 :: "u16 \<Rightarrow> u16" where
  "div_ceil_2 n = word_of_nat ((unat n + 1) div 2)"

definition validate_page_shape ::
  "bool \<Rightarrow> u16 \<Rightarrow> u16 \<Rightarrow> u16 \<Rightarrow> nat \<Rightarrow> (proto_error, unit) res" where
  "validate_page_shape oc page_index page_count total_count record_count =
     (let expected_pages = (if total_count = 0 then 1 else div_ceil_2 total_count) in
      rbind
        (if total_count = 0 then Ok 0
         else rbind (add_u16 oc page_index 1) (\<lambda>following.
           if following < page_count then Ok 2
           else rbind (sub_u16 oc page_count 1) (\<lambda>full.
                rbind (mul_u16 oc 2 full) (\<lambda>listed.
                rbind (sub_u16 oc total_count listed) (\<lambda>left. Ok (unat left))))))
        (\<lambda>expected_records.
      if page_count \<noteq> expected_pages \<or> record_count \<noteq> expected_records
      then Err E_InvalidServiceList else Ok ()))"

definition require_size :: "byte list \<Rightarrow> nat \<Rightarrow> (proto_error, unit) res" where
  "require_size bytes expected = (if length bytes = expected then Ok () else Err E_WrongSize)"

definition require_handles :: "nat \<Rightarrow> nat \<Rightarrow> (proto_error, unit) res" where
  "require_handles actual expected = (if actual = expected then Ok () else Err E_WrongHandleCount)"

definition exact_header :: "byte list \<Rightarrow> nat \<Rightarrow> message \<Rightarrow> (proto_error, message) res" where
  "exact_header bytes handles value =
     rbind (require_handles handles 0) (\<lambda>_.
     rbind (require_size bytes HEADER_BYTES) (\<lambda>_. Ok value))"

end
