(* ===== verification/Replay.thy ===== *)
theory Replay
  imports Prelude
begin

text \<open>
  The replay window of the registry (\<^verbatim>\<open>Replay<N>\<close> of \<^verbatim>\<open>userspace/registryd/src/lib.rs\<close>): a ring
  of the last \<open>N\<close> completed transactions. The locale \<open>replay_window\<close> is its contract: an abstract
  list of at most \<open>N\<close> values, oldest first. The ring is interpreted at the two sizes the registry
  uses, 32 for clients and 8 for publications.
\<close>

subsection \<open>The ring\<close>

record replay =
  rp_entries :: "u64 list"
  rp_start :: nat
  rp_len :: nat

definition replay_new :: "nat \<Rightarrow> replay" where
  "replay_new n = \<lparr>rp_entries = replicate n 0, rp_start = 0, rp_len = 0\<rparr>"

definition replay_contains :: "replay \<Rightarrow> u64 \<Rightarrow> bool" where
  "replay_contains r value =
     list_ex (\<lambda>index. rp_entries r ! ((rp_start r + index) mod length (rp_entries r)) = value)
       [0..<rp_len r]"

definition replay_push :: "replay \<Rightarrow> u64 \<Rightarrow> replay" where
  "replay_push r value =
     (let n = length (rp_entries r) in
      if rp_len r < n
      then r\<lparr>rp_entries := (rp_entries r)[(rp_start r + rp_len r) mod n := value],
             rp_len := rp_len r + 1\<rparr>
      else r\<lparr>rp_entries := (rp_entries r)[rp_start r := value],
             rp_start := (rp_start r + 1) mod n\<rparr>)"

subsection \<open>The contract of a replay window\<close>

locale replay_window =
  fixes N :: nat
    and wf :: "'r \<Rightarrow> bool"
    and new :: 'r
    and contains :: "'r \<Rightarrow> 'v \<Rightarrow> bool"
    and push :: "'r \<Rightarrow> 'v \<Rightarrow> 'r"
    and window :: "'r \<Rightarrow> 'v list"
  assumes wf_new: "wf new"
    and window_new: "window new = []"
    and contains_iff: "wf r \<Longrightarrow> contains r v \<longleftrightarrow> v \<in> set (window r)"
    and wf_push: "wf r \<Longrightarrow> wf (push r v)"
    and window_push: "wf r \<Longrightarrow>
      window (push r v) = (if length (window r) < N then window r else tl (window r)) @ [v]"
    and window_bound: "wf r \<Longrightarrow> length (window r) \<le> N"
    and N_pos: "0 < N"
begin

text \<open>Pushing values one after the other.\<close>

definition pushes :: "'r \<Rightarrow> 'v list \<Rightarrow> 'r" where
  "pushes r vs = foldl push r vs"

lemma wf_pushes: "wf r \<Longrightarrow> wf (pushes r vs)"
  unfolding pushes_def by (induction vs arbitrary: r) (simp_all add: wf_push)

text \<open>The window is the last \<open>N\<close> values pushed.\<close>

lemma window_push_drop:
  assumes "wf r"
  shows "window (push r v) = drop (length (window r) + 1 - N) (window r @ [v])"
  using assms window_bound [OF assms] N_pos
  by (cases "length (window r) < N") (auto simp: window_push drop_Suc)

lemma window_pushes:
  assumes "wf r"
  shows "window (pushes r vs) = drop (length (window r) + length vs - N) (window r @ vs)"
  using assms
proof (induction vs arbitrary: r)
  case Nil
  then show ?case using window_bound [of r] by (simp add: pushes_def)
next
  case (Cons v vs)
  let ?w = "window r" and ?d = "length (window r) + 1 - N"
  have b: "length ?w \<le> N" by (rule window_bound [OF Cons.prems])
  have p: "window (push r v) = drop ?d (?w @ [v])" by (rule window_push_drop [OF Cons.prems])
  have "window (pushes r (v # vs)) =
      drop (length (window (push r v)) + length vs - N) (window (push r v) @ vs)"
    using Cons.IH [OF wf_push [OF Cons.prems]] by (simp add: pushes_def)
  also have "\<dots> = drop (length ?w + 1 - ?d + length vs - N) (drop ?d (?w @ v # vs))"
    using b N_pos by (simp add: p)
  also have "\<dots> = drop (length ?w + length (v # vs) - N) (?w @ v # vs)"
    using b N_pos by (cases "length ?w = N") (simp_all add: Suc_diff_le diff_diff_left)
  finally show ?case .
qed

text \<open>A value stays refused until \<open>N\<close> later values have been pushed.\<close>

lemma contains_after_pushes:
  assumes "wf r" and "length vs < N"
  shows "contains (pushes (push r v) vs) v"
proof -
  let ?w = "window (push r v)"
  have w: "wf (push r v)" by (rule wf_push [OF assms(1)])
  have l: "?w = butlast ?w @ [v]" using window_push [OF assms(1)] by simp
  have b: "length ?w \<le> N" by (rule window_bound [OF w])
  have "length ?w + length vs - N \<le> length (butlast ?w)" using b assms(2) by simp
  then have "v \<in> set (drop (length ?w + length vs - N) (?w @ vs))"
    using l by (metis append.assoc append_Cons append_Nil drop_append diff_is_0_eq drop0
      in_set_conv_decomp)
  then show ?thesis
    using contains_iff [OF wf_pushes [OF w]] window_pushes [OF w] by simp
qed

text \<open>A value that was never pushed is not refused.\<close>

lemma window_push_subset: "wf r \<Longrightarrow> set (window (push r v)) \<subseteq> insert v (set (window r))"
  using window_push [of r v] by (cases "window r") auto

end

subsection \<open>The ring is a replay window\<close>

definition replay_wf :: "nat \<Rightarrow> replay \<Rightarrow> bool" where
  "replay_wf n r \<longleftrightarrow> length (rp_entries r) = n \<and> rp_len r \<le> n \<and> rp_start r < n \<and>
     (rp_len r < n \<longrightarrow> rp_start r = 0)"

definition replay_window_of :: "replay \<Rightarrow> u64 list" where
  "replay_window_of r =
     map (\<lambda>index. rp_entries r ! ((rp_start r + index) mod length (rp_entries r))) [0..<rp_len r]"

lemma replay_contains_iff: "replay_contains r v \<longleftrightarrow> v \<in> set (replay_window_of r)"
  by (auto simp: replay_contains_def replay_window_of_def list_ex_iff)

lemma replay_wf_push: "replay_wf n r \<Longrightarrow> replay_wf n (replay_push r v)"
  by (auto simp: replay_wf_def replay_push_def Let_def)

lemma ring_offset_other: "s < n \<Longrightarrow> 0 < k \<Longrightarrow> k < n \<Longrightarrow> (s + k) mod n \<noteq> (s :: nat)"
  by (auto simp: mod_if)

lemma replay_window_push:
  assumes wf: "replay_wf n r"
  shows "replay_window_of (replay_push r v) =
    (if length (replay_window_of r) < n then replay_window_of r else tl (replay_window_of r)) @ [v]"
proof (cases "rp_len r < n")
  case True
  with wf show ?thesis
    by (intro nth_equalityI)
      (auto simp: replay_wf_def replay_push_def replay_window_of_def nth_append less_Suc_eq)
next
  case False
  with wf have len: "length (rp_entries r) = n" "rp_len r = n" "rp_start r < n"
    by (auto simp: replay_wf_def)
  let ?e = "rp_entries r" and ?s = "rp_start r"
  have p: "replay_push r v = r\<lparr>rp_entries := ?e[?s := v], rp_start := (?s + 1) mod n\<rparr>"
    using len by (simp add: replay_push_def)
  have o: "replay_window_of (replay_push r v) ! i = (tl (replay_window_of r) @ [v]) ! i" if "i < n" for i
  proof -
    have "((?s + 1) mod n + i) mod n = (?s + Suc i) mod n" by (simp add: mod_add_left_eq)
    moreover have "(?s + Suc i) mod n = ?s" if "Suc i = n" using that len by simp
    moreover have "(?s + Suc i) mod n \<noteq> ?s" if "Suc i < n"
      using that len by (intro ring_offset_other) simp_all
    ultimately show ?thesis using that len
      by (cases "Suc i = n") (auto simp: p replay_window_of_def nth_append nth_tl)
  qed
  have "length (replay_window_of (replay_push r v)) = n" "length (replay_window_of r) = n"
    using len by (simp_all add: p replay_window_of_def)
  with o len(3) show ?thesis by (intro nth_equalityI) simp_all
qed

lemma replay_window_laws:
  assumes "0 < n"
  shows "replay_window n (replay_wf n) (replay_new n) replay_contains replay_push replay_window_of"
proof
  show "replay_wf n (replay_new n)" using assms by (simp add: replay_wf_def replay_new_def)
  show "replay_window_of (replay_new n) = []" by (simp add: replay_window_of_def replay_new_def)
  show "replay_contains r v \<longleftrightarrow> v \<in> set (replay_window_of r)" for r v by (rule replay_contains_iff)
  show "replay_wf n (replay_push r v)" if "replay_wf n r" for r v by (rule replay_wf_push [OF that])
  show "replay_window_of (replay_push r v) =
      (if length (replay_window_of r) < n then replay_window_of r else tl (replay_window_of r)) @ [v]"
    if "replay_wf n r" for r v by (rule replay_window_push [OF that])
  show "length (replay_window_of r) \<le> n" if "replay_wf n r" for r
    using that by (simp add: replay_wf_def replay_window_of_def)
  show "0 < n" by (fact assms)
qed

interpretation client_replay: replay_window 32 "replay_wf 32" "replay_new 32" replay_contains replay_push
    replay_window_of
  by (rule replay_window_laws) simp

interpretation publication_replay: replay_window 8 "replay_wf 8" "replay_new 8" replay_contains
    replay_push replay_window_of
  by (rule replay_window_laws) simp

subsection \<open>Properties\<close>

text \<open>A transaction that a client completed stays in its replay window until 32 further
  transactions have completed: whatever is pushed in between, it is still refused.\<close>

theorem client_replay_remembers:
  assumes "replay_wf 32 r" and "length later < 32"
  shows "replay_contains (foldl replay_push (replay_push r tx) later) tx"
  using client_replay.contains_after_pushes [OF assms] by (simp add: client_replay.pushes_def)

theorem client_replay_remembers_witness:
  "replay_contains (foldl replay_push (replay_push (replay_new 32) 7) (map word_of_nat [100..<131])) 7"
  using client_replay_remembers [of "replay_new 32" "map word_of_nat [100..<131]" 7]
    client_replay.wf_new by simp

end
