(* ===== verification/RegistryState.thy ===== *)
theory RegistryState
  imports RegistryProto Replay
begin

text \<open>
  The resident state of the bootstrap registry (\<^verbatim>\<open>userspace/registryd/src/lib.rs\<close>): fixed arrays
  of service slots, clients and pending watches, and the identities issued so far. Every operation
  of \<^verbatim>\<open>RegistryState\<close> is an action: its result and the state it leaves, also when it fails.

  Indexing, \<^verbatim>\<open>unwrap\<close>, \<^verbatim>\<open>expect\<close>, \<^verbatim>\<open>copy_from_slice\<close> and \<^verbatim>\<open>debug_assert\<close> panic
  where the source does. The slices \<^verbatim>\<open>name[..name_len]\<close> inside iterator closures are \<open>take\<close>; the
  invariant of the state keeps the length within the array.
\<close>

subsection \<open>Constants and data\<close>

definition MAX_CLIENTS :: nat where "MAX_CLIENTS = 32"
definition MAX_ISSUED_ENDPOINT_IDS :: nat where "MAX_ISSUED_ENDPOINT_IDS = 128"
definition MAX_ISSUED_PUBLICATION_IDS :: nat where "MAX_ISSUED_PUBLICATION_IDS = 64"
definition MAX_ISSUED_CLIENT_IDS :: nat where "MAX_ISSUED_CLIENT_IDS = 64"

lemmas registry_consts = MAX_CLIENTS_def MAX_ISSUED_ENDPOINT_IDS_def MAX_ISSUED_PUBLICATION_IDS_def
  MAX_ISSUED_CLIENT_IDS_def MAX_SERVICES_def MAX_PENDING_WATCHES_def MAX_OUTSTANDING_PER_CLIENT_def
  MAX_CLIENT_REPLAY_def MAX_PUBLICATION_REPLAY_def MAX_SERVICE_NAME_BYTES_def
  MAX_PROTOCOL_VERSIONS_def MAX_SERVICE_LIST_PAGES_def

datatype endpoint_kind = K_Publication | K_Client

record endpoint_identity =
  ep_id :: u64
  ep_generation :: u64

record installed_endpoint_r =
  ie_identity :: endpoint_identity
  ie_handle :: u64
  ie_kind :: endpoint_kind

record forward_offer =
  fo_publication :: endpoint_identity
  fo_publication_handle :: u64
  fo_service_generation :: u64
  fo_client_transaction :: u64

record service_metadata =
  sm_name :: "byte list"
  sm_name_len :: byte
  sm_protocol_id :: u64
  sm_versions :: "protocol_version list"
  sm_version_count :: byte
  sm_service_generation :: u64

definition metadata_name :: "service_metadata \<Rightarrow> byte list" where
  "metadata_name m = take (unat (sm_name_len m)) (sm_name m)"

datatype registry_error =
    R_ZeroIdentity | R_WrongRegistryGeneration | R_DuplicateEndpoint | R_DuplicatePublication
  | R_DuplicateClient | R_DuplicateService | R_StaleServiceGeneration | R_Capacity
  | R_UnknownEndpoint | R_WrongEndpointGeneration | R_NotPublished | R_UnsupportedVersion
  | R_EnumerationDenied | R_TransactionLive | R_TransactionReplay | R_OutstandingLimit
  | R_WrongEndpointKind | R_UnknownTransaction | R_InvalidState

record watch_notification =
  nt_client :: endpoint_identity
  nt_client_handle :: u64
  nt_transaction_id :: u64
  nt_service_generation :: u64

record watch_notifications =
  wn_entries :: "watch_notification option list"
  wn_len :: nat

definition notifications_new :: watch_notifications where
  "notifications_new = \<lparr>wn_entries = replicate MAX_PENDING_WATCHES None, wn_len = 0\<rparr>"

definition notifications_push ::
  "watch_notifications \<Rightarrow> watch_notification \<Rightarrow> ('e, watch_notifications) res" where
  "notifications_push n notification =
     (if wn_len n < length (wn_entries n)
      then Ok (n\<lparr>wn_entries := (wn_entries n)[wn_len n := Some notification], wn_len := wn_len n + 1\<rparr>)
      else Panic)"

definition notifications_get :: "watch_notifications \<Rightarrow> nat \<Rightarrow> watch_notification option" where
  "notifications_get n index = Option.bind (get_index index (wn_entries n)) (\<lambda>x. x)"

datatype watch_disposition = Immediate u64 | Pending

record publish_outcome =
  po_service_generation :: u64
  po_notifications :: watch_notifications

record publish_ticket =
  pt_endpoint :: endpoint_identity
  pt_transaction :: u64

record retire_outcome =
  ro_registry_handle :: u64
  ro_service_generation :: u64
  ro_notifications :: watch_notifications

record peer_close_outcome =
  pc_handle :: u64
  pc_kind :: endpoint_kind
  pc_notifications :: watch_notifications

record enumeration_ticket =
  et_client :: endpoint_identity
  et_transaction :: u64
  et_total_count :: u16
  et_page_count :: u16

datatype publication_phase = Installed | Published

record publication =
  pb_endpoint :: endpoint_identity
  pb_handle :: u64
  pb_role_id :: u32
  pb_publication_id :: u64
  pb_service_generation :: u64
  pb_protocol_id :: u64
  pb_versions :: "protocol_version list"
  pb_version_count :: byte
  pb_phase :: publication_phase
  pb_live_transaction :: u64
  pb_replay :: replay

definition publication_supports :: "publication \<Rightarrow> protocol_version \<Rightarrow> ('e, bool) res" where
  "publication_supports p version =
     rbind (region_r 0 (unat (pb_version_count p)) (pb_versions p)) (\<lambda>vs. Ok (version \<in> set vs))"

record service_slot =
  sl_name :: "byte list"
  sl_name_len :: byte
  sl_last_generation :: u64
  sl_active :: "publication option"

definition slot_name :: "service_slot \<Rightarrow> byte list" where
  "slot_name sl = take (unat (sl_name_len sl)) (sl_name sl)"

definition slot_metadata :: "service_slot \<Rightarrow> service_metadata option" where
  "slot_metadata sl =
     (case sl_active sl of
        None \<Rightarrow> None
      | Some p \<Rightarrow>
          if pb_phase p \<noteq> Published then None
          else Some \<lparr>sm_name = sl_name sl, sm_name_len = sl_name_len sl,
            sm_protocol_id = pb_protocol_id p, sm_versions = pb_versions p,
            sm_version_count = pb_version_count p, sm_service_generation = pb_service_generation p\<rparr>)"

record client =
  cl_endpoint :: endpoint_identity
  cl_handle :: u64
  cl_client_id :: u64
  cl_scope :: enumeration_scope
  cl_live_transactions :: "u64 list"
  cl_live_count :: nat
  cl_replay :: replay

record pending_watch =
  pw_client :: endpoint_identity
  pw_client_handle :: u64
  pw_transaction :: u64
  pw_protocol_id :: u64
  pw_last_generation :: u64
  pw_name :: "byte list"
  pw_name_len :: byte

definition watch_name :: "pending_watch \<Rightarrow> byte list" where
  "watch_name w = take (unat (pw_name_len w)) (pw_name w)"

record registry =
  rg_generation :: u64
  rg_services :: "service_slot option list"
  rg_clients :: "client option list"
  rg_watches :: "pending_watch option list"
  rg_issued_endpoint_ids :: "u64 list"
  rg_issued_endpoint_count :: nat
  rg_issued_publication_ids :: "u64 list"
  rg_issued_publication_count :: nat
  rg_issued_client_ids :: "u64 list"
  rg_issued_client_count :: nat

type_synonym 'a rop = "(registry, registry_error, 'a) action"

subsection \<open>Transactions of clients and publications\<close>

definition client_reserve :: "u64 \<Rightarrow> (client, registry_error, unit) action" where
  "client_reserve transaction c =
     (if transaction = 0 then (Err R_ZeroIdentity, c)
      else if replay_contains (cl_replay c) transaction then (Err R_TransactionReplay, c)
      else
        case region_r 0 (cl_live_count c) (cl_live_transactions c) of
          Panic \<Rightarrow> (Panic, c)
        | Err e \<Rightarrow> (Err e, c)
        | Ok live \<Rightarrow>
            if transaction \<in> set live then (Err R_TransactionLive, c)
            else if cl_live_count c = length (cl_live_transactions c) then (Err R_OutstandingLimit, c)
            else (Ok (), c\<lparr>
              cl_live_transactions := (cl_live_transactions c)[cl_live_count c := transaction],
              cl_live_count := cl_live_count c + 1\<rparr>))"

definition client_complete :: "u64 \<Rightarrow> (client, registry_error, unit) action" where
  "client_complete transaction c =
     (case region_r 0 (cl_live_count c) (cl_live_transactions c) of
        Panic \<Rightarrow> (Panic, c)
      | Err e \<Rightarrow> (Err e, c)
      | Ok live \<Rightarrow>
          (case position (\<lambda>value. value = transaction) live of
             None \<Rightarrow> (Ok (), c)
           | Some index \<Rightarrow>
               let count = cl_live_count c - 1;
                   txs = (cl_live_transactions c)[index := cl_live_transactions c ! count] in
               (Ok (), c\<lparr>cl_live_count := count, cl_live_transactions := txs[count := 0],
                         cl_replay := replay_push (cl_replay c) transaction\<rparr>)))"

definition publication_reserve :: "u64 \<Rightarrow> (publication, registry_error, unit) action" where
  "publication_reserve transaction p =
     (if transaction = 0 then (Err R_ZeroIdentity, p)
      else if pb_live_transaction p = transaction then (Err R_TransactionLive, p)
      else if replay_contains (pb_replay p) transaction then (Err R_TransactionReplay, p)
      else if pb_live_transaction p \<noteq> 0 then (Err R_OutstandingLimit, p)
      else (Ok (), p\<lparr>pb_live_transaction := transaction\<rparr>))"

definition publication_complete :: "u64 \<Rightarrow> (publication, registry_error, unit) action" where
  "publication_complete transaction p =
     (if pb_live_transaction p \<noteq> transaction then (Panic, p)
      else (Ok (), p\<lparr>pb_live_transaction := 0, pb_replay := replay_push (pb_replay p) transaction\<rparr>))"

subsection \<open>Access to the arrays\<close>

text \<open>\<^verbatim>\<open>self.clients[index].as_mut().unwrap()\<close> and
  \<^verbatim>\<open>self.services[index].as_mut().unwrap().active.as_mut().unwrap()\<close>: run an action on the entry.\<close>

definition on_client :: "nat \<Rightarrow> (client, registry_error, 'a) action \<Rightarrow> 'a rop" where
  "on_client i act s =
     (case rbind (index_r (rg_clients s) i) unwrap of
        Ok c \<Rightarrow> (case act c of (r, c') \<Rightarrow> (r, s\<lparr>rg_clients := (rg_clients s)[i := Some c']\<rparr>))
      | Err e \<Rightarrow> (Err e, s)
      | Panic \<Rightarrow> (Panic, s))"

definition on_slot :: "nat \<Rightarrow> (service_slot, registry_error, 'a) action \<Rightarrow> 'a rop" where
  "on_slot i act s =
     (case rbind (index_r (rg_services s) i) unwrap of
        Ok sl \<Rightarrow> (case act sl of (r, sl') \<Rightarrow> (r, s\<lparr>rg_services := (rg_services s)[i := Some sl']\<rparr>))
      | Err e \<Rightarrow> (Err e, s)
      | Panic \<Rightarrow> (Panic, s))"

definition on_active ::
  "(publication, registry_error, 'a) action \<Rightarrow> (service_slot, registry_error, 'a) action" where
  "on_active act sl =
     (case sl_active sl of
        None \<Rightarrow> (Panic, sl)
      | Some p \<Rightarrow> (case act p of (r, p') \<Rightarrow> (r, sl\<lparr>sl_active := Some p'\<rparr>)))"

text \<open>\<^verbatim>\<open>slot.active.take().unwrap()\<close>.\<close>

definition take_active :: "(service_slot, registry_error, publication) action" where
  "take_active sl =
     (case sl_active sl of None \<Rightarrow> (Panic, sl) | Some p \<Rightarrow> (Ok p, sl\<lparr>sl_active := None\<rparr>))"

definition publication_index :: "endpoint_identity \<Rightarrow> registry \<Rightarrow> (registry_error, nat) res" where
  "publication_index endpoint s =
     rbind (ok_or R_UnknownEndpoint
       (position (\<lambda>slot. case Option.bind slot sl_active of
            None \<Rightarrow> False | Some p \<Rightarrow> ep_id (pb_endpoint p) = ep_id endpoint) (rg_services s))) (\<lambda>index.
     rbind (index_r (rg_services s) index) (\<lambda>slot.
     rbind (unwrap slot) (\<lambda>sl.
     rbind (unwrap (sl_active sl)) (\<lambda>p.
     if pb_endpoint p \<noteq> endpoint then Err R_WrongEndpointGeneration else Ok index))))"

definition client_index :: "endpoint_identity \<Rightarrow> registry \<Rightarrow> (registry_error, nat) res" where
  "client_index endpoint s =
     rbind (ok_or R_UnknownEndpoint
       (position (\<lambda>entry. case entry of
            None \<Rightarrow> False | Some c \<Rightarrow> ep_id (cl_endpoint c) = ep_id endpoint) (rg_clients s))) (\<lambda>index.
     rbind (index_r (rg_clients s) index) (\<lambda>entry.
     rbind (unwrap entry) (\<lambda>c.
     if cl_endpoint c \<noteq> endpoint then Err R_WrongEndpointGeneration else Ok index)))"

subsection \<open>Creation and inspection\<close>

definition registry_new :: "u64 \<Rightarrow> (registry_error, registry) res" where
  "registry_new generation =
     (if generation = 0 then Err R_ZeroIdentity
      else Ok \<lparr>rg_generation = generation, rg_services = replicate MAX_SERVICES None,
        rg_clients = replicate MAX_CLIENTS None, rg_watches = replicate MAX_PENDING_WATCHES None,
        rg_issued_endpoint_ids = replicate MAX_ISSUED_ENDPOINT_IDS 0, rg_issued_endpoint_count = 0,
        rg_issued_publication_ids = replicate MAX_ISSUED_PUBLICATION_IDS 0,
        rg_issued_publication_count = 0,
        rg_issued_client_ids = replicate MAX_ISSUED_CLIENT_IDS 0, rg_issued_client_count = 0\<rparr>)"

definition published_count :: "registry \<Rightarrow> nat" where
  "published_count s = length (filter (\<lambda>sl. slot_metadata sl \<noteq> None) (flatten (rg_services s)))"

definition pending_watch_count :: "registry \<Rightarrow> nat" where
  "pending_watch_count s = length (flatten (rg_watches s))"

definition installed_endpoints :: "registry \<Rightarrow> installed_endpoint_r list" where
  "installed_endpoints s =
     List.map_filter (\<lambda>sl. map_option (\<lambda>p.
        \<lparr>ie_identity = pb_endpoint p, ie_handle = pb_handle p, ie_kind = K_Publication\<rparr>) (sl_active sl))
       (flatten (rg_services s)) @
     map (\<lambda>c. \<lparr>ie_identity = cl_endpoint c, ie_handle = cl_handle c, ie_kind = K_Client\<rparr>)
       (flatten (rg_clients s))"

definition installed_endpoint :: "registry \<Rightarrow> nat \<Rightarrow> installed_endpoint_r option" where
  "installed_endpoint s index = get_index index (installed_endpoints s)"

definition current_generation :: "u64 \<Rightarrow> byte list \<Rightarrow> registry \<Rightarrow> u64" where
  "current_generation protocol_id name s =
     (case find_map (\<lambda>sl.
        case sl_active sl of
          None \<Rightarrow> None
        | Some p \<Rightarrow>
            if slot_name sl = name \<and> pb_protocol_id p = protocol_id \<and> pb_phase p = Published
            then Some (pb_service_generation p) else None) (flatten (rg_services s)) of
        None \<Rightarrow> 0 | Some g \<Rightarrow> g)"

subsection \<open>Installation\<close>

definition validate_install :: "u64 \<Rightarrow> endpoint_identity \<Rightarrow> u64 \<Rightarrow> unit rop" where
  "validate_install generation endpoint handle =
     aread (\<lambda>s.
       if generation \<noteq> rg_generation s then Err R_WrongRegistryGeneration
       else if ep_id endpoint = 0 \<or> ep_generation endpoint = 0 \<or> handle = 0 then Err R_ZeroIdentity
       else Ok ())"

definition validate_fresh_endpoint_id :: "u64 \<Rightarrow> unit rop" where
  "validate_fresh_endpoint_id ident =
     aread (\<lambda>s.
       rbind (region_r 0 (rg_issued_endpoint_count s) (rg_issued_endpoint_ids s)) (\<lambda>issued.
       if ident \<in> set issued then Err R_DuplicateEndpoint
       else if rg_issued_endpoint_count s = MAX_ISSUED_ENDPOINT_IDS then Err R_Capacity
       else Ok ()))"

text \<open>\<^verbatim>\<open>ids[count] = id; count += 1\<close> for the three arrays of issued identities.\<close>

definition record_endpoint_id :: "u64 \<Rightarrow> unit rop" where
  "record_endpoint_id ident s =
     (if rg_issued_endpoint_count s < length (rg_issued_endpoint_ids s)
      then (Ok (), s\<lparr>rg_issued_endpoint_ids := (rg_issued_endpoint_ids s)[rg_issued_endpoint_count s := ident],
                     rg_issued_endpoint_count := rg_issued_endpoint_count s + 1\<rparr>)
      else (Panic, s))"

definition record_publication_id :: "u64 \<Rightarrow> unit rop" where
  "record_publication_id ident s =
     (if rg_issued_publication_count s < length (rg_issued_publication_ids s)
      then (Ok (), s\<lparr>rg_issued_publication_ids :=
                       (rg_issued_publication_ids s)[rg_issued_publication_count s := ident],
                     rg_issued_publication_count := rg_issued_publication_count s + 1\<rparr>)
      else (Panic, s))"

definition record_client_id :: "u64 \<Rightarrow> unit rop" where
  "record_client_id ident s =
     (if rg_issued_client_count s < length (rg_issued_client_ids s)
      then (Ok (), s\<lparr>rg_issued_client_ids := (rg_issued_client_ids s)[rg_issued_client_count s := ident],
                     rg_issued_client_count := rg_issued_client_count s + 1\<rparr>)
      else (Panic, s))"

text \<open>\<^verbatim>\<open>name[..len].copy_from_slice(bytes)\<close> into a zeroed 128 byte array.\<close>

definition store_name :: "byte list \<Rightarrow> ('e, byte list) res" where
  "store_name bytes =
     (if length bytes \<le> MAX_SERVICE_NAME_BYTES
      then Ok (bytes @ replicate (MAX_SERVICE_NAME_BYTES - length bytes) 0) else Panic)"

text \<open>The version array: the first \<open>len\<close> of the four entries, the rest default.\<close>

fun fill_versions :: "version_list \<Rightarrow> nat list \<Rightarrow> ('e, protocol_version list) res" where
  "fill_versions vl [] = Ok []"
| "fill_versions vl (version # rest) =
     rbind (unwrap (vl_get vl version)) (\<lambda>target.
     rbind (fill_versions vl rest) (\<lambda>targets. Ok (target # targets)))"

definition store_versions :: "version_list \<Rightarrow> ('e, protocol_version list) res" where
  "store_versions vl =
     rbind (fill_versions vl [0..<min MAX_PROTOCOL_VERSIONS (vl_len vl)]) (\<lambda>vs.
     Ok (vs @ replicate (MAX_PROTOCOL_VERSIONS - length vs) default_version))"

definition choose_slot :: "install_publication \<Rightarrow> registry \<Rightarrow> (registry_error, nat) res" where
  "choose_slot install s =
     (case position (\<lambda>slot. case slot of
          None \<Rightarrow> False | Some sl \<Rightarrow> slot_name sl = ip_service_name install) (rg_services s) of
        Some index \<Rightarrow>
          rbind (index_r (rg_services s) index) (\<lambda>slot.
          rbind (unwrap slot) (\<lambda>sl.
          if sl_active sl \<noteq> None then Err R_DuplicateService
          else if ip_service_generation install \<le> sl_last_generation sl
          then Err R_StaleServiceGeneration
          else Ok index))
      | None \<Rightarrow> ok_or R_Capacity (position (\<lambda>slot. slot = None) (rg_services s)))"

definition install_publication :: "u64 \<Rightarrow> u64 \<Rightarrow> install_publication \<Rightarrow> unit rop" where
  "install_publication registry_generation handle install =
     (let endpoint = \<lparr>ep_id = ip_endpoint_id install, ep_generation = ip_endpoint_generation install\<rparr> in
      abind (validate_install registry_generation endpoint handle) (\<lambda>_.
      abind (validate_fresh_endpoint_id (ep_id endpoint)) (\<lambda>_.
      abind (aread (\<lambda>s.
        rbind (region_r 0 (rg_issued_publication_count s) (rg_issued_publication_ids s)) (\<lambda>issued.
        if ip_publication_id install \<in> set issued then Err R_DuplicatePublication
        else if rg_issued_publication_count s = MAX_ISSUED_PUBLICATION_IDS then Err R_Capacity
        else Ok ()))) (\<lambda>_.
      abind (aread (choose_slot install)) (\<lambda>index.
      abind (alift (store_name (ip_service_name install))) (\<lambda>name.
      abind (alift (store_versions (ip_versions install))) (\<lambda>versions.
      abind (amod (\<lambda>s. s\<lparr>rg_services := (rg_services s)[index := Some
        \<lparr>sl_name = name, sl_name_len = word_of_nat (length (ip_service_name install)),
         sl_last_generation = ip_service_generation install,
         sl_active = Some
           \<lparr>pb_endpoint = endpoint, pb_handle = handle, pb_role_id = ip_supervisor_role_id install,
            pb_publication_id = ip_publication_id install,
            pb_service_generation = ip_service_generation install,
            pb_protocol_id = ip_protocol_id install, pb_versions = versions,
            pb_version_count = word_of_nat (vl_len (ip_versions install)), pb_phase = Installed,
            pb_live_transaction = 0, pb_replay = replay_new MAX_PUBLICATION_REPLAY\<rparr>\<rparr>]\<rparr>)) (\<lambda>_.
      abind (record_endpoint_id (ep_id endpoint)) (\<lambda>_.
      record_publication_id (ip_publication_id install))))))))))"

definition install_client :: "u64 \<Rightarrow> u64 \<Rightarrow> install_client \<Rightarrow> unit rop" where
  "install_client registry_generation handle install =
     (let endpoint = \<lparr>ep_id = ic_endpoint_id install, ep_generation = ic_endpoint_generation install\<rparr> in
      abind (validate_install registry_generation endpoint handle) (\<lambda>_.
      abind (validate_fresh_endpoint_id (ep_id endpoint)) (\<lambda>_.
      abind (aread (\<lambda>s.
        rbind (region_r 0 (rg_issued_client_count s) (rg_issued_client_ids s)) (\<lambda>issued.
        if ic_client_id install \<in> set issued then Err R_DuplicateClient
        else if rg_issued_client_count s = MAX_ISSUED_CLIENT_IDS then Err R_Capacity
        else Ok ()))) (\<lambda>_.
      abind (aread (\<lambda>s. ok_or R_Capacity (position (\<lambda>entry. entry = None) (rg_clients s)))) (\<lambda>index.
      abind (amod (\<lambda>s. s\<lparr>rg_clients := (rg_clients s)[index := Some
        \<lparr>cl_endpoint = endpoint, cl_handle = handle, cl_client_id = ic_client_id install,
         cl_scope = ic_scope install,
         cl_live_transactions = replicate MAX_OUTSTANDING_PER_CLIENT 0, cl_live_count = 0,
         cl_replay = replay_new MAX_CLIENT_REPLAY\<rparr>]\<rparr>)) (\<lambda>_.
      abind (record_endpoint_id (ep_id endpoint)) (\<lambda>_.
      record_client_id (ic_client_id install))))))))"

subsection \<open>Notifications\<close>

definition watch_matches :: "u64 \<Rightarrow> byte list \<Rightarrow> u64 \<Rightarrow> pending_watch \<Rightarrow> bool" where
  "watch_matches protocol_id name generation w \<longleftrightarrow>
     pw_protocol_id w = protocol_id \<and> watch_name w = name \<and> pw_last_generation w \<noteq> generation"

text \<open>The body of the loop over the watches. The two accesses \<^verbatim>\<open>self.watches[index]\<close> are in
  range: the loop runs over \<^verbatim>\<open>0..self.watches.len()\<close> and the array has a fixed length.\<close>

fun notify_loop ::
  "u64 \<Rightarrow> byte list \<Rightarrow> u64 \<Rightarrow> nat list \<Rightarrow> watch_notifications \<Rightarrow> watch_notifications rop" where
  "notify_loop protocol_id name generation [] notifications = aret notifications"
| "notify_loop protocol_id name generation (index # rest) notifications =
     abind (aread (\<lambda>s. index_r (rg_watches s) index)) (\<lambda>entry.
     case entry of
       None \<Rightarrow> notify_loop protocol_id name generation rest notifications
     | Some w \<Rightarrow>
         if watch_matches protocol_id name generation w then
           abind (aread (\<lambda>s. Ok (client_index (pw_client w) s))) (\<lambda>found.
           abind (case found of
               Ok ci \<Rightarrow>
                 abind (on_client ci (client_complete (pw_transaction w))) (\<lambda>_.
                 alift (notifications_push notifications
                   \<lparr>nt_client = pw_client w, nt_client_handle = pw_client_handle w,
                    nt_transaction_id = pw_transaction w, nt_service_generation = generation\<rparr>))
             | Err e \<Rightarrow> aret notifications
             | Panic \<Rightarrow> alift Panic) (\<lambda>notifications'.
           abind (amod (\<lambda>s. s\<lparr>rg_watches := (rg_watches s)[index := None]\<rparr>)) (\<lambda>_.
           notify_loop protocol_id name generation rest notifications')))
         else notify_loop protocol_id name generation rest notifications)"

definition notify :: "u64 \<Rightarrow> byte list \<Rightarrow> u64 \<Rightarrow> watch_notifications rop" where
  "notify protocol_id name generation =
     abind (aget (\<lambda>s. length (rg_watches s))) (\<lambda>n.
     notify_loop protocol_id name generation [0..<n] notifications_new)"

subsection \<open>Publication\<close>

definition prepare_publish :: "endpoint_identity \<Rightarrow> u64 \<Rightarrow> publish_ticket rop" where
  "prepare_publish endpoint transaction =
     abind (aread (publication_index endpoint)) (\<lambda>index.
     abind (on_slot index (on_active (publication_reserve transaction))) (\<lambda>_.
     abind (on_slot index (on_active (aget pb_phase))) (\<lambda>phase.
     if phase \<noteq> Installed then
       abind (on_slot index (on_active (publication_complete transaction))) (\<lambda>_.
       afail R_InvalidState)
     else aret \<lparr>pt_endpoint = endpoint, pt_transaction = transaction\<rparr>)))"

definition commit_publish :: "publish_ticket \<Rightarrow> publish_outcome rop" where
  "commit_publish ticket =
     abind (aread (publication_index (pt_endpoint ticket))) (\<lambda>index.
     abind (on_slot index (on_active (aget (\<lambda>p. p)))) (\<lambda>p.
     if pb_live_transaction p \<noteq> pt_transaction ticket \<or> pb_phase p \<noteq> Installed
     then afail R_InvalidState
     else
       abind (on_slot index (on_active (amod (\<lambda>p. p\<lparr>pb_phase := Published\<rparr>)))) (\<lambda>_.
       let generation = pb_service_generation p in
       abind (on_slot index (on_active (publication_complete (pt_transaction ticket)))) (\<lambda>_.
       abind (on_slot index (aget slot_name)) (\<lambda>name.
       abind (notify (pb_protocol_id p) name generation) (\<lambda>notifications.
       aret \<lparr>po_service_generation = generation, po_notifications = notifications\<rparr>))))))"

definition publish :: "endpoint_identity \<Rightarrow> u64 \<Rightarrow> publish_outcome rop" where
  "publish endpoint transaction = abind (prepare_publish endpoint transaction) commit_publish"

definition retire :: "endpoint_identity \<Rightarrow> u64 \<Rightarrow> retire_outcome rop" where
  "retire endpoint transaction =
     abind (aread (publication_index endpoint)) (\<lambda>index.
     abind (on_slot index (on_active (publication_reserve transaction))) (\<lambda>_.
     abind (on_slot index (on_active (publication_complete transaction))) (\<lambda>_.
     abind (on_slot index take_active) (\<lambda>p.
     abind (on_slot index (aget slot_name)) (\<lambda>name.
     abind (notify (pb_protocol_id p) name 0) (\<lambda>notifications.
     aret \<lparr>ro_registry_handle = pb_handle p, ro_service_generation = pb_service_generation p,
           ro_notifications = notifications\<rparr>))))))"

subsection \<open>Requests of clients\<close>

definition find_publication :: "lookup_request \<Rightarrow> registry \<Rightarrow> publication option" where
  "find_publication request s =
     find_map (\<lambda>sl.
       case sl_active sl of
         None \<Rightarrow> None
       | Some p \<Rightarrow>
           if pb_phase p = Published \<and> pb_protocol_id p = lk_protocol_id request \<and>
              slot_name sl = lk_service_name request
           then Some p else None) (flatten (rg_services s))"

definition lookup_result :: "u64 \<Rightarrow> lookup_request \<Rightarrow> registry \<Rightarrow> (registry_error, forward_offer) res" where
  "lookup_result transaction request s =
     rbind (ok_or R_NotPublished (find_publication request s)) (\<lambda>p.
     rbind (publication_supports p (lk_version request)) (\<lambda>supported.
     if supported
     then Ok \<lparr>fo_publication = pb_endpoint p, fo_publication_handle = pb_handle p,
              fo_service_generation = pb_service_generation p, fo_client_transaction = transaction\<rparr>
     else Err R_UnsupportedVersion))"

definition lookup :: "endpoint_identity \<Rightarrow> u64 \<Rightarrow> lookup_request \<Rightarrow> forward_offer rop" where
  "lookup client transaction request =
     abind (aread (client_index client)) (\<lambda>index.
     abind (on_client index (client_reserve transaction)) (\<lambda>_.
     abind (aread (\<lambda>s. case lookup_result transaction request s of Panic \<Rightarrow> Panic | r \<Rightarrow> Ok r)) (\<lambda>result.
     abind (on_client index (client_complete transaction)) (\<lambda>_.
     alift result))))"

definition watch :: "endpoint_identity \<Rightarrow> u64 \<Rightarrow> watch_request \<Rightarrow> watch_disposition rop" where
  "watch client transaction request =
     abind (aread (client_index client)) (\<lambda>index.
     abind (on_client index (client_reserve transaction)) (\<lambda>_.
     abind (aget (current_generation (wt_protocol_id request) (wt_service_name request))) (\<lambda>current.
     if current \<noteq> wt_last_observed_generation request then
       abind (on_client index (client_complete transaction)) (\<lambda>_. aret (Immediate current))
     else
       abind (aget (\<lambda>s. length (filter (\<lambda>w. pw_client w = client) (flatten (rg_watches s))))) (\<lambda>per_client.
       abind (aget (\<lambda>s. position (\<lambda>entry. entry = None) (rg_watches s))) (\<lambda>free.
       case free of
         None \<Rightarrow>
           abind (on_client index (client_complete transaction)) (\<lambda>_. afail R_Capacity)
       | Some slot \<Rightarrow>
           if per_client = MAX_OUTSTANDING_PER_CLIENT then
             abind (on_client index (client_complete transaction)) (\<lambda>_. afail R_Capacity)
           else
             abind (alift (store_name (wt_service_name request))) (\<lambda>name.
             abind (on_client index (aget cl_handle)) (\<lambda>handle.
             abind (amod (\<lambda>s. s\<lparr>rg_watches := (rg_watches s)[slot := Some
               \<lparr>pw_client = client, pw_client_handle = handle, pw_transaction = transaction,
                pw_protocol_id = wt_protocol_id request,
                pw_last_generation = wt_last_observed_generation request, pw_name = name,
                pw_name_len = word_of_nat (length (wt_service_name request))\<rparr>]\<rparr>)) (\<lambda>_.
             aret Pending))))))))"

definition cancel :: "endpoint_identity \<Rightarrow> u64 \<Rightarrow> u64 \<Rightarrow> unit rop" where
  "cancel client transaction target =
     abind (aread (client_index client)) (\<lambda>index.
     abind (on_client index (client_reserve transaction)) (\<lambda>_.
     abind (aget (\<lambda>s. position (\<lambda>entry. case entry of
         None \<Rightarrow> False | Some w \<Rightarrow> pw_client w = client \<and> pw_transaction w = target) (rg_watches s)))
       (\<lambda>target_index.
     case target_index of
       Some k \<Rightarrow>
         abind (amod (\<lambda>s. s\<lparr>rg_watches := (rg_watches s)[k := None]\<rparr>)) (\<lambda>_.
         abind (on_client index (client_complete target)) (\<lambda>_.
         on_client index (client_complete transaction)))
     | None \<Rightarrow>
         abind (on_client index (client_complete transaction)) (\<lambda>_. afail R_UnknownTransaction))))"

subsection \<open>Enumeration\<close>

definition enumerate_begin :: "endpoint_identity \<Rightarrow> u64 \<Rightarrow> enumeration_ticket rop" where
  "enumerate_begin client transaction =
     abind (aread (client_index client)) (\<lambda>index.
     abind (on_client index (aget cl_scope)) (\<lambda>scope.
     if scope \<noteq> ScopeBootstrapMetadata then
       abind (on_client index (client_reserve transaction)) (\<lambda>_.
       abind (on_client index (client_complete transaction)) (\<lambda>_.
       afail R_EnumerationDenied))
     else
       abind (on_client index (client_reserve transaction)) (\<lambda>_.
       abind (aget (\<lambda>s. word_of_nat (published_count s))) (\<lambda>total_count.
       let page_count = (if total_count = 0 then 1 else div_ceil_2 total_count) in
       if unat page_count \<le> MAX_SERVICE_LIST_PAGES
       then aret \<lparr>et_client = client, et_transaction = transaction, et_total_count = total_count,
                  et_page_count = page_count\<rparr>
       else alift Panic))))"

text \<open>\<^verbatim>\<open>Iterator::min_by\<close> keeps the first of the least elements.\<close>

fun min_slot :: "service_slot list \<Rightarrow> service_slot option" where
  "min_slot [] = None"
| "min_slot (sl # rest) =
     (case min_slot rest of
        None \<Rightarrow> Some sl
      | Some other \<Rightarrow> if slot_name sl \<le> slot_name other then Some sl else Some other)"

definition next_canonical :: "service_slot option list \<Rightarrow> byte list option \<Rightarrow> service_slot option" where
  "next_canonical values previous =
     min_slot (filter (\<lambda>sl. case previous of None \<Rightarrow> True | Some name \<Rightarrow> slot_name sl > name)
       (filter (\<lambda>sl. slot_metadata sl \<noteq> None) (flatten values)))"

text \<open>The loop \<^verbatim>\<open>for _ in 0..=target\<close>.\<close>

fun canonical_loop ::
  "service_slot option list \<Rightarrow> byte list option \<Rightarrow> nat \<Rightarrow> service_slot option" where
  "canonical_loop values previous 0 = next_canonical values previous"
| "canonical_loop values previous (Suc n) =
     (case next_canonical values previous of
        None \<Rightarrow> None
      | Some sl \<Rightarrow> canonical_loop values (Some (slot_name sl)) n)"

definition nth_canonical :: "service_slot option list \<Rightarrow> nat \<Rightarrow> service_slot option" where
  "nth_canonical values target = canonical_loop values None target"

definition live_ticket :: "enumeration_ticket \<Rightarrow> nat \<Rightarrow> registry \<Rightarrow> (registry_error, bool) res" where
  "live_ticket ticket index s =
     rbind (index_r (rg_clients s) index) (\<lambda>entry.
     rbind (unwrap entry) (\<lambda>c.
     rbind (region_r 0 (cl_live_count c) (cl_live_transactions c)) (\<lambda>live.
     Ok (et_transaction ticket \<in> set live))))"

definition enumeration_record ::
  "enumeration_ticket \<Rightarrow> nat \<Rightarrow> registry \<Rightarrow> (registry_error, service_metadata option) res" where
  "enumeration_record ticket index s =
     rbind (client_index (et_client ticket) s) (\<lambda>ci.
     rbind (live_ticket ticket ci s) (\<lambda>live.
     if \<not> live then Err R_UnknownTransaction
     else Ok (Option.bind (nth_canonical (rg_services s) index) slot_metadata)))"

definition enumeration_complete :: "enumeration_ticket \<Rightarrow> unit rop" where
  "enumeration_complete ticket =
     abind (aread (client_index (et_client ticket))) (\<lambda>index.
     abind (aread (live_ticket ticket index)) (\<lambda>live.
     if \<not> live then afail R_UnknownTransaction
     else on_client index (client_complete (et_transaction ticket))))"

subsection \<open>Completion and departure\<close>

definition complete_transaction :: "endpoint_identity \<Rightarrow> endpoint_kind \<Rightarrow> u64 \<Rightarrow> unit rop" where
  "complete_transaction endpoint kind transaction =
     (case kind of
        K_Client \<Rightarrow>
          abind (aread (client_index endpoint)) (\<lambda>index.
          abind (on_client index (client_reserve transaction)) (\<lambda>_.
          on_client index (client_complete transaction)))
      | K_Publication \<Rightarrow>
          abind (aread (publication_index endpoint)) (\<lambda>index.
          abind (on_slot index (on_active (publication_reserve transaction))) (\<lambda>_.
          on_slot index (on_active (publication_complete transaction)))))"

definition drop_watches_of :: "endpoint_identity \<Rightarrow> pending_watch option list \<Rightarrow> pending_watch option list" where
  "drop_watches_of endpoint ws =
     map (\<lambda>entry. case entry of
        None \<Rightarrow> None | Some w \<Rightarrow> if pw_client w = endpoint then None else Some w) ws"

text \<open>\<^verbatim>\<open>if let Ok(index) = self.publication_index(endpoint)\<close> falls through to the clients on either
  error.\<close>

definition peer_closed :: "endpoint_identity \<Rightarrow> peer_close_outcome rop" where
  "peer_closed endpoint =
     abind (aread (\<lambda>s. case publication_index endpoint s of Panic \<Rightarrow> Panic | r \<Rightarrow> Ok r)) (\<lambda>found.
     case found of
       Ok index \<Rightarrow>
         abind (on_slot index take_active) (\<lambda>p.
         abind (on_slot index (aget slot_name)) (\<lambda>name.
         abind (notify (pb_protocol_id p) name 0) (\<lambda>notifications.
         aret \<lparr>pc_handle = pb_handle p, pc_kind = K_Publication, pc_notifications = notifications\<rparr>)))
     | _ \<Rightarrow>
         abind (aread (client_index endpoint)) (\<lambda>index.
         abind (on_client index (aget cl_handle)) (\<lambda>handle.
         abind (amod (\<lambda>s. s\<lparr>rg_clients := (rg_clients s)[index := None],
                            rg_watches := drop_watches_of endpoint (rg_watches s)\<rparr>)) (\<lambda>_.
         aret \<lparr>pc_handle = handle, pc_kind = K_Client, pc_notifications = notifications_new\<rparr>))))"

end
