(* ===== verification/RegistryInv.thy ===== *)
theory RegistryInv
  imports RegistryState
begin

text \<open>
  The invariant of the registry state and the laws of the primitive updates: what reserving and
  completing a transaction does to a client, which updates of the arrays keep the invariant, and
  that \<open>notify\<close> restores the agreement between pending watches and published generations.
\<close>

subsection \<open>Entries of an array\<close>

definition entry :: "'a option list \<Rightarrow> nat \<Rightarrow> 'a \<Rightarrow> bool" where
  "entry xs i x \<longleftrightarrow> i < length xs \<and> xs ! i = Some x"

lemma entry_update [simp]:
  "entry (xs[i := v]) j x \<longleftrightarrow> (if j = i then i < length xs \<and> v = Some x else entry xs j x)"
  by (auto simp: entry_def)

lemma entry_length: "entry xs i x \<Longrightarrow> i < length xs"
  by (simp add: entry_def)

lemma entry_unique: "entry xs i x \<Longrightarrow> entry xs i y \<Longrightarrow> x = y"
  by (simp add: entry_def)

lemma entry_flatten: "entry xs i x \<Longrightarrow> x \<in> set (flatten xs)"
  by (auto simp: entry_def in_flatten_iff)

lemma flatten_entry: "x \<in> set (flatten xs) \<Longrightarrow> \<exists>i. entry xs i x"
  by (auto simp: entry_def in_flatten_iff)

lemma entry_replicate_None [simp]: "\<not> entry (replicate n None) i x"
  by (simp add: entry_def)

subsection \<open>Transactions of a client\<close>

definition client_live :: "client \<Rightarrow> u64 list" where
  "client_live c = take (cl_live_count c) (cl_live_transactions c)"

definition client_ok :: "client \<Rightarrow> bool" where
  "client_ok c \<longleftrightarrow>
     length (cl_live_transactions c) = 16 \<and> cl_live_count c \<le> 16 \<and> distinct (client_live c) \<and>
     0 \<notin> set (client_live c) \<and> replay_wf 32 (cl_replay c) \<and>
     (\<forall>t \<in> set (client_live c). \<not> replay_contains (cl_replay c) t)"

definition same_client :: "client \<Rightarrow> client \<Rightarrow> bool" where
  "same_client c c' \<longleftrightarrow>
     cl_endpoint c' = cl_endpoint c \<and> cl_handle c' = cl_handle c \<and>
     cl_client_id c' = cl_client_id c \<and> cl_scope c' = cl_scope c"

lemma swap_remove:
  assumes "distinct xs" and "i < length xs"
  defines "ys \<equiv> take (length xs - 1) (xs[i := xs ! (length xs - 1)])"
  shows "distinct ys \<and> set ys = set xs - {xs ! i}"
proof (cases "i = length xs - 1")
  case True
  then have ys: "ys = butlast xs" using assms by (simp add: butlast_conv_take)
  have "xs = butlast xs @ [xs ! i]" using assms(2) True
    by (metis append_butlast_last_id last_conv_nth length_0_conv not_less_zero)
  then show ?thesis using assms(1) ys
    by (metis Diff_insert_absorb distinct_append distinct_butlast insert_is_Un not_distinct_conv_prefix
        set_append sup_commute list.simps(15) list.set(1) disjoint_insert(1))
next
  case False
  then have i: "i < length (butlast xs)" using assms(2) by simp
  let ?l = "xs ! (length xs - 1)"
  have xs: "xs = butlast xs @ [?l]" using assms(2)
    by (metis append_butlast_last_id last_conv_nth length_0_conv not_less_zero)
  have d: "distinct (butlast xs)" "?l \<notin> set (butlast xs)"
    using assms(1) xs by (metis distinct_append disjoint_insert(1) list.simps(15))+
  have ys: "ys = (butlast xs)[i := ?l]"
    unfolding ys_def by (simp add: butlast_conv_take take_update_swap)
  have "butlast xs ! i = xs ! i" using i by (simp add: nth_butlast)
  moreover have "set xs = insert ?l (set (butlast xs))" using xs by (metis Un_insert_right list.simps(15)
      set_append sup_bot_right list.set(1))
  moreover have "xs ! i \<noteq> ?l" using assms(1,2) False by (simp add: nth_eq_iff_index_eq)
  ultimately show ?thesis using ys d i by (auto simp: set_update_distinct distinct_list_update)
qed

lemma client_reserve_spec:
  assumes "client_ok c"
  shows "wp (client_reserve t)
    (\<lambda>_ c'. client_ok c' \<and> same_client c c' \<and> client_live c' = client_live c @ [t] \<and>
       t \<noteq> 0 \<and> t \<notin> set (client_live c) \<and> \<not> replay_contains (cl_replay c) t \<and> cl_replay c' = cl_replay c)
    (\<lambda>e c'. c' = c) c"
proof -
  let ?n = "cl_live_count c" and ?txs = "cl_live_transactions c"
  have r: "region_r 0 ?n ?txs = (Ok (client_live c) :: (registry_error, u64 list) res)"
    using assms by (simp add: region_r_def client_ok_def client_live_def region_def)
  have "take (Suc ?n) (?txs[?n := t]) = client_live c @ [t]" if "?n \<noteq> 16"
    using that assms by (simp add: client_ok_def client_live_def take_Suc_conv_app_nth)
  then show ?thesis using assms
    by (auto simp: wp_def client_reserve_def r client_ok_def client_live_def same_client_def)
qed

lemma client_complete_spec:
  assumes "client_ok c"
  shows "wp (client_complete t)
    (\<lambda>_ c'. client_ok c' \<and> same_client c c' \<and> set (client_live c') = set (client_live c) - {t} \<and>
       (t \<in> set (client_live c) \<longrightarrow> replay_contains (cl_replay c') t))
    (\<lambda>_ _. False) c"
proof -
  let ?n = "cl_live_count c" and ?txs = "cl_live_transactions c" and ?live = "client_live c"
  have ok: "length ?txs = 16" "?n \<le> 16" "distinct ?live" "0 \<notin> set ?live" "replay_wf 32 (cl_replay c)"
    "\<And>x. x \<in> set ?live \<Longrightarrow> \<not> replay_contains (cl_replay c) x"
    using assms by (simp_all add: client_ok_def)
  have r: "region_r 0 ?n ?txs = (Ok ?live :: (registry_error, u64 list) res)"
    using ok by (simp add: region_r_def client_live_def region_def)
  have len: "length ?live = ?n" using ok by (simp add: client_live_def)
  show ?thesis
  proof (cases "position (\<lambda>value. value = t) ?live")
    case None
    then have "t \<notin> set ?live" by (auto simp: position_eq_None)
    with None assms show ?thesis
      by (simp add: wp_def client_complete_def r same_client_def)
  next
    case (Some i)
    then have i: "i < ?n" "?live ! i = t" using position_SomeD [OF Some] len by simp_all
    let ?c = "c\<lparr>cl_live_count := ?n - 1,
      cl_live_transactions := ?txs[i := ?txs ! (?n - 1), ?n - 1 := 0],
      cl_replay := replay_push (cl_replay c) t\<rparr>"
    have "client_live ?c = take (length ?live - 1) (?live[i := ?live ! (length ?live - 1)])"
      using i ok len by (simp add: client_live_def take_update_swap min_def list_update_beyond)
    with swap_remove [OF ok(3), of i] i len
    have live: "distinct (client_live ?c)" "set (client_live ?c) = set ?live - {t}" by simp_all
    have w: "replay_wf 32 (cl_replay ?c)" using ok(5) by (simp add: client_replay.wf_push)
    have "\<not> replay_contains (cl_replay ?c) x" if "x \<in> set (client_live ?c)" for x
      using that live(2) ok(5,6) client_replay.window_push_subset [OF ok(5), of t]
      by (auto simp: replay_contains_iff)
    then have "client_ok ?c" using live ok w by (simp add: client_ok_def)
    moreover have "replay_contains (cl_replay ?c) t"
      using client_replay.contains_after_pushes [OF ok(5), of "[]" t]
      by (simp add: client_replay.pushes_def)
    ultimately show ?thesis using live Some
      by (simp add: wp_def client_complete_def r same_client_def Let_def)
  qed
qed

subsection \<open>The invariant\<close>

definition pub_ok :: "publication \<Rightarrow> bool" where
  "pub_ok p \<longleftrightarrow>
     length (pb_versions p) = 4 \<and> unat (pb_version_count p) \<le> 4 \<and> replay_wf 8 (pb_replay p) \<and>
     pb_service_generation p \<noteq> 0 \<and>
     (pb_live_transaction p \<noteq> 0 \<longrightarrow> \<not> replay_contains (pb_replay p) (pb_live_transaction p))"

definition slot_ok :: "service_slot \<Rightarrow> bool" where
  "slot_ok sl \<longleftrightarrow>
     length (sl_name sl) = 128 \<and> unat (sl_name_len sl) \<le> 128 \<and>
     (\<forall>p. sl_active sl = Some p \<longrightarrow> pub_ok p \<and> pb_service_generation p = sl_last_generation sl)"

definition shape_ok :: "registry \<Rightarrow> bool" where
  "shape_ok s \<longleftrightarrow>
     rg_generation s \<noteq> 0 \<and>
     length (rg_services s) = 32 \<and> length (rg_clients s) = 32 \<and> length (rg_watches s) = 32 \<and>
     length (rg_issued_endpoint_ids s) = 128 \<and> rg_issued_endpoint_count s \<le> 128 \<and>
     length (rg_issued_publication_ids s) = 64 \<and> rg_issued_publication_count s \<le> 64 \<and>
     length (rg_issued_client_ids s) = 64 \<and> rg_issued_client_count s \<le> 64"

definition issued_endpoints :: "registry \<Rightarrow> u64 set" where
  "issued_endpoints s = set (take (rg_issued_endpoint_count s) (rg_issued_endpoint_ids s))"

definition slots_ok :: "service_slot option list \<Rightarrow> bool" where
  "slots_ok ss \<longleftrightarrow>
     (\<forall>i sl. entry ss i sl \<longrightarrow> slot_ok sl) \<and>
     (\<forall>i j a b. entry ss i a \<longrightarrow> entry ss j b \<longrightarrow> slot_name a = slot_name b \<longrightarrow> i = j)"

definition clients_ok :: "client option list \<Rightarrow> bool" where
  "clients_ok cs \<longleftrightarrow> (\<forall>i c. entry cs i c \<longrightarrow> client_ok c)"

definition pub_at :: "service_slot option list \<Rightarrow> nat \<Rightarrow> publication \<Rightarrow> bool" where
  "pub_at ss i p \<longleftrightarrow> (\<exists>sl. entry ss i sl \<and> sl_active sl = Some p)"

text \<open>Every installed endpoint has an identity of its own, and it is one of the issued ones.\<close>

definition ids_ok :: "service_slot option list \<Rightarrow> client option list \<Rightarrow> u64 set \<Rightarrow> bool" where
  "ids_ok ss cs ids \<longleftrightarrow>
     (\<forall>i p. pub_at ss i p \<longrightarrow> ep_id (pb_endpoint p) \<in> ids) \<and>
     (\<forall>i c. entry cs i c \<longrightarrow> ep_id (cl_endpoint c) \<in> ids) \<and>
     (\<forall>i j p q. pub_at ss i p \<longrightarrow> pub_at ss j q \<longrightarrow>
        ep_id (pb_endpoint p) = ep_id (pb_endpoint q) \<longrightarrow> i = j) \<and>
     (\<forall>i j c d. entry cs i c \<longrightarrow> entry cs j d \<longrightarrow>
        ep_id (cl_endpoint c) = ep_id (cl_endpoint d) \<longrightarrow> i = j) \<and>
     (\<forall>i j p c. pub_at ss i p \<longrightarrow> entry cs j c \<longrightarrow> ep_id (pb_endpoint p) \<noteq> ep_id (cl_endpoint c))"

text \<open>A pending watch belongs to an installed client in which its transaction is live.\<close>

definition watch_live :: "client option list \<Rightarrow> pending_watch \<Rightarrow> bool" where
  "watch_live cs w \<longleftrightarrow>
     (\<exists>i c. entry cs i c \<and> cl_endpoint c = pw_client w \<and> cl_handle c = pw_client_handle w \<and>
        pw_transaction w \<in> set (client_live c))"

definition watches_ok :: "client option list \<Rightarrow> pending_watch option list \<Rightarrow> bool" where
  "watches_ok cs ws \<longleftrightarrow>
     (\<forall>k w. entry ws k w \<longrightarrow> unat (pw_name_len w) \<le> length (pw_name w) \<and> watch_live cs w) \<and>
     (\<forall>k l v w. entry ws k v \<longrightarrow> entry ws l w \<longrightarrow> pw_client v = pw_client w \<longrightarrow>
        pw_transaction v = pw_transaction w \<longrightarrow> k = l)"

definition base_ok :: "registry \<Rightarrow> bool" where
  "base_ok s \<longleftrightarrow>
     shape_ok s \<and> slots_ok (rg_services s) \<and> clients_ok (rg_clients s) \<and>
     ids_ok (rg_services s) (rg_clients s) (issued_endpoints s) \<and>
     watches_ok (rg_clients s) (rg_watches s)"

text \<open>No pending watch is out of date: the generation it last saw is the current one.\<close>

definition wake_ok :: "registry \<Rightarrow> bool" where
  "wake_ok s \<longleftrightarrow>
     (\<forall>k w. entry (rg_watches s) k w \<longrightarrow>
        pw_last_generation w = current_generation (pw_protocol_id w) (watch_name w) s)"

definition registry_ok :: "registry \<Rightarrow> bool" where
  "registry_ok s \<longleftrightarrow> base_ok s \<and> wake_ok s"

lemma registry_new_ok: "registry_new g = Ok s \<Longrightarrow> registry_ok s"
  by (auto simp: registry_new_def registry_ok_def base_ok_def wake_ok_def shape_ok_def slots_ok_def
      clients_ok_def ids_ok_def pub_at_def watches_ok_def registry_consts split: if_splits)

subsection \<open>Finding endpoints\<close>

lemma client_index_Ok:
  assumes "client_index ep s = Ok i"
  shows "\<exists>c. entry (rg_clients s) i c \<and> cl_endpoint c = ep"
  using assms unfolding client_index_def
  by (auto simp: res_simps entry_def position_eq_Some split: if_splits option.splits)

lemma client_index_no_panic [simp]: "client_index ep s \<noteq> Panic"
  unfolding client_index_def
  by (auto simp: res_simps position_eq_Some split: option.splits)

lemma publication_index_Ok:
  assumes "publication_index ep s = Ok i"
  shows "\<exists>sl p. entry (rg_services s) i sl \<and> sl_active sl = Some p \<and> pb_endpoint p = ep"
  using assms unfolding publication_index_def
  by (auto simp: res_simps entry_def position_eq_Some split: if_splits option.splits)

lemma publication_index_no_panic [simp]: "publication_index ep s \<noteq> Panic"
  unfolding publication_index_def
  by (auto simp: res_simps position_eq_Some bind_eq_Some_conv split: option.splits)

lemma client_index_found:
  assumes "ids_ok ss (rg_clients s) ids" and "entry (rg_clients s) i c"
  shows "client_index (cl_endpoint c) s = Ok i"
proof -
  let ?p = "\<lambda>e. case e of None \<Rightarrow> False | Some d \<Rightarrow> ep_id (cl_endpoint d) = ep_id (cl_endpoint c)"
  have i: "i < length (rg_clients s)" "rg_clients s ! i = Some c"
    using assms(2) by (simp_all add: entry_def)
  have "\<not> ?p (rg_clients s ! j)" if "j < i" for j
  proof
    assume "?p (rg_clients s ! j)"
    then obtain d where "rg_clients s ! j = Some d" "ep_id (cl_endpoint d) = ep_id (cl_endpoint c)"
      by (auto split: option.splits)
    then have "j = i" using assms that i by (auto simp: ids_ok_def entry_def)
    with that show False by simp
  qed
  then have "position ?p (rg_clients s) = Some i" using i by (simp add: position_eq_Some)
  then show ?thesis using i by (simp add: client_index_def index_r_def)
qed

subsection \<open>Rules for the accesses\<close>

abbreviation put_client :: "nat \<Rightarrow> client \<Rightarrow> registry \<Rightarrow> registry" where
  "put_client i c s \<equiv> s\<lparr>rg_clients := (rg_clients s)[i := Some c]\<rparr>"

abbreviation put_slot :: "nat \<Rightarrow> service_slot \<Rightarrow> registry \<Rightarrow> registry" where
  "put_slot i sl s \<equiv> s\<lparr>rg_services := (rg_services s)[i := Some sl]\<rparr>"

lemma wp_on_client:
  assumes "entry (rg_clients s) i c" and "wp act Q' E' c"
    and "\<And>a c'. Q' a c' \<Longrightarrow> Q a (put_client i c' s)" and "\<And>e c'. E' e c' \<Longrightarrow> E e (put_client i c' s)"
  shows "wp (on_client i act) Q E s"
proof -
  have "rbind (index_r (rg_clients s) i) unwrap = (Ok c :: (registry_error, client) res)"
    using assms(1) by (simp add: entry_def index_r_def)
  then show ?thesis using assms(2-4)
    by (auto simp: wp_def on_client_def split: prod.splits res.splits)
qed

lemma wp_on_client_get [simp]:
  assumes "entry (rg_clients s) i c"
  shows "wp (on_client i (aget f)) Q E s = Q (f c) s"
proof -
  have "(rg_clients s)[i := Some c] = rg_clients s"
    using assms by (metis entry_def list_update_id)
  then show ?thesis using assms by (simp add: wp_def on_client_def entry_def index_r_def aget_def)
qed

lemma wp_on_slot:
  assumes "entry (rg_services s) i sl" and "wp act Q' E' sl"
    and "\<And>a sl'. Q' a sl' \<Longrightarrow> Q a (put_slot i sl' s)" and "\<And>e sl'. E' e sl' \<Longrightarrow> E e (put_slot i sl' s)"
  shows "wp (on_slot i act) Q E s"
proof -
  have "rbind (index_r (rg_services s) i) unwrap = (Ok sl :: (registry_error, service_slot) res)"
    using assms(1) by (simp add: entry_def index_r_def)
  then show ?thesis using assms(2-4)
    by (auto simp: wp_def on_slot_def split: prod.splits res.splits)
qed

lemma wp_on_slot_get [simp]:
  assumes "entry (rg_services s) i sl"
  shows "wp (on_slot i (aget f)) Q E s = Q (f sl) s"
proof -
  have "(rg_services s)[i := Some sl] = rg_services s"
    using assms by (metis entry_def list_update_id)
  then show ?thesis using assms by (simp add: wp_def on_slot_def entry_def index_r_def aget_def)
qed

lemma wp_on_active:
  assumes "sl_active sl = Some p"
  shows "wp (on_active act) Q E sl =
    wp act (\<lambda>a p'. Q a (sl\<lparr>sl_active := Some p'\<rparr>)) (\<lambda>e p'. E e (sl\<lparr>sl_active := Some p'\<rparr>)) p"
  using assms by (auto simp: wp_def on_active_def split: prod.splits res.splits)

lemma wp_on_slot_active_get [simp]:
  assumes "entry (rg_services s) i sl" and "sl_active sl = Some p"
  shows "wp (on_slot i (on_active (aget f))) Q E s = Q (f p) s"
proof -
  have "sl\<lparr>sl_active := Some p\<rparr> = sl" using assms(2) by simp
  then have "on_active (aget f) sl = (Ok (f p), sl)" using assms(2)
    by (simp add: on_active_def aget_def)
  moreover have "(rg_services s)[i := Some sl] = rg_services s"
    using assms(1) by (metis entry_def list_update_id)
  ultimately show ?thesis using assms(1) by (simp add: wp_def on_slot_def entry_def index_r_def)
qed

lemma wp_client_index:
  assumes "\<And>i c. entry (rg_clients s) i c \<Longrightarrow> cl_endpoint c = ep \<Longrightarrow> Q i s" and "\<And>e. E e s"
  shows "wp (aread (client_index ep)) Q E s"
  using assms client_index_Ok [of ep s] by (auto simp: wp_aread split: res.splits)

lemma wp_publication_index:
  assumes "\<And>i sl p. entry (rg_services s) i sl \<Longrightarrow> sl_active sl = Some p \<Longrightarrow> pb_endpoint p = ep \<Longrightarrow> Q i s"
    and "\<And>e. E e s"
  shows "wp (aread (publication_index ep)) Q E s"
  using assms publication_index_Ok [of ep s] by (auto simp: wp_aread split: res.splits)

subsection \<open>The current generation\<close>

lemma current_generation_frame [simp]:
  "current_generation p n (s\<lparr>rg_clients := cs\<rparr>) = current_generation p n s"
  "current_generation p n (s\<lparr>rg_watches := ws\<rparr>) = current_generation p n s"
  "current_generation p n (s\<lparr>rg_issued_endpoint_ids := a\<rparr>) = current_generation p n s"
  "current_generation p n (s\<lparr>rg_issued_endpoint_count := b\<rparr>) = current_generation p n s"
  "current_generation p n (s\<lparr>rg_issued_publication_ids := c\<rparr>) = current_generation p n s"
  "current_generation p n (s\<lparr>rg_issued_publication_count := d\<rparr>) = current_generation p n s"
  "current_generation p n (s\<lparr>rg_issued_client_ids := e\<rparr>) = current_generation p n s"
  "current_generation p n (s\<lparr>rg_issued_client_count := f\<rparr>) = current_generation p n s"
  by (simp_all add: current_generation_def)

lemma current_generation_cong:
  "rg_services s = rg_services t \<Longrightarrow> current_generation p n s = current_generation p n t"
  by (simp add: current_generation_def)

definition slot_generation :: "u64 \<Rightarrow> service_slot \<Rightarrow> u64" where
  "slot_generation protocol_id sl =
     (case sl_active sl of
        None \<Rightarrow> 0
      | Some p \<Rightarrow> if pb_protocol_id p = protocol_id \<and> pb_phase p = Published
                  then pb_service_generation p else 0)"

lemma current_generation_named:
  assumes "slots_ok (rg_services s)" and e: "entry (rg_services s) i sl"
  shows "current_generation proto (slot_name sl) s = slot_generation proto sl"
proof -
  define f where "f = (\<lambda>x. case sl_active x of None \<Rightarrow> None | Some p \<Rightarrow>
    if slot_name x = slot_name sl \<and> pb_protocol_id p = proto \<and> pb_phase p = Published
    then Some (pb_service_generation p) else None)"
  have c: "current_generation proto (slot_name sl) s =
      (case find_map f (flatten (rg_services s)) of None \<Rightarrow> 0 | Some g \<Rightarrow> g)"
    by (simp add: current_generation_def f_def)
  have mem: "sl \<in> set (flatten (rg_services s))" by (rule entry_flatten [OF e])
  have only: "x = sl" if x: "x \<in> set (flatten (rg_services s))" and fx: "f x \<noteq> None" for x
  proof -
    obtain j where j: "entry (rg_services s) j x" using flatten_entry [OF x] by blast
    have "slot_name x = slot_name sl" using fx by (auto simp: f_def split: option.splits if_splits)
    then have "j = i" using assms(1) j e by (auto simp: slots_ok_def)
    with j e show ?thesis by (auto dest: entry_unique)
  qed
  show ?thesis
  proof (cases "find_map f (flatten (rg_services s))")
    case None
    then have "f sl = None" using mem by (simp add: find_map_eq_None)
    with None c show ?thesis by (auto simp: f_def slot_generation_def split: option.splits if_splits)
  next
    case (Some g)
    then obtain x where "x \<in> set (flatten (rg_services s))" "f x = Some g"
      by (blast dest: find_map_SomeD)
    then have "f sl = Some g" using only by auto
    with Some c show ?thesis by (auto simp: f_def slot_generation_def split: option.splits if_splits)
  qed
qed

lemma current_generation_unnamed:
  assumes "\<And>i sl. entry (rg_services s) i sl \<Longrightarrow> slot_name sl \<noteq> name"
  shows "current_generation proto name s = 0"
proof -
  have "slot_name x \<noteq> name" if "x \<in> set (flatten (rg_services s))" for x
    using flatten_entry [OF that] assms by blast
  then have "find_map (\<lambda>sl. case sl_active sl of None \<Rightarrow> None | Some p \<Rightarrow>
      if slot_name sl = name \<and> pb_protocol_id p = proto \<and> pb_phase p = Published
      then Some (pb_service_generation p) else None) (flatten (rg_services s)) = None"
    by (auto simp: find_map_eq_None split: option.splits)
  then show ?thesis by (simp add: current_generation_def)
qed

text \<open>Replacing an entry by one of the same name changes the generations of that name only.\<close>

lemma current_generation_update:
  assumes old: "slots_ok (rg_services s)" and new: "slots_ok ((rg_services s)[i := Some sl'])"
    and i: "i < length (rg_services s)"
    and name: "\<And>sl. entry (rg_services s) i sl \<Longrightarrow> slot_name sl = slot_name sl'"
  shows "current_generation proto name (put_slot i sl' s) =
    (if name = slot_name sl' then slot_generation proto sl' else current_generation proto name s)"
proof (cases "name = slot_name sl'")
  case True
  have "current_generation proto (slot_name sl') (put_slot i sl' s) = slot_generation proto sl'"
    by (rule current_generation_named) (use new i in auto)
  with True show ?thesis by simp
next
  case False
  show ?thesis
  proof (cases "\<exists>j b. entry (rg_services s) j b \<and> slot_name b = name")
    case True
    then obtain j b where b: "entry (rg_services s) j b" "slot_name b = name" by blast
    then have "j \<noteq> i" using False name by auto
    then have e: "entry (rg_services (put_slot i sl' s)) j b" using b(1) by simp
    have "current_generation proto name (put_slot i sl' s) = slot_generation proto b"
      using current_generation_named [OF _ e] new b(2) by simp
    moreover have "current_generation proto name s = slot_generation proto b"
      using current_generation_named [OF old b(1)] b(2) by simp
    ultimately show ?thesis using False by simp
  next
    case none: False
    have "current_generation proto name (put_slot i sl' s) = 0"
      by (rule current_generation_unnamed) (use none False in \<open>auto split: if_splits\<close>)
    moreover have "current_generation proto name s = 0"
      by (rule current_generation_unnamed) (use none in auto)
    ultimately show ?thesis using False by simp
  qed
qed

end
