(* ===== verification/RegistryNotify.thy ===== *)
theory RegistryNotify
  imports RegistryInv
begin

text \<open>
  The updates of the registry state that keep its invariant, one law per kind of update, and the
  notification loop.
\<close>

subsection \<open>Updates of clients\<close>

lemma base_okD:
  assumes "base_ok s"
  shows "shape_ok s" "slots_ok (rg_services s)" "clients_ok (rg_clients s)"
    "ids_ok (rg_services s) (rg_clients s) (issued_endpoints s)"
    "watches_ok (rg_clients s) (rg_watches s)"
  using assms by (simp_all add: base_ok_def)

lemma registry_okD: "registry_ok s \<Longrightarrow> base_ok s" "registry_ok s \<Longrightarrow> wake_ok s"
  by (simp_all add: registry_ok_def)

text \<open>Two clients with the same endpoint are the same entry.\<close>

lemma client_same_entry:
  "ids_ok ss cs ids \<Longrightarrow> entry cs i c \<Longrightarrow> entry cs j d \<Longrightarrow> cl_endpoint c = cl_endpoint d \<Longrightarrow> i = j"
  by (auto simp: ids_ok_def)

lemma ids_ok_client:
  assumes "ids_ok ss cs ids" and "entry cs i c" and "cl_endpoint c' = cl_endpoint c"
  shows "ids_ok ss (cs[i := Some c']) ids"
  using assms unfolding ids_ok_def by (auto simp: entry_length split: if_splits)

lemma watch_live_client:
  assumes "ids_ok ss cs ids" and "entry cs i c" and "same_client c c'" and "watch_live cs w"
    and "pw_client w = cl_endpoint c \<Longrightarrow> pw_transaction w \<in> set (client_live c')"
  shows "watch_live (cs[i := Some c']) w"
proof -
  from assms(4) obtain j d where d: "entry cs j d" "cl_endpoint d = pw_client w"
      "cl_handle d = pw_client_handle w" "pw_transaction w \<in> set (client_live d)"
    unfolding watch_live_def by blast
  show ?thesis
  proof (cases "j = i")
    case True
    then have "d = c" using d(1) assms(2) by (auto dest: entry_unique)
    then have "entry (cs[i := Some c']) i c' \<and> cl_endpoint c' = pw_client w \<and>
        cl_handle c' = pw_client_handle w \<and> pw_transaction w \<in> set (client_live c')"
      using d assms(2,3,5) by (auto simp: same_client_def entry_length)
    then show ?thesis unfolding watch_live_def by blast
  next
    case False
    then have "entry (cs[i := Some c']) j d" using d(1) by simp
    with d show ?thesis unfolding watch_live_def by blast
  qed
qed

lemma base_ok_client:
  assumes ok: "base_ok s" and e: "entry (rg_clients s) i c" and c': "client_ok c'" "same_client c c'"
    and live: "\<And>k w. entry (rg_watches s) k w \<Longrightarrow> pw_client w = cl_endpoint c \<Longrightarrow>
      pw_transaction w \<in> set (client_live c')"
  shows "base_ok (put_client i c' s)"
proof -
  note d = base_okD [OF ok]
  have ep: "cl_endpoint c' = cl_endpoint c" using c'(2) by (simp add: same_client_def)
  have "watches_ok ((rg_clients s)[i := Some c']) (rg_watches s)"
    using d(5) watch_live_client [OF d(4) e c'(2)] live unfolding watches_ok_def by blast
  moreover have "clients_ok ((rg_clients s)[i := Some c'])"
    using d(3) c'(1) by (simp add: clients_ok_def)
  ultimately show ?thesis
    using d ids_ok_client [OF d(4) e ep] by (simp add: base_ok_def shape_ok_def issued_endpoints_def)
qed

lemma wake_ok_frame:
  "wake_ok s \<Longrightarrow> rg_services t = rg_services s \<Longrightarrow>
    (\<And>k w. entry (rg_watches t) k w \<Longrightarrow> entry (rg_watches s) k w) \<Longrightarrow> wake_ok t"
  unfolding wake_ok_def by (metis current_generation_cong)

lemma client_live_of_watch:
  assumes "base_ok s" and "entry (rg_clients s) i c" and "entry (rg_watches s) k w"
    and "pw_client w = cl_endpoint c"
  shows "pw_transaction w \<in> set (client_live c)"
proof -
  note d = base_okD [OF assms(1)]
  obtain j e where e: "entry (rg_clients s) j e" "cl_endpoint e = pw_client w"
      "pw_transaction w \<in> set (client_live e)"
    using d(5) assms(3) unfolding watches_ok_def watch_live_def by blast
  have "j = i" using client_same_entry [OF d(4) e(1) assms(2)] e(2) assms(4) by simp
  with e assms(2) show ?thesis by (auto dest: entry_unique)
qed

text \<open>Reserving a transaction of a client: it is new to the client, so no pending watch has it.\<close>

definition fresh_for :: "registry \<Rightarrow> endpoint_identity \<Rightarrow> u64 \<Rightarrow> bool" where
  "fresh_for s ep t \<longleftrightarrow>
     (\<forall>k w. entry (rg_watches s) k w \<longrightarrow> pw_client w = ep \<longrightarrow> pw_transaction w \<noteq> t)"

lemma wp_reserve:
  assumes ok: "registry_ok s" and e: "entry (rg_clients s) i c"
    and Q: "\<And>c' s'. s' = put_client i c' s \<Longrightarrow> registry_ok s' \<Longrightarrow> entry (rg_clients s') i c' \<Longrightarrow>
      client_ok c' \<Longrightarrow> same_client c c' \<Longrightarrow> client_live c' = client_live c @ [t] \<Longrightarrow>
      t \<notin> set (client_live c) \<Longrightarrow> fresh_for s' (cl_endpoint c) t \<Longrightarrow> t \<noteq> 0 \<Longrightarrow> Q () s'"
    and E: "\<And>err. E err s"
  shows "wp (on_client i (client_reserve t)) Q E s"
proof (rule wp_on_client [OF e client_reserve_spec])
  show "client_ok c" using ok e by (auto simp: registry_ok_def base_ok_def clients_ok_def)
next
  fix a c'
  assume c: "client_ok c' \<and> same_client c c' \<and> client_live c' = client_live c @ [t] \<and>
    t \<noteq> 0 \<and> t \<notin> set (client_live c) \<and> \<not> replay_contains (cl_replay c) t \<and> cl_replay c' = cl_replay c"
  note b = registry_okD(1) [OF ok]
  have base: "base_ok (put_client i c' s)"
    using c client_live_of_watch [OF b e] by (intro base_ok_client [OF b e]) simp_all
  have "registry_ok (put_client i c' s)"
    using base wake_ok_frame [OF registry_okD(2) [OF ok], of "put_client i c' s"]
    by (simp add: registry_ok_def)
  moreover have "fresh_for (put_client i c' s) (cl_endpoint c) t"
    using c client_live_of_watch [OF b e] by (auto simp: fresh_for_def)
  ultimately have "Q () (put_client i c' s)"
    using c e by (intro Q [OF refl]) (simp_all add: entry_length)
  then show "Q a (put_client i c' s)" by simp
next
  fix err c'
  assume "c' = c"
  moreover have "(rg_clients s)[i := Some c] = rg_clients s" using e by (metis entry_def list_update_id)
  ultimately show "E err (put_client i c' s)" using E by simp
qed

lemma wp_complete:
  assumes ok: "registry_ok s" and e: "entry (rg_clients s) i c" and t: "fresh_for s (cl_endpoint c) t"
    and Q: "\<And>c' s'. s' = put_client i c' s \<Longrightarrow> registry_ok s' \<Longrightarrow> entry (rg_clients s') i c' \<Longrightarrow>
      client_ok c' \<Longrightarrow> same_client c c' \<Longrightarrow> set (client_live c') = set (client_live c) - {t} \<Longrightarrow> Q () s'"
  shows "wp (on_client i (client_complete t)) Q E s"
proof (rule wp_on_client [OF e client_complete_spec])
  show "client_ok c" using ok e by (auto simp: registry_ok_def base_ok_def clients_ok_def)
next
  fix a c'
  assume c: "client_ok c' \<and> same_client c c' \<and> set (client_live c') = set (client_live c) - {t} \<and>
    (t \<in> set (client_live c) \<longrightarrow> replay_contains (cl_replay c') t)"
  note b = registry_okD(1) [OF ok]
  have base: "base_ok (put_client i c' s)"
    using c t client_live_of_watch [OF b e] by (intro base_ok_client [OF b e]) (auto simp: fresh_for_def)
  then have "registry_ok (put_client i c' s)"
    using wake_ok_frame [OF registry_okD(2) [OF ok], of "put_client i c' s"]
    by (simp add: registry_ok_def)
  then have "Q () (put_client i c' s)" using c e by (intro Q [OF refl]) (simp_all add: entry_length)
  then show "Q a (put_client i c' s)" by simp
qed simp

subsection \<open>Dropping a watch\<close>

lemma base_ok_drop_watch:
  assumes ok: "base_ok s" and w: "entry (rg_watches s) k w" and e: "entry (rg_clients s) i c"
    and ep: "cl_endpoint c = pw_client w" and c': "client_ok c'" "same_client c c'"
      "set (client_live c') = set (client_live c) - {pw_transaction w}"
  shows "base_ok (s\<lparr>rg_clients := (rg_clients s)[i := Some c'], rg_watches := (rg_watches s)[k := None]\<rparr>)"
proof -
  note d = base_okD [OF ok]
  have ep': "cl_endpoint c' = cl_endpoint c" using c'(2) by (simp add: same_client_def)
  have "watch_live ((rg_clients s)[i := Some c']) v" if v: "entry (rg_watches s) l v" "l \<noteq> k" for l v
  proof (rule watch_live_client [OF d(4) e c'(2)])
    show "watch_live (rg_clients s) v" using d(5) v(1) by (simp add: watches_ok_def)
    assume "pw_client v = cl_endpoint c"
    moreover have "pw_transaction v \<noteq> pw_transaction w" if "pw_client v = pw_client w"
      using d(5) v w that unfolding watches_ok_def by blast
    ultimately show "pw_transaction v \<in> set (client_live c')"
      using client_live_of_watch [OF ok e v(1)] c'(3) ep by simp
  qed
  then have "watches_ok ((rg_clients s)[i := Some c']) ((rg_watches s)[k := None])"
    using d(5) unfolding watches_ok_def by auto
  moreover have "clients_ok ((rg_clients s)[i := Some c'])"
    using d(3) c'(1) by (simp add: clients_ok_def)
  ultimately show ?thesis
    using d ids_ok_client [OF d(4) e ep'] by (simp add: base_ok_def shape_ok_def issued_endpoints_def)
qed

subsection \<open>The notification loop\<close>

definition notification_for :: "u64 \<Rightarrow> pending_watch \<Rightarrow> watch_notification" where
  "notification_for generation w =
     \<lparr>nt_client = pw_client w, nt_client_handle = pw_client_handle w,
      nt_transaction_id = pw_transaction w, nt_service_generation = generation\<rparr>"

text \<open>The notifications collected so far, in order.\<close>

definition collected :: "watch_notifications \<Rightarrow> watch_notification option list" where
  "collected n = take (wn_len n) (wn_entries n)"

lemma notifications_push_Ok:
  assumes "wn_len n < 32" and "length (wn_entries n) = 32"
  shows "\<exists>n'. notifications_push n x = Ok n' \<and> length (wn_entries n') = 32 \<and>
    wn_len n' = wn_len n + 1 \<and> collected n' = collected n @ [Some x]"
  using assms by (simp add: notifications_push_def collected_def take_Suc_conv_app_nth)

text \<open>What the loop keeps of the state: everything but clients and watches.\<close>

definition same_frame :: "registry \<Rightarrow> registry \<Rightarrow> bool" where
  "same_frame s t \<longleftrightarrow>
     rg_services t = rg_services s \<and> rg_generation t = rg_generation s \<and>
     issued_endpoints t = issued_endpoints s"

lemma same_frame_trans: "same_frame s t \<Longrightarrow> same_frame t u \<Longrightarrow> same_frame s u"
  by (simp add: same_frame_def)

text \<open>The outcome of the loop: the invariant holds, no watch is left that the new generation should
  have woken, and each watch that is gone was notified with that generation.\<close>

definition notified ::
  "u64 \<Rightarrow> u64 \<Rightarrow> byte list \<Rightarrow> registry \<Rightarrow> watch_notifications \<Rightarrow> registry \<Rightarrow> bool" where
  "notified g proto name s n t \<longleftrightarrow>
     same_frame s t \<and>
     (\<forall>k w. entry (rg_watches t) k w \<longrightarrow> entry (rg_watches s) k w) \<and>
     (\<forall>k w. entry (rg_watches s) k w \<longrightarrow>
        entry (rg_watches t) k w \<or>
        watch_matches proto name g w \<and> Some (notification_for g w) \<in> set (collected n))"

lemma wp_watch_at:
  assumes "index < length (rg_watches s)"
  shows "wp (aread (\<lambda>s. index_r (rg_watches s) index)) Q E s = Q (rg_watches s ! index) s"
  using assms by (simp add: wp_aread index_r_def)

lemma wake_match:
  assumes "base_ok s" and "entry (rg_watches s) index w" and "wn_len n < 32" and "length (wn_entries n) = 32"
    and cont: "\<And>n' t. base_ok t \<Longrightarrow> same_frame s t \<Longrightarrow> rg_watches t = (rg_watches s)[index := None] \<Longrightarrow>
      length (wn_entries n') = 32 \<Longrightarrow> wn_len n' = wn_len n + 1 \<Longrightarrow>
      collected n' = collected n @ [Some (notification_for g w)] \<Longrightarrow> wp (k n') Q E t"
  shows "wp (abind (aread (\<lambda>s. Ok (client_index (pw_client w) s))) (\<lambda>found.
           abind (case found of
               Ok ci \<Rightarrow>
                 abind (on_client ci (client_complete (pw_transaction w))) (\<lambda>_.
                 alift (notifications_push n
                   \<lparr>nt_client = pw_client w, nt_client_handle = pw_client_handle w,
                    nt_transaction_id = pw_transaction w, nt_service_generation = g\<rparr>))
             | Err e \<Rightarrow> aret n
             | Panic \<Rightarrow> alift Panic) (\<lambda>n'.
           abind (amod (\<lambda>s. s\<lparr>rg_watches := (rg_watches s)[index := None]\<rparr>)) (\<lambda>_. k n')))) Q E s"
proof -
  note d = base_okD [OF assms(1)]
  obtain i c where c: "entry (rg_clients s) i c" "cl_endpoint c = pw_client w"
    using d(5) assms(2) unfolding watches_ok_def watch_live_def by blast
  have found: "client_index (pw_client w) s = Ok i" using client_index_found [OF d(4) c(1)] c(2) by simp
  have cok: "client_ok c" using d(3) c(1) by (auto simp: clients_ok_def)
  obtain n' where n': "notifications_push n (notification_for g w) = (Ok n' :: (registry_error, _) res)"
      "length (wn_entries n') = 32" "wn_len n' = wn_len n + 1"
      "collected n' = collected n @ [Some (notification_for g w)]"
    using notifications_push_Ok [OF assms(3,4)] by blast
  have "wp (on_client i (client_complete (pw_transaction w)))
      (\<lambda>_ t. wp (k n') Q E (t\<lparr>rg_watches := (rg_watches t)[index := None]\<rparr>)) E s"
  proof (rule wp_on_client [OF c(1) client_complete_spec [OF cok]])
    fix a c'
    assume c': "client_ok c' \<and> same_client c c' \<and>
      set (client_live c') = set (client_live c) - {pw_transaction w} \<and>
      (pw_transaction w \<in> set (client_live c) \<longrightarrow> replay_contains (cl_replay c') (pw_transaction w))"
    let ?t = "s\<lparr>rg_clients := (rg_clients s)[i := Some c'], rg_watches := (rg_watches s)[index := None]\<rparr>"
    have "base_ok ?t" using c' by (intro base_ok_drop_watch [OF assms(1,2) c]) simp_all
    then have "wp (k n') Q E ?t"
      using n'(2-4) by (intro cont) (simp_all add: same_frame_def issued_endpoints_def)
    then show "wp (k n') Q E ((put_client i c' s)\<lparr>rg_watches :=
        (rg_watches (put_client i c' s))[index := None]\<rparr>)" by simp
  qed simp
  then show ?thesis
    using n'(1) by (simp add: wp_simps found notification_for_def)
qed

lemma notify_loop_spec:
  assumes "base_ok s" and "set is \<subseteq> {..<32}" and "length (wn_entries n) = 32"
    and "wn_len n + length is \<le> 32"
    and "\<And>k w. entry (rg_watches s) k w \<Longrightarrow>
      pw_last_generation w = current_generation (pw_protocol_id w) (watch_name w) s \<or>
      watch_matches proto name g w \<and> k \<in> set is"
  shows "wp (notify_loop proto name g is n)
    (\<lambda>n' t. registry_ok t \<and> notified g proto name s n' t \<and> set (collected n) \<subseteq> set (collected n'))
    (\<lambda>_ _. False) s"
  using assms
proof (induction "is" arbitrary: s n)
  case Nil
  then show ?case
    by (auto simp: wp_simps registry_ok_def wake_ok_def notified_def same_frame_def)
next
  case (Cons index rest)
  have index: "index < length (rg_watches s)"
    using Cons.prems(1,2) by (simp add: base_ok_def shape_ok_def)
  let ?Q = "\<lambda>n n' t. registry_ok t \<and> notified g proto name s n' t \<and> set (collected n) \<subseteq> set (collected n')"
  show ?case
  proof (cases "\<exists>w. rg_watches s ! index = Some w \<and> watch_matches proto name g w")
    case False
    have "wp (notify_loop proto name g rest n) (?Q n) (\<lambda>_ _. False) s"
    proof (rule Cons.IH)
      show "pw_last_generation w = current_generation (pw_protocol_id w) (watch_name w) s \<or>
          watch_matches proto name g w \<and> k \<in> set rest" if "entry (rg_watches s) k w" for k w
        using Cons.prems(5) [OF that] False that by (auto simp: entry_def)
    qed (use Cons.prems in auto)
    with False show ?thesis
      by (auto simp: wp_abind wp_watch_at [OF index] split: option.splits)
  next
    case True
    then obtain w where w: "rg_watches s ! index = Some w" "watch_matches proto name g w" by blast
    then have e: "entry (rg_watches s) index w" using index by (simp add: entry_def)
    have step: "wp (notify_loop proto name g rest n') (?Q n) (\<lambda>_ _. False) t"
      if t: "base_ok t" "same_frame s t" "rg_watches t = (rg_watches s)[index := None]"
        "length (wn_entries n') = 32" "wn_len n' = wn_len n + 1"
        "collected n' = collected n @ [Some (notification_for g w)]" for n' t
    proof (rule wp_mono)
      show "wp (notify_loop proto name g rest n')
        (\<lambda>n'' u. registry_ok u \<and> notified g proto name t n'' u \<and> set (collected n') \<subseteq> set (collected n''))
        (\<lambda>_ _. False) t"
      proof (rule Cons.IH)
        have "current_generation p m t = current_generation p m s" for p m
          using t(2) by (intro current_generation_cong) (simp add: same_frame_def)
        then show "pw_last_generation v = current_generation (pw_protocol_id v) (watch_name v) t \<or>
            watch_matches proto name g v \<and> k \<in> set rest" if "entry (rg_watches t) k v" for k v
          using Cons.prems(5) [of k v] that t(3) by (auto split: if_splits)
      qed (use Cons.prems t in auto)
    next
      fix n'' u
      assume u: "registry_ok u \<and> notified g proto name t n'' u \<and> set (collected n') \<subseteq> set (collected n'')"
      then have "Some (notification_for g w) \<in> set (collected n'')" using t(6) by auto
      moreover have "v = w" if "entry (rg_watches s) index v" for v
        using that e by (auto dest: entry_unique)
      ultimately have "notified g proto name s n'' u"
        using u t(2,3) w(2) unfolding notified_def same_frame_def by (auto split: if_splits)
      with u t(6) show "?Q n n'' u" by auto
    qed
    have len: "wn_len n < 32" "length (wn_entries n) = 32" using Cons.prems(3,4) by simp_all
    note m = wake_match [OF Cons.prems(1) e len step]
    show ?thesis
      unfolding notify_loop.simps wp_abind [of "aread (\<lambda>s. index_r (rg_watches s) index)"]
        wp_watch_at [OF index] w(1) option.case if_P [OF w(2)]
      by (rule m)
  qed
qed

lemma notify_spec:
  assumes "base_ok s"
    and "\<And>k w. entry (rg_watches s) k w \<Longrightarrow>
      pw_last_generation w = current_generation (pw_protocol_id w) (watch_name w) s \<or>
      watch_matches proto name g w"
  shows "wp (notify proto name g) (\<lambda>n t. registry_ok t \<and> notified g proto name s n t) E s"
proof -
  have len: "length (rg_watches s) = 32" using assms(1) by (simp add: base_ok_def shape_ok_def)
  have "wp (notify_loop proto name g [0..<32] notifications_new)
      (\<lambda>n' t. registry_ok t \<and> notified g proto name s n' t \<and>
        set (collected notifications_new) \<subseteq> set (collected n')) (\<lambda>_ _. False) s"
  proof (rule notify_loop_spec [OF assms(1)])
    show "pw_last_generation w = current_generation (pw_protocol_id w) (watch_name w) s \<or>
        watch_matches proto name g w \<and> k \<in> set [0..<32]" if "entry (rg_watches s) k w" for k w
      using assms(2) [OF that] that len by (auto dest: entry_length)
  qed (auto simp: notifications_new_def registry_consts)
  then show ?thesis unfolding notify_def by (auto simp: wp_simps len elim!: wp_mono)
qed

end
