(* ===== verification/RegistryOps.thy ===== *)
theory RegistryOps
  imports RegistryNotify
begin

text \<open>
  Every operation of the registry keeps the invariant and never panics, on success and on error.
\<close>

abbreviation keeps :: "'a rop \<Rightarrow> registry \<Rightarrow> bool" where
  "keeps op s \<equiv> wp op (\<lambda>_. registry_ok) (\<lambda>_. registry_ok) s"

subsection \<open>Updates of slots\<close>

lemma ids_ok_slot:
  assumes "ids_ok ss cs ids" and "entry ss i sl"
    and "\<And>p'. sl_active sl' = Some p' \<Longrightarrow> \<exists>p. sl_active sl = Some p \<and> pb_endpoint p' = pb_endpoint p"
  shows "ids_ok (ss[i := Some sl']) cs ids"
proof -
  have "\<exists>q. pub_at ss j q \<and> pb_endpoint p = pb_endpoint q" if "pub_at (ss[i := Some sl']) j p" for j p
  proof (cases "j = i")
    case True
    then have "sl_active sl' = Some p" using that by (auto simp: pub_at_def)
    then obtain q where "sl_active sl = Some q" "pb_endpoint p = pb_endpoint q" using assms(3) by blast
    then show ?thesis using assms(2) True unfolding pub_at_def by blast
  next
    case False
    then have "pub_at ss j p" using that by (simp add: pub_at_def)
    then show ?thesis by blast
  qed
  then have sub: "\<And>j p. pub_at (ss[i := Some sl']) j p \<Longrightarrow>
      \<exists>q. pub_at ss j q \<and> ep_id (pb_endpoint p) = ep_id (pb_endpoint q)" by metis
  note old = assms(1) [unfolded ids_ok_def]
  show ?thesis unfolding ids_ok_def
  proof (intro conjI allI impI)
    show "ep_id (pb_endpoint p) \<in> ids" if "pub_at (ss[i := Some sl']) j p" for j p
      using sub [OF that] old by auto
    show "j = k" if "pub_at (ss[i := Some sl']) j p" "pub_at (ss[i := Some sl']) k q"
      "ep_id (pb_endpoint p) = ep_id (pb_endpoint q)" for j k p q
      using sub [OF that(1)] sub [OF that(2)] that(3) old by metis
    show "ep_id (pb_endpoint p) \<noteq> ep_id (cl_endpoint c)"
      if "pub_at (ss[i := Some sl']) j p" "entry cs k c" for j k p c
      using sub [OF that(1)] that(2) old by metis
  qed (use old in blast)+
qed

lemma slots_ok_slot:
  assumes "slots_ok ss" and "entry ss i sl" and "slot_ok sl'" and "slot_name sl' = slot_name sl"
  shows "slots_ok (ss[i := Some sl'])"
  using assms unfolding slots_ok_def by (auto split: if_splits)

lemma base_ok_slot:
  assumes ok: "base_ok s" and e: "entry (rg_services s) i sl" and "slot_ok sl'"
    and "slot_name sl' = slot_name sl"
    and "\<And>p'. sl_active sl' = Some p' \<Longrightarrow> \<exists>p. sl_active sl = Some p \<and> pb_endpoint p' = pb_endpoint p"
  shows "base_ok (put_slot i sl' s)"
  using base_okD [OF ok] slots_ok_slot [OF _ e assms(3,4)] ids_ok_slot [OF _ e assms(5)]
  by (simp add: base_ok_def shape_ok_def issued_endpoints_def)

lemma slot_generation_update:
  assumes ok: "base_ok s" and e: "entry (rg_services s) i sl" and "slot_ok sl'"
    and n: "slot_name sl' = slot_name sl"
  shows "current_generation proto name (put_slot i sl' s) =
    (if name = slot_name sl then slot_generation proto sl' else current_generation proto name s)"
proof -
  note so = base_okD(2) [OF ok]
  have "current_generation proto name (put_slot i sl' s) =
    (if name = slot_name sl' then slot_generation proto sl' else current_generation proto name s)"
    using so slots_ok_slot [OF so e assms(3) n] e
    by (intro current_generation_update) (auto simp: entry_length n dest: entry_unique)
  with n show ?thesis by simp
qed

text \<open>A change of the active publication that leaves name, endpoint and published generation alone
  keeps the whole invariant.\<close>

lemma registry_ok_quiet:
  assumes ok: "registry_ok s" and e: "entry (rg_services s) i sl" and sl': "slot_ok sl'"
    and n: "slot_name sl' = slot_name sl"
    and a: "\<And>p'. sl_active sl' = Some p' \<Longrightarrow> \<exists>p. sl_active sl = Some p \<and> pb_endpoint p' = pb_endpoint p"
    and g: "\<And>proto. slot_generation proto sl' = slot_generation proto sl"
  shows "registry_ok (put_slot i sl' s)"
proof -
  note b = registry_okD(1) [OF ok]
  have "current_generation proto name (put_slot i sl' s) = current_generation proto name s" for proto name
    using slot_generation_update [OF b e sl' n] current_generation_named [OF base_okD(2) [OF b] e] g
    by simp
  then have "wake_ok (put_slot i sl' s)" using registry_okD(2) [OF ok] by (simp add: wake_ok_def)
  with base_ok_slot [OF b e sl' n a] show ?thesis by (simp add: registry_ok_def)
qed

subsection \<open>Transactions of a publication\<close>

definition same_publication :: "publication \<Rightarrow> publication \<Rightarrow> bool" where
  "same_publication p p' \<longleftrightarrow>
     p' = p\<lparr>pb_live_transaction := pb_live_transaction p', pb_replay := pb_replay p'\<rparr>"

lemma publication_reserve_spec:
  assumes "pub_ok p"
  shows "wp (publication_reserve t)
    (\<lambda>_ p'. pub_ok p' \<and> p' = p\<lparr>pb_live_transaction := t\<rparr> \<and> t \<noteq> 0)
    (\<lambda>_ p'. p' = p) p"
  using assms by (auto simp: wp_def publication_reserve_def pub_ok_def)

lemma publication_complete_spec:
  assumes "pub_ok p" and "pb_live_transaction p = t"
  shows "wp (publication_complete t)
    (\<lambda>_ p'. pub_ok p' \<and> p' = p\<lparr>pb_live_transaction := 0, pb_replay := replay_push (pb_replay p) t\<rparr>)
    (\<lambda>_ _. False) p"
  using assms by (auto simp: wp_def publication_complete_def pub_ok_def publication_replay.wf_push)

lemma slot_ok_active:
  "slot_ok sl \<Longrightarrow> pub_ok p' \<Longrightarrow> pb_service_generation p' = sl_last_generation sl \<Longrightarrow>
     slot_ok (sl\<lparr>sl_active := Some p'\<rparr>)"
  by (simp add: slot_ok_def)

lemma slot_name_active [simp]: "slot_name (sl\<lparr>sl_active := a\<rparr>) = slot_name sl"
  by (simp add: slot_name_def)

lemma slot_ok_of: "registry_ok s \<Longrightarrow> entry (rg_services s) i sl \<Longrightarrow> slot_ok sl"
  by (auto simp: registry_ok_def base_ok_def slots_ok_def)

lemma pub_ok_of:
  "registry_ok s \<Longrightarrow> entry (rg_services s) i sl \<Longrightarrow> sl_active sl = Some p \<Longrightarrow>
     pub_ok p \<and> pb_service_generation p = sl_last_generation sl"
  using slot_ok_of [of s i sl] by (simp add: slot_ok_def)

lemma registry_ok_same_pub:
  assumes ok: "registry_ok s" and e: "entry (rg_services s) i sl" and p: "sl_active sl = Some p"
    and p': "pub_ok p'" "pb_endpoint p' = pb_endpoint p"
      "pb_service_generation p' = pb_service_generation p" "pb_protocol_id p' = pb_protocol_id p"
      "pb_phase p' = pb_phase p"
  shows "registry_ok (put_slot i (sl\<lparr>sl_active := Some p'\<rparr>) s)"
proof (rule registry_ok_quiet [OF ok e])
  show "slot_ok (sl\<lparr>sl_active := Some p'\<rparr>)"
    using slot_ok_of [OF ok e] pub_ok_of [OF ok e p] p'(1,3) by (simp add: slot_ok_active)
qed (use p p' in \<open>auto simp: slot_generation_def\<close>)

lemma wp_publication_reserve:
  assumes ok: "registry_ok s" and e: "entry (rg_services s) i sl" and p: "sl_active sl = Some p"
    and Q: "\<And>sl' p' s'. s' = put_slot i sl' s \<Longrightarrow> registry_ok s' \<Longrightarrow> entry (rg_services s') i sl' \<Longrightarrow>
      sl' = sl\<lparr>sl_active := Some p'\<rparr> \<Longrightarrow> p' = p\<lparr>pb_live_transaction := t\<rparr> \<Longrightarrow> t \<noteq> 0 \<Longrightarrow> Q () s'"
    and E: "\<And>err. E err s"
  shows "wp (on_slot i (on_active (publication_reserve t))) Q E s"
proof (rule wp_on_slot [OF e])
  show "wp (on_active (publication_reserve t))
      (\<lambda>_ sl'. \<exists>p'. sl' = sl\<lparr>sl_active := Some p'\<rparr> \<and> pub_ok p' \<and> p' = p\<lparr>pb_live_transaction := t\<rparr> \<and> t \<noteq> 0)
      (\<lambda>_ sl'. sl' = sl) sl"
    unfolding wp_on_active [OF p]
    using publication_reserve_spec [of p t] pub_ok_of [OF ok e p] p by (auto elim: wp_mono)
next
  fix a sl'
  assume "\<exists>p'. sl' = sl\<lparr>sl_active := Some p'\<rparr> \<and> pub_ok p' \<and> p' = p\<lparr>pb_live_transaction := t\<rparr> \<and> t \<noteq> 0"
  then obtain p' where p': "sl' = sl\<lparr>sl_active := Some p'\<rparr>" "pub_ok p'"
      "p' = p\<lparr>pb_live_transaction := t\<rparr>" "t \<noteq> 0" by blast
  have "registry_ok (put_slot i sl' s)" unfolding p'(1)
    by (rule registry_ok_same_pub [OF ok e p p'(2)]) (simp_all add: p'(3))
  then have "Q () (put_slot i sl' s)" using e p'
    by (intro Q [OF refl _ _ p'(1,3,4)]) (simp_all add: entry_length)
  then show "Q a (put_slot i sl' s)" by simp
next
  fix err sl'
  assume "sl' = sl"
  moreover have "(rg_services s)[i := Some sl] = rg_services s" using e by (metis entry_def list_update_id)
  ultimately show "E err (put_slot i sl' s)" using E by simp
qed

lemma wp_publication_complete:
  assumes ok: "registry_ok s" and e: "entry (rg_services s) i sl" and p: "sl_active sl = Some p"
    and t: "pb_live_transaction p = t"
    and Q: "\<And>sl' p' s'. s' = put_slot i sl' s \<Longrightarrow> registry_ok s' \<Longrightarrow> entry (rg_services s') i sl' \<Longrightarrow>
      sl' = sl\<lparr>sl_active := Some p'\<rparr> \<Longrightarrow>
      p' = p\<lparr>pb_live_transaction := 0, pb_replay := replay_push (pb_replay p) t\<rparr> \<Longrightarrow> Q () s'"
  shows "wp (on_slot i (on_active (publication_complete t))) Q E s"
proof (rule wp_on_slot [OF e])
  show "wp (on_active (publication_complete t))
      (\<lambda>_ sl'. \<exists>p'. sl' = sl\<lparr>sl_active := Some p'\<rparr> \<and> pub_ok p' \<and>
        p' = p\<lparr>pb_live_transaction := 0, pb_replay := replay_push (pb_replay p) t\<rparr>)
      (\<lambda>_ _. False) sl"
    unfolding wp_on_active [OF p]
    using publication_complete_spec [of p t] pub_ok_of [OF ok e p] t by (auto elim: wp_mono)
next
  fix a sl'
  assume "\<exists>p'. sl' = sl\<lparr>sl_active := Some p'\<rparr> \<and> pub_ok p' \<and>
    p' = p\<lparr>pb_live_transaction := 0, pb_replay := replay_push (pb_replay p) t\<rparr>"
  then obtain p' where p': "sl' = sl\<lparr>sl_active := Some p'\<rparr>" "pub_ok p'"
      "p' = p\<lparr>pb_live_transaction := 0, pb_replay := replay_push (pb_replay p) t\<rparr>" by blast
  have "registry_ok (put_slot i sl' s)" unfolding p'(1)
    by (rule registry_ok_same_pub [OF ok e p p'(2)]) (simp_all add: p'(3))
  then have "Q () (put_slot i sl' s)" using e p'
    by (intro Q [OF refl _ _ p'(1,3)]) (simp_all add: entry_length)
  then show "Q a (put_slot i sl' s)" by simp
qed simp

subsection \<open>Requests of clients\<close>

lemma find_publication_Some:
  assumes "find_publication request s = Some p"
  shows "\<exists>i sl. entry (rg_services s) i sl \<and> sl_active sl = Some p \<and> pb_phase p = Published \<and>
    pb_protocol_id p = lk_protocol_id request \<and> slot_name sl = lk_service_name request"
proof -
  obtain sl where sl: "sl \<in> set (flatten (rg_services s))"
      "(case sl_active sl of None \<Rightarrow> None | Some p \<Rightarrow>
         if pb_phase p = Published \<and> pb_protocol_id p = lk_protocol_id request \<and>
            slot_name sl = lk_service_name request then Some p else None) = Some p"
    using find_map_SomeD [OF assms [unfolded find_publication_def]] by blast
  from flatten_entry [OF sl(1)] sl(2) show ?thesis by (auto split: option.splits if_splits)
qed

lemma publication_supports_Ok:
  "pub_ok p \<Longrightarrow> publication_supports p v =
     Ok (v \<in> set (take (unat (pb_version_count p)) (pb_versions p)))"
  by (simp add: publication_supports_def region_r_def pub_ok_def region_def)

lemma lookup_result_no_panic:
  assumes "registry_ok s"
  shows "lookup_result t request s \<noteq> Panic"
proof (cases "find_publication request s")
  case None
  then show ?thesis by (simp add: lookup_result_def)
next
  case (Some p)
  with find_publication_Some [OF Some] pub_ok_of [OF assms] have "pub_ok p" by blast
  with Some show ?thesis by (simp add: lookup_result_def publication_supports_Ok)
qed

lemma same_client_endpoint: "same_client c c' \<Longrightarrow> cl_endpoint c' = cl_endpoint c"
  by (simp add: same_client_def)

text \<open>The frame of every client request: find the client, reserve the transaction, go on. What goes
  on may complete the transaction, which no pending watch has.\<close>

lemma client_session:
  assumes ok: "registry_ok s"
    and go: "\<And>i c c' s'. s' = put_client i c' s \<Longrightarrow> registry_ok s' \<Longrightarrow> entry (rg_clients s) i c \<Longrightarrow>
      entry (rg_clients s') i c' \<Longrightarrow> cl_endpoint c = ep \<Longrightarrow> same_client c c' \<Longrightarrow>
      client_live c' = client_live c @ [t] \<Longrightarrow> t \<notin> set (client_live c) \<Longrightarrow> fresh_for s' ep t \<Longrightarrow> t \<noteq> 0 \<Longrightarrow>
      wp (k i) Q E s'"
    and E: "\<And>e. E e s"
  shows "wp (abind (aread (client_index ep)) (\<lambda>i. abind (on_client i (client_reserve t)) (\<lambda>_. k i))) Q E s"
  unfolding wp_abind
proof (rule wp_client_index, goal_cases)
  case (1 i c)
  show ?case
    by (rule wp_reserve [OF ok 1(1)]) (use 1 in \<open>auto intro: go E\<close>)
qed (rule E)

lemma client_done:
  assumes ok: "registry_ok s" and e: "entry (rg_clients s) i c" "cl_endpoint c = ep"
    and f: "fresh_for s ep t"
    and go: "\<And>c' s'. s' = put_client i c' s \<Longrightarrow> registry_ok s' \<Longrightarrow> entry (rg_clients s') i c' \<Longrightarrow>
      same_client c c' \<Longrightarrow> set (client_live c') = set (client_live c) - {t} \<Longrightarrow> wp (k ()) Q E s'"
  shows "wp (abind (on_client i (client_complete t)) k) Q E s"
  unfolding wp_abind by (rule wp_complete [OF ok e(1)]) (use f e(2) go in auto)

lemma client_done_last:
  assumes ok: "registry_ok s" and e: "entry (rg_clients s) i c" "cl_endpoint c = ep"
    and f: "fresh_for s ep t"
    and go: "\<And>c' s'. s' = put_client i c' s \<Longrightarrow> registry_ok s' \<Longrightarrow> entry (rg_clients s') i c' \<Longrightarrow>
      same_client c c' \<Longrightarrow> set (client_live c') = set (client_live c) - {t} \<Longrightarrow> Q () s'"
  shows "wp (on_client i (client_complete t)) Q E s"
  by (rule wp_complete [OF ok e(1)]) (use f e(2) go in auto)

lemma lookup_keeps:
  assumes "registry_ok s"
  shows "keeps (lookup client t request) s"
  unfolding lookup_def
proof (rule client_session [OF assms], goal_cases)
  case (1 i c c' s')
  have np: "lookup_result t request s' \<noteq> Panic" by (rule lookup_result_no_panic [OF 1(2)])
  have "wp (abind (on_client i (client_complete t)) (\<lambda>_. alift r)) (\<lambda>_. registry_ok) (\<lambda>_. registry_ok) s'"
    if "r \<noteq> Panic" for r :: "(registry_error, forward_offer) res"
    using 1 that by (intro client_done [OF 1(2,4) _ 1(9)])
      (auto simp: same_client_endpoint wp_alift split: res.splits)
  with np show ?case
    by (cases "lookup_result t request s'") (simp_all add: wp_abind wp_aread)
qed (rule assms)

lemma watch_add_ok:
  assumes ok: "registry_ok s" and e: "entry (rg_clients s) i c"
    and k: "k < length (rg_watches s)" "rg_watches s ! k = None"
    and w: "pw_client w = cl_endpoint c" "pw_client_handle w = cl_handle c"
      "pw_transaction w \<in> set (client_live c)" "unat (pw_name_len w) \<le> length (pw_name w)"
    and f: "fresh_for s (cl_endpoint c) (pw_transaction w)"
    and g: "pw_last_generation w = current_generation (pw_protocol_id w) (watch_name w) s"
  shows "registry_ok (s\<lparr>rg_watches := (rg_watches s)[k := Some w]\<rparr>)"
proof -
  note b = base_okD [OF registry_okD(1) [OF ok]]
  have "watch_live (rg_clients s) w" using e w unfolding watch_live_def by auto
  moreover have "pw_transaction w \<noteq> pw_transaction v \<and> pw_transaction v \<noteq> pw_transaction w"
    if "entry (rg_watches s) l v" "pw_client v = pw_client w" for l v
    using f that w(1) unfolding fresh_for_def by metis
  ultimately have "watches_ok (rg_clients s) ((rg_watches s)[k := Some w])"
    using b(5) w(4) k(1) unfolding watches_ok_def entry_update by (simp split: if_splits)
  then have "base_ok (s\<lparr>rg_watches := (rg_watches s)[k := Some w]\<rparr>)"
    using b by (simp add: base_ok_def shape_ok_def issued_endpoints_def)
  moreover have "wake_ok (s\<lparr>rg_watches := (rg_watches s)[k := Some w]\<rparr>)"
    using registry_okD(2) [OF ok] g by (auto simp: wake_ok_def split: if_splits)
  ultimately show ?thesis by (simp add: registry_ok_def)
qed

lemma store_name_Ok:
  "length n \<le> 128 \<Longrightarrow> store_name n = Ok (n @ replicate (128 - length n) 0)"
  by (simp add: store_name_def MAX_SERVICE_NAME_BYTES_def)

lemma unat_length_byte: "length n \<le> 128 \<Longrightarrow> unat (word_of_nat (length n) :: byte) = length n"
  by (simp add: unat_of_nat)

lemma watch_keeps:
  assumes ok: "registry_ok s" and name: "length (wt_service_name request) \<le> 128"
  shows "keeps (watch client t request) s"
  unfolding watch_def
proof (rule client_session [OF ok], goal_cases)
  case (1 i c c' s')
  let ?proto = "wt_protocol_id request" and ?name = "wt_service_name request"
  let ?current = "current_generation ?proto ?name s'"
  have ep: "cl_endpoint c' = client" using 1 by (simp add: same_client_endpoint)
  have fin: "keeps (on_client i (client_complete t)) s'"
    by (rule client_done_last [OF 1(2,4) ep 1(9)])
  show ?case
  proof (cases "?current = wt_last_observed_generation request")
    case False
    then show ?thesis by (simp add: wp_simps fin)
  next
    case True
    show ?thesis
    proof (cases "position (\<lambda>entry. entry = None) (rg_watches s')")
      case None
      with True show ?thesis by (simp add: wp_simps fin)
    next
      case (Some k)
      then have k: "k < length (rg_watches s')" "rg_watches s' ! k = None"
        using position_SomeD [OF Some] by simp_all
      let ?w = "\<lparr>pw_client = client, pw_client_handle = cl_handle c', pw_transaction = t,
        pw_protocol_id = ?proto, pw_last_generation = wt_last_observed_generation request,
        pw_name = ?name @ replicate (128 - length ?name) 0, pw_name_len = word_of_nat (length ?name)\<rparr>"
      have n: "watch_name ?w = ?name" using name by (simp add: watch_name_def unat_length_byte)
      have "registry_ok (s'\<lparr>rg_watches := (rg_watches s')[k := Some ?w]\<rparr>)"
        by (rule watch_add_ok [OF 1(2,4) k])
          (use 1 ep name n True in \<open>simp_all add: unat_length_byte\<close>)
      then show ?thesis
        using True Some fin
        by (simp add: wp_simps store_name_Ok [OF name] wp_on_client_get [OF 1(4)])
    qed
  qed
qed (rule ok)

lemma cancel_keeps:
  assumes ok: "registry_ok s"
  shows "keeps (cancel client t target) s"
  unfolding cancel_def
proof (rule client_session [OF ok], goal_cases)
  case (1 i c c' s')
  let ?p = "\<lambda>e. case e of None \<Rightarrow> False | Some w \<Rightarrow> pw_client w = client \<and> pw_transaction w = target"
  have ep: "cl_endpoint c' = client" using 1 by (simp add: same_client_endpoint)
  show ?case
  proof (cases "position ?p (rg_watches s')")
    case None
    have "wp (abind (on_client i (client_complete t)) (\<lambda>_. afail R_UnknownTransaction))
        (\<lambda>_. registry_ok) (\<lambda>_. registry_ok) s'"
      by (rule client_done [OF 1(2,4) ep 1(9)]) (simp add: wp_afail)
    with None show ?thesis by (simp add: wp_simps)
  next
    case (Some k)
    then obtain w where w: "entry (rg_watches s') k w" "pw_client w = client" "pw_transaction w = target"
      using position_SomeD [OF Some] by (auto simp: entry_def split: option.splits)
    let ?s = "s'\<lparr>rg_watches := (rg_watches s')[k := None]\<rparr>"
    have cok: "client_ok c'" using 1(2,4) by (auto simp: registry_ok_def base_ok_def clients_ok_def)
    have "wp (on_client i (client_complete target)) (\<lambda>_ u. wp (on_client i (client_complete t))
        (\<lambda>_. registry_ok) (\<lambda>_. registry_ok) u) (\<lambda>_. registry_ok) ?s"
    proof (rule wp_on_client [where c = c'])
      show "entry (rg_clients ?s) i c'" using 1(4) by simp
      show "wp (client_complete target) (\<lambda>_ c''. client_ok c'' \<and> same_client c' c'' \<and>
          set (client_live c'') = set (client_live c') - {target} \<and>
          (target \<in> set (client_live c') \<longrightarrow> replay_contains (cl_replay c'') target)) (\<lambda>_ _. False) c'"
        by (rule client_complete_spec [OF cok])
    next
      fix a c''
      assume c'': "client_ok c'' \<and> same_client c' c'' \<and> set (client_live c'') = set (client_live c') - {target} \<and>
        (target \<in> set (client_live c') \<longrightarrow> replay_contains (cl_replay c'') target)"
      let ?u = "s'\<lparr>rg_clients := (rg_clients s')[i := Some c''], rg_watches := (rg_watches s')[k := None]\<rparr>"
      have "base_ok ?u" using c'' w ep registry_okD(1) [OF 1(2)]
        by (intro base_ok_drop_watch [OF _ w(1) 1(4)]) simp_all
      moreover have "wake_ok ?u"
        by (rule wake_ok_frame [OF registry_okD(2) [OF 1(2)]]) (auto split: if_splits)
      ultimately have u: "registry_ok ?u" by (simp add: registry_ok_def)
      have f: "fresh_for ?u client t" using 1(9) by (simp add: fresh_for_def)
      have e: "entry (rg_clients ?u) i c''" "cl_endpoint c'' = client"
        using 1(4) c'' ep by (simp_all add: entry_length same_client_def)
      have eq: "put_client i c'' ?s = ?u" by (cases s') simp
      show "keeps (on_client i (client_complete t)) (put_client i c'' ?s)"
        unfolding eq by (rule client_done_last [OF u e f])
    qed simp
    with Some show ?thesis by (simp add: wp_simps)
  qed
qed (rule ok)

subsection \<open>Enumeration and completion\<close>

lemma published_count_bound: "shape_ok s \<Longrightarrow> published_count s \<le> 32"
  unfolding published_count_def shape_ok_def
  by (metis length_filter_le length_flatten_le le_trans)

lemma page_count_bound:
  assumes "n \<le> 32"
  shows "unat (div_ceil_2 (word_of_nat n)) \<le> 16"
proof -
  have "unat (word_of_nat n :: u16) = n" using assms by (simp add: unat_of_nat)
  moreover have "(n + 1) div 2 \<le> 16" using assms by presburger
  ultimately show ?thesis by (simp add: div_ceil_2_def unat_of_nat)
qed

lemma enumerate_begin_spec:
  assumes ok: "registry_ok s"
  shows "wp (enumerate_begin client t)
    (\<lambda>ticket s'. registry_ok s' \<and> et_client ticket = client \<and> et_transaction ticket = t \<and>
       fresh_for s' client t \<and> rg_services s' = rg_services s \<and>
       unat (et_total_count ticket) = published_count s \<and> unat (et_page_count ticket) \<le> 16)
    (\<lambda>_. registry_ok) s"
  unfolding enumerate_begin_def wp_abind
proof (rule wp_client_index, goal_cases)
  case (1 i c)
  note c = 1
  have n: "published_count s \<le> 32"
    using ok by (intro published_count_bound) (simp add: registry_ok_def base_ok_def)
  show ?case
  proof (cases "cl_scope c = ScopeBootstrapMetadata")
    case False
    have "keeps (on_client i (client_complete t)) s'"
      if "registry_ok s'" "entry (rg_clients s') i c'" "same_client c c'" "fresh_for s' (cl_endpoint c) t"
      for s' c'
      by (rule client_done_last [OF that(1,2) _ that(4)]) (use that in \<open>simp_all add: same_client_endpoint\<close>)
    then have "wp (on_client i (client_reserve t)) (\<lambda>_. keeps (on_client i (client_complete t)))
        (\<lambda>_. registry_ok) s"
      by (intro wp_reserve [OF ok c(1)]) (auto intro: ok)
    with False show ?thesis by (simp add: wp_on_client_get [OF c(1)] wp_simps)
  next
    case True
    let ?Q = "\<lambda>ticket s'. registry_ok s' \<and> et_client ticket = client \<and> et_transaction ticket = t \<and>
       fresh_for s' client t \<and> rg_services s' = rg_services s \<and>
       unat (et_total_count ticket) = published_count s \<and> unat (et_page_count ticket) \<le> 16"
    have "wp (on_client i (client_reserve t))
        (\<lambda>_ s'. ?Q \<lparr>et_client = client, et_transaction = t, et_total_count = word_of_nat (published_count s'),
          et_page_count = (if (word_of_nat (published_count s') :: u16) = 0 then 1
            else div_ceil_2 (word_of_nat (published_count s')))\<rparr> s') (\<lambda>_. registry_ok) s"
    proof (rule wp_reserve [OF ok c(1)], goal_cases)
      case (1 c' s')
      then have "published_count s' = published_count s" by (simp add: published_count_def)
      then show ?case using 1 c n page_count_bound [OF n] by (simp add: unat_of_nat)
    qed (rule ok)
    then show ?thesis
      using True n page_count_bound
      by (simp add: wp_on_client_get [OF c(1)] wp_simps Let_def MAX_SERVICE_LIST_PAGES_def)
        (auto simp: published_count_def elim!: wp_mono)
  qed
qed (rule ok)

lemma live_ticket_Ok:
  assumes "registry_ok s" and "entry (rg_clients s) i c"
  shows "live_ticket ticket i s = Ok (et_transaction ticket \<in> set (client_live c))"
proof -
  have "client_ok c" using assms by (auto simp: registry_ok_def base_ok_def clients_ok_def)
  then show ?thesis using assms(2)
    by (simp add: live_ticket_def entry_def index_r_def region_r_def client_ok_def client_live_def
          region_def)
qed

lemma enumeration_complete_keeps:
  assumes ok: "registry_ok s" and f: "fresh_for s (et_client ticket) (et_transaction ticket)"
  shows "keeps (enumeration_complete ticket) s"
  unfolding enumeration_complete_def wp_abind
proof (rule wp_client_index, goal_cases)
  case (1 i c)
  have "keeps (on_client i (client_complete (et_transaction ticket))) s"
    by (rule client_done_last [OF ok 1 f])
  with ok show ?case by (simp add: wp_aread live_ticket_Ok [OF ok 1(1)] wp_afail)
qed (rule ok)

lemma enumeration_record_no_panic: "registry_ok s \<Longrightarrow> enumeration_record ticket index s \<noteq> Panic"
  using client_index_Ok [of "et_client ticket" s]
  by (cases "client_index (et_client ticket) s")
    (auto simp: enumeration_record_def live_ticket_Ok split: if_splits)

lemma publication_transaction_keeps:
  assumes ok: "registry_ok s"
  shows "keeps (abind (aread (publication_index ep)) (\<lambda>index.
     abind (on_slot index (on_active (publication_reserve t))) (\<lambda>_.
     on_slot index (on_active (publication_complete t))))) s"
  unfolding wp_abind
proof (rule wp_publication_index, goal_cases)
  case (1 i sl p)
  show ?case
  proof (rule wp_publication_reserve [OF ok 1(1,2)], goal_cases)
    case (1 sl' p' s')
    then show ?case by (intro wp_publication_complete [OF 1(2,3)]) auto
  qed (rule ok)
qed (rule ok)

lemma complete_transaction_keeps:
  assumes ok: "registry_ok s"
  shows "keeps (complete_transaction ep kind t) s"
proof (cases kind)
  case K_Publication
  then show ?thesis using publication_transaction_keeps [OF ok] by (simp add: complete_transaction_def)
next
  case K_Client
  have "keeps (abind (aread (client_index ep)) (\<lambda>index.
      abind (on_client index (client_reserve t)) (\<lambda>_. on_client index (client_complete t)))) s"
  proof (rule client_session [OF ok], goal_cases)
    case (1 i c c' s')
    then show ?case by (intro client_done_last [OF 1(2,4) _ 1(9)]) (simp_all add: same_client_endpoint)
  qed (rule ok)
  with K_Client show ?thesis by (simp add: complete_transaction_def)
qed

subsection \<open>Publication\<close>

lemma prepare_publish_keeps:
  assumes ok: "registry_ok s"
  shows "keeps (prepare_publish ep t) s"
  unfolding prepare_publish_def wp_abind
proof (rule wp_publication_index, goal_cases)
  case (1 i sl p)
  show ?case
  proof (rule wp_publication_reserve [OF ok 1(1,2)], goal_cases)
    case (1 sl' p' s')
    have a: "sl_active sl' = Some p'" using 1 by simp
    have "keeps (on_slot i (on_active (publication_complete t))) s'"
      by (rule wp_publication_complete [OF 1(2,3) a]) (use 1 in auto)
    then show ?case using 1 by (simp add: wp_on_slot_active_get [OF 1(3) a] wp_simps)
  qed (rule ok)
qed (rule ok)

text \<open>A change of a slot after which \<open>notify\<close> runs: the watches of the slot's name and protocol are
  the only ones that may be out of date.\<close>

lemma change_and_notify:
  assumes ok: "registry_ok s" and e: "entry (rg_services s) i sl" and sl': "slot_ok sl'"
    and n: "slot_name sl' = slot_name sl"
    and a: "\<And>p'. sl_active sl' = Some p' \<Longrightarrow> \<exists>p. sl_active sl = Some p \<and> pb_endpoint p' = pb_endpoint p"
    and other: "\<And>q. q \<noteq> proto \<Longrightarrow> slot_generation q sl' = slot_generation q sl"
    and g: "slot_generation proto sl' = slot_generation proto sl \<or>
      slot_generation proto sl' = g \<and> slot_generation proto sl \<noteq> g"
  shows "wp (notify proto (slot_name sl) g)
    (\<lambda>n t. registry_ok t \<and> notified g proto (slot_name sl) (put_slot i sl' s) n t) E (put_slot i sl' s)"
proof (rule notify_spec)
  note b = registry_okD(1) [OF ok]
  show "base_ok (put_slot i sl' s)" by (rule base_ok_slot [OF b e sl' n a])
  fix k w
  assume "entry (rg_watches (put_slot i sl' s)) k w"
  then have w: "pw_last_generation w = current_generation (pw_protocol_id w) (watch_name w) s"
    using registry_okD(2) [OF ok] by (simp add: wake_ok_def)
  note u = slot_generation_update [OF b e sl' n, of "pw_protocol_id w" "watch_name w"]
  have c: "current_generation q (slot_name sl) s = slot_generation q sl" for q
    by (rule current_generation_named [OF base_okD(2) [OF b] e])
  show "pw_last_generation w = current_generation (pw_protocol_id w) (watch_name w) (put_slot i sl' s) \<or>
      watch_matches proto (slot_name sl) g w"
    using w u c other g by (cases "watch_name w = slot_name sl"; cases "pw_protocol_id w = proto")
      (auto simp: watch_matches_def)
qed

text \<open>The deterministic accesses.\<close>

lemma wp_on_slot_active_mod:
  assumes "entry (rg_services s) i sl" and "sl_active sl = Some p"
  shows "wp (on_slot i (on_active (amod f))) Q E s = Q () (put_slot i (sl\<lparr>sl_active := Some (f p)\<rparr>) s)"
  using assms by (simp add: wp_def on_slot_def on_active_def amod_def entry_def index_r_def)

lemma wp_on_slot_complete:
  assumes "entry (rg_services s) i sl" and "sl_active sl = Some p" and "pb_live_transaction p = t"
  shows "wp (on_slot i (on_active (publication_complete t))) Q E s =
    Q () (put_slot i (sl\<lparr>sl_active := Some (p\<lparr>pb_live_transaction := 0,
      pb_replay := replay_push (pb_replay p) t\<rparr>)\<rparr>) s)"
  using assms by (simp add: wp_def on_slot_def on_active_def publication_complete_def entry_def index_r_def)

lemma wp_on_slot_take:
  assumes "entry (rg_services s) i sl" and "sl_active sl = Some p"
  shows "wp (on_slot i take_active) Q E s = Q p (put_slot i (sl\<lparr>sl_active := None\<rparr>) s)"
  using assms by (simp add: wp_def on_slot_def take_active_def entry_def index_r_def)

text \<open>What the watches of a service see when its generation changes to \<open>g\<close>: each pending watch of the
  service that has not seen \<open>g\<close> is gone, and its client is notified of \<open>g\<close>.\<close>

definition woken :: "u64 \<Rightarrow> byte list \<Rightarrow> u64 \<Rightarrow> registry \<Rightarrow> watch_notifications \<Rightarrow> registry \<Rightarrow> bool" where
  "woken proto name g s n t \<longleftrightarrow>
     current_generation proto name t = g \<and>
     (\<forall>k w. entry (rg_watches s) k w \<longrightarrow> watch_matches proto name g w \<longrightarrow>
        Some (notification_for g w) \<in> set (collected n) \<and> \<not> entry (rg_watches t) k w)"

lemma notified_woken:
  assumes "notified g proto name s n t" and "registry_ok t"
    and "current_generation proto name s = g"
  shows "woken proto name g s n t"
proof -
  have c: "current_generation proto name t = g"
    using assms(1,3) current_generation_cong [of t s] by (simp add: notified_def same_frame_def)
  have "\<not> entry (rg_watches t) k w" if "watch_matches proto name g w" for k w
    using that assms(2) c by (auto simp: registry_ok_def wake_ok_def watch_matches_def)
  then show ?thesis using c assms(1) unfolding woken_def notified_def by blast
qed

lemma commit_publish_spec:
  assumes ok: "registry_ok s"
  shows "wp (commit_publish ticket)
    (\<lambda>out t. registry_ok t \<and> (\<exists>i sl p. entry (rg_services s) i sl \<and> sl_active sl = Some p \<and>
       pb_endpoint p = pt_endpoint ticket \<and> pb_phase p = Installed \<and>
       po_service_generation out = pb_service_generation p \<and>
       rg_services t = (rg_services s)[i := Some (sl\<lparr>sl_active := Some (p\<lparr>pb_phase := Published,
         pb_live_transaction := 0, pb_replay := replay_push (pb_replay p) (pt_transaction ticket)\<rparr>)\<rparr>)] \<and>
       woken (pb_protocol_id p) (slot_name sl) (pb_service_generation p) s (po_notifications out) t))
    (\<lambda>_ t. t = s) s"
  unfolding commit_publish_def wp_abind
proof (rule wp_publication_index, goal_cases)
  case (1 i sl p)
  show ?case
  proof (cases "pb_live_transaction p = pt_transaction ticket \<and> pb_phase p = Installed")
    case False
    then show ?thesis by (auto simp: wp_on_slot_active_get [OF 1(1,2)] wp_afail)
  next
    case True
    let ?p = "p\<lparr>pb_phase := Published, pb_live_transaction := 0,
      pb_replay := replay_push (pb_replay p) (pt_transaction ticket)\<rparr>"
    let ?sl = "sl\<lparr>sl_active := Some ?p\<rparr>" and ?g = "pb_service_generation p" and ?q = "pb_protocol_id p"
    have po: "pub_ok p" "?g = sl_last_generation sl" using pub_ok_of [OF ok 1(1,2)] by simp_all
    have slok: "slot_ok ?sl" using slot_ok_of [OF ok 1(1)] po
      by (intro slot_ok_active) (simp_all add: pub_ok_def publication_replay.wf_push)
    have n: "wp (notify ?q (slot_name sl) ?g)
        (\<lambda>n t. registry_ok t \<and> notified ?g ?q (slot_name sl) (put_slot i ?sl s) n t) E (put_slot i ?sl s)" for E
      by (rule change_and_notify [OF ok 1(1) slok])
        (use 1 True po in \<open>auto simp: slot_generation_def pub_ok_def\<close>)
    have cg: "current_generation ?q (slot_name sl) (put_slot i ?sl s) = ?g"
      using slot_generation_update [OF registry_okD(1) [OF ok] 1(1) slok]
      by (simp add: slot_generation_def)
    have e1: "entry (rg_services (put_slot i (sl\<lparr>sl_active := Some (p\<lparr>pb_phase := Published\<rparr>)\<rparr>) s)) i
        (sl\<lparr>sl_active := Some (p\<lparr>pb_phase := Published\<rparr>)\<rparr>)"
      and e2: "entry (rg_services (put_slot i ?sl s)) i ?sl"
      using 1(1) by (simp_all add: entry_length)
    have "wp (notify ?q (slot_name sl) ?g)
        (\<lambda>n. wp (aret \<lparr>po_service_generation = ?g, po_notifications = n\<rparr>)
          (\<lambda>out t. registry_ok t \<and> (\<exists>i sl p. entry (rg_services s) i sl \<and> sl_active sl = Some p \<and>
            pb_endpoint p = pt_endpoint ticket \<and> pb_phase p = Installed \<and>
            po_service_generation out = pb_service_generation p \<and>
            rg_services t = (rg_services s)[i := Some (sl\<lparr>sl_active := Some (p\<lparr>pb_phase := Published,
              pb_live_transaction := 0, pb_replay := replay_push (pb_replay p) (pt_transaction ticket)\<rparr>)\<rparr>)] \<and>
            woken (pb_protocol_id p) (slot_name sl) (pb_service_generation p) s (po_notifications out) t))
          (\<lambda>_ t. t = s)) (\<lambda>_ t. t = s) (put_slot i ?sl s)"
    proof (rule wp_mono [OF n], goal_cases)
      case n: (1 n t)
      then have "woken ?q (slot_name sl) ?g (put_slot i ?sl s) n t"
        by (intro notified_woken) (simp_all add: cg)
      then have "woken ?q (slot_name sl) ?g s n t" by (simp add: woken_def)
      moreover have "rg_services t = (rg_services s)[i := Some ?sl]"
        using n by (simp add: notified_def same_frame_def)
      ultimately show ?case using n 1 True unfolding wp_aret by (intro conjI exI) simp_all
    qed
    then show ?thesis using True
      by (simp add: wp_on_slot_active_get [OF 1(1,2)] wp_on_slot_active_mod [OF 1(1,2)]
          wp_on_slot_complete [OF e1] Let_def wp_on_slot_get [OF e2] wp_abind)
  qed
qed simp

lemma publish_keeps:
  assumes "registry_ok s"
  shows "keeps (publish ep t) s"
  unfolding publish_def wp_abind
proof (rule wp_mono [OF prepare_publish_keeps [OF assms]])
  fix ticket s'
  assume r: "registry_ok s'"
  show "keeps (commit_publish ticket) s'"
    by (rule wp_mono [OF commit_publish_spec [OF r]]) (use r in auto)
qed simp

text \<open>Taking the active publication of a slot and notifying its watches.\<close>

lemma take_and_notify:
  assumes ok: "registry_ok s" and e: "entry (rg_services s) i sl" and p: "sl_active sl = Some p"
    and Q: "\<And>n t. registry_ok t \<Longrightarrow> woken (pb_protocol_id p) (slot_name sl) 0 s n t \<Longrightarrow>
      rg_services t = (rg_services s)[i := Some (sl\<lparr>sl_active := None\<rparr>)] \<Longrightarrow> wp (k p n) Q E t"
  shows "wp (abind (on_slot i take_active) (\<lambda>p. abind (on_slot i (aget slot_name)) (\<lambda>name.
    abind (notify (pb_protocol_id p) name 0) (k p)))) Q E s"
proof -
  let ?sl = "sl\<lparr>sl_active := None\<rparr>" and ?q = "pb_protocol_id p"
  have slok: "slot_ok ?sl" using slot_ok_of [OF ok e] by (simp add: slot_ok_def)
  have n: "wp (notify ?q (slot_name sl) 0)
      (\<lambda>n t. registry_ok t \<and> notified 0 ?q (slot_name sl) (put_slot i ?sl s) n t) E (put_slot i ?sl s)"
    by (rule change_and_notify [OF ok e slok]) (use p in \<open>auto simp: slot_generation_def\<close>)
  have cg: "current_generation ?q (slot_name sl) (put_slot i ?sl s) = 0"
    using slot_generation_update [OF registry_okD(1) [OF ok] e slok] by (simp add: slot_generation_def)
  have e2: "entry (rg_services (put_slot i ?sl s)) i ?sl" using e by (simp add: entry_length)
  have "wp (notify ?q (slot_name sl) 0) (\<lambda>n. wp (k p n) Q E) E (put_slot i ?sl s)"
  proof (rule wp_mono [OF n], goal_cases)
    case (1 n t)
    then have "woken ?q (slot_name sl) 0 (put_slot i ?sl s) n t"
      by (intro notified_woken) (simp_all add: cg)
    then have "woken ?q (slot_name sl) 0 s n t" by (simp add: woken_def)
    with 1 show ?case by (intro Q) (simp_all add: notified_def same_frame_def)
  qed simp
  then show ?thesis
    by (simp add: wp_abind wp_on_slot_take [OF e p] wp_on_slot_get [OF e2])
qed

lemma retire_spec:
  assumes ok: "registry_ok s"
  shows "wp (retire ep t)
    (\<lambda>out u. registry_ok u \<and> (\<exists>i sl p. entry (rg_services s) i sl \<and> sl_active sl = Some p \<and>
       pb_endpoint p = ep \<and> ro_registry_handle out = pb_handle p \<and>
       ro_service_generation out = pb_service_generation p \<and>
       woken (pb_protocol_id p) (slot_name sl) 0 s (ro_notifications out) u))
    (\<lambda>_ u. u = s) s"
  unfolding retire_def wp_abind [of "aread (publication_index ep)"]
proof (rule wp_publication_index, goal_cases)
  case (1 i sl p)
  note c = 1
  show ?case unfolding wp_abind [of "on_slot i (on_active (publication_reserve t))"]
  proof (rule wp_publication_reserve [OF ok 1(1,2)], goal_cases)
    case (1 sl' p' s')
    have a: "sl_active sl' = Some p'" using 1 by simp
    show ?case unfolding wp_abind [of "on_slot i (on_active (publication_complete t))"]
    proof (rule wp_publication_complete [OF 1(2,3) a], goal_cases)
      case 2: (2 sl'' p'' s'')
      have a': "sl_active sl'' = Some p''" using 2 by simp
      show ?case
      proof (rule take_and_notify [OF 2(2,3) a'], goal_cases)
        case n: (1 n u)
        have "slot_name sl'' = slot_name sl" "pb_protocol_id p'' = pb_protocol_id p"
          "rg_watches s'' = rg_watches s" using 1 2 by simp_all
        with n(2) have "woken (pb_protocol_id p) (slot_name sl) 0 s n u" by (simp add: woken_def)
        with n(1) c 1 2 show ?case by (auto simp: wp_aret)
      qed
    qed (use 1 in simp)
  qed simp
qed simp

lemma ids_ok_drop_client:
  assumes "ids_ok ss cs ids"
  shows "ids_ok ss (cs[i := None]) ids"
  using assms unfolding ids_ok_def by (auto split: if_splits)

lemma entry_drop_watches: "entry (drop_watches_of ep ws) k w \<longleftrightarrow> entry ws k w \<and> pw_client w \<noteq> ep"
  by (auto simp: entry_def drop_watches_of_def split: option.splits if_splits)

lemma drop_client_ok:
  assumes ok: "registry_ok s" and e: "entry (rg_clients s) i c"
  shows "registry_ok (s\<lparr>rg_clients := (rg_clients s)[i := None],
    rg_watches := drop_watches_of (cl_endpoint c) (rg_watches s)\<rparr>)" (is "registry_ok ?t")
proof -
  note b = base_okD [OF registry_okD(1) [OF ok]]
  have "watch_live ((rg_clients s)[i := None]) w"
    if w: "entry (rg_watches s) k w" "pw_client w \<noteq> cl_endpoint c" for k w
  proof -
    obtain j d where d: "entry (rg_clients s) j d" "cl_endpoint d = pw_client w"
        "cl_handle d = pw_client_handle w" "pw_transaction w \<in> set (client_live d)"
      using b(5) w(1) unfolding watches_ok_def watch_live_def by blast
    then have "j \<noteq> i" using e w(2) by (auto dest: entry_unique)
    with d show ?thesis unfolding watch_live_def by auto
  qed
  then have "watches_ok (rg_clients ?t) (rg_watches ?t)"
    using b(5) unfolding watches_ok_def by (auto simp: entry_drop_watches)
  moreover have "clients_ok (rg_clients ?t)" using b(3) by (simp add: clients_ok_def)
  moreover have "shape_ok ?t" using b(1) by (simp add: shape_ok_def drop_watches_of_def)
  ultimately have "base_ok ?t" using b ids_ok_drop_client [OF b(4)]
    by (simp add: base_ok_def issued_endpoints_def)
  moreover have "wake_ok ?t"
    by (rule wake_ok_frame [OF registry_okD(2) [OF ok]]) (simp_all add: entry_drop_watches)
  ultimately show ?thesis by (simp add: registry_ok_def)
qed

lemma peer_closed_keeps:
  assumes ok: "registry_ok s"
  shows "keeps (peer_closed ep) s"
proof (cases "publication_index ep s")
  case (Ok i)
  obtain sl p where e: "entry (rg_services s) i sl" "sl_active sl = Some p"
    using publication_index_Ok [OF Ok] by blast
  have "keeps (abind (on_slot i take_active) (\<lambda>p. abind (on_slot i (aget slot_name)) (\<lambda>name.
      abind (notify (pb_protocol_id p) name 0) (\<lambda>n.
      aret \<lparr>pc_handle = pb_handle p, pc_kind = K_Publication, pc_notifications = n\<rparr>)))) s"
    by (rule take_and_notify [OF ok e]) (simp add: wp_aret)
  with Ok show ?thesis by (simp add: peer_closed_def wp_abind wp_aread)
next
  case (Err err)
  have "keeps (abind (aread (client_index ep)) (\<lambda>index.
      abind (on_client index (aget cl_handle)) (\<lambda>handle.
      abind (amod (\<lambda>s. s\<lparr>rg_clients := (rg_clients s)[index := None],
                         rg_watches := drop_watches_of ep (rg_watches s)\<rparr>)) (\<lambda>_.
      aret \<lparr>pc_handle = handle, pc_kind = K_Client, pc_notifications = notifications_new\<rparr>)))) s"
    unfolding wp_abind
  proof (rule wp_client_index, goal_cases)
    case (1 i c)
    then show ?case using drop_client_ok [OF ok 1(1)]
      by (simp add: wp_on_client_get [OF 1(1)] wp_simps)
  qed (rule ok)
  with Err show ?thesis by (simp add: peer_closed_def wp_abind wp_aread)
next
  case Panic
  then show ?thesis by simp
qed

subsection \<open>Installation\<close>

lemma wp_record_ids:
  "rg_issued_endpoint_count s < length (rg_issued_endpoint_ids s) \<Longrightarrow>
    wp (record_endpoint_id x) Q E s = Q () (s\<lparr>rg_issued_endpoint_ids :=
      (rg_issued_endpoint_ids s)[rg_issued_endpoint_count s := x],
      rg_issued_endpoint_count := rg_issued_endpoint_count s + 1\<rparr>)"
  "rg_issued_publication_count s < length (rg_issued_publication_ids s) \<Longrightarrow>
    wp (record_publication_id x) Q E s = Q () (s\<lparr>rg_issued_publication_ids :=
      (rg_issued_publication_ids s)[rg_issued_publication_count s := x],
      rg_issued_publication_count := rg_issued_publication_count s + 1\<rparr>)"
  "rg_issued_client_count s < length (rg_issued_client_ids s) \<Longrightarrow>
    wp (record_client_id x) Q E s = Q () (s\<lparr>rg_issued_client_ids :=
      (rg_issued_client_ids s)[rg_issued_client_count s := x],
      rg_issued_client_count := rg_issued_client_count s + 1\<rparr>)"
  by (simp_all add: wp_def record_endpoint_id_def record_publication_id_def record_client_id_def)

lemma set_take_append:
  "n < length xs \<Longrightarrow> set (take (Suc n) (xs[n := x])) = insert x (set (take n xs))"
  by (simp add: take_Suc_conv_app_nth)

lemma wp_validate_install:
  assumes "ep_id ep \<noteq> 0 \<Longrightarrow> ep_generation ep \<noteq> 0 \<Longrightarrow> handle \<noteq> 0 \<Longrightarrow> g = rg_generation s \<Longrightarrow> Q () s"
    and "\<And>e. E e s"
  shows "wp (validate_install g ep handle) Q E s"
  using assms by (simp add: validate_install_def wp_aread)

lemma wp_validate_fresh:
  assumes "shape_ok s" and "ident \<notin> issued_endpoints s \<Longrightarrow> rg_issued_endpoint_count s < 128 \<Longrightarrow> Q () s"
    and "\<And>e. E e s"
  shows "wp (validate_fresh_endpoint_id ident) Q E s"
  using assms
  by (auto simp: validate_fresh_endpoint_id_def wp_aread region_r_def shape_ok_def region_def
      issued_endpoints_def MAX_ISSUED_ENDPOINT_IDS_def)

lemma wp_issued_check:
  assumes "count s \<le> length (ids s)" and "x \<notin> set (take (count s) (ids s)) \<Longrightarrow> count s \<noteq> m \<Longrightarrow> Q () s"
    and "\<And>e. E e s"
  shows "wp (aread (\<lambda>s. rbind (region_r 0 (count s) (ids s)) (\<lambda>issued.
      if x \<in> set issued then Err e1 else if count s = m then Err e2 else Ok ()))) Q E s"
  using assms by (auto simp: wp_aread region_r_def region_def)

lemma ids_ok_new_client:
  assumes "ids_ok ss cs ids" and "i < length cs" "cs ! i = None" and "ep_id (cl_endpoint c) \<notin> ids"
  shows "ids_ok ss (cs[i := Some c]) (insert (ep_id (cl_endpoint c)) ids)"
proof -
  note old = assms(1) [unfolded ids_ok_def]
  show ?thesis unfolding ids_ok_def
  proof (intro conjI allI impI)
    show "ep_id (pb_endpoint p) \<in> insert (ep_id (cl_endpoint c)) ids" if "pub_at ss j p" for j p
      using that old by blast
    show "ep_id (cl_endpoint d) \<in> insert (ep_id (cl_endpoint c)) ids" if "entry (cs[i := Some c]) j d" for j d
      using that old by (auto split: if_splits)
    show "j = k" if "pub_at ss j p" "pub_at ss k q" "ep_id (pb_endpoint p) = ep_id (pb_endpoint q)" for j k p q
      using that old by blast
    show "j = k" if "entry (cs[i := Some c]) j d" "entry (cs[i := Some c]) k e"
      "ep_id (cl_endpoint d) = ep_id (cl_endpoint e)" for j k d e
      using that old assms(4) unfolding entry_update by (metis option.inject)
    show "ep_id (pb_endpoint p) \<noteq> ep_id (cl_endpoint d)"
      if "pub_at ss j p" "entry (cs[i := Some c]) k d" for j k p d
      using that old assms(4) unfolding entry_update by (metis option.inject)
  qed
qed

lemma watch_live_new_client:
  assumes "i < length cs" "cs ! i = None" and "watch_live cs w"
  shows "watch_live (cs[i := Some c]) w"
proof -
  from assms(3) obtain j d where d: "entry cs j d" "cl_endpoint d = pw_client w"
      "cl_handle d = pw_client_handle w" "pw_transaction w \<in> set (client_live d)"
    unfolding watch_live_def by blast
  then have "j \<noteq> i" using assms(2) by (auto simp: entry_def)
  with d show ?thesis unfolding watch_live_def by auto
qed

text \<open>The state after an installation: the arrays of issued identities grow by the endpoint.\<close>

lemma installed_client_ok:
  assumes ok: "registry_ok s" and i: "i < length (rg_clients s)" "rg_clients s ! i = None"
    and c: "client_ok c" "ep_id (cl_endpoint c) \<notin> issued_endpoints s"
    and t: "rg_services t = rg_services s" "rg_watches t = rg_watches s"
      "rg_clients t = (rg_clients s)[i := Some c]" "shape_ok t"
      "issued_endpoints t = insert (ep_id (cl_endpoint c)) (issued_endpoints s)"
  shows "registry_ok t"
proof -
  note b = base_okD [OF registry_okD(1) [OF ok]]
  have "watches_ok (rg_clients t) (rg_watches t)"
    using b(5) watch_live_new_client [OF i] unfolding t(2,3) watches_ok_def by blast
  moreover have "clients_ok (rg_clients t)" using b(3) c(1) unfolding t(3) clients_ok_def
    by (auto split: if_splits)
  moreover have "wake_ok t" by (rule wake_ok_frame [OF registry_okD(2) [OF ok] t(1)]) (simp add: t(2))
  ultimately show ?thesis
    using b t ids_ok_new_client [OF b(4) i c(2)] by (simp add: registry_ok_def base_ok_def)
qed

lemma new_client_ok:
  "client_ok \<lparr>cl_endpoint = ep, cl_handle = h, cl_client_id = x, cl_scope = sc,
     cl_live_transactions = replicate MAX_OUTSTANDING_PER_CLIENT 0, cl_live_count = 0,
     cl_replay = replay_new MAX_CLIENT_REPLAY\<rparr>"
  using client_replay.wf_new by (simp add: client_ok_def client_live_def registry_consts)

lemma install_client_keeps:
  assumes ok: "registry_ok s"
  shows "keeps (install_client g handle install) s"
  unfolding install_client_def Let_def wp_abind
proof (rule wp_validate_install, goal_cases)
  case 1
  have sh: "shape_ok s" using ok by (simp add: registry_ok_def base_ok_def)
  show ?case
  proof (rule wp_validate_fresh [OF sh], goal_cases)
    case fresh: 1
    show ?case
    proof (rule wp_issued_check, goal_cases)
      case 1
      then show ?case using sh by (simp add: shape_ok_def)
    next
      case cnt: 2
      then have cnt': "rg_issued_client_count s < 64"
        using sh by (simp add: shape_ok_def MAX_ISSUED_CLIENT_IDS_def)
      show ?case
      proof (cases "position (\<lambda>e. e = None) (rg_clients s)")
        case None
        then show ?thesis using ok by (simp add: wp_aread)
      next
        case (Some i)
        then have i: "i < length (rg_clients s)" "rg_clients s ! i = None"
          using position_SomeD [OF Some] by simp_all
        show ?thesis
          using Some sh fresh cnt'
          by (simp add: wp_simps wp_record_ids shape_ok_def)
            (rule installed_client_ok [OF ok i new_client_ok],
              simp_all add: shape_ok_def issued_endpoints_def set_take_append, simp?)
      qed
    qed (rule ok)
  qed (rule ok)
qed (rule ok)

lemma pub_at_update:
  assumes "i < length ss" and "sl_active sl = Some p"
  shows "pub_at (ss[i := Some sl]) j q \<longleftrightarrow> (if j = i then q = p else pub_at ss j q)"
  using assms by (auto simp: pub_at_def)

lemma ids_ok_new_slot:
  assumes "ids_ok ss cs ids" and "i < length ss" and "sl_active sl = Some p"
    and "ep_id (pb_endpoint p) \<notin> ids"
  shows "ids_ok (ss[i := Some sl]) cs (insert (ep_id (pb_endpoint p)) ids)"
proof -
  note old = assms(1) [unfolded ids_ok_def] and u = pub_at_update [OF assms(2,3)]
  show ?thesis unfolding ids_ok_def u
  proof (intro conjI allI impI)
    show "ep_id (pb_endpoint q) \<in> insert (ep_id (pb_endpoint p)) ids"
      if "if j = i then q = p else pub_at ss j q" for j q
      using that old by (metis insert_iff)
    show "ep_id (cl_endpoint d) \<in> insert (ep_id (pb_endpoint p)) ids" if "entry cs j d" for j d
      using that old by blast
    show "j = k" if "if j = i then q = p else pub_at ss j q" "if k = i then r = p else pub_at ss k r"
      "ep_id (pb_endpoint q) = ep_id (pb_endpoint r)" for j k q r
      using that old assms(4) by metis
    show "j = k" if "entry cs j d" "entry cs k e" "ep_id (cl_endpoint d) = ep_id (cl_endpoint e)" for j k d e
      using that old by blast
    show "ep_id (pb_endpoint q) \<noteq> ep_id (cl_endpoint d)"
      if "if j = i then q = p else pub_at ss j q" "entry cs k d" for j k q d
      using that old assms(4) by metis
  qed
qed

lemma installed_slot_ok:
  assumes ok: "registry_ok s" and i: "i < length (rg_services s)"
    and old: "\<And>a. entry (rg_services s) i a \<Longrightarrow> slot_name a = slot_name sl \<and> sl_active a = None"
    and unique: "\<And>j a. entry (rg_services s) j a \<Longrightarrow> slot_name a = slot_name sl \<Longrightarrow> j = i"
    and sl: "slot_ok sl" "sl_active sl = Some p" "pb_phase p = Installed"
    and fresh: "ep_id (pb_endpoint p) \<notin> issued_endpoints s"
    and t: "rg_services t = (rg_services s)[i := Some sl]" "rg_watches t = rg_watches s"
      "rg_clients t = rg_clients s" "shape_ok t"
      "issued_endpoints t = insert (ep_id (pb_endpoint p)) (issued_endpoints s)"
  shows "registry_ok t"
proof -
  note b = base_okD [OF registry_okD(1) [OF ok]]
  have so: "slots_ok ((rg_services s)[i := Some sl])"
    using b(2) sl(1) unique unfolding slots_ok_def entry_update by (simp split: if_splits)
  have "current_generation proto name t = current_generation proto name s" for proto name
  proof -
    have "current_generation proto name t = current_generation proto name (put_slot i sl s)"
      using t(1) by (intro current_generation_cong) simp
    also have "\<dots> = (if name = slot_name sl then slot_generation proto sl else current_generation proto name s)"
      using old by (intro current_generation_update [OF b(2) so i]) blast
    also have "\<dots> = current_generation proto name s"
    proof (cases "name = slot_name sl")
      case True
      have "current_generation proto (slot_name sl) s = 0"
      proof (cases "\<exists>a. entry (rg_services s) i a")
        case True
        then obtain a where "entry (rg_services s) i a" by blast
        with old current_generation_named [OF b(2) this, of proto] show ?thesis
          by (auto simp: slot_generation_def)
      next
        case False
        with unique show ?thesis by (intro current_generation_unnamed) blast
      qed
      with True sl(2,3) show ?thesis by (simp add: slot_generation_def)
    qed simp
    finally show ?thesis .
  qed
  then have "wake_ok t" using registry_okD(2) [OF ok] t(2) by (simp add: wake_ok_def)
  with b t so ids_ok_new_slot [OF b(4) i sl(2) fresh] show ?thesis
    by (simp add: registry_ok_def base_ok_def)
qed

text \<open>The slot an installation goes to is empty or an inactive slot of the same name, and no other
  slot has the name.\<close>

lemma choose_slot_Ok:
  assumes "choose_slot install s = Ok i" and "slots_ok (rg_services s)"
  shows "i < length (rg_services s)"
    and "\<And>a. entry (rg_services s) i a \<Longrightarrow> slot_name a = ip_service_name install \<and> sl_active a = None \<and>
      sl_last_generation a < ip_service_generation install"
    and "\<And>j a. entry (rg_services s) j a \<Longrightarrow> slot_name a = ip_service_name install \<Longrightarrow> j = i"
proof -
  let ?p = "\<lambda>slot. case slot of None \<Rightarrow> False | Some sl \<Rightarrow> slot_name sl = ip_service_name install"
  have "i < length (rg_services s) \<and>
    (\<forall>a. entry (rg_services s) i a \<longrightarrow> slot_name a = ip_service_name install \<and> sl_active a = None \<and>
      sl_last_generation a < ip_service_generation install) \<and>
    (\<forall>j a. entry (rg_services s) j a \<longrightarrow> slot_name a = ip_service_name install \<longrightarrow> j = i)"
  proof (cases "position ?p (rg_services s)")
    case None
    then have none: "\<not> ?p x" if "x \<in> set (rg_services s)" for x using that by (simp add: position_eq_None)
    have no: "slot_name a \<noteq> ip_service_name install" if "entry (rg_services s) j a" for j a
    proof -
      have "Some a \<in> set (rg_services s)" using that unfolding entry_def by (metis nth_mem)
      from none [OF this] show ?thesis by simp
    qed
    have "position (\<lambda>slot. slot = None) (rg_services s) = Some i"
      using assms(1) None by (auto simp: choose_slot_def res_simps)
    from position_SomeD [OF this] have i: "i < length (rg_services s)" "rg_services s ! i = None" .
    then have "\<not> entry (rg_services s) i a" for a by (simp add: entry_def)
    with i(1) no show ?thesis by blast
  next
    case (Some k)
    then obtain a where a: "entry (rg_services s) k a" "slot_name a = ip_service_name install"
      using position_SomeD [OF Some] by (auto simp: entry_def split: option.splits)
    then have "k = i \<and> sl_active a = None \<and> sl_last_generation a < ip_service_generation install"
      using assms(1) Some by (auto simp: choose_slot_def res_simps entry_def split: if_splits)
    then show ?thesis using a assms(2) entry_unique [of "rg_services s" i]
      unfolding slots_ok_def by (metis entry_length)
  qed
  then show "i < length (rg_services s)"
    and "\<And>a. entry (rg_services s) i a \<Longrightarrow> slot_name a = ip_service_name install \<and> sl_active a = None \<and>
      sl_last_generation a < ip_service_generation install"
    and "\<And>j a. entry (rg_services s) j a \<Longrightarrow> slot_name a = ip_service_name install \<Longrightarrow> j = i"
    by blast+
qed

lemma choose_slot_no_panic: "choose_slot install s \<noteq> Panic"
  by (auto simp: choose_slot_def res_simps position_eq_Some split: option.splits if_splits)

text \<open>What an installation message promises, by the parser of the protocol.\<close>

definition install_valid :: "install_publication \<Rightarrow> bool" where
  "install_valid install \<longleftrightarrow>
     length (ip_service_name install) \<le> 128 \<and> vl_len (ip_versions install) \<le> 4 \<and>
     ip_service_generation install \<noteq> 0"

lemma vl_get_in_range:
  assumes "i < vl_len vl" and "i < 4"
  shows "\<exists>v. vl_get vl i = Some v"
proof -
  have "(i + 1) * 4 \<le> length (vl_bytes vl)" using assms(1) by (simp add: vl_len_def)
  then show ?thesis using assms(2)
    by (simp add: vl_get_def checked_mul_usize_def get_u16_def checked_add_usize_def get_range_def
          usize_max_def)
qed

lemma fill_versions_Ok:
  "\<forall>i \<in> set is. i < vl_len vl \<and> i < 4 \<Longrightarrow>
     \<exists>vs. fill_versions vl is = (Ok vs :: ('e, protocol_version list) res) \<and> length vs = length is"
proof (induction "is")
  case (Cons i "is")
  then obtain v where "vl_get vl i = Some v" using vl_get_in_range by (metis list.set_intros(1))
  moreover obtain vs where "fill_versions vl is = (Ok vs :: ('e, protocol_version list) res)"
      "length vs = length is" using Cons by auto
  ultimately show ?case by simp
qed simp

lemma store_versions_Ok:
  "\<exists>vs. store_versions vl = (Ok vs :: ('e, protocol_version list) res) \<and> length vs = 4"
proof -
  obtain vs where "fill_versions vl [0..<min 4 (vl_len vl)] = (Ok vs :: ('e, protocol_version list) res)"
      "length vs = length [0..<min 4 (vl_len vl)]"
    using fill_versions_Ok [of "[0..<min 4 (vl_len vl)]" vl] by auto
  then show ?thesis by (simp add: store_versions_def MAX_PROTOCOL_VERSIONS_def)
qed

lemma install_publication_keeps:
  assumes ok: "registry_ok s" and v: "install_valid install"
  shows "keeps (install_publication g handle install) s"
  unfolding install_publication_def Let_def wp_abind
proof (rule wp_validate_install, goal_cases)
  case ids: 1
  have sh: "shape_ok s" and so: "slots_ok (rg_services s)"
    using ok by (simp_all add: registry_ok_def base_ok_def)
  have name: "length (ip_service_name install) \<le> 128" using v by (simp add: install_valid_def)
  obtain vs where vs: "store_versions (ip_versions install) = (Ok vs :: (registry_error, _) res)" "length vs = 4"
    using store_versions_Ok by blast
  show ?case
  proof (rule wp_validate_fresh [OF sh], goal_cases)
    case fresh: 1
    show ?case
    proof (rule wp_issued_check, goal_cases)
      case 1
      then show ?case using sh by (simp add: shape_ok_def)
    next
      case cnt: 2
      then have cnt': "rg_issued_publication_count s < 64"
        using sh by (simp add: shape_ok_def MAX_ISSUED_PUBLICATION_IDS_def)
      show ?case
      proof (cases "choose_slot install s")
        case (Ok i)
        note c = choose_slot_Ok [OF Ok so]
        define p where "p = \<lparr>pb_endpoint = \<lparr>ep_id = ip_endpoint_id install,
            ep_generation = ip_endpoint_generation install\<rparr>, pb_handle = handle,
          pb_role_id = ip_supervisor_role_id install, pb_publication_id = ip_publication_id install,
          pb_service_generation = ip_service_generation install,
          pb_protocol_id = ip_protocol_id install, pb_versions = vs,
          pb_version_count = word_of_nat (vl_len (ip_versions install)), pb_phase = Installed,
          pb_live_transaction = 0, pb_replay = replay_new MAX_PUBLICATION_REPLAY\<rparr>"
        define sl where "sl = \<lparr>sl_name = ip_service_name install @ replicate (128 - length (ip_service_name install)) 0,
          sl_name_len = word_of_nat (length (ip_service_name install)),
          sl_last_generation = ip_service_generation install, sl_active = Some p\<rparr>"
        have nm: "slot_name sl = ip_service_name install"
          using name by (simp add: slot_name_def sl_def unat_length_byte)
        have po: "pub_ok p" using v vs(2) publication_replay.wf_new
          by (simp add: pub_ok_def p_def install_valid_def registry_consts unat_of_nat)
        have slo: "slot_ok sl" using po name
          by (simp add: slot_ok_def sl_def unat_length_byte) (simp add: p_def)
        define t where "t = s\<lparr>rg_services := (rg_services s)[i := Some sl],
          rg_issued_endpoint_ids := (rg_issued_endpoint_ids s)[rg_issued_endpoint_count s := ip_endpoint_id install],
          rg_issued_endpoint_count := rg_issued_endpoint_count s + 1,
          rg_issued_publication_ids := (rg_issued_publication_ids s)[rg_issued_publication_count s := ip_publication_id install],
          rg_issued_publication_count := rg_issued_publication_count s + 1\<rparr>"
        have "registry_ok t"
        proof (rule installed_slot_ok [OF ok c(1) _ _ slo, where p = p])
          show "slot_name a = slot_name sl \<and> sl_active a = None" if "entry (rg_services s) i a" for a
            using c(2) [OF that] nm by simp
          show "j = i" if "entry (rg_services s) j a" "slot_name a = slot_name sl" for j a
            using c(3) [OF that(1)] that(2) nm by simp
          show "shape_ok t" using sh fresh(2) cnt' by (simp add: shape_ok_def t_def)
          show "issued_endpoints t = insert (ep_id (pb_endpoint p)) (issued_endpoints s)"
            using sh fresh(2) by (simp add: t_def p_def issued_endpoints_def shape_ok_def set_take_append)
        qed (use fresh(1) in \<open>simp_all add: t_def sl_def p_def\<close>)
        then show ?thesis
          using Ok sh fresh cnt'
          by (simp add: wp_simps wp_record_ids shape_ok_def store_name_Ok [OF name] vs(1) t_def sl_def p_def)
      next
        case (Err e)
        then show ?thesis using ok by (simp add: wp_aread)
      next
        case Panic
        then show ?thesis using choose_slot_no_panic by simp
      qed
    qed (rule ok)
  qed (rule ok)
qed (rule ok)

end
