(* ===== verification/RegistryWire.thy ===== *)
theory RegistryWire
  imports RegistryProto
begin

text \<open>
  The parser and the encoders of the WRRG wire format
  (\<^verbatim>\<open>crates/wyrmroot-registry-proto/src/lib.rs\<close>). The parser is a pure function of the datagram
  and of the number of handles that came with it; the encoders are actions on the caller's output
  buffer, which they may leave partly written when they fail.
\<close>

subsection \<open>Header\<close>

definition on_supervisor :: "message_type \<Rightarrow> bool" where
  "on_supervisor t \<longleftrightarrow> t = T_InstallPublication \<or> t = T_InstallClient"

definition parse_header :: "byte list \<Rightarrow> (proto_error, parsed_header) res" where
  "parse_header bytes =
     (if length bytes < HEADER_BYTES then Err E_WrongSize
      else rbind (region_r 0 4 bytes) (\<lambda>magic.
      if magic \<noteq> WRRG_MAGIC then Err E_WrongMagic
      else rbind (read_u16 bytes 4) (\<lambda>major.
      rbind (if major \<noteq> WRRG_MAJOR then Ok True
             else rbind (read_u16 bytes 6) (\<lambda>minor. Ok (minor \<noteq> WRRG_MINOR))) (\<lambda>bad_version.
      if bad_version then Err E_UnsupportedVersion
      else rbind (read_u32 bytes 8) (\<lambda>kind.
      rbind (parse_message_type kind) (\<lambda>message_type.
      rbind (read_u32 bytes 12) (\<lambda>flags.
      if flags \<noteq> 0 then Err E_NonzeroFlags
      else rbind (read_u32 bytes 16) (\<lambda>sz.
      let declared_size = unat sz in
      if declared_size \<noteq> length bytes \<or> declared_size < HEADER_BYTES then Err E_WrongSize
      else rbind (read_u32 bytes 20) (\<lambda>hs.
      let declared_handles = unat hs in
      rbind (read_u64 bytes 24) (\<lambda>registry_generation.
      rbind (read_u64 bytes 32) (\<lambda>endpoint_id.
      rbind (read_u64 bytes 40) (\<lambda>endpoint_generation.
      rbind (read_u64 bytes 48) (\<lambda>transaction_id.
      rbind (read_u64 bytes 56) (\<lambda>reserved.
      if reserved \<noteq> 0 then Err E_NonzeroReserved
      else if registry_generation = 0 \<or> transaction_id = 0 then Err E_ZeroIdentity
      else if (if on_supervisor message_type then endpoint_id \<noteq> 0 \<or> endpoint_generation \<noteq> 0
               else endpoint_id = 0 \<or> endpoint_generation = 0)
      then Err E_WrongEndpointScope
      else Ok \<lparr>ph_header = \<lparr>h_message_type = message_type,
                 h_registry_generation = registry_generation, h_endpoint_id = endpoint_id,
                 h_endpoint_generation = endpoint_generation, h_transaction_id = transaction_id\<rparr>,
               ph_declared_size = declared_size,
               ph_declared_handle_count = declared_handles\<rparr>))))))))))))))"

fun res_ok :: "('e, 'a) res \<Rightarrow> 'a option" where
  "res_ok (Ok a) = Some a"
| "res_ok (Err e) = None"
| "res_ok Panic = None"

definition decode_header :: "byte list \<Rightarrow> (proto_error, decoded_header) res" where
  "decode_header bytes =
     (if length bytes < HEADER_BYTES then Err E_WrongSize
      else rbind (region_r 0 4 bytes) (\<lambda>magic.
      if magic \<noteq> WRRG_MAGIC then Err E_WrongMagic
      else rbind (read_u64 bytes 48) (\<lambda>transaction_id.
      if transaction_id = 0 then Err E_ZeroIdentity
      else rbind (read_u16 bytes 4) (\<lambda>major.
      rbind (read_u16 bytes 6) (\<lambda>minor.
      rbind (read_u32 bytes 8) (\<lambda>kind.
      rbind (read_u32 bytes 12) (\<lambda>flags.
      rbind (read_u32 bytes 16) (\<lambda>declared_size.
      rbind (read_u32 bytes 20) (\<lambda>declared_handles.
      rbind (read_u64 bytes 24) (\<lambda>registry_generation.
      rbind (read_u64 bytes 32) (\<lambda>endpoint_id.
      rbind (read_u64 bytes 40) (\<lambda>endpoint_generation.
      rbind (read_u64 bytes 56) (\<lambda>reserved.
      Ok \<lparr>dh_major = major, dh_minor = minor,
          dh_message_type = res_ok (parse_message_type kind), dh_flags = flags,
          dh_declared_size = declared_size, dh_declared_handle_count = declared_handles,
          dh_registry_generation = registry_generation, dh_endpoint_id = endpoint_id,
          dh_endpoint_generation = endpoint_generation, dh_transaction_id = transaction_id,
          dh_reserved = reserved\<rparr>)))))))))))))"

subsection \<open>Message bodies\<close>

definition parse_install_publication :: "byte list \<Rightarrow> (proto_error, install_publication) res" where
  "parse_install_publication bytes =
     (if length bytes < 124 then Err E_WrongSize
      else rbind (read_u32 bytes 84) (\<lambda>r1.
      rbind (if r1 \<noteq> 0 then Ok True else rbind (read_u32 bytes 116) (\<lambda>r2. Ok (r2 \<noteq> 0))) (\<lambda>bad.
      if bad then Err E_NonzeroReserved
      else rbind (read_u16 bytes 112) (\<lambda>c.
      let count = unat c in
      rbind (read_u16 bytes 114) (\<lambda>n.
      let name_len = unat n in
      if \<not> (1 \<le> count \<and> count \<le> MAX_PROTOCOL_VERSIONS) then Err E_InvalidVersionList
      else rbind (ok_or E_ArithmeticOverflow (checked_mul_usize count 4)) (\<lambda>vbytes.
      rbind (ok_or E_ArithmeticOverflow (checked_add_usize 120 vbytes)) (\<lambda>versions_end.
      rbind (ok_or E_ArithmeticOverflow (checked_add_usize versions_end name_len)) (\<lambda>len.
      if len \<noteq> length bytes then Err E_WrongSize
      else rbind (region_r 120 versions_end bytes) (\<lambda>vs.
      let versions = \<lparr>vl_bytes = vs\<rparr> in
      rbind (validate_version_list versions) (\<lambda>_.
      rbind (region_r versions_end (length bytes) bytes) (\<lambda>service_name.
      rbind (validate_name service_name) (\<lambda>_.
      rbind (read_u64 bytes 64) (\<lambda>endpoint_id.
      rbind (read_u64 bytes 72) (\<lambda>endpoint_generation.
      rbind (read_u32 bytes 80) (\<lambda>supervisor_role_id.
      rbind (read_u64 bytes 88) (\<lambda>publication_id.
      rbind (read_u64 bytes 96) (\<lambda>service_generation.
      rbind (read_u64 bytes 104) (\<lambda>protocol_id.
      if endpoint_id = 0 \<or> endpoint_generation = 0 \<or> supervisor_role_id = 0 \<or>
         publication_id = 0 \<or> service_generation = 0
      then Err E_ZeroIdentity
      else if protocol_id = 0 then Err E_InvalidProtocolId
      else Ok \<lparr>ip_endpoint_id = endpoint_id, ip_endpoint_generation = endpoint_generation,
               ip_supervisor_role_id = supervisor_role_id, ip_publication_id = publication_id,
               ip_service_generation = service_generation, ip_protocol_id = protocol_id,
               ip_versions = versions, ip_service_name = service_name\<rparr>))))))))))))))))))"

text \<open>The \<^verbatim>\<open>INSTALL_CLIENT\<close> arm of \<^verbatim>\<open>parse\<close>, after its handle and size checks.\<close>

definition parse_install_client :: "byte list \<Rightarrow> (proto_error, install_client) res" where
  "parse_install_client bytes =
     rbind (read_u32 bytes 96) (\<lambda>s.
     rbind (if s = 0 then Ok ScopeNone else if s = 1 then Ok ScopeBootstrapMetadata
            else Err E_InvalidScope) (\<lambda>scope.
     rbind (read_u32 bytes 100) (\<lambda>reserved.
     if reserved \<noteq> 0 then Err E_NonzeroReserved
     else rbind (read_u64 bytes 64) (\<lambda>endpoint_id.
     rbind (read_u64 bytes 72) (\<lambda>endpoint_generation.
     rbind (read_u64 bytes 80) (\<lambda>client_id.
     rbind (read_u64 bytes 88) (\<lambda>client_generation.
     if endpoint_id = 0 \<or> endpoint_generation = 0 \<or> client_id = 0 \<or> client_generation = 0
     then Err E_ZeroIdentity
     else Ok \<lparr>ic_endpoint_id = endpoint_id, ic_endpoint_generation = endpoint_generation,
              ic_client_id = client_id, ic_client_generation = client_generation,
              ic_scope = scope\<rparr>)))))))"

definition parse_lookup :: "byte list \<Rightarrow> (proto_error, lookup_request) res" where
  "parse_lookup bytes =
     (if length bytes < 81 then Err E_WrongSize
      else rbind (read_u16 bytes 76) (\<lambda>n.
      let name_len = unat n in
      rbind (read_u16 bytes 78) (\<lambda>reserved.
      if reserved \<noteq> 0 \<or> length bytes \<noteq> 80 + name_len
      then Err (if reserved \<noteq> 0 then E_NonzeroReserved else E_WrongSize)
      else rbind (read_u64 bytes 64) (\<lambda>protocol_id.
      if protocol_id = 0 then Err E_InvalidProtocolId
      else rbind (region_r 80 (length bytes) bytes) (\<lambda>service_name.
      rbind (validate_name service_name) (\<lambda>_.
      rbind (read_u16 bytes 72) (\<lambda>major.
      rbind (read_u16 bytes 74) (\<lambda>minor.
      Ok \<lparr>lk_protocol_id = protocol_id, lk_version = ProtocolVersion major minor,
          lk_service_name = service_name\<rparr>))))))))"

definition parse_watch :: "byte list \<Rightarrow> (proto_error, watch_request) res" where
  "parse_watch bytes =
     (if length bytes < 89 then Err E_WrongSize
      else rbind (read_u16 bytes 80) (\<lambda>n.
      let name_len = unat n in
      rbind (read_u16 bytes 82) (\<lambda>r1.
      rbind (if r1 \<noteq> 0 then Ok True else rbind (read_u32 bytes 84) (\<lambda>r2. Ok (r2 \<noteq> 0))) (\<lambda>bad.
      if bad then Err E_NonzeroReserved
      else if length bytes \<noteq> 88 + name_len then Err E_WrongSize
      else rbind (read_u64 bytes 64) (\<lambda>protocol_id.
      if protocol_id = 0 then Err E_InvalidProtocolId
      else rbind (region_r 88 (length bytes) bytes) (\<lambda>service_name.
      rbind (validate_name service_name) (\<lambda>_.
      rbind (read_u64 bytes 72) (\<lambda>last.
      Ok \<lparr>wt_protocol_id = protocol_id, wt_last_observed_generation = last,
          wt_service_name = service_name\<rparr>))))))))"

subsection \<open>Service list pages\<close>

text \<open>The version slots of one record: the first \<open>version_count\<close> strictly increasing, the rest
  default.\<close>

fun check_record_versions ::
  "byte list \<Rightarrow> nat \<Rightarrow> nat \<Rightarrow> protocol_version option \<Rightarrow> nat list \<Rightarrow> (proto_error, unit) res"
where
  "check_record_versions bytes base version_count previous [] = Ok ()"
| "check_record_versions bytes base version_count previous (version # rest) =
     rbind (read_u16 bytes (base + 24 + version * 4)) (\<lambda>major.
     rbind (read_u16 bytes (base + 26 + version * 4)) (\<lambda>minor.
     let value = ProtocolVersion major minor in
     if version < version_count then
       (if (case previous of None \<Rightarrow> False | Some prior \<Rightarrow> prior \<ge> value)
        then Err E_NoncanonicalVersions
        else check_record_versions bytes base version_count (Some value) rest)
     else if value \<noteq> default_version then Err E_InvalidServiceList
     else check_record_versions bytes base version_count previous rest))"

text \<open>One iteration of the record loop; it gives the name of the record.\<close>

definition check_record ::
  "byte list \<Rightarrow> byte list option \<Rightarrow> nat \<Rightarrow> (proto_error, byte list) res" where
  "check_record bytes previous index =
     (let base = SERVICE_LIST_PREFIX_BYTES + index * SERVICE_LIST_RECORD_BYTES in
      rbind (read_u64 bytes base) (\<lambda>protocol_id.
      rbind (read_u64 bytes (base + 8)) (\<lambda>service_generation.
      rbind (read_u16 bytes (base + 16)) (\<lambda>n.
      let name_len = unat n in
      rbind (index_r bytes (base + 18)) (\<lambda>vc.
      let version_count = unat vc in
      rbind (if protocol_id = 0 \<or> service_generation = 0 then Ok True
             else rbind (index_r bytes (base + 19)) (\<lambda>pad.
               if pad \<noteq> 0 then Ok True
               else rbind (read_u32 bytes (base + 20)) (\<lambda>reserved.
               Ok (reserved \<noteq> 0 \<or> \<not> (1 \<le> version_count \<and> version_count \<le> MAX_PROTOCOL_VERSIONS) \<or>
                   \<not> (1 \<le> name_len \<and> name_len \<le> MAX_SERVICE_NAME_BYTES))))) (\<lambda>bad.
      if bad then Err E_InvalidServiceList
      else rbind (check_record_versions bytes base version_count None [0..<MAX_PROTOCOL_VERSIONS]) (\<lambda>_.
      rbind (region_r (base + 40) (base + 40 + name_len) bytes) (\<lambda>name.
      rbind (validate_name name) (\<lambda>_.
      rbind (region_r (base + 40 + name_len) (base + SERVICE_LIST_RECORD_BYTES) bytes) (\<lambda>padding.
      if list_ex (\<lambda>b. b \<noteq> 0) padding \<or>
         (case previous of None \<Rightarrow> False | Some prior \<Rightarrow> prior \<ge> name)
      then Err E_InvalidServiceList
      else Ok name))))))))))"

fun check_records ::
  "byte list \<Rightarrow> byte list option \<Rightarrow> nat list \<Rightarrow> (proto_error, unit) res" where
  "check_records bytes previous [] = Ok ()"
| "check_records bytes previous (index # rest) =
     rbind (check_record bytes previous index) (\<lambda>name. check_records bytes (Some name) rest)"

definition parse_service_list :: "bool \<Rightarrow> byte list \<Rightarrow> (proto_error, service_list_page) res" where
  "parse_service_list oc bytes =
     (if length bytes \<noteq> SERVICE_LIST_PREFIX_BYTES \<and>
         length bytes \<noteq> SERVICE_LIST_PREFIX_BYTES + SERVICE_LIST_RECORD_BYTES \<and>
         length bytes \<noteq> SERVICE_LIST_PREFIX_BYTES + 2 * SERVICE_LIST_RECORD_BYTES
      then Err E_WrongSize
      else rbind (read_u16 bytes 64) (\<lambda>page_index.
      rbind (read_u16 bytes 66) (\<lambda>page_count.
      rbind (read_u16 bytes 68) (\<lambda>record_count.
      rbind (read_u16 bytes 70) (\<lambda>total_count.
      rbind (read_u32 bytes 72) (\<lambda>r1.
      rbind (if r1 \<noteq> 0 then Ok True else rbind (read_u32 bytes 76) (\<lambda>r2. Ok (r2 \<noteq> 0))) (\<lambda>bad.
      if bad then Err E_NonzeroReserved
      else if unat record_count > MAX_SERVICE_LIST_RECORDS \<or>
              unat page_count > MAX_SERVICE_LIST_PAGES \<or>
              unat total_count > MAX_SERVICES \<or> page_count = 0 \<or> page_index \<ge> page_count \<or>
              length bytes \<noteq>
                SERVICE_LIST_PREFIX_BYTES + unat record_count * SERVICE_LIST_RECORD_BYTES
      then Err E_InvalidServiceList
      else rbind (validate_page_shape oc page_index page_count total_count (unat record_count)) (\<lambda>_.
      rbind (check_records bytes None [0..<unat record_count]) (\<lambda>_.
      Ok \<lparr>sp_bytes = bytes, sp_page_index = page_index, sp_page_count = page_count,
          sp_record_count = record_count, sp_total_count = total_count\<rparr>)))))))))"

text \<open>The accessors of an accepted page.\<close>

fun read_versions :: "byte list \<Rightarrow> nat \<Rightarrow> nat list \<Rightarrow> protocol_version list option" where
  "read_versions bytes base [] = Some []"
| "read_versions bytes base (version # rest) =
     Option.bind (get_u16 bytes (base + 24 + version * 4)) (\<lambda>major.
     Option.bind (get_u16 bytes (base + 26 + version * 4)) (\<lambda>minor.
     map_option (\<lambda>vs. ProtocolVersion major minor # vs) (read_versions bytes base rest)))"

text \<open>\<^verbatim>\<open>versions.iter_mut().enumerate().take(count)\<close> fills at most the four slots.\<close>

definition page_record :: "service_list_page \<Rightarrow> nat \<Rightarrow> service_list_record option" where
  "page_record page index =
     (if index \<ge> unat (sp_record_count page) then None
      else
        let base = SERVICE_LIST_PREFIX_BYTES + index * SERVICE_LIST_RECORD_BYTES;
            bytes = sp_bytes page in
        Option.bind (get_u16 bytes (base + 16)) (\<lambda>n.
        Option.bind (get_index (base + 18) bytes) (\<lambda>version_count.
        Option.bind (read_versions bytes base [0..<min MAX_PROTOCOL_VERSIONS (unat version_count)])
          (\<lambda>vs.
        Option.bind (get_u64 bytes base) (\<lambda>protocol_id.
        Option.bind (get_u64 bytes (base + 8)) (\<lambda>service_generation.
        Option.bind (get_range (base + 40) (base + 40 + unat n) bytes) (\<lambda>name.
        Some \<lparr>sr_protocol_id = protocol_id, sr_service_generation = service_generation,
              sr_versions = vs @ replicate (MAX_PROTOCOL_VERSIONS - length vs) default_version,
              sr_version_count = version_count, sr_service_name = name\<rparr>)))))))"

definition page_version :: "service_list_page \<Rightarrow> nat \<Rightarrow> nat \<Rightarrow> protocol_version option" where
  "page_version page rec version =
     (if rec \<ge> unat (sp_record_count page) then None
      else
        let base = SERVICE_LIST_PREFIX_BYTES + rec * SERVICE_LIST_RECORD_BYTES;
            bytes = sp_bytes page in
        Option.bind (get_index (base + 18) bytes) (\<lambda>count.
        if version \<ge> unat count then None
        else
          Option.bind (get_u16 bytes (base + 24 + version * 4)) (\<lambda>major.
          Option.bind (get_u16 bytes (base + 26 + version * 4)) (\<lambda>minor.
          Some (ProtocolVersion major minor)))))"

subsection \<open>The parser\<close>

definition parse_body ::
  "bool \<Rightarrow> byte list \<Rightarrow> nat \<Rightarrow> message_type \<Rightarrow> (proto_error, message) res" where
  "parse_body oc bytes handles message_type =
     (case message_type of
        T_InstallPublication \<Rightarrow>
          rbind (require_handles handles 1) (\<lambda>_.
          rbind (parse_install_publication bytes) (\<lambda>v. Ok (M_InstallPublication v)))
      | T_InstallClient \<Rightarrow>
          rbind (require_handles handles 1) (\<lambda>_.
          rbind (require_size bytes 104) (\<lambda>_.
          rbind (parse_install_client bytes) (\<lambda>v. Ok (M_InstallClient v))))
      | T_Publish \<Rightarrow> exact_header bytes handles M_Publish
      | T_Published \<Rightarrow> exact_header bytes handles M_Published
      | T_Retire \<Rightarrow> exact_header bytes handles M_Retire
      | T_Retired \<Rightarrow> exact_header bytes handles M_Retired
      | T_LookupConnect \<Rightarrow>
          rbind (require_handles handles 1) (\<lambda>_.
          rbind (parse_lookup bytes) (\<lambda>v. Ok (M_LookupConnect v)))
      | T_ConnectOffer \<Rightarrow>
          rbind (require_handles handles 1) (\<lambda>_.
          rbind (parse_lookup bytes) (\<lambda>v. Ok (M_ConnectOffer v)))
      | T_Connected \<Rightarrow> exact_header bytes handles M_Connected
      | T_Enumerate \<Rightarrow> exact_header bytes handles M_Enumerate
      | T_ServiceList \<Rightarrow>
          rbind (require_handles handles 0) (\<lambda>_.
          rbind (parse_service_list oc bytes) (\<lambda>v. Ok (M_ServiceList v)))
      | T_Watch \<Rightarrow>
          rbind (require_handles handles 0) (\<lambda>_.
          rbind (parse_watch bytes) (\<lambda>v. Ok (M_Watch v)))
      | T_GenerationChanged \<Rightarrow>
          rbind (require_handles handles 0) (\<lambda>_.
          rbind (require_size bytes 72) (\<lambda>_.
          rbind (read_u64 bytes 64) (\<lambda>g. Ok (M_GenerationChanged g))))
      | T_Error \<Rightarrow>
          rbind (require_handles handles 0) (\<lambda>_.
          rbind (require_size bytes 72) (\<lambda>_.
          rbind (read_u32 bytes 68) (\<lambda>reserved.
          if reserved \<noteq> 0 then Err E_NonzeroReserved
          else rbind (read_u32 bytes 64) (\<lambda>c.
               rbind (parse_error_code c) (\<lambda>code. Ok (M_Error code))))))
      | _ \<Rightarrow> \<comment> \<open>\<open>T_Cancel\<close> and \<open>T_Cancelled\<close>\<close>
          rbind (require_handles handles 0) (\<lambda>_.
          rbind (require_size bytes 72) (\<lambda>_.
          rbind (read_u64 bytes 64) (\<lambda>target.
          if target = 0 then Err E_ZeroIdentity
          else if message_type = T_Cancel then Ok (M_Cancel target)
          else Ok (M_Cancelled target)))))"

definition parse :: "bool \<Rightarrow> byte list \<Rightarrow> nat \<Rightarrow> (proto_error, parsed_message) res" where
  "parse oc bytes received_handle_count =
     rbind (parse_header bytes) (\<lambda>framing.
     if ph_declared_handle_count framing \<noteq> received_handle_count then Err E_WrongHandleCount
     else
       let hdr = ph_header framing in
       rbind (parse_body oc bytes received_handle_count (h_message_type hdr)) (\<lambda>message.
       Ok \<lparr>pm_header = hdr, pm_message = message\<rparr>))"

end
