(* ===== verification/RegistryEncode.thy ===== *)
theory RegistryEncode
  imports RegistryWire
begin

text \<open>
  The encoders of the WRRG wire format (\<^verbatim>\<open>crates/wyrmroot-registry-proto/src/lib.rs\<close>): actions on
  the caller's output buffer that give the size of the message they wrote.
\<close>

definition encode_header :: "header \<Rightarrow> nat \<Rightarrow> nat \<Rightarrow> (byte list, proto_error, unit) action" where
  "encode_header hdr handles total_size out =
     (if length out < total_size \<or> total_size < HEADER_BYTES then (Err E_WrongSize, out)
      else if h_registry_generation hdr = 0 \<or> h_transaction_id hdr = 0 then (Err E_ZeroIdentity, out)
      else if on_supervisor (h_message_type hdr) \<noteq>
                (h_endpoint_id hdr = 0 \<and> h_endpoint_generation hdr = 0)
      then (Err E_WrongEndpointScope, out)
      else
        abind (fill_zero_r total_size) (\<lambda>_.
        abind (write_r 0 WRRG_MAGIC) (\<lambda>_.
        abind (put_u16 4 WRRG_MAJOR) (\<lambda>_.
        abind (put_u16 6 WRRG_MINOR) (\<lambda>_.
        abind (put_u32 8 (message_type_code (h_message_type hdr))) (\<lambda>_.
        abind (if total_size < 2 ^ 32 then put_u32 16 (word_of_nat total_size)
               else afail E_WrongSize) (\<lambda>_.
        abind (if handles < 2 ^ 32 then put_u32 20 (word_of_nat handles)
               else afail E_WrongHandleCount) (\<lambda>_.
        abind (put_u64 24 (h_registry_generation hdr)) (\<lambda>_.
        abind (put_u64 32 (h_endpoint_id hdr)) (\<lambda>_.
        abind (put_u64 40 (h_endpoint_generation hdr)) (\<lambda>_.
        put_u64 48 (h_transaction_id hdr))))))))))) out)"

definition encode_empty :: "header \<Rightarrow> (byte list, proto_error, nat) action" where
  "encode_empty hdr =
     (if h_message_type hdr \<notin>
          {T_Publish, T_Published, T_Retire, T_Retired, T_Connected, T_Enumerate}
      then afail E_UnknownMessageType
      else abind (encode_header hdr 0 HEADER_BYTES) (\<lambda>_. aret HEADER_BYTES))"

definition encode_generation_changed :: "header \<Rightarrow> u64 \<Rightarrow> (byte list, proto_error, nat) action" where
  "encode_generation_changed hdr generation =
     (if h_message_type hdr \<noteq> T_GenerationChanged then afail E_UnknownMessageType
      else
        abind (encode_header hdr 0 72) (\<lambda>_.
        abind (put_u64 64 generation) (\<lambda>_. aret 72)))"

definition encode_cancel :: "header \<Rightarrow> u64 \<Rightarrow> (byte list, proto_error, nat) action" where
  "encode_cancel hdr target =
     (if h_message_type hdr \<notin> {T_Cancel, T_Cancelled} \<or> target = 0 then afail E_ZeroIdentity
      else
        abind (encode_header hdr 0 72) (\<lambda>_.
        abind (put_u64 64 target) (\<lambda>_. aret 72)))"

definition encode_error :: "header \<Rightarrow> error_code \<Rightarrow> (byte list, proto_error, nat) action" where
  "encode_error hdr code =
     (if h_message_type hdr \<noteq> T_Error then afail E_UnknownMessageType
      else
        abind (encode_header hdr 0 72) (\<lambda>_.
        abind (put_u32 64 (error_code_code code)) (\<lambda>_. aret 72)))"

fun put_versions ::
  "nat \<Rightarrow> nat \<Rightarrow> protocol_version list \<Rightarrow> (byte list, proto_error, unit) action" where
  "put_versions base index [] = aret ()"
| "put_versions base index (v # vs) =
     abind (put_u16 (base + index * 4) (pv_major v)) (\<lambda>_.
     abind (put_u16 (base + 2 + index * 4) (pv_minor v)) (\<lambda>_.
     put_versions base (Suc index) vs))"

fun put_records ::
  "byte list option \<Rightarrow> nat \<Rightarrow> service_list_record list \<Rightarrow> (byte list, proto_error, unit) action"
where
  "put_records previous index [] = aret ()"
| "put_records previous index (r # rs) =
     (if sr_protocol_id r = 0 \<or> sr_service_generation r = 0 then afail E_InvalidServiceList
      else
        abind (alift (validate_name (sr_service_name r))) (\<lambda>_.
        let count = unat (sr_version_count r) in
        abind (alift (ok_or E_InvalidVersionList (get_range 0 count (sr_versions r)))) (\<lambda>vs.
        abind (alift (validate_versions vs)) (\<lambda>_.
        if (case previous of None \<Rightarrow> False | Some name \<Rightarrow> name \<ge> sr_service_name r)
        then afail E_InvalidServiceList
        else
          let base = SERVICE_LIST_PREFIX_BYTES + index * SERVICE_LIST_RECORD_BYTES in
          abind (put_u64 base (sr_protocol_id r)) (\<lambda>_.
          abind (put_u64 (base + 8) (sr_service_generation r)) (\<lambda>_.
          abind (put_u16 (base + 16) (word_of_nat (length (sr_service_name r)))) (\<lambda>_.
          abind (write_r (base + 18) [sr_version_count r]) (\<lambda>_.
          abind (put_versions (base + 24) 0 vs) (\<lambda>_.
          abind (write_r (base + 40) (sr_service_name r)) (\<lambda>_.
          put_records (Some (sr_service_name r)) (Suc index) rs))))))))))"

definition encode_service_list ::
  "bool \<Rightarrow> header \<Rightarrow> u16 \<Rightarrow> u16 \<Rightarrow> u16 \<Rightarrow> service_list_record list \<Rightarrow>
     (byte list, proto_error, nat) action" where
  "encode_service_list oc hdr page_index page_count total_count records =
     (if h_message_type hdr \<noteq> T_ServiceList \<or> length records > MAX_SERVICE_LIST_RECORDS \<or>
         page_count = 0 \<or> unat page_count > MAX_SERVICE_LIST_PAGES \<or> page_index \<ge> page_count \<or>
         unat total_count > MAX_SERVICES
      then afail E_InvalidServiceList
      else
        abind (alift (validate_page_shape oc page_index page_count total_count (length records))) (\<lambda>_.
        let len = SERVICE_LIST_PREFIX_BYTES + length records * SERVICE_LIST_RECORD_BYTES in
        abind (encode_header hdr 0 len) (\<lambda>_.
        abind (put_u16 64 page_index) (\<lambda>_.
        abind (put_u16 66 page_count) (\<lambda>_.
        abind (put_u16 68 (word_of_nat (length records))) (\<lambda>_.
        abind (put_u16 70 total_count) (\<lambda>_.
        abind (put_records None 0 records) (\<lambda>_.
        aret len))))))))"

definition encode_lookup :: "header \<Rightarrow> lookup_request \<Rightarrow> (byte list, proto_error, nat) action" where
  "encode_lookup hdr lookup =
     (if h_message_type hdr \<notin> {T_LookupConnect, T_ConnectOffer} \<or> lk_protocol_id lookup = 0
      then afail E_InvalidProtocolId
      else
        abind (alift (validate_name (lk_service_name lookup))) (\<lambda>_.
        abind (alift (ok_or E_ArithmeticOverflow
          (checked_add_usize 80 (length (lk_service_name lookup))))) (\<lambda>len.
        abind (encode_header hdr 1 len) (\<lambda>_.
        abind (put_u64 64 (lk_protocol_id lookup)) (\<lambda>_.
        abind (put_u16 72 (pv_major (lk_version lookup))) (\<lambda>_.
        abind (put_u16 74 (pv_minor (lk_version lookup))) (\<lambda>_.
        abind (put_u16 76 (word_of_nat (length (lk_service_name lookup)))) (\<lambda>_.
        abind (write_r 80 (lk_service_name lookup)) (\<lambda>_.
        aret len)))))))))"

definition encode_watch :: "header \<Rightarrow> watch_request \<Rightarrow> (byte list, proto_error, nat) action" where
  "encode_watch hdr watch =
     (if h_message_type hdr \<noteq> T_Watch \<or> wt_protocol_id watch = 0
      then afail E_InvalidProtocolId
      else
        abind (alift (validate_name (wt_service_name watch))) (\<lambda>_.
        abind (alift (ok_or E_ArithmeticOverflow
          (checked_add_usize 88 (length (wt_service_name watch))))) (\<lambda>len.
        abind (encode_header hdr 0 len) (\<lambda>_.
        abind (put_u64 64 (wt_protocol_id watch)) (\<lambda>_.
        abind (put_u64 72 (wt_last_observed_generation watch)) (\<lambda>_.
        abind (put_u16 80 (word_of_nat (length (wt_service_name watch)))) (\<lambda>_.
        abind (write_r 88 (wt_service_name watch)) (\<lambda>_.
        aret len))))))))"

definition encode_install_publication ::
  "header \<Rightarrow> u64 \<Rightarrow> u64 \<Rightarrow> u32 \<Rightarrow> u64 \<Rightarrow> u64 \<Rightarrow> u64 \<Rightarrow> protocol_version list \<Rightarrow> byte list \<Rightarrow>
     (byte list, proto_error, nat) action" where
  "encode_install_publication hdr endpoint_id endpoint_generation supervisor_role_id
       publication_id service_generation protocol_id versions name =
     (if h_message_type hdr \<noteq> T_InstallPublication \<or> endpoint_id = 0 \<or> endpoint_generation = 0 \<or>
         supervisor_role_id = 0 \<or> publication_id = 0 \<or> service_generation = 0 \<or> protocol_id = 0
      then afail E_ZeroIdentity
      else
        abind (alift (validate_name name)) (\<lambda>_.
        abind (alift (validate_versions versions)) (\<lambda>_.
        abind (alift (ok_or E_ArithmeticOverflow (checked_mul_usize (length versions) 4))) (\<lambda>vbytes.
        abind (alift (ok_or E_ArithmeticOverflow
          (Option.bind (checked_add_usize 120 vbytes) (\<lambda>v. checked_add_usize v (length name))))) (\<lambda>len.
        abind (encode_header hdr 1 len) (\<lambda>_.
        abind (put_u64 64 endpoint_id) (\<lambda>_.
        abind (put_u64 72 endpoint_generation) (\<lambda>_.
        abind (put_u32 80 supervisor_role_id) (\<lambda>_.
        abind (put_u64 88 publication_id) (\<lambda>_.
        abind (put_u64 96 service_generation) (\<lambda>_.
        abind (put_u64 104 protocol_id) (\<lambda>_.
        abind (put_u16 112 (word_of_nat (length versions))) (\<lambda>_.
        abind (put_u16 114 (word_of_nat (length name))) (\<lambda>_.
        abind (put_versions 120 0 versions) (\<lambda>_.
        abind (write_r (120 + length versions * 4) name) (\<lambda>_.
        aret len))))))))))))))))"

definition encode_install_client ::
  "header \<Rightarrow> install_client \<Rightarrow> (byte list, proto_error, nat) action" where
  "encode_install_client hdr install =
     (if h_message_type hdr \<noteq> T_InstallClient \<or> ic_endpoint_id install = 0 \<or>
         ic_endpoint_generation install = 0 \<or> ic_client_id install = 0 \<or>
         ic_client_generation install = 0
      then afail E_ZeroIdentity
      else
        abind (encode_header hdr 1 104) (\<lambda>_.
        abind (put_u64 64 (ic_endpoint_id install)) (\<lambda>_.
        abind (put_u64 72 (ic_endpoint_generation install)) (\<lambda>_.
        abind (put_u64 80 (ic_client_id install)) (\<lambda>_.
        abind (put_u64 88 (ic_client_generation install)) (\<lambda>_.
        abind (put_u32 96 (case ic_scope install of ScopeNone \<Rightarrow> 0 | ScopeBootstrapMetadata \<Rightarrow> 1))
          (\<lambda>_. aret 104)))))))"

subsection \<open>What a write does\<close>

lemma put_field_eq [res_simps]:
  "offset + length value \<le> length bytes \<Longrightarrow> length bytes \<le> usize_max \<Longrightarrow>
     put_field offset value bytes = (Ok (), overwrite offset value bytes)"
  by (simp add: put_field_def checked_add_usize_def)

text \<open>The wire image of a header: what \<open>encode_header\<close> writes and what \<open>parse_header\<close> reads.\<close>

definition header_bytes :: "header \<Rightarrow> nat \<Rightarrow> nat \<Rightarrow> byte list" where
  "header_bytes hdr handles n =
     WRRG_MAGIC @ to_le 2 WRRG_MAJOR @ to_le 2 WRRG_MINOR @
     to_le 4 (message_type_code (h_message_type hdr)) @ to_le 4 (0 :: u32) @
     to_le 4 (word_of_nat n :: u32) @ to_le 4 (word_of_nat handles :: u32) @
     to_le 8 (h_registry_generation hdr) @ to_le 8 (h_endpoint_id hdr) @
     to_le 8 (h_endpoint_generation hdr) @ to_le 8 (h_transaction_id hdr) @ to_le 8 (0 :: u64)"

lemma length_header_bytes [simp]: "length (header_bytes hdr handles n) = 64"
  by (simp add: header_bytes_def WRRG_MAGIC_def)

text \<open>The headers that \<open>parse_header\<close> accepts.\<close>

definition header_ok :: "header \<Rightarrow> bool" where
  "header_ok hdr \<longleftrightarrow>
     h_registry_generation hdr \<noteq> 0 \<and> h_transaction_id hdr \<noteq> 0 \<and>
     (if on_supervisor (h_message_type hdr)
      then h_endpoint_id hdr = 0 \<and> h_endpoint_generation hdr = 0
      else h_endpoint_id hdr \<noteq> 0 \<and> h_endpoint_generation hdr \<noteq> 0)"

lemma header_ok_scope:
  "header_ok hdr \<Longrightarrow>
     on_supervisor (h_message_type hdr) = (h_endpoint_id hdr = 0 \<and> h_endpoint_generation hdr = 0)"
  by (auto simp: header_ok_def split: if_splits)

end
