(* ===== verification/RegistryCodec.thy ===== *)
theory RegistryCodec
  imports RegistryEncode
begin

text \<open>
  The properties of the WRRG codec: the parser never panics without overflow checks, what it accepts
  is well formed, and it reads back every message the encoders write.
\<close>

subsection \<open>Reading fields\<close>

lemma get_u16_eq:
  "get_u16 bytes off =
     (if off + 2 \<le> usize_max \<and> off + 2 \<le> length bytes then Some (from_le (region off 2 bytes))
      else None)"
  by (simp add: get_u16_def checked_add_usize_def get_range_def)

lemma get_u64_eq:
  "get_u64 bytes off =
     (if off + 8 \<le> usize_max \<and> off + 8 \<le> length bytes then Some (from_le (region off 8 bytes))
      else None)"
  by (simp add: get_u64_def checked_add_usize_def get_range_def)

lemma read_eq_Ok [res_simps]:
  "read_u16 bytes off = Ok v \<longleftrightarrow>
     off + 2 \<le> usize_max \<and> off + 2 \<le> length bytes \<and> v = from_le (region off 2 bytes)"
  "read_u32 bytes off = Ok w \<longleftrightarrow>
     off + 4 \<le> usize_max \<and> off + 4 \<le> length bytes \<and> w = from_le (region off 4 bytes)"
  "read_u64 bytes off = Ok x \<longleftrightarrow>
     off + 8 \<le> usize_max \<and> off + 8 \<le> length bytes \<and> x = from_le (region off 8 bytes)"
  by (auto simp: read_u16_def read_u32_def read_u64_def get_u16_eq checked_add_usize_def
        get_range_def)

lemma read_no_panic [simp]:
  "read_u16 bytes off \<noteq> Panic" "read_u32 bytes off \<noteq> Panic" "read_u64 bytes off \<noteq> Panic"
  by (auto simp: read_u16_def read_u32_def read_u64_def res_simps)

lemma read_u16_at:
  "off + 2 \<le> length bytes \<Longrightarrow> off + 2 \<le> usize_max \<Longrightarrow>
     read_u16 bytes off = Ok (from_le (region off 2 bytes))"
  by (simp add: res_simps)

lemma read_u32_at:
  "off + 4 \<le> length bytes \<Longrightarrow> off + 4 \<le> usize_max \<Longrightarrow>
     read_u32 bytes off = Ok (from_le (region off 4 bytes))"
  by (simp add: res_simps)

lemma read_u64_at:
  "off + 8 \<le> length bytes \<Longrightarrow> off + 8 \<le> usize_max \<Longrightarrow>
     read_u64 bytes off = Ok (from_le (region off 8 bytes))"
  by (simp add: res_simps)

lemmas read_at = read_u16_at read_u32_at read_u64_at

text \<open>A successful write found room in the buffer; the fact is kept folded, the writes of an encoder
  nest.\<close>

definition room :: "nat \<Rightarrow> byte list \<Rightarrow> byte list \<Rightarrow> bool" where
  "room off v b \<longleftrightarrow> off + length v \<le> length b"

lemma put_field_Ok [res_simps]:
  "put_field off v b = (Ok (), b') \<longleftrightarrow>
     off + length v \<le> usize_max \<and> room off v b \<and> b' = overwrite off v b"
  by (auto simp: put_field_def checked_add_usize_def room_def)

lemmas put_defs = put_u16_def put_u32_def put_u64_def

lemma write_r_Ok [res_simps]:
  "write_r off v b = (Ok (), b') \<longleftrightarrow> room off v b \<and> b' = overwrite off v b"
  by (auto simp: write_r_def room_def)

lemma fill_zero_r_Ok [res_simps]:
  "fill_zero_r n b = (Ok (), b') \<longleftrightarrow> n \<le> length b \<and> b' = overwrite 0 (replicate n 0) b"
  by (auto simp: fill_zero_r_def write_r_Ok room_def)

subsection \<open>Discriminants\<close>

lemma parse_message_type_code [simp]: "parse_message_type (message_type_code t) = Ok t"
  by (cases t) (simp_all add: parse_message_type_def)

lemma parse_message_type_Ok: "parse_message_type v = Ok t \<Longrightarrow> v = message_type_code t"
  by (auto simp: parse_message_type_def split: if_splits)

lemma parse_error_code_code [simp]: "parse_error_code (error_code_code c) = Ok c"
  by (cases c) (simp_all add: parse_error_code_def)

lemma parse_code_no_panic [simp]: "parse_message_type v \<noteq> Panic" "parse_error_code v \<noteq> Panic"
  by (simp_all add: parse_message_type_def parse_error_code_def)

lemma validate_no_panic [simp]:
  "validate_name name \<noteq> Panic" "validate_versions vs \<noteq> Panic" "require_size b n \<noteq> Panic"
  "require_handles a e \<noteq> Panic" "exact_header b h m \<noteq> Panic"
  by (simp_all add: validate_name_def validate_versions_def require_size_def require_handles_def
        exact_header_def res_simps)

lemma validate_version_loop_no_panic [simp]: "validate_version_loop v p is \<noteq> Panic"
  by (induction v p "is" rule: validate_version_loop.induct) (auto simp: res_simps)

lemma validate_version_list_no_panic [simp]: "validate_version_list v \<noteq> Panic"
  by (simp add: validate_version_list_def)

subsection \<open>The parser does not panic\<close>

lemma u16_arith_no_checks [simp]:
  "sub_u16 False a b = Ok (a - b)" "add_u16 False a b = Ok (a + b)" "mul_u16 False a b = Ok (a * b)"
  by (simp_all add: sub_u16_def add_u16_def mul_u16_def)

lemma validate_page_shape_no_panic: "validate_page_shape False i c t r \<noteq> Panic"
  by (auto simp: validate_page_shape_def Let_def res_simps split: if_splits)

lemma parse_header_no_panic [simp]: "parse_header bytes \<noteq> Panic"
  unfolding parse_header_def Let_def HEADER_BYTES_def
  by (intro no_panic) (auto simp: res_simps)

lemma decode_header_no_panic [simp]: "decode_header bytes \<noteq> Panic"
  unfolding decode_header_def HEADER_BYTES_def
  by (intro no_panic) (auto simp: res_simps)

lemma parse_install_publication_no_panic [simp]: "parse_install_publication bytes \<noteq> Panic"
  unfolding parse_install_publication_def Let_def
  by (intro no_panic) (auto simp: res_simps checked_add_usize_def checked_mul_usize_def
        split: if_splits)

lemma parse_install_client_no_panic [simp]: "parse_install_client bytes \<noteq> Panic"
  unfolding parse_install_client_def
  by (intro no_panic) auto

lemma parse_lookup_no_panic [simp]: "parse_lookup bytes \<noteq> Panic"
  unfolding parse_lookup_def Let_def
  by (intro no_panic) (auto simp: res_simps)

lemma parse_watch_no_panic [simp]: "parse_watch bytes \<noteq> Panic"
  unfolding parse_watch_def Let_def
  by (intro no_panic) (auto simp: res_simps)

lemma check_record_versions_no_panic [simp]: "check_record_versions b base n p vs \<noteq> Panic"
  by (induction vs arbitrary: p) (auto simp: res_simps Let_def)

lemma check_record_no_panic:
  assumes "80 + (Suc index) * 168 \<le> length bytes"
  shows "check_record bytes p index \<noteq> Panic"
  unfolding check_record_def Let_def proto_consts
  by (intro no_panic) (use assms in \<open>auto simp: res_simps proto_consts split: if_splits\<close>)

lemma check_records_no_panic:
  assumes "\<forall>i \<in> set is. 80 + (Suc i) * 168 \<le> length bytes"
  shows "check_records bytes p is \<noteq> Panic"
  using assms
proof (induction "is" arbitrary: p)
  case Nil
  then show ?case by simp
next
  case (Cons i "is")
  then show ?case by (auto simp: res_simps check_record_no_panic)
qed

lemma parse_service_list_no_panic: "parse_service_list False bytes \<noteq> Panic"
proof -
  have "check_records bytes None [0..<n] \<noteq> Panic" if "length bytes = 80 + n * 168" for n
    using that by (intro check_records_no_panic) auto
  then show ?thesis unfolding parse_service_list_def
    by (intro no_panic) (auto simp: proto_consts validate_page_shape_no_panic)
qed

lemma parse_no_panic: "parse False bytes handles \<noteq> Panic"
proof -
  have "parse_body False bytes handles t \<noteq> Panic" for t
    by (cases t) (simp_all add: parse_body_def res_simps parse_service_list_no_panic)
  then show ?thesis by (auto simp: parse_def res_simps Let_def)
qed

subsection \<open>Headers on the wire\<close>

text \<open>What a successful \<open>encode_header\<close> leaves in the buffer: the header, zeros up to the size of
  the message, the rest untouched.\<close>

lemma encode_header_inv:
  assumes "encode_header hdr handles n out = (Ok (), out')"
  shows "64 \<le> n \<and> n \<le> length out \<and> n < 2 ^ 32 \<and> handles < 2 ^ 32 \<and>
    out' = overwrite 48 (to_le 8 (h_transaction_id hdr))
      (overwrite 40 (to_le 8 (h_endpoint_generation hdr))
      (overwrite 32 (to_le 8 (h_endpoint_id hdr))
      (overwrite 24 (to_le 8 (h_registry_generation hdr))
      (overwrite 20 (to_le 4 (word_of_nat handles :: u32))
      (overwrite 16 (to_le 4 (word_of_nat n :: u32))
      (overwrite 8 (to_le 4 (message_type_code (h_message_type hdr)))
      (overwrite 6 (to_le 2 WRRG_MINOR) (overwrite 4 (to_le 2 WRRG_MAJOR)
      (overwrite 0 WRRG_MAGIC (overwrite 0 (replicate n 0) out))))))))))"
  using assms
  by (simp add: encode_header_def res_simps put_defs HEADER_BYTES_def split: if_splits)

lemma encode_header_Ok:
  assumes "encode_header hdr handles n out = (Ok (), out')"
  shows "64 \<le> n" and "n \<le> length out" and "n < 2 ^ 32" and "handles < 2 ^ 32"
    and "out' = header_bytes hdr handles n @ replicate (n - 64) 0 @ drop n out"
proof -
  note inv = encode_header_inv [OF assms]
  define z where "z = overwrite 0 (replicate n 0) out"
  show c: "64 \<le> n" "n \<le> length out" "n < 2 ^ 32" "handles < 2 ^ 32" using inv by blast+
  note o = inv [THEN conjunct2, THEN conjunct2, THEN conjunct2, THEN conjunct2, folded z_def]
  have m: "length WRRG_MAGIC = 4" by (simp add: WRRG_MAGIC_def)
  have z: "z = replicate n 0 @ drop n out" by (simp add: z_def overwrite_def)
  have z0: "overwrite 0 WRRG_MAGIC z = WRRG_MAGIC @ drop 4 z" by (simp add: overwrite_def m)
  have "region 12 4 z = to_le 4 (0 :: u32)" using c by (simp add: z region_replicate)
  moreover have "drop 56 z = to_le 8 (0 :: u64) @ replicate (n - 64) 0 @ drop n out"
    using c by (simp add: z flip: replicate_add)
  ultimately show "out' = header_bytes hdr handles n @ replicate (n - 64) 0 @ drop n out"
    by (simp add: o z0 chunk_simps m header_bytes_def)
qed

lemma header_reads:
  "read_u16 (header_bytes hdr handles n @ body) 4 = Ok WRRG_MAJOR"
  "read_u16 (header_bytes hdr handles n @ body) 6 = Ok WRRG_MINOR"
  "read_u32 (header_bytes hdr handles n @ body) 8 = Ok (message_type_code (h_message_type hdr))"
  "read_u32 (header_bytes hdr handles n @ body) 12 = Ok 0"
  "read_u32 (header_bytes hdr handles n @ body) 16 = Ok (word_of_nat n)"
  "read_u32 (header_bytes hdr handles n @ body) 20 = Ok (word_of_nat handles)"
  "read_u64 (header_bytes hdr handles n @ body) 24 = Ok (h_registry_generation hdr)"
  "read_u64 (header_bytes hdr handles n @ body) 32 = Ok (h_endpoint_id hdr)"
  "read_u64 (header_bytes hdr handles n @ body) 40 = Ok (h_endpoint_generation hdr)"
  "read_u64 (header_bytes hdr handles n @ body) 48 = Ok (h_transaction_id hdr)"
  "read_u64 (header_bytes hdr handles n @ body) 56 = Ok 0"
  "region_r 0 4 (header_bytes hdr handles n @ body) = Ok WRRG_MAGIC"
proof -
  have us: "64 \<le> usize_max" by (simp add: usize_max_def)
  have m: "length WRRG_MAGIC = 4" by (simp add: WRRG_MAGIC_def)
  show "read_u16 (header_bytes hdr handles n @ body) 4 = Ok WRRG_MAJOR"
    "read_u16 (header_bytes hdr handles n @ body) 6 = Ok WRRG_MINOR"
    "read_u32 (header_bytes hdr handles n @ body) 8 = Ok (message_type_code (h_message_type hdr))"
    "read_u32 (header_bytes hdr handles n @ body) 12 = Ok 0"
    "read_u32 (header_bytes hdr handles n @ body) 16 = Ok (word_of_nat n)"
    "read_u32 (header_bytes hdr handles n @ body) 20 = Ok (word_of_nat handles)"
    "read_u64 (header_bytes hdr handles n @ body) 24 = Ok (h_registry_generation hdr)"
    "read_u64 (header_bytes hdr handles n @ body) 32 = Ok (h_endpoint_id hdr)"
    "read_u64 (header_bytes hdr handles n @ body) 40 = Ok (h_endpoint_generation hdr)"
    "read_u64 (header_bytes hdr handles n @ body) 48 = Ok (h_transaction_id hdr)"
    "read_u64 (header_bytes hdr handles n @ body) 56 = Ok 0"
    using us by (simp_all add: res_simps header_bytes_def chunk_simps m)
  show "region_r 0 4 (header_bytes hdr handles n @ body) = Ok WRRG_MAGIC"
    by (simp add: region_r_def header_bytes_def chunk_simps m)
qed

lemma parse_header_bytes:
  assumes ok: "header_ok hdr" and n: "n = 64 + length body" "n < 2 ^ 32" and h: "handles < 2 ^ 32"
  shows "parse_header (header_bytes hdr handles n @ body) =
    Ok \<lparr>ph_header = hdr, ph_declared_size = n, ph_declared_handle_count = handles\<rparr>"
proof -
  let ?bytes = "header_bytes hdr handles n @ body"
  have u: "unat (word_of_nat n :: u32) = n" "unat (word_of_nat handles :: u32) = handles"
    using n(2) h by (simp_all add: unat_of_nat)
  have n': "length ?bytes = n" using n by simp
  have n64: "\<not> n < 64" using n by simp
  show ?thesis using ok
    by (simp add: parse_header_def HEADER_BYTES_def header_reads u n' n64 header_ok_def Let_def
          del: length_append split: if_splits)
qed

text \<open>The parser after the header: the rest is the body.\<close>

lemma parse_message:
  assumes "header_ok hdr" and "n = 64 + length body" "n < 2 ^ 32" and "handles < 2 ^ 32"
  shows "parse oc (header_bytes hdr handles n @ body) handles =
    rbind (parse_body oc (header_bytes hdr handles n @ body) handles (h_message_type hdr))
      (\<lambda>m. Ok \<lparr>pm_header = hdr, pm_message = m\<rparr>)"
  using parse_header_bytes [OF assms] by (simp add: parse_def Let_def)

text \<open>Reading a field of the body, behind the header.\<close>

lemma read_body:
  "64 \<le> off \<Longrightarrow> off + 2 \<le> 64 + length body \<Longrightarrow> off + 2 \<le> usize_max \<Longrightarrow>
     read_u16 (header_bytes hdr h n @ body) off = Ok (from_le (region (off - 64) 2 body))"
  "64 \<le> off \<Longrightarrow> off + 4 \<le> 64 + length body \<Longrightarrow> off + 4 \<le> usize_max \<Longrightarrow>
     read_u32 (header_bytes hdr h n @ body) off = Ok (from_le (region (off - 64) 4 body))"
  "64 \<le> off \<Longrightarrow> off + 8 \<le> 64 + length body \<Longrightarrow> off + 8 \<le> usize_max \<Longrightarrow>
     read_u64 (header_bytes hdr h n @ body) off = Ok (from_le (region (off - 64) 8 body))"
  by (simp_all add: res_simps chunk_simps)

subsection \<open>Messages on the wire\<close>

text \<open>An encoder writes header and body, and the body parses to the message: \<open>wire_run\<close> for one
  run, \<open>wire\<close> for every successful run of an encoder.\<close>

definition wire_run ::
  "header \<Rightarrow> message \<Rightarrow> nat \<Rightarrow> byte list \<Rightarrow> byte list \<Rightarrow> nat \<Rightarrow> byte list \<Rightarrow> bool" where
  "wire_run hdr m h body out n out' \<longleftrightarrow>
     n = 64 + length body \<and> out' = header_bytes hdr h n @ body @ drop n out \<and>
     n \<le> length out \<and> n < 2 ^ 32 \<and> h < 2 ^ 32 \<and>
     (\<forall>oc. parse_body oc (header_bytes hdr h n @ body) h (h_message_type hdr) = Ok m)"

definition wire ::
  "(byte list, proto_error, nat) action \<Rightarrow> header \<Rightarrow> message \<Rightarrow> nat \<Rightarrow> bool" where
  "wire enc hdr m h \<longleftrightarrow>
     (\<forall>out n out'. enc out = (Ok n, out') \<longrightarrow> (\<exists>body. wire_run hdr m h body out n out'))"

lemma wireI:
  "(\<And>out n out'. enc out = (Ok n, out') \<Longrightarrow> \<exists>body. wire_run hdr m h body out n out') \<Longrightarrow>
     wire enc hdr m h"
  by (simp add: wire_def)

text \<open>\<open>Z\<close> is the zeroed rest of the buffer into which the body is written.\<close>

lemma wire_runI:
  assumes "encode_header hdr h n out = (Ok (), o1)" and "n = 64 + length body"
    and "\<And>Z. Z = replicate (length body) 0 @ drop n out \<Longrightarrow> o1 = header_bytes hdr h n @ Z \<Longrightarrow>
      out' = header_bytes hdr h n @ body @ drop n out"
    and "\<And>oc. parse_body oc (header_bytes hdr h n @ body) h (h_message_type hdr) = Ok m"
  shows "wire_run hdr m h body out n out'"
proof -
  note e = encode_header_Ok [OF assms(1)]
  have "o1 = header_bytes hdr h n @ replicate (length body) 0 @ drop n out"
    using e(5) assms(2) by simp
  from assms(3) [OF refl this] e(2,3,4) assms(2,4) show ?thesis
    by (simp add: wire_run_def)
qed

lemma wire_parse:
  assumes "wire enc hdr m h" and "header_ok hdr" and "enc out = (Ok n, out')"
  shows "parse oc (take n out') h = Ok \<lparr>pm_header = hdr, pm_message = m\<rparr>"
    and "n \<le> length out" and "drop n out' = drop n out" and "length out' = length out"
proof -
  from assms(1,3) obtain body where b: "n = 64 + length body"
      "out' = header_bytes hdr h n @ body @ drop n out" "n \<le> length out" "n < 2 ^ 32" "h < 2 ^ 32"
      "parse_body oc (header_bytes hdr h n @ body) h (h_message_type hdr) = Ok m"
    unfolding wire_def wire_run_def by blast
  have "take n out' = header_bytes hdr h n @ body" using b(1,2) by simp
  with parse_message [OF assms(2) b(1,4,5)] b(6)
  show "parse oc (take n out') h = Ok \<lparr>pm_header = hdr, pm_message = m\<rparr>" by simp
  show "n \<le> length out" "drop n out' = drop n out" "length out' = length out"
    using b by simp_all
qed

text \<open>Zeros reserved in the middle of a body.\<close>

lemma overwrite_Cons: "0 < off \<Longrightarrow> overwrite off bs (x # xs) = x # overwrite (off - 1) bs xs"
  by (cases off) (simp_all add: overwrite_def)

lemma overwrite_replicate:
  "k + length bs \<le> m \<Longrightarrow>
     overwrite k bs (replicate m x @ ys) = replicate k x @ bs @ replicate (m - (k + length bs)) x @ ys"
  by (simp add: overwrite_def)

lemmas body_simps = require_handles_def require_size_def exact_header_def HEADER_BYTES_def
  read_body chunk_simps usize_max_def

lemma wire_empty:
  assumes "(h_message_type hdr, m) \<in>
    {(T_Publish, M_Publish), (T_Published, M_Published), (T_Retire, M_Retire),
     (T_Retired, M_Retired), (T_Connected, M_Connected), (T_Enumerate, M_Enumerate)}"
  shows "wire (encode_empty hdr) hdr m 0"
proof (rule wireI)
  fix out n out'
  assume "encode_empty hdr out = (Ok n, out')"
  then have "encode_header hdr 0 64 out = (Ok (), out')" "n = 64"
    using assms by (auto simp: encode_empty_def res_simps HEADER_BYTES_def split: if_splits)
  with assms show "\<exists>body. wire_run hdr m 0 body out n out'"
    by (intro exI [of _ "[]"] wire_runI [where ?o1.0 = out']) (auto simp: parse_body_def body_simps)
qed

lemma wire_generation_changed:
  "wire (encode_generation_changed hdr g) hdr (M_GenerationChanged g) 0"
proof (rule wireI)
  fix out n out'
  assume "encode_generation_changed hdr g out = (Ok n, out')"
  then obtain o1 where "encode_header hdr 0 72 out = (Ok (), o1)" "n = 72"
      "out' = overwrite 64 (to_le 8 g) o1" "h_message_type hdr = T_GenerationChanged"
    by (auto simp: encode_generation_changed_def res_simps put_defs split: if_splits)
  then show "\<exists>body. wire_run hdr (M_GenerationChanged g) 0 body out n out'"
    by (intro exI [of _ "to_le 8 g"] wire_runI [where ?o1.0 = o1])
       (auto simp: parse_body_def body_simps)
qed

lemma wire_cancel:
  assumes "(h_message_type hdr, m) \<in> {(T_Cancel, M_Cancel t), (T_Cancelled, M_Cancelled t)}"
  shows "wire (encode_cancel hdr t) hdr m 0"
proof (rule wireI)
  fix out n out'
  assume "encode_cancel hdr t out = (Ok n, out')"
  then obtain o1 where "encode_header hdr 0 72 out = (Ok (), o1)" "n = 72"
      "out' = overwrite 64 (to_le 8 t) o1" "t \<noteq> 0"
    by (auto simp: encode_cancel_def res_simps put_defs split: if_splits)
  with assms show "\<exists>body. wire_run hdr m 0 body out n out'"
    by (intro exI [of _ "to_le 8 t"] wire_runI [where ?o1.0 = o1])
       (auto simp: parse_body_def body_simps)
qed

lemma wire_error: "wire (encode_error hdr c) hdr (M_Error c) 0"
proof (rule wireI)
  fix out n out'
  assume "encode_error hdr c out = (Ok n, out')"
  then obtain o1 where "encode_header hdr 0 72 out = (Ok (), o1)" "n = 72"
      "out' = overwrite 64 (to_le 4 (error_code_code c)) o1" "h_message_type hdr = T_Error"
    by (auto simp: encode_error_def res_simps put_defs split: if_splits)
  then show "\<exists>body. wire_run hdr (M_Error c) 0 body out n out'"
    by (intro exI [of _ "to_le 4 (error_code_code c) @ replicate 4 0"] wire_runI [where ?o1.0 = o1])
       (auto simp: parse_body_def body_simps)
qed

text \<open>Messages with a service name: the name is at most 128 bytes long.\<close>

lemma validate_name_Ok:
  "validate_name name = Ok () \<longleftrightarrow>
     name \<noteq> [] \<and> length name \<le> 128 \<and> ascii_lowercase (name ! 0) \<and>
     (\<forall>b \<in> set (drop 1 name). ascii_lowercase b \<or> ascii_digit b \<or> b = 46 \<or> b = 45)"
  by (auto simp: validate_name_def MAX_SERVICE_NAME_BYTES_def list_all_iff)

lemma unat_length_u16: "length xs \<le> 128 \<Longrightarrow> unat (word_of_nat (length xs) :: u16) = length xs"
  by (simp add: unat_of_nat)

definition lookup_body :: "lookup_request \<Rightarrow> byte list" where
  "lookup_body l =
     to_le 8 (lk_protocol_id l) @ to_le 2 (pv_major (lk_version l)) @
     to_le 2 (pv_minor (lk_version l)) @
     to_le 2 (word_of_nat (length (lk_service_name l)) :: u16) @ replicate 2 0 @ lk_service_name l"

lemma parse_lookup_body:
  assumes "lk_protocol_id l \<noteq> 0" and "validate_name (lk_service_name l) = Ok ()"
  shows "parse_lookup (header_bytes hdr h n @ lookup_body l) = Ok l"
proof -
  let ?bytes = "header_bytes hdr h n @ lookup_body l" and ?name = "lk_service_name l"
  have name: "?name \<noteq> []" "length ?name \<le> 128" using assms(2) by (simp_all add: validate_name_Ok)
  have "1 \<le> length ?name" using name by (cases ?name) auto
  have len: "length ?bytes = 80 + length ?name" by (simp add: lookup_body_def)
  have big: "\<not> 80 + length ?name < 81" using name by simp
  have "read_u64 ?bytes 64 = Ok (lk_protocol_id l)" "read_u16 ?bytes 72 = Ok (pv_major (lk_version l))"
    "read_u16 ?bytes 74 = Ok (pv_minor (lk_version l))"
    "read_u16 ?bytes 76 = Ok (word_of_nat (length ?name))" "read_u16 ?bytes 78 = Ok 0"
    by (simp_all add: lookup_body_def read_body chunk_simps usize_max_def)
  moreover have "region_r 80 (80 + length ?name) ?bytes = (Ok ?name :: (proto_error, byte list) res)"
    by (simp add: region_r_def lookup_body_def chunk_simps)
  ultimately show ?thesis using assms name(2) big
    by (simp add: parse_lookup_def len unat_length_u16 Let_def del: length_append)
qed

lemma wire_lookup:
  assumes "(h_message_type hdr, m) \<in>
    {(T_LookupConnect, M_LookupConnect l), (T_ConnectOffer, M_ConnectOffer l)}"
  shows "wire (encode_lookup hdr l) hdr m 1"
proof (rule wireI)
  fix out n out'
  let ?name = "lk_service_name l" and ?v = "lk_version l"
  assume "encode_lookup hdr l out = (Ok n, out')"
  then obtain o1 where o1: "encode_header hdr 1 n out = (Ok (), o1)" "n = 80 + length ?name"
      "out' = overwrite 80 ?name (overwrite 76 (to_le 2 (word_of_nat (length ?name) :: u16))
        (overwrite 74 (to_le 2 (pv_minor ?v)) (overwrite 72 (to_le 2 (pv_major ?v))
        (overwrite 64 (to_le 8 (lk_protocol_id l)) o1))))"
      "lk_protocol_id l \<noteq> 0" "validate_name ?name = Ok ()"
    by (auto simp: encode_lookup_def res_simps put_defs checked_add_usize_def split: if_splits)
  have "wire_run hdr m 1 (lookup_body l) out n out'"
    using o1(1)
  proof (rule wire_runI)
    show "n = 64 + length (lookup_body l)" using o1(2) by (simp add: lookup_body_def)
    show "parse_body oc (header_bytes hdr 1 n @ lookup_body l) 1 (h_message_type hdr) = Ok m" for oc
      using assms parse_lookup_body [OF o1(4,5)]
      by (auto simp: parse_body_def require_handles_def)
    show "out' = header_bytes hdr 1 n @ lookup_body l @ drop n out"
      if "Z = replicate (length (lookup_body l)) 0 @ drop n out" "o1 = header_bytes hdr 1 n @ Z" for Z
      unfolding o1(3) that by (simp add: lookup_body_def chunk_simps overwrite_Cons numeral_2_eq_2)
  qed
  then show "\<exists>body. wire_run hdr m 1 body out n out'" by blast
qed

definition watch_body :: "watch_request \<Rightarrow> byte list" where
  "watch_body w =
     to_le 8 (wt_protocol_id w) @ to_le 8 (wt_last_observed_generation w) @
     to_le 2 (word_of_nat (length (wt_service_name w)) :: u16) @ [0, 0, 0, 0, 0, 0] @
     wt_service_name w"

lemma from_le_zeros [simp]: "from_le [0, 0] = 0" "from_le [0, 0, 0, 0] = 0"
  using from_le_replicate_0 [of 2] from_le_replicate_0 [of 4] by (simp_all add: numeral_eq_Suc)

lemma parse_watch_body:
  assumes "wt_protocol_id w \<noteq> 0" and "validate_name (wt_service_name w) = Ok ()"
  shows "parse_watch (header_bytes hdr h n @ watch_body w) = Ok w"
proof -
  let ?bytes = "header_bytes hdr h n @ watch_body w" and ?name = "wt_service_name w"
  have name: "?name \<noteq> []" "length ?name \<le> 128" using assms(2) by (simp_all add: validate_name_Ok)
  have len: "length ?bytes = 88 + length ?name" by (simp add: watch_body_def)
  have big: "\<not> 88 + length ?name < 89" using name by simp
  have "read_u64 ?bytes 64 = Ok (wt_protocol_id w)"
    "read_u64 ?bytes 72 = Ok (wt_last_observed_generation w)"
    "read_u16 ?bytes 80 = Ok (word_of_nat (length ?name))" "read_u16 ?bytes 82 = Ok 0"
    "read_u32 ?bytes 84 = Ok 0"
    by (simp_all add: watch_body_def read_body chunk_simps usize_max_def region_def)
  moreover have "region_r 88 (88 + length ?name) ?bytes = (Ok ?name :: (proto_error, byte list) res)"
    by (simp add: region_r_def watch_body_def chunk_simps region_def)
  ultimately show ?thesis using assms name(2) big
    by (simp add: parse_watch_def len unat_length_u16 Let_def del: length_append)
qed

lemma wire_watch: "wire (encode_watch hdr w) hdr (M_Watch w) 0"
proof (rule wireI)
  fix out n out'
  let ?name = "wt_service_name w"
  assume "encode_watch hdr w out = (Ok n, out')"
  then obtain o1 where o1: "encode_header hdr 0 n out = (Ok (), o1)" "n = 88 + length ?name"
      "out' = overwrite 88 ?name (overwrite 80 (to_le 2 (word_of_nat (length ?name) :: u16))
        (overwrite 72 (to_le 8 (wt_last_observed_generation w))
        (overwrite 64 (to_le 8 (wt_protocol_id w)) o1)))"
      "wt_protocol_id w \<noteq> 0" "validate_name ?name = Ok ()" "h_message_type hdr = T_Watch"
    by (auto simp: encode_watch_def res_simps put_defs checked_add_usize_def split: if_splits)
  have "wire_run hdr (M_Watch w) 0 (watch_body w) out n out'"
    using o1(1)
  proof (rule wire_runI)
    show "n = 64 + length (watch_body w)" using o1(2) by (simp add: watch_body_def)
    show "parse_body oc (header_bytes hdr 0 n @ watch_body w) 0 (h_message_type hdr) =
        Ok (M_Watch w)" for oc
      using parse_watch_body [OF o1(4,5)] o1(6) by (simp add: parse_body_def require_handles_def)
    show "out' = header_bytes hdr 0 n @ watch_body w @ drop n out"
      if "Z = replicate (length (watch_body w)) 0 @ drop n out" "o1 = header_bytes hdr 0 n @ Z" for Z
      unfolding o1(3) that by (simp add: watch_body_def chunk_simps overwrite_replicate) (simp add: numeral_eq_Suc)
  qed
  then show "\<exists>body. wire_run hdr (M_Watch w) 0 body out n out'" by blast
qed

definition scope_code :: "enumeration_scope \<Rightarrow> u32" where
  "scope_code s = (case s of ScopeNone \<Rightarrow> 0 | ScopeBootstrapMetadata \<Rightarrow> 1)"

lemma wire_install_client: "wire (encode_install_client hdr i) hdr (M_InstallClient i) 1"
proof (rule wireI)
  fix out n out'
  let ?body = "to_le 8 (ic_endpoint_id i) @ to_le 8 (ic_endpoint_generation i) @
    to_le 8 (ic_client_id i) @ to_le 8 (ic_client_generation i) @ to_le 4 (scope_code (ic_scope i)) @
    [0, 0, 0, 0]"
  assume "encode_install_client hdr i out = (Ok n, out')"
  then obtain o1 where o1: "encode_header hdr 1 n out = (Ok (), o1)" "n = 104"
      "out' = overwrite 96 (to_le 4 (scope_code (ic_scope i)))
        (overwrite 88 (to_le 8 (ic_client_generation i)) (overwrite 80 (to_le 8 (ic_client_id i))
        (overwrite 72 (to_le 8 (ic_endpoint_generation i))
        (overwrite 64 (to_le 8 (ic_endpoint_id i)) o1))))"
      "h_message_type hdr = T_InstallClient" "ic_endpoint_id i \<noteq> 0" "ic_endpoint_generation i \<noteq> 0"
      "ic_client_id i \<noteq> 0" "ic_client_generation i \<noteq> 0"
    by (auto simp: encode_install_client_def scope_code_def res_simps put_defs split: if_splits)
  have "wire_run hdr (M_InstallClient i) 1 ?body out n out'"
    using o1(1)
  proof (rule wire_runI)
    show "n = 64 + length ?body" using o1(2) by simp
    have "read_u64 (header_bytes hdr 1 n @ ?body) 64 = Ok (ic_endpoint_id i)"
      "read_u64 (header_bytes hdr 1 n @ ?body) 72 = Ok (ic_endpoint_generation i)"
      "read_u64 (header_bytes hdr 1 n @ ?body) 80 = Ok (ic_client_id i)"
      "read_u64 (header_bytes hdr 1 n @ ?body) 88 = Ok (ic_client_generation i)"
      "read_u32 (header_bytes hdr 1 n @ ?body) 96 = Ok (scope_code (ic_scope i))"
      "read_u32 (header_bytes hdr 1 n @ ?body) 100 = Ok 0"
      by (simp_all add: read_body chunk_simps usize_max_def)
    with o1(5-8) have "parse_install_client (header_bytes hdr 1 n @ ?body) = Ok i"
      by (cases "ic_scope i") (simp_all add: parse_install_client_def scope_code_def)
    then show "parse_body oc (header_bytes hdr 1 n @ ?body) 1 (h_message_type hdr) =
        Ok (M_InstallClient i)" for oc
      using o1(4) by (simp add: parse_body_def require_handles_def require_size_def)
    show "out' = header_bytes hdr 1 n @ ?body @ drop n out"
      if "Z = replicate (length ?body) 0 @ drop n out" "o1 = header_bytes hdr 1 n @ Z" for Z
      unfolding o1(3) that by (simp add: chunk_simps) (simp add: numeral_eq_Suc)
  qed
  then show "\<exists>body. wire_run hdr (M_InstallClient i) 1 body out n out'" by blast
qed

text \<open>Version lists.\<close>

definition version_bytes :: "protocol_version list \<Rightarrow> byte list" where
  "version_bytes vs = concat (map (\<lambda>v. to_le 2 (pv_major v) @ to_le 2 (pv_minor v)) vs)"

lemma version_bytes_simps [simp]:
  "version_bytes [] = []"
  "version_bytes (v # vs) = to_le 2 (pv_major v) @ to_le 2 (pv_minor v) @ version_bytes vs"
  by (simp_all add: version_bytes_def)

lemma length_version_bytes [simp]: "length (version_bytes vs) = 4 * length vs"
  by (induction vs) auto

lemma region_version_bytes:
  "i < length vs \<Longrightarrow> region (i * 4) 2 (version_bytes vs) = to_le 2 (pv_major (vs ! i))"
  "i < length vs \<Longrightarrow> region (i * 4 + 2) 2 (version_bytes vs) = to_le 2 (pv_minor (vs ! i))"
proof (induction vs arbitrary: i)
  case Nil
  { case 1 then show ?case by simp }
  { case 2 then show ?case by simp }
next
  case (Cons v vs)
  { case 1 then show ?case using Cons(1) by (cases i) (simp_all add: chunk_simps) }
  { case 2 then show ?case using Cons(2) by (cases i) (simp_all add: chunk_simps) }
qed

lemma put_versions_Ok:
  assumes "put_versions base index vs b = (Ok (), b')" and "base + index * 4 \<le> length b"
  shows "b' = overwrite (base + index * 4) (version_bytes vs) b"
  using assms
proof (induction vs arbitrary: index b)
  case Nil
  then show ?case by (simp add: res_simps overwrite_def)
next
  case (Cons v vs)
  let ?o = "base + index * 4" and ?M = "to_le 2 (pv_major v)" and ?m = "to_le 2 (pv_minor v)"
  let ?b = "overwrite (?o + 2) ?m (overwrite ?o ?M b)"
  have o2: "base + 2 + index * 4 = ?o + 2" by simp
  have w: "put_versions base (Suc index) vs ?b = (Ok (), b')"
    and r: "room ?o ?M b" "room (?o + 2) ?m (overwrite ?o ?M b)"
    using Cons.prems(1) unfolding put_versions.simps o2 by (simp_all add: res_simps put_defs)
  have b: "?b = overwrite ?o (?M @ ?m) b"
    using overwrite_overwrite [of ?o b ?M ?m] Cons.prems(2) by simp
  have "?o + 4 \<le> length b" using r by (simp add: room_def)
  then have "b' = overwrite (?o + 4) (version_bytes vs) ?b"
    using Cons.IH [OF w] by (simp add: b ac_simps)
  then show ?case
    using overwrite_overwrite [of ?o b "?M @ ?m" "version_bytes vs"] Cons.prems(2)
    unfolding b by simp
qed

lemma windows_increasing_sorted: "windows_increasing vs \<longleftrightarrow> sorted_wrt (<) vs"
proof (induction vs rule: windows_increasing.induct)
  case (1 a b vs)
  then show ?case by (auto intro: less_trans)
qed auto

lemma vl_get_version_bytes:
  assumes "i < length vs" and "length vs \<le> 4"
  shows "vl_get \<lparr>vl_bytes = version_bytes vs\<rparr> i = Some (vs ! i)"
  using assms region_version_bytes [OF assms(1)]
  by (simp add: vl_get_def checked_mul_usize_def get_u16_eq usize_max_def)

lemma vl_len_version_bytes [simp]: "vl_len \<lparr>vl_bytes = version_bytes vs\<rparr> = length vs"
  by (simp add: vl_len_def)

lemma validate_version_loop_sorted:
  assumes "sorted_wrt (<) vs" and "length vs \<le> 4" and "k \<le> length vs"
    and "case p of None \<Rightarrow> True | Some v \<Rightarrow> k < length vs \<longrightarrow> v < vs ! k"
  shows "validate_version_loop \<lparr>vl_bytes = version_bytes vs\<rparr> p [k..<length vs] = Ok ()"
  using assms
proof (induction "length vs - k" arbitrary: k p)
  case 0
  then show ?case by simp
next
  case (Suc d)
  then have k: "k < length vs" by simp
  have "Suc k < length vs \<longrightarrow> vs ! k < vs ! Suc k"
    using Suc.prems(1) by (simp add: sorted_wrt_nth_less)
  then have "validate_version_loop \<lparr>vl_bytes = version_bytes vs\<rparr> (Some (vs ! k))
      [Suc k..<length vs] = Ok ()"
    using Suc.hyps(2) Suc.prems(1,2) k by (intro Suc.hyps(1)) auto
  then show ?case using Suc.prems(2,4) k
    by (simp add: upt_conv_Cons vl_get_version_bytes not_le split: option.splits)
qed

lemma validate_version_list_sorted:
  "validate_versions vs = Ok () \<Longrightarrow>
     validate_version_list \<lparr>vl_bytes = version_bytes vs\<rparr> = Ok ()"
  unfolding validate_version_list_def vl_len_version_bytes
  by (rule validate_version_loop_sorted)
    (auto simp: validate_versions_def windows_increasing_sorted MAX_PROTOCOL_VERSIONS_def
      split: if_splits)

definition publication_body ::
  "u64 \<Rightarrow> u64 \<Rightarrow> u32 \<Rightarrow> u64 \<Rightarrow> u64 \<Rightarrow> u64 \<Rightarrow> protocol_version list \<Rightarrow> byte list \<Rightarrow> byte list" where
  "publication_body eid egen role pid sgen proto vs name =
     to_le 8 eid @ to_le 8 egen @ to_le 4 role @ replicate 4 0 @ to_le 8 pid @ to_le 8 sgen @
     to_le 8 proto @ to_le 2 (word_of_nat (length vs) :: u16) @
     to_le 2 (word_of_nat (length name) :: u16) @ replicate 4 0 @ version_bytes vs @ name"

lemma length_publication_body [simp]:
  "length (publication_body eid egen role pid sgen proto vs name) = 56 + 4 * length vs + length name"
  by (simp add: publication_body_def)

lemma parse_publication_body:
  fixes vs :: "protocol_version list"
  assumes "validate_name name = Ok ()" and "validate_versions vs = Ok ()"
    and "eid \<noteq> 0" "egen \<noteq> 0" "role \<noteq> 0" "pid \<noteq> 0" "sgen \<noteq> 0" "proto \<noteq> 0"
  shows "parse_install_publication
      (header_bytes hdr h n @ publication_body eid egen role pid sgen proto vs name) =
    Ok \<lparr>ip_endpoint_id = eid, ip_endpoint_generation = egen, ip_supervisor_role_id = role,
        ip_publication_id = pid, ip_service_generation = sgen, ip_protocol_id = proto,
        ip_versions = \<lparr>vl_bytes = version_bytes vs\<rparr>, ip_service_name = name\<rparr>"
proof -
  let ?bytes = "header_bytes hdr h n @ publication_body eid egen role pid sgen proto vs name"
  have name: "name \<noteq> []" "length name \<le> 128" using assms(1) by (simp_all add: validate_name_Ok)
  have vs: "1 \<le> length vs" "length vs \<le> 4" using assms(2)
    by (cases vs; simp add: validate_versions_def MAX_PROTOCOL_VERSIONS_def split: if_splits)+
  have big: "\<not> 120 + 4 * length vs + length name < 124" using vs by simp
  have len: "length ?bytes = 120 + 4 * length vs + length name" by simp
  have u: "unat (word_of_nat (length vs) :: u16) = length vs" using vs by (simp add: unat_of_nat)
  have rd: "read_u64 ?bytes 64 = Ok eid" "read_u64 ?bytes 72 = Ok egen" "read_u32 ?bytes 80 = Ok role"
    "read_u32 ?bytes 84 = Ok 0" "read_u64 ?bytes 88 = Ok pid" "read_u64 ?bytes 96 = Ok sgen"
    "read_u64 ?bytes 104 = Ok proto" "read_u16 ?bytes 112 = Ok (word_of_nat (length vs))"
    "read_u16 ?bytes 114 = Ok (word_of_nat (length name))" "read_u32 ?bytes 116 = Ok 0"
    by (simp_all add: publication_body_def read_body chunk_simps usize_max_def region_def)
  have "region_r 120 (120 + 4 * length vs) ?bytes =
      (Ok (version_bytes vs) :: (proto_error, byte list) res)"
    "region_r (120 + 4 * length vs) (120 + 4 * length vs + length name) ?bytes =
      (Ok name :: (proto_error, byte list) res)"
    by (simp_all add: region_r_def publication_body_def chunk_simps region_def)
  note rg = this
  have ar: "checked_mul_usize (length vs) 4 = Some (4 * length vs)"
    "checked_add_usize 120 (4 * length vs) = Some (120 + 4 * length vs)"
    "checked_add_usize (120 + 4 * length vs) (length name) = Some (120 + 4 * length vs + length name)"
    using vs name by (simp_all add: checked_mul_usize_def checked_add_usize_def usize_max_def)
  show ?thesis
    using assms(3-8) vs name big
    by (simp add: parse_install_publication_def len rd u unat_length_u16 ar rg assms(1)
          validate_version_list_sorted [OF assms(2)] MAX_PROTOCOL_VERSIONS_def Let_def
          del: length_append)
qed

lemma wire_install_publication:
  "wire (encode_install_publication hdr eid egen role pid sgen proto vs name) hdr
     (M_InstallPublication
       \<lparr>ip_endpoint_id = eid, ip_endpoint_generation = egen, ip_supervisor_role_id = role,
        ip_publication_id = pid, ip_service_generation = sgen, ip_protocol_id = proto,
        ip_versions = \<lparr>vl_bytes = version_bytes vs\<rparr>, ip_service_name = name\<rparr>) 1"
  (is "wire _ _ ?m _")
proof (rule wireI)
  fix out n out'
  let ?body = "publication_body eid egen role pid sgen proto vs name"
  define W where "W = (\<lambda>o1. overwrite 114 (to_le 2 (word_of_nat (length name) :: u16))
        (overwrite 112 (to_le 2 (word_of_nat (length vs) :: u16)) (overwrite 104 (to_le 8 proto)
        (overwrite 96 (to_le 8 sgen) (overwrite 88 (to_le 8 pid) (overwrite 80 (to_le 4 role)
        (overwrite 72 (to_le 8 egen) (overwrite 64 (to_le 8 eid) o1))))))))"
  assume "encode_install_publication hdr eid egen role pid sgen proto vs name out = (Ok n, out')"
  then obtain o1 o2 where o1: "encode_header hdr 1 n out = (Ok (), o1)"
      "n = 120 + 4 * length vs + length name" "put_versions 120 0 vs (W o1) = (Ok (), o2)"
      "out' = overwrite (120 + 4 * length vs) name o2"
      and ok: "h_message_type hdr = T_InstallPublication" "validate_name name = Ok ()"
        "validate_versions vs = Ok ()" "eid \<noteq> 0" "egen \<noteq> 0" "role \<noteq> 0" "pid \<noteq> 0" "sgen \<noteq> 0" "proto \<noteq> 0"
    by (auto simp: encode_install_publication_def res_simps put_defs checked_add_usize_def W_def
          checked_mul_usize_def mult.commute Option.bind_eq_Some_conv split: if_splits)
  have W: "W o1 = header_bytes hdr 1 n @ take 56 ?body @ replicate (4 * length vs + length name) 0 @
      drop n out"
    if "o1 = header_bytes hdr 1 n @ replicate (length ?body) 0 @ drop n out"
    unfolding W_def that
    by (simp add: publication_body_def chunk_simps overwrite_replicate) (simp add: replicate_add)
  have "wire_run hdr ?m 1 ?body out n out'"
    using o1(1)
  proof (rule wire_runI)
    show "n = 64 + length ?body" using o1(2) by simp
    show "parse_body oc (header_bytes hdr 1 n @ ?body) 1 (h_message_type hdr) = Ok ?m" for oc
      using ok(1) parse_publication_body [OF ok(2-9)]
      by (simp add: parse_body_def require_handles_def)
    show "out' = header_bytes hdr 1 n @ ?body @ drop n out"
      if "Z = replicate (length ?body) 0 @ drop n out" "o1 = header_bytes hdr 1 n @ Z" for Z
    proof -
      have w: "W o1 = header_bytes hdr 1 n @ take 56 ?body @
          replicate (4 * length vs + length name) 0 @ drop n out"
        using that by (intro W) simp
      have "o2 = overwrite 120 (version_bytes vs) (W o1)"
        using put_versions_Ok [OF o1(3)] by (simp add: w)
      then show ?thesis unfolding o1(4) w
        by (simp add: publication_body_def chunk_simps)
    qed
  qed
  then show "\<exists>body. wire_run hdr ?m 1 body out n out'" by blast
qed

subsection \<open>Encoders that succeed\<close>

text \<open>An action that fills a buffer of \<open>L\<close> bytes: it succeeds and keeps the length.\<close>

definition fills :: "nat \<Rightarrow> 'a \<Rightarrow> (byte list, proto_error, 'a) action \<Rightarrow> bool" where
  "fills L a enc \<longleftrightarrow> (\<forall>b. length b = L \<longrightarrow> (\<exists>b'. enc b = (Ok a, b') \<and> length b' = L))"

named_theorems fills_intros \<open>actions that fill a buffer\<close>

lemma fills_aret [fills_intros]: "x = a \<Longrightarrow> fills L a (aret x)"
  by (simp add: fills_def res_simps)

lemma fills_abind [fills_intros]: "fills L () m \<Longrightarrow> fills L a (k ()) \<Longrightarrow> fills L a (abind m k)"
  unfolding fills_def by (fastforce simp: res_simps)

lemma fills_alift [fills_intros]: "r = Ok () \<Longrightarrow> fills L () (alift r)"
  by (simp add: fills_def res_simps)

lemma fills_abind_alift [fills_intros]:
  "(\<exists>x. r = Ok x) \<Longrightarrow> (\<And>x. r = Ok x \<Longrightarrow> fills L a (k x)) \<Longrightarrow> fills L a (abind (alift r) k)"
  unfolding fills_def by (fastforce simp: res_simps)

lemma fills_put [fills_intros]:
  "L \<le> usize_max \<Longrightarrow> off + 2 \<le> L \<Longrightarrow> fills L () (put_u16 off v)"
  "L \<le> usize_max \<Longrightarrow> off + 4 \<le> L \<Longrightarrow> fills L () (put_u32 off w)"
  "L \<le> usize_max \<Longrightarrow> off + 8 \<le> L \<Longrightarrow> fills L () (put_u64 off x)"
  by (simp_all add: fills_def put_defs res_simps room_def)

lemma fills_write_r [fills_intros]: "off + length bs \<le> L \<Longrightarrow> fills L () (write_r off bs)"
  by (simp add: fills_def res_simps room_def)

lemma fills_fill_zero [fills_intros]: "n \<le> L \<Longrightarrow> fills L () (fill_zero_r n)"
  by (simp add: fill_zero_r_def fills_write_r)

lemma fills_if [fills_intros]:
  "(b \<Longrightarrow> fills L a x) \<Longrightarrow> (\<not> b \<Longrightarrow> fills L a y) \<Longrightarrow> fills L a (if b then x else y)"
  by simp

lemma fills_put_versions [fills_intros]:
  "L \<le> usize_max \<Longrightarrow> base + (index + length vs) * 4 \<le> L \<Longrightarrow> fills L () (put_versions base index vs)"
proof (induction vs arbitrary: index)
  case (Cons v vs)
  then show ?case by (simp add: fills_intros)
qed (simp add: fills_aret)

lemma fills_encode_header [fills_intros]:
  assumes "header_ok hdr" and "64 \<le> n" and "n \<le> L" and "n < 2 ^ 32" and "h < 2 ^ 32"
    and "L \<le> usize_max"
  shows "fills L () (encode_header hdr h n)"
proof -
  have s: "on_supervisor (h_message_type hdr) = (h_endpoint_id hdr = 0 \<and> h_endpoint_generation hdr = 0)"
    using assms(1) by (rule header_ok_scope)
  have f: "fills L ()
     (abind (fill_zero_r n) (\<lambda>_. abind (write_r 0 WRRG_MAGIC) (\<lambda>_. abind (put_u16 4 WRRG_MAJOR) (\<lambda>_.
      abind (put_u16 6 WRRG_MINOR) (\<lambda>_. abind (put_u32 8 (message_type_code (h_message_type hdr))) (\<lambda>_.
      abind (if n < 2 ^ 32 then put_u32 16 (word_of_nat n) else afail E_WrongSize) (\<lambda>_.
      abind (if h < 2 ^ 32 then put_u32 20 (word_of_nat h) else afail E_WrongHandleCount) (\<lambda>_.
      abind (put_u64 24 (h_registry_generation hdr)) (\<lambda>_. abind (put_u64 32 (h_endpoint_id hdr)) (\<lambda>_.
      abind (put_u64 40 (h_endpoint_generation hdr)) (\<lambda>_.
        put_u64 48 (h_transaction_id hdr))))))))))))" (is "fills L () ?body")
    using assms(2-6) by (intro fills_intros) (simp_all add: WRRG_MAGIC_def)
  have g: "h_registry_generation hdr \<noteq> 0" "h_transaction_id hdr \<noteq> 0"
    using assms(1) by (simp_all add: header_ok_def)
  have "encode_header hdr h n b = ?body b" if "length b = L" for b
    unfolding encode_header_def HEADER_BYTES_def s using g assms(2,3) that by auto
  with f show ?thesis unfolding fills_def by simp
qed

text \<open>The encoder calls of the protocol with the message they carry, the number of handles that
  goes with it, and the size of the datagram.\<close>

inductive encodes ::
  "header \<Rightarrow> message \<Rightarrow> nat \<Rightarrow> nat \<Rightarrow> (byte list, proto_error, nat) action \<Rightarrow> bool"
  for hdr where
  enc_empty: "(h_message_type hdr, m) \<in>
      {(T_Publish, M_Publish), (T_Published, M_Published), (T_Retire, M_Retire),
       (T_Retired, M_Retired), (T_Connected, M_Connected), (T_Enumerate, M_Enumerate)} \<Longrightarrow>
    encodes hdr m 0 64 (encode_empty hdr)"
| enc_generation: "h_message_type hdr = T_GenerationChanged \<Longrightarrow>
    encodes hdr (M_GenerationChanged g) 0 72 (encode_generation_changed hdr g)"
| enc_cancel: "t \<noteq> 0 \<Longrightarrow> (h_message_type hdr, m) \<in> {(T_Cancel, M_Cancel t), (T_Cancelled, M_Cancelled t)} \<Longrightarrow>
    encodes hdr m 0 72 (encode_cancel hdr t)"
| enc_error: "h_message_type hdr = T_Error \<Longrightarrow> encodes hdr (M_Error c) 0 72 (encode_error hdr c)"
| enc_lookup: "lk_protocol_id l \<noteq> 0 \<Longrightarrow> validate_name (lk_service_name l) = Ok () \<Longrightarrow>
    (h_message_type hdr, m) \<in> {(T_LookupConnect, M_LookupConnect l), (T_ConnectOffer, M_ConnectOffer l)} \<Longrightarrow>
    encodes hdr m 1 (80 + length (lk_service_name l)) (encode_lookup hdr l)"
| enc_watch: "h_message_type hdr = T_Watch \<Longrightarrow> wt_protocol_id w \<noteq> 0 \<Longrightarrow>
    validate_name (wt_service_name w) = Ok () \<Longrightarrow>
    encodes hdr (M_Watch w) 0 (88 + length (wt_service_name w)) (encode_watch hdr w)"
| enc_install_client: "h_message_type hdr = T_InstallClient \<Longrightarrow> ic_endpoint_id i \<noteq> 0 \<Longrightarrow>
    ic_endpoint_generation i \<noteq> 0 \<Longrightarrow> ic_client_id i \<noteq> 0 \<Longrightarrow> ic_client_generation i \<noteq> 0 \<Longrightarrow>
    encodes hdr (M_InstallClient i) 1 104 (encode_install_client hdr i)"
| enc_install_publication: "h_message_type hdr = T_InstallPublication \<Longrightarrow>
    validate_name name = Ok () \<Longrightarrow> validate_versions vs = Ok () \<Longrightarrow>
    eid \<noteq> 0 \<Longrightarrow> egen \<noteq> 0 \<Longrightarrow> role \<noteq> 0 \<Longrightarrow> pid \<noteq> 0 \<Longrightarrow> sgen \<noteq> 0 \<Longrightarrow> proto \<noteq> 0 \<Longrightarrow>
    encodes hdr
      (M_InstallPublication
        \<lparr>ip_endpoint_id = eid, ip_endpoint_generation = egen, ip_supervisor_role_id = role,
         ip_publication_id = pid, ip_service_generation = sgen, ip_protocol_id = proto,
         ip_versions = \<lparr>vl_bytes = version_bytes vs\<rparr>, ip_service_name = name\<rparr>)
      1 (120 + 4 * length vs + length name)
      (encode_install_publication hdr eid egen role pid sgen proto vs name)"

lemma encodes_wire: "encodes hdr m h n enc \<Longrightarrow> wire enc hdr m h"
  by (induction rule: encodes.induct)
    (blast intro: wire_empty wire_generation_changed wire_cancel wire_error wire_lookup wire_watch
      wire_install_client wire_install_publication)+

lemma encodes_fills:
  assumes "encodes hdr m h n enc" and "header_ok hdr" and "n \<le> L" and "L \<le> usize_max"
  shows "fills L n enc"
proof -
  have us: "512 \<le> usize_max" by (simp add: usize_max_def)
  from assms show ?thesis
proof (induction rule: encodes.induct)
  case (enc_empty m)
  then show ?case unfolding encode_empty_def HEADER_BYTES_def by (intro fills_intros) auto
next
  case (enc_generation g)
  then show ?case unfolding encode_generation_changed_def by (intro fills_intros) auto
next
  case (enc_cancel t m)
  then show ?case unfolding encode_cancel_def by (intro fills_intros) auto
next
  case (enc_error c)
  then show ?case unfolding encode_error_def by (intro fills_intros) auto
next
  case (enc_lookup l m)
  then have "length (lk_service_name l) \<le> 128" by (simp add: validate_name_Ok)
  with enc_lookup us show ?case unfolding encode_lookup_def
    by (intro fills_intros) (auto simp: ok_or_simps checked_add_usize_def)
next
  case (enc_watch w)
  then have "length (wt_service_name w) \<le> 128" by (simp add: validate_name_Ok)
  with enc_watch us show ?case unfolding encode_watch_def
    by (intro fills_intros) (auto simp: ok_or_simps checked_add_usize_def)
next
  case (enc_install_client i)
  then show ?case unfolding encode_install_client_def by (intro fills_intros) auto
next
  case (enc_install_publication name vs eid egen role pid sgen proto)
  have "length name \<le> 128" "length vs \<le> 4"
    using enc_install_publication(2,3)
    by (auto simp: validate_name_Ok validate_versions_def MAX_PROTOCOL_VERSIONS_def split: if_splits)
  with enc_install_publication us show ?case unfolding encode_install_publication_def
    by (intro fills_intros) (auto simp: ok_or_simps checked_add_usize_def checked_mul_usize_def)
qed
qed

end
