(* ===== verification/RegistryList.thy ===== *)
theory RegistryList
  imports RegistryCodec
begin

text \<open>
  The service list of the registry protocol: what \<open>put_records\<close> writes, that the parser accepts it
  and that \<open>page_record\<close> reads back each record (\<^verbatim>\<open>encode_service_list\<close>,
  \<^verbatim>\<open>parse_service_list\<close> and \<^verbatim>\<open>ServiceListPage::record\<close> of
  \<^verbatim>\<open>crates/wyrmroot-registry-proto/src/lib.rs\<close>).
\<close>

subsection \<open>The image of a record\<close>

definition record_versions :: "service_list_record \<Rightarrow> protocol_version list" where
  "record_versions r = take (unat (sr_version_count r)) (sr_versions r)"

text \<open>What the encoder checks of one record.\<close>

definition record_ok :: "service_list_record \<Rightarrow> bool" where
  "record_ok r \<longleftrightarrow>
     sr_protocol_id r \<noteq> 0 \<and> sr_service_generation r \<noteq> 0 \<and> validate_name (sr_service_name r) = Ok () \<and>
     unat (sr_version_count r) \<le> length (sr_versions r) \<and> validate_versions (record_versions r) = Ok ()"

definition slots :: "service_list_record \<Rightarrow> protocol_version list" where
  "slots r = record_versions r @ replicate (4 - length (record_versions r)) default_version"

definition record_head :: "service_list_record \<Rightarrow> byte list" where
  "record_head r =
     to_le 8 (sr_protocol_id r) @ to_le 8 (sr_service_generation r) @
     to_le 2 (word_of_nat (length (sr_service_name r)) :: u16) @ [sr_version_count r] @ replicate 5 0"

definition record_bytes :: "service_list_record \<Rightarrow> byte list" where
  "record_bytes r =
     record_head r @ version_bytes (slots r) @ sr_service_name r @
     replicate (128 - length (sr_service_name r)) 0"

lemma version_bytes_append [simp]: "version_bytes (vs @ ws) = version_bytes vs @ version_bytes ws"
  by (simp add: version_bytes_def)

lemma version_bytes_default: "version_bytes (replicate n default_version) = replicate (4 * n) 0"
proof (induction n)
  case (Suc n)
  have "4 * Suc n = Suc (Suc (Suc (Suc (4 * n))))" by simp
  with Suc show ?case by (simp add: numeral_2_eq_2 del: mult_Suc_right)
qed simp

lemma record_okD:
  assumes "record_ok r"
  shows "sr_protocol_id r \<noteq> 0" and "sr_service_generation r \<noteq> 0"
    and "validate_name (sr_service_name r) = Ok ()"
    and "1 \<le> length (sr_service_name r)" and "length (sr_service_name r) \<le> 128"
    and "length (record_versions r) = unat (sr_version_count r)"
    and "1 \<le> unat (sr_version_count r)" and "unat (sr_version_count r) \<le> 4"
    and "sorted_wrt (<) (record_versions r)"
proof -
  note d = assms [unfolded record_ok_def]
  show "sr_protocol_id r \<noteq> 0" "sr_service_generation r \<noteq> 0"
    "validate_name (sr_service_name r) = Ok ()" using d by blast+
  have "sr_service_name r \<noteq> []" "length (sr_service_name r) \<le> 128" using d
    by (simp_all add: validate_name_Ok)
  then show "1 \<le> length (sr_service_name r)" "length (sr_service_name r) \<le> 128"
    by (simp_all add: Suc_le_eq)
  show l: "length (record_versions r) = unat (sr_version_count r)" using d
    by (simp add: record_versions_def)
  have "record_versions r \<noteq> []" "length (record_versions r) \<le> 4" "sorted_wrt (<) (record_versions r)"
    using d by (auto simp: validate_versions_def MAX_PROTOCOL_VERSIONS_def windows_increasing_sorted
        split: if_splits)
  then show "1 \<le> unat (sr_version_count r)" "unat (sr_version_count r) \<le> 4"
    "sorted_wrt (<) (record_versions r)"
    by (simp_all add: Suc_le_eq flip: l)
qed

lemma length_slots: "record_ok r \<Longrightarrow> length (slots r) = 4"
  using record_okD(6,8) [of r] by (simp add: slots_def)

lemma length_record_head [simp]: "length (record_head r) = 24"
  by (simp add: record_head_def)

lemma length_record_bytes: "record_ok r \<Longrightarrow> length (record_bytes r) = 168"
  using record_okD(5) [of r] by (simp add: record_bytes_def length_slots)

subsection \<open>Writing records\<close>

lemma write_record:
  assumes ok: "record_ok r" and B: "B = length pre"
    and b1: "b1 = overwrite (B + 18) [sr_version_count r]
      (overwrite (B + 16) (to_le 2 (word_of_nat (length (sr_service_name r)) :: u16))
      (overwrite (B + 8) (to_le 8 (sr_service_generation r))
      (overwrite B (to_le 8 (sr_protocol_id r)) (pre @ replicate (168 + m) 0 @ post))))"
    and b2: "put_versions (B + 24) 0 (record_versions r) b1 = (Ok (), b2)"
  shows "overwrite (B + 40) (sr_service_name r) b2 = pre @ record_bytes r @ replicate m 0 @ post"
proof -
  note d = record_okD [OF ok]
  have b1': "b1 = pre @ record_head r @ replicate (144 + m) 0 @ post"
    unfolding b1 B by (simp add: record_head_def chunk_simps) (simp add: numeral_eq_Suc)
  have pad: "144 + m - 4 * unat (sr_version_count r) = 4 * (4 - unat (sr_version_count r)) + (128 + m)"
    using d(8) by simp
  have "b2 = overwrite (B + 24) (version_bytes (record_versions r)) b1"
    using put_versions_Ok [OF b2] by (simp add: b1' B)
  also have "\<dots> = pre @ record_head r @ version_bytes (slots r) @ replicate (128 + m) 0 @ post"
    using d(6-8) pad
    by (simp add: b1' B chunk_simps slots_def version_bytes_default) (simp only: replicate_add append_assoc)
  finally show ?thesis using d(5) length_slots [OF ok]
    by (simp add: B chunk_simps record_bytes_def flip: replicate_add)
qed

text \<open>The names of the records increase strictly, the first above the one before it.\<close>

fun names_from :: "byte list option \<Rightarrow> service_list_record list \<Rightarrow> bool" where
  "names_from p [] = True"
| "names_from p (r # rs) =
     ((case p of None \<Rightarrow> True | Some n \<Rightarrow> n < sr_service_name r) \<and>
      names_from (Some (sr_service_name r)) rs)"

lemma put_records_Ok:
  assumes "put_records p index rs (pre @ replicate (168 * length rs) 0 @ post) = (Ok (), b')"
    and "length pre = 80 + index * 168"
  shows "list_all record_ok rs \<and> names_from p rs \<and>
    b' = pre @ concat (map record_bytes rs) @ post"
  using assms
proof (induction rs arbitrary: p index pre)
  case Nil
  then show ?case by (simp add: res_simps)
next
  case (Cons r rs)
  let ?B = "80 + index * 168" and ?b = "pre @ replicate (168 * length (r # rs)) 0 @ post"
  define b1 where "b1 = overwrite (?B + 18) [sr_version_count r]
      (overwrite (?B + 16) (to_le 2 (word_of_nat (length (sr_service_name r)) :: u16))
      (overwrite (?B + 8) (to_le 8 (sr_service_generation r))
      (overwrite ?B (to_le 8 (sr_protocol_id r)) ?b)))"
  have "\<exists>b2. put_versions (?B + 24) 0 (record_versions r) b1 = (Ok (), b2) \<and> record_ok r \<and>
      (case p of None \<Rightarrow> True | Some n \<Rightarrow> n < sr_service_name r) \<and>
      put_records (Some (sr_service_name r)) (Suc index) rs
        (overwrite (?B + 40) (sr_service_name r) b2) = (Ok (), b')"
    using Cons.prems(1) unfolding put_records.simps SERVICE_LIST_PREFIX_BYTES_def
      SERVICE_LIST_RECORD_BYTES_def
    by (simp add: res_simps put_defs Let_def b1_def record_ok_def record_versions_def get_range_def
          region_def not_le split: if_split_asm option.splits)
  then obtain b2 where b2: "put_versions (?B + 24) 0 (record_versions r) b1 = (Ok (), b2)"
      "record_ok r" "case p of None \<Rightarrow> True | Some n \<Rightarrow> n < sr_service_name r"
      "put_records (Some (sr_service_name r)) (Suc index) rs
        (overwrite (?B + 40) (sr_service_name r) b2) = (Ok (), b')"
    by blast
  have b1': "b1 = overwrite (?B + 18) [sr_version_count r]
      (overwrite (?B + 16) (to_le 2 (word_of_nat (length (sr_service_name r)) :: u16))
      (overwrite (?B + 8) (to_le 8 (sr_service_generation r))
      (overwrite ?B (to_le 8 (sr_protocol_id r)) (pre @ replicate (168 + 168 * length rs) 0 @ post))))"
    by (simp add: b1_def)
  have "overwrite (?B + 40) (sr_service_name r) b2 =
      pre @ record_bytes r @ replicate (168 * length rs) 0 @ post"
    by (rule write_record [OF b2(2) _ b1' b2(1)]) (simp add: Cons.prems(2))
  with b2(4) have "put_records (Some (sr_service_name r)) (Suc index) rs
      ((pre @ record_bytes r) @ replicate (168 * length rs) 0 @ post) = (Ok (), b')" by simp
  from Cons.IH [OF this] b2(2,3) Cons.prems(2) show ?case
    by (simp add: length_record_bytes)
qed

subsection \<open>Reading records\<close>

lemma region_append_left [chunk_simps]: "a + n \<le> length xs \<Longrightarrow> region a n (xs @ ys) = region a n xs"
  by (simp add: region_def)

lemma record_fields:
  assumes ok: "record_ok r" and b: "bytes = pre @ record_bytes r @ post" and B: "B = length pre"
  shows "region B 8 bytes = to_le 8 (sr_protocol_id r)"
    and "region (B + 8) 8 bytes = to_le 8 (sr_service_generation r)"
    and "region (B + 16) 2 bytes = to_le 2 (word_of_nat (length (sr_service_name r)) :: u16)"
    and "bytes ! (B + 18) = sr_version_count r" and "bytes ! (B + 19) = 0"
    and "region (B + 20) 4 bytes = replicate 4 0"
    and "v < 4 \<Longrightarrow> region (B + 24 + v * 4) 2 bytes = to_le 2 (pv_major (slots r ! v))"
    and "v < 4 \<Longrightarrow> region (B + 26 + v * 4) 2 bytes = to_le 2 (pv_minor (slots r ! v))"
    and "region (B + 40) (length (sr_service_name r)) bytes = sr_service_name r"
    and "region (B + 40 + length (sr_service_name r)) (128 - length (sr_service_name r)) bytes =
      replicate (128 - length (sr_service_name r)) 0"
    and "B + 168 \<le> length bytes"
proof -
  let ?n = "sr_service_name r"
  have s: "length (slots r) = 4" by (rule length_slots [OF ok])
  show "region B 8 bytes = to_le 8 (sr_protocol_id r)"
    "region (B + 8) 8 bytes = to_le 8 (sr_service_generation r)"
    "region (B + 16) 2 bytes = to_le 2 (word_of_nat (length ?n) :: u16)"
    "bytes ! (B + 18) = sr_version_count r"
    by (simp_all add: b B record_bytes_def record_head_def chunk_simps nth_append)
  show "bytes ! (B + 19) = 0" "region (B + 20) 4 bytes = replicate 4 0"
    by (simp_all add: b B record_bytes_def record_head_def chunk_simps nth_append region_def)
  have skip: "region (B + 24 + k) 2 bytes = region k 2 (version_bytes (slots r))" if "k + 2 \<le> 16" for k
    using that s by (simp add: b B record_bytes_def chunk_simps)
  show "region (B + 24 + v * 4) 2 bytes = to_le 2 (pv_major (slots r ! v))" if "v < 4"
    using that s by (simp add: skip region_version_bytes)
  have "B + 26 + v * 4 = B + 24 + (v * 4 + 2)" by simp
  then show "region (B + 26 + v * 4) 2 bytes = to_le 2 (pv_minor (slots r ! v))" if "v < 4"
    using that s by (simp only: skip region_version_bytes)
  show "region (B + 40) (length ?n) bytes = ?n"
    "region (B + 40 + length ?n) (128 - length ?n) bytes = replicate (128 - length ?n) 0"
    using s by (simp_all add: b B record_bytes_def chunk_simps)
  show "B + 168 \<le> length bytes" using length_record_bytes [OF ok] by (simp add: b B)
qed

lemma list_length_4_cases:
  assumes "1 \<le> length xs" and "length xs \<le> 4"
  obtains a where "xs = [a]" | a b where "xs = [a, b]" | a b c where "xs = [a, b, c]"
    | a b c d where "xs = [a, b, c, d]"
  using assms by (auto simp: Suc_le_eq le_Suc_eq length_Suc_conv numeral_eq_Suc)

lemma check_record_versions_slots:
  assumes vs: "sorted_wrt (<) vs" "1 \<le> length vs" "length vs \<le> 4"
    and rd: "\<And>v. v < 4 \<Longrightarrow> read_u16 bytes (B + 24 + v * 4) =
        Ok (pv_major ((vs @ replicate (4 - length vs) default_version) ! v))"
      "\<And>v. v < 4 \<Longrightarrow> read_u16 bytes (B + 26 + v * 4) =
        Ok (pv_minor ((vs @ replicate (4 - length vs) default_version) ! v))"
  shows "check_record_versions bytes B (length vs) None [0..<4] = Ok ()"
proof -
  have u: "[0..<4] = [0, 1, 2, 3]" by (simp add: upt_rec)
  have rd': "read_u16 bytes (B + 24 + v * 4) = Ok (pv_major (P ! v)) \<and>
      read_u16 bytes (B + 26 + v * 4) = Ok (pv_minor (P ! v))"
    if "P = vs @ replicate (4 - length vs) default_version" "v < 4" for P v
    using rd that by simp
  note four = rd' [of _ 0, simplified] rd' [of _ 1, simplified] rd' [of _ 2, simplified]
    rd' [of _ 3, simplified]
  from vs(2,3) show ?thesis
    by (cases vs rule: list_length_4_cases)
      (use vs(1) four [OF refl] in \<open>simp_all add: u numeral_eq_Suc not_le\<close>)
qed

lemma check_record_Ok:
  assumes ok: "record_ok r" and b: "bytes = pre @ record_bytes r @ post"
    and B: "length pre = 80 + index * 168" and small: "length bytes \<le> 416"
    and p: "case p of None \<Rightarrow> True | Some n \<Rightarrow> n < sr_service_name r"
  shows "check_record bytes p index = Ok (sr_service_name r)"
proof -
  let ?n = "sr_service_name r"
  define C where "C = 80 + index * 168"
  have C: "C = length pre" by (simp add: C_def B)
  note d = record_okD [OF ok] and f = record_fields [OF ok b C]
  have len: "C + 168 \<le> length bytes" "length bytes \<le> usize_max"
    using f(11) small by (simp_all add: usize_max_def)
  have rd: "read_u64 bytes C = Ok (sr_protocol_id r)"
    "read_u64 bytes (C + 8) = Ok (sr_service_generation r)"
    "read_u16 bytes (C + 16) = Ok (word_of_nat (length ?n))"
    "index_r bytes (C + 18) = (Ok (sr_version_count r) :: (proto_error, byte) res)"
    "index_r bytes (C + 19) = (Ok 0 :: (proto_error, byte) res)"
    "read_u32 bytes (C + 20) = Ok 0"
    "region_r (C + 40) (C + 40 + length ?n) bytes = (Ok ?n :: (proto_error, byte list) res)"
    "region_r (C + 40 + length ?n) (C + 168) bytes =
      (Ok (replicate (128 - length ?n) 0) :: (proto_error, byte list) res)"
    using len d(5) f(1-6,9,10) by (simp_all add: res_simps)
  have "check_record_versions bytes C (length (record_versions r)) None [0..<4] = Ok ()"
    using d(6-9) len f(7,8)
    by (intro check_record_versions_slots) (simp_all add: res_simps slots_def)
  then have vs: "check_record_versions bytes C (unat (sr_version_count r)) None [0..<4] = Ok ()"
    by (simp add: d(6))
  have pv: "\<not> (case p of None \<Rightarrow> False | Some prior \<Rightarrow> ?n \<le> prior)"
    using p by (simp add: not_le split: option.splits)
  show ?thesis
    unfolding check_record_def proto_consts Let_def C_def [symmetric]
    using d(1,2,4,5,7,8) unat_length_u16 [OF d(5)] pv
    by (simp add: rd vs d(3) list_ex_iff del: One_nat_def)
qed

lemma check_records_Ok:
  assumes "list_all record_ok rs" and "names_from p rs"
    and "bytes = pre @ concat (map record_bytes rs)" and "length pre = 80 + k * 168"
    and "length bytes \<le> 416"
  shows "check_records bytes p [k..<k + length rs] = Ok ()"
  using assms
proof (induction rs arbitrary: p k pre)
  case Nil
  then show ?case by simp
next
  case (Cons r rs)
  have "check_record bytes p k = Ok (sr_service_name r)"
    using Cons.prems by (intro check_record_Ok [where pre = pre and
      post = "concat (map record_bytes rs)"]) simp_all
  moreover have "check_records bytes (Some (sr_service_name r)) [Suc k..<Suc k + length rs] = Ok ()"
    using Cons.prems
    by (intro Cons.IH [where pre = "pre @ record_bytes r"]) (simp_all add: length_record_bytes)
  moreover have "[k..<k + length (r # rs)] = k # [Suc k..<Suc k + length rs]"
    by (simp add: upt_conv_Cons del: upt_Suc)
  ultimately show ?case by simp
qed

text \<open>Reading back a record gives the encoder's record with its unused version slots cleared.\<close>

lemma read_versions_slots:
  assumes "\<And>v. v < 4 \<Longrightarrow> get_u16 bytes (B + 24 + v * 4) = Some (pv_major (ps ! v))"
    and "\<And>v. v < 4 \<Longrightarrow> get_u16 bytes (B + 26 + v * 4) = Some (pv_minor (ps ! v))"
    and "k \<le> c" and "c \<le> 4"
  shows "read_versions bytes B [k..<c] = Some (map (\<lambda>v. ps ! v) [k..<c])"
  using assms(3)
proof (induction "c - k" arbitrary: k)
  case (Suc d)
  then have "k < c" "k < 4" using assms(4) by simp_all
  moreover have "read_versions bytes B [Suc k..<c] = Some (map (\<lambda>v. ps ! v) [Suc k..<c])"
    using Suc by (intro Suc.hyps(1)) simp_all
  ultimately show ?case using assms(1,2) by (simp add: upt_conv_Cons)
qed simp

lemma length_records: "list_all record_ok rs \<Longrightarrow> length (concat (map record_bytes rs)) = length rs * 168"
  by (induction rs) (simp_all add: length_record_bytes)

lemma page_record_eq:
  assumes rs: "list_all record_ok rs" and i: "i < length rs"
    and b: "sp_bytes page = pre @ concat (map record_bytes rs)" "length pre = 80"
    and small: "length (sp_bytes page) \<le> 416" and c: "unat (sp_record_count page) = length rs"
  shows "page_record page i = Some ((rs ! i)\<lparr>sr_versions := slots (rs ! i)\<rparr>)"
proof -
  let ?r = "rs ! i" and ?bs = "sp_bytes page" and ?n = "sr_service_name (rs ! i)"
  let ?pre = "pre @ concat (map record_bytes (take i rs))"
  define B where "B = 80 + i * 168"
  have ok: "record_ok ?r" using rs i by (simp add: list_all_length)
  have "list_all record_ok (take i rs)" using rs by (auto simp: list_all_iff dest: in_set_takeD)
  then have "length (concat (map record_bytes (take i rs))) = i * 168"
    using i by (simp add: length_records)
  then have B: "B = length ?pre" using b(2) by (simp add: B_def)
  have "rs = take i rs @ ?r # drop (Suc i) rs" by (rule id_take_nth_drop [OF i])
  then have e: "?bs = ?pre @ record_bytes ?r @ concat (map record_bytes (drop (Suc i) rs))"
    using b(1) by (metis append.assoc concat.simps(2) concat_append list.simps(9) map_append)
  note d = record_okD [OF ok] and f = record_fields [OF ok e B]
  have len: "B + 168 \<le> length ?bs" "length ?bs \<le> usize_max"
    using f(11) small by (simp_all add: usize_max_def)
  have g: "get_u64 ?bs B = Some (sr_protocol_id ?r)" "get_u64 ?bs (B + 8) = Some (sr_service_generation ?r)"
    "get_u16 ?bs (B + 16) = Some (word_of_nat (length ?n))"
    "get_index (B + 18) ?bs = Some (sr_version_count ?r)"
    "get_range (B + 40) (B + 40 + length ?n) ?bs = Some ?n"
    using len d(5) f(1-4,9) by (simp_all add: get_u64_eq get_u16_eq get_index_def get_range_def)
  have "read_versions ?bs B [0..<unat (sr_version_count ?r)] =
      Some (map (\<lambda>v. slots ?r ! v) [0..<unat (sr_version_count ?r)])"
    using len f(7,8) d(8) by (intro read_versions_slots) (simp_all add: get_u16_eq)
  also have "map (\<lambda>v. slots ?r ! v) [0..<unat (sr_version_count ?r)] = record_versions ?r"
    using d(6) by (intro nth_equalityI) (simp_all add: slots_def nth_append)
  finally have v: "read_versions ?bs B [0..<unat (sr_version_count ?r)] = Some (record_versions ?r)" .
  show ?thesis
    using i d(6,8) unat_length_u16 [OF d(5)]
    unfolding page_record_def proto_consts Let_def B_def [symmetric] c
    by (simp add: g v min_def slots_def)
qed

subsection \<open>Pages on the wire\<close>

definition page_prefix :: "u16 \<Rightarrow> u16 \<Rightarrow> u16 \<Rightarrow> nat \<Rightarrow> byte list" where
  "page_prefix i c t k =
     to_le 2 i @ to_le 2 c @ to_le 2 (word_of_nat k :: u16) @ to_le 2 t @ replicate 8 0"

lemma length_page_prefix [simp]: "length (page_prefix i c t k) = 16"
  by (simp add: page_prefix_def)

lemma page_reads:
  "read_u16 (header_bytes hdr h n @ page_prefix i c t k @ rest) 64 = Ok i"
  "read_u16 (header_bytes hdr h n @ page_prefix i c t k @ rest) 66 = Ok c"
  "read_u16 (header_bytes hdr h n @ page_prefix i c t k @ rest) 68 = Ok (word_of_nat k)"
  "read_u16 (header_bytes hdr h n @ page_prefix i c t k @ rest) 70 = Ok t"
  "read_u32 (header_bytes hdr h n @ page_prefix i c t k @ rest) 72 = Ok 0"
  "read_u32 (header_bytes hdr h n @ page_prefix i c t k @ rest) 76 = Ok 0"
  by (simp_all add: read_body usize_max_def)
     (simp_all add: page_prefix_def chunk_simps, simp_all add: region_def)

text \<open>The guards of the encoder.\<close>

definition page_ok :: "bool \<Rightarrow> u16 \<Rightarrow> u16 \<Rightarrow> u16 \<Rightarrow> service_list_record list \<Rightarrow> bool" where
  "page_ok oc i c t rs \<longleftrightarrow>
     length rs \<le> 2 \<and> c \<noteq> 0 \<and> unat c \<le> 16 \<and> i < c \<and> unat t \<le> 32 \<and>
     validate_page_shape oc i c t (length rs) = Ok () \<and> list_all record_ok rs \<and> names_from None rs"

lemma parse_page:
  assumes "page_ok oc i c t rs"
  shows "parse_service_list oc
      (header_bytes hdr h n @ page_prefix i c t (length rs) @ concat (map record_bytes rs)) =
    Ok \<lparr>sp_bytes = header_bytes hdr h n @ page_prefix i c t (length rs) @ concat (map record_bytes rs),
        sp_page_index = i, sp_page_count = c, sp_record_count = word_of_nat (length rs),
        sp_total_count = t\<rparr>"
proof -
  let ?bytes = "header_bytes hdr h n @ page_prefix i c t (length rs) @ concat (map record_bytes rs)"
  have ok: "length rs \<le> 2" "c \<noteq> 0" "unat c \<le> 16" "i < c" "unat t \<le> 32"
    "validate_page_shape oc i c t (length rs) = Ok ()" "list_all record_ok rs" "names_from None rs"
    using assms by (simp_all add: page_ok_def)
  have len: "length ?bytes = 80 + length rs * 168" by (simp add: length_records [OF ok(7)])
  have k: "unat (word_of_nat (length rs) :: u16) = length rs" using ok(1) by (simp add: unat_of_nat)
  note rd = page_reads [of hdr h n i c t "length rs" "concat (map record_bytes rs)"]
  have "check_records ?bytes None [0..<0 + length rs] = Ok ()"
    using ok(1,7,8) len
    by (intro check_records_Ok [where pre = "header_bytes hdr h n @ page_prefix i c t (length rs)"])
      simp_all
  then have ch: "check_records ?bytes None [0..<length rs] = Ok ()" by simp
  have sz: "80 + length rs * 168 = 80 \<or> 80 + length rs * 168 = 248 \<or> 80 + length rs * 168 = 416"
    using ok(1) by (cases "length rs"; cases "length rs - 1") auto
  show ?thesis using ok(1-6) sz
    by (simp add: parse_service_list_def len rd k ch proto_consts not_le not_less del: length_append)
qed

lemma encode_page:
  assumes "encode_service_list oc hdr i c t rs out = (Ok n, out')"
  shows "page_ok oc i c t rs" and "n = 80 + 168 * length rs" and "h_message_type hdr = T_ServiceList"
    and "n \<le> length out" and "n < 2 ^ 32"
    and "out' = header_bytes hdr 0 n @ page_prefix i c t (length rs) @ concat (map record_bytes rs) @
      drop n out"
proof -
  define W where "W = (\<lambda>o1. overwrite 70 (to_le 2 t)
    (overwrite 68 (to_le 2 (word_of_nat (length rs) :: u16)) (overwrite 66 (to_le 2 c)
    (overwrite 64 (to_le 2 i) o1))))"
  obtain o1 where o1: "encode_header hdr 0 n out = (Ok (), o1)" "n = 80 + 168 * length rs"
      "put_records None 0 rs (W o1) = (Ok (), out')" "h_message_type hdr = T_ServiceList"
      "length rs \<le> 2" "c \<noteq> 0" "unat c \<le> 16" "i < c" "unat t \<le> 32"
      "validate_page_shape oc i c t (length rs) = Ok ()"
    using assms
    by (auto simp: encode_service_list_def res_simps put_defs W_def proto_consts Let_def mult.commute
          split: if_splits)
  note e = encode_header_Ok [OF o1(1)]
  have n: "n - 64 = 16 + 168 * length rs" using o1(2) by simp
  have W: "W o1 = (header_bytes hdr 0 n @ page_prefix i c t (length rs)) @
      replicate (168 * length rs) 0 @ drop n out"
    unfolding W_def e(5) n
    by (simp add: page_prefix_def chunk_simps overwrite_replicate) (simp flip: replicate_add)
  from put_records_Ok [OF o1(3) [unfolded W]] have r: "list_all record_ok rs" "names_from None rs"
      "out' = (header_bytes hdr 0 n @ page_prefix i c t (length rs)) @ concat (map record_bytes rs) @
        drop n out"
    by simp_all
  show "page_ok oc i c t rs" using o1(5-10) r(1,2) by (simp add: page_ok_def)
  show "n = 80 + 168 * length rs" "h_message_type hdr = T_ServiceList" by (fact o1(2) o1(4))+
  show "n \<le> length out" "n < 2 ^ 32" by (fact e(2) e(3))+
  show "out' = header_bytes hdr 0 n @ page_prefix i c t (length rs) @ concat (map record_bytes rs) @
      drop n out" using r(3) by simp
qed

lemma fills_put_records [fills_intros]:
  "L \<le> usize_max \<Longrightarrow> 80 + (index + length rs) * 168 \<le> L \<Longrightarrow> list_all record_ok rs \<Longrightarrow>
     names_from p rs \<Longrightarrow> fills L () (put_records p index rs)"
proof (induction rs arbitrary: p index)
  case (Cons r rs)
  then have ok: "record_ok r" and rest: "fills L () (put_records (Some (sr_service_name r)) (Suc index) rs)"
    by simp_all
  note d = record_okD [OF ok]
  have L: "80 + index * 168 + 168 \<le> L" using Cons.prems(2) by simp
  have pv: "\<not> (case p of None \<Rightarrow> False | Some n \<Rightarrow> sr_service_name r \<le> n)"
    using Cons.prems(4) by (auto split: option.splits)
  have vs: "get_range 0 (unat (sr_version_count r)) (sr_versions r) = Some (record_versions r)"
    using ok by (simp add: get_range_def region_def record_ok_def record_versions_def)
  have vv: "validate_versions (record_versions r) = Ok ()" using ok by (simp add: record_ok_def)
  show ?case unfolding put_records.simps Let_def proto_consts vs ok_or.simps
    using Cons.prems(1) L d rest pv vv
    by (intro fills_intros) (auto split: option.splits)
qed (simp add: fills_aret)

end
