(* ===== verification/RegistrySound.thy ===== *)
theory RegistrySound
  imports RegistryList
begin

text \<open>
  What the registry parser promises of a message it accepts: its header is the wire image of the
  header it returns, the number of handles is the one of the message type, and the body satisfies
  the rules the registry relies on.
\<close>

subsection \<open>The promises of the parser\<close>

definition handles_of :: "message_type \<Rightarrow> nat" where
  "handles_of t =
     (if t \<in> {T_InstallPublication, T_InstallClient, T_LookupConnect, T_ConnectOffer} then 1 else 0)"

fun message_kind :: "message \<Rightarrow> message_type" where
  "message_kind (M_InstallPublication _) = T_InstallPublication"
| "message_kind (M_InstallClient _) = T_InstallClient"
| "message_kind M_Publish = T_Publish"
| "message_kind M_Published = T_Published"
| "message_kind M_Retire = T_Retire"
| "message_kind M_Retired = T_Retired"
| "message_kind (M_LookupConnect _) = T_LookupConnect"
| "message_kind (M_ConnectOffer _) = T_ConnectOffer"
| "message_kind M_Connected = T_Connected"
| "message_kind M_Enumerate = T_Enumerate"
| "message_kind (M_ServiceList _) = T_ServiceList"
| "message_kind (M_Watch _) = T_Watch"
| "message_kind (M_GenerationChanged _) = T_GenerationChanged"
| "message_kind (M_Cancel _) = T_Cancel"
| "message_kind (M_Cancelled _) = T_Cancelled"
| "message_kind (M_Error _) = T_Error"

fun message_valid :: "message \<Rightarrow> bool" where
  "message_valid (M_InstallPublication p) \<longleftrightarrow>
     ip_endpoint_id p \<noteq> 0 \<and> ip_endpoint_generation p \<noteq> 0 \<and> ip_supervisor_role_id p \<noteq> 0 \<and>
     ip_publication_id p \<noteq> 0 \<and> ip_service_generation p \<noteq> 0 \<and> ip_protocol_id p \<noteq> 0 \<and>
     validate_name (ip_service_name p) = Ok () \<and> 1 \<le> vl_len (ip_versions p) \<and>
     vl_len (ip_versions p) \<le> 4 \<and> validate_version_list (ip_versions p) = Ok ()"
| "message_valid (M_InstallClient i) \<longleftrightarrow>
     ic_endpoint_id i \<noteq> 0 \<and> ic_endpoint_generation i \<noteq> 0 \<and> ic_client_id i \<noteq> 0 \<and>
     ic_client_generation i \<noteq> 0"
| "message_valid (M_LookupConnect l) \<longleftrightarrow>
     lk_protocol_id l \<noteq> 0 \<and> validate_name (lk_service_name l) = Ok ()"
| "message_valid (M_ConnectOffer l) \<longleftrightarrow>
     lk_protocol_id l \<noteq> 0 \<and> validate_name (lk_service_name l) = Ok ()"
| "message_valid (M_Watch w) \<longleftrightarrow>
     wt_protocol_id w \<noteq> 0 \<and> validate_name (wt_service_name w) = Ok ()"
| "message_valid (M_Cancel t) \<longleftrightarrow> t \<noteq> 0"
| "message_valid (M_Cancelled t) \<longleftrightarrow> t \<noteq> 0"
| "message_valid (M_ServiceList p) \<longleftrightarrow>
     unat (sp_record_count p) \<le> 2 \<and> unat (sp_page_count p) \<le> 16 \<and> unat (sp_total_count p) \<le> 32 \<and>
     sp_page_index p < sp_page_count p \<and>
     length (sp_bytes p) = 80 + unat (sp_record_count p) * 168"
| "message_valid _ \<longleftrightarrow> True"

lemma region_join: "b = a + m \<Longrightarrow> region a m xs @ region b n xs = region a (m + n) xs"
  by (simp add: region_def take_add add.commute)

lemma parse_header_Ok:
  assumes "parse_header bytes = Ok f"
  shows "header_ok (ph_header f)" and "64 \<le> length bytes"
    and "take 64 bytes = header_bytes (ph_header f) (ph_declared_handle_count f) (length bytes)"
proof -
  let ?h = "ph_header f"
  define r where "r = (\<lambda>a n. region a n bytes)"
  have P: "64 \<le> length bytes" "r 0 4 = WRRG_MAGIC" "from_le (r 4 2) = WRRG_MAJOR"
      "from_le (r 6 2) = WRRG_MINOR" "parse_message_type (from_le (r 8 4)) = Ok (h_message_type ?h)"
      "from_le (r 12 4) = (0 :: u32)" "unat (from_le (r 16 4) :: u32) = length bytes"
      "unat (from_le (r 20 4) :: u32) = ph_declared_handle_count f"
      "from_le (r 24 8) = h_registry_generation ?h" "from_le (r 32 8) = h_endpoint_id ?h"
      "from_le (r 40 8) = h_endpoint_generation ?h" "from_le (r 48 8) = h_transaction_id ?h"
      "from_le (r 56 8) = (0 :: u64)" "header_ok ?h"
    using assms unfolding parse_header_def HEADER_BYTES_def Let_def r_def
    by (auto simp: res_simps header_ok_def split: if_splits)
  show "header_ok ?h" "64 \<le> length bytes" by (fact P)+
  have len: "length (r a n) = n" if "a + n \<le> 64" for a n using that P(1) by (simp add: r_def)
  have k: "from_le (r 8 4) = message_type_code (h_message_type ?h)"
    using parse_message_type_Ok [OF P(5)] .
  have w: "from_le (r 16 4) = (word_of_nat (length bytes) :: u32)"
    "from_le (r 20 4) = (word_of_nat (ph_declared_handle_count f) :: u32)"
    by (simp_all flip: P(7,8))
  have cut: "take 64 bytes = r 0 4 @ r 4 2 @ r 6 2 @ r 8 4 @ r 12 4 @ r 16 4 @ r 20 4 @ r 24 8 @
      r 32 8 @ r 40 8 @ r 48 8 @ r 56 8"
    by (simp add: r_def region_join) (simp add: region_0)
  show "take 64 bytes = header_bytes ?h (ph_declared_handle_count f) (length bytes)"
    unfolding cut header_bytes_def P(2)
    using le16.dec_eqD [OF P(3) len] le16.dec_eqD [OF P(4) len] le32.dec_eqD [OF k len]
      le32.dec_eqD [OF P(6) len] le32.dec_eqD [OF w(1) len] le32.dec_eqD [OF w(2) len]
      le64.dec_eqD [OF P(9) len] le64.dec_eqD [OF P(10) len] le64.dec_eqD [OF P(11) len]
      le64.dec_eqD [OF P(12) len] le64.dec_eqD [OF P(13) len]
    by simp
qed

lemma parse_install_publication_Ok:
  assumes "parse_install_publication bytes = Ok p"
  shows "message_valid (M_InstallPublication p)"
  using assms unfolding parse_install_publication_def Let_def
  by (auto simp: res_simps proto_consts vl_len_def checked_add_usize_def checked_mul_usize_def
        split: if_splits)

lemma parse_install_client_Ok:
  "parse_install_client bytes = Ok i \<Longrightarrow> message_valid (M_InstallClient i)"
  unfolding parse_install_client_def by (auto simp: res_simps split: if_splits)

lemma parse_lookup_Ok:
  "parse_lookup bytes = Ok l \<Longrightarrow> lk_protocol_id l \<noteq> 0 \<and> validate_name (lk_service_name l) = Ok ()"
  unfolding parse_lookup_def Let_def by (auto simp: res_simps split: if_splits)

lemma parse_watch_Ok: "parse_watch bytes = Ok w \<Longrightarrow> message_valid (M_Watch w)"
  unfolding parse_watch_def Let_def by (auto simp: res_simps split: if_splits)

lemma parse_service_list_Ok:
  "parse_service_list oc bytes = Ok p \<Longrightarrow> message_valid (M_ServiceList p)"
  unfolding parse_service_list_def by (auto simp: res_simps proto_consts split: if_splits)

lemma parse_body_Ok:
  assumes "parse_body oc bytes h t = Ok m"
  shows "h = handles_of t \<and> message_kind m = t \<and> message_valid m"
proof -
  note ok = assms [unfolded parse_body_def exact_header_def require_handles_def require_size_def]
  note sub = parse_install_publication_Ok parse_install_client_Ok parse_lookup_Ok parse_watch_Ok
    parse_service_list_Ok
  show ?thesis
    using ok
    by (cases t) (auto simp: res_simps handles_of_def split: if_splits dest: sub
        simp del: message_valid.simps(1,2,5,8))
qed

subsection \<open>Properties\<close>

lemma service_list_fills:
  assumes "page_ok oc i c t rs" and "header_ok hdr" and "h_message_type hdr = T_ServiceList"
    and "80 + 168 * length rs \<le> n" and "n \<le> usize_max"
  shows "fills n (80 + 168 * length rs) (encode_service_list oc hdr i c t rs)"
  using assms(1) [unfolded page_ok_def] assms(2-5) unfolding encode_service_list_def Let_def proto_consts
  by (intro fills_intros) (auto simp: not_less mult.commute)

text \<open>A page of the service list that satisfies the encoder's rules is written completely; the
  parser accepts it with the same page numbers and every record reads back with its unused version
  slots cleared.\<close>

lemma service_list_read_back:
  assumes "page_ok oc i c t rs" and "header_ok hdr" and "h_message_type hdr = T_ServiceList"
    and "80 + 168 * length rs \<le> length out" and "length out \<le> usize_max"
  shows "\<exists>out' page.
    encode_service_list oc hdr i c t rs out = (Ok (80 + 168 * length rs), out') \<and>
    length out' = length out \<and> drop (80 + 168 * length rs) out' = drop (80 + 168 * length rs) out \<and>
    parse oc (take (80 + 168 * length rs) out') 0 =
      Ok \<lparr>pm_header = hdr, pm_message = M_ServiceList page\<rparr> \<and>
    sp_page_index page = i \<and> sp_page_count page = c \<and> sp_total_count page = t \<and>
    unat (sp_record_count page) = length rs \<and>
    (\<forall>k < length rs. page_record page k = Some ((rs ! k)\<lparr>sr_versions := slots (rs ! k)\<rparr>))"
proof -
  let ?n = "80 + 168 * length rs"
  note pg = assms(1) [unfolded page_ok_def]
  have n32: "?n < 2 ^ 32" using pg by simp
  obtain out' where e: "encode_service_list oc hdr i c t rs out = (Ok ?n, out')"
    using service_list_fills [OF assms] unfolding fills_def by blast
  let ?body = "page_prefix i c t (length rs) @ concat (map record_bytes rs)"
  let ?bytes = "header_bytes hdr 0 ?n @ ?body"
  have len: "length (concat (map record_bytes rs)) = 168 * length rs"
    using pg length_records by (simp add: mult.commute)
  have b: "take ?n out' = ?bytes" "drop ?n out' = drop ?n out" "length out' = length out"
    using encode_page(6) [OF e] len assms(4) by simp_all
  have "parse oc ?bytes 0 = rbind (parse_body oc ?bytes 0 (h_message_type hdr))
      (\<lambda>m. Ok \<lparr>pm_header = hdr, pm_message = m\<rparr>)"
    using assms(2) n32 len by (intro parse_message) simp_all
  then have p: "parse oc ?bytes 0 = Ok \<lparr>pm_header = hdr, pm_message = M_ServiceList
      \<lparr>sp_bytes = ?bytes, sp_page_index = i, sp_page_count = c,
       sp_record_count = word_of_nat (length rs), sp_total_count = t\<rparr>\<rparr>"
    by (simp add: parse_body_def assms(3) require_handles_def parse_page [OF assms(1)])
  have u: "unat (word_of_nat (length rs) :: u16) = length rs" using pg by (simp add: unat_of_nat)
  show ?thesis using e b p u pg len
    by (intro exI conjI allI impI page_record_eq [where pre = "header_bytes hdr 0 ?n @ page_prefix i c t (length rs)"])
      (assumption | simp)+
qed

text \<open>C18. Every encoder call of the registry protocol with valid arguments succeeds in a buffer that
  is long enough, leaves the bytes behind the message alone, and the parser reads back exactly the
  header and the message, under either build profile. A page of the service list that satisfies the
  encoder's rules reads back with its page numbers and its records in order, each with its unused
  version slots cleared.\<close>

theorem registry_roundtrip:
  assumes "header_ok hdr" and "length out \<le> usize_max"
  shows "(encodes hdr m handles n enc \<and> n \<le> length out \<longrightarrow>
      (\<exists>out'. enc out = (Ok n, out') \<and> length out' = length out \<and> drop n out' = drop n out \<and>
        parse oc (take n out') handles = Ok \<lparr>pm_header = hdr, pm_message = m\<rparr>)) \<and>
    (page_ok oc i c t rs \<and> h_message_type hdr = T_ServiceList \<and> 80 + 168 * length rs \<le> length out \<longrightarrow>
      (\<exists>out' page. encode_service_list oc hdr i c t rs out = (Ok (80 + 168 * length rs), out') \<and>
        length out' = length out \<and> drop (80 + 168 * length rs) out' = drop (80 + 168 * length rs) out \<and>
        parse oc (take (80 + 168 * length rs) out') 0 = Ok \<lparr>pm_header = hdr, pm_message = M_ServiceList page\<rparr> \<and>
        sp_page_index page = i \<and> sp_page_count page = c \<and> sp_total_count page = t \<and>
        unat (sp_record_count page) = length rs \<and>
        (\<forall>k < length rs. page_record page k = Some ((rs ! k)\<lparr>sr_versions := slots (rs ! k)\<rparr>))))"
proof (intro conjI impI)
  assume enc: "encodes hdr m handles n enc \<and> n \<le> length out"
  then obtain out' where e: "enc out = (Ok n, out')"
    using encodes_fills [OF _ assms(1) _ assms(2)] unfolding fills_def by blast
  then show "\<exists>out'. enc out = (Ok n, out') \<and> length out' = length out \<and> drop n out' = drop n out \<and>
      parse oc (take n out') handles = Ok \<lparr>pm_header = hdr, pm_message = m\<rparr>"
    using wire_parse [OF encodes_wire [OF conjunct1 [OF enc]] assms(1) e] by blast
qed (use service_list_read_back assms in blast)

definition sample_header :: "message_type \<Rightarrow> header" where
  "sample_header t = \<lparr>h_message_type = t, h_registry_generation = 7, h_endpoint_id = 3,
     h_endpoint_generation = 5, h_transaction_id = 9\<rparr>"

definition sample_lookup :: lookup_request where
  "sample_lookup = \<lparr>lk_protocol_id = 17, lk_version = ProtocolVersion 1 2,
     lk_service_name = [108, 111, 103]\<rparr>"

definition sample_record :: service_list_record where
  "sample_record = \<lparr>sr_protocol_id = 17, sr_service_generation = 2,
     sr_versions = [ProtocolVersion 1 0, ProtocolVersion 1 2, ProtocolVersion 9 9, default_version],
     sr_version_count = 2, sr_service_name = [108, 111, 103]\<rparr>"

lemma sample_page: "page_ok oc 0 1 1 [sample_record]"
  "slots sample_record = [ProtocolVersion 1 0, ProtocolVersion 1 2, default_version, default_version]"
proof -
  have vs: "record_versions sample_record = [ProtocolVersion 1 0, ProtocolVersion 1 2]"
    by (simp add: record_versions_def sample_record_def)
  have "record_ok sample_record"
    by (simp add: record_ok_def vs validate_versions_def MAX_PROTOCOL_VERSIONS_def)
       (simp add: sample_record_def less_protocol_version_def validate_name_def ascii_lowercase_def
         MAX_SERVICE_NAME_BYTES_def)
  moreover have "validate_page_shape oc 0 1 1 1 = Ok ()"
    by (simp add: validate_page_shape_def add_u16_def sub_u16_def mul_u16_def div_ceil_2_def)
  ultimately show "page_ok oc 0 1 1 [sample_record]" by (simp add: page_ok_def)
  show "slots sample_record = [ProtocolVersion 1 0, ProtocolVersion 1 2, default_version, default_version]"
    by (simp add: slots_def vs numeral_2_eq_2)
qed

lemma sample_encodes:
  "encodes (sample_header T_LookupConnect) (M_LookupConnect sample_lookup) 1 83
     (encode_lookup (sample_header T_LookupConnect) sample_lookup)"
  using enc_lookup [of sample_lookup "sample_header T_LookupConnect" "M_LookupConnect sample_lookup"]
  by (simp add: sample_lookup_def sample_header_def validate_name_def ascii_lowercase_def MAX_SERVICE_NAME_BYTES_def)

lemma sample_header_ok: "on_supervisor t = False \<Longrightarrow> header_ok (sample_header t)"
  by (simp add: header_ok_def sample_header_def)

theorem registry_roundtrip_witness:
  "(\<exists>out'. encode_lookup (sample_header T_LookupConnect) sample_lookup (replicate 90 255) = (Ok 83, out') \<and>
     drop 83 out' = replicate 7 255 \<and>
     parse True (take 83 out') 1 =
       Ok \<lparr>pm_header = sample_header T_LookupConnect, pm_message = M_LookupConnect sample_lookup\<rparr>) \<and>
   (\<exists>out' page. encode_service_list True (sample_header T_ServiceList) 0 1 1 [sample_record] (replicate 300 255) = (Ok 248, out') \<and>
     drop 248 out' = replicate 52 255 \<and>
     parse True (take 248 out') 0 = Ok \<lparr>pm_header = sample_header T_ServiceList, pm_message = M_ServiceList page\<rparr> \<and>
     page_record page 0 = Some (sample_record\<lparr>sr_versions :=
       [ProtocolVersion 1 0, ProtocolVersion 1 2, default_version, default_version]\<rparr>))"
proof -
  have ok: "header_ok (sample_header T_LookupConnect)" "header_ok (sample_header T_ServiceList)"
    by (simp_all add: sample_header_ok on_supervisor_def)
  have long: "length (replicate 90 (255 :: byte)) \<le> usize_max" "length (replicate 300 (255 :: byte)) \<le> usize_max"
    by (simp_all add: usize_max_def)
  have t: "h_message_type (sample_header T_ServiceList) = T_ServiceList" by (simp add: sample_header_def)
  from registry_roundtrip [OF ok(1) long(1), THEN conjunct1] registry_roundtrip [OF ok(2) long(2), THEN conjunct2] show ?thesis
    using sample_encodes sample_page(1) [of True] sample_page(2) t by fastforce
qed

lemma parse_valid:
  assumes "parse oc bytes handles = Ok pm"
  shows "header_ok (pm_header pm)"
    and "take 64 bytes = header_bytes (pm_header pm) handles (length bytes)"
    and "handles = handles_of (h_message_type (pm_header pm))"
    and "message_kind (pm_message pm) = h_message_type (pm_header pm)"
    and "message_valid (pm_message pm)"
proof -
  from assms obtain f where f: "parse_header bytes = Ok f" "ph_header f = pm_header pm"
      "ph_declared_handle_count f = handles"
      "parse_body oc bytes handles (h_message_type (pm_header pm)) = Ok (pm_message pm)"
    by (auto simp: parse_def res_simps Let_def split: if_splits)
  then show "header_ok (pm_header pm)"
    and "take 64 bytes = header_bytes (pm_header pm) handles (length bytes)"
    and "handles = handles_of (h_message_type (pm_header pm))"
    and "message_kind (pm_message pm) = h_message_type (pm_header pm)"
    and "message_valid (pm_message pm)"
    using parse_header_Ok [OF f(1)] parse_body_Ok [OF f(4)] by simp_all
qed

text \<open>C33. A datagram the parser accepts starts with the wire image of the header it returns, carries
  the number of handles of its message type, and its message has nonzero identities, a valid service
  name, strictly increasing versions and a page within the limits.\<close>

theorem parse_sound:
  assumes "parse oc bytes handles = Ok pm"
  shows "header_ok (pm_header pm) \<and>
    take 64 bytes = header_bytes (pm_header pm) handles (length bytes) \<and>
    handles = handles_of (h_message_type (pm_header pm)) \<and>
    message_kind (pm_message pm) = h_message_type (pm_header pm) \<and>
    message_valid (pm_message pm)"
  using parse_valid [OF assms] by simp

definition sample_watch :: "byte list" where
  "sample_watch = header_bytes (sample_header T_Watch) 0 91 @
     watch_body \<lparr>wt_protocol_id = 17, wt_last_observed_generation = 0, wt_service_name = [108, 111, 103]\<rparr>"

theorem parse_sound_witness:
  "\<exists>pm. parse False sample_watch 0 = Ok pm \<and> message_valid (pm_message pm) \<and>
     take 64 sample_watch = header_bytes (pm_header pm) 0 (length sample_watch)"
proof -
  let ?w = "\<lparr>wt_protocol_id = 17, wt_last_observed_generation = 0, wt_service_name = [108, 111, 103]\<rparr>"
  have "parse_watch sample_watch = Ok ?w"
    unfolding sample_watch_def by (rule parse_watch_body)
      (simp_all add: validate_name_def ascii_lowercase_def MAX_SERVICE_NAME_BYTES_def)
  then have "parse_body False sample_watch 0 T_Watch = Ok (M_Watch ?w)"
    by (simp add: parse_body_def require_handles_def)
  moreover have "parse False sample_watch 0 =
      rbind (parse_body False sample_watch 0 (h_message_type (sample_header T_Watch)))
        (\<lambda>m. Ok \<lparr>pm_header = sample_header T_Watch, pm_message = m\<rparr>)"
    unfolding sample_watch_def by (rule parse_message)
      (simp_all add: header_ok_def sample_header_def on_supervisor_def watch_body_def)
  ultimately have "parse False sample_watch 0 =
      Ok \<lparr>pm_header = sample_header T_Watch, pm_message = M_Watch ?w\<rparr>"
    by (simp add: sample_header_def)
  from this parse_sound [OF this] show ?thesis by blast
qed

text \<open>Built without overflow checks, the parser ends in a message or an error on every datagram
  and every handle count; it never panics.\<close>

theorem parse_total: "\<exists>r. parse False bytes handles = Ok r \<or> (\<exists>e. parse False bytes handles = Err e)"
  using parse_no_panic [of bytes handles] by (cases "parse False bytes handles") auto

text \<open>C38. Built with overflow checks, the parser panics on a well-framed service list datagram that
  declares one service on the last of sixteen pages: \<open>validate_page_shape\<close> subtracts the listed
  services before it compares the page count. Without overflow checks the datagram is refused.\<close>

theorem service_list_overflow:
  "parse True (header_bytes (sample_header T_ServiceList) 0 80 @ page_prefix 15 16 1 0) 0 = Panic \<and>
   parse False (header_bytes (sample_header T_ServiceList) 0 80 @ page_prefix 15 16 1 0) 0 =
     Err E_InvalidServiceList"
proof -
  let ?hdr = "sample_header T_ServiceList"
  let ?bytes = "header_bytes ?hdr 0 80 @ page_prefix 15 16 1 0"
  have p: "parse oc ?bytes 0 = rbind (parse_body oc ?bytes 0 (h_message_type ?hdr))
      (\<lambda>m. Ok \<lparr>pm_header = ?hdr, pm_message = m\<rparr>)" for oc
    by (rule parse_message) (simp_all add: header_ok_def sample_header_def on_supervisor_def)
  note rd = page_reads [of ?hdr 0 80 15 16 1 0 "[]", simplified]
  have "parse_service_list oc ?bytes =
      (if oc then Panic else Err E_InvalidServiceList)" for oc
    by (simp add: parse_service_list_def proto_consts rd validate_page_shape_def add_u16_def
          sub_u16_def mul_u16_def div_ceil_2_def)
  then show ?thesis
    by (simp add: p) (simp add: sample_header_def parse_body_def require_handles_def)
qed

text \<open>The encoders accept a header of a client message whose endpoint identity is half zero;
  the parser refuses the datagram they write for it.\<close>

theorem half_zero_endpoint_refused:
  "\<exists>out'. encode_empty ((sample_header T_Enumerate)\<lparr>h_endpoint_generation := 0\<rparr>) (replicate 64 0) =
     (Ok 64, out') \<and> parse oc out' 0 = Err E_WrongEndpointScope"
proof -
  let ?hdr = "(sample_header T_Enumerate)\<lparr>h_endpoint_generation := 0\<rparr>"
  obtain out' where e: "encode_header ?hdr 0 64 (replicate 64 0) = (Ok (), out')"
    by (simp add: encode_header_def sample_header_def on_supervisor_def HEADER_BYTES_def put_defs
          action_defs fill_zero_r_def write_r_def put_field_def checked_add_usize_def usize_max_def
          WRRG_MAGIC_def)
  have written: "out' = header_bytes ?hdr 0 64" using encode_header_Ok(5) [OF e] by simp
  have "parse_header out' = Err E_WrongEndpointScope"
    unfolding written
    by (simp add: parse_header_def HEADER_BYTES_def header_reads [of ?hdr 0 64 "[]", simplified])
       (simp add: sample_header_def on_supervisor_def)
  with e show ?thesis
    by (simp add: encode_empty_def abind_def aret_def HEADER_BYTES_def parse_def sample_header_def)
qed

end
