(* ===== verification/RegistryReach.thy ===== *)
theory RegistryReach
  imports RegistryOps RegistrySound
begin

text \<open>
  The registry as a state machine: the calls a service loop may make, in any order and number, from
  a fresh registry. Every reachable state satisfies the invariant and no call panics; the theorems
  about watches, endpoint identities, lookups and enumeration are stated for reachable states.
\<close>

subsection \<open>Calls\<close>

datatype registry_call =
    CallInstallPublication u64 u64 install_publication
  | CallInstallClient u64 u64 install_client
  | CallPreparePublish endpoint_identity u64
  | CallCommitPublish publish_ticket
  | CallPublish endpoint_identity u64
  | CallRetire endpoint_identity u64
  | CallLookup endpoint_identity u64 lookup_request
  | CallWatch endpoint_identity u64 watch_request
  | CallCancel endpoint_identity u64 u64
  | CallEnumerateBegin endpoint_identity u64
  | CallEnumerationRecord enumeration_ticket nat
  | CallEnumerationComplete enumeration_ticket
  | CallCompleteTransaction endpoint_identity endpoint_kind u64
  | CallPeerClosed endpoint_identity

definition ignore_value :: "'a rop \<Rightarrow> unit rop" where
  "ignore_value op = abind op (\<lambda>_. aret ())"

fun run_call :: "registry_call \<Rightarrow> unit rop" where
  "run_call (CallInstallPublication g h i) = install_publication g h i"
| "run_call (CallInstallClient g h i) = install_client g h i"
| "run_call (CallPreparePublish ep t) = ignore_value (prepare_publish ep t)"
| "run_call (CallCommitPublish ticket) = ignore_value (commit_publish ticket)"
| "run_call (CallPublish ep t) = ignore_value (publish ep t)"
| "run_call (CallRetire ep t) = ignore_value (retire ep t)"
| "run_call (CallLookup ep t l) = ignore_value (lookup ep t l)"
| "run_call (CallWatch ep t w) = ignore_value (watch ep t w)"
| "run_call (CallCancel ep t target) = cancel ep t target"
| "run_call (CallEnumerateBegin ep t) = ignore_value (enumerate_begin ep t)"
| "run_call (CallEnumerationRecord ticket index) = ignore_value (aread (enumeration_record ticket index))"
| "run_call (CallEnumerationComplete ticket) = enumeration_complete ticket"
| "run_call (CallCompleteTransaction ep k t) = complete_transaction ep k t"
| "run_call (CallPeerClosed ep) = ignore_value (peer_closed ep)"

text \<open>What a caller guarantees. Messages come from the parser; a ticket of an enumeration is given
  back while its transaction is still the enumeration's own.\<close>

fun call_valid :: "registry_call \<Rightarrow> registry \<Rightarrow> bool" where
  "call_valid (CallInstallPublication g h i) s = message_valid (M_InstallPublication i)"
| "call_valid (CallWatch ep t w) s = message_valid (M_Watch w)"
| "call_valid (CallEnumerationComplete ticket) s =
     list_all (\<lambda>w. pw_client w = et_client ticket \<longrightarrow> pw_transaction w \<noteq> et_transaction ticket)
       (flatten (rg_watches s))"
| "call_valid _ s = True"

inductive reachable :: "registry \<Rightarrow> bool" where
  start: "registry_new g = Ok s \<Longrightarrow> reachable s"
| step: "reachable s \<Longrightarrow> call_valid c s \<Longrightarrow> reachable (snd (run_call c s))"

lemma fresh_for_flatten:
  "list_all (\<lambda>w. pw_client w = ep \<longrightarrow> pw_transaction w \<noteq> t) (flatten (rg_watches s)) \<Longrightarrow> fresh_for s ep t"
  by (auto simp: fresh_for_def list_all_iff dest: entry_flatten)

lemma keeps_ignore: "wp op Q E s \<Longrightarrow> (\<And>a t. Q a t \<Longrightarrow> registry_ok t) \<Longrightarrow> (\<And>e t. E e t \<Longrightarrow> registry_ok t) \<Longrightarrow>
    keeps (ignore_value op) s"
  unfolding ignore_value_def wp_abind wp_aret by (erule wp_mono) auto

lemma install_valid_message: "message_valid (M_InstallPublication i) \<Longrightarrow> install_valid i"
  by (simp add: install_valid_def validate_name_Ok)

lemma run_call_keeps:
  assumes ok: "registry_ok s" and v: "call_valid c s"
  shows "keeps (run_call c) s"
proof (cases c)
  case (CallInstallPublication g h i)
  then show ?thesis using install_publication_keeps [OF ok] install_valid_message v by simp
next
  case (CallInstallClient g h i)
  then show ?thesis using install_client_keeps [OF ok] by simp
next
  case (CallPreparePublish ep t)
  then show ?thesis using keeps_ignore [OF prepare_publish_keeps [OF ok]] by simp
next
  case (CallCommitPublish ticket)
  then show ?thesis using keeps_ignore [OF commit_publish_spec [OF ok]] ok by simp
next
  case (CallPublish ep t)
  then show ?thesis using keeps_ignore [OF publish_keeps [OF ok]] by simp
next
  case (CallRetire ep t)
  then show ?thesis using keeps_ignore [OF retire_spec [OF ok]] ok by simp
next
  case (CallLookup ep t l)
  then show ?thesis using keeps_ignore [OF lookup_keeps [OF ok]] by simp
next
  case (CallWatch ep t w)
  have "length (wt_service_name w) \<le> 128" using v CallWatch by (simp add: validate_name_Ok)
  with CallWatch show ?thesis using keeps_ignore [OF watch_keeps [OF ok]] by simp
next
  case (CallCancel ep t target)
  then show ?thesis using cancel_keeps [OF ok] by simp
next
  case (CallEnumerateBegin ep t)
  then show ?thesis using keeps_ignore [OF enumerate_begin_spec [OF ok]] by simp
next
  case (CallEnumerationRecord ticket index)
  have "keeps (ignore_value (aread (enumeration_record ticket index))) s"
    using enumeration_record_no_panic [OF ok, of ticket index] ok
    by (cases "enumeration_record ticket index s") (simp_all add: ignore_value_def wp_abind wp_aread wp_aret)
  then show ?thesis using CallEnumerationRecord by simp
next
  case (CallEnumerationComplete ticket)
  then show ?thesis using enumeration_complete_keeps [OF ok] fresh_for_flatten v by simp
next
  case (CallCompleteTransaction ep k t)
  then show ?thesis using complete_transaction_keeps [OF ok] by simp
next
  case (CallPeerClosed ep)
  then show ?thesis using keeps_ignore [OF peer_closed_keeps [OF ok]] by simp
qed

lemma reachable_ok: "reachable s \<Longrightarrow> registry_ok s"
proof (induction rule: reachable.induct)
  case (start g s)
  then show ?case by (rule registry_new_ok)
next
  case (step s c)
  show ?case by (rule wp_snd [OF run_call_keeps [OF step.IH step.hyps(2)]])
qed

subsection \<open>What the calls leave alone\<close>

text \<open>An operation keeps \<open>f\<close> when \<open>f\<close> of the state is the same before and after, however it ends.\<close>

definition preserves :: "('s \<Rightarrow> 'b) \<Rightarrow> ('s, 'e, 'a) action \<Rightarrow> bool" where
  "preserves f m \<longleftrightarrow> (\<forall>s. f (snd (m s)) = f s)"

named_theorems preserves_intros \<open>operations that keep a part of the state\<close>

lemma preserves_basic [preserves_intros]:
  "preserves f (aret a)" "preserves f (afail e)" "preserves f (alift r)" "preserves f (aread g)"
  "preserves f (aget h)"
  by (simp_all add: preserves_def aret_def afail_def alift_def aread_def aget_def)

lemma preserves_abind [preserves_intros]:
  "preserves f m \<Longrightarrow> (\<And>a. preserves f (k a)) \<Longrightarrow> preserves f (abind m k)"
  unfolding preserves_def abind_def by (auto split: prod.splits res.splits) (metis snd_conv)+

lemma preserves_if [preserves_intros]:
  "preserves f x \<Longrightarrow> preserves f y \<Longrightarrow> preserves f (if b then x else y)"
  by simp

lemma preserves_case [preserves_intros]:
  "preserves f x \<Longrightarrow> (\<And>a. preserves f (y a)) \<Longrightarrow> preserves f (case v of None \<Rightarrow> x | Some a \<Rightarrow> y a)"
  "(\<And>a. preserves f (y a)) \<Longrightarrow> (\<And>e. preserves f (z e)) \<Longrightarrow> preserves f x \<Longrightarrow>
     preserves f (case r of Ok a \<Rightarrow> y a | Err e \<Rightarrow> z e | Panic \<Rightarrow> x)"
  "preserves f x \<Longrightarrow> preserves f x' \<Longrightarrow>
     preserves f (case k of K_Publication \<Rightarrow> x | K_Client \<Rightarrow> x')"
  by (simp_all split: option.splits res.splits endpoint_kind.splits)

lemma preserves_amod [preserves_intros]: "(\<And>s. f (g s) = f s) \<Longrightarrow> preserves f (amod g)"
  by (simp add: preserves_def amod_def)

lemma preserves_on_client [preserves_intros]:
  "(\<And>s cs. f (s\<lparr>rg_clients := cs\<rparr>) = f s) \<Longrightarrow> preserves f (on_client i act)"
  by (auto simp: preserves_def on_client_def split: res.splits prod.splits)

lemma preserves_on_slot [preserves_intros]:
  "(\<And>s ss. f (s\<lparr>rg_services := ss\<rparr>) = f s) \<Longrightarrow> preserves f (on_slot i act)"
  by (auto simp: preserves_def on_slot_def split: res.splits prod.splits)

lemma preserves_notify_loop:
  assumes "\<And>s cs. f (s\<lparr>rg_clients := cs\<rparr>) = f s" and "\<And>s ws. f (s\<lparr>rg_watches := ws\<rparr>) = f s"
  shows "preserves f (notify_loop proto name g is n)"
proof (induction "is" arbitrary: n)
  case (Cons i "is")
  show ?case unfolding notify_loop.simps
    by (intro preserves_intros) (auto split: option.splits res.splits intro!: preserves_intros Cons assms)
qed (simp add: preserves_intros)

lemma preserves_notify [preserves_intros]:
  "(\<And>s cs. f (s\<lparr>rg_clients := cs\<rparr>) = f s) \<Longrightarrow> (\<And>s ws. f (s\<lparr>rg_watches := ws\<rparr>) = f s) \<Longrightarrow>
     preserves f (notify proto name g)"
  unfolding notify_def by (intro preserves_intros preserves_notify_loop)

subsection \<open>Issued identities\<close>

abbreviation issued :: "registry \<Rightarrow> u64 list \<times> nat" where
  "issued s \<equiv> (rg_issued_endpoint_ids s, rg_issued_endpoint_count s)"

lemma issued_preserved:
  "preserves issued (prepare_publish ep t)" "preserves issued (commit_publish ticket)"
  "preserves issued (retire ep t)" "preserves issued (lookup ep t l)"
  "preserves issued (watch ep t w)" "preserves issued (cancel ep t target)"
  "preserves issued (enumerate_begin ep t)" "preserves issued (enumeration_complete et)"
  "preserves issued (complete_transaction ep k t)" "preserves issued (peer_closed ep)"
  unfolding prepare_publish_def commit_publish_def retire_def lookup_def watch_def cancel_def
    enumerate_begin_def enumeration_complete_def complete_transaction_def peer_closed_def Let_def
  by (intro preserves_intros; simp)+

lemma preserves_snd: "preserves f m \<Longrightarrow> f (snd (m s)) = f s"
  by (simp add: preserves_def)

lemma preserves_ignore: "preserves f m \<Longrightarrow> preserves f (ignore_value m)"
  unfolding ignore_value_def by (intro preserves_intros)

lemma issued_endpoints_cong: "issued t = issued s \<Longrightarrow> issued_endpoints t = issued_endpoints s"
  by (simp add: issued_endpoints_def)

text \<open>Installing is the only call that issues endpoint identities, and it only adds.\<close>

lemma record_ids_grow:
  "issued_endpoints s \<subseteq> issued_endpoints (snd (record_endpoint_id x s))"
  by (auto simp: record_endpoint_id_def issued_endpoints_def set_take_append)

definition grows :: "('s \<Rightarrow> 'b set) \<Rightarrow> ('s, 'e, 'a) action \<Rightarrow> bool" where
  "grows f m \<longleftrightarrow> (\<forall>s. f s \<subseteq> f (snd (m s)))"

lemma grows_abind: "grows f m \<Longrightarrow> (\<And>a. grows f (k a)) \<Longrightarrow> grows f (abind m k)"
  unfolding grows_def abind_def
  by (auto split: prod.splits res.splits) (metis snd_conv subsetD)+

lemma grows_preserves: "preserves f m \<Longrightarrow> grows f m"
  by (simp add: grows_def preserves_def)

lemma grows_install:
  "grows issued_endpoints (install_publication g h ip)" "grows issued_endpoints (install_client g h ic)"
proof -
  have r: "grows issued_endpoints (record_endpoint_id x)" for x
    using record_ids_grow by (simp add: grows_def)
  have p: "preserves issued_endpoints (record_publication_id x)"
    "preserves issued_endpoints (record_client_id x)" for x
    by (auto simp: preserves_def record_publication_id_def record_client_id_def issued_endpoints_def)
  show "grows issued_endpoints (install_publication g h ip)"
    "grows issued_endpoints (install_client g h ic)"
    unfolding install_publication_def install_client_def Let_def validate_install_def
      validate_fresh_endpoint_id_def
    by (intro grows_abind r grows_preserves p preserves_intros; simp add: issued_endpoints_def)+
qed

lemma issued_grows: "issued_endpoints s \<subseteq> issued_endpoints (snd (run_call c s))"
proof -
  have pub: "preserves issued (publish ep t)" for ep t
    unfolding publish_def by (intro preserves_intros issued_preserved)
  have same: "issued_endpoints s \<subseteq> issued_endpoints (snd (m s))" if "preserves issued m"
    for m :: "unit rop"
    using issued_endpoints_cong [OF preserves_snd [OF that]] by simp
  show ?thesis
  proof (cases c)
    case (CallInstallPublication g h i)
    then show ?thesis using grows_install(1) by (simp add: grows_def)
  next
    case (CallInstallClient g h i)
    then show ?thesis using grows_install(2) by (simp add: grows_def)
  qed (simp only: run_call.simps, intro same preserves_ignore issued_preserved preserves_basic(4) pub)+
qed

text \<open>The endpoint identity that a call installs. A successful installation issues it.\<close>

fun installs :: "registry_call \<Rightarrow> u64 option" where
  "installs (CallInstallPublication g h i) = Some (ip_endpoint_id i)"
| "installs (CallInstallClient g h i) = Some (ic_endpoint_id i)"
| "installs _ = None"

lemma record_endpoint_issues:
  "record_endpoint_id x s = (Ok (), t) \<Longrightarrow> x \<in> issued_endpoints t"
  by (auto simp: record_endpoint_id_def issued_endpoints_def set_take_append split: if_splits)

definition issues :: "u64 \<Rightarrow> 'a rop \<Rightarrow> bool" where
  "issues ident m \<longleftrightarrow> (\<forall>s a t. m s = (Ok a, t) \<longrightarrow> ident \<in> issued_endpoints t)"

lemma issues_later: "(\<And>a. issues ident (k a)) \<Longrightarrow> issues ident (abind m k)"
  by (fastforce simp: issues_def abind_def split: prod.splits res.splits)

lemma issues_recorded: "grows issued_endpoints k \<Longrightarrow> issues ident (abind (record_endpoint_id ident) (\<lambda>_. k))"
  unfolding issues_def grows_def abind_def
  by (auto split: prod.splits res.splits) (metis record_endpoint_issues old.unit.exhaust snd_conv subsetD)

lemma install_issues:
  assumes "run_call c s = (Ok (), t)" and "installs c = Some ident"
  shows "ident \<in> issued_endpoints t"
proof -
  have ids: "grows issued_endpoints (record_publication_id x)" "grows issued_endpoints (record_client_id x)" for x
    by (auto simp: grows_def record_publication_id_def record_client_id_def issued_endpoints_def)
  have "issues (ip_endpoint_id i) (install_publication g h i)" for g h i
    unfolding install_publication_def Let_def endpoint_identity.select_convs
    by (rule issues_recorded [OF ids(1)] issues_later)+
  moreover have "issues (ic_endpoint_id i) (install_client g h i)" for g h i
    unfolding install_client_def Let_def endpoint_identity.select_convs
    by (rule issues_recorded [OF ids(2)] issues_later)+
  ultimately show ?thesis using assms by (cases c) (auto simp: issues_def)
qed

text \<open>Runs of calls.\<close>

inductive runs :: "registry \<Rightarrow> registry \<Rightarrow> bool" where
  runs_refl: "runs s s"
| runs_step: "runs s t \<Longrightarrow> call_valid c t \<Longrightarrow> runs s (snd (run_call c t))"

lemma runs_reachable: "runs s t \<Longrightarrow> reachable s \<Longrightarrow> reachable t"
  by (induction rule: runs.induct) (auto intro: reachable.step)

lemma runs_issued: "runs s t \<Longrightarrow> issued_endpoints s \<subseteq> issued_endpoints t"
  by (induction rule: runs.induct) (use issued_grows in blast)+

subsection \<open>Canonical enumeration\<close>

lemma min_slot_None: "min_slot xs = None \<longleftrightarrow> xs = []"
  by (cases xs) (auto split: option.splits)

lemma min_slot_Some:
  "min_slot xs = Some m \<Longrightarrow> m \<in> set xs \<and> (\<forall>y \<in> set xs. slot_name m \<le> slot_name y)"
proof (induction xs arbitrary: m)
  case (Cons x xs)
  then show ?case
    by (cases "min_slot xs") (auto simp: min_slot_None split: if_splits intro: order_trans)
qed simp

definition published_slots :: "service_slot option list \<Rightarrow> service_slot list" where
  "published_slots ss = sort_key slot_name (filter (\<lambda>sl. slot_metadata sl \<noteq> None) (flatten ss))"

lemma slots_ok_names_inj: "slots_ok ss \<Longrightarrow> a \<in> set (flatten ss) \<Longrightarrow> b \<in> set (flatten ss) \<Longrightarrow>
    slot_name a = slot_name b \<Longrightarrow> a = b"
  by (metis entry_unique flatten_entry slots_ok_def)

lemma flatten_names_distinct:
  assumes "\<And>i j a b. entry ss i a \<Longrightarrow> entry ss j b \<Longrightarrow> slot_name a = slot_name b \<Longrightarrow> i = j"
  shows "distinct (map slot_name (flatten ss))"
  using assms
proof (induction ss)
  case (Cons x xs)
  have e: "entry (x # xs) (Suc i) a" if "entry xs i a" for i a using that by (simp add: entry_def)
  have IH: "distinct (map slot_name (flatten xs))"
    using Cons.prems e by (intro Cons.IH) (metis nat.inject)
  show ?case
  proof (cases x)
    case (Some a)
    have "slot_name b \<noteq> slot_name a" if b: "b \<in> set (flatten xs)" for b
    proof
      assume eq: "slot_name b = slot_name a"
      obtain i where "entry xs i b" using flatten_entry [OF b] by blast
      with Cons.prems [of "Suc i" b 0 a] e eq Some show False by (simp add: entry_def)
    qed
    then have "slot_name a \<notin> slot_name ` set (flatten xs)" by (metis imageE)
    with IH Some show ?thesis by simp
  qed (use IH in simp)
qed simp

lemma published_sorted:
  assumes "slots_ok ss"
  shows "sorted_wrt (\<lambda>a b. slot_name a < slot_name b) (published_slots ss)"
proof -
  let ?xs = "filter (\<lambda>sl. slot_metadata sl \<noteq> None) (flatten ss)"
  have "distinct (map slot_name (flatten ss))"
    using assms by (intro flatten_names_distinct) (simp add: slots_ok_def)
  then have "distinct (map slot_name ?xs)" by (rule distinct_map_filter)
  then have "distinct (map slot_name (published_slots ss))"
    unfolding published_slots_def by (metis distinct_map distinct_sort set_sort)
  moreover have "sorted (map slot_name (published_slots ss))" by (simp add: published_slots_def)
  ultimately have "sorted_wrt (<) (map slot_name (published_slots ss))"
    by (simp add: strict_sorted_iff)
  then show ?thesis by (simp add: sorted_wrt_map)
qed

lemma next_canonical_eq:
  assumes ok: "slots_ok ss" and j: "j \<le> length (published_slots ss)"
    and p: "previous = (if j = 0 then None else Some (slot_name (published_slots ss ! (j - 1))))"
  shows "next_canonical ss previous =
    (if j < length (published_slots ss) then Some (published_slots ss ! j) else None)"
proof -
  let ?L = "published_slots ss"
  let ?xs = "filter (\<lambda>sl. slot_metadata sl \<noteq> None) (flatten ss)"
  let ?F = "filter (\<lambda>sl. case previous of None \<Rightarrow> True | Some name \<Rightarrow> slot_name sl > name) ?xs"
  have less: "slot_name (?L ! a) < slot_name (?L ! b)" if "a < b" "b < length ?L" for a b
    using sorted_wrt_nth_less [OF published_sorted [OF ok] that] .
  have set: "set ?xs = set ?L" by (simp add: published_slots_def)
  have F: "set ?F = {?L ! a | a. j \<le> a \<and> a < length ?L}"
  proof -
    have "slot_name (?L ! (j - 1)) < slot_name (?L ! a) \<longleftrightarrow> j \<le> a" if a: "j \<noteq> 0" "a < length ?L" for a
    proof -
      from a(1) obtain k where k: "j = Suc k" by (cases j) auto
      then have "k < length ?L" using j by simp
      with less [of k a] less [of a k] a(2) k show ?thesis
        by (cases a k rule: linorder_cases) (auto dest: less_asym)
    qed
    note after = this
    have "set ?F = {x. (\<exists>a. a < length ?L \<and> x = ?L ! a) \<and>
        (case previous of None \<Rightarrow> True | Some name \<Rightarrow> slot_name x > name)}"
      unfolding set_filter [of _ ?xs] set by (auto simp only: in_set_conv_nth)
    also have "\<dots> = {?L ! a | a. j \<le> a \<and> a < length ?L}"
      unfolding p using after by (cases "j = 0") auto
    finally show ?thesis .
  qed
  define fs where "fs = ?F"
  have nc: "next_canonical ss previous = min_slot fs" by (simp only: next_canonical_def fs_def)
  note F = F [folded fs_def]
  show ?thesis
  proof (cases "j < length ?L")
    case True
    then have "?L ! j \<in> set fs" using F by blast
    then obtain m where m: "min_slot fs = Some m" by (cases "min_slot fs") (auto simp: min_slot_None)
    then obtain a where a: "m = ?L ! a" "j \<le> a" "a < length ?L" using min_slot_Some [OF m] F by auto
    have "slot_name m \<le> slot_name (?L ! j)" using min_slot_Some [OF m] F True by blast
    then have "a = j" using a less [of j a] True by (cases "a = j") auto
    with a m True nc show ?thesis by simp
  next
    case False
    then have "set fs = {}" using F by auto
    then show ?thesis using False nc by simp
  qed
qed

lemma canonical_loop_eq:
  assumes ok: "slots_ok ss" and j: "j \<le> length (published_slots ss)"
    and p: "previous = (if j = 0 then None else Some (slot_name (published_slots ss ! (j - 1))))"
  shows "canonical_loop ss previous n =
    (if j + n < length (published_slots ss) then Some (published_slots ss ! (j + n)) else None)"
  using j p
proof (induction n arbitrary: j previous)
  case 0
  then show ?case using next_canonical_eq [OF ok] by simp
next
  case (Suc n)
  show ?case
  proof (cases "j < length (published_slots ss)")
    case True
    then show ?thesis
      using Suc.IH [of "Suc j" "Some (slot_name (published_slots ss ! j))"] next_canonical_eq [OF ok Suc.prems]
      by simp
  next
    case False
    then show ?thesis using next_canonical_eq [OF ok Suc.prems] by simp
  qed
qed

end
