(* ===== verification/RegistryProps.thy ===== *)
theory RegistryProps
  imports RegistryReach "HOL-Library.Code_Target_Nat"
begin

text \<open>
  The theorems about the registry state, for every state that a sequence of calls can reach.
\<close>

subsection \<open>Samples for the witnesses\<close>

definition fresh_registry :: registry where
  "fresh_registry = (case registry_new 1 of Ok s \<Rightarrow> s | _ \<Rightarrow> undefined)"

definition client_ep :: endpoint_identity where
  "client_ep = \<lparr>ep_id = 10, ep_generation = 1\<rparr>"

definition service_ep :: endpoint_identity where
  "service_ep = \<lparr>ep_id = 20, ep_generation = 1\<rparr>"

definition log_name :: "byte list" where
  "log_name = [108, 111, 103]"

definition sample_client :: install_client where
  "sample_client = \<lparr>ic_endpoint_id = 10, ic_endpoint_generation = 1, ic_client_id = 4,
     ic_client_generation = 1, ic_scope = ScopeBootstrapMetadata\<rparr>"

definition sample_publication :: install_publication where
  "sample_publication = \<lparr>ip_endpoint_id = 20, ip_endpoint_generation = 1, ip_supervisor_role_id = 2,
     ip_publication_id = 6, ip_service_generation = 3, ip_protocol_id = 17,
     ip_versions = \<lparr>vl_bytes = [1, 0, 0, 0]\<rparr>, ip_service_name = log_name\<rparr>"

definition log_lookup :: lookup_request where
  "log_lookup = \<lparr>lk_protocol_id = 17, lk_version = ProtocolVersion 1 0, lk_service_name = log_name\<rparr>"

definition log_watch :: watch_request where
  "log_watch = \<lparr>wt_protocol_id = 17, wt_last_observed_generation = 0, wt_service_name = log_name\<rparr>"

text \<open>A client, a service and a pending watch of the client for the service; then the service is
  published.\<close>

definition with_client :: registry where
  "with_client = snd (run_call (CallInstallClient 1 5 sample_client) fresh_registry)"

definition with_service :: registry where
  "with_service = snd (run_call (CallInstallPublication 1 6 sample_publication) with_client)"

definition with_watch :: registry where
  "with_watch = snd (run_call (CallWatch client_ep 100 log_watch) with_service)"

definition published_registry :: registry where
  "published_registry = snd (run_call (CallPublish service_ep 7) with_watch)"

lemma log_name_valid: "validate_name log_name = Ok ()"
  by (simp add: validate_name_def log_name_def ascii_lowercase_def MAX_SERVICE_NAME_BYTES_def)

lemma sample_publication_valid: "message_valid (M_InstallPublication sample_publication)"
proof -
  have "validate_version_list \<lparr>vl_bytes = [1, 0, 0, 0]\<rparr> = Ok ()" by code_simp
  then show ?thesis by (simp add: sample_publication_def log_name_valid vl_len_def)
qed

lemma sample_reachable:
  "reachable fresh_registry" "reachable with_client" "reachable with_service" "reachable with_watch"
  "reachable published_registry"
proof -
  have "registry_new 1 = Ok fresh_registry" by (simp add: fresh_registry_def registry_new_def)
  then show r0: "reachable fresh_registry" by (rule reachable.start)
  show r1: "reachable with_client" unfolding with_client_def by (rule reachable.step [OF r0]) simp
  show r2: "reachable with_service" unfolding with_service_def
    by (rule reachable.step [OF r1]) (simp only: call_valid.simps sample_publication_valid)
  show r3: "reachable with_watch" unfolding with_watch_def
    by (rule reachable.step [OF r2]) (simp add: log_watch_def log_name_valid)
  show "reachable published_registry" unfolding published_registry_def
    by (rule reachable.step [OF r3]) simp
qed

subsection \<open>No panic\<close>

text \<open>C1. From any state a run of the registry can reach, no call panics: no array access, unwrap,
  copy or debug assertion of \<open>RegistryState\<close> fails, whatever endpoint, transaction and ticket it is
  given; and the invariant of the state holds again after it, also when it ends in an error. The calls are
  those of \<open>call_valid\<close>: a publication is installed and a watch is made with a message the parser
  accepts, and an enumeration is not completed with a ticket whose transaction belongs to a pending watch
  by now.\<close>

theorem registry_never_panics:
  assumes "reachable s" and "call_valid c s"
  shows "fst (run_call c s) \<noteq> Panic \<and> registry_ok (snd (run_call c s))"
proof -
  have "keeps (run_call c) s" by (rule run_call_keeps [OF reachable_ok [OF assms(1)] assms(2)])
  then show ?thesis using wp_not_panic wp_snd by fast
qed

theorem registry_never_panics_witness:
  "fst (run_call (CallPublish service_ep 7) with_watch) \<noteq> Panic \<and> registry_ok published_registry"
  using registry_never_panics [OF sample_reachable(4), of "CallPublish service_ep 7"]
  by (simp add: published_registry_def)

subsection \<open>Watches\<close>

text \<open>No lost wake-up: in every reachable state, a pending watch has seen the generation that is
  current for its protocol and name, and its transaction is live at an installed client with the
  recorded handle.\<close>

theorem pending_watches_current:
  assumes "reachable s" and "Some w \<in> set (rg_watches s)"
  shows "pw_last_generation w = current_generation (pw_protocol_id w) (watch_name w) s \<and>
    (\<exists>c. Some c \<in> set (rg_clients s) \<and> cl_endpoint c = pw_client w \<and>
       cl_handle c = pw_client_handle w \<and> pw_transaction w \<in> set (client_live c))"
proof -
  obtain k where k: "entry (rg_watches s) k w" using assms(2) by (auto simp: entry_def in_set_conv_nth)
  note ok = reachable_ok [OF assms(1)]
  obtain i c where c: "entry (rg_clients s) i c" "cl_endpoint c = pw_client w"
      "cl_handle c = pw_client_handle w" "pw_transaction w \<in> set (client_live c)"
    using ok k unfolding registry_ok_def base_ok_def watches_ok_def watch_live_def by blast
  have "Some c \<in> set (rg_clients s)" using c(1) unfolding entry_def by (metis nth_mem)
  moreover have "pw_last_generation w = current_generation (pw_protocol_id w) (watch_name w) s"
    using ok k unfolding registry_ok_def wake_ok_def by blast
  ultimately show ?thesis using c by blast
qed

definition log_pending :: pending_watch where
  "log_pending = \<lparr>pw_client = client_ep, pw_client_handle = 5, pw_transaction = 100, pw_protocol_id = 17,
     pw_last_generation = 0, pw_name = log_name @ replicate 125 0, pw_name_len = 3\<rparr>"

lemma log_pending_at: "entry (rg_watches with_watch) 0 log_pending"
  unfolding entry_def by code_simp

theorem pending_watches_current_witness:
  "\<exists>c. Some c \<in> set (rg_clients with_watch) \<and> cl_endpoint c = client_ep \<and> 100 \<in> set (client_live c)"
proof -
  have "Some log_pending \<in> set (rg_watches with_watch)"
    using log_pending_at unfolding entry_def by (metis nth_mem)
  from pending_watches_current [OF sample_reachable(4) this] show ?thesis
    by (auto simp: log_pending_def)
qed

lemma matching_watch_gone:
  assumes "reachable t" and "current_generation proto name t = g" and "watch_matches proto name g w"
  shows "Some w \<notin> set (rg_watches t)"
proof
  assume "Some w \<in> set (rg_watches t)"
  then obtain k where "entry (rg_watches t) k w" by (auto simp: entry_def in_set_conv_nth)
  then have "pw_last_generation w = current_generation (pw_protocol_id w) (watch_name w) t"
    using reachable_ok [OF assms(1)] by (simp add: registry_ok_def wake_ok_def)
  with assms(2,3) show False unfolding watch_matches_def by metis
qed

lemma commit_publish_reachable:
  assumes "reachable s" and "commit_publish ticket s = (r, t)"
  shows "reachable t"
  using reachable.step [OF assms(1), of "CallCommitPublish ticket"] assms(2)
  by (cases r) (simp_all add: ignore_value_def abind_def aret_def)

lemma retire_reachable:
  assumes "reachable s" and "retire ep tx s = (r, t)"
  shows "reachable t"
  using reachable.step [OF assms(1), of "CallRetire ep tx"] assms(2)
  by (cases r) (simp_all add: ignore_value_def abind_def aret_def)

text \<open>C28. Publishing wakes every watcher: when a publication becomes visible, each pending watch of
  its protocol and name is removed and its client is notified of the new generation, which is then
  the current one.\<close>

theorem publish_wakes:
  assumes "reachable s" and "commit_publish ticket s = (Ok out, t)"
  shows "\<exists>sl p. Some sl \<in> set (rg_services s) \<and> sl_active sl = Some p \<and>
    pb_endpoint p = pt_endpoint ticket \<and> po_service_generation out = pb_service_generation p \<and>
    current_generation (pb_protocol_id p) (slot_name sl) t = pb_service_generation p \<and>
    (\<forall>w. Some w \<in> set (rg_watches s) \<longrightarrow> pw_protocol_id w = pb_protocol_id p \<longrightarrow>
       watch_name w = slot_name sl \<longrightarrow>
       Some (notification_for (pb_service_generation p) w) \<in> set (collected (po_notifications out)) \<and>
       Some w \<notin> set (rg_watches t))"
proof -
  note ok = reachable_ok [OF assms(1)]
  obtain i sl p where p: "entry (rg_services s) i sl" "sl_active sl = Some p"
      "pb_endpoint p = pt_endpoint ticket" "pb_phase p = Installed"
      "po_service_generation out = pb_service_generation p"
      "woken (pb_protocol_id p) (slot_name sl) (pb_service_generation p) s (po_notifications out) t"
    using wp_Ok [OF commit_publish_spec [OF ok] assms(2)] by blast
  have g: "pb_service_generation p \<noteq> 0" using pub_ok_of [OF ok p(1,2)] unfolding pub_ok_def by blast
  have "current_generation (pb_protocol_id p) (slot_name sl) s = 0"
    using current_generation_named [OF base_okD(2) [OF registry_okD(1) [OF ok]] p(1)] p(2,4)
    by (simp add: slot_generation_def)
  then have last: "pw_last_generation w = 0" if "entry (rg_watches s) k w"
      "pw_protocol_id w = pb_protocol_id p" "watch_name w = slot_name sl" for k w
    using ok that by (simp add: registry_ok_def wake_ok_def)
  have "Some (notification_for (pb_service_generation p) w) \<in> set (collected (po_notifications out)) \<and>
      Some w \<notin> set (rg_watches t)"
    if w: "Some w \<in> set (rg_watches s)" "pw_protocol_id w = pb_protocol_id p" "watch_name w = slot_name sl" for w
  proof -
    obtain k where k: "entry (rg_watches s) k w" using w(1) by (auto simp: entry_def in_set_conv_nth)
    then have m: "watch_matches (pb_protocol_id p) (slot_name sl) (pb_service_generation p) w"
      using last [OF k w(2,3)] w g by (simp add: watch_matches_def)
    have "current_generation (pb_protocol_id p) (slot_name sl) t = pb_service_generation p"
      using p(6) by (simp add: woken_def)
    from matching_watch_gone [OF commit_publish_reachable [OF assms] this m] p(6) k m
    show ?thesis by (simp add: woken_def)
  qed
  moreover have "Some sl \<in> set (rg_services s)" using p(1) unfolding entry_def by (metis nth_mem)
  ultimately show ?thesis using p by (auto simp: woken_def)
qed

definition prepared_registry :: registry where
  "prepared_registry = snd (run_call (CallPreparePublish service_ep 7) with_watch)"

lemma prepared_reachable: "reachable prepared_registry"
  unfolding prepared_registry_def by (rule reachable.step [OF sample_reachable(4)]) simp

definition log_outcome :: publish_outcome where
  "log_outcome = (case fst (commit_publish \<lparr>pt_endpoint = service_ep, pt_transaction = 7\<rparr> prepared_registry)
     of Ok out \<Rightarrow> out | _ \<Rightarrow> undefined)"

lemma log_commit:
  "commit_publish \<lparr>pt_endpoint = service_ep, pt_transaction = 7\<rparr> prepared_registry =
     (Ok log_outcome, snd (commit_publish \<lparr>pt_endpoint = service_ep, pt_transaction = 7\<rparr> prepared_registry))"
proof -
  have "case fst (commit_publish \<lparr>pt_endpoint = service_ep, pt_transaction = 7\<rparr> prepared_registry) of
      Ok out \<Rightarrow> True | _ \<Rightarrow> False" by code_simp
  then show ?thesis unfolding log_outcome_def
    by (cases "commit_publish \<lparr>pt_endpoint = service_ep, pt_transaction = 7\<rparr> prepared_registry")
      (auto split: res.splits)
qed

lemma prepared_only_log:
  "list_all (\<lambda>e. case e of None \<Rightarrow> True | Some sl \<Rightarrow> (case sl_active sl of None \<Rightarrow> True
     | Some p \<Rightarrow> pb_protocol_id p = 17 \<and> slot_name sl = log_name \<and> pb_service_generation p = 3)) (rg_services prepared_registry)"
  by code_simp

lemma prepared_pending: "Some log_pending \<in> set (rg_watches prepared_registry)"
proof -
  have "rg_watches prepared_registry ! 0 = Some log_pending \<and> 0 < length (rg_watches prepared_registry)" by code_simp
  then show ?thesis by (metis nth_mem)
qed

theorem publish_wakes_witness:
  "Some \<lparr>nt_client = client_ep, nt_client_handle = 5, nt_transaction_id = 100, nt_service_generation = 3\<rparr> \<in>
      set (collected (po_notifications log_outcome)) \<and>
   Some log_pending \<notin> set (rg_watches (snd (commit_publish \<lparr>pt_endpoint = service_ep, pt_transaction = 7\<rparr> prepared_registry)))"
proof -
  have w: "pw_protocol_id log_pending = 17" "watch_name log_pending = log_name"
    by (simp_all add: log_pending_def watch_name_def log_name_def)
  from publish_wakes [OF prepared_reachable log_commit] obtain sl p where
      p: "Some sl \<in> set (rg_services prepared_registry)" "sl_active sl = Some p"
      and all: "\<forall>w. Some w \<in> set (rg_watches prepared_registry) \<longrightarrow> pw_protocol_id w = pb_protocol_id p \<longrightarrow> watch_name w = slot_name sl \<longrightarrow>
        Some (notification_for (pb_service_generation p) w) \<in> set (collected (po_notifications log_outcome)) \<and>
        Some w \<notin> set (rg_watches (snd (commit_publish \<lparr>pt_endpoint = service_ep, pt_transaction = 7\<rparr> prepared_registry)))"
    by blast
  have "pb_protocol_id p = 17 \<and> slot_name sl = log_name \<and> pb_service_generation p = 3"
    using prepared_only_log p by (auto simp: list_all_iff)
  with all w prepared_pending show ?thesis by (auto simp: notification_for_def log_pending_def)
qed

text \<open>Retiring a publication makes the service absent: its generation is zero again, and each
  pending watch of it that had seen another generation is removed and notified of the absence.\<close>

theorem retire_wakes:
  assumes "reachable s" and "retire ep t s = (Ok out, u)"
  shows "\<exists>sl p. Some sl \<in> set (rg_services s) \<and> sl_active sl = Some p \<and> pb_endpoint p = ep \<and>
    ro_registry_handle out = pb_handle p \<and> ro_service_generation out = pb_service_generation p \<and>
    current_generation (pb_protocol_id p) (slot_name sl) u = 0 \<and>
    (\<forall>w. Some w \<in> set (rg_watches s) \<longrightarrow> watch_matches (pb_protocol_id p) (slot_name sl) 0 w \<longrightarrow>
       Some (notification_for 0 w) \<in> set (collected (ro_notifications out)) \<and>
       Some w \<notin> set (rg_watches u))"
proof -
  obtain i sl p where p: "entry (rg_services s) i sl" "sl_active sl = Some p" "pb_endpoint p = ep"
      "ro_registry_handle out = pb_handle p" "ro_service_generation out = pb_service_generation p"
      "woken (pb_protocol_id p) (slot_name sl) 0 s (ro_notifications out) u"
    using wp_Ok [OF retire_spec [OF reachable_ok [OF assms(1)]] assms(2)] by blast
  have gone: "current_generation (pb_protocol_id p) (slot_name sl) u = 0" using p(6) by (simp add: woken_def)
  have "Some (notification_for 0 w) \<in> set (collected (ro_notifications out)) \<and> Some w \<notin> set (rg_watches u)"
    if w: "Some w \<in> set (rg_watches s)" "watch_matches (pb_protocol_id p) (slot_name sl) 0 w" for w
  proof -
    obtain k where "entry (rg_watches s) k w" using w(1) by (auto simp: entry_def in_set_conv_nth)
    with p(6) w(2) matching_watch_gone [OF retire_reachable [OF assms] gone w(2)]
    show ?thesis by (simp add: woken_def)
  qed
  moreover have "Some sl \<in> set (rg_services s)" using p(1) unfolding entry_def by (metis nth_mem)
  ultimately show ?thesis using p unfolding woken_def by blast
qed

lemma retire_log: "\<exists>out u. retire service_ep 8 published_registry = (Ok out, u)"
proof -
  have "case fst (retire service_ep 8 published_registry) of Ok out \<Rightarrow> True | _ \<Rightarrow> False" by code_simp
  then show ?thesis by (cases "retire service_ep 8 published_registry") (auto split: res.splits)
qed

theorem retire_wakes_witness:
  "\<exists>out u. \<exists>p :: publication. retire service_ep 8 published_registry = (Ok out, u) \<and> pb_endpoint p = service_ep \<and>
     ro_registry_handle out = pb_handle p"
proof -
  obtain out u where r: "retire service_ep 8 published_registry = (Ok out, u)" using retire_log by blast
  from retire_wakes [OF sample_reachable(5) r] r show ?thesis by blast
qed

subsection \<open>Endpoint identities\<close>

lemma installed_publications:
  "List.map_filter (\<lambda>sl. map_option (\<lambda>p.
      \<lparr>ie_identity = pb_endpoint p, ie_handle = pb_handle p, ie_kind = K_Publication\<rparr>) (sl_active sl)) xs =
   map (\<lambda>p. \<lparr>ie_identity = pb_endpoint p, ie_handle = pb_handle p, ie_kind = K_Publication\<rparr>)
     (flatten (map sl_active xs))"
  by (induction xs) (auto simp: List.map_filter_simps split: option.splits)

lemma distinct_flatten_map:
  assumes "\<And>i j a b. entry xs i a \<Longrightarrow> entry xs j b \<Longrightarrow> f a = f b \<Longrightarrow> i = j"
  shows "distinct (map f (flatten xs))"
  using assms
proof (induction xs)
  case (Cons x xs)
  have e: "entry (x # xs) (Suc i) a" if "entry xs i a" for i a using that by (simp add: entry_def)
  have IH: "distinct (map f (flatten xs))" using Cons.prems e by (intro Cons.IH) (metis nat.inject)
  show ?case
  proof (cases x)
    case (Some a)
    have "f b \<noteq> f a" if b: "b \<in> set (flatten xs)" for b
    proof
      assume eq: "f b = f a"
      obtain i where "entry xs i b" using flatten_entry [OF b] by blast
      with Cons.prems [of "Suc i" b 0 a] e eq Some show False by (simp add: entry_def)
    qed
    then have "f a \<notin> f ` set (flatten xs)" by (metis imageE)
    with IH Some show ?thesis by simp
  qed (use IH in simp)
qed simp

text \<open>The active publications, as an array.\<close>

definition actives :: "service_slot option list \<Rightarrow> publication option list" where
  "actives ss = map (\<lambda>e. Option.bind e sl_active) ss"

lemma entry_actives: "entry (actives ss) i p \<longleftrightarrow> pub_at ss i p"
  by (auto simp: entry_def actives_def pub_at_def bind_eq_Some_conv)

lemma flatten_actives: "flatten (actives ss) = flatten (map sl_active (flatten ss))"
  by (induction ss) (auto simp: actives_def flatten_def map_filter_simps split: option.splits)

text \<open>In every reachable state the installed endpoints, publications and clients together, have
  pairwise different identities, and all of them are among the issued ones.\<close>

theorem endpoint_ids_unique:
  assumes "reachable s"
  shows "distinct (map (\<lambda>e. ep_id (ie_identity e)) (installed_endpoints s)) \<and>
    (\<forall>e. e \<in> set (installed_endpoints s) \<longrightarrow> ep_id (ie_identity e) \<in> issued_endpoints s)"
proof -
  have ids: "ids_ok (rg_services s) (rg_clients s) (issued_endpoints s)"
    using reachable_ok [OF assms] by (simp add: registry_ok_def base_ok_def)
  let ?ps = "flatten (actives (rg_services s))" and ?cs = "flatten (rg_clients s)"
  have eq: "map (\<lambda>e. ep_id (ie_identity e)) (installed_endpoints s) =
      map (\<lambda>p. ep_id (pb_endpoint p)) ?ps @ map (\<lambda>c. ep_id (cl_endpoint c)) ?cs"
    unfolding installed_endpoints_def installed_publications flatten_actives by (simp add: comp_def)
  have "distinct (map (\<lambda>p. ep_id (pb_endpoint p)) ?ps)" "distinct (map (\<lambda>c. ep_id (cl_endpoint c)) ?cs)"
    using ids unfolding ids_ok_def by (auto intro!: distinct_flatten_map simp: entry_actives)
  moreover have "ep_id (pb_endpoint p) \<in> issued_endpoints s \<and> ep_id (pb_endpoint p) \<noteq> ep_id (cl_endpoint c)"
    if "p \<in> set ?ps" "c \<in> set ?cs" for p c
    using flatten_entry [OF that(1)] flatten_entry [OF that(2)] ids
    unfolding ids_ok_def entry_actives by blast
  moreover have "ep_id (pb_endpoint p) \<in> issued_endpoints s" if "p \<in> set ?ps" for p
    using flatten_entry [OF that] ids unfolding ids_ok_def entry_actives by blast
  moreover have "ep_id (cl_endpoint c) \<in> issued_endpoints s" if "c \<in> set ?cs" for c
    using flatten_entry [OF that] ids unfolding ids_ok_def by blast
  moreover have "ep_id (ie_identity e) \<in> set (map (\<lambda>e. ep_id (ie_identity e)) (installed_endpoints s))"
    if "e \<in> set (installed_endpoints s)" for e using that by simp
  ultimately show ?thesis unfolding eq by fastforce
qed

theorem endpoint_ids_unique_witness:
  "distinct (map (\<lambda>e. ep_id (ie_identity e)) (installed_endpoints published_registry))"
  using endpoint_ids_unique [OF sample_reachable(5)] by blast

text \<open>C34. An endpoint identity is never used twice: once an endpoint was installed with it, as a client or
  as a publication, it is refused for every later installation of either kind, whatever calls come in
  between and also after its endpoint has left, and the refused installation changes nothing.\<close>

theorem endpoint_id_never_reused:
  assumes "reachable s" and "call_valid c s" and "run_call c s = (Ok (), t)" and "installs c = Some ident"
    and "runs t u" and "ic_endpoint_id ic = ident" and "ip_endpoint_id ip = ident"
  shows "(\<exists>e. install_client g h ic u = (Err e, u)) \<and> (\<exists>e. install_publication g h ip u = (Err e, u))"
proof -
  have rt: "reachable t" using reachable.step [OF assms(1,2)] assms(3) by simp
  have i: "ident \<in> issued_endpoints u" using install_issues [OF assms(3,4)] runs_issued [OF assms(5)] by blast
  have "shape_ok u" using reachable_ok [OF runs_reachable [OF assms(5) rt]]
    by (simp add: registry_ok_def base_ok_def)
  then have r: "region_r 0 (rg_issued_endpoint_count u) (rg_issued_endpoint_ids u) =
      (Ok (take (rg_issued_endpoint_count u) (rg_issued_endpoint_ids u)) :: (registry_error, u64 list) res)"
    by (simp add: region_r_def region_def shape_ok_def)
  show ?thesis
    using assms(6,7) i r
    by (simp add: install_client_def install_publication_def Let_def abind_def validate_install_def
        validate_fresh_endpoint_id_def aread_def issued_endpoints_def)
qed

text \<open>A client is installed and leaves; another one may not take its identity, and no publication either.\<close>

theorem endpoint_id_never_reused_witness:
  "(\<exists>e. install_client 1 9 sample_client (snd (run_call (CallPeerClosed client_ep) with_client)) =
     (Err e, snd (run_call (CallPeerClosed client_ep) with_client))) \<and>
   (\<exists>e. install_publication 1 9 (sample_publication\<lparr>ip_endpoint_id := 10\<rparr>) (snd (run_call (CallPeerClosed client_ep) with_client)) =
     (Err e, snd (run_call (CallPeerClosed client_ep) with_client)))"
proof -
  let ?c = "CallInstallClient 1 5 sample_client"
  have "fst (run_call ?c fresh_registry) = Ok ()" by code_simp
  then have c: "run_call ?c fresh_registry = (Ok (), with_client)" by (simp add: with_client_def prod_eq_iff)
  have "runs with_client (snd (run_call (CallPeerClosed client_ep) with_client))"
    by (rule runs_step [OF runs_refl]) simp
  from endpoint_id_never_reused [OF sample_reachable(1) _ c _ this, of 10 sample_client "sample_publication\<lparr>ip_endpoint_id := 10\<rparr>" 1 9]
  show ?thesis by (simp add: sample_client_def)
qed

subsection \<open>Lookups\<close>

text \<open>A client that can reserve the transaction.\<close>

definition can_reserve :: "registry \<Rightarrow> endpoint_identity \<Rightarrow> u64 \<Rightarrow> bool" where
  "can_reserve s ep t \<longleftrightarrow>
     t \<noteq> 0 \<and> (\<exists>c. Some c \<in> set (rg_clients s) \<and> cl_endpoint c = ep \<and> cl_live_count c < 16 \<and>
       t \<notin> set (client_live c) \<and> \<not> replay_contains (cl_replay c) t)"

text \<open>The frame of a client request whose transaction can be reserved, as an equation.\<close>

lemma client_request_eq:
  assumes ok: "registry_ok s" and r: "can_reserve s ep t"
  shows "\<exists>i c c1 c2. client_index ep s = Ok i \<and> entry (rg_clients s) i c \<and>
    on_client i (client_reserve t) s = (Ok (), put_client i c1 s) \<and>
    on_client i (client_complete t) (put_client i c1 s) = (Ok (), put_client i c2 s) \<and>
    same_client c c2 \<and> client_ok c2 \<and> replay_contains (cl_replay c2) t"
proof -
  obtain c where c: "Some c \<in> set (rg_clients s)" "cl_endpoint c = ep" "cl_live_count c < 16"
      "t \<notin> set (client_live c)" "\<not> replay_contains (cl_replay c) t" "t \<noteq> 0"
    using r by (auto simp: can_reserve_def)
  obtain i where e: "entry (rg_clients s) i c" using c(1) by (auto simp: entry_def in_set_conv_nth)
  have cok: "client_ok c" using ok e by (auto simp: registry_ok_def base_ok_def clients_ok_def)
  have found: "client_index ep s = Ok i"
    using client_index_found [OF base_okD(4) [OF registry_okD(1) [OF ok]] e] c(2) by simp
  have rr: "region_r 0 (cl_live_count c) (cl_live_transactions c) =
      (Ok (client_live c) :: (registry_error, u64 list) res)"
    using cok by (simp add: region_r_def client_ok_def client_live_def region_def)
  obtain c1 where c1: "client_reserve t c = (Ok (), c1)" "client_ok c1" "same_client c c1"
      "client_live c1 = client_live c @ [t]"
    using client_reserve_spec [OF cok, of t] c(3-6) cok
    by (auto simp: wp_def client_reserve_def rr client_ok_def)
  obtain c2 where c2: "client_complete t c1 = (Ok (), c2)" "client_ok c2" "same_client c1 c2"
      "replay_contains (cl_replay c2) t"
    using client_complete_spec [OF c1(2), of t] c1(4)
    by (auto simp: wp_def split: prod.splits res.splits)
  have "on_client i (client_reserve t) s = (Ok (), put_client i c1 s)"
    using e c1(1) by (simp add: on_client_def entry_def index_r_def)
  moreover have "on_client i (client_complete t) (put_client i c1 s) = (Ok (), put_client i c2 s)"
    using e c2(1) by (simp add: on_client_def entry_def index_r_def)
  moreover have "same_client c c2" using c1(3) c2(3) by (simp add: same_client_def)
  ultimately show ?thesis using found e c2 by blast
qed

lemma lookup_result_frame: "lookup_result t request (s\<lparr>rg_clients := cs\<rparr>) = lookup_result t request s"
  by (simp add: lookup_result_def find_publication_def)

lemma lookup_eq:
  assumes "registry_ok s" and "can_reserve s ep t"
  shows "\<exists>s'. lookup ep t request s = (lookup_result t request s, s') \<and>
    (\<forall>request'. lookup ep t request' s' = (Err R_TransactionReplay, s')) \<and> rg_services s' = rg_services s"
proof -
  obtain i c c1 c2 where a: "client_index ep s = Ok i" "entry (rg_clients s) i c"
      "on_client i (client_reserve t) s = (Ok (), put_client i c1 s)"
      "on_client i (client_complete t) (put_client i c1 s) = (Ok (), put_client i c2 s)"
      "same_client c c2" "client_ok c2" "replay_contains (cl_replay c2) t"
    using client_request_eq [OF assms] by blast
  have np: "lookup_result t request s \<noteq> Panic" by (rule lookup_result_no_panic [OF assms(1)])
  have l: "lookup ep t request s = (lookup_result t request s, put_client i c2 s)"
    using a np by (cases "lookup_result t request s")
      (simp_all add: lookup_def abind_def aread_def alift_def lookup_result_frame)
  have e2: "entry (rg_clients (put_client i c2 s)) i c2" using a(2) by (simp add: entry_length)
  obtain c' where c': "entry (rg_clients s) i c'" "cl_endpoint c' = ep"
    using client_index_Ok [OF a(1)] by blast
  have ep: "cl_endpoint c2 = ep" using a(2,5) c' by (auto simp: same_client_def dest: entry_unique)
  have "ids_ok (rg_services s) (rg_clients (put_client i c2 s)) (issued_endpoints s)"
    using ids_ok_client [OF base_okD(4) [OF registry_okD(1) [OF assms(1)]] a(2)] a(5)
    by (simp add: same_client_def)
  from client_index_found [OF this e2] ep have found: "client_index ep (put_client i c2 s) = Ok i" by simp
  have "t \<noteq> 0" using assms(2) by (simp add: can_reserve_def)
  then have "on_client i (client_reserve t) (put_client i c2 s) = (Err R_TransactionReplay, put_client i c2 s)"
    using e2 a(7) by (simp add: on_client_def entry_def index_r_def client_reserve_def)
  then have "lookup ep t request' (put_client i c2 s) = (Err R_TransactionReplay, put_client i c2 s)" for request'
    using found by (simp add: lookup_def abind_def aread_def)
  with l show ?thesis by auto
qed

lemma find_publication_named:
  assumes ok: "slots_ok (rg_services s)" and e: "entry (rg_services s) i sl" and p: "sl_active sl = Some p"
    and r: "pb_phase p = Published" "pb_protocol_id p = lk_protocol_id request"
      "slot_name sl = lk_service_name request"
  shows "find_publication request s = Some p"
proof (cases "find_publication request s")
  case None
  then show ?thesis using entry_flatten [OF e] p r
    by (auto simp: find_publication_def find_map_eq_None)
next
  case (Some q)
  obtain j sl' where q: "entry (rg_services s) j sl'" "sl_active sl' = Some q"
      "slot_name sl' = lk_service_name request"
    using find_publication_Some [OF Some] by blast
  have "j = i" using ok q(1,3) e r(3) unfolding slots_ok_def by metis
  with q e p Some show ?thesis by (auto dest: entry_unique)
qed

text \<open>The service is published under the name and the protocol of the request.\<close>

definition offers :: "registry \<Rightarrow> lookup_request \<Rightarrow> service_slot \<Rightarrow> publication \<Rightarrow> bool" where
  "offers s request sl p \<longleftrightarrow> Some sl \<in> set (rg_services s) \<and> sl_active sl = Some p \<and> pb_phase p = Published \<and>
     pb_protocol_id p = lk_protocol_id request \<and> slot_name sl = lk_service_name request"

lemma find_publication_iff:
  assumes "registry_ok s"
  shows "find_publication request s = Some p \<longleftrightarrow> (\<exists>sl. offers s request sl p)"
proof
  assume "find_publication request s = Some p"
  then show "\<exists>sl. offers s request sl p"
    using find_publication_Some [of request s p] unfolding offers_def entry_def by (metis nth_mem)
next
  assume "\<exists>sl. offers s request sl p"
  then obtain sl i where "offers s request sl p" "entry (rg_services s) i sl"
    by (auto simp: offers_def entry_def in_set_conv_nth)
  then show "find_publication request s = Some p"
    using assms find_publication_named [of s i sl p request] by (simp add: offers_def registry_ok_def base_ok_def)
qed

text \<open>C30. A lookup hands out exactly what is published: when the client can reserve the transaction, it is
  told that nothing is published precisely when no service is published under the requested name and
  protocol; otherwise it is offered the endpoint, handle and generation of that service if the service
  supports the version, and refused the version if not. The transaction is spent either way: a second
  lookup with it is refused.\<close>

theorem lookup_exact:
  assumes "reachable s" and "can_reserve s ep t"
  shows "\<exists>s'. lookup ep t request s = (lookup_result t request s, s') \<and>
    lookup ep t request' s' = (Err R_TransactionReplay, s') \<and>
    (lookup_result t request s = Err R_NotPublished \<longleftrightarrow> (\<nexists>sl p. offers s request sl p)) \<and>
    (\<forall>sl p. offers s request sl p \<longrightarrow>
        lookup_result t request s =
          (if lk_version request \<in> set (take (unat (pb_version_count p)) (pb_versions p))
           then Ok \<lparr>fo_publication = pb_endpoint p, fo_publication_handle = pb_handle p,
                    fo_service_generation = pb_service_generation p, fo_client_transaction = t\<rparr>
           else Err R_UnsupportedVersion))"
proof -
  note ok = reachable_ok [OF assms(1)]
  note found = find_publication_iff [OF ok, of request]
  obtain s' where s': "lookup ep t request s = (lookup_result t request s, s')"
      "lookup ep t request' s' = (Err R_TransactionReplay, s')"
    using lookup_eq [OF ok assms(2)] by blast
  have hit: "lookup_result t request s =
      (if lk_version request \<in> set (take (unat (pb_version_count p)) (pb_versions p))
       then Ok \<lparr>fo_publication = pb_endpoint p, fo_publication_handle = pb_handle p,
                fo_service_generation = pb_service_generation p, fo_client_transaction = t\<rparr>
       else Err R_UnsupportedVersion)" if o: "offers s request sl p" for sl p
  proof -
    obtain i where "entry (rg_services s) i sl" "sl_active sl = Some p" using o by (auto simp: offers_def entry_def in_set_conv_nth)
    then have "pub_ok p" using pub_ok_of [OF ok] by simp
    moreover have "find_publication request s = Some p" using found o by blast
    ultimately show ?thesis by (simp add: lookup_result_def publication_supports_Ok)
  qed
  have "lookup_result t request s = Err R_NotPublished" if "\<nexists>sl p. offers s request sl p"
    using found that by (cases "find_publication request s") (auto simp: lookup_result_def)
  moreover have "lookup_result t request s \<noteq> Err R_NotPublished" if "offers s request sl p" for sl p
    using hit [OF that] by simp
  ultimately show ?thesis using s' hit by blast
qed

lemma log_can_reserve: "can_reserve published_registry client_ep 101"
proof -
  have "list_ex (\<lambda>e. case e of None \<Rightarrow> False | Some c \<Rightarrow> cl_endpoint c = client_ep \<and> cl_live_count c < 16 \<and>
      101 \<notin> set (client_live c) \<and> \<not> replay_contains (cl_replay c) 101) (rg_clients published_registry)"
    by code_simp
  then show ?thesis by (auto simp: can_reserve_def list_ex_iff split: option.splits)
qed

definition missing_lookup :: lookup_request where
  "missing_lookup = log_lookup\<lparr>lk_protocol_id := 18\<rparr>"

text \<open>The published service is offered, and nothing under another protocol.\<close>

theorem lookup_exact_witness:
  "(\<exists>s'. lookup client_ep 101 log_lookup published_registry =
      (Ok \<lparr>fo_publication = service_ep, fo_publication_handle = 6, fo_service_generation = 3,
           fo_client_transaction = 101\<rparr>, s') \<and>
    lookup client_ep 101 log_lookup s' = (Err R_TransactionReplay, s')) \<and>
   (\<exists>sl p. offers published_registry log_lookup sl p) \<and> (\<nexists>sl p. offers published_registry missing_lookup sl p)"
proof -
  have r: "lookup_result 101 log_lookup published_registry =
      Ok \<lparr>fo_publication = service_ep, fo_publication_handle = 6, fo_service_generation = 3,
          fo_client_transaction = 101\<rparr>" by code_simp
  have "lookup_result 101 missing_lookup published_registry = Err R_NotPublished" by code_simp
  with r lookup_exact [OF sample_reachable(5) log_can_reserve, of log_lookup log_lookup]
    lookup_exact [OF sample_reachable(5) log_can_reserve, of missing_lookup log_lookup]
  show ?thesis by auto
qed

text \<open>What was published is found: after a successful publish, a lookup of its name and protocol
  with a supported version offers exactly the publishing endpoint with its handle and generation.\<close>

theorem publish_then_lookup:
  assumes "reachable s" and "publish ep t s = (Ok out, u)"
  shows "\<exists>sl p. Some sl \<in> set (rg_services u) \<and> sl_active sl = Some p \<and> pb_endpoint p = ep \<and>
    (\<forall>v t'. v \<in> set (take (unat (pb_version_count p)) (pb_versions p)) \<longrightarrow>
      lookup_result t' \<lparr>lk_protocol_id = pb_protocol_id p, lk_version = v, lk_service_name = slot_name sl\<rparr> u =
        Ok \<lparr>fo_publication = ep, fo_publication_handle = pb_handle p,
            fo_service_generation = po_service_generation out, fo_client_transaction = t'\<rparr>)"
proof -
  obtain ticket s1 where s1: "prepare_publish ep t s = (Ok ticket, s1)" "commit_publish ticket s1 = (Ok out, u)"
    using assms(2) by (auto simp: publish_def res_simps)
  have r1: "reachable s1"
    using reachable.step [OF assms(1), of "CallPreparePublish ep t"] s1(1)
    by (simp add: ignore_value_def abind_def aret_def)
  have r2: "reachable u"
    using reachable.step [OF r1, of "CallCommitPublish ticket"] s1(2)
    by (simp add: ignore_value_def abind_def aret_def)
  note ok = reachable_ok [OF r1] and oku = reachable_ok [OF r2]
  have tick: "pt_endpoint ticket = ep" using s1(1)
    by (auto simp: prepare_publish_def res_simps split: if_splits)
  obtain i sl p where p: "entry (rg_services s1) i sl" "sl_active sl = Some p"
      "pb_endpoint p = pt_endpoint ticket" "po_service_generation out = pb_service_generation p"
      "rg_services u = (rg_services s1)[i := Some (sl\<lparr>sl_active := Some (p\<lparr>pb_phase := Published,
         pb_live_transaction := 0, pb_replay := replay_push (pb_replay p) (pt_transaction ticket)\<rparr>)\<rparr>)]"
    using wp_Ok [OF commit_publish_spec [OF ok] s1(2)] by blast
  define p' where "p' = p\<lparr>pb_phase := Published, pb_live_transaction := 0,
    pb_replay := replay_push (pb_replay p) (pt_transaction ticket)\<rparr>"
  define sl' where "sl' = sl\<lparr>sl_active := Some p'\<rparr>"
  have e: "entry (rg_services u) i sl'" "sl_active sl' = Some p'"
    using p(1,5) by (simp_all add: sl'_def p'_def entry_length)
  have "slots_ok (rg_services u)" using oku by (simp add: registry_ok_def base_ok_def)
  note found = find_publication_named [OF this e]
  have fields: "pb_phase p' = Published" "pb_endpoint p' = ep"
    "pb_service_generation p' = po_service_generation out"
    using p(3,4) tick by (simp_all add: p'_def)
  have po: "pub_ok p'" using pub_ok_of [OF oku e] by simp
  have "lookup_result t' \<lparr>lk_protocol_id = pb_protocol_id p', lk_version = v, lk_service_name = slot_name sl'\<rparr> u =
      Ok \<lparr>fo_publication = ep, fo_publication_handle = pb_handle p',
          fo_service_generation = po_service_generation out, fo_client_transaction = t'\<rparr>"
    if "v \<in> set (take (unat (pb_version_count p')) (pb_versions p'))" for v t'
    using that found [of "\<lparr>lk_protocol_id = pb_protocol_id p', lk_version = v, lk_service_name = slot_name sl'\<rparr>"]
      fields by (simp add: lookup_result_def publication_supports_Ok [OF po])
  moreover have "Some sl' \<in> set (rg_services u)" using e(1) unfolding entry_def by (metis nth_mem)
  ultimately show ?thesis using e(2) fields(2) by blast
qed

lemma publish_log: "\<exists>out u. publish service_ep 7 with_watch = (Ok out, u)"
proof -
  have "case fst (publish service_ep 7 with_watch) of Ok out \<Rightarrow> True | _ \<Rightarrow> False" by code_simp
  then show ?thesis by (cases "publish service_ep 7 with_watch") (auto split: res.splits)
qed

theorem publish_then_lookup_witness:
  "\<exists>out u sl. \<exists>p :: publication. publish service_ep 7 with_watch = (Ok out, u) \<and> Some sl \<in> set (rg_services u) \<and>
     sl_active sl = Some p \<and> pb_endpoint p = service_ep"
proof -
  obtain out u where r: "publish service_ep 7 with_watch = (Ok out, u)" using publish_log by blast
  from publish_then_lookup [OF sample_reachable(4) r] r show ?thesis by blast
qed

subsection \<open>Enumeration\<close>

text \<open>Enumeration is canonical and complete: the records of an enumeration are the published
  services, each once, in strictly increasing order of their names; the index of the last one is
  the published count minus one.\<close>

theorem enumeration_canonical:
  assumes "reachable s"
  shows "(\<forall>k. nth_canonical (rg_services s) k =
      (if k < published_count s then Some (published_slots (rg_services s) ! k) else None)) \<and>
    sorted_wrt (\<lambda>a b. slot_name a < slot_name b) (published_slots (rg_services s)) \<and>
    set (published_slots (rg_services s)) =
      {sl. Some sl \<in> set (rg_services s) \<and> slot_metadata sl \<noteq> None}"
proof -
  have ok: "slots_ok (rg_services s)" using reachable_ok [OF assms] by (simp add: registry_ok_def base_ok_def)
  have "length (published_slots (rg_services s)) = published_count s"
    by (simp add: published_slots_def published_count_def)
  moreover have "set (published_slots (rg_services s)) =
      {sl. Some sl \<in> set (rg_services s) \<and> slot_metadata sl \<noteq> None}"
    by (auto simp: published_slots_def set_flatten)
  ultimately show ?thesis
    using canonical_loop_eq [OF ok, of 0 None] published_sorted [OF ok] by (simp add: nth_canonical_def)
qed

theorem enumeration_canonical_witness:
  "nth_canonical (rg_services published_registry) 1 = None"
proof -
  have "published_count published_registry = 1" by code_simp
  with enumeration_canonical [OF sample_reachable(5)] show ?thesis by simp
qed

subsection \<open>Generations\<close>

lemma install_publication_Ok:
  assumes "install_publication g h ip s = (Ok (), u)"
  shows "\<exists>i. choose_slot ip s = Ok i"
  using assms
  by (auto simp: install_publication_def Let_def res_simps validate_install_def validate_fresh_endpoint_id_def)

text \<open>The generations of a service name only grow: an installation for a name that has a slot
  succeeds only when the slot has no active publication and the new generation is greater than
  the generation of the last publication that was installed under the name.\<close>

theorem generations_increase:
  assumes "reachable s" and "install_publication g h ip s = (Ok (), u)"
    and "Some sl \<in> set (rg_services s)" and "slot_name sl = ip_service_name ip"
  shows "sl_active sl = None \<and> sl_last_generation sl < ip_service_generation ip"
proof -
  obtain i where i: "choose_slot ip s = Ok i" using install_publication_Ok [OF assms(2)] by blast
  have ok: "slots_ok (rg_services s)"
    using reachable_ok [OF assms(1)] by (simp add: registry_ok_def base_ok_def)
  note c = choose_slot_Ok [OF i ok]
  obtain j where j: "entry (rg_services s) j sl" using assms(3) by (auto simp: entry_def in_set_conv_nth)
  have "j = i" by (rule c(3) [OF j assms(4)])
  with c(2) j show ?thesis by blast
qed

definition retired_registry :: registry where
  "retired_registry = snd (run_call (CallRetire service_ep 8) published_registry)"

definition next_publication :: install_publication where
  "next_publication = sample_publication\<lparr>ip_endpoint_id := 21, ip_publication_id := 7, ip_service_generation := 4\<rparr>"

lemma log_slot: "\<exists>sl. Some sl \<in> set (rg_services retired_registry) \<and> slot_name sl = ip_service_name next_publication"
proof -
  have "list_ex (\<lambda>e. case e of None \<Rightarrow> False | Some sl \<Rightarrow> slot_name sl = ip_service_name next_publication)
      (rg_services retired_registry)" by code_simp
  then show ?thesis by (auto simp: list_ex_iff split: option.splits)
qed

theorem generations_increase_witness:
  "\<exists>sl. Some sl \<in> set (rg_services retired_registry) \<and> sl_active sl = None \<and> sl_last_generation sl < 4"
proof -
  have r: "reachable retired_registry" unfolding retired_registry_def
    by (rule reachable.step [OF sample_reachable(5)]) simp
  have "fst (install_publication 1 11 next_publication retired_registry) = Ok ()" by code_simp
  then have i: "install_publication 1 11 next_publication retired_registry =
      (Ok (), snd (install_publication 1 11 next_publication retired_registry))"
    by (simp add: prod_eq_iff)
  obtain sl where sl: "Some sl \<in> set (rg_services retired_registry)"
      "slot_name sl = ip_service_name next_publication" using log_slot by blast
  from generations_increase [OF r i sl] sl(1) show ?thesis by (auto simp: next_publication_def)
qed

end
