(* ===== verification/RegistryService.thy ===== *)
theory RegistryService
  imports RegistryState RegistryEncode
begin

text \<open>
  The service step of the registry (\<^verbatim>\<open>userspace/registryd/src/service.rs\<close>): wait for an event,
  receive a datagram on the control channel or on an installed endpoint, run the request on the
  registry state and send the replies and notifications.

  The transport is the trait \<^verbatim>\<open>Transport\<close>, whose implementations are system calls: it is a parameter
  of every definition, a record of functions on a transport state of any type. Its results are values
  or errors of any type. A slice that it fills keeps its length (\<open>slices_kept\<close>), as every \<^verbatim>\<open>&mut [T]\<close>
  does. The parameter \<open>oc\<close> is the build profile of the parser.
\<close>

subsection \<open>The transport\<close>

definition MAX_MESSAGE_BYTES :: nat where "MAX_MESSAGE_BYTES = 416"
definition MAX_ENDPOINTS :: nat where "MAX_ENDPOINTS = 64"
definition MAX_RECEIVED_HANDLES :: nat where "MAX_RECEIVED_HANDLES = 16"

datatype channel_rights = Rights_Child | Rights_Broad

record received_handle =
  rh_handle :: u64
  rh_is_channel :: bool
  rh_rights :: u64

definition received_default :: received_handle where
  "received_default = \<lparr>rh_handle = 0, rh_is_channel = False, rh_rights = 0\<rparr>"

record receive_counts =
  rc_bytes :: nat
  rc_handles :: nat

record wait_event =
  we_endpoint_index :: "nat option"
  we_readable :: bool
  we_peer_closed :: bool

record probe_signals =
  ps_readable :: bool
  ps_peer_closed :: bool

record ('io, 'err) transport =
  tr_wait :: "u64 \<Rightarrow> installed_endpoint_r list \<Rightarrow> 'io \<Rightarrow> ('err + wait_event) \<times> 'io"
  tr_probe :: "installed_endpoint_r \<Rightarrow> 'io \<Rightarrow> ('err + probe_signals) \<times> 'io"
  tr_receive :: "u64 \<Rightarrow> byte list \<Rightarrow> received_handle list \<Rightarrow> 'io \<Rightarrow>
    ('err + receive_counts) \<times> byte list \<times> received_handle list \<times> 'io"
  tr_validate_channel :: "received_handle \<Rightarrow> channel_rights \<Rightarrow> 'io \<Rightarrow> ('err + unit) \<times> 'io"
  tr_send :: "u64 \<Rightarrow> byte list \<Rightarrow> 'io \<Rightarrow> ('err + unit) \<times> 'io"
  tr_send_move :: "u64 \<Rightarrow> byte list \<Rightarrow> u64 \<Rightarrow> channel_rights \<Rightarrow> 'io \<Rightarrow> ('err + unit) \<times> 'io"
  tr_close :: "u64 \<Rightarrow> 'io \<Rightarrow> ('err + unit) \<times> 'io"

definition slices_kept :: "('io, 'err) transport \<Rightarrow> bool" where
  "slices_kept tr \<longleftrightarrow> (\<forall>channel bytes handles io r bytes' handles' io'.
     tr_receive tr channel bytes handles io = (r, bytes', handles', io') \<longrightarrow>
     length bytes' = length bytes \<and> length handles' = length handles)"

datatype 'err service_error =
    SE_Transport 'err | SE_State registry_error | SE_ControlPeerClosed | SE_InvalidWaitEvent

record 'io service =
  sv_control :: u64
  sv_state :: "registry option"
  sv_io :: 'io

type_synonym ('io, 'err, 'a) sop = "('io service, 'err service_error, 'a) action"

definition service_new :: "u64 \<Rightarrow> 'io \<Rightarrow> 'io service" where
  "service_new control io = \<lparr>sv_control = control, sv_state = None, sv_io = io\<rparr>"

text \<open>A call of the transport with its result as a value, with \<^verbatim>\<open>.is_ok()\<close>, and with
  \<^verbatim>\<open>.map_err(ServiceError::Transport)?\<close>.\<close>

definition io_call :: "('io \<Rightarrow> ('err + 'a) \<times> 'io) \<Rightarrow> ('io, 'err, 'err + 'a) sop" where
  "io_call f sv = (case f (sv_io sv) of (r, io) \<Rightarrow> (Ok r, sv\<lparr>sv_io := io\<rparr>))"

definition io_ok :: "('io \<Rightarrow> ('err + 'a) \<times> 'io) \<Rightarrow> ('io, 'err, bool) sop" where
  "io_ok f = abind (io_call f) (\<lambda>r. aret (case r of Inl _ \<Rightarrow> False | Inr _ \<Rightarrow> True))"

definition io_try :: "('io \<Rightarrow> ('err + 'a) \<times> 'io) \<Rightarrow> ('io, 'err, 'a) sop" where
  "io_try f = abind (io_call f) (\<lambda>r. case r of Inl e \<Rightarrow> afail (SE_Transport e) | Inr a \<Rightarrow> aret a)"

text \<open>An operation on \<^verbatim>\<open>self.state.as_mut().unwrap()\<close>, with its result as a value.\<close>

definition state_call :: "'a rop \<Rightarrow> ('io, 'err, registry_error + 'a) sop" where
  "state_call op sv =
     (case sv_state sv of
        None \<Rightarrow> (Panic, sv)
      | Some s \<Rightarrow>
          (case op s of
             (Ok a, s') \<Rightarrow> (Ok (Inr a), sv\<lparr>sv_state := Some s'\<rparr>)
           | (Err e, s') \<Rightarrow> (Ok (Inl e), sv\<lparr>sv_state := Some s'\<rparr>)
           | (Panic, s') \<Rightarrow> (Panic, sv\<lparr>sv_state := Some s'\<rparr>)))"

text \<open>A message written into a zeroed array of \<open>n\<close> bytes, \<^verbatim>\<open>.unwrap()\<close>, and the slice \<^verbatim>\<open>&bytes[..size]\<close>.\<close>

definition encoded :: "nat \<Rightarrow> (byte list, proto_error, nat) action \<Rightarrow> ('io, 'err, byte list) sop" where
  "encoded n enc =
     (case enc (replicate n 0) of
        (Ok len, buf) \<Rightarrow> alift (region_r 0 len buf)
      | (Err _, _) \<Rightarrow> alift Panic
      | (Panic, _) \<Rightarrow> alift Panic)"

subsection \<open>Sending\<close>

definition send_empty_raw :: "('io, 'err) transport \<Rightarrow> u64 \<Rightarrow> header \<Rightarrow> message_type \<Rightarrow> ('io, 'err, bool) sop" where
  "send_empty_raw tr handle hdr kind =
     abind (encoded HEADER_BYTES (encode_empty (hdr\<lparr>h_message_type := kind\<rparr>))) (\<lambda>bytes.
     io_ok (tr_send tr handle bytes))"

definition send_generation :: "('io, 'err) transport \<Rightarrow> u64 \<Rightarrow> header \<Rightarrow> u64 \<Rightarrow> ('io, 'err, bool) sop" where
  "send_generation tr handle hdr generation =
     abind (encoded 72 (encode_generation_changed (hdr\<lparr>h_message_type := T_GenerationChanged\<rparr>) generation)) (\<lambda>bytes.
     io_ok (tr_send tr handle bytes))"

fun close_handles :: "('io, 'err) transport \<Rightarrow> received_handle list \<Rightarrow> ('io, 'err, unit) sop" where
  "close_handles tr [] = aret ()"
| "close_handles tr (h # hs) =
     abind (if rh_handle h \<noteq> 0 then io_try (tr_close tr (rh_handle h)) else aret ()) (\<lambda>_. close_handles tr hs)"

definition close_received :: "('io, 'err) transport \<Rightarrow> received_handle list \<Rightarrow> nat \<Rightarrow> ('io, 'err, unit) sop" where
  "close_received tr handles count = close_handles tr (take count handles)"

fun error_code_of :: "registry_error \<Rightarrow> error_code" where
  "error_code_of R_TransactionLive = C_TransactionLive"
| "error_code_of R_TransactionReplay = C_TransactionReplay"
| "error_code_of R_OutstandingLimit = C_OutstandingLimit"
| "error_code_of R_Capacity = C_Capacity"
| "error_code_of R_NotPublished = C_NotPublished"
| "error_code_of R_UnsupportedVersion = C_UnsupportedVersion"
| "error_code_of R_EnumerationDenied = C_EnumerationDenied"
| "error_code_of R_UnknownTransaction = C_UnknownTransaction"
| "error_code_of R_UnknownEndpoint = C_UnknownTransaction"
| "error_code_of R_WrongEndpointKind = C_WrongEndpointKind"
| "error_code_of _ = C_InvalidState"

definition request_type_allowed :: "endpoint_kind \<Rightarrow> message_type option \<Rightarrow> bool" where
  "request_type_allowed kind message \<longleftrightarrow>
     (case kind of
        K_Publication \<Rightarrow> message \<in> {Some T_Publish, Some T_Retire}
      | K_Client \<Rightarrow> message \<in> {Some T_LookupConnect, Some T_Enumerate, Some T_Watch, Some T_Cancel})"

definition metadata_record :: "service_metadata \<Rightarrow> service_list_record" where
  "metadata_record m = \<lparr>sr_protocol_id = sm_protocol_id m, sr_service_generation = sm_service_generation m,
     sr_versions = sm_versions m, sr_version_count = sm_version_count m, sr_service_name = metadata_name m\<rparr>"

subsection \<open>Retiring endpoints\<close>

text \<open>\<^verbatim>\<open>send_notifications\<close> and \<^verbatim>\<open>retire_peer\<close> call each other: a client that cannot be notified is
  removed. The first argument bounds the nesting, and running out of it is a panic; every nested call
  has removed one of the at most 64 installed endpoints, so one level more than \<^verbatim>\<open>MAX_ENDPOINTS\<close> is enough.
  \<^verbatim>\<open>remove\<close> is \<^verbatim>\<open>retire_peer\<close> when there is a state.\<close>

function send_notifications ::
    "nat \<Rightarrow> ('io, 'err) transport \<Rightarrow> watch_notifications \<Rightarrow> nat list \<Rightarrow> ('io, 'err, unit) sop"
  and retire_nested :: "nat \<Rightarrow> ('io, 'err) transport \<Rightarrow> installed_endpoint_r \<Rightarrow> ('io, 'err, unit) sop"
where
  "send_notifications d tr values [] = aret ()"
| "send_notifications d tr values (index # rest) =
     abind (alift (unwrap (notifications_get values index))) (\<lambda>n.
     abind (aread (\<lambda>sv. rbind (unwrap (sv_state sv)) (\<lambda>s. Ok (rg_generation s)))) (\<lambda>generation.
     let hdr = \<lparr>h_message_type = T_GenerationChanged, h_registry_generation = generation,
                h_endpoint_id = ep_id (nt_client n), h_endpoint_generation = ep_generation (nt_client n),
                h_transaction_id = nt_transaction_id n\<rparr> in
     abind (send_generation tr (nt_client_handle n) hdr (nt_service_generation n)) (\<lambda>sent.
     abind (if sent then aret ()
            else abind (aget sv_state) (\<lambda>state.
              if state \<noteq> None
              then retire_nested d tr \<lparr>ie_identity = nt_client n, ie_handle = nt_client_handle n, ie_kind = K_Client\<rparr>
              else aret ())) (\<lambda>_.
     send_notifications d tr values rest))))"
| "retire_nested 0 tr endpoint = alift Panic"
| "retire_nested (Suc d) tr endpoint =
     abind (aget sv_state) (\<lambda>state.
     case state of
       None \<Rightarrow> afail (SE_State R_InvalidState)
     | Some _ \<Rightarrow>
         abind (state_call (peer_closed (ie_identity endpoint))) (\<lambda>r.
         case r of
           Inl e \<Rightarrow> afail (SE_State e)
         | Inr outcome \<Rightarrow>
             abind (io_try (tr_close tr (pc_handle outcome))) (\<lambda>_.
             send_notifications d tr (pc_notifications outcome) [0..<wn_len (pc_notifications outcome)])))"
  by pat_completeness auto
termination
  by (relation "measures [\<lambda>x. case x of Inl (d, _, _, _) \<Rightarrow> d | Inr (d, _, _) \<Rightarrow> d,
      \<lambda>x. case x of Inl (_, _, _, l) \<Rightarrow> Suc (length l) | Inr _ \<Rightarrow> 0]") auto

definition send_all :: "('io, 'err) transport \<Rightarrow> watch_notifications \<Rightarrow> ('io, 'err, unit) sop" where
  "send_all tr values = send_notifications (Suc MAX_ENDPOINTS) tr values [0..<wn_len values]"

definition retire_peer :: "('io, 'err) transport \<Rightarrow> installed_endpoint_r \<Rightarrow> ('io, 'err, unit) sop" where
  "retire_peer tr endpoint = retire_nested (Suc MAX_ENDPOINTS) tr endpoint"

definition remove_endpoint :: "('io, 'err) transport \<Rightarrow> installed_endpoint_r \<Rightarrow> ('io, 'err, unit) sop" where
  "remove_endpoint tr endpoint =
     abind (aget sv_state) (\<lambda>state. if state \<noteq> None then retire_peer tr endpoint else aret ())"

subsection \<open>Replies\<close>

definition send_error :: "('io, 'err) transport \<Rightarrow> installed_endpoint_r \<Rightarrow> header \<Rightarrow> error_code \<Rightarrow> ('io, 'err, unit) sop" where
  "send_error tr endpoint hdr code =
     abind (encoded 72 (encode_error (hdr\<lparr>h_message_type := T_Error\<rparr>) code)) (\<lambda>bytes.
     abind (io_ok (tr_send tr (ie_handle endpoint) bytes)) (\<lambda>sent.
     if sent then aret () else remove_endpoint tr endpoint))"

definition state_error :: "('io, 'err) transport \<Rightarrow> installed_endpoint_r \<Rightarrow> header \<Rightarrow> registry_error \<Rightarrow> ('io, 'err, unit) sop" where
  "state_error tr endpoint hdr e = send_error tr endpoint hdr (error_code_of e)"

definition complete_error :: "('io, 'err) transport \<Rightarrow> installed_endpoint_r \<Rightarrow> header \<Rightarrow> error_code \<Rightarrow> ('io, 'err, unit) sop" where
  "complete_error tr endpoint hdr code =
     abind (state_call (complete_transaction (ie_identity endpoint) (ie_kind endpoint) (h_transaction_id hdr))) (\<lambda>r.
     case r of
       Inr _ \<Rightarrow> send_error tr endpoint hdr code
     | Inl e \<Rightarrow> state_error tr endpoint hdr e)"

definition send_empty :: "('io, 'err) transport \<Rightarrow> installed_endpoint_r \<Rightarrow> header \<Rightarrow> message_type \<Rightarrow> ('io, 'err, bool) sop" where
  "send_empty tr endpoint hdr kind =
     abind (send_empty_raw tr (ie_handle endpoint) hdr kind) (\<lambda>sent.
     if sent then aret True else abind (remove_endpoint tr endpoint) (\<lambda>_. aret False))"

subsection \<open>Requests of endpoints\<close>

definition connect ::
  "('io, 'err) transport \<Rightarrow> installed_endpoint_r \<Rightarrow> header \<Rightarrow> lookup_request \<Rightarrow> received_handle \<Rightarrow> ('io, 'err, unit) sop" where
  "connect tr endpoint hdr request service_endpoint =
     abind (io_ok (tr_validate_channel tr service_endpoint Rights_Broad)) (\<lambda>valid.
     if \<not> valid then
       abind (if rh_handle service_endpoint \<noteq> 0 then io_try (tr_close tr (rh_handle service_endpoint)) else aret ()) (\<lambda>_.
       complete_error tr endpoint hdr C_MalformedRequest)
     else
       abind (state_call (lookup (ie_identity endpoint) (h_transaction_id hdr) request)) (\<lambda>r.
       case r of
         Inl e \<Rightarrow>
           abind (io_try (tr_close tr (rh_handle service_endpoint))) (\<lambda>_. state_error tr endpoint hdr e)
       | Inr offer \<Rightarrow>
           abind (encoded MAX_MESSAGE_BYTES (encode_lookup
             (hdr\<lparr>h_message_type := T_ConnectOffer, h_endpoint_id := ep_id (fo_publication offer),
                  h_endpoint_generation := ep_generation (fo_publication offer)\<rparr>) request)) (\<lambda>bytes.
           abind (io_ok (tr_send_move tr (fo_publication_handle offer) bytes (rh_handle service_endpoint)
             Rights_Child)) (\<lambda>sent.
           if \<not> sent then
             abind (io_try (tr_close tr (rh_handle service_endpoint))) (\<lambda>_.
             send_error tr endpoint hdr C_ForwardFailed)
           else abind (send_empty tr endpoint hdr T_Connected) (\<lambda>_. aret ())))))"

text \<open>\<^verbatim>\<open>enumeration_record(ticket, index).ok().flatten()\<close>.\<close>

definition page_entry :: "enumeration_ticket \<Rightarrow> nat \<Rightarrow> ('io, 'err, service_metadata option) sop" where
  "page_entry ticket index =
     aread (\<lambda>sv.
       rbind (unwrap (sv_state sv)) (\<lambda>s.
       case enumeration_record ticket index s of
         Ok m \<Rightarrow> Ok m | Err _ \<Rightarrow> Ok None | Panic \<Rightarrow> Panic))"

definition send_page ::
  "bool \<Rightarrow> ('io, 'err) transport \<Rightarrow> installed_endpoint_r \<Rightarrow> header \<Rightarrow> enumeration_ticket \<Rightarrow> nat \<Rightarrow> ('io, 'err, bool) sop" where
  "send_page oc tr endpoint hdr ticket page =
     (let start = page * 2; reply = hdr\<lparr>h_message_type := T_ServiceList\<rparr> in
      abind (page_entry ticket start) (\<lambda>first.
      abind (page_entry ticket (start + 1)) (\<lambda>second.
      abind (case (first, second) of
          (None, None) \<Rightarrow> aret []
        | (Some a, None) \<Rightarrow> aret [metadata_record a]
        | (Some a, Some b) \<Rightarrow> aret [metadata_record a, metadata_record b]
        | (None, Some _) \<Rightarrow> alift Panic) (\<lambda>records.
      abind (encoded MAX_MESSAGE_BYTES (encode_service_list oc reply (word_of_nat page)
        (et_page_count ticket) (et_total_count ticket) records)) (\<lambda>bytes.
      io_ok (tr_send tr (ie_handle endpoint) bytes)))))) "

text \<open>\<^verbatim>\<open>for page in 0..ticket.page_count\<close>; the value says whether every page was sent.\<close>

fun send_pages ::
  "bool \<Rightarrow> ('io, 'err) transport \<Rightarrow> installed_endpoint_r \<Rightarrow> header \<Rightarrow> enumeration_ticket \<Rightarrow> nat list \<Rightarrow> ('io, 'err, bool) sop" where
  "send_pages oc tr endpoint hdr ticket [] = aret True"
| "send_pages oc tr endpoint hdr ticket (page # rest) =
     abind (send_page oc tr endpoint hdr ticket page) (\<lambda>sent.
     if \<not> sent then abind (remove_endpoint tr endpoint) (\<lambda>_. aret False)
     else send_pages oc tr endpoint hdr ticket rest)"

definition enumerate_services ::
  "bool \<Rightarrow> ('io, 'err) transport \<Rightarrow> installed_endpoint_r \<Rightarrow> header \<Rightarrow> ('io, 'err, unit) sop" where
  "enumerate_services oc tr endpoint hdr =
     abind (state_call (enumerate_begin (ie_identity endpoint) (h_transaction_id hdr))) (\<lambda>r.
     case r of
       Inl e \<Rightarrow> state_error tr endpoint hdr e
     | Inr ticket \<Rightarrow>
         abind (send_pages oc tr endpoint hdr ticket [0..<unat (et_page_count ticket)]) (\<lambda>sent.
         if \<not> sent then aret ()
         else
           abind (state_call (enumeration_complete ticket)) (\<lambda>r.
           case r of Inl _ \<Rightarrow> alift Panic | Inr _ \<Rightarrow> aret ())))"

definition dispatch_publish :: "('io, 'err) transport \<Rightarrow> installed_endpoint_r \<Rightarrow> header \<Rightarrow> ('io, 'err, unit) sop" where
  "dispatch_publish tr endpoint hdr =
     abind (state_call (prepare_publish (ie_identity endpoint) (h_transaction_id hdr))) (\<lambda>r.
     case r of
       Inl e \<Rightarrow> state_error tr endpoint hdr e
     | Inr ticket \<Rightarrow>
         abind (send_empty_raw tr (ie_handle endpoint) hdr T_Published) (\<lambda>sent.
         if \<not> sent then remove_endpoint tr endpoint
         else
           abind (state_call (commit_publish ticket)) (\<lambda>r.
           case r of
             Inl _ \<Rightarrow> alift Panic
           | Inr outcome \<Rightarrow> send_all tr (po_notifications outcome))))"

definition dispatch_retire :: "('io, 'err) transport \<Rightarrow> installed_endpoint_r \<Rightarrow> header \<Rightarrow> ('io, 'err, unit) sop" where
  "dispatch_retire tr endpoint hdr =
     abind (state_call (retire (ie_identity endpoint) (h_transaction_id hdr))) (\<lambda>r.
     case r of
       Inl e \<Rightarrow> state_error tr endpoint hdr e
     | Inr outcome \<Rightarrow>
         abind (send_empty_raw tr (ro_registry_handle outcome) hdr T_Retired) (\<lambda>_.
         abind (io_try (tr_close tr (ro_registry_handle outcome))) (\<lambda>_.
         send_all tr (ro_notifications outcome))))"

definition dispatch_watch ::
  "('io, 'err) transport \<Rightarrow> installed_endpoint_r \<Rightarrow> header \<Rightarrow> watch_request \<Rightarrow> ('io, 'err, unit) sop" where
  "dispatch_watch tr endpoint hdr request =
     abind (state_call (watch (ie_identity endpoint) (h_transaction_id hdr) request)) (\<lambda>r.
     case r of
       Inl e \<Rightarrow> state_error tr endpoint hdr e
     | Inr disposition \<Rightarrow>
         (case disposition of
            Pending \<Rightarrow> aret ()
          | Immediate service_generation \<Rightarrow>
              abind (send_generation tr (ie_handle endpoint) hdr service_generation) (\<lambda>sent.
              if sent then aret () else remove_endpoint tr endpoint)))"

definition dispatch_cancel ::
  "('io, 'err) transport \<Rightarrow> installed_endpoint_r \<Rightarrow> header \<Rightarrow> u64 \<Rightarrow> ('io, 'err, unit) sop" where
  "dispatch_cancel tr endpoint hdr target =
     abind (state_call (cancel (ie_identity endpoint) (h_transaction_id hdr) target)) (\<lambda>r.
     case r of
       Inl e \<Rightarrow> state_error tr endpoint hdr e
     | Inr _ \<Rightarrow>
         abind (encoded 72 (encode_cancel (hdr\<lparr>h_message_type := T_Cancelled\<rparr>) target)) (\<lambda>bytes.
         abind (io_ok (tr_send tr (ie_handle endpoint) bytes)) (\<lambda>sent.
         if sent then aret () else remove_endpoint tr endpoint)))"

definition dispatch ::
  "bool \<Rightarrow> ('io, 'err) transport \<Rightarrow> installed_endpoint_r \<Rightarrow> header \<Rightarrow> message \<Rightarrow> received_handle list \<Rightarrow> ('io, 'err, unit) sop" where
  "dispatch oc tr endpoint hdr message handles =
     (case (ie_kind endpoint, message) of
        (K_Publication, M_Publish) \<Rightarrow> dispatch_publish tr endpoint hdr
      | (K_Publication, M_Retire) \<Rightarrow> dispatch_retire tr endpoint hdr
      | (K_Client, M_LookupConnect request) \<Rightarrow>
          abind (alift (index_r handles 0)) (\<lambda>h. connect tr endpoint hdr request h)
      | (K_Client, M_Enumerate) \<Rightarrow> enumerate_services oc tr endpoint hdr
      | (K_Client, M_Watch request) \<Rightarrow> dispatch_watch tr endpoint hdr request
      | (K_Client, M_Cancel target) \<Rightarrow> dispatch_cancel tr endpoint hdr target
      | _ \<Rightarrow>
          abind (alift (index_r handles 0)) (\<lambda>h.
          abind (close_received tr handles (if rh_handle h \<noteq> 0 then 1 else 0)) (\<lambda>_.
          complete_error tr endpoint hdr C_WrongEndpointKind)))"

subsection \<open>Receiving\<close>

text \<open>A receive into a zeroed byte array and an array of default handles.\<close>

definition receive_message ::
  "('io, 'err) transport \<Rightarrow> u64 \<Rightarrow> ('io, 'err, ('err + receive_counts) \<times> byte list \<times> received_handle list) sop" where
  "receive_message tr channel sv =
     (case tr_receive tr channel (replicate MAX_MESSAGE_BYTES 0) (replicate MAX_RECEIVED_HANDLES received_default)
         (sv_io sv) of
        (r, bytes, handles, io) \<Rightarrow> (Ok (r, bytes, handles), sv\<lparr>sv_io := io\<rparr>))"

text \<open>The loop over \<^verbatim>\<open>state.installed_endpoint(count)\<close> that fills the array of endpoints.\<close>

function collect_endpoints ::
  "registry \<Rightarrow> installed_endpoint_r list \<Rightarrow> nat \<Rightarrow> ('e, installed_endpoint_r list \<times> nat) res" where
  "collect_endpoints s endpoints count =
     (case installed_endpoint s count of
        None \<Rightarrow> Ok (endpoints, count)
      | Some endpoint \<Rightarrow>
          if count < length endpoints then collect_endpoints s (endpoints[count := endpoint]) (Suc count)
          else Panic)"
  by pat_completeness auto
termination
  by (relation "measure (\<lambda>(s, _, count). length (installed_endpoints s) - count)")
    (auto simp: installed_endpoint_def get_index_def split: if_splits)

declare collect_endpoints.simps [simp del]

definition placeholder :: installed_endpoint_r where
  "placeholder = \<lparr>ie_identity = \<lparr>ep_id = 1, ep_generation = 1\<rparr>, ie_handle = 1, ie_kind = K_Client\<rparr>"

definition snapshot :: "('io, 'err, installed_endpoint_r list \<times> nat) sop" where
  "snapshot =
     abind (aget sv_state) (\<lambda>state.
     case state of
       None \<Rightarrow> aret (replicate MAX_ENDPOINTS placeholder, 0)
     | Some s \<Rightarrow> alift (collect_endpoints s (replicate MAX_ENDPOINTS placeholder) 0))"

text \<open>The two loops of \<^verbatim>\<open>sweep_closed_endpoints\<close>: probe every endpoint of the snapshot, then retire the
  closed ones.\<close>

fun probe_endpoints :: "('io, 'err) transport \<Rightarrow> installed_endpoint_r list \<Rightarrow> ('io, 'err, bool list) sop" where
  "probe_endpoints tr [] = aret []"
| "probe_endpoints tr (e # es) =
     abind (io_try (tr_probe tr e)) (\<lambda>signals.
     abind (probe_endpoints tr es) (\<lambda>closed. aret (ps_peer_closed signals # closed)))"

fun retire_closed :: "('io, 'err) transport \<Rightarrow> (installed_endpoint_r \<times> bool) list \<Rightarrow> ('io, 'err, unit) sop" where
  "retire_closed tr [] = aret ()"
| "retire_closed tr ((e, closed) # rest) =
     abind (if closed then retire_peer tr e else aret ()) (\<lambda>_. retire_closed tr rest)"

definition sweep_closed_endpoints :: "('io, 'err) transport \<Rightarrow> ('io, 'err, unit) sop" where
  "sweep_closed_endpoints tr =
     abind snapshot (\<lambda>(endpoints, count).
     abind (probe_endpoints tr (take count endpoints)) (\<lambda>closed.
     retire_closed tr (zip (take count endpoints) closed)))"

text \<open>The message is an installation with one valid channel.\<close>

definition install_request ::
  "('io, 'err) transport \<Rightarrow> message \<Rightarrow> receive_counts \<Rightarrow> received_handle list \<Rightarrow> ('io, 'err, bool) sop" where
  "install_request tr message counts handles =
     (if (case message of M_InstallPublication _ \<Rightarrow> False | M_InstallClient _ \<Rightarrow> False | _ \<Rightarrow> True) \<or>
         rc_handles counts \<noteq> 1
      then aret False
      else abind (alift (index_r handles 0)) (\<lambda>h. io_ok (tr_validate_channel tr h Rights_Child)))"

text \<open>The sweep before a client is installed; when it fails the received handle is closed.\<close>

definition sweep_before :: "('io, 'err) transport \<Rightarrow> message \<Rightarrow> received_handle \<Rightarrow> ('io, 'err, unit) sop" where
  "sweep_before tr message h sv =
     (if (case message of M_InstallClient _ \<Rightarrow> True | _ \<Rightarrow> False) then
        (case sweep_closed_endpoints tr sv of
           (Err e, sv') \<Rightarrow> abind (io_try (tr_close tr (rh_handle h))) (\<lambda>_. afail e) sv'
         | other \<Rightarrow> other)
      else (Ok (), sv))"

text \<open>The installation proper; a refused handle is closed.\<close>

definition install :: "('io, 'err) transport \<Rightarrow> parsed_message \<Rightarrow> received_handle \<Rightarrow> ('io, 'err, unit) sop" where
  "install tr request h =
     abind (aget sv_state) (\<lambda>state.
     if state = None then io_try (tr_close tr (rh_handle h))
     else
       abind (case pm_message request of
           M_InstallPublication v \<Rightarrow>
             state_call (install_publication (h_registry_generation (pm_header request)) (rh_handle h) v)
         | M_InstallClient v \<Rightarrow>
             state_call (install_client (h_registry_generation (pm_header request)) (rh_handle h) v)
         | _ \<Rightarrow> alift Panic) (\<lambda>r.
       case r of
         Inl _ \<Rightarrow> io_try (tr_close tr (rh_handle h))
       | Inr _ \<Rightarrow> aret ()))"

text \<open>The first installation creates the state.\<close>

definition ensure_state :: "u64 \<Rightarrow> 'io service \<Rightarrow> 'io service" where
  "ensure_state generation sv =
     (if sv_state sv = None
      then sv\<lparr>sv_state := (case registry_new generation of Ok s \<Rightarrow> Some s | _ \<Rightarrow> None)\<rparr> else sv)"

text \<open>The rest of \<^verbatim>\<open>receive_control\<close>, from the parse of the datagram on.\<close>

definition control_request ::
  "bool \<Rightarrow> ('io, 'err) transport \<Rightarrow> byte list \<Rightarrow> receive_counts \<Rightarrow> received_handle list \<Rightarrow> ('io, 'err, unit) sop" where
  "control_request oc tr datagram counts handles =
     (case parse oc datagram (rc_handles counts) of
        Panic \<Rightarrow> alift Panic
      | Err _ \<Rightarrow> close_received tr handles (rc_handles counts)
      | Ok request \<Rightarrow>
          abind (install_request tr (pm_message request) counts handles) (\<lambda>valid.
          if \<not> valid then close_received tr handles (rc_handles counts)
          else
            abind (alift (index_r handles 0)) (\<lambda>h.
            abind (amod (ensure_state (h_registry_generation (pm_header request)))) (\<lambda>_.
            abind (sweep_before tr (pm_message request) h) (\<lambda>_.
            install tr request h)))))"

definition receive_control :: "bool \<Rightarrow> ('io, 'err) transport \<Rightarrow> ('io, 'err, unit) sop" where
  "receive_control oc tr =
     abind (aget sv_control) (\<lambda>control.
     abind (receive_message tr control) (\<lambda>(received, bytes, handles).
     case received of
       Inl e \<Rightarrow> afail (SE_Transport e)
     | Inr counts \<Rightarrow>
         if length bytes < rc_bytes counts \<or> length handles < rc_handles counts
         then close_received tr handles (min (rc_handles counts) (length handles))
         else
           abind (alift (region_r 0 (rc_bytes counts) bytes)) (\<lambda>datagram.
           control_request oc tr datagram counts handles)))"

text \<open>The checks of a decoded header against the endpoint it came from, in their order.\<close>

definition header_refused :: "installed_endpoint_r \<Rightarrow> u64 \<Rightarrow> decoded_header \<Rightarrow> error_code option" where
  "header_refused endpoint generation decoded =
     (if dh_major decoded \<noteq> 1 \<or> dh_minor decoded \<noteq> 0 then Some C_UnsupportedVersion
      else if dh_message_type decoded = None then Some C_MalformedRequest
      else if \<not> request_type_allowed (ie_kind endpoint) (dh_message_type decoded) then Some C_WrongEndpointKind
      else if dh_registry_generation decoded \<noteq> generation \<or> dh_endpoint_id decoded \<noteq> ep_id (ie_identity endpoint) \<or>
              dh_endpoint_generation decoded \<noteq> ep_generation (ie_identity endpoint)
      then Some C_CorrelationMismatch
      else None)"

text \<open>The rest of \<^verbatim>\<open>receive_endpoint\<close>, from the decoding of the header on.\<close>

definition endpoint_request ::
  "bool \<Rightarrow> ('io, 'err) transport \<Rightarrow> installed_endpoint_r \<Rightarrow> byte list \<Rightarrow> receive_counts \<Rightarrow> received_handle list \<Rightarrow>
     ('io, 'err, unit) sop" where
  "endpoint_request oc tr endpoint datagram counts handles =
     (case decode_header datagram of
        Panic \<Rightarrow> alift Panic
      | Err _ \<Rightarrow> close_received tr handles (rc_handles counts)
      | Ok decoded \<Rightarrow>
          abind (aread (\<lambda>sv. rbind (unwrap (sv_state sv)) (\<lambda>s. Ok (rg_generation s)))) (\<lambda>generation.
          let canonical = \<lparr>h_message_type = (case dh_message_type decoded of None \<Rightarrow> T_Error | Some t \<Rightarrow> t),
              h_registry_generation = generation, h_endpoint_id = ep_id (ie_identity endpoint),
              h_endpoint_generation = ep_generation (ie_identity endpoint),
              h_transaction_id = dh_transaction_id decoded\<rparr>;
            refuse = (\<lambda>code. abind (close_received tr handles (rc_handles counts)) (\<lambda>_.
              complete_error tr endpoint canonical code)) in
          case header_refused endpoint generation decoded of
            Some code \<Rightarrow> refuse code
          | None \<Rightarrow>
              (case parse oc datagram (rc_handles counts) of
                 Panic \<Rightarrow> alift Panic
               | Err _ \<Rightarrow> refuse C_MalformedRequest
               | Ok request \<Rightarrow> dispatch oc tr endpoint (pm_header request) (pm_message request) handles)))"

definition receive_endpoint :: "bool \<Rightarrow> ('io, 'err) transport \<Rightarrow> installed_endpoint_r \<Rightarrow> ('io, 'err, unit) sop" where
  "receive_endpoint oc tr endpoint =
     abind (receive_message tr (ie_handle endpoint)) (\<lambda>(received, bytes, handles).
     case received of
       Inl _ \<Rightarrow> remove_endpoint tr endpoint
     | Inr counts \<Rightarrow>
         if length bytes < rc_bytes counts \<or> length handles < rc_handles counts
         then abind (close_received tr handles (min (rc_handles counts) (length handles))) (\<lambda>_.
           remove_endpoint tr endpoint)
         else
           abind (alift (region_r 0 (rc_bytes counts) bytes)) (\<lambda>datagram.
           endpoint_request oc tr endpoint datagram counts handles))"

definition service_step :: "bool \<Rightarrow> ('io, 'err) transport \<Rightarrow> ('io, 'err, unit) sop" where
  "service_step oc tr =
     abind snapshot (\<lambda>(endpoints, count).
     abind (aget sv_control) (\<lambda>control.
     abind (alift (region_r 0 count endpoints)) (\<lambda>installed.
     abind (io_try (tr_wait tr control installed)) (\<lambda>event.
     case we_endpoint_index event of
       Some index \<Rightarrow>
         abind (alift (ok_or SE_InvalidWaitEvent
           (Option.bind (get_index index endpoints) (\<lambda>e. if index < count then Some e else None)))) (\<lambda>endpoint.
         if we_readable event then receive_endpoint oc tr endpoint
         else if we_peer_closed event then retire_peer tr endpoint
         else afail SE_InvalidWaitEvent)
     | None \<Rightarrow>
         if we_readable event then receive_control oc tr
         else if we_peer_closed event then afail SE_ControlPeerClosed
         else afail SE_InvalidWaitEvent))))"

end
