(* ===== verification/RegistryServiceInv.thy ===== *)
theory RegistryServiceInv
  imports RegistryService RegistryReach
begin

text \<open>
  The invariant of the registry service: next to the invariant of the registry state, what the replies
  and notifications need so that their encoders accept them. Every installed endpoint has an identity
  other than zero and every publication a name, a protocol and a version list that can be sent.
\<close>

subsection \<open>What can be sent\<close>

definition slot_wire :: "service_slot \<Rightarrow> bool" where
  "slot_wire sl \<longleftrightarrow>
     (\<forall>p. sl_active sl = Some p \<longrightarrow>
        ep_id (pb_endpoint p) \<noteq> 0 \<and> ep_generation (pb_endpoint p) \<noteq> 0 \<and> pb_protocol_id p \<noteq> 0 \<and>
        validate_name (slot_name sl) = Ok () \<and>
        validate_versions (take (unat (pb_version_count p)) (pb_versions p)) = Ok ())"

definition client_wire :: "client \<Rightarrow> bool" where
  "client_wire c \<longleftrightarrow> ep_id (cl_endpoint c) \<noteq> 0 \<and> ep_generation (cl_endpoint c) \<noteq> 0"

definition wire_ok :: "registry \<Rightarrow> bool" where
  "wire_ok s \<longleftrightarrow>
     (\<forall>sl. Some sl \<in> set (rg_services s) \<longrightarrow> slot_wire sl) \<and>
     (\<forall>c. Some c \<in> set (rg_clients s) \<longrightarrow> client_wire c)"

text \<open>An action is safe for a predicate when it keeps it, however it ends.\<close>

definition safe :: "('s \<Rightarrow> bool) \<Rightarrow> ('s, 'e, 'a) action \<Rightarrow> bool" where
  "safe P m \<longleftrightarrow> (\<forall>s. P s \<longrightarrow> P (snd (m s)))"

named_theorems safe_intros \<open>actions that keep a predicate\<close>

lemma safe_basic [safe_intros]:
  "safe P (aret a)" "safe P (afail e)" "safe P (alift r)" "safe P (aread f)" "safe P (aget g)"
  by (simp_all add: safe_def aret_def afail_def alift_def aread_def aget_def)

lemma safe_abind [safe_intros]: "safe P m \<Longrightarrow> (\<And>a. safe P (k a)) \<Longrightarrow> safe P (abind m k)"
  unfolding safe_def abind_def by (fastforce split: prod.splits res.splits)

lemma safe_abind_alift: "(\<And>a. r = Ok a \<Longrightarrow> safe P (k a)) \<Longrightarrow> safe P (abind (alift r) k)"
  by (cases r) (auto simp: safe_def abind_def alift_def)

lemma safe_if [safe_intros]: "safe P x \<Longrightarrow> safe P y \<Longrightarrow> safe P (if b then x else y)"
  by simp

lemma safe_case [safe_intros]:
  "safe P x \<Longrightarrow> (\<And>a. safe P (y a)) \<Longrightarrow> safe P (case v of None \<Rightarrow> x | Some a \<Rightarrow> y a)"
  "(\<And>a. safe P (y a)) \<Longrightarrow> (\<And>e. safe P (z e)) \<Longrightarrow> safe P x \<Longrightarrow>
     safe P (case r of Ok a \<Rightarrow> y a | Err e \<Rightarrow> z e | Panic \<Rightarrow> x)"
  "safe P x \<Longrightarrow> safe P x' \<Longrightarrow> safe P (case k of K_Publication \<Rightarrow> x | K_Client \<Rightarrow> x')"
  by (simp_all split: option.splits res.splits endpoint_kind.splits)

lemma safe_amod [safe_intros]: "(\<And>s. P s \<Longrightarrow> P (g s)) \<Longrightarrow> safe P (amod g)"
  by (simp add: safe_def amod_def)

lemma wire_ok_client: "wire_ok s \<Longrightarrow> client_wire c \<Longrightarrow> wire_ok (s\<lparr>rg_clients := (rg_clients s)[i := Some c]\<rparr>)"
  using set_update_subset_insert [of "rg_clients s" i "Some c"] by (auto simp: wire_ok_def)

lemma wire_ok_slot: "wire_ok s \<Longrightarrow> slot_wire sl \<Longrightarrow> wire_ok (s\<lparr>rg_services := (rg_services s)[i := Some sl]\<rparr>)"
  using set_update_subset_insert [of "rg_services s" i "Some sl"] by (auto simp: wire_ok_def)

lemma wire_ok_watches [simp]: "wire_ok (s\<lparr>rg_watches := ws\<rparr>) = wire_ok s"
  by (simp add: wire_ok_def)

lemma safe_on_client [safe_intros]:
  assumes "\<And>c. cl_endpoint (snd (act c)) = cl_endpoint c"
  shows "safe wire_ok (on_client i act)"
  unfolding safe_def
proof (intro allI impI)
  fix s assume w: "wire_ok s"
  show "wire_ok (snd (on_client i act s))"
  proof (cases "rbind (index_r (rg_clients s) i) unwrap :: (registry_error, client) res")
    case (Ok c)
    then have "Some c \<in> set (rg_clients s)" by (auto simp: res_simps dest: nth_mem)
    then have "client_wire (snd (act c))" using w assms [of c] by (simp add: wire_ok_def client_wire_def)
    then show ?thesis using Ok w by (auto simp: on_client_def wire_ok_client split: prod.splits)
  qed (use w in \<open>simp_all add: on_client_def\<close>)
qed

lemma safe_on_slot [safe_intros]:
  assumes "\<And>sl. slot_wire sl \<Longrightarrow> slot_wire (snd (act sl))"
  shows "safe wire_ok (on_slot i act)"
  unfolding safe_def
proof (intro allI impI)
  fix s assume w: "wire_ok s"
  show "wire_ok (snd (on_slot i act s))"
  proof (cases "rbind (index_r (rg_services s) i) unwrap :: (registry_error, service_slot) res")
    case (Ok sl)
    then have "Some sl \<in> set (rg_services s)" by (auto simp: res_simps dest: nth_mem)
    then have "slot_wire (snd (act sl))" using w assms by (simp add: wire_ok_def)
    then show ?thesis using Ok w by (auto simp: on_slot_def wire_ok_slot split: prod.splits)
  qed (use w in \<open>simp_all add: on_slot_def\<close>)
qed

lemma client_actions_keep_endpoint:
  "cl_endpoint (snd (client_reserve t c)) = cl_endpoint c"
  "cl_endpoint (snd (client_complete t c)) = cl_endpoint c"
  "cl_endpoint (snd (aget f c)) = cl_endpoint c"
  by (auto simp: client_reserve_def client_complete_def aget_def Let_def split: res.splits option.splits)

definition same_wire :: "publication \<Rightarrow> publication \<Rightarrow> bool" where
  "same_wire p p' \<longleftrightarrow> pb_endpoint p' = pb_endpoint p \<and> pb_protocol_id p' = pb_protocol_id p \<and>
     pb_versions p' = pb_versions p \<and> pb_version_count p' = pb_version_count p"

lemma slot_wire_active:
  assumes "\<And>p. same_wire p (snd (act p))" and "slot_wire sl"
  shows "slot_wire (snd (on_active act sl))"
  using assms by (auto simp: on_active_def slot_wire_def same_wire_def split: option.splits prod.splits)
    (metis snd_conv)+

lemma publication_actions_same_wire:
  "same_wire p (snd (publication_reserve t p))" "same_wire p (snd (publication_complete t p))"
  "same_wire p (snd (aget f p))" "same_wire p (snd (amod (\<lambda>p. p\<lparr>pb_phase := ph\<rparr>) p))"
  by (simp_all add: same_wire_def publication_reserve_def publication_complete_def aget_def amod_def)

lemma slot_actions_wire:
  "slot_wire sl \<Longrightarrow> slot_wire (snd (take_active sl))" "slot_wire sl \<Longrightarrow> slot_wire (snd (aget f sl))"
  by (auto simp: take_active_def aget_def slot_wire_def split: option.splits)

lemmas wire_facts = client_actions_keep_endpoint slot_wire_active publication_actions_same_wire slot_actions_wire

lemma safe_notify_loop: "safe wire_ok (notify_loop proto name g is n)"
proof (induction "is" arbitrary: n)
  case (Cons i "is")
  show ?case unfolding notify_loop.simps
    by (intro safe_intros Cons; simp add: wire_facts)
qed (simp add: safe_intros)

lemma safe_notify [safe_intros]: "safe wire_ok (notify proto name g)"
  unfolding notify_def by (intro safe_intros safe_notify_loop)

lemma safe_requests:
  "safe wire_ok (prepare_publish ep t)" "safe wire_ok (commit_publish ticket)"
  "safe wire_ok (retire ep t)" "safe wire_ok (lookup ep t l)" "safe wire_ok (watch ep t w)"
  "safe wire_ok (cancel ep t target)" "safe wire_ok (enumerate_begin ep t)"
  "safe wire_ok (enumeration_complete et)" "safe wire_ok (complete_transaction ep k t)"
  unfolding prepare_publish_def commit_publish_def retire_def lookup_def watch_def cancel_def
    enumerate_begin_def enumeration_complete_def complete_transaction_def Let_def
  by (intro safe_intros; simp add: wire_facts)+

lemma safe_peer_closed: "safe wire_ok (peer_closed ep)"
proof -
  have "wire_ok (s\<lparr>rg_clients := (rg_clients s)[i := None], rg_watches := ws\<rparr>)" if "wire_ok s" for s i ws
    using that set_update_subset_insert [of "rg_clients s" i None] by (auto simp: wire_ok_def)
  then show ?thesis unfolding peer_closed_def by (intro safe_intros; simp add: wire_facts)
qed

subsection \<open>Installation\<close>

text \<open>The versions an installation stores are the validated ones.\<close>

lemma fill_versions_sorted:
  assumes "validate_version_loop vl previous is = Ok ()" and "fill_versions vl is = (Ok vs :: (registry_error, _) res)"
  shows "windows_increasing ((case previous of None \<Rightarrow> [] | Some v \<Rightarrow> [v]) @ vs)"
  using assms
proof (induction "is" arbitrary: previous vs)
  case Nil
  then show ?case by (auto split: option.splits)
next
  case (Cons i "is")
  obtain v where v: "vl_get vl i = Some v" using Cons.prems(1) by (auto simp: res_simps)
  obtain vs' where vs': "fill_versions vl is = (Ok vs' :: (registry_error, _) res)" "vs = v # vs'" using Cons.prems(2) v by (auto simp: res_simps)
  have "validate_version_loop vl (Some v) is = Ok ()" "\<And>u. previous = Some u \<Longrightarrow> u < v"
    using Cons.prems(1) v by (auto split: if_splits option.splits)
  with Cons.IH [of "Some v"] vs' show ?case by (auto split: option.splits)
qed

lemma store_versions_valid:
  assumes "validate_version_list vl = Ok ()" and "1 \<le> vl_len vl" and "vl_len vl \<le> 4"
    and "store_versions vl = (Ok vs :: (registry_error, _) res)"
  shows "validate_versions (take (unat (word_of_nat (vl_len vl) :: byte)) vs) = Ok ()"
proof -
  obtain fs where fs: "fill_versions vl [0..<vl_len vl] = (Ok fs :: (registry_error, _) res)"
      "vs = fs @ replicate (4 - length fs) default_version"
    using assms(3,4) by (auto simp: store_versions_def MAX_PROTOCOL_VERSIONS_def res_simps min_def)
  have len: "length fs = vl_len vl"
  proof -
    obtain gs where "fill_versions vl [0..<vl_len vl] = (Ok gs :: (registry_error, _) res)"
        "length gs = length [0..<vl_len vl]"
      using fill_versions_Ok [of "[0..<vl_len vl]" vl] assms(3) by auto
    then show ?thesis using fs(1) by simp
  qed
  have "windows_increasing fs"
    using fill_versions_sorted [OF assms(1)[unfolded validate_version_list_def] fs(1)] by simp
  moreover have "unat (word_of_nat (vl_len vl) :: byte) = length fs" using assms(3) len by (simp add: unat_of_nat)
  ultimately show ?thesis using fs(2) len assms(2,3) by (auto simp: validate_versions_def MAX_PROTOCOL_VERSIONS_def)
qed

lemma wire_ok_issued [simp]:
  "wire_ok (s\<lparr>rg_issued_endpoint_ids := a, rg_issued_endpoint_count := b\<rparr>) = wire_ok s"
  "wire_ok (s\<lparr>rg_issued_publication_ids := a, rg_issued_publication_count := b\<rparr>) = wire_ok s"
  "wire_ok (s\<lparr>rg_issued_client_ids := a, rg_issued_client_count := b\<rparr>) = wire_ok s"
  by (simp_all add: wire_ok_def)

lemma safe_record [safe_intros]:
  "safe wire_ok (record_endpoint_id x)" "safe wire_ok (record_publication_id x)" "safe wire_ok (record_client_id x)"
  by (simp_all add: safe_def record_endpoint_id_def record_publication_id_def record_client_id_def)

lemma safe_validate [safe_intros]:
  "safe wire_ok (validate_install g ep h)" "safe wire_ok (validate_fresh_endpoint_id i)"
  by (simp_all add: validate_install_def validate_fresh_endpoint_id_def safe_intros)

lemma safe_install_client:
  assumes "message_valid (M_InstallClient v)"
  shows "safe wire_ok (install_client g h v)"
  unfolding install_client_def Let_def
  by (intro safe_intros) (use assms in \<open>auto simp: wire_ok_client client_wire_def\<close>)

lemma safe_install_publication:
  assumes "message_valid (M_InstallPublication v)"
  shows "safe wire_ok (install_publication g h v)"
proof -
  have name: "length (ip_service_name v) \<le> 128" "validate_name (ip_service_name v) = Ok ()"
    using assms by (simp_all add: validate_name_Ok)
  show ?thesis
    unfolding install_publication_def Let_def
  proof (intro safe_abind_alift safe_intros, goal_cases)
    case (1 _ _ _ i n vs s)
    have "n = ip_service_name v @ replicate (128 - length (ip_service_name v)) 0"
      using 1(1) name(1) by (simp add: store_name_def MAX_SERVICE_NAME_BYTES_def)
    then have sn: "take (unat (word_of_nat (length (ip_service_name v)) :: byte)) n = ip_service_name v"
      using name(1) by (simp add: unat_length_byte)
    have "validate_versions (take (unat (word_of_nat (vl_len (ip_versions v)) :: byte)) vs) = Ok ()"
      using assms 1(2) by (intro store_versions_valid) simp_all
    then show ?case using assms 1(3) name(2) sn
      by (intro wire_ok_slot) (auto simp: slot_wire_def slot_name_def)
  qed
qed

subsection \<open>Notifications\<close>

text \<open>Every notification satisfies \<open>P\<close>, and \<^verbatim>\<open>get\<close> finds all of them.\<close>

definition notes_sat :: "(watch_notification \<Rightarrow> bool) \<Rightarrow> watch_notifications \<Rightarrow> bool" where
  "notes_sat P n \<longleftrightarrow> (\<forall>i < wn_len n. \<exists>v. notifications_get n i = Some v \<and> P v)"

lemma notes_sat_new [simp]: "notes_sat P notifications_new"
  by (simp add: notes_sat_def notifications_new_def)

lemma notes_sat_push:
  assumes "notes_sat P n" and "P v" and "notifications_push n v = Ok n'"
  shows "notes_sat P n'"
  using assms
  by (auto simp: notes_sat_def notifications_push_def notifications_get_def get_index_def nth_list_update
      less_Suc_eq split: if_splits)

definition watches_sat :: "(watch_notification \<Rightarrow> bool) \<Rightarrow> registry \<Rightarrow> bool" where
  "watches_sat P s \<longleftrightarrow> (\<forall>w g. Some w \<in> set (rg_watches s) \<longrightarrow> P (notification_for g w))"

lemma notify_loop_notes:
  assumes "notify_loop proto name g is n s = (Ok n', t)" and "notes_sat P n" and "watches_sat P s"
  shows "notes_sat P n'"
  using assms
proof (induction "is" arbitrary: n s)
  case Nil
  then show ?case by (simp add: res_simps)
next
  case (Cons i "is")
  obtain w where w: "i < length (rg_watches s)" "rg_watches s ! i = w" using Cons.prems(1) by (auto simp: res_simps)
  show ?case
  proof (cases "\<exists>v. w = Some v \<and> watch_matches proto name g v")
    case False
    then have "notify_loop proto name g is n s = (Ok n', t)"
      using Cons.prems(1) w by (auto simp: res_simps split: option.splits)
    then show ?thesis using Cons by blast
  next
    case True
    then obtain v where v: "w = Some v" "watch_matches proto name g v" by blast
    have Pv: "P (notification_for g v)" using Cons.prems(3) w v(1) by (metis nth_mem watches_sat_def)
    have drop: "watches_sat P (u\<lparr>rg_watches := (rg_watches u)[i := None]\<rparr>)" if "rg_watches u = rg_watches s" for u
      using that Cons.prems(3) set_update_subset_insert [of "rg_watches s" i None]
      by (auto simp: watches_sat_def)
    have keep: "rg_watches (snd (on_client k act s)) = rg_watches s" for k and act :: "(client, registry_error, unit) action"
      by (auto simp: on_client_def split: res.splits prod.splits)
    obtain n1 u where u: "notes_sat P n1" "rg_watches u = rg_watches s"
        "notify_loop proto name g is n1 (u\<lparr>rg_watches := (rg_watches u)[i := None]\<rparr>) = (Ok n', t)"
    proof (cases "client_index (pw_client v) s")
      case (Ok ci)
      then obtain n1 u where c: "on_client ci (client_complete (pw_transaction v)) s = (Ok (), u)"
          "notifications_push n (notification_for g v) = (Ok n1 :: (registry_error, _) res)"
          "notify_loop proto name g is n1 (u\<lparr>rg_watches := (rg_watches u)[i := None]\<rparr>) = (Ok n', t)"
        using Cons.prems(1) w v by (auto simp: res_simps notification_for_def)
      have "rg_watches u = rg_watches s" using keep [of ci "client_complete (pw_transaction v)"] c(1) by simp
      with c show ?thesis using notes_sat_push [OF Cons.prems(2) Pv] by (intro that [of n1 u]) simp_all
    next
      case (Err e)
      then show ?thesis using Cons.prems(1,2) w v by (intro that [of n s]) (auto simp: res_simps)
    qed simp
    then show ?thesis using Cons.IH [OF u(3) u(1)] drop by blast
  qed
qed

lemma notify_notes:
  "notify proto name g s = (Ok n, t) \<Longrightarrow> watches_sat P s \<Longrightarrow> notes_sat P n"
  unfolding notify_def by (auto simp: res_simps elim: notify_loop_notes [OF _ notes_sat_new])

lemma on_slot_watches: "preserves rg_watches (on_slot i act)"
  by (rule preserves_on_slot) simp

lemma on_slot_watches_sat:
  assumes "on_slot i act u = (r, u')" and "watches_sat P u"
  shows "watches_sat P u'"
proof -
  have "rg_watches u' = rg_watches u" using preserves_snd [OF on_slot_watches, of i act u] assms(1) by simp
  with assms(2) show ?thesis by (simp add: watches_sat_def)
qed

lemma commit_publish_notes:
  assumes "commit_publish ticket s = (Ok out, t)" and "watches_sat P s"
  shows "notes_sat P (po_notifications out)"
  using assms unfolding commit_publish_def Let_def
  by (auto simp: res_simps split: if_splits) (metis notify_notes on_slot_watches_sat)

lemma retire_notes:
  assumes "retire ep tx s = (Ok out, t)" and "watches_sat P s"
  shows "notes_sat P (ro_notifications out)"
  using assms unfolding retire_def by (auto simp: res_simps) (metis notify_notes on_slot_watches_sat)

lemma peer_closed_notes:
  assumes "peer_closed ep s = (Ok out, t)" and "watches_sat P s"
  shows "notes_sat P (pc_notifications out)"
  using assms unfolding peer_closed_def
  by (auto simp: res_simps split: res.splits) (metis notify_notes on_slot_watches_sat)

subsection \<open>Counting the installed endpoints\<close>

definition endpoint_count :: "registry \<Rightarrow> nat" where
  "endpoint_count s = length (List.map_filter sl_active (flatten (rg_services s))) + length (flatten (rg_clients s))"

lemma length_installed: "length (installed_endpoints s) = endpoint_count s"
proof -
  have "length (List.map_filter (\<lambda>sl. map_option f (sl_active sl)) xs) = length (List.map_filter sl_active xs)"
    for f :: "publication \<Rightarrow> installed_endpoint_r" and xs
    by (induction xs) (auto simp: map_filter_simps split: option.splits)
  then show ?thesis by (simp add: installed_endpoints_def endpoint_count_def)
qed

lemma endpoint_count_bound:
  assumes "shape_ok s"
  shows "endpoint_count s \<le> 64"
proof -
  have "length (List.map_filter f xs) \<le> length xs" for f :: "service_slot \<Rightarrow> publication option" and xs
    by (induction xs) (auto simp: map_filter_simps split: option.splits)
  from this [of sl_active "flatten (rg_services s)"] show ?thesis
    using assms length_flatten_le [of "rg_services s"] length_flatten_le [of "rg_clients s"]
    unfolding endpoint_count_def shape_ok_def by linarith
qed

text \<open>The loop of \<open>notify\<close> only replaces clients by clients.\<close>

definition occupied :: "'a option list \<Rightarrow> bool list" where
  "occupied xs = map (\<lambda>x. x \<noteq> None) xs"

lemma length_flatten_occupied: "length (flatten xs) = length (filter id (occupied xs))"
  by (induction xs) (auto simp: occupied_def flatten_def map_filter_simps split: option.splits)

lemma occupied_on_client: "occupied (rg_clients (snd (on_client i act s))) = occupied (rg_clients s)"
proof (cases "rbind (index_r (rg_clients s) i) unwrap :: (registry_error, client) res")
  case (Ok c)
  then have "i < length (rg_clients s)" "rg_clients s ! i = Some c" by (auto simp: res_simps)
  then have "occupied ((rg_clients s)[i := Some c']) = occupied (rg_clients s)" for c'
    by (simp add: occupied_def map_update list_update_same_conv)
  then show ?thesis using Ok by (auto simp: on_client_def split: prod.splits)
qed (simp_all add: on_client_def)

abbreviation endpoint_frame :: "registry \<Rightarrow> service_slot option list \<times> bool list" where
  "endpoint_frame s \<equiv> (rg_services s, occupied (rg_clients s))"

lemma frame_on_client: "preserves endpoint_frame (on_client i act)"
proof -
  have "preserves rg_services (on_client i act)" by (rule preserves_on_client) simp
  then show ?thesis by (simp add: preserves_def occupied_on_client)
qed

lemma frame_notify_loop: "preserves endpoint_frame (notify_loop proto name g is n)"
proof (induction "is" arbitrary: n)
  case (Cons i "is")
  show ?case unfolding notify_loop.simps
    by (intro preserves_abind preserves_if preserves_case preserves_basic frame_on_client Cons preserves_amod) simp
qed (simp add: preserves_intros)

lemma frame_notify: "preserves endpoint_frame (notify proto name g)"
  unfolding notify_def by (intro preserves_abind preserves_basic frame_notify_loop)

lemma endpoint_count_frame: "endpoint_frame t = endpoint_frame s \<Longrightarrow> endpoint_count t = endpoint_count s"
  by (simp add: endpoint_count_def length_flatten_occupied)

lemma map_filter_take:
  assumes "entry xs i sl" and "f sl = Some p" and "f sl' = None"
  shows "length (List.map_filter f (flatten (xs[i := Some sl']))) < length (List.map_filter f (flatten xs))"
proof -
  have i: "i < length xs" "xs ! i = Some sl" using assms(1) by (simp_all add: entry_def)
  show ?thesis
    using assms(2,3) unfolding flatten_update [OF i(1)] flatten_split [OF i(1)] i(2)
    by (simp add: map_filter_def)
qed

lemma flatten_drop:
  assumes "entry xs i x"
  shows "length (flatten (xs[i := None])) < length (flatten xs)"
proof -
  have i: "i < length xs" "xs ! i = Some x" using assms by (simp_all add: entry_def)
  show ?thesis unfolding flatten_update [OF i(1)] flatten_split [OF i(1)] i(2) by simp
qed

lemma peer_closed_count:
  assumes "peer_closed ep s = (Ok out, t)"
  shows "endpoint_count t < endpoint_count s"
proof (cases "publication_index ep s")
  case (Ok i)
  obtain sl p where e: "entry (rg_services s) i sl" "sl_active sl = Some p"
    using publication_index_Ok [OF Ok] by blast
  let ?s = "put_slot i (sl\<lparr>sl_active := None\<rparr>) s"
  have take: "on_slot i take_active s = (Ok p, ?s)"
    using e by (simp add: on_slot_def entry_def index_r_def take_active_def)
  have get: "on_slot i (aget slot_name) ?s = (Ok (slot_name sl), ?s)"
    using e by (simp add: on_slot_def entry_def index_r_def aget_def)
  have "\<exists>n. notify (pb_protocol_id p) (slot_name sl) 0 ?s = (Ok n, t)"
    using assms Ok take get by (auto simp: peer_closed_def res_simps)
  then have "endpoint_frame t = endpoint_frame ?s" using preserves_snd [OF frame_notify] by (metis snd_conv)
  then have "endpoint_count t = endpoint_count ?s" by (rule endpoint_count_frame)
  then show ?thesis using map_filter_take [OF e(1), of sl_active p "sl\<lparr>sl_active := None\<rparr>"] e(2)
    by (simp add: endpoint_count_def)
next
  case (Err e)
  then obtain i c where i: "client_index ep s = Ok i" "entry (rg_clients s) i c"
    and t: "t = s\<lparr>rg_clients := (rg_clients s)[i := None], rg_watches := drop_watches_of ep (rg_watches s)\<rparr>"
  proof -
    obtain i where i: "client_index ep s = Ok i" using assms Err by (auto simp: peer_closed_def res_simps)
    obtain c where c: "entry (rg_clients s) i c" using client_index_Ok [OF i] by blast
    have "on_client i (aget cl_handle) s = (Ok (cl_handle c), s)"
      using c by (simp add: on_client_def entry_def index_r_def aget_def) (metis list_update_id registry.surjective registry.update_convs(3))
    then show thesis using that [OF i c] assms Err i by (auto simp: peer_closed_def res_simps)
  qed
  show ?thesis using flatten_drop [OF i(2)] unfolding t by (simp add: endpoint_count_def)
qed simp

subsection \<open>Publishing never fails half way\<close>

definition never_err :: "('s, 'e, 'a) action \<Rightarrow> bool" where
  "never_err m \<longleftrightarrow> (\<forall>s e t. m s \<noteq> (Err e, t))"

lemma never_err_intros:
  "never_err (aret a)" "never_err (aget f)" "never_err (amod g)" "never_err (alift (notifications_push n v))"
  "never_err (alift Panic)" "never_err (aread (\<lambda>s. index_r (h s) i))" "never_err (aread (\<lambda>s. Ok (h' s)))"
  by (simp_all add: never_err_def action_eq_simps index_r_simps notifications_push_def)

lemma never_err_abind: "never_err m \<Longrightarrow> (\<And>a. never_err (k a)) \<Longrightarrow> never_err (abind m k)"
  by (simp add: never_err_def abind_eq_Err)

lemma never_err_if: "never_err x \<Longrightarrow> never_err y \<Longrightarrow> never_err (if b then x else y)"
  by simp

lemma never_err_case:
  "never_err x \<Longrightarrow> (\<And>a. never_err (y a)) \<Longrightarrow> never_err (case v of None \<Rightarrow> x | Some a \<Rightarrow> y a)"
  "(\<And>a. never_err (y a)) \<Longrightarrow> (\<And>e. never_err (z e)) \<Longrightarrow> never_err x \<Longrightarrow>
     never_err (case r of Ok a \<Rightarrow> y a | Err e \<Rightarrow> z e | Panic \<Rightarrow> x)"
  by (simp_all split: option.splits res.splits)

lemma never_err_complete: "never_err (on_client i (client_complete t))"
  by (auto simp: never_err_def on_client_def client_complete_def Let_def res_simps split: res.splits option.splits prod.splits if_splits)

lemma never_err_notify: "never_err (notify proto name g)"
proof -
  have "never_err (notify_loop proto name g is n)" for "is" n
  proof (induction "is" arbitrary: n)
    case (Cons i "is")
    show ?case unfolding notify_loop.simps
      by (intro never_err_abind never_err_if never_err_case never_err_intros never_err_complete Cons)
  qed (simp add: never_err_intros)
  then show ?thesis unfolding notify_def by (intro never_err_abind never_err_intros)
qed

text \<open>A ticket whose publication is still installed and holds the transaction of the ticket.\<close>

definition committable :: "publish_ticket \<Rightarrow> registry \<Rightarrow> bool" where
  "committable ticket s \<longleftrightarrow> (\<exists>i sl p. publication_index (pt_endpoint ticket) s = Ok i \<and> entry (rg_services s) i sl \<and>
     sl_active sl = Some p \<and> pb_live_transaction p = pt_transaction ticket \<and> pb_phase p = Installed)"

lemma on_slot_active_eq:
  assumes "entry (rg_services s) i sl" and "sl_active sl = Some p"
  shows "on_slot i (on_active act) s = (fst (act p), put_slot i (sl\<lparr>sl_active := Some (snd (act p))\<rparr>) s)"
  using assms by (simp add: on_slot_def entry_def index_r_def on_active_def split: prod.splits)

lemma on_slot_active_aget:
  assumes "entry (rg_services s) i sl" and "sl_active sl = Some p"
  shows "on_slot i (on_active (aget f)) s = (Ok (f p), s)"
proof -
  have "sl\<lparr>sl_active := Some p\<rparr> = sl" using assms(2) by simp
  moreover have "(rg_services s)[i := Some sl] = rg_services s" using assms(1) by (metis entry_def list_update_id)
  ultimately show ?thesis unfolding on_slot_active_eq [OF assms] by (simp add: aget_def)
qed

lemma never_err_slot:
  "never_err act \<Longrightarrow> never_err (on_slot i act)" "never_err act' \<Longrightarrow> never_err (on_active act')"
  "never_err (publication_complete t)"
  by (auto simp: never_err_def on_slot_def on_active_def publication_complete_def res_simps
      split: res.splits prod.splits option.splits)

lemma commit_publish_no_err:
  assumes "committable ticket s"
  shows "commit_publish ticket s \<noteq> (Err e, t)"
proof -
  obtain i sl p where i: "publication_index (pt_endpoint ticket) s = Ok i" "entry (rg_services s) i sl"
      "sl_active sl = Some p" "pb_live_transaction p = pt_transaction ticket" "pb_phase p = Installed"
    using assms unfolding committable_def by blast
  let ?rest = "abind (on_slot i (on_active (amod (\<lambda>p. p\<lparr>pb_phase := Published\<rparr>)))) (\<lambda>_.
       abind (on_slot i (on_active (publication_complete (pt_transaction ticket)))) (\<lambda>_.
       abind (on_slot i (aget slot_name)) (\<lambda>name.
       abind (notify (pb_protocol_id p) name (pb_service_generation p)) (\<lambda>notifications.
       aret \<lparr>po_service_generation = pb_service_generation p, po_notifications = notifications\<rparr>))))"
  have "commit_publish ticket s = ?rest s"
    using i(1,4,5) on_slot_active_aget [OF i(2,3), of "\<lambda>p. p"]
    by (simp add: Let_def commit_publish_def abind_def [of "aread _"] abind_def [of "on_slot i (on_active (aget _))"] aread_def)
  moreover have "never_err ?rest"
    by (intro never_err_abind never_err_slot never_err_notify never_err_intros)
  ultimately show ?thesis by (simp add: never_err_def)
qed

lemma position_same:
  assumes "i < length xs" and "f y = f (xs ! i)"
  shows "position f (xs[i := y]) = position f xs"
proof -
  have "position f zs = position id (map f zs)" for zs by (induction zs) auto
  moreover have "map f (xs[i := y]) = map f xs"
    using assms by (simp add: map_update list_update_same_conv)
  ultimately show ?thesis by metis
qed

lemma publication_index_same:
  assumes i: "publication_index ep s = Ok i" and e: "entry (rg_services s) i sl" "sl_active sl = Some p"
    and sl': "sl_active sl' = Some p'" "pb_endpoint p' = pb_endpoint p"
  shows "publication_index ep (put_slot i sl' s) = Ok i"
proof -
  let ?f = "\<lambda>slot. case Option.bind slot sl_active of None \<Rightarrow> False | Some q \<Rightarrow> ep_id (pb_endpoint q) = ep_id ep"
  have "position ?f ((rg_services s)[i := Some sl']) = position ?f (rg_services s)"
    using e sl' by (intro position_same) (simp_all add: entry_def)
  then show ?thesis
    using i e sl' by (auto simp: publication_index_def res_simps entry_def split: if_splits)
qed

lemma prepare_publish_committable:
  assumes "prepare_publish ep tx s = (Ok ticket, s')"
  shows "committable ticket s'"
proof -
  obtain i where i: "publication_index ep s = Ok i" using assms by (auto simp: prepare_publish_def res_simps)
  obtain sl p where e: "entry (rg_services s) i sl" "sl_active sl = Some p" "pb_endpoint p = ep"
    using publication_index_Ok [OF i] by blast
  let ?r = "publication_reserve tx p"
  let ?sl = "sl\<lparr>sl_active := Some (snd ?r)\<rparr>"
  have res: "on_slot i (on_active (publication_reserve tx)) s = (fst ?r, put_slot i ?sl s)"
    by (rule on_slot_active_eq [OF e(1,2)])
  have e': "entry (rg_services (put_slot i ?sl s)) i ?sl" using e(1) by (simp add: entry_length)
  have get: "on_slot i (on_active (aget pb_phase)) (put_slot i ?sl s) = (Ok (pb_phase (snd ?r)), put_slot i ?sl s)"
    by (rule on_slot_active_aget [OF e']) simp
  have "fst ?r = Ok ()" "pb_phase (snd ?r) = Installed" "s' = put_slot i ?sl s"
    "ticket = \<lparr>pt_endpoint = ep, pt_transaction = tx\<rparr>"
    using assms i res get by (auto simp: prepare_publish_def res_simps split: if_splits)
  moreover from this(1) have "snd ?r = p\<lparr>pb_live_transaction := tx\<rparr>"
    by (auto simp: publication_reserve_def split: if_splits)
  moreover have "publication_index ep (put_slot i ?sl s) = Ok i"
    using publication_actions_same_wire(1) [of p tx]
    by (intro publication_index_same [OF i e(1,2), of ?sl "snd ?r"]) (simp_all add: same_wire_def)
  ultimately show ?thesis unfolding committable_def using e'
    by (intro exI [of _ i] exI [of _ ?sl] exI [of _ "snd ?r"]) simp
qed

subsection \<open>Enumeration\<close>

text \<open>A ticket that was given out and not yet completed.\<close>

definition ticket_ready :: "enumeration_ticket \<Rightarrow> registry \<Rightarrow> bool" where
  "ticket_ready ticket s \<longleftrightarrow>
     (\<exists>i c. client_index (et_client ticket) s = Ok i \<and> entry (rg_clients s) i c \<and>
        et_transaction ticket \<in> set (client_live c)) \<and>
     fresh_for s (et_client ticket) (et_transaction ticket) \<and>
     unat (et_total_count ticket) = published_count s \<and>
     et_page_count ticket = (if et_total_count ticket = 0 then 1 else div_ceil_2 (et_total_count ticket))"

lemma enumerate_begin_ready:
  assumes ok: "registry_ok s" and b: "enumerate_begin client t s = (Ok ticket, s')"
  shows "ticket_ready ticket s'"
proof -
  obtain i where i: "client_index client s = Ok i" using b by (auto simp: enumerate_begin_def res_simps)
  obtain c where c: "entry (rg_clients s) i c" "cl_endpoint c = client" using client_index_Ok [OF i] by blast
  have get: "on_client i (aget cl_scope) s = (Ok (cl_scope c), s)"
    using wp_on_client_get [OF c(1), of cl_scope "\<lambda>a t. a = cl_scope c \<and> t = s" "\<lambda>_ _. False"]
    by (auto simp: wp_def split: prod.splits res.splits)
  have reserve: "on_client i (client_reserve t) s = (Ok (), s')"
    and page: "et_page_count ticket = (if et_total_count ticket = 0 then 1 else div_ceil_2 (et_total_count ticket))"
    and tk: "et_client ticket = client" "et_transaction ticket = t"
    using b i get by (auto simp: enumerate_begin_def res_simps Let_def split: if_splits)
  have "wp (on_client i (client_reserve t))
      (\<lambda>_ u. client_index client u = Ok i \<and> (\<exists>c'. entry (rg_clients u) i c' \<and> t \<in> set (client_live c'))) (\<lambda>_ _. True) s"
  proof (rule wp_reserve [OF ok c(1)], goal_cases)
    case (1 c' u)
    have "client_index (cl_endpoint c') u = Ok i"
      using 1(2) by (intro client_index_found [OF _ 1(3)]) (auto simp: registry_ok_def base_ok_def)
    with 1 c(2) show ?case by (auto simp: same_client_def)
  qed simp
  from wp_Ok [OF this reserve] have "client_index client s' = Ok i"
    "\<exists>c'. entry (rg_clients s') i c' \<and> t \<in> set (client_live c')" by blast+
  moreover have "fresh_for s' client t" "unat (et_total_count ticket) = published_count s'"
    using wp_Ok [OF enumerate_begin_spec [OF ok] b] by (simp_all add: published_count_def)
  ultimately show ?thesis using tk page by (auto simp: ticket_ready_def)
qed

lemma enumeration_record_eq:
  assumes ok: "registry_ok s" and t: "ticket_ready ticket s"
  shows "enumeration_record ticket k s =
    Ok (if k < published_count s then slot_metadata (published_slots (rg_services s) ! k) else None)"
proof -
  obtain i c where c: "client_index (et_client ticket) s = Ok i" "entry (rg_clients s) i c"
      "et_transaction ticket \<in> set (client_live c)" using t unfolding ticket_ready_def by blast
  have so: "slots_ok (rg_services s)" using ok by (simp add: registry_ok_def base_ok_def)
  have "length (published_slots (rg_services s)) = published_count s"
    by (simp add: published_slots_def published_count_def)
  then show ?thesis
    using c live_ticket_Ok [OF ok c(2)] canonical_loop_eq [OF so, of 0 None k]
    by (simp add: enumeration_record_def nth_canonical_def)
qed

lemma page_shape_ok:
  assumes "unat t = n" and "n \<le> 32" and "c = (if t = 0 then 1 else div_ceil_2 t)" and "page < unat c"
  shows "validate_page_shape oc (word_of_nat page) c t (min 2 (n - 2 * page)) = Ok ()"
    and "unat c \<le> 16" and "c \<noteq> 0" and "(word_of_nat page :: u16) < c"
proof -
  have t0: "t = 0 \<longleftrightarrow> n = 0" using assms(1) by (metis unat_0 unat_eq_0)
  have c: "unat c = (if n = 0 then 1 else (n + 1) div 2)"
    using assms(1-3) t0 by (auto simp: div_ceil_2_def unat_of_nat)
  then show c16: "unat c \<le> 16" using assms(2) by auto
  then have p: "unat (word_of_nat page :: u16) = page" using assms(4) by (simp add: unat_of_nat)
  show c0: "c \<noteq> 0" using assms(4) by auto
  show "(word_of_nat page :: u16) < c" using p assms(4) by (simp add: word_less_nat_alt)
  have add: "add_u16 oc (word_of_nat page) 1 = (Ok (word_of_nat page + 1) :: (proto_error, _) res)"
    "unat (word_of_nat page + 1 :: u16) = page + 1"
    using p assms(4) c16 by (simp_all add: add_u16_def unat_word_ariths)
  have sub: "sub_u16 oc c 1 = (Ok (c - 1) :: (proto_error, _) res)" "unat (c - 1) = unat c - 1"
    using c0 assms(4) by (auto simp: sub_u16_def word_less_nat_alt unat_sub word_le_nat_alt)
  have mul: "mul_u16 oc 2 (c - 1) = (Ok (2 * (c - 1)) :: (proto_error, _) res)" "unat (2 * (c - 1)) = 2 * (unat c - 1)"
  proof -
    have d: "mul_u16 oc 2 d = (Ok (2 * d) :: (proto_error, _) res) \<and> unat (2 * d) = 2 * unat d"
      if "unat d \<le> 15" for d :: u16 using that by (simp add: mul_u16_def unat_word_ariths)
    show "mul_u16 oc 2 (c - 1) = (Ok (2 * (c - 1)) :: (proto_error, _) res)" "unat (2 * (c - 1)) = 2 * (unat c - 1)"
      using d [of "c - 1"] sub(2) c16 by linarith+
  qed
  have left: "2 * (unat c - 1) \<le> n" if "n \<noteq> 0" using that c by auto
  have rest: "sub_u16 oc t (2 * (c - 1)) = (Ok (t - 2 * (c - 1)) :: (proto_error, _) res)"
      "unat (t - 2 * (c - 1)) = n - 2 * (unat c - 1)" if "n \<noteq> 0"
    using left [OF that] mul(2) assms(1) by (auto simp: sub_u16_def word_less_nat_alt unat_sub word_le_nat_alt)
  have n2: "n \<le> 2 * unat c" using c by (auto split: if_splits)
  show "validate_page_shape oc (word_of_nat page) c t (min 2 (n - 2 * page)) = Ok ()"
  proof (cases "n = 0")
    case True
    then show ?thesis using assms(3) t0 by (simp add: validate_page_shape_def)
  next
    case False
    have less: "word_of_nat page + 1 < c \<longleftrightarrow> page + 1 < unat c" using add(2) by (simp add: word_less_nat_alt)
    show ?thesis
    proof (cases "page + 1 < unat c")
      case True
      then have "2 * page + 2 \<le> n" using left [OF False] by linarith
      then show ?thesis using True False t0 assms(3) add less by (simp add: validate_page_shape_def)
    next
      case False': False
      then have pg: "page = unat c - 1" using assms(4) by simp
      then have "min 2 (n - 2 * page) = n - 2 * (unat c - 1)" using n2 assms(4) by auto
      then show ?thesis using False False' t0 assms(3) add less sub mul rest by (simp add: validate_page_shape_def)
    qed
  qed
qed

lemma published_record_ok:
  assumes "registry_ok s" and "wire_ok s" and "sl \<in> set (published_slots (rg_services s))"
  shows "\<exists>m. slot_metadata sl = Some m \<and> record_ok (metadata_record m) \<and>
    sr_service_name (metadata_record m) = slot_name sl"
proof -
  have sl: "Some sl \<in> set (rg_services s)" "slot_metadata sl \<noteq> None"
    using assms(3) by (auto simp: published_slots_def set_flatten)
  then obtain p where p: "sl_active sl = Some p" "pb_phase p = Published"
    by (auto simp: slot_metadata_def split: option.splits if_splits)
  have w: "slot_wire sl" using assms(2) sl(1) by (simp add: wire_ok_def)
  obtain i where "entry (rg_services s) i sl" using sl(1) by (auto simp: in_set_conv_nth entry_def)
  then have "pub_ok p" using pub_ok_of [OF assms(1) _ p(1)] by blast
  then show ?thesis using w p
    by (simp add: slot_metadata_def record_ok_def metadata_record_def record_versions_def pub_ok_def slot_wire_def
        metadata_name_def slot_name_def)
qed

text \<open>The records of a page, the way the two calls of \<^verbatim>\<open>enumeration_record\<close> find them.\<close>

definition page_entries :: "registry \<Rightarrow> nat \<Rightarrow> service_slot list" where
  "page_entries s page = take 2 (drop (2 * page) (published_slots (rg_services s)))"

definition page_records :: "registry \<Rightarrow> nat \<Rightarrow> service_list_record list" where
  "page_records s page = map (\<lambda>sl. metadata_record (the (slot_metadata sl))) (page_entries s page)"

lemma page_records_ok:
  assumes ok: "registry_ok s" "wire_ok s" and t: "ticket_ready ticket s" and p: "page < unat (et_page_count ticket)"
  shows "page_ok oc (word_of_nat page) (et_page_count ticket) (et_total_count ticket) (page_records s page)"
proof -
  let ?L = "published_slots (rg_services s)" and ?n = "published_count s"
  have so: "slots_ok (rg_services s)" and n: "?n \<le> 32"
    using ok(1) published_count_bound by (auto simp: registry_ok_def base_ok_def)
  have len: "length ?L = ?n" by (simp add: published_slots_def published_count_def)
  have sub: "sl \<in> set ?L" if "sl \<in> set (page_entries s page)" for sl
    using that by (auto simp: page_entries_def dest: in_set_takeD in_set_dropD)
  have "list_all record_ok (page_records s page)"
    using published_record_ok [OF ok sub] by (fastforce simp: page_records_def list_all_iff)
  moreover have "names_from None (page_records s page)"
  proof -
    have sorted: "sorted_wrt (\<lambda>a b. slot_name a < slot_name b) (page_entries s page)"
      unfolding page_entries_def by (intro sorted_wrt_take sorted_wrt_drop published_sorted so)
    have names: "names_from None (map (\<lambda>sl. metadata_record (the (slot_metadata sl))) xs)"
      if "length xs \<le> 2" "sorted_wrt (\<lambda>a b. slot_name a < slot_name b) xs" "set xs \<subseteq> set ?L" for xs
    proof -
      have "sr_service_name (metadata_record (the (slot_metadata x))) = slot_name x" if "x \<in> set xs" for x
        using published_record_ok [OF ok] \<open>set xs \<subseteq> set ?L\<close> that by fastforce
      moreover have "xs = [] \<or> (\<exists>a. xs = [a]) \<or> (\<exists>a b. xs = [a, b])"
        using that(1) by (auto simp: le_Suc_eq length_Suc_conv numeral_2_eq_2)
      ultimately show ?thesis using that(2) by auto
    qed
    have "length (page_entries s page) \<le> 2" by (simp add: page_entries_def)
    then show ?thesis unfolding page_records_def using sorted sub by (intro names) auto
  qed
  moreover have "length (page_records s page) = min 2 (?n - 2 * page)"
    by (simp add: page_records_def page_entries_def len)
  ultimately show ?thesis
    using page_shape_ok [OF _ n _ p, where t = "et_total_count ticket"] t n
    by (simp add: page_ok_def ticket_ready_def)
qed

subsection \<open>The service and its transport\<close>

definition reg_wire :: "registry \<Rightarrow> bool" where
  "reg_wire s \<longleftrightarrow> registry_ok s \<and> wire_ok s"

text \<open>A service with a state, with at most \<open>n\<close> installed endpoints, and the invariant of the service.\<close>

definition ready :: "nat \<Rightarrow> 'io service \<Rightarrow> bool" where
  "ready n sv \<longleftrightarrow> (\<exists>s. sv_state sv = Some s \<and> reg_wire s \<and> endpoint_count s \<le> n)"

definition service_ok :: "'io service \<Rightarrow> bool" where
  "service_ok sv \<longleftrightarrow> (\<forall>s. sv_state sv = Some s \<longrightarrow> reg_wire s)"

lemma reg_wire_count: "reg_wire s \<Longrightarrow> endpoint_count s \<le> 64"
  by (intro endpoint_count_bound) (simp add: reg_wire_def registry_ok_def base_ok_def)

lemma ready_mono: "ready m sv \<Longrightarrow> m \<le> n \<Longrightarrow> ready n sv"
  by (force simp: ready_def)

lemma ready_64: "ready n sv \<Longrightarrow> ready 64 sv"
  using reg_wire_count by (auto simp: ready_def)

lemma ready_service_ok: "ready n sv \<Longrightarrow> service_ok sv"
  by (auto simp: ready_def service_ok_def)

lemma ready_io [simp]: "ready n (sv\<lparr>sv_io := io\<rparr>) = ready n sv"
  by (simp add: ready_def)

lemma service_ok_io [simp]: "service_ok (sv\<lparr>sv_io := io\<rparr>) = service_ok sv"
  by (simp add: service_ok_def)

lemma wp_io_call: "(\<And>r io. Q r (sv\<lparr>sv_io := io\<rparr>)) \<Longrightarrow> wp (io_call f) Q E sv"
  by (auto simp: wp_def io_call_def split: prod.splits)

lemma wp_io_ok: "(\<And>b io. Q b (sv\<lparr>sv_io := io\<rparr>)) \<Longrightarrow> wp (io_ok f) Q E sv"
  unfolding io_ok_def wp_abind by (rule wp_io_call) (simp add: wp_aret)

lemma wp_io_try:
  "(\<And>a io. Q a (sv\<lparr>sv_io := io\<rparr>)) \<Longrightarrow> (\<And>e io. E (SE_Transport e) (sv\<lparr>sv_io := io\<rparr>)) \<Longrightarrow> wp (io_try f) Q E sv"
  unfolding io_try_def wp_abind by (rule wp_io_call) (auto simp: wp_aret wp_afail split: sum.splits)

lemma wp_state_call:
  assumes "sv_state sv = Some s"
    and "wp op (\<lambda>a s'. Q (Inr a) (sv\<lparr>sv_state := Some s'\<rparr>)) (\<lambda>e s'. Q (Inl e) (sv\<lparr>sv_state := Some s'\<rparr>)) s"
  shows "wp (state_call op) Q E sv"
  using assms by (auto simp: wp_def state_call_def split: prod.splits res.splits)

lemma wp_encoded:
  assumes "fills n k enc" and "k \<le> n" and "\<And>bytes. Q bytes sv"
  shows "wp (encoded n enc) Q E sv"
proof -
  obtain b where "enc (replicate n 0) = (Ok k, b)" "length b = n"
    using assms(1) unfolding fills_def by (metis length_replicate)
  then show ?thesis using assms(2,3) by (simp add: encoded_def wp_alift region_r_def)
qed

lemma wp_conj: "wp m Q E s \<Longrightarrow> (\<And>a t. m s = (Ok a, t) \<Longrightarrow> R a t) \<Longrightarrow> wp m (\<lambda>a t. Q a t \<and> R a t) E s"
  by (auto simp: wp_def split: prod.splits res.splits)

lemma keeps_reg_wire:
  assumes "reg_wire s" and "wp op (\<lambda>_. registry_ok) (\<lambda>_. registry_ok) s" and "safe wire_ok op"
  shows "wp op (\<lambda>_. reg_wire) (\<lambda>_. reg_wire) s"
proof -
  have "wire_ok (snd (op s))" using assms(1,3) by (simp add: safe_def reg_wire_def)
  then show ?thesis using assms(2) by (auto simp: wp_def reg_wire_def split: prod.splits res.splits)
qed

text \<open>What a notification needs to be sent.\<close>

definition note_ok :: "watch_notification \<Rightarrow> bool" where
  "note_ok v \<longleftrightarrow> ep_id (nt_client v) \<noteq> 0 \<and> ep_generation (nt_client v) \<noteq> 0 \<and> nt_transaction_id v \<noteq> 0"

lemma watches_note_ok:
  assumes "reg_wire s"
  shows "watches_sat note_ok s"
  unfolding watches_sat_def
proof (intro allI impI)
  fix w g assume "Some w \<in> set (rg_watches s)"
  then obtain k where "entry (rg_watches s) k w" by (auto simp: in_set_conv_nth entry_def)
  then obtain i c where c: "entry (rg_clients s) i c" "cl_endpoint c = pw_client w" "pw_transaction w \<in> set (client_live c)"
    using assms unfolding reg_wire_def registry_ok_def base_ok_def watches_ok_def watch_live_def by blast
  have "client_ok c" using assms c(1) unfolding reg_wire_def registry_ok_def base_ok_def clients_ok_def by blast
  moreover have "client_wire c" using assms c(1) by (auto simp: reg_wire_def wire_ok_def entry_def in_set_conv_nth)
  ultimately show "note_ok (notification_for g w)"
    using c by (auto simp: note_ok_def notification_for_def client_wire_def client_ok_def)
qed

end
