(* ===== verification/RegistryServiceSafe.thy ===== *)
theory RegistryServiceSafe
  imports RegistryServiceInv
begin

text \<open>
  The service step of the registry never panics, whatever the transport does and whatever datagrams
  arrive, and keeps the invariant of the service: each reply is one its encoder accepts, a prepared
  publication can be committed, an enumeration can be completed, and the removal of clients that cannot
  be notified ends.
\<close>

subsection \<open>Replies\<close>

abbreviation holds :: "nat \<Rightarrow> ('io, 'err, 'a) sop \<Rightarrow> 'io service \<Rightarrow> bool" where
  "holds n m sv \<equiv> wp m (\<lambda>_. ready n) (\<lambda>_. ready n) sv"

lemma usize_512: "512 \<le> usize_max"
  by (simp add: usize_max_def)

lemma wp_encodes:
  assumes "encodes hdr m h k enc" and "header_ok hdr" and "k \<le> n" and "n \<le> 512" and "\<And>bytes. Q bytes sv"
  shows "wp (encoded n enc) Q E sv"
  using assms usize_512 by (intro wp_encoded [OF encodes_fills]) auto

lemma header_reply:
  "header_ok hdr \<Longrightarrow> \<not> on_supervisor (h_message_type hdr) \<Longrightarrow> \<not> on_supervisor t \<Longrightarrow>
     header_ok (hdr\<lparr>h_message_type := t\<rparr>)"
  by (simp add: header_ok_def)

text \<open>The header of an installed endpoint, before its message type is replaced by that of a reply.\<close>

definition addressed :: "header \<Rightarrow> bool" where
  "addressed hdr \<longleftrightarrow> h_registry_generation hdr \<noteq> 0 \<and> h_transaction_id hdr \<noteq> 0 \<and> h_endpoint_id hdr \<noteq> 0 \<and>
     h_endpoint_generation hdr \<noteq> 0"

lemma addressed_reply: "addressed hdr \<Longrightarrow> \<not> on_supervisor t \<Longrightarrow> header_ok (hdr\<lparr>h_message_type := t\<rparr>)"
  by (simp add: header_ok_def addressed_def)

lemma wp_send_generation:
  assumes "addressed hdr" and "\<And>b io. Q b (sv\<lparr>sv_io := io\<rparr>)"
  shows "wp (send_generation tr handle hdr g) Q E sv"
  unfolding send_generation_def wp_abind
  by (rule wp_encodes [OF enc_generation addressed_reply [OF assms(1)]])
    (auto simp: on_supervisor_def intro: wp_io_ok assms(2))

lemma wp_send_empty_raw:
  assumes "addressed hdr" and "kind \<in> {T_Published, T_Retired, T_Connected}" and "\<And>b io. Q b (sv\<lparr>sv_io := io\<rparr>)"
  shows "wp (send_empty_raw tr handle hdr kind) Q E sv"
proof -
  obtain m where m: "(h_message_type (hdr\<lparr>h_message_type := kind\<rparr>), m) \<in>
      {(T_Publish, M_Publish), (T_Published, M_Published), (T_Retire, M_Retire),
       (T_Retired, M_Retired), (T_Connected, M_Connected), (T_Enumerate, M_Enumerate)}"
    using assms(2) by auto
  show ?thesis unfolding send_empty_raw_def wp_abind
    by (rule wp_encodes [OF enc_empty [OF m] addressed_reply [OF assms(1)]])
      (use assms(2) in \<open>auto simp: on_supervisor_def HEADER_BYTES_def intro: wp_io_ok assms(3)\<close>)
qed

subsection \<open>Retiring endpoints\<close>

lemma peer_closed_service:
  assumes "reg_wire s"
  shows "wp (peer_closed ep)
    (\<lambda>out t. reg_wire t \<and> endpoint_count t < endpoint_count s \<and> notes_sat note_ok (pc_notifications out))
    (\<lambda>_ t. reg_wire t) s"
proof -
  have "wp (peer_closed ep) (\<lambda>_. reg_wire) (\<lambda>_. reg_wire) s"
    using assms by (intro keeps_reg_wire safe_peer_closed peer_closed_keeps) (simp_all add: reg_wire_def)
  then show ?thesis
    by (rule wp_conj) (use peer_closed_count peer_closed_notes watches_note_ok [OF assms] in blast)
qed

lemma reg_wire_generation: "reg_wire s \<Longrightarrow> rg_generation s \<noteq> 0"
  by (simp add: reg_wire_def registry_ok_def base_ok_def shape_ok_def)

text \<open>An error of \<open>peer_closed\<close> leaves the state as it was.\<close>

lemma peer_closed_err:
  assumes "peer_closed ep s = (Err e, t)"
  shows "t = s"
proof -
  have "never_err take_active" by (auto simp: never_err_def take_active_def split: option.splits)
  then have slot: "never_err (on_slot i take_active)" for i by (rule never_err_slot)
  have get: "never_err (on_client i (aget f))" for i and f :: "client \<Rightarrow> u64"
    by (auto simp: never_err_def on_client_def aget_def res_simps split: res.splits)
  show ?thesis
  proof (cases "publication_index ep s")
    case (Ok i)
    have "never_err (abind (on_slot i take_active) (\<lambda>p. abind (on_slot i (aget slot_name)) (\<lambda>name.
        abind (notify (pb_protocol_id p) name 0) (\<lambda>notifications.
        aret \<lparr>pc_handle = pb_handle p, pc_kind = K_Publication, pc_notifications = notifications\<rparr>))))"
      by (intro never_err_abind slot never_err_slot never_err_notify never_err_intros)
    then show ?thesis using assms Ok by (auto simp: peer_closed_def res_simps never_err_def)
  next
    case (Err e')
    have "never_err (abind (on_client i (aget cl_handle)) (\<lambda>handle.
         abind (amod (\<lambda>s. s\<lparr>rg_clients := (rg_clients s)[i := None],
                            rg_watches := drop_watches_of ep (rg_watches s)\<rparr>)) (\<lambda>_.
         aret \<lparr>pc_handle = handle, pc_kind = K_Client, pc_notifications = notifications_new\<rparr>)))" for i
      by (intro never_err_abind get never_err_intros)
    then show ?thesis using assms Err by (auto simp: peer_closed_def res_simps never_err_def)
  qed simp
qed

lemma retire_nested_holds:
  assumes send: "\<And>values sv n. ready n sv \<Longrightarrow> n < d \<Longrightarrow> notes_sat note_ok values \<Longrightarrow>
      holds n (send_notifications d tr values [0..<wn_len values]) sv"
    and r: "ready n sv" and n: "n < Suc d"
  shows "holds n (retire_nested (Suc d) tr ep) sv"
proof -
  obtain s where s: "sv_state sv = Some s" "reg_wire s" "endpoint_count s \<le> n"
    using r unfolding ready_def by blast
  have ok: "wp (peer_closed (ie_identity ep))
      (\<lambda>out t. ready (n - 1) (sv\<lparr>sv_state := Some t\<rparr>) \<and> n - 1 < d \<and> notes_sat note_ok (pc_notifications out))
      (\<lambda>_ t. ready n (sv\<lparr>sv_state := Some t\<rparr>)) s"
  proof (rule wpI)
    show "fst (peer_closed (ie_identity ep) s) \<noteq> Panic" by (rule wp_not_panic [OF peer_closed_service [OF s(2)]])
    show "ready (n - 1) (sv\<lparr>sv_state := Some t\<rparr>) \<and> n - 1 < d \<and> notes_sat note_ok (pc_notifications out)"
      if "peer_closed (ie_identity ep) s = (Ok out, t)" for out t
      using wp_Ok [OF peer_closed_service [OF s(2)] that] s(3) n by (auto simp: ready_def)
    show "ready n (sv\<lparr>sv_state := Some t\<rparr>)" if "peer_closed (ie_identity ep) s = (Err e, t)" for e t
      using peer_closed_err [OF that] s by (simp add: ready_def)
  qed
  show ?thesis
    unfolding retire_nested.simps wp_abind wp_aget s(1) option.case
  proof (rule wp_state_call [OF s(1)], rule wp_mono [OF ok], goal_cases)
    case (1 out t)
    let ?sv = "sv\<lparr>sv_state := Some t\<rparr>"
    have "holds n (send_notifications d tr (pc_notifications out) [0..<wn_len (pc_notifications out)]) (?sv\<lparr>sv_io := io\<rparr>)" for io
      by (rule wp_mono [OF send [of "n - 1"]]) (use 1 in \<open>auto elim: ready_mono\<close>)
    moreover have "ready n ?sv" using 1 ready_mono [of "n - 1" ?sv n] by simp
    ultimately show ?case by (auto simp: wp_abind intro: wp_io_try)
  qed (simp add: wp_afail)
qed

lemma send_notifications_holds:
  assumes retire: "\<And>ep sv n. ready n sv \<Longrightarrow> n < d \<Longrightarrow> holds n (retire_nested d tr ep) sv"
    and "ready n sv" and n: "n < d" and nts: "notes_sat note_ok values"
    and "\<forall>i \<in> set is. i < wn_len values"
  shows "holds n (send_notifications d tr values is) sv"
  using assms(2,5)
proof (induction "is" arbitrary: sv)
  case Nil
  then show ?case by (simp add: wp_aret)
next
  case (Cons i "is")
  obtain v where v: "notifications_get values i = Some v" "note_ok v"
    using nts Cons.prems(2) unfolding notes_sat_def by auto
  obtain s where s: "sv_state sv = Some s" "reg_wire s" using Cons.prems(1) unfolding ready_def by blast
  let ?hdr = "\<lparr>h_message_type = T_GenerationChanged, h_registry_generation = rg_generation s,
    h_endpoint_id = ep_id (nt_client v), h_endpoint_generation = ep_generation (nt_client v),
    h_transaction_id = nt_transaction_id v\<rparr>"
  let ?ep = "\<lparr>ie_identity = nt_client v, ie_handle = nt_client_handle v, ie_kind = K_Client\<rparr>"
  have "addressed ?hdr" using v(2) reg_wire_generation [OF s(2)] by (simp add: addressed_def note_ok_def)
  moreover have IH: "holds n (send_notifications d tr values is) sv'" if "ready n sv'" for sv'
    using that Cons by simp
  moreover have "wp (retire_nested d tr ?ep) (\<lambda>_. holds n (send_notifications d tr values is)) (\<lambda>_. ready n) sv'"
    if "ready n sv'" for sv'
    by (rule wp_mono [OF retire [OF that n]]) (use IH in auto)
  ultimately show ?case
    using Cons.prems(1) s(1) v(1)
    by (auto simp: wp_simps Let_def intro!: wp_send_generation)
qed

lemma notifications_hold:
  "(\<forall>values sv n. ready n sv \<longrightarrow> n < d \<longrightarrow> notes_sat note_ok values \<longrightarrow>
      holds n (send_notifications d tr values [0..<wn_len values]) sv) \<and>
   (\<forall>ep sv n. ready n sv \<longrightarrow> n < d \<longrightarrow> holds n (retire_nested d tr ep) sv)"
proof (induction d)
  case (Suc d)
  have r: "holds n (retire_nested (Suc d) tr ep) sv" if "ready n sv" "n < Suc d" for ep sv n
    using Suc that by (intro retire_nested_holds) auto
  moreover have "holds n (send_notifications (Suc d) tr w [0..<wn_len w]) sv"
    if "ready n sv" "n < Suc d" "notes_sat note_ok w" for w sv n
    using that r by (intro send_notifications_holds) auto
  ultimately show ?case by blast
qed simp

lemma send_all_holds: "ready 64 sv \<Longrightarrow> notes_sat note_ok values \<Longrightarrow> holds 64 (send_all tr values) sv"
  using notifications_hold [of "Suc MAX_ENDPOINTS" tr] by (simp add: send_all_def MAX_ENDPOINTS_def)

lemma retire_peer_holds: "ready 64 sv \<Longrightarrow> holds 64 (retire_peer tr ep) sv"
  using notifications_hold [of "Suc MAX_ENDPOINTS" tr] by (simp add: retire_peer_def MAX_ENDPOINTS_def)

lemma remove_endpoint_holds: "ready 64 sv \<Longrightarrow> holds 64 (remove_endpoint tr ep) sv"
  using retire_peer_holds by (auto simp: remove_endpoint_def wp_simps)

end
