(* ===== verification/RegistryServiceStep.thy ===== *)
theory RegistryServiceStep
  imports RegistryServiceSafe
begin

text \<open>
  The requests of the endpoints, the control channel and the whole step of the registry service: every
  path ends without a panic and with the invariant of the service.
\<close>

subsection \<open>Calls that keep the invariant\<close>

lemma wp_state_kept:
  assumes r: "ready n sv" and k: "\<And>s. reg_wire s \<Longrightarrow> wp op (\<lambda>_. registry_ok) (\<lambda>_. registry_ok) s"
    and safe: "safe wire_ok op"
    and ok: "\<And>s a t. sv_state sv = Some s \<Longrightarrow> reg_wire s \<Longrightarrow> op s = (Ok a, t) \<Longrightarrow> reg_wire t \<Longrightarrow>
      Q (Inr a) (sv\<lparr>sv_state := Some t\<rparr>)"
    and err: "\<And>e sv'. ready 64 sv' \<Longrightarrow> Q (Inl e) sv'"
  shows "wp (state_call op) Q E sv"
proof -
  obtain s where s: "sv_state sv = Some s" "reg_wire s" using r unfolding ready_def by blast
  have w: "wp op (\<lambda>_. reg_wire) (\<lambda>_. reg_wire) s" by (rule keeps_reg_wire [OF s(2) k [OF s(2)] safe])
  show ?thesis
  proof (rule wp_state_call [OF s(1)], rule wpI)
    show "Q (Inr a) (sv\<lparr>sv_state := Some t\<rparr>)" if "op s = (Ok a, t)" for a t
      using ok [OF s that] wp_Ok [OF w that] by simp
    show "Q (Inl e) (sv\<lparr>sv_state := Some t\<rparr>)" if "op s = (Err e, t)" for e t
      using wp_Err [OF w that] reg_wire_count by (intro err) (simp add: ready_def)
  qed (rule wp_not_panic [OF w])
qed

lemma ready_state: "reg_wire t \<Longrightarrow> ready 64 (sv\<lparr>sv_state := Some t\<rparr>)"
  using reg_wire_count by (simp add: ready_def)

lemma wp_close_received:
  assumes "\<And>io. Q () (sv\<lparr>sv_io := io\<rparr>)" and "\<And>e io. E e (sv\<lparr>sv_io := io\<rparr>)"
  shows "wp (close_received tr handles n) Q E sv"
proof -
  have "wp (close_handles tr hs) (\<lambda>_ t. \<exists>io. t = sv\<lparr>sv_io := io\<rparr>) (\<lambda>_ t. \<exists>io. t = sv\<lparr>sv_io := io\<rparr>) sv'"
    if "\<exists>io. sv' = sv\<lparr>sv_io := io\<rparr>" for hs sv'
    using that
  proof (induction hs arbitrary: sv')
    case (Cons h hs)
    then have "wp (close_handles tr hs) (\<lambda>_ t. \<exists>io. t = sv\<lparr>sv_io := io\<rparr>) (\<lambda>_ t. \<exists>io. t = sv\<lparr>sv_io := io\<rparr>) (sv'\<lparr>sv_io := io\<rparr>)" for io
      by (intro Cons.IH) auto
    moreover from Cons have "wp (close_handles tr hs) (\<lambda>_ t. \<exists>io. t = sv\<lparr>sv_io := io\<rparr>) (\<lambda>_ t. \<exists>io. t = sv\<lparr>sv_io := io\<rparr>) sv'"
      by blast
    ultimately show ?case using Cons.prems by (auto simp: wp_abind wp_aret intro!: wp_io_try)
  qed (simp add: wp_aret)
  from this [of sv "take n handles"] show ?thesis
    unfolding close_received_def by (rule wp_mono) (use assms in \<open>auto intro: exI [of _ "sv_io sv"]\<close>)
qed

lemma send_error_holds:
  assumes "ready 64 sv" and "addressed hdr"
  shows "holds 64 (send_error tr ep hdr code) sv"
  unfolding send_error_def wp_abind
  by (rule wp_encodes [OF enc_error addressed_reply [OF assms(2)]])
    (use assms(1) in \<open>auto simp: on_supervisor_def wp_aret intro!: wp_io_ok remove_endpoint_holds\<close>)

lemma state_error_holds: "ready 64 sv \<Longrightarrow> addressed hdr \<Longrightarrow> holds 64 (state_error tr ep hdr e) sv"
  unfolding state_error_def by (rule send_error_holds)

lemma complete_error_holds:
  assumes "ready 64 sv" and "addressed hdr"
  shows "holds 64 (complete_error tr ep hdr code) sv"
  unfolding complete_error_def wp_abind
proof (rule wp_state_kept [OF assms(1)], goal_cases)
  case (1 s)
  then show ?case by (intro complete_transaction_keeps) (simp add: reg_wire_def)
next
  case 2
  show ?case by (rule safe_requests)
qed (use assms(2) in \<open>auto intro: send_error_holds state_error_holds ready_state\<close>)

lemma send_empty_holds:
  assumes "ready 64 sv" and "addressed hdr" and "kind \<in> {T_Published, T_Retired, T_Connected}"
  shows "holds 64 (send_empty tr ep hdr kind) sv"
  unfolding send_empty_def wp_abind
  by (rule wp_send_empty_raw [OF assms(2,3)])
    (use assms(1) in \<open>auto simp: wp_aret wp_abind intro!: remove_endpoint_holds\<close>)

subsection \<open>Requests of publications\<close>

lemma dispatch_publish_holds:
  assumes "ready 64 sv" and a: "addressed hdr"
  shows "holds 64 (dispatch_publish tr ep hdr) sv"
  unfolding dispatch_publish_def wp_abind
proof (rule wp_state_kept [OF assms(1)], goal_cases)
  case (1 s)
  then show ?case by (intro prepare_publish_keeps) (simp add: reg_wire_def)
next
  case (3 s ticket t)
  have c: "committable ticket t" by (rule prepare_publish_committable [OF 3(3)])
  let ?sv = "sv\<lparr>sv_state := Some t\<rparr>"
  have "wp (state_call (commit_publish ticket)) (\<lambda>r. wp (case r of Inl _ \<Rightarrow> alift Panic
      | Inr outcome \<Rightarrow> send_all tr (po_notifications outcome)) (\<lambda>_. ready 64) (\<lambda>_. ready 64)) (\<lambda>_. ready 64)
      (?sv\<lparr>sv_io := io\<rparr>)" for io
  proof (rule wp_state_call [of _ t], goal_cases)
    case 2
    have w: "wp (commit_publish ticket) (\<lambda>_. reg_wire) (\<lambda>_. reg_wire) t"
    proof (rule keeps_reg_wire [OF 3(4)])
      show "wp (commit_publish ticket) (\<lambda>_. registry_ok) (\<lambda>_. registry_ok) t"
        using 3(4) by (intro wp_mono [OF commit_publish_spec]) (auto simp: reg_wire_def)
    qed (rule safe_requests)
    show ?case
    proof (rule wpI, goal_cases)
      case (1 out u)
      then show ?case using wp_Ok [OF w 1] commit_publish_notes [OF 1 watches_note_ok [OF 3(4)]]
        by (auto intro!: send_all_holds ready_state)
    next
      case (2 e u)
      then show ?case using commit_publish_no_err [OF c] by blast
    qed (rule wp_not_panic [OF w])
  qed simp
  then show ?case using ready_state [OF 3(4), of sv] a
    by (auto simp: wp_abind intro!: wp_send_empty_raw remove_endpoint_holds)
qed (use a in \<open>auto intro: state_error_holds safe_requests\<close>)

lemma dispatch_retire_holds:
  assumes "ready 64 sv" and a: "addressed hdr"
  shows "holds 64 (dispatch_retire tr ep hdr) sv"
  unfolding dispatch_retire_def wp_abind
proof (rule wp_state_kept [OF assms(1)], goal_cases)
  case (1 s)
  then show ?case by (intro wp_mono [OF retire_spec]) (auto simp: reg_wire_def)
next
  case (3 s out t)
  have "notes_sat note_ok (ro_notifications out)"
    by (rule retire_notes [OF 3(3) watches_note_ok [OF 3(2)]])
  then show ?case using ready_state [OF 3(4), of sv] a
    by (auto simp: wp_abind intro!: wp_send_empty_raw wp_io_try send_all_holds)
qed (use a in \<open>auto intro: state_error_holds safe_requests\<close>)

subsection \<open>Requests of clients\<close>

lemma dispatch_watch_holds:
  assumes "ready 64 sv" and a: "addressed hdr" and v: "message_valid (M_Watch request)"
  shows "holds 64 (dispatch_watch tr ep hdr request) sv"
  unfolding dispatch_watch_def wp_abind
proof (rule wp_state_kept [OF assms(1)], goal_cases)
  case (1 s)
  then show ?case using v by (intro watch_keeps) (simp_all add: reg_wire_def validate_name_Ok)
next
  case (3 s disposition t)
  then show ?case using ready_state [OF 3(4), of sv] a
    by (cases disposition) (auto simp: wp_abind wp_aret intro!: wp_send_generation remove_endpoint_holds)
qed (use a in \<open>auto intro: state_error_holds safe_requests\<close>)

lemma dispatch_cancel_holds:
  assumes "ready 64 sv" and a: "addressed hdr" and v: "message_valid (M_Cancel target)"
  shows "holds 64 (dispatch_cancel tr ep hdr target) sv"
  unfolding dispatch_cancel_def wp_abind
proof (rule wp_state_kept [OF assms(1)], goal_cases)
  case (1 s)
  then show ?case by (intro cancel_keeps) (simp add: reg_wire_def)
next
  case (3 s u t)
  have e: "encodes (hdr\<lparr>h_message_type := T_Cancelled\<rparr>) (M_Cancelled target) 0 72
      (encode_cancel (hdr\<lparr>h_message_type := T_Cancelled\<rparr>) target)"
    using v by (intro enc_cancel) simp_all
  have "wp (encoded 72 (encode_cancel (hdr\<lparr>h_message_type := T_Cancelled\<rparr>) target)) (\<lambda>bytes.
      holds 64 (abind (io_ok (tr_send tr (ie_handle ep) bytes)) (\<lambda>sent. if sent then aret () else remove_endpoint tr ep)))
      (\<lambda>_. ready 64) (sv\<lparr>sv_state := Some t\<rparr>)"
    by (rule wp_encodes [OF e addressed_reply [OF a]])
      (use ready_state [OF 3(4), of sv] in \<open>auto simp: on_supervisor_def wp_aret wp_abind intro!: wp_io_ok remove_endpoint_holds\<close>)
  then show ?case by (simp add: wp_abind)
qed (use a in \<open>auto intro: state_error_holds safe_requests\<close>)

text \<open>A lookup that succeeds names an installed publication.\<close>

lemma hold_eq_Ok: "(case r of Ok a \<Rightarrow> Ok (Ok a) | Err e \<Rightarrow> Ok (Err e) | Panic \<Rightarrow> Panic) = Ok x \<longleftrightarrow> r \<noteq> Panic \<and> x = r"
  by (cases r) auto

lemma lookup_offer:
  assumes "wire_ok s" and "lookup client tx request s = (Ok offer, t)"
  shows "ep_id (fo_publication offer) \<noteq> 0 \<and> ep_generation (fo_publication offer) \<noteq> 0"
proof -
  obtain u where "lookup_result tx request u = Ok offer" "rg_services u = rg_services s"
  proof -
    obtain i u where i: "client_index client s = Ok i" "on_client i (client_reserve tx) s = (Ok (), u)"
        "lookup_result tx request u = Ok offer"
      using assms(2) by (auto simp: lookup_def res_simps hold_eq_Ok)
    have "preserves rg_services (on_client i (client_reserve tx))" by (rule preserves_on_client) simp
    then have "rg_services u = rg_services s" using preserves_snd i(2) by (metis snd_conv)
    with i(3) show thesis using that by blast
  qed
  moreover from this(1) obtain p where p: "find_publication request u = Some p" "fo_publication offer = pb_endpoint p"
    by (auto simp: lookup_result_def res_simps split: if_splits)
  ultimately obtain i sl where "entry (rg_services s) i sl" "sl_active sl = Some p"
    using find_publication_Some [OF p(1)] by metis
  then have "slot_wire sl" "sl_active sl = Some p" using assms(1) by (auto simp: wire_ok_def entry_def dest: nth_mem)
  then show ?thesis using p(2) by (simp add: slot_wire_def)
qed

lemma connect_holds:
  assumes r: "ready 64 sv" and a: "addressed hdr" and v: "message_valid (M_LookupConnect request)"
  shows "holds 64 (connect tr ep hdr request h) sv"
proof -
  have refuse: "holds 64 (abind (if rh_handle h \<noteq> 0 then io_try (tr_close tr (rh_handle h)) else aret ())
      (\<lambda>_. complete_error tr ep hdr C_MalformedRequest)) sv'" if "ready 64 sv'" for sv'
    using that a by (auto simp: wp_abind wp_aret intro!: wp_io_try complete_error_holds)
  have go: "wp (state_call (lookup (ie_identity ep) (h_transaction_id hdr) request)) Q (\<lambda>_. ready 64) sv'"
    if "ready 64 sv'"
      and "\<And>offer sv'. ready 64 sv' \<Longrightarrow> ep_id (fo_publication offer) \<noteq> 0 \<Longrightarrow> ep_generation (fo_publication offer) \<noteq> 0 \<Longrightarrow> Q (Inr offer) sv'"
      and "\<And>e sv'. ready 64 sv' \<Longrightarrow> Q (Inl e) sv'" for Q sv'
  proof (rule wp_state_kept [OF that(1)], goal_cases)
    case (1 s)
    then show ?case by (intro lookup_keeps) (simp add: reg_wire_def)
  next
    case (3 s offer t)
    then show ?case using lookup_offer [OF _ 3(3)] by (intro that(2) ready_state) (simp_all add: reg_wire_def)
  qed (use that in \<open>auto intro: safe_requests\<close>)
  have reply: "wp (encoded MAX_MESSAGE_BYTES (encode_lookup
       (hdr\<lparr>h_message_type := T_ConnectOffer, h_endpoint_id := i, h_endpoint_generation := g\<rparr>) request)) Q E sv'"
    if "i \<noteq> 0" "g \<noteq> 0" "\<And>bytes. Q bytes sv'" for i g Q E sv'
  proof (rule wp_encodes [OF enc_lookup], goal_cases)
    case 4
    then show ?case using a that by (simp add: header_ok_def addressed_def on_supervisor_def)
  next
    case 5
    then show ?case using v by (simp add: validate_name_Ok MAX_MESSAGE_BYTES_def)
  qed (use v that in \<open>simp_all add: MAX_MESSAGE_BYTES_def\<close>)
  show ?thesis
    unfolding connect_def wp_abind
  proof (rule wp_io_ok, goal_cases)
    case (1 valid io)
    have "ready 64 (sv\<lparr>sv_io := io\<rparr>)" using r by simp
    then show ?case using refuse a
      by (auto simp: wp_abind wp_aret intro!: go reply wp_io_ok wp_io_try send_error_holds state_error_holds
          wp_mono [OF send_empty_holds])
  qed
qed

lemma page_case:
  assumes all: "\<And>sl. sl \<in> set L \<Longrightarrow> slot_metadata sl \<noteq> None"
    and f: "f = (\<lambda>k. if k < length L then slot_metadata (L ! k) else None)"
  shows "(case (f k, f (Suc k)) of
          (None, None) \<Rightarrow> aret []
        | (Some a, None) \<Rightarrow> aret [metadata_record a]
        | (Some a, Some b) \<Rightarrow> aret [metadata_record a, metadata_record b]
        | (None, Some _) \<Rightarrow> alift Panic) =
     aret (map (\<lambda>sl. metadata_record (the (slot_metadata sl))) (take 2 (drop k L)))"
proof -
  have some: "\<exists>m. slot_metadata (L ! j) = Some m" if "j < length L" for j using all [of "L ! j"] that by auto
  consider "length L \<le> k" | "length L = Suc k" | "Suc k < length L" by linarith
  then show ?thesis
  proof cases
    case 2
    then have "drop k L = [L ! k]" by (metis Cons_nth_drop_Suc drop_all lessI order_refl)
    then show ?thesis using 2 some [of k] f by auto
  next
    case 3
    then have "drop k L = L ! k # L ! Suc k # drop (Suc (Suc k)) L" by (simp add: Cons_nth_drop_Suc)
    then show ?thesis using 3 some [of k] some [of "Suc k"] f by auto
  qed (simp add: f)
qed

lemma wp_send_page:
  assumes s: "sv_state sv = Some s" "reg_wire s" and t: "ticket_ready ticket s" and a: "addressed hdr"
    and p: "page < unat (et_page_count ticket)" and Q: "\<And>b io. Q b (sv\<lparr>sv_io := io\<rparr>)"
  shows "wp (send_page oc tr ep hdr ticket page) Q E sv"
proof -
  let ?L = "published_slots (rg_services s)"
  have ok: "registry_ok s" "wire_ok s" using s(2) by (simp_all add: reg_wire_def)
  have len: "length ?L = published_count s" by (simp add: published_slots_def published_count_def)
  have some: "slot_metadata sl \<noteq> None" if "sl \<in> set ?L" for sl using published_record_ok [OF ok that] by auto
  define f where "f = (\<lambda>k. if k < length ?L then slot_metadata (?L ! k) else None)"
  have entry: "wp (page_entry ticket k) P E' sv = P (f k) sv" for k P E'
    using s(1) enumeration_record_eq [OF ok(1) t, of k] len by (simp add: page_entry_def wp_aread f_def)
  have records: "page_records s page = map (\<lambda>sl. metadata_record (the (slot_metadata sl))) (take 2 (drop (page * 2) ?L))"
    by (simp add: page_records_def page_entries_def mult.commute)
  have pk: "page_ok oc (word_of_nat page) (et_page_count ticket) (et_total_count ticket) (page_records s page)"
    by (rule page_records_ok [OF ok t p])
  then have "80 + 168 * length (page_records s page) \<le> 416" by (simp add: page_ok_def)
  then have "wp (encoded MAX_MESSAGE_BYTES (encode_service_list oc (hdr\<lparr>h_message_type := T_ServiceList\<rparr>) (word_of_nat page)
      (et_page_count ticket) (et_total_count ticket) (page_records s page)))
      (\<lambda>bytes. wp (io_ok (tr_send tr (ie_handle ep) bytes)) Q E) E sv"
    using usize_512 addressed_reply [OF a] unfolding MAX_MESSAGE_BYTES_def
    by (intro wp_encoded [OF service_list_fills [OF pk]]) (auto simp: on_supervisor_def intro: wp_io_ok Q)
  then show ?thesis
    unfolding records by (simp add: send_page_def Let_def wp_abind entry page_case [OF some f_def, simplified] wp_aret)
qed

lemma wp_send_pages:
  assumes s: "sv_state sv = Some s" "reg_wire s" and t: "ticket_ready ticket s" and a: "addressed hdr"
    and ps: "\<forall>p \<in> set ps. p < unat (et_page_count ticket)"
    and T: "\<And>io. Q True (sv\<lparr>sv_io := io\<rparr>)" and F: "\<And>sv'. ready 64 sv' \<Longrightarrow> Q False sv'"
    and E: "\<And>e sv'. ready 64 sv' \<Longrightarrow> E e sv'"
  shows "wp (send_pages oc tr ep hdr ticket ps) Q E sv"
  using s(1) ps T
proof (induction ps arbitrary: sv)
  case Nil
  from Nil.prems(3) [of "sv_io sv"] show ?case by (simp add: wp_aret)
next
  case (Cons p ps)
  have "wp (send_page oc tr ep hdr ticket p) (\<lambda>sent. wp (if \<not> sent then abind (remove_endpoint tr ep) (\<lambda>_. aret False)
     else send_pages oc tr ep hdr ticket ps) Q E) E sv"
  proof (rule wp_send_page [OF Cons.prems(1) s(2) t a], goal_cases)
    case (2 sent io)
    have "ready 64 (sv\<lparr>sv_io := io\<rparr>)" using Cons.prems(1) s(2) reg_wire_count by (simp add: ready_def)
    then have "wp (remove_endpoint tr ep) (\<lambda>_. Q False) E (sv\<lparr>sv_io := io\<rparr>)"
      by (rule wp_mono [OF remove_endpoint_holds]) (use F E in auto)
    moreover have "wp (send_pages oc tr ep hdr ticket ps) Q E (sv\<lparr>sv_io := io\<rparr>)"
      by (rule Cons.IH) (use Cons.prems in auto)
    ultimately show ?case by (simp add: wp_abind wp_aret)
  qed (use Cons.prems(2) in simp)
  then show ?case by (simp add: wp_abind)
qed

lemma enumeration_complete_ready:
  assumes s: "reg_wire s" and t: "ticket_ready ticket s"
  shows "wp (enumeration_complete ticket) (\<lambda>_. reg_wire) (\<lambda>_ _. False) s"
proof -
  have ok: "registry_ok s" using s by (simp add: reg_wire_def)
  obtain i c where c: "client_index (et_client ticket) s = Ok i" "entry (rg_clients s) i c"
      "et_transaction ticket \<in> set (client_live c)" and f: "fresh_for s (et_client ticket) (et_transaction ticket)"
    using t unfolding ticket_ready_def by blast
  have w: "wp (enumeration_complete ticket) (\<lambda>_. reg_wire) (\<lambda>_. reg_wire) s"
    by (intro keeps_reg_wire [OF s] enumeration_complete_keeps [OF ok f] safe_requests)
  have "enumeration_complete ticket s \<noteq> (Err e, u)" for e u
    using c never_err_complete [of i "et_transaction ticket"] live_ticket_Ok [OF ok c(2), of ticket]
    by (simp add: enumeration_complete_def abind_def aread_def never_err_def)
  then show ?thesis by (intro wpI wp_Ok [OF w] wp_not_panic [OF w]) auto
qed

lemma enumerate_services_holds:
  assumes "ready 64 sv" and a: "addressed hdr"
  shows "holds 64 (enumerate_services oc tr ep hdr) sv"
  unfolding enumerate_services_def wp_abind
proof (rule wp_state_kept [OF assms(1)], goal_cases)
  case (1 s)
  then show ?case by (intro wp_mono [OF enumerate_begin_spec]) (auto simp: reg_wire_def)
next
  case (3 s ticket t)
  have tk: "ticket_ready ticket t" using 3 by (intro enumerate_begin_ready) (auto simp: reg_wire_def)
  let ?sv = "sv\<lparr>sv_state := Some t\<rparr>"
  have "wp (state_call (enumeration_complete ticket))
      (\<lambda>r. holds 64 (case r of Inl _ \<Rightarrow> alift Panic | Inr u \<Rightarrow> aret u)) (\<lambda>_. ready 64) (?sv\<lparr>sv_io := io\<rparr>)" for io
  proof (rule wp_state_call)
    show "sv_state (?sv\<lparr>sv_io := io\<rparr>) = Some t" by simp
  qed (rule wp_mono [OF enumeration_complete_ready [OF 3(4) tk]], auto simp: wp_aret intro: ready_state)
  then show ?case
    by (auto simp: wp_abind wp_aret intro!: wp_send_pages [OF _ 3(4) tk a])
qed (use a in \<open>auto intro: state_error_holds safe_requests\<close>)

subsection \<open>Receiving from an endpoint\<close>

lemma dispatch_holds:
  assumes r: "ready 64 sv" and a: "addressed hdr" and v: "message_valid m" and h: "handles \<noteq> []"
  shows "holds 64 (dispatch oc tr ep hdr m handles) sv"
proof -
  have refuse: "holds 64 (abind (close_received tr handles n) (\<lambda>_. complete_error tr ep hdr code)) sv" for n code
    using r a by (auto simp: wp_abind intro!: wp_close_received complete_error_holds)
  have i: "index_r handles 0 = (Ok (handles ! 0) :: ('e, _) res)" using h by (simp add: index_r_def)
  note parts = dispatch_publish_holds [OF r a] dispatch_retire_holds [OF r a] connect_holds [OF r a]
    enumerate_services_holds [OF r a] dispatch_watch_holds [OF r a] dispatch_cancel_holds [OF r a] refuse
  have step: "wp (abind (alift (index_r handles 0)) k) Q E s = wp (k (handles ! 0)) Q E s" for k Q E and s :: "'a service"
    by (simp add: wp_abind wp_alift index_r_def h)
  show ?thesis
    using v parts unfolding dispatch_def
    by (cases "ie_kind ep"; cases m) (simp_all add: step)
qed

lemma decode_header_fields:
  assumes "decode_header bytes = Ok decoded"
  shows "dh_transaction_id decoded \<noteq> 0"
    and "parse oc bytes n = Ok pm \<Longrightarrow> dh_message_type decoded = Some (h_message_type (pm_header pm))"
  using assms
  by (auto simp: decode_header_def parse_def parse_header_def res_simps Let_def split: if_splits)

text \<open>The endpoints the service waits on: installed, so with an identity other than zero.\<close>

definition endpoint_wire :: "installed_endpoint_r \<Rightarrow> bool" where
  "endpoint_wire ep \<longleftrightarrow> ep_id (ie_identity ep) \<noteq> 0 \<and> ep_generation (ie_identity ep) \<noteq> 0"

lemma installed_wire:
  assumes "wire_ok s" and "ep \<in> set (installed_endpoints s)"
  shows "endpoint_wire ep"
  using assms by (auto simp: installed_endpoints_def endpoint_wire_def wire_ok_def slot_wire_def client_wire_def set_flatten
      map_filter_def)

lemma allowed_not_supervisor: "request_type_allowed kind (Some t) \<Longrightarrow> \<not> on_supervisor t"
  by (auto simp: request_type_allowed_def on_supervisor_def split: endpoint_kind.splits)

lemma wp_receive_message:
  assumes tr: "slices_kept tr"
    and Q: "\<And>r bytes handles io. length bytes = MAX_MESSAGE_BYTES \<Longrightarrow> length handles = MAX_RECEIVED_HANDLES \<Longrightarrow>
      Q (r, bytes, handles) (sv\<lparr>sv_io := io\<rparr>)"
  shows "wp (receive_message tr channel) Q E sv"
proof -
  let ?b = "replicate MAX_MESSAGE_BYTES (0 :: byte)" and ?h = "replicate MAX_RECEIVED_HANDLES received_default"
  obtain r bytes handles io where recv: "tr_receive tr channel ?b ?h (sv_io sv) = (r, bytes, handles, io)"
    by (cases "tr_receive tr channel ?b ?h (sv_io sv)")
  then have "length bytes = length ?b \<and> length handles = length ?h" using tr unfolding slices_kept_def by blast
  then show ?thesis using recv Q by (simp add: wp_def receive_message_def)
qed

text \<open>Only a service list can make the parser panic, and no endpoint may send one: requests of endpoints
  are safe in every build profile.\<close>

lemma parse_allowed:
  assumes "decode_header d = Ok decoded" and "header_refused ep g decoded = None"
  shows "parse oc d n \<noteq> Panic"
proof -
  have "parse_body oc d n t \<noteq> Panic" if "t \<noteq> T_ServiceList" for t
    using that by (cases t) (simp_all add: parse_body_def res_simps)
  moreover have "dh_message_type decoded \<noteq> Some T_ServiceList"
    using assms(2) by (auto simp: header_refused_def request_type_allowed_def split: if_splits endpoint_kind.splits)
  moreover have "dh_message_type decoded = Some (h_message_type (ph_header f))" if "parse_header d = Ok f" for f
    using assms(1) that by (auto simp: decode_header_def parse_header_def res_simps Let_def split: if_splits)
  ultimately show ?thesis by (auto simp: parse_def res_simps Let_def)
qed

lemma endpoint_request_holds:
  assumes r: "ready 64 sv" and e: "endpoint_wire ep" and h: "handles \<noteq> []"
  shows "holds 64 (endpoint_request oc tr ep d counts handles) sv"
proof (cases "decode_header d")
  case (Ok decoded)
  obtain s where s: "sv_state sv = Some s" "rg_generation s \<noteq> 0"
    using r reg_wire_generation unfolding ready_def by blast
  have refuse: "holds 64 (abind (close_received tr handles n) (\<lambda>_. complete_error tr ep
      \<lparr>h_message_type = t, h_registry_generation = rg_generation s, h_endpoint_id = ep_id (ie_identity ep),
       h_endpoint_generation = ep_generation (ie_identity ep), h_transaction_id = dh_transaction_id decoded\<rparr> code)) sv" for n t code
    using r e s(2) decode_header_fields(1) [OF Ok]
    by (auto simp: wp_abind endpoint_wire_def addressed_def intro!: wp_close_received complete_error_holds)
  have go: "holds 64 (dispatch oc tr ep (pm_header pm) (pm_message pm) handles) sv"
    if "parse oc d n = Ok pm" "header_refused ep g decoded = None" for n pm g
  proof (rule dispatch_holds [OF r _ _ h])
    have "\<not> on_supervisor (h_message_type (pm_header pm))"
      using that(2) decode_header_fields(2) [OF Ok that(1)] allowed_not_supervisor
      by (auto simp: header_refused_def split: if_splits)
    then show "addressed (pm_header pm)" using parse_valid(1) [OF that(1)] by (simp add: header_ok_def addressed_def)
    show "message_valid (pm_message pm)" by (rule parse_valid(5) [OF that(1)])
  qed
  show ?thesis
  proof (cases "header_refused ep (rg_generation s) decoded")
    case None
    then show ?thesis using Ok s(1) refuse go [OF _ None] parse_allowed [OF Ok None, of oc "rc_handles counts"]
      by (cases "parse oc d (rc_handles counts)") (simp_all add: endpoint_request_def wp_abind wp_aread Let_def)
  qed (use Ok s(1) refuse in \<open>simp add: endpoint_request_def wp_abind wp_aread Let_def\<close>)
next
  case (Err x)
  then show ?thesis using r by (auto simp: endpoint_request_def intro: wp_close_received)
qed (simp add: decode_header_no_panic)

lemma receive_endpoint_holds:
  assumes r: "ready 64 sv" and e: "endpoint_wire ep" and tr: "slices_kept tr"
  shows "holds 64 (receive_endpoint oc tr ep) sv"
  unfolding receive_endpoint_def wp_abind
proof (rule wp_receive_message [OF tr], goal_cases)
  case (1 received bytes handles io)
  have r': "ready 64 (sv\<lparr>sv_io := io\<rparr>)" and h: "handles \<noteq> []" using r 1(2) by (auto simp: MAX_RECEIVED_HANDLES_def)
  have "holds 64 (abind (close_received tr handles n) (\<lambda>_. remove_endpoint tr ep)) (sv\<lparr>sv_io := io\<rparr>)" for n
    using r' by (auto simp: wp_abind intro!: wp_close_received remove_endpoint_holds)
  then show ?case using remove_endpoint_holds [OF r'] endpoint_request_holds [OF r' e h]
    by (cases received) (auto simp: wp_abind wp_alift region_r_def)
qed

subsection \<open>The control channel\<close>

lemma collect_endpoints_Ok:
  assumes "c \<le> length (installed_endpoints s)" and "length (installed_endpoints s) \<le> length es"
    and "take c es = take c (installed_endpoints s)"
  shows "\<exists>es'. collect_endpoints s es c = Ok (es', endpoint_count s) \<and> length es' = length es \<and>
    take (endpoint_count s) es' = installed_endpoints s"
  using assms
proof (induction s es c rule: collect_endpoints.induct)
  case (1 s es c)
  let ?L = "installed_endpoints s"
  show ?case
  proof (cases "c < length ?L")
    case True
    then have e: "installed_endpoint s c = Some (?L ! c)" by (simp add: installed_endpoint_def get_index_def)
    have "take (Suc c) (es[c := ?L ! c]) = take (Suc c) ?L"
      using True 1(3-4) by (simp add: take_Suc_conv_app_nth)
    then show ?thesis using 1(1) [OF e] 1(3) True e by (simp add: collect_endpoints.simps [of s es])
  next
    case False
    then have "installed_endpoint s c = None" by (simp add: installed_endpoint_def get_index_def)
    then show ?thesis using False 1(2-4) by (simp add: collect_endpoints.simps [of s es] length_installed [symmetric])
  qed
qed

lemma wp_snapshot:
  assumes sv: "service_ok sv"
    and Q: "\<And>es n. length es = MAX_ENDPOINTS \<Longrightarrow> n \<le> MAX_ENDPOINTS \<Longrightarrow> \<forall>e \<in> set (take n es). endpoint_wire e \<Longrightarrow>
      (sv_state sv = None \<longrightarrow> n = 0) \<Longrightarrow> Q (es, n) sv"
  shows "wp snapshot Q E sv"
proof (cases "sv_state sv")
  case None
  then show ?thesis using Q [of "replicate MAX_ENDPOINTS placeholder" 0] by (simp add: snapshot_def wp_abind wp_aget wp_aret)
next
  case (Some s)
  then have s: "reg_wire s" using sv by (simp add: service_ok_def)
  obtain es where es: "collect_endpoints s (replicate MAX_ENDPOINTS placeholder) 0 = (Ok (es, endpoint_count s) :: ('b service_error, _) res)"
      "length es = MAX_ENDPOINTS" "take (endpoint_count s) es = installed_endpoints s"
    using collect_endpoints_Ok [of 0 s "replicate MAX_ENDPOINTS placeholder"] reg_wire_count [OF s]
    by (auto simp: length_installed MAX_ENDPOINTS_def)
  have "\<forall>e \<in> set (installed_endpoints s). endpoint_wire e" using s installed_wire by (auto simp: reg_wire_def)
  then show ?thesis using Some es Q [OF es(2), of "endpoint_count s"] reg_wire_count [OF s]
    by (simp add: snapshot_def wp_abind wp_aget wp_alift MAX_ENDPOINTS_def)
qed

abbreviation maintains :: "('io, 'err, 'a) sop \<Rightarrow> 'io service \<Rightarrow> bool" where
  "maintains m sv \<equiv> wp m (\<lambda>_. service_ok) (\<lambda>_. service_ok) sv"

lemma holds_maintains: "holds n m sv \<Longrightarrow> maintains m sv"
  by (erule wp_mono) (auto intro: ready_service_ok)

lemma retire_closed_holds: "ready 64 sv \<Longrightarrow> holds 64 (retire_closed tr es) sv"
proof (induction es arbitrary: sv)
  case (Cons e es)
  obtain ep closed where e: "e = (ep, closed)" by (cases e)
  have "wp (retire_peer tr ep) (\<lambda>_. holds 64 (retire_closed tr es)) (\<lambda>_. ready 64) sv"
    by (rule wp_mono [OF retire_peer_holds]) (use Cons in auto)
  then show ?case using Cons e by (simp add: wp_abind wp_aret)
qed (simp add: wp_aret)

lemma wp_probe_endpoints:
  assumes "\<And>closed io. Q closed (sv\<lparr>sv_io := io\<rparr>)" and "\<And>e io. E e (sv\<lparr>sv_io := io\<rparr>)"
  shows "wp (probe_endpoints tr es) Q E sv"
  using assms
proof (induction es arbitrary: sv Q)
  case Nil
  from Nil(1) [of _ "sv_io sv"] show ?case by (simp add: wp_aret)
next
  case (Cons e es)
  then show ?case by (auto simp: wp_abind wp_aret intro!: wp_io_try Cons.IH)
qed

lemma sweep_holds: "ready 64 sv \<Longrightarrow> holds 64 (sweep_closed_endpoints tr) sv"
  unfolding sweep_closed_endpoints_def wp_abind
  by (rule wp_snapshot [OF ready_service_ok])
    (auto simp: wp_abind intro!: wp_probe_endpoints retire_closed_holds)

lemma sweep_before_holds:
  assumes "ready 64 sv"
  shows "holds 64 (sweep_before tr m h) sv"
proof (cases "case m of M_InstallClient _ \<Rightarrow> True | _ \<Rightarrow> False")
  case True
  note w = sweep_holds [OF assms, of tr]
  have close: "holds 64 (abind (io_try (tr_close tr (rh_handle h))) (\<lambda>_. afail e :: (_, _, unit) sop)) sv'"
    if "ready 64 sv'" for e sv'
    using that by (auto simp: wp_abind wp_afail intro: wp_io_try)
  show ?thesis
  proof (cases "sweep_closed_endpoints tr sv")
    case (Pair r sv')
    then show ?thesis using True w close [of sv'] by (cases r) (auto simp: wp_def sweep_before_def)
  qed
qed (use assms in \<open>simp add: sweep_before_def wp_def\<close>)

lemma install_holds:
  assumes r: "ready 64 sv" and v: "message_valid (pm_message request)"
    and m: "case pm_message request of M_InstallPublication _ \<Rightarrow> True | M_InstallClient _ \<Rightarrow> True | _ \<Rightarrow> False"
  shows "holds 64 (install tr request h) sv"
proof -
  have close: "holds 64 (io_try (tr_close tr x)) sv'" if "ready 64 sv'" for x sv'
    using that by (auto intro: wp_io_try)
  have "wp (state_call (install_publication g k i)) (\<lambda>r. holds 64 (case r of Inl _ \<Rightarrow> io_try (tr_close tr x) | Inr u \<Rightarrow> aret u))
      (\<lambda>_. ready 64) sv" if i: "message_valid (M_InstallPublication i)" for g k i x
  proof (rule wp_state_kept [OF r _ safe_install_publication [OF i]], goal_cases)
    case (1 s)
    then show ?case using install_publication_keeps install_valid_message [OF i] by (simp add: reg_wire_def)
  qed (auto simp: wp_aret intro: close ready_state)
  moreover have "wp (state_call (install_client g k i)) (\<lambda>r. holds 64 (case r of Inl _ \<Rightarrow> io_try (tr_close tr x) | Inr u \<Rightarrow> aret u))
      (\<lambda>_. ready 64) sv" if i: "message_valid (M_InstallClient i)" for g k i x
  proof (rule wp_state_kept [OF r _ safe_install_client [OF i]], goal_cases)
    case (1 s)
    then show ?case using install_client_keeps by (simp add: reg_wire_def)
  qed (auto simp: wp_aret intro: close ready_state)
  moreover obtain s where "sv_state sv = Some s" using r by (auto simp: ready_def)
  ultimately show ?thesis
    using v m unfolding install_def
    by (cases "pm_message request") (simp_all add: wp_abind wp_aget del: message_valid.simps)
qed

lemma registry_new_wire:
  assumes "g \<noteq> 0"
  obtains s where "registry_new g = Ok s" "reg_wire s"
proof -
  obtain s where s: "registry_new g = Ok s" using assms by (simp add: registry_new_def)
  then have "rg_services s = replicate MAX_SERVICES None" "rg_clients s = replicate MAX_CLIENTS None"
    using assms by (auto simp: registry_new_def)
  then have "wire_ok s" by (auto simp: wire_ok_def)
  then show thesis using that [OF s] registry_new_ok [OF s] by (simp add: reg_wire_def)
qed

lemma ensure_state_ready:
  assumes "g \<noteq> 0" and "service_ok sv"
  shows "ready 64 (ensure_state g sv)"
proof -
  obtain s where "registry_new g = Ok s" "reg_wire s" using registry_new_wire [OF assms(1)] .
  then show ?thesis using assms(2) reg_wire_count by (auto simp: ensure_state_def ready_def service_ok_def)
qed

lemma control_request_holds:
  assumes sv: "service_ok sv" and h: "handles \<noteq> []"
  shows "maintains (control_request False tr d counts handles) sv"
proof (cases "parse False d (rc_handles counts)")
  case (Ok pm)
  have g: "h_registry_generation (pm_header pm) \<noteq> 0" using parse_valid(1) [OF Ok] by (simp add: header_ok_def)
  let ?up = "ensure_state (h_registry_generation (pm_header pm))"
  have go: "holds 64 (abind (sweep_before tr (pm_message pm) x) (\<lambda>_. install tr pm x)) sv'"
    if "ready 64 sv'" "case pm_message pm of M_InstallPublication _ \<Rightarrow> True | M_InstallClient _ \<Rightarrow> True | _ \<Rightarrow> False" for x sv'
    unfolding wp_abind
    by (rule wp_mono [OF sweep_before_holds [OF that(1)]]) (use parse_valid(5) [OF Ok] that(2) in \<open>auto intro: install_holds\<close>)
  have request: "wp (install_request tr (pm_message pm) counts handles) (\<lambda>valid. maintains
      (if \<not> valid then close_received tr handles (rc_handles counts)
          else
            abind (alift (index_r handles 0)) (\<lambda>h.
            abind (amod ?up) (\<lambda>_.
            abind (sweep_before tr (pm_message pm) h) (\<lambda>_.
            install tr pm h))))) (\<lambda>_. service_ok) sv"
  proof -
    have "maintains (close_received tr handles n) sv'" if "service_ok sv'" for n sv'
      using that by (auto intro: wp_close_received)
    moreover have "wp (sweep_before tr (pm_message pm) (handles ! 0)) (\<lambda>_. maintains (install tr pm (handles ! 0))) (\<lambda>_. service_ok) (?up sv')"
      if "service_ok sv'" "case pm_message pm of M_InstallPublication _ \<Rightarrow> True | M_InstallClient _ \<Rightarrow> True | _ \<Rightarrow> False" for sv'
      using holds_maintains [OF go [OF ensure_state_ready [OF g that(1)] that(2)]] by (simp add: wp_abind)
    ultimately show ?thesis using sv h unfolding install_request_def
      by (auto simp: wp_abind wp_alift wp_amod wp_aret index_r_def intro!: wp_io_ok split: message.splits)
  qed
  then show ?thesis using Ok by (simp add: control_request_def wp_abind)
next
  case (Err e)
  then show ?thesis using sv by (auto simp: control_request_def intro: wp_close_received)
qed (simp add: parse_no_panic)

lemma receive_control_holds:
  assumes sv: "service_ok sv" and tr: "slices_kept tr"
  shows "maintains (receive_control False tr) sv"
  unfolding receive_control_def wp_abind wp_aget
proof (rule wp_receive_message [OF tr], goal_cases)
  case (1 received bytes handles io)
  have sv': "service_ok (sv\<lparr>sv_io := io\<rparr>)" and h: "handles \<noteq> []" using sv 1(2) by (auto simp: MAX_RECEIVED_HANDLES_def)
  have "maintains (close_received tr handles n) (sv\<lparr>sv_io := io\<rparr>)" for n
    using sv by (auto intro: wp_close_received)
  then show ?case using control_request_holds [OF sv' h] sv
    by (cases received) (auto simp: wp_abind wp_alift wp_afail region_r_def)
qed

lemma step_maintains:
  assumes sv: "service_ok sv" and tr: "slices_kept tr"
  shows "maintains (service_step False tr) sv"
  unfolding service_step_def wp_abind
proof (rule wp_snapshot [OF sv], goal_cases)
  case (1 es n)
  have region: "region_r 0 n es = (Ok (take n es) :: ('b service_error, _) res)"
    using 1 by (simp add: region_r_def region_def)
  have endpoint: "maintains (receive_endpoint False tr (es ! i)) (sv\<lparr>sv_io := io\<rparr>)"
    "maintains (retire_peer tr (es ! i)) (sv\<lparr>sv_io := io\<rparr>)" if "i < n" for i io
  proof -
    have "es ! i \<in> set (take n es)" using that 1 by (auto simp: in_set_conv_nth)
    then have e: "endpoint_wire (es ! i)" using 1(3) by blast
    have "sv_state sv \<noteq> None" using 1(4) that by auto
    then have r: "ready 64 (sv\<lparr>sv_io := io\<rparr>)" using sv reg_wire_count by (auto simp: ready_def service_ok_def)
    show "maintains (receive_endpoint False tr (es ! i)) (sv\<lparr>sv_io := io\<rparr>)"
      by (rule holds_maintains [OF receive_endpoint_holds [OF r e tr]])
    show "maintains (retire_peer tr (es ! i)) (sv\<lparr>sv_io := io\<rparr>)"
      by (rule holds_maintains [OF retire_peer_holds [OF r]])
  qed
  have control: "maintains (receive_control False tr) (sv\<lparr>sv_io := io\<rparr>)" for io
    using sv by (intro receive_control_holds tr) simp
  show ?case
    using sv region endpoint control
    by (auto simp: wp_abind wp_aget wp_alift wp_afail get_index_def split: option.splits intro!: wp_io_try)
qed

end
