(* ===== verification/RegistryServiceRun.thy ===== *)
theory RegistryServiceRun
  imports RegistryServiceStep
begin

text \<open>
  Runs of the registry service on a kernel that plays a script: every step delivers the next datagram of
  the script, and what the step does is computed from the message that the datagram encodes.
\<close>

subsection \<open>A scripted kernel\<close>

text \<open>A delivery is a datagram with its handles, from the control channel or from the installed endpoint
  at an index. The kernel reports it readable, closes what it is told to close, finds every peer open, and
  refuses what is sent on the channels \<open>deaf\<close>, whose peers read nothing any more.\<close>

datatype delivery = Delivery (dl_from: "nat option") (dl_bytes: "byte list") (dl_handles: "u64 list")

definition channel_handle :: "u64 \<Rightarrow> received_handle" where
  "channel_handle h = \<lparr>rh_handle = h, rh_is_channel = True, rh_rights = 0\<rparr>"

definition script_transport :: "u64 list \<Rightarrow> (delivery list, nat) transport" where
  "script_transport deaf =
     \<lparr>tr_wait = (\<lambda>_ _ io. case io of [] \<Rightarrow> (Inl 1, io)
        | d # _ \<Rightarrow> (Inr \<lparr>we_endpoint_index = dl_from d, we_readable = True, we_peer_closed = False\<rparr>, io)),
      tr_probe = (\<lambda>_ io. (Inr \<lparr>ps_readable = False, ps_peer_closed = False\<rparr>, io)),
      tr_receive = (\<lambda>_ bytes handles io. case io of [] \<Rightarrow> (Inl 1, bytes, handles, io)
        | d # rest \<Rightarrow> (Inr \<lparr>rc_bytes = length (dl_bytes d), rc_handles = length (dl_handles d)\<rparr>,
            take (length bytes) (dl_bytes d @ drop (length (dl_bytes d)) bytes),
            take (length handles) (map channel_handle (dl_handles d) @ drop (length (dl_handles d)) handles), rest)),
      tr_validate_channel = (\<lambda>_ _ io. (Inr (), io)),
      tr_send = (\<lambda>h b io. (if h \<in> set deaf then Inl 0 else Inr (), io)),
      tr_send_move = (\<lambda>c b h _ io. (Inr (), io)),
      tr_close = (\<lambda>h io. (Inr (), io))\<rparr>"

lemma script_slices: "slices_kept (script_transport deaf)"
  by (auto simp: slices_kept_def script_transport_def split: list.splits)

text \<open>The results of the steps, as long as they are asked for; the loop of \<^verbatim>\<open>main.rs\<close> ends at the first error.\<close>

primrec service_run :: "nat \<Rightarrow> bool \<Rightarrow> ('io, 'err) transport \<Rightarrow> 'io service \<Rightarrow> ('err service_error, unit) res list" where
  "service_run 0 oc tr sv = []"
| "service_run (Suc n) oc tr sv =
     (case service_step oc tr sv of (Ok _, sv') \<Rightarrow> Ok () # service_run n oc tr sv' | (r, _) \<Rightarrow> [r])"

subsection \<open>What a step does with a datagram\<close>

text \<open>The datagram an encoder writes into a buffer of its size.\<close>

definition datagram :: "nat \<Rightarrow> (byte list, proto_error, nat) action \<Rightarrow> byte list" where
  "datagram n enc = take n (snd (enc (replicate n 0)))"

lemma datagram_parses:
  assumes "encodes hdr m h n enc" and "header_ok hdr" and "n \<le> 416"
  shows "length (datagram n enc) = n" and "parse oc (datagram n enc) h = Ok \<lparr>pm_header = hdr, pm_message = m\<rparr>"
proof -
  have "n \<le> usize_max" using assms(3) usize_512 by simp
  then obtain out where e: "enc (replicate n 0) = (Ok n, out)"
    using encodes_fills [OF assms(1,2) order_refl] unfolding fills_def by (metis length_replicate)
  note w = wire_parse [OF encodes_wire [OF assms(1)] assms(2) e]
  show "length (datagram n enc) = n" using e w(4) by (simp add: datagram_def)
  show "parse oc (datagram n enc) h = Ok \<lparr>pm_header = hdr, pm_message = m\<rparr>" using e w(1) by (simp add: datagram_def)
qed

lemma parsed_not_refused:
  assumes "parse oc d n = Ok pm" and "h_registry_generation (pm_header pm) = g"
    and "h_endpoint_id (pm_header pm) = ep_id (ie_identity ep)"
    and "h_endpoint_generation (pm_header pm) = ep_generation (ie_identity ep)"
    and "request_type_allowed (ie_kind ep) (Some (h_message_type (pm_header pm)))"
  shows "\<exists>decoded. decode_header d = Ok decoded \<and> header_refused ep g decoded = None"
proof -
  have "take 64 d = header_bytes (pm_header pm) n (length d)" by (rule parse_valid(2) [OF assms(1)])
  then have d: "d = header_bytes (pm_header pm) n (length d) @ drop 64 d" by (metis append_take_drop_id)
  have len: "\<not> length d < 64"
    using assms(1) by (auto simp: parse_def parse_header_def HEADER_BYTES_def res_simps Let_def split: if_splits)
  have t: "h_transaction_id (pm_header pm) \<noteq> 0" using parse_valid(1) [OF assms(1)] by (simp add: header_ok_def)
  note reads = header_reads [of "pm_header pm" n "length d" "drop 64 d", folded d]
  show ?thesis
    using assms(2-5) t len
    by (simp add: decode_header_def HEADER_BYTES_def reads header_refused_def WRRG_MAJOR_def WRRG_MINOR_def)
qed

lemma snapshot_run:
  assumes "service_ok sv" and "sv_state sv = Some s"
  shows "\<exists>es. snapshot sv = (Ok (es, endpoint_count s), sv) \<and> length es = MAX_ENDPOINTS \<and> endpoint_count s \<le> MAX_ENDPOINTS \<and>
    take (endpoint_count s) es = installed_endpoints s"
proof -
  have c: "endpoint_count s \<le> MAX_ENDPOINTS"
    using assms reg_wire_count by (simp add: service_ok_def MAX_ENDPOINTS_def)
  then show ?thesis
    using collect_endpoints_Ok [of 0 s "replicate MAX_ENDPOINTS placeholder"] assms(2)
    by (fastforce simp: snapshot_def action_defs length_installed)
qed

lemma script_receive:
  assumes "sv_io sv = Delivery from b hs # rest" and "length b \<le> MAX_MESSAGE_BYTES" and "length hs \<le> MAX_RECEIVED_HANDLES"
  shows "\<exists>bytes handles. receive_message (script_transport deaf) channel sv =
      (Ok (Inr \<lparr>rc_bytes = length b, rc_handles = length hs\<rparr>, bytes, handles), sv\<lparr>sv_io := rest\<rparr>) \<and>
    length bytes = MAX_MESSAGE_BYTES \<and> length handles = MAX_RECEIVED_HANDLES \<and>
    take (length b) bytes = b \<and> take (length hs) handles = map channel_handle hs"
  using assms by (simp add: receive_message_def script_transport_def)

lemma script_wait:
  assumes "sv_io sv = Delivery from b hs # rest"
  shows "io_try (tr_wait (script_transport deaf) c es) sv =
    (Ok \<lparr>we_endpoint_index = from, we_readable = True, we_peer_closed = False\<rparr>, sv)"
  using assms by (cases sv) (simp add: io_try_def io_call_def script_transport_def action_defs)

text \<open>A step that finds an endpoint readable hands its request to the dispatcher.\<close>

lemma step_request:
  assumes sv: "service_ok sv" and s: "sv_state sv = Some s" and io: "sv_io sv = Delivery (Some i) b hs # rest"
    and b: "length b \<le> MAX_MESSAGE_BYTES" and hs: "length hs \<le> MAX_RECEIVED_HANDLES"
    and i: "i < length (installed_endpoints s)" "installed_endpoints s ! i = ep"
    and c: "length hs = n" and p: "parse oc b n = Ok pm" and g: "h_registry_generation (pm_header pm) = rg_generation s"
    and e: "h_endpoint_id (pm_header pm) = ep_id (ie_identity ep)"
      "h_endpoint_generation (pm_header pm) = ep_generation (ie_identity ep)"
    and k: "request_type_allowed (ie_kind ep) (Some (h_message_type (pm_header pm)))"
  shows "\<exists>handles. service_step oc (script_transport deaf) sv =
    dispatch oc (script_transport deaf) ep (pm_header pm) (pm_message pm) handles (sv\<lparr>sv_io := rest\<rparr>)"
proof -
  let ?tr = "script_transport deaf"
  obtain es where es: "snapshot sv = (Ok (es, endpoint_count s) :: (nat service_error, _) res, sv)" "length es = MAX_ENDPOINTS"
      "endpoint_count s \<le> MAX_ENDPOINTS" "take (endpoint_count s) es = installed_endpoints s"
    using snapshot_run [OF sv s] by blast
  have at: "i < endpoint_count s" "es ! i = ep" using i es(4) by (auto simp: length_installed) (metis nth_take)
  obtain bytes handles where r: "receive_message ?tr (ie_handle ep) sv =
      (Ok (Inr \<lparr>rc_bytes = length b, rc_handles = length hs\<rparr>, bytes, handles), sv\<lparr>sv_io := rest\<rparr>)"
      "length bytes = MAX_MESSAGE_BYTES" "length handles = MAX_RECEIVED_HANDLES" "take (length b) bytes = b"
    using script_receive [OF io b hs] by blast
  obtain decoded where d: "decode_header b = Ok decoded" "header_refused ep (rg_generation s) decoded = None"
    using parsed_not_refused [OF p g e k] by blast
  have "service_step oc ?tr sv = receive_endpoint oc ?tr ep sv"
    unfolding service_step_def using es at
    by (simp add: es(1) action_defs script_wait [OF io] region_r_def ok_or_simps get_index_def)
  also have "\<dots> = endpoint_request oc ?tr ep b \<lparr>rc_bytes = length b, rc_handles = length hs\<rparr> handles (sv\<lparr>sv_io := rest\<rparr>)"
    unfolding receive_endpoint_def using r b hs
    by (simp add: r(1) action_defs region_r_def region_def)
  also have "\<dots> = dispatch oc ?tr ep (pm_header pm) (pm_message pm) handles (sv\<lparr>sv_io := rest\<rparr>)"
    using d p s c by (simp add: endpoint_request_def action_defs Let_def)
  finally show ?thesis by blast
qed

text \<open>A step that finds the control channel readable installs the endpoint of the message, after a sweep
  that finds nothing closed.\<close>

lemma script_probes: "probe_endpoints (script_transport deaf) es sv = (Ok (map (\<lambda>_. False) es), sv)"
  by (induction es) (simp_all add: action_defs io_try_def io_call_def script_transport_def)

lemma retire_none: "retire_closed tr (zip es (map (\<lambda>_. False) es)) sv = (Ok (), sv)"
  by (induction es) (simp_all add: action_defs)

lemma script_sweep:
  assumes "service_ok sv"
  shows "sweep_closed_endpoints (script_transport deaf) sv = (Ok (), sv)"
proof -
  obtain es n where "snapshot sv = (Ok (es, n) :: (nat service_error, _) res, sv)"
  proof (cases "sv_state sv")
    case None
    then show thesis using that by (simp add: snapshot_def action_defs)
  next
    case (Some s)
    then show thesis using that snapshot_run [OF assms] by blast
  qed
  then show ?thesis
    by (simp add: sweep_closed_endpoints_def action_defs script_probes retire_none)
qed

lemma step_install:
  assumes sv: "service_ok sv" and io: "sv_io sv = Delivery None b [h] # rest" and b: "length b \<le> MAX_MESSAGE_BYTES"
    and p: "parse oc b 1 = Ok pm" and m: "case pm_message pm of M_InstallPublication _ \<Rightarrow> True | M_InstallClient _ \<Rightarrow> True | _ \<Rightarrow> False"
  shows "service_step oc (script_transport deaf) sv =
    install (script_transport deaf) pm (channel_handle h) (ensure_state (h_registry_generation (pm_header pm)) (sv\<lparr>sv_io := rest\<rparr>))"
proof -
  let ?tr = "script_transport deaf" and ?sv = "ensure_state (h_registry_generation (pm_header pm)) (sv\<lparr>sv_io := rest\<rparr>)"
  obtain es n where es: "snapshot sv = (Ok (es, n) :: (nat service_error, _) res, sv)" "n \<le> length es"
  proof (cases "sv_state sv")
    case None
    then show thesis using that by (simp add: snapshot_def action_defs)
  next
    case (Some s)
    then show thesis using that snapshot_run [OF sv] by fastforce
  qed
  have hs: "length [h] \<le> MAX_RECEIVED_HANDLES" by (simp add: MAX_RECEIVED_HANDLES_def)
  obtain bytes handles where r: "receive_message ?tr (sv_control sv) sv =
      (Ok (Inr \<lparr>rc_bytes = length b, rc_handles = 1\<rparr>, bytes, handles), sv\<lparr>sv_io := rest\<rparr>)"
      "length bytes = MAX_MESSAGE_BYTES" "length handles = MAX_RECEIVED_HANDLES" "take (length b) bytes = b"
      "take 1 handles = [channel_handle h]"
    using script_receive [OF io b hs, of deaf "sv_control sv"] by auto
  have h: "handles ! 0 = channel_handle h" using r(5) by (cases handles) simp_all
  have g: "h_registry_generation (pm_header pm) \<noteq> 0" using parse_valid(1) [OF p] by (simp add: header_ok_def)
  have "service_ok ?sv" using ready_service_ok [OF ensure_state_ready [OF g, of "sv\<lparr>sv_io := rest\<rparr>"]] sv by simp
  then have sweep: "sweep_before ?tr (pm_message pm) (channel_handle h) ?sv = (Ok (), ?sv)"
    by (simp add: sweep_before_def script_sweep)
  have valid: "install_request ?tr (pm_message pm) \<lparr>rc_bytes = length b, rc_handles = 1\<rparr> handles (sv\<lparr>sv_io := rest\<rparr>) =
      (Ok True, sv\<lparr>sv_io := rest\<rparr>)"
    using m r(3) by (auto simp: install_request_def index_r_def MAX_RECEIVED_HANDLES_def action_defs io_ok_def io_call_def
        script_transport_def split: message.splits)
  have "service_step oc ?tr sv = receive_control oc ?tr sv"
    unfolding service_step_def using es
    by (simp add: es(1) action_defs script_wait [OF io] region_r_def)
  also have "\<dots> = control_request oc ?tr b \<lparr>rc_bytes = length b, rc_handles = 1\<rparr> handles (sv\<lparr>sv_io := rest\<rparr>)"
    unfolding receive_control_def using r(2-4) b
    by (auto simp: action_defs r(1) region_r_def region_def MAX_RECEIVED_HANDLES_def)
  also have "\<dots> = install ?tr pm (channel_handle h) ?sv"
    using p r(3) h by (simp add: control_request_def action_defs valid index_r_def MAX_RECEIVED_HANDLES_def sweep
        del: One_nat_def)
  finally show ?thesis .
qed

end
