(* ===== verification/RegistryServiceProps.thy ===== *)
theory RegistryServiceProps
  imports RegistryServiceRun RegistryProps
begin

text \<open>
  The theorems about the service step of the registry, with their witnesses.
\<close>

subsection \<open>Reachable services\<close>

text \<open>The loop of \<^verbatim>\<open>main.rs\<close> starts from a service without a state and repeats the step while it
  succeeds.\<close>

inductive service_reachable :: "('io, 'err) transport \<Rightarrow> 'io service \<Rightarrow> bool" for tr where
  start: "service_reachable tr (service_new control io)"
| step: "service_reachable tr sv \<Longrightarrow> service_step False tr sv = (Ok (), sv') \<Longrightarrow> service_reachable tr sv'"

lemma service_reachable_ok:
  assumes "service_reachable tr sv" and "slices_kept tr"
  shows "service_ok sv"
  using assms
proof (induction rule: service_reachable.induct)
  case (start control io)
  then show ?case by (simp add: service_ok_def service_new_def)
next
  case (step sv sv')
  then show ?case using wp_Ok [OF step_maintains] by blast
qed

subsection \<open>No panic\<close>

text \<open>C2. Built without overflow checks, the registry process never panics: whatever the kernel delivers,
  from the first step on, no step of the service loop panics and the registry state keeps its invariant.
  In particular every reply is one its encoder accepts, a publication acknowledged to its owner can be
  committed, an enumeration whose pages were sent can be completed, and removing the clients that cannot
  be notified ends within the 65 nested calls. In the states of these runs a request of an installed
  endpoint cannot make it panic in a build with overflow checks either; only the control channel, on which
  the parser reads a service list, can. The transport is any code that keeps the lengths of the slices it
  fills, as every \<^verbatim>\<open>&mut [T]\<close> does.\<close>

theorem service_never_panics:
  assumes "service_reachable tr sv" and "slices_kept tr"
  shows "fst (service_step False tr sv) \<noteq> Panic \<and>
    (\<forall>s. sv_state sv = Some s \<longrightarrow> registry_ok s \<and>
      (\<forall>ep oc. ep \<in> set (installed_endpoints s) \<longrightarrow> fst (receive_endpoint oc tr ep sv) \<noteq> Panic))"
proof -
  have ok: "service_ok sv" by (rule service_reachable_ok [OF assms])
  have "fst (receive_endpoint oc tr ep sv) \<noteq> Panic"
    if "sv_state sv = Some s" "ep \<in> set (installed_endpoints s)" for s ep oc
  proof -
    have "reg_wire s" using ok that(1) by (simp add: service_ok_def)
    then have "ready 64 sv" "endpoint_wire ep"
      using that reg_wire_count installed_wire by (auto simp: ready_def reg_wire_def)
    then show ?thesis by (intro wp_not_panic [OF receive_endpoint_holds] assms(2))
  qed
  moreover have "registry_ok s" if "sv_state sv = Some s" for s
    using ok that by (simp add: service_ok_def reg_wire_def)
  ultimately show ?thesis using wp_not_panic [OF step_maintains [OF ok assms(2)]] by blast
qed

text \<open>A registry whose first step has installed a client, on a kernel that goes on to deliver garbage from
  that client.\<close>

definition install_client_header :: header where
  "install_client_header = \<lparr>h_message_type = T_InstallClient, h_registry_generation = 1, h_endpoint_id = 0,
     h_endpoint_generation = 0, h_transaction_id = 1\<rparr>"

definition client_delivery :: delivery where
  "client_delivery = Delivery None (datagram 104 (encode_install_client install_client_header sample_client)) [5]"

definition service_at :: "registry \<Rightarrow> delivery list \<Rightarrow> delivery list service" where
  "service_at s script = \<lparr>sv_control = 3, sv_state = Some s, sv_io = script\<rparr>"

lemma client_datagram:
  "length (datagram 104 (encode_install_client install_client_header sample_client)) = 104"
  "parse oc (datagram 104 (encode_install_client install_client_header sample_client)) 1 =
     Ok \<lparr>pm_header = install_client_header, pm_message = M_InstallClient sample_client\<rparr>"
  by (intro datagram_parses [OF enc_install_client];
      simp add: install_client_header_def sample_client_def header_ok_def on_supervisor_def)+

lemma client_generation: "h_registry_generation install_client_header = 1"
  by (simp add: install_client_header_def)

lemma client_installed: "install_client 1 5 sample_client fresh_registry = (Ok (), with_client)"
proof -
  have "fst (install_client 1 5 sample_client fresh_registry) = Ok ()" by code_simp
  then show ?thesis by (simp add: with_client_def prod_eq_iff)
qed

lemma client_step:
  "service_step oc (script_transport deaf) (service_new 3 (client_delivery # script)) = (Ok (), service_at with_client script)"
proof -
  have "registry_new 1 = (Ok fresh_registry :: (registry_error, _) res)" by (simp add: fresh_registry_def registry_new_def)
  then have up: "ensure_state 1 (service_new 3 script) = service_at fresh_registry script"
    by (simp add: ensure_state_def service_new_def service_at_def)
  have "service_step oc (script_transport deaf) (service_new 3 (client_delivery # script)) =
      install (script_transport deaf) \<lparr>pm_header = install_client_header, pm_message = M_InstallClient sample_client\<rparr>
        (channel_handle 5) (ensure_state 1 (service_new 3 script))"
    by (subst step_install [OF _ _ _ client_datagram(2)])
      (simp_all add: service_ok_def service_new_def client_delivery_def client_datagram(1) MAX_MESSAGE_BYTES_def client_generation)
  then show ?thesis unfolding up
    by (simp add: install_def action_defs state_call_def service_at_def client_installed channel_handle_def client_generation)
qed

lemma client_endpoint: "\<lparr>ie_identity = client_ep, ie_handle = 5, ie_kind = K_Client\<rparr> \<in> set (installed_endpoints with_client)"
proof -
  have "installed_endpoints with_client = [\<lparr>ie_identity = client_ep, ie_handle = 5, ie_kind = K_Client\<rparr>]" by code_simp
  then show ?thesis by simp
qed

theorem service_never_panics_witness:
  "fst (service_step False (script_transport [5]) (service_at with_client [Delivery (Some 0) [87, 82, 82, 71] []])) \<noteq> Panic \<and>
   registry_ok with_client \<and>
   fst (receive_endpoint True (script_transport [5]) \<lparr>ie_identity = client_ep, ie_handle = 5, ie_kind = K_Client\<rparr>
     (service_at with_client [Delivery (Some 0) [87, 82, 82, 71] []])) \<noteq> Panic"
proof -
  let ?sv = "service_at with_client [Delivery (Some 0) [87, 82, 82, 71] []]"
  have "service_reachable (script_transport [5]) ?sv"
    by (rule service_reachable.step [OF service_reachable.start client_step])
  from service_never_panics [OF this script_slices] client_endpoint show ?thesis by (simp add: service_at_def)
qed

end
