(* ===== verification/RegistryServiceStops.thy ===== *)
theory RegistryServiceStops
  imports RegistryServiceProps
begin

text \<open>
  A client may watch a service twice. When both notifications cannot be sent, the second removal of
  the client ends the service step, and with it the registry, by an error. The run starts with the first
  step of the service and takes five datagrams.
\<close>

subsection \<open>A client with two watches\<close>

definition watched_twice :: registry where
  "watched_twice = snd (run_call (CallWatch client_ep 101 log_watch) with_watch)"

lemma watched_twice_reachable: "reachable watched_twice"
  unfolding watched_twice_def
  by (rule reachable.step [OF sample_reachable(4)]) (simp add: log_watch_def log_name_valid)

definition log_ticket :: publish_ticket where
  "log_ticket = \<lparr>pt_endpoint = service_ep, pt_transaction = 7\<rparr>"

definition log_note :: "u64 \<Rightarrow> watch_notification" where
  "log_note transaction = \<lparr>nt_client = client_ep, nt_client_handle = 5, nt_transaction_id = transaction,
     nt_service_generation = 3\<rparr>"

definition log_notes :: watch_notifications where
  "log_notes = \<lparr>wn_entries = Some (log_note 100) # Some (log_note 101) # replicate 30 None, wn_len = 2\<rparr>"

definition prepared_twice :: registry where
  "prepared_twice = snd (prepare_publish service_ep 7 watched_twice)"

definition published_twice :: registry where
  "published_twice = snd (commit_publish log_ticket prepared_twice)"

definition removed_client :: registry where
  "removed_client = snd (peer_closed client_ep published_twice)"

definition client_gone :: peer_close_outcome where
  "client_gone = \<lparr>pc_handle = 5, pc_kind = K_Client, pc_notifications = notifications_new\<rparr>"

text \<open>The four calls on the state that a publish makes when both notifications fail, with their results.\<close>

definition publish_chain :: "registry \<Rightarrow> (registry_error, publish_ticket) res \<times> (registry_error, publish_outcome) res \<times>
    (registry_error, peer_close_outcome) res \<times> (registry_error, peer_close_outcome) res" where
  "publish_chain s =
     (case prepare_publish service_ep 7 s of (r1, s1) \<Rightarrow>
      case commit_publish log_ticket s1 of (r2, s2) \<Rightarrow>
      case peer_closed client_ep s2 of (r3, s3) \<Rightarrow> (r1, r2, r3, fst (peer_closed client_ep s3)))"

lemma twice_chain:
  "publish_chain watched_twice =
     (Ok log_ticket, Ok \<lparr>po_service_generation = 3, po_notifications = log_notes\<rparr>, Ok client_gone, Err R_UnknownEndpoint)"
  by code_simp

subsection \<open>A client that cannot be reached\<close>

abbreviation deaf_transport :: "(delivery list, nat) transport" where
  "deaf_transport \<equiv> script_transport [5]"

lemma deaf_sends:
  assumes "addressed hdr"
  shows "Q False sv \<Longrightarrow> wp (send_generation deaf_transport 5 hdr g) Q E sv"
    and "Q True sv \<Longrightarrow> wp (send_empty_raw deaf_transport 6 hdr T_Published) Q E sv"
proof -
  have io: "wp (io_ok (tr_send deaf_transport h b)) Q E sv = Q (h \<noteq> 5) sv" for h b
    by (cases sv) (auto simp: io_ok_def io_call_def wp_def script_transport_def action_defs)
  show "Q False sv \<Longrightarrow> wp (send_generation deaf_transport 5 hdr g) Q E sv"
    unfolding send_generation_def wp_abind
    by (rule wp_encodes [OF enc_generation addressed_reply [OF assms]]) (auto simp: on_supervisor_def io)
  have m: "(h_message_type (hdr\<lparr>h_message_type := T_Published\<rparr>), M_Published) \<in>
      {(T_Publish, M_Publish), (T_Published, M_Published), (T_Retire, M_Retire),
       (T_Retired, M_Retired), (T_Connected, M_Connected), (T_Enumerate, M_Enumerate)}" by simp
  show "Q True sv \<Longrightarrow> wp (send_empty_raw deaf_transport 6 hdr T_Published) Q E sv"
    unfolding send_empty_raw_def wp_abind
    by (rule wp_encodes [OF enc_empty [OF m] addressed_reply [OF assms]]) (auto simp: on_supervisor_def HEADER_BYTES_def io)
qed

definition publish_header :: header where
  "publish_header = \<lparr>h_message_type = T_Publish, h_registry_generation = 1, h_endpoint_id = 20,
     h_endpoint_generation = 1, h_transaction_id = 7\<rparr>"

lemma wp_twice_call:
  "wp (state_call op) Q E (service_at s script) =
    (case op s of (Ok a, s') \<Rightarrow> Q (Inr a) (service_at s' script) | (Err e, s') \<Rightarrow> Q (Inl e) (service_at s' script) | (Panic, _) \<Rightarrow> False)"
  by (auto simp: wp_def state_call_def service_at_def split: res.splits prod.splits)

lemma twice_ops:
  "prepare_publish service_ep 7 watched_twice = (Ok log_ticket, prepared_twice)"
  "commit_publish log_ticket prepared_twice = (Ok \<lparr>po_service_generation = 3, po_notifications = log_notes\<rparr>, published_twice)"
  "peer_closed client_ep published_twice = (Ok client_gone, removed_client)"
  "\<exists>s. peer_closed client_ep removed_client = (Err R_UnknownEndpoint, s)"
  using twice_chain unfolding prepared_twice_def published_twice_def removed_client_def
  by (auto simp: publish_chain_def prod_eq_iff split: prod.splits)

lemma twice_state [simp]: "sv_state (service_at s script) = Some s"
  by (simp add: service_at_def)

lemma wp_deaf_close: "wp (io_try (tr_close deaf_transport h)) Q E sv = Q () sv"
  by (cases sv) (simp add: wp_def io_try_def io_call_def script_transport_def action_defs)

lemma deaf_first:
  "wp (retire_nested (Suc d) deaf_transport \<lparr>ie_identity = client_ep, ie_handle = 5, ie_kind = K_Client\<rparr>) Q E
     (service_at published_twice script) = Q () (service_at removed_client script)"
  by (simp add: wp_abind wp_aget wp_aret wp_twice_call twice_ops(3) wp_deaf_close client_gone_def notifications_new_def)

lemma deaf_second:
  "wp (retire_nested (Suc d) deaf_transport \<lparr>ie_identity = client_ep, ie_handle = 5, ie_kind = K_Client\<rparr>) Q E
     (service_at removed_client script) \<longleftrightarrow> (\<forall>sv. E (SE_State R_UnknownEndpoint) sv)"
  if "\<And>sv sv'. E (SE_State R_UnknownEndpoint) sv \<Longrightarrow> E (SE_State R_UnknownEndpoint) sv'"
proof -
  obtain s where s: "peer_closed client_ep removed_client = (Err R_UnknownEndpoint, s)" using twice_ops(4) by blast
  show ?thesis using that by (auto simp: wp_abind wp_aget wp_afail wp_twice_call s)
qed

lemma deaf_notify:
  assumes "notifications_get values i = Some (log_note t)" and "t \<noteq> 0" and "rg_generation s \<noteq> 0"
    and "wp (retire_nested d deaf_transport \<lparr>ie_identity = client_ep, ie_handle = 5, ie_kind = K_Client\<rparr>)
      (\<lambda>_. wp (send_notifications d deaf_transport values rest) Q E) E (service_at s script)"
  shows "wp (send_notifications d deaf_transport values (i # rest)) Q E (service_at s script)"
  using assms
  by (auto simp: wp_abind wp_alift wp_aread wp_aget wp_aret log_note_def addressed_def client_ep_def intro!: deaf_sends(1))

lemma twice_reachable: "reachable prepared_twice" "reachable published_twice" "reachable removed_client"
proof -
  have snd_ignore: "snd (ignore_value m s) = snd (m s)" for m :: "'b rop" and s
    by (auto simp: ignore_value_def abind_def aret_def split: prod.splits res.splits)
  show r1: "reachable prepared_twice"
    using reachable.step [OF watched_twice_reachable, of "CallPreparePublish service_ep 7"]
    by (simp add: prepared_twice_def snd_ignore)
  show r2: "reachable published_twice"
    using reachable.step [OF r1, of "CallCommitPublish log_ticket"] by (simp add: published_twice_def snd_ignore)
  show "reachable removed_client"
    using reachable.step [OF r2, of "CallPeerClosed client_ep"] by (simp add: removed_client_def snd_ignore)
qed

lemma twice_generation: "rg_generation published_twice \<noteq> 0" "rg_generation removed_client \<noteq> 0"
  using reachable_ok [OF twice_reachable(2)] reachable_ok [OF twice_reachable(3)]
  by (simp_all add: registry_ok_def base_ok_def shape_ok_def)

lemma deaf_publish:
  "fst (dispatch_publish deaf_transport \<lparr>ie_identity = service_ep, ie_handle = 6, ie_kind = K_Publication\<rparr> publish_header
     (service_at watched_twice script)) = Err (SE_State R_UnknownEndpoint)"
proof -
  let ?E = "\<lambda>e (_ :: delivery list service). e = SE_State R_UnknownEndpoint"
  have get: "notifications_get log_notes 0 = Some (log_note 100)" "notifications_get log_notes 1 = Some (log_note 101)"
    by (simp_all add: log_notes_def notifications_get_def get_index_def)
  have "wp (send_notifications (Suc MAX_ENDPOINTS) deaf_transport log_notes [0, 1]) (\<lambda>_ _. False) ?E (service_at published_twice script)"
  proof (rule deaf_notify [OF get(1) _ twice_generation(1)])
    have "wp (send_notifications (Suc MAX_ENDPOINTS) deaf_transport log_notes [1]) (\<lambda>_ _. False) ?E (service_at removed_client script)"
      by (rule deaf_notify [OF get(2) _ twice_generation(2)]) (simp_all add: deaf_second del: retire_nested.simps)
    then show "wp (retire_nested (Suc MAX_ENDPOINTS) deaf_transport \<lparr>ie_identity = client_ep, ie_handle = 5, ie_kind = K_Client\<rparr>)
      (\<lambda>_. wp (send_notifications (Suc MAX_ENDPOINTS) deaf_transport log_notes [1]) (\<lambda>_ _. False) ?E) ?E (service_at published_twice script)"
      by (simp only: deaf_first)
  qed simp
  then have "wp (dispatch_publish deaf_transport \<lparr>ie_identity = service_ep, ie_handle = 6, ie_kind = K_Publication\<rparr> publish_header)
      (\<lambda>_ _. False) ?E (service_at watched_twice script)"
    unfolding dispatch_publish_def send_all_def
    by (auto simp: wp_abind wp_twice_call twice_ops(1,2) publish_header_def addressed_def log_notes_def upt_conv_Cons
        simp del: send_notifications.simps intro!: deaf_sends(2))
  then show ?thesis by (auto simp: wp_def split: prod.splits res.splits)
qed

subsection \<open>The run\<close>

definition install_publication_header :: header where
  "install_publication_header = install_client_header\<lparr>h_message_type := T_InstallPublication, h_transaction_id := 2\<rparr>"

definition watch_header :: "u64 \<Rightarrow> header" where
  "watch_header transaction = \<lparr>h_message_type = T_Watch, h_registry_generation = 1, h_endpoint_id = 10,
     h_endpoint_generation = 1, h_transaction_id = transaction\<rparr>"

definition publication_datagram :: "byte list" where
  "publication_datagram = datagram 127 (encode_install_publication install_publication_header 20 1 2 6 3 17 [ProtocolVersion 1 0] log_name)"

definition watch_datagram :: "u64 \<Rightarrow> byte list" where
  "watch_datagram transaction = datagram 91 (encode_watch (watch_header transaction) log_watch)"

definition publish_datagram :: "byte list" where
  "publish_datagram = datagram 64 (encode_empty publish_header)"

text \<open>The supervisor installs the client and the service, the client watches the service in two
  transactions, and the service publishes itself; the installed service comes first in the snapshot.\<close>

definition watch_script :: "delivery list" where
  "watch_script = [client_delivery, Delivery None publication_datagram [6], Delivery (Some 1) (watch_datagram 100) [],
     Delivery (Some 1) (watch_datagram 101) [], Delivery (Some 0) publish_datagram []]"

lemma publication_parses:
  "length publication_datagram = 127"
  "parse oc publication_datagram 1 = Ok \<lparr>pm_header = install_publication_header, pm_message = M_InstallPublication sample_publication\<rparr>"
proof -
  have hdr: "header_ok install_publication_header" "h_message_type install_publication_header = T_InstallPublication"
    by (simp_all add: install_publication_header_def install_client_header_def header_ok_def on_supervisor_def)
  have vs: "validate_versions [ProtocolVersion 1 0] = Ok ()" "version_bytes [ProtocolVersion 1 0] = [1, 0, 0, 0]" by code_simp+
  have "encodes install_publication_header (M_InstallPublication sample_publication) 1 127
      (encode_install_publication install_publication_header 20 1 2 6 3 17 [ProtocolVersion 1 0] log_name)"
    using enc_install_publication [OF hdr(2) log_name_valid vs(1), of 20 1 2 6 3 17, unfolded vs(2)]
    by (simp add: sample_publication_def log_name_def)
  from datagram_parses [OF this hdr(1)] show "length publication_datagram = 127"
    "parse oc publication_datagram 1 = Ok \<lparr>pm_header = install_publication_header, pm_message = M_InstallPublication sample_publication\<rparr>"
    by (simp_all add: publication_datagram_def)
qed

lemma watch_parses:
  assumes "t \<noteq> 0"
  shows "length (watch_datagram t) = 91"
    and "parse oc (watch_datagram t) 0 = Ok \<lparr>pm_header = watch_header t, pm_message = M_Watch log_watch\<rparr>"
proof -
  have hdr: "header_ok (watch_header t)" "h_message_type (watch_header t) = T_Watch"
    using assms by (simp_all add: watch_header_def header_ok_def on_supervisor_def)
  have "encodes (watch_header t) (M_Watch log_watch) 0 91 (encode_watch (watch_header t) log_watch)"
    using enc_watch [OF hdr(2), of log_watch] log_name_valid by (simp add: log_watch_def log_name_def)
  from datagram_parses [OF this hdr(1)] show "length (watch_datagram t) = 91"
    "parse oc (watch_datagram t) 0 = Ok \<lparr>pm_header = watch_header t, pm_message = M_Watch log_watch\<rparr>"
    by (simp_all add: watch_datagram_def)
qed

lemma publish_parses:
  "length publish_datagram = 64" "parse oc publish_datagram 0 = Ok \<lparr>pm_header = publish_header, pm_message = M_Publish\<rparr>"
proof -
  have hdr: "header_ok publish_header" by (simp add: publish_header_def header_ok_def on_supervisor_def)
  have "encodes publish_header M_Publish 0 64 (encode_empty publish_header)"
    by (rule enc_empty) (simp add: publish_header_def)
  from datagram_parses [OF this hdr] show "length publish_datagram = 64"
    "parse oc publish_datagram 0 = Ok \<lparr>pm_header = publish_header, pm_message = M_Publish\<rparr>"
    by (simp_all add: publish_datagram_def)
qed

lemma run_results:
  "install_publication 1 6 sample_publication with_client = (Ok (), with_service)"
  "watch client_ep 100 log_watch with_service = (Ok Pending, with_watch)"
  "watch client_ep 101 log_watch with_watch = (Ok Pending, watched_twice)"
proof -
  have snd_ignore: "snd (ignore_value m s) = snd (m s)" for m :: "'b rop" and s
    by (auto simp: ignore_value_def abind_def aret_def split: prod.splits res.splits)
  have "fst (install_publication 1 6 sample_publication with_client) = Ok ()" by code_simp
  then show "install_publication 1 6 sample_publication with_client = (Ok (), with_service)"
    by (simp add: with_service_def prod_eq_iff)
  have "fst (watch client_ep 100 log_watch with_service) = Ok Pending" by code_simp
  then show "watch client_ep 100 log_watch with_service = (Ok Pending, with_watch)"
    by (simp add: with_watch_def prod_eq_iff snd_ignore)
  have "fst (watch client_ep 101 log_watch with_watch) = Ok Pending" by code_simp
  then show "watch client_ep 101 log_watch with_watch = (Ok Pending, watched_twice)"
    by (simp add: watched_twice_def prod_eq_iff snd_ignore)
qed

lemma run_endpoints:
  "installed_endpoints with_service = [\<lparr>ie_identity = service_ep, ie_handle = 6, ie_kind = K_Publication\<rparr>,
     \<lparr>ie_identity = client_ep, ie_handle = 5, ie_kind = K_Client\<rparr>]"
  "installed_endpoints with_watch = installed_endpoints with_service"
  "installed_endpoints watched_twice = installed_endpoints with_service"
  by code_simp+

lemma publication_step:
  assumes "service_ok (service_at with_client (Delivery None publication_datagram [6] # script))"
  shows "service_step oc (script_transport deaf) (service_at with_client (Delivery None publication_datagram [6] # script)) =
    (Ok (), service_at with_service script)"
proof -
  have g: "h_registry_generation install_publication_header = 1"
    by (simp add: install_publication_header_def install_client_header_def)
  have "service_step oc (script_transport deaf) (service_at with_client (Delivery None publication_datagram [6] # script)) =
      install (script_transport deaf) \<lparr>pm_header = install_publication_header, pm_message = M_InstallPublication sample_publication\<rparr>
        (channel_handle 6) (service_at with_client script)"
    by (subst step_install [OF assms _ _ publication_parses(2)])
      (simp_all add: service_at_def publication_parses(1) MAX_MESSAGE_BYTES_def ensure_state_def)
  then show ?thesis
    by (simp add: install_def action_defs state_call_def service_at_def run_results(1) channel_handle_def g)
qed

lemma watch_step:
  assumes "service_ok (service_at s (Delivery (Some 1) (watch_datagram t) [] # script))" and "t \<noteq> 0"
    and "installed_endpoints s = installed_endpoints with_service" and "rg_generation s = 1"
    and "watch client_ep t log_watch s = (Ok Pending, s')"
  shows "service_step oc (script_transport deaf) (service_at s (Delivery (Some 1) (watch_datagram t) [] # script)) =
    (Ok (), service_at s' script)"
proof -
  let ?ep = "\<lparr>ie_identity = client_ep, ie_handle = 5, ie_kind = K_Client\<rparr>"
  obtain handles where "service_step oc (script_transport deaf) (service_at s (Delivery (Some 1) (watch_datagram t) [] # script)) =
      dispatch oc (script_transport deaf) ?ep (watch_header t) (M_Watch log_watch) handles (service_at s script)"
    using step_request [OF assms(1) _ _ _ _ _ _ _ watch_parses(2) [OF assms(2)], of s 1 "[]" script ?ep] assms(3,4)
    by (auto simp: service_at_def watch_parses(1) [OF assms(2)] MAX_MESSAGE_BYTES_def run_endpoints(1) watch_header_def client_ep_def
        request_type_allowed_def)
  then show ?thesis
    by (simp add: dispatch_def dispatch_watch_def action_defs state_call_def service_at_def assms(5) watch_header_def)
qed

lemma publish_step:
  assumes "service_ok (service_at watched_twice (Delivery (Some 0) publish_datagram [] # script))"
    and "rg_generation watched_twice = 1"
  shows "fst (service_step oc deaf_transport (service_at watched_twice (Delivery (Some 0) publish_datagram [] # script))) =
    Err (SE_State R_UnknownEndpoint)"
proof -
  let ?ep = "\<lparr>ie_identity = service_ep, ie_handle = 6, ie_kind = K_Publication\<rparr>"
  obtain handles where "service_step oc deaf_transport (service_at watched_twice (Delivery (Some 0) publish_datagram [] # script)) =
      dispatch oc deaf_transport ?ep publish_header M_Publish handles (service_at watched_twice script)"
    using step_request [OF assms(1) _ _ _ _ _ _ _ publish_parses(2), of watched_twice 0 "[]" script ?ep] assms(2)
    by (auto simp: service_at_def publish_parses(1) MAX_MESSAGE_BYTES_def run_endpoints publish_header_def service_ep_def
        request_type_allowed_def)
  then show ?thesis using deaf_publish by (simp add: dispatch_def)
qed

lemma run_generations: "rg_generation with_service = 1" "rg_generation with_watch = 1" "rg_generation watched_twice = 1"
  by code_simp+

text \<open>C39. There is a run of the registry that one client ends: it watches a service twice and stops reading.
  When the service publishes itself both notifications fail, the first failure removes the client, the
  second tries to remove it once more, and the service step fails with an unknown endpoint, on which the
  loop of the process exits. The run starts with the first step of the service, takes the five datagrams of
  \<open>watch_script\<close>, which its own encoders write, and needs of the kernel only that the channel of the client
  accepts nothing; its other four steps succeed, and it is the same in both build profiles.\<close>

theorem double_watch_ends_registry:
  "service_run 5 oc deaf_transport (service_new 3 watch_script) = [Ok (), Ok (), Ok (), Ok (), Err (SE_State R_UnknownEndpoint)]"
proof -
  note ok = service_reachable_ok [OF _ script_slices]
  note step = service_reachable.step [where tr = deaf_transport]
  define d2 d3 d4 d5 where d: "d2 = Delivery None publication_datagram [6]" "d3 = Delivery (Some 1) (watch_datagram 100) []"
    "d4 = Delivery (Some 1) (watch_datagram 101) []" "d5 = Delivery (Some 0) publish_datagram []"
  have r1: "service_reachable deaf_transport (service_at with_client [d2, d3, d4, d5])"
    by (rule step [OF service_reachable.start client_step])
  have s2: "service_step b deaf_transport (service_at with_client [d2, d3, d4, d5]) = (Ok (), service_at with_service [d3, d4, d5])" for b
    unfolding d(1) by (rule publication_step [OF ok [OF r1, unfolded d(1)]])
  have s3: "service_step b deaf_transport (service_at with_service [d3, d4, d5]) = (Ok (), service_at with_watch [d4, d5])" for b
    unfolding d(2) by (rule watch_step [OF ok [OF step [OF r1 s2], unfolded d(2)]]) (simp_all add: run_results run_generations)
  have s4: "service_step b deaf_transport (service_at with_watch [d4, d5]) = (Ok (), service_at watched_twice [d5])" for b
    unfolding d(3) by (rule watch_step [OF ok [OF step [OF step [OF r1 s2] s3], unfolded d(3)]])
      (simp_all add: run_results run_generations run_endpoints)
  have s5: "fst (service_step b deaf_transport (service_at watched_twice [d5])) = Err (SE_State R_UnknownEndpoint)" for b
    unfolding d(4) by (rule publish_step [OF ok [OF step [OF step [OF step [OF r1 s2] s3] s4], unfolded d(4)] run_generations(3)])
  have script: "watch_script = [client_delivery, d2, d3, d4, d5]" by (simp add: watch_script_def d)
  show ?thesis unfolding script
    using s5 [of oc] by (cases "service_step oc deaf_transport (service_at watched_twice [d5])")
      (simp add: numeral_eq_Suc client_step s2 s3 s4)
qed

end
