(* ===== verification/Restart.thy ===== *)
theory Restart
  imports Prelude
begin

text \<open>
  The restart policy of the supervisor (\<^verbatim>\<open>crates/wyrmroot-runtime/src/supervision/restart.rs\<close>): a
  state machine for one supervised peer. A generation is started, must become ready before a deadline,
  and is cleaned up when it fails; a replacement starts after a backoff, inside the window of the
  episode and for a bounded number of attempts. Times are nanoseconds of a monotonic clock in 64 bits.
\<close>

subsection \<open>Policy, failures and records\<close>

definition RESTART_HISTORY_CAPACITY :: nat where "RESTART_HISTORY_CAPACITY = 4"

record supervision_policy =
  po_max_attempts :: byte
  po_backoff_ns :: u64
  po_restart_window_ns :: u64
  po_ready_timeout_ns :: u64
  po_cleanup_timeout_ns :: u64

definition WYR0_I_SUPERVISION_POLICY :: supervision_policy where
  "WYR0_I_SUPERVISION_POLICY = \<lparr>po_max_attempts = 4, po_backoff_ns = 25000000,
     po_restart_window_ns = 2000000000, po_ready_timeout_ns = 1000000000,
     po_cleanup_timeout_ns = 1000000000\<rparr>"

datatype terminal_disposition =
    NormalExit u32 | AuthorizedTermination | TaskGroupTeardown | UnhandledException

datatype attempt_failure =
    CreationFailed | StartFailed | ExitBeforeReady terminal_disposition | MalformedReady | DuplicateReady
  | ReadinessFailedAfterExit | WrongTransactionReady | PeerClosedBeforeReady | WaitFailed | ExitQueryFailed
  | ReadyTimeout | ExitAfterReady terminal_disposition | Cancelled

datatype cleanup_action = CloseUnpublished | TerminateTaskGroup | CloseTerminal

datatype cleanup_disposition = CleanupComplete | CleanupFailed

record attempt_record =
  ar_attempt :: byte
  ar_generation :: u64
  ar_transaction_id :: u64
  ar_started_at_ns :: u64
  ar_terminal_at_ns :: u64
  ar_failure :: attempt_failure
  ar_cleanup :: cleanup_disposition

record restart_history =
  rh_records :: "attempt_record option list"
  rh_len :: byte

datatype restart_state =
    RS_Stopped
  | RS_Starting (rs_attempt: byte) (rs_generation: u64) (rs_transaction: u64) (rs_deadline: u64)
  | RS_AwaitingReady (rs_attempt: byte) (rs_generation: u64) (rs_transaction: u64) (rs_deadline: u64)
  | RS_Ready (rs_attempt: byte) (rs_generation: u64) (rs_transaction: u64)
  | RS_CleaningUp (rs_attempt: byte) (rs_generation: u64) (rs_transaction: u64) (rs_failure: attempt_failure)
      (rs_action: cleanup_action) (rs_classified_at: u64) (rs_deadline: u64) (rs_retry: bool)
  | RS_Backoff (rs_attempt: byte) (rs_generation: u64) (rs_deadline: u64)
  | RS_PermanentFailure (rs_failure: attempt_failure) (rs_cleanup: cleanup_disposition)

datatype restart_error =
    RE_InvalidPolicy | RE_ZeroIdentity | RE_InvalidState | RE_StaleGeneration | RE_TransactionMismatch
  | RE_DeadlineNotReached | RE_DeadlineExpired | RE_DeadlineMismatch | RE_TimeRegression
  | RE_GenerationNotAdvanced | RE_AttemptFailed attempt_failure | RE_ArithmeticOverflow | RE_HistoryExhausted

record supervisor =
  sp_policy :: supervision_policy
  sp_state :: restart_state
  sp_history :: restart_history
  sp_episode_started_at_ns :: u64
  sp_attempt_started_at_ns :: u64
  sp_last_observed_ns :: u64
  sp_last_generation :: u64

type_synonym 'a srop = "(supervisor, restart_error, 'a) action"

subsection \<open>The history\<close>

definition checked_add_u8 :: "byte \<Rightarrow> byte \<Rightarrow> byte option" where
  "checked_add_u8 a b = (if unat a + unat b < 2 ^ 8 then Some (a + b) else None)"

definition restart_history_new :: restart_history where
  "restart_history_new = \<lparr>rh_records = replicate RESTART_HISTORY_CAPACITY None, rh_len = 0\<rparr>"

definition restart_history_as_slice :: "restart_history \<Rightarrow> (restart_error, attempt_record option list) res" where
  "restart_history_as_slice h = region_r 0 (unat (rh_len h)) (rh_records h)"

definition restart_history_push :: "attempt_record \<Rightarrow> (restart_history, restart_error, unit) action" where
  "restart_history_push r h =
     (let index = unat (rh_len h) in
      if index < length (rh_records h) then
        let h' = h\<lparr>rh_records := (rh_records h)[index := Some r]\<rparr> in
        case checked_add_u8 (rh_len h) 1 of
          None \<Rightarrow> (Err RE_ArithmeticOverflow, h')
        | Some n \<Rightarrow> (Ok (), h'\<lparr>rh_len := n\<rparr>)
      else (Err RE_HistoryExhausted, h))"

subsection \<open>Checks\<close>

definition validate_identity :: "u64 \<Rightarrow> u64 \<Rightarrow> (restart_error, unit) res" where
  "validate_identity generation transaction_id =
     (if generation = 0 \<or> transaction_id = 0 then Err RE_ZeroIdentity else Ok ())"

definition validate_event_identity :: "u64 \<Rightarrow> u64 \<Rightarrow> u64 \<Rightarrow> u64 \<Rightarrow> (restart_error, unit) res" where
  "validate_event_identity generation transaction_id current_generation current_transaction =
     rbind (validate_identity generation transaction_id) (\<lambda>_.
     if generation \<noteq> current_generation then Err RE_StaleGeneration
     else if transaction_id \<noteq> current_transaction then Err RE_TransactionMismatch
     else Ok ())"

definition checked_deadline :: "u64 \<Rightarrow> u64 \<Rightarrow> (restart_error, u64) res" where
  "checked_deadline now_ns duration_ns = ok_or RE_ArithmeticOverflow (checked_add_u64 now_ns duration_ns)"

definition validate_deadline :: "u64 \<Rightarrow> u64 \<Rightarrow> (restart_error, unit) res" where
  "validate_deadline expected current = (if expected = current then Ok () else Err RE_DeadlineMismatch)"

definition require_reached :: "u64 \<Rightarrow> u64 \<Rightarrow> (restart_error, unit) res" where
  "require_reached now_ns deadline_ns = (if now_ns < deadline_ns then Err RE_DeadlineNotReached else Ok ())"

fun active_identity :: "restart_state \<Rightarrow> (u64 \<times> u64) option" where
  "active_identity (RS_Starting _ g t _) = Some (g, t)"
| "active_identity (RS_AwaitingReady _ g t _) = Some (g, t)"
| "active_identity (RS_Ready _ g t) = Some (g, t)"
| "active_identity (RS_CleaningUp _ g t _ _ _ _ _) = Some (g, t)"
| "active_identity _ = None"

definition identity_error_or_invalid_state :: "u64 \<Rightarrow> u64 \<Rightarrow> unit srop" where
  "identity_error_or_invalid_state generation transaction_id =
     aread (\<lambda>sp.
       case active_identity (sp_state sp) of
         None \<Rightarrow> Err RE_InvalidState
       | Some (g, t) \<Rightarrow>
           (case validate_event_identity generation transaction_id g t of
              Ok _ \<Rightarrow> Err RE_InvalidState | Err e \<Rightarrow> Err e | Panic \<Rightarrow> Panic))"

definition observe_time :: "u64 \<Rightarrow> unit srop" where
  "observe_time now_ns =
     abind (aget sp_last_observed_ns) (\<lambda>last.
     if now_ns < last then afail RE_TimeRegression
     else amod (\<lambda>sp. sp\<lparr>sp_last_observed_ns := now_ns\<rparr>))"

text \<open>The attempt, generation and transaction of a state with a live generation.\<close>

fun live_attempt :: "restart_state \<Rightarrow> (byte \<times> u64 \<times> u64) option" where
  "live_attempt (RS_Starting a g t _) = Some (a, g, t)"
| "live_attempt (RS_AwaitingReady a g t _) = Some (a, g, t)"
| "live_attempt (RS_Ready a g t) = Some (a, g, t)"
| "live_attempt _ = None"

subsection \<open>Cleanup\<close>

definition enter_cleanup :: "u64 \<Rightarrow> attempt_failure \<Rightarrow> cleanup_action \<Rightarrow> bool \<Rightarrow> unit srop" where
  "enter_cleanup now_ns failure action retry =
     abind (aget sp_state) (\<lambda>state.
     case live_attempt state of
       None \<Rightarrow> afail RE_InvalidState
     | Some (attempt, generation, transaction_id) \<Rightarrow>
         abind (aget sp_policy) (\<lambda>policy.
         abind (alift (checked_deadline now_ns (po_cleanup_timeout_ns policy))) (\<lambda>deadline_ns.
         amod (\<lambda>sp. sp\<lparr>sp_state := RS_CleaningUp attempt generation transaction_id failure action now_ns deadline_ns retry\<rparr>))))"

definition push_record :: "attempt_record \<Rightarrow> unit srop" where
  "push_record r sp =
     (case restart_history_push r (sp_history sp) of (res, h) \<Rightarrow> (res, sp\<lparr>sp_history := h\<rparr>))"

definition set_state :: "restart_state \<Rightarrow> unit srop" where
  "set_state state = amod (\<lambda>sp. sp\<lparr>sp_state := state\<rparr>)"

text \<open>The part of \<^verbatim>\<open>finish_cleanup\<close> after the record: what follows a completed cleanup.\<close>

definition schedule_next ::
  "u64 \<Rightarrow> byte \<Rightarrow> u64 \<Rightarrow> attempt_failure \<Rightarrow> cleanup_disposition \<Rightarrow> bool \<Rightarrow> unit srop" where
  "schedule_next now_ns attempt generation failure cleanup retry =
     (if cleanup = CleanupFailed then set_state (RS_PermanentFailure failure cleanup)
      else if \<not> retry then set_state RS_Stopped
      else
        abind (alift (ok_or RE_ArithmeticOverflow (checked_add_u8 attempt 1))) (\<lambda>next_attempt.
        abind (aget sp_policy) (\<lambda>policy.
        if next_attempt > po_max_attempts policy then set_state (RS_PermanentFailure failure cleanup)
        else
          case checked_add_u64 generation 1 of
            None \<Rightarrow> set_state (RS_PermanentFailure failure cleanup)
          | Some next_generation \<Rightarrow>
              abind (alift (checked_deadline now_ns (po_backoff_ns policy))) (\<lambda>deadline_ns.
              abind (aget sp_episode_started_at_ns) (\<lambda>started.
              abind (alift (checked_deadline started (po_restart_window_ns policy))) (\<lambda>window_end.
              if deadline_ns > window_end then set_state (RS_PermanentFailure failure cleanup)
              else set_state (RS_Backoff next_attempt next_generation deadline_ns)))))))"

definition finish_cleanup :: "u64 \<Rightarrow> attempt_failure \<Rightarrow> cleanup_disposition \<Rightarrow> unit srop" where
  "finish_cleanup now_ns failure requested =
     abind (aget sp_state) (\<lambda>state.
     case state of
       RS_CleaningUp attempt generation transaction_id current_failure action classified_at_ns deadline_ns retry \<Rightarrow>
         if failure \<noteq> current_failure then afail RE_InvalidState
         else
           let cleanup = (if requested = CleanupComplete \<and> now_ns \<ge> deadline_ns then CleanupFailed else requested) in
           abind (aget sp_attempt_started_at_ns) (\<lambda>started.
           abind (push_record \<lparr>ar_attempt = attempt, ar_generation = generation, ar_transaction_id = transaction_id,
             ar_started_at_ns = started, ar_terminal_at_ns = classified_at_ns, ar_failure = failure,
             ar_cleanup = cleanup\<rparr>) (\<lambda>_.
           schedule_next now_ns attempt generation failure cleanup retry))
     | _ \<Rightarrow> afail RE_InvalidState)"

subsection \<open>Events\<close>

definition supervisor_new :: "supervision_policy \<Rightarrow> (restart_error, supervisor) res" where
  "supervisor_new policy =
     (if po_max_attempts policy = 0 \<or> unat (po_max_attempts policy) > RESTART_HISTORY_CAPACITY \<or>
         po_backoff_ns policy = 0 \<or> po_restart_window_ns policy = 0 \<or> po_ready_timeout_ns policy = 0 \<or>
         po_cleanup_timeout_ns policy = 0
      then Err RE_InvalidPolicy
      else Ok \<lparr>sp_policy = policy, sp_state = RS_Stopped, sp_history = restart_history_new,
        sp_episode_started_at_ns = 0, sp_attempt_started_at_ns = 0, sp_last_observed_ns = 0,
        sp_last_generation = 0\<rparr>)"

definition begin_episode :: "u64 \<Rightarrow> u64 \<Rightarrow> u64 \<Rightarrow> unit srop" where
  "begin_episode now_ns generation transaction_id =
     abind (aget sp_state) (\<lambda>state.
     if state \<noteq> RS_Stopped then afail RE_InvalidState
     else
       abind (alift (validate_identity generation transaction_id)) (\<lambda>_.
       abind (aget sp_last_generation) (\<lambda>last.
       if generation \<le> last then afail RE_GenerationNotAdvanced
       else
         abind (aget sp_policy) (\<lambda>policy.
         abind (alift (checked_deadline now_ns (po_ready_timeout_ns policy))) (\<lambda>deadline_ns.
         abind (observe_time now_ns) (\<lambda>_.
         amod (\<lambda>sp. sp\<lparr>sp_history := restart_history_new, sp_episode_started_at_ns := now_ns,
           sp_attempt_started_at_ns := now_ns, sp_last_generation := generation,
           sp_state := RS_Starting 1 generation transaction_id deadline_ns\<rparr>)))))))"

definition child_started :: "u64 \<Rightarrow> u64 \<Rightarrow> u64 \<Rightarrow> unit srop" where
  "child_started generation transaction_id now_ns =
     abind (aget sp_state) (\<lambda>state.
     case state of
       RS_Starting attempt current_generation current_transaction deadline_ns \<Rightarrow>
         abind (alift (validate_event_identity generation transaction_id current_generation current_transaction)) (\<lambda>_.
         abind (observe_time now_ns) (\<lambda>_.
         if now_ns \<ge> deadline_ns then
           abind (enter_cleanup now_ns ReadyTimeout TerminateTaskGroup True) (\<lambda>_.
           afail (RE_AttemptFailed ReadyTimeout))
         else set_state (RS_AwaitingReady attempt generation transaction_id deadline_ns)))
     | _ \<Rightarrow> afail RE_InvalidState)"

definition child_ready :: "u64 \<Rightarrow> u64 \<Rightarrow> u64 \<Rightarrow> unit srop" where
  "child_ready generation transaction_id now_ns =
     abind (aget sp_state) (\<lambda>state.
     case state of
       RS_AwaitingReady attempt current_generation current_transaction deadline_ns \<Rightarrow>
         abind (alift (validate_identity generation transaction_id)) (\<lambda>_.
         if generation \<noteq> current_generation then afail RE_StaleGeneration
         else
           abind (observe_time now_ns) (\<lambda>_.
           if transaction_id \<noteq> current_transaction then
             abind (enter_cleanup now_ns WrongTransactionReady TerminateTaskGroup True) (\<lambda>_.
             afail (RE_AttemptFailed WrongTransactionReady))
           else if now_ns \<ge> deadline_ns then
             abind (enter_cleanup now_ns ReadyTimeout TerminateTaskGroup True) (\<lambda>_.
             afail (RE_AttemptFailed ReadyTimeout))
           else set_state (RS_Ready attempt generation transaction_id)))
     | _ \<Rightarrow> identity_error_or_invalid_state generation transaction_id)"

text \<open>Which failures may be reported in which state.\<close>

fun failure_allowed :: "restart_state \<Rightarrow> attempt_failure \<Rightarrow> bool" where
  "failure_allowed (RS_Starting _ _ _ _) failure \<longleftrightarrow> failure \<in> {CreationFailed, StartFailed}"
| "failure_allowed (RS_AwaitingReady _ _ _ _) failure \<longleftrightarrow>
     failure \<in> {MalformedReady, WrongTransactionReady, PeerClosedBeforeReady, ReadinessFailedAfterExit, WaitFailed,
       ExitQueryFailed}"
| "failure_allowed (RS_Ready _ _ _) failure \<longleftrightarrow>
     failure \<in> {DuplicateReady, ReadinessFailedAfterExit, WaitFailed, ExitQueryFailed}"
| "failure_allowed _ failure \<longleftrightarrow> False"

text \<open>How a live generation is retired.\<close>

fun retire_action :: "restart_state \<Rightarrow> cleanup_action" where
  "retire_action (RS_Starting _ _ _ _) = CloseUnpublished"
| "retire_action _ = TerminateTaskGroup"

definition fail_attempt :: "u64 \<Rightarrow> u64 \<Rightarrow> u64 \<Rightarrow> attempt_failure \<Rightarrow> unit srop" where
  "fail_attempt generation transaction_id now_ns failure =
     abind (aget sp_state) (\<lambda>state.
     case live_attempt state of
       None \<Rightarrow> identity_error_or_invalid_state generation transaction_id
     | Some (_, current_generation, current_transaction) \<Rightarrow>
         abind (alift (validate_event_identity generation transaction_id current_generation current_transaction)) (\<lambda>_.
         abind (observe_time now_ns) (\<lambda>_.
         if \<not> failure_allowed state failure then afail RE_InvalidState
         else
           let action = (if failure \<in> {ExitQueryFailed, ReadinessFailedAfterExit} then CloseTerminal
                         else retire_action state) in
           enter_cleanup now_ns failure action True)))"

text \<open>A copy of the supervisor is changed and only a success is written back.\<close>

definition admit_recovery :: "u64 \<Rightarrow> u64 \<Rightarrow> u64 \<Rightarrow> attempt_failure \<Rightarrow> unit srop" where
  "admit_recovery generation transaction_id now_ns failure sp =
     (case sp_state sp of
        RS_Ready _ current_generation current_transaction \<Rightarrow>
          (case rbind (validate_event_identity generation transaction_id current_generation current_transaction) (\<lambda>_.
                checked_deadline now_ns (po_restart_window_ns (sp_policy sp))) of
             Ok _ \<Rightarrow>
               (case fail_attempt generation transaction_id now_ns failure
                   (sp\<lparr>sp_history := restart_history_new, sp_episode_started_at_ns := now_ns,
                      sp_state := RS_Ready 1 generation transaction_id\<rparr>) of
                  (Ok _, candidate) \<Rightarrow> (Ok (), candidate)
                | (Err e, _) \<Rightarrow> (Err e, sp)
                | (Panic, _) \<Rightarrow> (Panic, sp))
           | Err e \<Rightarrow> (Err e, sp)
           | Panic \<Rightarrow> (Panic, sp))
      | _ \<Rightarrow> (Err RE_InvalidState, sp))"

definition retire_active_fail_closed ::
  "u64 \<Rightarrow> u64 \<Rightarrow> u64 \<Rightarrow> attempt_failure \<Rightarrow> cleanup_disposition \<Rightarrow> unit srop" where
  "retire_active_fail_closed generation transaction_id now_ns failure cleanup =
     abind (aget sp_state) (\<lambda>state.
     case live_attempt state of
       None \<Rightarrow> identity_error_or_invalid_state generation transaction_id
     | Some (attempt, current_generation, current_transaction) \<Rightarrow>
         abind (alift (validate_event_identity generation transaction_id current_generation current_transaction)) (\<lambda>_.
         abind (observe_time now_ns) (\<lambda>_.
         abind (aget sp_attempt_started_at_ns) (\<lambda>started.
         abind (push_record \<lparr>ar_attempt = attempt, ar_generation = generation, ar_transaction_id = transaction_id,
           ar_started_at_ns = started, ar_terminal_at_ns = now_ns, ar_failure = failure, ar_cleanup = cleanup\<rparr>) (\<lambda>_.
         set_state (RS_PermanentFailure failure cleanup))))))"

definition is_ready :: "restart_state \<Rightarrow> bool" where
  "is_ready state \<longleftrightarrow> (case state of RS_Ready _ _ _ \<Rightarrow> True | _ \<Rightarrow> False)"

definition terminal_observed :: "u64 \<Rightarrow> u64 \<Rightarrow> u64 \<Rightarrow> terminal_disposition \<Rightarrow> unit srop" where
  "terminal_observed generation transaction_id now_ns disposition =
     abind (aget sp_state) (\<lambda>state.
     case live_attempt state of
       None \<Rightarrow> identity_error_or_invalid_state generation transaction_id
     | Some (_, current_generation, current_transaction) \<Rightarrow>
         abind (alift (validate_event_identity generation transaction_id current_generation current_transaction)) (\<lambda>_.
         abind (observe_time now_ns) (\<lambda>_.
         let was_ready = is_ready state;
             failure = (if was_ready then ExitAfterReady disposition else ExitBeforeReady disposition);
             retry = (\<not> (was_ready \<and> disposition = NormalExit 0)) in
         enter_cleanup now_ns failure CloseTerminal retry)))"

definition deadline_elapsed :: "u64 \<Rightarrow> u64 \<Rightarrow> u64 \<Rightarrow> u64 \<Rightarrow> unit srop" where
  "deadline_elapsed generation transaction_id expected_deadline_ns now_ns =
     (let due = (\<lambda>current_generation current_transaction deadline_ns k.
        abind (alift (validate_event_identity generation transaction_id current_generation current_transaction)) (\<lambda>_.
        abind (alift (validate_deadline expected_deadline_ns deadline_ns)) (\<lambda>_.
        abind (observe_time now_ns) (\<lambda>_.
        abind (alift (require_reached now_ns deadline_ns)) (\<lambda>_. k))))) in
      abind (aget sp_state) (\<lambda>state.
      case state of
        RS_Starting _ current_generation current_transaction deadline_ns \<Rightarrow>
          due current_generation current_transaction deadline_ns
            (enter_cleanup now_ns ReadyTimeout CloseUnpublished True)
      | RS_AwaitingReady _ current_generation current_transaction deadline_ns \<Rightarrow>
          due current_generation current_transaction deadline_ns
            (enter_cleanup now_ns ReadyTimeout TerminateTaskGroup True)
      | RS_CleaningUp _ current_generation current_transaction failure _ _ deadline_ns _ \<Rightarrow>
          due current_generation current_transaction deadline_ns (finish_cleanup now_ns failure CleanupFailed)
      | _ \<Rightarrow> afail RE_InvalidState))"

definition cancel_attempt :: "u64 \<Rightarrow> u64 \<Rightarrow> u64 \<Rightarrow> unit srop" where
  "cancel_attempt generation transaction_id now_ns =
     abind (aget sp_state) (\<lambda>state.
     case live_attempt state of
       None \<Rightarrow> identity_error_or_invalid_state generation transaction_id
     | Some (_, current_generation, current_transaction) \<Rightarrow>
         abind (alift (validate_event_identity generation transaction_id current_generation current_transaction)) (\<lambda>_.
         abind (observe_time now_ns) (\<lambda>_.
         enter_cleanup now_ns Cancelled (retire_action state) False)))"

definition current_failure :: "restart_state \<Rightarrow> (restart_error, attempt_failure) res" where
  "current_failure state =
     (case state of RS_CleaningUp _ _ _ failure _ _ _ _ \<Rightarrow> Ok failure | _ \<Rightarrow> Err RE_InvalidState)"

definition last_failure :: "supervisor \<Rightarrow> (restart_error, attempt_failure) res" where
  "last_failure sp =
     (if rh_len (sp_history sp) = 0 then Err RE_InvalidState
      else
        rbind (restart_history_as_slice (sp_history sp)) (\<lambda>records.
        rbind (index_r records (unat (rh_len (sp_history sp)) - 1)) (\<lambda>r.
        ok_or RE_InvalidState (map_option ar_failure r))))"

text \<open>The common part of \<^verbatim>\<open>cleanup_complete\<close> and \<^verbatim>\<open>cleanup_failed\<close>.\<close>

definition cleanup_reported :: "cleanup_disposition \<Rightarrow> u64 \<Rightarrow> u64 \<Rightarrow> u64 \<Rightarrow> unit srop" where
  "cleanup_reported requested generation transaction_id now_ns =
     abind (aget sp_state) (\<lambda>state.
     case state of
       RS_CleaningUp _ current_generation current_transaction _ _ _ _ _ \<Rightarrow>
         abind (alift (validate_event_identity generation transaction_id current_generation current_transaction)) (\<lambda>_.
         abind (observe_time now_ns) (\<lambda>_.
         abind (aread (\<lambda>sp. current_failure (sp_state sp))) (\<lambda>failure.
         finish_cleanup now_ns failure requested)))
     | _ \<Rightarrow> identity_error_or_invalid_state generation transaction_id)"

definition cleanup_complete :: "u64 \<Rightarrow> u64 \<Rightarrow> u64 \<Rightarrow> unit srop" where
  "cleanup_complete = cleanup_reported CleanupComplete"

definition cleanup_failed :: "u64 \<Rightarrow> u64 \<Rightarrow> u64 \<Rightarrow> unit srop" where
  "cleanup_failed = cleanup_reported CleanupFailed"

definition start_replacement :: "u64 \<Rightarrow> u64 \<Rightarrow> u64 \<Rightarrow> unit srop" where
  "start_replacement now_ns generation transaction_id =
     abind (aget sp_state) (\<lambda>state.
     case state of
       RS_Backoff next_attempt next_generation deadline_ns \<Rightarrow>
         abind (alift (validate_identity generation transaction_id)) (\<lambda>_.
         if generation \<noteq> next_generation then afail RE_StaleGeneration
         else
           abind (observe_time now_ns) (\<lambda>_.
           abind (alift (require_reached now_ns deadline_ns)) (\<lambda>_.
           abind (aread (\<lambda>sp. checked_deadline (sp_episode_started_at_ns sp) (po_restart_window_ns (sp_policy sp)))) (\<lambda>window_end.
           if now_ns > window_end then
             abind (aread last_failure) (\<lambda>final_failure.
             set_state (RS_PermanentFailure final_failure CleanupComplete))
           else
             abind (aread (\<lambda>sp. checked_deadline now_ns (po_ready_timeout_ns (sp_policy sp)))) (\<lambda>ready_deadline_ns.
             amod (\<lambda>sp. sp\<lparr>sp_attempt_started_at_ns := now_ns, sp_last_generation := generation,
               sp_state := RS_Starting next_attempt generation transaction_id ready_deadline_ns\<rparr>))))))
     | _ \<Rightarrow> afail RE_InvalidState)"

end
