(* ===== verification/RestartInv.thy ===== *)
theory RestartInv
  imports Restart
begin

text \<open>
  The invariant of the restart supervisor and that every event keeps it, at any time: nothing is
  assumed of the clock or of the intervals of the policy. A deadline that does not fit into 64 bits is
  an error of the event (\<open>refusal\<close>); when it is the end of the backoff or of the window, the cleanup
  has already been recorded and the supervisor stays in it (\<open>overflowed\<close>). The invariant takes the
  attempts whose cleanup was reported as complete as a parameter.
\<close>

subsection \<open>Events\<close>

datatype restart_event =
    EvBegin (ev_time: u64) u64 u64
  | EvStarted u64 u64 (ev_time: u64)
  | EvReady u64 u64 (ev_time: u64)
  | EvFail u64 u64 (ev_time: u64) attempt_failure
  | EvRecover u64 u64 (ev_time: u64) attempt_failure
  | EvRetire u64 u64 (ev_time: u64) attempt_failure cleanup_disposition
  | EvTerminal u64 u64 (ev_time: u64) terminal_disposition
  | EvDeadline u64 u64 u64 (ev_time: u64)
  | EvCancel u64 u64 (ev_time: u64)
  | EvCleanupComplete u64 u64 (ev_time: u64)
  | EvCleanupFailed u64 u64 (ev_time: u64)
  | EvReplace (ev_time: u64) u64 u64

fun run_event :: "restart_event \<Rightarrow> unit srop" where
  "run_event (EvBegin now g t) = begin_episode now g t"
| "run_event (EvStarted g t now) = child_started g t now"
| "run_event (EvReady g t now) = child_ready g t now"
| "run_event (EvFail g t now f) = fail_attempt g t now f"
| "run_event (EvRecover g t now f) = admit_recovery g t now f"
| "run_event (EvRetire g t now f c) = retire_active_fail_closed g t now f c"
| "run_event (EvTerminal g t now d) = terminal_observed g t now d"
| "run_event (EvDeadline g t d now) = deadline_elapsed g t d now"
| "run_event (EvCancel g t now) = cancel_attempt g t now"
| "run_event (EvCleanupComplete g t now) = cleanup_complete g t now"
| "run_event (EvCleanupFailed g t now) = cleanup_failed g t now"
| "run_event (EvReplace now g t) = start_replacement now g t"

subsection \<open>Deadlines\<close>

text \<open>Every deadline that starts at \<open>now\<close> fits into 64 bits.\<close>

definition deadlines_fit :: "supervision_policy \<Rightarrow> u64 \<Rightarrow> bool" where
  "deadlines_fit p now \<longleftrightarrow>
     unat now + unat (po_backoff_ns p) < 2 ^ 64 \<and> unat now + unat (po_restart_window_ns p) < 2 ^ 64 \<and>
     unat now + unat (po_ready_timeout_ns p) < 2 ^ 64 \<and> unat now + unat (po_cleanup_timeout_ns p) < 2 ^ 64"

lemma checked_deadline_cases:
  "checked_deadline now d = (if unat now + unat d < 2 ^ 64 then Ok (now + d) else Err RE_ArithmeticOverflow)"
  by (simp add: checked_deadline_def checked_add_u64_def)

lemma unat_deadline: "unat now + unat d < 2 ^ 64 \<Longrightarrow> unat (now + d :: u64) = unat now + unat d"
  by (simp add: unat_word_ariths)

lemma checked_deadline_Ok:
  "checked_deadline now d = Ok w \<Longrightarrow> unat w = unat now + unat d"
  by (auto simp: checked_deadline_cases unat_deadline split: if_splits)

lemma checked_deadline_no_panic [simp]: "checked_deadline now d \<noteq> Panic"
  by (simp add: checked_deadline_cases)

subsection \<open>The history as a list\<close>

definition history_wf :: "restart_history \<Rightarrow> bool" where
  "history_wf h \<longleftrightarrow> length (rh_records h) = RESTART_HISTORY_CAPACITY \<and> unat (rh_len h) \<le> RESTART_HISTORY_CAPACITY \<and>
     (\<forall>i < unat (rh_len h). rh_records h ! i \<noteq> None)"

definition trail :: "restart_history \<Rightarrow> attempt_record list" where
  "trail h = map the (take (unat (rh_len h)) (rh_records h))"

lemma length_trail: "history_wf h \<Longrightarrow> length (trail h) = unat (rh_len h)"
  by (simp add: trail_def history_wf_def)

lemma history_new [simp]: "history_wf restart_history_new" "trail restart_history_new = []"
  by (simp_all add: history_wf_def trail_def restart_history_new_def)

lemma history_push:
  assumes "history_wf h" and "length (trail h) < RESTART_HISTORY_CAPACITY"
  obtains h' where "restart_history_push r h = (Ok (), h')" "history_wf h'" "trail h' = trail h @ [r]"
proof -
  have n: "unat (rh_len h) < 4" "length (rh_records h) = 4"
    using assms by (simp_all add: length_trail history_wf_def RESTART_HISTORY_CAPACITY_def)
  then have u: "unat (rh_len h + 1) = Suc (unat (rh_len h))" by (simp add: unat_word_ariths)
  let ?h = "\<lparr>rh_records = (rh_records h)[unat (rh_len h) := Some r], rh_len = rh_len h + 1\<rparr>"
  have "restart_history_push r h = (Ok (), ?h)"
    using n by (simp add: restart_history_push_def Let_def checked_add_u8_def)
  moreover have "history_wf ?h"
    using assms(1) n u by (auto simp: history_wf_def RESTART_HISTORY_CAPACITY_def nth_list_update less_Suc_eq)
  moreover have "trail ?h = trail h @ [r]"
    using n u by (simp add: trail_def take_Suc_conv_app_nth)
  ultimately show thesis by (rule that)
qed

text \<open>Attempts are numbered from one, generations are consecutive, and every one was cleaned up and is
  one of the attempts \<open>C\<close> whose cleanup was confirmed.\<close>

definition trail_ok :: "(attempt_record \<Rightarrow> bool) \<Rightarrow> attempt_record list \<Rightarrow> nat \<Rightarrow> bool" where
  "trail_ok C rs g \<longleftrightarrow> (\<forall>i < length rs. unat (ar_attempt (rs ! i)) = Suc i \<and>
     unat (ar_generation (rs ! i)) + (length rs - i) = g \<and> ar_cleanup (rs ! i) = CleanupComplete \<and> C (rs ! i))"

lemma trail_ok_Nil [simp]: "trail_ok C [] g"
  by (simp add: trail_ok_def)

lemma trail_ok_append:
  assumes "trail_ok C rs g" and "unat (ar_attempt r) = Suc (length rs)" and "unat (ar_generation r) = g"
    and "ar_cleanup r = CleanupComplete" and "C r"
  shows "trail_ok C (rs @ [r]) (Suc g)"
  using assms by (auto simp: trail_ok_def nth_append less_Suc_eq Suc_diff_le)

lemma trail_ok_last:
  assumes "trail_ok C rs g" and "rs \<noteq> []"
  shows "Suc (unat (ar_generation (last rs))) = g" and "ar_cleanup (last rs) = CleanupComplete"
proof -
  obtain xs x where "rs = xs @ [x]" using assms(2) by (cases rs rule: rev_cases) auto
  then show "Suc (unat (ar_generation (last rs))) = g" and "ar_cleanup (last rs) = CleanupComplete"
    using assms(1) by (auto simp: trail_ok_def)
qed

subsection \<open>The invariant\<close>

definition policy_ok :: "supervision_policy \<Rightarrow> bool" where
  "policy_ok p \<longleftrightarrow> 1 \<le> unat (po_max_attempts p) \<and> unat (po_max_attempts p) \<le> RESTART_HISTORY_CAPACITY"

text \<open>A later attempt started after the backoff and inside the window of its episode.\<close>

definition spaced :: "supervision_policy \<Rightarrow> supervisor \<Rightarrow> u64 \<Rightarrow> bool" where
  "spaced p sp at \<longleftrightarrow> trail (sp_history sp) = [] \<or>
     unat at \<le> unat (sp_episode_started_at_ns sp) + unat (po_restart_window_ns p) \<and>
     unat (ar_terminal_at_ns (last (trail (sp_history sp)))) + unat (po_backoff_ns p) \<le> unat at"

definition attempt_ok :: "(attempt_record \<Rightarrow> bool) \<Rightarrow> supervision_policy \<Rightarrow> supervisor \<Rightarrow> byte \<Rightarrow> u64 \<Rightarrow> bool" where
  "attempt_ok C p sp a g \<longleftrightarrow> unat a \<le> unat (po_max_attempts p) \<and> unat a = Suc (length (trail (sp_history sp))) \<and>
     g \<noteq> 0 \<and> trail_ok C (trail (sp_history sp)) (unat g)"

definition live_ok ::
  "(attempt_record \<Rightarrow> bool) \<Rightarrow> supervision_policy \<Rightarrow> supervisor \<Rightarrow> byte \<Rightarrow> u64 \<Rightarrow> u64 \<Rightarrow> bool" where
  "live_ok C p sp a g t \<longleftrightarrow> attempt_ok C p sp a g \<and> t \<noteq> 0 \<and> sp_last_generation sp = g \<and>
     spaced p sp (sp_attempt_started_at_ns sp)"

text \<open>A cleanup after which another attempt is due, but no deadline for it fits into 64 bits any more.\<close>

definition overflowed :: "supervision_policy \<Rightarrow> supervisor \<Rightarrow> bool" where
  "overflowed p sp \<longleftrightarrow>
     (case sp_state sp of
        RS_CleaningUp a g _ _ _ _ _ retry \<Rightarrow>
          retry \<and> 1 \<le> unat a \<and> unat a < unat (po_max_attempts p) \<and> Suc (unat g) < 2 ^ 64
      | _ \<Rightarrow> False) \<and>
     (2 ^ 64 \<le> unat (sp_last_observed_ns sp) + unat (po_backoff_ns p) \<or>
      2 ^ 64 \<le> unat (sp_episode_started_at_ns sp) + unat (po_restart_window_ns p))"

definition state_ok :: "(attempt_record \<Rightarrow> bool) \<Rightarrow> supervision_policy \<Rightarrow> supervisor \<Rightarrow> bool" where
  "state_ok C p sp =
     (case sp_state sp of
        RS_Stopped \<Rightarrow> True
      | RS_Starting a g t _ \<Rightarrow> live_ok C p sp a g t
      | RS_AwaitingReady a g t _ \<Rightarrow> live_ok C p sp a g t
      | RS_Ready a g t \<Rightarrow> live_ok C p sp a g t
      | RS_CleaningUp a g t _ _ c _ _ \<Rightarrow> live_ok C p sp a g t \<and> c \<le> sp_last_observed_ns sp \<or> overflowed p sp
      | RS_Backoff a g d \<Rightarrow> attempt_ok C p sp a g \<and> unat g = Suc (unat (sp_last_generation sp)) \<and>
          trail (sp_history sp) \<noteq> [] \<and> spaced p sp d
      | RS_PermanentFailure f c \<Rightarrow> trail (sp_history sp) \<noteq> [] \<and>
          ar_failure (last (trail (sp_history sp))) = f \<and> ar_cleanup (last (trail (sp_history sp))) = c)"

definition sup_ok :: "(attempt_record \<Rightarrow> bool) \<Rightarrow> supervision_policy \<Rightarrow> supervisor \<Rightarrow> bool" where
  "sup_ok C p sp \<longleftrightarrow> sp_policy sp = p \<and> policy_ok p \<and> history_wf (sp_history sp) \<and> state_ok C p sp"

lemmas inv_defs = sup_ok_def state_ok_def live_ok_def attempt_ok_def spaced_def

lemma supervisor_new_ok: "supervisor_new p = Ok sp \<Longrightarrow> sup_ok C p sp"
  by (auto simp: supervisor_new_def sup_ok_def policy_ok_def state_ok_def Suc_le_eq unat_gt_0 split: if_splits)

lemma trail_ok_mono: "trail_ok C rs g \<Longrightarrow> (\<And>r. C r \<Longrightarrow> C' r) \<Longrightarrow> trail_ok C' rs g"
  by (simp add: trail_ok_def)

lemma sup_ok_mono: "sup_ok C p sp \<Longrightarrow> (\<And>r. C r \<Longrightarrow> C' r) \<Longrightarrow> sup_ok C' p sp"
  unfolding inv_defs by (cases "sp_state sp") (auto intro: trail_ok_mono [of C _ _ C'])

subsection \<open>Every event keeps the invariant\<close>

text \<open>What an error about a deadline or the history says: the time of the event or the start of the
  episode is too late for an interval of the policy; the history is full only in a cleanup whose
  deadline did not fit.\<close>

definition refusal :: "supervision_policy \<Rightarrow> u64 \<Rightarrow> restart_error \<Rightarrow> supervisor \<Rightarrow> bool" where
  "refusal p now e sp \<longleftrightarrow>
     (e = RE_ArithmeticOverflow \<longrightarrow> \<not> deadlines_fit p now \<or> \<not> deadlines_fit p (sp_episode_started_at_ns sp)) \<and>
     (e = RE_HistoryExhausted \<longrightarrow> overflowed p sp)"

lemma refusal_other [simp]: "e \<noteq> RE_ArithmeticOverflow \<Longrightarrow> e \<noteq> RE_HistoryExhausted \<Longrightarrow> refusal p now e sp"
  by (simp add: refusal_def)

abbreviation sup_keeps :: "(attempt_record \<Rightarrow> bool) \<Rightarrow> supervision_policy \<Rightarrow> u64 \<Rightarrow> unit srop \<Rightarrow> supervisor \<Rightarrow> bool" where
  "sup_keeps C p now m sp \<equiv> wp m (\<lambda>_. sup_ok C p) (\<lambda>e sp'. refusal p now e sp' \<and> sup_ok C p sp') sp"

lemma overflowed_observed:
  "overflowed p sp \<Longrightarrow> sp_last_observed_ns sp \<le> now \<Longrightarrow> overflowed p (sp\<lparr>sp_last_observed_ns := now\<rparr>)"
  by (auto simp: overflowed_def word_le_nat_alt split: restart_state.splits)

lemma sup_ok_observed:
  "sup_ok C p sp \<Longrightarrow> sp_last_observed_ns sp \<le> now \<Longrightarrow> sup_ok C p (sp\<lparr>sp_last_observed_ns := now\<rparr>)"
  by (auto simp: inv_defs overflowed_observed split: restart_state.splits)

lemma wp_observe_time:
  assumes "sp_last_observed_ns sp \<le> now \<Longrightarrow> Q () (sp\<lparr>sp_last_observed_ns := now\<rparr>)"
    and "now < sp_last_observed_ns sp \<Longrightarrow> E RE_TimeRegression sp"
  shows "wp (observe_time now) Q E sp"
  using assms by (simp add: observe_time_def wp_simps not_less)

lemma validate_identity_simps [simp]:
  "validate_identity g t = Ok () \<longleftrightarrow> g \<noteq> 0 \<and> t \<noteq> 0" "validate_identity g t \<noteq> Panic"
  "validate_identity g t = Err e \<longleftrightarrow> e = RE_ZeroIdentity \<and> (g = 0 \<or> t = 0)"
  by (auto simp: validate_identity_def)

lemma wp_validate_identity:
  assumes "g \<noteq> 0 \<Longrightarrow> t \<noteq> 0 \<Longrightarrow> Q () sp" and "E RE_ZeroIdentity sp"
  shows "wp (alift (validate_identity g t)) Q E sp"
  using assms by (auto simp: wp_alift validate_identity_def)

lemma wp_validate_event:
  assumes "g = g' \<Longrightarrow> t = t' \<Longrightarrow> Q () sp"
    and "\<And>e. e \<in> {RE_ZeroIdentity, RE_StaleGeneration, RE_TransactionMismatch} \<Longrightarrow> E e sp"
  shows "wp (alift (validate_event_identity g t g' t')) Q E sp"
  using assms by (auto simp: wp_alift validate_event_identity_def validate_identity_def)

lemma wp_identity_error:
  assumes "\<And>e. e \<in> {RE_InvalidState, RE_ZeroIdentity, RE_StaleGeneration, RE_TransactionMismatch} \<Longrightarrow> E e sp"
  shows "wp (identity_error_or_invalid_state g t) Q E sp"
  using assms
  by (auto simp: identity_error_or_invalid_state_def wp_aread validate_event_identity_def validate_identity_def
      split: option.splits)

lemma live_attempt_ok:
  assumes "sup_ok C p sp" and "live_attempt (sp_state sp) = Some (a, g, t)"
  shows "live_ok C p sp a g t"
  using assms by (cases "sp_state sp") (auto simp: sup_ok_def state_ok_def)

lemma enter_keeps:
  assumes ok: "sup_ok C p sp" and now: "now \<le> sp_last_observed_ns sp" and l: "live_attempt (sp_state sp) = Some x"
  shows "sup_keeps C p now (enter_cleanup now f act r) sp"
    and "e \<noteq> RE_ArithmeticOverflow \<Longrightarrow> e \<noteq> RE_HistoryExhausted \<Longrightarrow>
      sup_keeps C p now (abind (enter_cleanup now f act r) (\<lambda>_. afail e)) sp"
proof -
  obtain a g t where x: "x = (a, g, t)" by (cases x)
  have live: "live_ok C p sp a g t" using live_attempt_ok [OF ok] l x by simp
  have p: "sp_policy sp = p" using ok by (simp add: sup_ok_def)
  have "sup_ok C p (sp\<lparr>sp_state := RS_CleaningUp a g t f act now d r\<rparr>)" for d
    using ok live now by (auto simp: inv_defs)
  then have enter: "wp (enter_cleanup now f act r) (\<lambda>_. sup_ok C p) (\<lambda>e sp'. refusal p now e sp' \<and> sup_ok C p sp') sp"
    using l x p ok
    by (auto simp: enter_cleanup_def wp_simps checked_deadline_cases refusal_def deadlines_fit_def)
  then show "sup_keeps C p now (enter_cleanup now f act r) sp" .
  show "sup_keeps C p now (abind (enter_cleanup now f act r) (\<lambda>_. afail e)) sp"
    if "e \<noteq> RE_ArithmeticOverflow" "e \<noteq> RE_HistoryExhausted"
    unfolding wp_abind wp_afail by (rule wp_mono [OF enter]) (use that in simp_all)
qed

lemma history_full:
  assumes "history_wf h" and "\<not> length (trail h) < RESTART_HISTORY_CAPACITY"
  shows "restart_history_push r h = (Err RE_HistoryExhausted, h)"
  using assms length_trail [OF assms(1)] by (simp add: restart_history_push_def Let_def history_wf_def)

lemma wp_push_record:
  assumes "history_wf (sp_history sp)"
    and "\<And>h. history_wf h \<Longrightarrow> trail h = trail (sp_history sp) @ [r] \<Longrightarrow> Q () (sp\<lparr>sp_history := h\<rparr>)"
    and "\<not> length (trail (sp_history sp)) < RESTART_HISTORY_CAPACITY \<Longrightarrow> E RE_HistoryExhausted sp"
  shows "wp (push_record r) Q E sp"
proof (cases "length (trail (sp_history sp)) < RESTART_HISTORY_CAPACITY")
  case True
  obtain h where "restart_history_push r (sp_history sp) = (Ok (), h)" "history_wf h" "trail h = trail (sp_history sp) @ [r]"
    using history_push [OF assms(1) True] .
  then show ?thesis using assms(2) by (simp add: wp_def push_record_def)
next
  case False
  then show ?thesis using assms(3) history_full [OF assms(1)] by (simp add: wp_def push_record_def)
qed

lemma attempt_room:
  assumes "sup_ok C p sp" and "attempt_ok C p sp a g"
  shows "length (trail (sp_history sp)) < RESTART_HISTORY_CAPACITY"
  using assms by (simp add: sup_ok_def policy_ok_def attempt_ok_def)

text \<open>The state after the record of a cleaned up or failed attempt. The attempts whose cleanup is confirmed
  are \<open>C\<close> before and \<open>C'\<close> after the report; the report of a complete cleanup confirms its own attempt.\<close>

lemma next_attempt:
  assumes "unat a < unat (po_max_attempts p)" and "policy_ok p"
  shows "checked_add_u8 a 1 = Some (a + 1)" and "unat (a + 1) = Suc (unat a)" and "a + 1 \<le> po_max_attempts p"
proof -
  have "Suc (unat a) \<le> 4" using assms by (simp add: policy_ok_def RESTART_HISTORY_CAPACITY_def)
  then show "checked_add_u8 a 1 = Some (a + 1)" and u: "unat (a + 1) = Suc (unat a)"
    by (simp_all add: checked_add_u8_def unat_word_ariths)
  then show "a + 1 \<le> po_max_attempts p" using assms(1) by (simp add: word_le_nat_alt)
qed

lemma sup_ok_recorded:
  assumes "sup_ok C p sp" and "history_wf h" and "trail h = rs @ [r]"
  shows "sup_ok C' p (sp\<lparr>sp_history := h, sp_state := RS_PermanentFailure (ar_failure r) (ar_cleanup r)\<rparr>)"
    and "sup_ok C' p (sp\<lparr>sp_history := h, sp_state := RS_Stopped\<rparr>)"
    and "overflowed p sp \<Longrightarrow> sup_ok C' p (sp\<lparr>sp_history := h\<rparr>)"
  using assms by (auto simp: sup_ok_def state_ok_def overflowed_def split: restart_state.splits)

lemma overflowed_schedule:
  assumes ok: "sup_ok C p sp0" and st: "sp_state sp0 = RS_CleaningUp a g t f act c d0 retry" and o: "overflowed p sp0"
    and now: "sp_last_observed_ns sp0 = now"
    and sp: "sp = sp0\<lparr>sp_history := h\<rparr>" and h: "history_wf h" "trail h = trail (sp_history sp0) @ [r]"
    and r: "ar_failure r = f" "ar_cleanup r = cl"
  shows "wp (schedule_next now a g f cl retry) (\<lambda>_. sup_ok C' p) (\<lambda>e sp'. refusal p now e sp' \<and> sup_ok C p sp') sp"
proof -
  have p: "sp_policy sp0 = p" "policy_ok p" using ok by (simp_all add: sup_ok_def)
  have o': "retry" "unat a < unat (po_max_attempts p)" "Suc (unat g) < 2 ^ 64"
    "2 ^ 64 \<le> unat now + unat (po_backoff_ns p) \<or>
     2 ^ 64 \<le> unat (sp_episode_started_at_ns sp0) + unat (po_restart_window_ns p)"
    using o st now by (auto simp: overflowed_def)
  note a = next_attempt [OF o'(2) p(2)]
  have g: "checked_add_u64 g 1 = Some (g + 1)" using o'(3) by (simp add: checked_add_u64_def)
  have "sup_ok C' p (sp\<lparr>sp_state := RS_PermanentFailure f cl\<rparr>)" "sup_ok C p sp"
    using sup_ok_recorded [OF ok h] o r sp by auto
  then show ?thesis
    using o' a g p sp
    by (cases cl)
      (auto simp: schedule_next_def set_state_def wp_simps checked_deadline_cases refusal_def deadlines_fit_def)
qed

lemma live_schedule:
  assumes ok: "sup_ok C p sp0" and st: "sp_state sp0 = RS_CleaningUp a g t f act c d0 retry"
    and live: "live_ok C p sp0 a g t" and cobs: "c \<le> sp_last_observed_ns sp0" and now: "sp_last_observed_ns sp0 = now"
    and sp: "sp = sp0\<lparr>sp_history := h\<rparr>" and h: "history_wf h" "trail h = trail (sp_history sp0) @ [r]"
    and r: "ar_attempt r = a" "ar_generation r = g" "ar_terminal_at_ns r = c" "ar_failure r = f" "ar_cleanup r = cl"
    and C: "\<And>r. C r \<Longrightarrow> C' r" "cl = CleanupComplete \<Longrightarrow> C' r"
  shows "wp (schedule_next now a g f cl retry) (\<lambda>_. sup_ok C' p) (\<lambda>e sp'. refusal p now e sp' \<and> sup_ok C p sp') sp"
proof -
  have p: "sp_policy sp0 = p" "policy_ok p" using ok by (simp_all add: sup_ok_def)
  have at: "attempt_ok C p sp0 a g" using live by (simp add: live_ok_def)
  have "unat a \<le> 4" using at p(2) by (simp add: attempt_ok_def policy_ok_def RESTART_HISTORY_CAPACITY_def)
  then have a1: "checked_add_u8 a 1 = Some (a + 1)" "unat (a + 1) = Suc (unat a)"
    by (simp_all add: checked_add_u8_def unat_word_ariths)
  have ends: "sup_ok C' p (sp\<lparr>sp_state := RS_PermanentFailure f cl\<rparr>)" "sup_ok C' p (sp\<lparr>sp_state := RS_Stopped\<rparr>)"
    using sup_ok_recorded(1,2) [OF ok h] r sp by simp_all
  have backoff: "sup_ok C' p (sp\<lparr>sp_state := RS_Backoff (a + 1) g' d\<rparr>)"
    if "cl = CleanupComplete" "a + 1 \<le> po_max_attempts p" and g': "unat g' = Suc (unat g)"
      and d: "unat d = unat now + unat (po_backoff_ns p)"
      and w: "unat d \<le> unat (sp_episode_started_at_ns sp0) + unat (po_restart_window_ns p)" for g' d
  proof -
    have "trail_ok C' (trail h) (Suc (unat g))"
      using at r that(1) trail_ok_mono [OF _ C(1)] C(2) unfolding h(2) attempt_ok_def by (intro trail_ok_append) auto
    moreover have "unat c \<le> unat now" using cobs now by (simp add: word_le_nat_alt)
    ultimately show ?thesis
      using ok live a1 that h r(3) sp
      by (auto simp: inv_defs word_le_nat_alt)
  qed
  have late: "sup_ok C p sp"
    if "retry" "a + 1 \<le> po_max_attempts p" "checked_add_u64 g 1 = Some g'"
      "\<not> unat now + unat (po_backoff_ns p) < 2 ^ 64 \<or>
       \<not> unat (sp_episode_started_at_ns sp0) + unat (po_restart_window_ns p) < 2 ^ 64" for g'
  proof -
    have "Suc (unat g) < 2 ^ 64" using that(3) by (auto simp: checked_add_u64_def split: if_splits)
    moreover have "unat a < unat (po_max_attempts p)" using that(2) a1(2) by (simp add: word_le_nat_alt)
    ultimately have "overflowed p sp0" using that at st now by (auto simp: overflowed_def attempt_ok_def not_less)
    then show ?thesis using sup_ok_recorded(3) [OF ok h] sp by simp
  qed
  show ?thesis
  proof (cases "checked_add_u64 g 1")
    case None
    then show ?thesis using ends a1 p sp by (cases cl) (simp_all add: schedule_next_def set_state_def wp_simps)
  next
    case (Some g')
    then have g': "unat g' = Suc (unat g)" by (simp add: checked_add_u64_Some)
    have fits: "sup_ok C' p (sp\<lparr>sp_state := RS_Backoff (a + 1) g' (now + po_backoff_ns p)\<rparr>)"
      if "cl = CleanupComplete" "a + 1 \<le> po_max_attempts p" "unat now + unat (po_backoff_ns p) < 2 ^ 64"
        "unat (sp_episode_started_at_ns sp0) + unat (po_restart_window_ns p) < 2 ^ 64"
        "now + po_backoff_ns p \<le> sp_episode_started_at_ns sp0 + po_restart_window_ns p"
      using that unat_deadline [OF that(3)] unat_deadline [OF that(4)]
      by (intro backoff [OF _ _ g']) (simp_all add: word_le_nat_alt)
    show ?thesis
    proof (cases "cl = CleanupComplete \<and> retry \<and> a + 1 \<le> po_max_attempts p")
      case True
      then show ?thesis using Some ends a1 p sp late [OF _ _ Some] fits
        by (auto simp: schedule_next_def set_state_def wp_simps checked_deadline_cases refusal_def deadlines_fit_def not_less)
    next
      case False
      then show ?thesis using Some ends a1 p sp
        by (cases cl) (auto simp: schedule_next_def set_state_def wp_simps not_le)
    qed
  qed
qed

lemma wp_finish_cleanup:
  assumes ok: "sup_ok C p sp" and st: "sp_state sp = RS_CleaningUp a g t f act c d0 retry"
    and now: "sp_last_observed_ns sp = now" and C: "\<And>r. C r \<Longrightarrow> C' r"
    and conf: "\<And>r. req = CleanupComplete \<Longrightarrow> ar_generation r = g \<Longrightarrow> ar_transaction_id r = t \<Longrightarrow> C' r"
  shows "wp (finish_cleanup now f req) (\<lambda>_. sup_ok C' p) (\<lambda>e sp'. refusal p now e sp' \<and> sup_ok C p sp') sp"
proof -
  have wf: "history_wf (sp_history sp)" using ok by (simp add: sup_ok_def)
  have cases: "live_ok C p sp a g t \<and> c \<le> sp_last_observed_ns sp \<or> overflowed p sp"
    using ok st by (simp add: sup_ok_def state_ok_def)
  have full: "overflowed p sp" if "\<not> length (trail (sp_history sp)) < RESTART_HISTORY_CAPACITY"
    using cases attempt_room [OF ok, of a g] that by (auto simp: live_ok_def)
  have "wp (abind (push_record r) (\<lambda>_. schedule_next now a g f cl retry)) (\<lambda>_. sup_ok C' p)
      (\<lambda>e sp'. refusal p now e sp' \<and> sup_ok C p sp') sp"
    if r: "ar_attempt r = a" "ar_generation r = g" "ar_transaction_id r = t" "ar_terminal_at_ns r = c" "ar_failure r = f"
      "ar_cleanup r = cl" and cl: "cl = CleanupComplete \<Longrightarrow> req = CleanupComplete" for r cl
    unfolding wp_abind
  proof (rule wp_push_record [OF wf])
    fix h assume h: "history_wf h" "trail h = trail (sp_history sp) @ [r]"
    have "C' r" if "cl = CleanupComplete" using conf r cl that by simp
    then show "wp (schedule_next now a g f cl retry) (\<lambda>_. sup_ok C' p) (\<lambda>e sp'. refusal p now e sp' \<and> sup_ok C p sp')
        (sp\<lparr>sp_history := h\<rparr>)"
      using cases live_schedule [OF ok st _ _ now refl h r(1,2,4,5,6), of C'] C overflowed_schedule [OF ok st _ now refl h r(5,6)]
      by blast
  qed (use full ok in \<open>auto simp: refusal_def\<close>)
  then show ?thesis using st by (simp add: finish_cleanup_def wp_abind wp_aget Let_def)
qed

lemma wp_alift_Ok [simp]: "wp (alift (Ok a)) Q E = Q a"
  by (simp add: wp_alift)

lemma begin_keeps:
  assumes ok: "sup_ok C p sp"
  shows "sup_keeps C p now (begin_episode now g t) sp"
proof -
  have p: "sp_policy sp = p" "1 \<le> unat (po_max_attempts p)" using ok by (simp_all add: sup_ok_def policy_ok_def)
  have "sup_ok C p (sp\<lparr>sp_last_observed_ns := now, sp_history := restart_history_new, sp_episode_started_at_ns := now,
      sp_attempt_started_at_ns := now, sp_last_generation := g, sp_state := RS_Starting 1 g t d\<rparr>)" if "g \<noteq> 0" "t \<noteq> 0" for d
    using ok that p by (simp add: inv_defs)
  then show ?thesis using ok p(1)
    by (auto simp: begin_episode_def wp_abind wp_aget wp_afail wp_amod wp_alift refusal_def deadlines_fit_def checked_deadline_cases
        validate_identity_def intro!: wp_observe_time)
qed

text \<open>The beginning of most events: the identity, then the clock.\<close>

lemma wp_current:
  assumes "sup_ok C p sp" and "g = g' \<Longrightarrow> t = t' \<Longrightarrow> sup_ok C p (sp\<lparr>sp_last_observed_ns := now\<rparr>) \<Longrightarrow>
      wp m (\<lambda>_. sup_ok C' p) (\<lambda>e sp'. refusal p now e sp' \<and> sup_ok C p sp') (sp\<lparr>sp_last_observed_ns := now\<rparr>)"
  shows "wp (abind (alift (validate_event_identity g t g' t')) (\<lambda>_. abind (observe_time now) (\<lambda>_. m)))
    (\<lambda>_. sup_ok C' p) (\<lambda>e sp'. refusal p now e sp' \<and> sup_ok C p sp') sp"
  unfolding wp_abind
  by (intro wp_validate_event wp_observe_time) (use assms sup_ok_observed in auto)

lemma wp_not_identified:
  "sup_ok C p sp \<Longrightarrow>
    wp (identity_error_or_invalid_state g t) Q (\<lambda>e sp'. refusal p now e sp' \<and> sup_ok C p sp') sp"
  by (rule wp_identity_error) auto

lemma started_keeps:
  assumes ok: "sup_ok C p sp"
  shows "sup_keeps C p now (child_started g t now) sp"
proof (cases "sp_state sp")
  case (RS_Starting a g' t' d)
  have "sup_keeps C p now (if now \<ge> d then abind (enter_cleanup now ReadyTimeout TerminateTaskGroup True) (\<lambda>_.
           afail (RE_AttemptFailed ReadyTimeout)) else set_state (RS_AwaitingReady a g t d)) (sp\<lparr>sp_last_observed_ns := now\<rparr>)"
    if "g = g'" "t = t'" and ok': "sup_ok C p (sp\<lparr>sp_last_observed_ns := now\<rparr>)"
  proof -
    have "sup_ok C p (sp\<lparr>sp_last_observed_ns := now, sp_state := RS_AwaitingReady a g t d\<rparr>)"
      using ok' RS_Starting that by (simp add: inv_defs)
    then show ?thesis using enter_keeps(2) [OF ok'] RS_Starting by (simp add: set_state_def wp_amod)
  qed
  from wp_current [OF ok this] show ?thesis using RS_Starting by (simp add: child_started_def wp_abind wp_aget)
qed (use ok in \<open>simp_all add: child_started_def wp_simps\<close>)

lemma ready_keeps:
  assumes ok: "sup_ok C p sp"
  shows "sup_keeps C p now (child_ready g t now) sp"
proof (cases "sp_state sp")
  case (RS_AwaitingReady a g' t' d)
  have "sup_keeps C p now (if t \<noteq> t' then
             abind (enter_cleanup now WrongTransactionReady TerminateTaskGroup True) (\<lambda>_.
             afail (RE_AttemptFailed WrongTransactionReady))
           else if now \<ge> d then
             abind (enter_cleanup now ReadyTimeout TerminateTaskGroup True) (\<lambda>_.
             afail (RE_AttemptFailed ReadyTimeout))
           else set_state (RS_Ready a g t)) (sp\<lparr>sp_last_observed_ns := now\<rparr>)"
    if "g = g'" and obs: "sp_last_observed_ns sp \<le> now"
  proof -
    have ok': "sup_ok C p (sp\<lparr>sp_last_observed_ns := now\<rparr>)" by (rule sup_ok_observed [OF ok obs])
    have "sup_ok C p (sp\<lparr>sp_last_observed_ns := now, sp_state := RS_Ready a g t\<rparr>)" if "t = t'"
      using ok' RS_AwaitingReady that \<open>g = g'\<close> by (simp add: inv_defs)
    then show ?thesis using enter_keeps(2) [OF ok'] RS_AwaitingReady by (simp add: set_state_def wp_amod)
  qed
  then show ?thesis using RS_AwaitingReady ok
    by (simp add: child_ready_def wp_abind wp_aget)
      (auto simp: wp_afail wp_abind intro!: wp_validate_identity wp_observe_time)
qed (use ok wp_not_identified in \<open>simp_all add: child_ready_def wp_abind wp_aget\<close>)

lemma fail_keeps:
  assumes ok: "sup_ok C p sp"
  shows "sup_keeps C p now (fail_attempt g t now f) sp"
proof (cases "live_attempt (sp_state sp)")
  case None
  then show ?thesis using wp_not_identified [OF ok] by (simp add: fail_attempt_def wp_abind wp_aget)
next
  case (Some x)
  obtain a g' t' where x: "x = (a, g', t')" by (cases x)
  have "sup_keeps C p now (if \<not> failure_allowed (sp_state sp) f then afail RE_InvalidState
      else enter_cleanup now f act True) (sp\<lparr>sp_last_observed_ns := now\<rparr>)"
    if "sup_ok C p (sp\<lparr>sp_last_observed_ns := now\<rparr>)" for act
    using that enter_keeps(1) [OF that] Some by (simp add: wp_afail)
  from wp_current [OF ok this] show ?thesis using Some x unfolding fail_attempt_def Let_def by (simp add: wp_abind wp_aget split del: if_split)
qed

lemma fail_episode:
  "sp_episode_started_at_ns (snd (fail_attempt g t now f sp)) = sp_episode_started_at_ns sp"
  "fst (fail_attempt g t now f sp) \<noteq> Err RE_HistoryExhausted"
  by (auto simp: fail_attempt_def enter_cleanup_def identity_error_or_invalid_state_def observe_time_def action_defs Let_def
      validate_event_identity_def validate_identity_def checked_deadline_cases split: option.splits res.splits prod.splits)

lemma recovery_keeps:
  assumes ok: "sup_ok C p sp"
  shows "sup_keeps C p now (admit_recovery g t now f) sp"
proof (cases "sp_state sp")
  case (RS_Ready a g' t')
  let ?sp = "sp\<lparr>sp_history := restart_history_new, sp_episode_started_at_ns := now, sp_state := RS_Ready 1 g t\<rparr>"
  have p: "sp_policy sp = p" "1 \<le> unat (po_max_attempts p)" using ok by (simp_all add: sup_ok_def policy_ok_def)
  have "sup_ok C p ?sp" if "g = g'" "t = t'"
    using ok p that RS_Ready by (auto simp: inv_defs)
  then have "sup_keeps C p now (fail_attempt g t now f) ?sp" if "g = g'" "t = t'" using fail_keeps that by blast
  then show ?thesis using RS_Ready ok p(1) fail_episode [of g t now f ?sp]
    by (auto simp: admit_recovery_def wp_def refusal_def overflowed_def deadlines_fit_def validate_event_identity_def
        validate_identity_def checked_deadline_cases split: prod.splits res.splits if_splits)
qed (use ok in \<open>simp_all add: admit_recovery_def wp_def\<close>)

lemma retire_keeps:
  assumes ok: "sup_ok C p sp"
  shows "sup_keeps C p now (retire_active_fail_closed g t now f cl) sp"
proof (cases "live_attempt (sp_state sp)")
  case None
  then show ?thesis using wp_not_identified [OF ok] by (simp add: retire_active_fail_closed_def wp_abind wp_aget)
next
  case (Some x)
  obtain a g' t' where x: "x = (a, g', t')" by (cases x)
  have "sup_keeps C p now (abind (aget sp_attempt_started_at_ns) (\<lambda>started.
         abind (push_record \<lparr>ar_attempt = a, ar_generation = g, ar_transaction_id = t,
           ar_started_at_ns = started, ar_terminal_at_ns = now, ar_failure = f, ar_cleanup = cl\<rparr>) (\<lambda>_.
         set_state (RS_PermanentFailure f cl)))) (sp\<lparr>sp_last_observed_ns := now\<rparr>)"
    if ok': "sup_ok C p (sp\<lparr>sp_last_observed_ns := now\<rparr>)"
  proof -
    have "attempt_ok C p (sp\<lparr>sp_last_observed_ns := now\<rparr>) a g'"
      using live_attempt_ok [OF ok'] Some x by (simp add: live_ok_def)
    from attempt_room [OF ok' this] show ?thesis
      using ok' by (auto simp: wp_abind wp_aget set_state_def wp_amod sup_ok_def state_ok_def intro!: wp_push_record)
  qed
  from wp_current [OF ok this] show ?thesis using Some x by (simp add: retire_active_fail_closed_def wp_abind wp_aget)
qed

text \<open>Events that only enter the cleanup of a live generation.\<close>

lemma live_event_keeps:
  assumes ok: "sup_ok C p sp"
  shows "sup_keeps C p now (case live_attempt (sp_state sp) of
       None \<Rightarrow> identity_error_or_invalid_state g t
     | Some (_, g', t') \<Rightarrow>
         abind (alift (validate_event_identity g t g' t')) (\<lambda>_.
         abind (observe_time now) (\<lambda>_. enter_cleanup now f act r))) sp"
proof (cases "live_attempt (sp_state sp)")
  case None
  then show ?thesis using wp_not_identified [OF ok] by simp
next
  case (Some x)
  then have "sup_keeps C p now (enter_cleanup now f act r) (sp\<lparr>sp_last_observed_ns := now\<rparr>)"
    if "sup_ok C p (sp\<lparr>sp_last_observed_ns := now\<rparr>)" using enter_keeps(1) [OF that] by simp
  from wp_current [OF ok this] show ?thesis using Some by (cases x) simp
qed

lemma terminal_keeps:
  assumes "sup_ok C p sp"
  shows "sup_keeps C p now (terminal_observed g t now d) sp"
  using live_event_keeps [OF assms] unfolding terminal_observed_def Let_def wp_abind [of "aget sp_state"] wp_aget .

lemma cancel_attempt_keeps:
  assumes "sup_ok C p sp"
  shows "sup_keeps C p now (cancel_attempt g t now) sp"
  using live_event_keeps [OF assms] unfolding cancel_attempt_def wp_abind [of "aget sp_state"] wp_aget .

text \<open>The report of a complete cleanup confirms the attempt it names, any other event confirms nothing.\<close>

lemma cleanup_keeps:
  assumes ok: "sup_ok C p sp" and C: "\<And>r. C r \<Longrightarrow> C' r"
    and conf: "\<And>r. req = CleanupComplete \<Longrightarrow> ar_generation r = g \<Longrightarrow> ar_transaction_id r = t \<Longrightarrow> C' r"
  shows "wp (cleanup_reported req g t now) (\<lambda>_. sup_ok C' p) (\<lambda>e sp'. refusal p now e sp' \<and> sup_ok C p sp') sp"
proof (cases "sp_state sp")
  case (RS_CleaningUp a g' t' f act cl d r)
  have "wp (abind (aread (\<lambda>sp. current_failure (sp_state sp))) (\<lambda>failure. finish_cleanup now failure req))
      (\<lambda>_. sup_ok C' p) (\<lambda>e sp'. refusal p now e sp' \<and> sup_ok C p sp') (sp\<lparr>sp_last_observed_ns := now\<rparr>)"
    if "g = g'" "t = t'" "sup_ok C p (sp\<lparr>sp_last_observed_ns := now\<rparr>)"
    using wp_finish_cleanup [OF that(3), of a g' t' f act cl d r now C' req] RS_CleaningUp C conf that(1,2)
    by (simp add: wp_abind wp_aread current_failure_def)
  from wp_current [OF ok this] show ?thesis using RS_CleaningUp by (simp add: cleanup_reported_def wp_abind wp_aget)
qed (use ok wp_not_identified in \<open>simp_all add: cleanup_reported_def wp_abind wp_aget\<close>)

lemma deadline_keeps:
  assumes ok: "sup_ok C p sp"
  shows "sup_keeps C p now (deadline_elapsed g t d now) sp"
proof -
  have due: "sup_keeps C p now (abind (alift (validate_event_identity g t g' t')) (\<lambda>_.
        abind (alift (validate_deadline d d')) (\<lambda>_.
        abind (observe_time now) (\<lambda>_.
        abind (alift (require_reached now d')) (\<lambda>_. k))))) sp"
    if "\<And>sp'. sup_ok C p sp' \<Longrightarrow> sp' = sp\<lparr>sp_last_observed_ns := now\<rparr> \<Longrightarrow> sup_keeps C p now k sp'" for g' t' d' k
    unfolding wp_abind
    using ok that [OF sup_ok_observed [OF ok] refl] sup_ok_observed [OF ok]
    by (intro wp_validate_event)
      (auto simp: wp_alift validate_deadline_def require_reached_def intro!: wp_observe_time)
  show ?thesis
  proof (cases "sp_state sp")
    case (RS_Starting a g' t' d')
    then show ?thesis using due [OF enter_keeps(1)] by (simp add: deadline_elapsed_def wp_abind [of "aget sp_state"] wp_aget)
  next
    case (RS_AwaitingReady a g' t' d')
    then show ?thesis using due [OF enter_keeps(1)] by (simp add: deadline_elapsed_def wp_abind [of "aget sp_state"] wp_aget)
  next
    case (RS_CleaningUp a g' t' f act cl d' r)
    have "sup_keeps C p now (finish_cleanup now f CleanupFailed) sp'"
      if "sup_ok C p sp'" "sp' = sp\<lparr>sp_last_observed_ns := now\<rparr>" for sp'
      using wp_finish_cleanup [OF that(1), of a g' t' f act cl d' r now C CleanupFailed] RS_CleaningUp that(2) by simp
    from due [OF this] show ?thesis using RS_CleaningUp
      by (simp add: deadline_elapsed_def wp_abind [of "aget sp_state"] wp_aget)
  qed (use ok in \<open>simp_all add: deadline_elapsed_def wp_abind wp_aget wp_afail\<close>)
qed

lemma last_failure_Ok:
  assumes "history_wf (sp_history sp)" and "trail (sp_history sp) \<noteq> []"
  shows "last_failure sp = Ok (ar_failure (last (trail (sp_history sp))))"
proof -
  let ?h = "sp_history sp"
  have n: "unat (rh_len ?h) \<noteq> 0" using assms(2) length_trail [OF assms(1)] by (metis length_0_conv)
  have m: "unat (rh_len ?h) \<le> length (rh_records ?h)" using assms(1) by (simp add: history_wf_def)
  have "unat (rh_len ?h) - 1 < unat (rh_len ?h)" using n by simp
  then have "rh_records ?h ! (unat (rh_len ?h) - 1) \<noteq> None" using assms(1) unfolding history_wf_def by blast
  then obtain r where r: "rh_records ?h ! (unat (rh_len ?h) - 1) = Some r" by blast
  have "rh_len ?h \<noteq> 0" using n by auto
  then show ?thesis using n m r assms(2)
    by (simp add: last_failure_def restart_history_as_slice_def region_r_def region_def index_r_def trail_def
        last_map last_conv_nth min_def)
qed

lemma replacement_keeps:
  assumes ok: "sup_ok C p sp"
  shows "sup_keeps C p now (start_replacement now g t) sp"
proof (cases "sp_state sp")
  case (RS_Backoff a g' d)
  have p: "sp_policy sp = p" "history_wf (sp_history sp)"
    and b: "attempt_ok C p sp a g'" "trail (sp_history sp) \<noteq> []" "spaced p sp d"
    using ok RS_Backoff by (auto simp: sup_ok_def state_ok_def)
  let ?e = "sp_episode_started_at_ns sp"
  have perm: "sup_ok C p (sp\<lparr>sp_last_observed_ns := now,
      sp_state := RS_PermanentFailure (ar_failure (last (trail (sp_history sp)))) CleanupComplete\<rparr>)"
    using ok b trail_ok_last [OF _ b(2)] by (auto simp: sup_ok_def state_ok_def attempt_ok_def)
  have start: "sup_ok C p (sp\<lparr>sp_last_observed_ns := now, sp_attempt_started_at_ns := now, sp_last_generation := g',
      sp_state := RS_Starting a g' t r\<rparr>)"
    if "t \<noteq> 0" "d \<le> now" "now \<le> ?e + po_restart_window_ns p" "unat ?e + unat (po_restart_window_ns p) < 2 ^ 64" for r
    using ok b that by (auto simp: inv_defs word_le_nat_alt unat_deadline)
  have last: "last_failure (sp\<lparr>sp_last_observed_ns := now\<rparr>) = Ok (ar_failure (last (trail (sp_history sp))))"
    using last_failure_Ok [of "sp\<lparr>sp_last_observed_ns := now\<rparr>"] p(2) b(2) by simp
  show ?thesis
    using RS_Backoff p(1) ok sup_ok_observed [OF ok] perm start last
    by (simp add: start_replacement_def wp_abind wp_aget)
      (auto simp: wp_afail wp_alift wp_abind wp_aread wp_amod set_state_def require_reached_def not_less
        validate_identity_def checked_deadline_cases refusal_def deadlines_fit_def intro!: wp_observe_time)
qed (use ok in \<open>simp_all add: start_replacement_def wp_abind wp_aget wp_afail\<close>)

definition confirms :: "restart_event \<Rightarrow> (attempt_record \<Rightarrow> bool) \<Rightarrow> attempt_record \<Rightarrow> bool" where
  "confirms e C r \<longleftrightarrow> C r \<or> (\<exists>now. e = EvCleanupComplete (ar_generation r) (ar_transaction_id r) now)"

lemma confirms_other: "(\<And>g t now. e \<noteq> EvCleanupComplete g t now) \<Longrightarrow> confirms e C = C"
  by (auto simp: confirms_def)

lemma run_event_keeps:
  assumes "sup_ok C p sp"
  shows "wp (run_event e) (\<lambda>_. sup_ok (confirms e C) p) (\<lambda>err sp'. refusal p (ev_time e) err sp' \<and> sup_ok C p sp') sp"
proof (cases e)
  case (EvCleanupComplete g t now)
  then show ?thesis
    using cleanup_keeps [OF assms, of "confirms e C" CleanupComplete g t now] by (auto simp: confirms_def cleanup_complete_def)
next
  case (EvCleanupFailed g t now)
  then show ?thesis
    using cleanup_keeps [OF assms, of C CleanupFailed g t now] by (simp add: confirms_other cleanup_failed_def)
qed (use assms in \<open>simp_all add: confirms_other begin_keeps started_keeps ready_keeps fail_keeps recovery_keeps retire_keeps
      terminal_keeps deadline_keeps cancel_attempt_keeps replacement_keeps\<close>)

end
