(* ===== verification/RestartProps.thy ===== *)
theory RestartProps
  imports RestartInv "HOL-Library.Code_Target_Nat"
begin

text \<open>
  The theorems about the restart supervisor, for every supervisor that a sequence of events can reach,
  whether the events are accepted or refused and whatever times they carry. The events and their results
  are kept in a log, so that a state can be explained by what was reported before.
\<close>

type_synonym restart_log = "(restart_event \<times> (restart_error, unit) res) list"

inductive supervised :: "supervision_policy \<Rightarrow> restart_log \<Rightarrow> supervisor \<Rightarrow> bool" for p where
  start: "supervisor_new p = Ok sp \<Longrightarrow> supervised p [] sp"
| event: "supervised p log sp \<Longrightarrow> supervised p (log @ [(e, fst (run_event e sp))]) (snd (run_event e sp))"

text \<open>The cleanup of the attempt was reported as complete, and the report was accepted.\<close>

definition confirmed :: "restart_log \<Rightarrow> attempt_record \<Rightarrow> bool" where
  "confirmed log r \<longleftrightarrow> (\<exists>now. (EvCleanupComplete (ar_generation r) (ar_transaction_id r) now, Ok ()) \<in> set log)"

lemma supervised_ok: "supervised p log sp \<Longrightarrow> sup_ok (confirmed log) p sp"
proof (induction rule: supervised.induct)
  case (start sp)
  then show ?case by (rule supervisor_new_ok)
next
  case (event log sp e)
  obtain res sp' where r: "run_event e sp = (res, sp')" by (cases "run_event e sp")
  note w = run_event_keeps [OF event.IH, of e]
  show ?case
  proof (cases res)
    case (Ok u)
    then have "sup_ok (confirms e (confirmed log)) p sp'" using w r by (simp add: wp_def)
    then show ?thesis using r Ok by (auto simp: confirmed_def confirms_def elim!: sup_ok_mono)
  next
    case (Err err)
    then have "sup_ok (confirmed log) p sp'" using w r by (simp add: wp_def)
    then show ?thesis using r by (auto simp: confirmed_def elim!: sup_ok_mono)
  next
    case Panic
    then show ?thesis using w r by (simp add: wp_def)
  qed
qed

text \<open>The results of a sequence of events and the supervisor after it.\<close>

fun run_events :: "restart_event list \<Rightarrow> supervisor \<Rightarrow> (restart_error, unit) res list \<times> supervisor" where
  "run_events [] sp = ([], sp)"
| "run_events (e # es) sp =
     (case run_event e sp of (r, sp') \<Rightarrow> case run_events es sp' of (rs, sp'') \<Rightarrow> (r # rs, sp''))"

lemma supervised_events:
  "supervised p log sp \<Longrightarrow> supervised p (log @ zip es (fst (run_events es sp))) (snd (run_events es sp))"
proof (induction es arbitrary: log sp)
  case (Cons e es)
  from Cons.IH [OF supervised.event [OF Cons.prems]] show ?case by (simp add: split_beta)
qed simp

subsection \<open>A sample run\<close>

abbreviation wyr_policy :: supervision_policy where
  "wyr_policy \<equiv> WYR0_I_SUPERVISION_POLICY"

definition sample_events :: "restart_event list" where
  "sample_events = [EvBegin 100 7 1, EvStarted 7 1 200, EvReady 7 1 300, EvTerminal 7 1 400 UnhandledException,
     EvCleanupComplete 7 1 500, EvReplace 25000500 8 2]"

definition sample_supervisor :: supervisor where
  "sample_supervisor = \<lparr>sp_policy = wyr_policy, sp_state = RS_Stopped, sp_history = restart_history_new,
     sp_episode_started_at_ns = 0, sp_attempt_started_at_ns = 0, sp_last_observed_ns = 0, sp_last_generation = 0\<rparr>"

definition restarted_supervisor :: supervisor where
  "restarted_supervisor = snd (run_events sample_events sample_supervisor)"

definition sample_log :: restart_log where
  "sample_log = zip sample_events (fst (run_events sample_events sample_supervisor))"

lemma sample_supervised: "supervised wyr_policy [] sample_supervisor"
  by (rule supervised.start)
    (simp add: supervisor_new_def sample_supervisor_def WYR0_I_SUPERVISION_POLICY_def RESTART_HISTORY_CAPACITY_def)

lemma restarted_supervised: "supervised wyr_policy sample_log restarted_supervisor"
  using supervised_events [OF sample_supervised, of sample_events]
  by (simp add: restarted_supervisor_def sample_log_def)

lemma restarted_state:
  "live_attempt (sp_state restarted_supervisor) = Some (2, 8, 2)"
  unfolding restarted_supervisor_def by code_simp

subsection \<open>Bounded attempts\<close>

text \<open>C19. Whatever events are reported in whatever order and at whatever times, the supervisor never
  panics. The attempt of a live generation is at most the number of attempts of the policy, and the
  history holds exactly the attempts before it. A deadline overflow is reported only when an interval of
  the policy, added to the time of the event or to the start of the episode, does not fit into 64 bits;
  and the history is full only in a cleanup whose next deadline does not fit.\<close>

theorem restart_bounded:
  assumes "supervised p log sp"
  shows "(case run_event e sp of
      (Ok _, sp') \<Rightarrow> True
    | (Err err, sp') \<Rightarrow>
        (err = RE_ArithmeticOverflow \<longrightarrow>
           \<not> deadlines_fit p (ev_time e) \<or> \<not> deadlines_fit p (sp_episode_started_at_ns sp')) \<and>
        (err = RE_HistoryExhausted \<longrightarrow> overflowed p sp')
    | (Panic, sp') \<Rightarrow> False) \<and>
    (case live_attempt (sp_state sp) of
       None \<Rightarrow> True
     | Some (a, g, t) \<Rightarrow> unat a \<le> unat (po_max_attempts p) \<and> unat a \<le> RESTART_HISTORY_CAPACITY \<and>
         unat (rh_len (sp_history sp)) + 1 = unat a)"
proof
  have ok: "sup_ok (confirmed log) p sp" by (rule supervised_ok [OF assms])
  show "case run_event e sp of
      (Ok _, sp') \<Rightarrow> True
    | (Err err, sp') \<Rightarrow>
        (err = RE_ArithmeticOverflow \<longrightarrow>
           \<not> deadlines_fit p (ev_time e) \<or> \<not> deadlines_fit p (sp_episode_started_at_ns sp')) \<and>
        (err = RE_HistoryExhausted \<longrightarrow> overflowed p sp')
    | (Panic, sp') \<Rightarrow> False"
    using run_event_keeps [OF ok, of e] by (auto simp: wp_def refusal_def split: prod.splits res.splits)
  have "unat a \<le> unat (po_max_attempts p) \<and> unat a \<le> RESTART_HISTORY_CAPACITY \<and>
      unat (rh_len (sp_history sp)) + 1 = unat a" if "live_attempt (sp_state sp) = Some (a, g, t)" for a g t
    using live_attempt_ok [OF ok that] ok length_trail
    by (fastforce simp: live_ok_def attempt_ok_def sup_ok_def policy_ok_def)
  then show "case live_attempt (sp_state sp) of
       None \<Rightarrow> True
     | Some (a, g, t) \<Rightarrow> unat a \<le> unat (po_max_attempts p) \<and> unat a \<le> RESTART_HISTORY_CAPACITY \<and>
         unat (rh_len (sp_history sp)) + 1 = unat a"
    by (auto split: option.splits)
qed

theorem restart_bounded_witness:
  "fst (run_event (EvTerminal 8 2 0xFFFFFFFFFFFFFFFF UnhandledException) restarted_supervisor) \<noteq> Panic \<and>
   unat (rh_len (sp_history restarted_supervisor)) + 1 = 2"
  using restart_bounded [OF restarted_supervised, of "EvTerminal 8 2 0xFFFFFFFFFFFFFFFF UnhandledException"] restarted_state
  by (auto split: prod.splits res.splits)

subsection \<open>Replacements\<close>

text \<open>A permanent failure is final, and the accepted report of a failed cleanup leads to it.\<close>

lemma permanent_final:
  "sp_state sp = RS_PermanentFailure f c \<Longrightarrow> sp_state (snd (run_event e sp)) = RS_PermanentFailure f c"
  by (cases e)
    (simp_all add: action_defs begin_episode_def child_started_def child_ready_def fail_attempt_def admit_recovery_def
      retire_active_fail_closed_def terminal_observed_def deadline_elapsed_def cancel_attempt_def cleanup_complete_def
      cleanup_failed_def cleanup_reported_def start_replacement_def identity_error_or_invalid_state_def)

lemma failed_cleanup_permanent:
  assumes "cleanup_failed g t now sp = (Ok u, sp')"
  shows "\<exists>f. sp_state sp' = RS_PermanentFailure f CleanupFailed"
  using assms
  by (cases "sp_state sp")
    (auto simp: action_defs cleanup_failed_def cleanup_reported_def finish_cleanup_def schedule_next_def set_state_def
      push_record_def observe_time_def current_failure_def identity_error_or_invalid_state_def validate_event_identity_def
      validate_identity_def Let_def split: prod.splits res.splits if_splits)

lemma failed_cleanup_final:
  "supervised p log sp \<Longrightarrow> (EvCleanupFailed g t now, Ok ()) \<in> set log \<Longrightarrow>
    \<exists>f c. sp_state sp = RS_PermanentFailure f c"
proof (induction rule: supervised.induct)
  case (event log sp e)
  show ?case
  proof (cases "(EvCleanupFailed g t now, Ok ()) \<in> set log")
    case True
    then show ?thesis using event.IH permanent_final by metis
  next
    case False
    then have e: "e = EvCleanupFailed g t now" "fst (run_event e sp) = Ok ()" using event.prems by auto
    then have "cleanup_failed g t now sp = (Ok (), snd (run_event e sp))" by (metis prod.collapse run_event.simps(11))
    then show ?thesis using failed_cleanup_permanent by metis
  qed
qed simp

text \<open>C21. No replacement without a confirmed cleanup: the generation before a live one of the same episode
  is the last record of the history, and its complete cleanup was reported, with its generation and
  transaction, in an accepted event before; no accepted event ever reported a failed cleanup. The live
  generation was started no earlier than the backoff after the failure of its predecessor and inside the
  restart window, and every earlier generation of the episode was cleaned up and confirmed too.\<close>

theorem replacement_after_cleanup:
  assumes "supervised p log sp" and "live_attempt (sp_state sp) = Some (a, g, t)" and "2 \<le> unat a"
  shows "let r = last (trail (sp_history sp)) in
    Suc (unat (ar_generation r)) = unat g \<and> Suc (unat (ar_attempt r)) = unat a \<and>
    (\<exists>now. (EvCleanupComplete (ar_generation r) (ar_transaction_id r) now, Ok ()) \<in> set log) \<and>
    (\<forall>g' t' now. (EvCleanupFailed g' t' now, Ok ()) \<notin> set log) \<and>
    unat (ar_terminal_at_ns r) + unat (po_backoff_ns p) \<le> unat (sp_attempt_started_at_ns sp) \<and>
    unat (sp_attempt_started_at_ns sp) \<le> unat (sp_episode_started_at_ns sp) + unat (po_restart_window_ns p) \<and>
    list_all (\<lambda>r. ar_cleanup r = CleanupComplete \<and>
      (\<exists>now. (EvCleanupComplete (ar_generation r) (ar_transaction_id r) now, Ok ()) \<in> set log)) (trail (sp_history sp))"
proof -
  have l: "live_ok (confirmed log) p sp a g t" by (rule live_attempt_ok [OF supervised_ok [OF assms(1)] assms(2)])
  then have ne: "trail (sp_history sp) \<noteq> []" and tr: "trail_ok (confirmed log) (trail (sp_history sp)) (unat g)"
    and len: "unat a = Suc (length (trail (sp_history sp)))"
    using assms(3) by (auto simp: live_ok_def attempt_ok_def)
  have "unat (ar_attempt (last (trail (sp_history sp)))) = length (trail (sp_history sp))"
    using tr ne by (auto simp: trail_ok_def last_conv_nth)
  moreover have all: "list_all (\<lambda>r. ar_cleanup r = CleanupComplete \<and>
      (\<exists>now. (EvCleanupComplete (ar_generation r) (ar_transaction_id r) now, Ok ()) \<in> set log)) (trail (sp_history sp))"
    using tr by (auto simp: trail_ok_def list_all_length confirmed_def)
  moreover have "(EvCleanupFailed g' t' now, Ok ()) \<notin> set log" for g' t' now
    using failed_cleanup_final [OF assms(1)] assms(2) by fastforce
  moreover have "\<exists>now. (EvCleanupComplete (ar_generation (last (trail (sp_history sp))))
      (ar_transaction_id (last (trail (sp_history sp)))) now, Ok ()) \<in> set log"
    using all ne by (simp add: list_all_iff)
  ultimately show ?thesis
    using l ne len trail_ok_last [OF tr ne] by (auto simp: Let_def live_ok_def spaced_def)
qed

theorem replacement_after_cleanup_witness:
  "let r = last (trail (sp_history restarted_supervisor)) in
     Suc (unat (ar_generation r)) = 8 \<and>
     (\<exists>now. (EvCleanupComplete (ar_generation r) (ar_transaction_id r) now, Ok ()) \<in> set sample_log) \<and>
     unat (ar_terminal_at_ns r) + 25000000 \<le> unat (sp_attempt_started_at_ns restarted_supervisor)"
  using replacement_after_cleanup [OF restarted_supervised restarted_state]
  by (simp add: Let_def WYR0_I_SUPERVISION_POLICY_def)

subsection \<open>Stale events\<close>

fun event_generation :: "restart_event \<Rightarrow> u64 option" where
  "event_generation (EvBegin _ _ _) = None"
| "event_generation (EvReplace _ _ _) = None"
| "event_generation (EvStarted g _ _) = Some g"
| "event_generation (EvReady g _ _) = Some g"
| "event_generation (EvFail g _ _ _) = Some g"
| "event_generation (EvRecover g _ _ _) = Some g"
| "event_generation (EvRetire g _ _ _ _) = Some g"
| "event_generation (EvTerminal g _ _ _) = Some g"
| "event_generation (EvDeadline g _ _ _) = Some g"
| "event_generation (EvCancel g _ _) = Some g"
| "event_generation (EvCleanupComplete g _ _) = Some g"
| "event_generation (EvCleanupFailed g _ _) = Some g"

text \<open>C22. An event of another generation than the current one, and any event when no generation is
  active, is refused and changes nothing, not even the clock of the supervisor: late observations of a
  retired child cannot disturb its replacement.\<close>

theorem stale_event_refused:
  assumes "event_generation e = Some g" and "\<forall>t. active_identity (sp_state sp) \<noteq> Some (g, t)"
  shows "\<exists>err. run_event e sp = (Err err, sp)"
proof -
  have id: "\<exists>err. validate_event_identity g t g' t' = Err err" if "g \<noteq> g'" for t g' t'
    using that by (auto simp: validate_event_identity_def validate_identity_def)
  have ident: "\<exists>err. identity_error_or_invalid_state g t sp = (Err err, sp)" for t
    using id assms(2)
    by (auto simp: identity_error_or_invalid_state_def aread_def split: option.splits prod.splits res.splits)
       (metis res.distinct(1) res.distinct(5))
  have ne: "g \<noteq> g'" if "active_identity (sp_state sp) = Some (g', t')" for g' t' using assms(2) that by auto
  show ?thesis
    using assms(1) id ident ne
    by (cases e; cases "sp_state sp")
      (auto simp: action_defs child_started_def child_ready_def fail_attempt_def admit_recovery_def
        retire_active_fail_closed_def terminal_observed_def deadline_elapsed_def cancel_attempt_def
        cleanup_complete_def cleanup_failed_def cleanup_reported_def Let_def validate_event_identity_def validate_identity_def)
qed

theorem stale_event_refused_witness:
  "\<exists>err. run_event (EvTerminal 7 1 25000600 (NormalExit 0)) restarted_supervisor = (Err err, restarted_supervisor)"
proof -
  have "active_identity (sp_state restarted_supervisor) = Some (8, 2)"
    using restarted_state by (cases "sp_state restarted_supervisor") auto
  moreover have "(8 :: u64) \<noteq> 7" by simp
  ultimately show ?thesis by (intro stale_event_refused [of _ 7]) simp_all
qed

end
