(* ===== verification/RestartEnds.thy ===== *)
theory RestartEnds
  imports RestartProps
begin

text \<open>
  A supervision episode ends: every accepted event lowers a measure on the state, whatever the child
  does and whatever the clock shows, unless the controller begins a new episode or admits a recovery.
\<close>

subsection \<open>An episode ends\<close>

text \<open>The number of accepted events that a state of an episode still allows.\<close>

fun energy :: "supervision_policy \<Rightarrow> restart_state \<Rightarrow> nat" where
  "energy p (RS_Starting a _ _ _) = 5 * (unat (po_max_attempts p) - unat a) + 4"
| "energy p (RS_AwaitingReady a _ _ _) = 5 * (unat (po_max_attempts p) - unat a) + 3"
| "energy p (RS_Ready a _ _) = 5 * (unat (po_max_attempts p) - unat a) + 2"
| "energy p (RS_CleaningUp a _ _ _ _ _ _ _) = 5 * (unat (po_max_attempts p) - unat a) + 1"
| "energy p (RS_Backoff a _ _) = 5 * (unat (po_max_attempts p) - unat a) + 5"
| "energy p _ = 0"

text \<open>An event is accepted when it succeeds or is classified as a failure of the attempt; any other
  result leaves the state as it was.\<close>

definition accepted :: "(restart_error, unit) res \<Rightarrow> bool" where
  "accepted r \<longleftrightarrow> (case r of Ok _ \<Rightarrow> True | Err (RE_AttemptFailed _) \<Rightarrow> True | _ \<Rightarrow> False)"

definition spends :: "supervision_policy \<Rightarrow> restart_state \<Rightarrow> unit srop \<Rightarrow> supervisor \<Rightarrow> bool" where
  "spends p st m sp \<longleftrightarrow>
     (case m sp of (r, sp') \<Rightarrow>
        if accepted r then energy p (sp_state sp') < energy p st else sp_state sp' = st)"

lemma spends_afail: "sp_state sp = st \<Longrightarrow> accepted (Err e) = False \<Longrightarrow> spends p st (afail e) sp"
  by (simp add: spends_def afail_def)

lemma spends_set: "energy p s < energy p st \<Longrightarrow> spends p st (set_state s) sp"
  by (simp add: spends_def set_state_def amod_def accepted_def)

lemma spends_check:
  assumes "sp_state sp = st" and "\<And>e. r = Err e \<Longrightarrow> \<not> accepted (Err e)" and "\<And>a. r = Ok a \<Longrightarrow> spends p st (k a) sp"
  shows "spends p st (abind (alift r) k) sp"
  using assms by (cases r) (auto simp: spends_def abind_def alift_def accepted_def)

lemma spends_read:
  assumes "sp_state sp = st" and "\<And>e. f sp = Err e \<Longrightarrow> \<not> accepted (Err e)" and "\<And>a. f sp = Ok a \<Longrightarrow> spends p st (k a) sp"
  shows "spends p st (abind (aread f) k) sp"
  using assms by (cases "f sp") (auto simp: spends_def abind_def aread_def accepted_def)

lemma spends_get: "spends p st (k (f sp)) sp \<Longrightarrow> spends p st (abind (aget f) k) sp"
  by (simp add: spends_def abind_def aget_def)

lemma spends_observe:
  assumes "sp_state sp = st" and "spends p st k (sp\<lparr>sp_last_observed_ns := now\<rparr>)"
  shows "spends p st (abind (observe_time now) (\<lambda>_. k)) sp"
  using assms by (simp add: spends_def observe_time_def action_defs accepted_def)

lemma spends_identity_error:
  "sp_state sp = st \<Longrightarrow> spends p st (identity_error_or_invalid_state g t) sp"
  by (auto simp: spends_def identity_error_or_invalid_state_def aread_def accepted_def validate_event_identity_def
      validate_identity_def split: option.splits)

lemma check_refused:
  "validate_identity g t = Err e \<Longrightarrow> \<not> accepted (Err e)"
  "validate_event_identity g t g' t' = Err e \<Longrightarrow> \<not> accepted (Err e)"
  "checked_deadline n d = Err e \<Longrightarrow> \<not> accepted (Err e)" "validate_deadline n d = Err e \<Longrightarrow> \<not> accepted (Err e)"
  "require_reached n d = Err e \<Longrightarrow> \<not> accepted (Err e)" "ok_or RE_ArithmeticOverflow v = Err e \<Longrightarrow> \<not> accepted (Err e)"
  by (auto simp: validate_event_identity_def validate_identity_def checked_deadline_def validate_deadline_def
      require_reached_def accepted_def res_simps split: if_splits)

lemma energy_live:
  assumes "live_attempt st = Some (a, g, t)"
  shows "energy p (RS_CleaningUp a g' t' f act c d r) < energy p st"
  using assms by (cases st) auto

lemma spends_enter:
  assumes "sp_state sp = st" and "live_attempt st = Some x"
  shows "spends p st (enter_cleanup now f act r) sp"
    and "spends p st (abind (enter_cleanup now f act r) (\<lambda>_. afail (RE_AttemptFailed e))) sp"
  using assms energy_live [of st "fst x" "fst (snd x)" "snd (snd x)"]
  by (auto simp: spends_def enter_cleanup_def action_defs accepted_def checked_deadline_def
      split: res.splits prod.splits dest: check_refused)

lemma spends_schedule:
  assumes "sp_state sp = st" and st: "st = RS_CleaningUp a g t f' act c d r" and "sp_policy sp = p"
  shows "spends p st (schedule_next now a g f cl retry) sp"
proof -
  have done1: "spends p st (set_state (RS_PermanentFailure f cl)) sp" "spends p st (set_state RS_Stopped) sp"
    by (auto intro!: spends_set simp: st)
  have next1: "energy p (RS_Backoff b g' d') < energy p st" if "checked_add_u8 a 1 = Some b" "\<not> po_max_attempts p < b" for b g' d'
  proof -
    have "unat b = Suc (unat a)" using that(1) by (auto simp: checked_add_u8_def unat_word_ariths split: if_splits)
    then have "Suc (unat a) \<le> unat (po_max_attempts p)" using that(2) by (simp add: word_less_nat_alt)
    then show ?thesis using \<open>unat b = Suc (unat a)\<close> by (simp add: st)
  qed
  show ?thesis
    using assms(1,3) done1 next1 unfolding schedule_next_def
    by (auto intro!: spends_check spends_get spends_set dest: check_refused split: option.split)
      (auto simp: res_simps dest!: check_refused(3))
qed

lemma spends_finish:
  assumes "sp_state sp = st" and st: "st = RS_CleaningUp a g t f' act c d r" and "sp_policy sp = p"
  shows "spends p st (finish_cleanup now f req) sp"
proof -
  have push: "spends p st (abind (push_record rec) (\<lambda>_. schedule_next now a g f cl r)) sp" for rec cl
  proof (cases "restart_history_push rec (sp_history sp)")
    case (Pair res h)
    let ?sp = "sp\<lparr>sp_history := h\<rparr>"
    have "spends p st (schedule_next now a g f cl r) ?sp"
      using assms(1,3) st by (intro spends_schedule [OF _ st]) auto
    moreover have "\<not> accepted (Err e)" "res \<noteq> Panic" if "res = Err e" for e
      using Pair that by (auto simp: restart_history_push_def Let_def accepted_def split: if_splits option.splits)
    moreover have "res \<noteq> Panic" using Pair by (auto simp: restart_history_push_def Let_def split: if_splits option.splits)
    ultimately show ?thesis using Pair assms(1)
      by (cases res) (auto simp: spends_def abind_def push_record_def)
  qed
  then show ?thesis using assms(1) st unfolding finish_cleanup_def Let_def
    by (auto intro!: spends_get spends_afail simp: accepted_def)
qed

text \<open>The two events by which the controller gives a service a new episode with all its attempts.\<close>

fun renews :: "restart_event \<Rightarrow> bool" where
  "renews (EvBegin _ _ _) = True"
| "renews (EvRecover _ _ _ _) = True"
| "renews _ = False"

lemma spends_live:
  assumes "sp_state sp = st" and "\<And>x sp'. live_attempt st = Some x \<Longrightarrow> sp_state sp' = st \<Longrightarrow> spends p st m sp'"
  shows "spends p st (case live_attempt st of
       None \<Rightarrow> identity_error_or_invalid_state g t
     | Some (_, g', t') \<Rightarrow>
         abind (alift (validate_event_identity g t g' t')) (\<lambda>_. abind (observe_time now) (\<lambda>_. m))) sp"
  using assms
  by (auto intro!: spends_identity_error spends_check spends_observe dest: check_refused split: option.split)

lemma not_accepted [simp]:
  "\<not> accepted (Err RE_InvalidState)" "\<not> accepted (Err RE_StaleGeneration)" "\<not> accepted (Err RE_GenerationNotAdvanced)"
  by (simp_all add: accepted_def)

lemmas spends_steps = spends_get spends_check spends_observe spends_read spends_set spends_afail spends_identity_error

lemma spends_started: "spends p (sp_state sp) (child_started g t now) sp"
  unfolding child_started_def
  by (rule spends_get, cases "sp_state sp")
    (auto intro!: spends_check spends_observe spends_set spends_afail spends_enter dest: check_refused)

lemma spends_ready: "spends p (sp_state sp) (child_ready g t now) sp"
  unfolding child_ready_def
  by (rule spends_get, cases "sp_state sp")
    (auto intro!: spends_check spends_observe spends_set spends_afail spends_enter spends_identity_error dest: check_refused)

lemma spends_fail: "spends p (sp_state sp) (fail_attempt g t now f) sp"
  unfolding fail_attempt_def
  by (rule spends_get, rule spends_live) (auto simp: Let_def intro!: spends_afail spends_enter)

lemma spends_terminal: "spends p (sp_state sp) (terminal_observed g t now d) sp"
  unfolding terminal_observed_def Let_def
  by (rule spends_get, rule spends_live) (auto intro!: spends_enter)

lemma spends_cancel: "spends p (sp_state sp) (cancel_attempt g t now) sp"
  unfolding cancel_attempt_def
  by (rule spends_get, rule spends_live) (auto intro!: spends_enter)

lemma spends_retire: "spends p (sp_state sp) (retire_active_fail_closed g t now f cl) sp"
proof -
  have push: "spends p st (abind (push_record rec) (\<lambda>_. set_state (RS_PermanentFailure f cl))) sp'"
    if "sp_state sp' = st" "0 < energy p st" for rec sp' st
    using that
    by (auto simp: spends_def push_record_def restart_history_push_def action_defs set_state_def accepted_def Let_def
        split: option.splits)
  show ?thesis unfolding retire_active_fail_closed_def
    by (rule spends_get, cases "sp_state sp")
      (auto intro!: spends_check spends_observe spends_get spends_identity_error push dest: check_refused)
qed

lemma spends_deadline: "sp_policy sp = p \<Longrightarrow> spends p (sp_state sp) (deadline_elapsed g t d now) sp"
  unfolding deadline_elapsed_def Let_def
  by (rule spends_get, cases "sp_state sp")
    (auto intro!: spends_check spends_observe spends_afail spends_enter spends_finish [OF _ refl] dest: check_refused)

lemma spends_cleanup: "sp_policy sp = p \<Longrightarrow> spends p (sp_state sp) (cleanup_reported req g t now) sp"
  unfolding cleanup_reported_def
  by (rule spends_get, cases "sp_state sp")
    (auto intro!: spends_check spends_observe spends_read spends_afail spends_finish [OF _ refl] spends_identity_error
      simp: current_failure_def dest: check_refused)

lemma last_failure_refused: "last_failure sp = Err e \<Longrightarrow> \<not> accepted (Err e)"
  by (auto simp: last_failure_def restart_history_as_slice_def res_simps accepted_def split: if_splits)

lemma spends_replacement: "spends p (sp_state sp) (start_replacement now g t) sp"
proof (cases "sp_state sp")
  case (RS_Backoff a g' d)
  have start: "spends p (RS_Backoff a g' d) (amod (\<lambda>sp. sp\<lparr>sp_attempt_started_at_ns := now, sp_last_generation := g',
      sp_state := RS_Starting a g' t w\<rparr>)) sp'" for sp' w
    by (simp add: spends_def amod_def accepted_def)
  show ?thesis unfolding start_replacement_def
    by (rule spends_get)
      (use RS_Backoff in \<open>auto intro!: spends_check spends_observe spends_read spends_afail spends_set start
        dest: check_refused last_failure_refused\<close>)
qed (auto simp: start_replacement_def intro!: spends_get spends_afail)

lemma spends_event:
  assumes "sp_policy sp = p" and "\<not> renews e"
  shows "spends p (sp_state sp) (run_event e) sp"
  using assms
  by (cases e) (simp_all add: spends_started spends_ready spends_fail spends_retire spends_terminal spends_deadline
      spends_cancel spends_cleanup cleanup_complete_def cleanup_failed_def spends_replacement)

lemma renewal_refused:
  assumes "renews e" and "run_event e sp = (r, sp')" and "\<not> accepted r"
  shows "sp_state sp' = sp_state sp"
  using assms
  by (cases e)
    (auto simp: accepted_def action_defs begin_episode_def admit_recovery_def observe_time_def
      split: prod.splits res.splits if_splits restart_state.splits)

lemma energy_bound:
  assumes "sup_ok C p sp"
  shows "energy p (sp_state sp) < 5 * unat (po_max_attempts p)"
  using assms
  by (cases "sp_state sp"; cases "trail (sp_history sp)")
    (auto simp: sup_ok_def policy_ok_def state_ok_def live_ok_def attempt_ok_def overflowed_def)

definition renewals :: "restart_event list \<Rightarrow> (restart_error, unit) res list \<Rightarrow> nat" where
  "renewals es rs = length (filter (\<lambda>(e, r). renews e \<and> accepted r) (zip es rs))"

lemma accepted_energy:
  assumes "supervised p log sp"
  shows "length (filter accepted (fst (run_events es sp))) \<le>
    energy p (sp_state sp) + 5 * unat (po_max_attempts p) * renewals es (fst (run_events es sp))"
  using assms
proof (induction es arbitrary: log sp)
  case (Cons e es)
  obtain r sp' where r: "run_event e sp = (r, sp')" by (cases "run_event e sp")
  let ?N = "5 * unat (po_max_attempts p)" and ?rs = "fst (run_events es sp')"
  have sv: "supervised p (log @ [(e, r)]) sp'" using supervised.event [OF Cons.prems, of e] r by simp
  note IH = Cons.IH [OF sv]
  have fst: "fst (run_events (e # es) sp) = r # ?rs" using r by (simp add: split_beta)
  have pol: "sp_policy sp = p" using supervised_ok [OF Cons.prems] by (simp add: sup_ok_def)
  have E: "energy p (sp_state sp') < ?N" by (rule energy_bound [OF supervised_ok [OF sv]])
  show ?case
  proof (cases "renews e")
    case True
    then show ?thesis using IH E renewal_refused [OF True r] unfolding fst
      by (auto simp: renewals_def)
  next
    case False
    then have "spends p (sp_state sp) (run_event e) sp" by (intro spends_event pol)
    then show ?thesis using IH False r unfolding fst
      by (auto simp: renewals_def spends_def split: if_splits)
  qed
qed (simp add: renewals_def)

text \<open>C20. An episode is bounded: whatever events are reported, in any order, in any number and at any time,
  fewer than five per allowed attempt are accepted for each episode, and only the controller gives the
  service another one, by beginning it or by admitting the recovery of a ready service. Without these two a
  crashing service is restarted only finitely often.\<close>

theorem episode_ends:
  assumes "supervised p log sp"
  shows "length (filter accepted (fst (run_events es sp))) <
    5 * unat (po_max_attempts p) * (1 + renewals es (fst (run_events es sp)))"
  using accepted_energy [OF assms, of es] energy_bound [OF supervised_ok [OF assms]]
  by (simp add: algebra_simps)

text \<open>A service that becomes ready and crashes, five times in a row.\<close>

definition crash_loop :: "restart_event list" where
  "crash_loop = concat (map (\<lambda>g. [EvStarted g 2 26000000, EvReady g 2 26000000,
     EvTerminal g 2 26000000 UnhandledException, EvCleanupComplete g 2 26000000, EvReplace 51000000 (g + 1) 2])
     [8, 9, 10, 11, 12])"

theorem episode_ends_witness:
  "length crash_loop = 25 \<and> length (filter accepted (fst (run_events crash_loop restarted_supervisor))) < 20"
proof
  have "5 * unat (po_max_attempts wyr_policy) = 20" by (simp add: WYR0_I_SUPERVISION_POLICY_def)
  moreover have "renewals crash_loop rs = 0" for rs
    by (auto simp: renewals_def crash_loop_def filter_empty_conv dest!: set_zip_leftD)
  ultimately show "length (filter accepted (fst (run_events crash_loop restarted_supervisor))) < 20"
    using episode_ends [OF restarted_supervised, of crash_loop] by simp
qed (simp add: crash_loop_def)

subsection \<open>A window that overflows\<close>

text \<open>In a cleanup with a full history no event is accepted, and nothing but the clock changes.\<close>

lemma full_history_refuses:
  assumes "sp_state sp = RS_CleaningUp a g t f act c d retry"
    and "\<And>r. restart_history_push r (sp_history sp) = (Err RE_HistoryExhausted, sp_history sp)"
  shows "\<exists>err now. run_event e sp = (Err err, sp\<lparr>sp_last_observed_ns := now\<rparr>)"
proof -
  have same: "\<exists>now. sp = sp\<lparr>sp_last_observed_ns := now\<rparr>" by (rule exI [of _ "sp_last_observed_ns sp"]) simp
  have push: "push_record r' (sp\<lparr>sp_last_observed_ns := n\<rparr>) = (Err RE_HistoryExhausted, sp\<lparr>sp_last_observed_ns := n\<rparr>)" for r' n
    using assms(2) by (simp add: push_record_def)
  show ?thesis
    using assms(1) push same
    by (cases e)
      (auto simp: action_defs begin_episode_def child_started_def child_ready_def fail_attempt_def admit_recovery_def
        retire_active_fail_closed_def terminal_observed_def deadline_elapsed_def cancel_attempt_def cleanup_complete_def
        cleanup_failed_def cleanup_reported_def start_replacement_def identity_error_or_invalid_state_def
        validate_event_identity_def validate_identity_def validate_deadline_def require_reached_def observe_time_def
        finish_cleanup_def current_failure_def Let_def)
qed

definition stuck :: "supervisor \<Rightarrow> bool" where
  "stuck sp \<longleftrightarrow> rh_len (sp_history sp) = 4 \<and> length (rh_records (sp_history sp)) = 4 \<and>
     (case sp_state sp of RS_CleaningUp _ _ _ _ _ _ _ _ \<Rightarrow> True | _ \<Rightarrow> False)"

lemma stuck_event:
  assumes "stuck sp"
  shows "\<exists>err now. run_event e sp = (Err err, sp\<lparr>sp_last_observed_ns := now\<rparr>)"
proof -
  have "restart_history_push r (sp_history sp) = (Err RE_HistoryExhausted, sp_history sp)" for r
    using assms by (simp add: stuck_def restart_history_push_def Let_def)
  then show ?thesis using assms full_history_refuses by (auto simp: stuck_def split: restart_state.splits)
qed

lemma stuck_events:
  "stuck sp \<Longrightarrow> list_all (\<lambda>r. \<exists>err. r = Err err) (fst (run_events es sp)) \<and>
     (\<exists>now. snd (run_events es sp) = sp\<lparr>sp_last_observed_ns := now\<rparr>)"
proof (induction es arbitrary: sp)
  case Nil
  show ?case by (simp add: exI [of _ "sp_last_observed_ns sp"])
next
  case (Cons e es)
  obtain err now where r: "run_event e sp = (Err err, sp\<lparr>sp_last_observed_ns := now\<rparr>)" using stuck_event [OF Cons.prems] by blast
  have "stuck (sp\<lparr>sp_last_observed_ns := now\<rparr>)" using Cons.prems by (simp add: stuck_def)
  from Cons.IH [OF this] r show ?case by (auto simp: split_beta)
qed

text \<open>The largest window that \<open>supervisor_new\<close> accepts.\<close>

definition endless_supervisor :: supervisor where
  "endless_supervisor = sample_supervisor\<lparr>sp_policy := wyr_policy\<lparr>po_restart_window_ns := 0xFFFFFFFFFFFFFFFF\<rparr>\<rparr>"

definition crashed_once :: "restart_event list" where
  "crashed_once = [EvBegin 1 1 1, EvStarted 1 1 2, EvTerminal 1 1 3 UnhandledException]"

definition reports :: "restart_event list" where
  "reports = [EvCleanupComplete 1 1 4, EvCleanupComplete 1 1 5, EvCleanupComplete 1 1 6, EvCleanupComplete 1 1 7]"

text \<open>The result of each event of a run and the length of the history after it.\<close>

fun run_lengths :: "restart_event list \<Rightarrow> supervisor \<Rightarrow> ((restart_error, unit) res \<times> byte) list" where
  "run_lengths [] sp = []"
| "run_lengths (e # es) sp = (case run_event e sp of (r, sp') \<Rightarrow> (r, rh_len (sp_history sp')) # run_lengths es sp')"

definition endless_stuck :: supervisor where
  "endless_stuck = snd (run_events (crashed_once @ reports) endless_supervisor)"

definition endless_state :: restart_state where
  "endless_state = RS_CleaningUp 1 1 1 (ExitBeforeReady UnhandledException) CloseTerminal 3 1000000003 True"

lemma endless_final: "stuck endless_stuck \<and> sp_state endless_stuck = endless_state"
  by code_simp

text \<open>C40. A supervisor can get stuck. \<open>supervisor_new\<close> accepts any window other than zero; with the largest
  one, in the run given here, the end of the window overflows at the first confirmed cleanup, after the
  record was pushed: the event is refused, yet the history is longer, and each repetition adds the same
  attempt once more. After four reports the history is full, and from then on every event whatsoever is
  refused and the supervisor stays in cleanup.\<close>

theorem overflowing_window_sticks:
  "supervisor_new (sp_policy endless_supervisor) = Ok endless_supervisor \<and>
   run_lengths (crashed_once @ reports) endless_supervisor =
     [(Ok (), 0), (Ok (), 0), (Ok (), 0), (Err RE_ArithmeticOverflow, 1), (Err RE_ArithmeticOverflow, 2),
      (Err RE_ArithmeticOverflow, 3), (Err RE_ArithmeticOverflow, 4)] \<and>
   list_all (\<lambda>r. \<exists>err. r = Err err) (fst (run_events es endless_stuck)) \<and>
   sp_state (snd (run_events es endless_stuck)) = endless_state"
proof (intro conjI)
  show "supervisor_new (sp_policy endless_supervisor) = Ok endless_supervisor" by code_simp
  show "run_lengths (crashed_once @ reports) endless_supervisor =
     [(Ok (), 0), (Ok (), 0), (Ok (), 0), (Err RE_ArithmeticOverflow, 1), (Err RE_ArithmeticOverflow, 2),
      (Err RE_ArithmeticOverflow, 3), (Err RE_ArithmeticOverflow, 4)]" by code_simp
qed (use stuck_events [of endless_stuck es] endless_final in auto)

end
