(* ===== verification/Accounting.thy ===== *)
theory Accounting
  imports Restart
begin

text \<open>
  The resource ledger of a controller (\<^verbatim>\<open>crates/wyrmroot-runtime/src/bounded_accounting.rs\<close>): budgets
  for every resource per peer and over all peers, reservations with affine tokens, transactions with
  replay rejection, restart history and the retirement of a generation.

  An array with one cell per resource, \<^verbatim>\<open>[u64; AccountedResource::COUNT]\<close>, is only ever indexed by
  \<^verbatim>\<open>resource.index()\<close> and is a function from resources. The static counter of controller
  identities is an argument and a result of the constructor.
\<close>

subsection \<open>Resources and budgets\<close>

definition MAX_ACCOUNTED_PEERS :: nat where "MAX_ACCOUNTED_PEERS = 4"
definition MAX_LIVE_TRANSACTIONS_PER_PEER :: nat where "MAX_LIVE_TRANSACTIONS_PER_PEER = 4"
definition MAX_REPLAY_ENTRIES_PER_PEER :: nat where "MAX_REPLAY_ENTRIES_PER_PEER = 8"

datatype enforcement_class = Enf_Kernel | Enf_Wyrmroot | Enf_Future

datatype accounted_resource =
    LiveProcessGenerations | InFlightTransactions | CompletedReplayEntries | RetainedMessages
  | RetainedPayloadBytes | DelegatedHandles | SharedMemoryObjects | SharedMemoryBytes | MappedBytes
  | WaitOperations | Events | Timers | RestartHistoryRecords

definition ALL_RESOURCES :: "accounted_resource list" where
  "ALL_RESOURCES = [LiveProcessGenerations, InFlightTransactions, CompletedReplayEntries, RetainedMessages,
     RetainedPayloadBytes, DelegatedHandles, SharedMemoryObjects, SharedMemoryBytes, MappedBytes,
     WaitOperations, Events, Timers, RestartHistoryRecords]"

definition managed :: "accounted_resource \<Rightarrow> bool" where
  "managed r \<longleftrightarrow> r \<in> {LiveProcessGenerations, InFlightTransactions, CompletedReplayEntries, RestartHistoryRecords}"

type_synonym amounts = "accounted_resource \<Rightarrow> u64"

record resource_budget =
  rb_resource :: accounted_resource
  rb_per_peer :: u64
  rb_aggregate :: u64
  rb_enforcement :: enforcement_class

definition budget :: "accounted_resource \<Rightarrow> u64 \<Rightarrow> u64 \<Rightarrow> resource_budget" where
  "budget resource per_peer aggregate =
     \<lparr>rb_resource = resource, rb_per_peer = per_peer, rb_aggregate = aggregate, rb_enforcement = Enf_Wyrmroot\<rparr>"

fun WYR0_I_RESOURCE_BUDGETS :: "accounted_resource \<Rightarrow> resource_budget" where
  "WYR0_I_RESOURCE_BUDGETS LiveProcessGenerations = budget LiveProcessGenerations 1 4"
| "WYR0_I_RESOURCE_BUDGETS InFlightTransactions = budget InFlightTransactions 4 16"
| "WYR0_I_RESOURCE_BUDGETS CompletedReplayEntries = budget CompletedReplayEntries 8 32"
| "WYR0_I_RESOURCE_BUDGETS RetainedMessages = budget RetainedMessages 8 32"
| "WYR0_I_RESOURCE_BUDGETS RetainedPayloadBytes = budget RetainedPayloadBytes 4096 16384"
| "WYR0_I_RESOURCE_BUDGETS DelegatedHandles = budget DelegatedHandles 8 32"
| "WYR0_I_RESOURCE_BUDGETS SharedMemoryObjects = budget SharedMemoryObjects 2 8"
| "WYR0_I_RESOURCE_BUDGETS SharedMemoryBytes = budget SharedMemoryBytes 8192 32768"
| "WYR0_I_RESOURCE_BUDGETS MappedBytes = budget MappedBytes 16384 65536"
| "WYR0_I_RESOURCE_BUDGETS WaitOperations = budget WaitOperations 4 16"
| "WYR0_I_RESOURCE_BUDGETS Events = budget Events 2 8"
| "WYR0_I_RESOURCE_BUDGETS Timers = budget Timers 2 8"
| "WYR0_I_RESOURCE_BUDGETS RestartHistoryRecords = budget RestartHistoryRecords 4 16"

datatype accounting_error =
    AE_ControllerIdExhausted | AE_InvalidBudgetPolicy | AE_InvalidPeer | AE_ZeroGeneration | AE_ZeroTransaction
  | AE_PeerAlreadyActive | AE_PeerInactive | AE_GenerationNotAdvanced | AE_StaleGeneration | AE_EmptyReservation
  | AE_ManagedResource accounted_resource | AE_PerPeerLimit accounted_resource | AE_AggregateLimit accounted_resource
  | AE_CounterOverflow | AE_CounterUnderflow | AE_TokenOriginMismatch | AE_TokenAlreadyPublished
  | AE_TokenAlreadyReleased | AE_DuplicateTransaction | AE_ReplayedTransaction | AE_TransactionCapacity
  | AE_TransactionTokenInactive | AE_TransactionNotLive | AE_KernelChannelEnvelope | AE_EpisodeStillActive
  | AE_RestartHistoryMismatch | AE_TerminalRecordMissing | AE_CleanupIncomplete
  | AE_OutstandingGenerationResource accounted_resource

subsection \<open>Requests and tokens\<close>

record reservation_request =
  rr_amounts :: amounts

definition request_empty :: reservation_request where
  "request_empty = \<lparr>rr_amounts = (\<lambda>_. 0)\<rparr>"

definition request_add :: "reservation_request \<Rightarrow> accounted_resource \<Rightarrow> u64 \<Rightarrow> (accounting_error, reservation_request) res" where
  "request_add request resource amount =
     (if managed resource then Err (AE_ManagedResource resource)
      else rbind (ok_or AE_CounterOverflow (checked_add_u64 (rr_amounts request resource) amount)) (\<lambda>slot.
        Ok (request\<lparr>rr_amounts := (rr_amounts request)(resource := slot)\<rparr>)))"

definition request_is_empty :: "reservation_request \<Rightarrow> bool" where
  "request_is_empty request \<longleftrightarrow> list_all (\<lambda>r. rr_amounts request r = 0) ALL_RESOURCES"

datatype reservation_state = Tok_Reserved | Tok_Published | Tok_Released

record reservation_token =
  tk_controller_id :: u64
  tk_peer :: byte
  tk_generation :: u64
  tk_amounts :: amounts
  tk_state :: reservation_state

record transaction_token =
  tt_controller_id :: u64
  tt_peer :: byte
  tt_generation :: u64
  tt_transaction_id :: u64
  tt_active :: bool

record generation_retirement =
  gr_released :: amounts
  gr_preserved_restart_history :: u64

subsection \<open>The ledger\<close>

record peer_accounting =
  pa_active :: bool
  pa_generation :: u64
  pa_counters :: amounts
  pa_live_transactions :: "u64 list"
  pa_replay :: "u64 list"
  pa_replay_len :: byte
  pa_replay_next :: byte
  pa_last_history_generation :: u64
  pa_terminal_generation :: u64
  pa_terminal_cleanup_complete :: bool

definition peer_accounting_new :: peer_accounting where
  "peer_accounting_new = \<lparr>pa_active = False, pa_generation = 0, pa_counters = (\<lambda>_. 0),
     pa_live_transactions = replicate MAX_LIVE_TRANSACTIONS_PER_PEER 0,
     pa_replay = replicate MAX_REPLAY_ENTRIES_PER_PEER 0, pa_replay_len = 0, pa_replay_next = 0,
     pa_last_history_generation = 0, pa_terminal_generation = 0, pa_terminal_cleanup_complete = False\<rparr>"

definition peer_replay_contains :: "peer_accounting \<Rightarrow> u64 \<Rightarrow> (accounting_error, bool) res" where
  "peer_replay_contains p transaction_id =
     rbind (region_r 0 (unat (pa_replay_len p)) (pa_replay p)) (\<lambda>entries. Ok (transaction_id \<in> set entries))"

record accounting =
  ac_controller_id :: u64
  ac_budgets :: "accounted_resource \<Rightarrow> resource_budget"
  ac_peers :: "peer_accounting list"
  ac_aggregate :: amounts

type_synonym 'a aop = "(accounting, accounting_error, 'a) action"

definition saturating_mul_u64 :: "u64 \<Rightarrow> u64 \<Rightarrow> u64" where
  "saturating_mul_u64 a b = (case checked_mul_u64 a b of Some c \<Rightarrow> c | None \<Rightarrow> - 1)"

definition allocate_controller_id :: "u64 \<Rightarrow> (accounting_error, u64) res \<times> u64" where
  "allocate_controller_id current =
     (case checked_add_u64 current 1 of
        None \<Rightarrow> (Err AE_ControllerIdExhausted, current)
      | Some following \<Rightarrow> (Ok current, following))"

definition budgets_valid :: "(accounted_resource \<Rightarrow> resource_budget) \<Rightarrow> bool" where
  "budgets_valid budgets \<longleftrightarrow>
     list_all (\<lambda>r. let policy = budgets r in
       rb_resource policy = r \<and> rb_per_peer policy \<noteq> 0 \<and> rb_aggregate policy \<noteq> 0 \<and>
       rb_per_peer policy \<le> rb_aggregate policy \<and>
       rb_aggregate policy \<le> saturating_mul_u64 (rb_per_peer policy) (word_of_nat MAX_ACCOUNTED_PEERS) \<and>
       rb_enforcement policy = Enf_Wyrmroot) ALL_RESOURCES \<and>
     rb_per_peer (budgets LiveProcessGenerations) = 1 \<and>
     rb_per_peer (budgets InFlightTransactions) \<le> word_of_nat MAX_LIVE_TRANSACTIONS_PER_PEER \<and>
     rb_per_peer (budgets CompletedReplayEntries) \<le> word_of_nat MAX_REPLAY_ENTRIES_PER_PEER \<and>
     rb_per_peer (budgets RestartHistoryRecords) \<le> 4"

definition with_budgets ::
  "(accounted_resource \<Rightarrow> resource_budget) \<Rightarrow> u64 \<Rightarrow> (accounting_error, accounting) res \<times> u64" where
  "with_budgets budgets next_id =
     (if \<not> budgets_valid budgets then (Err AE_InvalidBudgetPolicy, next_id)
      else case allocate_controller_id next_id of
        (Ok controller_id, following) \<Rightarrow>
          (Ok \<lparr>ac_controller_id = controller_id, ac_budgets = budgets,
             ac_peers = replicate MAX_ACCOUNTED_PEERS peer_accounting_new, ac_aggregate = (\<lambda>_. 0)\<rparr>, following)
      | (Err e, following) \<Rightarrow> (Err e, following)
      | (Panic, following) \<Rightarrow> (Panic, following))"

definition accounting_new :: "u64 \<Rightarrow> (accounting_error, accounting) res \<times> u64" where
  "accounting_new next_id = with_budgets WYR0_I_RESOURCE_BUDGETS next_id"

subsection \<open>Checks\<close>

definition checked_admit :: "u64 \<Rightarrow> u64 \<Rightarrow> u64 \<Rightarrow> accounting_error \<Rightarrow> (accounting_error, u64) res" where
  "checked_admit current amount limit over_limit =
     rbind (ok_or AE_CounterOverflow (checked_add_u64 current amount)) (\<lambda>following.
     if following > limit then Err over_limit else Ok following)"

definition checked_sub_u64 :: "u64 \<Rightarrow> u64 \<Rightarrow> u64 option" where
  "checked_sub_u64 a b = (if b \<le> a then Some (a - b) else None)"

definition peer_index :: "byte \<Rightarrow> (accounting_error, nat) res" where
  "peer_index peer = (if unat peer < MAX_ACCOUNTED_PEERS then Ok (unat peer) else Err AE_InvalidPeer)"

definition validate_generation :: "byte \<Rightarrow> u64 \<Rightarrow> accounting \<Rightarrow> (accounting_error, nat \<times> peer_accounting) res" where
  "validate_generation peer generation s =
     (if generation = 0 then Err AE_ZeroGeneration
      else rbind (peer_index peer) (\<lambda>i.
        rbind (index_r (ac_peers s) i) (\<lambda>p.
        if \<not> pa_active p then Err AE_PeerInactive
        else if generation \<noteq> pa_generation p then Err AE_StaleGeneration
        else Ok (i, p))))"

definition validate_reservation_token :: "reservation_token \<Rightarrow> accounting \<Rightarrow> (accounting_error, unit) res" where
  "validate_reservation_token token s =
     (if tk_controller_id token \<noteq> ac_controller_id s then Err AE_TokenOriginMismatch
      else if tk_state token = Tok_Released then Err AE_TokenAlreadyReleased
      else rbind (validate_generation (tk_peer token) (tk_generation token) s) (\<lambda>_. Ok ()))"

definition validate_transaction_token ::
  "transaction_token \<Rightarrow> accounting \<Rightarrow> (accounting_error, nat \<times> peer_accounting) res" where
  "validate_transaction_token token s =
     (if tt_controller_id token \<noteq> ac_controller_id s then Err AE_TokenOriginMismatch
      else if \<not> tt_active token then Err AE_TransactionTokenInactive
      else validate_generation (tt_peer token) (tt_generation token) s)"

definition put_peer :: "nat \<Rightarrow> peer_accounting \<Rightarrow> accounting \<Rightarrow> accounting" where
  "put_peer i p s = s\<lparr>ac_peers := (ac_peers s)[i := p]\<rparr>"

definition put_aggregate :: "accounted_resource \<Rightarrow> u64 \<Rightarrow> accounting \<Rightarrow> accounting" where
  "put_aggregate r v s = s\<lparr>ac_aggregate := (ac_aggregate s)(r := v)\<rparr>"

subsection \<open>Generations\<close>

text \<open>What a fresh and a retired generation have in common: only the restart history is kept.\<close>

definition clear_generation :: "peer_accounting \<Rightarrow> peer_accounting" where
  "clear_generation p = p\<lparr>pa_counters := (\<lambda>_. 0)(RestartHistoryRecords := pa_counters p RestartHistoryRecords),
     pa_live_transactions := replicate MAX_LIVE_TRANSACTIONS_PER_PEER 0,
     pa_replay := replicate MAX_REPLAY_ENTRIES_PER_PEER 0, pa_replay_len := 0, pa_replay_next := 0,
     pa_terminal_generation := 0, pa_terminal_cleanup_complete := False\<rparr>"

definition begin_generation :: "byte \<Rightarrow> u64 \<Rightarrow> unit aop" where
  "begin_generation peer generation =
     (if generation = 0 then afail AE_ZeroGeneration
      else
        abind (alift (peer_index peer)) (\<lambda>i.
        abind (aread (\<lambda>s. index_r (ac_peers s) i)) (\<lambda>current.
        if pa_active current then afail AE_PeerAlreadyActive
        else if generation \<le> pa_generation current then afail AE_GenerationNotAdvanced
        else
          abind (aread (\<lambda>s. checked_admit (ac_aggregate s LiveProcessGenerations) 1
            (rb_aggregate (ac_budgets s LiveProcessGenerations)) (AE_AggregateLimit LiveProcessGenerations))) (\<lambda>aggregate.
          amod (\<lambda>s. put_aggregate LiveProcessGenerations aggregate (put_peer i
            (let p = clear_generation current in
             p\<lparr>pa_active := True, pa_generation := generation,
               pa_counters := (pa_counters p)(LiveProcessGenerations := 1)\<rparr>) s))))))"

text \<open>A generation may only be retired without outstanding resources.\<close>

definition generation_scoped :: "accounted_resource \<Rightarrow> bool" where
  "generation_scoped r \<longleftrightarrow> r \<in> {LiveProcessGenerations, CompletedReplayEntries, RestartHistoryRecords}"

fun outstanding :: "amounts \<Rightarrow> accounted_resource list \<Rightarrow> accounted_resource option" where
  "outstanding c [] = None"
| "outstanding c (r # rs) = (if \<not> generation_scoped r \<and> c r \<noteq> 0 then Some r else outstanding c rs)"

text \<open>The subtraction of an array of amounts from another, one resource after the other; the
  resources that \<open>skip\<close> names are left out.\<close>

fun subtract_all ::
  "(accounted_resource \<Rightarrow> bool) \<Rightarrow> amounts \<Rightarrow> accounted_resource list \<Rightarrow> amounts \<Rightarrow> (accounting_error, amounts) res" where
  "subtract_all skip amount [] c = Ok c"
| "subtract_all skip amount (r # rs) c =
     (if skip r then subtract_all skip amount rs c
      else rbind (ok_or AE_CounterUnderflow (checked_sub_u64 (c r) (amount r))) (\<lambda>v.
        subtract_all skip amount rs (c(r := v))))"

definition retire_generation :: "byte \<Rightarrow> u64 \<Rightarrow> generation_retirement aop" where
  "retire_generation peer generation =
     abind (aread (validate_generation peer generation)) (\<lambda>(i, p).
     if pa_terminal_generation p \<noteq> generation then afail AE_TerminalRecordMissing
     else if \<not> pa_terminal_cleanup_complete p then afail AE_CleanupIncomplete
     else
       case outstanding (pa_counters p) ALL_RESOURCES of
         Some r \<Rightarrow> afail (AE_OutstandingGenerationResource r)
       | None \<Rightarrow>
           let history = pa_counters p RestartHistoryRecords;
               released = (pa_counters p)(RestartHistoryRecords := 0) in
           abind (aread (\<lambda>s. subtract_all (\<lambda>r. r = RestartHistoryRecords) released ALL_RESOURCES (ac_aggregate s))) (\<lambda>next_aggregate.
           abind (amod (\<lambda>s. (put_peer i ((clear_generation p)\<lparr>pa_active := False\<rparr>) s)\<lparr>ac_aggregate := next_aggregate\<rparr>)) (\<lambda>_.
           aret \<lparr>gr_released = released, gr_preserved_restart_history = history\<rparr>)))"

definition finish_restart_episode :: "byte \<Rightarrow> u64 aop" where
  "finish_restart_episode peer =
     abind (alift (peer_index peer)) (\<lambda>i.
     abind (aread (\<lambda>s. index_r (ac_peers s) i)) (\<lambda>p.
     if pa_active p then afail AE_EpisodeStillActive
     else
       let history = pa_counters p RestartHistoryRecords in
       abind (aread (\<lambda>s. ok_or AE_CounterUnderflow (checked_sub_u64 (ac_aggregate s RestartHistoryRecords) history))) (\<lambda>next_aggregate.
       abind (amod (\<lambda>s. put_aggregate RestartHistoryRecords next_aggregate (put_peer i
         (p\<lparr>pa_counters := (pa_counters p)(RestartHistoryRecords := 0), pa_last_history_generation := 0\<rparr>) s))) (\<lambda>_.
       aret history))))"

definition record_restart_history :: "byte \<Rightarrow> u64 \<Rightarrow> attempt_record \<Rightarrow> unit aop" where
  "record_restart_history peer generation record =
     abind (aread (validate_generation peer generation)) (\<lambda>(i, p).
     abind (alift (ok_or AE_CounterOverflow (checked_add_u64 (pa_counters p RestartHistoryRecords) 1))) (\<lambda>expected_attempt.
     if ar_generation record \<noteq> generation \<or> ucast (ar_attempt record) \<noteq> expected_attempt \<or>
        generation \<le> pa_last_history_generation p
     then afail AE_RestartHistoryMismatch
     else
       abind (aread (\<lambda>s. checked_admit (pa_counters p RestartHistoryRecords) 1
         (rb_per_peer (ac_budgets s RestartHistoryRecords)) (AE_PerPeerLimit RestartHistoryRecords))) (\<lambda>next_peer.
       abind (aread (\<lambda>s. checked_admit (ac_aggregate s RestartHistoryRecords) 1
         (rb_aggregate (ac_budgets s RestartHistoryRecords)) (AE_AggregateLimit RestartHistoryRecords))) (\<lambda>next_aggregate.
       amod (\<lambda>s. put_aggregate RestartHistoryRecords next_aggregate (put_peer i
         (p\<lparr>pa_counters := (pa_counters p)(RestartHistoryRecords := next_peer),
            pa_last_history_generation := generation, pa_terminal_generation := generation,
            pa_terminal_cleanup_complete := (ar_cleanup record = CleanupComplete)\<rparr>) s))))))"

subsection \<open>Reservations\<close>

fun admit_all ::
  "(accounted_resource \<Rightarrow> resource_budget) \<Rightarrow> amounts \<Rightarrow> accounted_resource list \<Rightarrow> amounts \<times> amounts \<Rightarrow>
     (accounting_error, amounts \<times> amounts) res" where
  "admit_all budgets amount [] cs = Ok cs"
| "admit_all budgets amount (r # rs) (peer, aggregate) =
     (if amount r = 0 then admit_all budgets amount rs (peer, aggregate)
      else if managed r then Err (AE_ManagedResource r)
      else
        rbind (checked_admit (peer r) (amount r) (rb_per_peer (budgets r)) (AE_PerPeerLimit r)) (\<lambda>next_peer.
        rbind (checked_admit (aggregate r) (amount r) (rb_aggregate (budgets r)) (AE_AggregateLimit r)) (\<lambda>next_aggregate.
        admit_all budgets amount rs (peer(r := next_peer), aggregate(r := next_aggregate)))))"

definition put_counters :: "nat \<Rightarrow> peer_accounting \<Rightarrow> amounts \<Rightarrow> amounts \<Rightarrow> accounting \<Rightarrow> accounting" where
  "put_counters i p next_peer next_aggregate s =
     (put_peer i (p\<lparr>pa_counters := next_peer\<rparr>) s)\<lparr>ac_aggregate := next_aggregate\<rparr>"

definition reserve :: "byte \<Rightarrow> u64 \<Rightarrow> reservation_request \<Rightarrow> reservation_token aop" where
  "reserve peer generation request =
     (if request_is_empty request then afail AE_EmptyReservation
      else
        abind (aread (validate_generation peer generation)) (\<lambda>(i, p).
        abind (aread (\<lambda>s. admit_all (ac_budgets s) (rr_amounts request) ALL_RESOURCES (pa_counters p, ac_aggregate s)))
          (\<lambda>(next_peer, next_aggregate).
        abind (amod (put_counters i p next_peer next_aggregate)) (\<lambda>_.
        abind (aget ac_controller_id) (\<lambda>controller_id.
        aret \<lparr>tk_controller_id = controller_id, tk_peer = peer, tk_generation = generation,
          tk_amounts = rr_amounts request, tk_state = Tok_Reserved\<rparr>)))))"

text \<open>The token is an argument that the operation may change; it is changed only on success.\<close>

definition publish_token :: "reservation_token \<Rightarrow> reservation_token aop" where
  "publish_token token =
     abind (aread (validate_reservation_token token)) (\<lambda>_.
     case tk_state token of
       Tok_Reserved \<Rightarrow> aret (token\<lparr>tk_state := Tok_Published\<rparr>)
     | Tok_Published \<Rightarrow> afail AE_TokenAlreadyPublished
     | Tok_Released \<Rightarrow> afail AE_TokenAlreadyReleased)"

fun release_all ::
  "amounts \<Rightarrow> accounted_resource list \<Rightarrow> amounts \<times> amounts \<Rightarrow> (accounting_error, amounts \<times> amounts) res" where
  "release_all amount [] cs = Ok cs"
| "release_all amount (r # rs) (peer, aggregate) =
     rbind (ok_or AE_CounterUnderflow (checked_sub_u64 (peer r) (amount r))) (\<lambda>next_peer.
     rbind (ok_or AE_CounterUnderflow (checked_sub_u64 (aggregate r) (amount r))) (\<lambda>next_aggregate.
     release_all amount rs (peer(r := next_peer), aggregate(r := next_aggregate))))"

definition release :: "reservation_token \<Rightarrow> reservation_token aop" where
  "release token =
     abind (aread (validate_reservation_token token)) (\<lambda>_.
     if tk_state token = Tok_Released then afail AE_TokenAlreadyReleased
     else
       abind (aread (validate_generation (tk_peer token) (tk_generation token))) (\<lambda>(i, p).
       abind (aread (\<lambda>s. release_all (tk_amounts token) ALL_RESOURCES (pa_counters p, ac_aggregate s)))
         (\<lambda>(next_peer, next_aggregate).
       abind (amod (put_counters i p next_peer next_aggregate)) (\<lambda>_.
       aret (token\<lparr>tk_state := Tok_Released\<rparr>)))))"

subsection \<open>Transactions\<close>

definition begin_transaction :: "byte \<Rightarrow> u64 \<Rightarrow> u64 \<Rightarrow> transaction_token aop" where
  "begin_transaction peer generation transaction_id =
     (if transaction_id = 0 then afail AE_ZeroTransaction
      else
        abind (aread (validate_generation peer generation)) (\<lambda>(i, p).
        if transaction_id \<in> set (pa_live_transactions p) then afail AE_DuplicateTransaction
        else
          abind (alift (peer_replay_contains p transaction_id)) (\<lambda>replayed.
          if replayed then afail AE_ReplayedTransaction
          else
            case position (\<lambda>candidate. candidate = 0) (pa_live_transactions p) of
              None \<Rightarrow> afail AE_TransactionCapacity
            | Some live_slot \<Rightarrow>
                abind (aread (\<lambda>s. checked_admit (pa_counters p InFlightTransactions) 1
                  (rb_per_peer (ac_budgets s InFlightTransactions)) (AE_PerPeerLimit InFlightTransactions))) (\<lambda>next_peer.
                abind (aread (\<lambda>s. checked_admit (ac_aggregate s InFlightTransactions) 1
                  (rb_aggregate (ac_budgets s InFlightTransactions)) (AE_AggregateLimit InFlightTransactions))) (\<lambda>next_aggregate.
                abind (amod (\<lambda>s. put_aggregate InFlightTransactions next_aggregate (put_peer i
                  (p\<lparr>pa_counters := (pa_counters p)(InFlightTransactions := next_peer),
                     pa_live_transactions := (pa_live_transactions p)[live_slot := transaction_id]\<rparr>) s))) (\<lambda>_.
                abind (aget ac_controller_id) (\<lambda>controller_id.
                aret \<lparr>tt_controller_id = controller_id, tt_peer = peer, tt_generation = generation,
                  tt_transaction_id = transaction_id, tt_active = True\<rparr>)))))))"

text \<open>The replay FIFO of \<open>capacity\<close> entries in an array of eight.\<close>

definition fifo_push :: "nat \<Rightarrow> u64 \<Rightarrow> peer_accounting \<Rightarrow> (accounting_error, peer_accounting) res" where
  "fifo_push capacity transaction_id p =
     (let slot = unat (pa_replay_next p); grows = unat (pa_replay_len p) < capacity in
      if slot \<ge> length (pa_replay p) \<or> capacity = 0 then Panic
      else
        rbind (if grows then unwrap (checked_add_u8 (pa_replay_len p) 1) else Ok (pa_replay_len p)) (\<lambda>len.
        Ok (p\<lparr>pa_replay := (pa_replay p)[slot := transaction_id],
          pa_replay_next := word_of_nat ((slot + 1) mod capacity), pa_replay_len := len\<rparr>)))"

definition account_complete :: "transaction_token \<Rightarrow> transaction_token aop" where
  "account_complete token =
     abind (aread (validate_transaction_token token)) (\<lambda>(i, p).
     abind (alift (ok_or AE_TransactionNotLive
       (position (\<lambda>candidate. candidate = tt_transaction_id token) (pa_live_transactions p)))) (\<lambda>slot.
     abind (aget (\<lambda>s. unat (rb_per_peer (ac_budgets s CompletedReplayEntries)))) (\<lambda>replay_capacity.
     let replay_grows = unat (pa_replay_len p) < replay_capacity in
     abind (aread (\<lambda>s. if replay_grows then checked_admit (pa_counters p CompletedReplayEntries) 1
       (rb_per_peer (ac_budgets s CompletedReplayEntries)) (AE_PerPeerLimit CompletedReplayEntries)
       else Ok (pa_counters p CompletedReplayEntries))) (\<lambda>next_peer_replay.
     abind (aread (\<lambda>s. if replay_grows then checked_admit (ac_aggregate s CompletedReplayEntries) 1
       (rb_aggregate (ac_budgets s CompletedReplayEntries)) (AE_AggregateLimit CompletedReplayEntries)
       else Ok (ac_aggregate s CompletedReplayEntries))) (\<lambda>next_aggregate_replay.
     abind (alift (ok_or AE_CounterUnderflow (checked_sub_u64 (pa_counters p InFlightTransactions) 1))) (\<lambda>next_peer_in_flight.
     abind (aread (\<lambda>s. ok_or AE_CounterUnderflow (checked_sub_u64 (ac_aggregate s InFlightTransactions) 1))) (\<lambda>next_aggregate_in_flight.
     abind (alift (fifo_push replay_capacity (tt_transaction_id token)
       (p\<lparr>pa_live_transactions := (pa_live_transactions p)[slot := 0],
          pa_counters := (pa_counters p)(InFlightTransactions := next_peer_in_flight,
            CompletedReplayEntries := next_peer_replay)\<rparr>))) (\<lambda>p'.
     abind (amod (\<lambda>s. put_aggregate CompletedReplayEntries next_aggregate_replay
       (put_aggregate InFlightTransactions next_aggregate_in_flight (put_peer i p' s)))) (\<lambda>_.
     aret (token\<lparr>tt_active := False\<rparr>))))))))))"

definition abort_transaction :: "transaction_token \<Rightarrow> transaction_token aop" where
  "abort_transaction token =
     abind (aread (validate_transaction_token token)) (\<lambda>(i, p).
     abind (alift (ok_or AE_TransactionNotLive
       (position (\<lambda>candidate. candidate = tt_transaction_id token) (pa_live_transactions p)))) (\<lambda>slot.
     abind (alift (ok_or AE_CounterUnderflow (checked_sub_u64 (pa_counters p InFlightTransactions) 1))) (\<lambda>next_peer.
     abind (aread (\<lambda>s. ok_or AE_CounterUnderflow (checked_sub_u64 (ac_aggregate s InFlightTransactions) 1))) (\<lambda>next_aggregate.
     abind (amod (\<lambda>s. put_aggregate InFlightTransactions next_aggregate (put_peer i
       (p\<lparr>pa_live_transactions := (pa_live_transactions p)[slot := 0],
          pa_counters := (pa_counters p)(InFlightTransactions := next_peer)\<rparr>) s))) (\<lambda>_.
     aret (token\<lparr>tt_active := False\<rparr>))))))"

definition peer_count :: "accounting \<Rightarrow> byte \<Rightarrow> accounted_resource \<Rightarrow> u64 option" where
  "peer_count s peer resource = map_option (\<lambda>p. pa_counters p resource) (get_index (unat peer) (ac_peers s))"

end
