(* ===== verification/AccountingInv.thy ===== *)
theory AccountingInv
  imports Accounting Replay "HOL-Library.Multiset"
begin

text \<open>
  The invariant of the resource ledger: the aggregate of every resource is the sum over the peers,
  nothing exceeds its budget, and the managed counters agree with the arrays they count. Every
  operation keeps it, never panics, and leaves the ledger alone when it refuses.
\<close>

subsection \<open>Arithmetic\<close>

lemma checked_admit_Ok:
  "checked_admit c a l e = Ok n \<longleftrightarrow> unat c + unat a < 2 ^ 64 \<and> unat n = unat c + unat a \<and> n \<le> l"
  by (auto simp: checked_admit_def res_simps checked_add_u64_Some not_less split: if_splits)

lemma checked_admit_no_panic: "checked_admit c a l e \<noteq> Panic"
  by (auto simp: checked_admit_def res_simps)

lemma checked_sub_u64_Some:
  "checked_sub_u64 a b = Some c \<longleftrightarrow> unat b \<le> unat a \<and> unat c = unat a - unat b"
proof -
  have "c = a - b \<longleftrightarrow> unat c = unat a - unat b" if "b \<le> a"
    using unat_sub [OF that] by (metis word_unat_eq_iff)
  then show ?thesis by (auto simp: checked_sub_u64_def word_le_nat_alt)
qed

lemma set_ALL_RESOURCES: "r \<in> set ALL_RESOURCES"
  by (cases r) (simp_all add: ALL_RESOURCES_def)

lemma distinct_ALL_RESOURCES: "distinct ALL_RESOURCES"
  by (simp add: ALL_RESOURCES_def)

definition admitted :: "(accounted_resource \<Rightarrow> resource_budget) \<Rightarrow> amounts \<Rightarrow> accounted_resource list \<Rightarrow>
    amounts \<times> amounts \<Rightarrow> amounts \<times> amounts \<Rightarrow> bool" where
  "admitted b amount rs cs cs' \<longleftrightarrow> (\<forall>r.
     (r \<notin> set rs \<or> amount r = 0 \<longrightarrow> fst cs' r = fst cs r \<and> snd cs' r = snd cs r) \<and>
     (r \<in> set rs \<longrightarrow> unat (fst cs' r) = unat (fst cs r) + unat (amount r) \<and>
        unat (snd cs' r) = unat (snd cs r) + unat (amount r)) \<and>
     (r \<in> set rs \<and> amount r \<noteq> 0 \<longrightarrow> \<not> managed r \<and> fst cs' r \<le> rb_per_peer (b r) \<and> snd cs' r \<le> rb_aggregate (b r)))"

lemma admit_all_Ok:
  assumes "admit_all b amount rs cs = Ok cs'" and "distinct rs"
  shows "admitted b amount rs cs cs'"
  using assms
proof (induction rs arbitrary: cs)
  case Nil
  then show ?case by (simp add: admitted_def)
next
  case (Cons r rs)
  obtain p a where cs: "cs = (p, a)" by (cases cs)
  show ?case
  proof (cases "amount r = 0")
    case True
    then have "admitted b amount rs cs cs'" using Cons cs by simp
    then show ?thesis using True Cons.prems(2) unfolding admitted_def by auto
  next
    case False
    then obtain n m where n: "checked_admit (p r) (amount r) (rb_per_peer (b r)) (AE_PerPeerLimit r) = Ok n"
        "checked_admit (a r) (amount r) (rb_aggregate (b r)) (AE_AggregateLimit r) = Ok m" "\<not> managed r"
        "admit_all b amount rs (p(r := n), a(r := m)) = Ok cs'"
      using Cons.prems(1) cs by (auto simp: res_simps split: if_splits)
    have "admitted b amount rs (p(r := n), a(r := m)) cs'" using Cons n(4) by simp
    then show ?thesis using n(1-3) False Cons.prems(2) cs
      unfolding admitted_def checked_admit_Ok by auto
  qed
qed

lemma admit_all_no_panic: "admit_all b amount rs cs \<noteq> Panic"
  by (induction b amount rs cs rule: admit_all.induct) (auto simp: res_simps checked_admit_no_panic)

lemma release_all_Ok:
  assumes "release_all amount rs cs = Ok cs'" and "distinct rs"
  shows "\<forall>r. (r \<notin> set rs \<longrightarrow> fst cs' r = fst cs r \<and> snd cs' r = snd cs r) \<and>
    (r \<in> set rs \<longrightarrow> unat (fst cs' r) + unat (amount r) = unat (fst cs r) \<and>
       unat (snd cs' r) + unat (amount r) = unat (snd cs r))"
  using assms
proof (induction rs arbitrary: cs)
  case (Cons r rs)
  obtain p a where cs: "cs = (p, a)" by (cases cs)
  obtain n m where n: "checked_sub_u64 (p r) (amount r) = Some n" "checked_sub_u64 (a r) (amount r) = Some m"
      "release_all amount rs (p(r := n), a(r := m)) = Ok cs'"
    using Cons.prems(1) cs by (auto simp: res_simps)
  from Cons.IH [OF n(3)] show ?case using n(1,2) Cons.prems(2) cs
    unfolding checked_sub_u64_Some by auto
qed simp

lemma release_all_no_panic: "release_all amount rs cs \<noteq> Panic"
  by (induction amount rs cs rule: release_all.induct) (auto simp: res_simps)

lemma release_all_possible:
  assumes "\<And>r. r \<in> set rs \<Longrightarrow> unat (amount r) \<le> unat (fst cs r) \<and> unat (amount r) \<le> unat (snd cs r)" and "distinct rs"
  shows "\<exists>cs'. release_all amount rs cs = Ok cs'"
  using assms
proof (induction rs arbitrary: cs)
  case (Cons r rs)
  obtain p a where cs: "cs = (p, a)" by (cases cs)
  let ?n = "p r - amount r" and ?m = "a r - amount r"
  have "checked_sub_u64 (p r) (amount r) = Some ?n" "checked_sub_u64 (a r) (amount r) = Some ?m"
    using Cons.prems(1) [of r] cs by (simp_all add: checked_sub_u64_def word_le_nat_alt)
  moreover have "\<exists>cs'. release_all amount rs (p(r := ?n), a(r := ?m)) = Ok cs'"
    using Cons.prems cs by (intro Cons.IH) auto
  ultimately show ?case using cs by simp
qed simp

lemma subtract_all_Ok:
  assumes "subtract_all skip amount rs c = Ok c'" and "distinct rs"
  shows "\<forall>r. (r \<notin> set rs \<or> skip r \<longrightarrow> c' r = c r) \<and>
    (r \<in> set rs \<and> \<not> skip r \<longrightarrow> unat (c' r) + unat (amount r) = unat (c r))"
  using assms
proof (induction rs arbitrary: c)
  case (Cons r rs)
  show ?case
  proof (cases "skip r")
    case True
    then show ?thesis using Cons by auto
  next
    case False
    then obtain v where v: "checked_sub_u64 (c r) (amount r) = Some v" "subtract_all skip amount rs (c(r := v)) = Ok c'"
      using Cons.prems(1) by (auto simp: res_simps)
    from Cons.IH [OF v(2)] show ?thesis using v(1) False Cons.prems(2) unfolding checked_sub_u64_Some by auto
  qed
qed simp

lemma subtract_all_no_panic: "subtract_all skip amount rs c \<noteq> Panic"
  by (induction rs arbitrary: c) (auto simp: res_simps)

lemma outstanding_None: "outstanding c rs = None \<Longrightarrow> r \<in> set rs \<Longrightarrow> \<not> generation_scoped r \<Longrightarrow> c r = 0"
  by (induction rs) (auto split: if_splits)

subsection \<open>The invariant\<close>

definition held :: "accounting \<Rightarrow> accounted_resource \<Rightarrow> nat" where
  "held s r = sum_list (map (\<lambda>p. unat (pa_counters p r)) (ac_peers s))"

definition replay_capacity_of :: "(accounted_resource \<Rightarrow> resource_budget) \<Rightarrow> nat" where
  "replay_capacity_of b = unat (rb_per_peer (b CompletedReplayEntries))"

definition live_set :: "peer_accounting \<Rightarrow> u64 list" where
  "live_set p = filter (\<lambda>t. t \<noteq> 0) (pa_live_transactions p)"

definition fifo_ok :: "nat \<Rightarrow> peer_accounting \<Rightarrow> bool" where
  "fifo_ok cap p \<longleftrightarrow> length (pa_replay p) = MAX_REPLAY_ENTRIES_PER_PEER \<and> unat (pa_replay_len p) \<le> cap \<and>
     unat (pa_replay_next p) < cap \<and> (unat (pa_replay_len p) < cap \<longrightarrow> pa_replay_next p = pa_replay_len p)"

definition peer_ok :: "(accounted_resource \<Rightarrow> resource_budget) \<Rightarrow> peer_accounting \<Rightarrow> bool" where
  "peer_ok b p \<longleftrightarrow> (\<forall>r. pa_counters p r \<le> rb_per_peer (b r)) \<and>
     length (pa_live_transactions p) = MAX_LIVE_TRANSACTIONS_PER_PEER \<and> distinct (live_set p) \<and>
     unat (pa_counters p InFlightTransactions) = length (live_set p) \<and>
     fifo_ok (replay_capacity_of b) p \<and> unat (pa_counters p CompletedReplayEntries) = unat (pa_replay_len p) \<and>
     pa_counters p LiveProcessGenerations = (if pa_active p then 1 else 0) \<and>
     (\<not> pa_active p \<longrightarrow> (\<forall>r. r \<noteq> RestartHistoryRecords \<longrightarrow> pa_counters p r = 0))"

definition acc_ok :: "accounting \<Rightarrow> bool" where
  "acc_ok s \<longleftrightarrow> budgets_valid (ac_budgets s) \<and> length (ac_peers s) = MAX_ACCOUNTED_PEERS \<and>
     (\<forall>p \<in> set (ac_peers s). peer_ok (ac_budgets s) p) \<and>
     (\<forall>r. unat (ac_aggregate s r) = held s r \<and> ac_aggregate s r \<le> rb_aggregate (ac_budgets s r))"

lemma budgets_validD:
  assumes "budgets_valid b"
  shows "1 \<le> rb_per_peer (b r)" and "1 \<le> rb_aggregate (b r)" and "rb_per_peer (b LiveProcessGenerations) = 1"
    and "0 < replay_capacity_of b" and "replay_capacity_of b \<le> MAX_REPLAY_ENTRIES_PER_PEER"
proof -
  have "list_all (\<lambda>r. rb_per_peer (b r) \<noteq> 0 \<and> rb_aggregate (b r) \<noteq> 0) ALL_RESOURCES"
    using assms by (auto simp: budgets_valid_def Let_def list_all_iff)
  then have nz: "rb_per_peer (b r) \<noteq> 0" "rb_aggregate (b r) \<noteq> 0" for r
    using set_ALL_RESOURCES [of r] by (auto simp: list_all_iff)
  then show "1 \<le> rb_per_peer (b r)" "1 \<le> rb_aggregate (b r)" by (simp_all add: word_le_nat_alt Suc_le_eq unat_gt_0)
  show "rb_per_peer (b LiveProcessGenerations) = 1" using assms by (simp add: budgets_valid_def)
  show "0 < replay_capacity_of b" using nz(1) by (simp add: replay_capacity_of_def unat_gt_0)
  show "replay_capacity_of b \<le> MAX_REPLAY_ENTRIES_PER_PEER"
    using assms by (simp add: budgets_valid_def replay_capacity_of_def word_le_nat_alt MAX_REPLAY_ENTRIES_PER_PEER_def)
qed

lemma new_ok:
  assumes "with_budgets b n = (Ok s, n')"
  shows "acc_ok s"
proof -
  have b: "budgets_valid b" and s: "ac_budgets s = b" "ac_peers s = replicate MAX_ACCOUNTED_PEERS peer_accounting_new"
      "ac_aggregate s = (\<lambda>_. 0)"
    using assms by (auto simp: with_budgets_def allocate_controller_id_def split: if_splits option.splits)
  then show ?thesis using budgets_validD [OF b]
    by (auto simp: acc_ok_def held_def peer_ok_def peer_accounting_new_def live_set_def fifo_ok_def sum_list_replicate)
qed

lemma held_put:
  assumes "i < length (ac_peers s)"
  shows "held (put_peer i p' s) r + unat (pa_counters (ac_peers s ! i) r) = held s r + unat (pa_counters p' r)"
proof -
  let ?f = "\<lambda>p. unat (pa_counters p r)"
  have "?f (ac_peers s ! i) \<le> sum_list (map ?f (ac_peers s))"
    using assms by (intro member_le_sum_list) (auto intro: nth_mem)
  then show ?thesis using assms by (simp add: held_def put_peer_def map_update sum_list_update)
qed

lemma acc_ok_put:
  assumes ok: "acc_ok s" and i: "i < length (ac_peers s)" "ac_peers s ! i = p" and p': "peer_ok (ac_budgets s) p'"
    and agg: "\<And>r. unat (agg r) + unat (pa_counters p r) = unat (ac_aggregate s r) + unat (pa_counters p' r)"
      "\<And>r. agg r \<le> rb_aggregate (ac_budgets s r)"
  shows "acc_ok ((put_peer i p' s)\<lparr>ac_aggregate := agg\<rparr>)"
proof -
  have "unat (agg r) = held (put_peer i p' s) r" for r
    using held_put [OF i(1), of p' r] agg(1) [of r] ok i(2) by (simp add: acc_ok_def)
  moreover have "held ((put_peer i p' s)\<lparr>ac_aggregate := agg\<rparr>) = held (put_peer i p' s)"
    by (rule ext) (simp add: held_def)
  ultimately show ?thesis using ok p' agg(2) set_update_subset_insert [of "ac_peers s" i p']
    by (auto simp: acc_ok_def put_peer_def)
qed

lemma validate_generation_Ok:
  assumes "validate_generation peer g s = Ok (i, p)"
  shows "i < length (ac_peers s)" "ac_peers s ! i = p" "pa_active p" "pa_generation p = g" "i = unat peer" "g \<noteq> 0"
  using assms by (auto simp: validate_generation_def peer_index_def res_simps split: if_splits)

lemma validate_generation_no_panic: "acc_ok s \<Longrightarrow> validate_generation peer g s \<noteq> Panic"
  by (auto simp: validate_generation_def peer_index_def res_simps acc_ok_def split: if_splits)

lemma acc_peer: "acc_ok s \<Longrightarrow> i < length (ac_peers s) \<Longrightarrow> peer_ok (ac_budgets s) (ac_peers s ! i)"
  by (simp add: acc_ok_def)

lemma wp_validate:
  assumes "acc_ok s"
    and "\<And>i p. i < length (ac_peers s) \<Longrightarrow> ac_peers s ! i = p \<Longrightarrow> pa_active p \<Longrightarrow> pa_generation p = g \<Longrightarrow>
      i = unat peer \<Longrightarrow> g \<noteq> 0 \<Longrightarrow> peer_ok (ac_budgets s) p \<Longrightarrow> Q (i, p) s"
    and "\<And>e. E e s"
  shows "wp (aread (validate_generation peer g)) Q E s"
proof (cases "validate_generation peer g s")
  case (Ok x)
  obtain i p where x: "x = (i, p)" by (cases x)
  from validate_generation_Ok [OF Ok [unfolded x]] acc_peer [OF assms(1)] show ?thesis
    using assms(2) Ok x by (simp add: wp_aread) metis
qed (use assms validate_generation_no_panic in \<open>simp_all add: wp_aread\<close>)

subsection \<open>Every operation keeps the invariant\<close>

abbreviation ledger_keeps :: "'a aop \<Rightarrow> accounting \<Rightarrow> bool" where
  "ledger_keeps op s \<equiv> wp op (\<lambda>_. acc_ok) (\<lambda>_ s'. s' = s) s"

lemma wp_read_res:
  assumes "f s \<noteq> Panic" and "\<And>a. f s = Ok a \<Longrightarrow> Q a s" and "\<And>e. f s = Err e \<Longrightarrow> E e s"
  shows "wp (aread f) Q E s"
  using assms by (cases "f s") (simp_all add: wp_aread)

lemma wp_lift_res:
  assumes "r \<noteq> Panic" and "\<And>a. r = Ok a \<Longrightarrow> Q a s" and "\<And>e. r = Err e \<Longrightarrow> E e s"
  shows "wp (alift r) Q E s"
  using assms by (cases r) (simp_all add: wp_alift)

lemma ok_or_no_panic: "ok_or e v \<noteq> Panic"
  by (cases v) simp_all

text \<open>A change of one counter of a peer by the same amount as the aggregate.\<close>

lemma acc_ok_single:
  assumes "acc_ok s" and "i < length (ac_peers s)" "ac_peers s ! i = p" and "peer_ok (ac_budgets s) p'"
    and "\<And>r. r \<noteq> x \<Longrightarrow> pa_counters p' r = pa_counters p r"
    and "unat v + unat (pa_counters p x) = unat (ac_aggregate s x) + unat (pa_counters p' x)"
    and "v \<le> rb_aggregate (ac_budgets s x)"
  shows "acc_ok (put_aggregate x v (put_peer i p' s))"
proof -
  have "put_aggregate x v (put_peer i p' s) = (put_peer i p' s)\<lparr>ac_aggregate := (ac_aggregate s)(x := v)\<rparr>"
    by (simp add: put_aggregate_def put_peer_def)
  moreover have "acc_ok ((put_peer i p' s)\<lparr>ac_aggregate := (ac_aggregate s)(x := v)\<rparr>)"
    by (rule acc_ok_put [OF assms(1-4)]) (use assms in \<open>auto simp: acc_ok_def\<close>)
  ultimately show ?thesis by simp
qed

lemma clear_ok:
  assumes "budgets_valid b" and "peer_ok b p"
  shows "peer_ok b ((clear_generation p)\<lparr>pa_active := False\<rparr>)"
    and "peer_ok b (let q = clear_generation p in q\<lparr>pa_active := True, pa_generation := g,
      pa_counters := (pa_counters q)(LiveProcessGenerations := 1)\<rparr>)"
  using assms budgets_validD [OF assms(1)]
  by (auto simp: peer_ok_def clear_generation_def live_set_def fifo_ok_def Let_def)

lemma begin_generation_keeps:
  assumes ok: "acc_ok s"
  shows "ledger_keeps (begin_generation peer g) s"
proof -
  have start: "acc_ok (put_aggregate LiveProcessGenerations v (put_peer i (let q = clear_generation p in
      q\<lparr>pa_active := True, pa_generation := g, pa_counters := (pa_counters q)(LiveProcessGenerations := 1)\<rparr>) s))"
    if "i < length (ac_peers s)" "ac_peers s ! i = p" "\<not> pa_active p"
      "checked_admit (ac_aggregate s LiveProcessGenerations) 1 l e = Ok v"
      "l = rb_aggregate (ac_budgets s LiveProcessGenerations)" for i p v l e
  proof (rule acc_ok_single [OF ok that(1,2)])
    have pk: "peer_ok (ac_budgets s) p" using acc_peer [OF ok that(1)] that(2) by simp
    have b: "budgets_valid (ac_budgets s)" using ok by (simp add: acc_ok_def)
    show "peer_ok (ac_budgets s) (let q = clear_generation p in q\<lparr>pa_active := True, pa_generation := g,
      pa_counters := (pa_counters q)(LiveProcessGenerations := 1)\<rparr>)" by (rule clear_ok(2) [OF b pk])
    show "pa_counters (let q = clear_generation p in q\<lparr>pa_active := True, pa_generation := g,
      pa_counters := (pa_counters q)(LiveProcessGenerations := 1)\<rparr>) r = pa_counters p r" if "r \<noteq> LiveProcessGenerations" for r
      using pk that \<open>\<not> pa_active p\<close> by (auto simp: clear_generation_def Let_def peer_ok_def)
  qed (use that acc_peer [OF ok that(1)] in \<open>auto simp: checked_admit_Ok clear_generation_def Let_def peer_ok_def\<close>)
  show ?thesis
    using ok start unfolding begin_generation_def
    by (auto simp: wp_abind wp_afail wp_amod peer_index_def acc_ok_def index_r_simps checked_admit_no_panic
        intro!: wp_lift_res wp_read_res)
qed

lemma retire_generation_keeps:
  assumes ok: "acc_ok s"
  shows "ledger_keeps (retire_generation peer g) s"
  unfolding retire_generation_def wp_abind
proof (rule wp_validate [OF ok], goal_cases)
  case (1 i p)
  let ?rel = "(pa_counters p)(RestartHistoryRecords := 0)"
  have "acc_ok ((put_peer i ((clear_generation p)\<lparr>pa_active := False\<rparr>) s)\<lparr>ac_aggregate := agg\<rparr>)"
    if "subtract_all (\<lambda>r. r = RestartHistoryRecords) ?rel ALL_RESOURCES (ac_aggregate s) = Ok agg" for agg
  proof (rule acc_ok_put [OF ok 1(1,2)])
    have sub: "agg RestartHistoryRecords = ac_aggregate s RestartHistoryRecords"
        "r \<noteq> RestartHistoryRecords \<Longrightarrow> unat (agg r) + unat (pa_counters p r) = unat (ac_aggregate s r)" for r
      using subtract_all_Ok [OF that distinct_ALL_RESOURCES] set_ALL_RESOURCES by auto
    show "peer_ok (ac_budgets s) ((clear_generation p)\<lparr>pa_active := False\<rparr>)"
      using ok 1(7) by (intro clear_ok) (simp_all add: acc_ok_def)
    show "unat (agg r) + unat (pa_counters p r) =
        unat (ac_aggregate s r) + unat (pa_counters ((clear_generation p)\<lparr>pa_active := False\<rparr>) r)" for r
      using sub by (cases "r = RestartHistoryRecords") (simp_all add: clear_generation_def)
    show "agg r \<le> rb_aggregate (ac_budgets s r)" for r
    proof -
      have "unat (agg r) \<le> unat (ac_aggregate s r)"
      proof (cases "r = RestartHistoryRecords")
        case False
        from sub(2) [OF this] show ?thesis by linarith
      qed (simp add: sub(1))
      moreover have "ac_aggregate s r \<le> rb_aggregate (ac_budgets s r)" using ok by (simp add: acc_ok_def)
      ultimately show ?thesis by (simp add: word_le_nat_alt)
    qed
  qed
  then show ?case
    by (auto simp: wp_abind wp_afail wp_amod wp_aret Let_def subtract_all_no_panic split: option.split intro!: wp_read_res)
qed simp

lemma finish_episode_keeps:
  assumes ok: "acc_ok s"
  shows "ledger_keeps (finish_restart_episode peer) s"
proof -
  have finish: "acc_ok (put_aggregate RestartHistoryRecords v (put_peer i (p\<lparr>pa_counters :=
      (pa_counters p)(RestartHistoryRecords := 0), pa_last_history_generation := 0\<rparr>) s))"
    if "i < length (ac_peers s)" "ac_peers s ! i = p"
      "checked_sub_u64 (ac_aggregate s RestartHistoryRecords) (pa_counters p RestartHistoryRecords) = Some v" for i p v
  proof (rule acc_ok_single [OF ok that(1,2)])
    show "peer_ok (ac_budgets s) (p\<lparr>pa_counters := (pa_counters p)(RestartHistoryRecords := 0), pa_last_history_generation := 0\<rparr>)"
      using acc_peer [OF ok that(1)] that(2) by (auto simp: peer_ok_def live_set_def fifo_ok_def)
    show "v \<le> rb_aggregate (ac_budgets s RestartHistoryRecords)"
    proof -
      have "v \<le> ac_aggregate s RestartHistoryRecords" using that(3) by (simp add: checked_sub_u64_Some word_le_nat_alt)
      then show ?thesis using ok by (auto simp: acc_ok_def intro: order_trans)
    qed
  qed (use that(3) in \<open>auto simp: checked_sub_u64_Some\<close>)
  show ?thesis
    using ok finish unfolding finish_restart_episode_def
    by (auto simp: wp_abind wp_afail wp_amod wp_aret Let_def peer_index_def acc_ok_def index_r_simps res_simps
        intro!: wp_lift_res wp_read_res)
qed

lemma aggregate_bound: "acc_ok s \<Longrightarrow> ac_aggregate s r \<le> rb_aggregate (ac_budgets s r)"
  by (simp add: acc_ok_def)

lemma record_history_keeps:
  assumes ok: "acc_ok s"
  shows "ledger_keeps (record_restart_history peer g rec) s"
  unfolding record_restart_history_def wp_abind
proof (rule wp_validate [OF ok], goal_cases)
  case (1 i p)
  let ?h = RestartHistoryRecords
  have step: "acc_ok (put_aggregate ?h v (put_peer i (p\<lparr>pa_counters := (pa_counters p)(?h := n),
      pa_last_history_generation := h, pa_terminal_generation := h, pa_terminal_cleanup_complete := c\<rparr>) s))"
    if "checked_admit (pa_counters p ?h) 1 (rb_per_peer (ac_budgets s ?h)) e = Ok n"
      "checked_admit (ac_aggregate s ?h) 1 (rb_aggregate (ac_budgets s ?h)) e' = Ok v" for n v e e' c h
  proof (rule acc_ok_single [OF ok 1(1,2)])
    show "peer_ok (ac_budgets s) (p\<lparr>pa_counters := (pa_counters p)(?h := n),
        pa_last_history_generation := h, pa_terminal_generation := h, pa_terminal_cleanup_complete := c\<rparr>)"
      using 1(7) that(1) by (auto simp: peer_ok_def live_set_def fifo_ok_def checked_admit_Ok)
  qed (use that in \<open>simp_all add: checked_admit_Ok\<close>)
  show ?case
    by (auto simp: wp_abind wp_afail wp_amod checked_admit_no_panic ok_or_no_panic
        intro!: wp_read_res wp_lift_res step)
qed simp

text \<open>A reservation moves the unmanaged counters only.\<close>

lemma acc_ok_counters:
  assumes ok: "acc_ok s" and i: "i < length (ac_peers s)" "ac_peers s ! i = p" "pa_active p" "peer_ok (ac_budgets s) p"
    and n: "\<And>r. managed r \<Longrightarrow> n r = pa_counters p r" "\<And>r. n r \<le> rb_per_peer (ac_budgets s r)"
    and a: "\<And>r. unat (a r) + unat (pa_counters p r) = unat (ac_aggregate s r) + unat (n r)"
      "\<And>r. a r \<le> rb_aggregate (ac_budgets s r)"
  shows "acc_ok (put_counters i p n a s)"
  unfolding put_counters_def
proof (rule acc_ok_put [OF ok i(1,2)])
  show "peer_ok (ac_budgets s) (p\<lparr>pa_counters := n\<rparr>)"
    using i(3,4) n by (auto simp: peer_ok_def live_set_def fifo_ok_def managed_def)
qed (use a in simp_all)

lemma admitted_all:
  assumes "admit_all b amount ALL_RESOURCES (c, a) = Ok (n, m)"
  shows "unat (n r) = unat (c r) + unat (amount r)" and "unat (m r) = unat (a r) + unat (amount r)"
    and "amount r \<noteq> 0 \<Longrightarrow> \<not> managed r \<and> n r \<le> rb_per_peer (b r) \<and> m r \<le> rb_aggregate (b r)"
    and "amount r = 0 \<Longrightarrow> n r = c r \<and> m r = a r"
  using admit_all_Ok [OF assms distinct_ALL_RESOURCES] set_ALL_RESOURCES [of r] by (simp_all add: admitted_def)

lemma released_all:
  assumes "release_all amount ALL_RESOURCES (c, a) = Ok (n, m)"
  shows "unat (n r) + unat (amount r) = unat (c r)" and "unat (m r) + unat (amount r) = unat (a r)"
  using release_all_Ok [OF assms distinct_ALL_RESOURCES] set_ALL_RESOURCES [of r] by simp_all

lemma reserve_step:
  assumes ok: "acc_ok s" and i: "i < length (ac_peers s)" "ac_peers s ! i = p" "pa_active p" "peer_ok (ac_budgets s) p"
    and adm: "admit_all (ac_budgets s) amount ALL_RESOURCES (pa_counters p, ac_aggregate s) = Ok (n, a)"
  shows "acc_ok (put_counters i p n a s)"
proof (rule acc_ok_counters [OF ok i])
  show "n r = pa_counters p r" if "managed r" for r using admitted_all(3,4) [OF adm, of r] that by blast
  show "n r \<le> rb_per_peer (ac_budgets s r)" for r
    using admitted_all(3,4) [OF adm, of r] i(4) by (cases "amount r = 0") (auto simp: peer_ok_def)
  show "a r \<le> rb_aggregate (ac_budgets s r)" for r
    using admitted_all(3,4) [OF adm, of r] aggregate_bound [OF ok, of r] by (cases "amount r = 0") auto
  show "unat (a r) + unat (pa_counters p r) = unat (ac_aggregate s r) + unat (n r)" for r
    using admitted_all(1,2) [OF adm, of r] by simp
qed

lemma reserve_keeps:
  assumes ok: "acc_ok s"
  shows "ledger_keeps (reserve peer g request) s"
  using reserve_step [OF ok] unfolding reserve_def
  by (auto simp: wp_abind wp_afail wp_amod wp_aget wp_aret admit_all_no_panic intro!: wp_validate [OF ok] wp_read_res)

lemma validate_reservation_no_panic: "acc_ok s \<Longrightarrow> validate_reservation_token token s \<noteq> Panic"
  using validate_generation_no_panic [of s] by (simp add: validate_reservation_token_def res_simps)

lemma publish_token_keeps: "acc_ok s \<Longrightarrow> ledger_keeps (publish_token token) s"
  by (auto simp: publish_token_def wp_abind wp_afail wp_aret validate_reservation_no_panic
      split: reservation_state.split intro!: wp_read_res)

text \<open>A token that \<open>reserve\<close> made names no managed resource.\<close>

lemma release_step:
  assumes ok: "acc_ok s" and i: "i < length (ac_peers s)" "ac_peers s ! i = p" "pa_active p" "peer_ok (ac_budgets s) p"
    and amt: "\<And>r. managed r \<Longrightarrow> amount r = 0"
    and rel: "release_all amount ALL_RESOURCES (pa_counters p, ac_aggregate s) = Ok (n, a)"
  shows "acc_ok (put_counters i p n a s)"
proof (rule acc_ok_counters [OF ok i])
  note r = released_all [OF rel]
  show "n x = pa_counters p x" if "managed x" for x using r(1) [of x] amt [OF that] by (simp add: word_unat_eq_iff)
  show "n x \<le> rb_per_peer (ac_budgets s x)" for x
  proof -
    have "n x \<le> pa_counters p x" using r(1) [of x] by (simp add: word_le_nat_alt)
    then show ?thesis using i(4) by (auto simp: peer_ok_def intro: order_trans)
  qed
  show "a x \<le> rb_aggregate (ac_budgets s x)" for x
  proof -
    have "a x \<le> ac_aggregate s x" using r(2) [of x] by (simp add: word_le_nat_alt)
    then show ?thesis using aggregate_bound [OF ok] by (rule order_trans)
  qed
  show "unat (a x) + unat (pa_counters p x) = unat (ac_aggregate s x) + unat (n x)" for x
    using r [of x] by simp
qed

lemma release_keeps:
  assumes ok: "acc_ok s" and amt: "\<And>r. managed r \<Longrightarrow> tk_amounts token r = 0"
  shows "ledger_keeps (release token) s"
  using release_step [OF ok _ _ _ _ amt] ok unfolding release_def
  by (auto simp: wp_abind wp_afail wp_amod wp_aret release_all_no_panic validate_reservation_no_panic
      intro!: wp_validate [OF ok] wp_read_res)

subsection \<open>Live transactions\<close>

lemma live_fill:
  assumes "k < length l" and "l ! k = 0" and "v \<noteq> (0 :: u64)"
  shows "mset (filter (\<lambda>t. t \<noteq> 0) (l[k := v])) = add_mset v (mset (filter (\<lambda>t. t \<noteq> 0) l))"
proof -
  have "0 \<in># mset l" using assms by (metis nth_mem set_mset_mset)
  then have "filter_mset (\<lambda>t. t \<noteq> 0) (mset l) = filter_mset (\<lambda>t. t \<noteq> 0) (add_mset 0 (mset l - {#0#}))" by simp
  then have "filter_mset (\<lambda>t. t \<noteq> 0) (mset l) = filter_mset (\<lambda>t. t \<noteq> 0) (mset l - {#0#})"
    unfolding filter_mset_add_mset by simp
  then show ?thesis using assms by (simp add: mset_filter mset_update)
qed

lemma live_clear:
  assumes "k < length l" and "l ! k \<noteq> (0 :: u64)"
  shows "add_mset (l ! k) (mset (filter (\<lambda>t. t \<noteq> 0) (l[k := 0]))) = mset (filter (\<lambda>t. t \<noteq> 0) l)"
proof -
  have "l ! k \<in># mset l" using assms by simp
  then have "filter_mset (\<lambda>t. t \<noteq> 0) (mset l) = filter_mset (\<lambda>t. t \<noteq> 0) (add_mset (l ! k) (mset l - {#l ! k#}))" by simp
  then have "filter_mset (\<lambda>t. t \<noteq> 0) (mset l) = add_mset (l ! k) (filter_mset (\<lambda>t. t \<noteq> 0) (mset l - {#l ! k#}))"
    using assms(2) unfolding filter_mset_add_mset by simp
  then show ?thesis using assms by (simp add: mset_filter mset_update)
qed

lemma mset_add_distinct:
  assumes "mset ys = add_mset v (mset xs)"
  shows "distinct ys \<longleftrightarrow> v \<notin> set xs \<and> distinct xs" and "length ys = Suc (length xs)"
proof -
  have m: "mset ys = mset (v # xs)" using assms by simp
  from mset_eq_imp_distinct_iff [OF m] show "distinct ys \<longleftrightarrow> v \<notin> set xs \<and> distinct xs" by simp
  from mset_eq_length [OF m] show "length ys = Suc (length xs)" by simp
qed

definition live_counted :: "peer_accounting \<Rightarrow> bool" where
  "live_counted p \<longleftrightarrow> length (pa_live_transactions p) = MAX_LIVE_TRANSACTIONS_PER_PEER \<and> distinct (live_set p) \<and>
     unat (pa_counters p InFlightTransactions) = length (live_set p)"

lemma live_counted_begin:
  assumes "live_counted p" and "position (\<lambda>c. c = 0) (pa_live_transactions p) = Some k" and "t \<noteq> 0"
    and "t \<notin> set (pa_live_transactions p)" and "unat n = unat (pa_counters p InFlightTransactions) + 1"
    and "pa_live_transactions q = (pa_live_transactions p)[k := t]" and "pa_counters q InFlightTransactions = n"
  shows "live_counted q" and "mset (live_set q) = add_mset t (mset (live_set p))"
proof -
  from position_SomeD [OF assms(2)] show m: "mset (live_set q) = add_mset t (mset (live_set p))"
    using live_fill [of k "pa_live_transactions p" t] assms(3,6) by (simp add: live_set_def)
  have "t \<notin> set (live_set p)" using assms(4) by (simp add: live_set_def)
  then show "live_counted q"
    using mset_add_distinct [OF m] assms(1,5-7) by (simp add: live_counted_def)
qed

lemma live_counted_end:
  assumes "live_counted p" and "position (\<lambda>c. c = t) (pa_live_transactions p) = Some k" and "t \<noteq> 0"
    and "unat n + 1 = unat (pa_counters p InFlightTransactions)"
    and "pa_live_transactions q = (pa_live_transactions p)[k := 0]" and "pa_counters q InFlightTransactions = n"
  shows "live_counted q" and "add_mset t (mset (live_set q)) = mset (live_set p)"
proof -
  from position_SomeD [OF assms(2)] show m: "add_mset t (mset (live_set q)) = mset (live_set p)"
    using live_clear [of k "pa_live_transactions p"] assms(3,5) by (simp add: live_set_def)
  show "live_counted q"
    using mset_add_distinct [OF m [symmetric]] assms(1,4-6) by (simp add: live_counted_def)
qed

end
