(* ===== verification/AccountingTx.thy ===== *)
theory AccountingTx
  imports AccountingInv
begin

text \<open>
  Transactions of the resource ledger: the array of live transactions, the FIFO of completed ones,
  which is a replay window, and that beginning, completing and aborting keep the invariant.
\<close>

subsection \<open>The FIFO of completed transactions\<close>

definition fifo_window :: "nat \<Rightarrow> peer_accounting \<Rightarrow> u64 list" where
  "fifo_window cap p = rotate (if unat (pa_replay_len p) < cap then 0 else unat (pa_replay_next p))
     (take (unat (pa_replay_len p)) (pa_replay p))"

definition fifo_contains :: "peer_accounting \<Rightarrow> u64 \<Rightarrow> bool" where
  "fifo_contains p t \<longleftrightarrow> peer_replay_contains p t = Ok True"

definition fifo_pushed :: "nat \<Rightarrow> peer_accounting \<Rightarrow> u64 \<Rightarrow> peer_accounting" where
  "fifo_pushed cap p t = (case fifo_push cap t p of Ok p' \<Rightarrow> p' | _ \<Rightarrow> p)"

lemma rotate_overwrite:
  assumes "k < length xs"
  shows "rotate (Suc k) (xs[k := v]) = tl (rotate k xs) @ [v]"
proof -
  have "rotate k (xs[k := v]) = v # drop (Suc k) xs @ take k xs"
    using assms by (simp add: rotate_drop_take Cons_nth_drop_Suc [symmetric])
  moreover have "rotate k xs = xs ! k # drop (Suc k) xs @ take k xs"
    using assms by (simp add: rotate_drop_take Cons_nth_drop_Suc [symmetric])
  ultimately show ?thesis by (simp add: rotate1_def)
qed

lemma replay_contains_Ok:
  assumes "fifo_ok cap p" and "cap \<le> MAX_REPLAY_ENTRIES_PER_PEER"
  shows "peer_replay_contains p t = Ok (t \<in> set (take (unat (pa_replay_len p)) (pa_replay p)))"
  using assms by (simp add: peer_replay_contains_def fifo_ok_def region_r_def region_def)

lemma fifo_push_Ok:
  assumes ok: "fifo_ok cap p" and cap: "0 < cap" "cap \<le> MAX_REPLAY_ENTRIES_PER_PEER"
  shows "\<exists>len. unat len = (if unat (pa_replay_len p) < cap then Suc (unat (pa_replay_len p)) else cap) \<and>
    fifo_push cap t p = Ok (p\<lparr>pa_replay := (pa_replay p)[unat (pa_replay_next p) := t],
      pa_replay_next := word_of_nat (Suc (unat (pa_replay_next p)) mod cap), pa_replay_len := len\<rparr>)"
proof -
  have 8: "cap \<le> 8" "length (pa_replay p) = 8" using ok cap by (simp_all add: fifo_ok_def MAX_REPLAY_ENTRIES_PER_PEER_def)
  have "\<exists>len. checked_add_u8 (pa_replay_len p) 1 = Some len \<and> unat len = Suc (unat (pa_replay_len p))"
    if "unat (pa_replay_len p) < cap"
    using that 8 by (auto simp: checked_add_u8_def unat_word_ariths)
  moreover have "unat (pa_replay_next p) < 8" "unat (pa_replay_len p) \<le> cap" using ok 8 by (simp_all add: fifo_ok_def)
  ultimately show ?thesis using 8 cap
    by (cases "unat (pa_replay_len p) < cap") (auto simp: fifo_push_def Let_def)
qed

lemma fifo_pushed_ok:
  assumes ok: "fifo_ok cap p" and cap: "0 < cap" "cap \<le> MAX_REPLAY_ENTRIES_PER_PEER"
  shows "fifo_ok cap (fifo_pushed cap p t)"
    and "fifo_window cap (fifo_pushed cap p t) =
      (if length (fifo_window cap p) < cap then fifo_window cap p else tl (fifo_window cap p)) @ [t]"
proof -
  let ?k = "unat (pa_replay_next p)" and ?l = "unat (pa_replay_len p)"
  obtain len where len: "unat len = (if ?l < cap then Suc ?l else cap)"
      "fifo_pushed cap p t = p\<lparr>pa_replay := (pa_replay p)[?k := t],
        pa_replay_next := word_of_nat (Suc ?k mod cap), pa_replay_len := len\<rparr>"
    using fifo_push_Ok [OF assms, of t] by (auto simp: fifo_pushed_def)
  have 8: "cap \<le> 8" "length (pa_replay p) = 8" "?l \<le> cap" "?k < cap" "?l < cap \<Longrightarrow> ?k = ?l"
    using ok cap by (auto simp: fifo_ok_def MAX_REPLAY_ENTRIES_PER_PEER_def)
  have nxt: "unat (word_of_nat (Suc ?k mod cap) :: byte) = Suc ?k mod cap"
  proof -
    have "Suc ?k mod cap < cap" using cap(1) by simp
    then have "Suc ?k mod cap < 256" using 8(1) by linarith
    then show ?thesis by (simp add: unat_of_nat)
  qed
  show "fifo_ok cap (fifo_pushed cap p t)"
    using 8 cap len(1) nxt ok by (auto simp: len(2) fifo_ok_def word_unat_eq_iff)
  show "fifo_window cap (fifo_pushed cap p t) =
      (if length (fifo_window cap p) < cap then fifo_window cap p else tl (fifo_window cap p)) @ [t]"
  proof (cases "?l < cap")
    case True
    have "take (Suc ?l) ((pa_replay p)[?l := t]) = take ?l (pa_replay p) @ [t]"
      using True 8 by (simp add: take_Suc_conv_app_nth)
    moreover have "Suc ?l mod cap = 0" if "\<not> Suc ?l < cap"
    proof -
      have "Suc ?l = cap" using that True by simp
      then show ?thesis by simp
    qed
    ultimately show ?thesis using True 8 len nxt by (auto simp: fifo_window_def)
  next
    case False
    then have l: "?l = cap" using 8(3) by simp
    have "rotate (Suc ?k mod cap) ((take cap (pa_replay p))[?k := t]) = rotate (Suc ?k) ((take cap (pa_replay p))[?k := t])"
      using rotate_conv_mod [of "Suc ?k" "(take cap (pa_replay p))[?k := t]"] 8 by simp
    also have "\<dots> = tl (rotate ?k (take cap (pa_replay p))) @ [t]" using 8 by (intro rotate_overwrite) simp
    finally show ?thesis using l len nxt 8 by (simp add: fifo_window_def take_update_swap)
  qed
qed

text \<open>A value with fewer than \<open>n\<close> later ones.\<close>

definition recalls :: "nat \<Rightarrow> 'v \<Rightarrow> 'v list \<Rightarrow> bool" where
  "recalls n v w \<longleftrightarrow> (\<exists>a b. w = a @ v # b \<and> length b < n)"

lemma recalls_member: "recalls n v w \<Longrightarrow> v \<in> set w"
  by (auto simp: recalls_def)

lemma recalls_mono: "recalls n v w \<Longrightarrow> n \<le> m \<Longrightarrow> recalls m v w"
  by (fastforce simp: recalls_def)

context replay_window
begin

lemma recalls_pushed: "wf r \<Longrightarrow> recalls 1 v (window (push r v))"
  using window_push [of r v] by (auto simp: recalls_def)

lemma recalls_push:
  assumes "wf r" and "recalls n v (window r)" and "n < N"
  shows "recalls (Suc n) v (window (push r u))"
proof -
  obtain a b where w: "window r = a @ v # b" "length b < n" using assms(2) by (auto simp: recalls_def)
  have "window (push r u) = (if length (window r) < N then a else tl a) @ v # (b @ [u])"
    using window_push [OF assms(1), of u] w assms(3) by (cases a) auto
  moreover have "length (b @ [u]) < Suc n" using w(2) by simp
  ultimately show ?thesis unfolding recalls_def by blast
qed

end

lemma fifo_window_laws:
  assumes "0 < cap" and "cap \<le> MAX_REPLAY_ENTRIES_PER_PEER"
  shows "replay_window cap (fifo_ok cap) peer_accounting_new fifo_contains (fifo_pushed cap) (fifo_window cap)"
proof
  show "fifo_ok cap peer_accounting_new" using assms by (simp add: fifo_ok_def peer_accounting_new_def)
  show "fifo_window cap peer_accounting_new = []" by (simp add: fifo_window_def peer_accounting_new_def)
  show "fifo_contains p t \<longleftrightarrow> t \<in> set (fifo_window cap p)" if "fifo_ok cap p" for p t
    using replay_contains_Ok [OF that assms(2)] by (simp add: fifo_contains_def fifo_window_def)
  show "length (fifo_window cap p) \<le> cap" if "fifo_ok cap p" for p
    using that by (simp add: fifo_window_def fifo_ok_def min_le_iff_disj)
qed (use assms fifo_pushed_ok in auto)

lemma fifo_push_frame:
  assumes "fifo_push cap t p = Ok q"
  shows "pa_live_transactions q = pa_live_transactions p" and "pa_counters q = pa_counters p"
    and "pa_active q = pa_active p" and "pa_generation q = pa_generation p"
  using assms by (auto simp: fifo_push_def Let_def res_simps split: if_splits)

text \<open>The capacity of the fixed budgets.\<close>

interpretation completed_replay: replay_window 8 "fifo_ok 8" peer_accounting_new fifo_contains "fifo_pushed 8" "fifo_window 8"
  by (rule fifo_window_laws) (simp_all add: MAX_REPLAY_ENTRIES_PER_PEER_def)

subsection \<open>Beginning, aborting and completing\<close>

lemma peer_ok_live: "peer_ok b p \<Longrightarrow> live_counted p"
  by (simp add: peer_ok_def live_counted_def)

lemma peer_ok_fifo: "peer_ok b p \<Longrightarrow> fifo_ok (replay_capacity_of b) p"
  by (simp add: peer_ok_def)

lemma fifo_window_member:
  assumes "acc_ok s" and "peer_ok (ac_budgets s) p"
  shows "peer_replay_contains p t = Ok (t \<in> set (fifo_window (replay_capacity_of (ac_budgets s)) p))"
proof -
  have "replay_capacity_of (ac_budgets s) \<le> MAX_REPLAY_ENTRIES_PER_PEER" using budgets_validD assms(1) by (simp add: acc_ok_def)
  from replay_contains_Ok [OF peer_ok_fifo [OF assms(2)] this] show ?thesis by (simp add: fifo_window_def)
qed

text \<open>An operation on the transactions of an active peer.\<close>

lemma peer_ok_tx:
  assumes "peer_ok b p" and "pa_active p" and "pa_active q" and "live_counted q" and "fifo_ok (replay_capacity_of b) q"
    and "\<And>r. r \<noteq> InFlightTransactions \<Longrightarrow> r \<noteq> CompletedReplayEntries \<Longrightarrow> pa_counters q r = pa_counters p r"
    and "pa_counters q InFlightTransactions \<le> rb_per_peer (b InFlightTransactions)"
    and "pa_counters q CompletedReplayEntries \<le> rb_per_peer (b CompletedReplayEntries)"
    and "unat (pa_counters q CompletedReplayEntries) = unat (pa_replay_len q)"
  shows "peer_ok b q"
  using assms unfolding peer_ok_def live_counted_def by (metis (full_types) accounted_resource.distinct(1,3))

lemma begin_transaction_step:
  assumes ok: "acc_ok s" and i: "i < length (ac_peers s)" "ac_peers s ! i = p" "pa_active p" "peer_ok (ac_budgets s) p"
    and t: "t \<noteq> 0" "t \<notin> set (pa_live_transactions p)" "position (\<lambda>c. c = 0) (pa_live_transactions p) = Some k"
    and n: "checked_admit (pa_counters p InFlightTransactions) 1 (rb_per_peer (ac_budgets s InFlightTransactions)) e = Ok n"
    and v: "checked_admit (ac_aggregate s InFlightTransactions) 1 (rb_aggregate (ac_budgets s InFlightTransactions)) e' = Ok v"
  shows "acc_ok (put_aggregate InFlightTransactions v (put_peer i
      (p\<lparr>pa_counters := (pa_counters p)(InFlightTransactions := n),
         pa_live_transactions := (pa_live_transactions p)[k := t]\<rparr>) s))" (is "acc_ok (put_aggregate _ _ (put_peer i ?q s))")
proof (rule acc_ok_single [OF ok i(1,2)])
  have "live_counted ?q" by (rule live_counted_begin [OF peer_ok_live [OF i(4)] t(3,1,2)]) (use n in \<open>auto simp: checked_admit_Ok\<close>)
  then show "peer_ok (ac_budgets s) ?q"
    using n i(3,4) by (intro peer_ok_tx [OF i(4,3)]) (auto simp: peer_ok_def fifo_ok_def checked_admit_Ok)
qed (use n v in \<open>simp_all add: checked_admit_Ok\<close>)

lemma begin_transaction_keeps:
  assumes ok: "acc_ok s"
  shows "ledger_keeps (begin_transaction peer g t) s"
proof -
  have "peer_replay_contains p t \<noteq> Panic" if "peer_ok (ac_budgets s) p" for p
    using fifo_window_member [OF ok that] by simp
  then show ?thesis
    using begin_transaction_step [OF ok] unfolding begin_transaction_def
    by (auto simp: wp_abind wp_afail wp_amod wp_aget wp_aret checked_admit_no_panic split: option.split
        intro!: wp_validate [OF ok] wp_read_res wp_lift_res)
qed

text \<open>A transaction leaves the live array.\<close>

lemma leave_live:
  assumes "peer_ok b p" and "position (\<lambda>c. c = t) (pa_live_transactions p) = Some k" and "t \<noteq> 0"
    and "checked_sub_u64 (pa_counters p InFlightTransactions) 1 = Some m"
    and "pa_live_transactions q = (pa_live_transactions p)[k := 0]" and "pa_counters q InFlightTransactions = m"
  shows "live_counted q" and "m \<le> rb_per_peer (b InFlightTransactions)"
    and "unat m + 1 = unat (pa_counters p InFlightTransactions)"
    and "add_mset t (mset (live_set q)) = mset (live_set p)"
proof -
  show m: "unat m + 1 = unat (pa_counters p InFlightTransactions)"
    using assms(4) by (auto simp: checked_sub_u64_Some)
  show "live_counted q" "add_mset t (mset (live_set q)) = mset (live_set p)"
    using live_counted_end [OF peer_ok_live [OF assms(1)] assms(2,3) m assms(5,6)] .
  have "m \<le> pa_counters p InFlightTransactions" using m by (simp add: word_le_nat_alt)
  then show "m \<le> rb_per_peer (b InFlightTransactions)" using assms(1) by (auto simp: peer_ok_def intro: order_trans)
qed

lemma lowered_bound:
  assumes "acc_ok s" and "checked_sub_u64 (ac_aggregate s r) 1 = Some v"
  shows "v \<le> rb_aggregate (ac_budgets s r)" and "unat v + 1 = unat (ac_aggregate s r)"
proof -
  show v: "unat v + 1 = unat (ac_aggregate s r)" using assms(2) by (auto simp: checked_sub_u64_Some)
  then have "v \<le> ac_aggregate s r" by (simp add: word_le_nat_alt)
  then show "v \<le> rb_aggregate (ac_budgets s r)" using aggregate_bound [OF assms(1)] by (rule order_trans)
qed

lemma abort_step:
  assumes ok: "acc_ok s" and i: "i < length (ac_peers s)" "ac_peers s ! i = p" "pa_active p" "peer_ok (ac_budgets s) p"
    and t: "position (\<lambda>c. c = t) (pa_live_transactions p) = Some k" "t \<noteq> 0"
    and m: "checked_sub_u64 (pa_counters p InFlightTransactions) 1 = Some m"
    and v: "checked_sub_u64 (ac_aggregate s InFlightTransactions) 1 = Some v"
  shows "acc_ok (put_aggregate InFlightTransactions v (put_peer i
      (p\<lparr>pa_live_transactions := (pa_live_transactions p)[k := 0],
         pa_counters := (pa_counters p)(InFlightTransactions := m)\<rparr>) s))" (is "acc_ok (put_aggregate _ _ (put_peer i ?q s))")
proof (rule acc_ok_single [OF ok i(1,2)])
  note live = leave_live [OF i(4) t m, of ?q, simplified]
  show "peer_ok (ac_budgets s) ?q"
    using live i(3,4) by (intro peer_ok_tx [OF i(4,3)]) (auto simp: peer_ok_def fifo_ok_def)
  show "unat v + unat (pa_counters p InFlightTransactions) = unat (ac_aggregate s InFlightTransactions) + unat (pa_counters ?q InFlightTransactions)"
    using lowered_bound(2) [OF ok v] live(3) by simp
qed (use lowered_bound(1) [OF ok v] in simp_all)

lemma wp_validate_tx:
  assumes ok: "acc_ok s"
    and "\<And>i p. i < length (ac_peers s) \<Longrightarrow> ac_peers s ! i = p \<Longrightarrow> pa_active p \<Longrightarrow> peer_ok (ac_budgets s) p \<Longrightarrow> Q (i, p) s"
    and "\<And>e. E e s"
  shows "wp (aread (validate_transaction_token token)) Q E s"
proof -
  have "wp (aread (validate_generation (tt_peer token) (tt_generation token))) Q E s"
    by (rule wp_validate [OF ok]) (use assms in blast)+
  then show ?thesis using assms(3) by (simp add: wp_aread validate_transaction_token_def)
qed

lemma abort_keeps:
  assumes ok: "acc_ok s" and t: "tt_transaction_id token \<noteq> 0"
  shows "ledger_keeps (abort_transaction token) s"
  using abort_step [OF ok _ _ _ _ _ t] unfolding abort_transaction_def
  by (auto simp: wp_abind wp_amod wp_aret ok_or_no_panic res_simps intro!: wp_validate_tx [OF ok] wp_read_res wp_lift_res)

text \<open>What completing does to the two replay counters.\<close>

definition counted_replay :: "accounting \<Rightarrow> peer_accounting \<Rightarrow> u64 \<Rightarrow> u64 \<Rightarrow> bool" where
  "counted_replay s p n a \<longleftrightarrow>
     (if unat (pa_replay_len p) < unat (rb_per_peer (ac_budgets s CompletedReplayEntries))
      then checked_admit (pa_counters p CompletedReplayEntries) 1 (rb_per_peer (ac_budgets s CompletedReplayEntries))
             (AE_PerPeerLimit CompletedReplayEntries)
      else Ok (pa_counters p CompletedReplayEntries)) = Ok n \<and>
     (if unat (pa_replay_len p) < unat (rb_per_peer (ac_budgets s CompletedReplayEntries))
      then checked_admit (ac_aggregate s CompletedReplayEntries) 1 (rb_aggregate (ac_budgets s CompletedReplayEntries))
             (AE_AggregateLimit CompletedReplayEntries)
      else Ok (ac_aggregate s CompletedReplayEntries)) = Ok a"

lemma counted_replay_bounds:
  assumes "acc_ok s" and "peer_ok (ac_budgets s) p" and "counted_replay s p n a"
  shows "n \<le> rb_per_peer (ac_budgets s CompletedReplayEntries)" and "a \<le> rb_aggregate (ac_budgets s CompletedReplayEntries)"
    and "unat a + unat (pa_counters p CompletedReplayEntries) = unat (ac_aggregate s CompletedReplayEntries) + unat n"
    and "unat n = (if unat (pa_replay_len p) < replay_capacity_of (ac_budgets s) then Suc (unat (pa_replay_len p))
      else replay_capacity_of (ac_budgets s))"
  using assms aggregate_bound [OF assms(1)]
  by (auto simp: counted_replay_def replay_capacity_of_def checked_admit_Ok peer_ok_def fifo_ok_def split: if_splits)

lemma complete_step:
  fixes s t k p i n m
  defines "q \<equiv> p\<lparr>pa_live_transactions := (pa_live_transactions p)[k := 0],
         pa_counters := (pa_counters p)(InFlightTransactions := m, CompletedReplayEntries := n)\<rparr>"
  assumes ok: "acc_ok s" and i: "i < length (ac_peers s)" "ac_peers s ! i = p" "pa_active p" "peer_ok (ac_budgets s) p"
    and t: "position (\<lambda>c. c = t) (pa_live_transactions p) = Some k" "t \<noteq> 0"
    and r: "counted_replay s p n a"
    and m: "checked_sub_u64 (pa_counters p InFlightTransactions) 1 = Some m"
    and v: "checked_sub_u64 (ac_aggregate s InFlightTransactions) 1 = Some v"
  shows "\<exists>q'. fifo_push (replay_capacity_of (ac_budgets s)) t q = Ok q' \<and> pa_active q' \<and>
    acc_ok (put_aggregate CompletedReplayEntries a (put_aggregate InFlightTransactions v (put_peer i q' s)))"
proof -
  let ?cap = "replay_capacity_of (ac_budgets s)"
  have cap: "0 < ?cap" "?cap \<le> MAX_REPLAY_ENTRIES_PER_PEER" using budgets_validD ok by (simp_all add: acc_ok_def)
  have fq: "fifo_ok ?cap q" using peer_ok_fifo [OF i(4)] by (simp add: q_def fifo_ok_def)
  obtain len where len: "unat len = (if unat (pa_replay_len q) < ?cap then Suc (unat (pa_replay_len q)) else ?cap)"
      "fifo_push ?cap t q = Ok (q\<lparr>pa_replay := (pa_replay q)[unat (pa_replay_next q) := t],
        pa_replay_next := word_of_nat (Suc (unat (pa_replay_next q)) mod ?cap), pa_replay_len := len\<rparr>)"
    using fifo_push_Ok [OF fq cap, of t] by blast
  let ?q = "q\<lparr>pa_replay := (pa_replay q)[unat (pa_replay_next q) := t],
        pa_replay_next := word_of_nat (Suc (unat (pa_replay_next q)) mod ?cap), pa_replay_len := len\<rparr>"
  note live = leave_live [OF i(4) t m, of ?q, unfolded q_def, simplified]
  note rep = counted_replay_bounds [OF ok i(4) r]
  have "fifo_ok ?cap ?q" using fifo_pushed_ok(1) [OF fq cap, of t] len(2) by (simp add: fifo_pushed_def)
  then have peer: "peer_ok (ac_budgets s) ?q"
    using live rep i(3) len(1) by (intro peer_ok_tx [OF i(4,3)]) (simp_all add: q_def)
  let ?agg = "(ac_aggregate s)(InFlightTransactions := v, CompletedReplayEntries := a)"
  have "acc_ok ((put_peer i ?q s)\<lparr>ac_aggregate := ?agg\<rparr>)"
    using lowered_bound [OF ok v] live(3) rep(2,3) aggregate_bound [OF ok]
    by (intro acc_ok_put [OF ok i(1,2) peer]) (auto simp: q_def)
  moreover have "put_aggregate CompletedReplayEntries a (put_aggregate InFlightTransactions v (put_peer i ?q s)) =
      (put_peer i ?q s)\<lparr>ac_aggregate := ?agg\<rparr>" by (simp add: put_aggregate_def put_peer_def)
  ultimately show ?thesis using len(2) i(3) by (simp add: q_def)
qed

lemma counted_no_panic: "(if c then checked_admit a b l e else Ok x) \<noteq> Panic"
  by (simp add: checked_admit_no_panic)

lemma complete_keeps:
  assumes ok: "acc_ok s" and t: "tt_transaction_id token \<noteq> 0"
  shows "ledger_keeps (account_complete token) s"
proof -
  note step = complete_step [OF ok _ refl _ _ _ t, unfolded counted_replay_def replay_capacity_of_def, OF _ _ _ _ conjI]
  have push: "\<exists>q. r = Ok q \<and> acc_ok (f q)" if "\<exists>q. r = Ok q \<and> pa_active q \<and> acc_ok (f q)" for r f
    using that by blast
  show ?thesis unfolding account_complete_def Let_def
    by (auto simp: wp_abind wp_amod wp_aret wp_aget ok_or_no_panic counted_no_panic res_simps
      intro!: wp_validate_tx [OF ok] wp_read_res wp_lift_res)
      (drule (7) push [OF step], simp)+
qed

end
