(* ===== verification/AccountingTokens.thy ===== *)
theory AccountingTokens
  imports AccountingTx
begin

text \<open>
  A ledger together with the tokens it has handed out. Tokens are affine in the code: only the ledger
  makes them, they cannot be copied, and a call that spends one marks it. Here the tokens are two lists
  beside the ledger and a call names a token by its position. The balance invariant says that the
  counters of every peer are exactly what its unspent tokens hold.
\<close>

record system =
  sy_ledger :: accounting
  sy_tokens :: "reservation_token list"
  sy_transactions :: "transaction_token list"

datatype ledger_call =
    CBegin byte u64
  | CRetire byte u64
  | CFinish byte
  | CRecord byte u64 attempt_record
  | CReserve byte u64 reservation_request
  | CPublish nat
  | CRelease nat
  | CBeginTx byte u64 u64
  | CComplete nat
  | CAbort nat

text \<open>A call that names no token is not possible in the code and does nothing here.\<close>

definition on_ledger :: "'a aop \<Rightarrow> ('a \<Rightarrow> system \<Rightarrow> system) \<Rightarrow> system \<Rightarrow> (accounting_error, unit) res \<times> system" where
  "on_ledger op f y =
     (case op (sy_ledger y) of
        (Ok a, s) \<Rightarrow> (Ok (), f a (y\<lparr>sy_ledger := s\<rparr>))
      | (Err e, s) \<Rightarrow> (Err e, y\<lparr>sy_ledger := s\<rparr>)
      | (Panic, s) \<Rightarrow> (Panic, y\<lparr>sy_ledger := s\<rparr>))"

definition set_token :: "nat \<Rightarrow> reservation_token \<Rightarrow> system \<Rightarrow> system" where
  "set_token k t y = y\<lparr>sy_tokens := (sy_tokens y)[k := t]\<rparr>"

definition set_transaction :: "nat \<Rightarrow> transaction_token \<Rightarrow> system \<Rightarrow> system" where
  "set_transaction k t y = y\<lparr>sy_transactions := (sy_transactions y)[k := t]\<rparr>"

fun ledger_step :: "ledger_call \<Rightarrow> system \<Rightarrow> (accounting_error, unit) res \<times> system" where
  "ledger_step (CBegin peer g) y = on_ledger (begin_generation peer g) (\<lambda>_ y. y) y"
| "ledger_step (CRetire peer g) y = on_ledger (retire_generation peer g) (\<lambda>_ y. y) y"
| "ledger_step (CFinish peer) y = on_ledger (finish_restart_episode peer) (\<lambda>_ y. y) y"
| "ledger_step (CRecord peer g rec) y = on_ledger (record_restart_history peer g rec) (\<lambda>_ y. y) y"
| "ledger_step (CReserve peer g request) y =
     on_ledger (reserve peer g request) (\<lambda>t y. y\<lparr>sy_tokens := sy_tokens y @ [t]\<rparr>) y"
| "ledger_step (CPublish k) y =
     (if k < length (sy_tokens y) then on_ledger (publish_token (sy_tokens y ! k)) (set_token k) y else (Ok (), y))"
| "ledger_step (CRelease k) y =
     (if k < length (sy_tokens y) then on_ledger (release (sy_tokens y ! k)) (set_token k) y else (Ok (), y))"
| "ledger_step (CBeginTx peer g t) y =
     on_ledger (begin_transaction peer g t) (\<lambda>t y. y\<lparr>sy_transactions := sy_transactions y @ [t]\<rparr>) y"
| "ledger_step (CComplete k) y =
     (if k < length (sy_transactions y)
      then on_ledger (account_complete (sy_transactions y ! k)) (set_transaction k) y else (Ok (), y))"
| "ledger_step (CAbort k) y =
     (if k < length (sy_transactions y)
      then on_ledger (abort_transaction (sy_transactions y ! k)) (set_transaction k) y else (Ok (), y))"

subsection \<open>The balance\<close>

definition unspent :: "nat \<Rightarrow> reservation_token list \<Rightarrow> reservation_token list" where
  "unspent i ts = filter (\<lambda>t. tk_state t \<noteq> Tok_Released \<and> unat (tk_peer t) = i) ts"

definition open_ids :: "nat \<Rightarrow> transaction_token list \<Rightarrow> u64 list" where
  "open_ids i ts = map tt_transaction_id (filter (\<lambda>t. tt_active t \<and> unat (tt_peer t) = i) ts)"

definition reserved :: "nat \<Rightarrow> system \<Rightarrow> accounted_resource \<Rightarrow> nat" where
  "reserved i y r = sum_list (map (\<lambda>t. unat (tk_amounts t r)) (unspent i (sy_tokens y)))"

definition token_ok :: "accounting \<Rightarrow> reservation_token \<Rightarrow> bool" where
  "token_ok s t \<longleftrightarrow> tk_controller_id t = ac_controller_id s \<and> (\<forall>r. managed r \<longrightarrow> tk_amounts t r = 0) \<and>
     (\<exists>r. tk_amounts t r \<noteq> 0) \<and> unat (tk_peer t) < length (ac_peers s) \<and> tk_generation t \<noteq> 0 \<and>
     (tk_state t \<noteq> Tok_Released \<longrightarrow>
        pa_active (ac_peers s ! unat (tk_peer t)) \<and> tk_generation t = pa_generation (ac_peers s ! unat (tk_peer t)))"

definition transaction_ok :: "accounting \<Rightarrow> transaction_token \<Rightarrow> bool" where
  "transaction_ok s t \<longleftrightarrow> tt_controller_id t = ac_controller_id s \<and> tt_transaction_id t \<noteq> 0 \<and>
     unat (tt_peer t) < length (ac_peers s) \<and> tt_generation t \<noteq> 0 \<and>
     (tt_active t \<longrightarrow>
        pa_active (ac_peers s ! unat (tt_peer t)) \<and> tt_generation t = pa_generation (ac_peers s ! unat (tt_peer t)))"

definition sys_ok :: "system \<Rightarrow> bool" where
  "sys_ok y \<longleftrightarrow> acc_ok (sy_ledger y) \<and>
     (\<forall>t \<in> set (sy_tokens y). token_ok (sy_ledger y) t) \<and>
     (\<forall>t \<in> set (sy_transactions y). transaction_ok (sy_ledger y) t) \<and>
     (\<forall>i < length (ac_peers (sy_ledger y)).
        (\<forall>r. \<not> managed r \<longrightarrow> unat (pa_counters (ac_peers (sy_ledger y) ! i) r) = reserved i y r) \<and>
        mset (live_set (ac_peers (sy_ledger y) ! i)) = mset (open_ids i (sy_transactions y)))"

text \<open>The effect of a call on the ledger: at most one peer changes.\<close>

definition moved :: "nat \<Rightarrow> peer_accounting \<Rightarrow> accounting \<Rightarrow> accounting \<Rightarrow> bool" where
  "moved i q s s' \<longleftrightarrow> i < length (ac_peers s) \<and> ac_peers s' = (ac_peers s)[i := q] \<and>
     ac_controller_id s' = ac_controller_id s \<and> ac_budgets s' = ac_budgets s"

lemma moved_put [simp]:
  "moved i q s (put_aggregate r v (put_peer i q s)) \<longleftrightarrow> i < length (ac_peers s)"
  "moved i q s (put_aggregate r v (put_aggregate r' v' (put_peer i q s))) \<longleftrightarrow> i < length (ac_peers s)"
  "moved i q s ((put_peer i q s)\<lparr>ac_aggregate := a\<rparr>) \<longleftrightarrow> i < length (ac_peers s)"
  "moved i (p\<lparr>pa_counters := n\<rparr>) s (put_counters i p n a s) \<longleftrightarrow> i < length (ac_peers s)"
  by (auto simp: moved_def put_aggregate_def put_peer_def put_counters_def)

text \<open>A move that keeps the peer's generation keeps every token valid.\<close>

definition same_generation :: "peer_accounting \<Rightarrow> peer_accounting \<Rightarrow> bool" where
  "same_generation p q \<longleftrightarrow> pa_active q = pa_active p \<and> pa_generation q = pa_generation p"

definition same_run :: "peer_accounting \<Rightarrow> peer_accounting \<Rightarrow> bool" where
  "same_run p q \<longleftrightarrow> same_generation p q \<and> pa_replay q = pa_replay p \<and> pa_replay_len q = pa_replay_len p \<and>
     pa_replay_next q = pa_replay_next p"

lemma same_run_window: "same_run p q \<Longrightarrow> fifo_window cap q = fifo_window cap p"
  by (simp add: same_run_def fifo_window_def)

lemma moved_tokens:
  assumes "moved i q s s'" and "same_generation (ac_peers s ! i) q"
  shows "token_ok s' t = token_ok s t" and "transaction_ok s' x = transaction_ok s x"
  using assms by (auto simp: moved_def same_generation_def token_ok_def transaction_ok_def nth_list_update)

lemma sys_ok_move:
  assumes y: "sys_ok y" and s': "acc_ok s'" and mv: "moved i q (sy_ledger y) s'" and run: "same_generation (ac_peers (sy_ledger y) ! i) q"
    and toks: "\<And>t. t \<in> set ts \<Longrightarrow> token_ok (sy_ledger y) t" and txs: "\<And>t. t \<in> set xs \<Longrightarrow> transaction_ok (sy_ledger y) t"
    and other: "\<And>j. j \<noteq> i \<Longrightarrow> unspent j ts = unspent j (sy_tokens y) \<and> open_ids j xs = open_ids j (sy_transactions y)"
    and res: "\<And>r. \<not> managed r \<Longrightarrow> unat (pa_counters q r) = sum_list (map (\<lambda>t. unat (tk_amounts t r)) (unspent i ts))"
    and live: "mset (live_set q) = mset (open_ids i xs)"
  shows "sys_ok (y\<lparr>sy_ledger := s', sy_tokens := ts, sy_transactions := xs\<rparr>)"
proof -
  have "(\<forall>r. \<not> managed r \<longrightarrow> unat (pa_counters (ac_peers s' ! j) r) = sum_list (map (\<lambda>t. unat (tk_amounts t r)) (unspent j ts))) \<and>
      mset (live_set (ac_peers s' ! j)) = mset (open_ids j xs)" if "j < length (ac_peers s')" for j
  proof (cases "j = i")
    case True
    then show ?thesis using mv res live by (simp add: moved_def)
  next
    case False
    then show ?thesis using mv y other [OF False] that by (simp add: moved_def sys_ok_def reserved_def)
  qed
  then show ?thesis using s' toks txs moved_tokens [OF mv run] by (simp add: sys_ok_def reserved_def)
qed

lemma sys_balance:
  "sys_ok y \<Longrightarrow> i < length (ac_peers (sy_ledger y)) \<Longrightarrow> \<not> managed r \<Longrightarrow>
    unat (pa_counters (ac_peers (sy_ledger y) ! i) r) = reserved i y r"
  by (simp add: sys_ok_def)

lemma no_unspent:
  assumes "sys_ok y" and "i < length (ac_peers (sy_ledger y))"
    and "\<And>r. \<not> managed r \<Longrightarrow> pa_counters (ac_peers (sy_ledger y) ! i) r = 0"
  shows "unspent i (sy_tokens y) = []"
proof (rule ccontr)
  assume "unspent i (sy_tokens y) \<noteq> []"
  then obtain t where t: "t \<in> set (unspent i (sy_tokens y))" by fastforce
  then have "token_ok (sy_ledger y) t" using assms(1) by (simp add: sys_ok_def unspent_def)
  then obtain r where r: "tk_amounts t r \<noteq> 0" "\<not> managed r" by (auto simp: token_ok_def)
  have "unat (tk_amounts t r) \<le> reserved i y r"
    unfolding reserved_def using t by (intro member_le_sum_list) simp_all
  then show False using sys_balance [OF assms(1,2) r(2)] assms(3) [OF r(2)] r(1) by (simp add: unat_eq_0)
qed

lemma no_open: "sys_ok y \<Longrightarrow> i < length (ac_peers (sy_ledger y)) \<Longrightarrow> live_set (ac_peers (sy_ledger y) ! i) = [] \<Longrightarrow>
  open_ids i (sy_transactions y) = []"
  by (auto simp: sys_ok_def)

text \<open>A peer without unspent tokens may change its generation.\<close>

lemma sys_ok_switch:
  assumes y: "sys_ok y" and s': "acc_ok s'" and mv: "moved i q (sy_ledger y) s'"
    and none: "\<And>r. \<not> managed r \<Longrightarrow> pa_counters (ac_peers (sy_ledger y) ! i) r = 0" "live_set (ac_peers (sy_ledger y) ! i) = []"
    and q: "\<And>r. \<not> managed r \<Longrightarrow> pa_counters q r = 0" "live_set q = []"
  shows "sys_ok (y\<lparr>sy_ledger := s'\<rparr>)"
proof -
  have i: "i < length (ac_peers (sy_ledger y))" using mv by (simp add: moved_def)
  note un = no_unspent [OF y i none(1)] and op = no_open [OF y i none(2)]
  have "token_ok s' t" if "t \<in> set (sy_tokens y)" for t
  proof -
    have "token_ok (sy_ledger y) t" "tk_state t \<noteq> Tok_Released \<Longrightarrow> unat (tk_peer t) \<noteq> i"
      using y that un by (auto simp: sys_ok_def unspent_def filter_empty_conv)
    then show ?thesis using mv by (auto simp: token_ok_def moved_def)
  qed
  moreover have "transaction_ok s' t" if "t \<in> set (sy_transactions y)" for t
  proof -
    have "transaction_ok (sy_ledger y) t" "tt_active t \<Longrightarrow> unat (tt_peer t) \<noteq> i"
      using y that op by (auto simp: sys_ok_def open_ids_def filter_empty_conv)
    then show ?thesis using mv by (auto simp: transaction_ok_def moved_def)
  qed
  moreover have "(\<forall>r. \<not> managed r \<longrightarrow> unat (pa_counters (ac_peers s' ! j) r) = reserved j y r) \<and>
      mset (live_set (ac_peers s' ! j)) = mset (open_ids j (sy_transactions y))" if "j < length (ac_peers s')" for j
    using that mv q y un op by (cases "j = i") (simp_all add: moved_def reserved_def sys_ok_def)
  ultimately show ?thesis using s' by (simp add: sys_ok_def reserved_def)
qed

subsection \<open>The effect of each operation\<close>

lemma live_set_clear: "live_set (p\<lparr>pa_live_transactions := replicate n 0\<rparr>) = []"
  by (simp add: live_set_def)

lemma inactive_empty:
  assumes "peer_ok b p" and "\<not> pa_active p"
  shows "\<not> managed r \<Longrightarrow> pa_counters p r = 0" and "live_set p = []"
  using assms by (auto simp: peer_ok_def managed_def)

lemma begin_generation_effect:
  assumes "begin_generation peer g s = (Ok u, s')"
  obtains q where "moved (unat peer) q s s'" "\<not> pa_active (ac_peers s ! unat peer)"
    "\<And>r. \<not> managed r \<Longrightarrow> pa_counters q r = 0" "live_set q = []"
proof -
  let ?p = "ac_peers s ! unat peer"
  let ?q = "let p = clear_generation ?p in p\<lparr>pa_active := True, pa_generation := g,
      pa_counters := (pa_counters p)(LiveProcessGenerations := 1)\<rparr>"
  obtain v where "unat peer < length (ac_peers s)" "\<not> pa_active ?p"
      "s' = put_aggregate LiveProcessGenerations v (put_peer (unat peer) ?q s)"
    using assms by (auto simp: begin_generation_def res_simps peer_index_def split: if_splits)
  then show thesis by (intro that [of ?q]) (auto simp: Let_def clear_generation_def live_set_def managed_def)
qed

lemma retire_generation_effect:
  assumes "retire_generation peer g s = (Ok u, s')"
  obtains q where "moved (unat peer) q s s'" "pa_active (ac_peers s ! unat peer)" "live_set q = []"
    "\<And>r. \<not> managed r \<or> r = InFlightTransactions \<Longrightarrow> pa_counters (ac_peers s ! unat peer) r = 0 \<and> pa_counters q r = 0"
proof -
  obtain i p a where v: "validate_generation peer g s = Ok (i, p)" and out: "outstanding (pa_counters p) ALL_RESOURCES = None"
    and s': "s' = (put_peer i ((clear_generation p)\<lparr>pa_active := False\<rparr>) s)\<lparr>ac_aggregate := a\<rparr>"
    using assms by (auto simp: retire_generation_def res_simps Let_def split: if_splits option.splits)
  note i = validate_generation_Ok [OF v]
  have "pa_counters p r = 0" if "\<not> managed r \<or> r = InFlightTransactions" for r
    using outstanding_None [OF out set_ALL_RESOURCES, of r] that by (auto simp: managed_def generation_scoped_def)
  then show thesis using i s'
    by (intro that [of "(clear_generation p)\<lparr>pa_active := False\<rparr>"]) (auto simp: clear_generation_def live_set_def managed_def)
qed

text \<open>The history of a peer belongs to no token.\<close>

definition same_holdings :: "peer_accounting \<Rightarrow> peer_accounting \<Rightarrow> bool" where
  "same_holdings p q \<longleftrightarrow> same_run p q \<and> (\<forall>r. r \<noteq> RestartHistoryRecords \<longrightarrow> pa_counters q r = pa_counters p r) \<and>
     live_set q = live_set p"

lemma finish_episode_effect:
  assumes "finish_restart_episode peer s = (Ok u, s')"
  obtains q where "moved (unat peer) q s s'" "same_holdings (ac_peers s ! unat peer) q"
proof -
  let ?p = "ac_peers s ! unat peer"
  let ?q = "?p\<lparr>pa_counters := (pa_counters ?p)(RestartHistoryRecords := 0), pa_last_history_generation := 0\<rparr>"
  obtain v where "unat peer < length (ac_peers s)" "s' = put_aggregate RestartHistoryRecords v (put_peer (unat peer) ?q s)"
    using assms by (auto simp: finish_restart_episode_def res_simps peer_index_def Let_def split: if_splits)
  then show thesis by (intro that [of ?q]) (auto simp: same_holdings_def same_run_def same_generation_def live_set_def)
qed

lemma record_history_effect:
  assumes "record_restart_history peer g rec s = (Ok u, s')"
  obtains q where "moved (unat peer) q s s'" "same_holdings (ac_peers s ! unat peer) q"
proof -
  obtain i p n v c where vg: "validate_generation peer g s = Ok (i, p)"
    and s': "s' = put_aggregate RestartHistoryRecords v (put_peer i (p\<lparr>pa_counters := (pa_counters p)(RestartHistoryRecords := n),
      pa_last_history_generation := g, pa_terminal_generation := g, pa_terminal_cleanup_complete := c\<rparr>) s)"
      (is "_ = put_aggregate _ _ (put_peer i ?q s)")
    using assms by (auto simp: record_restart_history_def res_simps split: if_splits)
  from validate_generation_Ok [OF vg] s' show thesis
    by (intro that [of ?q]) (auto simp: same_holdings_def same_run_def same_generation_def live_set_def)
qed

lemma sys_ok_holdings:
  assumes y: "sys_ok y" and "acc_ok s'" and mv: "moved i q (sy_ledger y) s'" and h: "same_holdings (ac_peers (sy_ledger y) ! i) q"
  shows "sys_ok (y\<lparr>sy_ledger := s'\<rparr>)"
proof -
  have "sys_ok (y\<lparr>sy_ledger := s', sy_tokens := sy_tokens y, sy_transactions := sy_transactions y\<rparr>)"
    using y h mv by (intro sys_ok_move [OF y assms(2) mv]) (auto simp: same_holdings_def same_run_def sys_ok_def moved_def managed_def reserved_def)
  then show ?thesis by simp
qed

subsection \<open>Tokens that change\<close>

lemma filter_update_mset:
  assumes "k < length ts"
  shows "mset (filter P (ts[k := t])) + (if P (ts ! k) then {#ts ! k#} else {#}) =
    mset (filter P ts) + (if P t then {#t#} else {#})"
  using assms
proof (induction ts arbitrary: k)
  case (Cons a ts)
  show ?case
  proof (cases k)
    case (Suc n)
    with Cons.prems Cons.IH [of n] show ?thesis by (cases "P (ts ! n)"; cases "P t") auto
  qed auto
qed simp

lemma filter_update_same: "k < length ts \<Longrightarrow> \<not> P (ts ! k) \<Longrightarrow> \<not> P t \<Longrightarrow> filter P (ts[k := t]) = filter P ts"
proof (induction ts arbitrary: k)
  case (Cons a ts)
  then show ?case by (cases k) auto
qed simp

lemma sum_filter_update:
  fixes f :: "'a \<Rightarrow> nat"
  assumes "k < length ts"
  shows "sum_list (map f (filter P (ts[k := t]))) + (if P (ts ! k) then f (ts ! k) else 0) =
    sum_list (map f (filter P ts)) + (if P t then f t else 0)"
proof -
  have "sum_mset (image_mset f (mset (filter P (ts[k := t])) + (if P (ts ! k) then {#ts ! k#} else {#}))) =
      sum_mset (image_mset f (mset (filter P ts) + (if P t then {#t#} else {#})))"
    by (simp only: filter_update_mset [OF assms])
  then show ?thesis by (simp add: sum_mset_sum_list [symmetric] split: if_splits)
qed

lemma reserve_effect:
  assumes "reserve peer g request s = (Ok t, s')"
  obtains q where "moved (unat peer) q s s'" "same_run (ac_peers s ! unat peer) q" "live_set q = live_set (ac_peers s ! unat peer)"
    "\<And>r. unat (pa_counters q r) = unat (pa_counters (ac_peers s ! unat peer) r) + unat (tk_amounts t r)"
    "tk_peer t = peer" "tk_state t = Tok_Reserved" "token_ok s t"
proof -
  obtain i p n a where v: "validate_generation peer g s = Ok (i, p)" and ne: "\<not> request_is_empty request"
    and adm: "admit_all (ac_budgets s) (rr_amounts request) ALL_RESOURCES (pa_counters p, ac_aggregate s) = Ok (n, a)"
    and s': "s' = put_counters i p n a s"
    and t: "t = \<lparr>tk_controller_id = ac_controller_id s, tk_peer = peer, tk_generation = g,
      tk_amounts = rr_amounts request, tk_state = Tok_Reserved\<rparr>"
    using assms by (auto simp: reserve_def res_simps put_counters_def put_peer_def split: if_splits)
  note i = validate_generation_Ok [OF v]
  have "\<exists>r. rr_amounts request r \<noteq> 0" using ne by (auto simp: request_is_empty_def list_all_iff)
  then have "token_ok s t" using i admitted_all(3) [OF adm] t by (auto simp: token_ok_def)
  then show thesis using i s' t admitted_all(1) [OF adm]
    by (intro that [of "p\<lparr>pa_counters := n\<rparr>"]) (auto simp: same_run_def same_generation_def live_set_def)
qed

lemma release_effect:
  assumes "release t s = (Ok t', s')"
  obtains q where "moved (unat (tk_peer t)) q s s'" "same_run (ac_peers s ! unat (tk_peer t)) q"
    "live_set q = live_set (ac_peers s ! unat (tk_peer t))"
    "\<And>r. unat (pa_counters q r) + unat (tk_amounts t r) = unat (pa_counters (ac_peers s ! unat (tk_peer t)) r)"
    "tk_state t \<noteq> Tok_Released" "t' = t\<lparr>tk_state := Tok_Released\<rparr>"
proof -
  obtain i p n a where v: "validate_generation (tk_peer t) (tk_generation t) s = Ok (i, p)" and st: "tk_state t \<noteq> Tok_Released"
    and rel: "release_all (tk_amounts t) ALL_RESOURCES (pa_counters p, ac_aggregate s) = Ok (n, a)"
    and s': "s' = put_counters i p n a s" and t': "t' = t\<lparr>tk_state := Tok_Released\<rparr>"
    using assms by (auto simp: release_def res_simps split: if_splits)
  from validate_generation_Ok [OF v] s' t' st released_all(1) [OF rel] show thesis
    by (intro that [of "p\<lparr>pa_counters := n\<rparr>"]) (auto simp: same_run_def same_generation_def live_set_def)
qed

lemma publish_effect:
  assumes "publish_token t s = (Ok t', s')"
  shows "s' = s" and "tk_state t = Tok_Reserved" and "t' = t\<lparr>tk_state := Tok_Published\<rparr>"
  using assms by (auto simp: publish_token_def res_simps split: reservation_state.splits)

lemma begin_transaction_effect:
  assumes ok: "acc_ok s" and "begin_transaction peer g t s = (Ok x, s')"
  obtains q where "moved (unat peer) q s s'" "same_run (ac_peers s ! unat peer) q"
    "\<And>r. \<not> managed r \<Longrightarrow> pa_counters q r = pa_counters (ac_peers s ! unat peer) r"
    "mset (live_set q) = add_mset t (mset (live_set (ac_peers s ! unat peer)))"
    "x = \<lparr>tt_controller_id = ac_controller_id s, tt_peer = peer, tt_generation = g, tt_transaction_id = t, tt_active = True\<rparr>"
    "transaction_ok s x" "t \<notin> set (fifo_window (replay_capacity_of (ac_budgets s)) (ac_peers s ! unat peer))"
proof -
  obtain i p k n v where vg: "validate_generation peer g s = Ok (i, p)" and t: "t \<noteq> 0" "t \<notin> set (pa_live_transactions p)"
    and rc: "peer_replay_contains p t = Ok False" and k: "position (\<lambda>c. c = 0) (pa_live_transactions p) = Some k"
    and n: "checked_admit (pa_counters p InFlightTransactions) 1 (rb_per_peer (ac_budgets s InFlightTransactions))
      (AE_PerPeerLimit InFlightTransactions) = Ok n"
    and s': "s' = put_aggregate InFlightTransactions v (put_peer i (p\<lparr>pa_counters := (pa_counters p)(InFlightTransactions := n),
      pa_live_transactions := (pa_live_transactions p)[k := t]\<rparr>) s)" (is "_ = put_aggregate _ _ (put_peer i ?q s)")
    and x: "x = \<lparr>tt_controller_id = ac_controller_id s, tt_peer = peer, tt_generation = g, tt_transaction_id = t, tt_active = True\<rparr>"
    using assms(2) by (auto simp: begin_transaction_def res_simps put_aggregate_def put_peer_def split: if_splits option.splits)
  note i = validate_generation_Ok [OF vg]
  have pk: "peer_ok (ac_budgets s) p" using acc_peer [OF ok i(1)] i(2) by simp
  then have "mset (live_set ?q) = add_mset t (mset (live_set p))"
    using n by (intro live_counted_begin(2) [OF peer_ok_live k t]) (auto simp: checked_admit_Ok)
  moreover have "t \<notin> set (fifo_window (replay_capacity_of (ac_budgets s)) p)"
    using fifo_window_member [OF ok pk, of t] rc by simp
  ultimately show thesis using i s' x t(1)
    by (intro that [of ?q]) (auto simp: same_run_def same_generation_def managed_def transaction_ok_def)
qed

lemma validate_transaction_Ok:
  assumes "validate_transaction_token x s = Ok (i, p)"
  shows "tt_active x" and "validate_generation (tt_peer x) (tt_generation x) s = Ok (i, p)"
  using assms by (auto simp: validate_transaction_token_def split: if_splits)

text \<open>Aborting and completing take the transaction out of the live ones.\<close>

definition left_live :: "transaction_token \<Rightarrow> peer_accounting \<Rightarrow> accounting \<Rightarrow> accounting \<Rightarrow> bool" where
  "left_live x q s s' \<longleftrightarrow> moved (unat (tt_peer x)) q s s' \<and> same_generation (ac_peers s ! unat (tt_peer x)) q \<and>
     (\<forall>r. \<not> managed r \<longrightarrow> pa_counters q r = pa_counters (ac_peers s ! unat (tt_peer x)) r) \<and>
     add_mset (tt_transaction_id x) (mset (live_set q)) = mset (live_set (ac_peers s ! unat (tt_peer x))) \<and> tt_active x"

lemma abort_effect:
  assumes ok: "acc_ok s" and t: "tt_transaction_id x \<noteq> 0" and "abort_transaction x s = (Ok x', s')"
  shows "x' = x\<lparr>tt_active := False\<rparr>" and "\<exists>q. left_live x q s s' \<and> same_run (ac_peers s ! unat (tt_peer x)) q"
proof -
  obtain i p k m v where vt: "validate_transaction_token x s = Ok (i, p)"
    and k: "position (\<lambda>c. c = tt_transaction_id x) (pa_live_transactions p) = Some k"
    and m: "checked_sub_u64 (pa_counters p InFlightTransactions) 1 = Some m"
    and s': "s' = put_aggregate InFlightTransactions v (put_peer i (p\<lparr>pa_live_transactions := (pa_live_transactions p)[k := 0],
      pa_counters := (pa_counters p)(InFlightTransactions := m)\<rparr>) s)" (is "_ = put_aggregate _ _ (put_peer i ?q s)")
    and x': "x' = x\<lparr>tt_active := False\<rparr>"
    using assms(3) by (auto simp: abort_transaction_def res_simps)
  show "x' = x\<lparr>tt_active := False\<rparr>" by (fact x')
  note i = validate_generation_Ok [OF validate_transaction_Ok(2) [OF vt]]
  have "peer_ok (ac_budgets s) p" using acc_peer [OF ok i(1)] i(2) by simp
  from leave_live(4) [OF this k t m, of ?q] show "\<exists>q. left_live x q s s' \<and> same_run (ac_peers s ! unat (tt_peer x)) q"
    using i s' validate_transaction_Ok(1) [OF vt]
    by (intro exI [of _ ?q]) (auto simp: left_live_def same_run_def same_generation_def managed_def)
qed

lemma complete_effect:
  assumes ok: "acc_ok s" and t: "tt_transaction_id x \<noteq> 0" and "account_complete x s = (Ok x', s')"
  shows "x' = x\<lparr>tt_active := False\<rparr>" and "\<exists>q. left_live x q s s' \<and>
    fifo_window (replay_capacity_of (ac_budgets s)) q =
      fifo_window (replay_capacity_of (ac_budgets s))
        (fifo_pushed (replay_capacity_of (ac_budgets s)) (ac_peers s ! unat (tt_peer x)) (tt_transaction_id x))"
proof -
  let ?cap = "replay_capacity_of (ac_budgets s)" and ?t = "tt_transaction_id x"
  obtain i p k m n v a q where vt: "validate_transaction_token x s = Ok (i, p)"
    and k: "position (\<lambda>c. c = ?t) (pa_live_transactions p) = Some k"
    and m: "checked_sub_u64 (pa_counters p InFlightTransactions) 1 = Some m"
    and push: "fifo_push ?cap ?t (p\<lparr>pa_live_transactions := (pa_live_transactions p)[k := 0],
      pa_counters := (pa_counters p)(InFlightTransactions := m, CompletedReplayEntries := n)\<rparr>) = Ok q"
      (is "fifo_push _ _ ?p = Ok q")
    and s': "s' = put_aggregate CompletedReplayEntries a (put_aggregate InFlightTransactions v (put_peer i q s))"
    and x': "x' = x\<lparr>tt_active := False\<rparr>"
    using assms(3) by (auto simp: account_complete_def Let_def res_simps replay_capacity_of_def)
  show "x' = x\<lparr>tt_active := False\<rparr>" by (fact x')
  note i = validate_generation_Ok [OF validate_transaction_Ok(2) [OF vt]]
  have pk: "peer_ok (ac_budgets s) p" using acc_peer [OF ok i(1)] i(2) by simp
  note q = fifo_push_frame [OF push, simplified]
  have "add_mset ?t (mset (live_set q)) = mset (live_set p)"
    by (rule leave_live(4) [OF pk k t m]) (simp_all add: q)
  moreover have "fifo_window ?cap q = fifo_window ?cap (fifo_pushed ?cap p ?t)"
  proof -
    have cap: "0 < ?cap" "?cap \<le> MAX_REPLAY_ENTRIES_PER_PEER" using budgets_validD ok by (simp_all add: acc_ok_def)
    have w: "fifo_ok ?cap p" "fifo_ok ?cap ?p" "fifo_window ?cap ?p = fifo_window ?cap p"
      using peer_ok_fifo [OF pk] by (simp_all add: fifo_ok_def fifo_window_def)
    show ?thesis using fifo_pushed_ok(2) [OF w(1) cap, of ?t] fifo_pushed_ok(2) [OF w(2) cap, of ?t] push
      by (simp add: w(3) fifo_pushed_def)
  qed
  ultimately show "\<exists>q. left_live x q s s' \<and> fifo_window ?cap q =
      fifo_window ?cap (fifo_pushed ?cap (ac_peers s ! unat (tt_peer x)) ?t)"
    using i s' validate_transaction_Ok(1) [OF vt]
    by (intro exI [of _ q]) (auto simp: left_live_def same_generation_def managed_def q)
qed

end
