(* ===== verification/AccountingSteps.thy ===== *)
theory AccountingSteps
  imports AccountingTokens
begin

text \<open>
  Every call on the ledger keeps the balance between counters and tokens or is refused and changes
  nothing.
\<close>

subsection \<open>Every call keeps the balance\<close>

definition step_ok :: "system \<Rightarrow> (accounting_error, unit) res \<times> system \<Rightarrow> bool" where
  "step_ok y o' = (case o' of (Ok _, y') \<Rightarrow> sys_ok y' | (Err e, y') \<Rightarrow> y' = y | (Panic, _) \<Rightarrow> False)"

lemma on_ledger_ok:
  assumes "ledger_keeps op (sy_ledger y)"
    and "\<And>a s'. op (sy_ledger y) = (Ok a, s') \<Longrightarrow> acc_ok s' \<Longrightarrow> sys_ok (f a (y\<lparr>sy_ledger := s'\<rparr>))"
  shows "step_ok y (on_ledger op f y)"
proof (cases "op (sy_ledger y)")
  case (Pair r s')
  with assms show ?thesis by (cases r) (simp_all add: step_ok_def on_ledger_def wp_def)
qed

lemma sys_acc: "sys_ok y \<Longrightarrow> acc_ok (sy_ledger y)"
  by (simp add: sys_ok_def)

lemma sys_live:
  "sys_ok y \<Longrightarrow> i < length (ac_peers (sy_ledger y)) \<Longrightarrow>
    mset (live_set (ac_peers (sy_ledger y) ! i)) = mset (open_ids i (sy_transactions y))"
  by (simp add: sys_ok_def)

lemma begin_step: "sys_ok y \<Longrightarrow> step_ok y (ledger_step (CBegin peer g) y)"
  unfolding ledger_step.simps
proof (rule on_ledger_ok [OF begin_generation_keeps [OF sys_acc]])
  fix u s' assume y: "sys_ok y" and s': "begin_generation peer g (sy_ledger y) = (Ok u, s')" "acc_ok s'"
  obtain q where q: "moved (unat peer) q (sy_ledger y) s'" "\<not> pa_active (ac_peers (sy_ledger y) ! unat peer)"
      "\<And>r. \<not> managed r \<Longrightarrow> pa_counters q r = 0" "live_set q = []"
    using begin_generation_effect [OF s'(1)] by metis
  have "peer_ok (ac_budgets (sy_ledger y)) (ac_peers (sy_ledger y) ! unat peer)"
    using q(1) by (intro acc_peer [OF sys_acc [OF y]]) (simp add: moved_def)
  from inactive_empty [OF this q(2)] show "sys_ok (y\<lparr>sy_ledger := s'\<rparr>)"
    by (intro sys_ok_switch [OF y s'(2) q(1) _ _ q(3,4)]) simp_all
qed

lemma retire_step: "sys_ok y \<Longrightarrow> step_ok y (ledger_step (CRetire peer g) y)"
  unfolding ledger_step.simps
proof (rule on_ledger_ok [OF retire_generation_keeps [OF sys_acc]])
  fix u s' assume y: "sys_ok y" and s': "retire_generation peer g (sy_ledger y) = (Ok u, s')" "acc_ok s'"
  let ?p = "ac_peers (sy_ledger y) ! unat peer"
  obtain q where q: "moved (unat peer) q (sy_ledger y) s'" "live_set q = []"
      "\<And>r. \<not> managed r \<or> r = InFlightTransactions \<Longrightarrow> pa_counters ?p r = 0 \<and> pa_counters q r = 0"
    using retire_generation_effect [OF s'(1)] by metis
  have "peer_ok (ac_budgets (sy_ledger y)) ?p"
    using q(1) by (intro acc_peer [OF sys_acc [OF y]]) (simp add: moved_def)
  then have "live_set ?p = []" using q(3) [of InFlightTransactions] by (simp add: peer_ok_def)
  then show "sys_ok (y\<lparr>sy_ledger := s'\<rparr>)"
    using q(3) by (intro sys_ok_switch [OF y s'(2) q(1) _ _ _ q(2)]) simp_all
qed

lemma history_steps:
  assumes y: "sys_ok y"
  shows "step_ok y (ledger_step (CFinish peer) y)" and "step_ok y (ledger_step (CRecord peer g rec) y)"
proof -
  show "step_ok y (ledger_step (CFinish peer) y)" unfolding ledger_step.simps
    by (rule on_ledger_ok [OF finish_episode_keeps [OF sys_acc [OF y]]])
      (metis finish_episode_effect sys_ok_holdings [OF y])
  show "step_ok y (ledger_step (CRecord peer g rec) y)" unfolding ledger_step.simps
    by (rule on_ledger_ok [OF record_history_keeps [OF sys_acc [OF y]]])
      (metis record_history_effect sys_ok_holdings [OF y])
qed

lemma reserve_step_ok: "sys_ok y \<Longrightarrow> step_ok y (ledger_step (CReserve peer g request) y)"
  unfolding ledger_step.simps
proof (rule on_ledger_ok [OF reserve_keeps [OF sys_acc]])
  fix t s' assume y: "sys_ok y" and s': "reserve peer g request (sy_ledger y) = (Ok t, s')" "acc_ok s'"
  let ?p = "ac_peers (sy_ledger y) ! unat peer"
  obtain q where q: "moved (unat peer) q (sy_ledger y) s'" "same_run ?p q" "live_set q = live_set ?p"
      "\<And>r. unat (pa_counters q r) = unat (pa_counters ?p r) + unat (tk_amounts t r)"
      "tk_peer t = peer" "tk_state t = Tok_Reserved" "token_ok (sy_ledger y) t"
    using reserve_effect [OF s'(1)] by metis
  have i: "unat peer < length (ac_peers (sy_ledger y))" using q(1) by (simp add: moved_def)
  have "sys_ok (y\<lparr>sy_ledger := s', sy_tokens := sy_tokens y @ [t], sy_transactions := sy_transactions y\<rparr>)"
    using y q(2,3,5-7) sys_balance [OF y i] sys_live [OF y i]
    by (intro sys_ok_move [OF y s'(2) q(1)]) (auto simp: same_run_def sys_ok_def unspent_def q(4) reserved_def)
  then show "sys_ok ((y\<lparr>sy_ledger := s'\<rparr>)\<lparr>sy_tokens := sy_tokens (y\<lparr>sy_ledger := s'\<rparr>) @ [t]\<rparr>)" by simp
qed

text \<open>A token that is replaced by one for the same peer.\<close>

lemma unspent_update:
  assumes "k < length ts" and "tk_peer t = tk_peer (ts ! k)"
  shows "j \<noteq> unat (tk_peer (ts ! k)) \<Longrightarrow> unspent j (ts[k := t]) = unspent j ts"
    and "tk_state (ts ! k) \<noteq> Tok_Released \<Longrightarrow>
      sum_list (map f (unspent (unat (tk_peer (ts ! k))) (ts[k := t]))) + f (ts ! k) =
      sum_list (map f (unspent (unat (tk_peer (ts ! k))) ts)) + (if tk_state t \<noteq> Tok_Released then f t else (0 :: nat))"
proof -
  show "j \<noteq> unat (tk_peer (ts ! k)) \<Longrightarrow> unspent j (ts[k := t]) = unspent j ts"
    using assms by (simp add: unspent_def filter_update_same)
  let ?P = "\<lambda>t. tk_state t \<noteq> Tok_Released \<and> unat (tk_peer t) = unat (tk_peer (ts ! k))"
  from sum_filter_update [OF assms(1), of f ?P t] assms(2)
  show "tk_state (ts ! k) \<noteq> Tok_Released \<Longrightarrow>
      sum_list (map f (unspent (unat (tk_peer (ts ! k))) (ts[k := t]))) + f (ts ! k) =
      sum_list (map f (unspent (unat (tk_peer (ts ! k))) ts)) + (if tk_state t \<noteq> Tok_Released then f t else (0 :: nat))"
    by (simp add: unspent_def)
qed

lemma sys_token:
  assumes "sys_ok y" and "k < length (sy_tokens y)"
  shows "token_ok (sy_ledger y) (sy_tokens y ! k)" and "unat (tk_peer (sy_tokens y ! k)) < length (ac_peers (sy_ledger y))"
  using assms by (auto simp: sys_ok_def token_ok_def)

lemma sys_ok_token:
  fixes y k
  defines "t \<equiv> sy_tokens y ! k"
  defines "i \<equiv> unat (tk_peer t)"
  defines "p \<equiv> ac_peers (sy_ledger y) ! i"
  assumes y: "sys_ok y" and k: "k < length (sy_tokens y)" and s': "acc_ok s'" "moved i q (sy_ledger y) s'"
    and q: "same_run p q" "live_set q = live_set p" and st: "tk_state t \<noteq> Tok_Released"
    and c: "\<And>r. unat (pa_counters q r) + unat (tk_amounts t r) =
        unat (pa_counters p r) + (if st \<noteq> Tok_Released then unat (tk_amounts t r) else 0)"
  shows "sys_ok (set_token k (t\<lparr>tk_state := st\<rparr>) (y\<lparr>sy_ledger := s'\<rparr>))"
proof -
  let ?ts = "(sy_tokens y)[k := t\<lparr>tk_state := st\<rparr>]"
  note ok = sys_token [OF y k, folded t_def, folded i_def]
  have "sys_ok (y\<lparr>sy_ledger := s', sy_tokens := ?ts, sy_transactions := sy_transactions y\<rparr>)"
  proof (rule sys_ok_move [OF y s'])
    show "unat (pa_counters q r) = sum_list (map (\<lambda>t. unat (tk_amounts t r)) (unspent i ?ts))" if "\<not> managed r" for r
      using unspent_update(2) [OF k, of "t\<lparr>tk_state := st\<rparr>" "\<lambda>t. unat (tk_amounts t r)"] c [of r] st
        sys_balance [OF y ok(2) that] unfolding t_def i_def p_def reserved_def by (simp split: if_splits)
    show "token_ok (sy_ledger y) x" if "x \<in> set ?ts" for x
    proof -
      have "token_ok (sy_ledger y) (t\<lparr>tk_state := st\<rparr>)" using ok(1) st by (auto simp: token_ok_def)
      moreover have "x = t\<lparr>tk_state := st\<rparr> \<or> x \<in> set (sy_tokens y)"
        using that set_update_subset_insert [of "sy_tokens y" k "t\<lparr>tk_state := st\<rparr>"] by blast
      ultimately show ?thesis using y by (auto simp: sys_ok_def)
    qed
    show "unspent j ?ts = unspent j (sy_tokens y) \<and> open_ids j (sy_transactions y) = open_ids j (sy_transactions y)"
      if "j \<noteq> i" for j
      using unspent_update(1) [OF k, of "t\<lparr>tk_state := st\<rparr>" j] that by (simp add: t_def i_def)
    show "same_generation (ac_peers (sy_ledger y) ! i) q" using q(1) by (simp add: p_def same_run_def)
    show "mset (live_set q) = mset (open_ids i (sy_transactions y))" using q(2) sys_live [OF y ok(2)] by (simp add: p_def)
    show "transaction_ok (sy_ledger y) x" if "x \<in> set (sy_transactions y)" for x using y that by (simp add: sys_ok_def)
  qed
  then show ?thesis by (simp add: set_token_def)
qed

lemma release_step_ok:
  assumes y: "sys_ok y"
  shows "step_ok y (ledger_step (CRelease k) y)"
proof (cases "k < length (sy_tokens y)")
  case True
  have "ledger_keeps (release (sy_tokens y ! k)) (sy_ledger y)"
    using release_keeps [OF sys_acc [OF y]] sys_token(1) [OF y True] by (simp add: token_ok_def)
  then have "step_ok y (on_ledger (release (sy_tokens y ! k)) (set_token k) y)"
  proof (rule on_ledger_ok)
    fix t' s' assume s': "release (sy_tokens y ! k) (sy_ledger y) = (Ok t', s')" "acc_ok s'"
    show "sys_ok (set_token k t' (y\<lparr>sy_ledger := s'\<rparr>))"
      by (rule release_effect [OF s'(1)]) (simp add: sys_ok_token [OF y True s'(2)])
  qed
  then show ?thesis using True by simp
qed (use y in \<open>simp add: step_ok_def\<close>)

lemma moved_self: "i < length (ac_peers s) \<Longrightarrow> moved i (ac_peers s ! i) s s"
  by (simp add: moved_def)

lemma publish_step_ok:
  assumes y: "sys_ok y"
  shows "step_ok y (ledger_step (CPublish k) y)"
proof (cases "k < length (sy_tokens y)")
  case True
  have "step_ok y (on_ledger (publish_token (sy_tokens y ! k)) (set_token k) y)"
  proof (rule on_ledger_ok [OF publish_token_keeps [OF sys_acc [OF y]]])
    fix t' s' assume s': "publish_token (sy_tokens y ! k) (sy_ledger y) = (Ok t', s')" "acc_ok s'"
    note p = publish_effect [OF s'(1)]
    show "sys_ok (set_token k t' (y\<lparr>sy_ledger := s'\<rparr>))"
      unfolding p using p(2) sys_ok_token [OF y True sys_acc [OF y] moved_self [OF sys_token(2) [OF y True]], of Tok_Published]
      by (simp add: same_run_def same_generation_def)
  qed
  then show ?thesis using True by simp
qed (use y in \<open>simp add: step_ok_def\<close>)

text \<open>Transactions.\<close>

lemma begin_transaction_step_ok: "sys_ok y \<Longrightarrow> step_ok y (ledger_step (CBeginTx peer g t) y)"
  unfolding ledger_step.simps
proof (rule on_ledger_ok [OF begin_transaction_keeps [OF sys_acc]])
  fix x s' assume y: "sys_ok y" and s': "begin_transaction peer g t (sy_ledger y) = (Ok x, s')" "acc_ok s'"
  let ?p = "ac_peers (sy_ledger y) ! unat peer"
  obtain q where q: "moved (unat peer) q (sy_ledger y) s'" "same_run ?p q"
      "\<And>r. \<not> managed r \<Longrightarrow> pa_counters q r = pa_counters ?p r" "mset (live_set q) = add_mset t (mset (live_set ?p))"
      "x = \<lparr>tt_controller_id = ac_controller_id (sy_ledger y), tt_peer = peer, tt_generation = g, tt_transaction_id = t, tt_active = True\<rparr>"
      "transaction_ok (sy_ledger y) x"
    using begin_transaction_effect [OF sys_acc [OF y] s'(1)] by metis
  have i: "unat peer < length (ac_peers (sy_ledger y))" using q(1) by (simp add: moved_def)
  have "open_ids j (sy_transactions y @ [x]) = open_ids j (sy_transactions y) @ (if j = unat peer then [t] else [])" for j
    by (simp add: open_ids_def q(5))
  then have "sys_ok (y\<lparr>sy_ledger := s', sy_tokens := sy_tokens y, sy_transactions := sy_transactions y @ [x]\<rparr>)"
    using y q(2-4,6) sys_balance [OF y i] sys_live [OF y i]
    by (intro sys_ok_move [OF y s'(2) q(1)]) (auto simp: same_run_def sys_ok_def reserved_def)
  then show "sys_ok ((y\<lparr>sy_ledger := s'\<rparr>)\<lparr>sy_transactions := sy_transactions (y\<lparr>sy_ledger := s'\<rparr>) @ [x]\<rparr>)" by simp
qed

lemma sys_transaction:
  assumes "sys_ok y" and "k < length (sy_transactions y)"
  shows "transaction_ok (sy_ledger y) (sy_transactions y ! k)"
    and "unat (tt_peer (sy_transactions y ! k)) < length (ac_peers (sy_ledger y))" "tt_transaction_id (sy_transactions y ! k) \<noteq> 0"
  using assms by (auto simp: sys_ok_def transaction_ok_def)

lemma open_ids_close:
  assumes "k < length xs" and "tt_active (xs ! k)"
  shows "j \<noteq> unat (tt_peer (xs ! k)) \<Longrightarrow> open_ids j (xs[k := (xs ! k)\<lparr>tt_active := False\<rparr>]) = open_ids j xs"
    and "add_mset (tt_transaction_id (xs ! k)) (mset (open_ids (unat (tt_peer (xs ! k))) (xs[k := (xs ! k)\<lparr>tt_active := False\<rparr>]))) =
      mset (open_ids (unat (tt_peer (xs ! k))) xs)"
proof -
  let ?x = "(xs ! k)\<lparr>tt_active := False\<rparr>"
  show "j \<noteq> unat (tt_peer (xs ! k)) \<Longrightarrow> open_ids j (xs[k := ?x]) = open_ids j xs"
    using assms by (simp add: open_ids_def filter_update_same)
  let ?P = "\<lambda>t. tt_active t \<and> unat (tt_peer t) = unat (tt_peer (xs ! k))"
  from filter_update_mset [OF assms(1), of ?P ?x] assms(2)
  have "add_mset (xs ! k) (mset (filter ?P (xs[k := ?x]))) = mset (filter ?P xs)" by simp
  then have "image_mset tt_transaction_id (add_mset (xs ! k) (mset (filter ?P (xs[k := ?x])))) =
      image_mset tt_transaction_id (mset (filter ?P xs))" by (rule arg_cong)
  then show "add_mset (tt_transaction_id (xs ! k)) (mset (open_ids (unat (tt_peer (xs ! k))) (xs[k := ?x]))) =
      mset (open_ids (unat (tt_peer (xs ! k))) xs)" by (simp add: open_ids_def)
qed

lemma sys_ok_close:
  fixes y k
  defines "x \<equiv> sy_transactions y ! k"
  assumes y: "sys_ok y" and k: "k < length (sy_transactions y)" and s': "acc_ok s'" and l: "left_live x q (sy_ledger y) s'"
  shows "sys_ok (set_transaction k (x\<lparr>tt_active := False\<rparr>) (y\<lparr>sy_ledger := s'\<rparr>))"
proof -
  let ?i = "unat (tt_peer x)" and ?xs = "(sy_transactions y)[k := x\<lparr>tt_active := False\<rparr>]"
  have mv: "moved ?i q (sy_ledger y) s'" and i: "?i < length (ac_peers (sy_ledger y))" and act: "tt_active x"
    using l by (auto simp: left_live_def moved_def)
  note close = open_ids_close [OF k, folded x_def, OF act]
  have "sys_ok (y\<lparr>sy_ledger := s', sy_tokens := sy_tokens y, sy_transactions := ?xs\<rparr>)"
  proof (rule sys_ok_move [OF y s' mv])
    show "same_generation (ac_peers (sy_ledger y) ! ?i) q" using l by (simp add: left_live_def)
    show "token_ok (sy_ledger y) t" if "t \<in> set (sy_tokens y)" for t using y that by (simp add: sys_ok_def)
    show "transaction_ok (sy_ledger y) t" if "t \<in> set ?xs" for t
    proof -
      have "transaction_ok (sy_ledger y) (x\<lparr>tt_active := False\<rparr>)"
        using sys_transaction(1) [OF y k] by (simp add: transaction_ok_def x_def)
      moreover have "t = x\<lparr>tt_active := False\<rparr> \<or> t \<in> set (sy_transactions y)"
        using that set_update_subset_insert [of "sy_transactions y" k "x\<lparr>tt_active := False\<rparr>"] by blast
      ultimately show ?thesis using y by (auto simp: sys_ok_def)
    qed
    show "unspent j (sy_tokens y) = unspent j (sy_tokens y) \<and> open_ids j ?xs = open_ids j (sy_transactions y)" if "j \<noteq> ?i" for j
      using close(1) [OF that] by simp
    show "unat (pa_counters q r) = sum_list (map (\<lambda>t. unat (tk_amounts t r)) (unspent ?i (sy_tokens y)))" if "\<not> managed r" for r
      using l that sys_balance [OF y i that] by (simp add: left_live_def reserved_def)
    have "add_mset (tt_transaction_id x) (mset (live_set q)) = add_mset (tt_transaction_id x) (mset (open_ids ?i ?xs))"
      using l sys_live [OF y i] close(2) by (simp add: left_live_def)
    then show "mset (live_set q) = mset (open_ids ?i ?xs)" by simp
  qed
  then show ?thesis by (simp add: set_transaction_def)
qed

lemma close_steps:
  assumes y: "sys_ok y"
  shows "step_ok y (ledger_step (CAbort k) y)" and "step_ok y (ledger_step (CComplete k) y)"
proof -
  let ?x = "sy_transactions y ! k"
  have none: "step_ok y (Ok (), y)" using y by (simp add: step_ok_def)
  note acc = sys_acc [OF y] and id = sys_transaction(3) [OF y] and close = sys_ok_close [OF y]
  show "step_ok y (ledger_step (CAbort k) y)"
  proof (cases "k < length (sy_transactions y)")
    case True
    have "step_ok y (on_ledger (abort_transaction ?x) (set_transaction k) y)"
    proof (rule on_ledger_ok [OF abort_keeps [OF acc id [OF True]]])
      fix x' s' assume s': "abort_transaction ?x (sy_ledger y) = (Ok x', s')" "acc_ok s'"
      from abort_effect [OF acc id [OF True] s'(1)] close [OF True s'(2)]
      show "sys_ok (set_transaction k x' (y\<lparr>sy_ledger := s'\<rparr>))" by auto
    qed
    then show ?thesis using True by simp
  qed (simp add: none)
  show "step_ok y (ledger_step (CComplete k) y)"
  proof (cases "k < length (sy_transactions y)")
    case True
    have "step_ok y (on_ledger (account_complete ?x) (set_transaction k) y)"
    proof (rule on_ledger_ok [OF complete_keeps [OF acc id [OF True]]])
      fix x' s' assume s': "account_complete ?x (sy_ledger y) = (Ok x', s')" "acc_ok s'"
      from complete_effect [OF acc id [OF True] s'(1)] close [OF True s'(2)]
      show "sys_ok (set_transaction k x' (y\<lparr>sy_ledger := s'\<rparr>))" by auto
    qed
    then show ?thesis using True by simp
  qed (simp add: none)
qed

lemma ledger_step_ok: "sys_ok y \<Longrightarrow> step_ok y (ledger_step c y)"
  by (cases c) (simp_all only: begin_step retire_step history_steps reserve_step_ok publish_step_ok release_step_ok
      begin_transaction_step_ok close_steps)

end
