(* ===== verification/AccountingProps.thy ===== *)
theory AccountingProps
  imports AccountingSteps "HOL-Library.Code_Target_Nat"
begin

text \<open>
  The theorems about the resource ledger, for every ledger and every set of tokens that a sequence of
  calls can reach.
\<close>

inductive accounted :: "system \<Rightarrow> bool" where
  start: "with_budgets budgets n = (Ok s, n') \<Longrightarrow> accounted \<lparr>sy_ledger = s, sy_tokens = [], sy_transactions = []\<rparr>"
| call: "accounted y \<Longrightarrow> accounted (snd (ledger_step c y))"

lemma start_ok:
  assumes "with_budgets budgets n = (Ok s, n')"
  shows "sys_ok \<lparr>sy_ledger = s, sy_tokens = [], sy_transactions = []\<rparr>"
proof -
  have "ac_peers s = replicate MAX_ACCOUNTED_PEERS peer_accounting_new"
    using assms by (auto simp: with_budgets_def allocate_controller_id_def split: if_splits option.splits)
  then show ?thesis using new_ok [OF assms]
    by (auto simp: sys_ok_def reserved_def unspent_def open_ids_def peer_accounting_new_def live_set_def)
qed

lemma step_ok_snd: "sys_ok y \<Longrightarrow> step_ok y x \<Longrightarrow> sys_ok (snd x)"
  by (auto simp: step_ok_def split: prod.splits res.splits)

lemma accounted_ok: "accounted y \<Longrightarrow> sys_ok y"
proof (induction rule: accounted.induct)
  case (start budgets n s n')
  then show ?case by (rule start_ok)
next
  case (call y c)
  from step_ok_snd [OF call.IH ledger_step_ok [OF call.IH]] show ?case .
qed

subsection \<open>A sample ledger\<close>

definition sample_request :: reservation_request where
  "sample_request = \<lparr>rr_amounts = (\<lambda>_. 0)(MappedBytes := 4096)\<rparr>"

definition sample_calls :: "ledger_call list" where
  "sample_calls = [CBegin 0 7, CReserve 0 7 sample_request, CBeginTx 0 7 41]"

definition empty_ledger :: accounting where
  "empty_ledger = \<lparr>ac_controller_id = 1, ac_budgets = WYR0_I_RESOURCE_BUDGETS,
     ac_peers = replicate MAX_ACCOUNTED_PEERS peer_accounting_new, ac_aggregate = (\<lambda>_. 0)\<rparr>"

definition sample_system :: system where
  "sample_system = fold (\<lambda>c y. snd (ledger_step c y)) sample_calls
     \<lparr>sy_ledger = empty_ledger, sy_tokens = [], sy_transactions = []\<rparr>"

lemma wyr_budgets_valid: "budgets_valid WYR0_I_RESOURCE_BUDGETS"
  by code_simp

lemma accounted_fold: "accounted y \<Longrightarrow> accounted (fold (\<lambda>c y. snd (ledger_step c y)) cs y)"
  by (induction cs arbitrary: y) (simp_all add: accounted.call)

lemma sample_accounted: "accounted sample_system"
proof -
  have "with_budgets WYR0_I_RESOURCE_BUDGETS 1 = (Ok empty_ledger, 2)"
    by (simp add: with_budgets_def wyr_budgets_valid allocate_controller_id_def empty_ledger_def checked_add_u64_def)
  from accounted_fold [OF accounted.start [OF this]] show ?thesis by (simp add: sample_system_def)
qed

definition token_view :: "system \<Rightarrow> (reservation_state \<times> byte \<times> u64) list \<times> (byte \<times> u64 \<times> u64) list \<times> u64 list" where
  "token_view y = (map (\<lambda>t. (tk_state t, tk_peer t, tk_amounts t MappedBytes)) (sy_tokens y),
     map (\<lambda>x. (tt_peer x, tt_generation x, tt_transaction_id x)) (sy_transactions y),
     map (\<lambda>p. pa_counters p MappedBytes) (ac_peers (sy_ledger y)))"

lemma sample_view: "token_view sample_system = ([(Tok_Reserved, 0, 4096)], [(0, 7, 41)], [4096, 0, 0, 0])"
  by code_simp

lemma sample_token:
  obtains t where "sy_tokens sample_system = [t]" "tk_state t = Tok_Reserved" "tk_peer t = 0" "tk_amounts t MappedBytes = 4096"
  using sample_view by (auto simp: token_view_def)

lemma sample_transaction:
  obtains x where "sy_transactions sample_system = [x]" "tt_peer x = 0" "tt_generation x = 7" "tt_transaction_id x = 41"
  using sample_view by (auto simp: token_view_def)

lemma sample_counter: "pa_counters (ac_peers (sy_ledger sample_system) ! 0) MappedBytes = 4096"
proof -
  have "map (\<lambda>p. pa_counters p MappedBytes) (ac_peers (sy_ledger sample_system)) = [4096, 0, 0, 0]"
    using sample_view by (simp add: token_view_def)
  then show ?thesis by (auto simp: map_eq_Cons_conv)
qed

subsection \<open>The balance\<close>

text \<open>C23. The books balance, whatever calls were made in whatever order: no call panics, the aggregate of
  every resource is the sum over the peers and within its budget, every peer is within its own budget,
  and what a peer holds of a reservable resource is exactly the sum over its unspent tokens.\<close>

theorem ledger_balanced:
  assumes "accounted y" and "i < MAX_ACCOUNTED_PEERS"
  shows "fst (ledger_step c y) \<noteq> Panic \<and>
    unat (ac_aggregate (sy_ledger y) r) = (\<Sum>p\<leftarrow>ac_peers (sy_ledger y). unat (pa_counters p r)) \<and>
    ac_aggregate (sy_ledger y) r \<le> rb_aggregate (ac_budgets (sy_ledger y) r) \<and>
    pa_counters (ac_peers (sy_ledger y) ! i) r \<le> rb_per_peer (ac_budgets (sy_ledger y) r) \<and>
    (\<not> managed r \<longrightarrow> unat (pa_counters (ac_peers (sy_ledger y) ! i) r) =
      (\<Sum>t\<leftarrow>filter (\<lambda>t. tk_state t \<noteq> Tok_Released \<and> unat (tk_peer t) = i) (sy_tokens y). unat (tk_amounts t r)))"
proof -
  have y: "sys_ok y" by (rule accounted_ok [OF assms(1)])
  have s: "acc_ok (sy_ledger y)" by (rule sys_acc [OF y])
  have i: "i < length (ac_peers (sy_ledger y))" using s assms(2) by (simp add: acc_ok_def)
  have "fst (ledger_step c y) \<noteq> Panic" using ledger_step_ok [OF y, of c] by (auto simp: step_ok_def split: prod.splits)
  then show ?thesis using s sys_balance [OF y i, of r] acc_peer [OF s i]
    by (simp add: acc_ok_def held_def peer_ok_def reserved_def unspent_def)
qed

theorem ledger_balanced_witness:
  "fst (ledger_step (CAbort 0) sample_system) \<noteq> Panic \<and>
   ac_aggregate (sy_ledger sample_system) MappedBytes \<le> rb_aggregate (ac_budgets (sy_ledger sample_system) MappedBytes)"
  using ledger_balanced [OF sample_accounted, of 0 "CAbort 0" MappedBytes] by (simp add: MAX_ACCOUNTED_PEERS_def)

subsection \<open>Refusals\<close>

text \<open>C26. A call that is refused, for whatever reason, leaves the ledger and every token as they were: there
  is no partial reservation, release or completion.\<close>

theorem refused_call_unchanged:
  assumes "accounted y" and "ledger_step c y = (Err e, y')"
  shows "y' = y"
  using ledger_step_ok [OF accounted_ok [OF assms(1)], of c] assms(2) by (simp add: step_ok_def)

theorem refused_call_unchanged_witness:
  "\<exists>e. ledger_step (CBegin 9 1) sample_system = (Err e, sample_system)"
proof -
  have "ledger_step (CBegin 9 1) sample_system = (Err AE_InvalidPeer, snd (ledger_step (CBegin 9 1) sample_system))"
    by (simp add: on_ledger_def begin_generation_def peer_index_def action_defs MAX_ACCOUNTED_PEERS_def)
  with refused_call_unchanged [OF sample_accounted this] show ?thesis by metis
qed

subsection \<open>Releasing\<close>

lemma member_le_reserved:
  assumes y: "sys_ok y" and k: "k < length (sy_tokens y)" and st: "tk_state (sy_tokens y ! k) \<noteq> Tok_Released"
  shows "unat (tk_amounts (sy_tokens y ! k) r) \<le> unat (pa_counters (ac_peers (sy_ledger y) ! unat (tk_peer (sy_tokens y ! k))) r)"
proof (cases "managed r")
  case True
  then show ?thesis using sys_token(1) [OF y k] by (simp add: token_ok_def)
next
  case False
  have "sy_tokens y ! k \<in> set (unspent (unat (tk_peer (sy_tokens y ! k))) (sy_tokens y))" using k st by (simp add: unspent_def)
  then have "unat (tk_amounts (sy_tokens y ! k) r) \<le> reserved (unat (tk_peer (sy_tokens y ! k))) y r"
    unfolding reserved_def by (intro member_le_sum_list) simp_all
  then show ?thesis using sys_balance [OF y sys_token(2) [OF y k] False] by simp
qed

lemma counter_le_aggregate:
  assumes "acc_ok s" and "i < length (ac_peers s)"
  shows "unat (pa_counters (ac_peers s ! i) r) \<le> unat (ac_aggregate s r)"
proof -
  have "unat (pa_counters (ac_peers s ! i) r) \<le> held s r"
    unfolding held_def using assms(2) by (intro member_le_sum_list) auto
  then show ?thesis using assms(1) by (simp add: acc_ok_def)
qed

lemma release_possible:
  assumes y: "sys_ok y" and k: "k < length (sy_tokens y)" and st: "tk_state (sy_tokens y ! k) \<noteq> Tok_Released"
  shows "\<exists>t' s'. release (sy_tokens y ! k) (sy_ledger y) = (Ok t', s')"
proof -
  let ?t = "sy_tokens y ! k" and ?s = "sy_ledger y"
  let ?i = "unat (tk_peer ?t)"
  let ?p = "ac_peers ?s ! ?i"
  have i: "?i < length (ac_peers ?s)" and tok: "token_ok ?s ?t" using sys_token [OF y k] by simp_all
  have len: "length (ac_peers ?s) = MAX_ACCOUNTED_PEERS" using sys_acc [OF y] by (simp add: acc_ok_def)
  have v: "validate_generation (tk_peer ?t) (tk_generation ?t) ?s = Ok (?i, ?p)"
    using i tok st len by (auto simp: validate_generation_def peer_index_def token_ok_def index_r_def)
  then have vt: "validate_reservation_token ?t ?s = Ok ()"
    using tok st by (simp add: validate_reservation_token_def token_ok_def)
  have "unat (tk_amounts ?t r) \<le> unat (pa_counters ?p r)" "unat (tk_amounts ?t r) \<le> unat (ac_aggregate ?s r)" for r
    using member_le_reserved [OF y k st, of r] counter_le_aggregate [OF sys_acc [OF y] i, of r] by linarith+
  then have "\<exists>cs. release_all (tk_amounts ?t) ALL_RESOURCES (pa_counters ?p, ac_aggregate ?s) = Ok cs"
    by (intro release_all_possible distinct_ALL_RESOURCES) simp
  then obtain n a where "release_all (tk_amounts ?t) ALL_RESOURCES (pa_counters ?p, ac_aggregate ?s) = Ok (n, a)"
    by fastforce
  then show ?thesis using v vt st by (simp add: release_def action_defs)
qed

text \<open>C24. Every reservation can be given back: a token that was not released yet belongs to the current
  generation of its peer, its release succeeds and returns exactly what it holds to the peer, no
  other peer changes, and a second release is refused.\<close>

theorem unspent_token_released:
  assumes "accounted y" and "k < length (sy_tokens y)" and "tk_state (sy_tokens y ! k) \<noteq> Tok_Released"
  shows "\<exists>y'. ledger_step (CRelease k) y = (Ok (), y') \<and>
    (\<forall>r. unat (pa_counters (ac_peers (sy_ledger y') ! unat (tk_peer (sy_tokens y ! k))) r) + unat (tk_amounts (sy_tokens y ! k) r) =
       unat (pa_counters (ac_peers (sy_ledger y) ! unat (tk_peer (sy_tokens y ! k))) r)) \<and>
    (\<forall>i. i \<noteq> unat (tk_peer (sy_tokens y ! k)) \<longrightarrow> ac_peers (sy_ledger y') ! i = ac_peers (sy_ledger y) ! i) \<and>
    ledger_step (CRelease k) y' = (Err AE_TokenAlreadyReleased, y')"
proof -
  have y: "sys_ok y" by (rule accounted_ok [OF assms(1)])
  let ?t = "sy_tokens y ! k"
  obtain t' s' where rel: "release ?t (sy_ledger y) = (Ok t', s')" using release_possible [OF y assms(2,3)] by blast
  let ?y' = "set_token k t' (y\<lparr>sy_ledger := s'\<rparr>)"
  have step: "ledger_step (CRelease k) y = (Ok (), ?y')" using rel assms(2) by (simp add: on_ledger_def)
  obtain q where q: "moved (unat (tk_peer ?t)) q (sy_ledger y) s'" "t' = ?t\<lparr>tk_state := Tok_Released\<rparr>"
      "\<And>r. unat (pa_counters q r) + unat (tk_amounts ?t r) = unat (pa_counters (ac_peers (sy_ledger y) ! unat (tk_peer ?t)) r)"
    using release_effect [OF rel] by metis
  have "release t' s' = (Err AE_TokenAlreadyReleased, s')"
    using sys_token(1) [OF y assms(2)] q(1,2)
    by (simp add: release_def action_defs validate_reservation_token_def token_ok_def moved_def)
  then have "ledger_step (CRelease k) ?y' = (Err AE_TokenAlreadyReleased, ?y')"
    using assms(2) by (simp add: set_token_def on_ledger_def)
  then show ?thesis using step q by (intro exI [of _ ?y']) (auto simp: moved_def set_token_def)
qed

theorem unspent_token_released_witness:
  "\<exists>y'. ledger_step (CRelease 0) sample_system = (Ok (), y') \<and>
     unat (pa_counters (ac_peers (sy_ledger y') ! 0) MappedBytes) = 0"
proof -
  obtain t where t: "sy_tokens sample_system = [t]" "tk_state t = Tok_Reserved" "tk_peer t = 0" "tk_amounts t MappedBytes = 4096"
    by (rule sample_token)
  obtain y' where y': "ledger_step (CRelease 0) sample_system = (Ok (), y')"
      "\<And>r. unat (pa_counters (ac_peers (sy_ledger y') ! 0) r) + unat (tk_amounts t r) =
        unat (pa_counters (ac_peers (sy_ledger sample_system) ! 0) r)"
    using unspent_token_released [OF sample_accounted, of 0] t by (auto simp del: ledger_step.simps)
  from y'(2) [of MappedBytes] y'(1) show ?thesis using t(4) sample_counter by auto
qed

end
