(* ===== verification/AccountingReplay.thy ===== *)
theory AccountingReplay
  imports AccountingProps
begin

text \<open>
  A completed transaction is refused as a replay until the peer has completed as many others as its
  budget has replay entries, whatever else is called in between, while its generation is not retired.
\<close>

subsection \<open>The calls that count\<close>

text \<open>A call completes a transaction of a peer, or retires its generation, when its result \<open>r\<close> accepts it.\<close>

definition completes :: "byte \<Rightarrow> ledger_call \<Rightarrow> (accounting_error, unit) res \<Rightarrow> system \<Rightarrow> bool" where
  "completes peer c r y \<longleftrightarrow> r = Ok () \<and>
     (case c of CComplete k \<Rightarrow> k < length (sy_transactions y) \<and> tt_peer (sy_transactions y ! k) = peer | _ \<Rightarrow> False)"

definition retires :: "byte \<Rightarrow> ledger_call \<Rightarrow> (accounting_error, unit) res \<Rightarrow> bool" where
  "retires peer c r \<longleftrightarrow> r = Ok () \<and> (case c of CRetire peer' _ \<Rightarrow> peer' = peer | _ \<Rightarrow> False)"

primrec completions :: "byte \<Rightarrow> ledger_call list \<Rightarrow> system \<Rightarrow> nat" where
  "completions peer [] y = 0"
| "completions peer (c # cs) y =
     (case ledger_step c y of (r, y') \<Rightarrow> (if completes peer c r y then 1 else 0) + completions peer cs y')"

primrec retired_in :: "byte \<Rightarrow> ledger_call list \<Rightarrow> system \<Rightarrow> bool" where
  "retired_in peer [] y = False"
| "retired_in peer (c # cs) y = (case ledger_step c y of (r, y') \<Rightarrow> retires peer c r \<or> retired_in peer cs y')"

subsection \<open>What a peer remembers\<close>

text \<open>Peer \<open>i\<close> in generation \<open>g\<close> has completed \<open>t\<close>, and fewer than \<open>n\<close> others since.\<close>

definition remembers :: "nat \<Rightarrow> u64 \<Rightarrow> u64 \<Rightarrow> nat \<Rightarrow> nat \<Rightarrow> accounting \<Rightarrow> bool" where
  "remembers i g t cap n s \<longleftrightarrow> i < length (ac_peers s) \<and> replay_capacity_of (ac_budgets s) = cap \<and>
     pa_active (ac_peers s ! i) \<and> pa_generation (ac_peers s ! i) = g \<and>
     t \<notin> set (live_set (ac_peers s ! i)) \<and> recalls n t (fifo_window cap (ac_peers s ! i))"

lemma remembers_move:
  assumes "remembers i g t cap n s" and "moved j q s s'" and "n \<le> m"
    and "j = i \<Longrightarrow> same_generation (ac_peers s ! i) q \<and> t \<notin> set (live_set q) \<and> recalls m t (fifo_window cap q)"
  shows "remembers i g t cap m s'"
  using assms recalls_mono [of n t _ m] by (cases "j = i") (auto simp: remembers_def moved_def same_generation_def)

lemma remembers_kept:
  assumes "remembers i g t cap n s" and "moved j q s s'" and "same_run (ac_peers s ! j) q"
    and "set (live_set q) \<subseteq> set (live_set (ac_peers s ! j))"
  shows "remembers i g t cap n s'"
  using assms same_run_window [OF assms(3), of cap]
  by (intro remembers_move [OF assms(1,2) order_refl]) (auto simp: remembers_def same_run_def)

lemma left_live_subset: "left_live x q s s' \<Longrightarrow> set (live_set q) \<subseteq> set (live_set (ac_peers s ! unat (tt_peer x)))"
  by (metis left_live_def set_mset_add_mset_insert set_mset_mset subset_insertI)

lemma acc_window_laws:
  assumes "acc_ok s"
  shows "replay_window (replay_capacity_of (ac_budgets s)) (fifo_ok (replay_capacity_of (ac_budgets s))) peer_accounting_new
    fifo_contains (fifo_pushed (replay_capacity_of (ac_budgets s))) (fifo_window (replay_capacity_of (ac_budgets s)))"
  using budgets_validD assms by (intro fifo_window_laws) (simp_all add: acc_ok_def)

lemma acc_fifo: "acc_ok s \<Longrightarrow> i < length (ac_peers s) \<Longrightarrow> fifo_ok (replay_capacity_of (ac_budgets s)) (ac_peers s ! i)"
  by (rule peer_ok_fifo [OF acc_peer])

lemma complete_remembers:
  assumes ok: "acc_ok s" and x: "tt_transaction_id x \<noteq> 0" and s': "account_complete x s = (Ok x', s')"
    and r: "remembers i g t cap n s" and n: "unat (tt_peer x) = i \<Longrightarrow> n < cap"
  shows "remembers i g t cap (if unat (tt_peer x) = i then Suc n else n) s'"
proof -
  let ?cap = "replay_capacity_of (ac_budgets s)" and ?j = "unat (tt_peer x)"
  obtain q where q: "left_live x q s s'"
      "fifo_window ?cap q = fifo_window ?cap (fifo_pushed ?cap (ac_peers s ! ?j) (tt_transaction_id x))"
    using complete_effect(2) [OF ok x s'] by blast
  have cap: "?cap = cap" using r by (simp add: remembers_def)
  have "recalls (Suc n) t (fifo_window cap q)" if "?j = i"
    using replay_window.recalls_push [OF acc_window_laws [OF ok] acc_fifo [OF ok], of i n t "tt_transaction_id x"] r n q(2) that
    by (simp add: remembers_def)
  then show ?thesis using q(1) left_live_subset [OF q(1)] r
    by (intro remembers_move [OF r, of ?j q]) (auto simp: left_live_def remembers_def)
qed

lemma complete_begins_memory:
  assumes ok: "acc_ok s" and x: "tt_transaction_id x \<noteq> 0" and s': "account_complete x s = (Ok x', s')"
  shows "remembers (unat (tt_peer x)) (pa_generation (ac_peers s ! unat (tt_peer x))) (tt_transaction_id x)
    (replay_capacity_of (ac_budgets s)) 1 s'"
proof -
  let ?cap = "replay_capacity_of (ac_budgets s)" and ?j = "unat (tt_peer x)" and ?t = "tt_transaction_id x"
  obtain q where q: "left_live x q s s'" "fifo_window ?cap q = fifo_window ?cap (fifo_pushed ?cap (ac_peers s ! ?j) ?t)"
    using complete_effect(2) [OF ok x s'] by blast
  have j: "?j < length (ac_peers s)" using q(1) by (simp add: left_live_def moved_def)
  have act: "pa_active (ac_peers s ! ?j)"
  proof -
    obtain p where "validate_transaction_token x s = Ok p" using s' by (auto simp: account_complete_def res_simps)
    then show ?thesis using validate_transaction_Ok(2) [of x s] validate_generation_Ok by (metis surj_pair)
  qed
  have "recalls 1 ?t (fifo_window ?cap q)"
    using replay_window.recalls_pushed [OF acc_window_laws [OF ok] acc_fifo [OF ok j], of ?t] q(2) by simp
  moreover have "?t \<notin> set (live_set q)"
  proof -
    have "distinct (live_set (ac_peers s ! ?j))" using acc_peer [OF ok j] by (simp add: peer_ok_def)
    then show ?thesis using mset_add_distinct(1) [of "live_set (ac_peers s ! ?j)" ?t "live_set q"] q(1) by (simp add: left_live_def)
  qed
  ultimately show ?thesis using q(1) j act by (simp add: remembers_def left_live_def moved_def same_generation_def)
qed

lemma on_ledger_snd:
  assumes "step_ok y (on_ledger op f y)" and "\<And>a z. sy_ledger (f a z) = sy_ledger z" and "P (sy_ledger y)"
    and "\<And>a s'. op (sy_ledger y) = (Ok a, s') \<Longrightarrow> P s'"
  shows "P (sy_ledger (snd (on_ledger op f y)))"
proof (cases "op (sy_ledger y)")
  case (Pair r s')
  with assms show ?thesis by (cases r) (auto simp: step_ok_def on_ledger_def)
qed

lemma set_ledger [simp]: "sy_ledger (set_token k t y) = sy_ledger y" "sy_ledger (set_transaction k x y) = sy_ledger y"
  by (simp_all add: set_token_def set_transaction_def)

lemma quiet_effects:
  assumes ok: "acc_ok s" and r: "remembers i g t cap n s"
  shows "begin_generation peer h s = (Ok u, s') \<Longrightarrow> remembers i g t cap n s'"
    and "retire_generation peer h s = (Ok w, s') \<Longrightarrow> unat peer \<noteq> i \<Longrightarrow> remembers i g t cap n s'"
    and "finish_restart_episode peer s = (Ok v, s') \<Longrightarrow> remembers i g t cap n s'"
    and "record_restart_history peer h rec s = (Ok u, s') \<Longrightarrow> remembers i g t cap n s'"
    and "reserve peer h request s = (Ok tok, s') \<Longrightarrow> remembers i g t cap n s'"
    and "publish_token tok s = (Ok tok', s') \<Longrightarrow> remembers i g t cap n s'"
    and "release tok s = (Ok tok', s') \<Longrightarrow> remembers i g t cap n s'"
    and "abort_transaction x s = (Ok x', s') \<Longrightarrow> tt_transaction_id x \<noteq> 0 \<Longrightarrow> remembers i g t cap n s'"
proof -
  note kept = remembers_kept [OF r]
  show "begin_generation peer h s = (Ok u, s') \<Longrightarrow> remembers i g t cap n s'"
    by (erule begin_generation_effect, rule remembers_move [OF r _ order_refl], assumption) (use r in \<open>auto simp: remembers_def\<close>)
  show "retire_generation peer h s = (Ok w, s') \<Longrightarrow> unat peer \<noteq> i \<Longrightarrow> remembers i g t cap n s'"
    by (erule retire_generation_effect, rule remembers_move [OF r _ order_refl], assumption) simp
  show "finish_restart_episode peer s = (Ok v, s') \<Longrightarrow> remembers i g t cap n s'"
    by (erule finish_episode_effect) (auto intro: kept simp: same_holdings_def)
  show "record_restart_history peer h rec s = (Ok u, s') \<Longrightarrow> remembers i g t cap n s'"
    by (erule record_history_effect) (auto intro: kept simp: same_holdings_def)
  show "reserve peer h request s = (Ok tok, s') \<Longrightarrow> remembers i g t cap n s'"
    by (erule reserve_effect) (auto intro: kept)
  show "publish_token tok s = (Ok tok', s') \<Longrightarrow> remembers i g t cap n s'"
    using publish_effect(1) r by blast
  show "release tok s = (Ok tok', s') \<Longrightarrow> remembers i g t cap n s'"
    by (erule release_effect) (auto intro: kept)
  show "abort_transaction x s = (Ok x', s') \<Longrightarrow> tt_transaction_id x \<noteq> 0 \<Longrightarrow> remembers i g t cap n s'"
    using abort_effect(2) [OF ok] kept left_live_subset by (metis left_live_def)
qed

lemma begin_tx_remembers:
  assumes ok: "acc_ok s" and r: "remembers i g t cap n s" and "begin_transaction peer h u s = (Ok x, s')"
  shows "remembers i g t cap n s'"
proof -
  let ?p = "ac_peers s ! unat peer"
  obtain q where q: "moved (unat peer) q s s'" "same_run ?p q" "mset (live_set q) = add_mset u (mset (live_set ?p))"
      "u \<notin> set (fifo_window (replay_capacity_of (ac_budgets s)) ?p)"
    using begin_transaction_effect [OF ok assms(3)] by metis
  have "set (live_set q) = insert u (set (live_set ?p))" using q(3) by (metis set_mset_add_mset_insert set_mset_mset)
  moreover have "u \<noteq> t" if "unat peer = i" using q(4) that r recalls_member by (fastforce simp: remembers_def)
  ultimately show ?thesis using r q(2) same_run_window [OF q(2), of cap]
    by (intro remembers_move [OF r q(1) order_refl]) (auto simp: remembers_def same_run_def)
qed

lemma complete_step_remembers:
  assumes y: "sys_ok y" and r: "remembers (unat peer) g t cap n (sy_ledger y)" and n: "completes peer (CComplete k) (fst (ledger_step (CComplete k) y)) y \<Longrightarrow> n < cap"
  shows "remembers (unat peer) g t cap (if completes peer (CComplete k) (fst (ledger_step (CComplete k) y)) y then Suc n else n) (sy_ledger (snd (ledger_step (CComplete k) y)))"
proof (cases "k < length (sy_transactions y)")
  case True
  let ?x = "sy_transactions y ! k"
  have id: "tt_transaction_id ?x \<noteq> 0" by (rule sys_transaction(3) [OF y True])
  obtain res s' where op: "account_complete ?x (sy_ledger y) = (res, s')" by (cases "account_complete ?x (sy_ledger y)")
  then have step: "ledger_step (CComplete k) y = on_ledger (\<lambda>_. (res, s')) (set_transaction k) y"
    using True by (simp add: on_ledger_def)
  show ?thesis
  proof (cases res)
    case (Ok x')
    then have "completes peer (CComplete k) (fst (ledger_step (CComplete k) y)) y \<longleftrightarrow> unat (tt_peer ?x) = unat peer"
      unfolding step using True by (auto simp: completes_def on_ledger_def word_unat_eq_iff)
    then show ?thesis
      using complete_remembers [OF sys_acc [OF y] id op [unfolded Ok] r] n Ok unfolding step by (simp add: on_ledger_def split: if_splits)
  next
    case (Err e)
    then show ?thesis
      using ledger_step_ok [OF y, of "CComplete k"] r unfolding step by (simp add: on_ledger_def step_ok_def completes_def)
  next
    case Panic
    then show ?thesis using ledger_step_ok [OF y, of "CComplete k"] unfolding step by (simp add: on_ledger_def step_ok_def)
  qed
qed (use r in \<open>simp add: completes_def\<close>)

lemma retire_step_remembers:
  assumes y: "sys_ok y" and r: "remembers (unat peer) g t cap n (sy_ledger y)" and c: "\<not> retires peer (CRetire peer' h) (fst (ledger_step (CRetire peer' h) y))"
  shows "remembers (unat peer) g t cap n (sy_ledger (snd (ledger_step (CRetire peer' h) y)))"
proof -
  have "remembers (unat peer) g t cap n s'" if op: "retire_generation peer' h (sy_ledger y) = (Ok w, s')" for w s'
  proof -
    have "peer' \<noteq> peer" using c op by (auto simp: retires_def on_ledger_def)
    then show ?thesis using quiet_effects(2) [OF sys_acc [OF y] r op] by (simp add: word_unat_eq_iff)
  qed
  then show ?thesis
    using on_ledger_snd [where P = "remembers (unat peer) g t cap n", OF _ _ r, of "retire_generation peer' h" "\<lambda>_ y. y"]
      ledger_step_ok [OF y, of "CRetire peer' h"] by simp
qed

lemma remembers_step:
  assumes y: "sys_ok y" and r: "remembers (unat peer) g t cap n (sy_ledger y)" and c: "\<not> retires peer c (fst (ledger_step c y))"
    and n: "completes peer c (fst (ledger_step c y)) y \<Longrightarrow> n < cap"
  shows "remembers (unat peer) g t cap (if completes peer c (fst (ledger_step c y)) y then Suc n else n) (sy_ledger (snd (ledger_step c y)))"
proof -
  note ok = sys_acc [OF y] and quiet = quiet_effects [OF sys_acc [OF y] r] and id = sys_transaction(3) [OF y]
  have step: "step_ok y (ledger_step c y)" by (rule ledger_step_ok [OF y])
  note keep = on_ledger_snd [where P = "remembers (unat peer) g t cap n", OF _ _ r]
  show ?thesis
  proof (cases c)
    case (CBegin peer' h)
    show ?thesis using step quiet(1) unfolding CBegin completes_def by (auto intro!: keep)
  next
    case (CRetire peer' h)
    show ?thesis using retire_step_remembers [OF y r c [unfolded CRetire]] unfolding CRetire by (simp add: completes_def)
  next
    case (CFinish peer')
    show ?thesis using step quiet(3) unfolding CFinish completes_def by (simp add: keep)
  next
    case (CRecord peer' h rec)
    show ?thesis using step quiet(4) unfolding CRecord completes_def by (auto intro!: keep)
  next
    case (CReserve peer' h request)
    show ?thesis using step quiet(5) unfolding CReserve completes_def by (simp add: keep)
  next
    case (CPublish k)
    show ?thesis using step quiet(6) r unfolding CPublish completes_def by (auto intro!: keep split: if_splits)
  next
    case (CRelease k)
    show ?thesis using step quiet(7) r unfolding CRelease completes_def by (auto intro!: keep split: if_splits)
  next
    case (CBeginTx peer' h u)
    show ?thesis using step begin_tx_remembers [OF ok r] unfolding CBeginTx completes_def by (simp add: keep)
  next
    case (CComplete k)
    show ?thesis unfolding CComplete by (rule complete_step_remembers [OF y r n [unfolded CComplete]])
  next
    case (CAbort k)
    show ?thesis using step quiet(8) id r unfolding CAbort completes_def by (auto intro!: keep split: if_splits)
  qed
qed

lemma run_steps:
  "completions peer (c # cs) y =
     (if completes peer c (fst (ledger_step c y)) y then 1 else 0) + completions peer cs (snd (ledger_step c y))"
  "retired_in peer (c # cs) y \<longleftrightarrow> retires peer c (fst (ledger_step c y)) \<or> retired_in peer cs (snd (ledger_step c y))"
  by (simp_all split: prod.splits)

lemma remembers_run:
  assumes "sys_ok y" and "remembers (unat peer) g t cap n (sy_ledger y)" and "\<not> retired_in peer cs y"
    and "n + completions peer cs y \<le> cap"
  shows "\<exists>m \<le> cap. remembers (unat peer) g t cap m (sy_ledger (fold (\<lambda>c y. snd (ledger_step c y)) cs y))"
  using assms
proof (induction cs arbitrary: y n)
  case (Cons c cs)
  note step = Cons.prems(3,4) [unfolded run_steps]
  have "remembers (unat peer) g t cap (if completes peer c (fst (ledger_step c y)) y then Suc n else n)
      (sy_ledger (snd (ledger_step c y)))"
    using Cons.prems(1,2) step by (intro remembers_step) auto
  then show ?case
    using Cons.IH [OF step_ok_snd [OF Cons.prems(1) ledger_step_ok [OF Cons.prems(1)]]] step by (auto split: if_splits)
qed auto

lemma begin_replayed:
  assumes ok: "acc_ok s" and r: "remembers (unat peer) g t cap n s" and "t \<noteq> 0" "g \<noteq> 0"
  shows "begin_transaction peer g t s = (Err AE_ReplayedTransaction, s)"
proof -
  let ?p = "ac_peers s ! unat peer"
  have i: "unat peer < length (ac_peers s)" and len: "length (ac_peers s) = MAX_ACCOUNTED_PEERS"
    using r ok by (auto simp: remembers_def acc_ok_def)
  have v: "validate_generation peer g s = Ok (unat peer, ?p)"
    using r i len assms(4) by (auto simp: validate_generation_def peer_index_def index_r_def remembers_def)
  have "t \<notin> set (pa_live_transactions ?p)" using r assms(3) by (auto simp: remembers_def live_set_def)
  moreover have "peer_replay_contains ?p t = Ok True"
    using fifo_window_member [OF ok acc_peer [OF ok i], of t] r recalls_member by (auto simp: remembers_def)
  ultimately show ?thesis using v assms(3) by (simp add: begin_transaction_def action_defs)
qed

text \<open>C25. Replays are refused: once a peer has completed a transaction, beginning it again in the same
  generation is refused as a replay, whatever calls are made in between, accepted or refused, as long as
  the peer itself has completed fewer others since than its replay budget has entries and its generation
  was not retired in between. What other peers complete or retire does not count, nor do refused calls.\<close>

theorem completed_transaction_refused:
  assumes "accounted y" and "k < length (sy_transactions y)" and "ledger_step (CComplete k) y = (Ok (), y')"
    and "\<not> retired_in (tt_peer (sy_transactions y ! k)) cs y'"
    and "completions (tt_peer (sy_transactions y ! k)) cs y' < unat (rb_per_peer (ac_budgets (sy_ledger y) CompletedReplayEntries))"
  shows "fst (ledger_step (CBeginTx (tt_peer (sy_transactions y ! k)) (tt_generation (sy_transactions y ! k))
      (tt_transaction_id (sy_transactions y ! k))) (fold (\<lambda>c y. snd (ledger_step c y)) cs y')) = Err AE_ReplayedTransaction"
proof -
  let ?x = "sy_transactions y ! k" and ?s = "sy_ledger y"
  let ?cap = "replay_capacity_of (ac_budgets ?s)"
  have y: "sys_ok y" by (rule accounted_ok [OF assms(1)])
  note tx = sys_transaction [OF y assms(2)]
  obtain x' s' where c: "account_complete ?x ?s = (Ok x', s')" and y': "y' = set_transaction k x' (y\<lparr>sy_ledger := s'\<rparr>)"
    using assms(2,3) by (auto simp: on_ledger_def split: prod.splits res.splits)
  have act: "tt_active ?x" using complete_effect(2) [OF sys_acc [OF y] tx(3) c] by (auto simp: left_live_def)
  then have g: "tt_generation ?x = pa_generation (ac_peers ?s ! unat (tt_peer ?x))" "tt_generation ?x \<noteq> 0"
    using tx(1) by (auto simp: transaction_ok_def)
  have r: "remembers (unat (tt_peer ?x)) (tt_generation ?x) (tt_transaction_id ?x) ?cap 1 (sy_ledger y')"
    using complete_begins_memory [OF sys_acc [OF y] tx(3) c] g(1) y' by simp
  have ok': "sys_ok y'" using step_ok_snd [OF y ledger_step_ok [OF y], of "CComplete k"] assms(3) by simp
  let ?y = "fold (\<lambda>c y. snd (ledger_step c y)) cs y'"
  obtain m where m: "remembers (unat (tt_peer ?x)) (tt_generation ?x) (tt_transaction_id ?x) ?cap m (sy_ledger ?y)"
    using remembers_run [OF ok' r assms(4)] assms(5) by (auto simp: replay_capacity_of_def)
  have "accounted ?y" using accounted_fold [OF accounted.call [OF assms(1), of "CComplete k"], of cs] assms(3) by simp
  from begin_replayed [OF sys_acc [OF accounted_ok [OF this]] m tx(3) g(2)] show ?thesis by (simp add: on_ledger_def)
qed

lemma sample_completes:
  "(case ledger_step (CComplete 0) sample_system of (r, y) \<Rightarrow> (r, fst (ledger_step (CRetire 0 3) y))) = (Ok (), Err AE_StaleGeneration)"
  by code_simp

lemma completions_le: "completions peer cs y \<le> length (filter (\<lambda>c. case c of CComplete _ \<Rightarrow> True | _ \<Rightarrow> False) cs)"
  by (induction cs arbitrary: y) (auto simp: completes_def le_SucI split: prod.splits ledger_call.splits)

lemma not_retired: "list_all (\<lambda>c. case c of CRetire _ _ \<Rightarrow> False | _ \<Rightarrow> True) cs \<Longrightarrow> \<not> retired_in peer cs y"
  by (induction cs arbitrary: y) (auto simp: retires_def split: prod.splits ledger_call.splits)

lemma sample_capacity: "rb_per_peer (ac_budgets (sy_ledger sample_system) CompletedReplayEntries) = 8"
  by code_simp

text \<open>Between the completion and the replay a retirement of the peer is refused, because it names another
  generation, another peer completes a transaction, and the peer completes one of its own.\<close>

definition calls_between :: "ledger_call list" where
  "calls_between = [CRetire 0 3, CBegin 1 1, CBeginTx 1 1 9, CComplete 1, CBeginTx 0 7 42, CComplete 2]"

theorem completed_transaction_refused_witness:
  "fst (ledger_step (CBeginTx 0 7 41) (fold (\<lambda>c y. snd (ledger_step c y)) calls_between
     (snd (ledger_step (CComplete 0) sample_system)))) = Err AE_ReplayedTransaction"
proof -
  let ?y = "snd (ledger_step (CComplete 0) sample_system)"
  obtain x where x: "sy_transactions sample_system = [x]" "tt_peer x = 0" "tt_generation x = 7" "tt_transaction_id x = 41"
    by (rule sample_transaction)
  have c: "ledger_step (CComplete 0) sample_system = (Ok (), snd (ledger_step (CComplete 0) sample_system))"
    using sample_completes by (auto split: prod.splits simp del: ledger_step.simps)
  have "\<not> retired_in 0 calls_between ?y" unfolding calls_between_def run_steps(2)
    using sample_completes by (auto simp: not_retired retires_def simp del: ledger_step.simps retired_in.simps split: prod.splits)
  moreover have "completions 0 calls_between ?y < 8" using completions_le [of 0 calls_between ?y] by (simp add: calls_between_def)
  ultimately show ?thesis
    using completed_transaction_refused [OF sample_accounted _ c, of calls_between] x by (simp add: sample_capacity del: ledger_step.simps fold_simps)
qed

end
