(* ===== verification/Elf.thy ===== *)
theory Elf
  imports Bytes "HOL-Library.Product_Lexorder"
begin

text \<open>
  The parser of native executables (\<^verbatim>\<open>crates/wyrmroot-loader/src/elf.rs\<close>), which reads hostile input
  and plans the segments of a process: the header checks, the program headers, the load segments with
  their page aligned mappings, and the checks of the whole plan.

  The output slice is the state of \<open>elf_plan\<close>. Plain additions of the code that could wrap are panics.
\<close>

unbundle bit_operations_syntax

subsection \<open>Constants\<close>

definition PAGE_SIZE :: u64 where "PAGE_SIZE = 4096"
definition MAX_ELF_BYTES :: nat where "MAX_ELF_BYTES = 16 * 1024 * 1024"
definition MAX_PROGRAM_HEADERS :: nat where "MAX_PROGRAM_HEADERS = 16"
definition MAX_LOAD_SEGMENTS :: nat where "MAX_LOAD_SEGMENTS = 8"
definition MAX_MAPPED_IMAGE_BYTES :: u64 where "MAX_MAPPED_IMAGE_BYTES = 32 * 1024 * 1024"
definition USER_END_EXCLUSIVE :: u64 where "USER_END_EXCLUSIVE = 0x0000800000000000"
definition STACK_TOP :: u64 where "STACK_TOP = 0x00007fffffff0000"
definition STACK_BYTES :: u64 where "STACK_BYTES = 128 * 1024"
definition STACK_GUARD_BYTES :: u64 where "STACK_GUARD_BYTES = PAGE_SIZE"
definition STACK_BOTTOM :: u64 where "STACK_BOTTOM = STACK_TOP - STACK_BYTES"
definition STACK_GUARD_START :: u64 where "STACK_GUARD_START = STACK_BOTTOM - STACK_GUARD_BYTES"
definition ELF_HEADER_BYTES :: nat where "ELF_HEADER_BYTES = 64"
definition PROGRAM_HEADER_BYTES :: nat where "PROGRAM_HEADER_BYTES = 56"
definition PT_LOAD :: u32 where "PT_LOAD = 1"
definition PT_PHDR :: u32 where "PT_PHDR = 6"
definition PT_GNU_STACK :: u32 where "PT_GNU_STACK = 0x6474e551"
definition PF_X :: u32 where "PF_X = 1"
definition PF_W :: u32 where "PF_W = 2"
definition PF_R :: u32 where "PF_R = 4"
definition PF_RW :: u32 where "PF_RW = PF_R OR PF_W"
definition PF_RX :: u32 where "PF_RX = PF_R OR PF_X"

subsection \<open>Segments, plans and errors\<close>

datatype segment_protection = Prot_Read | Prot_ReadWrite | Prot_ReadExecute

record load_segment =
  ls_header_index :: u16
  ls_file_offset :: u64
  ls_file_size :: u64
  ls_memory_size :: u64
  ls_virtual_address :: u64
  ls_mapping_start :: u64
  ls_mapping_size :: u64
  ls_leading_bytes :: u64
  ls_protection :: segment_protection

record elf_load_plan =
  pl_entry :: u64
  pl_segments :: "load_segment list"
  pl_mapped_bytes :: u64

datatype elf_error =
    EL_ImageSize | EL_HeaderTruncated | EL_BadMagic | EL_UnsupportedClass byte | EL_UnsupportedDataEncoding byte
  | EL_UnsupportedIdentVersion byte | EL_UnsupportedOsAbi byte | EL_UnsupportedAbiVersion byte
  | EL_UnsupportedElfType u16 | EL_UnsupportedMachine u16 | EL_UnsupportedElfVersion u32 | EL_UnsupportedElfFlags u32
  | EL_InvalidElfHeaderSize u16 | EL_InvalidProgramHeaderSize u16 | EL_MissingProgramHeaders
  | EL_TooManyProgramHeaders nat | EL_ProgramHeaderTableOverflow | EL_ProgramHeaderTableTruncated
  | EL_ProgramHeaderTableOverlapsElfHeader | EL_ProgramHeaderTableMisaligned
  | EL_UnsupportedProgramHeaderType u16 u32 | EL_DuplicateProgramHeaderType u32 | EL_UnknownSegmentFlags u16 u32
  | EL_InvalidStackHeader u16 | EL_InvalidPhdrHeader u16 | EL_TooManyLoadSegments nat | EL_OutputTooSmall nat nat
  | EL_EmptyLoadSegment u16 | EL_FileSizeExceedsMemorySize u16 | EL_SegmentFileRangeOverflow u16
  | EL_SegmentFileRangeTruncated u16 | EL_SegmentVirtualRangeOverflow u16 | EL_SegmentMappingRangeOverflow u16
  | EL_InvalidSegmentAlignment u16 u64 | EL_SegmentAlignmentBelowPolicy u16 u64 | EL_SegmentAddressAlignmentMismatch u16
  | EL_SegmentVirtualRangeOutsidePolicy u16 | EL_SegmentOverlapsInitialStack u16 | EL_WritableExecutableSegment u16
  | EL_UnsupportedSegmentProtection u16 u32 | EL_OverlappingVirtualSegments u16 u16
  | EL_OverlappingVirtualMappingRanges u16 u16 | EL_MappedImageLimit | EL_ZeroEntryPoint
  | EL_EntryPointOutsideExecutableSegment

record elf_header =
  eh_entry :: u64
  eh_program_offset :: nat
  eh_program_count :: nat

type_synonym 'a elf_res = "(elf_error, 'a) res"

definition elf_u16 :: "byte list \<Rightarrow> nat \<Rightarrow> u16 elf_res" where
  "elf_u16 bytes offset = read_int_r 2 offset bytes"

definition elf_u32 :: "byte list \<Rightarrow> nat \<Rightarrow> u32 elf_res" where
  "elf_u32 bytes offset = read_int_r 4 offset bytes"

definition elf_u64 :: "byte list \<Rightarrow> nat \<Rightarrow> u64 elf_res" where
  "elf_u64 bytes offset = read_int_r 8 offset bytes"

definition memory_end :: "load_segment \<Rightarrow> u64 elf_res" where
  "memory_end s = unwrap (checked_add_u64 (ls_virtual_address s) (ls_memory_size s))"

definition mapping_end :: "load_segment \<Rightarrow> u64 elf_res" where
  "mapping_end s = unwrap (checked_add_u64 (ls_mapping_start s) (ls_mapping_size s))"

definition align_up :: "u64 \<Rightarrow> u64 \<Rightarrow> u64 option" where
  "align_up value alignment =
     (let mask = alignment - 1 in map_option (\<lambda>sum. sum AND NOT mask) (checked_add_u64 value mask))"

text \<open>Rust's \<^verbatim>\<open>u64::is_power_of_two\<close> and \<^verbatim>\<open>checked_sub\<close>.\<close>

definition is_power_of_two :: "u64 \<Rightarrow> bool" where
  "is_power_of_two w = list_ex (\<lambda>k. unat w = 2 ^ k) [0..<64]"

definition sub_u64 :: "u64 \<Rightarrow> u64 \<Rightarrow> u64 option" where
  "sub_u64 a b = (if b \<le> a then Some (a - b) else None)"

subsection \<open>The ELF header\<close>

text \<open>A check with an early return.\<close>

definition ensure :: "bool \<Rightarrow> elf_error \<Rightarrow> 'a elf_res \<Rightarrow> 'a elf_res" where
  "ensure c e k = (if c then k else Err e)"

definition elf_parse_header :: "byte list \<Rightarrow> elf_header elf_res" where
  "elf_parse_header img =
     ensure (img \<noteq> [] \<and> length img \<le> MAX_ELF_BYTES) EL_ImageSize (
     rbind (ok_or EL_HeaderTruncated (get_range 0 ELF_HEADER_BYTES img)) (\<lambda>bytes.
     rbind (region_r 0 4 bytes) (\<lambda>magic.
     ensure (magic = [0x7f, 0x45, 0x4c, 0x46]) EL_BadMagic (
     rbind (index_r bytes 4) (\<lambda>b4. ensure (b4 = 2) (EL_UnsupportedClass b4) (
     rbind (index_r bytes 5) (\<lambda>b5. ensure (b5 = 1) (EL_UnsupportedDataEncoding b5) (
     rbind (index_r bytes 6) (\<lambda>b6. ensure (b6 = 1) (EL_UnsupportedIdentVersion b6) (
     rbind (index_r bytes 7) (\<lambda>b7. ensure (b7 = 0) (EL_UnsupportedOsAbi b7) (
     rbind (index_r bytes 8) (\<lambda>b8. ensure (b8 = 0) (EL_UnsupportedAbiVersion b8) (
     rbind (elf_u16 bytes 16) (\<lambda>elf_type. ensure (elf_type = 2) (EL_UnsupportedElfType elf_type) (
     rbind (elf_u16 bytes 18) (\<lambda>machine. ensure (machine = 62) (EL_UnsupportedMachine machine) (
     rbind (elf_u32 bytes 20) (\<lambda>version. ensure (version = 1) (EL_UnsupportedElfVersion version) (
     rbind (elf_u32 bytes 48) (\<lambda>flags. ensure (flags = 0) (EL_UnsupportedElfFlags flags) (
     rbind (elf_u16 bytes 52) (\<lambda>header_size.
     ensure (unat header_size = ELF_HEADER_BYTES) (EL_InvalidElfHeaderSize header_size) (
     rbind (elf_u16 bytes 54) (\<lambda>program_size.
     ensure (unat program_size = PROGRAM_HEADER_BYTES) (EL_InvalidProgramHeaderSize program_size) (
     rbind (elf_u16 bytes 56) (\<lambda>count16. let program_count = unat count16 in
     ensure (program_count \<noteq> 0) EL_MissingProgramHeaders (
     ensure (program_count \<le> MAX_PROGRAM_HEADERS) (EL_TooManyProgramHeaders program_count) (
     rbind (elf_u64 bytes 32) (\<lambda>offset64. let program_offset = unat offset64 in
     ensure (program_offset \<ge> ELF_HEADER_BYTES) EL_ProgramHeaderTableOverlapsElfHeader (
     ensure (program_offset AND 7 = 0) EL_ProgramHeaderTableMisaligned (
     rbind (ok_or EL_ProgramHeaderTableOverflow (checked_mul_usize program_count PROGRAM_HEADER_BYTES)) (\<lambda>table_bytes.
     rbind (ok_or EL_ProgramHeaderTableOverflow (checked_add_usize program_offset table_bytes)) (\<lambda>table_end.
     ensure (table_end \<le> length img) EL_ProgramHeaderTableTruncated (
     rbind (elf_u64 bytes 24) (\<lambda>entry.
     Ok \<lparr>eh_entry = entry, eh_program_offset = program_offset, eh_program_count = program_count\<rparr>
     ))))))))))))))))))))))))))))))))))))"

definition program_header :: "byte list \<Rightarrow> elf_header \<Rightarrow> nat \<Rightarrow> byte list elf_res" where
  "program_header img hdr index =
     rbind (ok_or EL_ProgramHeaderTableOverflow (checked_mul_usize index PROGRAM_HEADER_BYTES)) (\<lambda>skip.
     rbind (ok_or EL_ProgramHeaderTableOverflow (checked_add_usize (eh_program_offset hdr) skip)) (\<lambda>start.
     rbind (unwrap (checked_add_usize start PROGRAM_HEADER_BYTES)) (\<lambda>stop.
     ok_or EL_ProgramHeaderTableTruncated (get_range start stop img))))"

subsection \<open>Program headers\<close>

definition parse_load_segment :: "byte list \<Rightarrow> byte list \<Rightarrow> u16 \<Rightarrow> load_segment elf_res" where
  "parse_load_segment img ph index =
     rbind (elf_u32 ph 4) (\<lambda>flags.
     ensure (flags AND NOT (PF_R OR PF_W OR PF_X) = 0) (EL_UnknownSegmentFlags index flags) (
     ensure (\<not> (flags AND PF_W \<noteq> 0 \<and> flags AND PF_X \<noteq> 0)) (EL_WritableExecutableSegment index) (
     rbind (if flags = PF_R then Ok Prot_Read else if flags = PF_RW then Ok Prot_ReadWrite
            else if flags = PF_RX then Ok Prot_ReadExecute else Err (EL_UnsupportedSegmentProtection index flags)) (\<lambda>protection.
     rbind (elf_u64 ph 8) (\<lambda>file_offset. rbind (elf_u64 ph 16) (\<lambda>virtual_address.
     rbind (elf_u64 ph 32) (\<lambda>file_size. rbind (elf_u64 ph 40) (\<lambda>memory_size. rbind (elf_u64 ph 48) (\<lambda>alignment.
     ensure (memory_size \<noteq> 0) (EL_EmptyLoadSegment index) (
     ensure (file_size \<le> memory_size) (EL_FileSizeExceedsMemorySize index) (
     rbind (ok_or (EL_SegmentFileRangeOverflow index) (checked_add_u64 file_offset file_size)) (\<lambda>file_end.
     ensure (file_end \<le> word_of_nat (length img)) (EL_SegmentFileRangeTruncated index) (
     rbind (ok_or (EL_SegmentVirtualRangeOverflow index) (checked_add_u64 virtual_address memory_size)) (\<lambda>memory_end.
     ensure (is_power_of_two alignment) (EL_InvalidSegmentAlignment index alignment) (
     ensure (alignment \<ge> PAGE_SIZE) (EL_SegmentAlignmentBelowPolicy index alignment) (
     ensure (file_offset AND (alignment - 1) = virtual_address AND (alignment - 1)) (EL_SegmentAddressAlignmentMismatch index) (
     let mapping_start = virtual_address AND NOT (PAGE_SIZE - 1) in
     rbind (ok_or (EL_SegmentMappingRangeOverflow index) (align_up memory_end PAGE_SIZE)) (\<lambda>mapping_end.
     rbind (ok_or (EL_SegmentMappingRangeOverflow index) (sub_u64 mapping_end mapping_start)) (\<lambda>mapping_size.
     ensure (\<not> (mapping_start < PAGE_SIZE \<or> mapping_end > USER_END_EXCLUSIVE)) (EL_SegmentVirtualRangeOutsidePolicy index) (
     ensure (\<not> (mapping_start < STACK_TOP \<and> STACK_GUARD_START < mapping_end)) (EL_SegmentOverlapsInitialStack index) (
     rbind (unwrap (sub_u64 virtual_address mapping_start)) (\<lambda>leading_bytes.
     Ok \<lparr>ls_header_index = index, ls_file_offset = file_offset, ls_file_size = file_size, ls_memory_size = memory_size,
       ls_virtual_address = virtual_address, ls_mapping_start = mapping_start, ls_mapping_size = mapping_size,
       ls_leading_bytes = leading_bytes, ls_protection = protection\<rparr>))))))))))))))))))))))"

definition validate_stack_header :: "byte list \<Rightarrow> u16 \<Rightarrow> unit elf_res" where
  "validate_stack_header ph index =
     rbind (elf_u32 ph 4) (\<lambda>flags. rbind (elf_u64 ph 8) (\<lambda>a. rbind (elf_u64 ph 16) (\<lambda>b. rbind (elf_u64 ph 24) (\<lambda>c.
     rbind (elf_u64 ph 32) (\<lambda>d. rbind (elf_u64 ph 40) (\<lambda>e.
     ensure (flags = PF_R OR PF_W \<and> a = 0 \<and> b = 0 \<and> c = 0 \<and> d = 0 \<and> e = 0) (EL_InvalidStackHeader index) (Ok ())))))))"

definition validate_phdr_header :: "byte list \<Rightarrow> elf_header \<Rightarrow> u16 \<Rightarrow> nat \<Rightarrow> unit elf_res" where
  "validate_phdr_header ph hdr index image_len =
     rbind (unwrap (checked_mul_usize (eh_program_count hdr) PROGRAM_HEADER_BYTES)) (\<lambda>table_bytes.
     let expected_offset = word_of_nat (eh_program_offset hdr); expected_size = word_of_nat table_bytes in
     rbind (ok_or (EL_InvalidPhdrHeader index) (checked_add_u64 expected_offset expected_size)) (\<lambda>file_end.
     rbind (elf_u32 ph 4) (\<lambda>flags. rbind (elf_u64 ph 8) (\<lambda>a. rbind (elf_u64 ph 32) (\<lambda>b. rbind (elf_u64 ph 40) (\<lambda>c.
     ensure (flags = PF_R \<and> a = expected_offset \<and> b = expected_size \<and> c = expected_size \<and> file_end \<le> word_of_nat image_len)
       (EL_InvalidPhdrHeader index) (Ok ())))))))"

text \<open>The loop over the program headers that counts the load segments; the state is the count and
  whether a program header table entry and a stack entry were seen.\<close>

fun count_segments :: "byte list \<Rightarrow> elf_header \<Rightarrow> nat list \<Rightarrow> nat \<times> bool \<times> bool \<Rightarrow> nat elf_res" where
  "count_segments img hdr [] (count, saw_phdr, saw_stack) =
     ensure (count \<noteq> 0) EL_MissingProgramHeaders (Ok count)"
| "count_segments img hdr (index # rest) (count, saw_phdr, saw_stack) =
     rbind (program_header img hdr index) (\<lambda>ph.
     rbind (elf_u32 ph 0) (\<lambda>header_type.
     if header_type = PT_LOAD then
       if count + 1 > MAX_LOAD_SEGMENTS then Err (EL_TooManyLoadSegments (count + 1))
       else count_segments img hdr rest (count + 1, saw_phdr, saw_stack)
     else if header_type = PT_PHDR then
       ensure (\<not> saw_phdr) (EL_DuplicateProgramHeaderType PT_PHDR) (
       rbind (validate_phdr_header ph hdr (word_of_nat index) (length img)) (\<lambda>_.
       count_segments img hdr rest (count, True, saw_stack)))
     else if header_type = PT_GNU_STACK then
       ensure (\<not> saw_stack) (EL_DuplicateProgramHeaderType PT_GNU_STACK) (
       rbind (validate_stack_header ph (word_of_nat index)) (\<lambda>_.
       count_segments img hdr rest (count, saw_phdr, True)))
     else Err (EL_UnsupportedProgramHeaderType (word_of_nat index) header_type)))"

definition required_segment_count :: "byte list \<Rightarrow> nat elf_res" where
  "required_segment_count img =
     rbind (elf_parse_header img) (\<lambda>hdr. count_segments img hdr [0..<eh_program_count hdr] (0, False, False))"

subsection \<open>The plan\<close>

type_synonym 'a elf_op = "(load_segment list, elf_error, 'a) action"

fun plan_segments :: "byte list \<Rightarrow> elf_header \<Rightarrow> nat list \<Rightarrow> nat \<times> u64 \<Rightarrow> (nat \<times> u64) elf_op" where
  "plan_segments img hdr [] (len, mapped_bytes) = aret (len, mapped_bytes)"
| "plan_segments img hdr (index # rest) (len, mapped_bytes) =
     abind (alift (program_header img hdr index)) (\<lambda>ph.
     abind (alift (elf_u32 ph 0)) (\<lambda>header_type.
     if header_type \<noteq> PT_LOAD then plan_segments img hdr rest (len, mapped_bytes)
     else
       abind (alift (parse_load_segment img ph (word_of_nat index))) (\<lambda>segment.
       abind (alift (ok_or EL_MappedImageLimit (checked_add_u64 mapped_bytes (ls_mapping_size segment)))) (\<lambda>mapped.
       if mapped > MAX_MAPPED_IMAGE_BYTES then afail EL_MappedImageLimit
       else
         abind (aread (\<lambda>out. index_r out len)) (\<lambda>_.
         abind (amod (\<lambda>out. out[len := segment])) (\<lambda>_.
         plan_segments img hdr rest (len + 1, mapped)))))))"

text \<open>The sort is unstable, but no two segments have the same key, because their header indices differ.\<close>

definition sort_segments :: "load_segment list \<Rightarrow> load_segment list" where
  "sort_segments = sort_key (\<lambda>s. (ls_mapping_start s, ls_header_index s))"

fun validate_nonoverlap :: "load_segment list \<Rightarrow> unit elf_res" where
  "validate_nonoverlap (first # second # rest) =
     rbind (memory_end first) (\<lambda>memory.
     ensure (\<not> ls_virtual_address second < memory)
       (EL_OverlappingVirtualSegments (ls_header_index first) (ls_header_index second)) (
     rbind (mapping_end first) (\<lambda>mapping.
     ensure (\<not> ls_mapping_start second < mapping)
       (EL_OverlappingVirtualMappingRanges (ls_header_index first) (ls_header_index second)) (
     validate_nonoverlap (second # rest)))))"
| "validate_nonoverlap _ = Ok ()"

fun entry_executable :: "u64 \<Rightarrow> load_segment list \<Rightarrow> bool elf_res" where
  "entry_executable entry [] = Ok False"
| "entry_executable entry (s # rest) =
     rbind (if ls_protection s = Prot_ReadExecute \<and> entry \<ge> ls_virtual_address s
            then rbind (memory_end s) (\<lambda>e. Ok (entry < e)) else Ok False) (\<lambda>inside.
     if inside then Ok True else entry_executable entry rest)"

definition elf_plan :: "byte list \<Rightarrow> elf_load_plan elf_op" where
  "elf_plan img =
     abind (alift (required_segment_count img)) (\<lambda>required.
     abind (aget length) (\<lambda>supplied.
     if supplied < required then afail (EL_OutputTooSmall required supplied)
     else
       abind (alift (elf_parse_header img)) (\<lambda>hdr.
       abind (plan_segments img hdr [0..<eh_program_count hdr] (0, 0)) (\<lambda>(len, mapped_bytes).
       abind (aread (region_r 0 len)) (\<lambda>segments.
       abind (amod (\<lambda>out. sort_segments segments @ drop len out)) (\<lambda>_.
       abind (aread (region_r 0 len)) (\<lambda>sorted.
       abind (alift (validate_nonoverlap sorted)) (\<lambda>_.
       if eh_entry hdr = 0 then afail EL_ZeroEntryPoint
       else
         abind (alift (entry_executable (eh_entry hdr) sorted)) (\<lambda>found.
         if \<not> found then afail EL_EntryPointOutsideExecutableSegment
         else aret \<lparr>pl_entry = eh_entry hdr, pl_segments = sorted, pl_mapped_bytes = mapped_bytes\<rparr>)))))))))"

end
