(* ===== verification/ElfSafe.thy ===== *)
theory ElfSafe
  imports Elf "HOL-Library.Multiset" "HOL-Library.Code_Target_Nat"
begin

text \<open>
  What an accepted executable guarantees to the loader: segments inside the file, page aligned and
  disjoint mappings inside user space and away from the stack, and an entry point in executable code;
  and that no input makes the parser panic.
\<close>

subsection \<open>Pages\<close>

lemma and_not_mask: "v AND NOT (mask n) = push_bit n (drop_bit n (v :: 'a::len word))"
  by (rule bit_word_eqI) (auto simp: bit_simps)

lemma page_mask: "PAGE_SIZE - 1 = mask 12"
  by (simp add: PAGE_SIZE_def mask_eq_exp_minus_1)

lemma page_down: "unat (v AND NOT (PAGE_SIZE - 1)) = unat v div 4096 * 4096"
proof -
  have "unat (push_bit 12 (drop_bit 12 v)) = (unat v div 4096 * 4096) mod 2 ^ 64"
    by (simp add: push_bit_eq_mult drop_bit_eq_div unat_word_ariths unat_div mod_mult_left_eq)
  moreover have "unat v div 4096 * 4096 < 2 ^ 64"
  proof -
    have "unat v < 2 ^ 64" by (rule order_less_le_trans [OF unsigned_less]) simp
    then show ?thesis by (rule order_le_less_trans [OF div_times_less_eq_dividend])
  qed
  ultimately show ?thesis unfolding page_mask and_not_mask by simp
qed

lemma align_up_Some:
  assumes "align_up v PAGE_SIZE = Some e"
  shows "unat v \<le> unat e" and "unat e < unat v + 4096" and "4096 dvd unat e"
proof -
  obtain s where s: "checked_add_u64 v (PAGE_SIZE - 1) = Some s" "e = s AND NOT (PAGE_SIZE - 1)"
    using assms by (auto simp: align_up_def Let_def)
  have u: "unat s = unat v + 4095" using s(1) by (simp add: checked_add_u64_Some PAGE_SIZE_def)
  have e: "unat e = unat s div 4096 * 4096" unfolding s(2) by (rule page_down)
  then show "4096 dvd unat e" by simp
  have m: "unat s div 4096 * 4096 + unat s mod 4096 = unat s" by (rule div_mult_mod_eq)
  have "unat s mod 4096 < 4096" by simp
  then show "unat v \<le> unat e" "unat e < unat v + 4096" using m u e by linarith+
qed

lemma sub_u64_Some: "sub_u64 a b = Some c \<longleftrightarrow> unat b \<le> unat a \<and> unat c = unat a - unat b"
proof -
  have "c = a - b \<longleftrightarrow> unat c = unat a - unat b" if "b \<le> a"
    using unat_sub [OF that] by (metis word_unat_eq_iff)
  then show ?thesis by (auto simp: sub_u64_def word_le_nat_alt)
qed

subsection \<open>Headers\<close>

lemma ensure_eq [res_simps]:
  "ensure c e k = Ok a \<longleftrightarrow> c \<and> k = Ok a" "ensure c e k = Panic \<longleftrightarrow> c \<and> k = Panic"
  by (auto simp: ensure_def)

lemma elf_reads [res_simps]:
  "elf_u16 bytes off = Panic \<longleftrightarrow> \<not> off + 2 \<le> length bytes" "elf_u32 bytes off = Panic \<longleftrightarrow> \<not> off + 4 \<le> length bytes"
  "elf_u64 bytes off = Panic \<longleftrightarrow> \<not> off + 8 \<le> length bytes"
  by (simp_all add: elf_u16_def elf_u32_def elf_u64_def res_simps)

definition header_fits :: "byte list \<Rightarrow> elf_header \<Rightarrow> bool" where
  "header_fits img hdr \<longleftrightarrow> length img \<le> MAX_ELF_BYTES \<and> eh_program_count hdr \<le> MAX_PROGRAM_HEADERS \<and>
     eh_program_offset hdr + eh_program_count hdr * PROGRAM_HEADER_BYTES \<le> length img"

lemma elf_parse_header_Ok: "elf_parse_header img = Ok hdr \<Longrightarrow> header_fits img hdr"
  by (auto simp: elf_parse_header_def res_simps Let_def header_fits_def checked_mul_usize_def checked_add_usize_def
      split: if_splits)

lemma elf_parse_header_no_panic: "elf_parse_header img \<noteq> Panic"
  by (auto simp: elf_parse_header_def res_simps Let_def get_range_def region_def ELF_HEADER_BYTES_def split: if_splits)

lemma program_header_Ok:
  assumes "header_fits img hdr" and "index < eh_program_count hdr"
  shows "\<exists>ph. program_header img hdr index = Ok ph \<and> length ph = PROGRAM_HEADER_BYTES"
proof -
  let ?k = PROGRAM_HEADER_BYTES
  have "(index + 1) * ?k \<le> eh_program_count hdr * ?k" using assms(2) by (intro mult_le_mono1) simp
  then have "eh_program_offset hdr + index * ?k + ?k \<le> length img" using assms(1) by (simp add: header_fits_def)
  moreover have "length img \<le> usize_max" using assms(1) by (simp add: header_fits_def MAX_ELF_BYTES_def usize_max_def)
  ultimately show ?thesis
    by (simp add: program_header_def checked_mul_usize_def checked_add_usize_def get_range_def region_def)
qed

subsection \<open>Segments\<close>

definition segment_ok :: "nat \<Rightarrow> load_segment \<Rightarrow> bool" where
  "segment_ok n s \<longleftrightarrow>
     unat (ls_file_offset s) + unat (ls_file_size s) \<le> n \<and>
     0 < unat (ls_memory_size s) \<and> unat (ls_file_size s) \<le> unat (ls_memory_size s) \<and>
     4096 dvd unat (ls_mapping_start s) \<and> 4096 dvd unat (ls_mapping_size s) \<and>
     unat (ls_virtual_address s) = unat (ls_mapping_start s) + unat (ls_leading_bytes s) \<and> unat (ls_leading_bytes s) < 4096 \<and>
     unat (ls_leading_bytes s) + unat (ls_memory_size s) \<le> unat (ls_mapping_size s) \<and>
     4096 \<le> unat (ls_mapping_start s) \<and> unat (ls_mapping_start s) + unat (ls_mapping_size s) \<le> unat USER_END_EXCLUSIVE \<and>
     (unat (ls_mapping_start s) + unat (ls_mapping_size s) \<le> unat STACK_GUARD_START \<or> unat STACK_TOP \<le> unat (ls_mapping_start s))"

lemma parse_load_segment_Ok:
  assumes "parse_load_segment img ph index = Ok s" and "length img \<le> MAX_ELF_BYTES"
  shows "segment_ok (length img) s" and "ls_header_index s = index"
proof -
  obtain fe me e where
    f: "checked_add_u64 (ls_file_offset s) (ls_file_size s) = Some fe" "fe \<le> word_of_nat (length img)"
    and m: "ls_memory_size s \<noteq> 0" "ls_file_size s \<le> ls_memory_size s"
      "checked_add_u64 (ls_virtual_address s) (ls_memory_size s) = Some me"
    and e: "ls_mapping_start s = ls_virtual_address s AND NOT (PAGE_SIZE - 1)" "align_up me PAGE_SIZE = Some e"
      "sub_u64 e (ls_mapping_start s) = Some (ls_mapping_size s)"
      "\<not> (ls_mapping_start s < PAGE_SIZE \<or> e > USER_END_EXCLUSIVE)"
      "\<not> (ls_mapping_start s < STACK_TOP \<and> STACK_GUARD_START < e)"
      "sub_u64 (ls_virtual_address s) (ls_mapping_start s) = Some (ls_leading_bytes s)"
    and "ls_header_index s = index"
    using assms(1) by (auto simp: parse_load_segment_def res_simps Let_def)
  then show "ls_header_index s = index" by simp
  let ?v = "unat (ls_virtual_address s)"
  have start: "unat (ls_mapping_start s) = ?v div 4096 * 4096" unfolding e(1) by (rule page_down)
  have vm: "?v div 4096 * 4096 + ?v mod 4096 = ?v" "?v mod 4096 < 4096" by simp_all
  have me: "unat me = ?v + unat (ls_memory_size s)" using m(3) by (simp add: checked_add_u64_Some)
  note up = align_up_Some [OF e(2)]
  have sz: "unat (ls_mapping_start s) + unat (ls_mapping_size s) = unat e" using e(3) by (auto simp: sub_u64_Some)
  have lead: "?v = unat (ls_mapping_start s) + unat (ls_leading_bytes s)" using e(6) by (auto simp: sub_u64_Some)
  have "unat (word_of_nat (length img) :: u64) = length img"
    using assms(2) by (simp add: unat_of_nat MAX_ELF_BYTES_def)
  then have "unat (ls_file_offset s) + unat (ls_file_size s) \<le> length img"
    using f by (simp add: checked_add_u64_Some word_le_nat_alt)
  moreover have "4096 dvd unat (ls_mapping_start s)" using start by simp
  moreover from this have "4096 dvd unat (ls_mapping_size s)" using sz up(3) by (metis dvd_add_right_iff)
  moreover have "unat (ls_leading_bytes s) < 4096" using lead start vm by linarith
  moreover have "unat (ls_leading_bytes s) + unat (ls_memory_size s) \<le> unat (ls_mapping_size s)"
    using lead sz up(1) me by linarith
  moreover have "0 < unat (ls_memory_size s)" "unat (ls_file_size s) \<le> unat (ls_memory_size s)"
    using m(1,2) by (simp_all add: unat_gt_0 word_le_nat_alt)
  moreover have "4096 \<le> unat (ls_mapping_start s)" "unat e \<le> unat USER_END_EXCLUSIVE"
    "unat e \<le> unat STACK_GUARD_START \<or> unat STACK_TOP \<le> unat (ls_mapping_start s)"
    using e(4,5) by (auto simp: word_less_nat_alt PAGE_SIZE_def not_less)
  ultimately show "segment_ok (length img) s" using lead sz unfolding segment_ok_def by simp
qed

lemma unwrap_lead: "unwrap (sub_u64 v (v AND NOT (PAGE_SIZE - 1))) \<noteq> Panic"
proof -
  have "unat (v AND NOT (PAGE_SIZE - 1)) \<le> unat v" unfolding page_down by simp
  then show ?thesis by (simp add: sub_u64_def word_le_nat_alt)
qed

lemma parse_load_segment_no_panic:
  assumes "length ph = PROGRAM_HEADER_BYTES"
  shows "parse_load_segment img ph index \<noteq> Panic"
proof -
  have len: "length ph = 56" using assms by (simp add: PROGRAM_HEADER_BYTES_def)
  then show ?thesis using unwrap_lead
    by (auto simp: parse_load_segment_def res_simps Let_def)
qed

lemma validate_headers_no_panic:
  assumes "length ph = PROGRAM_HEADER_BYTES"
  shows "validate_stack_header ph index \<noteq> Panic" and "header_fits img hdr \<Longrightarrow> validate_phdr_header ph hdr index n \<noteq> Panic"
proof -
  have len: "length ph = 56" using assms by (simp add: PROGRAM_HEADER_BYTES_def)
  then show "validate_stack_header ph index \<noteq> Panic" by (auto simp: validate_stack_header_def res_simps)
  assume "header_fits img hdr"
  then have "eh_program_count hdr * PROGRAM_HEADER_BYTES \<le> usize_max"
    by (simp add: header_fits_def MAX_ELF_BYTES_def usize_max_def)
  then show "validate_phdr_header ph hdr index n \<noteq> Panic"
    using len by (auto simp: validate_phdr_header_def res_simps Let_def checked_mul_usize_def)
qed

subsection \<open>Counting\<close>

definition is_load :: "byte list \<Rightarrow> elf_header \<Rightarrow> nat \<Rightarrow> bool" where
  "is_load img hdr index \<longleftrightarrow> (case program_header img hdr index of Ok ph \<Rightarrow> elf_u32 ph 0 = Ok PT_LOAD | _ \<Rightarrow> False)"

lemma load_types [simp]: "PT_LOAD \<noteq> PT_PHDR" "PT_LOAD \<noteq> PT_GNU_STACK"
  by (simp_all add: PT_LOAD_def PT_PHDR_def PT_GNU_STACK_def)

lemma count_segments_Ok:
  "count_segments img hdr is (c, p, s) = Ok n \<Longrightarrow> n = c + length (filter (is_load img hdr) is)"
proof (induction "is" arbitrary: c p s)
  case (Cons i "is")
  from Cons.prems show ?case
    by (auto simp: res_simps is_load_def split: if_splits dest!: Cons.IH)
qed (auto simp: res_simps)

lemma count_segments_no_panic:
  assumes "header_fits img hdr" and "\<forall>i \<in> set is. i < eh_program_count hdr"
  shows "count_segments img hdr is (c, p, s) \<noteq> Panic"
  using assms(2)
proof (induction "is" arbitrary: c p s)
  case (Cons i "is")
  obtain ph where ph: "program_header img hdr i = Ok ph" "length ph = PROGRAM_HEADER_BYTES"
    using program_header_Ok [OF assms(1), of i] Cons.prems by auto
  obtain ty where "elf_u32 ph 0 = Ok ty" using ph(2) by (simp add: elf_u32_def read_int_r_def PROGRAM_HEADER_BYTES_def)
  then show ?case using Cons ph(1) validate_headers_no_panic [OF ph(2)] assms(1) by (auto simp: res_simps)
qed (auto simp: res_simps)

lemma required_segment_count_Ok:
  assumes "required_segment_count img = Ok n"
  obtains hdr where "elf_parse_header img = Ok hdr" "header_fits img hdr"
    "n = length (filter (is_load img hdr) [0..<eh_program_count hdr])"
  using assms elf_parse_header_Ok count_segments_Ok by (fastforce simp: required_segment_count_def res_simps)

lemma required_segment_count_no_panic: "required_segment_count img \<noteq> Panic"
  using elf_parse_header_no_panic count_segments_no_panic elf_parse_header_Ok
  by (auto simp: required_segment_count_def res_simps)

subsection \<open>Planning\<close>

definition planned :: "byte list \<Rightarrow> nat list \<Rightarrow> nat \<Rightarrow> u64 \<Rightarrow> load_segment list \<Rightarrow> bool" where
  "planned img loads len mapped out \<longleftrightarrow> len = length loads \<and> len \<le> length out \<and>
     list_all (segment_ok (length img)) (take len out) \<and> map ls_header_index (take len out) = map word_of_nat loads \<and>
     unat mapped = (\<Sum>s\<leftarrow>take len out. unat (ls_mapping_size s)) \<and> mapped \<le> MAX_MAPPED_IMAGE_BYTES"

lemma planned_step:
  assumes "planned img loads len mapped out" and "len < length out" and "segment_ok (length img) s"
    and "ls_header_index s = word_of_nat i" and "checked_add_u64 mapped (ls_mapping_size s) = Some m" and "m \<le> MAX_MAPPED_IMAGE_BYTES"
  shows "planned img (loads @ [i]) (len + 1) m (out[len := s])"
proof -
  have "take (len + 1) (out[len := s]) = take len out @ [s]" using assms(2) by (simp add: take_Suc_conv_app_nth)
  then show ?thesis using assms by (auto simp: planned_def checked_add_u64_Some)
qed

lemma plan_segments_wp:
  assumes fits: "header_fits img hdr" and "\<forall>i \<in> set is. i < eh_program_count hdr"
    and "planned img loads len mapped out" and "len + length (filter (is_load img hdr) is) \<le> length out"
  shows "wp (plan_segments img hdr is (len, mapped))
    (\<lambda>(len', mapped') out'. planned img (loads @ filter (is_load img hdr) is) len' mapped' out') (\<lambda>_ _. True) out"
  using assms(2-4)
proof (induction "is" arbitrary: loads len mapped out)
  case Nil
  then show ?case by (simp add: wp_aret)
next
  case (Cons i "is")
  obtain ph where ph: "program_header img hdr i = Ok ph" "length ph = PROGRAM_HEADER_BYTES"
    using program_header_Ok [OF fits, of i] Cons.prems(1) by auto
  obtain ty where ty: "elf_u32 ph 0 = Ok ty" using ph(2) by (simp add: elf_u32_def read_int_r_def PROGRAM_HEADER_BYTES_def)
  have load: "is_load img hdr i \<longleftrightarrow> ty = PT_LOAD" using ph(1) ty by (simp add: is_load_def)
  show ?case
  proof (cases "ty = PT_LOAD")
    case False
    then show ?thesis using Cons ph(1) ty load by (simp add: wp_abind wp_alift)
  next
    case True
    have room: "len < length out" using Cons.prems(3) load True by simp
    have next1: "wp (plan_segments img hdr is (len + 1, m))
        (\<lambda>(len', mapped') out'. planned img (loads @ filter (is_load img hdr) (i # is)) len' mapped' out') (\<lambda>_ _. True) (out[len := s])"
      if "parse_load_segment img ph (word_of_nat i) = Ok s" "checked_add_u64 mapped (ls_mapping_size s) = Some m"
        "m \<le> MAX_MAPPED_IMAGE_BYTES" for s m
    proof -
      have "segment_ok (length img) s" "ls_header_index s = word_of_nat i"
        using parse_load_segment_Ok [OF that(1)] fits by (simp_all add: header_fits_def)
      from Cons.IH [OF _ planned_step [OF Cons.prems(2) room this that(2,3)]] show ?thesis
        using Cons.prems(1,3) load True by simp
    qed
    show ?thesis
    proof (cases "parse_load_segment img ph (word_of_nat i)")
      case (Ok s)
      then show ?thesis using ph(1) ty True room next1 [OF Ok]
        by (cases "checked_add_u64 mapped (ls_mapping_size s)")
          (auto simp: wp_abind wp_alift wp_aread wp_amod wp_afail index_r_def not_less)
    qed (use ph ty True parse_load_segment_no_panic [OF ph(2)] in \<open>auto simp: wp_abind wp_alift\<close>)
  qed
qed

subsection \<open>The checks of the plan\<close>

definition below :: "load_segment \<Rightarrow> load_segment \<Rightarrow> bool" where
  "below a b \<longleftrightarrow> unat (ls_mapping_start a) + unat (ls_mapping_size a) \<le> unat (ls_mapping_start b)"

lemma segment_ends:
  assumes "segment_ok n s"
  shows "\<exists>e. memory_end s = Ok e \<and> unat e = unat (ls_virtual_address s) + unat (ls_memory_size s)"
    and "\<exists>e. mapping_end s = Ok e \<and> unat e = unat (ls_mapping_start s) + unat (ls_mapping_size s)"
proof -
  have "unat USER_END_EXCLUSIVE < 2 ^ 64" by (simp add: USER_END_EXCLUSIVE_def)
  then have a: "unat (ls_mapping_start s) + unat (ls_mapping_size s) < 2 ^ 64"
      "unat (ls_virtual_address s) + unat (ls_memory_size s) < 2 ^ 64"
    using assms by (auto simp: segment_ok_def)
  have add: "\<exists>e. unwrap (checked_add_u64 x y) = (Ok e :: u64 elf_res) \<and> unat e = unat x + unat y"
    if "unat x + unat y < 2 ^ 64" for x y :: u64
    using that by (simp add: checked_add_u64_def unat_word_ariths)
  show "\<exists>e. memory_end s = Ok e \<and> unat e = unat (ls_virtual_address s) + unat (ls_memory_size s)"
    unfolding memory_end_def by (rule add [OF a(2)])
  show "\<exists>e. mapping_end s = Ok e \<and> unat e = unat (ls_mapping_start s) + unat (ls_mapping_size s)"
    unfolding mapping_end_def by (rule add [OF a(1)])
qed

lemma validate_nonoverlap_result:
  assumes "list_all (segment_ok n) ss"
  shows "validate_nonoverlap ss \<noteq> Panic \<and> (validate_nonoverlap ss = Ok () \<longrightarrow> successively below ss)"
  using assms
proof (induction ss rule: validate_nonoverlap.induct)
  case (1 a b rest)
  have "segment_ok n a" using "1.prems" by simp
  then obtain e f where "memory_end a = Ok e" "mapping_end a = Ok f"
      "unat f = unat (ls_mapping_start a) + unat (ls_mapping_size a)"
    using segment_ends by blast
  then show ?case using 1 by (auto simp: res_simps below_def word_less_nat_alt not_less)
qed simp_all

lemma below_trans: "transp below"
  unfolding transp_def below_def by (meson add_leD1 le_trans)

lemma entry_executable_result:
  assumes "list_all (segment_ok n) ss"
  shows "entry_executable entry ss \<noteq> Panic \<and>
    (entry_executable entry ss = Ok True \<longrightarrow> (\<exists>s \<in> set ss. ls_protection s = Prot_ReadExecute \<and>
      unat (ls_virtual_address s) \<le> unat entry \<and> unat entry < unat (ls_virtual_address s) + unat (ls_memory_size s)))"
  using assms
proof (induction ss)
  case (Cons s ss)
  have "segment_ok n s" using Cons.prems by simp
  then obtain e where "memory_end s = Ok e" "unat e = unat (ls_virtual_address s) + unat (ls_memory_size s)"
    using segment_ends(1) by blast
  then show ?case using Cons by (auto simp: res_simps word_less_nat_alt word_le_nat_alt split: if_splits)
qed simp

subsection \<open>An accepted executable is safe to load\<close>

definition plan_ok :: "byte list \<Rightarrow> elf_load_plan \<Rightarrow> bool" where
  "plan_ok img plan \<longleftrightarrow>
     list_all (segment_ok (length img)) (pl_segments plan) \<and> sorted_wrt below (pl_segments plan) \<and>
     length (pl_segments plan) \<le> MAX_LOAD_SEGMENTS \<and>
     unat (pl_mapped_bytes plan) = (\<Sum>s\<leftarrow>pl_segments plan. unat (ls_mapping_size s)) \<and>
     unat (pl_mapped_bytes plan) \<le> 32 * 1024 * 1024 \<and>
     (\<exists>s \<in> set (pl_segments plan). ls_protection s = Prot_ReadExecute \<and>
        unat (ls_virtual_address s) \<le> unat (pl_entry plan) \<and>
        unat (pl_entry plan) < unat (ls_virtual_address s) + unat (ls_memory_size s))"

lemma count_segments_limit: "count_segments img hdr is (c, p, s) = Ok n \<Longrightarrow> c \<le> MAX_LOAD_SEGMENTS \<Longrightarrow> n \<le> MAX_LOAD_SEGMENTS"
proof (induction "is" arbitrary: c p s)
  case (Cons i "is")
  from Cons.prems show ?case by (auto simp: res_simps split: if_splits dest!: Cons.IH)
qed (auto simp: res_simps)

lemma sort_segments_props:
  "length (sort_segments ss) = length ss" "list_all P (sort_segments ss) = list_all P ss"
  "(\<Sum>s\<leftarrow>sort_segments ss. f s) = (\<Sum>s\<leftarrow>ss. (f s :: nat))"
proof -
  show "length (sort_segments ss) = length ss" by (simp add: sort_segments_def)
  show "list_all P (sort_segments ss) = list_all P ss" by (simp add: sort_segments_def list_all_iff)
  have "mset (sort_segments ss) = mset ss" by (simp add: sort_segments_def)
  then show "(\<Sum>s\<leftarrow>sort_segments ss. f s) = (\<Sum>s\<leftarrow>ss. f s)" by (metis mset_map sum_mset_sum_list)
qed

lemma planned_fields:
  assumes "planned img loads len mapped out"
  shows "len \<le> length out" and "list_all (segment_ok (length img)) (take len out)" and "len = length loads"
    and "unat mapped = (\<Sum>s\<leftarrow>take len out. unat (ls_mapping_size s))" and "unat mapped \<le> 32 * 1024 * 1024"
  using assms by (auto simp: planned_def MAX_MAPPED_IMAGE_BYTES_def word_le_nat_alt)

lemma plan_tail:
  assumes p: "planned img loads len mapped out" and "length loads \<le> MAX_LOAD_SEGMENTS"
  shows "wp (abind (aread (region_r 0 len)) (\<lambda>segments.
       abind (amod (\<lambda>out. sort_segments segments @ drop len out)) (\<lambda>_.
       abind (aread (region_r 0 len)) (\<lambda>sorted.
       abind (alift (validate_nonoverlap sorted)) (\<lambda>_.
       if entry = 0 then afail EL_ZeroEntryPoint
       else
         abind (alift (entry_executable entry sorted)) (\<lambda>found.
         if \<not> found then afail EL_EntryPointOutsideExecutableSegment
         else aret \<lparr>pl_entry = entry, pl_segments = sorted, pl_mapped_bytes = mapped\<rparr>))))))
    (\<lambda>plan _. plan_ok img plan) (\<lambda>_ _. True) out"
proof -
  note f = planned_fields [OF p]
  let ?s = "sort_segments (take len out)"
  have len: "length ?s = len" using f(1) by (simp add: sort_segments_props)
  have ok: "list_all (segment_ok (length img)) ?s" using f(2) by (simp add: sort_segments_props)
  have cut: "region_r 0 len (?s @ drop len out) = Ok ?s" "region_r 0 len out = Ok (take len out)"
    using len f(1) by (simp_all add: region_r_def region_def)
  note v = validate_nonoverlap_result [OF ok] and e = entry_executable_result [OF ok, of entry]
  have "plan_ok img \<lparr>pl_entry = entry, pl_segments = ?s, pl_mapped_bytes = mapped\<rparr>"
    if "validate_nonoverlap ?s = Ok ()" "entry_executable entry ?s = Ok True"
    using that v e ok f(3-5) len assms(2) below_trans
    by (simp add: plan_ok_def sort_segments_props successively_conv_sorted_wrt)
  then show ?thesis using v e
    by (auto simp: wp_abind wp_aread wp_amod wp_alift wp_afail wp_aret cut split: res.split)
qed

lemma elf_plan_wp: "wp (elf_plan img) (\<lambda>plan _. plan_ok img plan) (\<lambda>_ _. True) out"
proof (cases "required_segment_count img")
  case (Ok n)
  obtain hdr where hdr: "elf_parse_header img = Ok hdr" "header_fits img hdr"
      "n = length (filter (is_load img hdr) [0..<eh_program_count hdr])"
    by (rule required_segment_count_Ok [OF Ok])
  have lim: "n \<le> MAX_LOAD_SEGMENTS"
    using Ok hdr(1) count_segments_limit by (fastforce simp: required_segment_count_def)
  have "planned img [] 0 0 out" by (simp add: planned_def)
  from plan_segments_wp [OF hdr(2) _ this, of "[0..<eh_program_count hdr]"]
  have w: "wp (plan_segments img hdr [0..<eh_program_count hdr] (0, 0))
      (\<lambda>(len, mapped) out'. planned img (filter (is_load img hdr) [0..<eh_program_count hdr]) len mapped out')
      (\<lambda>_ _. True) out" if "n \<le> length out"
    using that hdr(3) by simp
  show ?thesis
  proof (cases "n \<le> length out")
    case True
    show ?thesis unfolding elf_plan_def wp_abind wp_alift wp_aget Ok hdr(1) using True
      by (simp add: not_less wp_abind wp_alift hdr(1))
        (rule wp_mono [OF w [OF True]],
          use lim hdr(3) in \<open>auto intro!: plan_tail [unfolded wp_abind] simp: wp_abind split: prod.splits\<close>)
  qed (simp add: elf_plan_def wp_abind wp_alift wp_aget wp_afail Ok)
qed (use required_segment_count_no_panic in \<open>simp_all add: elf_plan_def wp_abind wp_alift\<close>)

text \<open>C3. Whatever bytes an executable consists of and however large the output slice is, planning it does not
  panic; and when a plan is accepted, every segment lies inside the file, its mapping is page aligned,
  holds the whole segment, lies in user space and away from the initial stack and its guard page, the
  mappings are in ascending order and disjoint, at most eight and 32 MiB in all, and the entry point lies
  in an executable segment.\<close>

theorem elf_plan_safe:
  "fst (elf_plan img out) \<noteq> Panic \<and> (\<forall>plan out'. elf_plan img out = (Ok plan, out') \<longrightarrow> plan_ok img plan)"
  using wp_not_panic [OF elf_plan_wp] wp_Ok [OF elf_plan_wp] by blast

definition sample_elf :: "byte list" where
  "sample_elf = [0x7f, 0x45, 0x4c, 0x46, 2, 1, 1, 0, 0, 0, 0, 0, 0, 0, 0, 0, 2, 0, 62, 0, 1, 0, 0, 0,
     0, 0, 0x40, 0, 0, 0, 0, 0, 64, 0, 0, 0, 0, 0, 0, 0, 0, 0, 0, 0, 0, 0, 0, 0, 0, 0, 0, 0, 64, 0, 56, 0,
     1, 0, 0, 0, 0, 0, 0, 0,
     1, 0, 0, 0, 5, 0, 0, 0, 0, 0, 0, 0, 0, 0, 0, 0, 0, 0, 0x40, 0, 0, 0, 0, 0, 0, 0, 0, 0, 0, 0, 0, 0,
     120, 0, 0, 0, 0, 0, 0, 0, 120, 0, 0, 0, 0, 0, 0, 0, 0, 0x10, 0, 0, 0, 0, 0, 0]"

definition blank_segment :: load_segment where
  "blank_segment = \<lparr>ls_header_index = 0, ls_file_offset = 0, ls_file_size = 0, ls_memory_size = 0, ls_virtual_address = 0,
     ls_mapping_start = 0, ls_mapping_size = 0, ls_leading_bytes = 0, ls_protection = Prot_Read\<rparr>"

definition sample_header :: elf_header where
  "sample_header = \<lparr>eh_entry = 0x400000, eh_program_offset = 64, eh_program_count = 1\<rparr>"

definition sample_segment :: load_segment where
  "sample_segment = \<lparr>ls_header_index = 0, ls_file_offset = 0, ls_file_size = 120, ls_memory_size = 120,
     ls_virtual_address = 0x400000, ls_mapping_start = 0x400000, ls_mapping_size = 4096, ls_leading_bytes = 0,
     ls_protection = Prot_ReadExecute\<rparr>"

lemma sample_elf_parts:
  "elf_parse_header sample_elf = Ok sample_header"
  "count_segments sample_elf sample_header [0] (0, False, False) = Ok 1"
  "plan_segments sample_elf sample_header [0] (0, 0) [blank_segment] = (Ok (1, 4096), [sample_segment])"
  "entry_executable 0x400000 [sample_segment] = Ok True"
  by code_simp+

lemma sample_elf_accepted:
  "elf_plan sample_elf [blank_segment] =
     (Ok \<lparr>pl_entry = 0x400000, pl_segments = [sample_segment], pl_mapped_bytes = 4096\<rparr>, [sample_segment])"
proof -
  have "eh_program_count sample_header = 1" "eh_entry sample_header = 0x400000" by (simp_all add: sample_header_def)
  then show ?thesis using sample_elf_parts
    by (simp add: elf_plan_def required_segment_count_def action_defs region_r_def region_def sort_segments_def
        del: count_segments.simps plan_segments.simps entry_executable.simps)
qed

theorem elf_plan_safe_witness:
  "\<exists>plan out'. elf_plan sample_elf [blank_segment] = (Ok plan, out') \<and> plan_ok sample_elf plan"
  using elf_plan_safe [of sample_elf "[blank_segment]"] sample_elf_accepted by blast

end
