(* ===== verification/Decimal.thy ===== *)
theory Decimal
  imports Utf8
begin

text \<open>
  Canonical decimal numbers. Two parsers of the program read a 64-bit number from ASCII digits with
  checked arithmetic (\<^verbatim>\<open>parse_decimal\<close> of the registry protocol, \<^verbatim>\<open>parse_job_id\<close> of the
  shell) and one routine prints it (\<^verbatim>\<open>decimal\<close>). The checked loop is \<open>try_digits\<close>; it is compared
  here with the mathematical value \<open>dec_val\<close> of a digit string and the canonical digit string \<open>dec\<close>
  of a number.
\<close>

subsection \<open>The checked loop\<close>

text \<open>\<^verbatim>\<open>checked_mul(10)\<close>, then \<^verbatim>\<open>checked_add(u64::from(digit - b'0'))\<close>, with the error of the
  caller. The callers test that every byte is a digit first, so the byte subtraction is exact.\<close>

fun try_digits :: "'e \<Rightarrow> u64 \<Rightarrow> byte list \<Rightarrow> ('e, u64) res" where
  "try_digits e current [] = Ok current"
| "try_digits e current (digit # rest) =
     (case Option.bind (checked_mul_u64 current 10) (\<lambda>n. checked_add_u64 n (ucast (digit - 48))) of
        None \<Rightarrow> Err e
      | Some n \<Rightarrow> try_digits e n rest)"

subsection \<open>Digit strings and their values\<close>

definition digit_val :: "byte \<Rightarrow> nat" where
  "digit_val d = unat d - 48"

fun dec_from :: "nat \<Rightarrow> byte list \<Rightarrow> nat" where
  "dec_from a [] = a"
| "dec_from a (d # ds) = dec_from (a * 10 + digit_val d) ds"

abbreviation dec_val :: "byte list \<Rightarrow> nat" where
  "dec_val \<equiv> dec_from 0"

fun dec :: "nat \<Rightarrow> byte list" where
  "dec n = (if n = 0 then [] else dec (n div 10) @ [nat_byte (48 + n mod 10)])"

declare dec.simps [simp del]

lemma dec_0 [simp]: "dec 0 = []"
  by (simp add: dec.simps)

lemma dec_step: "n \<noteq> 0 \<Longrightarrow> dec n = dec (n div 10) @ [nat_byte (48 + n mod 10)]"
  by (simp add: dec.simps)

lemma unat_48: "unat (48 :: byte) = 48"
  by simp

lemma unat_u64_less: "unat (v :: u64) < 2 ^ 64"
  using unsigned_less [of v] by simp

lemma unat_word_of_nat_u64: "n < 2 ^ 64 \<Longrightarrow> unat (word_of_nat n :: u64) = n"
  by (simp add: unat_of_nat)

lemma dec_from_append: "dec_from a (xs @ ys) = dec_from (dec_from a xs) ys"
  by (induction xs arbitrary: a) simp_all

lemma digit_of_number: "n < 10 \<Longrightarrow> unat (nat_byte (48 + n)) = 48 + n"
  by (simp add: unat_nat_byte)

lemma ascii_digit_unat: "ascii_digit b \<longleftrightarrow> 48 \<le> unat b \<and> unat b \<le> 57"
  by (simp add: ascii_digit_def word_le_nat_alt)

lemma ascii_digit_number [simp]: "n < 10 \<Longrightarrow> ascii_digit (nat_byte (48 + n))"
  by (simp add: ascii_digit_unat digit_of_number)

lemma digit_val_number [simp]: "n < 10 \<Longrightarrow> digit_val (nat_byte (48 + n)) = n"
  by (simp add: digit_val_def digit_of_number)

lemma digit_val_less: "ascii_digit d \<Longrightarrow> digit_val d < 10"
  by (auto simp: ascii_digit_unat digit_val_def)

lemma number_digit_val: "ascii_digit d \<Longrightarrow> nat_byte (48 + digit_val d) = d"
  by (simp add: ascii_digit_unat digit_val_def)

lemma dec_digits: "\<forall>d \<in> set (dec n). ascii_digit d"
proof (induction n rule: dec.induct)
  case (1 n)
  then show ?case by (cases "n = 0") (auto simp: dec_step)
qed

lemma dec_val_dec: "dec_val (dec n) = n"
proof (induction n rule: dec.induct)
  case (1 n)
  then show ?case by (cases "n = 0") (auto simp: dec_step dec_from_append)
qed

lemma dec_eq_Nil [simp]: "dec n = [] \<longleftrightarrow> n = 0"
  by (cases "n = 0") (auto simp: dec_step)

lemma hd_dec: "n \<noteq> 0 \<Longrightarrow> hd (dec n) \<noteq> 48"
proof (induction n rule: dec.induct)
  case (1 n)
  show ?case
  proof (cases "n div 10 = 0")
    case True
    then have "n < 10" by simp
    then have "unat (nat_byte (48 + n mod 10)) = 48 + n" by (simp add: digit_of_number)
    then have "nat_byte (48 + n mod 10) \<noteq> 48" using 1(2) unat_48 by auto
    with True 1(2) show ?thesis by (simp add: dec_step)
  next
    case False
    have "hd (dec n) = hd (dec (n div 10))" unfolding dec_step [OF 1(2)] using False by (simp add: hd_append)
    with 1 False show ?thesis by simp
  qed
qed

text \<open>A digit string without a leading zero is the canonical string of its value.\<close>

lemma dec_dec_val:
  assumes "\<forall>d \<in> set ds. ascii_digit d" and "ds = [] \<or> hd ds \<noteq> 48"
  shows "dec (dec_val ds) = ds"
  using assms
proof (induction ds rule: rev_induct)
  case Nil
  then show ?case by simp
next
  case (snoc d ds)
  have dg: "digit_val d < 10" "nat_byte (48 + digit_val d) = d"
    using snoc.prems(1) digit_val_less number_digit_val by auto
  show ?case
  proof (cases "ds = []")
    case True
    then have "d \<noteq> 48" using snoc.prems(2) by simp
    then have "digit_val d \<noteq> 0" using dg(2) by (metis add_0_right nat_byte_unat unat_48)
    with True dg show ?thesis by (simp add: dec_step)
  next
    case False
    then have IH: "dec (dec_val ds) = ds" using snoc by (auto simp: hd_append)
    with False have "dec_val ds \<noteq> 0" by (metis dec_0)
    with IH dg show ?thesis by (simp add: dec_from_append dec_step)
  qed
qed

subsection \<open>The checked loop computes the value\<close>

lemma dec_from_mono: "a \<le> dec_from a ds"
proof (induction ds arbitrary: a)
  case (Cons d ds)
  have "a \<le> a * 10 + digit_val d" by simp
  also have "\<dots> \<le> dec_from (a * 10 + digit_val d) ds" by (rule Cons.IH)
  finally show ?case by simp
qed simp

lemma unat_digit: "ascii_digit d \<Longrightarrow> unat (ucast (d - 48) :: u64) = digit_val d"
proof -
  assume "ascii_digit d"
  then have "48 \<le> d" by (simp add: ascii_digit_def)
  then have "unat (d - 48) = digit_val d" by (simp add: unat_sub digit_val_def)
  then have "unat (ucast (d - 48) :: u64) = take_bit 64 (digit_val d)" by (simp add: unsigned_ucast_eq)
  moreover have "digit_val d < 2 ^ 64" using digit_val_less [OF \<open>ascii_digit d\<close>] by simp
  ultimately show ?thesis by (simp only: take_bit_nat_eq_self)
qed

lemma try_digits_step:
  assumes "ascii_digit d"
  shows "Option.bind (checked_mul_u64 a 10) (\<lambda>n. checked_add_u64 n (ucast (d - 48))) =
    (if unat a * 10 + digit_val d < 2 ^ 64 then Some (word_of_nat (unat a * 10 + digit_val d)) else None)"
    (is "?l = ?r")
proof (cases "unat a * 10 + digit_val d < 2 ^ 64")
  case True
  have "unat a * 10 < 2 ^ 64" using True by simp
  note w = unat_word_of_nat_u64 [OF this] unat_word_of_nat_u64 [OF True]
  have m: "checked_mul_u64 a 10 = Some (word_of_nat (unat a * 10))"
    using True unfolding checked_mul_u64_Some w by simp
  have "checked_add_u64 (word_of_nat (unat a * 10)) (ucast (d - 48)) =
      Some (word_of_nat (unat a * 10 + digit_val d))"
    using True unat_digit [OF assms] unfolding checked_add_u64_Some w by simp
  with m True show ?thesis by simp
next
  case False
  have "?l = None"
  proof (rule ccontr)
    assume "?l \<noteq> None"
    then obtain n m where "checked_mul_u64 a 10 = Some n" "checked_add_u64 n (ucast (d - 48)) = Some m"
      by (auto simp: bind_eq_Some_conv)
    then have "unat a * 10 + digit_val d < 2 ^ 64"
      using unat_digit [OF assms] by (simp add: checked_mul_u64_Some checked_add_u64_Some)
    with False show False ..
  qed
  with False show ?thesis by simp
qed

lemma try_digits_eq:
  assumes "\<forall>d \<in> set ds. ascii_digit d"
  shows "try_digits e a ds =
    (if dec_from (unat a) ds < 2 ^ 64 then Ok (word_of_nat (dec_from (unat a) ds)) else Err e)"
  using assms
proof (induction ds arbitrary: a)
  case Nil
  then show ?case using unat_u64_less [of a] by simp
next
  case (Cons d ds)
  let ?b = "unat a * 10 + digit_val d"
  show ?case
  proof (cases "?b < 2 ^ 64")
    case True
    then have "unat (word_of_nat ?b :: u64) = ?b" by (rule unat_word_of_nat_u64)
    with True Cons try_digits_step [of d a] show ?thesis by simp
  next
    case False
    then have "\<not> dec_from ?b ds < 2 ^ 64" using dec_from_mono [of ?b ds] by simp
    with False Cons.prems try_digits_step [of d a] show ?thesis by simp
  qed
qed

lemma try_digits_dec: "try_digits e 0 (dec (unat v)) = Ok v"
  using try_digits_eq [OF dec_digits, of e 0 "unat v"] unat_u64_less [of v] by (simp add: dec_val_dec)

end
