(* ===== verification/CorrelationEnv.thy ===== *)
theory CorrelationEnv
  imports RegistryProto Decimal
begin

text \<open>
  The correlation environment of \<^verbatim>\<open>wyrmroot-registry-proto\<close>: how a supervisor hands a service
  its registry generation, endpoint identity and endpoint generation as three environment strings
  (\<^verbatim>\<open>CorrelationEnvironment::new\<close>, \<^verbatim>\<open>entry\<close>), and how the service reads them back
  (\<^verbatim>\<open>parse_correlation_environment\<close>). The main result is that printing and parsing are exactly
  inverse: the parser accepts the printed entries of a correlation and nothing else.
\<close>

subsection \<open>Decimal printing and parsing\<close>

text \<open>\<^verbatim>\<open>while value != 0\<close>: the digits are collected in reverse in an array of 20 bytes.\<close>

function decimal_loop :: "u64 \<Rightarrow> byte list \<Rightarrow> nat \<Rightarrow> (proto_error, byte list \<times> nat) res" where
  "decimal_loop v reversed count =
     (if v = 0 then Ok (reversed, count)
      else if count < length reversed
      then decimal_loop (v div 10) (reversed[count := 48 + ucast (v mod 10)]) (count + 1)
      else Panic)"
  by pat_completeness auto
termination
proof (relation "measure (\<lambda>(v, _, _). unat v)", goal_cases)
  case (2 v reversed count)
  then have "0 < unat v" by (simp add: unat_gt_0)
  then have "unat v div 10 < unat v" by simp
  then show ?case by (simp add: unat_div_distrib)
qed simp

declare decimal_loop.simps [simp del]

text \<open>\<^verbatim>\<open>for index in 0..count { output[index] = reversed[count - index - 1]; }\<close>; both arrays are long
  enough there.\<close>

definition copy_reversed :: "byte list \<Rightarrow> nat \<Rightarrow> byte list \<Rightarrow> byte list" where
  "copy_reversed reversed count output =
     foldl (\<lambda>out i. out[i := reversed ! (count - i - 1)]) output [0..<count]"

definition decimal :: "u64 \<Rightarrow> (byte list, proto_error, nat) action" where
  "decimal v output =
     (if v = 0 then (Err E_InvalidCorrelationEnvironment, output)
      else case decimal_loop v (replicate 20 0) 0 of
        Ok (reversed, count) \<Rightarrow>
          if length output < count then (Err E_InvalidCorrelationEnvironment, output)
          else (Ok count, copy_reversed reversed count output)
      | Err e \<Rightarrow> (Err e, output)
      | Panic \<Rightarrow> (Panic, output))"

definition parse_decimal :: "byte list \<Rightarrow> (proto_error, u64) res" where
  "parse_decimal v =
     (if v = [] \<or> hd v = 48 \<or> \<not> list_all ascii_digit v then Err E_InvalidCorrelationEnvironment
      else try_digits E_InvalidCorrelationEnvironment 0 v)"

subsection \<open>The environment\<close>

record correlation =
  co_registry_generation :: u64
  co_endpoint_id :: u64
  co_endpoint_generation :: u64

record correlation_environment =
  ce_bytes :: "byte list list"
  ce_lengths :: "byte list"

text \<open>\<^verbatim>\<open>CorrelationEnvironment::write\<close>: the prefix, then the number behind it, then the length.\<close>

definition env_write ::
  "nat \<Rightarrow> byte list \<Rightarrow> u64 \<Rightarrow> (correlation_environment, proto_error, unit) action" where
  "env_write i prefix number env =
     (case get_index i (ce_bytes env) of
        None \<Rightarrow> (Err E_InvalidCorrelationEnvironment, env)
      | Some output \<Rightarrow>
          if length output < length prefix then (Panic, env)
          else
            (let (r, suffix) = decimal number (drop (length prefix) output);
                 env' = env\<lparr>ce_bytes := (ce_bytes env)[i := prefix @ suffix]\<rparr>
             in case r of
                  Err e \<Rightarrow> (Err e, env')
                | Panic \<Rightarrow> (Panic, env')
                | Ok digits \<Rightarrow>
                    if 255 < length prefix + digits then (Err E_InvalidCorrelationEnvironment, env')
                    else if i < length (ce_lengths env')
                    then (Ok (), env'\<lparr>ce_lengths := (ce_lengths env')[i := nat_byte (length prefix + digits)]\<rparr>)
                    else (Panic, env')))"

definition correlation_environment_new :: "correlation \<Rightarrow> (proto_error, correlation_environment) res" where
  "correlation_environment_new c =
     (if co_registry_generation c = 0 \<or> co_endpoint_id c = 0 \<or> co_endpoint_generation c = 0
      then Err E_InvalidCorrelationEnvironment
      else fst (abind (env_write 0 REGISTRY_GENERATION_ENV (co_registry_generation c)) (\<lambda>_.
                abind (env_write 1 ENDPOINT_ID_ENV (co_endpoint_id c)) (\<lambda>_.
                abind (env_write 2 ENDPOINT_GENERATION_ENV (co_endpoint_generation c)) (\<lambda>_.
                aget (\<lambda>env. env))))
              \<lparr>ce_bytes = replicate CORRELATION_ENVIRONMENT_COUNT (replicate MAX_CORRELATION_ENVIRONMENT_BYTES 0),
               ce_lengths = replicate CORRELATION_ENVIRONMENT_COUNT 0\<rparr>))"

definition env_entry :: "correlation_environment \<Rightarrow> nat \<Rightarrow> byte list option" where
  "env_entry env i =
     Option.bind (get_index i (ce_lengths env)) (\<lambda>len.
     Option.bind (get_index i (ce_bytes env)) (\<lambda>bs.
     Option.bind (get_range 0 (unat len) bs) (\<lambda>text. if valid_utf8 text then Some text else None)))"

definition strip_prefix :: "byte list \<Rightarrow> byte list \<Rightarrow> byte list option" where
  "strip_prefix prefix s = (if take (length prefix) s = prefix then Some (drop (length prefix) s) else None)"

definition parse_env_field :: "byte list \<Rightarrow> byte list \<Rightarrow> (proto_error, u64) res" where
  "parse_env_field prefix s =
     rbind (ok_or E_InvalidCorrelationEnvironment (strip_prefix prefix s)) parse_decimal"

definition parse_correlation_environment :: "byte list list \<Rightarrow> (proto_error, correlation) res" where
  "parse_correlation_environment entries =
     (if length entries \<noteq> CORRELATION_ENVIRONMENT_COUNT then Err E_InvalidCorrelationEnvironment
      else
        rbind (parse_env_field REGISTRY_GENERATION_ENV (entries ! 0)) (\<lambda>g.
        rbind (parse_env_field ENDPOINT_ID_ENV (entries ! 1)) (\<lambda>i.
        rbind (parse_env_field ENDPOINT_GENERATION_ENV (entries ! 2)) (\<lambda>eg.
        Ok \<lparr>co_registry_generation = g, co_endpoint_id = i, co_endpoint_generation = eg\<rparr>))))"

subsection \<open>The printer writes canonical digits\<close>

lemma digit_byte: "48 + ucast (v mod 10 :: u64) = nat_byte (48 + unat v mod 10)"
proof -
  have "ucast (v mod 10) = (word_of_nat (unat (v mod 10)) :: byte)" by simp
  also have "unat (v mod 10) = unat v mod 10" by (simp add: unat_mod_distrib)
  finally show ?thesis by (simp add: nat_byte_def)
qed

lemma length_dec_le: "n < 10 ^ k \<Longrightarrow> length (dec n) \<le> k"
proof (induction k arbitrary: n)
  case (Suc k)
  then have "n div 10 < 10 ^ k" by (simp add: less_mult_imp_div_less mult.commute)
  with Suc.IH show ?case by (cases "n = 0") (auto simp: dec_step)
qed simp

lemma length_dec_u64: "length (dec (unat (v :: u64))) \<le> 20"
  by (rule length_dec_le) (use unat_u64_less [of v] in simp)

text \<open>The loop fills the array from \<open>count\<close> on with the reversed digits of the rest.\<close>

lemma decimal_loop_eq:
  assumes "count + length (dec (unat v)) \<le> length reversed"
  shows "decimal_loop v reversed count =
    Ok (take count reversed @ rev (dec (unat v)) @ drop (count + length (dec (unat v))) reversed,
        count + length (dec (unat v)))"
  using assms
proof (induction v reversed count rule: decimal_loop.induct)
  case (1 v reversed count)
  show ?case
  proof (cases "v = 0")
    case True
    then show ?thesis by (subst decimal_loop.simps) simp
  next
    case False
    then have d: "dec (unat v) = dec (unat v div 10) @ [nat_byte (48 + unat v mod 10)]"
      using dec_step [of "unat v"] by (simp add: unat_eq_0)
    have u: "unat (v div 10) = unat v div 10" by (simp add: unat_div_distrib)
    have c: "count < length reversed" using 1(2) d by simp
    have t: "take (count + 1) (reversed[count := b]) = take count reversed @ [b]" for b
      using c by (simp add: take_Suc_conv_app_nth)
    have "decimal_loop v reversed count =
        decimal_loop (v div 10) (reversed[count := nat_byte (48 + unat v mod 10)]) (count + 1)"
      using False c by (subst decimal_loop.simps) (simp add: digit_byte)
    with 1(1) [OF False c] 1(2) d u t show ?thesis by (simp add: digit_byte)
  qed
qed

lemma copy_reversed_step:
  assumes "n \<le> length output"
  shows "foldl (\<lambda>out i. out[i := f i]) output [0..<n] = map f [0..<n] @ drop n output"
  using assms
proof (induction n)
  case (Suc n)
  then have d: "drop n output = output ! n # drop (Suc n) output" by (simp add: Cons_nth_drop_Suc)
  have "foldl (\<lambda>out i. out[i := f i]) output [0..<Suc n] = (map f [0..<n] @ drop n output)[n := f n]"
    using Suc by simp
  also have "\<dots> = map f [0..<Suc n] @ drop (Suc n) output"
    unfolding d by (simp add: list_update_append)
  finally show ?case .
qed simp

lemma decimal_eq:
  assumes "v \<noteq> 0" and "length (dec (unat v)) \<le> length output"
  shows "decimal v output = (Ok (length (dec (unat v))), dec (unat v) @ drop (length (dec (unat v))) output)"
proof -
  let ?d = "dec (unat v)"
  have loop: "decimal_loop v (replicate 20 0) 0 =
      Ok (rev ?d @ drop (length ?d) (replicate 20 0), length ?d)"
    using decimal_loop_eq [of 0 v "replicate 20 0"] length_dec_u64 [of v] by simp
  have "map (\<lambda>i. (rev ?d @ drop (length ?d) (replicate 20 0)) ! (length ?d - i - 1)) [0..<length ?d] = ?d"
    by (rule nth_equalityI) (auto simp: nth_append rev_nth)
  with loop assms show ?thesis
    by (simp add: decimal_def copy_reversed_def copy_reversed_step)
qed

subsection \<open>Printed entries\<close>

definition printed :: "byte list \<Rightarrow> u64 \<Rightarrow> byte list" where
  "printed prefix v = prefix @ dec (unat v)"

definition padded :: "byte list \<Rightarrow> byte list" where
  "padded s = s @ replicate (64 - length s) 0"

lemma length_printed: "length prefix \<le> 40 \<Longrightarrow> length (printed prefix v) \<le> 60"
  using length_dec_u64 [of v] by (simp add: printed_def)

lemma env_write_eq:
  assumes "v \<noteq> 0" and "length prefix \<le> 40" and "i < length (ce_bytes env)" and "i < length (ce_lengths env)"
    and "ce_bytes env ! i = replicate 64 0"
  shows "env_write i prefix v env =
    (Ok (), env\<lparr>ce_bytes := (ce_bytes env)[i := padded (printed prefix v)],
                ce_lengths := (ce_lengths env)[i := nat_byte (length (printed prefix v))]\<rparr>)"
proof -
  have "length (dec (unat v)) \<le> 20" by (rule length_dec_u64)
  then have d: "decimal v (replicate (64 - length prefix) 0) =
      (Ok (length (dec (unat v))), dec (unat v) @ replicate (64 - length prefix - length (dec (unat v))) 0)"
    using decimal_eq [OF assms(1), of "replicate (64 - length prefix) 0"] assms(2) by simp
  have "length prefix + length (dec (unat v)) \<le> 255" using \<open>length (dec (unat v)) \<le> 20\<close> assms(2) by simp
  with assms d show ?thesis
    by (simp add: env_write_def get_index_def padded_def printed_def diff_diff_eq)
qed

lemmas env_prefixes = REGISTRY_GENERATION_ENV_def ENDPOINT_ID_ENV_def ENDPOINT_GENERATION_ENV_def

lemma prefix_lengths:
  "length REGISTRY_GENERATION_ENV = 24" "length ENDPOINT_ID_ENV = 25" "length ENDPOINT_GENERATION_ENV = 33"
  by (simp_all add: env_prefixes ascii_def)

lemma prefix_ascii:
  "\<forall>b \<in> set REGISTRY_GENERATION_ENV. unat b < 128" "\<forall>b \<in> set ENDPOINT_ID_ENV. unat b < 128"
  "\<forall>b \<in> set ENDPOINT_GENERATION_ENV. unat b < 128"
  by (simp_all add: env_prefixes ascii_def of_char_def)

definition printed_entries :: "correlation \<Rightarrow> byte list list" where
  "printed_entries c =
     [printed REGISTRY_GENERATION_ENV (co_registry_generation c),
      printed ENDPOINT_ID_ENV (co_endpoint_id c),
      printed ENDPOINT_GENERATION_ENV (co_endpoint_generation c)]"

definition correlation_ok :: "correlation \<Rightarrow> bool" where
  "correlation_ok c \<longleftrightarrow>
     co_registry_generation c \<noteq> 0 \<and> co_endpoint_id c \<noteq> 0 \<and> co_endpoint_generation c \<noteq> 0"

lemma environment_new_eq:
  "correlation_environment_new c =
     (if correlation_ok c
      then Ok \<lparr>ce_bytes = map padded (printed_entries c), ce_lengths = map (\<lambda>s. nat_byte (length s)) (printed_entries c)\<rparr>
      else Err E_InvalidCorrelationEnvironment)"
  by (simp add: correlation_environment_new_def correlation_ok_def abind_def aget_def env_write_eq prefix_lengths
      CORRELATION_ENVIRONMENT_COUNT_def MAX_CORRELATION_ENVIRONMENT_BYTES_def printed_entries_def
      numeral_3_eq_3 numeral_2_eq_2)

lemma valid_printed:
  assumes "\<forall>b \<in> set prefix. unat b < 128"
  shows "valid_utf8 (printed prefix v)"
proof -
  have "unat d < 128" if "d \<in> set (dec (unat v))" for d
    using that dec_digits [of "unat v"] by (auto simp: ascii_digit_unat)
  with assms have "\<forall>b \<in> set (prefix @ dec (unat v)). unat b < 0x80" by auto
  then show ?thesis unfolding printed_def by (rule valid_utf8_ascii)
qed

lemma printed_entries_valid: "s \<in> set (printed_entries c) \<Longrightarrow> valid_utf8 s \<and> length s \<le> 60"
  using prefix_ascii prefix_lengths by (auto simp: printed_entries_def valid_printed length_printed)

lemma env_entry_new:
  assumes "i < 3"
  shows "env_entry \<lparr>ce_bytes = map padded (printed_entries c),
      ce_lengths = map (\<lambda>s. nat_byte (length s)) (printed_entries c)\<rparr> i = Some (printed_entries c ! i)"
proof -
  have l: "length (printed_entries c) = 3" by (simp add: printed_entries_def)
  have "printed_entries c ! i \<in> set (printed_entries c)" using assms l by simp
  from printed_entries_valid [OF this] show ?thesis
    using assms l by (simp add: env_entry_def get_index_def get_range_def unat_nat_byte padded_def region_def)
qed

subsection \<open>Parsing is the inverse of printing\<close>

lemma parse_decimal_iff: "parse_decimal s = Ok v \<longleftrightarrow> v \<noteq> 0 \<and> s = dec (unat v)"
proof
  assume h: "parse_decimal s = Ok v"
  then have s: "s \<noteq> []" "hd s \<noteq> 48" "\<forall>d \<in> set s. ascii_digit d"
    by (auto simp: parse_decimal_def list_all_iff split: if_splits)
  with h have v: "dec_val s < 2 ^ 64" "v = word_of_nat (dec_val s)"
    by (auto simp: parse_decimal_def list_all_iff try_digits_eq split: if_splits)
  then have "unat v = dec_val s" by (simp only: unat_word_of_nat_u64)
  with s have d: "s = dec (unat v)" using dec_dec_val by metis
  with s(1) show "v \<noteq> 0 \<and> s = dec (unat v)" by auto
next
  assume h: "v \<noteq> 0 \<and> s = dec (unat v)"
  then have "unat v \<noteq> 0" by (simp add: unat_eq_0)
  with h show "parse_decimal s = Ok v"
    using dec_digits [of "unat v"] hd_dec [of "unat v"] try_digits_dec
    by (auto simp: parse_decimal_def list_all_iff)
qed

lemma parse_env_field_iff: "parse_env_field prefix s = Ok v \<longleftrightarrow> v \<noteq> 0 \<and> s = printed prefix v"
proof -
  have "take (length prefix) s = prefix \<and> drop (length prefix) s = d \<longleftrightarrow> s = prefix @ d" for d
    by (metis append_eq_conv_conj append_take_drop_id)
  then show ?thesis
    by (auto simp: parse_env_field_def strip_prefix_def res_simps parse_decimal_iff printed_def)
qed

lemma parse_environment_iff:
  "parse_correlation_environment es = Ok c \<longleftrightarrow> correlation_ok c \<and> es = printed_entries c"
proof -
  have "length es = 3 \<longleftrightarrow> (\<exists>a b d. es = [a, b, d])" by (auto simp: numeral_3_eq_3 length_Suc_conv)
  then show ?thesis
    by (cases c) (auto simp: parse_correlation_environment_def CORRELATION_ENVIRONMENT_COUNT_def res_simps
        parse_env_field_iff printed_entries_def correlation_ok_def)
qed

text \<open>C35. Printing and parsing the correlation environment are exactly inverse: three strings parse
  to a correlation if and only if \<open>CorrelationEnvironment::new\<close> accepts the correlation and its
  entries are those strings.\<close>

theorem correlation_environment_inverse:
  "parse_correlation_environment es = Ok c \<longleftrightarrow>
     (\<exists>env. correlation_environment_new c = Ok env \<and> map Some es = map (env_entry env) [0..<3])"
proof -
  have l: "length (printed_entries c) = 3" by (simp add: printed_entries_def)
  let ?env = "\<lparr>ce_bytes = map padded (printed_entries c), ce_lengths = map (\<lambda>s. nat_byte (length s)) (printed_entries c)\<rparr>"
  have "map (env_entry ?env) [0..<3] = map Some (printed_entries c)"
    by (rule nth_equalityI) (simp_all add: l env_entry_new)
  moreover have "map Some es = map Some (printed_entries c) \<longleftrightarrow> es = printed_entries c"
    by (simp add: inj_map_eq_map)
  ultimately show ?thesis by (auto simp: parse_environment_iff environment_new_eq split: if_splits)
qed

end
