(* ===== verification/ShellInput.thy ===== *)
theory ShellInput
  imports Utf8 "HOL-Library.Sublist"
begin

text \<open>
  The incremental input decoder of the shell (\<^verbatim>\<open>wyrmroot-wyrmsh-core/src/input.rs\<close> with
  \<^verbatim>\<open>input/unicode_format.rs\<close>): bytes of a terminal become editing events. The decoder is a state
  machine with four bytes of pending UTF-8, twelve bytes of a pending escape sequence and the
  discard modes for unsupported sequences, control strings and bracketed paste. Every array access
  that the array types do not already bound is a possible panic of the model.
\<close>

subsection \<open>Printable scalars\<close>

text \<open>\<^verbatim>\<open>char::is_control\<close> of the Rust core library: the general category Cc.\<close>

definition is_control :: "scalar \<Rightarrow> bool" where
  "is_control c \<longleftrightarrow> c < 0x20 \<or> 0x7F \<le> c \<and> c \<le> 0x9F"

definition is_format_or_line_separator :: "scalar \<Rightarrow> bool" where
  "is_format_or_line_separator c \<longleftrightarrow>
     c = 0x00AD \<or> (0x0600 \<le> c \<and> c \<le> 0x0605) \<or> c = 0x061C \<or> c = 0x06DD \<or> c = 0x070F \<or>
     (0x0890 \<le> c \<and> c \<le> 0x0891) \<or> c = 0x08E2 \<or> c = 0x180E \<or> (0x200B \<le> c \<and> c \<le> 0x200F) \<or>
     (0x202A \<le> c \<and> c \<le> 0x202E) \<or> (0x2060 \<le> c \<and> c \<le> 0x2064) \<or> (0x2066 \<le> c \<and> c \<le> 0x206F) \<or>
     c = 0xFEFF \<or> (0xFFF9 \<le> c \<and> c \<le> 0xFFFB) \<or> c = 0x110BD \<or> c = 0x110CD \<or>
     (0x13430 \<le> c \<and> c \<le> 0x1343F) \<or> (0x1BCA0 \<le> c \<and> c \<le> 0x1BCA3) \<or>
     (0x1D173 \<le> c \<and> c \<le> 0x1D17A) \<or> c = 0xE0001 \<or> (0xE0020 \<le> c \<and> c \<le> 0xE007F) \<or>
     c = 0x2028 \<or> c = 0x2029"

definition is_printable_scalar :: "scalar \<Rightarrow> bool" where
  "is_printable_scalar c \<longleftrightarrow> \<not> is_control c \<and> \<not> is_format_or_line_separator c"

subsection \<open>Events and state\<close>

datatype input_error =
    I_InvalidUtf8 | I_IncompleteUtf8 | I_IncompleteEscape | I_UnsupportedControl
  | I_UnsupportedEscape | I_EscapeTooLong

datatype input_event =
    Ev_None | Ev_Insert scalar | Ev_Left | Ev_Right | Ev_Home | Ev_End | Ev_Delete | Ev_Backspace
  | Ev_Up | Ev_Down | Ev_Submit | Ev_Cancel | Ev_Eof | Ev_Rejected input_error

datatype escape =
    Esc_None | Esc_Start | Esc_Intermediate | Esc_Csi
  | Esc_DiscardStart | Esc_DiscardIntermediate | Esc_DiscardCsi
  | Esc_DiscardNestedCsi byte | Esc_DiscardSs3
  | Esc_String bool bool \<comment> \<open>\<open>osc\<close>, \<open>escaped\<close>\<close>
  | Esc_Paste nat \<comment> \<open>\<open>matched\<close>\<close>

record input_decoder =
  id_utf8 :: "byte list"
  id_utf8_len :: nat
  id_utf8_need :: nat
  id_escape_bytes :: "byte list"
  id_escape_len :: nat
  id_escape :: escape
  id_suppress_lf :: bool

type_synonym decoder_method = "(input_decoder, unit, input_event) action"

definition decoder_new :: input_decoder where
  "decoder_new =
     \<lparr>id_utf8 = replicate 4 0, id_utf8_len = 0, id_utf8_need = 0, id_escape_bytes = replicate 12 0,
      id_escape_len = 0, id_escape = Esc_None, id_suppress_lf = False\<rparr>"

definition is_pending :: "input_decoder \<Rightarrow> bool" where
  "is_pending d \<longleftrightarrow> id_utf8_len d \<noteq> 0 \<or> id_escape d \<noteq> Esc_None"

definition pending_bytes :: "input_decoder \<Rightarrow> nat" where
  "pending_bytes d = id_utf8_len d + id_escape_len d"

definition decoder_reset :: "input_decoder \<Rightarrow> input_decoder" where
  "decoder_reset d = d\<lparr>id_utf8_len := 0, id_utf8_need := 0, id_escape_len := 0, id_escape := Esc_None,
     id_suppress_lf := False\<rparr>"

definition decoder_finish :: "input_decoder \<Rightarrow> input_event \<times> input_decoder" where
  "decoder_finish d =
     (if id_utf8_len d \<noteq> 0 then Ev_Rejected I_IncompleteUtf8
      else if id_escape d \<noteq> Esc_None then Ev_Rejected I_IncompleteEscape
      else Ev_None, decoder_reset d)"

definition begin_escape :: "input_decoder \<Rightarrow> input_decoder" where
  "begin_escape d = d\<lparr>id_escape := Esc_Start, id_escape_bytes := (id_escape_bytes d)[0 := 27], id_escape_len := 1\<rparr>"

definition end_escape :: "input_decoder \<Rightarrow> input_decoder" where
  "end_escape d = d\<lparr>id_escape := Esc_None, id_escape_len := 0\<rparr>"

definition drop_utf8 :: "input_decoder \<Rightarrow> input_decoder" where
  "drop_utf8 d = d\<lparr>id_utf8_len := 0, id_utf8_need := 0\<rparr>"

definition between :: "byte \<Rightarrow> byte \<Rightarrow> byte \<Rightarrow> bool" where
  "between lo hi b \<longleftrightarrow> lo \<le> b \<and> b \<le> hi"

subsection \<open>Escape sequences\<close>

definition PASTE_END :: "byte list" where "PASTE_END = [27, 91, 50, 48, 49, 126]" \<comment> \<open>\<open>ESC [ 2 0 1 ~\<close>\<close>
definition PASTE_START :: "byte list" where "PASTE_START = [50, 48, 48, 126]" \<comment> \<open>\<open>2 0 0 ~\<close>\<close>

text \<open>The introducers \<open>]\<close>, \<open>P\<close>, \<open>X\<close>, \<open>^\<close> and \<open>_\<close> of a control string.\<close>

definition string_introducer :: "byte \<Rightarrow> bool" where
  "string_introducer b \<longleftrightarrow> b = 93 \<or> b = 80 \<or> b = 88 \<or> b = 94 \<or> b = 95"

definition discard_start :: "byte \<Rightarrow> input_decoder \<Rightarrow> input_decoder" where
  "discard_start b d =
     (if b = 27 then d
      else if b = 91 then d\<lparr>id_escape := Esc_DiscardNestedCsi 0\<rparr>
      else if b = 79 then d\<lparr>id_escape := Esc_DiscardSs3\<rparr>
      else if string_introducer b then d\<lparr>id_escape := Esc_String (b = 93) False\<rparr>
      else if between 0x20 0x2F b then d\<lparr>id_escape := Esc_DiscardIntermediate\<rparr>
      else if between 0x30 0x7E b then end_escape d
      else d)"

definition discard_nested_csi :: "byte \<Rightarrow> byte \<Rightarrow> input_decoder \<Rightarrow> input_decoder" where
  "discard_nested_csi paste_matched b d =
     (if b = 27 then d\<lparr>id_escape := Esc_DiscardStart\<rparr>
      else
        let matched = unat paste_matched;
            next_matched = (if matched < length PASTE_START \<and> b = PASTE_START ! matched
                            then paste_matched + 1 else 255)
        in if between 0x40 0x7E b
           then (if unat next_matched = length PASTE_START
                 then (end_escape d)\<lparr>id_escape := Esc_Paste 0\<rparr> else end_escape d)
           else d\<lparr>id_escape := Esc_DiscardNestedCsi next_matched\<rparr>)"

definition discard_until :: "byte \<Rightarrow> byte \<Rightarrow> byte \<Rightarrow> input_decoder \<Rightarrow> input_decoder" where
  "discard_until lo hi b d =
     (if b = 27 then d\<lparr>id_escape := Esc_DiscardStart\<rparr>
      else if between lo hi b then end_escape d else d)"

text \<open>A live sequence that does not fit in the twelve bytes.\<close>

definition escape_too_long :: "byte \<Rightarrow> input_decoder \<Rightarrow> input_decoder" where
  "escape_too_long b d =
     (let intermediate = (id_escape d = Esc_Intermediate);
          d' = d\<lparr>id_escape := (if intermediate then Esc_DiscardIntermediate else Esc_DiscardCsi),
                 id_escape_len := 0\<rparr>;
          final_byte = (if intermediate then between 0x30 0x7E b else between 0x40 0x7E b)
      in if final_byte then end_escape d' else d')"

definition start_byte :: "byte \<Rightarrow> input_decoder \<Rightarrow> input_event \<times> input_decoder" where
  "start_byte b d =
     (if b = 91 then (Ev_None, d\<lparr>id_escape := Esc_Csi\<rparr>)
      else if b = 79 then (Ev_Rejected I_UnsupportedEscape, d\<lparr>id_escape := Esc_DiscardSs3, id_escape_len := 0\<rparr>)
      else if string_introducer b
      then (Ev_Rejected I_UnsupportedEscape, d\<lparr>id_escape := Esc_String (b = 93) False, id_escape_len := 0\<rparr>)
      else if between 0x20 0x2F b then (Ev_None, d\<lparr>id_escape := Esc_Intermediate\<rparr>)
      else (Ev_Rejected I_UnsupportedEscape, end_escape d))"

definition intermediate_byte :: "byte \<Rightarrow> input_decoder \<Rightarrow> input_event \<times> input_decoder" where
  "intermediate_byte b d =
     (if between 0x20 0x2F b then (Ev_None, d)
      else if between 0x30 0x7E b then (Ev_Rejected I_UnsupportedEscape, end_escape d)
      else (Ev_Rejected I_UnsupportedEscape, d\<lparr>id_escape := Esc_DiscardIntermediate, id_escape_len := 0\<rparr>))"

definition csi_event :: "byte list \<Rightarrow> input_event" where
  "csi_event sequence =
     (if sequence = [65] then Ev_Up
      else if sequence = [66] then Ev_Down
      else if sequence = [67] then Ev_Right
      else if sequence = [68] then Ev_Left
      else if sequence = [72] \<or> sequence = [49, 126] then Ev_Home
      else if sequence = [70] \<or> sequence = [52, 126] then Ev_End
      else if sequence = [51, 126] then Ev_Delete
      else Ev_Rejected I_UnsupportedEscape)"

definition csi_byte :: "byte \<Rightarrow> decoder_method" where
  "csi_byte b d =
     (if between 0x40 0x7E b then
        (case region_r 2 (id_escape_len d) (id_escape_bytes d) of
           Ok sequence \<Rightarrow>
             (Ok (csi_event sequence),
              if sequence = PASTE_START then (end_escape d)\<lparr>id_escape := Esc_Paste 0\<rparr> else end_escape d)
         | Err e \<Rightarrow> (Err e, d)
         | Panic \<Rightarrow> (Panic, d))
      else if between 0x20 0x3F b then (Ok Ev_None, d)
      else (Ok (Ev_Rejected I_UnsupportedEscape), d\<lparr>id_escape := Esc_DiscardCsi, id_escape_len := 0\<rparr>))"

text \<open>The escape sequences that are still stored: \<open>Start\<close>, \<open>Intermediate\<close> and \<open>Csi\<close>.\<close>

definition live_escape_byte :: "byte \<Rightarrow> decoder_method" where
  "live_escape_byte b d =
     (if b = 27 then (Ok (Ev_Rejected I_IncompleteEscape), begin_escape d)
      else if id_escape_len d = length (id_escape_bytes d)
      then (Ok (Ev_Rejected I_EscapeTooLong), escape_too_long b d)
      else if length (id_escape_bytes d) \<le> id_escape_len d then (Panic, d)
      else
        let d' = d\<lparr>id_escape_bytes := (id_escape_bytes d)[id_escape_len d := b],
                   id_escape_len := id_escape_len d + 1\<rparr>
        in case id_escape d' of
             Esc_Start \<Rightarrow> (let (ev, d'') = start_byte b d' in (Ok ev, d''))
           | Esc_Intermediate \<Rightarrow> (let (ev, d'') = intermediate_byte b d' in (Ok ev, d''))
           | Esc_Csi \<Rightarrow> csi_byte b d'
           | _ \<Rightarrow> (Ok Ev_None, d'))"

definition escape_byte :: "byte \<Rightarrow> decoder_method" where
  "escape_byte b d =
     (case id_escape d of
        Esc_DiscardStart \<Rightarrow> (Ok Ev_None, discard_start b d)
      | Esc_DiscardNestedCsi paste_matched \<Rightarrow> (Ok Ev_None, discard_nested_csi paste_matched b d)
      | Esc_DiscardIntermediate \<Rightarrow> (Ok Ev_None, discard_until 0x30 0x7E b d)
      | Esc_DiscardCsi \<Rightarrow> (Ok Ev_None, discard_until 0x40 0x7E b d)
      | Esc_DiscardSs3 \<Rightarrow> (Ok Ev_None, discard_until 0x40 0x7E b d)
      | _ \<Rightarrow> live_escape_byte b d)"

subsection \<open>One byte of input\<close>

definition string_byte :: "bool \<Rightarrow> bool \<Rightarrow> byte \<Rightarrow> input_decoder \<Rightarrow> input_decoder" where
  "string_byte osc escaped b d =
     (if (osc \<and> b = 7) \<or> (escaped \<and> b = 92) then end_escape d
      else d\<lparr>id_escape := Esc_String osc (b = 27)\<rparr>)"

definition paste_byte :: "nat \<Rightarrow> byte \<Rightarrow> decoder_method" where
  "paste_byte matched b d =
     (case index_r PASTE_END matched of
        Ok expected \<Rightarrow>
          let next_matched = (if b = expected then matched + 1 else if b = PASTE_END ! 0 then 1 else 0)
          in (Ok Ev_None,
              if next_matched = length PASTE_END then end_escape d
              else d\<lparr>id_escape := Esc_Paste next_matched\<rparr>)
      | Err e \<Rightarrow> (Err e, d)
      | Panic \<Rightarrow> (Panic, d))"

text \<open>The first scalar of the collected bytes, when they are valid UTF-8.\<close>

definition decode_scalar :: "byte list \<Rightarrow> scalar option" where
  "decode_scalar bs = (case utf8_chars bs of Some (c # _) \<Rightarrow> Some c | _ \<Rightarrow> None)"

definition scalar_event :: "scalar option \<Rightarrow> input_event" where
  "scalar_event s =
     (case s of
        Some c \<Rightarrow> if is_printable_scalar c then Ev_Insert c else Ev_Rejected I_UnsupportedControl
      | None \<Rightarrow> Ev_Rejected I_InvalidUtf8)"

definition continuation_byte :: "byte \<Rightarrow> decoder_method" where
  "continuation_byte b d =
     (if \<not> between 0x80 0xBF b then
        (Ok (Ev_Rejected I_InvalidUtf8),
         if b = 27 then begin_escape (drop_utf8 d) else drop_utf8 d)
      else if length (id_utf8 d) \<le> id_utf8_len d then (Panic, d)
      else
        let d' = d\<lparr>id_utf8 := (id_utf8 d)[id_utf8_len d := b], id_utf8_len := id_utf8_len d + 1\<rparr>
        in if id_utf8_len d' \<noteq> id_utf8_need d' then (Ok Ev_None, d')
           else (Ok (scalar_event (decode_scalar (take (id_utf8_len d') (id_utf8 d')))), drop_utf8 d'))"

definition first_byte :: "byte \<Rightarrow> input_decoder \<Rightarrow> input_event \<times> input_decoder" where
  "first_byte b d =
     (if b = 27 then (Ev_None, begin_escape d)
      else if b = 8 \<or> b = 127 then (Ev_Backspace, d)
      else if b = 4 then (Ev_Eof, d)
      else if b = 13 \<or> b = 10 then (Ev_Submit, d)
      else if b = 9 then (Ev_Insert 32, d)
      else if between 0x20 0x7E b then (Ev_Insert (unat b), d)
      else if between 0xC2 0xF4 b
      then (Ev_None, d\<lparr>id_utf8 := (id_utf8 d)[0 := b], id_utf8_len := 1,
                       id_utf8_need := (if b < 0xE0 then 2 else if b < 0xF0 then 3 else 4)\<rparr>)
      else if b \<le> 0x1F then (Ev_Rejected I_UnsupportedControl, d)
      else (Ev_Rejected I_InvalidUtf8, d))"

text \<open>What is left of \<^verbatim>\<open>feed\<close> once the discard modes that consume even Enter are handled.\<close>

definition feed_text :: "byte \<Rightarrow> decoder_method" where
  "feed_text b d =
     (if (b = 13 \<or> b = 10) \<and> is_pending d then
        (Ok (Ev_Rejected (if id_utf8_len d \<noteq> 0 then I_IncompleteUtf8 else I_IncompleteEscape)),
         end_escape (drop_utf8 d))
      else if id_escape d \<noteq> Esc_None then escape_byte b d
      else if id_utf8_len d \<noteq> 0 then continuation_byte b d
      else (let (ev, d') = first_byte b d in (Ok ev, d')))"

definition feed :: "byte \<Rightarrow> decoder_method" where
  "feed b d =
     (if b = 3 then (Ok Ev_Cancel, decoder_reset d)
      else if id_suppress_lf d \<and> b = 10 then (Ok Ev_None, d\<lparr>id_suppress_lf := False\<rparr>)
      else
        let d' = d\<lparr>id_suppress_lf := (b = 13)\<rparr>
        in case id_escape d' of
             Esc_String osc escaped \<Rightarrow> (Ok Ev_None, string_byte osc escaped b d')
           | Esc_Paste matched \<Rightarrow> paste_byte matched b d'
           | _ \<Rightarrow> feed_text b d')"

fun feed_all :: "byte list \<Rightarrow> (input_decoder, unit, input_event list) action" where
  "feed_all [] = aret []"
| "feed_all (b # bs) = abind (feed b) (\<lambda>ev. abind (feed_all bs) (\<lambda>evs. aret (ev # evs)))"

subsection \<open>The invariant of the decoder\<close>

fun stored_ok :: "escape \<Rightarrow> nat \<Rightarrow> bool" where
  "stored_ok Esc_Start n \<longleftrightarrow> n = 1"
| "stored_ok Esc_Intermediate n \<longleftrightarrow> 2 \<le> n \<and> n \<le> 12"
| "stored_ok Esc_Csi n \<longleftrightarrow> 2 \<le> n \<and> n \<le> 12"
| "stored_ok (Esc_Paste matched) n \<longleftrightarrow> matched < 6 \<and> n = 0"
| "stored_ok _ n \<longleftrightarrow> n = 0"

definition escape_ok :: "input_decoder \<Rightarrow> bool" where
  "escape_ok d \<longleftrightarrow> stored_ok (id_escape d) (id_escape_len d)"

definition utf8_ok :: "input_decoder \<Rightarrow> bool" where
  "utf8_ok d \<longleftrightarrow>
     (if id_utf8_len d = 0 then id_utf8_need d = 0
      else id_utf8_len d < id_utf8_need d \<and> id_utf8_need d \<le> 4 \<and> id_escape d = Esc_None)"

definition decoder_ok :: "input_decoder \<Rightarrow> bool" where
  "decoder_ok d \<longleftrightarrow> length (id_utf8 d) = 4 \<and> length (id_escape_bytes d) = 12 \<and> utf8_ok d \<and> escape_ok d"

lemmas decoder_ok_defs = decoder_ok_def utf8_ok_def escape_ok_def

definition event_ok :: "input_event \<Rightarrow> bool" where
  "event_ok ev \<longleftrightarrow> (case ev of Ev_Insert c \<Rightarrow> is_scalar c \<and> is_printable_scalar c | _ \<Rightarrow> True)"

definition decoded :: "(unit, input_event) res \<times> input_decoder \<Rightarrow> bool" where
  "decoded rd \<longleftrightarrow> (\<exists>ev d. rd = (Ok ev, d) \<and> event_ok ev \<and> decoder_ok d)"

lemma decodedI [intro]: "event_ok ev \<Longrightarrow> decoder_ok d \<Longrightarrow> decoded (Ok ev, d)"
  by (simp add: decoded_def)

lemma event_ok_simps [simp]:
  "event_ok Ev_None" "event_ok Ev_Backspace" "event_ok Ev_Eof" "event_ok Ev_Submit" "event_ok Ev_Cancel"
  "event_ok (Ev_Rejected e)" "event_ok (csi_event bs)"
  by (simp_all add: event_ok_def csi_event_def)

lemma printable_ascii: "0x20 \<le> c \<Longrightarrow> c \<le> 0x7E \<Longrightarrow> is_printable_scalar c \<and> is_scalar c"
  by (simp add: is_printable_scalar_def is_control_def is_format_or_line_separator_def is_scalar_def)

lemma decode_scalar_SomeD: "decode_scalar bs = Some c \<Longrightarrow> is_scalar c"
  by (auto simp: decode_scalar_def utf8_chars_iff split: option.splits list.splits)

lemma scalar_event_ok [simp]: "event_ok (scalar_event (decode_scalar bs))"
  using decode_scalar_SomeD [of bs] by (auto simp: event_ok_def scalar_event_def split: option.splits)

lemma decoder_new_ok: "decoder_ok decoder_new"
  by (simp add: decoder_ok_defs decoder_new_def)

lemma reset_ok: "decoder_ok d \<Longrightarrow> decoder_ok (decoder_reset d)"
  by (simp add: decoder_ok_defs decoder_reset_def)

lemma drop_utf8_ok: "decoder_ok d \<Longrightarrow> decoder_ok (drop_utf8 d)"
  by (auto simp: decoder_ok_defs drop_utf8_def)

lemma begin_escape_ok: "decoder_ok d \<Longrightarrow> id_utf8_len d = 0 \<Longrightarrow> decoder_ok (begin_escape d)"
  by (auto simp: decoder_ok_defs begin_escape_def)

lemma end_escape_ok: "decoder_ok d \<Longrightarrow> decoder_ok (end_escape d)"
  by (auto simp: decoder_ok_defs end_escape_def split: if_splits)

lemma escape_no_utf8: "decoder_ok d \<Longrightarrow> id_escape d \<noteq> Esc_None \<Longrightarrow> id_utf8_len d = 0"
  by (auto simp: decoder_ok_def utf8_ok_def split: if_splits)

lemma first_byte_ok:
  assumes "decoder_ok d" "id_utf8_len d = 0" "id_escape d = Esc_None"
  shows "event_ok (fst (first_byte b d)) \<and> decoder_ok (snd (first_byte b d))"
proof -
  have "event_ok (Ev_Insert (unat b))" if "between 0x20 0x7E b"
    using that printable_ascii [of "unat b"] by (auto simp: event_ok_def between_def word_le_nat_alt)
  moreover have "event_ok (Ev_Insert 32)" using printable_ascii [of 32] by (simp add: event_ok_def)
  ultimately show ?thesis
    using assms begin_escape_ok [OF assms(1,2)]
    by (auto simp: first_byte_def decoder_ok_def utf8_ok_def escape_ok_def)
qed

lemma continuation_byte_ok:
  assumes "decoder_ok d" "id_utf8_len d \<noteq> 0"
  shows "decoded (continuation_byte b d)"
proof -
  have z: "id_utf8_len (drop_utf8 d) = 0" by (simp add: drop_utf8_def)
  show ?thesis
    using assms begin_escape_ok [OF drop_utf8_ok [OF assms(1)] z] drop_utf8_ok [OF assms(1)]
    by (auto simp: continuation_byte_def Let_def decoder_ok_def utf8_ok_def escape_ok_def drop_utf8_def
        split: if_splits intro!: decodedI)
qed

text \<open>The discard modes.\<close>

lemma set_escape_ok:
  assumes "decoder_ok d" "id_escape_len d = 0" "id_utf8_len d = 0"
    and "\<And>d. id_escape d = esc \<Longrightarrow> id_escape_len d = 0 \<Longrightarrow> escape_ok d"
  shows "decoder_ok (d\<lparr>id_escape := esc\<rparr>)"
  using assms by (auto simp: decoder_ok_def utf8_ok_def)

lemma discard_ok:
  assumes "decoder_ok d" "id_escape_len d = 0" "id_utf8_len d = 0"
  shows "decoder_ok (discard_start b d)" "decoder_ok (discard_nested_csi m b d)"
    and "decoder_ok (discard_until lo hi b d)" "decoder_ok (string_byte osc escaped b d)"
proof -
  note e = end_escape_ok [OF assms(1)]
  have p: "decoder_ok ((end_escape d)\<lparr>id_escape := Esc_Paste 0\<rparr>)"
    by (rule set_escape_ok [OF e]) (use assms in \<open>auto simp: end_escape_def escape_ok_def\<close>)
  have st: "decoder_ok (d\<lparr>id_escape := esc\<rparr>)"
    if "\<And>d. id_escape d = esc \<Longrightarrow> id_escape_len d = 0 \<Longrightarrow> escape_ok d" for esc
    by (rule set_escape_ok [OF assms that])
  show "decoder_ok (discard_start b d)" "decoder_ok (discard_nested_csi m b d)"
    "decoder_ok (discard_until lo hi b d)" "decoder_ok (string_byte osc escaped b d)"
    using assms(1) e p
    by (auto simp: discard_start_def discard_nested_csi_def discard_until_def string_byte_def Let_def
        escape_ok_def intro!: st)
qed

lemma discard_len_0:
  assumes "decoder_ok d"
    and "id_escape d \<notin> {Esc_Start, Esc_Intermediate, Esc_Csi}"
  shows "id_escape_len d = 0"
  using assms by (cases "id_escape d") (auto simp: decoder_ok_def escape_ok_def)

lemma paste_byte_ok:
  assumes "decoder_ok d" "id_escape d = Esc_Paste m"
  shows "decoded (paste_byte m b d)"
proof -
  have m: "m < length PASTE_END" "id_escape_len d = 0" "length PASTE_END = 6"
    using assms by (auto simp: decoder_ok_def escape_ok_def PASTE_END_def)
  have "decoder_ok (d\<lparr>id_escape := Esc_Paste k\<rparr>)" if "k < 6" for k
    by (rule set_escape_ok) (use assms m that escape_no_utf8 [OF assms(1)] in \<open>auto simp: escape_ok_def\<close>)
  then show ?thesis
    using m end_escape_ok [OF assms(1)] by (auto simp: paste_byte_def index_r_def Let_def intro!: decodedI)
qed

text \<open>The stored sequences.\<close>

lemma live_escape_ok:
  assumes "decoder_ok d" "id_escape d \<in> {Esc_Start, Esc_Intermediate, Esc_Csi}"
  shows "decoded (live_escape_byte b d)"
proof -
  have z: "id_utf8_len d = 0" using escape_no_utf8 assms by fastforce
  note be = begin_escape_ok [OF assms(1) z]
  have base: "length (id_utf8 d) = 4" "length (id_escape_bytes d) = 12" "id_utf8_need d = 0"
    using assms(1) z by (auto simp: decoder_ok_def utf8_ok_def)
  have bound: "1 \<le> id_escape_len d" "id_escape_len d \<le> 12"
    using assms by (auto simp: decoder_ok_def escape_ok_def)
  have ok: "decoder_ok (d\<lparr>id_escape_bytes := es, id_escape_len := n, id_escape := esc\<rparr>)"
    if "length es = 12" "escape_ok (d\<lparr>id_escape_bytes := es, id_escape_len := n, id_escape := esc\<rparr>)" for es n esc
    using that base z by (simp add: decoder_ok_def utf8_ok_def)
  have long: "decoder_ok (escape_too_long b d)"
    using base z by (auto simp: escape_too_long_def Let_def end_escape_def decoder_ok_defs)
  let ?d = "d\<lparr>id_escape_bytes := (id_escape_bytes d)[id_escape_len d := b], id_escape_len := id_escape_len d + 1\<rparr>"
  have start: "event_ok (fst (start_byte b ?d)) \<and> decoder_ok (snd (start_byte b ?d))" if "id_escape d = Esc_Start"
    using that assms base z by (auto simp: start_byte_def end_escape_def decoder_ok_defs)
  have inter: "event_ok (fst (intermediate_byte b ?d)) \<and> decoder_ok (snd (intermediate_byte b ?d))"
    if "id_escape d = Esc_Intermediate" "id_escape_len d \<noteq> 12"
    using that assms base z by (auto simp: intermediate_byte_def end_escape_def decoder_ok_defs)
  have csi: "decoded (csi_byte b ?d)" if "id_escape d = Esc_Csi" "id_escape_len d \<noteq> 12"
    using that assms base z bound
    by (auto simp: csi_byte_def region_r_def end_escape_def decoder_ok_defs intro!: decodedI)
  show ?thesis
    using assms(2) be long start inter csi base bound
    by (auto simp: live_escape_byte_def Let_def split: prod.splits intro!: decodedI)
qed

lemma escape_byte_ok:
  assumes "decoder_ok d" "id_escape d \<noteq> Esc_None" "\<nexists>m. id_escape d = Esc_Paste m"
    "\<nexists>osc esc. id_escape d = Esc_String osc esc"
  shows "decoded (escape_byte b d)"
proof (cases "id_escape d \<in> {Esc_Start, Esc_Intermediate, Esc_Csi}")
  case True
  then show ?thesis using live_escape_ok [OF assms(1)] by (auto simp: escape_byte_def)
next
  case False
  note ok = discard_ok [OF assms(1) discard_len_0 [OF assms(1) False] escape_no_utf8 [OF assms(1,2)]]
  show ?thesis
    using False assms ok by (cases "id_escape d") (auto simp: escape_byte_def intro!: decodedI)
qed

lemma feed_ok:
  assumes "decoder_ok d"
  shows "decoded (feed b d)"
proof -
  let ?d = "d\<lparr>id_suppress_lf := (b = 13)\<rparr>"
  have d: "decoder_ok ?d" "decoder_ok (d\<lparr>id_suppress_lf := False\<rparr>)"
    using assms by (simp_all add: decoder_ok_defs)
  have plain: "decoded (feed_text b ?d)"
    if "\<nexists>m. id_escape d = Esc_Paste m" "\<nexists>osc esc. id_escape d = Esc_String osc esc"
    using that first_byte_ok [OF d(1), of b] continuation_byte_ok [OF d(1)] escape_byte_ok [OF d(1)]
      end_escape_ok [OF drop_utf8_ok [OF d(1)]]
    by (auto simp: feed_text_def case_prod_beta intro!: decodedI)
  have str: "decoder_ok (string_byte osc esc b ?d)" if "id_escape d = Esc_String osc esc" for osc esc
    by (rule discard_ok(4) [OF d(1)]) (use that discard_len_0 [OF d(1)] escape_no_utf8 [OF d(1)] in auto)
  have paste: "decoded (paste_byte m b ?d)" if "id_escape d = Esc_Paste m" for m
    using that paste_byte_ok [OF d(1)] by simp
  show ?thesis
    using plain str paste d reset_ok [OF assms]
    by (cases "id_escape d") (auto simp: feed_def Let_def intro!: decodedI)
qed

lemma feed_all_ok:
  assumes "decoder_ok d"
  shows "\<exists>evs d'. feed_all bs d = (Ok evs, d') \<and> decoder_ok d' \<and> length evs = length bs \<and>
    (\<forall>ev \<in> set evs. event_ok ev)"
  using assms
proof (induction bs arbitrary: d)
  case (Cons b bs)
  obtain ev d1 where f: "feed b d = (Ok ev, d1)" "event_ok ev" "decoder_ok d1"
    using feed_ok [OF Cons.prems, of b] by (auto simp: decoded_def)
  from Cons.IH [OF f(3)] f show ?case by (auto simp: abind_def aret_def)
qed (simp add: aret_def)

lemma feed_all_Cons:
  "feed b d = (Ok ev, d1) \<Longrightarrow> feed_all bs d1 = (Ok evs, d2) \<Longrightarrow> feed_all (b # bs) d = (Ok (ev # evs), d2)"
  by (simp add: abind_def aret_def)

lemma feed_all_append:
  "feed_all as d = (Ok es, d1) \<Longrightarrow> feed_all bs d1 = (Ok fs, d2) \<Longrightarrow> feed_all (as @ bs) d = (Ok (es @ fs), d2)"
proof (induction as arbitrary: d es)
  case (Cons a as)
  from Cons.prems(1) obtain ev e es' where "feed a d = (Ok ev, e)" "feed_all as e = (Ok es', d1)" "es = ev # es'"
    by (auto simp: abind_def aret_def split: prod.splits res.splits)
  with Cons.IH Cons.prems(2) show ?case using feed_all_Cons by auto
qed (simp add: aret_def)

lemma pending_bytes_bound: "decoder_ok d \<Longrightarrow> pending_bytes d \<le> 12"
  by (cases "id_escape d") (auto simp: decoder_ok_defs pending_bytes_def split: if_splits)

text \<open>C32. The decoder takes every byte stream: no byte makes it panic, each byte yields one event, at
  most twelve bytes are ever pending, and a character that is inserted is a Unicode scalar that is
  printable, whatever bytes arrive.\<close>

theorem decoder_total:
  "\<exists>evs d. feed_all bs decoder_new = (Ok evs, d) \<and> length evs = length bs \<and> pending_bytes d \<le> 12 \<and>
     (\<forall>c. Ev_Insert c \<in> set evs \<longrightarrow> is_scalar c \<and> is_printable_scalar c)"
proof -
  obtain evs d where r: "feed_all bs decoder_new = (Ok evs, d)" "decoder_ok d" "length evs = length bs"
      "\<forall>ev \<in> set evs. event_ok ev"
    using feed_all_ok [OF decoder_new_ok] by blast
  have "is_scalar c \<and> is_printable_scalar c" if "Ev_Insert c \<in> set evs" for c
    using r(4) that by (fastforce simp: event_ok_def)
  with r pending_bytes_bound show ?thesis by blast
qed

theorem decoder_total_witness:
  "\<exists>evs d. feed_all [27, 91, 65, 200] decoder_new = (Ok evs, d) \<and> length evs = 4 \<and> pending_bytes d \<le> 12"
  using decoder_total [of "[27, 91, 65, 200]"] by force

subsection \<open>Text is decoded\<close>

definition idle :: "input_decoder \<Rightarrow> bool" where
  "idle d \<longleftrightarrow> decoder_ok d \<and> id_utf8_len d = 0 \<and> id_escape d = Esc_None"

lemma idle_new: "idle decoder_new"
  using decoder_new_ok by (simp add: idle_def decoder_new_def)

lemma between_unat: "between lo hi b \<longleftrightarrow> unat lo \<le> unat b \<and> unat b \<le> unat hi"
  by (simp add: between_def word_le_nat_alt)

lemma is_cont_between: "is_cont b \<longleftrightarrow> between 0x80 0xBF b"
  by (simp add: is_cont_def between_unat)

lemma cont_not_control: "is_cont b \<Longrightarrow> b \<noteq> 3 \<and> b \<noteq> 10 \<and> b \<noteq> 13"
  by (auto simp: is_cont_def)

text \<open>One continuation byte: it is stored, and the last one gives the event.\<close>

lemma feed_cont:
  assumes "decoder_ok d" "id_utf8_len d \<noteq> 0" "is_cont b"
  defines "bytes \<equiv> take (id_utf8_len d) (id_utf8 d) @ [b]"
  shows "if Suc (id_utf8_len d) = id_utf8_need d
    then \<exists>d'. feed b d = (Ok (scalar_event (decode_scalar bytes)), d') \<and> idle d'
    else \<exists>d'. feed b d = (Ok Ev_None, d') \<and> decoder_ok d' \<and> id_utf8_len d' = Suc (id_utf8_len d) \<and>
      id_utf8_need d' = id_utf8_need d \<and> take (id_utf8_len d') (id_utf8 d') = bytes"
proof -
  have f: "id_escape d = Esc_None" "id_utf8_len d < 4" "length (id_utf8 d) = 4"
      "id_utf8_len d < id_utf8_need d" "id_utf8_need d \<le> 4" "id_escape_len d = 0" "length (id_escape_bytes d) = 12"
    using assms(1,2) by (auto simp: decoder_ok_defs split: if_splits)
  define d0 where "d0 = d\<lparr>id_suppress_lf := False\<rparr>"
  have t: "take (Suc (id_utf8_len d)) ((id_utf8 d)[id_utf8_len d := b]) = bytes"
    using f by (simp add: bytes_def take_Suc_conv_app_nth)
  have "feed b d = continuation_byte b d0"
    using f assms(2) cont_not_control [OF assms(3)] by (simp add: feed_def feed_text_def d0_def)
  also have "\<dots> = (if Suc (id_utf8_len d) \<noteq> id_utf8_need d
      then (Ok Ev_None, d0\<lparr>id_utf8 := (id_utf8 d)[id_utf8_len d := b], id_utf8_len := Suc (id_utf8_len d)\<rparr>)
      else (Ok (scalar_event (decode_scalar bytes)),
        drop_utf8 (d0\<lparr>id_utf8 := (id_utf8 d)[id_utf8_len d := b], id_utf8_len := Suc (id_utf8_len d)\<rparr>)))"
    using f assms(3) unfolding t [symmetric] by (simp add: continuation_byte_def is_cont_between d0_def)
  finally show ?thesis
    using f t by (auto simp: idle_def decoder_ok_defs drop_utf8_def d0_def)
qed

lemma feed_conts:
  assumes "decoder_ok d" "id_utf8_len d \<noteq> 0" "\<forall>b \<in> set bs. is_cont b"
    "id_utf8_len d + length bs = id_utf8_need d" "bs \<noteq> []"
  shows "\<exists>d'. feed_all bs d = (Ok (replicate (length bs - 1) Ev_None @
      [scalar_event (decode_scalar (take (id_utf8_len d) (id_utf8 d) @ bs))]), d') \<and> idle d'"
  using assms
proof (induction bs arbitrary: d)
  case (Cons b bs)
  have c: "is_cont b" using Cons.prems(3) by simp
  note step = feed_cont [OF Cons.prems(1,2) c]
  show ?case
  proof (cases "bs = []")
    case True
    then have "Suc (id_utf8_len d) = id_utf8_need d" using Cons.prems(4) by simp
    with step True show ?thesis by (auto simp: abind_def aret_def)
  next
    case False
    then have "Suc (id_utf8_len d) \<noteq> id_utf8_need d" using Cons.prems(4) by (cases bs) auto
    with step obtain d' where d': "feed b d = (Ok Ev_None, d')" "decoder_ok d'"
        "id_utf8_len d' = Suc (id_utf8_len d)" "id_utf8_need d' = id_utf8_need d"
        "take (id_utf8_len d') (id_utf8 d') = take (id_utf8_len d) (id_utf8 d) @ [b]"
      by auto
    obtain e where e: "feed_all bs d' = (Ok (replicate (length bs - 1) Ev_None @
        [scalar_event (decode_scalar (take (id_utf8_len d) (id_utf8 d) @ b # bs))]), e)" "idle e"
      using Cons.IH [OF d'(2)] d' False Cons.prems by auto
    have "replicate (length bs) Ev_None = Ev_None # replicate (length bs - 1) Ev_None"
      using False by (cases bs) auto
    with feed_all_Cons [OF d'(1) e(1)] e(2) show ?thesis by auto
  qed
qed simp

lemma decode_scalar_encode: "is_scalar c \<Longrightarrow> decode_scalar (encode_utf8 c) = Some c"
  using utf8_chars_encode [of "[c]"] by (simp add: decode_scalar_def)

lemma feed_scalar:
  assumes "idle d" "is_scalar c" "is_printable_scalar c"
  shows "\<exists>d'. feed_all (encode_utf8 c) d = (Ok (replicate (len_utf8 c - 1) Ev_None @ [Ev_Insert c]), d') \<and> idle d'"
proof (cases "c < 0x80")
  case True
  then have c: "0x20 \<le> c" "c < 0x7F"
    using assms(3) by (auto simp: is_printable_scalar_def is_control_def)
  let ?b = "nat_byte c"
  have u: "unat ?b = c" using True by (simp add: unat_nat_byte)
  have n: "?b \<noteq> 3" "?b \<noteq> 10" "?b \<noteq> 13" "?b \<noteq> 27" "?b \<noteq> 8" "?b \<noteq> 127" "?b \<noteq> 4" "?b \<noteq> 9"
    using u c by auto
  have "feed ?b d = (Ok (Ev_Insert c), d\<lparr>id_suppress_lf := False\<rparr>)"
    using assms(1) n c u by (simp add: feed_def feed_text_def first_byte_def idle_def between_unat is_pending_def)
  moreover have "idle (d\<lparr>id_suppress_lf := False\<rparr>)" using assms(1) by (auto simp: idle_def decoder_ok_defs)
  ultimately show ?thesis using True by (simp add: encode_utf8_ascii len_utf8_def abind_def aret_def)
next
  case False
  then obtain b bs where e: "encode_utf8 c = b # bs" "bs \<noteq> []" "0xC2 \<le> unat b" "unat b \<le> 0xF4"
      "\<forall>x \<in> set bs. is_cont x"
      "Suc (length bs) = (if unat b < 0xE0 then 2 else if unat b < 0xF0 then 3 else 4)"
    using encode_utf8_shape [OF assms(2)] by auto
  have n: "b \<noteq> 3" "b \<noteq> 10" "b \<noteq> 13" "b \<noteq> 27" "b \<noteq> 8" "b \<noteq> 127" "b \<noteq> 4" "b \<noteq> 9"
    using e(3) by auto
  have need: "(if b < 0xE0 then 2 else if b < 0xF0 then 3 else 4) = Suc (length bs)"
    unfolding e(6) by (simp add: word_less_nat_alt)
  let ?d = "d\<lparr>id_suppress_lf := False, id_utf8 := (id_utf8 d)[0 := b], id_utf8_len := 1, id_utf8_need := Suc (length bs)\<rparr>"
  have f: "feed b d = (Ok Ev_None, ?d)"
    using assms(1) n e(3,4) need
    by (simp add: feed_def feed_text_def first_byte_def idle_def between_unat is_pending_def)
  have ok: "decoder_ok ?d" using assms(1) e(2,6) by (auto simp: idle_def decoder_ok_defs)
  have t: "take (id_utf8_len ?d) (id_utf8 ?d) = [b]"
    using assms(1) by (cases "id_utf8 d") (auto simp: idle_def decoder_ok_def)
  obtain d' where d': "feed_all bs ?d = (Ok (replicate (length bs - 1) Ev_None @
      [scalar_event (decode_scalar (encode_utf8 c))]), d')" "idle d'"
    using feed_conts [OF ok _ e(5) _ e(2)] t e(1) by auto
  have "replicate (length bs) Ev_None = Ev_None # replicate (length bs - 1) Ev_None"
    using e(2) by (cases bs) auto
  moreover have "len_utf8 c - 1 = length bs" using e(1) length_encode_utf8 [of c] by simp
  moreover have "scalar_event (decode_scalar (encode_utf8 c)) = Ev_Insert c"
    using assms(2,3) by (simp add: decode_scalar_encode scalar_event_def)
  ultimately show ?thesis using feed_all_Cons [OF f d'(1)] d'(2) e(1) by auto
qed

definition inserts :: "input_event list \<Rightarrow> scalar list" where
  "inserts evs = List.map_filter (\<lambda>ev. case ev of Ev_Insert c \<Rightarrow> Some c | _ \<Rightarrow> None) evs"

lemma inserts_append [simp]: "inserts (as @ bs) = inserts as @ inserts bs"
  by (induction as) (auto simp: inserts_def map_filter_simps split: option.splits)

lemma inserts_none [simp]: "inserts (replicate n Ev_None) = []"
  by (induction n) (auto simp: inserts_def map_filter_simps)

lemma inserts_Insert [simp]: "inserts (Ev_Insert c # evs) = c # inserts evs"
  by (simp add: inserts_def map_filter_simps)

text \<open>Text is decoded exactly: the bytes of a string of printable characters, fed one by one,
  yield the insertion of those characters in order and nothing else, and leave nothing pending.\<close>

theorem text_decoded:
  assumes "\<forall>c \<in> set cs. is_scalar c \<and> is_printable_scalar c"
  shows "\<exists>evs d. feed_all (encode_str cs) decoder_new = (Ok evs, d) \<and> inserts evs = cs \<and>
    set evs \<subseteq> insert Ev_None (Ev_Insert ` set cs) \<and> \<not> is_pending d"
proof -
  have "\<exists>evs e. feed_all (encode_str cs) d = (Ok evs, e) \<and> inserts evs = cs \<and>
    set evs \<subseteq> insert Ev_None (Ev_Insert ` set cs) \<and> idle e" if "idle d" for d
    using that assms
  proof (induction cs arbitrary: d)
    case (Cons c cs)
    obtain e where e: "feed_all (encode_utf8 c) d = (Ok (replicate (len_utf8 c - 1) Ev_None @ [Ev_Insert c]), e)" "idle e"
      using feed_scalar Cons.prems by fastforce
    obtain evs f where f: "feed_all (encode_str cs) e = (Ok evs, f)" "inserts evs = cs"
        "set evs \<subseteq> insert Ev_None (Ev_Insert ` set cs)" "idle f"
      using Cons.IH [OF e(2)] Cons.prems(2) by auto
    from feed_all_append [OF e(1) f(1)] f(2-4) show ?case by auto
  qed (simp add: aret_def inserts_def map_filter_simps)
  from this [OF idle_new] show ?thesis by (auto simp: idle_def is_pending_def)
qed

theorem text_decoded_witness:
  "\<exists>evs d. feed_all (encode_str [104, 233, 0x20AC]) decoder_new = (Ok evs, d) \<and> inserts evs = [104, 233, 0x20AC]"
  using text_decoded [of "[104, 233, 0x20AC]"]
  by (auto simp: is_scalar_def is_printable_scalar_def is_control_def is_format_or_line_separator_def)

subsection \<open>Bracketed paste is discarded\<close>

text \<open>The bytes of the end marker are pairwise different, so at most one of its proper prefixes ends a
  byte list; \<open>matches xs m\<close> says that it is the one of length \<open>m\<close>.\<close>

lemma paste_end_facts: "length PASTE_END = 6" "distinct PASTE_END" "PASTE_END ! 0 = 27"
    "PASTE_END ! Suc 0 = 91" "PASTE_END ! 2 = 50" "PASTE_END ! 3 = 48" "PASTE_END ! 4 = 49" "PASTE_END ! 5 = 126"
    "10 \<notin> set PASTE_END" "13 \<notin> set PASTE_END" "3 \<notin> set PASTE_END"
  by (simp_all add: PASTE_END_def)

definition matches :: "byte list \<Rightarrow> nat \<Rightarrow> bool" where
  "matches xs m \<longleftrightarrow> m \<le> 6 \<and> suffix (take m PASTE_END) xs \<and> (\<forall>k \<le> 6. m < k \<longrightarrow> \<not> suffix (take k PASTE_END) xs)"

lemma suffix_take_Suc:
  "k < 6 \<Longrightarrow> suffix (take (Suc k) PASTE_END) (xs @ [b]) \<longleftrightarrow> b = PASTE_END ! k \<and> suffix (take k PASTE_END) xs"
  using paste_end_facts(1) by (auto simp: take_Suc_conv_app_nth)

lemma marker_unique: "j < 6 \<Longrightarrow> k < 6 \<Longrightarrow> PASTE_END ! j = PASTE_END ! k \<Longrightarrow> j = k"
  using nth_eq_iff_index_eq [OF paste_end_facts(2)] paste_end_facts(1) by simp

lemma suffix_marker_unique:
  assumes "suffix (take j PASTE_END) xs" "suffix (take k PASTE_END) xs" "0 < j" "0 < k" "j \<le> 6" "k \<le> 6"
  shows "j = k"
proof -
  obtain j' k' where jk: "j = Suc j'" "k = Suc k'" "j' < 6" "k' < 6" using assms by (metis Suc_le_lessD gr0_conv_Suc)
  have "xs \<noteq> []" using assms(1) jk paste_end_facts(1) by (auto simp: take_Suc_conv_app_nth)
  then obtain ys b where xs: "xs = ys @ [b]" by (metis rev_exhaust)
  have "b = PASTE_END ! j'" "b = PASTE_END ! k'"
    using assms(1,2) unfolding xs jk(1,2) suffix_take_Suc [OF jk(3)] suffix_take_Suc [OF jk(4)] by blast+
  then have "PASTE_END ! j' = PASTE_END ! k'" by simp
  with jk marker_unique show ?thesis by blast
qed

lemma matches_step:
  assumes "matches xs m" "m < 6"
  shows "matches (xs @ [b]) (if b = PASTE_END ! m then m + 1 else if b = PASTE_END ! 0 then 1 else 0)"
    (is "matches _ ?n")
proof -
  have s: "suffix (take m PASTE_END) xs" using assms(1) by (simp add: matches_def)
  have iff: "suffix (take (Suc k) PASTE_END) (xs @ [b]) \<longleftrightarrow> b = PASTE_END ! k \<and> (k = 0 \<or> k = m)" if "k < 6" for k
  proof (cases "k = 0 \<or> k = m")
    case True
    then show ?thesis unfolding suffix_take_Suc [OF that] using s by auto
  next
    case False
    have "\<not> suffix (take k PASTE_END) xs"
    proof (cases "m < k")
      case True
      then show ?thesis using assms(1) that by (simp add: matches_def)
    next
      case no: False
      then show ?thesis using suffix_marker_unique [OF s, of k] False assms(2) by auto
    qed
    with False show ?thesis unfolding suffix_take_Suc [OF that] by simp
  qed
  have "suffix (take ?n PASTE_END) (xs @ [b])" using iff [of m] iff [of 0] assms(2) by auto
  moreover have "\<not> suffix (take k PASTE_END) (xs @ [b])" if "k \<le> 6" "?n < k" for k
  proof -
    have "0 < k" "k \<le> 6" using that(2) by (rule le_less_trans [OF le0]) (rule that(1))
    then obtain k' where k': "k = Suc k'" "k' < 6" by (cases k) auto
    show ?thesis
    proof
      assume "suffix (take k PASTE_END) (xs @ [b])"
      then have "b = PASTE_END ! k' \<and> (k' = 0 \<or> k' = m)" using iff [OF k'(2)] k'(1) by blast
      with that(2) k' show False by (auto split: if_splits)
    qed
  qed
  moreover have "?n \<le> 6" using assms(2) by simp
  ultimately show ?thesis by (simp add: matches_def)
qed

lemma matches_Nil: "matches [] 0"
proof -
  have "take k PASTE_END \<noteq> []" if "0 < k" "k \<le> 6" for k using that paste_end_facts(1) by auto
  then show ?thesis by (auto simp: matches_def)
qed

text \<open>The decoder in paste mode follows \<open>matches\<close>; a suppressed line feed cannot hide a part of the
  marker, since the carriage return before it matched nothing.\<close>

definition pasting :: "byte list \<Rightarrow> input_decoder \<Rightarrow> bool" where
  "pasting xs d \<longleftrightarrow> decoder_ok d \<and> (\<exists>m. id_escape d = Esc_Paste m \<and> matches xs m \<and> (id_suppress_lf d \<longrightarrow> m = 0))"

lemma feed_pasting:
  assumes "pasting xs d" "b \<noteq> 3" "\<not> sublist PASTE_END (xs @ [b])"
  shows "\<exists>d'. feed b d = (Ok Ev_None, d') \<and> pasting (xs @ [b]) d'"
proof -
  obtain m where m: "id_escape d = Esc_Paste m" "matches xs m" "id_suppress_lf d \<longrightarrow> m = 0" "m < 6"
    using assms(1) by (auto simp: pasting_def decoder_ok_def escape_ok_def)
  define n where "n = (if b = PASTE_END ! m then m + 1 else if b = PASTE_END ! 0 then 1 else 0)"
  have n: "matches (xs @ [b]) n" unfolding n_def by (rule matches_step [OF m(2,4)])
  have "n \<noteq> 6"
  proof
    assume "n = 6"
    then have "suffix PASTE_END (xs @ [b])" using n paste_end_facts(1) by (simp add: matches_def)
    with assms(3) show False by (auto intro: suffix_imp_sublist)
  qed
  obtain ev d' where f: "feed b d = (Ok ev, d')" "decoder_ok d'"
    using feed_ok [of d b] assms(1) by (auto simp: pasting_def decoded_def)
  show ?thesis
  proof (cases "id_suppress_lf d \<and> b = 10")
    case True
    have "PASTE_END ! m \<noteq> 10" "PASTE_END ! 0 \<noteq> 10" using paste_end_facts(1,9) m(4) by (metis nth_mem, simp add: paste_end_facts(3))
    with True m n assms(2) have "n = 0" "id_escape d' = Esc_Paste 0" "ev = Ev_None" "\<not> id_suppress_lf d'"
      using f(1) by (auto simp: feed_def n_def)
    with f n show ?thesis by (auto simp: pasting_def)
  next
    case False
    have "ev = Ev_None" "id_escape d' = Esc_Paste n" "id_suppress_lf d' \<longleftrightarrow> b = 13"
      using f(1) False assms(2) m \<open>n \<noteq> 6\<close>
      by (auto simp: feed_def paste_byte_def index_r_def paste_end_facts(1) n_def Let_def split: if_splits)
    moreover have "n = 0" if "b = 13"
    proof -
      have "PASTE_END ! m \<noteq> 13" using paste_end_facts(1,10) m(4) by (metis nth_mem)
      with that show ?thesis by (simp add: n_def paste_end_facts(3))
    qed
    ultimately show ?thesis using f n by (auto simp: pasting_def)
  qed
qed

lemma feed_all_pasting:
  assumes "pasting xs d" "3 \<notin> set body" "\<not> sublist PASTE_END (xs @ body)"
  shows "\<exists>d'. feed_all body d = (Ok (replicate (length body) Ev_None), d') \<and> pasting (xs @ body) d'"
  using assms
proof (induction body arbitrary: xs d)
  case (Cons b body)
  have "\<not> sublist PASTE_END (xs @ [b])"
    using Cons.prems(3) by (metis append.assoc append_Cons append_Nil sublist_appendI sublist_order.order.trans sublist_append_rightI)
  then obtain d1 where d1: "feed b d = (Ok Ev_None, d1)" "pasting (xs @ [b]) d1"
    using feed_pasting [OF Cons.prems(1)] Cons.prems(2) by auto
  obtain d2 where "feed_all body d1 = (Ok (replicate (length body) Ev_None), d2)" "pasting (xs @ b # body) d2"
    using Cons.IH [OF d1(2)] Cons.prems by auto
  with feed_all_Cons [OF d1(1)] show ?case by auto
qed (simp add: aret_def)

lemma feed_marker_byte:
  assumes "id_escape d = Esc_Paste k" "k < 6"
  shows "feed (PASTE_END ! k) d =
    (Ok Ev_None, if k = 5 then end_escape (d\<lparr>id_suppress_lf := False\<rparr>)
                 else d\<lparr>id_suppress_lf := False, id_escape := Esc_Paste (k + 1)\<rparr>)"
proof -
  have "PASTE_END ! k \<in> set PASTE_END" using assms(2) paste_end_facts(1) by simp
  then have "PASTE_END ! k \<noteq> 3" "PASTE_END ! k \<noteq> 10" "PASTE_END ! k \<noteq> 13" using paste_end_facts by metis+
  then show ?thesis
    using assms paste_end_facts(1) by (simp add: feed_def paste_byte_def index_r_def Let_def)
qed

lemma feed_marker_rest:
  assumes "id_escape d = Esc_Paste k" "k < 6"
  shows "\<exists>d'. feed_all (drop k PASTE_END) d = (Ok (replicate (6 - k) Ev_None), d') \<and>
    id_escape d' = Esc_None \<and> id_utf8_len d' = id_utf8_len d"
  using assms
proof (induction "5 - k" arbitrary: k d)
  case 0
  then have k: "k = 5" by simp
  then have "drop k PASTE_END = [PASTE_END ! 5]" using paste_end_facts by (simp add: PASTE_END_def)
  with feed_marker_byte [OF 0(2,3)] k show ?case by (simp add: abind_def aret_def end_escape_def)
next
  case (Suc n)
  let ?d = "d\<lparr>id_suppress_lf := False, id_escape := Esc_Paste (k + 1)\<rparr>"
  have step: "feed (PASTE_END ! k) d = (Ok Ev_None, ?d)" using feed_marker_byte [OF Suc(3,4)] Suc(2) by simp
  have "n = 5 - (k + 1)" "k + 1 < 6" using Suc(2) by simp_all
  from Suc(1) [OF this(1) _ this(2), of ?d] obtain d' where
      d': "feed_all (drop (k + 1) PASTE_END) ?d = (Ok (replicate (6 - (k + 1)) Ev_None), d')"
      "id_escape d' = Esc_None" "id_utf8_len d' = id_utf8_len d"
    by auto
  have "drop k PASTE_END = PASTE_END ! k # drop (k + 1) PASTE_END"
    using Suc(4) paste_end_facts(1) by (simp add: Cons_nth_drop_Suc)
  moreover have "replicate (6 - k) Ev_None = Ev_None # replicate (6 - (k + 1)) Ev_None"
    using Suc(2) by (metis Suc_diff_Suc Suc_eq_plus1 Suc(4) replicate_Suc)
  ultimately show ?case using feed_all_Cons [OF step d'(1)] d'(2,3) by auto
qed

lemma feed_marker:
  assumes "pasting xs d"
  shows "\<exists>d'. feed_all PASTE_END d = (Ok (replicate 6 Ev_None), d') \<and> \<not> is_pending d'"
proof -
  obtain m where m: "id_escape d = Esc_Paste m" "m < 6" "id_utf8_len d = 0"
    using assms escape_no_utf8 [of d] by (auto simp: pasting_def decoder_ok_def escape_ok_def)
  define e where "e = d\<lparr>id_suppress_lf := False, id_escape := Esc_Paste 1\<rparr>"
  have first: "feed 27 d = (Ok Ev_None, e)"
    using m paste_end_facts(1,3) marker_unique [of m 0]
    by (auto simp: feed_def paste_byte_def index_r_def Let_def e_def)
  obtain d' where d': "feed_all (drop 1 PASTE_END) e = (Ok (replicate (6 - 1) Ev_None), d')"
      "id_escape d' = Esc_None" "id_utf8_len d' = id_utf8_len e"
    using feed_marker_rest [of e 1] by (auto simp: e_def)
  have "PASTE_END = 27 # drop 1 PASTE_END" by (simp add: PASTE_END_def)
  moreover have "replicate 6 Ev_None = Ev_None # replicate (6 - 1) Ev_None" by (simp add: numeral_eq_Suc)
  ultimately show ?thesis
    using feed_all_Cons [OF first d'(1)] d'(2,3) m(3) by (auto simp: is_pending_def e_def)
qed

lemma feed_paste_start:
  "\<exists>d. feed_all [27, 91, 50, 48, 48, 126] decoder_new =
     (Ok (replicate 5 Ev_None @ [Ev_Rejected I_UnsupportedEscape]), d) \<and> pasting [] d"
proof -
  have "feed_all [27, 91, 50, 48, 48, 126] decoder_new =
      (Ok (replicate 5 Ev_None @ [Ev_Rejected I_UnsupportedEscape]),
       decoder_new\<lparr>id_escape_bytes := [27, 91, 50, 48, 48, 126, 0, 0, 0, 0, 0, 0], id_escape := Esc_Paste 0\<rparr>)"
    by code_simp
  moreover have "pasting [] (decoder_new\<lparr>id_escape_bytes := [27, 91, 50, 48, 48, 126, 0, 0, 0, 0, 0, 0],
      id_escape := Esc_Paste 0\<rparr>)"
    using matches_Nil by (auto simp: pasting_def decoder_ok_defs decoder_new_def)
  ultimately show ?thesis by blast
qed

text \<open>Pasted text is never replayed: between the start and the end marker of a bracketed paste
  every byte except Ctrl-C is swallowed, Enter included; only the start marker is reported as an
  unsupported sequence, and the first end marker ends the paste with nothing pending.\<close>

theorem paste_discarded:
  assumes "3 \<notin> set body" and "\<not> sublist PASTE_END body"
  shows "\<exists>d. feed_all ([27, 91, 50, 48, 48, 126] @ body @ PASTE_END) decoder_new =
    (Ok (replicate 5 Ev_None @ [Ev_Rejected I_UnsupportedEscape] @ replicate (length body + 6) Ev_None), d) \<and>
    \<not> is_pending d"
proof -
  obtain d where d: "feed_all [27, 91, 50, 48, 48, 126] decoder_new =
      (Ok (replicate 5 Ev_None @ [Ev_Rejected I_UnsupportedEscape]), d)" "pasting [] d"
    using feed_paste_start by blast
  obtain e where e: "feed_all body d = (Ok (replicate (length body) Ev_None), e)" "pasting body e"
    using feed_all_pasting [OF d(2) assms(1)] assms(2) by auto
  obtain f where f: "feed_all PASTE_END e = (Ok (replicate 6 Ev_None), f)" "\<not> is_pending f"
    using feed_marker [OF e(2)] by blast
  from feed_all_append [OF d(1) feed_all_append [OF e(1) f(1)]] f(2) show ?thesis
    by (auto simp: replicate_add)
qed

theorem paste_discarded_witness:
  "\<exists>d. feed_all ([27, 91, 50, 48, 48, 126] @ [114, 109, 13, 10] @ PASTE_END) decoder_new =
    (Ok (replicate 5 Ev_None @ [Ev_Rejected I_UnsupportedEscape] @ replicate 10 Ev_None), d)"
proof -
  have "\<not> sublist PASTE_END [114, 109, 13, 10]"
    using sublist_length_le [of PASTE_END "[114, 109, 13, 10]"] paste_end_facts(1) by auto
  with paste_discarded [of "[114, 109, 13, 10]"] show ?thesis by auto
qed

end
