(* ===== verification/ShellHistory.thy ===== *)
theory ShellHistory
  imports Bytes
begin

text \<open>
  The command history of the shell (\<^verbatim>\<open>wyrmroot-wyrmsh-core/src/history.rs\<close>): at most 32 entries
  whose bytes live in a ring of 16 KiB. The lengths of the two arrays are part of their Rust types,
  so an index taken modulo the length is in range; the two subtractions of \<^verbatim>\<open>evict_oldest\<close> can
  underflow and are a panic of the model. The abstraction of a history is the list of its lines,
  oldest first; every operation is shown to implement its specification on that list.
\<close>

definition MAX_HISTORY_ENTRIES :: nat where "MAX_HISTORY_ENTRIES = 32"
definition HISTORY_ARENA_BYTES :: nat where "HISTORY_ARENA_BYTES = 16384"

record history_entry =
  he_start :: u16
  he_len :: u16

record history =
  hi_arena :: "byte list"
  hi_entries :: "history_entry list"
  hi_head :: nat
  hi_len :: nat
  hi_bytes :: nat
  hi_write :: nat

definition history_new :: history where
  "history_new =
     \<lparr>hi_arena = replicate HISTORY_ARENA_BYTES 0,
      hi_entries = replicate MAX_HISTORY_ENTRIES \<lparr>he_start = 0, he_len = 0\<rparr>,
      hi_head = 0, hi_len = 0, hi_bytes = 0, hi_write = 0\<rparr>"

definition history_entry_at :: "history \<Rightarrow> nat \<Rightarrow> history_entry" where
  "history_entry_at h i = hi_entries h ! ((hi_head h + i) mod MAX_HISTORY_ENTRIES)"

definition entry_equals :: "history \<Rightarrow> nat \<Rightarrow> byte list \<Rightarrow> bool" where
  "entry_equals h i line =
     (let entry = history_entry_at h i; start = unat (he_start entry) in
      unat (he_len entry) = length line \<and>
      list_all (\<lambda>(offset, byte). hi_arena h ! ((start + offset) mod HISTORY_ARENA_BYTES) = byte)
        (enumerate 0 line))"

definition evict_oldest :: "history \<Rightarrow> (unit, history) res" where
  "evict_oldest h =
     (let entry = hi_entries h ! hi_head h in
      if hi_bytes h < unat (he_len entry) \<or> hi_len h = 0 then Panic
      else Ok (h\<lparr>hi_bytes := hi_bytes h - unat (he_len entry),
                 hi_head := (hi_head h + 1) mod MAX_HISTORY_ENTRIES,
                 hi_len := hi_len h - 1\<rparr>))"

lemma evict_oldest_shorter: "evict_oldest h = Ok h' \<Longrightarrow> hi_len h' < hi_len h"
  by (auto simp: evict_oldest_def Let_def split: if_splits)

text \<open>The loop \<^verbatim>\<open>while self.len == MAX_HISTORY_ENTRIES || self.bytes + line.len() > ..\<close>.\<close>

function evict_until :: "nat \<Rightarrow> history \<Rightarrow> (unit, history) res" where
  "evict_until n h =
     (if hi_len h = MAX_HISTORY_ENTRIES \<or> HISTORY_ARENA_BYTES < hi_bytes h + n
      then (case evict_oldest h of Ok h' \<Rightarrow> evict_until n h' | Err e \<Rightarrow> Err e | Panic \<Rightarrow> Panic)
      else Ok h)"
  by pat_completeness auto
termination
  by (relation "measure (\<lambda>(_, h). hi_len h)") (auto dest: evict_oldest_shorter)

declare evict_until.simps [simp del]

fun write_line :: "byte list \<Rightarrow> history \<Rightarrow> history" where
  "write_line [] h = h"
| "write_line (byte # rest) h =
     write_line rest (h\<lparr>hi_arena := (hi_arena h)[hi_write h := byte],
                        hi_write := (hi_write h + 1) mod HISTORY_ARENA_BYTES\<rparr>)"

definition append_line :: "byte list \<Rightarrow> history \<Rightarrow> history" where
  "append_line line h =
     (let start = hi_write h;
          h' = write_line line h;
          slot = (hi_head h' + hi_len h') mod MAX_HISTORY_ENTRIES
      in h'\<lparr>hi_entries := (hi_entries h')[slot :=
               \<lparr>he_start = word_of_nat start, he_len = word_of_nat (length line)\<rparr>],
            hi_len := hi_len h' + 1,
            hi_bytes := hi_bytes h' + length line\<rparr>)"

definition history_push :: "byte list \<Rightarrow> history \<Rightarrow> (unit, history) res" where
  "history_push line h =
     (if line = [] \<or> HISTORY_ARENA_BYTES < length line then Ok h
      else if hi_len h \<noteq> 0 \<and> entry_equals h (hi_len h - 1) line then Ok h
      else rbind (evict_until (length line) h) (\<lambda>h'. Ok (append_line line h')))"

text \<open>Copies an entry over the start of \<open>output\<close>; the slice \<^verbatim>\<open>output[..len]\<close> panics when the entry is
  longer than the buffer.\<close>

definition copy_entry :: "history \<Rightarrow> nat \<Rightarrow> byte list \<Rightarrow> (unit, nat \<times> byte list) res" where
  "copy_entry h i output =
     (let entry = history_entry_at h i; len = unat (he_len entry); start = unat (he_start entry) in
      if len \<le> length output
      then Ok (len, map (\<lambda>offset. hi_arena h ! ((start + offset) mod HISTORY_ARENA_BYTES)) [0..<len] @
                    drop len output)
      else Panic)"

subsection \<open>The lines of a history and the layout of the ring\<close>

definition entry_lengths :: "history \<Rightarrow> nat list" where
  "entry_lengths h = map (\<lambda>i. unat (he_len (history_entry_at h i))) [0..<hi_len h]"

definition entry_bytes :: "history \<Rightarrow> nat \<Rightarrow> byte list" where
  "entry_bytes h i =
     map (\<lambda>offset. hi_arena h ! ((unat (he_start (history_entry_at h i)) + offset) mod HISTORY_ARENA_BYTES))
       [0..<unat (he_len (history_entry_at h i))]"

definition history_lines :: "history \<Rightarrow> byte list list" where
  "history_lines h = map (entry_bytes h) [0..<hi_len h]"

text \<open>From the oldest byte at \<open>t\<close>, the entries follow each other in the ring and end at the write
  position.\<close>

definition laid_out :: "nat \<Rightarrow> history \<Rightarrow> bool" where
  "laid_out t h \<longleftrightarrow>
     hi_bytes h = sum_list (entry_lengths h) \<and>
     hi_write h = (t + hi_bytes h) mod HISTORY_ARENA_BYTES \<and>
     (\<forall>i < hi_len h. unat (he_start (history_entry_at h i)) =
        (t + sum_list (take i (entry_lengths h))) mod HISTORY_ARENA_BYTES)"

definition history_ok :: "history \<Rightarrow> bool" where
  "history_ok h \<longleftrightarrow>
     length (hi_arena h) = HISTORY_ARENA_BYTES \<and> length (hi_entries h) = MAX_HISTORY_ENTRIES \<and>
     hi_head h < MAX_HISTORY_ENTRIES \<and> hi_len h \<le> MAX_HISTORY_ENTRIES \<and>
     hi_bytes h \<le> HISTORY_ARENA_BYTES \<and> (\<exists>t. laid_out t h)"

lemmas history_sizes = MAX_HISTORY_ENTRIES_def HISTORY_ARENA_BYTES_def

lemma length_history_lines [simp]: "length (history_lines h) = hi_len h"
  by (simp add: history_lines_def)

lemma length_entry_bytes [simp]: "length (entry_bytes h i) = unat (he_len (history_entry_at h i))"
  by (simp add: entry_bytes_def)

lemma map_length_history_lines: "map length (history_lines h) = entry_lengths h"
  by (simp add: history_lines_def entry_lengths_def comp_def)

lemma history_new_ok: "history_ok history_new"
proof -
  have "laid_out 0 history_new" by (simp add: laid_out_def history_new_def entry_lengths_def)
  then show ?thesis by (auto simp: history_ok_def history_new_def history_sizes)
qed

lemma history_new_lines: "history_lines history_new = []"
  by (simp add: history_lines_def history_new_def)

subsection \<open>Evicting the oldest line\<close>

lemma history_bytes_eq: "history_ok h \<Longrightarrow> hi_bytes h = sum_list (map length (history_lines h))"
  by (auto simp: history_ok_def laid_out_def map_length_history_lines)

lemma upt_shift: "0 < n \<Longrightarrow> [0..<n] = 0 # map Suc [0..<n - 1]"
  by (simp add: map_Suc_upt upt_conv_Cons)

lemma entry_after_evict:
  assumes "h' = h\<lparr>hi_bytes := b, hi_head := (hi_head h + 1) mod MAX_HISTORY_ENTRIES, hi_len := n\<rparr>"
  shows "history_entry_at h' i = history_entry_at h (Suc i)"
  unfolding assms by (simp add: history_entry_at_def mod_simps)

lemma evict_oldest_spec:
  assumes "history_ok h" and "hi_len h \<noteq> 0"
  shows "\<exists>h'. evict_oldest h = Ok h' \<and> history_ok h' \<and> history_lines h' = tl (history_lines h)"
proof -
  from assms(1) obtain t where t: "laid_out t h" by (auto simp: history_ok_def)
  let ?l = "unat (he_len (history_entry_at h 0))"
  have e0: "history_entry_at h 0 = hi_entries h ! hi_head h"
    using assms(1) by (simp add: history_entry_at_def history_ok_def)
  have n: "[0..<hi_len h] = 0 # map Suc [0..<hi_len h - 1]" using upt_shift assms(2) by simp
  have len: "entry_lengths h = ?l # map (\<lambda>i. unat (he_len (history_entry_at h (Suc i)))) [0..<hi_len h - 1]"
    unfolding entry_lengths_def n by (simp add: comp_def)
  define h' where "h' = h\<lparr>hi_bytes := hi_bytes h - ?l,
      hi_head := (hi_head h + 1) mod MAX_HISTORY_ENTRIES, hi_len := hi_len h - 1\<rparr>"
  note at = entry_after_evict [OF h'_def]
  have le: "?l \<le> hi_bytes h" using t len by (simp add: laid_out_def)
  have len': "entry_lengths h' = tl (entry_lengths h)"
    unfolding len by (simp add: entry_lengths_def at) (simp add: h'_def)
  have lines: "history_lines h' = tl (history_lines h)"
    unfolding history_lines_def entry_bytes_def n at by (simp add: h'_def)
  have "laid_out (t + ?l) h'"
    unfolding laid_out_def
  proof (intro conjI allI impI)
    show "hi_bytes h' = sum_list (entry_lengths h')"
      unfolding len' using t len by (simp add: laid_out_def h'_def)
    show "hi_write h' = (t + ?l + hi_bytes h') mod HISTORY_ARENA_BYTES"
      using t le by (simp add: laid_out_def h'_def)
  next
    fix i
    assume i: "i < hi_len h'"
    then have "Suc i < hi_len h" by (simp add: h'_def)
    then have "unat (he_start (history_entry_at h (Suc i))) =
        (t + sum_list (take (Suc i) (entry_lengths h))) mod HISTORY_ARENA_BYTES"
      using t by (simp add: laid_out_def)
    also have "sum_list (take (Suc i) (entry_lengths h)) = ?l + sum_list (take i (entry_lengths h'))"
      unfolding len' len by simp
    finally show "unat (he_start (history_entry_at h' i)) =
        (t + ?l + sum_list (take i (entry_lengths h'))) mod HISTORY_ARENA_BYTES"
      by (simp add: at add.assoc)
  qed
  then have "history_ok h'" using assms(1) by (auto simp: history_ok_def h'_def history_sizes)
  moreover have "evict_oldest h = Ok h'"
    using le assms(2) by (simp add: evict_oldest_def h'_def e0)
  ultimately show ?thesis using lines by blast
qed

subsection \<open>Writing a line into the ring\<close>

lemma ring_position_le:
  fixes x y t n :: nat
  assumes "(t + x) mod n = (t + y) mod n" and "x \<le> y" and "y < n"
  shows "x = y"
proof -
  have "n dvd (t + y) - (t + x)" using assms(1,2) mod_eq_dvd_iff_nat [of "t + x" "t + y" n] by simp
  then have "n dvd y - x" by simp
  with assms(2,3) show ?thesis by (metis dvd_imp_le diff_is_0_eq le_antisym less_imp_diff_less linorder_not_le
      zero_less_iff_neq_zero)
qed

lemma ring_position_inject:
  fixes x y t n :: nat
  assumes "(t + x) mod n = (t + y) mod n" and "x < n" and "y < n"
  shows "x = y"
proof (cases "x \<le> y")
  case True
  then show ?thesis using ring_position_le assms by blast
next
  case False
  then show ?thesis using ring_position_le [of t y n x] assms by simp
qed

lemma write_line_frame [simp]:
  "hi_entries (write_line bs h) = hi_entries h" "hi_head (write_line bs h) = hi_head h"
  "hi_len (write_line bs h) = hi_len h" "hi_bytes (write_line bs h) = hi_bytes h"
  "length (hi_arena (write_line bs h)) = length (hi_arena h)"
  by (induction bs h rule: write_line.induct) simp_all

lemma write_line_write:
  assumes "hi_write h = w mod HISTORY_ARENA_BYTES"
  shows "hi_write (write_line bs h) = (w + length bs) mod HISTORY_ARENA_BYTES"
  using assms
proof (induction bs h arbitrary: w rule: write_line.induct)
  case (2 b bs h)
  have "(hi_write h + 1) mod HISTORY_ARENA_BYTES = (w + 1) mod HISTORY_ARENA_BYTES"
    unfolding 2(2) by (simp add: mod_simps)
  with 2(1) [of "w + 1"] show ?case by simp
qed simp

text \<open>Positions before the written stretch keep their byte, the stretch holds the line.\<close>

lemma write_line_arena:
  assumes "hi_write h = (t + m) mod HISTORY_ARENA_BYTES" and "m + length bs \<le> HISTORY_ARENA_BYTES"
    and "length (hi_arena h) = HISTORY_ARENA_BYTES" and "k < m + length bs"
  shows "hi_arena (write_line bs h) ! ((t + k) mod HISTORY_ARENA_BYTES) =
    (if k < m then hi_arena h ! ((t + k) mod HISTORY_ARENA_BYTES) else bs ! (k - m))"
  using assms
proof (induction bs h arbitrary: m rule: write_line.induct)
  case (2 b bs h)
  let ?h = "h\<lparr>hi_arena := (hi_arena h)[hi_write h := b], hi_write := (hi_write h + 1) mod HISTORY_ARENA_BYTES\<rparr>"
  have w: "hi_write ?h = (t + Suc m) mod HISTORY_ARENA_BYTES" using 2(2) by (simp add: mod_simps)
  have at: "hi_arena ?h ! ((t + k) mod HISTORY_ARENA_BYTES) =
      (if k = m then b else hi_arena h ! ((t + k) mod HISTORY_ARENA_BYTES))"
  proof (cases "k = m")
    case True
    then show ?thesis using 2(2,4) by (simp add: HISTORY_ARENA_BYTES_def)
  next
    case False
    then have "(t + k) mod HISTORY_ARENA_BYTES \<noteq> (t + m) mod HISTORY_ARENA_BYTES"
      using ring_position_inject [of t k HISTORY_ARENA_BYTES m] 2(3,5) by auto
    then show ?thesis using 2(2) False by simp
  qed
  have "hi_arena (write_line bs ?h) ! ((t + k) mod HISTORY_ARENA_BYTES) =
      (if k < Suc m then hi_arena ?h ! ((t + k) mod HISTORY_ARENA_BYTES) else bs ! (k - Suc m))"
    by (rule 2(1) [OF w]) (use 2(3-5) in simp_all)
  moreover have "(b # bs) ! (k - m) = bs ! (k - Suc m)" if "m < k"
    using that by (simp add: nth_Cons')
  ultimately show ?case using at by (auto simp: less_Suc_eq)
qed simp

subsection \<open>Appending a line\<close>

lemma entry_after_append:
  assumes "history_ok h" and "hi_len h < MAX_HISTORY_ENTRIES" and "i \<le> hi_len h"
  shows "history_entry_at (append_line line h) i =
    (if i = hi_len h then \<lparr>he_start = word_of_nat (hi_write h), he_len = word_of_nat (length line)\<rparr>
     else history_entry_at h i)"
proof -
  have slot: "(hi_head h + i) mod MAX_HISTORY_ENTRIES \<noteq> (hi_head h + hi_len h) mod MAX_HISTORY_ENTRIES"
    if "i < hi_len h"
    using ring_position_inject [of "hi_head h" i MAX_HISTORY_ENTRIES "hi_len h"] that assms(2) by auto
  show ?thesis
  proof (cases "i = hi_len h")
    case True
    then show ?thesis
      using assms(1) by (simp add: append_line_def history_entry_at_def Let_def history_ok_def MAX_HISTORY_ENTRIES_def)
  next
    case False
    then show ?thesis
      using assms(3) slot by (simp add: append_line_def history_entry_at_def Let_def)
  qed
qed

lemma append_line_spec:
  assumes "history_ok h" and "hi_len h < MAX_HISTORY_ENTRIES"
    and "hi_bytes h + length line \<le> HISTORY_ARENA_BYTES"
  shows "history_ok (append_line line h) \<and> history_lines (append_line line h) = history_lines h @ [line]"
proof -
  let ?h = "append_line line h"
  from assms(1) obtain t where t: "laid_out t h" by (auto simp: history_ok_def)
  have frame: "hi_len ?h = Suc (hi_len h)" "hi_bytes ?h = hi_bytes h + length line"
      "hi_head ?h = hi_head h" "hi_arena ?h = hi_arena (write_line line h)"
      "hi_write ?h = hi_write (write_line line h)"
    by (simp_all add: append_line_def Let_def)
  have wr: "hi_write h = (t + hi_bytes h) mod HISTORY_ARENA_BYTES" using t by (simp add: laid_out_def)
  have small: "unat (word_of_nat (hi_write h) :: u16) = hi_write h"
      "unat (word_of_nat (length line) :: u16) = length line"
    using wr assms(3) by (auto simp: unat_of_nat HISTORY_ARENA_BYTES_def)
  note at = entry_after_append [OF assms(1,2), of _ line]
  have len: "entry_lengths ?h = entry_lengths h @ [length line]"
    unfolding entry_lengths_def frame by (simp add: at small)
  have arena: "hi_arena ?h ! ((t + k) mod HISTORY_ARENA_BYTES) =
      (if k < hi_bytes h then hi_arena h ! ((t + k) mod HISTORY_ARENA_BYTES) else line ! (k - hi_bytes h))"
    if "k < hi_bytes h + length line" for k
    unfolding frame by (rule write_line_arena [OF wr assms(3) _ that]) (use assms(1) in \<open>simp add: history_ok_def\<close>)
  have start: "unat (he_start (history_entry_at ?h i)) =
      (t + sum_list (take i (entry_lengths ?h))) mod HISTORY_ARENA_BYTES" if "i < hi_len ?h" for i
  proof (cases "i = hi_len h")
    case True
    have "take i (entry_lengths ?h) = entry_lengths h" unfolding len True by (simp add: entry_lengths_def)
    moreover have "sum_list (entry_lengths h) = hi_bytes h" using t by (simp add: laid_out_def)
    ultimately show ?thesis using at [of i] True wr small(1) by simp
  next
    case False
    then have "i < hi_len h" "i \<le> hi_len h" using that frame by auto
    moreover from this have "take i (entry_lengths ?h) = take i (entry_lengths h)"
      unfolding len by (simp add: entry_lengths_def)
    ultimately show ?thesis using t False at [of i] by (simp add: laid_out_def)
  qed
  have "laid_out t ?h"
    unfolding laid_out_def using start len t wr write_line_write [of h "t + hi_bytes h" line]
    by (simp add: frame laid_out_def add.assoc)
  then have ok: "history_ok ?h"
    using assms by (auto simp: history_ok_def frame) (auto simp: append_line_def Let_def)
  have kept: "entry_bytes ?h i = entry_bytes h i" if i: "i < hi_len h" for i
  proof -
    have e: "history_entry_at ?h i = history_entry_at h i" using at [of i] i by simp
    have s: "unat (he_start (history_entry_at h i)) = (t + sum_list (take i (entry_lengths h))) mod HISTORY_ARENA_BYTES"
      using t i by (simp add: laid_out_def)
    have "entry_lengths h ! i = unat (he_len (history_entry_at h i))" using i by (simp add: entry_lengths_def)
    moreover have "sum_list (entry_lengths h) = sum_list (take i (entry_lengths h)) + (entry_lengths h ! i +
        sum_list (drop (Suc i) (entry_lengths h)))"
      using i by (metis Cons_nth_drop_Suc append_take_drop_id entry_lengths_def length_map length_upt
          minus_nat.diff_0 sum_list.Cons sum_list.append)
    ultimately have b: "sum_list (take i (entry_lengths h)) + unat (he_len (history_entry_at h i)) \<le> hi_bytes h"
      using t by (simp add: laid_out_def)
    show ?thesis
      unfolding entry_bytes_def e s
    proof (rule map_cong [OF refl])
      fix k
      assume "k \<in> set [0..<unat (he_len (history_entry_at h i))]"
      then have "sum_list (take i (entry_lengths h)) + k < hi_bytes h" using b by simp
      with arena [of "sum_list (take i (entry_lengths h)) + k"]
      show "hi_arena ?h ! (((t + sum_list (take i (entry_lengths h))) mod HISTORY_ARENA_BYTES + k) mod HISTORY_ARENA_BYTES) =
          hi_arena h ! (((t + sum_list (take i (entry_lengths h))) mod HISTORY_ARENA_BYTES + k) mod HISTORY_ARENA_BYTES)"
        by (simp add: mod_simps add.assoc)
    qed
  qed
  have new: "entry_bytes ?h (hi_len h) = line"
    unfolding entry_bytes_def at [OF order_refl] wr
    by (rule nth_equalityI)
      (use arena small(2) in \<open>simp_all add: small(1) [unfolded wr] mod_simps add.assoc\<close>)
  have "history_lines ?h = history_lines h @ [line]"
    unfolding history_lines_def frame using kept new by simp
  with ok show ?thesis ..
qed

subsection \<open>The specification on lists of lines\<close>

definition too_full :: "nat \<Rightarrow> byte list list \<Rightarrow> bool" where
  "too_full n ls \<longleftrightarrow> length ls = MAX_HISTORY_ENTRIES \<or> HISTORY_ARENA_BYTES < sum_list (map length ls) + n"

fun make_room :: "nat \<Rightarrow> byte list list \<Rightarrow> byte list list" where
  "make_room n [] = []"
| "make_room n (l # ls) = (if too_full n (l # ls) then make_room n ls else l # ls)"

definition remember :: "byte list \<Rightarrow> byte list list \<Rightarrow> byte list list" where
  "remember line ls =
     (if line = [] \<or> HISTORY_ARENA_BYTES < length line \<or> (ls \<noteq> [] \<and> last ls = line) then ls
      else make_room (length line) ls @ [line])"

lemma make_room_suffix: "\<exists>old. ls = old @ make_room n ls"
proof (induction ls)
  case (Cons l ls)
  then obtain old where old: "ls = old @ make_room n ls" by blast
  show ?case
  proof (cases "too_full n (l # ls)")
    case True
    with old have "l # ls = (l # old) @ make_room n (l # ls)" by simp
    then show ?thesis by blast
  qed simp
qed simp

lemma make_room_fits: "n \<le> HISTORY_ARENA_BYTES \<Longrightarrow> \<not> too_full n (make_room n ls)"
  by (induction ls) (auto simp: too_full_def history_sizes)

lemma remember_subset: "set (remember line ls) \<subseteq> insert line (set ls)"
proof -
  obtain old where "ls = old @ make_room (length line) ls" using make_room_suffix by blast
  then have "set (make_room (length line) ls) \<subseteq> set ls" by (metis UnCI set_append subsetI)
  then show ?thesis by (auto simp: remember_def)
qed

lemma evict_until_spec:
  assumes "history_ok h" and "n \<le> HISTORY_ARENA_BYTES"
  shows "\<exists>h'. evict_until n h = Ok h' \<and> history_ok h' \<and> history_lines h' = make_room n (history_lines h)"
  using assms
proof (induction n h rule: evict_until.induct)
  case (1 n h)
  have full: "too_full n (history_lines h) \<longleftrightarrow>
      hi_len h = MAX_HISTORY_ENTRIES \<or> HISTORY_ARENA_BYTES < hi_bytes h + n"
    using history_bytes_eq [OF 1(2)] by (simp add: too_full_def)
  show ?case
  proof (cases "too_full n (history_lines h)")
    case True
    have "hi_len h \<noteq> 0"
    proof
      assume "hi_len h = 0"
      then have "history_lines h = []" by (simp add: history_lines_def)
      with True 1(3) show False by (simp add: too_full_def MAX_HISTORY_ENTRIES_def)
    qed
    from evict_oldest_spec [OF 1(2) this] obtain h1 where h1: "evict_oldest h = Ok h1" "history_ok h1"
        "history_lines h1 = tl (history_lines h)" by blast
    have c: "history_lines h \<noteq> []" using \<open>hi_len h \<noteq> 0\<close> by (metis length_history_lines list.size(3))
    have "make_room n (history_lines h) = make_room n (tl (history_lines h))"
      using True c by (cases "history_lines h") auto
    with 1(1) [OF full [THEN iffD1, OF True] h1(1) h1(2) 1(3)] h1 True full show ?thesis
      by (subst evict_until.simps) simp
  next
    case False
    then have "make_room n (history_lines h) = history_lines h" by (cases "history_lines h") auto
    with False full 1(2) show ?thesis by (subst evict_until.simps) simp
  qed
qed

lemma entry_equals_iff: "entry_equals h i line \<longleftrightarrow> entry_bytes h i = line"
proof (cases "unat (he_len (history_entry_at h i)) = length line")
  case True
  then have "entry_bytes h i ! k = hi_arena h ! ((unat (he_start (history_entry_at h i)) + k) mod HISTORY_ARENA_BYTES)"
    if "k < length line" for k
    using that by (simp add: entry_bytes_def)
  with True show ?thesis
    by (simp add: entry_equals_def Let_def list_all_length nth_enumerate_eq list_eq_iff_nth_eq)
next
  case False
  then have "length (entry_bytes h i) \<noteq> length line" by simp
  with False show ?thesis by (auto simp: entry_equals_def Let_def)
qed

lemma history_push_spec:
  assumes "history_ok h"
  shows "\<exists>h'. history_push line h = Ok h' \<and> history_ok h' \<and>
    history_lines h' = remember line (history_lines h)"
proof -
  let ?same = "hi_len h \<noteq> 0 \<and> entry_equals h (hi_len h - 1) line"
  have e: "history_lines h \<noteq> [] \<longleftrightarrow> hi_len h \<noteq> 0" by (metis length_0_conv length_history_lines)
  have "last (history_lines h) = entry_bytes h (hi_len h - 1)" if "hi_len h \<noteq> 0"
    using that e by (simp add: last_conv_nth) (simp add: history_lines_def)
  then have same: "?same \<longleftrightarrow> history_lines h \<noteq> [] \<and> last (history_lines h) = line"
    using e entry_equals_iff by auto
  show ?thesis
  proof (cases "line = [] \<or> HISTORY_ARENA_BYTES < length line \<or> ?same")
    case True
    with same have "history_push line h = Ok h" "remember line (history_lines h) = history_lines h"
      unfolding history_push_def remember_def by auto
    with assms show ?thesis by simp
  next
    case False
    then have n: "length line \<le> HISTORY_ARENA_BYTES" by simp
    obtain h1 where h1: "evict_until (length line) h = Ok h1" "history_ok h1"
        "history_lines h1 = make_room (length line) (history_lines h)"
      using evict_until_spec [OF assms n] by blast
    have "\<not> too_full (length line) (history_lines h1)" using make_room_fits [OF n] h1(3) by simp
    then have "hi_len h1 < MAX_HISTORY_ENTRIES" "hi_bytes h1 + length line \<le> HISTORY_ARENA_BYTES"
      using h1(2) by (auto simp: too_full_def history_bytes_eq [OF h1(2)] history_ok_def)
    from append_line_spec [OF h1(2) this] h1 False same show ?thesis
      by (auto simp: history_push_def remember_def)
  qed
qed

lemma copy_entry_spec:
  assumes "i < hi_len h" and "length (history_lines h ! i) \<le> length output"
  shows "copy_entry h i output =
    Ok (length (history_lines h ! i), history_lines h ! i @ drop (length (history_lines h ! i)) output)"
proof -
  have "history_lines h ! i = entry_bytes h i" using assms(1) by (simp add: history_lines_def)
  with assms(2) show ?thesis by (simp add: copy_entry_def entry_bytes_def Let_def)
qed

subsection \<open>The contract of a line store\<close>

text \<open>What the line editor relies on: a store of lines, oldest first, that takes a line without
  failing and copies a line out without changing the rest of the buffer.\<close>

locale line_store =
  fixes ok :: "'h \<Rightarrow> bool" and lines :: "'h \<Rightarrow> byte list list" and empty :: 'h
    and push :: "byte list \<Rightarrow> 'h \<Rightarrow> (unit, 'h) res"
    and copy :: "'h \<Rightarrow> nat \<Rightarrow> byte list \<Rightarrow> (unit, nat \<times> byte list) res"
    and keep :: "byte list \<Rightarrow> byte list list \<Rightarrow> byte list list"
  assumes empty: "ok empty" "lines empty = []"
    and push: "ok h \<Longrightarrow> \<exists>h'. push l h = Ok h' \<and> ok h' \<and> lines h' = keep l (lines h)"
    and keep: "set (keep l ls) \<subseteq> insert l (set ls)"
    and copy: "i < length (lines h) \<Longrightarrow> length (lines h ! i) \<le> length out \<Longrightarrow>
      copy h i out = Ok (length (lines h ! i), lines h ! i @ drop (length (lines h ! i)) out)"
begin

lemma push_keeps_all:
  assumes "ok h" and "\<forall>l \<in> set (lines h). P l" and "P line"
  shows "\<exists>h'. push line h = Ok h' \<and> ok h' \<and> lines h' = keep line (lines h) \<and> (\<forall>l \<in> set (lines h'). P l)"
proof -
  obtain h' where "push line h = Ok h'" "ok h'" "lines h' = keep line (lines h)" using push assms(1) by blast
  then show ?thesis using keep [of line "lines h"] assms(2,3) by auto
qed

end

interpretation shell_history: line_store history_ok history_lines history_new history_push copy_entry remember
proof
  show "history_ok history_new" "history_lines history_new = []"
    by (rule history_new_ok history_new_lines)+
  show "\<exists>h'. history_push l h = Ok h' \<and> history_ok h' \<and> history_lines h' = remember l (history_lines h)"
    if "history_ok h" for h l
    using history_push_spec [OF that] .
  show "set (remember l ls) \<subseteq> insert l (set ls)" for l ls by (rule remember_subset)
  show "copy_entry h i out = Ok (length (history_lines h ! i), history_lines h ! i @ drop (length (history_lines h ! i)) out)"
    if "i < length (history_lines h)" "length (history_lines h ! i) \<le> length out" for h i out
    using copy_entry_spec that by simp
qed

subsection \<open>Properties\<close>

text \<open>C29. The ring of 16 KiB and 32 descriptors implements a bounded list of lines: a push never
  panics, keeps the layout of the ring and has exactly the effect of \<open>remember\<close> on the lines: an
  empty, an oversized and a repeated line are ignored, otherwise the oldest lines are dropped until
  the new one fits and it becomes the newest.\<close>

theorem history_refines:
  assumes "history_ok h"
  shows "\<exists>h'. history_push line h = Ok h' \<and> history_ok h' \<and>
    history_lines h' = remember line (history_lines h)"
  by (rule shell_history.push [OF assms])

theorem history_refines_witness:
  "\<exists>h'. history_push [108, 115] history_new = Ok h' \<and> history_lines h' = [[108, 115]]"
proof -
  obtain h' where "history_push [108, 115] history_new = Ok h'"
      "history_lines h' = remember [108, 115] (history_lines history_new)"
    using history_refines [OF history_new_ok] by blast
  then show ?thesis by (auto simp: history_new_lines remember_def HISTORY_ARENA_BYTES_def)
qed

lemma remember_bounded:
  assumes "length ls \<le> MAX_HISTORY_ENTRIES" "sum_list (map length ls) \<le> HISTORY_ARENA_BYTES"
    and "[] \<notin> set ls" "distinct_adj ls"
  shows "length (remember l ls) \<le> MAX_HISTORY_ENTRIES \<and>
    sum_list (map length (remember l ls)) \<le> HISTORY_ARENA_BYTES \<and>
    [] \<notin> set (remember l ls) \<and> distinct_adj (remember l ls)"
proof (cases "l = [] \<or> HISTORY_ARENA_BYTES < length l \<or> (ls \<noteq> [] \<and> last ls = l)")
  case True
  then have "remember l ls = ls" by (auto simp: remember_def)
  with assms show ?thesis by simp
next
  case False
  let ?r = "make_room (length l) ls"
  obtain old where old: "ls = old @ ?r" using make_room_suffix by blast
  have fit: "\<not> too_full (length l) ?r" using make_room_fits False by simp
  have "length ?r \<le> length ls" by (subst (2) old) simp
  moreover have "[] \<notin> set ?r" using assms(3) by (metis UnCI old set_append)
  moreover have "distinct_adj ?r" using assms(4) by (metis old distinct_adj_appendD2)
  moreover have "last ?r \<noteq> l" if "?r \<noteq> []" using that False old by (metis append_is_Nil_conv last_appendR)
  moreover have "remember l ls = ?r @ [l]" using False by (auto simp: remember_def)
  ultimately show ?thesis
    using fit False assms(1) by (auto simp: too_full_def distinct_adj_append_iff)
qed

fun push_lines :: "byte list list \<Rightarrow> history \<Rightarrow> (unit, history) res" where
  "push_lines [] h = Ok h"
| "push_lines (l # ls) h = rbind (history_push l h) (push_lines ls)"

lemma push_lines_spec:
  "history_ok h \<Longrightarrow> \<exists>h'. push_lines ls h = Ok h' \<and> history_ok h' \<and>
     history_lines h' = foldl (\<lambda>acc l. remember l acc) (history_lines h) ls"
proof (induction ls arbitrary: h)
  case (Cons l ls)
  obtain h1 where h1: "history_push l h = Ok h1" "history_ok h1" "history_lines h1 = remember l (history_lines h)"
    using shell_history.push [OF Cons.prems] by blast
  with Cons.IH [OF h1(2)] show ?case by simp
qed simp

text \<open>Whatever lines are pushed, in any order, the history takes all of them without a panic,
  never holds more than 32 lines or 16384 bytes, and never holds an empty line or two equal
  neighbours.\<close>

theorem history_bounded:
  "\<exists>h. push_lines ls history_new = Ok h \<and>
     length (history_lines h) \<le> 32 \<and> sum_list (map length (history_lines h)) \<le> 16384 \<and>
     [] \<notin> set (history_lines h) \<and> distinct_adj (history_lines h)"
proof -
  let ?P = "\<lambda>ls. length ls \<le> MAX_HISTORY_ENTRIES \<and> sum_list (map length ls) \<le> HISTORY_ARENA_BYTES \<and>
    [] \<notin> set ls \<and> distinct_adj ls"
  have "?P (foldl (\<lambda>acc l. remember l acc) start ls)" if "?P start" for start
    using that
  proof (induction ls arbitrary: start)
    case (Cons l ls)
    from Cons.IH [OF remember_bounded [of start l]] Cons.prems show ?case by simp
  qed simp
  from this [of "[]"] have P: "?P (foldl (\<lambda>acc l. remember l acc) [] ls)" by simp
  obtain h where "push_lines ls history_new = Ok h"
      "history_lines h = foldl (\<lambda>acc l. remember l acc) [] ls"
    using push_lines_spec [OF history_new_ok, of ls] by (auto simp: history_new_lines)
  with P show ?thesis unfolding history_sizes by metis
qed

end
