(* ===== verification/ShellParser.thy ===== *)
theory ShellParser
  imports Utf8 "HOL-Library.Sublist"
begin

text \<open>
  The command line parser of the shell (\<^verbatim>\<open>wyrmroot-wyrmsh-core/src/parser.rs\<close>): one scan that
  removes quotes and escapes into a fixed scratch buffer and records the byte range of every
  argument. The specification is a tokenizer on characters; the parser is shown to compute exactly
  its result, so that the checks it makes on its own output never fail.
\<close>

definition MAX_LINE_BYTES :: nat where "MAX_LINE_BYTES = 4096"
definition MAX_ARGUMENTS :: nat where "MAX_ARGUMENTS = 64"

datatype parse_error =
    PE_LineTooLong | PE_InvalidUtf8 | PE_Nul | PE_TooManyArguments | PE_OutputTooLong
  | PE_TrailingBackslash | PE_UnsupportedEscape byte | PE_UnterminatedSingleQuote
  | PE_UnterminatedDoubleQuote

record arg_range =
  ar_start :: nat
  ar_end :: nat

record arguments =
  ag_text :: "byte list"
  ag_ranges :: "arg_range list"

definition args_len :: "arguments \<Rightarrow> nat" where "args_len a = length (ag_ranges a)"

definition args_get :: "arguments \<Rightarrow> nat \<Rightarrow> byte list option" where
  "args_get a i = Option.bind (get_index i (ag_ranges a)) (\<lambda>r. str_get (ar_start r) (ar_end r) (ag_text a))"

definition args_tail :: "arguments \<Rightarrow> arguments" where
  "args_tail a = a\<lparr>ag_ranges := (case get_range 1 (length (ag_ranges a)) (ag_ranges a) of
     Some rs \<Rightarrow> rs | None \<Rightarrow> [])\<rparr>"

text \<open>\<^verbatim>\<open>Arguments::iter\<close>: every argument, a panic where a range is not a character range.\<close>

fun args_iter :: "byte list \<Rightarrow> arg_range list \<Rightarrow> (unit, byte list list) res" where
  "args_iter s [] = Ok []"
| "args_iter s (r # rs) =
     rbind (unwrap (str_get (ar_start r) (ar_end r) s)) (\<lambda>a. rbind (args_iter s rs) (\<lambda>as. Ok (a # as)))"

datatype quote = Q_None | Q_Single | Q_Double

record parser =
  pa_scratch :: "byte list"
  pa_ranges :: "arg_range list"

definition parser_new :: parser where
  "parser_new = \<lparr>pa_scratch = replicate MAX_LINE_BYTES 0,
     pa_ranges = replicate MAX_ARGUMENTS \<lparr>ar_start = 0, ar_end = 0\<rparr>\<rparr>"

definition ascii_whitespace :: "byte \<Rightarrow> bool" where
  "ascii_whitespace b \<longleftrightarrow> b = 32 \<or> b = 9 \<or> b = 10 \<or> b = 13 \<or> b = 11 \<or> b = 12"

subsection \<open>The scan\<close>

definition parser_put :: "nat \<Rightarrow> byte \<Rightarrow> (parser, parse_error, nat) action" where
  "parser_put used b p =
     (if used < length (pa_scratch p)
      then (Ok (used + 1), p\<lparr>pa_scratch := (pa_scratch p)[used := b]\<rparr>)
      else (Err PE_OutputTooLong, p))"

text \<open>\<^verbatim>\<open>self.ranges[count] = ArgRange { .. }\<close>.\<close>

definition set_range :: "nat \<Rightarrow> nat \<Rightarrow> nat \<Rightarrow> (parser, parse_error, unit) action" where
  "set_range count start used p =
     (if count < length (pa_ranges p)
      then (Ok (), p\<lparr>pa_ranges := (pa_ranges p)[count := \<lparr>ar_start = start, ar_end = used\<rparr>]\<rparr>)
      else (Panic, p))"

definition decode_escape :: "quote \<Rightarrow> byte \<Rightarrow> (parse_error, byte) res" where
  "decode_escape q b =
     (if q = Q_Double then
        (if b = 92 \<or> b = 34 then Ok b
         else if b = 110 then Ok 10
         else if b = 114 then Ok 13
         else if b = 116 then Ok 9
         else Err (PE_UnsupportedEscape b))
      else Ok b)"

text \<open>The while loop, on the bytes that are left of the line.\<close>

function parse_loop ::
  "byte list \<Rightarrow> nat \<Rightarrow> nat \<Rightarrow> nat option \<Rightarrow> quote \<Rightarrow>
     (parser, parse_error, nat \<times> nat \<times> nat option \<times> quote) action" where
  "parse_loop [] used count start q = aret (used, count, start, q)"
| "parse_loop (b # rest) used count start q =
     (if q = Q_None \<and> ascii_whitespace b then
        (case start of
           Some begn \<Rightarrow> abind (set_range count begn used) (\<lambda>_. parse_loop rest used (count + 1) None q)
         | None \<Rightarrow> parse_loop rest used count None q)
      else if start = None \<and> count = MAX_ARGUMENTS then afail PE_TooManyArguments
      else
        let start' = Some (case start of Some begn \<Rightarrow> begn | None \<Rightarrow> used) in
        if q = Q_None \<and> b = 39 then parse_loop rest used count start' Q_Single
        else if q = Q_Single \<and> b = 39 then parse_loop rest used count start' Q_None
        else if q = Q_None \<and> b = 34 then parse_loop rest used count start' Q_Double
        else if q = Q_Double \<and> b = 34 then parse_loop rest used count start' Q_None
        else if q \<noteq> Q_Single \<and> b = 92 then
          (case rest of
             [] \<Rightarrow> afail PE_TrailingBackslash
           | nxt # rest' \<Rightarrow>
               abind (alift (decode_escape q nxt)) (\<lambda>decoded.
               abind (parser_put used decoded) (\<lambda>used'.
               parse_loop rest' used' count start' q)))
        else abind (parser_put used b) (\<lambda>used'. parse_loop rest used' count start' q))"
  by pat_completeness auto
termination
  by (relation "measure (\<lambda>(bs, _). length bs)") auto

definition finish_scan ::
  "nat \<times> nat \<times> nat option \<times> quote \<Rightarrow> (parser, parse_error, arguments) action" where
  "finish_scan = (\<lambda>(used, count, start, q).
     abind (case q of
        Q_Single \<Rightarrow> afail PE_UnterminatedSingleQuote
      | Q_Double \<Rightarrow> afail PE_UnterminatedDoubleQuote
      | Q_None \<Rightarrow> aret ()) (\<lambda>_.
     abind (case start of
        Some begn \<Rightarrow> abind (set_range count begn used) (\<lambda>_. aret (count + 1))
      | None \<Rightarrow> aret count) (\<lambda>count.
     abind (aread (\<lambda>p. region_r 0 used (pa_scratch p))) (\<lambda>text.
     if \<not> valid_utf8 text then afail PE_InvalidUtf8
     else
       abind (aread (\<lambda>p. region_r 0 count (pa_ranges p))) (\<lambda>ranges.
       if \<exists>r \<in> set ranges. str_get (ar_start r) (ar_end r) text = None then afail PE_InvalidUtf8
       else aret \<lparr>ag_text = text, ag_ranges = ranges\<rparr>)))))"

definition parse_line :: "byte list \<Rightarrow> (parser, parse_error, arguments) action" where
  "parse_line line =
     (if MAX_LINE_BYTES < length line then afail PE_LineTooLong
      else if \<not> valid_utf8 line then afail PE_InvalidUtf8
      else if 0 \<in> set line then afail PE_Nul
      else abind (parse_loop line 0 0 None Q_None) finish_scan)"

subsection \<open>The tokenizer on characters\<close>

definition space_char :: "scalar \<Rightarrow> bool" where
  "space_char c \<longleftrightarrow> c = 32 \<or> (9 \<le> c \<and> c \<le> 13)"

definition escape_char :: "quote \<Rightarrow> scalar \<Rightarrow> (parse_error, scalar) res" where
  "escape_char q c =
     (if q = Q_Double then
        (if c = 92 \<or> c = 34 then Ok c
         else if c = 110 then Ok 10
         else if c = 114 then Ok 13
         else if c = 116 then Ok 9
         else Err (PE_UnsupportedEscape (hd (encode_utf8 c))))
      else Ok c)"

text \<open>\<open>args\<close> are the finished arguments, \<open>cur\<close> the one under construction.\<close>

function tokens :: "scalar list \<Rightarrow> scalar list list \<Rightarrow> scalar list option \<Rightarrow> quote \<Rightarrow> (parse_error, scalar list list) res" where
  "tokens [] args cur q =
     (case q of
        Q_Single \<Rightarrow> Err PE_UnterminatedSingleQuote
      | Q_Double \<Rightarrow> Err PE_UnterminatedDoubleQuote
      | Q_None \<Rightarrow> Ok (args @ (case cur of None \<Rightarrow> [] | Some w \<Rightarrow> [w])))"
| "tokens (c # cs) args cur q =
     (if q = Q_None \<and> space_char c then
        tokens cs (args @ (case cur of None \<Rightarrow> [] | Some w \<Rightarrow> [w])) None q
      else if cur = None \<and> length args = MAX_ARGUMENTS then Err PE_TooManyArguments
      else
        let w = (case cur of None \<Rightarrow> [] | Some w \<Rightarrow> w) in
        if q = Q_None \<and> c = 39 then tokens cs args (Some w) Q_Single
        else if q = Q_Single \<and> c = 39 then tokens cs args (Some w) Q_None
        else if q = Q_None \<and> c = 34 then tokens cs args (Some w) Q_Double
        else if q = Q_Double \<and> c = 34 then tokens cs args (Some w) Q_None
        else if q \<noteq> Q_Single \<and> c = 92 then
          (case cs of
             [] \<Rightarrow> Err PE_TrailingBackslash
           | d # cs' \<Rightarrow> rbind (escape_char q d) (\<lambda>e. tokens cs' args (Some (w @ [e])) q))
        else tokens cs args (Some (w @ [c])) q)"
  by pat_completeness auto
termination
  by (relation "measure (\<lambda>(cs, _). length cs)") auto

definition tokenize :: "scalar list \<Rightarrow> (parse_error, scalar list list) res" where
  "tokenize cs = tokens cs [] None Q_None"

subsection \<open>The scan computes the tokens\<close>

fun ranges_of :: "nat \<Rightarrow> scalar list list \<Rightarrow> arg_range list" where
  "ranges_of off [] = []"
| "ranges_of off (w # ws) =
     \<lparr>ar_start = off, ar_end = off + length (encode_str w)\<rparr> # ranges_of (off + length (encode_str w)) ws"

definition word :: "scalar list option \<Rightarrow> scalar list" where
  "word cur = (case cur of None \<Rightarrow> [] | Some w \<Rightarrow> w)"

definition words :: "scalar list option \<Rightarrow> scalar list list" where
  "words cur = (case cur of None \<Rightarrow> [] | Some w \<Rightarrow> [w])"

lemma word_simps [simp]: "word None = []" "word (Some w) = w" "words None = []" "words (Some w) = [w]"
  by (simp_all add: word_def words_def)

definition parser_ok :: "parser \<Rightarrow> bool" where
  "parser_ok p \<longleftrightarrow> length (pa_scratch p) = MAX_LINE_BYTES \<and> length (pa_ranges p) = MAX_ARGUMENTS"

definition scanned ::
  "parser \<Rightarrow> nat \<Rightarrow> nat \<Rightarrow> nat option \<Rightarrow> scalar list list \<Rightarrow> scalar list option \<Rightarrow> bool" where
  "scanned p used count start args cur \<longleftrightarrow>
     parser_ok p \<and> used \<le> MAX_LINE_BYTES \<and> take used (pa_scratch p) = encode_str (concat args @ word cur) \<and>
     count = length args \<and> count \<le> MAX_ARGUMENTS \<and> (cur \<noteq> None \<longrightarrow> count < MAX_ARGUMENTS) \<and>
     take count (pa_ranges p) = ranges_of 0 args \<and>
     start = map_option (\<lambda>_. length (encode_str (concat args))) cur \<and>
     (\<forall>w \<in> set (args @ words cur). \<forall>c \<in> set w. is_scalar c)"

lemma scanned_used: "scanned p used count start args cur \<Longrightarrow>
    used = length (encode_str (concat args)) + length (encode_str (word cur))"
  unfolding scanned_def parser_ok_def
  by (metis concat_append length_append length_take map_append min.absorb2)

lemma ranges_of_append:
  "ranges_of off (ws @ [w]) = ranges_of off ws @
     [\<lparr>ar_start = off + length (encode_str (concat ws)), ar_end = off + length (encode_str (concat ws)) + length (encode_str w)\<rparr>]"
  by (induction ws arbitrary: off) (simp_all add: add.assoc)

lemma length_ranges_of [simp]: "length (ranges_of off ws) = length ws"
  by (induction ws arbitrary: off) auto

lemma ranges_of_nth:
  "i < length ws \<Longrightarrow> ranges_of off ws ! i =
     \<lparr>ar_start = off + length (encode_str (concat (take i ws))),
      ar_end = off + length (encode_str (concat (take i ws))) + length (encode_str (ws ! i))\<rparr>"
proof (induction ws arbitrary: off i)
  case (Cons w ws)
  then show ?case by (cases i) (simp_all add: add.assoc)
qed simp

lemma range_text:
  assumes "i < length ws" "\<forall>w \<in> set ws. \<forall>c \<in> set w. is_scalar c"
  shows "str_get (ar_start (ranges_of 0 ws ! i)) (ar_end (ranges_of 0 ws ! i)) (encode_str (concat ws)) =
    Some (encode_str (ws ! i))"
proof -
  have split: "concat ws = concat (take i ws) @ ws ! i @ concat (drop (Suc i) ws)"
    using id_take_nth_drop [OF assms(1)] by (metis concat.simps(2) concat_append)
  have sc: "\<forall>c \<in> set (concat (take i ws) @ ws ! i @ concat (drop (Suc i) ws)). is_scalar c"
    unfolding split [symmetric] using assms(2) by auto
  show ?thesis
    using str_get_middle [OF sc] unfolding split [symmetric] ranges_of_nth [OF assms(1)] by simp
qed

definition opened :: "nat option \<Rightarrow> nat \<Rightarrow> nat option" where
  "opened start used = Some (case start of Some b \<Rightarrow> b | None \<Rightarrow> used)"

definition full :: "nat option \<Rightarrow> nat \<Rightarrow> bool" where
  "full start count \<longleftrightarrow> start = None \<and> count = MAX_ARGUMENTS"

text \<open>Writing a character and closing an argument.\<close>

lemma scanned_write:
  assumes "scanned p used count start args cur" "used + len_utf8 c \<le> MAX_LINE_BYTES" "is_scalar c"
    "\<not> full start count"
  shows "scanned (p\<lparr>pa_scratch := overwrite used (encode_utf8 c) (pa_scratch p)\<rparr>) (used + len_utf8 c) count
    (opened start used) args (Some (word cur @ [c]))"
proof -
  have "used \<le> length (pa_scratch p)" using assms(1) by (simp add: scanned_def parser_ok_def)
  then have t: "take (used + len_utf8 c) (overwrite used (encode_utf8 c) (pa_scratch p)) =
      take used (pa_scratch p) @ encode_utf8 c"
    by (simp add: overwrite_def)
  show ?thesis
    using assms t scanned_used [OF assms(1)]
    by (cases cur) (auto simp: scanned_def parser_ok_def full_def opened_def)
qed

lemma scanned_open:
  assumes "scanned p used count start args cur" "\<not> full start count"
  shows "scanned p used count (opened start used) args (Some (word cur))"
  using assms scanned_used [OF assms(1)] by (cases cur) (auto simp: scanned_def full_def opened_def)

lemma scanned_close:
  assumes "scanned p used count (Some b) args (Some w)"
  shows "\<exists>p'. set_range count b used p = (Ok (), p') \<and> scanned p' used (count + 1) None (args @ [w]) None"
proof -
  have f: "count < length (pa_ranges p)" "b = length (encode_str (concat args))" "count = length args"
      "take count (pa_ranges p) = ranges_of 0 args"
    using assms by (auto simp: scanned_def parser_ok_def)
  have u: "used = length (encode_str (concat args)) + length (encode_str w)" using scanned_used [OF assms] by simp
  have "take (Suc count) ((pa_ranges p)[count := \<lparr>ar_start = b, ar_end = used\<rparr>]) = ranges_of 0 (args @ [w])"
    using f u by (simp add: take_Suc_conv_app_nth ranges_of_append)
  then show ?thesis using assms f by (auto simp: set_range_def scanned_def parser_ok_def)
qed

text \<open>The branches of one round of the loop.\<close>

declare parse_loop.simps(2) [simp del] tokens.simps(2) [simp del]

lemma loop_plain:
  assumes "\<not> full start count" "\<not> (q = Q_None \<and> ascii_whitespace b)"
    "b = 39 \<longrightarrow> q = Q_Double" "b = 34 \<longrightarrow> q = Q_Single" "b = 92 \<longrightarrow> q = Q_Single"
  shows "parse_loop (b # rest) used count start q =
    abind (parser_put used b) (\<lambda>u. parse_loop rest u count (opened start used) q)"
  using assms by (cases q; cases start) (simp_all add: parse_loop.simps(2) Let_def full_def opened_def)

lemma loop_escape:
  assumes "\<not> full start count" "q \<noteq> Q_Single"
  shows "parse_loop (92 # nxt # rest) used count start q =
      abind (alift (decode_escape q nxt)) (\<lambda>e. abind (parser_put used e) (\<lambda>u. parse_loop rest u count (opened start used) q))"
    and "parse_loop [92] used count start q = afail PE_TrailingBackslash"
  using assms by (cases q; cases start; simp add: parse_loop.simps(2) Let_def full_def opened_def ascii_whitespace_def)+

lemma loop_quote:
  assumes "\<not> full start count"
  shows "parse_loop (39 # rest) used count start Q_None = parse_loop rest used count (opened start used) Q_Single"
    and "parse_loop (39 # rest) used count start Q_Single = parse_loop rest used count (opened start used) Q_None"
    and "parse_loop (34 # rest) used count start Q_None = parse_loop rest used count (opened start used) Q_Double"
    and "parse_loop (34 # rest) used count start Q_Double = parse_loop rest used count (opened start used) Q_None"
  using assms by (cases start; simp add: parse_loop.simps(2) Let_def full_def opened_def ascii_whitespace_def)+

lemma loop_full:
  "full start count \<Longrightarrow> \<not> (q = Q_None \<and> ascii_whitespace b) \<Longrightarrow>
     parse_loop (b # rest) used count start q = afail PE_TooManyArguments"
  by (cases q) (auto simp: parse_loop.simps(2) full_def)

lemma loop_space:
  "ascii_whitespace b \<Longrightarrow> parse_loop (b # rest) used count start Q_None =
     (case start of
        Some begn \<Rightarrow> abind (set_range count begn used) (\<lambda>_. parse_loop rest used (count + 1) None Q_None)
      | None \<Rightarrow> parse_loop rest used count None Q_None)"
  by (simp add: parse_loop.simps(2))

text \<open>The bytes of a character outside ASCII are copied; none of them is a quote, an escape or a space.\<close>

lemma high_bytes:
  assumes "0x80 \<le> unat b"
  shows "\<not> ascii_whitespace b" "b \<noteq> 39" "b \<noteq> 34" "b \<noteq> 92"
  using assms by (auto simp: ascii_whitespace_def)

lemma overwrite_Nil: "overwrite n [] xs = xs"
  by (simp add: overwrite_def)

lemma parse_loop_high:
  assumes "\<forall>b \<in> set bs. 0x80 \<le> unat b" "bs \<noteq> []" "\<not> full start count"
    "used + length bs \<le> length (pa_scratch p)"
  shows "parse_loop (bs @ rest) used count start q p =
    parse_loop rest (used + length bs) count (opened start used) q
      (p\<lparr>pa_scratch := overwrite used bs (pa_scratch p)\<rparr>)"
  using assms
proof (induction bs arbitrary: used start p)
  case (Cons b bs)
  let ?s = "opened start used"
  let ?p = "p\<lparr>pa_scratch := (pa_scratch p)[used := b]\<rparr>"
  have b: "0x80 \<le> unat b" using Cons.prems(1) by simp
  have put: "parser_put used b p = (Ok (used + 1), ?p)" using Cons.prems(4) by (simp add: parser_put_def)
  have step: "parse_loop ((b # bs) @ rest) used count start q p = parse_loop (bs @ rest) (used + 1) count ?s q ?p"
    using loop_plain [of start count q b "bs @ rest" used] high_bytes [OF b] Cons.prems(3) put by (simp add: abind_def)
  have o: "opened ?s (used + 1) = ?s" "\<not> full ?s count" by (simp_all add: opened_def full_def)
  have ow: "overwrite used (b # bs) (pa_scratch p) = overwrite (used + 1) bs ((pa_scratch p)[used := b])"
    using Cons.prems(4) by (simp add: overwrite_def take_Suc_conv_app_nth)
  show ?case
  proof (cases "bs = []")
    case True
    then show ?thesis using step ow by (simp add: overwrite_Nil)
  next
    case False
    then show ?thesis using step ow Cons.IH [of ?s "used + 1" ?p] Cons.prems o by simp
  qed
qed simp

lemma encode_high:
  assumes "is_scalar c" "\<not> c < 0x80"
  shows "\<forall>b \<in> set (encode_utf8 c). 0x80 \<le> unat b"
  using encode_utf8_shape [OF assms(1)] assms(2) by (auto simp: is_cont_def)

lemma ascii_byte_numeral:
  assumes "c < 0x80"
  shows "nat_byte c = 39 \<longleftrightarrow> c = 39" "nat_byte c = 34 \<longleftrightarrow> c = 34" "nat_byte c = 92 \<longleftrightarrow> c = 92"
    "nat_byte c = 110 \<longleftrightarrow> c = 110" "nat_byte c = 114 \<longleftrightarrow> c = 114" "nat_byte c = 116 \<longleftrightarrow> c = 116"
    "ascii_whitespace (nat_byte c) \<longleftrightarrow> space_char c"
proof -
  have u: "unat (nat_byte c) = c" using assms by (simp add: unat_nat_byte)
  have e: "nat_byte c = w \<longleftrightarrow> c = unat w" for w using u by (metis nat_byte_unat)
  show "nat_byte c = 39 \<longleftrightarrow> c = 39" "nat_byte c = 34 \<longleftrightarrow> c = 34" "nat_byte c = 92 \<longleftrightarrow> c = 92"
    "nat_byte c = 110 \<longleftrightarrow> c = 110" "nat_byte c = 114 \<longleftrightarrow> c = 114" "nat_byte c = 116 \<longleftrightarrow> c = 116"
    unfolding e by simp_all
  show "ascii_whitespace (nat_byte c) \<longleftrightarrow> space_char c"
    unfolding ascii_whitespace_def e space_char_def by auto
qed

lemma high_char:
  "\<not> c < 0x80 \<Longrightarrow> \<not> space_char c \<and> c \<noteq> 39 \<and> c \<noteq> 34 \<and> c \<noteq> 92 \<and> c \<noteq> 110 \<and> c \<noteq> 114 \<and> c \<noteq> 116"
  by (auto simp: space_char_def)

text \<open>One plain character, ASCII or not.\<close>

lemma parse_loop_char:
  assumes "scanned p used count start args cur" "used + len_utf8 c \<le> MAX_LINE_BYTES" "is_scalar c"
    "\<not> full start count" "\<not> (q = Q_None \<and> space_char c)"
    "c = 39 \<longrightarrow> q = Q_Double" "c = 34 \<longrightarrow> q = Q_Single" "c = 92 \<longrightarrow> q = Q_Single"
  shows "\<exists>p' start'. parse_loop (encode_utf8 c @ rest) used count start q p =
      parse_loop rest (used + len_utf8 c) count start' q p' \<and>
    scanned p' (used + len_utf8 c) count start' args (Some (word cur @ [c]))"
proof -
  note w = scanned_write [OF assms(1-4)]
  have l: "used + length (encode_utf8 c) \<le> length (pa_scratch p)" 
    using assms(1,2) by (auto simp: scanned_def parser_ok_def)
  show ?thesis
  proof (cases "c < 0x80")
    case True
    have "overwrite used [nat_byte c] (pa_scratch p) = (pa_scratch p)[used := nat_byte c]"
      using l True by (simp add: overwrite_def encode_utf8_ascii upd_conv_take_nth_drop)
    then have "parse_loop (encode_utf8 c @ rest) used count start q p =
        parse_loop rest (used + len_utf8 c) count (opened start used) q
          (p\<lparr>pa_scratch := overwrite used (encode_utf8 c) (pa_scratch p)\<rparr>)"
      using loop_plain [OF assms(4), of q "nat_byte c" rest used] True assms(5-) l
      by (simp add: encode_utf8_ascii ascii_byte_numeral abind_def parser_put_def len_utf8_def)
    with w show ?thesis by blast
  next
    case False
    have "parse_loop (encode_utf8 c @ rest) used count start q p =
        parse_loop rest (used + len_utf8 c) count (opened start used) q
          (p\<lparr>pa_scratch := overwrite used (encode_utf8 c) (pa_scratch p)\<rparr>)"
      using parse_loop_high [OF encode_high [OF assms(3) False] encode_utf8_neq_Nil assms(4) l] by simp
    with w show ?thesis by blast
  qed
qed

text \<open>An escaped character: the backslash is dropped and the character that \<open>escape_char\<close> gives is written.\<close>

lemma parse_loop_escape:
  assumes "scanned p used count start args cur" "used + len_utf8 d \<le> MAX_LINE_BYTES" "is_scalar d"
    "\<not> full start count" "q \<noteq> Q_Single"
  shows "case escape_char q d of
      Ok e \<Rightarrow> \<exists>p' start'. parse_loop (92 # encode_utf8 d @ rest) used count start q p =
          parse_loop rest (used + len_utf8 d) count start' q p' \<and> is_scalar e \<and>
        scanned p' (used + len_utf8 d) count start' args (Some (word cur @ [e]))
    | Err x \<Rightarrow> \<exists>p'. parse_loop (92 # encode_utf8 d @ rest) used count start q p = (Err x, p')
    | Panic \<Rightarrow> False"
proof -
  have l: "used + length (encode_utf8 d) \<le> length (pa_scratch p)"
    using assms(1,2) by (auto simp: scanned_def parser_ok_def)
  let ?s = "opened start used"
  note step = loop_escape(1) [OF assms(4,5)]
  have o: "opened ?s u = ?s" "\<not> full ?s count" for u by (simp_all add: opened_def full_def)
  show ?thesis
  proof (cases "d < 0x80")
    case True
    have one: "encode_utf8 d = [nat_byte d]" "len_utf8 d = 1" using True by (simp_all add: encode_utf8_ascii len_utf8_def)
    have nb: "nat_byte 10 = 10" "nat_byte 13 = 13" "nat_byte 9 = 9" by (simp_all add: nat_byte_def)
    have dec: "decode_escape q (nat_byte d) = (case escape_char q d of Ok e \<Rightarrow> Ok (nat_byte e) | Err x \<Rightarrow> Err x | Panic \<Rightarrow> Panic)"
      using ascii_byte_numeral [OF True] nb by (auto simp: decode_escape_def escape_char_def one)
    show ?thesis
    proof (cases "escape_char q d")
      case (Ok e)
      then have e: "e < 0x80" "is_scalar e" "len_utf8 e = 1"
        using True assms(3) by (auto simp: escape_char_def is_scalar_def len_utf8_def split: if_splits)
      have "overwrite used [nat_byte e] (pa_scratch p) = (pa_scratch p)[used := nat_byte e]"
        using l one by (simp add: overwrite_def upd_conv_take_nth_drop)
      then have "parse_loop (92 # encode_utf8 d @ rest) used count start q p =
          parse_loop rest (used + len_utf8 d) count ?s q (p\<lparr>pa_scratch := overwrite used (encode_utf8 e) (pa_scratch p)\<rparr>)"
        using l one e(1) dec Ok
        by (simp add: step abind_def alift_def parser_put_def encode_utf8_ascii)
      moreover have "scanned (p\<lparr>pa_scratch := overwrite used (encode_utf8 e) (pa_scratch p)\<rparr>) (used + len_utf8 d) count ?s args (Some (word cur @ [e]))"
        using scanned_write [OF assms(1) _ e(2) assms(4)] assms(2) e(3) one(2) by simp
      ultimately show ?thesis using Ok e(2) by auto
    next
      case (Err x)
      then show ?thesis using one dec by (simp add: step abind_def alift_def)
    qed (auto simp: escape_char_def split: if_splits)
  next
    case False
    obtain b bs where b: "encode_utf8 d = b # bs" "bs \<noteq> []" "0xC2 \<le> unat b" "\<forall>x \<in> set bs. is_cont x"
      using encode_utf8_shape [OF assms(3)] False by auto
    show ?thesis
    proof (cases "q = Q_Double")
      case True
      have "decode_escape q b = Err (PE_UnsupportedEscape b)" using True b(3) by (auto simp: decode_escape_def)
      moreover have "escape_char q d = Err (PE_UnsupportedEscape b)"
        using True high_char [OF False] b(1) by (simp add: escape_char_def)
      ultimately show ?thesis using b(1) by (simp add: step abind_def alift_def)
    next
      case no: False
      let ?p = "p\<lparr>pa_scratch := (pa_scratch p)[used := b]\<rparr>"
      have "parse_loop (92 # encode_utf8 d @ rest) used count start q p = parse_loop (bs @ rest) (used + 1) count ?s q ?p"
        using no l b(1) by (simp add: step abind_def alift_def decode_escape_def parser_put_def)
      also have "\<dots> = parse_loop rest (used + 1 + length bs) count ?s q (?p\<lparr>pa_scratch := overwrite (used + 1) bs (pa_scratch ?p)\<rparr>)"
        using parse_loop_high [OF _ b(2) o(2), of "used + 1" ?p rest q] b l o by (auto simp: is_cont_def)
      also have "used + 1 + length bs = used + len_utf8 d" using b(1) length_encode_utf8 [of d] by simp
      also have "overwrite (used + 1) bs (pa_scratch ?p) = overwrite used (encode_utf8 d) (pa_scratch p)"
        using b(1) l by (simp add: overwrite_def take_Suc_conv_app_nth)
      finally have "parse_loop (92 # encode_utf8 d @ rest) used count start q p =
          parse_loop rest (used + len_utf8 d) count ?s q (p\<lparr>pa_scratch := overwrite used (encode_utf8 d) (pa_scratch p)\<rparr>)"
        by simp
      with scanned_write [OF assms(1-4)] no assms(3) show ?thesis by (auto simp: escape_char_def)
    qed
  qed
qed

text \<open>The result of a scan for given tokens, and what the rest of the parse makes of a state.\<close>

definition view :: "scalar list list \<Rightarrow> arguments" where
  "view ws = \<lparr>ag_text = encode_str (concat ws), ag_ranges = ranges_of 0 ws\<rparr>"

fun view_res :: "(parse_error, scalar list list) res \<Rightarrow> (parse_error, arguments) res" where
  "view_res (Ok ws) = Ok (view ws)"
| "view_res (Err e) = Err e"
| "view_res Panic = Panic"

definition scan_rest :: "byte list \<Rightarrow> nat \<Rightarrow> nat \<Rightarrow> nat option \<Rightarrow> quote \<Rightarrow> (parser, parse_error, arguments) action" where
  "scan_rest bs used count start q = abind (parse_loop bs used count start q) finish_scan"

lemma scan_rest_cong:
  "parse_loop bs used count start q p = parse_loop bs' used' count' start' q' p' \<Longrightarrow>
     scan_rest bs used count start q p = scan_rest bs' used' count' start' q' p'"
  by (simp add: scan_rest_def abind_def)

lemma scan_rest_fail: "parse_loop bs used count start q p = (Err e, p') \<Longrightarrow> fst (scan_rest bs used count start q p) = Err e"
  by (simp add: scan_rest_def abind_def)

lemma finish_closed:
  assumes "scanned p used count None args None"
  shows "fst (finish_scan (used, count, None, Q_None) p) = Ok (view args)"
proof -
  have f: "take used (pa_scratch p) = encode_str (concat args)" "used \<le> length (pa_scratch p)"
      "count \<le> length (pa_ranges p)" "take count (pa_ranges p) = ranges_of 0 args"
      "\<forall>w \<in> set args. \<forall>c \<in> set w. is_scalar c"
    using assms by (auto simp: scanned_def parser_ok_def)
  have "\<forall>c \<in> set (concat args). is_scalar c" using f(5) by auto
  then have v: "valid_utf8 (encode_str (concat args))" unfolding valid_utf8_iff by blast
  have "str_get (ar_start r) (ar_end r) (encode_str (concat args)) \<noteq> None" if "r \<in> set (ranges_of 0 args)" for r
    using that range_text [OF _ f(5)] by (auto simp: in_set_conv_nth)
  with f v show ?thesis
    by (simp add: finish_scan_def action_defs region_r_def region_def view_def)
qed

lemma finish_scanned:
  assumes "scanned p used count start args cur"
  shows "fst (finish_scan (used, count, start, q) p) = view_res (tokens [] args cur q)"
proof (cases q)
  case Q_None
  show ?thesis
  proof (cases cur)
    case None
    then have "start = None" using assms by (simp add: scanned_def)
    then show ?thesis using finish_closed [of p used count args] assms Q_None None by simp
  next
    case (Some w)
    then obtain b where b: "start = Some b" using assms by (simp add: scanned_def)
    obtain p' where p': "set_range count b used p = (Ok (), p')" "scanned p' used (count + 1) None (args @ [w]) None"
      using scanned_close [of p used count b args w] assms b Some by auto
    have "finish_scan (used, count, start, q) p = finish_scan (used, count + 1, None, Q_None) p'"
      using p'(1) b Q_None by (simp add: finish_scan_def action_defs)
    then show ?thesis using finish_closed [OF p'(2)] Some Q_None by simp
  qed
qed (simp_all add: finish_scan_def action_defs)

text \<open>The branches of the tokenizer.\<close>

definition full_args :: "scalar list option \<Rightarrow> scalar list list \<Rightarrow> bool" where
  "full_args cur args \<longleftrightarrow> cur = None \<and> length args = MAX_ARGUMENTS"

lemma tokens_plain:
  assumes "\<not> full_args cur args" "\<not> (q = Q_None \<and> space_char c)"
    "c = 39 \<longrightarrow> q = Q_Double" "c = 34 \<longrightarrow> q = Q_Single" "c = 92 \<longrightarrow> q = Q_Single"
  shows "tokens (c # cs) args cur q = tokens cs args (Some (word cur @ [c])) q"
  using assms by (cases q; cases cur) (simp_all add: tokens.simps(2) Let_def full_args_def)

lemma tokens_escape:
  assumes "\<not> full_args cur args" "q \<noteq> Q_Single"
  shows "tokens (92 # d # cs) args cur q = rbind (escape_char q d) (\<lambda>e. tokens cs args (Some (word cur @ [e])) q)"
    and "tokens [92] args cur q = Err PE_TrailingBackslash"
  using assms by (cases q; cases cur; simp add: tokens.simps(2) Let_def full_args_def space_char_def)+

lemma tokens_quote:
  assumes "\<not> full_args cur args"
  shows "tokens (39 # cs) args cur Q_None = tokens cs args (Some (word cur)) Q_Single"
    and "tokens (39 # cs) args cur Q_Single = tokens cs args (Some (word cur)) Q_None"
    and "tokens (34 # cs) args cur Q_None = tokens cs args (Some (word cur)) Q_Double"
    and "tokens (34 # cs) args cur Q_Double = tokens cs args (Some (word cur)) Q_None"
  using assms by (cases cur; simp add: tokens.simps(2) Let_def full_args_def space_char_def)+

lemma tokens_full:
  "full_args cur args \<Longrightarrow> \<not> (q = Q_None \<and> space_char c) \<Longrightarrow> tokens (c # cs) args cur q = Err PE_TooManyArguments"
  by (cases q) (auto simp: tokens.simps(2) full_args_def)

lemma tokens_space: "space_char c \<Longrightarrow> tokens (c # cs) args cur Q_None = tokens cs (args @ words cur) None Q_None"
  by (simp add: tokens.simps(2) words_def)

text \<open>One step of the scan for each branch: either it goes on with fewer characters in a state that
  matches the tokenizer's, or both fail with the same error.\<close>

definition scan_step ::
  "scalar list \<Rightarrow> nat \<Rightarrow> nat \<Rightarrow> nat option \<Rightarrow> quote \<Rightarrow> parser \<Rightarrow> scalar list list \<Rightarrow> scalar list option \<Rightarrow> bool" where
  "scan_step cs used count start q p args cur \<longleftrightarrow>
     (\<exists>cs' used' count' start' q' p' args' cur'.
        scan_rest (encode_str cs) used count start q p = scan_rest (encode_str cs') used' count' start' q' p' \<and>
        tokens cs args cur q = tokens cs' args' cur' q' \<and> scanned p' used' count' start' args' cur' \<and>
        length cs' < length cs \<and> set cs' \<subseteq> set cs \<and> used' + length (encode_str cs') \<le> MAX_LINE_BYTES) \<or>
     (\<exists>e. tokens cs args cur q = Err e \<and> fst (scan_rest (encode_str cs) used count start q p) = Err e)"

lemma scan_stepI:
  assumes "scan_rest (encode_str cs) used count start q p = scan_rest (encode_str cs') used' count' start' q' p'"
    "tokens cs args cur q = tokens cs' args' cur' q'" "scanned p' used' count' start' args' cur'"
    "length cs' < length cs" "set cs' \<subseteq> set cs" "used' + length (encode_str cs') \<le> MAX_LINE_BYTES"
  shows "scan_step cs used count start q p args cur"
  using assms unfolding scan_step_def by blast

lemma step_space:
  assumes "scanned p used count start args cur" "space_char c" "used + length (encode_str (c # cs)) \<le> MAX_LINE_BYTES"
  shows "scan_step (c # cs) used count start Q_None p args cur"
proof -
  have a: "c < 0x80" using assms(2) by (auto simp: space_char_def)
  have enc: "encode_str (c # cs) = nat_byte c # encode_str cs" "ascii_whitespace (nat_byte c)"
    using a assms(2) ascii_byte_numeral(7) [OF a] by (simp_all add: encode_utf8_ascii)
  have room: "used + length (encode_str cs) \<le> MAX_LINE_BYTES" using assms(3) by simp
  show ?thesis
  proof (cases cur)
    case None
    then have st: "start = None" using assms(1) by (simp add: scanned_def)
    have "scan_rest (encode_str (c # cs)) used count start Q_None p = scan_rest (encode_str cs) used count None Q_None p"
      unfolding enc(1) by (rule scan_rest_cong) (simp add: loop_space [OF enc(2)] st)
    then show ?thesis
      using assms(1) st None room tokens_space [OF assms(2), of cs args cur]
      by (intro scan_stepI [of _ _ _ _ _ _ cs used count None Q_None p _ _ args None]) auto
  next
    case (Some w)
    then obtain b where b: "start = Some b" using assms(1) by (simp add: scanned_def)
    obtain p' where p': "set_range count b used p = (Ok (), p')" "scanned p' used (count + 1) None (args @ [w]) None"
      using scanned_close [of p used count b args w] assms(1) b Some by auto
    have "scan_rest (encode_str (c # cs)) used count start Q_None p = scan_rest (encode_str cs) used (count + 1) None Q_None p'"
      unfolding enc(1) by (rule scan_rest_cong) (simp add: loop_space [OF enc(2)] b abind_def p'(1))
    then show ?thesis
      using p'(2) Some room tokens_space [OF assms(2), of cs args cur]
      by (intro scan_stepI [of _ _ _ _ _ _ cs used "count + 1" None Q_None p' _ _ "args @ [w]" None]) auto
  qed
qed

lemma step_quote:
  assumes "scanned p used count start args cur" "\<not> full start count"
    "used + length (encode_str (c # cs)) \<le> MAX_LINE_BYTES"
    "(c = 39 \<and> q \<noteq> Q_Double) \<or> (c = 34 \<and> q \<noteq> Q_Single)"
  shows "scan_step (c # cs) used count start q p args cur"
proof -
  have fa: "\<not> full_args cur args" using assms(1,2) by (auto simp: full_def full_args_def scanned_def)
  have enc: "encode_str (39 # cs) = 39 # encode_str cs" "encode_str (34 # cs) = 34 # encode_str cs"
    by (simp_all add: encode_utf8_ascii nat_byte_def)
  define q' where "q' = (if q \<noteq> Q_None then Q_None else if c = 39 then Q_Single else Q_Double)"
  have "scan_rest (encode_str (c # cs)) used count start q p = scan_rest (encode_str cs) used count (opened start used) q' p"
    using assms(4) loop_quote [OF assms(2), of "encode_str cs" used]
    by (intro scan_rest_cong) (cases q; auto simp only: enc q'_def; simp)
  moreover have "tokens (c # cs) args cur q = tokens cs args (Some (word cur)) q'"
    using assms(4) tokens_quote [OF fa, of cs] by (cases q) (auto simp: q'_def)
  ultimately show ?thesis
    using scanned_open [OF assms(1,2)] assms(3)
    by (intro scan_stepI [of _ _ _ _ _ _ cs used count "opened start used" q' p _ _ args "Some (word cur)"]) auto
qed

lemma step_plain:
  assumes "scanned p used count start args cur" "\<not> full start count" "is_scalar c"
    "used + length (encode_str (c # cs)) \<le> MAX_LINE_BYTES" "\<not> (q = Q_None \<and> space_char c)"
    "c = 39 \<longrightarrow> q = Q_Double" "c = 34 \<longrightarrow> q = Q_Single" "c = 92 \<longrightarrow> q = Q_Single"
  shows "scan_step (c # cs) used count start q p args cur"
proof -
  have fa: "\<not> full_args cur args" using assms(1,2) by (auto simp: full_def full_args_def scanned_def)
  have room: "used + len_utf8 c \<le> MAX_LINE_BYTES" using assms(4) by simp
  obtain p' start' where p': "parse_loop (encode_utf8 c @ encode_str cs) used count start q p =
      parse_loop (encode_str cs) (used + len_utf8 c) count start' q p'"
      "scanned p' (used + len_utf8 c) count start' args (Some (word cur @ [c]))"
    using parse_loop_char [OF assms(1) room assms(3,2,5-8)] by blast
  have "scan_rest (encode_str (c # cs)) used count start q p = scan_rest (encode_str cs) (used + len_utf8 c) count start' q p'"
    using p'(1) by (intro scan_rest_cong) simp
  then show ?thesis
    using tokens_plain [OF fa assms(5-8)] p'(2) assms(4)
    by (intro scan_stepI [of _ _ _ _ _ _ cs "used + len_utf8 c" count start' q p' _ _ args "Some (word cur @ [c])"]) auto
qed

lemma step_escape:
  assumes "scanned p used count start args cur" "\<not> full start count" "\<forall>c \<in> set cs. is_scalar c"
    "used + length (encode_str (92 # cs)) \<le> MAX_LINE_BYTES" "q \<noteq> Q_Single"
  shows "scan_step (92 # cs) used count start q p args cur"
proof -
  have fa: "\<not> full_args cur args" using assms(1,2) by (auto simp: full_def full_args_def scanned_def)
  have enc: "encode_str (92 # cs) = 92 # encode_str cs" by (simp add: encode_utf8_ascii nat_byte_def)
  show ?thesis
  proof (cases cs)
    case Nil
    have "fst (scan_rest (encode_str (92 # cs)) used count start q p) = Err PE_TrailingBackslash"
      unfolding enc using Nil loop_escape(2) [OF assms(2,5)] by (intro scan_rest_fail) (simp add: afail_def)
    then show ?thesis using Nil tokens_escape(2) [OF fa assms(5)] by (auto simp: scan_step_def)
  next
    case (Cons d ds)
    have room: "used + len_utf8 d \<le> MAX_LINE_BYTES" "used + len_utf8 d + length (encode_str ds) \<le> MAX_LINE_BYTES"
      using assms(4) Cons by simp_all
    have d: "is_scalar d" using assms(3) Cons by simp
    note esc = parse_loop_escape [OF assms(1) room(1) d assms(2,5), of "encode_str ds"]
    show ?thesis
    proof (cases "escape_char q d")
      case (Ok e)
      with esc obtain p' start' where p': "parse_loop (92 # encode_utf8 d @ encode_str ds) used count start q p =
          parse_loop (encode_str ds) (used + len_utf8 d) count start' q p'"
          "scanned p' (used + len_utf8 d) count start' args (Some (word cur @ [e]))" by auto
      have "scan_rest (encode_str (92 # cs)) used count start q p = scan_rest (encode_str ds) (used + len_utf8 d) count start' q p'"
        unfolding enc using p'(1) Cons by (intro scan_rest_cong) simp
      then show ?thesis
        using tokens_escape(1) [OF fa assms(5), of d ds] Ok p'(2) room(2) Cons
        by (intro scan_stepI [of _ _ _ _ _ _ ds "used + len_utf8 d" count start' q p' _ _ args "Some (word cur @ [e])"]) auto
    next
      case (Err x)
      with esc obtain p' where "parse_loop (92 # encode_utf8 d @ encode_str ds) used count start q p = (Err x, p')" by auto
      then have "fst (scan_rest (encode_str (92 # cs)) used count start q p) = Err x"
        unfolding enc using Cons by (intro scan_rest_fail) simp
      then show ?thesis using tokens_escape(1) [OF fa assms(5), of d ds] Err Cons by (auto simp: scan_step_def)
    qed (use esc in auto)
  qed
qed

lemma first_not_space:
  assumes "is_scalar c" "\<not> (q = Q_None \<and> space_char c)"
  shows "\<exists>b bs. encode_utf8 c = b # bs \<and> \<not> (q = Q_None \<and> ascii_whitespace b)"
proof (cases "c < 0x80")
  case True
  then show ?thesis using assms(2) ascii_byte_numeral(7) [OF True] by (simp add: encode_utf8_ascii)
next
  case False
  obtain b bs where "encode_utf8 c = b # bs" "0xC2 \<le> unat b"
    using encode_utf8_shape [OF assms(1)] False by auto
  then show ?thesis using high_bytes(1) [of b] by auto
qed

lemma scan_step_all:
  assumes "scanned p used count start args cur" "\<forall>c \<in> set (c # cs). is_scalar c"
    "used + length (encode_str (c # cs)) \<le> MAX_LINE_BYTES"
  shows "scan_step (c # cs) used count start q p args cur"
proof (cases "q = Q_None \<and> space_char c")
  case True
  then show ?thesis using step_space [OF assms(1) _ assms(3)] by simp
next
  case nspace: False
  show ?thesis
  proof (cases "full start count")
    case True
    obtain b bs where b: "encode_utf8 c = b # bs" "\<not> (q = Q_None \<and> ascii_whitespace b)"
      using first_not_space [OF _ nspace] assms(2) by auto
    have "fst (scan_rest (encode_str (c # cs)) used count start q p) = Err PE_TooManyArguments"
      using b(1) by (intro scan_rest_fail) (simp add: loop_full [OF True b(2)] afail_def)
    moreover have "full_args cur args" using True assms(1) by (auto simp: full_def full_args_def scanned_def)
    ultimately show ?thesis using tokens_full [OF _ nspace] by (auto simp: scan_step_def)
  next
    case False
    then show ?thesis
      using step_quote [OF assms(1) False assms(3), of q] step_plain [OF assms(1) False _ assms(3) nspace]
        step_escape [OF assms(1) False, of cs q] assms(2,3)
      by (cases "c = 39"; cases "c = 34"; cases "c = 92") auto
  qed
qed

lemma scan_tokens:
  assumes "scanned p used count start args cur" "\<forall>c \<in> set cs. is_scalar c"
    "used + length (encode_str cs) \<le> MAX_LINE_BYTES"
  shows "fst (scan_rest (encode_str cs) used count start q p) = view_res (tokens cs args cur q)"
  using assms
proof (induction "length cs" arbitrary: cs args cur q p used count start rule: less_induct)
  case less
  show ?case
  proof (cases cs)
    case Nil
    then show ?thesis
      using finish_scanned [OF less(2), of q] by (simp add: scan_rest_def abind_def aret_def)
  next
    case (Cons c rest)
    have "scan_step cs used count start q p args cur"
      unfolding Cons by (rule scan_step_all [OF less(2)]) (use less(3,4) Cons in simp_all)
    then show ?thesis
      unfolding scan_step_def
    proof (elim disjE exE conjE)
      fix cs' used' count' start' q' p' args' cur'
      assume s: "scan_rest (encode_str cs) used count start q p = scan_rest (encode_str cs') used' count' start' q' p'"
        "tokens cs args cur q = tokens cs' args' cur' q'" "scanned p' used' count' start' args' cur'"
        "length cs' < length cs" "set cs' \<subseteq> set cs" "used' + length (encode_str cs') \<le> MAX_LINE_BYTES"
      have "\<forall>c \<in> set cs'. is_scalar c" using s(5) less(3) by blast
      from less(1) [OF s(4,3) this s(6), of q'] s(1,2) show ?thesis by simp
    qed simp
  qed
qed

subsection \<open>What the tokens are\<close>

definition tokens_ok :: "scalar list list \<Rightarrow> scalar list option \<Rightarrow> bool" where
  "tokens_ok args cur \<longleftrightarrow> length args \<le> MAX_ARGUMENTS \<and> (cur \<noteq> None \<longrightarrow> length args < MAX_ARGUMENTS) \<and>
     (\<forall>w \<in> set (args @ words cur). \<forall>c \<in> set w. is_scalar c)"

lemma tokens_ok_push:
  "tokens_ok args cur \<Longrightarrow> \<not> full_args cur args \<Longrightarrow> is_scalar c \<Longrightarrow> tokens_ok args (Some (word cur @ [c]))"
  "tokens_ok args cur \<Longrightarrow> \<not> full_args cur args \<Longrightarrow> tokens_ok args (Some (word cur))"
  "tokens_ok args cur \<Longrightarrow> tokens_ok (args @ words cur) None"
  by (cases cur; auto simp: tokens_ok_def full_args_def)+

lemma escape_char_scalar: "escape_char q d = Ok e \<Longrightarrow> is_scalar d \<Longrightarrow> is_scalar e"
  by (auto simp: escape_char_def is_scalar_def split: if_splits)

lemma tokens_Ok:
  assumes "tokens cs args cur q = Ok ws" "tokens_ok args cur" "\<forall>c \<in> set cs. is_scalar c"
  shows "length ws \<le> MAX_ARGUMENTS \<and> (\<forall>w \<in> set ws. \<forall>c \<in> set w. is_scalar c)"
  using assms
proof (induction "length cs" arbitrary: cs args cur q rule: less_induct)
  case less
  note IH = less(1)
  show ?case
  proof (cases cs)
    case Nil
    then show ?thesis using less(2,3) by (cases q; cases cur) (auto simp: tokens_ok_def)
  next
    case (Cons c rest)
    have sc: "is_scalar c" "\<forall>c \<in> set rest. is_scalar c" and lt: "length rest < length cs"
      using less(4) Cons by auto
    show ?thesis
    proof (cases "q = Q_None \<and> space_char c")
      case True
      then show ?thesis
        using IH [OF lt _ tokens_ok_push(3) [OF less(3)] sc(2)] less(2) tokens_space [of c rest args cur] Cons by simp
    next
      case nspace: False
      have nf: "\<not> full_args cur args" using less(2) tokens_full [OF _ nspace] Cons by fastforce
      note push = tokens_ok_push(1) [OF less(3) nf] and opn = tokens_ok_push(2) [OF less(3) nf]
      consider (quote) "(c = 39 \<and> q \<noteq> Q_Double) \<or> (c = 34 \<and> q \<noteq> Q_Single)"
        | (escape) "c = 92" "q \<noteq> Q_Single"
        | (plain) "c = 39 \<longrightarrow> q = Q_Double" "c = 34 \<longrightarrow> q = Q_Single" "c = 92 \<longrightarrow> q = Q_Single"
        by auto
      then show ?thesis
      proof cases
        case quote
        then obtain q' where "tokens (c # rest) args cur q = tokens rest args (Some (word cur)) q'"
          using tokens_quote [OF nf, of rest] by (cases q) auto
        then show ?thesis using IH [OF lt _ opn sc(2)] less(2) Cons by simp
      next
        case escape
        then obtain d ds e where d: "rest = d # ds" "escape_char q d = Ok e"
            "tokens ds args (Some (word cur @ [e])) q = Ok ws"
          using less(2) Cons tokens_escape [OF nf escape(2)] by (cases rest) (auto simp: res_simps)
        have "length ds < length cs" "is_scalar e" "\<forall>c \<in> set ds. is_scalar c"
          using d sc(2) Cons escape_char_scalar by auto
        then show ?thesis using IH [OF _ d(3) push] by blast
      next
        case plain
        then show ?thesis using IH [OF lt _ push [OF sc(1)] sc(2)] less(2) tokens_plain [OF nf nspace] Cons by simp
      qed
    qed
  qed
qed

subsection \<open>The parser object can be reused\<close>

definition keeps_parser :: "(parser, parse_error, 'a) action \<Rightarrow> bool" where
  "keeps_parser m \<longleftrightarrow> (\<forall>p. parser_ok p \<longrightarrow> parser_ok (snd (m p)))"

lemma keeps_abind: "keeps_parser m \<Longrightarrow> (\<And>a. keeps_parser (k a)) \<Longrightarrow> keeps_parser (abind m k)"
  by (auto simp: keeps_parser_def abind_def split: prod.splits res.splits)

lemma keeps_basic:
  "keeps_parser (aret a)" "keeps_parser (afail e)" "keeps_parser (alift r)" "keeps_parser (aread f)"
  "keeps_parser (parser_put u b)" "keeps_parser (set_range n st u)"
  by (auto simp: keeps_parser_def aret_def afail_def alift_def aread_def parser_put_def set_range_def parser_ok_def)

lemma keeps_cases:
  "keeps_parser m \<Longrightarrow> keeps_parser m' \<Longrightarrow> keeps_parser (if b then m else m')"
  "keeps_parser m \<Longrightarrow> (\<And>x. keeps_parser (f x)) \<Longrightarrow> keeps_parser (case opt of None \<Rightarrow> m | Some x \<Rightarrow> f x)"
  "keeps_parser m \<Longrightarrow> (\<And>x xs. l = x # xs \<Longrightarrow> keeps_parser (g x xs)) \<Longrightarrow>
     keeps_parser (case l of [] \<Rightarrow> m | x # xs \<Rightarrow> g x xs)"
  by (simp_all split: option.split list.split)

lemma keeps_parse_loop: "keeps_parser (parse_loop bs used count start q)"
proof (induction "length bs" arbitrary: bs used count start q rule: less_induct)
  case less
  show ?case
  proof (cases bs)
    case Nil
    then show ?thesis by (simp add: keeps_basic)
  next
    case (Cons b rest)
    have IH: "keeps_parser (parse_loop xs used count start q)" if "length xs \<le> length rest" for xs used count start q
      using less that Cons by simp
    show ?thesis
      unfolding Cons parse_loop.simps(2) Let_def
      by (intro keeps_cases keeps_abind keeps_basic IH) simp_all
  qed
qed

lemma keeps_finish_scan: "keeps_parser (finish_scan r)"
  unfolding finish_scan_def
  by (cases r) (auto intro!: keeps_abind keeps_basic split: quote.splits option.splits)

lemma keeps_parse_line: "keeps_parser (parse_line line)"
  unfolding parse_line_def by (auto intro!: keeps_abind keeps_basic keeps_parse_loop keeps_finish_scan)

subsection \<open>Properties\<close>

lemma parser_new_ok: "parser_ok parser_new"
  by (simp add: parser_ok_def parser_new_def)

lemma scanned_start: "parser_ok p \<Longrightarrow> scanned p 0 0 None [] None"
  by (simp add: scanned_def)

lemma parse_line_eq:
  assumes "parser_ok p" "length line \<le> MAX_LINE_BYTES" "valid_utf8 line" "0 \<notin> set line"
  shows "fst (parse_line line p) = view_res (tokenize (str_chars line))"
proof -
  obtain cs where cs: "line = encode_str cs" "\<forall>c \<in> set cs. is_scalar c" using assms(3) by (auto simp: valid_utf8_iff)
  have "fst (scan_rest (encode_str cs) 0 0 None Q_None p) = view_res (tokens cs [] None Q_None)"
    by (rule scan_tokens [OF scanned_start [OF assms(1)] cs(2)]) (use assms(2) cs(1) in simp)
  then show ?thesis using assms cs by (simp add: parse_line_def scan_rest_def tokenize_def)
qed

text \<open>C27. The parser computes exactly the arguments of the tokenizer on characters, on every line: it
  never panics, its output never overflows the scratch buffer, the only lines it refuses as invalid
  UTF-8 are those that are not, and the parser can be used again after any result.\<close>

theorem parser_refines:
  assumes "parser_ok p"
  shows "fst (parse_line line p) =
    (if 4096 < length line then Err PE_LineTooLong
     else if \<not> valid_utf8 line then Err PE_InvalidUtf8
     else if 0 \<in> set line then Err PE_Nul
     else view_res (tokenize (str_chars line))) \<and> parser_ok (snd (parse_line line p))"
  using parse_line_eq [OF assms, of line] keeps_parse_line [of line] assms
  by (auto simp: keeps_parser_def MAX_LINE_BYTES_def parse_line_def afail_def)

theorem parser_refines_witness:
  "fst (parse_line [0x61, 0x20, 0x22, 0x20, 0x22] parser_new) = Ok (view [[0x61], [0x20]])"
proof -
  have v: "valid_utf8 [0x61, 0x20, 0x22, 0x20, 0x22]" by (rule valid_utf8_ascii) simp
  have "utf8_chars [0x61, 0x20, 0x22, 0x20, 0x22] = Some [0x61, 0x20, 0x22, 0x20, 0x22]" by code_simp
  then have "tokenize (str_chars [0x61, 0x20, 0x22, 0x20, 0x22]) = Ok [[0x61], [0x20]]"
    by (simp add: str_chars_def tokenize_def tokens.simps(2) space_char_def Let_def MAX_ARGUMENTS_def)
  with parser_refines [OF parser_new_ok, of "[0x61, 0x20, 0x22, 0x20, 0x22]"] v show ?thesis by simp
qed

lemma args_iter_view:
  assumes "\<forall>i < length rs. str_get (ar_start (rs ! i)) (ar_end (rs ! i)) s = Some (ts ! i)" "length ts = length rs"
  shows "args_iter s rs = Ok ts"
  using assms
proof (induction rs arbitrary: ts)
  case (Cons r rs)
  then obtain t ts' where t: "ts = t # ts'" by (cases ts) auto
  have "str_get (ar_start r) (ar_end r) s = Some t" using Cons.prems(1) t by fastforce
  moreover have "args_iter s rs = Ok ts'" by (rule Cons.IH) (use Cons.prems t in fastforce)+
  ultimately show ?case using t by simp
qed simp

text \<open>The arguments of a successful parse are well formed: there are at most 64, each is the encoding
  of the token with its index, and iterating over them never hits the \<open>expect\<close>.\<close>

theorem parsed_arguments:
  assumes "parser_ok p" and "parse_line line p = (Ok a, p')"
  shows "\<exists>ws. tokenize (str_chars line) = Ok ws \<and> length ws \<le> 64 \<and> args_len a = length ws \<and>
    args_iter (ag_text a) (ag_ranges a) = Ok (map encode_str ws) \<and>
    (\<forall>i. args_get a i = (if i < length ws then Some (encode_str (ws ! i)) else None))"
proof -
  have pre: "length line \<le> MAX_LINE_BYTES" "valid_utf8 line" "0 \<notin> set line"
    using assms(2) by (auto simp: parse_line_def afail_def split: if_splits)
  obtain ws where ws: "tokenize (str_chars line) = Ok ws" "a = view ws"
    using parse_line_eq [OF assms(1) pre] assms(2) by (cases "tokenize (str_chars line)") auto
  obtain cs where cs: "line = encode_str cs" "\<forall>c \<in> set cs. is_scalar c" using pre(2) by (auto simp: valid_utf8_iff)
  have ok: "length ws \<le> MAX_ARGUMENTS" "\<forall>w \<in> set ws. \<forall>c \<in> set w. is_scalar c"
    using tokens_Ok [of cs "[]" None Q_None ws] ws(1) cs by (auto simp: tokenize_def tokens_ok_def)
  have r: "str_get (ar_start (ranges_of 0 ws ! i)) (ar_end (ranges_of 0 ws ! i)) (encode_str (concat ws)) =
      Some (encode_str (ws ! i))" if "i < length ws" for i
    by (rule range_text [OF that ok(2)])
  have "args_iter (encode_str (concat ws)) (ranges_of 0 ws) = Ok (map encode_str ws)"
    by (rule args_iter_view) (use r in simp_all)
  moreover have "args_get (view ws) i = (if i < length ws then Some (encode_str (ws ! i)) else None)" for i
    using r by (simp add: args_get_def view_def get_index_def)
  ultimately show ?thesis using ws ok(1) by (auto simp: args_len_def view_def MAX_ARGUMENTS_def)
qed

theorem parsed_arguments_witness:
  "\<exists>a p'. parse_line [0x6C, 0x73] parser_new = (Ok a, p') \<and> args_get a 0 = Some [0x6C, 0x73] \<and> args_len a = 1"
proof -
  have u: "utf8_chars [0x6C, 0x73] = Some [0x6C, 0x73]" by code_simp
  have v: "valid_utf8 [0x6C, 0x73]" by (rule valid_utf8_ascii) simp
  have t: "tokenize (str_chars [0x6C, 0x73]) = Ok [[0x6C, 0x73]]"
    using u by (simp add: str_chars_def tokenize_def tokens.simps(2) space_char_def Let_def MAX_ARGUMENTS_def)
  have "fst (parse_line [0x6C, 0x73] parser_new) = Ok (view [[0x6C, 0x73]])"
    using parse_line_eq [OF parser_new_ok _ v] t by (simp add: MAX_LINE_BYTES_def)
  then obtain a p' where p: "parse_line [0x6C, 0x73] parser_new = (Ok a, p')" by (metis fst_conv surj_pair)
  from parsed_arguments [OF parser_new_ok p] t p show ?thesis
    by (auto simp: encode_utf8_ascii nat_byte_def)
qed

subsection \<open>Every argument list can be written\<close>

definition escaped :: "scalar \<Rightarrow> scalar list" where
  "escaped c = (if c = 34 \<or> c = 92 then [92, c] else [c])"

definition quoted :: "scalar list \<Rightarrow> scalar list" where
  "quoted w = 34 # concat (map escaped w) @ [34]"

fun quoted_line :: "scalar list list \<Rightarrow> scalar list" where
  "quoted_line [] = []"
| "quoted_line [w] = quoted w"
| "quoted_line (w # ws) = quoted w @ 32 # quoted_line ws"

lemma tokens_quoted_body:
  "tokens (concat (map escaped w) @ 34 # rest) args (Some u) Q_Double = tokens rest args (Some (u @ w)) Q_None"
proof (induction w arbitrary: u)
  case Nil
  then show ?case using tokens_quote(4) [of "Some u" args rest] by (simp add: full_args_def)
next
  case (Cons c w)
  have nf: "\<not> full_args (Some u) args" by (simp add: full_args_def)
  let ?more = "concat (map escaped w) @ 34 # rest"
  have "tokens (escaped c @ ?more) args (Some u) Q_Double = tokens ?more args (Some (u @ [c])) Q_Double"
  proof (cases "c = 34 \<or> c = 92")
    case True
    then have "escape_char Q_Double c = Ok c" by (auto simp: escape_char_def)
    with True show ?thesis using tokens_escape(1) [OF nf, of Q_Double c ?more] by (simp add: escaped_def)
  next
    case False
    then show ?thesis using tokens_plain [OF nf, of Q_Double c ?more] by (simp add: escaped_def)
  qed
  with Cons.IH [of "u @ [c]"] show ?case by simp
qed

lemma tokens_quoted:
  assumes "length args < MAX_ARGUMENTS"
  shows "tokens (quoted w @ rest) args None Q_None = tokens rest args (Some w) Q_None"
proof -
  have "\<not> full_args None args" using assms by (simp add: full_args_def)
  then show ?thesis
    using tokens_quote(3) [of None args "concat (map escaped w) @ 34 # rest"] tokens_quoted_body [of w rest args "[]"]
    by (simp add: quoted_def)
qed

lemma tokens_quoted_line:
  "length args + length ws \<le> MAX_ARGUMENTS \<Longrightarrow> tokens (quoted_line ws) args None Q_None = Ok (args @ ws)"
proof (induction ws arbitrary: args rule: quoted_line.induct)
  case (2 w)
  then show ?case using tokens_quoted [of args w "[]"] by simp
next
  case (3 w v ws)
  then have "tokens (quoted_line (w # v # ws)) args None Q_None =
      tokens (quoted_line (v # ws)) (args @ [w]) None Q_None"
    using tokens_quoted [of args w "32 # quoted_line (v # ws)"]
      tokens_space [of 32 "quoted_line (v # ws)" args "Some w"] by (simp add: space_char_def)
  with 3 show ?case by simp
qed simp

lemma set_quoted_line: "set (quoted_line ws) \<subseteq> insert 32 (insert 34 (insert 92 (set (concat ws))))"
proof -
  have "set (quoted w) \<subseteq> insert 34 (insert 92 (set w))" for w by (auto simp: quoted_def escaped_def split: if_splits)
  then show ?thesis by (induction ws rule: quoted_line.induct) fastforce+
qed

lemma parse_quoted_line:
  assumes "parser_ok p" and "length ws \<le> 64" and "\<forall>c \<in> set (concat ws). is_scalar c \<and> c \<noteq> 0"
    and "length (encode_str (quoted_line ws)) \<le> 4096"
  shows "fst (parse_line (encode_str (quoted_line ws)) p) = Ok (view ws)"
proof -
  let ?cs = "quoted_line ws"
  have sc: "is_scalar c \<and> c \<noteq> 0" if "c \<in> set ?cs" for c
  proof -
    have "c = 32 \<or> c = 34 \<or> c = 92 \<or> c \<in> set (concat ws)" using that set_quoted_line [of ws] by blast
    moreover have "is_scalar 32" "is_scalar 34" "is_scalar 92" by (simp_all add: is_scalar_def)
    ultimately show ?thesis using assms(3) by (metis zero_neq_numeral)
  qed
  have v: "valid_utf8 (encode_str ?cs)" using sc unfolding valid_utf8_iff by blast
  have "0 \<notin> set (encode_utf8 c)" if "c \<in> set ?cs" for c
  proof (cases "c < 0x80")
    case True
    then have "unat (nat_byte c) \<noteq> 0" using sc [OF that] by (simp add: unat_nat_byte)
    then show ?thesis using True by (auto simp: encode_utf8_ascii)
  next
    case False
    then show ?thesis using encode_high [OF _ False] sc [OF that] by fastforce
  qed
  then have z: "0 \<notin> set (encode_str ?cs)" by auto
  have t: "tokenize (str_chars (encode_str ?cs)) = Ok ws"
    using tokens_quoted_line [of "[]" ws] assms(2) sc by (simp add: tokenize_def MAX_ARGUMENTS_def)
  show "fst (parse_line (encode_str ?cs) p) = Ok (view ws)"
    using parse_line_eq [OF assms(1) _ v z] assms(4) t by (simp add: MAX_LINE_BYTES_def)
qed

lemma tokenize_quoted_line:
  "length ws \<le> 64 \<Longrightarrow> \<forall>c \<in> set (quoted_line ws). is_scalar c \<Longrightarrow>
   tokenize (str_chars (encode_str (quoted_line ws))) = Ok ws"
  using tokens_quoted_line [of "[]" ws] by (simp add: tokenize_def MAX_ARGUMENTS_def)

lemma args_iter_words:
  "\<forall>w \<in> set ws. \<forall>c \<in> set w. is_scalar c \<Longrightarrow> args_iter (ag_text (view ws)) (ag_ranges (view ws)) = Ok (map encode_str ws)"
  using range_text [of _ ws] by (intro args_iter_view) (auto simp: view_def)

text \<open>Every list of at most 64 arguments can be written on a line: the arguments in double quotes
  with escaped quotes and backslashes, separated by spaces, parse back to exactly those arguments,
  when the line is not too long and no argument contains a NUL.\<close>

theorem quoting_roundtrip:
  assumes "parser_ok p" and "length ws \<le> 64" and "\<forall>c \<in> set (concat ws). is_scalar c \<and> c \<noteq> 0"
    and "length (encode_str (quoted_line ws)) \<le> 4096"
  shows "\<exists>a p'. parse_line (encode_str (quoted_line ws)) p = (Ok a, p') \<and>
    args_iter (ag_text a) (ag_ranges a) = Ok (map encode_str ws)"
  using parse_quoted_line [OF assms] args_iter_words [of ws] assms(3) by (metis UN_I fst_conv set_concat surj_pair)

theorem quoting_roundtrip_witness:
  "\<exists>a p'. parse_line (encode_str (quoted_line [[104, 34], []])) parser_new = (Ok a, p') \<and>
     args_iter (ag_text a) (ag_ranges a) = Ok (map encode_str [[104, 34], []])"
  using quoting_roundtrip [OF parser_new_ok, of "[[104, 34], []]"]
  by (simp add: is_scalar_def quoted_def escaped_def len_utf8_def)

end
