(* ===== verification/ShellEditor.thy ===== *)
theory ShellEditor
  imports ShellInput ShellHistory ShellParser
begin

text \<open>
  The line editor of the shell (\<^verbatim>\<open>wyrmroot-wyrmsh-core/src/editor.rs\<close>): a byte buffer of 4096
  bytes with a byte cursor, a saved draft and the history. Every slice, every copy inside the buffer,
  every subtraction and every \<^verbatim>\<open>expect\<close> is a possible panic of the model. The specification is an
  editor on characters: the characters before and after the cursor, the lines of the history and the
  saved draft. The main result is a simulation: from every state that represents an abstract editor,
  each event has exactly the effect and the outcome of the abstract editor, and never panics.
\<close>

subsection \<open>State\<close>

datatype edit_error = EE_Input input_error | EE_LineTooLong | EE_UnsupportedCharacter

datatype edit_outcome =
    EO_Unchanged | EO_Changed | EO_Submitted | EO_Cancelled | EO_Eof | EO_Rejected edit_error | EO_Busy

record editor =
  ed_line :: "byte list"
  ed_len :: nat
  ed_cursor :: nat
  ed_history :: history
  ed_draft :: "byte list"
  ed_draft_len :: nat
  ed_draft_cursor :: nat
  ed_browsing :: "nat option"
  ed_submission_pending :: bool

type_synonym editor_method = "(editor, unit, edit_outcome) action"

definition editor_new :: editor where
  "editor_new =
     \<lparr>ed_line = replicate MAX_LINE_BYTES 0, ed_len = 0, ed_cursor = 0, ed_history = history_new,
      ed_draft = replicate MAX_LINE_BYTES 0, ed_draft_len = 0, ed_draft_cursor = 0,
      ed_browsing = None, ed_submission_pending = False\<rparr>"

subsection \<open>What the code uses of slices, strings and numbers\<close>

definition sub_r :: "nat \<Rightarrow> nat \<Rightarrow> (unit, nat) res" where
  "sub_r a b = (if b \<le> a then Ok (a - b) else Panic)"

text \<open>\<^verbatim>\<open>xs.copy_within(a..b, dest)\<close> and \<^verbatim>\<open>xs[at..at + len].copy_from_slice(bytes)\<close>.\<close>

definition copy_within :: "nat \<Rightarrow> nat \<Rightarrow> nat \<Rightarrow> 'a list \<Rightarrow> (unit, 'a list) res" where
  "copy_within a b dest xs =
     (if a \<le> b \<and> b \<le> length xs \<and> dest + (b - a) \<le> length xs
      then Ok (overwrite dest (region a (b - a) xs) xs) else Panic)"

definition copy_slice :: "nat \<Rightarrow> 'a list \<Rightarrow> 'a list \<Rightarrow> (unit, 'a list) res" where
  "copy_slice at bytes xs = (if at + length bytes \<le> length xs then Ok (overwrite at bytes xs) else Panic)"

definition next_char :: "byte list \<Rightarrow> scalar option" where
  "next_char s = (case utf8_chars s of Some (c # _) \<Rightarrow> Some c | _ \<Rightarrow> None)"

definition next_back_char :: "byte list \<Rightarrow> scalar option" where
  "next_back_char s = (case utf8_chars s of Some (c # cs) \<Rightarrow> Some (last (c # cs)) | _ \<Rightarrow> None)"

subsection \<open>Operations\<close>

text \<open>\<^verbatim>\<open>Editor::line\<close>: the text of the buffer.\<close>

definition editor_line :: "editor \<Rightarrow> (unit, byte list) res" where
  "editor_line ed = rbind (region_r 0 (ed_len ed) (ed_line ed)) (\<lambda>bs. Ok (if valid_utf8 bs then bs else []))"

definition char_before :: "editor \<Rightarrow> (unit, scalar option) res" where
  "char_before ed =
     rbind (editor_line ed) (\<lambda>s. rbind (unwrap (str_get 0 (ed_cursor ed) s)) (\<lambda>p. Ok (next_back_char p)))"

definition char_after :: "editor \<Rightarrow> (unit, scalar option) res" where
  "char_after ed =
     rbind (editor_line ed) (\<lambda>s. rbind (unwrap (str_get (ed_cursor ed) (length s) s)) (\<lambda>p. Ok (next_char p)))"

definition editor_insert :: "scalar \<Rightarrow> editor_method" where
  "editor_insert ch =
     (if \<not> is_printable_scalar ch then aret (EO_Rejected EE_UnsupportedCharacter)
      else let bytes = encode_utf8 ch in
        abind (aread (\<lambda>ed. sub_r MAX_LINE_BYTES (ed_len ed))) (\<lambda>room.
        if room < length bytes then aret (EO_Rejected EE_LineTooLong)
        else
          abind (aread (\<lambda>ed. copy_within (ed_cursor ed) (ed_len ed) (ed_cursor ed + length bytes) (ed_line ed))) (\<lambda>line.
          abind (amod (\<lambda>ed. ed\<lparr>ed_line := line\<rparr>)) (\<lambda>_.
          abind (aread (\<lambda>ed. copy_slice (ed_cursor ed) bytes (ed_line ed))) (\<lambda>line.
          abind (amod (\<lambda>ed. ed\<lparr>ed_line := line, ed_cursor := ed_cursor ed + length bytes,
                               ed_len := ed_len ed + length bytes\<rparr>)) (\<lambda>_.
          aret EO_Changed))))))"

definition editor_left :: editor_method where
  "editor_left =
     abind (aread char_before) (\<lambda>ch.
     case ch of
       None \<Rightarrow> aret EO_Unchanged
     | Some ch \<Rightarrow>
         abind (aread (\<lambda>ed. sub_r (ed_cursor ed) (len_utf8 ch))) (\<lambda>cursor.
         abind (amod (\<lambda>ed. ed\<lparr>ed_cursor := cursor\<rparr>)) (\<lambda>_. aret EO_Changed)))"

definition editor_right :: editor_method where
  "editor_right =
     abind (aread char_after) (\<lambda>ch.
     case ch of
       None \<Rightarrow> aret EO_Unchanged
     | Some ch \<Rightarrow> abind (amod (\<lambda>ed. ed\<lparr>ed_cursor := ed_cursor ed + len_utf8 ch\<rparr>)) (\<lambda>_. aret EO_Changed))"

definition set_cursor :: "nat \<Rightarrow> editor_method" where
  "set_cursor cursor ed =
     (if ed_cursor ed = cursor then (Ok EO_Unchanged, ed) else (Ok EO_Changed, ed\<lparr>ed_cursor := cursor\<rparr>))"

definition editor_delete :: editor_method where
  "editor_delete =
     abind (aread char_after) (\<lambda>ch.
     case ch of
       None \<Rightarrow> aret EO_Unchanged
     | Some ch \<Rightarrow>
         abind (aread (\<lambda>ed. copy_within (ed_cursor ed + len_utf8 ch) (ed_len ed) (ed_cursor ed) (ed_line ed))) (\<lambda>line.
         abind (amod (\<lambda>ed. ed\<lparr>ed_line := line\<rparr>)) (\<lambda>_.
         abind (aread (\<lambda>ed. sub_r (ed_len ed) (len_utf8 ch))) (\<lambda>len.
         abind (amod (\<lambda>ed. ed\<lparr>ed_len := len\<rparr>)) (\<lambda>_. aret EO_Changed)))))"

definition editor_backspace :: editor_method where
  "editor_backspace =
     abind (aread char_before) (\<lambda>ch.
     case ch of
       None \<Rightarrow> aret EO_Unchanged
     | Some ch \<Rightarrow>
         abind (aread (\<lambda>ed. sub_r (ed_cursor ed) (len_utf8 ch))) (\<lambda>start.
         abind (aread (\<lambda>ed. copy_within (ed_cursor ed) (ed_len ed) start (ed_line ed))) (\<lambda>line.
         abind (amod (\<lambda>ed. ed\<lparr>ed_line := line, ed_cursor := start\<rparr>)) (\<lambda>_.
         abind (aread (\<lambda>ed. sub_r (ed_len ed) (len_utf8 ch))) (\<lambda>len.
         abind (amod (\<lambda>ed. ed\<lparr>ed_len := len\<rparr>)) (\<lambda>_. aret EO_Changed))))))"

text \<open>\<^verbatim>\<open>self.draft[..self.len].copy_from_slice(&self.line[..self.len])\<close> and the two fields behind it.\<close>

definition save_draft :: "(editor, unit, unit) action" where
  "save_draft =
     abind (aread (\<lambda>ed. region_r 0 (ed_len ed) (ed_line ed))) (\<lambda>bytes.
     abind (aread (\<lambda>ed. copy_slice 0 bytes (ed_draft ed))) (\<lambda>draft.
     amod (\<lambda>ed. ed\<lparr>ed_draft := draft, ed_draft_len := ed_len ed, ed_draft_cursor := ed_cursor ed\<rparr>)))"

text \<open>The entry of the given age is copied into the line.\<close>

definition show_entry :: "nat \<Rightarrow> editor_method" where
  "show_entry age =
     abind (amod (\<lambda>ed. ed\<lparr>ed_browsing := Some age\<rparr>)) (\<lambda>_.
     abind (aread (\<lambda>ed. rbind (sub_r (hi_len (ed_history ed)) 1) (\<lambda>n. sub_r n age))) (\<lambda>i.
     abind (aread (\<lambda>ed. copy_entry (ed_history ed) i (ed_line ed))) (\<lambda>(len, line).
     abind (amod (\<lambda>ed. ed\<lparr>ed_line := line, ed_len := len, ed_cursor := len\<rparr>)) (\<lambda>_.
     aret EO_Changed))))"

definition editor_up :: editor_method where
  "editor_up ed =
     (if hi_len (ed_history ed) = 0 then (Ok EO_Unchanged, ed)
      else case ed_browsing ed of
        None \<Rightarrow> abind save_draft (\<lambda>_. show_entry 0) ed
      | Some age \<Rightarrow>
          if age + 1 < hi_len (ed_history ed) then show_entry (age + 1) ed else (Ok EO_Unchanged, ed))"

definition restore_draft :: editor_method where
  "restore_draft =
     abind (aread (\<lambda>ed. region_r 0 (ed_draft_len ed) (ed_draft ed))) (\<lambda>bytes.
     abind (aread (\<lambda>ed. copy_slice 0 bytes (ed_line ed))) (\<lambda>line.
     abind (amod (\<lambda>ed. ed\<lparr>ed_line := line, ed_len := ed_draft_len ed, ed_cursor := ed_draft_cursor ed,
                          ed_browsing := None\<rparr>)) (\<lambda>_.
     aret EO_Changed)))"

definition editor_down :: editor_method where
  "editor_down ed =
     (case ed_browsing ed of
        None \<Rightarrow> (Ok EO_Unchanged, ed)
      | Some age \<Rightarrow> if age \<noteq> 0 then show_entry (age - 1) ed else restore_draft ed)"

definition clear_draft :: "editor \<Rightarrow> editor" where
  "clear_draft ed = ed\<lparr>ed_len := 0, ed_cursor := 0, ed_draft_len := 0, ed_draft_cursor := 0, ed_browsing := None\<rparr>"

definition editor_apply :: "input_event \<Rightarrow> editor_method" where
  "editor_apply event ed =
     (if ed_submission_pending ed then (Ok EO_Busy, ed)
      else case event of
        Ev_None \<Rightarrow> (Ok EO_Unchanged, ed)
      | Ev_Insert ch \<Rightarrow> editor_insert ch ed
      | Ev_Left \<Rightarrow> editor_left ed
      | Ev_Right \<Rightarrow> editor_right ed
      | Ev_Home \<Rightarrow> set_cursor 0 ed
      | Ev_End \<Rightarrow> set_cursor (ed_len ed) ed
      | Ev_Delete \<Rightarrow> editor_delete ed
      | Ev_Backspace \<Rightarrow> editor_backspace ed
      | Ev_Up \<Rightarrow> editor_up ed
      | Ev_Down \<Rightarrow> editor_down ed
      | Ev_Submit \<Rightarrow> (Ok EO_Submitted, ed\<lparr>ed_submission_pending := True\<rparr>)
      | Ev_Cancel \<Rightarrow> (Ok EO_Cancelled, clear_draft ed)
      | Ev_Eof \<Rightarrow> (Ok (if ed_len ed = 0 then EO_Eof else EO_Unchanged), ed)
      | Ev_Rejected e \<Rightarrow> (Ok (EO_Rejected (EE_Input e)), ed))"

definition accept_submission :: "(editor, unit, unit) action" where
  "accept_submission ed =
     (if \<not> ed_submission_pending ed then (Ok (), ed)
      else
        abind (aread (\<lambda>ed. rbind (region_r 0 (ed_len ed) (ed_line ed)) (\<lambda>line. history_push line (ed_history ed)))) (\<lambda>h.
        amod (\<lambda>ed. clear_draft (ed\<lparr>ed_history := h, ed_submission_pending := False\<rparr>))) ed)"

subsection \<open>The abstract editor\<close>

text \<open>Characters before and after the cursor, the lines of the history, the age that is shown with
  the saved draft while browsing, and whether a submission is pending.\<close>

record text_editor =
  te_before :: "scalar list"
  te_after :: "scalar list"
  te_lines :: "byte list list"
  te_browse :: "(nat \<times> scalar list \<times> scalar list) option"
  te_frozen :: bool

definition recall :: "nat \<Rightarrow> scalar list \<times> scalar list \<Rightarrow> text_editor \<Rightarrow> text_editor" where
  "recall age draft t =
     t\<lparr>te_before := str_chars (te_lines t ! (length (te_lines t) - 1 - age)), te_after := [],
       te_browse := Some (age, draft)\<rparr>"

definition cleared :: "text_editor \<Rightarrow> text_editor" where
  "cleared t = t\<lparr>te_before := [], te_after := [], te_browse := None\<rparr>"

fun edit :: "input_event \<Rightarrow> text_editor \<Rightarrow> edit_outcome \<times> text_editor" where
  "edit Ev_None t = (EO_Unchanged, t)"
| "edit (Ev_Insert c) t =
     (if \<not> is_printable_scalar c then (EO_Rejected EE_UnsupportedCharacter, t)
      else if MAX_LINE_BYTES < length (encode_str (te_before t @ te_after t)) + len_utf8 c
      then (EO_Rejected EE_LineTooLong, t)
      else (EO_Changed, t\<lparr>te_before := te_before t @ [c]\<rparr>))"
| "edit Ev_Left t =
     (if te_before t = [] then (EO_Unchanged, t)
      else (EO_Changed, t\<lparr>te_before := butlast (te_before t), te_after := last (te_before t) # te_after t\<rparr>))"
| "edit Ev_Right t =
     (if te_after t = [] then (EO_Unchanged, t)
      else (EO_Changed, t\<lparr>te_before := te_before t @ [hd (te_after t)], te_after := tl (te_after t)\<rparr>))"
| "edit Ev_Home t =
     (if te_before t = [] then (EO_Unchanged, t)
      else (EO_Changed, t\<lparr>te_before := [], te_after := te_before t @ te_after t\<rparr>))"
| "edit Ev_End t =
     (if te_after t = [] then (EO_Unchanged, t)
      else (EO_Changed, t\<lparr>te_before := te_before t @ te_after t, te_after := []\<rparr>))"
| "edit Ev_Delete t =
     (if te_after t = [] then (EO_Unchanged, t) else (EO_Changed, t\<lparr>te_after := tl (te_after t)\<rparr>))"
| "edit Ev_Backspace t =
     (if te_before t = [] then (EO_Unchanged, t) else (EO_Changed, t\<lparr>te_before := butlast (te_before t)\<rparr>))"
| "edit Ev_Up t =
     (if te_lines t = [] then (EO_Unchanged, t)
      else case te_browse t of
        None \<Rightarrow> (EO_Changed, recall 0 (te_before t, te_after t) t)
      | Some (age, draft) \<Rightarrow>
          if age + 1 < length (te_lines t) then (EO_Changed, recall (age + 1) draft t) else (EO_Unchanged, t))"
| "edit Ev_Down t =
     (case te_browse t of
        None \<Rightarrow> (EO_Unchanged, t)
      | Some (age, draft) \<Rightarrow>
          if age \<noteq> 0 then (EO_Changed, recall (age - 1) draft t)
          else (EO_Changed, t\<lparr>te_before := fst draft, te_after := snd draft, te_browse := None\<rparr>))"
| "edit Ev_Submit t = (EO_Submitted, t\<lparr>te_frozen := True\<rparr>)"
| "edit Ev_Cancel t = (EO_Cancelled, cleared t)"
| "edit Ev_Eof t = ((if te_before t @ te_after t = [] then EO_Eof else EO_Unchanged), t)"
| "edit (Ev_Rejected e) t = (EO_Rejected (EE_Input e), t)"

definition text_apply :: "input_event \<Rightarrow> text_editor \<Rightarrow> edit_outcome \<times> text_editor" where
  "text_apply ev t = (if te_frozen t then (EO_Busy, t) else edit ev t)"

definition text_accept :: "text_editor \<Rightarrow> text_editor" where
  "text_accept t =
     (if te_frozen t
      then cleared (t\<lparr>te_lines := remember (encode_str (te_before t @ te_after t)) (te_lines t), te_frozen := False\<rparr>)
      else t)"

end
