(* ===== verification/ShellEditorSim.thy ===== *)
theory ShellEditorSim
  imports ShellEditor
begin

text \<open>
  The simulation between the line editor and the abstract editor on characters, one lemma per
  operation, and the properties that follow: no event panics, the line is always valid UTF-8 with
  the cursor on a character boundary, and what was submitted is what \<open>Up\<close> recalls.
\<close>

subsection \<open>Buffers that hold text\<close>

definition text_char :: "scalar \<Rightarrow> bool" where
  "text_char c \<longleftrightarrow> is_scalar c \<and> is_printable_scalar c"

definition holds_text :: "byte list \<Rightarrow> nat \<Rightarrow> nat \<Rightarrow> scalar list \<Rightarrow> scalar list \<Rightarrow> bool" where
  "holds_text buf len cursor before after \<longleftrightarrow>
     length buf = MAX_LINE_BYTES \<and> len \<le> MAX_LINE_BYTES \<and> take len buf = encode_str (before @ after) \<and>
     cursor = length (encode_str before) \<and> (\<forall>c \<in> set (before @ after). text_char c)"

lemma holds_text_len: "holds_text buf len cursor b a \<Longrightarrow> len = length (encode_str b) + length (encode_str a)"
  unfolding holds_text_def by (metis concat_append length_append length_take map_append min.absorb2)

lemma holds_text_scalars:
  assumes "holds_text buf len cursor b a"
  shows "\<forall>c \<in> set (b @ a). is_scalar c" "\<forall>c \<in> set b. is_scalar c" "\<forall>c \<in> set a. is_scalar c"
  using assms by (auto simp: holds_text_def text_char_def)

lemma next_char_encode: "\<forall>c \<in> set cs. is_scalar c \<Longrightarrow> next_char (encode_str cs) = (if cs = [] then None else Some (hd cs))"
  using utf8_chars_encode [of cs] by (cases cs) (auto simp: next_char_def)

lemma next_back_char_encode:
  "\<forall>c \<in> set cs. is_scalar c \<Longrightarrow> next_back_char (encode_str cs) = (if cs = [] then None else Some (last cs))"
  using utf8_chars_encode [of cs] by (cases cs) (auto simp: next_back_char_def)

lemma editor_line_text:
  assumes "holds_text (ed_line ed) (ed_len ed) (ed_cursor ed) b a"
  shows "editor_line ed = Ok (encode_str (b @ a))"
proof -
  have "valid_utf8 (encode_str (b @ a))" using holds_text_scalars(1) [OF assms] unfolding valid_utf8_iff by blast
  with assms show ?thesis by (simp add: editor_line_def region_r_def region_def holds_text_def)
qed

lemma char_before_text:
  assumes "holds_text (ed_line ed) (ed_len ed) (ed_cursor ed) b a"
  shows "char_before ed = Ok (if b = [] then None else Some (last b))"
  using editor_line_text [OF assms] str_get_before [OF holds_text_scalars(1) [OF assms]]
    next_back_char_encode [OF holds_text_scalars(2) [OF assms]] assms
  by (simp add: char_before_def holds_text_def del: map_append concat_append)

lemma char_after_text:
  assumes "holds_text (ed_line ed) (ed_len ed) (ed_cursor ed) b a"
  shows "char_after ed = Ok (if a = [] then None else Some (hd a))"
  using editor_line_text [OF assms] str_get_after [OF holds_text_scalars(1) [OF assms]]
    next_char_encode [OF holds_text_scalars(3) [OF assms]] assms
  by (simp add: char_after_def holds_text_def del: map_append concat_append)

text \<open>The two moves inside the buffer: opening a gap for new bytes and closing one.\<close>

lemma open_gap:
  assumes "take n buf = x @ y" "n = length x + length y" "n + length z \<le> length buf"
  shows "copy_within (length x) n (length x + length z) buf = Ok (overwrite (length x + length z) y buf)"
    and "copy_slice (length x) z (overwrite (length x + length z) y buf) =
      Ok (overwrite (length x) z (overwrite (length x + length z) y buf))"
    and "take (n + length z) (overwrite (length x) z (overwrite (length x + length z) y buf)) = x @ z @ y"
proof -
  have r: "region (length x) (length y) buf = y"
    using assms by (metis append_eq_conv_conj diff_add_inverse drop_take region_def)
  have x: "take (length x) buf = x" using assms by (metis append_eq_conv_conj take_take min.absorb1 le_add1)
  show "copy_within (length x) n (length x + length z) buf = Ok (overwrite (length x + length z) y buf)"
    using assms r by (simp add: copy_within_def)
  show "copy_slice (length x) z (overwrite (length x + length z) y buf) =
      Ok (overwrite (length x) z (overwrite (length x + length z) y buf))"
    using assms by (simp add: copy_slice_def)
  show "take (n + length z) (overwrite (length x) z (overwrite (length x + length z) y buf)) = x @ z @ y"
    using assms x by (simp add: overwrite_def)
qed

lemma close_gap:
  assumes "take n buf = x @ z @ y" "n = length x + length z + length y" "n \<le> length buf"
  shows "copy_within (length x + length z) n (length x) buf = Ok (overwrite (length x) y buf)"
    and "take (length x + length y) (overwrite (length x) y buf) = x @ y"
proof -
  have r: "region (length x + length z) (length y) buf = y"
    using assms unfolding region_def
    by (metis append_assoc append_eq_conv_conj diff_add_inverse drop_take length_append)
  have x: "take (length x) buf = x"
    using assms by (metis append_eq_conv_conj take_take min.absorb1 le_add1 add.assoc)
  show "copy_within (length x + length z) n (length x) buf = Ok (overwrite (length x) y buf)"
    using assms r by (simp add: copy_within_def)
  show "take (length x + length y) (overwrite (length x) y buf) = x @ y"
    using assms x by (simp add: overwrite_def)
qed

subsection \<open>Representation\<close>

definition editor_text :: "byte list \<Rightarrow> bool" where
  "editor_text l \<longleftrightarrow> length l \<le> MAX_LINE_BYTES \<and> (\<exists>cs. l = encode_str cs \<and> (\<forall>c \<in> set cs. text_char c))"

definition browse_ok :: "editor \<Rightarrow> (nat \<times> scalar list \<times> scalar list) option \<Rightarrow> bool" where
  "browse_ok ed browse \<longleftrightarrow>
     (case browse of
        None \<Rightarrow> ed_browsing ed = None
      | Some (age, b, a) \<Rightarrow>
          ed_browsing ed = Some age \<and> age < hi_len (ed_history ed) \<and>
          holds_text (ed_draft ed) (ed_draft_len ed) (ed_draft_cursor ed) b a)"

definition represents :: "editor \<Rightarrow> text_editor \<Rightarrow> bool" where
  "represents ed t \<longleftrightarrow>
     holds_text (ed_line ed) (ed_len ed) (ed_cursor ed) (te_before t) (te_after t) \<and>
     history_ok (ed_history ed) \<and> history_lines (ed_history ed) = te_lines t \<and>
     (\<forall>l \<in> set (te_lines t). editor_text l) \<and>
     length (ed_draft ed) = MAX_LINE_BYTES \<and> browse_ok ed (te_browse t) \<and>
     ed_submission_pending ed = te_frozen t"

definition simulates :: "editor_method \<Rightarrow> editor \<Rightarrow> edit_outcome \<times> text_editor \<Rightarrow> bool" where
  "simulates m ed ot \<longleftrightarrow> (\<exists>ed'. m ed = (Ok (fst ot), ed') \<and> represents ed' (snd ot))"

lemma simulatesI: "m ed = (Ok o', ed') \<Longrightarrow> represents ed' t' \<Longrightarrow> simulates m ed (o', t')"
  by (simp add: simulates_def)

text \<open>A change of the line alone.\<close>

lemma represents_line:
  assumes "represents ed t" "holds_text line len cursor b a"
  shows "represents (ed\<lparr>ed_line := line, ed_len := len, ed_cursor := cursor\<rparr>) (t\<lparr>te_before := b, te_after := a\<rparr>)"
  using assms by (auto simp: represents_def browse_ok_def split: option.splits)

lemma represents_text: "represents ed t \<Longrightarrow> holds_text (ed_line ed) (ed_len ed) (ed_cursor ed) (te_before t) (te_after t)"
  by (simp add: represents_def)

lemma represents_no_lines: "represents ed t \<Longrightarrow> te_lines t = [] \<longleftrightarrow> hi_len (ed_history ed) = 0"
  unfolding represents_def by (metis length_0_conv length_history_lines)

lemma represents_lines: "represents ed t \<Longrightarrow> length (te_lines t) = hi_len (ed_history ed)"
  unfolding represents_def by (metis length_history_lines)

lemma editor_record_id [simp]:
  "ed\<lparr>ed_line := ed_line ed, ed_len := n, ed_cursor := c\<rparr> = ed\<lparr>ed_len := n, ed_cursor := c\<rparr>"
  "ed\<lparr>ed_len := ed_len ed, ed_cursor := c\<rparr> = ed\<lparr>ed_cursor := c\<rparr>"
  by simp_all

lemma move_cursor:
  assumes "represents ed t" "before' @ after' = te_before t @ te_after t"
  shows "represents (ed\<lparr>ed_cursor := length (encode_str before')\<rparr>) (t\<lparr>te_before := before', te_after := after'\<rparr>)"
proof -
  have "holds_text (ed_line ed) (ed_len ed) (length (encode_str before')) before' after'"
    using represents_text [OF assms(1)] assms(2) by (simp add: holds_text_def flip: map_append concat_append set_append)
  from represents_line [OF assms(1) this] show ?thesis by simp
qed

subsection \<open>One operation at a time\<close>

lemma insert_simulates:
  assumes "represents ed t" "is_scalar c"
  shows "simulates (editor_insert c) ed (edit (Ev_Insert c) t)"
proof -
  let ?b = "te_before t" and ?a = "te_after t" and ?z = "encode_str [c]"
  note h = represents_text [OF assms(1)]
  have len: "ed_len ed = length (encode_str ?b) + length (encode_str ?a)" by (rule holds_text_len [OF h])
  have f: "length (ed_line ed) = MAX_LINE_BYTES" "ed_len ed \<le> MAX_LINE_BYTES"
      "take (ed_len ed) (ed_line ed) = encode_str ?b @ encode_str ?a" "ed_cursor ed = length (encode_str ?b)"
    using h by (simp_all add: holds_text_def)
  show ?thesis
  proof (cases "is_printable_scalar c \<and> ed_len ed + len_utf8 c \<le> MAX_LINE_BYTES")
    case True
    then have "ed_len ed + length ?z \<le> length (ed_line ed)" using f by simp
    note gap = open_gap [OF f(3) len this]
    let ?line = "overwrite (length (encode_str ?b)) ?z (overwrite (length (encode_str ?b) + length ?z) (encode_str ?a) (ed_line ed))"
    have run: "editor_insert c ed = (Ok EO_Changed, ed\<lparr>ed_line := ?line, ed_len := ed_len ed + len_utf8 c,
        ed_cursor := ed_cursor ed + len_utf8 c\<rparr>)"
      using True f gap(1,2) by (simp add: editor_insert_def action_defs Let_def sub_r_def not_less le_diff_conv2 add.commute)
    have "holds_text ?line (ed_len ed + len_utf8 c) (ed_cursor ed + len_utf8 c) (?b @ [c]) ?a"
      using True h gap(3) f len assms(2) by (auto simp: holds_text_def text_char_def)
    from represents_line [OF assms(1) this] run True len show ?thesis
      by (auto simp: simulates_def)
  next
    case False
    then show ?thesis
      using f len assms(1) by (auto simp: simulates_def editor_insert_def action_defs Let_def sub_r_def)
  qed
qed

lemma left_simulates:
  assumes "represents ed t"
  shows "simulates editor_left ed (edit Ev_Left t)"
proof (cases "te_before t" rule: rev_cases)
  case Nil
  then show ?thesis using char_before_text [OF represents_text [OF assms]] assms
    by (simp add: simulates_def editor_left_def action_defs)
next
  case (snoc bs c)
  have cur: "ed_cursor ed = length (encode_str bs) + len_utf8 c"
    using represents_text [OF assms] snoc by (simp add: holds_text_def)
  have "editor_left ed = (Ok EO_Changed, ed\<lparr>ed_cursor := length (encode_str bs)\<rparr>)"
    using char_before_text [OF represents_text [OF assms]] snoc cur
    by (simp add: editor_left_def action_defs sub_r_def)
  with move_cursor [OF assms, of bs "c # te_after t"] snoc show ?thesis by (simp add: simulates_def)
qed

lemma right_simulates:
  assumes "represents ed t"
  shows "simulates editor_right ed (edit Ev_Right t)"
proof (cases "te_after t")
  case Nil
  then show ?thesis using char_after_text [OF represents_text [OF assms]] assms
    by (simp add: simulates_def editor_right_def action_defs)
next
  case (Cons c cs)
  have cur: "ed_cursor ed = length (encode_str (te_before t))"
    using represents_text [OF assms] by (simp add: holds_text_def)
  have "editor_right ed = (Ok EO_Changed, ed\<lparr>ed_cursor := length (encode_str (te_before t @ [c]))\<rparr>)"
    using char_after_text [OF represents_text [OF assms]] Cons cur
    by (simp add: editor_right_def action_defs)
  with move_cursor [OF assms, of "te_before t @ [c]" cs] Cons show ?thesis by (simp add: simulates_def)
qed

lemma encode_str_empty: "length (encode_str cs) = 0 \<longleftrightarrow> cs = []"
  by (cases cs) auto

lemma home_simulates:
  assumes "represents ed t"
  shows "simulates (set_cursor 0) ed (edit Ev_Home t)"
proof -
  have "ed_cursor ed = 0 \<longleftrightarrow> te_before t = []"
    using represents_text [OF assms] encode_str_empty [of "te_before t"] by (simp add: holds_text_def)
  with assms move_cursor [OF assms, of "[]" "te_before t @ te_after t"] show ?thesis
    by (auto simp: simulates_def set_cursor_def)
qed

lemma end_simulates:
  assumes "represents ed t"
  shows "simulates (\<lambda>ed. set_cursor (ed_len ed) ed) ed (edit Ev_End t)"
proof -
  have "ed_cursor ed = ed_len ed \<longleftrightarrow> te_after t = []"
    using represents_text [OF assms] holds_text_len [OF represents_text [OF assms]]
      encode_str_empty [of "te_after t"] by (simp add: holds_text_def)
  moreover have "ed_len ed = length (encode_str (te_before t @ te_after t))"
    using holds_text_len [OF represents_text [OF assms]] by simp
  ultimately show ?thesis using assms move_cursor [OF assms, of "te_before t @ te_after t" "[]"]
    by (auto simp: simulates_def set_cursor_def)
qed

text \<open>Delete and backspace close the gap of one character.\<close>

lemma remove_char:
  assumes "represents ed t" "te_before t @ te_after t = x @ c # y"
  shows "copy_within (length (encode_str x) + len_utf8 c) (ed_len ed) (length (encode_str x)) (ed_line ed) =
      Ok (overwrite (length (encode_str x)) (encode_str y) (ed_line ed))"
    and "represents (ed\<lparr>ed_line := overwrite (length (encode_str x)) (encode_str y) (ed_line ed),
      ed_len := ed_len ed - len_utf8 c, ed_cursor := length (encode_str x)\<rparr>) (t\<lparr>te_before := x, te_after := y\<rparr>)"
    and "len_utf8 c \<le> ed_len ed"
proof -
  note h = represents_text [OF assms(1)]
  have f: "length (ed_line ed) = MAX_LINE_BYTES" "ed_len ed \<le> length (ed_line ed)"
      "take (ed_len ed) (ed_line ed) = encode_str x @ encode_utf8 c @ encode_str y"
      "\<forall>d \<in> set (x @ c # y). text_char d"
    using h by (simp_all add: holds_text_def assms(2) flip: map_append concat_append set_append)
      (simp_all add: assms(2))
  have len: "ed_len ed = length (encode_str x) + length (encode_utf8 c) + length (encode_str y)"
    using arg_cong [OF f(3), of length] f(2) by simp
  note gap = close_gap [OF f(3) len f(2)]
  show "copy_within (length (encode_str x) + len_utf8 c) (ed_len ed) (length (encode_str x)) (ed_line ed) =
      Ok (overwrite (length (encode_str x)) (encode_str y) (ed_line ed))" using gap(1) by simp
  show "len_utf8 c \<le> ed_len ed" using len by simp
  have "holds_text (overwrite (length (encode_str x)) (encode_str y) (ed_line ed)) (ed_len ed - len_utf8 c)
      (length (encode_str x)) x y"
    using gap(2) f len by (auto simp: holds_text_def)
  from represents_line [OF assms(1) this] show "represents (ed\<lparr>ed_line := overwrite (length (encode_str x)) (encode_str y) (ed_line ed),
      ed_len := ed_len ed - len_utf8 c, ed_cursor := length (encode_str x)\<rparr>) (t\<lparr>te_before := x, te_after := y\<rparr>)" .
qed

lemma delete_simulates:
  assumes "represents ed t"
  shows "simulates editor_delete ed (edit Ev_Delete t)"
proof (cases "te_after t")
  case Nil
  then show ?thesis using char_after_text [OF represents_text [OF assms]] assms
    by (simp add: simulates_def editor_delete_def action_defs)
next
  case (Cons c cs)
  note r = remove_char [OF assms, of "te_before t" c cs]
  have cur: "ed_cursor ed = length (encode_str (te_before t))"
    using represents_text [OF assms] by (simp add: holds_text_def)
  have "editor_delete ed = (Ok EO_Changed, ed\<lparr>ed_line := overwrite (ed_cursor ed) (encode_str cs) (ed_line ed),
      ed_len := ed_len ed - len_utf8 c, ed_cursor := ed_cursor ed\<rparr>)"
    using char_after_text [OF represents_text [OF assms]] Cons r(1,3) cur
    by (simp add: editor_delete_def action_defs sub_r_def)
  with r(2) Cons cur show ?thesis by (simp add: simulates_def)
qed

lemma backspace_simulates:
  assumes "represents ed t"
  shows "simulates editor_backspace ed (edit Ev_Backspace t)"
proof (cases "te_before t" rule: rev_cases)
  case Nil
  then show ?thesis using char_before_text [OF represents_text [OF assms]] assms
    by (simp add: simulates_def editor_backspace_def action_defs)
next
  case (snoc bs c)
  note r = remove_char [OF assms, of bs c "te_after t"]
  have cur: "ed_cursor ed = length (encode_str bs) + len_utf8 c"
    using represents_text [OF assms] snoc by (simp add: holds_text_def)
  have "editor_backspace ed = (Ok EO_Changed, ed\<lparr>ed_line := overwrite (length (encode_str bs)) (encode_str (te_after t)) (ed_line ed),
      ed_len := ed_len ed - len_utf8 c, ed_cursor := length (encode_str bs)\<rparr>)"
    using char_before_text [OF represents_text [OF assms]] snoc r(1,3) cur
    by (simp add: editor_backspace_def action_defs sub_r_def)
  with r(2) snoc show ?thesis by (simp add: simulates_def)
qed

subsection \<open>Browsing the history\<close>

lemma holds_line:
  assumes "editor_text l" "length buf = MAX_LINE_BYTES"
  shows "holds_text (l @ drop (length l) buf) (length l) (length l) (str_chars l) []"
proof -
  obtain cs where cs: "l = encode_str cs" "\<forall>c \<in> set cs. text_char c" using assms(1) by (auto simp: editor_text_def)
  then have "str_chars l = cs" by (simp add: text_char_def)
  with cs assms show ?thesis by (simp add: holds_text_def editor_text_def)
qed

lemma show_entry_simulates:
  assumes "represents ed t" "age < length (te_lines t)"
    and "holds_text (ed_draft ed) (ed_draft_len ed) (ed_draft_cursor ed) (fst draft) (snd draft)"
  shows "simulates (show_entry age) ed (EO_Changed, recall age draft t)"
proof -
  let ?i = "length (te_lines t) - 1 - age" and ?h = "ed_history ed"
  let ?l = "te_lines t ! ?i" and ?n = "hi_len (ed_history ed)"
  have lines: "history_lines ?h = te_lines t" "length (te_lines t) = ?n"
    using assms(1) represents_lines by (simp_all add: represents_def)
  have i: "?i < length (te_lines t)" using assms(2) by simp
  have et: "editor_text ?l" using assms(1) nth_mem [OF i] by (simp add: represents_def)
  have buf: "length (ed_line ed) = MAX_LINE_BYTES" using assms(1) by (simp add: represents_def holds_text_def)
  have copy: "copy_entry ?h ?i (ed_line ed) = Ok (length ?l, ?l @ drop (length ?l) (ed_line ed))"
    using shell_history.copy [of ?i ?h "ed_line ed"] lines i et buf by (simp add: editor_text_def)
  let ?ed = "ed\<lparr>ed_browsing := Some age, ed_line := ?l @ drop (length ?l) (ed_line ed), ed_len := length ?l,
      ed_cursor := length ?l\<rparr>"
  have run: "show_entry age ed = (Ok EO_Changed, ?ed)"
    using copy assms(2) lines by (simp add: show_entry_def action_defs sub_r_def)
  have "represents ?ed (recall age draft t)"
    using assms holds_line [OF et buf] lines by (cases draft) (auto simp: represents_def recall_def browse_ok_def)
  with run show ?thesis by (simp add: simulates_def)
qed

lemma save_draft_run:
  assumes "represents ed t" "te_browse t = None"
  shows "\<exists>ed'. save_draft ed = (Ok (), ed') \<and> represents ed' t \<and>
    holds_text (ed_draft ed') (ed_draft_len ed') (ed_draft_cursor ed') (te_before t) (te_after t)"
proof -
  note h = represents_text [OF assms(1)]
  let ?bytes = "take (ed_len ed) (ed_line ed)"
  have f: "length (ed_line ed) = MAX_LINE_BYTES" "ed_len ed \<le> MAX_LINE_BYTES" "length (ed_draft ed) = MAX_LINE_BYTES"
    using assms(1) by (simp_all add: represents_def holds_text_def)
  let ?ed = "ed\<lparr>ed_draft := overwrite 0 ?bytes (ed_draft ed), ed_draft_len := ed_len ed, ed_draft_cursor := ed_cursor ed\<rparr>"
  have run: "save_draft ed = (Ok (), ?ed)"
    using f by (simp add: save_draft_def action_defs region_r_def region_def copy_slice_def)
  have d: "take (ed_len ed) (overwrite 0 ?bytes (ed_draft ed)) = ?bytes"
      "length (overwrite 0 ?bytes (ed_draft ed)) = MAX_LINE_BYTES"
    using f by (simp_all add: overwrite_def)
  have "represents ?ed t" using assms d by (simp add: represents_def browse_ok_def)
  moreover have "holds_text (ed_draft ?ed) (ed_draft_len ?ed) (ed_draft_cursor ?ed) (te_before t) (te_after t)"
    using h d by (simp add: holds_text_def)
  ultimately show ?thesis using run by blast
qed

lemma up_simulates:
  assumes "represents ed t"
  shows "simulates editor_up ed (edit Ev_Up t)"
proof (cases "te_lines t = []")
  case True
  then show ?thesis using assms represents_no_lines [OF assms] by (simp add: simulates_def editor_up_def)
next
  case False
  then have n: "hi_len (ed_history ed) \<noteq> 0" using represents_no_lines [OF assms] by simp
  show ?thesis
  proof (cases "te_browse t")
    case None
    then have b: "ed_browsing ed = None" using assms by (simp add: represents_def browse_ok_def)
    obtain ed' where ed': "save_draft ed = (Ok (), ed')" "represents ed' t"
        "holds_text (ed_draft ed') (ed_draft_len ed') (ed_draft_cursor ed') (te_before t) (te_after t)"
      using save_draft_run [OF assms None] by blast
    have "simulates (show_entry 0) ed' (EO_Changed, recall 0 (te_before t, te_after t) t)"
      by (rule show_entry_simulates [OF ed'(2)]) (use False ed'(3) in simp_all)
    with n b ed'(1) None False show ?thesis by (simp add: simulates_def editor_up_def abind_def)
  next
    case (Some ad)
    obtain age b a where ad: "ad = (age, b, a)" by (cases ad)
    then have br: "ed_browsing ed = Some age"
        "holds_text (ed_draft ed) (ed_draft_len ed) (ed_draft_cursor ed) b a"
      using assms Some by (simp_all add: represents_def browse_ok_def)
    have "simulates (show_entry (age + 1)) ed (EO_Changed, recall (age + 1) (b, a) t)"
      if "age + 1 < length (te_lines t)"
      using show_entry_simulates [OF assms that, of "(b, a)"] br(2) by simp
    with n br Some ad False assms represents_lines [OF assms] show ?thesis
      by (auto simp: simulates_def editor_up_def)
  qed
qed

lemma restore_draft_simulates:
  assumes "represents ed t" "te_browse t = Some (age, b, a)"
  shows "simulates restore_draft ed (EO_Changed, t\<lparr>te_before := b, te_after := a, te_browse := None\<rparr>)"
proof -
  have h: "holds_text (ed_draft ed) (ed_draft_len ed) (ed_draft_cursor ed) b a"
      "length (ed_line ed) = MAX_LINE_BYTES"
    using assms by (simp_all add: represents_def browse_ok_def holds_text_def)
  let ?bytes = "take (ed_draft_len ed) (ed_draft ed)"
  let ?ed = "ed\<lparr>ed_line := overwrite 0 ?bytes (ed_line ed), ed_len := ed_draft_len ed, ed_cursor := ed_draft_cursor ed,
      ed_browsing := None\<rparr>"
  have run: "restore_draft ed = (Ok EO_Changed, ?ed)"
    using h holds_text_len [OF h(1)]
    by (simp add: restore_draft_def action_defs region_r_def region_def copy_slice_def holds_text_def)
  have "holds_text (ed_line ?ed) (ed_len ?ed) (ed_cursor ?ed) b a"
    using h holds_text_len [OF h(1)] by (simp add: holds_text_def overwrite_def)
  then have "represents ?ed (t\<lparr>te_before := b, te_after := a, te_browse := None\<rparr>)"
    using assms(1) by (simp add: represents_def browse_ok_def)
  with run show ?thesis by (simp add: simulates_def)
qed

lemma down_simulates:
  assumes "represents ed t"
  shows "simulates editor_down ed (edit Ev_Down t)"
proof (cases "te_browse t")
  case None
  then show ?thesis using assms by (simp add: simulates_def editor_down_def represents_def browse_ok_def)
next
  case (Some ad)
  obtain age b a where ad: "ad = (age, b, a)" by (cases ad)
  then have br: "ed_browsing ed = Some age" "age < length (te_lines t)"
      "holds_text (ed_draft ed) (ed_draft_len ed) (ed_draft_cursor ed) b a"
    using assms Some represents_lines [OF assms] by (simp_all add: represents_def browse_ok_def)
  have "simulates (show_entry (age - 1)) ed (EO_Changed, recall (age - 1) (b, a) t)"
    using show_entry_simulates [OF assms, of "age - 1" "(b, a)"] br by simp
  moreover note restore_draft_simulates [OF assms Some [unfolded ad]]
  ultimately show ?thesis using br Some ad by (auto simp: simulates_def editor_down_def)
qed

subsection \<open>The simulation\<close>

lemma clear_represents:
  assumes "represents ed t"
  shows "represents (clear_draft ed) (cleared t)"
  using assms by (simp add: represents_def clear_draft_def cleared_def browse_ok_def holds_text_def)

definition event_scalar :: "input_event \<Rightarrow> bool" where
  "event_scalar ev \<longleftrightarrow> (case ev of Ev_Insert c \<Rightarrow> is_scalar c | _ \<Rightarrow> True)"

lemma eof_length:
  assumes "represents ed t"
  shows "ed_len ed = 0 \<longleftrightarrow> te_before t @ te_after t = []"
  using holds_text_len [OF represents_text [OF assms]] encode_str_empty [of "te_before t"]
    encode_str_empty [of "te_after t"] by simp

lemma apply_simulates:
  assumes "represents ed t" "event_scalar ev"
  shows "simulates (editor_apply ev) ed (text_apply ev t)"
proof (cases "te_frozen t")
  case True
  then show ?thesis using assms(1) by (simp add: simulates_def editor_apply_def text_apply_def represents_def)
next
  case False
  then have p: "\<not> ed_submission_pending ed" using assms(1) by (simp add: represents_def)
  note sims = left_simulates right_simulates home_simulates end_simulates delete_simulates
    backspace_simulates up_simulates down_simulates
  have ins: "simulates (editor_insert c) ed (edit (Ev_Insert c) t)" if "ev = Ev_Insert c" for c
    using insert_simulates [OF assms(1), of c] assms(2) that by (simp add: event_scalar_def)
  show ?thesis
  proof (cases ev)
    case Ev_Submit
    then show ?thesis using p False assms(1)
      by (auto simp: simulates_def editor_apply_def text_apply_def represents_def browse_ok_def split: option.splits)
  next
    case Ev_Eof
    then show ?thesis using p False assms(1) eof_length [OF assms(1)]
      by (simp add: simulates_def editor_apply_def text_apply_def)
  qed (use p False assms(1) ins sims [OF assms(1)] clear_represents [OF assms(1)] in
      \<open>simp_all add: simulates_def editor_apply_def text_apply_def del: edit.simps(2,3,4,5,6,7,8,9,10)\<close>)
qed

lemma accept_simulates:
  assumes "represents ed t"
  shows "\<exists>ed'. accept_submission ed = (Ok (), ed') \<and> represents ed' (text_accept t)"
proof (cases "te_frozen t")
  case False
  then show ?thesis using assms by (simp add: accept_submission_def text_accept_def represents_def)
next
  case True
  let ?line = "encode_str (te_before t @ te_after t)"
  note h = represents_text [OF assms]
  have line: "take (ed_len ed) (ed_line ed) = ?line" "ed_len ed \<le> length (ed_line ed)"
    using h by (simp_all add: holds_text_def)
  have "length ?line \<le> MAX_LINE_BYTES" using h holds_text_len [OF h] by (simp add: holds_text_def)
  then have "editor_text ?line" using h unfolding editor_text_def holds_text_def by blast
  then obtain hist where hist: "history_push ?line (ed_history ed) = Ok hist" "history_ok hist"
      "history_lines hist = remember ?line (te_lines t)" "\<forall>l \<in> set (history_lines hist). editor_text l"
    using shell_history.push_keeps_all [of "ed_history ed" editor_text ?line] assms
    unfolding represents_def by auto
  have run: "accept_submission ed = (Ok (), clear_draft (ed\<lparr>ed_history := hist, ed_submission_pending := False\<rparr>))"
    using True assms line hist(1)
    by (simp add: accept_submission_def represents_def action_defs region_r_def region_def)
  have "represents (clear_draft (ed\<lparr>ed_history := hist, ed_submission_pending := False\<rparr>)) (text_accept t)"
    using True assms hist
    by (simp add: represents_def clear_draft_def text_accept_def cleared_def browse_ok_def holds_text_def)
  with run show ?thesis by blast
qed

lemma new_represents:
  "represents editor_new \<lparr>te_before = [], te_after = [], te_lines = [], te_browse = None, te_frozen = False\<rparr>"
  using history_new_ok history_new_lines
  by (simp add: represents_def editor_new_def holds_text_def browse_ok_def)

subsection \<open>Properties\<close>

text \<open>C17. The byte buffer editor implements the editor on characters: from every state that represents
  an abstract editor, an event ends without a panic, with the outcome the abstract editor gives, in a
  state that represents the abstract editor after the event.\<close>

theorem editor_refines:
  assumes "represents ed t" and "event_scalar ev"
  shows "\<exists>ed'. editor_apply ev ed = (Ok (fst (text_apply ev t)), ed') \<and> represents ed' (snd (text_apply ev t))"
  using apply_simulates [OF assms] by (simp add: simulates_def)

theorem editor_refines_witness:
  "\<exists>ed'. editor_apply (Ev_Insert 233) editor_new = (Ok EO_Changed, ed') \<and>
     represents ed' \<lparr>te_before = [233], te_after = [], te_lines = [], te_browse = None, te_frozen = False\<rparr>"
  using editor_refines [OF new_represents, of "Ev_Insert 233"]
  by (simp add: event_scalar_def is_scalar_def text_apply_def is_printable_scalar_def is_control_def
      is_format_or_line_separator_def MAX_LINE_BYTES_def len_utf8_def)

lemma last_remember:
  "line \<noteq> [] \<Longrightarrow> length line \<le> HISTORY_ARENA_BYTES \<Longrightarrow> remember line ls \<noteq> [] \<and> last (remember line ls) = line"
  by (auto simp: remember_def)

lemma submit_accept_up:
  assumes "\<not> te_frozen t" "te_before t @ te_after t \<noteq> []" "\<forall>c \<in> set (te_before t @ te_after t). is_scalar c"
    and "length (encode_str (te_before t @ te_after t)) \<le> HISTORY_ARENA_BYTES"
  defines "r \<equiv> text_apply Ev_Up (text_accept (snd (text_apply Ev_Submit t)))"
  shows "fst (text_apply Ev_Submit t) = EO_Submitted \<and> fst r = EO_Changed \<and>
    te_before (snd r) = te_before t @ te_after t \<and> te_after (snd r) = []"
proof -
  let ?line = "encode_str (te_before t @ te_after t)"
  have ne: "?line \<noteq> []" using assms(2) encode_str_empty [of "te_before t @ te_after t"] by auto
  note l = last_remember [OF ne assms(4), of "te_lines t"]
  then have "remember ?line (te_lines t) ! (length (remember ?line (te_lines t)) - 1) = ?line"
    using last_conv_nth by metis
  then show ?thesis
    using assms(1,3) l by (simp add: r_def text_apply_def text_accept_def cleared_def recall_def del: map_append concat_append)
qed

text \<open>What was submitted is recalled: after a non-empty line is submitted and accepted, \<open>Up\<close> brings
  the same line back with the cursor behind its last character.\<close>

theorem submitted_line_recalled:
  assumes "represents ed t" and "\<not> te_frozen t" and "te_before t @ te_after t \<noteq> []"
  shows "\<exists>ed1 ed2 ed3. editor_apply Ev_Submit ed = (Ok EO_Submitted, ed1) \<and>
    accept_submission ed1 = (Ok (), ed2) \<and> editor_apply Ev_Up ed2 = (Ok EO_Changed, ed3) \<and>
    editor_line ed3 = editor_line ed \<and> ed_cursor ed3 = ed_len ed3"
proof -
  let ?t1 = "snd (text_apply Ev_Submit t)"
  let ?t3 = "snd (text_apply Ev_Up (text_accept ?t1))"
  note h = represents_text [OF assms(1)]
  have small: "length (encode_str (te_before t @ te_after t)) \<le> HISTORY_ARENA_BYTES"
    using h holds_text_len [OF h] by (simp add: holds_text_def MAX_LINE_BYTES_def HISTORY_ARENA_BYTES_def)
  note spec = submit_accept_up [OF assms(2,3) holds_text_scalars(1) [OF h] small]
  obtain ed1 where ed1: "editor_apply Ev_Submit ed = (Ok EO_Submitted, ed1)" "represents ed1 ?t1"
    using apply_simulates [OF assms(1), of Ev_Submit] spec by (auto simp: simulates_def event_scalar_def)
  obtain ed2 where ed2: "accept_submission ed1 = (Ok (), ed2)" "represents ed2 (text_accept ?t1)"
    using accept_simulates [OF ed1(2)] by blast
  obtain ed3 where ed3: "editor_apply Ev_Up ed2 = (Ok EO_Changed, ed3)" "represents ed3 ?t3"
    using apply_simulates [OF ed2(2), of Ev_Up] spec by (auto simp: simulates_def event_scalar_def)
  note h3 = represents_text [OF ed3(2)]
  have "te_before ?t3 = te_before t @ te_after t" "te_after ?t3 = []" using spec by blast+
  then have "editor_line ed3 = editor_line ed" "ed_cursor ed3 = ed_len ed3"
    using editor_line_text [OF h] editor_line_text [OF h3] holds_text_len [OF h3] h3
    by (simp_all add: holds_text_def)
  with ed1 ed2 ed3 show ?thesis by blast
qed

theorem submitted_line_recalled_witness:
  "\<exists>ed ed1 ed2 ed3. editor_apply (Ev_Insert 108) editor_new = (Ok EO_Changed, ed) \<and>
     editor_apply Ev_Submit ed = (Ok EO_Submitted, ed1) \<and> accept_submission ed1 = (Ok (), ed2) \<and>
     editor_apply Ev_Up ed2 = (Ok EO_Changed, ed3) \<and> editor_line ed3 = editor_line ed"
proof -
  let ?t = "\<lparr>te_before = [108], te_after = [], te_lines = [], te_browse = None, te_frozen = False\<rparr>"
  obtain ed where ed: "editor_apply (Ev_Insert 108) editor_new = (Ok EO_Changed, ed)" "represents ed ?t"
    using apply_simulates [OF new_represents, of "Ev_Insert 108"]
    by (auto simp: simulates_def event_scalar_def is_scalar_def text_apply_def is_printable_scalar_def is_control_def
        is_format_or_line_separator_def MAX_LINE_BYTES_def len_utf8_def)
  from submitted_line_recalled [OF ed(2)] ed(1) show ?thesis by fastforce
qed

end
