(* ===== verification/ShellRedraw.thy ===== *)
theory ShellRedraw
  imports ShellEditorSim Decimal
begin

text \<open>
  The redraw of the editor line (\<^verbatim>\<open>wyrmroot-wyrmsh-core/src/redraw.rs\<close>): a frame of prompt, visible
  window and cursor movement, emitted in chunks of any size. The frame is characterised on
  characters: at most 71 of them around the cursor, and the cursor is moved back exactly over the
  characters shown behind it.
\<close>

definition PROMPT_AND_ERASE :: "byte list" where
  "PROMPT_AND_ERASE = [13, 27, 91, 50, 75, 119, 121, 114, 109, 115, 104, 62, 32]" \<comment> \<open>\<open>CR ESC[2K wyrmsh>\<close>\<close>
definition VISIBLE_SCALARS :: nat where "VISIBLE_SCALARS = 71"

record redraw =
  rd_line :: "byte list"
  rd_visible_start :: nat
  rd_visible_end :: nat
  rd_cursor_back :: "byte list"
  rd_cursor_back_len :: nat
  rd_emitted :: nat

text \<open>\<^verbatim>\<open>str::char_indices\<close>.\<close>

fun indices_from :: "nat \<Rightarrow> scalar list \<Rightarrow> (nat \<times> scalar) list" where
  "indices_from off [] = []"
| "indices_from off (c # cs) = (off, c) # indices_from (off + len_utf8 c) cs"

definition char_indices :: "byte list \<Rightarrow> (nat \<times> scalar) list" where
  "char_indices s = indices_from 0 (str_chars s)"

definition byte_at_scalar :: "byte list \<Rightarrow> nat \<Rightarrow> nat" where
  "byte_at_scalar s k = (case get_index k (char_indices s) of Some (i, _) \<Rightarrow> i | None \<Rightarrow> length s)"

definition byte_at_scalar_from :: "byte list \<Rightarrow> nat \<Rightarrow> nat \<Rightarrow> (unit, nat) res" where
  "byte_at_scalar_from s start count =
     rbind (unwrap (str_get start (length s) s)) (\<lambda>rest.
     Ok (case get_index count (char_indices rest) of Some (i, _) \<Rightarrow> start + i | None \<Rightarrow> length s))"

definition cursor_back_sequence :: "nat \<Rightarrow> byte list \<times> nat" where
  "cursor_back_sequence columns =
     (if columns = 0 then (replicate 5 0, 0)
      else if 10 \<le> columns
      then ([27, 91, 48 + nat_byte (columns div 10), 48 + nat_byte (columns mod 10), 68], 5)
      else ([27, 91, 48 + nat_byte columns, 68, 0], 4))"

definition redraw_new :: "byte list \<Rightarrow> nat \<Rightarrow> (unit, redraw) res" where
  "redraw_new line cursor =
     rbind (unwrap (str_get 0 cursor line)) (\<lambda>prefix.
     let cursor_scalars = length (str_chars prefix);
         total_scalars = length (str_chars line);
         visible_start_scalar = min (cursor_scalars - VISIBLE_SCALARS div 2) (total_scalars - VISIBLE_SCALARS);
         visible_start = byte_at_scalar line visible_start_scalar
     in rbind (byte_at_scalar_from line visible_start VISIBLE_SCALARS) (\<lambda>visible_end.
        rbind (unwrap (str_get visible_start visible_end line)) (\<lambda>visible.
        rbind (sub_r cursor_scalars visible_start_scalar) (\<lambda>cursor_in_window.
        rbind (sub_r (length (str_chars visible)) cursor_in_window) (\<lambda>back.
        let (cursor_back, cursor_back_len) = cursor_back_sequence back in
        Ok \<lparr>rd_line = line, rd_visible_start = visible_start, rd_visible_end = visible_end,
            rd_cursor_back = cursor_back, rd_cursor_back_len = cursor_back_len, rd_emitted = 0\<rparr>)))))"

text \<open>The loop of \<^verbatim>\<open>read\<close> over the three segments.\<close>

fun read_segments :: "byte list list \<Rightarrow> nat \<Rightarrow> nat \<Rightarrow> byte list \<Rightarrow> nat \<times> byte list" where
  "read_segments [] skipped written out = (written, out)"
| "read_segments (segment # rest) skipped written out =
     (if length segment \<le> skipped then read_segments rest (skipped - length segment) written out
      else
        let source = drop skipped segment;
            count = min (length source) (length out - written);
            out' = overwrite written (take count source) out
        in if written + count = length out then (written + count, out')
           else read_segments rest 0 (written + count) out')"

definition redraw_segments :: "redraw \<Rightarrow> (unit, byte list list) res" where
  "redraw_segments rd =
     rbind (region_r (rd_visible_start rd) (rd_visible_end rd) (rd_line rd)) (\<lambda>visible.
     rbind (region_r 0 (rd_cursor_back_len rd) (rd_cursor_back rd)) (\<lambda>back.
     Ok [PROMPT_AND_ERASE, visible, back]))"

definition redraw_read :: "byte list \<Rightarrow> (redraw, unit, nat \<times> byte list) action" where
  "redraw_read out rd =
     (if out = [] then (Ok (0, out), rd)
      else case redraw_segments rd of
        Ok segments \<Rightarrow>
          (let (written, out') = read_segments segments (rd_emitted rd) 0 out
           in (Ok (written, out'), rd\<lparr>rd_emitted := rd_emitted rd + written\<rparr>))
      | Err e \<Rightarrow> (Err e, rd)
      | Panic \<Rightarrow> (Panic, rd))"

subsection \<open>The window\<close>

lemma indices_from_nth:
  "k < length cs \<Longrightarrow> indices_from off cs ! k = (off + length (encode_str (take k cs)), cs ! k)"
  by (induction cs arbitrary: off k) (auto simp: nth_Cons' take_Cons' split: nat.splits)

lemma length_indices_from [simp]: "length (indices_from off cs) = length cs"
  by (induction cs arbitrary: off) auto

lemma nth_index:
  assumes "\<forall>c \<in> set cs. is_scalar c"
  shows "(case get_index k (char_indices (encode_str cs)) of Some (i, _) \<Rightarrow> off + i | None \<Rightarrow> off + length (encode_str cs)) =
    off + length (encode_str (take k cs))"
  using assms by (simp add: char_indices_def get_index_def indices_from_nth)

lemma byte_at_scalar_eq:
  "\<forall>c \<in> set cs. is_scalar c \<Longrightarrow> byte_at_scalar (encode_str cs) k = length (encode_str (take k cs))"
  using nth_index [where cs = cs and k = k and off = 0]
  by (auto simp: byte_at_scalar_def split: option.splits)

lemma byte_at_scalar_from_eq:
  assumes "\<forall>c \<in> set (x @ y). is_scalar c"
  shows "byte_at_scalar_from (encode_str (x @ y)) (length (encode_str x)) k =
    Ok (length (encode_str (x @ take k y)))"
  using str_get_after [OF assms] nth_index [where cs = y and k = k and off = "length (encode_str x)"] assms
  by (auto simp: byte_at_scalar_from_def split: option.splits)

text \<open>The bytes that move the cursor back by \<open>n\<close> columns.\<close>

definition cursor_left :: "nat \<Rightarrow> byte list" where
  "cursor_left n = (if n = 0 then [] else [27, 91] @ dec n @ [68])"

lemma cursor_back_sequence_eq:
  assumes "n < 100"
  shows "take (snd (cursor_back_sequence n)) (fst (cursor_back_sequence n)) = cursor_left n"
    and "snd (cursor_back_sequence n) \<le> length (fst (cursor_back_sequence n))"
proof -
  have b: "48 + nat_byte k = nat_byte (48 + k)" for k by (simp add: nat_byte_def)
  have d1: "dec k = [nat_byte (48 + k)]" if "0 < k" "k < 10" for k using that by (simp add: dec_step)
  have d2: "dec n = [nat_byte (48 + n div 10), nat_byte (48 + n mod 10)]" if "10 \<le> n"
  proof -
    have "0 < n div 10" "n div 10 < 10" using that assms by auto
    then show ?thesis using d1 [of "n div 10"] that by (simp add: dec_step [of n])
  qed
  show "take (snd (cursor_back_sequence n)) (fst (cursor_back_sequence n)) = cursor_left n"
    using d1 [of n] d2 by (auto simp: cursor_back_sequence_def cursor_left_def b)
  show "snd (cursor_back_sequence n) \<le> length (fst (cursor_back_sequence n))"
    by (simp add: cursor_back_sequence_def)
qed

text \<open>All bytes of a frame.\<close>

definition redraw_frame :: "redraw \<Rightarrow> byte list" where
  "redraw_frame rd =
     PROMPT_AND_ERASE @ region (rd_visible_start rd) (rd_visible_end rd - rd_visible_start rd) (rd_line rd) @
     take (rd_cursor_back_len rd) (rd_cursor_back rd)"

definition redraw_ok :: "redraw \<Rightarrow> bool" where
  "redraw_ok rd \<longleftrightarrow>
     rd_visible_start rd \<le> rd_visible_end rd \<and> rd_visible_end rd \<le> length (rd_line rd) \<and>
     rd_cursor_back_len rd \<le> length (rd_cursor_back rd) \<and> rd_emitted rd \<le> length (redraw_frame rd)"

lemma frame_of_window:
  fixes x w z cb :: "byte list"
  assumes "n \<le> length cb"
  defines "rd \<equiv> \<lparr>rd_line = x @ w @ z, rd_visible_start = length x, rd_visible_end = length x + length w,
    rd_cursor_back = cb, rd_cursor_back_len = n, rd_emitted = 0\<rparr>"
  shows "redraw_frame rd = PROMPT_AND_ERASE @ w @ take n cb \<and> redraw_ok rd"
  using assms(1) by (simp add: rd_def redraw_frame_def redraw_ok_def region_def)

lemma window_arith:
  fixes s lb la :: nat
  assumes "s = min (lb - 35) (lb + la - 71)"
  shows "s \<le> lb" "lb - s \<le> 71" "lb - s \<le> lb + la - s"
  using assms by linarith+

lemma redraw_new_spec:
  assumes "\<forall>c \<in> set (b @ a). is_scalar c"
  defines "s \<equiv> min (length b - 35) (length (b @ a) - 71)"
  shows "\<exists>rd. redraw_new (encode_str (b @ a)) (length (encode_str b)) = Ok rd \<and> redraw_ok rd \<and> rd_emitted rd = 0 \<and>
    redraw_frame rd = PROMPT_AND_ERASE @ encode_str (take 71 (drop s (b @ a))) @
      cursor_left (length (take 71 (drop s (b @ a))) - (length b - s))"
proof -
  let ?all = "b @ a" and ?w = "take 71 (drop s (b @ a))"
  let ?x = "take s ?all" and ?z = "drop 71 (drop s ?all)"
  have split: "?all = ?x @ ?w @ ?z" by (simp only: append_take_drop_id)
  have sc: "\<forall>c \<in> set ?all. is_scalar c" "\<forall>c \<in> set b. is_scalar c" "\<forall>c \<in> set ?w. is_scalar c"
    using assms(1) by (auto dest!: in_set_takeD in_set_dropD)
  have sc3: "\<forall>c \<in> set (?x @ ?w @ ?z). is_scalar c" using sc(1) split by metis
  have start: "byte_at_scalar (encode_str ?all) s = length (encode_str ?x)" by (rule byte_at_scalar_eq [OF sc(1)])
  have stop: "byte_at_scalar_from (encode_str ?all) (length (encode_str ?x)) 71 = Ok (length (encode_str (?x @ ?w)))"
    using byte_at_scalar_from_eq [of ?x "drop s ?all" 71] sc(1) by (simp only: append_take_drop_id)
  have vis: "str_get (length (encode_str ?x)) (length (encode_str (?x @ ?w))) (encode_str ?all) = Some (encode_str ?w)"
    using str_get_middle [OF sc3] split by metis
  have lw: "length ?w = min 71 (length b + length a - s)" by simp
  have "s = min (length b - 35) (length b + length a - 71)" unfolding s_def by simp
  note wa = window_arith [OF this]
  have le1: "s \<le> length b" by (rule wa(1))
  have le2: "length b - s \<le> length ?w" unfolding lw by (rule min.boundedI [OF wa(2,3)])
  have le3: "length ?w \<le> 71" unfolding lw by simp
  note le = le1 le2 le3
  let ?left = "length ?w - (length b - s)"
  note seq = cursor_back_sequence_eq [of ?left]
  have b100: "?left < 100" using le by linarith
  let ?rd = "\<lparr>rd_line = encode_str ?all, rd_visible_start = length (encode_str ?x),
      rd_visible_end = length (encode_str (?x @ ?w)), rd_cursor_back = fst (cursor_back_sequence ?left),
      rd_cursor_back_len = snd (cursor_back_sequence ?left), rd_emitted = 0\<rparr>"
  have tot: "length (str_chars (encode_str ?all)) = length ?all" "length (str_chars (encode_str b)) = length b"
      "length (str_chars (encode_str ?w)) = length ?w"
    using sc by (simp_all only: str_chars_encode)
  have subs: "sub_r (length b) s = Ok (length b - s)" "sub_r (length ?w) (length b - s) = Ok ?left"
    using le by (simp_all only: sub_r_def if_True)
  have div: "(71 :: nat) div 2 = 35" by simp
  have new: "redraw_new (encode_str ?all) (length (encode_str b)) = Ok ?rd"
    unfolding redraw_new_def str_get_before [OF sc(1)] Let_def VISIBLE_SCALARS_def unwrap.simps rbind.simps
      tot div s_def [symmetric] start stop vis subs case_prod_beta ..
  have all: "encode_str ?all = encode_str ?x @ encode_str ?w @ encode_str ?z"
    by (metis split concat_append map_append)
  have xw: "encode_str (?x @ ?w) = encode_str ?x @ encode_str ?w" by (simp only: map_append concat_append)
  have "redraw_frame ?rd = PROMPT_AND_ERASE @ encode_str ?w @ cursor_left ?left" "redraw_ok ?rd"
    using frame_of_window [OF seq(2) [OF b100], of "encode_str ?x" "encode_str ?w" "encode_str ?z"]
    unfolding all [symmetric] length_append [symmetric] xw [symmetric] seq(1) [OF b100] by blast+
  with new show ?thesis by (intro exI [of _ ?rd]) simp
qed

subsection \<open>Reading a frame in chunks\<close>

lemma read_segments_spec:
  assumes "written \<le> length out" "written < length out \<or> segs = []"
  shows "read_segments segs skipped written out =
    (let rest = drop skipped (concat segs); n = min (length rest) (length out - written)
     in (written + n, overwrite written (take n rest) out))"
  using assms
proof (induction segs skipped written out rule: read_segments.induct)
  case (1 skipped written out)
  then show ?case by (simp add: overwrite_def)
next
  case (2 seg segs skipped written out)
  show ?case
  proof (cases "length seg \<le> skipped")
    case True
    then show ?thesis using 2 by (cases segs) (auto simp: Let_def)
  next
    case False
    let ?src = "drop skipped seg" and ?rest = "drop skipped (seg @ concat segs)"
    let ?count = "min (length ?src) (length out - written)"
    have w: "written < length out" using 2(4) by simp
    have rest: "?rest = ?src @ concat segs" using False by simp
    show ?thesis
    proof (cases "written + ?count = length out")
      case True
      then have "length out - written \<le> length ?src" by linarith
      then show ?thesis using False True rest w by (simp add: Let_def min_absorb2)
    next
      case no: False
      then have c: "?count = length ?src" using w by linarith
      let ?out = "overwrite written ?src out"
      have l: "length ?out = length out" using c w by simp
      have lt: "written + length ?src < length out" using no c w by linarith
      let ?m = "min (length (concat segs)) (length out - (written + length ?src))"
      have IH: "read_segments segs 0 (written + length ?src) ?out =
          (written + length ?src + ?m, overwrite (written + length ?src) (take ?m (concat segs)) ?out)"
        using 2(2) [OF False refl refl refl] no c l lt by (simp add: Let_def)
      have "overwrite (written + length ?src) (take ?m (concat segs)) ?out =
          overwrite written (?src @ take ?m (concat segs)) out"
        using lt by (simp add: overwrite_def min_absorb1 ac_simps)
      moreover have "min (length ?src + length (concat segs)) (length out - written) = length ?src + ?m"
        using lt by linarith
      moreover have "take (length ?src + ?m) (?src @ concat segs) = ?src @ take ?m (concat segs)" by simp
      moreover have "read_segments (seg # segs) skipped written out = read_segments segs 0 (written + length ?src) ?out"
        using False no c by (simp add: Let_def)
      ultimately show ?thesis unfolding concat.simps rest Let_def length_append using IH by (simp only: add.assoc)
    qed
  qed
qed

lemma redraw_segments_ok: "redraw_ok rd \<Longrightarrow> \<exists>segs. redraw_segments rd = Ok segs \<and> concat segs = redraw_frame rd"
  by (simp add: redraw_segments_def redraw_ok_def redraw_frame_def region_r_def region_def)

lemma redraw_read_spec:
  assumes "redraw_ok rd"
  defines "rest \<equiv> drop (rd_emitted rd) (redraw_frame rd)"
  shows "\<exists>rd'. redraw_read out rd = (Ok (min (length rest) (length out),
        take (length out) rest @ drop (min (length rest) (length out)) out), rd') \<and>
      redraw_ok rd' \<and> redraw_frame rd' = redraw_frame rd \<and>
      rd_emitted rd' = rd_emitted rd + min (length rest) (length out)"
proof (cases "out = []")
  case True
  then show ?thesis using assms(1) by (simp add: redraw_read_def)
next
  case False
  obtain segs where segs: "redraw_segments rd = Ok segs" "concat segs = redraw_frame rd"
    using redraw_segments_ok [OF assms(1)] by blast
  let ?n = "min (length rest) (length out)"
  have "read_segments segs (rd_emitted rd) 0 out = (?n, overwrite 0 (take ?n rest) out)"
    using read_segments_spec [of 0 out segs "rd_emitted rd"] False segs(2) by (simp add: rest_def Let_def)
  moreover have "overwrite 0 (take ?n rest) out = take (length out) rest @ drop ?n out"
    by (simp add: overwrite_def) (metis min.commute take_all_iff linorder_le_cases min_def take_take)
  moreover have "redraw_frame (rd\<lparr>rd_emitted := e\<rparr>) = redraw_frame rd" for e by (simp add: redraw_frame_def)
  ultimately show ?thesis
    using False segs(1) assms(1) by (auto simp: redraw_read_def redraw_ok_def rest_def)
qed

text \<open>Reads into buffers of the given contents: the bytes that were written, in order.\<close>

fun redraw_chunks :: "byte list list \<Rightarrow> (redraw, unit, byte list) action" where
  "redraw_chunks [] = aret []"
| "redraw_chunks (out # outs) =
     abind (redraw_read out) (\<lambda>(n, out'). abind (redraw_chunks outs) (\<lambda>bytes. aret (take n out' @ bytes)))"

lemma redraw_chunks_spec:
  assumes "redraw_ok rd"
  shows "\<exists>rd'. redraw_chunks outs rd =
    (Ok (take (sum_list (map length outs)) (drop (rd_emitted rd) (redraw_frame rd))), rd')"
  using assms
proof (induction outs arbitrary: rd)
  case (Cons out outs)
  let ?rest = "drop (rd_emitted rd) (redraw_frame rd)"
  let ?n = "min (length ?rest) (length out)"
  obtain rd1 where rd1: "redraw_read out rd = (Ok (?n, take (length out) ?rest @ drop ?n out), rd1)"
      "redraw_ok rd1" "redraw_frame rd1 = redraw_frame rd" "rd_emitted rd1 = rd_emitted rd + ?n"
    using redraw_read_spec [OF Cons.prems, of out] by blast
  obtain rd2 where rd2: "redraw_chunks outs rd1 =
      (Ok (take (sum_list (map length outs)) (drop (rd_emitted rd + ?n) (redraw_frame rd))), rd2)"
    using Cons.IH [OF rd1(2)] rd1(3,4) by auto
  have "length (take (length out) ?rest) = ?n" by simp
  then have t: "take ?n (take (length out) ?rest @ drop ?n out) = take (length out) ?rest"
    by (metis append_eq_conv_conj)
  have "take (length out) ?rest @ take (sum_list (map length outs)) (drop (rd_emitted rd + ?n) (redraw_frame rd)) =
      take (length out + sum_list (map length outs)) ?rest"
    by (cases "length ?rest \<le> length out") (simp_all add: take_add min_def ac_simps)
  then have "redraw_chunks (out # outs) rd =
      (Ok (take (length out + sum_list (map length outs)) ?rest), rd2)"
    by (simp only: redraw_chunks.simps abind_def rd1(1) rd2 aret_def t prod.case res.case)
  then show ?case by simp
qed (simp add: aret_def)

subsection \<open>Properties\<close>

definition editor_redraw :: "editor \<Rightarrow> (unit, redraw) res" where
  "editor_redraw ed = rbind (editor_line ed) (\<lambda>line. redraw_new line (ed_cursor ed))"

text \<open>The frame of a redraw shows the right part of the line and puts the cursor in the right
  place: for an editor that holds the characters \<open>te_before\<close> and \<open>te_after\<close> around the cursor the redraw
  does not panic, shows a window of at most 71 characters made of a suffix of the characters before and
  a prefix of the characters after the cursor, and moves the cursor back over exactly the shown
  characters that follow it.\<close>

theorem redraw_window:
  assumes "represents ed t"
  shows "\<exists>rd shown_before shown_after. editor_redraw ed = Ok rd \<and>
    redraw_frame rd = PROMPT_AND_ERASE @ encode_str (shown_before @ shown_after) @ cursor_left (length shown_after) \<and>
    suffix shown_before (te_before t) \<and> prefix shown_after (te_after t) \<and>
    length (shown_before @ shown_after) = min 71 (length (te_before t @ te_after t))"
proof -
  let ?b = "te_before t" and ?a = "te_after t"
  note h = represents_text [OF assms]
  define s where "s = min (length ?b - 35) (length (?b @ ?a) - 71)"
  let ?w1 = "drop s ?b" and ?w2 = "take (71 - (length ?b - s)) ?a"
  have "s = min (length ?b - 35) (length ?b + length ?a - 71)" unfolding s_def by simp
  note wa = window_arith [OF this]
  have w: "take 71 (drop s (?b @ ?a)) = ?w1 @ ?w2" using wa(1,2) by simp
  have n: "length (?w1 @ ?w2) = min 71 (length (?b @ ?a))"
    using wa unfolding s_def by (simp add: min_def) linarith
  obtain rd where "redraw_new (encode_str (?b @ ?a)) (length (encode_str ?b)) = Ok rd"
      "redraw_frame rd = PROMPT_AND_ERASE @ encode_str (?w1 @ ?w2) @ cursor_left (length (?w1 @ ?w2) - (length ?b - s))"
    using redraw_new_spec [OF holds_text_scalars(1) [OF h], folded s_def] unfolding w by blast
  moreover have "length (?w1 @ ?w2) - (length ?b - s) = length ?w2" by simp
  moreover have "ed_cursor ed = length (encode_str ?b)" using h by (simp add: holds_text_def)
  moreover have "suffix ?w1 ?b" "prefix ?w2 ?a" by (simp_all add: suffix_drop take_is_prefix)
  moreover have "editor_redraw ed = redraw_new (encode_str (?b @ ?a)) (ed_cursor ed)"
    using editor_line_text [OF h] by (simp only: editor_redraw_def rbind.simps)
  ultimately show ?thesis using n by metis
qed

theorem redraw_window_witness:
  "\<exists>rd. editor_redraw editor_new = Ok rd \<and> redraw_frame rd = PROMPT_AND_ERASE"
  using redraw_window [OF new_represents] by (auto simp: cursor_left_def)

text \<open>A frame can be read in chunks of any size: whatever buffers are offered, the bytes written
  to them, in order, are the beginning of the frame, and a read never panics.\<close>

theorem redraw_streams:
  assumes "represents ed t" and "editor_redraw ed = Ok rd"
  shows "\<exists>rd'. redraw_chunks outs rd = (Ok (take (sum_list (map length outs)) (redraw_frame rd)), rd')"
proof -
  note h = represents_text [OF assms(1)]
  have "ed_cursor ed = length (encode_str (te_before t))" using h by (simp add: holds_text_def)
  then have "redraw_ok rd \<and> rd_emitted rd = 0"
    using redraw_new_spec [OF holds_text_scalars(1) [OF h]] editor_line_text [OF h] assms(2)
    by (auto simp: editor_redraw_def simp del: map_append concat_append)
  then show ?thesis using redraw_chunks_spec [of rd outs] by simp
qed

theorem redraw_streams_witness:
  "\<exists>rd rd'. editor_redraw editor_new = Ok rd \<and>
     redraw_chunks [replicate 4 0, [], replicate 3 0] rd = (Ok (take 7 (redraw_frame rd)), rd')"
proof -
  obtain rd where rd: "editor_redraw editor_new = Ok rd" using redraw_window [OF new_represents] by blast
  from redraw_streams [OF new_represents rd, of "[replicate 4 0, [], replicate 3 0]"] rd show ?thesis by auto
qed

end
