(* ===== verification/ShellCommand.thy ===== *)
theory ShellCommand
  imports ShellParser Decimal
begin

text \<open>
  Classification of shell commands (\<^verbatim>\<open>wyrmroot-wyrmsh-core/src/command.rs\<close>): the command table, the
  arity checks, the path syntax and the job numbers.
\<close>

subsection \<open>The command table\<close>

definition MAX_PATH_BYTES :: nat where "MAX_PATH_BYTES = 256"

datatype command_name =
    N_Help | N_Echo | N_Clear | N_Exit | N_Shutdown | N_Services | N_Tasks | N_Status | N_Run | N_Spawn
  | N_Wait | N_Terminate

datatype arity = Exact nat | AtLeast nat

record command_spec =
  cs_name :: command_name
  cs_spelling :: "byte list"
  cs_usage :: "byte list"
  cs_arity :: arity

abbreviation spec_of :: "command_name \<Rightarrow> string \<Rightarrow> string \<Rightarrow> arity \<Rightarrow> command_spec" where
  "spec_of n s u a \<equiv> \<lparr>cs_name = n, cs_spelling = ascii s, cs_usage = ascii u, cs_arity = a\<rparr>"

definition COMMANDS :: "command_spec list" where
  "COMMANDS =
     [spec_of N_Help ''help'' ''help'' (Exact 0),
      spec_of N_Echo ''echo'' ''echo [args...]'' (AtLeast 0),
      spec_of N_Clear ''clear'' ''clear'' (Exact 0),
      spec_of N_Exit ''exit'' ''exit'' (Exact 0),
      spec_of N_Shutdown ''shutdown'' ''shutdown'' (Exact 0),
      spec_of N_Services ''services'' ''services'' (Exact 0),
      spec_of N_Tasks ''tasks'' ''tasks'' (Exact 0),
      spec_of N_Status ''status'' ''status'' (Exact 0),
      spec_of N_Run ''run'' ''run <bootfs-path> [args...]'' (AtLeast 1),
      spec_of N_Spawn ''spawn'' ''spawn <bootfs-path> [args...]'' (AtLeast 1),
      spec_of N_Wait ''wait'' ''wait <job-id>'' (Exact 1),
      spec_of N_Terminate ''terminate'' ''terminate <job-id>'' (Exact 1)]"

datatype job_id_error = J_Noncanonical | J_Overflow

datatype usage_error =
    U_UnknownCommand | U_ArgumentCount command_name nat | U_InvalidPath | U_InvalidJobId job_id_error

datatype command =
    Cmd_Empty | Cmd_Help | Cmd_Echo arguments | Cmd_Clear | Cmd_Exit | Cmd_Shutdown | Cmd_Services
  | Cmd_Tasks | Cmd_Status | Cmd_Run "byte list" arguments | Cmd_Spawn "byte list" arguments
  | Cmd_Wait u64 | Cmd_Terminate u64

subsection \<open>Paths and job numbers\<close>

text \<open>\<^verbatim>\<open>str::split('/')\<close>.\<close>

fun split_slash :: "byte list \<Rightarrow> byte list list" where
  "split_slash [] = [[]]"
| "split_slash (b # bs) =
     (if b = 47 then [] # split_slash bs
      else case split_slash bs of part # parts \<Rightarrow> (b # part) # parts | [] \<Rightarrow> [[b]])"

definition validate_path :: "byte list \<Rightarrow> (usage_error, unit) res" where
  "validate_path path =
     (if path = [] \<or> MAX_PATH_BYTES < length path \<or> \<not> list_all (\<lambda>b. b < 128) path \<or> 0 \<in> set path \<or>
         92 \<in> set path \<or> path = ascii ''TRAILER!!!'' \<or>
         list_ex (\<lambda>part. part = [] \<or> part = [46] \<or> part = [46, 46]) (split_slash path)
      then Err U_InvalidPath else Ok ())"

definition parse_job_id :: "byte list \<Rightarrow> (job_id_error, u64) res" where
  "parse_job_id v =
     (if \<not> (case v of b # _ \<Rightarrow> 49 \<le> b \<and> b \<le> 57 | [] \<Rightarrow> False) \<or> \<not> list_all ascii_digit v then Err J_Noncanonical
      else rbind (try_digits J_Overflow 0 v) (\<lambda>n. if n = 0 then Err J_Noncanonical else Ok n))"

fun map_err :: "('e \<Rightarrow> 'f) \<Rightarrow> ('e, 'a) res \<Rightarrow> ('f, 'a) res" where
  "map_err f (Ok a) = Ok a"
| "map_err f (Err e) = Err (f e)"
| "map_err f Panic = Panic"

subsection \<open>Classification\<close>

definition arity_ok :: "arity \<Rightarrow> nat \<Rightarrow> bool" where
  "arity_ok a n = (case a of Exact k \<Rightarrow> n = k | AtLeast k \<Rightarrow> k \<le> n)"

definition launch_command :: "command_name \<Rightarrow> arguments \<Rightarrow> (usage_error, command) res" where
  "launch_command name operands =
     rbind (ok_or U_InvalidPath (args_get operands 0)) (\<lambda>path.
     rbind (validate_path path) (\<lambda>_.
     Ok (if name = N_Run then Cmd_Run path operands else Cmd_Spawn path operands)))"

definition job_command :: "command_name \<Rightarrow> arguments \<Rightarrow> (usage_error, command) res" where
  "job_command name operands =
     rbind (ok_or (U_InvalidJobId J_Noncanonical) (args_get operands 0)) (\<lambda>v.
     rbind (map_err U_InvalidJobId (parse_job_id v)) (\<lambda>job.
     Ok (if name = N_Wait then Cmd_Wait job else Cmd_Terminate job)))"

text \<open>The arity check and the match on the name of the table entry.\<close>

definition classify :: "command_spec \<Rightarrow> arguments \<Rightarrow> (usage_error, command) res" where
  "classify spec operands =
     (if \<not> arity_ok (cs_arity spec) (args_len operands)
      then Err (U_ArgumentCount (cs_name spec) (args_len operands))
      else case cs_name spec of
        N_Help \<Rightarrow> Ok Cmd_Help
      | N_Echo \<Rightarrow> Ok (Cmd_Echo operands)
      | N_Clear \<Rightarrow> Ok Cmd_Clear
      | N_Exit \<Rightarrow> Ok Cmd_Exit
      | N_Shutdown \<Rightarrow> Ok Cmd_Shutdown
      | N_Services \<Rightarrow> Ok Cmd_Services
      | N_Tasks \<Rightarrow> Ok Cmd_Tasks
      | N_Status \<Rightarrow> Ok Cmd_Status
      | N_Run \<Rightarrow> launch_command N_Run operands
      | N_Spawn \<Rightarrow> launch_command N_Spawn operands
      | N_Wait \<Rightarrow> job_command N_Wait operands
      | N_Terminate \<Rightarrow> job_command N_Terminate operands)"

definition args_command :: "arguments \<Rightarrow> (usage_error, command) res" where
  "args_command a =
     (case args_get a 0 of
        None \<Rightarrow> Ok Cmd_Empty
      | Some name \<Rightarrow>
          rbind (ok_or U_UnknownCommand (find (\<lambda>spec. cs_spelling spec = name) COMMANDS)) (\<lambda>spec.
          classify spec (args_tail a)))"

subsection \<open>Job numbers are canonical\<close>

lemma first_digit: "(case v of b # _ \<Rightarrow> 49 \<le> b \<and> b \<le> 57 | [] \<Rightarrow> False) \<and> list_all ascii_digit v \<longleftrightarrow>
    v \<noteq> [] \<and> hd v \<noteq> 48 \<and> list_all ascii_digit v"
proof (cases v)
  case (Cons b bs)
  have "49 \<le> b \<longleftrightarrow> b \<noteq> 48" if "ascii_digit b"
    using that word_unat_eq_iff [of b 48] by (auto simp: ascii_digit_unat word_le_nat_alt)
  then show ?thesis using Cons by (auto simp: ascii_digit_def)
qed simp

lemma parse_job_id_spec:
  "(parse_job_id v = Ok n \<longleftrightarrow> n \<noteq> 0 \<and> v = dec (unat n)) \<and>
   (parse_job_id v = Err J_Overflow \<longleftrightarrow> (\<exists>k. 2 ^ 64 \<le> k \<and> v = dec k))"
proof -
  let ?ok = "v \<noteq> [] \<and> hd v \<noteq> 48 \<and> list_all ascii_digit v"
  have eq: "parse_job_id v = (if \<not> ?ok then Err J_Noncanonical
      else if dec_val v < 2 ^ 64 then (if dec_val v = 0 then Err J_Noncanonical else Ok (word_of_nat (dec_val v)))
      else Err J_Overflow)"
  proof (cases ?ok)
    case True
    then have digits: "\<forall>d \<in> set v. ascii_digit d" by (simp add: list_all_iff)
    have z: "(word_of_nat (dec_val v) :: u64) = 0 \<longleftrightarrow> dec_val v = 0" if "dec_val v < 2 ^ 64"
      using unat_word_of_nat_u64 [OF that] by (metis unat_eq_0 unat_0)
    show ?thesis
      using True first_digit [of v] try_digits_eq [OF digits, of J_Overflow 0] z
      by (auto simp: parse_job_id_def)
  next
    case False
    then show ?thesis using first_digit [of v] by (auto simp: parse_job_id_def)
  qed
  have canon: "?ok \<longleftrightarrow> v \<noteq> [] \<and> v = dec (dec_val v)"
    using dec_dec_val [of v] dec_digits [of "dec_val v"] hd_dec [of "dec_val v"]
    by (auto simp: list_all_iff) (metis dec_0 dec_eq_Nil hd_dec)+
  have val: "v = dec k \<Longrightarrow> dec_val v = k" for k by (simp add: dec_val_dec)
  have "parse_job_id v = Ok n \<longleftrightarrow> n \<noteq> 0 \<and> v = dec (unat n)"
  proof
    assume "parse_job_id v = Ok n"
    then have "?ok" "dec_val v < 2 ^ 64" "dec_val v \<noteq> 0" "n = word_of_nat (dec_val v)"
      unfolding eq by (auto split: if_splits)
    then show "n \<noteq> 0 \<and> v = dec (unat n)" using canon unat_word_of_nat_u64 by (metis unat_0)
  next
    assume n: "n \<noteq> 0 \<and> v = dec (unat n)"
    then have "dec_val v = unat n" "unat n \<noteq> 0" using val by (simp_all add: unat_eq_0)
    moreover have "v \<noteq> []" using n by (simp add: unat_eq_0)
    ultimately show "parse_job_id v = Ok n" unfolding eq canon using n unat_u64_less [of n] by simp
  qed
  moreover have "parse_job_id v = Err J_Overflow \<longleftrightarrow> (\<exists>k. 2 ^ 64 \<le> k \<and> v = dec k)"
  proof (cases "v = []")
    case True
    have "v \<noteq> dec k" if "2 ^ 64 \<le> k" for k
    proof
      assume "v = dec k"
      then have "dec k = []" using True by (rule trans [OF sym])
      then show False using that by simp
    qed
    then show ?thesis unfolding eq using True by auto
  next
    case False
    then show ?thesis unfolding eq canon using val by (auto simp: not_less)
  qed
  ultimately show ?thesis ..
qed

lemma parse_job_id_iff: "parse_job_id v = Ok n \<longleftrightarrow> n \<noteq> 0 \<and> v = dec (unat n)"
  using parse_job_id_spec by blast

text \<open>Job numbers are canonical: \<open>parse_job_id\<close> accepts exactly the decimal numbers from 1 to
  \<open>2^64 - 1\<close> without leading zeros and returns their value; a longer such number is an overflow.\<close>

theorem job_id_canonical:
  "(parse_job_id v = Ok n \<longleftrightarrow> n \<noteq> 0 \<and> v = dec (unat n)) \<and>
   (parse_job_id v = Err J_Overflow \<longleftrightarrow> (\<exists>k. 2 ^ 64 \<le> k \<and> v = dec k))"
  by (rule parse_job_id_spec)

subsection \<open>Paths\<close>

text \<open>A path is a list of components separated by slashes.\<close>

fun join_slash :: "byte list list \<Rightarrow> byte list" where
  "join_slash [] = []"
| "join_slash [part] = part"
| "join_slash (part # parts) = part @ 47 # join_slash parts"

lemma split_slash_not_Nil [simp]: "split_slash bs \<noteq> []"
  by (cases bs) (auto split: list.splits)

lemma split_slash_part: "47 \<notin> set part \<Longrightarrow> split_slash part = [part]"
  by (induction part) auto

lemma split_slash_append: "47 \<notin> set part \<Longrightarrow> split_slash (part @ 47 # bs) = part # split_slash bs"
  by (induction part) auto

lemma split_join_slash:
  "parts \<noteq> [] \<Longrightarrow> \<forall>part \<in> set parts. 47 \<notin> set part \<Longrightarrow> split_slash (join_slash parts) = parts"
  by (induction parts rule: join_slash.induct) (simp_all add: split_slash_part split_slash_append)

lemma join_slash_Cons: "parts \<noteq> [] \<Longrightarrow> join_slash (part # parts) = part @ 47 # join_slash parts"
  by (cases parts) auto

lemma join_split_slash: "join_slash (split_slash bs) = bs \<and> (\<forall>part \<in> set (split_slash bs). 47 \<notin> set part)"
proof (induction bs)
  case (Cons b bs)
  obtain part parts where p: "split_slash bs = part # parts" by (cases "split_slash bs") auto
  have "join_slash ((b # part) # parts) = b # join_slash (part # parts)" by (cases parts) auto
  then show ?case using Cons p by (auto simp: join_slash_Cons)
qed simp

definition path_component :: "byte list \<Rightarrow> bool" where
  "path_component part \<longleftrightarrow> part \<noteq> [] \<and> part \<noteq> ascii ''.'' \<and> part \<noteq> ascii ''..'' \<and>
     (\<forall>b \<in> set part. 0 < b \<and> b < 128 \<and> b \<noteq> 47 \<and> b \<noteq> 92)"

definition bootfs_path :: "byte list \<Rightarrow> bool" where
  "bootfs_path path \<longleftrightarrow> length path \<le> 256 \<and> path \<noteq> ascii ''TRAILER!!!'' \<and>
     (\<exists>parts. parts \<noteq> [] \<and> path = join_slash parts \<and> (\<forall>part \<in> set parts. path_component part))"

lemma set_join_slash: "set (join_slash parts) \<subseteq> insert 47 (\<Union> (set ` set parts))"
  by (induction parts rule: join_slash.induct) auto

lemma set_part_join: "part \<in> set parts \<Longrightarrow> set part \<subseteq> set (join_slash parts)"
  by (induction parts rule: join_slash.induct) auto

lemma validate_path_cases: "validate_path path = Ok () \<or> validate_path path = Err U_InvalidPath"
  by (simp add: validate_path_def)

lemma validate_path_iff: "validate_path path = Ok () \<longleftrightarrow> bootfs_path path"
proof
  assume ok: "validate_path path = Ok ()"
  let ?parts = "split_slash path"
  have *: "length path \<le> 256" "\<forall>b \<in> set path. b < 128" "0 \<notin> set path" "92 \<notin> set path"
    "path \<noteq> ascii ''TRAILER!!!''" "\<forall>part \<in> set ?parts. part \<noteq> [] \<and> part \<noteq> [46] \<and> part \<noteq> [46, 46]"
    using ok by (auto simp: validate_path_def MAX_PATH_BYTES_def list_all_iff list_ex_iff split: if_splits)
  have "path_component part" if "part \<in> set ?parts" for part
  proof -
    have "set part \<subseteq> set path" using set_part_join [OF that] join_split_slash [of path] by simp
    then show ?thesis
      using * that join_split_slash [of path] by (auto simp: path_component_def ascii_def word_gt_0)
  qed
  then show "bootfs_path path" unfolding bootfs_path_def using * join_split_slash [of path]
    by (metis split_slash_not_Nil)
next
  assume "bootfs_path path"
  then obtain parts where p: "parts \<noteq> []" "path = join_slash parts" "\<forall>part \<in> set parts. path_component part"
    and l: "length path \<le> 256" "path \<noteq> ascii ''TRAILER!!!''" unfolding bootfs_path_def by blast
  have sp: "split_slash path = parts"
    using p split_join_slash [of parts] by (auto simp: path_component_def)
  have b: "b \<noteq> 0 \<and> b < 128 \<and> b \<noteq> 92" if "b \<in> set path" for b
  proof -
    have "b = 47 \<or> (\<exists>part \<in> set parts. b \<in> set part)" using that set_join_slash [of parts] p(2) by blast
    moreover have "0 < b \<and> b < 128 \<and> b \<noteq> 92" if "part \<in> set parts" "b \<in> set part" for part
      using p(3) that unfolding path_component_def by blast
    moreover have "(47 :: byte) \<noteq> 0" "(47 :: byte) < 128" "(47 :: byte) \<noteq> 92" by simp_all
    ultimately show ?thesis by (metis word_gt_0)
  qed
  have "path \<noteq> []"
  proof
    assume "path = []"
    with sp have "[] \<in> set parts" by auto
    with p(3) show False unfolding path_component_def by blast
  qed
  moreover have "list_all (\<lambda>b. b < 128) path" "0 \<notin> set path" "92 \<notin> set path" using b by (auto simp: list_all_iff)
  moreover have "\<not> list_ex (\<lambda>part. part = [] \<or> part = [46] \<or> part = [46, 46]) (split_slash path)"
    using p(3) unfolding sp by (auto simp: list_ex_iff path_component_def ascii_def)
  ultimately show "validate_path path = Ok ()" using l unfolding validate_path_def MAX_PATH_BYTES_def by simp
qed

subsection \<open>Argument views\<close>

text \<open>The view \<open>a\<close> shows the words \<open>ws\<close>.\<close>

definition shows_words :: "arguments \<Rightarrow> byte list list \<Rightarrow> bool" where
  "shows_words a ws \<longleftrightarrow> length (ag_ranges a) = length ws \<and>
     (\<forall>i < length ws. str_get (ar_start (ag_ranges a ! i)) (ar_end (ag_ranges a ! i)) (ag_text a) = Some (ws ! i))"

lemma shows_words_get: "shows_words a ws \<Longrightarrow> args_get a i = (if i < length ws then Some (ws ! i) else None)"
  by (simp add: shows_words_def args_get_def get_index_def)

lemma shows_words_len: "shows_words a ws \<Longrightarrow> args_len a = length ws"
  by (simp add: shows_words_def args_len_def)

lemma shows_words_iter: "shows_words a ws \<Longrightarrow> args_iter (ag_text a) (ag_ranges a) = Ok ws"
  by (rule args_iter_view) (auto simp: shows_words_def)

lemma shows_words_tail: "shows_words a (w # ws) \<Longrightarrow> shows_words (args_tail a) ws"
  by (auto simp: shows_words_def args_tail_def get_range_def nth_tl drop_Suc length_Suc_conv)

lemma shows_words_view: "\<forall>w \<in> set ws. \<forall>c \<in> set w. is_scalar c \<Longrightarrow> shows_words (view ws) (map encode_str ws)"
  using range_text [of _ ws] by (simp add: shows_words_def view_def)

subsection \<open>Classification of the words\<close>

lemma ascii_spellings:
  "map cs_spelling COMMANDS =
     [[104, 101, 108, 112], [101, 99, 104, 111], [99, 108, 101, 97, 114], [101, 120, 105, 116],
      [115, 104, 117, 116, 100, 111, 119, 110], [115, 101, 114, 118, 105, 99, 101, 115], [116, 97, 115, 107, 115],
      [115, 116, 97, 116, 117, 115], [114, 117, 110], [115, 112, 97, 119, 110], [119, 97, 105, 116],
      [116, 101, 114, 109, 105, 110, 97, 116, 101]]"
  by (simp add: COMMANDS_def ascii_def)

lemma find_distinct:
  "distinct (map f xs) \<Longrightarrow> find (\<lambda>x. f x = y) xs = Some x \<longleftrightarrow> x \<in> set xs \<and> f x = y"
  by (induction xs) (auto simp: image_iff)

lemma find_command: "find (\<lambda>spec. cs_spelling spec = w) COMMANDS = Some spec \<longleftrightarrow> spec \<in> set COMMANDS \<and> cs_spelling spec = w"
proof (rule find_distinct)
  show "distinct (map cs_spelling COMMANDS)" unfolding ascii_spellings by simp
qed

text \<open>The entry of the table with a given name.\<close>

lemma find_command_name:
  "cs_name spec = n \<Longrightarrow> spec \<in> set COMMANDS \<Longrightarrow> cs_name spec' = n \<Longrightarrow> spec' \<in> set COMMANDS \<Longrightarrow> spec' = spec"
  unfolding COMMANDS_def by (simp only: list.set insert_iff empty_iff) (elim disjE; simp)

lemma run_spec: "spec_of N_Run ''run'' ''run <bootfs-path> [args...]'' (AtLeast 1) \<in> set COMMANDS"
  and spawn_spec: "spec_of N_Spawn ''spawn'' ''spawn <bootfs-path> [args...]'' (AtLeast 1) \<in> set COMMANDS"
  and wait_spec: "spec_of N_Wait ''wait'' ''wait <job-id>'' (Exact 1) \<in> set COMMANDS"
  and terminate_spec: "spec_of N_Terminate ''terminate'' ''terminate <job-id>'' (Exact 1) \<in> set COMMANDS"
  by (simp_all add: COMMANDS_def)

lemma args_command_words:
  assumes "shows_words a (w # ws)"
  shows "args_command a = Ok c \<longleftrightarrow>
    (\<exists>spec \<in> set COMMANDS. w = cs_spelling spec \<and> classify spec (args_tail a) = Ok c)"
proof (cases "find (\<lambda>spec. cs_spelling spec = w) COMMANDS")
  case None
  then have "\<forall>spec \<in> set COMMANDS. cs_spelling spec \<noteq> w" by (simp add: find_None_iff)
  then show ?thesis using None shows_words_get [OF assms, of 0] by (auto simp: args_command_def)
next
  case (Some spec)
  then have "spec' \<in> set COMMANDS \<and> cs_spelling spec' = w \<longleftrightarrow> spec' = spec" for spec' using find_command [of w spec'] by auto
  moreover have "args_command a = classify spec (args_tail a)"
    using Some shows_words_get [OF assms, of 0] by (simp add: args_command_def)
  ultimately show ?thesis by metis
qed

lemma launch_command_words:
  assumes "shows_words a ws" "name = N_Run \<or> name = N_Spawn"
  shows "launch_command name a = Ok c \<longleftrightarrow> (\<exists>path rest. ws = path # rest \<and> bootfs_path path \<and>
      c = (if name = N_Run then Cmd_Run path a else Cmd_Spawn path a))"
proof (cases ws)
  case Nil
  then show ?thesis using shows_words_get [OF assms(1), of 0] by (simp add: launch_command_def)
next
  case (Cons path rest)
  then show ?thesis
    using shows_words_get [OF assms(1), of 0] validate_path_cases [of path] validate_path_iff [of path]
    by (auto simp: launch_command_def)
qed

lemma job_command_words:
  assumes "shows_words a ws" "name = N_Wait \<or> name = N_Terminate"
  shows "job_command name a = Ok c \<longleftrightarrow> (\<exists>n v rest. ws = v # rest \<and> parse_job_id v = Ok n \<and>
      c = (if name = N_Wait then Cmd_Wait n else Cmd_Terminate n))"
proof (cases ws)
  case Nil
  then show ?thesis using shows_words_get [OF assms(1), of 0] by (simp add: job_command_def)
next
  case (Cons v rest)
  then show ?thesis
    using shows_words_get [OF assms(1), of 0]
    by (cases "parse_job_id v") (auto simp: job_command_def)
qed

lemma command_arity:
  "spec \<in> set COMMANDS \<Longrightarrow> cs_arity spec = (case cs_name spec of N_Echo \<Rightarrow> AtLeast 0 | N_Run \<Rightarrow> AtLeast 1
     | N_Spawn \<Rightarrow> AtLeast 1 | N_Wait \<Rightarrow> Exact 1 | N_Terminate \<Rightarrow> Exact 1 | _ \<Rightarrow> Exact 0)"
  unfolding COMMANDS_def by (simp only: list.set insert_iff empty_iff) (elim disjE; simp)

lemma classify_launch:
  assumes "spec \<in> set COMMANDS" "shows_words a ws"
  shows "classify spec a = Ok (Cmd_Run path argv) \<longleftrightarrow>
      cs_name spec = N_Run \<and> argv = a \<and> bootfs_path path \<and> (\<exists>rest. ws = path # rest)"
    and "classify spec a = Ok (Cmd_Spawn path argv) \<longleftrightarrow>
      cs_name spec = N_Spawn \<and> argv = a \<and> bootfs_path path \<and> (\<exists>rest. ws = path # rest)"
  using launch_command_words [OF assms(2)] job_command_words [OF assms(2)] shows_words_len [OF assms(2)]
    command_arity [OF assms(1)]
  by (auto simp: classify_def arity_ok_def split: command_name.split)

lemma classify_job:
  assumes "spec \<in> set COMMANDS" "shows_words a ws"
  shows "classify spec a = Ok (Cmd_Wait n) \<longleftrightarrow> cs_name spec = N_Wait \<and> (\<exists>v. ws = [v] \<and> parse_job_id v = Ok n)"
    and "classify spec a = Ok (Cmd_Terminate n) \<longleftrightarrow>
      cs_name spec = N_Terminate \<and> (\<exists>v. ws = [v] \<and> parse_job_id v = Ok n)"
  using launch_command_words [OF assms(2)] job_command_words [OF assms(2)] shows_words_len [OF assms(2)]
    command_arity [OF assms(1)]
  by (auto simp: classify_def arity_ok_def split: command_name.split)

lemma command_named:
  "(\<exists>spec \<in> set COMMANDS. w = cs_spelling spec \<and> cs_name spec = N_Run \<and> P) \<longleftrightarrow> w = ascii ''run'' \<and> P"
  "(\<exists>spec \<in> set COMMANDS. w = cs_spelling spec \<and> cs_name spec = N_Spawn \<and> P) \<longleftrightarrow> w = ascii ''spawn'' \<and> P"
  "(\<exists>spec \<in> set COMMANDS. w = cs_spelling spec \<and> cs_name spec = N_Wait \<and> P) \<longleftrightarrow> w = ascii ''wait'' \<and> P"
  "(\<exists>spec \<in> set COMMANDS. w = cs_spelling spec \<and> cs_name spec = N_Terminate \<and> P) \<longleftrightarrow> w = ascii ''terminate'' \<and> P"
  by (simp_all add: COMMANDS_def)

lemma args_command_launch:
  assumes "shows_words a (w # ws)"
  shows "args_command a = Ok (Cmd_Run path argv) \<longleftrightarrow>
      w = ascii ''run'' \<and> argv = args_tail a \<and> bootfs_path path \<and> (\<exists>rest. ws = path # rest)"
    and "args_command a = Ok (Cmd_Spawn path argv) \<longleftrightarrow>
      w = ascii ''spawn'' \<and> argv = args_tail a \<and> bootfs_path path \<and> (\<exists>rest. ws = path # rest)"
  unfolding args_command_words [OF assms] command_named [symmetric]
  using classify_launch [OF _ shows_words_tail [OF assms]] by (meson, meson)

lemma args_command_job:
  assumes "shows_words a (w # ws)"
  shows "args_command a = Ok (Cmd_Wait n) \<longleftrightarrow> w = ascii ''wait'' \<and> (\<exists>v. ws = [v] \<and> parse_job_id v = Ok n)"
    and "args_command a = Ok (Cmd_Terminate n) \<longleftrightarrow>
      w = ascii ''terminate'' \<and> (\<exists>v. ws = [v] \<and> parse_job_id v = Ok n)"
  unfolding args_command_words [OF assms] command_named [symmetric]
  using classify_job [OF _ shows_words_tail [OF assms]] by (meson, meson)

lemma parsed_words:
  assumes "parser_ok p" "parse_line line p = (Ok a, p')"
  obtains ts where "tokenize (str_chars line) = Ok ts" "shows_words a (map encode_str ts)"
proof -
  have pre: "length line \<le> MAX_LINE_BYTES" "valid_utf8 line" "0 \<notin> set line"
    using assms(2) by (auto simp: parse_line_def afail_def split: if_splits)
  obtain ts where ts: "tokenize (str_chars line) = Ok ts" "a = view ts"
    using parse_line_eq [OF assms(1) pre] assms(2) by (cases "tokenize (str_chars line)") auto
  obtain cs where cs: "line = encode_str cs" "\<forall>c \<in> set cs. is_scalar c" using pre(2) by (auto simp: valid_utf8_iff)
  have "\<forall>w \<in> set ts. \<forall>c \<in> set w. is_scalar c"
    using tokens_Ok [of cs "[]" None Q_None ts] ts(1) cs by (auto simp: tokenize_def tokens_ok_def)
  with ts show thesis using that shows_words_view by blast
qed

text \<open>C31. A parsed line is a launch exactly when its first word is \<^verbatim>\<open>run\<close> or \<^verbatim>\<open>spawn\<close> and its second
  word is a canonical archive path: relative, of nonempty components other than \<^verbatim>\<open>.\<close> and
  \<^verbatim>\<open>..\<close>, ASCII without NUL and backslash, at most 256 bytes. The arguments passed on are all the
  words after the command word, the path first.\<close>

theorem launch_classified:
  assumes "parser_ok p" and "parse_line line p = (Ok a, p')"
  shows "\<exists>ts. tokenize (str_chars line) = Ok ts \<and>
    (\<forall>path argv. args_command a = Ok (Cmd_Run path argv) \<longleftrightarrow> argv = args_tail a \<and> bootfs_path path \<and>
       (\<exists>rest. map encode_str ts = ascii ''run'' # path # rest)) \<and>
    (\<forall>path argv. args_command a = Ok (Cmd_Spawn path argv) \<longleftrightarrow> argv = args_tail a \<and> bootfs_path path \<and>
       (\<exists>rest. map encode_str ts = ascii ''spawn'' # path # rest)) \<and>
    (ts \<noteq> [] \<longrightarrow> args_iter (ag_text (args_tail a)) (ag_ranges (args_tail a)) = Ok (map encode_str (tl ts)))"
proof -
  obtain ts where ts: "tokenize (str_chars line) = Ok ts" and sw: "shows_words a (map encode_str ts)"
    by (rule parsed_words [OF assms])
  show ?thesis
  proof (cases ts)
    case Nil
    then have "args_command a = Ok Cmd_Empty" using shows_words_get [OF sw, of 0] by (simp add: args_command_def)
    with ts Nil show ?thesis by simp
  next
    case (Cons t rest)
    then have sw': "shows_words a (encode_str t # map encode_str rest)" using sw by simp
    have "args_iter (ag_text (args_tail a)) (ag_ranges (args_tail a)) = Ok (map encode_str (tl ts))"
      using shows_words_iter [OF shows_words_tail [OF sw']] Cons by simp
    then show ?thesis using ts args_command_launch [OF sw'] Cons by (intro exI [of _ ts]) auto
  qed
qed

lemma sample_path: "bootfs_path [120]"
  unfolding validate_path_iff [symmetric] by (simp add: validate_path_def MAX_PATH_BYTES_def ascii_def)

theorem launch_classified_witness:
  "\<exists>a p'. parse_line (encode_str (quoted_line [[114, 117, 110], [120]])) parser_new = (Ok a, p') \<and>
     args_command a = Ok (Cmd_Run [120] (args_tail a)) \<and>
     args_iter (ag_text (args_tail a)) (ag_ranges (args_tail a)) = Ok [[120]]"
proof -
  let ?ws = "[[114, 117, 110], [120]]"
  have "fst (parse_line (encode_str (quoted_line ?ws)) parser_new) = Ok (view ?ws)"
    by (rule parse_quoted_line [OF parser_new_ok]) (simp_all add: is_scalar_def quoted_def escaped_def len_utf8_def)
  then obtain a p' where p: "parse_line (encode_str (quoted_line ?ws)) parser_new = (Ok a, p')" by (metis fst_conv surj_pair)
  have t: "tokenize (str_chars (encode_str (quoted_line ?ws))) = Ok ?ws"
    by (rule tokenize_quoted_line) (simp_all add: is_scalar_def quoted_def escaped_def)
  have e: "map encode_str ?ws = ascii ''run'' # [120] # []" by (simp add: encode_utf8_ascii nat_byte_def ascii_def)
  have x: "encode_str [120] = [120]" by (simp add: encode_utf8_ascii nat_byte_def)
  note b = sample_path
  obtain ts where ts: "tokenize (str_chars (encode_str (quoted_line ?ws))) = Ok ts"
    "\<forall>path argv. args_command a = Ok (Cmd_Run path argv) \<longleftrightarrow> argv = args_tail a \<and> bootfs_path path \<and>
       (\<exists>rest. map encode_str ts = ascii ''run'' # path # rest)"
    "ts \<noteq> [] \<longrightarrow> args_iter (ag_text (args_tail a)) (ag_ranges (args_tail a)) = Ok (map encode_str (tl ts))"
    using launch_classified [OF parser_new_ok p] by (elim exE conjE) (rule that, assumption+)
  have "ts = ?ws" using ts(1) t by simp
  then show ?thesis using p ts(2,3) b e x by auto
qed

lemma encode_ascii:
  assumes "\<forall>b \<in> set bs. b < 128"
  shows "encode_str (map unat bs) = bs"
  using assms
proof (induction bs)
  case (Cons b bs)
  then have "unat b < 0x80" by (auto simp: word_less_nat_alt)
  then have "encode_utf8 (unat b) = [b]" by (simp add: encode_utf8_ascii nat_byte_def)
  with Cons show ?case by simp
qed simp

lemma bootfs_path_bytes:
  assumes "bootfs_path path" "b \<in> set path"
  shows "b < 128 \<and> b \<noteq> 0"
proof -
  obtain parts where p: "path = join_slash parts" "\<forall>part \<in> set parts. path_component part"
    using assms(1) unfolding bootfs_path_def by blast
  have "b = 47 \<or> (\<exists>part \<in> set parts. b \<in> set part)" using assms(2) p(1) set_join_slash [of parts] by blast
  moreover have "0 < b \<and> b < 128" if "part \<in> set parts" "b \<in> set part" for part
    using p(2) that unfolding path_component_def by blast
  moreover have "(47 :: byte) \<noteq> 0" "(47 :: byte) < 128" by simp_all
  ultimately show ?thesis by (metis word_gt_0)
qed

text \<open>Every launch can be typed: the line that quotes \<^verbatim>\<open>run\<close>, a canonical path and any further
  arguments parses and classifies as the launch of that path, whose arguments are the path and then
  those arguments.\<close>

theorem launch_line:
  assumes "parser_ok p" and "bootfs_path path" and "length args \<le> 62"
    and "\<forall>c \<in> set (concat args). is_scalar c \<and> c \<noteq> 0"
    and "length (encode_str (quoted_line (map unat (ascii ''run'') # map unat path # args))) \<le> 4096"
  shows "\<exists>a argv. fst (parse_line (encode_str (quoted_line (map unat (ascii ''run'') # map unat path # args))) p) = Ok a \<and>
    args_command a = Ok (Cmd_Run path argv) \<and>
    args_iter (ag_text argv) (ag_ranges argv) = Ok (path # map encode_str args)"
proof -
  let ?ws = "map unat (ascii ''run'') # map unat path # args"
  have sc: "\<forall>w \<in> set ?ws. \<forall>c \<in> set w. is_scalar c \<and> c \<noteq> 0"
  proof -
    have "is_scalar (unat b) \<and> unat b \<noteq> 0" if "b \<in> set path" for b
      using bootfs_path_bytes [OF assms(2) that] by (auto simp: is_scalar_def word_less_nat_alt unat_eq_0)
    then show ?thesis using assms(4) by (auto simp: ascii_def is_scalar_def)
  qed
  have run: "encode_str (map unat (ascii ''run'')) = ascii ''run''" by (rule encode_ascii) (simp add: ascii_def)
  have path: "encode_str (map unat path) = path" by (rule encode_ascii) (use bootfs_path_bytes [OF assms(2)] in blast)
  have "shows_words (view ?ws) (map encode_str ?ws)" using sc by (intro shows_words_view) blast
  then have sw: "shows_words (view ?ws) (ascii ''run'' # path # map encode_str args)"
    unfolding list.map run path .
  have "fst (parse_line (encode_str (quoted_line ?ws)) p) = Ok (view ?ws)"
    using sc assms(3,5) by (intro parse_quoted_line [OF assms(1)]) auto
  moreover have "args_command (view ?ws) = Ok (Cmd_Run path (args_tail (view ?ws)))"
    unfolding args_command_launch(1) [OF sw] using assms(2) by blast
  ultimately show ?thesis using shows_words_iter [OF shows_words_tail [OF sw]] by blast
qed

theorem launch_line_witness:
  "\<exists>a argv. fst (parse_line (encode_str (quoted_line (map unat (ascii ''run'') # map unat [120 :: byte] # []))) parser_new) = Ok a \<and>
    args_command a = Ok (Cmd_Run [120] argv) \<and> args_iter (ag_text argv) (ag_ranges argv) = Ok [[120]]"
proof -
  note b = sample_path
  show ?thesis
    using launch_line [OF parser_new_ok b, of "[]"]
    by (simp add: ascii_def quoted_def escaped_def len_utf8_def)
qed

text \<open>A parsed line waits for or terminates a job exactly when it consists of the command word and a
  canonical job number.\<close>

theorem job_classified:
  assumes "parser_ok p" and "parse_line line p = (Ok a, p')"
  shows "\<exists>ts. tokenize (str_chars line) = Ok ts \<and>
    (\<forall>n. args_command a = Ok (Cmd_Wait n) \<longleftrightarrow> n \<noteq> 0 \<and> map encode_str ts = [ascii ''wait'', dec (unat n)]) \<and>
    (\<forall>n. args_command a = Ok (Cmd_Terminate n) \<longleftrightarrow>
       n \<noteq> 0 \<and> map encode_str ts = [ascii ''terminate'', dec (unat n)])"
proof -
  obtain ts where ts: "tokenize (str_chars line) = Ok ts" and sw: "shows_words a (map encode_str ts)"
    by (rule parsed_words [OF assms])
  show ?thesis
  proof (cases ts)
    case Nil
    then have "args_command a = Ok Cmd_Empty" using shows_words_get [OF sw, of 0] by (simp add: args_command_def)
    with ts Nil show ?thesis by simp
  next
    case (Cons t rest)
    then have sw': "shows_words a (encode_str t # map encode_str rest)" using sw by simp
    show ?thesis using ts args_command_job [OF sw'] parse_job_id_iff Cons by (intro exI [of _ ts]) auto
  qed
qed

theorem job_classified_witness:
  "\<exists>a p'. parse_line (encode_str (quoted_line [[119, 97, 105, 116], [55]])) parser_new = (Ok a, p') \<and>
     args_command a = Ok (Cmd_Wait 7)"
proof -
  let ?ws = "[[119, 97, 105, 116], [55]]"
  have "fst (parse_line (encode_str (quoted_line ?ws)) parser_new) = Ok (view ?ws)"
    by (rule parse_quoted_line [OF parser_new_ok]) (simp_all add: is_scalar_def quoted_def escaped_def len_utf8_def)
  then obtain a p' where p: "parse_line (encode_str (quoted_line ?ws)) parser_new = (Ok a, p')" by (metis fst_conv surj_pair)
  have t: "tokenize (str_chars (encode_str (quoted_line ?ws))) = Ok ?ws"
    by (rule tokenize_quoted_line) (simp_all add: is_scalar_def quoted_def escaped_def)
  have e: "map encode_str ?ws = [ascii ''wait'', dec (unat (7 :: u64))]"
    by (simp add: encode_utf8_ascii nat_byte_def ascii_def dec_step)
  obtain ts where ts: "tokenize (str_chars (encode_str (quoted_line ?ws))) = Ok ts"
    "\<forall>n. args_command a = Ok (Cmd_Wait n) \<longleftrightarrow> n \<noteq> 0 \<and> map encode_str ts = [ascii ''wait'', dec (unat n)]"
    using job_classified [OF parser_new_ok p] by blast
  have "ts = ?ws" using ts(1) t by simp
  then show ?thesis using p ts(2) e by auto
qed

end
