(* ===== verification/Uart16550Ring.thy ===== *)
theory Uart16550Ring
  imports Prelude
begin

text \<open>
  The byte rings of the UART core (\<^verbatim>\<open>src/crates/wyrmroot-uart16550-core/src/lib.rs\<close>): a fixed
  array with a head, a tail and a length. The locale \<open>byte_fifo\<close> is what the UART relies on:
  a bounded first-in first-out queue of bytes whose operations never panic. It is interpreted on
  the ring, whose contents are read off the array from the head on.
\<close>

subsection \<open>The contract of a bounded byte queue\<close>

text \<open>A queue of at most \<open>n\<close> bytes takes a byte while there is room and drops the newest one
  when it is full.\<close>

definition accept :: "nat \<Rightarrow> byte list \<Rightarrow> byte \<Rightarrow> byte list" where
  "accept n q b = (if length q < n then q @ [b] else q)"

fun opt_hd :: "'a list \<Rightarrow> 'a option" where
  "opt_hd [] = None"
| "opt_hd (x # xs) = Some x"

locale byte_fifo =
  fixes wf :: "'q \<Rightarrow> bool"
    and cont :: "'q \<Rightarrow> byte list"
    and cap :: nat
    and push :: "byte \<Rightarrow> 'q \<Rightarrow> ('e, bool \<times> 'q) res"
    and pop :: "'q \<Rightarrow> ('e, byte option \<times> 'q) res"
    and discard :: "nat \<Rightarrow> 'q \<Rightarrow> nat \<times> 'q"
  assumes bound: "wf q \<Longrightarrow> length (cont q) \<le> cap"
    and push_room: "wf q \<Longrightarrow> length (cont q) < cap \<Longrightarrow>
          \<exists>q'. push b q = Ok (True, q') \<and> wf q' \<and> cont q' = cont q @ [b]"
    and push_full: "wf q \<Longrightarrow> length (cont q) = cap \<Longrightarrow> push b q = Ok (False, q)"
    and pop_empty: "wf q \<Longrightarrow> cont q = [] \<Longrightarrow> pop q = Ok (None, q)"
    and pop_some: "wf q \<Longrightarrow> cont q = x # xs \<Longrightarrow>
          \<exists>q'. pop q = Ok (Some x, q') \<and> wf q' \<and> cont q' = xs"
    and discard_prefix: "wf q \<Longrightarrow> discard n q = (k, q') \<Longrightarrow>
          k = min n (length (cont q)) \<and> wf q' \<and> cont q' = drop k (cont q)"
begin

lemma push_accept:
  assumes "wf q"
  obtains q' where "push b q = Ok (length (cont q) < cap, q')" "wf q'"
    "cont q' = accept cap (cont q) b"
proof (cases "length (cont q) < cap")
  case True
  with push_room [OF assms True] that show ?thesis by (auto simp: accept_def)
next
  case False
  with bound [OF assms] have full: "length (cont q) = cap" by simp
  from that [of q] push_full [OF assms full] full assms show ?thesis by (simp add: accept_def)
qed

lemma pop_hd:
  assumes "wf q"
  obtains q' where "pop q = Ok (opt_hd (cont q), q')" "wf q'" "cont q' = tl (cont q)"
proof (cases "cont q")
  case Nil
  with pop_empty [OF assms Nil] that [of q] assms show ?thesis by simp
next
  case (Cons x xs)
  with pop_some [OF assms Cons] that show ?thesis by auto
qed

text \<open>A byte taken out after a discard is the first one the discard left.\<close>

lemma pop_after_discard:
  assumes "wf q" "discard n q = (k, q')" "n < length (cont q)"
  obtains q'' where "pop q' = Ok (Some (cont q ! n), q'')" "wf q''"
    "cont q'' = drop (Suc n) (cont q)"
proof -
  from discard_prefix [OF assms(1,2)] assms(3)
  have q': "wf q'" "cont q' = cont q ! n # drop (Suc n) (cont q)"
    by (simp_all add: Cons_nth_drop_Suc)
  from pop_some [OF q'] that show ?thesis by blast
qed

end

subsection \<open>The ring\<close>

definition RING_CAPACITY :: nat where "RING_CAPACITY = 4096"

record ring =
  ring_bytes :: "byte list"
  ring_head :: nat
  ring_tail :: nat
  ring_len :: nat

definition ring_new :: ring where
  "ring_new = \<lparr>ring_bytes = replicate RING_CAPACITY 0, ring_head = 0, ring_tail = 0, ring_len = 0\<rparr>"

definition ring_is_empty :: "ring \<Rightarrow> bool" where
  "ring_is_empty r = (ring_len r = 0)"

definition ring_is_full :: "ring \<Rightarrow> bool" where
  "ring_is_full r = (ring_len r = RING_CAPACITY)"

definition ring_push :: "byte \<Rightarrow> ring \<Rightarrow> ('e, bool \<times> ring) res" where
  "ring_push b r =
     (if ring_is_full r then Ok (False, r)
      else if ring_tail r < length (ring_bytes r) then
        Ok (True, r\<lparr>ring_bytes := (ring_bytes r)[ring_tail r := b],
                    ring_tail := (ring_tail r + 1) mod RING_CAPACITY,
                    ring_len := ring_len r + 1\<rparr>)
      else Panic)"

definition ring_pop :: "ring \<Rightarrow> ('e, byte option \<times> ring) res" where
  "ring_pop r =
     (if ring_is_empty r then Ok (None, r)
      else rbind (index_r (ring_bytes r) (ring_head r)) (\<lambda>b.
        Ok (Some b, r\<lparr>ring_head := (ring_head r + 1) mod RING_CAPACITY,
                      ring_len := ring_len r - 1\<rparr>)))"

text \<open>\<^verbatim>\<open>copy_to\<close> and \<^verbatim>\<open>copy_from\<close> overwrite the first bytes of the caller's buffer and give
  the number of bytes written with the buffer.\<close>

fun ring_copy_loop :: "ring \<Rightarrow> nat \<Rightarrow> nat \<Rightarrow> nat \<Rightarrow> byte list \<Rightarrow> ('e, byte list) res" where
  "ring_copy_loop r start i 0 out = Ok out"
| "ring_copy_loop r start i (Suc n) out =
     rbind (index_r (ring_bytes r) ((start + i) mod RING_CAPACITY)) (\<lambda>b.
       ring_copy_loop r start (Suc i) n (out[i := b]))"

definition ring_copy_to :: "ring \<Rightarrow> byte list \<Rightarrow> ('e, nat \<times> byte list) res" where
  "ring_copy_to r out =
     (let n = min (ring_len r) (length out) in
      rbind (ring_copy_loop r (ring_head r) 0 n out) (\<lambda>out'. Ok (n, out')))"

definition ring_copy_from :: "ring \<Rightarrow> nat \<Rightarrow> byte list \<Rightarrow> ('e, nat \<times> byte list) res" where
  "ring_copy_from r offset out =
     (if ring_len r \<le> offset then Ok (0, out)
      else let n = min (ring_len r - offset) (length out) in
        rbind (ring_copy_loop r (ring_head r + offset) 0 n out) (\<lambda>out'. Ok (n, out')))"

definition ring_discard :: "nat \<Rightarrow> ring \<Rightarrow> nat \<times> ring" where
  "ring_discard count r =
     (let n = min count (ring_len r) in
      (n, r\<lparr>ring_head := (ring_head r + n) mod RING_CAPACITY, ring_len := ring_len r - n\<rparr>))"

subsection \<open>The ring is a bounded queue\<close>

definition ring_wf :: "ring \<Rightarrow> bool" where
  "ring_wf r \<longleftrightarrow> length (ring_bytes r) = RING_CAPACITY \<and> ring_head r < RING_CAPACITY \<and>
     ring_len r \<le> RING_CAPACITY \<and>
     ring_tail r = (ring_head r + ring_len r) mod RING_CAPACITY"

definition ring_cont :: "ring \<Rightarrow> byte list" where
  "ring_cont r =
     map (\<lambda>i. ring_bytes r ! ((ring_head r + i) mod RING_CAPACITY)) [0..<ring_len r]"

lemma capacity_pos [simp]: "0 < RING_CAPACITY"
  by (simp add: RING_CAPACITY_def)

lemma length_ring_cont [simp]: "length (ring_cont r) = ring_len r"
  by (simp add: ring_cont_def)

lemma ring_cont_empty: "ring_is_empty r \<longleftrightarrow> ring_cont r = []"
  by (metis length_0_conv length_ring_cont ring_is_empty_def)

lemma ring_new_wf [simp]: "ring_wf ring_new" "ring_cont ring_new = []"
  by (simp_all add: ring_wf_def ring_new_def ring_cont_def)

text \<open>Two positions less than a capacity apart are different places of the array.\<close>

lemma slots_distinct:
  fixes i j h n :: nat
  assumes "i < j" "j < i + n" "(h + i) mod n = (h + j) mod n"
  shows False
proof -
  from assms(1) have "h + i \<le> h + j" by simp
  then have "n dvd (h + j) - (h + i)"
    using assms(3) mod_eq_dvd_iff_nat [of "h + i" "h + j" n] by metis
  then have "n dvd j - i" by simp
  moreover have "0 < j - i" "j - i < n" using assms(1,2) by auto
  ultimately show False by (simp add: nat_dvd_not_less)
qed

lemma ring_push_cont:
  assumes "ring_wf r" "ring_len r < RING_CAPACITY"
  shows "\<exists>r'. ring_push b r = Ok (True, r') \<and> ring_wf r' \<and> ring_cont r' = ring_cont r @ [b]"
proof -
  let ?t = "(ring_head r + ring_len r) mod RING_CAPACITY"
  let ?r = "r\<lparr>ring_bytes := (ring_bytes r)[?t := b],
              ring_tail := (?t + 1) mod RING_CAPACITY, ring_len := ring_len r + 1\<rparr>"
  have push: "ring_push b r = Ok (True, ?r)"
    using assms by (simp add: ring_push_def ring_is_full_def ring_wf_def)
  have other: "(ring_bytes r)[?t := b] ! ((ring_head r + i) mod RING_CAPACITY) =
      ring_bytes r ! ((ring_head r + i) mod RING_CAPACITY)" if "i < ring_len r" for i
    using slots_distinct [of i "ring_len r" RING_CAPACITY "ring_head r"] that assms(2)
    by (metis nth_list_update_neq trans_less_add2)
  have "ring_cont ?r = ring_cont r @ [b]"
    using assms other by (simp add: ring_cont_def ring_wf_def)
  moreover have "ring_wf ?r"
    using assms by (simp add: ring_wf_def mod_simps)
  ultimately show ?thesis using push by blast
qed

lemma ring_advance_cont:
  assumes "ring_wf r" "n \<le> ring_len r"
  defines "r' \<equiv> r\<lparr>ring_head := (ring_head r + n) mod RING_CAPACITY, ring_len := ring_len r - n\<rparr>"
  shows "ring_wf r'" and "ring_cont r' = drop n (ring_cont r)"
proof -
  have "(ring_head r + ring_len r) mod RING_CAPACITY =
      ((ring_head r + n) mod RING_CAPACITY + (ring_len r - n)) mod RING_CAPACITY"
    using assms(2) by (simp only: mod_add_left_eq) simp
  then show "ring_wf r'" using assms(1,2) by (auto simp: r'_def ring_wf_def)
  show "ring_cont r' = drop n (ring_cont r)"
    by (rule nth_equalityI) (auto simp: r'_def ring_cont_def mod_simps add.assoc less_diff_conv)
qed

lemma ring_pop_cont:
  assumes "ring_wf r" "ring_cont r = x # xs"
  shows "\<exists>r'. ring_pop r = Ok (Some x, r') \<and> ring_wf r' \<and> ring_cont r' = xs"
proof -
  let ?r = "r\<lparr>ring_head := (ring_head r + 1) mod RING_CAPACITY, ring_len := ring_len r - 1\<rparr>"
  have len: "1 \<le> ring_len r" using arg_cong [OF assms(2), of length] by simp
  have "ring_bytes r ! ring_head r = ring_cont r ! 0"
    using len assms(1) by (simp add: ring_cont_def ring_wf_def)
  then have "ring_pop r = Ok (Some x, ?r)"
    using len assms by (simp add: ring_pop_def ring_is_empty_def index_r_def ring_wf_def)
  moreover have "ring_wf ?r" "ring_cont ?r = xs"
    using ring_advance_cont [OF assms(1) len] assms(2) by simp_all
  ultimately show ?thesis by blast
qed

lemma ring_discard_cont:
  assumes "ring_wf r" "ring_discard n r = (k, r')"
  shows "k = min n (length (ring_cont r)) \<and> ring_wf r' \<and> ring_cont r' = drop k (ring_cont r)"
proof -
  from assms(2) have k: "k = min n (ring_len r)"
    and r': "r' = r\<lparr>ring_head := (ring_head r + k) mod RING_CAPACITY, ring_len := ring_len r - k\<rparr>"
    by (auto simp: ring_discard_def Let_def)
  from k have "k \<le> ring_len r" by simp
  from ring_advance_cont [OF assms(1) this] k r' show ?thesis by simp
qed

interpretation rq: byte_fifo ring_wf ring_cont RING_CAPACITY ring_push ring_pop ring_discard
proof
  show "length (ring_cont r) \<le> RING_CAPACITY" if "ring_wf r" for r
    using that by (simp add: ring_wf_def)
  show "\<exists>r'. ring_push b r = Ok (True, r') \<and> ring_wf r' \<and> ring_cont r' = ring_cont r @ [b]"
    if "ring_wf r" "length (ring_cont r) < RING_CAPACITY" for r b
    using that ring_push_cont by simp
  show "ring_push b r = Ok (False, r)"
    if "ring_wf r" "length (ring_cont r) = RING_CAPACITY" for r b
    using that by (simp add: ring_push_def ring_is_full_def)
  show "ring_pop r = Ok (None, r)" if "ring_wf r" "ring_cont r = []" for r
    using that by (simp add: ring_pop_def ring_cont_empty)
qed (use ring_pop_cont ring_discard_cont in auto)

text \<open>Copying reads the queue without changing it.\<close>

lemma ring_copy_loop_out:
  assumes "length (ring_bytes r) = RING_CAPACITY" "i + n \<le> length out"
  shows "ring_copy_loop r start i n out =
    Ok (take i out @ map (\<lambda>k. ring_bytes r ! ((start + k) mod RING_CAPACITY)) [i..<i + n] @
        drop (i + n) out)"
  using assms(2)
proof (induction n arbitrary: i out)
  case 0
  then show ?case by simp
next
  case (Suc n)
  have "take (Suc i) (out[i := b]) = take i out @ [b]" for b
    using Suc.prems by (simp add: take_Suc_conv_app_nth)
  moreover have "[i..<i + Suc n] = i # [Suc i..<Suc i + n]" by (simp add: upt_conv_Cons)
  ultimately show ?case
    using Suc by (simp add: index_r_def assms(1) del: upt_Suc)
qed

lemma ring_copy_to_cont:
  assumes "ring_wf r"
  shows "ring_copy_to r out =
    (let n = min (length (ring_cont r)) (length out) in Ok (n, take n (ring_cont r) @ drop n out))"
  using assms
  by (simp add: ring_copy_to_def Let_def ring_wf_def ring_copy_loop_out ring_cont_def take_map
      min_def)

lemma ring_copy_from_cont:
  assumes "ring_wf r"
  shows "ring_copy_from r offset out =
    (let n = min (length (ring_cont r) - offset) (length out) in
     Ok (n, take n (drop offset (ring_cont r)) @ drop n out))"
proof -
  have eq: "map (\<lambda>k. ring_bytes r ! ((ring_head r + offset + k) mod RING_CAPACITY)) [0..<n] =
      take n (drop offset (ring_cont r))" if "n \<le> ring_len r - offset" for n
    using that by (intro nth_equalityI) (auto simp: ring_cont_def add.assoc less_diff_conv)
  show ?thesis
    using assms by (simp add: ring_copy_from_def Let_def ring_wf_def ring_copy_loop_out eq)
qed

end
