(* ===== verification/Uart16550.thy ===== *)
theory Uart16550
  imports Uart16550Ring
begin

text \<open>
  The UART core (\<^verbatim>\<open>src/crates/wyrmroot-uart16550-core/src/lib.rs\<close>): register programming, the
  interrupt drain with its finite bound, and the receive and transmit rings. The register adapter
  \<^verbatim>\<open>ByteRegisterIo\<close> is implemented outside the core: it is the parameter \<open>io\<close> of every
  operation, an arbitrary pair of functions on a device state. A \<^verbatim>\<open>&mut self\<close> method is an
  action on the record \<open>uart\<close>.
\<close>

unbundle bit_operations_syntax

subsection \<open>Constants\<close>

definition TX_FIFO_CAPACITY :: nat where "TX_FIFO_CAPACITY = 16"
definition DRAIN_LIMIT :: nat where "DRAIN_LIMIT = 256"

definition RBR_THR_DLL :: byte where "RBR_THR_DLL = 0"
definition IER_DLM :: byte where "IER_DLM = 1"
definition IIR_FCR :: byte where "IIR_FCR = 2"
definition LCR :: byte where "LCR = 3"
definition MCR :: byte where "MCR = 4"
definition LSR :: byte where "LSR = 5"
definition MSR :: byte where "MSR = 6"

definition LCR_8N1 :: byte where "LCR_8N1 = 0x03"
definition LCR_DLAB :: byte where "LCR_DLAB = 0x80"
definition FCR_ENABLE_AND_CLEAR :: byte where "FCR_ENABLE_AND_CLEAR = 0x07"
definition MCR_OUT2_RTS_DTR :: byte where "MCR_OUT2_RTS_DTR = 0x0b"
definition IER_RDI_RLSI :: byte where "IER_RDI_RLSI = 0x05"
definition IER_THRI :: byte where "IER_THRI = 0x02"

definition IIR_NO_INTERRUPT :: byte where "IIR_NO_INTERRUPT = 0x01"
definition IIR_CAUSE_MASK :: byte where "IIR_CAUSE_MASK = 0x0e"
definition IIR_MSI :: byte where "IIR_MSI = 0x00"
definition IIR_THRI :: byte where "IIR_THRI = 0x02"
definition IIR_RDI :: byte where "IIR_RDI = 0x04"
definition IIR_RLSI :: byte where "IIR_RLSI = 0x06"
definition IIR_RX_TIMEOUT :: byte where "IIR_RX_TIMEOUT = 0x0c"

definition LSR_DR :: byte where "LSR_DR = 0x01"
definition LSR_OE :: byte where "LSR_OE = 0x02"
definition LSR_PE :: byte where "LSR_PE = 0x04"
definition LSR_FE :: byte where "LSR_FE = 0x08"
definition LSR_BI :: byte where "LSR_BI = 0x10"
definition LSR_TEMT :: byte where "LSR_TEMT = 0x40"

lemmas reg_defs = RBR_THR_DLL_def IER_DLM_def IIR_FCR_def LCR_def MCR_def LSR_def MSR_def

subsection \<open>Data\<close>

datatype core_error = DrainLimit | UnknownInterruptCause byte

datatype core_state = Core_Reset | Core_Quiesced | Core_Active | Core_Failed core_error

record error_counters =
  hardware_overrun :: u32
  parity :: u32
  framing :: u32
  break_indication :: u32
  rx_software_overrun_bytes :: u32
  unexpected_modem_status :: u32

definition error_counters_default :: error_counters where
  "error_counters_default =
     \<lparr>hardware_overrun = 0, parity = 0, framing = 0, break_indication = 0,
      rx_software_overrun_bytes = 0, unexpected_modem_status = 0\<rparr>"

record interrupt_work =
  work_causes :: u16
  work_received :: u16
  work_transmitted :: u16

definition interrupt_work_default :: interrupt_work where
  "interrupt_work_default = \<lparr>work_causes = 0, work_received = 0, work_transmitted = 0\<rparr>"

text \<open>\<^verbatim>\<open>saturating_add(1)\<close>\<close>

definition sat_inc :: "'a::len word \<Rightarrow> 'a word" where
  "sat_inc w = (if w = - 1 then w else w + 1)"

record 'io reg_io =
  io_read :: "byte \<Rightarrow> 'io \<Rightarrow> byte \<times> 'io"
  io_write :: "byte \<Rightarrow> byte \<Rightarrow> 'io \<Rightarrow> 'io"

record 'io uart =
  u_io :: 'io
  u_rx :: ring
  u_tx :: ring
  u_state :: core_state
  u_errors :: error_counters

type_synonym ('io, 'a) uart_m = "('io uart, core_error, 'a) action"

definition uart_new :: "'io \<Rightarrow> 'io uart" where
  "uart_new dev =
     \<lparr>u_io = dev, u_rx = ring_new, u_tx = ring_new, u_state = Core_Reset,
      u_errors = error_counters_default\<rparr>"

subsection \<open>Register access and ring access on the core's state\<close>

definition reg_read :: "'io reg_io \<Rightarrow> byte \<Rightarrow> ('io, byte) uart_m" where
  "reg_read io off u = (let (b, d) = io_read io off (u_io u) in (Ok b, u\<lparr>u_io := d\<rparr>))"

definition reg_write :: "'io reg_io \<Rightarrow> byte \<Rightarrow> byte \<Rightarrow> ('io, unit) uart_m" where
  "reg_write io off v u = (Ok (), u\<lparr>u_io := io_write io off v (u_io u)\<rparr>)"

definition rx_push :: "byte \<Rightarrow> ('io, bool) uart_m" where
  "rx_push b = abind (aread (\<lambda>u. ring_push b (u_rx u))) (\<lambda>(pushed, r).
     abind (amod (\<lambda>u. u\<lparr>u_rx := r\<rparr>)) (\<lambda>_. aret pushed))"

definition tx_push :: "byte \<Rightarrow> ('io, bool) uart_m" where
  "tx_push b = abind (aread (\<lambda>u. ring_push b (u_tx u))) (\<lambda>(pushed, r).
     abind (amod (\<lambda>u. u\<lparr>u_tx := r\<rparr>)) (\<lambda>_. aret pushed))"

definition tx_pop :: "('io, byte option) uart_m" where
  "tx_pop = abind (aread (\<lambda>u. ring_pop (u_tx u))) (\<lambda>(b, r).
     abind (amod (\<lambda>u. u\<lparr>u_tx := r\<rparr>)) (\<lambda>_. aret b))"

subsection \<open>Status, receive and transmit\<close>

definition account_errors :: "byte \<Rightarrow> error_counters \<Rightarrow> error_counters" where
  "account_errors lsr e =
     (let e1 = (if lsr AND LSR_OE \<noteq> 0 then e\<lparr>hardware_overrun := sat_inc (hardware_overrun e)\<rparr> else e);
          e2 = (if lsr AND LSR_PE \<noteq> 0 then e1\<lparr>parity := sat_inc (parity e1)\<rparr> else e1);
          e3 = (if lsr AND LSR_FE \<noteq> 0 then e2\<lparr>framing := sat_inc (framing e2)\<rparr> else e2)
      in if lsr AND LSR_BI \<noteq> 0 then e3\<lparr>break_indication := sat_inc (break_indication e3)\<rparr> else e3)"

definition account_line_status :: "byte \<Rightarrow> ('io, unit) uart_m" where
  "account_line_status lsr = amod (\<lambda>u. u\<lparr>u_errors := account_errors lsr (u_errors u)\<rparr>)"

definition fail :: "'io reg_io \<Rightarrow> core_error \<Rightarrow> ('io, 'a) uart_m" where
  "fail io e = abind (reg_write io IER_DLM 0) (\<lambda>_.
     abind (amod (\<lambda>u. u\<lparr>u_state := Core_Failed e\<rparr>)) (\<lambda>_. afail e))"

definition receive_one :: "'io reg_io \<Rightarrow> interrupt_work \<Rightarrow> ('io, interrupt_work) uart_m" where
  "receive_one io w = abind (reg_read io RBR_THR_DLL) (\<lambda>b.
     abind (rx_push b) (\<lambda>pushed.
     abind (amod (\<lambda>u. if pushed then u else
         u\<lparr>u_errors := (u_errors u)\<lparr>rx_software_overrun_bytes :=
              sat_inc (rx_software_overrun_bytes (u_errors u))\<rparr>\<rparr>)) (\<lambda>_.
     aret (w\<lparr>work_received := sat_inc (work_received w)\<rparr>))))"

definition handle_line_status :: "'io reg_io \<Rightarrow> interrupt_work \<Rightarrow> ('io, interrupt_work) uart_m" where
  "handle_line_status io w = abind (reg_read io LSR) (\<lambda>lsr.
     abind (account_line_status lsr) (\<lambda>_.
     if lsr AND LSR_DR \<noteq> 0 then receive_one io w else aret w))"

fun drain_receive_loop :: "'io reg_io \<Rightarrow> nat \<Rightarrow> interrupt_work \<Rightarrow> ('io, interrupt_work) uart_m" where
  "drain_receive_loop io 0 w = abind (reg_read io LSR) (\<lambda>lsr.
     abind (account_line_status lsr) (\<lambda>_.
     if lsr AND LSR_DR = 0 then aret w else fail io DrainLimit))"
| "drain_receive_loop io (Suc n) w = abind (reg_read io LSR) (\<lambda>lsr.
     abind (account_line_status lsr) (\<lambda>_.
     if lsr AND LSR_DR = 0 then aret w
     else abind (receive_one io w) (drain_receive_loop io n)))"

definition drain_receive :: "'io reg_io \<Rightarrow> interrupt_work \<Rightarrow> ('io, interrupt_work) uart_m" where
  "drain_receive io = drain_receive_loop io DRAIN_LIMIT"

fun fill_transmit_loop :: "'io reg_io \<Rightarrow> nat \<Rightarrow> interrupt_work \<Rightarrow> ('io, interrupt_work) uart_m" where
  "fill_transmit_loop io 0 w = aret w"
| "fill_transmit_loop io (Suc n) w = abind tx_pop (\<lambda>r.
     case r of
       None \<Rightarrow> aret w
     | Some b \<Rightarrow> abind (reg_write io RBR_THR_DLL b) (\<lambda>_.
         fill_transmit_loop io n (w\<lparr>work_transmitted := sat_inc (work_transmitted w)\<rparr>)))"

definition fill_transmit :: "'io reg_io \<Rightarrow> interrupt_work \<Rightarrow> ('io, interrupt_work) uart_m" where
  "fill_transmit io w = abind (fill_transmit_loop io TX_FIFO_CAPACITY w) (\<lambda>w'.
     abind (aget (\<lambda>u. ring_is_empty (u_tx u))) (\<lambda>empty.
     if empty then abind (reg_write io IER_DLM IER_RDI_RLSI) (\<lambda>_. aret w') else aret w'))"

subsection \<open>The interrupt drain\<close>

definition modem_status :: "'io reg_io \<Rightarrow> interrupt_work \<Rightarrow> ('io, interrupt_work) uart_m" where
  "modem_status io w = abind (reg_read io MSR) (\<lambda>_.
     abind (amod (\<lambda>u. u\<lparr>u_errors := (u_errors u)\<lparr>unexpected_modem_status :=
              sat_inc (unexpected_modem_status (u_errors u))\<rparr>\<rparr>)) (\<lambda>_. aret w))"

definition serve_cause :: "'io reg_io \<Rightarrow> byte \<Rightarrow> interrupt_work \<Rightarrow> ('io, interrupt_work) uart_m" where
  "serve_cause io iir w =
     (let cause = iir AND IIR_CAUSE_MASK in
      if cause = IIR_RLSI then handle_line_status io w
      else if cause = IIR_RDI \<or> cause = IIR_RX_TIMEOUT then drain_receive io w
      else if cause = IIR_THRI then fill_transmit io w
      else if cause = IIR_MSI then modem_status io w
      else fail io (UnknownInterruptCause iir))"

fun interrupt_loop :: "'io reg_io \<Rightarrow> nat \<Rightarrow> interrupt_work \<Rightarrow> ('io, interrupt_work) uart_m" where
  "interrupt_loop io 0 w = abind (reg_read io IIR_FCR) (\<lambda>iir.
     if iir AND IIR_NO_INTERRUPT \<noteq> 0 then aret w else fail io DrainLimit)"
| "interrupt_loop io (Suc n) w = abind (reg_read io IIR_FCR) (\<lambda>iir.
     if iir AND IIR_NO_INTERRUPT \<noteq> 0 then aret w
     else abind (serve_cause io iir (w\<lparr>work_causes := sat_inc (work_causes w)\<rparr>))
            (interrupt_loop io n))"

definition handle_interrupt :: "'io reg_io \<Rightarrow> ('io, interrupt_work) uart_m" where
  "handle_interrupt io = abind (aget u_state) (\<lambda>st.
     if st \<noteq> Core_Active then aret interrupt_work_default
     else interrupt_loop io DRAIN_LIMIT interrupt_work_default)"

subsection \<open>Initialization, activation and the stale drain\<close>

fun stale_drain_loop :: "'io reg_io \<Rightarrow> nat \<Rightarrow> ('io, unit) uart_m" where
  "stale_drain_loop io 0 = abind (reg_read io IIR_FCR) (\<lambda>iir.
     if iir AND IIR_NO_INTERRUPT \<noteq> 0 then aret () else fail io DrainLimit)"
| "stale_drain_loop io (Suc n) = abind (reg_read io LSR) (\<lambda>lsr.
     abind (account_line_status lsr) (\<lambda>_.
     abind (if lsr AND LSR_DR \<noteq> 0 then abind (reg_read io RBR_THR_DLL) (\<lambda>_. aret ()) else aret ()) (\<lambda>_.
     abind (reg_read io MSR) (\<lambda>_.
     abind (reg_read io IIR_FCR) (\<lambda>iir.
     if iir AND IIR_NO_INTERRUPT \<noteq> 0 then aret () else stale_drain_loop io n)))))"

definition stale_drain :: "'io reg_io \<Rightarrow> ('io, unit) uart_m" where
  "stale_drain io = stale_drain_loop io DRAIN_LIMIT"

definition initialize_quiesced :: "'io reg_io \<Rightarrow> ('io, unit) uart_m" where
  "initialize_quiesced io =
     abind (reg_write io IER_DLM 0) (\<lambda>_.
     abind (reg_write io LCR LCR_DLAB) (\<lambda>_.
     abind (reg_write io RBR_THR_DLL 1) (\<lambda>_.
     abind (reg_write io IER_DLM 0) (\<lambda>_.
     abind (reg_write io LCR LCR_8N1) (\<lambda>_.
     abind (reg_write io IIR_FCR FCR_ENABLE_AND_CLEAR) (\<lambda>_.
     abind (reg_write io MCR MCR_OUT2_RTS_DTR) (\<lambda>_.
     abind (amod (\<lambda>u. u\<lparr>u_rx := ring_new, u_tx := ring_new, u_state := Core_Quiesced\<rparr>)) (\<lambda>_.
     stale_drain io))))))))"

definition activate_interrupts :: "'io reg_io \<Rightarrow> ('io, unit) uart_m" where
  "activate_interrupts io = abind (aget u_state) (\<lambda>st.
     if st = Core_Quiesced then
       abind (aget (\<lambda>u. if ring_is_empty (u_tx u) then IER_RDI_RLSI else IER_RDI_RLSI OR IER_THRI)) (\<lambda>ier.
       abind (reg_write io IER_DLM ier) (\<lambda>_.
       amod (\<lambda>u. u\<lparr>u_state := Core_Active\<rparr>)))
     else aret ())"

definition disable_interrupts :: "'io reg_io \<Rightarrow> ('io, unit) uart_m" where
  "disable_interrupts io = abind (reg_write io IER_DLM 0) (\<lambda>_.
     amod (\<lambda>u. u\<lparr>u_state := Core_Quiesced\<rparr>))"

definition interrupts_disabled :: "'io reg_io \<Rightarrow> ('io, bool) uart_m" where
  "interrupts_disabled io = abind (reg_read io IER_DLM) (\<lambda>b. aret (b = 0))"

definition transport_empty :: "'io reg_io \<Rightarrow> ('io, bool) uart_m" where
  "transport_empty io = abind (reg_read io LSR) (\<lambda>b. aret (b AND LSR_TEMT \<noteq> 0))"

subsection \<open>The client's side\<close>

fun enqueue_loop :: "byte list \<Rightarrow> nat \<Rightarrow> ('io, nat) uart_m" where
  "enqueue_loop [] count = aret count"
| "enqueue_loop (b # bs) count = abind (tx_push b) (\<lambda>pushed.
     if pushed then enqueue_loop bs (count + 1) else aret count)"

definition enqueue_tx :: "'io reg_io \<Rightarrow> byte list \<Rightarrow> ('io, nat) uart_m" where
  "enqueue_tx io bytes = abind (aget (\<lambda>u. ring_is_empty (u_tx u))) (\<lambda>was_empty.
     abind (enqueue_loop bytes 0) (\<lambda>count.
     abind (aget u_state) (\<lambda>st.
     if count \<noteq> 0 \<and> was_empty \<and> st = Core_Active
     then abind (reg_write io IER_DLM (IER_RDI_RLSI OR IER_THRI)) (\<lambda>_. aret count)
     else aret count)))"

definition dequeue_rx :: "('io, byte option) uart_m" where
  "dequeue_rx = abind (aread (\<lambda>u. ring_pop (u_rx u))) (\<lambda>(b, r).
     abind (amod (\<lambda>u. u\<lparr>u_rx := r\<rparr>)) (\<lambda>_. aret b))"

definition discard_rx :: "nat \<Rightarrow> ('io, nat) uart_m" where
  "discard_rx count u = (let (n, r) = ring_discard count (u_rx u) in (Ok n, u\<lparr>u_rx := r\<rparr>))"

definition copy_rx :: "byte list \<Rightarrow> ('io, nat \<times> byte list) uart_m" where
  "copy_rx out = aread (\<lambda>u. ring_copy_to (u_rx u) out)"

definition copy_rx_from :: "nat \<Rightarrow> byte list \<Rightarrow> ('io, nat \<times> byte list) uart_m" where
  "copy_rx_from offset out = aread (\<lambda>u. ring_copy_from (u_rx u) offset out)"

definition rx_len :: "'io uart \<Rightarrow> nat" where "rx_len u = ring_len (u_rx u)"
definition tx_len :: "'io uart \<Rightarrow> nat" where "tx_len u = ring_len (u_tx u)"

end
