(* ===== verification/Uart16550Trace.thy ===== *)
theory Uart16550Trace
  imports Uart16550
begin

text \<open>
  What the UART core does to the registers. Any adapter is wrapped so that it records every
  register access; the recorded accesses then say what the core's rings, counters and state must
  be. The main result of this theory is the contract of one interrupt service
  (\<open>interrupt_explained\<close>): bytes read from the receive register are what entered the receive ring,
  bytes written to the transmit register are what left the transmit ring, in order, and the
  counters are those of the status bytes read.
\<close>

subsection \<open>Recorded register accesses\<close>

datatype io_event = Rd byte byte | Wr byte byte

definition logged :: "'io reg_io \<Rightarrow> ('io \<times> io_event list) reg_io" where
  "logged io =
     \<lparr>io_read = (\<lambda>off (d, tr). let (b, d') = io_read io off d in (b, (d', tr @ [Rd off b]))),
      io_write = (\<lambda>off v (d, tr). (io_write io off v d, tr @ [Wr off v]))\<rparr>"

abbreviation trace :: "('io \<times> io_event list) uart \<Rightarrow> io_event list" where
  "trace u \<equiv> snd (u_io u)"

fun sent :: "io_event list \<Rightarrow> byte list" where
  "sent [] = []"
| "sent (Wr off v # es) = (if off = RBR_THR_DLL then v # sent es else sent es)"
| "sent (Rd off b # es) = sent es"

fun received :: "io_event list \<Rightarrow> byte list" where
  "received [] = []"
| "received (Rd off b # es) = (if off = RBR_THR_DLL then b # received es else received es)"
| "received (Wr off v # es) = received es"

text \<open>Interrupt identifications that announce a cause.\<close>

fun pending :: "io_event list \<Rightarrow> byte list" where
  "pending [] = []"
| "pending (Rd off b # es) =
     (if off = IIR_FCR \<and> b AND IIR_NO_INTERRUPT = 0 then b # pending es else pending es)"
| "pending (Wr off v # es) = pending es"

lemma sent_append [simp]: "sent (xs @ ys) = sent xs @ sent ys"
  by (induction xs rule: sent.induct) auto

lemma received_append [simp]: "received (xs @ ys) = received xs @ received ys"
  by (induction xs rule: received.induct) auto

lemma pending_append [simp]: "pending (xs @ ys) = pending xs @ pending ys"
  by (induction xs rule: pending.induct) auto

text \<open>The interrupt enable register as the hardware holds it: the line control register's top bit
  makes offset 1 the divisor latch.\<close>

fun hw_step :: "bool \<times> byte \<Rightarrow> io_event \<Rightarrow> bool \<times> byte" where
  "hw_step (dlab, ier) (Wr off v) =
     (if off = LCR then (v AND LCR_DLAB \<noteq> 0, ier)
      else if off = IER_DLM \<and> \<not> dlab then (dlab, v) else (dlab, ier))"
| "hw_step (dlab, ier) (Rd off b) = (dlab, ier)"

definition hw :: "bool \<times> byte \<Rightarrow> io_event list \<Rightarrow> bool \<times> byte" where
  "hw h0 tr = foldl hw_step h0 tr"

lemma hw_append [simp]: "hw h0 (tr @ es) = hw (hw h0 tr) es"
  by (simp add: hw_def)

lemma hw_simps [simp]:
  "hw h [] = h"
  "hw h (Rd off b # es) = hw h es"
  "hw (dlab, ier) (Wr off v # es) = hw (hw_step (dlab, ier) (Wr off v)) es"
  by (cases h; simp add: hw_def)+

text \<open>What a register access of an interrupt service means for the receive queue and the counters.\<close>

fun isr_view :: "byte list \<times> error_counters \<Rightarrow> io_event \<Rightarrow> byte list \<times> error_counters" where
  "isr_view (rx, e) (Rd off b) =
     (if off = RBR_THR_DLL then
        (accept RING_CAPACITY rx b,
         if length rx < RING_CAPACITY then e
         else e\<lparr>rx_software_overrun_bytes := sat_inc (rx_software_overrun_bytes e)\<rparr>)
      else if off = LSR then (rx, account_errors b e)
      else if off = MSR then
        (rx, e\<lparr>unexpected_modem_status := sat_inc (unexpected_modem_status e)\<rparr>)
      else (rx, e))"
| "isr_view (rx, e) (Wr off v) = (rx, e)"

definition sat_of :: "nat \<Rightarrow> 'a::len word" where
  "sat_of n = word_of_nat (min n (2 ^ LENGTH('a) - 1))"

lemma unat_sat_of: "unat (sat_of n :: 'a::len word) = min n (2 ^ LENGTH('a) - 1)"
  by (simp add: sat_of_def unat_of_nat min.strict_coboundedI2)

lemma unat_max_word: "unat (- 1 :: 'a::len word) = 2 ^ LENGTH('a) - 1"
  by (simp add: unsigned_minus_1_eq_mask mask_eq_exp_minus_1)

lemma unat_sat_inc: "unat (sat_inc (w :: 'a::len word)) = min (unat w + 1) (2 ^ LENGTH('a) - 1)"
proof (cases "w = - 1")
  case True
  then show ?thesis by (simp add: sat_inc_def unat_max_word)
next
  case False
  then have "unat w \<noteq> 2 ^ LENGTH('a) - 1" by (metis unat_max_word word_unat_eq_iff)
  moreover have "unat w < 2 ^ LENGTH('a)" by (rule unsigned_less)
  ultimately have "unat w + 1 < 2 ^ LENGTH('a)" by linarith
  with False show ?thesis by (simp add: sat_inc_def unat_word_ariths unsigned_1)
qed

lemma sat_inc_of [simp]: "sat_inc (sat_of n) = sat_of (Suc n)"
  by (simp add: word_unat_eq_iff unat_sat_inc unat_sat_of)

lemma sat_of_0 [simp]: "sat_of 0 = 0"
  by (simp add: sat_of_def)

subsection \<open>Weakest preconditions of register and ring access\<close>

text \<open>The device answers a read with any byte.\<close>

lemma wp_reg_read:
  "(\<And>b d. Q b (u\<lparr>u_io := (d, trace u @ [Rd off b])\<rparr>)) \<Longrightarrow> wp (reg_read (logged io) off) Q E u"
  by (auto simp: wp_def reg_read_def logged_def split: prod.splits)

lemma wp_reg_write:
  "(\<And>d. Q () (u\<lparr>u_io := (d, trace u @ [Wr off v])\<rparr>)) \<Longrightarrow> wp (reg_write (logged io) off v) Q E u"
  by (auto simp: wp_def reg_write_def logged_def split: prod.splits)

lemma wp_fail:
  "(\<And>d. E e (u\<lparr>u_io := (d, trace u @ [Wr IER_DLM 0]), u_state := Core_Failed e\<rparr>)) \<Longrightarrow>
     wp (fail (logged io) e) Q E u"
  by (simp add: fail_def wp_simps) (rule wp_reg_write, simp)

lemma wp_account_line_status [wp_simps]:
  "wp (account_line_status b) Q E = (\<lambda>u. Q () (u\<lparr>u_errors := account_errors b (u_errors u)\<rparr>))"
  by (simp add: account_line_status_def wp_simps)

lemma wp_rx_push:
  assumes "ring_wf (u_rx u)"
    and "\<And>r. ring_wf r \<Longrightarrow> ring_cont r = accept RING_CAPACITY (ring_cont (u_rx u)) b \<Longrightarrow>
           Q (ring_len (u_rx u) < RING_CAPACITY) (u\<lparr>u_rx := r\<rparr>)"
  shows "wp (rx_push b) Q E u"
proof -
  from assms(1) obtain r where "ring_push b (u_rx u) = (Ok (ring_len (u_rx u) < RING_CAPACITY, r) ::
      (core_error, bool \<times> ring) res)" "ring_wf r"
      "ring_cont r = accept RING_CAPACITY (ring_cont (u_rx u)) b"
    by (rule rq.push_accept [where b = b]) simp
  with assms(2) show ?thesis by (simp add: rx_push_def wp_simps)
qed

lemma wp_tx_push:
  assumes "ring_wf (u_tx u)"
    and "\<And>r. ring_wf r \<Longrightarrow> ring_cont r = accept RING_CAPACITY (ring_cont (u_tx u)) b \<Longrightarrow>
           Q (ring_len (u_tx u) < RING_CAPACITY) (u\<lparr>u_tx := r\<rparr>)"
  shows "wp (tx_push b) Q E u"
proof -
  from assms(1) obtain r where "ring_push b (u_tx u) = (Ok (ring_len (u_tx u) < RING_CAPACITY, r) ::
      (core_error, bool \<times> ring) res)" "ring_wf r"
      "ring_cont r = accept RING_CAPACITY (ring_cont (u_tx u)) b"
    by (rule rq.push_accept [where b = b]) simp
  with assms(2) show ?thesis by (simp add: tx_push_def wp_simps)
qed

lemma wp_tx_pop:
  assumes "ring_wf (u_tx u)"
    and "\<And>r. ring_wf r \<Longrightarrow> ring_cont r = tl (ring_cont (u_tx u)) \<Longrightarrow>
           Q (opt_hd (ring_cont (u_tx u))) (u\<lparr>u_tx := r\<rparr>)"
  shows "wp tx_pop Q E u"
proof -
  from assms(1) obtain r where "ring_pop (u_tx u) = (Ok (opt_hd (ring_cont (u_tx u)), r) ::
      (core_error, byte option \<times> ring) res)" "ring_wf r" "ring_cont r = tl (ring_cont (u_tx u))"
    by (rule rq.pop_hd)
  with assms(2) show ?thesis by (simp add: tx_pop_def wp_simps)
qed

subsection \<open>The contract of an interrupt service\<close>

text \<open>Since \<open>u0\<close> the accesses \<open>ev\<close> happened, and they explain the core's state.\<close>

definition explained ::
  "('io \<times> io_event list) uart \<Rightarrow> io_event list \<Rightarrow> ('io \<times> io_event list) uart \<Rightarrow> bool" where
  "explained u0 ev u \<longleftrightarrow>
     ring_wf (u_rx u) \<and> ring_wf (u_tx u) \<and> trace u = trace u0 @ ev \<and>
     ring_cont (u_tx u0) = sent ev @ ring_cont (u_tx u) \<and>
     foldl isr_view (ring_cont (u_rx u0), u_errors u0) ev = (ring_cont (u_rx u), u_errors u)"

definition counted :: "interrupt_work \<Rightarrow> io_event list \<Rightarrow> bool" where
  "counted w ev \<longleftrightarrow> work_causes w = sat_of (length (pending ev)) \<and>
     work_received w = sat_of (length (received ev)) \<and>
     work_transmitted w = sat_of (length (sent ev))"

text \<open>A failed service has switched the interrupts off; it read a cause it does not know, or more
  causes or bytes than the bound.\<close>

definition failed_isr ::
  "('io \<times> io_event list) uart \<Rightarrow> bool \<times> byte \<Rightarrow> core_error \<Rightarrow> ('io \<times> io_event list) uart \<Rightarrow> bool" where
  "failed_isr u0 h0 e u \<longleftrightarrow>
     u_state u = Core_Failed e \<and> hw h0 (trace u) = (False, 0) \<and>
     (\<exists>ev. explained u0 (ev @ [Wr IER_DLM 0]) u \<and>
       (case e of
          UnknownInterruptCause iir \<Rightarrow> last ev = Rd IIR_FCR iir \<and> iir AND IIR_NO_INTERRUPT = 0 \<and>
            iir AND IIR_CAUSE_MASK \<notin> {IIR_RLSI, IIR_RDI, IIR_RX_TIMEOUT, IIR_THRI, IIR_MSI}
        | DrainLimit \<Rightarrow> DRAIN_LIMIT < length (pending ev) \<or> DRAIN_LIMIT \<le> length (received ev)))"

text \<open>Along a service: the state explained so far, the work counted, the register kept.\<close>

definition serving ::
  "('io \<times> io_event list) uart \<Rightarrow> bool \<times> byte \<Rightarrow> byte \<Rightarrow> nat \<Rightarrow> nat \<Rightarrow> interrupt_work \<Rightarrow>
     ('io \<times> io_event list) uart \<Rightarrow> bool" where
  "serving u0 h0 ier p r w u \<longleftrightarrow>
     u_state u = Core_Active \<and> hw h0 (trace u) = (False, ier) \<and>
     (\<exists>ev. explained u0 ev u \<and> counted w ev \<and> p \<le> length (pending ev) \<and> r \<le> length (received ev))"

lemma serving_mono: "serving u0 h0 ier p r w u \<Longrightarrow> r' \<le> r \<Longrightarrow> serving u0 h0 ier p r' w u"
  by (fastforce simp: serving_def)

text \<open>One access, together with the change of the state it announces, continues a service.\<close>

lemma serving_extend:
  assumes "serving u0 h0 ier p r w u" and "trace u' = trace u @ [x]" and "u_state u' = Core_Active"
    and "ring_wf (u_rx u')" and "ring_wf (u_tx u')"
    and "ring_cont (u_tx u) = sent [x] @ ring_cont (u_tx u')"
    and "isr_view (ring_cont (u_rx u), u_errors u) x = (ring_cont (u_rx u'), u_errors u')"
    and "hw (False, ier) [x] = (False, ier')"
    and "work_causes w' = (sat_inc ^^ length (pending [x])) (work_causes w)"
    and "work_received w' = (sat_inc ^^ length (received [x])) (work_received w)"
    and "work_transmitted w' = (sat_inc ^^ length (sent [x])) (work_transmitted w)"
  shows "serving u0 h0 ier' (p + length (pending [x])) (r + length (received [x])) w' u'"
proof -
  have sat: "(sat_inc ^^ k) (sat_of n) = sat_of (n + k)" for k n
    by (induction k) simp_all
  from assms(1) obtain ev where ev: "explained u0 ev u" "counted w ev"
      "p \<le> length (pending ev)" "r \<le> length (received ev)" "hw h0 (trace u) = (False, ier)"
    by (auto simp: serving_def)
  have "explained u0 (ev @ [x]) u'"
    using ev(1) assms(2,4-7) by (simp add: explained_def)
  moreover have "counted w' (ev @ [x])"
    using ev(2) assms(9-11) by (simp only: counted_def sat) (simp del: pending.simps received.simps sent.simps)
  moreover have "hw h0 (trace u') = (False, ier')"
    using assms(2,8) ev(5) by (simp only: hw_append)
  ultimately show ?thesis using ev(3,4) assms(3) unfolding serving_def by (auto intro!: exI [of _ "ev @ [x]"] simp del: pending.simps received.simps sent.simps)
qed

lemma serving_wf:
  "serving u0 h0 ier p r w u \<Longrightarrow> ring_wf (u_rx u) \<and> ring_wf (u_tx u) \<and> u_state u = Core_Active"
  by (auto simp: serving_def explained_def)

lemma isr_fail:
  assumes "serving u0 h0 ier p r w u"
    and "DRAIN_LIMIT < p \<or> DRAIN_LIMIT \<le> r"
  shows "wp (fail (logged io) DrainLimit) Q (failed_isr u0 h0) u"
proof (rule wp_fail)
  fix d
  from assms(1) obtain ev where "explained u0 ev u" "p \<le> length (pending ev)"
      "r \<le> length (received ev)" "hw h0 (trace u) = (False, ier)"
    by (auto simp: serving_def)
  with assms(2) show "failed_isr u0 h0 DrainLimit
      (u\<lparr>u_io := (d, trace u @ [Wr IER_DLM 0]), u_state := Core_Failed DrainLimit\<rparr>)"
    by (auto simp: failed_isr_def explained_def reg_defs intro!: exI [of _ ev])
qed

lemma isr_read_lsr:
  assumes "serving u0 h0 ier p r w u"
    and "\<And>b u'. serving u0 h0 ier p r w u' \<Longrightarrow> wp (k b) Q E u'"
  shows "wp (abind (reg_read (logged io) LSR) (\<lambda>lsr. abind (account_line_status lsr) (\<lambda>_. k lsr))) Q E u"
  unfolding wp_simps
proof (rule wp_reg_read, rule assms(2))
  fix b d
  show "serving u0 h0 ier p r w ((u\<lparr>u_io := (d, trace u @ [Rd LSR b])\<rparr>)
      \<lparr>u_errors := account_errors b (u_errors (u\<lparr>u_io := (d, trace u @ [Rd LSR b])\<rparr>))\<rparr>)"
    using serving_extend [OF assms(1), where x = "Rd LSR b" and w' = w and ier' = ier]
      serving_wf [OF assms(1)] by (simp add: reg_defs)
qed

lemma isr_receive_one:
  assumes "serving u0 h0 ier p r w u"
  shows "wp (receive_one (logged io) w) (serving u0 h0 ier p (Suc r)) E u"
  unfolding receive_one_def wp_simps
proof (rule wp_reg_read, rule wp_rx_push)
  note wf = serving_wf [OF assms]
  fix b d q
  let ?u = "u\<lparr>u_io := (d, trace u @ [Rd RBR_THR_DLL b])\<rparr>"
  show "ring_wf (u_rx ?u)" using wf by simp
  assume "ring_wf q" "ring_cont q = accept RING_CAPACITY (ring_cont (u_rx ?u)) b"
  then show "serving u0 h0 ier p (Suc r) (w\<lparr>work_received := sat_inc (work_received w)\<rparr>)
      (if ring_len (u_rx ?u) < RING_CAPACITY then ?u\<lparr>u_rx := q\<rparr>
       else ?u\<lparr>u_rx := q, u_errors := (u_errors (?u\<lparr>u_rx := q\<rparr>))
         \<lparr>rx_software_overrun_bytes :=
            sat_inc (rx_software_overrun_bytes (u_errors (?u\<lparr>u_rx := q\<rparr>)))\<rparr>\<rparr>)"
    using serving_extend [OF assms, where x = "Rd RBR_THR_DLL b" and ier' = ier] wf
    by (simp add: reg_defs)
qed

lemma isr_line_status:
  assumes "serving u0 h0 ier p r w u"
  shows "wp (handle_line_status (logged io) w) (serving u0 h0 ier p r) E u"
  unfolding handle_line_status_def
  by (rule isr_read_lsr [OF assms])
    (auto simp: wp_simps intro!: wp_mono [OF isr_receive_one] elim: serving_mono)

lemma isr_drain_receive_loop:
  assumes "serving u0 h0 ier p r w u" "DRAIN_LIMIT \<le> r + n"
  shows "wp (drain_receive_loop (logged io) n w) (serving u0 h0 ier p 0) (failed_isr u0 h0) u"
  using assms
proof (induction n arbitrary: r w u)
  case 0
  then show ?case
    unfolding drain_receive_loop.simps
    by (intro isr_read_lsr [OF 0(1)]) (auto simp: wp_simps intro: isr_fail serving_mono)
next
  case (Suc n)
  have "wp (abind (receive_one (logged io) w) (drain_receive_loop (logged io) n))
      (serving u0 h0 ier p 0) (failed_isr u0 h0) u'" if "serving u0 h0 ier p r w u'" for u'
    unfolding wp_simps
    by (rule wp_mono [OF isr_receive_one [OF that]]) (use Suc in auto)
  with Suc.prems(1) show ?case
    unfolding drain_receive_loop.simps
    by (intro isr_read_lsr) (auto simp: wp_simps intro: serving_mono)
qed

lemma isr_fill_transmit_loop:
  assumes "serving u0 h0 ier p r w u"
  shows "wp (fill_transmit_loop (logged io) n w)
    (\<lambda>w' u'. serving u0 h0 ier p r w' u' \<and> (ring_cont (u_tx u) = [] \<longrightarrow> ring_cont (u_tx u') = [])) E u"
  using assms
proof (induction n arbitrary: w u)
  case 0
  then show ?case by (simp add: wp_simps)
next
  case (Suc n)
  note wf = serving_wf [OF Suc.prems]
  show ?case
    unfolding fill_transmit_loop.simps wp_simps
  proof (rule wp_tx_pop)
    show "ring_wf (u_tx u)" using wf by simp
    fix q assume q: "ring_wf q" "ring_cont q = tl (ring_cont (u_tx u))"
    show "wp (case opt_hd (ring_cont (u_tx u)) of None \<Rightarrow> aret w
       | Some b \<Rightarrow> abind (reg_write (logged io) RBR_THR_DLL b)
           (\<lambda>_. fill_transmit_loop (logged io) n
             (w\<lparr>work_transmitted := sat_inc (work_transmitted w)\<rparr>)))
       (\<lambda>w' u'. serving u0 h0 ier p r w' u' \<and> (ring_cont (u_tx u) = [] \<longrightarrow> ring_cont (u_tx u') = []))
       E (u\<lparr>u_tx := q\<rparr>)"
    proof (cases "ring_cont (u_tx u)")
      case Nil
      with q wf Suc.prems show ?thesis by (simp add: wp_simps serving_def explained_def)
    next
      case (Cons b bs)
      then have "wp (fill_transmit_loop (logged io) n
            (w\<lparr>work_transmitted := sat_inc (work_transmitted w)\<rparr>))
          (\<lambda>w' u'. serving u0 h0 ier p r w' u') E
          (u\<lparr>u_tx := q, u_io := (d, trace u @ [Wr RBR_THR_DLL b])\<rparr>)" for d
        using serving_extend [OF Suc.prems, where x = "Wr RBR_THR_DLL b" and ier' = ier] wf q
        by (intro wp_mono [OF Suc.IH]) (simp_all add: reg_defs)
      with Cons show ?thesis by (simp add: wp_simps) (rule wp_reg_write, simp)
    qed
  qed
qed

text \<open>The transmit interrupt is enabled exactly while bytes wait in the transmit ring.\<close>

definition ier_active :: "('io \<times> io_event list) uart \<Rightarrow> byte" where
  "ier_active u = (if ring_cont (u_tx u) = [] then IER_RDI_RLSI else IER_RDI_RLSI OR IER_THRI)"

definition in_service ::
  "('io \<times> io_event list) uart \<Rightarrow> bool \<times> byte \<Rightarrow> nat \<Rightarrow> interrupt_work \<Rightarrow>
     ('io \<times> io_event list) uart \<Rightarrow> bool" where
  "in_service u0 h0 p w u \<longleftrightarrow> serving u0 h0 (ier_active u) p 0 w u"

lemma isr_fill_transmit:
  assumes "in_service u0 h0 p w u"
  shows "wp (fill_transmit (logged io) w) (in_service u0 h0 p) E u"
  unfolding fill_transmit_def wp_simps
proof (rule wp_mono [OF isr_fill_transmit_loop [OF assms [unfolded in_service_def]]])
  fix w' u'
  assume a: "serving u0 h0 (ier_active u) p 0 w' u' \<and>
    (ring_cont (u_tx u) = [] \<longrightarrow> ring_cont (u_tx u') = [])"
  then have s: "serving u0 h0 (ier_active u) p 0 w' u'" by simp
  show "wp (if ring_is_empty (u_tx u') then abind (reg_write (logged io) IER_DLM IER_RDI_RLSI) (\<lambda>_. aret w')
            else aret w') (in_service u0 h0 p) E u'"
  proof (cases "ring_is_empty (u_tx u')")
    case True
    have "in_service u0 h0 p w' (u'\<lparr>u_io := (d, trace u' @ [Wr IER_DLM IER_RDI_RLSI])\<rparr>)" for d
      using serving_extend [OF s, where x = "Wr IER_DLM IER_RDI_RLSI" and w' = w' and ier' = IER_RDI_RLSI]
        serving_wf [OF s] True
      by (simp add: in_service_def ier_active_def ring_cont_empty reg_defs)
    with True show ?thesis by (simp add: wp_simps) (rule wp_reg_write, simp)
  next
    case False
    with a show ?thesis
      by (auto simp: wp_simps in_service_def ier_active_def ring_cont_empty)
  qed
qed

text \<open>The receive side leaves the transmit ring alone.\<close>

definition keeps_tx :: "('io, 'a) uart_m \<Rightarrow> bool" where
  "keeps_tx m \<longleftrightarrow> (\<forall>u. u_tx (snd (m u)) = u_tx u)"

lemma keeps_tx_intros:
  "keeps_tx m \<Longrightarrow> (\<And>a. keeps_tx (k a)) \<Longrightarrow> keeps_tx (abind m k)"
  "keeps_tx (aret x)" "keeps_tx (afail e)" "keeps_tx (aread f)"
  "keeps_tx (reg_read io off)" "keeps_tx (reg_write io off v)"
  "(\<And>u. u_tx (g u) = u_tx u) \<Longrightarrow> keeps_tx (amod g)"
  "keeps_tx m1 \<Longrightarrow> keeps_tx m2 \<Longrightarrow> keeps_tx (if c then m1 else m2)"
  by (auto simp: keeps_tx_def action_defs reg_read_def reg_write_def split: prod.splits res.splits;
      metis snd_conv)+

lemma keeps_tx_receive_one: "keeps_tx (receive_one io w)"
  unfolding receive_one_def rx_push_def
  by (auto intro!: keeps_tx_intros split: prod.splits)

lemma keeps_tx_line_status: "keeps_tx (handle_line_status io w)"
  unfolding handle_line_status_def account_line_status_def
  by (auto intro!: keeps_tx_intros keeps_tx_receive_one)

lemma keeps_tx_drain_loop: "keeps_tx (drain_receive_loop io n w)"
  by (induction n arbitrary: w)
    (auto simp: account_line_status_def fail_def intro!: keeps_tx_intros keeps_tx_receive_one)

lemma in_serviceI:
  assumes "keeps_tx m" "wp m (serving u0 h0 (ier_active u) p r) E u"
  shows "wp m (in_service u0 h0 p) E u"
proof -
  have "u_tx (snd (m u)) = u_tx u" using assms(1) by (simp add: keeps_tx_def)
  then show ?thesis using assms(2)
    by (auto simp: wp_def in_service_def ier_active_def split: prod.splits res.splits
        elim: serving_mono)
qed

lemma isr_modem_status:
  assumes "serving u0 h0 ier p r w u"
  shows "wp (modem_status (logged io) w) (serving u0 h0 ier p r) E u"
  unfolding modem_status_def wp_simps
proof (rule wp_reg_read)
  fix b d
  let ?u = "u\<lparr>u_io := (d, trace u @ [Rd MSR b])\<rparr>"
  show "serving u0 h0 ier p r w (?u\<lparr>u_errors := (u_errors ?u)\<lparr>unexpected_modem_status :=
      sat_inc (unexpected_modem_status (u_errors ?u))\<rparr>\<rparr>)"
    using serving_extend [OF assms, where x = "Rd MSR b" and w' = w and ier' = ier]
      serving_wf [OF assms] by (simp add: reg_defs)
qed

lemma keeps_tx_modem: "keeps_tx (modem_status io w)"
  unfolding modem_status_def by (auto intro!: keeps_tx_intros)

text \<open>An unknown cause: the identification read last is the one reported.\<close>

lemma isr_unknown:
  assumes "explained u0 (ev @ [Rd IIR_FCR iir]) u" "hw h0 (trace u) = (False, ier)"
    and "iir AND IIR_NO_INTERRUPT = 0"
    and "iir AND IIR_CAUSE_MASK \<notin> {IIR_RLSI, IIR_RDI, IIR_RX_TIMEOUT, IIR_THRI, IIR_MSI}"
  shows "wp (fail (logged io) (UnknownInterruptCause iir)) Q (failed_isr u0 h0) u"
proof (rule wp_fail)
  fix d
  show "failed_isr u0 h0 (UnknownInterruptCause iir)
      (u\<lparr>u_io := (d, trace u @ [Wr IER_DLM 0]), u_state := Core_Failed (UnknownInterruptCause iir)\<rparr>)"
    unfolding failed_isr_def using assms
    by (auto simp: explained_def reg_defs intro!: exI [of _ "ev @ [Rd IIR_FCR iir]"])
qed

lemma isr_serve_cause:
  assumes "in_service u0 h0 p w u" "explained u0 (ev @ [Rd IIR_FCR iir]) u"
    and "iir AND IIR_NO_INTERRUPT = 0"
  shows "wp (serve_cause (logged io) iir w) (in_service u0 h0 p) (failed_isr u0 h0) u"
proof -
  note s = assms(1) [unfolded in_service_def]
  have line: "wp (handle_line_status (logged io) w) (in_service u0 h0 p) (failed_isr u0 h0) u"
    by (rule in_serviceI [OF keeps_tx_line_status isr_line_status [OF s]])
  have drain: "wp (drain_receive (logged io) w) (in_service u0 h0 p) (failed_isr u0 h0) u"
    unfolding drain_receive_def
    by (rule in_serviceI [OF keeps_tx_drain_loop isr_drain_receive_loop [OF s]]) simp
  have modem: "wp (modem_status (logged io) w) (in_service u0 h0 p) (failed_isr u0 h0) u"
    by (rule in_serviceI [OF keeps_tx_modem isr_modem_status [OF s]])
  have "hw h0 (trace u) = (False, ier_active u)" using s by (simp add: serving_def)
  note unknown = isr_unknown [OF assms(2) this assms(3)]
  show ?thesis
    using line drain modem isr_fill_transmit [OF assms(1)] unknown
    unfolding serve_cause_def Let_def by (auto split: if_splits)
qed

text \<open>Reading the interrupt identification.\<close>

lemma in_service_iir:
  assumes "in_service u0 h0 p w u" and u': "u' = u\<lparr>u_io := (d, trace u @ [Rd IIR_FCR iir])\<rparr>"
  shows "iir AND IIR_NO_INTERRUPT \<noteq> 0 \<Longrightarrow> in_service u0 h0 p w u'"
    and "iir AND IIR_NO_INTERRUPT = 0 \<Longrightarrow>
      in_service u0 h0 (Suc p) (w\<lparr>work_causes := sat_inc (work_causes w)\<rparr>) u'"
    and "\<exists>ev. explained u0 (ev @ [Rd IIR_FCR iir]) u'"
proof -
  note s = assms(1) [unfolded in_service_def]
  note ext = serving_extend [OF s, where x = "Rd IIR_FCR iir" and ier' = "ier_active u"]
  have ier: "ier_active u' = ier_active u" by (simp add: u' ier_active_def)
  show "iir AND IIR_NO_INTERRUPT \<noteq> 0 \<Longrightarrow> in_service u0 h0 p w u'"
    using ext [of u' w] serving_wf [OF s] by (simp add: in_service_def ier) (simp add: u' reg_defs)
  show "iir AND IIR_NO_INTERRUPT = 0 \<Longrightarrow>
      in_service u0 h0 (Suc p) (w\<lparr>work_causes := sat_inc (work_causes w)\<rparr>) u'"
    using ext [of u' "w\<lparr>work_causes := sat_inc (work_causes w)\<rparr>"] serving_wf [OF s]
    by (simp add: in_service_def ier) (simp add: u' reg_defs)
  show "\<exists>ev. explained u0 (ev @ [Rd IIR_FCR iir]) u'"
    using s by (auto simp: serving_def explained_def u' reg_defs)
qed

text \<open>A completed service has seen the UART with no cause left.\<close>

definition quiet :: "('io \<times> io_event list) uart \<Rightarrow> bool" where
  "quiet u \<longleftrightarrow> (\<exists>tr b. trace u = tr @ [Rd IIR_FCR b] \<and> b AND IIR_NO_INTERRUPT \<noteq> 0)"

lemma isr_loop:
  assumes "in_service u0 h0 p w u" "DRAIN_LIMIT \<le> p + n"
  shows "wp (interrupt_loop (logged io) n w)
    (\<lambda>w' u'. in_service u0 h0 p w' u' \<and> quiet u') (failed_isr u0 h0) u"
  using assms
proof (induction n arbitrary: p w u)
  case 0
  show ?case
    unfolding interrupt_loop.simps wp_simps
  proof (rule wp_reg_read)
    fix b d
    let ?u = "u\<lparr>u_io := (d, trace u @ [Rd IIR_FCR b])\<rparr>"
    note iir = in_service_iir [OF 0(1), of ?u d b, OF refl]
    show "wp (if b AND IIR_NO_INTERRUPT \<noteq> 0 then aret w else fail (logged io) DrainLimit)
      (\<lambda>w' u'. in_service u0 h0 p w' u' \<and> quiet u') (failed_isr u0 h0) ?u"
      using iir(1) isr_fail [OF iir(2) [unfolded in_service_def]] 0(2)
      by (auto simp: wp_simps quiet_def)
  qed
next
  case (Suc n)
  show ?case
    unfolding interrupt_loop.simps wp_simps
  proof (rule wp_reg_read)
    fix b d
    let ?u = "u\<lparr>u_io := (d, trace u @ [Rd IIR_FCR b])\<rparr>"
    let ?w = "w\<lparr>work_causes := sat_inc (work_causes w)\<rparr>"
    note iir = in_service_iir [OF Suc.prems(1), of ?u d b, OF refl]
    from iir(3) obtain ev where ev: "explained u0 (ev @ [Rd IIR_FCR b]) ?u" by blast
    have less: "in_service u0 h0 p w' u'" if "in_service u0 h0 (Suc p) w' u'" for w' u'
      using that by (fastforce simp: in_service_def serving_def)
    have "wp (abind (serve_cause (logged io) b ?w) (interrupt_loop (logged io) n))
        (\<lambda>w' u'. in_service u0 h0 p w' u' \<and> quiet u') (failed_isr u0 h0) ?u"
      if "b AND IIR_NO_INTERRUPT = 0"
      unfolding wp_simps
    proof (rule wp_mono [OF isr_serve_cause [OF iir(2) [OF that] ev that]])
      fix w' u' assume "in_service u0 h0 (Suc p) w' u'"
      then have "wp (interrupt_loop (logged io) n w')
          (\<lambda>w' u'. in_service u0 h0 (Suc p) w' u' \<and> quiet u') (failed_isr u0 h0) u'"
        using Suc.prems(2) by (intro Suc.IH) simp_all
      then show "wp (interrupt_loop (logged io) n w')
          (\<lambda>w' u'. in_service u0 h0 p w' u' \<and> quiet u') (failed_isr u0 h0) u'"
        by (rule wp_mono) (auto intro: less)
    qed
    with iir(1) show "wp (if b AND IIR_NO_INTERRUPT \<noteq> 0 then aret w
          else abind (serve_cause (logged io) b ?w) (interrupt_loop (logged io) n))
        (\<lambda>w' u'. in_service u0 h0 p w' u' \<and> quiet u') (failed_isr u0 h0) ?u"
      by (auto simp: wp_simps quiet_def)
  qed
qed

text \<open>One interrupt service of an active core.\<close>

lemma interrupt_explained:
  assumes "u_state u = Core_Active" "ring_wf (u_rx u)" "ring_wf (u_tx u)"
    and "hw h0 (trace u) = (False, ier_active u)"
  shows "wp (handle_interrupt (logged io))
    (\<lambda>w u'. in_service u h0 0 w u' \<and> quiet u') (failed_isr u h0) u"
proof -
  have "in_service u h0 0 interrupt_work_default u"
    using assms
    by (auto simp: in_service_def serving_def explained_def counted_def interrupt_work_default_def
        intro!: exI [of _ "[]"])
  from isr_loop [OF this, of DRAIN_LIMIT] show ?thesis
    using assms(1) by (simp add: handle_interrupt_def wp_simps)
qed

end
