(* ===== verification/Uart16550Props.thy ===== *)
theory Uart16550Props
  imports Uart16550Trace "HOL-Library.Sublist"
begin

text \<open>
  Runs of the UART core: any sequence of its operations after a first initialization, on any
  device. A ghost record keeps what the client handed over and took off since the last
  initialization; the recorded register accesses are compared with it.
\<close>

subsection \<open>Runs\<close>

datatype uart_op =
    U_Initialize | U_Activate | U_Disable | U_InterruptsDisabled | U_TransportEmpty
  | U_Enqueue "byte list" | U_Interrupt | U_Dequeue | U_Discard nat
  | U_Copy "byte list" | U_CopyFrom nat "byte list"

record uart_client =
  c_base :: nat
  c_accepted :: "byte list"
  c_taken :: "byte list"
  c_overrun :: u32

type_synonym 'io uart_sys = "uart_client \<times> ('io \<times> io_event list) uart"

text \<open>An operation ends in a value, in an error that leaves the core failed, or in a panic, which
  ends the run.\<close>

definition finish ::
  "(core_error, 'a) res \<times> ('io \<times> io_event list) uart \<Rightarrow>
     ('a \<Rightarrow> uart_client) \<Rightarrow> uart_client \<Rightarrow> 'io uart_sys option" where
  "finish r f c = (case r of (Ok a, u') \<Rightarrow> Some (f a, u') | (Err e, u') \<Rightarrow> Some (c, u') | (Panic, u') \<Rightarrow> None)"

definition fresh_client :: "('io \<times> io_event list) uart \<Rightarrow> uart_client" where
  "fresh_client u = \<lparr>c_base = length (trace u), c_accepted = [], c_taken = [],
     c_overrun = rx_software_overrun_bytes (u_errors u)\<rparr>"

fun uart_step :: "'io reg_io \<Rightarrow> uart_op \<Rightarrow> 'io uart_sys \<Rightarrow> 'io uart_sys option" where
  "uart_step io U_Initialize (c, u) =
     (let r = initialize_quiesced (logged io) u; c' = fresh_client (snd r) in finish r (\<lambda>_. c') c')"
| "uart_step io U_Activate (c, u) = finish (activate_interrupts (logged io) u) (\<lambda>_. c) c"
| "uart_step io U_Disable (c, u) = finish (disable_interrupts (logged io) u) (\<lambda>_. c) c"
| "uart_step io U_InterruptsDisabled (c, u) = finish (interrupts_disabled (logged io) u) (\<lambda>_. c) c"
| "uart_step io U_TransportEmpty (c, u) = finish (transport_empty (logged io) u) (\<lambda>_. c) c"
| "uart_step io (U_Enqueue bs) (c, u) =
     finish (enqueue_tx (logged io) bs u) (\<lambda>n. c\<lparr>c_accepted := c_accepted c @ take n bs\<rparr>) c"
| "uart_step io U_Interrupt (c, u) = finish (handle_interrupt (logged io) u) (\<lambda>_. c) c"
| "uart_step io U_Dequeue (c, u) =
     finish (dequeue_rx u) (\<lambda>b. c\<lparr>c_taken := c_taken c @ (case b of None \<Rightarrow> [] | Some x \<Rightarrow> [x])\<rparr>) c"
| "uart_step io (U_Discard n) (c, u) =
     finish (discard_rx n u) (\<lambda>k. c\<lparr>c_taken := c_taken c @ take k (ring_cont (u_rx u))\<rparr>) c"
| "uart_step io (U_Copy out) (c, u) = finish (copy_rx out u) (\<lambda>_. c) c"
| "uart_step io (U_CopyFrom off out) (c, u) = finish (copy_rx_from off out u) (\<lambda>_. c) c"

fun uart_steps :: "'io reg_io \<Rightarrow> uart_op list \<Rightarrow> 'io uart_sys \<Rightarrow> 'io uart_sys option" where
  "uart_steps io [] s = Some s"
| "uart_steps io (op # ops) s =
     (case uart_step io op s of None \<Rightarrow> None | Some s' \<Rightarrow> uart_steps io ops s')"

definition uart_run :: "'io reg_io \<Rightarrow> 'io \<Rightarrow> uart_op list \<Rightarrow> 'io uart_sys option" where
  "uart_run io dev ops =
     uart_steps io (U_Initialize # ops)
       (\<lparr>c_base = 0, c_accepted = [], c_taken = [], c_overrun = 0\<rparr>, uart_new (dev, []))"

subsection \<open>The invariant\<close>

definition ier_for :: "('io \<times> io_event list) uart \<Rightarrow> byte" where
  "ier_for u = (if u_state u = Core_Active then ier_active u else 0)"

text \<open>Of the bytes \<open>rs\<close> read from the device the bytes \<open>ys\<close> were kept; the counter grew by the
  number of the others.\<close>

definition kept :: "u32 \<Rightarrow> byte list \<Rightarrow> byte list \<Rightarrow> u32 \<Rightarrow> bool" where
  "kept n0 rs ys n \<longleftrightarrow> subseq ys rs \<and>
     unat n = min (unat n0 + (length rs - length ys)) (2 ^ 32 - 1)"

definition uart_streams :: "uart_client \<Rightarrow> ('io \<times> io_event list) uart \<Rightarrow> bool" where
  "uart_streams c u \<longleftrightarrow>
     (\<exists>tr ev. trace u = tr @ ev \<and> length tr = c_base c \<and>
       c_accepted c = sent ev @ ring_cont (u_tx u) \<and>
       kept (c_overrun c) (received ev) (c_taken c @ ring_cont (u_rx u))
         (rx_software_overrun_bytes (u_errors u)))"

definition uart_inv :: "bool \<times> byte \<Rightarrow> uart_client \<Rightarrow> ('io \<times> io_event list) uart \<Rightarrow> bool" where
  "uart_inv h0 c u \<longleftrightarrow> ring_wf (u_rx u) \<and> ring_wf (u_tx u) \<and>
     hw h0 (trace u) = (False, ier_for u) \<and> uart_streams c u"

lemma account_errors_overrun [simp]:
  "rx_software_overrun_bytes (account_errors b e) = rx_software_overrun_bytes e"
  by (simp add: account_errors_def Let_def)

lemma unat_u32_less: "unat (w :: u32) < 2 ^ 32"
proof -
  have "unat w < 2 ^ LENGTH(32)" by (rule unsigned_less)
  then show ?thesis by simp
qed

lemma isr_view_kept:
  assumes "foldl isr_view (rx, e) ev = (rx', e')"
  shows "\<exists>ys. rx' = rx @ ys \<and>
    kept (rx_software_overrun_bytes e) (received ev) ys (rx_software_overrun_bytes e')"
  using assms
proof (induction ev arbitrary: rx' e' rule: rev_induct)
  case Nil
  then show ?case using unat_u32_less [of "rx_software_overrun_bytes e'"] by (auto simp: kept_def)
next
  case (snoc x ev)
  obtain rx1 e1 where 1: "foldl isr_view (rx, e) ev = (rx1, e1)" by fastforce
  from snoc.IH [OF 1] obtain ys where ys: "rx1 = rx @ ys"
    "subseq ys (received ev)"
    "unat (rx_software_overrun_bytes e1) =
       min (unat (rx_software_overrun_bytes e) + (length (received ev) - length ys)) (2 ^ 32 - 1)"
    by (auto simp: kept_def)
  from ys(2) have len: "length ys \<le> length (received ev)" by (rule list_emb_length)
  from snoc.prems 1 have x: "isr_view (rx1, e1) x = (rx', e')" by simp
  have more: "subseq (ys @ [b]) (received ev @ [b])" "subseq ys (received ev @ [b])" for b
    using ys(2) by (auto intro: list_emb_append_mono list_emb_append2)
  show ?case
  proof (cases "\<exists>b. x = Rd RBR_THR_DLL b")
    case True
    then obtain b where b: "x = Rd RBR_THR_DLL b" by blast
    show ?thesis
    proof (cases "length rx1 < RING_CAPACITY")
      case True
      with x b ys have "rx' = rx @ (ys @ [b])" "e' = e1" by (auto simp: accept_def)
      with b ys more(1) show ?thesis by (intro exI [of _ "ys @ [b]"]) (simp add: kept_def)
    next
      case False
      with x b ys have "rx' = rx @ ys" "rx_software_overrun_bytes e' = sat_inc (rx_software_overrun_bytes e1)"
        by (auto simp: accept_def)
      with b ys more(2) len show ?thesis
        by (intro exI [of _ ys]) (simp add: kept_def unat_sat_inc min_def Suc_diff_le)
    qed
  next
    case False
    with x ys have "rx' = rx @ ys" "rx_software_overrun_bytes e' = rx_software_overrun_bytes e1"
        "received [x] = []"
      by (cases x; auto split: if_splits)+
    with ys show ?thesis by (auto simp: kept_def)
  qed
qed

lemma kept_append:
  assumes "kept n0 rs1 ys1 n1" "kept n1 rs2 ys2 n2"
  shows "kept n0 (rs1 @ rs2) (ys1 @ ys2) n2"
proof -
  have "length ys1 \<le> length rs1" "length ys2 \<le> length rs2"
    using assms by (auto simp: kept_def dest: list_emb_length)
  with assms show ?thesis by (auto simp: kept_def min_def intro: list_emb_append_mono)
qed

lemma streams_explained:
  assumes "uart_streams c u" "explained u ev u'"
  shows "uart_streams c u'"
proof -
  from assms(1) obtain tr ev0 where a: "trace u = tr @ ev0" "length tr = c_base c"
    "c_accepted c = sent ev0 @ ring_cont (u_tx u)"
    "kept (c_overrun c) (received ev0) (c_taken c @ ring_cont (u_rx u))
       (rx_software_overrun_bytes (u_errors u))"
    by (auto simp: uart_streams_def)
  from assms(2) obtain ys where "ring_cont (u_rx u') = ring_cont (u_rx u) @ ys"
    "kept (rx_software_overrun_bytes (u_errors u)) (received ev) ys
      (rx_software_overrun_bytes (u_errors u'))"
    using isr_view_kept by (fastforce simp: explained_def)
  with a kept_append [OF a(4)] assms(2) show ?thesis
    unfolding uart_streams_def explained_def
    by (intro exI [of _ tr] exI [of _ "ev0 @ ev"]) auto
qed

text \<open>Accesses that are neither bytes sent nor bytes received leave the streams as they are.\<close>

lemma streams_access:
  assumes "uart_streams c u" "trace u' = trace u @ ev" "sent ev = []" "received ev = []"
    and "ring_cont (u_tx u') = ring_cont (u_tx u)" "ring_cont (u_rx u') = ring_cont (u_rx u)"
    and "rx_software_overrun_bytes (u_errors u') = rx_software_overrun_bytes (u_errors u)"
  shows "uart_streams c u'"
proof -
  from assms(1) obtain tr ev0 where "trace u = tr @ ev0" "length tr = c_base c"
    "c_accepted c = sent ev0 @ ring_cont (u_tx u)"
    "kept (c_overrun c) (received ev0) (c_taken c @ ring_cont (u_rx u))
       (rx_software_overrun_bytes (u_errors u))"
    by (auto simp: uart_streams_def)
  with assms(2-) show ?thesis
    unfolding uart_streams_def by (intro exI [of _ tr] exI [of _ "ev0 @ ev"]) simp
qed

lemma finish_wp:
  assumes "wp m (\<lambda>a u'. P (f a) u') (\<lambda>_ u'. P c u') u"
  shows "\<exists>c' u'. finish (m u) f c = Some (c', u') \<and> P c' u'"
  using assms by (auto simp: wp_def finish_def split: prod.splits res.splits)

subsection \<open>Every operation keeps the invariant\<close>

fun is_read :: "io_event \<Rightarrow> bool" where
  "is_read (Rd off b) = True"
| "is_read (Wr off v) = False"

lemma hw_reads [simp]: "list_all is_read ev \<Longrightarrow> hw h ev = h"
  by (induction ev arbitrary: h rule: list.induct; simp) (metis hw_simps(2) is_read.elims(2))

definition init_writes :: "io_event list" where
  "init_writes = [Wr IER_DLM 0, Wr LCR LCR_DLAB, Wr RBR_THR_DLL 1, Wr IER_DLM 0, Wr LCR LCR_8N1,
     Wr IIR_FCR FCR_ENABLE_AND_CLEAR, Wr MCR MCR_OUT2_RTS_DTR]"

text \<open>The programming sequence, then reads only.\<close>

definition initialized ::
  "('io \<times> io_event list) uart \<Rightarrow> ('io \<times> io_event list) uart \<Rightarrow> bool" where
  "initialized u u' \<longleftrightarrow>
     (\<exists>ev. trace u' = trace u @ init_writes @ ev \<and> list_all is_read ev) \<and>
     u_rx u' = ring_new \<and> u_tx u' = ring_new \<and> u_state u' = Core_Quiesced"

lemma initialized_reads:
  assumes "initialized u v" "list_all is_read es"
  shows "initialized u (v\<lparr>u_io := (d, trace v @ es)\<rparr>)"
    and "initialized u (v\<lparr>u_errors := e, u_io := (d, trace v @ es)\<rparr>)"
  using assms unfolding initialized_def by (force intro!: exI [of _ "_ @ es"])+

lemma stale_drain_wp:
  assumes "initialized u v"
    and "\<And>u'. initialized u u' \<Longrightarrow> Q () u'"
    and "\<And>u' d. initialized u u' \<Longrightarrow>
       E DrainLimit (u'\<lparr>u_io := (d, trace u' @ [Wr IER_DLM 0]), u_state := Core_Failed DrainLimit\<rparr>)"
  shows "wp (stale_drain_loop (logged io) n) Q E v"
  using assms(1)
proof (induction n arbitrary: v)
  case 0
  have "E DrainLimit (v\<lparr>u_io := (d, trace v @ [Rd IIR_FCR b, Wr IER_DLM 0]),
      u_state := Core_Failed DrainLimit\<rparr>)" for b d
    using assms(3) [OF initialized_reads(1) [OF 0], of "[Rd IIR_FCR b]"] by simp
  with 0 show ?case
    unfolding stale_drain_loop.simps wp_simps
    by (intro wp_reg_read) (auto simp: wp_simps intro!: wp_fail assms(2) initialized_reads)
next
  case (Suc n)
  then show ?case
    unfolding stale_drain_loop.simps wp_simps
    by (intro wp_reg_read)
      (auto simp: wp_simps intro!: wp_reg_read assms(2) Suc.IH initialized_reads
        split del: if_split split: if_splits)
qed

lemma initialize_wp:
  assumes "\<And>u'. initialized u u' \<Longrightarrow> Q () u'"
    and "\<And>u' d. initialized u u' \<Longrightarrow>
       E DrainLimit (u'\<lparr>u_io := (d, trace u' @ [Wr IER_DLM 0]), u_state := Core_Failed DrainLimit\<rparr>)"
  shows "wp (initialize_quiesced (logged io)) Q E u"
proof -
  have "initialized u (u\<lparr>u_io := (d, trace u @ init_writes),
      u_rx := ring_new, u_tx := ring_new, u_state := Core_Quiesced\<rparr>)" for d
    by (simp add: initialized_def)
  then have "wp (stale_drain_loop (logged io) DRAIN_LIMIT) Q E (u\<lparr>u_io := (d, trace u @ init_writes),
      u_rx := ring_new, u_tx := ring_new, u_state := Core_Quiesced\<rparr>)" for d
    by (rule stale_drain_wp) (rule assms, assumption)+
  then show ?thesis
    unfolding initialize_quiesced_def stale_drain_def wp_simps init_writes_def
    by (intro wp_reg_write) simp
qed

lemma hw_init_writes: "hw (dlab, ier) init_writes = (False, if dlab then ier else 0)"
  by (simp add: init_writes_def reg_defs LCR_DLAB_def LCR_8N1_def)

lemma fresh_streams:
  "ring_cont (u_tx u) = [] \<Longrightarrow> ring_cont (u_rx u) = [] \<Longrightarrow> uart_streams (fresh_client u) u"
  using unat_u32_less [of "rx_software_overrun_bytes (u_errors u)"]
  unfolding uart_streams_def
  by (intro exI [of _ "trace u"] exI [of _ "[]"]) (simp add: fresh_client_def kept_def)

lemma step_initialize:
  assumes "\<not> fst (hw h0 (trace u))"
  shows "\<exists>c' u'. uart_step io U_Initialize (c, u) = Some (c', u') \<and> uart_inv h0 c' u'"
proof -
  have hw: "hw h0 (trace u @ init_writes) = (False, 0)"
    using assms by (cases "hw h0 (trace u)") (simp add: hw_init_writes)
  have "wp (initialize_quiesced (logged io))
      (\<lambda>_ u'. uart_inv h0 (fresh_client u') u') (\<lambda>_ u'. uart_inv h0 (fresh_client u') u') u"
  proof (rule initialize_wp)
    fix u' d assume i: "initialized u u'"
    then obtain ev where ev: "trace u' = (trace u @ init_writes) @ ev" "list_all is_read ev"
      by (auto simp: initialized_def)
    from ev hw have "hw h0 (trace u') = (False, 0)" by (simp only: hw_append) simp
    with i show "uart_inv h0 (fresh_client u') u'"
      by (auto simp: uart_inv_def initialized_def ier_for_def fresh_streams)
    let ?u = "u'\<lparr>u_io := (d, trace u' @ [Wr IER_DLM 0]), u_state := Core_Failed DrainLimit\<rparr>"
    from i \<open>hw h0 (trace u') = (False, 0)\<close> show "uart_inv h0 (fresh_client ?u) ?u"
      by (auto simp: uart_inv_def initialized_def ier_for_def reg_defs intro!: fresh_streams)
  qed
  then show ?thesis
    by (auto simp: Let_def wp_def finish_def split: prod.splits res.splits)
qed

text \<open>A single access that neither sends nor receives, with the state it announces.\<close>

lemma inv_access:
  assumes "uart_inv h0 c u" "trace u' = trace u @ [x]" "sent [x] = []" "received [x] = []"
    and "u_rx u' = u_rx u" "u_tx u' = u_tx u" "u_errors u' = u_errors u"
    and "hw (False, ier_for u) [x] = (False, ier_for u')"
  shows "uart_inv h0 c u'"
proof -
  from assms(1) have "uart_streams c u" by (simp add: uart_inv_def)
  from streams_access [OF this assms(2-4)] assms show ?thesis
    by (simp add: uart_inv_def del: sent.simps received.simps hw_simps)
qed

lemma inv_wf:
  "uart_inv h0 c u \<Longrightarrow> ring_wf (u_rx u) \<and> ring_wf (u_tx u) \<and> hw h0 (trace u) = (False, ier_for u)"
  by (simp add: uart_inv_def)

lemma step_reads:
  assumes "uart_inv h0 c u" "off \<noteq> RBR_THR_DLL"
  shows "wp (abind (reg_read (logged io) off) (\<lambda>b. aret (f b))) (\<lambda>_. uart_inv h0 c) E u"
  unfolding wp_simps
  by (rule wp_reg_read, rule inv_access [OF assms(1)])
    (use assms(2) in \<open>auto simp: ier_for_def ier_active_def\<close>)

lemma step_activate:
  assumes "uart_inv h0 c u"
  shows "wp (activate_interrupts (logged io)) (\<lambda>_. uart_inv h0 c) E u"
proof (cases "u_state u = Core_Quiesced")
  case True
  let ?ier = "if ring_is_empty (u_tx u) then IER_RDI_RLSI else IER_RDI_RLSI OR IER_THRI"
  have "uart_inv h0 c (u\<lparr>u_io := (d, trace u @ [Wr IER_DLM ?ier]), u_state := Core_Active\<rparr>)" for d
    by (rule inv_access [OF assms, where x = "Wr IER_DLM ?ier"])
      (simp_all add: reg_defs ier_for_def ier_active_def ring_cont_empty)
  with True show ?thesis
    by (simp add: activate_interrupts_def wp_simps) (auto intro!: wp_reg_write)
next
  case False
  with assms show ?thesis by (simp add: activate_interrupts_def wp_simps)
qed

lemma step_disable:
  assumes "uart_inv h0 c u"
  shows "wp (disable_interrupts (logged io)) (\<lambda>_. uart_inv h0 c) E u"
  unfolding disable_interrupts_def wp_simps
  by (rule wp_reg_write, rule inv_access [OF assms, where x = "Wr IER_DLM 0"])
    (simp_all add: reg_defs ier_for_def)

lemma step_interrupt:
  assumes "uart_inv h0 c u"
  shows "wp (handle_interrupt (logged io)) (\<lambda>_. uart_inv h0 c) (\<lambda>_. uart_inv h0 c) u"
proof (cases "u_state u = Core_Active")
  case True
  with assms have "hw h0 (trace u) = (False, ier_active u)" by (simp add: uart_inv_def ier_for_def)
  moreover have "uart_streams c u" "ring_wf (u_rx u)" "ring_wf (u_tx u)"
    using assms by (simp_all add: uart_inv_def)
  ultimately show ?thesis
    using True
    by (intro wp_mono [OF interrupt_explained])
      (auto simp: in_service_def serving_def failed_isr_def uart_inv_def ier_for_def explained_def
        intro: streams_explained [unfolded explained_def])
next
  case False
  with assms show ?thesis by (simp add: handle_interrupt_def wp_simps)
qed

lemma enqueue_loop_wp:
  assumes "ring_wf (u_tx u)"
    and "\<And>k q. k \<le> length bs \<Longrightarrow> ring_wf q \<Longrightarrow> ring_cont q = ring_cont (u_tx u) @ take k bs \<Longrightarrow>
           Q (n + k) (u\<lparr>u_tx := q\<rparr>)"
  shows "wp (enqueue_loop bs n) Q E u"
  using assms
proof (induction bs arbitrary: n u)
  case Nil
  from Nil.prems(2) [of 0 "u_tx u"] Nil.prems(1) show ?case by (simp add: wp_simps)
next
  case (Cons b bs)
  show ?case
    unfolding enqueue_loop.simps wp_simps
  proof (rule wp_tx_push [OF Cons.prems(1)])
    fix q assume q: "ring_wf q" "ring_cont q = accept RING_CAPACITY (ring_cont (u_tx u)) b"
    show "wp (if ring_len (u_tx u) < RING_CAPACITY then enqueue_loop bs (n + 1) else aret n) Q E
        (u\<lparr>u_tx := q\<rparr>)"
    proof (cases "ring_len (u_tx u) < RING_CAPACITY")
      case True
      have "Q (n + 1 + k) (u\<lparr>u_tx := q, u_tx := q'\<rparr>)"
        if "k \<le> length bs" "ring_wf q'" "ring_cont q' = ring_cont q @ take k bs" for k q'
        using Cons.prems(2) [of "Suc k" q'] that True q by (simp add: accept_def)
      with True q(1) show ?thesis by (simp add: Cons.IH)
    next
      case False
      with Cons.prems(2) [of 0 q] q show ?thesis by (simp add: accept_def wp_simps)
    qed
  qed
qed

lemma step_enqueue:
  assumes "uart_inv h0 c u"
  shows "wp (enqueue_tx (logged io) bs)
    (\<lambda>n. uart_inv h0 (c\<lparr>c_accepted := c_accepted c @ take n bs\<rparr>)) E u"
  unfolding enqueue_tx_def wp_simps
proof (rule enqueue_loop_wp)
  show "ring_wf (u_tx u)" using assms by (simp add: uart_inv_def)
  fix k q
  assume k: "k \<le> length bs" and q: "ring_wf q" "ring_cont q = ring_cont (u_tx u) @ take k bs"
  let ?u = "u\<lparr>u_tx := q\<rparr>" and ?c = "c\<lparr>c_accepted := c_accepted c @ take k bs\<rparr>"
  have st: "uart_streams ?c ?u" using assms q by (auto simp: uart_inv_def uart_streams_def)
  show "wp (if 0 + k \<noteq> 0 \<and> ring_is_empty (u_tx u) \<and> u_state ?u = Core_Active
      then abind (reg_write (logged io) IER_DLM (IER_RDI_RLSI OR IER_THRI)) (\<lambda>_. aret (0 + k))
      else aret (0 + k)) (\<lambda>n. uart_inv h0 (c\<lparr>c_accepted := c_accepted c @ take n bs\<rparr>)) E ?u"
  proof (cases "k \<noteq> 0 \<and> ring_is_empty (u_tx u) \<and> u_state u = Core_Active")
    case True
    then have "ring_cont q \<noteq> []" using q k by auto
    moreover have "uart_streams ?c (?u\<lparr>u_io := (d, trace u @ [Wr IER_DLM (IER_RDI_RLSI OR IER_THRI)])\<rparr>)" for d
      by (rule streams_access [OF st, of _ "[Wr IER_DLM (IER_RDI_RLSI OR IER_THRI)]"])
        (simp_all add: reg_defs)
    ultimately have
      "uart_inv h0 ?c (?u\<lparr>u_io := (d, trace u @ [Wr IER_DLM (IER_RDI_RLSI OR IER_THRI)])\<rparr>)" for d
      using True assms q(1) by (simp add: uart_inv_def ier_for_def ier_active_def reg_defs)
    with True show ?thesis by (simp add: wp_simps) (auto intro!: wp_reg_write)
  next
    case False
    then have "ier_for ?u = ier_for u" using q k by (auto simp: ier_for_def ier_active_def ring_cont_empty)
    with False assms st q(1) show ?thesis by (auto simp: wp_simps uart_inv_def)
  qed
qed

lemma step_dequeue:
  assumes "uart_inv h0 c u"
  shows "wp dequeue_rx
    (\<lambda>b. uart_inv h0 (c\<lparr>c_taken := c_taken c @ (case b of None \<Rightarrow> [] | Some x \<Rightarrow> [x])\<rparr>)) E u"
proof -
  from assms have wf: "ring_wf (u_rx u)" by (simp add: uart_inv_def)
  then obtain q where q: "ring_pop (u_rx u) = (Ok (opt_hd (ring_cont (u_rx u)), q) ::
      (core_error, byte option \<times> ring) res)" "ring_wf q" "ring_cont q = tl (ring_cont (u_rx u))"
    by (rule rq.pop_hd)
  with assms show ?thesis
    by (cases "ring_cont (u_rx u)")
      (simp_all add: dequeue_rx_def wp_simps uart_inv_def uart_streams_def ier_for_def ier_active_def)
qed

lemma step_discard:
  assumes "uart_inv h0 c u"
  shows "wp (discard_rx n)
    (\<lambda>k. uart_inv h0 (c\<lparr>c_taken := c_taken c @ take k (ring_cont (u_rx u))\<rparr>)) E u"
proof -
  obtain k q where kq: "ring_discard n (u_rx u) = (k, q)" by fastforce
  from assms have "ring_wf (u_rx u)" by (simp add: uart_inv_def)
  from rq.discard_prefix [OF this kq] kq assms show ?thesis
    by (simp add: wp_def discard_rx_def uart_inv_def uart_streams_def ier_for_def ier_active_def)
qed

lemma step_copies:
  assumes "uart_inv h0 c u"
  shows "wp (copy_rx out) (\<lambda>_. uart_inv h0 c) E u"
    and "wp (copy_rx_from off out) (\<lambda>_. uart_inv h0 c) E u"
  using assms
  by (simp_all add: copy_rx_def copy_rx_from_def wp_simps uart_inv_def ring_copy_to_cont
      ring_copy_from_cont Let_def)

lemma uart_step_inv:
  assumes "uart_inv h0 c u"
  shows "\<exists>c' u'. uart_step io op (c, u) = Some (c', u') \<and> uart_inv h0 c' u'"
proof (cases op)
  case U_Initialize
  then show ?thesis using step_initialize [of h0 u io c] inv_wf [OF assms] by simp
qed (use assms in \<open>auto simp: interrupts_disabled_def transport_empty_def reg_defs
      intro!: finish_wp step_activate step_disable step_reads step_interrupt step_enqueue
        step_dequeue step_discard step_copies simp del: uart_step.simps(1)\<close>)

lemma uart_steps_inv:
  "uart_inv h0 c u \<Longrightarrow> \<exists>c' u'. uart_steps io ops (c, u) = Some (c', u') \<and> uart_inv h0 c' u'"
proof (induction ops arbitrary: c u)
  case Nil
  then show ?case by simp
next
  case (Cons op ops)
  from uart_step_inv [OF Cons.prems] obtain c1 u1
    where "uart_step io op (c, u) = Some (c1, u1)" "uart_inv h0 c1 u1" by blast
  with Cons.IH show ?case by simp
qed

lemma uart_run_inv:
  "\<exists>c u. uart_run io dev ops = Some (c, u) \<and> uart_inv (False, ier0) c u"
proof -
  let ?c = "\<lparr>c_base = 0, c_accepted = [], c_taken = [], c_overrun = 0\<rparr>"
  let ?u = "uart_new (dev, [])"
  have "\<not> fst (hw (False, ier0) (trace ?u))" by (simp add: uart_new_def)
  from step_initialize [OF this, of io ?c] obtain c u
    where "uart_step io U_Initialize (?c, ?u) = Some (c, u)" "uart_inv (False, ier0) c u" by blast
  with uart_steps_inv [of "(False, ier0)" c u io ops] show ?thesis
    by (simp add: uart_run_def del: uart_step.simps)
qed

lemma run_cases:
  assumes "\<And>c u. uart_run io dev ops = Some (c, u) \<Longrightarrow> uart_inv (False, ier0) c u \<Longrightarrow> P c u"
  shows "case uart_run io dev ops of None \<Rightarrow> False | Some (c, u) \<Rightarrow> P c u"
  using uart_run_inv [of io dev ops ier0] assms by auto

lemma interrupt_at_invariant:
  assumes "uart_inv (False, ier0) c u"
  shows "if u_state u = Core_Active then
          case handle_interrupt (logged io) u of
            (Ok w, u') \<Rightarrow> u_state u' = Core_Active \<and> quiet u' \<and>
              (\<exists>ev. explained u ev u' \<and> counted w ev)
          | (Err e, u') \<Rightarrow> failed_isr u (False, ier0) e u'
          | (Panic, u') \<Rightarrow> False
        else handle_interrupt (logged io) u = (Ok interrupt_work_default, u)"
proof (cases "u_state u = Core_Active")
  case True
  with assms interrupt_explained [OF True, of "(False, ier0)" io] show ?thesis
    by (auto simp: uart_inv_def ier_for_def wp_def in_service_def serving_def
        split: prod.splits res.splits)
next
  case False
  then show ?thesis by (simp add: handle_interrupt_def action_defs)
qed

subsection \<open>Properties\<close>

text \<open>C13. The registers follow the state: whatever the device answers and whatever the client
  calls after a first initialization, no operation panics, both rings stay within their capacity,
  the divisor latch is closed, and the interrupt enable register the hardware holds is zero in a
  quiesced or failed core, receive and line status in an active one, with the transmit interrupt
  enabled exactly while bytes wait to be sent. The hardware starts with the divisor latch closed.\<close>

theorem uart_registers_follow_state:
  "case uart_run io dev ops of
     None \<Rightarrow> False
   | Some (c, u) \<Rightarrow>
       rx_len u \<le> RING_CAPACITY \<and> tx_len u \<le> RING_CAPACITY \<and>
       hw (False, ier0) (trace u) =
         (False, case u_state u of
            Core_Active \<Rightarrow> if tx_len u = 0 then IER_RDI_RLSI else IER_RDI_RLSI OR IER_THRI
          | _ \<Rightarrow> 0)"
proof (rule run_cases)
  fix c u assume "uart_inv (False, ier0) c u"
  then show "rx_len u \<le> RING_CAPACITY \<and> tx_len u \<le> RING_CAPACITY \<and>
       hw (False, ier0) (trace u) =
         (False, case u_state u of
            Core_Active \<Rightarrow> if tx_len u = 0 then IER_RDI_RLSI else IER_RDI_RLSI OR IER_THRI
          | _ \<Rightarrow> 0)"
    by (auto simp: uart_inv_def ring_wf_def rx_len_def tx_len_def ier_for_def ier_active_def
        ring_cont_empty [symmetric] ring_is_empty_def split: core_state.splits)
qed

text \<open>C12. Nothing accepted for transmission is lost, repeated or reordered: since the last
  initialization the bytes written to the transmit register, followed by the bytes still in the
  transmit ring, are exactly the bytes the enqueue operations said they took.\<close>

theorem uart_transmits_what_was_accepted:
  "case uart_run io dev ops of
     None \<Rightarrow> False
   | Some (c, u) \<Rightarrow> sent (drop (c_base c) (trace u)) @ ring_cont (u_tx u) = c_accepted c"
  by (rule run_cases) (auto simp: uart_inv_def uart_streams_def)

text \<open>C36. Received bytes keep their order, and every loss is counted: since the last
  initialization the bytes the client took off the receive ring, followed by those still in it, are
  a subsequence of the bytes read from the receive register, and the overrun counter has grown by
  the number of the bytes missing, up to its greatest value.\<close>

theorem uart_counts_every_lost_byte:
  "case uart_run io dev ops of
     None \<Rightarrow> False
   | Some (c, u) \<Rightarrow>
       (let rs = received (drop (c_base c) (trace u)); ys = c_taken c @ ring_cont (u_rx u)
        in subseq ys rs \<and>
           unat (rx_software_overrun_bytes (u_errors u)) =
             min (unat (c_overrun c) + (length rs - length ys)) (2 ^ 32 - 1))"
  by (rule run_cases [where ?ier0.0 = 0]) (auto simp: uart_inv_def uart_streams_def kept_def)

text \<open>C14. One interrupt service. A core that is not active does nothing. An active one ends
  with the UART reporting no cause left, or failed with the interrupts switched off, after an
  unknown cause or past the drain bound. Either way the accesses it made explain its state: the
  receive ring holds the bytes read as far as they fit, the bytes written left the transmit ring
  in order, every status byte read is in the counters, and the work reported is the number of
  causes, of bytes read and of bytes written, up to the width of its fields.\<close>

theorem uart_interrupt_contract:
  "case uart_run io dev ops of
     None \<Rightarrow> False
   | Some (c, u) \<Rightarrow>
       (if u_state u = Core_Active then
          case handle_interrupt (logged io) u of
            (Ok w, u') \<Rightarrow> u_state u' = Core_Active \<and> quiet u' \<and>
              (\<exists>ev. explained u ev u' \<and> counted w ev)
          | (Err e, u') \<Rightarrow> failed_isr u (False, ier0) e u'
          | (Panic, u') \<Rightarrow> False
        else handle_interrupt (logged io) u = (Ok interrupt_work_default, u))"
  by (rule run_cases) (rule interrupt_at_invariant)

text \<open>C37. The first initialization clears the interrupt enable register when the divisor latch
  is closed; when it is open at the start, the first write of zero goes to the latch instead, and
  a successful initialization leaves the register as it found it.\<close>

theorem uart_init_ier:
  "case initialize_quiesced (logged io) (uart_new (dev, [])) of
     (Ok x, u) \<Rightarrow> u_state u = Core_Quiesced \<and>
       hw (dlab, ier) (trace u) = (False, if dlab then ier else 0)
   | (Err e, u) \<Rightarrow> e = DrainLimit \<and> u_state u = Core_Failed e \<and> hw (dlab, ier) (trace u) = (False, 0)
   | (Panic, u) \<Rightarrow> False"
proof -
  have "wp (initialize_quiesced (logged io))
      (\<lambda>_ u. u_state u = Core_Quiesced \<and> hw (dlab, ier) (trace u) = (False, if dlab then ier else 0))
      (\<lambda>e u. e = DrainLimit \<and> u_state u = Core_Failed e \<and> hw (dlab, ier) (trace u) = (False, 0))
      (uart_new (dev, []))"
    by (rule initialize_wp) (auto simp: initialized_def uart_new_def hw_init_writes reg_defs)
  then show ?thesis by (simp add: wp_def split: prod.splits res.splits)
qed

end
