(* ===== verification/BootfsPath.thy ===== *)
theory BootfsPath
  imports Prelude "HOL-Library.List_Lexorder"
begin

text \<open>
  Limits and canonical paths of the boot archive
  (\<^verbatim>\<open>src/crates/wyrmroot-bootfs/src/limits.rs\<close> and \<^verbatim>\<open>path.rs\<close>). The one-pass validation of a
  path is compared with a reference definition that splits it at the separators.
\<close>

definition MAX_ARCHIVE_BYTES :: nat where "MAX_ARCHIVE_BYTES = 32 * 1024 * 1024"
definition MAX_RECORDS :: nat where "MAX_RECORDS = 4096"
definition MAX_ENCODED_NAME_BYTES :: nat where "MAX_ENCODED_NAME_BYTES = 4096"

text \<open>Byte string literals.\<close>

definition bytes_of :: "string \<Rightarrow> byte list" where
  "bytes_of s = map (\<lambda>c. word_of_nat (of_char c)) s"

definition TRAILER_NAME :: "byte list" where "TRAILER_NAME = bytes_of ''TRAILER!!!''"

definition SLASH :: byte where "SLASH = 47"
definition BACKSLASH :: byte where "BACKSLASH = 92"
definition DOT :: byte where "DOT = 46"

datatype archive_path_error =
    EmptyPath | AbsolutePath | EmptyComponent | CurrentDirectoryComponent
  | ParentDirectoryComponent | NulByte | Backslash | PathTooLong | ReservedTrailerName

definition validate_component :: "byte list \<Rightarrow> (archive_path_error, unit) res" where
  "validate_component c =
     (if c = [] then Err EmptyComponent
      else if c = [DOT] then Err CurrentDirectoryComponent
      else if c = [DOT, DOT] then Err ParentDirectoryComponent
      else Ok ())"

text \<open>The loop over the bytes: the component's start, the index, the bytes from the index on.\<close>

fun component_loop ::
  "byte list \<Rightarrow> nat \<Rightarrow> nat \<Rightarrow> byte list \<Rightarrow> (archive_path_error, unit) res" where
  "component_loop bytes start i [] = rbind (region_r start (length bytes) bytes) validate_component"
| "component_loop bytes start i (b # rest) =
     (if b = 0 then Err NulByte
      else if b = BACKSLASH then Err Backslash
      else if b = SLASH then
        rbind (region_r start i bytes) (\<lambda>c.
        rbind (validate_component c) (\<lambda>_.
        component_loop bytes (i + 1) (i + 1) rest))
      else component_loop bytes start (i + 1) rest)"

definition validate_archive_path :: "byte list \<Rightarrow> (archive_path_error, unit) res" where
  "validate_archive_path bytes =
     (if bytes = [] then Err EmptyPath
      else if MAX_ENCODED_NAME_BYTES \<le> length bytes then Err PathTooLong
      else if bytes = TRAILER_NAME then Err ReservedTrailerName
      else if bytes ! 0 = SLASH then Err AbsolutePath
      else component_loop bytes 0 0 bytes)"

text \<open>\<^verbatim>\<open>ArchivePath::new\<close> gives back the bytes it validated.\<close>

definition archive_path_new :: "byte list \<Rightarrow> (archive_path_error, byte list) res" where
  "archive_path_new bytes = rbind (validate_archive_path bytes) (\<lambda>_. Ok bytes)"

definition path_matches :: "byte list \<Rightarrow> byte list \<Rightarrow> (archive_path_error, bool) res" where
  "path_matches self candidate = rbind (validate_archive_path candidate) (\<lambda>_. Ok (self = candidate))"

subsection \<open>The reference definition\<close>

fun split_at :: "byte \<Rightarrow> byte list \<Rightarrow> byte list list" where
  "split_at s [] = [[]]"
| "split_at s (b # bs) =
     (if b = s then [] # split_at s bs
      else case split_at s bs of c # cs \<Rightarrow> (b # c) # cs | [] \<Rightarrow> [[b]])"

definition canonical_path :: "byte list \<Rightarrow> bool" where
  "canonical_path p \<longleftrightarrow> length p < MAX_ENCODED_NAME_BYTES \<and> p \<noteq> TRAILER_NAME \<and>
     0 \<notin> set p \<and> BACKSLASH \<notin> set p \<and>
     list_all (\<lambda>c. c \<notin> {[], [DOT], [DOT, DOT]}) (split_at SLASH p)"

lemma split_at_not_Nil [simp]: "split_at s bs \<noteq> []"
  by (induction bs) (auto split: list.splits)

lemma validate_component_Ok:
  "validate_component c = Ok x \<longleftrightarrow> c \<notin> {[], [DOT], [DOT, DOT]}"
  "validate_component c \<noteq> Panic"
  by (auto simp: validate_component_def)

text \<open>A component begun before the index is completed by the first one still to come.\<close>

definition begun :: "byte list \<Rightarrow> byte list list \<Rightarrow> byte list list" where
  "begun p cs = (p @ hd cs) # tl cs"

lemma begun_Nil [simp]: "begun [] (split_at s bs) = split_at s bs"
  by (simp add: begun_def)

lemma begun_Cons:
  "b \<noteq> s \<Longrightarrow> begun p (split_at s (b # bs)) = begun (p @ [b]) (split_at s bs)"
  by (cases "split_at s bs") (auto simp: begun_def)

lemma component_loop_spec:
  assumes "bytes = pre @ p @ rest" "start = length pre" "i = length pre + length p"
  shows "component_loop bytes start i rest = Ok () \<longleftrightarrow>
      0 \<notin> set rest \<and> BACKSLASH \<notin> set rest \<and>
      list_all (\<lambda>c. c \<notin> {[], [DOT], [DOT, DOT]}) (begun p (split_at SLASH rest))"
    and "component_loop bytes start i rest \<noteq> Panic"
  using assms
proof (induction rest arbitrary: pre p start i)
  case Nil
  {
    case 1
    then show ?case
      by (auto simp: res_simps validate_component_Ok begun_def region_def region_r_def)
  next
    case 2
    then show ?case by (auto simp: res_simps validate_component_Ok region_r_def)
  }
next
  case (Cons b rest)
  have reg: "region_r start i bytes = Ok p" if "bytes = pre @ p @ b # rest" "start = length pre"
      "i = length pre + length p" for pre p start i
    using that by (simp add: region_r_def region_def)
  {
    case 1
    note IH0 = Cons.IH(1) [of "pre @ p @ [b]" "[]" "i + 1" "i + 1"]
    note IH1 = Cons.IH(1) [of pre "p @ [b]" start "i + 1"]
    show ?case
    proof (cases "b = SLASH")
      case True
      have "SLASH \<noteq> 0" "SLASH \<noteq> BACKSLASH" by (simp_all add: SLASH_def BACKSLASH_def)
      with True IH0 1 reg [OF 1] show ?thesis
        by (auto simp: res_simps validate_component_Ok begun_def)
    next
      case False
      with IH1 1 show ?thesis by (auto simp: begun_Cons simp del: split_at.simps)
    qed
  next
    case 2
    note IH0 = Cons.IH(2) [of "pre @ p @ [b]" "[]" "i + 1" "i + 1"]
    note IH1 = Cons.IH(2) [of pre "p @ [b]" start "i + 1"]
    from IH0 IH1 2 reg [OF 2] show ?case
      by (auto simp: res_simps validate_component_Ok)
  }
qed

lemma validate_archive_path_iff:
  "validate_archive_path bytes = Ok () \<longleftrightarrow> canonical_path bytes"
  "validate_archive_path bytes \<noteq> Panic"
proof -
  note spec = component_loop_spec [of bytes "[]" "[]" bytes 0 0, simplified]
  have "\<not> canonical_path []" by (simp add: canonical_path_def)
  moreover have "\<not> canonical_path bytes" if "bytes \<noteq> []" "bytes ! 0 = SLASH"
    using that by (cases bytes) (auto simp: canonical_path_def)
  ultimately show "validate_archive_path bytes = Ok () \<longleftrightarrow> canonical_path bytes"
    "validate_archive_path bytes \<noteq> Panic"
    using spec by (auto simp: validate_archive_path_def canonical_path_def)
qed

text \<open>The one-pass validation of an archive path accepts exactly the canonical relative
  paths of the reference definition: short enough, not the reserved trailer name, without NUL and
  backslash bytes, and with every component between separators neither empty nor a dot name (an
  empty or an absolute path has an empty component). It never panics.\<close>

theorem archive_path_validation:
  "(validate_archive_path bytes = Ok ()) = canonical_path bytes \<and> validate_archive_path bytes \<noteq> Panic"
  by (simp add: validate_archive_path_iff)

end
