(* ===== verification/BootfsArchive.thy ===== *)
theory BootfsArchive
  imports BootfsPath
begin

text \<open>
  The boot archive parser (\<^verbatim>\<open>src/crates/wyrmroot-bootfs/src/archive.rs\<close>): one record of the
  \<^verbatim>\<open>cpio newc\<close> format, the validation of a whole archive, the entry iterator and the lookup by
  path. A parse error carries the offset it is reported at.
\<close>

unbundle bit_operations_syntax

definition HEADER_SIZE :: nat where "HEADER_SIZE = 110"
definition NEWC_MAGIC :: "byte list" where "NEWC_MAGIC = bytes_of ''070701''"

datatype archive_error =
    TruncatedHeader nat | InvalidMagic nat | InvalidNumeric nat | SizeOverflow nat
  | InvalidNameSize nat | TruncatedName nat | InvalidName nat | TruncatedData nat
  | TruncatedPadding nat | InvalidPadding nat | InvalidTrailer nat | DuplicateName nat
  | UnsortedName nat | InvalidMetadata nat | UnsupportedFileType nat | UnsupportedPermissions nat
  | InvalidPath nat | ArchiveTooLarge nat | TooManyRecords nat | NameTooLarge nat
  | TrailingBytes nat

type_synonym 'a parse_res = "(archive_error, 'a) res"

datatype lookup_error = Lookup_InvalidPath archive_path_error | NotFound

record record_t =
  rec_start :: nat
  rec_next :: nat
  rec_name :: "byte list"
  rec_data :: "byte list"
  rec_path :: "byte list option"
  rec_executable :: bool
  rec_is_trailer :: bool

record archive_entry =
  entry_name :: "byte list"
  entry_data :: "byte list"
  entry_path :: "byte list"
  entry_executable :: bool

subsection \<open>Fields\<close>

definition check_archive_length :: "nat \<Rightarrow> unit parse_res" where
  "check_archive_length n =
     (if MAX_ARCHIVE_BYTES < n then Err (ArchiveTooLarge MAX_ARCHIVE_BYTES) else Ok ())"

text \<open>\<open>aligned & !3\<close> clears the two low bits.\<close>

definition align4 :: "nat \<Rightarrow> nat option" where
  "align4 value = map_option (\<lambda>aligned. aligned - aligned mod 4) (checked_add_usize value 3)"

definition hex_digit :: "byte \<Rightarrow> nat option" where
  "hex_digit b =
     (if 0x30 \<le> b \<and> b \<le> 0x39 then Some (unat b - 0x30)
      else if 0x61 \<le> b \<and> b \<le> 0x66 then Some (unat b - 0x61 + 10)
      else if 0x41 \<le> b \<and> b \<le> 0x46 then Some (unat b - 0x41 + 10)
      else None)"

fun hex_loop :: "nat \<Rightarrow> nat \<Rightarrow> byte list \<Rightarrow> nat parse_res" where
  "hex_loop offset value [] = Ok value"
| "hex_loop offset value (b # bs) =
     (case hex_digit b of
        None \<Rightarrow> Err (InvalidNumeric offset)
      | Some d \<Rightarrow>
          if value * 16 < 2 ^ 64 \<and> value * 16 + d < 2 ^ 64
          then hex_loop offset (value * 16 + d) bs
          else Err (SizeOverflow offset))"

definition hex_field :: "byte list \<Rightarrow> nat \<Rightarrow> nat parse_res" where
  "hex_field field offset = hex_loop offset 0 field"

text \<open>The thirteen fields of a header, in order.\<close>

record newc_fields =
  h_ino :: nat
  h_mode :: nat
  h_uid :: nat
  h_gid :: nat
  h_nlink :: nat
  h_mtime :: nat
  h_filesize :: nat
  h_devmajor :: nat
  h_devminor :: nat
  h_rdevmajor :: nat
  h_rdevminor :: nat
  h_namesize :: nat
  h_check :: nat

definition header_field :: "byte list \<Rightarrow> nat \<Rightarrow> nat \<Rightarrow> nat parse_res" where
  "header_field hdr start a = rbind (region_r a (a + 8) hdr) (\<lambda>f. hex_field f (start + a))"

definition newc_parse_header :: "byte list \<Rightarrow> nat \<Rightarrow> newc_fields parse_res" where
  "newc_parse_header hdr start =
     rbind (header_field hdr start 6) (\<lambda>ino.
     rbind (header_field hdr start 14) (\<lambda>mode.
     rbind (header_field hdr start 22) (\<lambda>uid.
     rbind (header_field hdr start 30) (\<lambda>gid.
     rbind (header_field hdr start 38) (\<lambda>nlink.
     rbind (header_field hdr start 46) (\<lambda>mtime.
     rbind (header_field hdr start 54) (\<lambda>filesize.
     rbind (header_field hdr start 62) (\<lambda>devmajor.
     rbind (header_field hdr start 70) (\<lambda>devminor.
     rbind (header_field hdr start 78) (\<lambda>rdevmajor.
     rbind (header_field hdr start 86) (\<lambda>rdevminor.
     rbind (header_field hdr start 94) (\<lambda>namesize.
     rbind (header_field hdr start 102) (\<lambda>check.
     Ok \<lparr>h_ino = ino, h_mode = mode, h_uid = uid, h_gid = gid, h_nlink = nlink, h_mtime = mtime,
         h_filesize = filesize, h_devmajor = devmajor, h_devminor = devminor,
         h_rdevmajor = rdevmajor, h_rdevminor = rdevminor, h_namesize = namesize,
         h_check = check\<rparr>)))))))))))))"

subsection \<open>One record\<close>

text \<open>The name, with its terminator checked and removed: the name and the offset it ends at.\<close>

definition parse_name :: "byte list \<Rightarrow> nat \<Rightarrow> nat \<Rightarrow> (byte list \<times> nat) parse_res" where
  "parse_name bytes start namesize =
     (if MAX_ENCODED_NAME_BYTES < namesize then Err (NameTooLarge (start + 94))
      else if namesize = 0 then Err (InvalidNameSize (start + 94))
      else
        rbind (ok_or (SizeOverflow start) (checked_add_usize start HEADER_SIZE)) (\<lambda>name_start.
        rbind (ok_or (SizeOverflow (start + 94)) (checked_add_usize name_start namesize)) (\<lambda>name_end.
        rbind (ok_or (TruncatedName name_start) (get_range name_start name_end bytes)) (\<lambda>n.
        if n = [] \<or> last n \<noteq> 0 \<or> 0 \<in> set (butlast n) then Err (InvalidName name_start)
        else Ok (butlast n, name_end)))))"

text \<open>The data between its paddings: the data and the offset of the next record.\<close>

definition parse_data :: "byte list \<Rightarrow> nat \<Rightarrow> nat \<Rightarrow> (byte list \<times> nat) parse_res" where
  "parse_data bytes name_end filesize =
     rbind (ok_or (SizeOverflow name_end) (align4 name_end)) (\<lambda>data_start.
     rbind (ok_or (TruncatedPadding name_end) (get_range name_end data_start bytes)) (\<lambda>pad.
     if list_ex (\<lambda>b. b \<noteq> 0) pad then Err (InvalidPadding name_end)
     else
       rbind (ok_or (SizeOverflow data_start) (checked_add_usize data_start filesize)) (\<lambda>data_end.
       rbind (ok_or (TruncatedData data_start) (get_range data_start data_end bytes)) (\<lambda>dat.
       rbind (ok_or (SizeOverflow data_end) (align4 data_end)) (\<lambda>next.
       if length bytes < next then Err (TruncatedPadding data_end)
       else
         rbind (region_r data_end next bytes) (\<lambda>pad2.
         if list_ex (\<lambda>b. b \<noteq> 0) pad2 then Err (InvalidPadding data_end)
         else Ok (dat, next)))))))"

definition trailer_metadata :: "newc_fields \<Rightarrow> bool" where
  "trailer_metadata h \<longleftrightarrow>
     h_ino h = 0 \<and> h_mode h = 0 \<and> h_uid h = 0 \<and> h_gid h = 0 \<and> h_nlink h = 0 \<and> h_mtime h = 0 \<and>
     h_filesize h = 0 \<and> h_devmajor h = 0 \<and> h_devminor h = 0 \<and> h_rdevmajor h = 0 \<and>
     h_rdevminor h = 0 \<and> h_check h = 0"

definition file_metadata :: "newc_fields \<Rightarrow> bool" where
  "file_metadata h \<longleftrightarrow>
     h_ino h = 0 \<and> h_uid h = 0 \<and> h_gid h = 0 \<and> h_mtime h = 0 \<and> h_devmajor h = 0 \<and>
     h_devminor h = 0 \<and> h_rdevmajor h = 0 \<and> h_rdevminor h = 0 \<and> h_check h = 0 \<and> h_nlink h = 1"

text \<open>The octal constants of the source: \<^verbatim>\<open>0o170000\<close>, \<^verbatim>\<open>0o100000\<close>, \<^verbatim>\<open>0o100444\<close>,
  \<^verbatim>\<open>0o100555\<close>.\<close>

definition S_IFMT :: nat where "S_IFMT = 0xF000"
definition S_IFREG :: nat where "S_IFREG = 0x8000"
definition MODE_READ_ONLY :: nat where "MODE_READ_ONLY = 0x8124"
definition MODE_EXECUTABLE :: nat where "MODE_EXECUTABLE = 0x816D"

text \<open>The trailer and the regular files by their metadata.\<close>

definition classify_record :: "nat \<Rightarrow> newc_fields \<Rightarrow> byte list \<Rightarrow> byte list \<Rightarrow> nat \<Rightarrow> record_t parse_res" where
  "classify_record start h name dat next =
     (if name = TRAILER_NAME then
        (if \<not> trailer_metadata h then Err (InvalidTrailer start)
         else Ok \<lparr>rec_start = start, rec_next = next, rec_name = name, rec_data = dat,
                  rec_path = None, rec_executable = False, rec_is_trailer = True\<rparr>)
      else if \<not> file_metadata h then Err (InvalidMetadata start)
      else if h_mode h AND S_IFMT \<noteq> S_IFREG then Err (UnsupportedFileType start)
      else if h_mode h \<noteq> MODE_READ_ONLY \<and> h_mode h \<noteq> MODE_EXECUTABLE
        then Err (UnsupportedPermissions start)
      else
        (case archive_path_new name of
           Err e \<Rightarrow> Err (InvalidPath start)
         | Panic \<Rightarrow> Panic
         | Ok path \<Rightarrow>
             Ok \<lparr>rec_start = start, rec_next = next, rec_name = name, rec_data = dat,
                 rec_path = Some path, rec_executable = (h_mode h = MODE_EXECUTABLE),
                 rec_is_trailer = False\<rparr>))"

definition parse_record :: "byte list \<Rightarrow> nat \<Rightarrow> record_t parse_res" where
  "parse_record bytes start =
     rbind (ok_or (TruncatedHeader start) (get_range start (length bytes) bytes)) (\<lambda>hdr.
     if length hdr < HEADER_SIZE then Err (TruncatedHeader start)
     else
       rbind (region_r 0 6 hdr) (\<lambda>magic.
       if magic \<noteq> NEWC_MAGIC then Err (InvalidMagic start)
       else
         rbind (newc_parse_header hdr start) (\<lambda>h.
         rbind (parse_name bytes start (h_namesize h)) (\<lambda>(name, name_end).
         rbind (parse_data bytes name_end (h_filesize h)) (\<lambda>(dat, next).
         classify_record start h name dat next)))))"

subsection \<open>Records advance\<close>

lemma align4_Some: "align4 v = Some a \<longleftrightarrow> v + 3 \<le> usize_max \<and> a = (v + 3) div 4 * 4"
  by (auto simp: align4_def checked_add_usize_def minus_mod_eq_div_mult)

lemma align4_ge: "align4 v = Some a \<Longrightarrow> v \<le> a \<and> a < v + 4"
  unfolding align4_Some by linarith

lemma parse_name_Ok:
  assumes "parse_name bytes start namesize = Ok (name, name_end)"
  shows "name_end = start + HEADER_SIZE + namesize" "name_end \<le> length bytes" "0 < namesize"
    "region (start + HEADER_SIZE) namesize bytes = name @ [0]" "0 \<notin> set name"
    "namesize \<le> MAX_ENCODED_NAME_BYTES"
  using assms
  by (auto simp: parse_name_def res_simps checked_add_usize_def get_range_eq_Some split: if_splits)
    (metis append_butlast_last_id)+

lemma parse_data_Ok:
  assumes "parse_data bytes name_end filesize = Ok (dat, next)"
  shows "\<exists>a. align4 name_end = Some a \<and> align4 (a + filesize) = Some next \<and> next \<le> length bytes \<and>
    dat = region a filesize bytes \<and> length dat = filesize"
  using assms
  by (auto simp: parse_data_def res_simps checked_add_usize_def get_range_eq_Some split: if_splits)

lemma archive_path_new_simps:
  "archive_path_new p = Ok q \<longleftrightarrow> canonical_path p \<and> q = p"
  "archive_path_new p \<noteq> Panic"
proof -
  have "archive_path_new p = Ok q \<longleftrightarrow> validate_archive_path p = Ok () \<and> q = p"
    by (auto simp: archive_path_new_def res_simps)
  then show "archive_path_new p = Ok q \<longleftrightarrow> canonical_path p \<and> q = p"
    by (simp only: validate_archive_path_iff)
  show "archive_path_new p \<noteq> Panic"
    by (simp add: archive_path_new_def res_simps validate_archive_path_iff)
qed

lemma classify_record_Ok:
  assumes "classify_record start h name dat next = Ok r"
  shows "rec_start r = start \<and> rec_next r = next \<and> rec_name r = name \<and> rec_data r = dat \<and>
    (if rec_is_trailer r then name = TRAILER_NAME \<and> trailer_metadata h
     else rec_path r = Some name \<and> canonical_path name)"
  using assms
  by (auto simp: classify_record_def archive_path_new_simps split: if_splits res.splits)

lemma parse_record_Ok:
  assumes "parse_record bytes start = Ok r"
  obtains h name_end where
    "newc_parse_header (drop start bytes) start = Ok h"
    "parse_name bytes start (h_namesize h) = Ok (rec_name r, name_end)"
    "parse_data bytes name_end (h_filesize h) = Ok (rec_data r, rec_next r)"
    "classify_record start h (rec_name r) (rec_data r) (rec_next r) = Ok r"
proof -
  from assms obtain h name name_end dat nx
    where "start \<le> length bytes" "newc_parse_header (region start (length bytes - start) bytes) start = Ok h"
      and p: "parse_name bytes start (h_namesize h) = Ok (name, name_end)"
      "parse_data bytes name_end (h_filesize h) = Ok (dat, nx)"
      and c: "classify_record start h name dat nx = Ok r"
    by (fastforce simp: parse_record_def res_simps get_range_eq_Some split: if_splits)
  then have "newc_parse_header (drop start bytes) start = Ok h" by (simp add: region_def)
  with classify_record_Ok [OF c] p c show ?thesis by (intro that) auto
qed

lemma parse_record_advances:
  assumes "parse_record bytes start = Ok r"
  shows "start < rec_next r" "rec_next r \<le> length bytes" "rec_start r = start"
proof -
  from assms obtain h name_end
    where *: "parse_name bytes start (h_namesize h) = Ok (rec_name r, name_end)"
      "parse_data bytes name_end (h_filesize h) = Ok (rec_data r, rec_next r)"
      "classify_record start h (rec_name r) (rec_data r) (rec_next r) = Ok r"
    by (rule parse_record_Ok)
  from classify_record_Ok [OF *(3)] show "rec_start r = start" by simp
  from parse_name_Ok(1) [OF *(1)] parse_data_Ok [OF *(2)]
  show "start < rec_next r" "rec_next r \<le> length bytes"
    by (auto simp: HEADER_SIZE_def dest!: align4_ge)
qed

subsection \<open>The archive\<close>

function new_loop :: "byte list \<Rightarrow> nat \<Rightarrow> byte list option \<Rightarrow> nat \<Rightarrow> unit parse_res" where
  "new_loop bytes cursor previous_name record_count =
     (case parse_record bytes cursor of
        Err e \<Rightarrow> Err e
      | Panic \<Rightarrow> Panic
      | Ok r \<Rightarrow>
          let cursor = rec_next r; record_count = record_count + 1 in
          if \<not> rec_is_trailer r \<and> MAX_RECORDS < record_count then Err (TooManyRecords (rec_start r))
          else if rec_is_trailer r then
            (if cursor \<noteq> length bytes then Err (TrailingBytes cursor) else Ok ())
          else
            (case previous_name of
               Some previous \<Rightarrow>
                 if rec_name r = previous then Err (DuplicateName (rec_start r))
                 else if rec_name r < previous then Err (UnsortedName (rec_start r))
                 else new_loop bytes cursor (Some (rec_name r)) record_count
             | None \<Rightarrow> new_loop bytes cursor (Some (rec_name r)) record_count))"
  by pat_completeness auto

termination
  by (relation "measure (\<lambda>(bytes, cursor, _). length bytes - cursor)")
    (auto dest: parse_record_advances intro: diff_less_mono2 less_le_trans)

definition archive_new :: "byte list \<Rightarrow> (byte list) parse_res" where
  "archive_new bytes =
     rbind (check_archive_length (length bytes)) (\<lambda>_.
     rbind (new_loop bytes 0 None 0) (\<lambda>_. Ok bytes))"

text \<open>The iterator stops at the first record it cannot parse, at the trailer, and at a record
  without a path.\<close>

definition entries_next :: "byte list \<Rightarrow> nat \<Rightarrow> (archive_entry option \<times> nat) option" where
  "entries_next bytes cursor =
     (case parse_record bytes cursor of
        Err e \<Rightarrow> Some (None, cursor)
      | Panic \<Rightarrow> None
      | Ok r \<Rightarrow>
          Some (if rec_is_trailer r then None
            else map_option (\<lambda>p. \<lparr>entry_name = rec_name r, entry_data = rec_data r, entry_path = p,
                               entry_executable = rec_executable r\<rparr>) (rec_path r), rec_next r))"

text \<open>All the entries a loop over the iterator sees: a panic is no list.\<close>

function entries_from :: "byte list \<Rightarrow> nat \<Rightarrow> archive_entry list option" where
  "entries_from bytes cursor =
     (case entries_next bytes cursor of
        None \<Rightarrow> None
      | Some (None, _) \<Rightarrow> Some []
      | Some (Some e, cursor') \<Rightarrow> map_option (Cons e) (entries_from bytes cursor'))"
  by pat_completeness auto

termination
  by (relation "measure (\<lambda>(bytes, cursor). length bytes - cursor)")
    (auto simp: entries_next_def split: res.splits if_splits
      dest: parse_record_advances intro: diff_less_mono2 less_le_trans)

declare new_loop.simps [simp del] entries_from.simps [simp del]

definition archive_lookup :: "byte list \<Rightarrow> byte list \<Rightarrow> (lookup_error, archive_entry) res" where
  "archive_lookup bytes query =
     (case archive_path_new query of
        Err e \<Rightarrow> Err (Lookup_InvalidPath e)
      | Panic \<Rightarrow> Panic
      | Ok q \<Rightarrow>
          (case entries_from bytes 0 of
             None \<Rightarrow> Panic
           | Some es \<Rightarrow>
               (case find (\<lambda>e. entry_name e = q) es of Some e \<Rightarrow> Ok e | None \<Rightarrow> Err NotFound)))"

end
