(* ===== verification/BootfsArchiveProps.thy ===== *)
theory BootfsArchiveProps
  imports BootfsArchive
begin

text \<open>
  What an accepted boot archive is: validation never panics on any bytes, and after it the
  iterator sees a list of files with canonical, strictly ascending names, in which lookup finds
  exactly the file asked for.
\<close>

subsection \<open>No panics\<close>

lemma hex_loop_no_panic [no_panic]: "hex_loop offset v field \<noteq> Panic"
  by (induction field arbitrary: v) (auto split: option.splits)

lemma header_field_no_panic:
  "a + 8 \<le> length hdr \<Longrightarrow> header_field hdr start a \<noteq> Panic"
  by (auto simp: header_field_def hex_field_def res_simps no_panic)

lemma newc_parse_header_no_panic: "HEADER_SIZE \<le> length hdr \<Longrightarrow> newc_parse_header hdr start \<noteq> Panic"
  unfolding newc_parse_header_def HEADER_SIZE_def
  by (intro rbind_no_panic header_field_no_panic) simp_all

lemma parse_name_no_panic: "parse_name bytes start n \<noteq> Panic"
  by (auto simp: parse_name_def res_simps)

lemma parse_data_no_panic: "parse_data bytes name_end n \<noteq> Panic"
  by (auto simp: parse_data_def res_simps split: if_splits dest!: align4_ge)

lemma classify_record_no_panic: "classify_record start h name dat nx \<noteq> Panic"
  by (auto simp: classify_record_def archive_path_new_simps split: res.splits)

lemma parse_record_no_panic: "parse_record bytes start \<noteq> Panic"
  by (auto simp: parse_record_def res_simps newc_parse_header_no_panic parse_name_no_panic
      parse_data_no_panic classify_record_no_panic HEADER_SIZE_def)

text \<open>Induction along the records of an archive.\<close>

lemma record_induct:
  assumes "\<And>cursor. (\<And>r. parse_record bytes cursor = Ok r \<Longrightarrow> P (rec_next r)) \<Longrightarrow> P cursor"
  shows "P cursor"
proof (induction "length bytes - cursor" arbitrary: cursor rule: less_induct)
  case less
  show ?case
  proof (rule assms)
    fix r assume "parse_record bytes cursor = Ok r"
    from parse_record_advances [OF this] show "P (rec_next r)" by (intro less) simp
  qed
qed

lemma new_loop_no_panic: "new_loop bytes cursor prev n \<noteq> Panic"
proof (induction cursor arbitrary: prev n rule: record_induct [of bytes])
  case (1 cursor)
  show ?case
  proof (cases "parse_record bytes cursor")
    case (Ok r)
    from 1 [OF Ok, of "Some (rec_name r)" "Suc n"] show ?thesis
      by (subst new_loop.simps) (auto simp: Ok Let_def split: option.splits)
  qed (simp_all add: new_loop.simps parse_record_no_panic)
qed

subsection \<open>What validation establishes\<close>

definition above :: "byte list option \<Rightarrow> byte list \<Rightarrow> bool" where
  "above prev name = (case prev of None \<Rightarrow> True | Some p \<Rightarrow> p < name)"

definition good_entries :: "byte list option \<Rightarrow> archive_entry list \<Rightarrow> bool" where
  "good_entries prev es \<longleftrightarrow> sorted_wrt (<) (map entry_name es) \<and>
     list_all (\<lambda>e. above prev (entry_name e) \<and> canonical_path (entry_name e) \<and>
       entry_path e = entry_name e) es"

text \<open>One step of the validation loop that continues.\<close>

lemma new_loop_step:
  assumes "new_loop bytes cursor prev n = Ok x" "parse_record bytes cursor = Ok r"
  shows "if rec_is_trailer r then rec_next r = length bytes
     else n < MAX_RECORDS \<and> above prev (rec_name r) \<and>
       new_loop bytes (rec_next r) (Some (rec_name r)) (Suc n) = Ok x"
  using assms new_loop.simps [of bytes cursor prev n]
  by (auto simp: Let_def above_def split: option.splits if_splits)

lemma parse_record_file:
  assumes "parse_record bytes cursor = Ok r" "\<not> rec_is_trailer r"
  shows "rec_path r = Some (rec_name r)" "canonical_path (rec_name r)"
proof -
  from assms(1) obtain h where "classify_record cursor h (rec_name r) (rec_data r) (rec_next r) = Ok r"
    by (rule parse_record_Ok)
  from classify_record_Ok [OF this] assms(2)
  show "rec_path r = Some (rec_name r)" "canonical_path (rec_name r)" by auto
qed

lemma new_loop_entries:
  assumes "new_loop bytes cursor prev n = Ok x" "n \<le> MAX_RECORDS"
  shows "\<exists>es. entries_from bytes cursor = Some es \<and> good_entries prev es \<and>
    n + length es \<le> MAX_RECORDS"
  using assms
proof (induction cursor arbitrary: prev n rule: record_induct [of bytes])
  case (1 cursor)
  have "\<exists>r. parse_record bytes cursor = Ok r"
    using 1(2) by (subst (asm) new_loop.simps) (auto split: res.splits)
  then obtain r where r: "parse_record bytes cursor = Ok r" by blast
  note step = new_loop_step [OF 1(2) r]
  show ?case
  proof (cases "rec_is_trailer r")
    case True
    with r 1(3) show ?thesis
      by (subst entries_from.simps) (simp add: entries_next_def good_entries_def)
  next
    case False
    let ?e = "\<lparr>entry_name = rec_name r, entry_data = rec_data r, entry_path = rec_name r,
      entry_executable = rec_executable r\<rparr>"
    have "\<exists>es. entries_from bytes (rec_next r) = Some es \<and> good_entries (Some (rec_name r)) es \<and>
        Suc n + length es \<le> MAX_RECORDS"
      using 1(1) [OF r, of "Some (rec_name r)" "Suc n"] step False by simp
    then obtain es where es: "entries_from bytes (rec_next r) = Some es"
      "good_entries (Some (rec_name r)) es" "Suc n + length es \<le> MAX_RECORDS" by blast
    have "entries_from bytes cursor = Some (?e # es)"
      using r False parse_record_file [OF r False] es(1)
      by (subst entries_from.simps) (simp add: entries_next_def)
    moreover have "good_entries prev (?e # es)"
      using es(2) step False parse_record_file [OF r False]
      by (auto simp: good_entries_def above_def list_all_iff split: option.splits
          intro: order.strict_trans)
    ultimately show ?thesis using es(3) by auto
  qed
qed

lemma archive_new_entries:
  assumes "archive_new bytes = Ok b"
  shows "b = bytes \<and> length bytes \<le> MAX_ARCHIVE_BYTES \<and>
    (\<exists>es. entries_from bytes 0 = Some es \<and> good_entries None es \<and> length es \<le> MAX_RECORDS)"
  using assms new_loop_entries [of bytes 0 None 0 "()"]
  by (auto simp: archive_new_def check_archive_length_def res_simps split: if_splits)

lemma archive_new_no_panic: "archive_new bytes \<noteq> Panic"
  by (auto simp: archive_new_def check_archive_length_def res_simps new_loop_no_panic)

text \<open>Names in strictly ascending order are the names of one file each.\<close>

lemma good_entries_distinct: "good_entries prev es \<Longrightarrow> distinct (map entry_name es)"
  by (auto simp: good_entries_def strict_sorted_iff)

lemma filter_name:
  fixes es :: "archive_entry list"
  assumes "distinct (map entry_name es)" "e \<in> set es"
  shows "filter (\<lambda>x. entry_name x = entry_name e) es = [e]"
    and "find (\<lambda>x. entry_name x = entry_name e) es = Some e"
proof -
  from assms show f: "filter (\<lambda>x. entry_name x = entry_name e) es = [e]"
    by (induction es) (auto simp: image_iff filter_empty_conv)
  have g: "find P xs = (case filter P xs of [] \<Rightarrow> None | x # _ \<Rightarrow> Some x)" for P and xs :: "archive_entry list"
    by (induction xs) auto
  show "find (\<lambda>x. entry_name x = entry_name e) es = Some e" by (simp only: g f list.case)
qed

lemma lookup_member:
  assumes "entries_from bytes 0 = Some es" "good_entries None es" "e \<in> set es"
  shows "archive_lookup bytes (entry_name e) = Ok e"
proof -
  have "canonical_path (entry_name e)" using assms(2,3) by (auto simp: good_entries_def list_all_iff)
  then have p: "archive_path_new (entry_name e) = Ok (entry_name e)"
    by (simp add: archive_path_new_simps)
  with filter_name(2) [OF good_entries_distinct [OF assms(2)] assms(3)] assms(1) show ?thesis by (simp add: archive_lookup_def)
qed

subsection \<open>Properties\<close>

text \<open>C15. Validation of a boot archive never panics, whatever the bytes, and always ends. An
  accepted archive is within the size limit, and iterating over it gives at most the allowed
  number of files, with canonical paths in strictly ascending byte order.\<close>

theorem archive_validation_safe:
  "case archive_new bytes of
     Panic \<Rightarrow> False
   | Err e \<Rightarrow> True
   | Ok b \<Rightarrow> b = bytes \<and> length bytes \<le> MAX_ARCHIVE_BYTES \<and>
       (case entries_from bytes 0 of
          None \<Rightarrow> False
        | Some es \<Rightarrow> length es \<le> MAX_RECORDS \<and> sorted_wrt (<) (map entry_name es) \<and>
            list_all (\<lambda>e. canonical_path (entry_name e)) es)"
  using archive_new_no_panic [of bytes] archive_new_entries [of bytes]
  by (auto simp: good_entries_def list_all_iff split: res.splits)

text \<open>Lookup in an accepted archive finds the one file of the asked name: it returns an
  entry exactly when there is one, the not-found error exactly for a canonical path no entry has,
  and the path error exactly for a path that is not canonical.\<close>

theorem archive_lookup_exact:
  "case archive_new bytes of
     Panic \<Rightarrow> False
   | Err e \<Rightarrow> True
   | Ok b \<Rightarrow>
       (case entries_from b 0 of
          None \<Rightarrow> False
        | Some es \<Rightarrow>
            (case archive_lookup b q of
               Ok e \<Rightarrow> filter (\<lambda>x. entry_name x = q) es = [e]
             | Err NotFound \<Rightarrow> canonical_path q \<and> filter (\<lambda>x. entry_name x = q) es = []
             | Err (Lookup_InvalidPath e) \<Rightarrow> \<not> canonical_path q
             | Panic \<Rightarrow> False))"
proof (cases "archive_new bytes")
  case (Ok b)
  from archive_new_entries [OF Ok] obtain es where b: "b = bytes"
    and es: "entries_from bytes 0 = Some es" "good_entries None es" by blast
  show ?thesis
  proof (cases "\<exists>e \<in> set es. entry_name e = q")
    case True
    then obtain e where e: "e \<in> set es" "entry_name e = q" by blast
    have "filter (\<lambda>x. entry_name x = q) es = [e]"
      using filter_name(1) [OF good_entries_distinct [OF es(2)] e(1)] e(2) by simp
    with lookup_member [OF es e(1)] e(2) show ?thesis by (simp add: Ok b es(1))
  next
    case False
    then have none: "filter (\<lambda>x. entry_name x = q) es = []" "find (\<lambda>x. entry_name x = q) es = None"
      by (auto simp: filter_empty_conv find_None_iff)
    show ?thesis
    proof (cases "archive_path_new q")
      case (Ok p)
      then have "canonical_path q" "p = q" by (simp_all add: archive_path_new_simps)
      with none \<open>archive_path_new q = Ok p\<close> show ?thesis
        by (simp add: \<open>archive_new bytes = Ok b\<close> b es(1) archive_lookup_def)
    next
      case (Err e)
      then have "\<not> canonical_path q" using archive_path_new_simps(1) [of q q] by simp
      with Err show ?thesis by (simp add: Ok b es(1) archive_lookup_def)
    qed (simp add: archive_path_new_simps)
  qed
qed (simp_all add: archive_new_no_panic)

end
