(* ===== verification/BootfsBuilder.thy ===== *)
theory BootfsBuilder
  imports BootfsArchiveProps
begin

text \<open>
  The deterministic boot archive builder (\<^verbatim>\<open>src/crates/wyrmroot-bootfs/src/builder.rs\<close>). Whether
  the host can grow a vector is a parameter of the model. The main result: what the builder
  emits, the parser accepts, and gives back exactly the files added.
\<close>

unbundle bit_operations_syntax

datatype file_mode = ReadOnly | Executable

datatype build_error =
    B_EmptyArtifact | B_InvalidPath | B_NameTooLong | B_RecordLimit | B_DuplicatePath
  | B_ArchiveTooLarge | B_AllocationFailure | B_WrongC1Marker | B_InvalidC1DeviceManifest
  | B_C1DriverIdentityMismatch | B_InvalidE6LaunchPolicy | B_E6WyrmshIdentityMismatch
  | B_E6HelloIdentityMismatch | B_InvalidR1LaunchPolicy | B_R1PolicyIdentityMismatch
  | B_InvalidR1GateConfiguration | B_R1ProbeIdentityMismatch | B_R1UnacceptedTopology
  | B_InvalidE7LaunchPolicy | B_E7ArtifactIdentityMismatch | B_InvalidE7MalformedElf
  | B_InvalidE8LaunchPolicy | B_E8ArtifactIdentityMismatch | B_InvalidE8MalformedElf
  | B_InvalidFLaunchPolicy | B_FWyrmshIdentityMismatch | B_FPayloadIdentityMismatch

type_synonym 'a build_res = "(build_error, 'a) res"

record builder_entry =
  be_path :: "byte list"
  be_data :: "byte list"
  be_mode :: file_mode

text \<open>The vectors the builder grows, and whether the host allocator can grow one by so many
  elements.\<close>

datatype vec_site = Vec_Add | Vec_Entries | Vec_Output

type_synonym allocator = "vec_site \<Rightarrow> nat \<Rightarrow> bool"

definition fallibly_reserve :: "allocator \<Rightarrow> vec_site \<Rightarrow> nat \<Rightarrow> unit build_res" where
  "fallibly_reserve alloc site n = (if alloc site n then Ok () else Err B_AllocationFailure)"

subsection \<open>Sizes and fields\<close>

fun newc_mode :: "file_mode \<Rightarrow> u32" where
  "newc_mode ReadOnly = 0x8124"
| "newc_mode Executable = 0x816D"

definition checked_u32 :: "nat \<Rightarrow> u32 build_res" where
  "checked_u32 v = (if v < 2 ^ 32 then Ok (word_of_nat v) else Err B_ArchiveTooLarge)"

definition ensure_archive_size :: "nat \<Rightarrow> unit build_res" where
  "ensure_archive_size total_size =
     (if MAX_ARCHIVE_BYTES < total_size then Err B_ArchiveTooLarge else Ok ())"

definition build_align4 :: "nat \<Rightarrow> nat build_res" where
  "build_align4 v = ok_or B_ArchiveTooLarge
     (map_option (\<lambda>aligned. aligned - aligned mod 4) (checked_add_usize v 3))"

definition record_size :: "byte list \<Rightarrow> byte list \<Rightarrow> nat build_res" where
  "record_size name dat =
     rbind (ok_or B_ArchiveTooLarge (checked_add_usize (length name) 1)) (\<lambda>n.
     rbind (checked_u32 n) (\<lambda>_.
     rbind (checked_u32 (length dat)) (\<lambda>_.
     rbind (ok_or B_ArchiveTooLarge
       (Option.bind (checked_add_usize HEADER_SIZE (length name)) (\<lambda>v. checked_add_usize v 1))) (\<lambda>name_end.
     rbind (build_align4 name_end) (\<lambda>data_start.
     rbind (ok_or B_ArchiveTooLarge (checked_add_usize data_start (length dat))) (\<lambda>data_end.
     build_align4 data_end))))))"

definition HEX_DIGITS :: "byte list" where "HEX_DIGITS = bytes_of ''0123456789abcdef''"

definition write_hex :: "u32 \<Rightarrow> byte list" where
  "write_hex value = map (\<lambda>index. HEX_DIGITS ! unat (drop_bit (4 * (7 - index)) value AND 0x0f)) [0..<8]"

definition pad4 :: "byte list \<Rightarrow> byte list" where
  "pad4 output = output @ replicate ((4 - length output mod 4) mod 4) 0"

text \<open>The header: the magic and the thirteen fields tile its 110 bytes.\<close>

definition newc_header :: "u32 \<Rightarrow> u32 \<Rightarrow> u32 \<Rightarrow> u32 \<Rightarrow> u32 \<Rightarrow> byte list" where
  "newc_header inode mode nlink filesize namesize =
     NEWC_MAGIC @ write_hex inode @ write_hex mode @ write_hex 0 @ write_hex 0 @ write_hex nlink @
     write_hex 0 @ write_hex filesize @ write_hex 0 @ write_hex 0 @ write_hex 0 @ write_hex 0 @
     write_hex namesize @ write_hex 0"

definition newc_write_record ::
  "byte list \<Rightarrow> byte list \<Rightarrow> byte list \<Rightarrow> u32 \<Rightarrow> u32 \<Rightarrow> u32 \<Rightarrow> byte list build_res" where
  "newc_write_record output name dat mode inode nlink =
     rbind (ok_or B_ArchiveTooLarge (checked_add_usize (length name) 1)) (\<lambda>n.
     rbind (checked_u32 n) (\<lambda>namesize.
     rbind (checked_u32 (length dat)) (\<lambda>filesize.
     Ok (pad4 (pad4 (output @ newc_header inode mode nlink filesize namesize @ name @ [0]) @ dat)))))"

subsection \<open>The builder\<close>

definition builder_add ::
  "allocator \<Rightarrow> byte list \<Rightarrow> byte list \<Rightarrow> file_mode \<Rightarrow> builder_entry list \<Rightarrow> builder_entry list build_res" where
  "builder_add alloc path dat mode entries =
     (if length entries = MAX_RECORDS then Err B_RecordLimit
      else
        rbind (ok_or B_NameTooLong (checked_add_usize (length path) 1)) (\<lambda>n.
        if MAX_ENCODED_NAME_BYTES < n then Err B_NameTooLong
        else
          (case archive_path_new path of
             Err e \<Rightarrow> Err B_InvalidPath
           | Panic \<Rightarrow> Panic
           | Ok p \<Rightarrow>
               rbind (fallibly_reserve alloc Vec_Add 1) (\<lambda>_.
               Ok (entries @ [\<lparr>be_path = p, be_data = dat, be_mode = mode\<rparr>])))))"

fun size_loop :: "nat \<Rightarrow> byte list option \<Rightarrow> builder_entry list \<Rightarrow> nat build_res" where
  "size_loop total_size previous [] = Ok total_size"
| "size_loop total_size previous (e # es) =
     (if previous = Some (be_path e) then Err B_DuplicatePath
      else
        rbind (record_size (be_path e) (be_data e)) (\<lambda>n.
        rbind (ok_or B_ArchiveTooLarge (checked_add_usize total_size n)) (\<lambda>total'.
        rbind (ensure_archive_size total') (\<lambda>_.
        size_loop total' (Some (be_path e)) es))))"

fun write_loop :: "byte list \<Rightarrow> builder_entry list \<Rightarrow> byte list build_res" where
  "write_loop output [] = Ok output"
| "write_loop output (e # es) =
     rbind (newc_write_record output (be_path e) (be_data e) (newc_mode (be_mode e)) 0 1) (\<lambda>output'.
     write_loop output' es)"

text \<open>Entries are sorted by their path; equal paths end the build, so that the order of equal
  elements does not matter. The final assertion is checked in debug builds.\<close>

definition builder_build :: "allocator \<Rightarrow> builder_entry list \<Rightarrow> byte list build_res" where
  "builder_build alloc entries0 =
     rbind (fallibly_reserve alloc Vec_Entries (length entries0)) (\<lambda>_.
     let entries = sort_key be_path entries0 in
     rbind (record_size TRAILER_NAME []) (\<lambda>total0.
     rbind (size_loop total0 None entries) (\<lambda>total_size.
     rbind (fallibly_reserve alloc Vec_Output total_size) (\<lambda>_.
     rbind (write_loop [] entries) (\<lambda>output.
     rbind (newc_write_record output TRAILER_NAME [] 0 0 0) (\<lambda>output'.
     if length output' = total_size then Ok output' else Panic))))))"

text \<open>A whole use of the builder: files added one after the other, then built.\<close>

fun add_all ::
  "allocator \<Rightarrow> (byte list \<times> byte list \<times> file_mode) list \<Rightarrow> builder_entry list \<Rightarrow> builder_entry list build_res" where
  "add_all alloc [] entries = Ok entries"
| "add_all alloc ((path, dat, mode) # fs) entries =
     rbind (builder_add alloc path dat mode entries) (add_all alloc fs)"

definition build_archive ::
  "allocator \<Rightarrow> (byte list \<times> byte list \<times> file_mode) list \<Rightarrow> byte list build_res" where
  "build_archive alloc fs = rbind (add_all alloc fs []) (builder_build alloc)"

subsection \<open>Hexadecimal fields read back\<close>

fun hex_digits :: "nat \<Rightarrow> nat \<Rightarrow> byte list" where
  "hex_digits 0 v = []"
| "hex_digits (Suc n) v = hex_digits n (v div 16) @ [HEX_DIGITS ! (v mod 16)]"

lemma hex_digit_HEX: "d < 16 \<Longrightarrow> hex_digit (HEX_DIGITS ! d) = Some d"
proof -
  have "\<forall>d \<in> set [0..<16]. hex_digit (HEX_DIGITS ! d) = Some d" by code_simp
  then show "d < 16 \<Longrightarrow> hex_digit (HEX_DIGITS ! d) = Some d" by simp
qed

lemma hex_loop_append:
  "hex_loop offset v (xs @ ys) = rbind (hex_loop offset v xs) (\<lambda>u. hex_loop offset u ys)"
  by (induction xs arbitrary: v) (auto split: option.splits)

lemma hex_loop_digits: "n \<le> 8 \<Longrightarrow> hex_loop offset 0 (hex_digits n v) = Ok (v mod 16 ^ n)"
proof (induction n arbitrary: v)
  case 0
  then show ?case by simp
next
  case (Suc n)
  have "v mod 16 ^ Suc n = 16 * (v div 16 mod 16 ^ n) + v mod 16"
    by (simp add: mod_mult2_eq add.commute)
  moreover have "v mod 16 ^ Suc n < 16 ^ Suc n" by simp
  moreover have "(16 :: nat) ^ Suc n \<le> 16 ^ 8" using Suc.prems by (intro power_increasing) auto
  ultimately have "16 * (v div 16 mod 16 ^ n) + v mod 16 = v mod 16 ^ Suc n"
    "16 * (v div 16 mod 16 ^ n) + v mod 16 < 2 ^ 64" by (auto simp del: power_Suc)
  with Suc show ?case
    by (simp add: hex_loop_append hex_digit_HEX mult.commute del: power_Suc)
qed

lemma hex_digits_map:
  "hex_digits n v = map (\<lambda>i. HEX_DIGITS ! (v div 16 ^ (n - 1 - i) mod 16)) [0..<n]"
proof (induction n arbitrary: v)
  case 0
  then show ?case by simp
next
  case (Suc n)
  have "v div 16 div 16 ^ (n - 1 - i) = v div 16 ^ (n - i)" if "i < n" for i
  proof -
    from that have "n - i = Suc (n - 1 - i)" by simp
    then show ?thesis by (simp add: div_mult2_eq)
  qed
  with Suc show ?case by (simp add: Suc)
qed

lemma write_hex_digits: "write_hex v = hex_digits 8 (unat v)"
proof -
  have "unat (drop_bit (4 * (7 - i)) v AND 0x0f) = unat v div 16 ^ (8 - 1 - i) mod 16" for i
  proof -
    have "(0x0f :: u32) = mask 4" by (simp add: mask_eq_exp_minus_1)
    then have "drop_bit (4 * (7 - i)) v AND 0x0f = take_bit 4 (drop_bit (4 * (7 - i)) v)"
      by (simp add: take_bit_eq_mask)
    moreover have "unat v < 2 ^ LENGTH(32)" by (rule unsigned_less)
    moreover from this have "unat (take_bit 4 (drop_bit (4 * (7 - i)) v)) = unat v div 2 ^ (4 * (7 - i)) mod 2 ^ 4"
      by (simp only: unsigned_take_bit_eq unsigned_drop_bit_eq)
        (simp add: take_bit_nat_eq_self drop_bit_eq_div take_bit_eq_mod)
    ultimately show ?thesis by (simp add: power_mult)
  qed
  then show ?thesis unfolding write_hex_def hex_digits_map by simp
qed

lemma length_hex_digits [simp]: "length (hex_digits n v) = n"
  by (induction n arbitrary: v) auto

lemma length_write_hex [simp]: "length (write_hex v) = 8"
  by (simp add: write_hex_def)

lemma hex_field_write_hex: "hex_field (write_hex v) off = Ok (unat v)"
proof -
  have "unat v < 2 ^ LENGTH(32)" by (rule unsigned_less)
  then show ?thesis by (simp add: hex_field_def write_hex_digits hex_loop_digits)
qed

subsection \<open>One record reads back\<close>

definition padding :: "nat \<Rightarrow> nat" where
  "padding n = (4 - n mod 4) mod 4"

definition newc_record_bytes :: "byte list \<Rightarrow> byte list \<Rightarrow> u32 \<Rightarrow> u32 \<Rightarrow> byte list" where
  "newc_record_bytes name dat mode nlink =
     newc_header 0 mode nlink (word_of_nat (length dat)) (word_of_nat (length name + 1)) @
     name @ [0] @ replicate (padding (HEADER_SIZE + length name + 1)) 0 @
     dat @ replicate (padding (length dat)) 0"

lemma length_newc_header [simp]: "length (newc_header a b c d e) = HEADER_SIZE"
  by (simp add: newc_header_def NEWC_MAGIC_def bytes_of_def HEADER_SIZE_def)

lemma padding_dvd: "4 dvd n + padding n"
proof -
  have "n mod 4 = 0 \<or> n mod 4 = 1 \<or> n mod 4 = 2 \<or> n mod 4 = 3" by linarith
  then show ?thesis by (auto simp: padding_def) presburger+
qed

lemma padding_less: "padding n < 4"
  by (simp add: padding_def)

lemma padding_shift: "4 dvd k \<Longrightarrow> padding (k + n) = padding n"
proof -
  assume "4 dvd k"
  then have "(k + n) mod 4 = n mod 4" by presburger
  then show ?thesis by (simp only: padding_def)
qed

lemma length_newc_record_bytes:
  "length (newc_record_bytes name dat mode nlink) =
     HEADER_SIZE + length name + 1 + padding (HEADER_SIZE + length name + 1) +
     length dat + padding (length dat)"
  by (simp add: newc_record_bytes_def)

lemma newc_record_bytes_dvd: "4 dvd length (newc_record_bytes name dat mode nlink)"
proof -
  let ?n = "HEADER_SIZE + length name + 1"
  have "4 dvd (?n + padding ?n) + (length dat + padding (length dat))"
    by (intro dvd_add padding_dvd)
  then show ?thesis by (simp add: length_newc_record_bytes add.assoc)
qed

lemma newc_write_record_bytes:
  assumes "4 dvd length out" "length name + 1 < 2 ^ 32" "length dat < 2 ^ 32"
  shows "newc_write_record out name dat mode 0 nlink = Ok (out @ newc_record_bytes name dat mode nlink)"
proof -
  let ?n = "HEADER_SIZE + length name + 1"
  have "length out + ?n + padding ?n + length dat = (length out + (?n + padding ?n)) + length dat" by simp
  moreover have "4 dvd length out + (?n + padding ?n)"
    by (intro dvd_add assms(1) padding_dvd)
  ultimately have "padding (length out + ?n + padding ?n + length dat) = padding (length dat)"
    by (simp only: padding_shift)
  moreover have "padding (length out + ?n) = padding ?n" using assms(1) by (simp only: padding_shift)
  ultimately show ?thesis
    using assms(2,3)
    by (simp add: newc_write_record_def checked_u32_def checked_add_usize_def usize_max_def newc_record_bytes_def
        pad4_def padding_def [symmetric] add.assoc add.left_commute)
qed

lemma header_field_at:
  assumes "hdr = xs @ write_hex v @ ys" "length xs = a"
  shows "header_field hdr start a = Ok (unat v)"
  using assms by (simp add: header_field_def region_r_def region_def hex_field_write_hex)

lemma newc_header_fields:
  "newc_header ino mode nlink filesize namesize =
     NEWC_MAGIC @ concat (map write_hex [ino, mode, 0, 0, nlink, 0, filesize, 0, 0, 0, 0, namesize, 0])"
  by (simp add: newc_header_def)

lemma header_field_nth:
  assumes "i < length vs"
  shows "header_field (NEWC_MAGIC @ concat (map write_hex vs) @ rest) start (6 + 8 * i) =
    Ok (unat (vs ! i))"
proof (rule header_field_at)
  have "vs = take i vs @ vs ! i # drop (Suc i) vs" using assms by (rule id_take_nth_drop)
  then have "concat (map write_hex vs) =
      concat (map write_hex (take i vs)) @ write_hex (vs ! i) @ concat (map write_hex (drop (Suc i) vs))"
    by (metis concat.simps(2) concat_append list.simps(9) map_append)
  then show "NEWC_MAGIC @ concat (map write_hex vs) @ rest =
      (NEWC_MAGIC @ concat (map write_hex (take i vs))) @ write_hex (vs ! i) @
      (concat (map write_hex (drop (Suc i) vs)) @ rest)" by simp
  have "length (concat (map write_hex us)) = 8 * length us" for us
    by (induction us) simp_all
  then show "length (NEWC_MAGIC @ concat (map write_hex (take i vs))) = 6 + 8 * i"
    using assms by (simp add: NEWC_MAGIC_def bytes_of_def)
qed

lemma newc_parse_header_written:
  "newc_parse_header (newc_header ino mode nlink filesize namesize @ rest) start =
     Ok \<lparr>h_ino = unat ino, h_mode = unat mode, h_uid = 0, h_gid = 0, h_nlink = unat nlink,
         h_mtime = 0, h_filesize = unat filesize, h_devmajor = 0, h_devminor = 0, h_rdevmajor = 0,
         h_rdevminor = 0, h_namesize = unat namesize, h_check = 0\<rparr>"
proof -
  let ?vs = "[ino, mode, 0, 0, nlink, 0, filesize, 0, 0, 0, 0, namesize, 0]"
  let ?f = "NEWC_MAGIC @ concat (map write_hex ?vs) @ rest"
  have f: "header_field ?f start (6 + 8 * i) = Ok (unat (?vs ! i))" if "i < 13" for i
    using that by (intro header_field_nth) simp
  show ?thesis
    unfolding newc_header_fields append_assoc newc_parse_header_def
    using f [of 0] f [of 1] f [of 2] f [of 3] f [of 4] f [of 5] f [of 6] f [of 7] f [of 8] f [of 9]
      f [of 10] f [of 11] f [of 12]
    by (simp del: concat.simps map_append list.map)
qed

lemma align4_padding: "v + 3 \<le> usize_max \<Longrightarrow> align4 v = Some (v + padding v)"
proof -
  have "(v + 3) div 4 * 4 = v + padding v"
  proof -
    have "n mod 4 = 0 \<or> n mod 4 = 1 \<or> n mod 4 = 2 \<or> n mod 4 = 3" for n :: nat by linarith
    from this [of v] show ?thesis by (auto simp: padding_def) presburger+
  qed
  then show "v + 3 \<le> usize_max \<Longrightarrow> align4 v = Some (v + padding v)" by (simp add: align4_Some)
qed

text \<open>A slice that starts where a prefix ends.\<close>

lemma get_range_at:
  "bytes = xs @ ys @ zs \<Longrightarrow> a = length xs \<Longrightarrow> b = length xs + length ys \<Longrightarrow> get_range a b bytes = Some ys"
  by (simp add: get_range_def region_def)

lemma region_r_at:
  "bytes = xs @ ys @ zs \<Longrightarrow> a = length xs \<Longrightarrow> b = length xs + length ys \<Longrightarrow> region_r a b bytes = Ok ys"
  by (simp add: region_r_def region_def)

lemma parse_name_written:
  assumes "bytes = xs @ (name @ [0]) @ zs" "length xs = start + HEADER_SIZE" "0 \<notin> set name"
    and "length name + 1 \<le> MAX_ENCODED_NAME_BYTES" "length bytes \<le> usize_max"
  shows "parse_name bytes start (length name + 1) = Ok (name, start + HEADER_SIZE + (length name + 1))"
proof -
  have "get_range (start + HEADER_SIZE) (start + HEADER_SIZE + (length name + 1)) bytes = Some (name @ [0])"
    using assms(1,2) by (intro get_range_at) auto
  moreover have "start + HEADER_SIZE + (length name + 1) \<le> usize_max"
    using assms(1,2,5) by simp
  ultimately show ?thesis
    using assms(3,4) by (simp add: parse_name_def checked_add_usize_def)
qed

lemma parse_data_written:
  assumes "bytes = xs @ replicate (padding (length xs)) 0 @ dat @ replicate (padding (length dat)) 0 @ zs"
    and "length bytes + 3 \<le> usize_max"
  shows "parse_data bytes (length xs) (length dat) =
    Ok (dat, length xs + padding (length xs) + length dat + padding (length dat))"
proof -
  let ?a = "length xs + padding (length xs)"
  let ?e = "?a + length dat"
  have pad: "padding ?e = padding (length dat)" by (intro padding_shift padding_dvd)
  have "align4 (length xs) = Some ?a" "align4 ?e = Some (?e + padding (length dat))"
    using assms align4_padding [of "length xs"] align4_padding [of ?e] by (simp_all add: pad)
  moreover have "get_range (length xs) ?a bytes = Some (replicate (padding (length xs)) 0)"
    by (rule get_range_at [OF assms(1)]) simp_all
  moreover have "get_range ?a ?e bytes = Some dat"
    by (rule get_range_at [of _ "xs @ replicate (padding (length xs)) 0"]) (simp_all add: assms(1))
  moreover have "region_r ?e (?e + padding (length dat)) bytes =
      (Ok (replicate (padding (length dat)) 0) :: byte list parse_res)"
    by (rule region_r_at [of _ "xs @ replicate (padding (length xs)) 0 @ dat"])
      (simp_all add: assms(1))
  moreover have "?e \<le> usize_max" "?e + padding (length dat) \<le> length bytes"
    using assms by simp_all
  ultimately show ?thesis
    by (simp add: parse_data_def checked_add_usize_def list_ex_iff)
qed

lemma parse_record_written:
  assumes b: "bytes = pre @ newc_record_bytes name dat mode nlink @ post" and al: "4 dvd length pre"
    and sz: "length bytes + 3 \<le> usize_max" and nul: "0 \<notin> set name"
    and ns: "length name + 1 \<le> MAX_ENCODED_NAME_BYTES" and ds: "length dat < 2 ^ 32"
  shows "parse_record bytes (length pre) =
    classify_record (length pre)
      \<lparr>h_ino = 0, h_mode = unat mode, h_uid = 0, h_gid = 0, h_nlink = unat nlink,
       h_mtime = 0, h_filesize = length dat, h_devmajor = 0, h_devminor = 0, h_rdevmajor = 0,
       h_rdevminor = 0, h_namesize = length name + 1, h_check = 0\<rparr> name dat
      (length pre + length (newc_record_bytes name dat mode nlink))"
proof -
  let ?h = "newc_header 0 mode nlink (word_of_nat (length dat)) (word_of_nat (length name + 1))"
  let ?n = "HEADER_SIZE + length name + 1"
  let ?tail = "replicate (padding ?n) 0 @ dat @ replicate (padding (length dat)) 0 @ post"
  have bytes: "bytes = pre @ ?h @ name @ [0] @ ?tail" by (simp add: b newc_record_bytes_def)
  have ns32: "length name + 1 < 2 ^ 32" using ns by (simp add: MAX_ENCODED_NAME_BYTES_def)
  define hd rest where "hd = ?h" and "rest = name @ [0] @ ?tail"
  have hdr: "get_range (length pre) (length bytes) bytes = Some (hd @ rest)"
    by (rule get_range_at [of _ pre _ "[]"]) (simp_all add: bytes hd_def rest_def)
  have magic: "region_r 0 6 (hd @ rest) = (Ok NEWC_MAGIC :: byte list parse_res)"
    unfolding hd_def
    by (rule region_r_at [of _ "[]"]) (simp_all add: newc_header_def NEWC_MAGIC_def bytes_of_def)
  have fields: "unat (word_of_nat (length dat) :: u32) = length dat"
      "unat (word_of_nat (length name + 1) :: u32) = length name + 1"
    using ds ns32 by (simp_all add: unat_of_nat del: of_nat_add of_nat_Suc)
  have ph: "newc_parse_header (hd @ rest) (length pre) =
      Ok \<lparr>h_ino = 0, h_mode = unat mode, h_uid = 0, h_gid = 0, h_nlink = unat nlink,
         h_mtime = 0, h_filesize = length dat, h_devmajor = 0, h_devminor = 0, h_rdevmajor = 0,
         h_rdevminor = 0, h_namesize = length name + 1, h_check = 0\<rparr>"
    unfolding hd_def newc_parse_header_written fields by simp
  have len: "\<not> length (hd @ rest) < HEADER_SIZE" by (simp add: hd_def)
  have "parse_name bytes (length pre) (length name + 1) =
      Ok (name, length pre + HEADER_SIZE + (length name + 1))"
    using sz ns nul by (intro parse_name_written [of _ "pre @ ?h" _ ?tail]) (simp_all add: bytes)
  moreover have "parse_data bytes (length (pre @ ?h @ name @ [0])) (length dat) =
      Ok (dat, length (pre @ ?h @ name @ [0]) + padding (length (pre @ ?h @ name @ [0])) +
        length dat + padding (length dat))"
    using sz padding_shift [OF al, of ?n]
    by (intro parse_data_written [where zs = post]) (simp_all add: bytes add.assoc)
  ultimately show ?thesis
    using padding_shift [OF al, of ?n]
    unfolding parse_record_def hdr ok_or.simps rbind.simps if_not_P [OF len] magic ph
    by (simp add: length_newc_record_bytes add.assoc)
qed

end
