(* ===== verification/BootfsRoundTrip.thy ===== *)
theory BootfsRoundTrip
  imports BootfsBuilder "HOL-Library.Multiset"
begin

text \<open>
  The builder of boot archives against their parser: an archive that is built reads back as the
  files added, and a build succeeds exactly within the limits.
\<close>

unbundle bit_operations_syntax

subsection \<open>Whole archives read back\<close>

definition file_bytes :: "builder_entry \<Rightarrow> byte list" where
  "file_bytes e = newc_record_bytes (be_path e) (be_data e) (newc_mode (be_mode e)) 1"

definition trailer_bytes :: "byte list" where
  "trailer_bytes = newc_record_bytes TRAILER_NAME [] 0 0"

definition archive_bytes :: "builder_entry list \<Rightarrow> byte list" where
  "archive_bytes es = concat (map file_bytes es) @ trailer_bytes"

definition to_entry :: "builder_entry \<Rightarrow> archive_entry" where
  "to_entry e = \<lparr>entry_name = be_path e, entry_data = be_data e, entry_path = be_path e,
     entry_executable = (be_mode e = Executable)\<rparr>"

definition encodable :: "builder_entry \<Rightarrow> bool" where
  "encodable e \<longleftrightarrow> canonical_path (be_path e) \<and> length (be_data e) < 2 ^ 32"

lemma trailer_name: "length TRAILER_NAME = 10" "0 \<notin> set TRAILER_NAME"
  by (simp_all add: TRAILER_NAME_def bytes_of_def)

lemma mode_masks:
  "unat (newc_mode m) AND S_IFMT = S_IFREG"
  "unat (newc_mode m) = (if m = Executable then MODE_EXECUTABLE else MODE_READ_ONLY)"
  by (cases m; simp add: S_IFMT_def S_IFREG_def MODE_EXECUTABLE_def MODE_READ_ONLY_def)+

lemma parse_file_written:
  assumes "bytes = pre @ file_bytes e @ post" "4 dvd length pre" "length bytes + 3 \<le> usize_max"
    and "encodable e"
  shows "parse_record bytes (length pre) =
    Ok \<lparr>rec_start = length pre, rec_next = length pre + length (file_bytes e),
        rec_name = be_path e, rec_data = be_data e, rec_path = Some (be_path e),
        rec_executable = (be_mode e = Executable), rec_is_trailer = False\<rparr>"
proof -
  have c: "canonical_path (be_path e)" using assms(4) by (simp add: encodable_def)
  then have "archive_path_new (be_path e) = Ok (be_path e)" by (simp add: archive_path_new_simps)
  moreover have "MODE_EXECUTABLE \<noteq> MODE_READ_ONLY" by (simp add: MODE_EXECUTABLE_def MODE_READ_ONLY_def)
  moreover have "0 \<notin> set (be_path e)" "length (be_path e) + 1 \<le> MAX_ENCODED_NAME_BYTES"
      "be_path e \<noteq> TRAILER_NAME"
    using c by (auto simp: canonical_path_def)
  moreover have "length (be_data e) < 2 ^ 32" using assms(4) by (simp add: encodable_def)
  ultimately show ?thesis
    using parse_record_written [OF assms(1) [unfolded file_bytes_def] assms(2,3)] mode_masks [of "be_mode e"]
    by (simp add: file_bytes_def classify_record_def file_metadata_def split: if_splits)
qed

lemma parse_trailer_written:
  assumes "bytes = pre @ trailer_bytes" "4 dvd length pre" "length bytes + 3 \<le> usize_max"
  shows "parse_record bytes (length pre) =
    Ok \<lparr>rec_start = length pre, rec_next = length bytes, rec_name = TRAILER_NAME, rec_data = [],
        rec_path = None, rec_executable = False, rec_is_trailer = True\<rparr>"
  using parse_record_written [of bytes pre TRAILER_NAME "[]" 0 0 "[]"] assms trailer_name
  by (simp add: trailer_bytes_def classify_record_def trailer_metadata_def MAX_ENCODED_NAME_BYTES_def)

lemma archive_reads_back:
  assumes "bytes = pre @ archive_bytes es" "4 dvd length pre" "length bytes + 3 \<le> usize_max"
    and "list_all encodable es" "sorted_wrt (<) (map be_path es)"
    and "list_all (\<lambda>e. above prev (be_path e)) es" "n + length es \<le> MAX_RECORDS"
  shows "new_loop bytes (length pre) prev n = Ok () \<and>
    entries_from bytes (length pre) = Some (map to_entry es)"
  using assms
proof (induction es arbitrary: pre prev n)
  case Nil
  then have "parse_record bytes (length pre) =
    Ok \<lparr>rec_start = length pre, rec_next = length bytes, rec_name = TRAILER_NAME, rec_data = [],
        rec_path = None, rec_executable = False, rec_is_trailer = True\<rparr>"
    by (intro parse_trailer_written) (simp_all add: archive_bytes_def)
  then show ?case
    by (simp add: new_loop.simps [of bytes "length pre"] entries_from.simps [of bytes "length pre"]
        entries_next_def)
next
  case (Cons e es)
  let ?pre = "pre @ file_bytes e"
  have b: "bytes = pre @ file_bytes e @ archive_bytes es"
    using Cons.prems(1) by (simp add: archive_bytes_def)
  have "encodable e" using Cons.prems(4) by simp
  note p = parse_file_written [OF b Cons.prems(2,3) this]
  have "4 dvd length ?pre" using Cons.prems(2) newc_record_bytes_dvd by (simp add: file_bytes_def)
  moreover have "list_all (\<lambda>x. above (Some (be_path e)) (be_path x)) es"
    using Cons.prems(5) by (auto simp: above_def list_all_iff)
  ultimately have IH: "new_loop bytes (length ?pre) (Some (be_path e)) (Suc n) = Ok () \<and>
      entries_from bytes (length ?pre) = Some (map to_entry es)"
    using Cons.prems b by (intro Cons.IH) (simp_all add: archive_bytes_def)
  moreover have "above prev (be_path e)" using Cons.prems(6) by simp
  then have "new_loop bytes (length pre) prev n =
      new_loop bytes (length ?pre) (Some (be_path e)) (Suc n)"
    using Cons.prems(7)
    by (subst new_loop.simps) (auto simp: p Let_def above_def split: option.splits)
  moreover have "entries_from bytes (length pre) =
      map_option (Cons (to_entry e)) (entries_from bytes (length ?pre))"
    by (subst entries_from.simps) (simp add: p entries_next_def to_entry_def)
  ultimately show ?case by simp
qed

subsection \<open>The builder writes exactly these bytes\<close>

lemma build_align4_simps:
  "build_align4 v = Ok a \<longleftrightarrow> v + 3 \<le> usize_max \<and> a = v + padding v"
  "build_align4 v \<noteq> Panic"
  using align4_padding [of v]
  by (auto simp: build_align4_def align4_def [symmetric] res_simps align4_Some)

lemma record_size_Ok:
  "record_size name dat = Ok n \<longleftrightarrow> length name + 1 < 2 ^ 32 \<and> length dat < 2 ^ 32 \<and>
     n = length (newc_record_bytes name dat mode nlink)"
proof -
  let ?n = "HEADER_SIZE + length name + 1"
  have pad: "padding (?n + padding ?n + length dat) = padding (length dat)"
    by (intro padding_shift padding_dvd)
  have "padding ?n < 4" "padding (length dat) < 4" by (rule padding_less)+
  then have "record_size name dat = Ok n \<longleftrightarrow> length name + 1 < 2 ^ 32 \<and> length dat < 2 ^ 32 \<and>
      n = ?n + padding ?n + length dat + padding (?n + padding ?n + length dat)"
    by (auto simp: record_size_def res_simps build_align4_simps checked_add_usize_def checked_u32_def
        bind_eq_Some_conv usize_max_def HEADER_SIZE_def split: if_splits)
  then show ?thesis by (simp only: pad length_newc_record_bytes)
qed

lemma record_size_no_panic: "record_size name dat \<noteq> Panic"
  by (auto simp: record_size_def res_simps build_align4_simps checked_u32_def)

lemma write_loop_bytes:
  assumes "4 dvd length out"
    and "list_all (\<lambda>e. length (be_path e) + 1 < 2 ^ 32 \<and> length (be_data e) < 2 ^ 32) es"
  shows "write_loop out es = Ok (out @ concat (map file_bytes es))"
  using assms
proof (induction es arbitrary: out)
  case Nil
  then show ?case by simp
next
  case (Cons e es)
  have "4 dvd length (out @ file_bytes e)"
    using Cons.prems(1) newc_record_bytes_dvd by (simp add: file_bytes_def)
  with Cons show ?case by (simp add: newc_write_record_bytes file_bytes_def)
qed

definition no_repeat :: "byte list option \<Rightarrow> byte list list \<Rightarrow> bool" where
  "no_repeat prev ps = (distinct_adj ps \<and> (prev = None \<or> ps = [] \<or> hd ps \<noteq> the prev))"

lemma size_loop_Ok:
  "size_loop t prev es = Ok t' \<longleftrightarrow>
     no_repeat prev (map be_path es) \<and>
     list_all (\<lambda>e. length (be_path e) + 1 < 2 ^ 32 \<and> length (be_data e) < 2 ^ 32) es \<and>
     t' = t + length (concat (map file_bytes es)) \<and> (es = [] \<or> t' \<le> MAX_ARCHIVE_BYTES)"
proof (induction es arbitrary: t prev)
  case Nil
  then show ?case by (auto simp: no_repeat_def)
next
  case (Cons e es)
  have rs: "record_size (be_path e) (be_data e) = Ok n \<longleftrightarrow>
      length (be_path e) + 1 < 2 ^ 32 \<and> length (be_data e) < 2 ^ 32 \<and> n = length (file_bytes e)" for n
    unfolding file_bytes_def by (rule record_size_Ok)
  have us: "MAX_ARCHIVE_BYTES \<le> usize_max" by (simp add: MAX_ARCHIVE_BYTES_def usize_max_def)
  have nr: "no_repeat prev (map be_path (e # es)) \<longleftrightarrow>
      prev \<noteq> Some (be_path e) \<and> no_repeat (Some (be_path e)) (map be_path es)"
    by (cases es; cases prev) (auto simp: no_repeat_def)
  show ?case
    unfolding size_loop.simps nr using us
    by (auto simp: res_simps rs checked_add_usize_def ensure_archive_size_def Cons.IH)
qed

lemma size_loop_no_panic: "size_loop t prev es \<noteq> Panic"
  by (induction es arbitrary: t prev)
    (auto simp: res_simps record_size_no_panic ensure_archive_size_def)

lemma archive_bytes_length:
  "length (archive_bytes es) = length (concat (map file_bytes es)) + length trailer_bytes"
  by (simp add: archive_bytes_def)

lemma entries_bytes_dvd: "4 dvd length (concat (map file_bytes es))"
proof (induction es)
  case Nil
  then show ?case by simp
next
  case (Cons e es)
  then show ?case using newc_record_bytes_dvd by (simp add: file_bytes_def)
qed

definition sizes_ok :: "builder_entry list \<Rightarrow> bool" where
  "sizes_ok es = list_all (\<lambda>e. length (be_path e) + 1 < 2 ^ 32 \<and> length (be_data e) < 2 ^ 32) es"

text \<open>What a build needs besides memory: no path twice, fields that fit, the size limit.\<close>

definition buildable :: "builder_entry list \<Rightarrow> bool" where
  "buildable es \<longleftrightarrow> distinct_adj (map be_path es) \<and> sizes_ok es \<and>
     (es = [] \<or> length (archive_bytes es) \<le> MAX_ARCHIVE_BYTES)"

lemma size_loop_archive:
  "size_loop (length trailer_bytes) None es = Ok n \<longleftrightarrow> buildable es \<and> n = length (archive_bytes es)"
  by (auto simp: size_loop_Ok no_repeat_def archive_bytes_length buildable_def sizes_ok_def)

lemma write_archive:
  assumes "sizes_ok es"
  shows "write_loop [] es = Ok (concat (map file_bytes es))"
    and "newc_write_record (concat (map file_bytes es)) TRAILER_NAME [] 0 0 0 = Ok (archive_bytes es)"
  using write_loop_bytes [of "[]" es] assms trailer_name
  by (simp_all add: sizes_ok_def newc_write_record_bytes entries_bytes_dvd archive_bytes_def trailer_bytes_def)

lemma builder_build_eq:
  "builder_build alloc es0 =
     (let es = sort_key be_path es0 in
      if \<not> alloc Vec_Entries (length es0) then Err B_AllocationFailure
      else if \<not> buildable es then
        (case size_loop (length trailer_bytes) None es of Err e \<Rightarrow> Err e | _ \<Rightarrow> Err B_ArchiveTooLarge)
      else if \<not> alloc Vec_Output (length (archive_bytes es)) then Err B_AllocationFailure
      else Ok (archive_bytes es))"
proof -
  let ?es = "sort_key be_path es0"
  have t: "record_size TRAILER_NAME [] = Ok (length trailer_bytes)"
    unfolding trailer_bytes_def by (simp add: record_size_Ok [where mode = 0 and nlink = 0] trailer_name)
  note unf = builder_build_def Let_def t rbind.simps fallibly_reserve_def
  show ?thesis
  proof (cases "buildable ?es")
    case True
    then have "size_loop (length trailer_bytes) None ?es = Ok (length (archive_bytes ?es))"
      by (simp add: size_loop_archive)
    moreover from True have "sizes_ok ?es" by (simp add: buildable_def)
    ultimately show ?thesis using True by (simp add: unf write_archive)
  next
    case False
    then obtain e where "size_loop (length trailer_bytes) None ?es = Err e"
      using size_loop_no_panic [of "length trailer_bytes" None ?es]
      by (cases "size_loop (length trailer_bytes) None ?es") (auto simp: size_loop_archive)
    with False show ?thesis by (simp add: unf)
  qed
qed

lemma builder_build_Ok:
  "builder_build alloc es0 = Ok bytes \<longleftrightarrow>
     alloc Vec_Entries (length es0) \<and> alloc Vec_Output (length (archive_bytes (sort_key be_path es0))) \<and>
     buildable (sort_key be_path es0) \<and> bytes = archive_bytes (sort_key be_path es0)"
  "builder_build alloc es0 \<noteq> Panic"
  by (auto simp: builder_build_eq Let_def split: res.splits)

subsection \<open>Adding files\<close>

definition file_entry :: "byte list \<times> byte list \<times> file_mode \<Rightarrow> builder_entry" where
  "file_entry f = \<lparr>be_path = fst f, be_data = fst (snd f), be_mode = snd (snd f)\<rparr>"

lemma builder_add_Ok:
  "builder_add alloc p d m es = Ok es' \<longleftrightarrow>
     length es \<noteq> MAX_RECORDS \<and> canonical_path p \<and> alloc Vec_Add 1 \<and> es' = es @ [file_entry (p, d, m)]"
  "builder_add alloc p d m es \<noteq> Panic"
proof -
  have "canonical_path p \<Longrightarrow> length p + 1 \<le> MAX_ENCODED_NAME_BYTES" by (simp add: canonical_path_def)
  moreover have "MAX_ENCODED_NAME_BYTES \<le> usize_max"
    by (simp add: MAX_ENCODED_NAME_BYTES_def usize_max_def)
  ultimately show "builder_add alloc p d m es = Ok es' \<longleftrightarrow>
     length es \<noteq> MAX_RECORDS \<and> canonical_path p \<and> alloc Vec_Add 1 \<and> es' = es @ [file_entry (p, d, m)]"
    by (auto simp: builder_add_def res_simps checked_add_usize_def fallibly_reserve_def file_entry_def
        archive_path_new_simps split: res.splits)
      (use archive_path_new_simps(1) [of p p] in auto)
  show "builder_add alloc p d m es \<noteq> Panic"
    by (auto simp: builder_add_def res_simps archive_path_new_simps fallibly_reserve_def split: res.splits)
qed

lemma add_all_Ok:
  "length es \<le> MAX_RECORDS \<Longrightarrow>
     add_all alloc fs es = Ok es' \<longleftrightarrow>
       length es + length fs \<le> MAX_RECORDS \<and> list_all (\<lambda>f. canonical_path (fst f)) fs \<and>
       (fs = [] \<or> alloc Vec_Add 1) \<and> es' = es @ map file_entry fs"
proof (induction fs arbitrary: es)
  case Nil
  then show ?case by auto
next
  case (Cons f fs)
  obtain p d m where f: "f = (p, d, m)" by (cases f)
  show ?case
  proof (cases "length es = MAX_RECORDS")
    case True
    then show ?thesis by (auto simp: f res_simps builder_add_Ok)
  next
    case False
    then have "length (es @ [file_entry f]) \<le> MAX_RECORDS" using Cons.prems by simp
    from Cons.IH [OF this] False show ?thesis by (auto simp: f res_simps builder_add_Ok)
  qed
qed

lemma add_all_no_panic: "add_all alloc fs es \<noteq> Panic"
  by (induction alloc fs es rule: add_all.induct) (auto simp: res_simps builder_add_Ok)

lemma strict_sorted_sort_key:
  fixes es :: "builder_entry list"
  shows "distinct_adj (map be_path (sort_key be_path es)) \<longleftrightarrow>
    sorted_wrt (<) (map be_path (sort_key be_path es))"
proof -
  have "sorted ps \<Longrightarrow> distinct_adj ps \<longleftrightarrow> sorted_wrt (<) ps" for ps :: "byte list list"
  proof (induction ps)
    case Nil
    then show ?case by simp
  next
    case (Cons p ps)
    then show ?case
      by (cases ps) (auto intro: order.strict_trans1 simp: less_le)
  qed
  then show ?thesis by simp
qed

lemma sorted_distinct:
  fixes es :: "builder_entry list"
  shows "sorted_wrt (<) (map be_path (sort_key be_path es)) \<longleftrightarrow> distinct (map be_path es)"
proof -
  have "mset (map be_path (sort_key be_path es)) = mset (map be_path es)"
    by (simp only: mset_map mset_sort)
  then have "distinct (map be_path (sort_key be_path es)) \<longleftrightarrow> distinct (map be_path es)"
    by (metis mset_eq_imp_distinct_iff)
  moreover have "sorted (map be_path (sort_key be_path es))" by simp
  ultimately show ?thesis by (simp only: strict_sorted_iff) simp
qed

subsection \<open>Properties\<close>

lemma build_archive_Ok:
  "build_archive alloc fs = Ok bytes \<longleftrightarrow>
     length fs \<le> MAX_RECORDS \<and> list_all (\<lambda>f. canonical_path (fst f)) fs \<and>
     (fs = [] \<or> alloc Vec_Add 1) \<and>
     builder_build alloc (map file_entry fs) = Ok bytes"
  "build_archive alloc fs \<noteq> Panic"
proof -
  have a: "add_all alloc fs [] = Ok es \<longleftrightarrow> length fs \<le> MAX_RECORDS \<and>
      list_all (\<lambda>f. canonical_path (fst f)) fs \<and> (fs = [] \<or> alloc Vec_Add 1) \<and> es = map file_entry fs" for es
    using add_all_Ok [of "[]" alloc fs es] by simp
  show "build_archive alloc fs = Ok bytes \<longleftrightarrow>
     length fs \<le> MAX_RECORDS \<and> list_all (\<lambda>f. canonical_path (fst f)) fs \<and>
     (fs = [] \<or> alloc Vec_Add 1) \<and> builder_build alloc (map file_entry fs) = Ok bytes"
    by (auto simp: build_archive_def res_simps a)
  show "build_archive alloc fs \<noteq> Panic"
    by (auto simp: build_archive_def res_simps add_all_no_panic builder_build_Ok)
qed

text \<open>What a build that succeeds knows of its sorted entries.\<close>

lemma buildable_encodable:
  assumes "buildable (sort_key be_path (map file_entry fs))" "list_all (\<lambda>f. canonical_path (fst f)) fs"
  shows "list_all encodable (sort_key be_path (map file_entry fs))"
  using assms by (auto simp: buildable_def sizes_ok_def encodable_def list_all_iff file_entry_def)

lemma archive_bytes_small:
  assumes "buildable es"
  shows "length (archive_bytes es) \<le> MAX_ARCHIVE_BYTES"
proof (cases "es = []")
  case True
  have "padding 121 < 4" "padding 0 < 4" by (rule padding_less)+
  with True show ?thesis
    using trailer_name
    by (simp add: archive_bytes_def trailer_bytes_def length_newc_record_bytes HEADER_SIZE_def
        MAX_ARCHIVE_BYTES_def)
next
  case False
  with assms show ?thesis by (simp add: buildable_def)
qed

lemma built_archive_reads_back:
  assumes "build_archive alloc fs = Ok bytes"
  shows "archive_new bytes = Ok bytes \<and>
    entries_from bytes 0 = Some (map to_entry (sort_key be_path (map file_entry fs)))"
proof -
  let ?es = "sort_key be_path (map file_entry fs)"
  from assms have "length fs \<le> MAX_RECORDS" and b: "bytes = archive_bytes ?es" "buildable ?es"
    and "list_all (\<lambda>f. canonical_path (fst f)) fs"
    by (simp_all add: build_archive_Ok builder_build_Ok)
  moreover have "length bytes \<le> MAX_ARCHIVE_BYTES" using b archive_bytes_small by simp
  moreover have "length bytes + 3 \<le> usize_max"
    using \<open>length bytes \<le> MAX_ARCHIVE_BYTES\<close> by (simp add: MAX_ARCHIVE_BYTES_def usize_max_def)
  moreover have "sorted_wrt (<) (map be_path ?es)"
    using b(2) by (simp only: buildable_def strict_sorted_sort_key)
  moreover have "list_all encodable ?es" using assms b(2)
    by (intro buildable_encodable) (simp_all add: build_archive_Ok)
  ultimately have "new_loop bytes (length ([] :: byte list)) None 0 = Ok () \<and>
      entries_from bytes (length ([] :: byte list)) = Some (map to_entry ?es)"
    by (intro archive_reads_back) (simp_all add: above_def list_all_iff)
  with \<open>length bytes \<le> MAX_ARCHIVE_BYTES\<close> show ?thesis
    by (simp add: archive_new_def check_archive_length_def)
qed

text \<open>C9. What the builder emits, the boot parser reads back. Building never panics (its final
  length assertion holds). The archive built from a list of files is accepted by the parser, its
  iteration gives exactly these files sorted by their path, and lookup of each path gives that
  file's bytes and its permission.\<close>

theorem built_archive_round_trip:
  "case build_archive alloc fs of
     Panic \<Rightarrow> False
   | Err e \<Rightarrow> True
   | Ok bytes \<Rightarrow>
       archive_new bytes = Ok bytes \<and>
       entries_from bytes 0 = Some (map to_entry (sort_key be_path (map file_entry fs))) \<and>
       list_all (\<lambda>(path, dat, mode). archive_lookup bytes path =
         Ok \<lparr>entry_name = path, entry_data = dat, entry_path = path,
             entry_executable = (mode = Executable)\<rparr>) fs"
proof (cases "build_archive alloc fs")
  case (Ok bytes)
  note r = built_archive_reads_back [OF Ok]
  from r archive_new_entries [of bytes] have g: "entries_from bytes 0 =
      Some (map to_entry (sort_key be_path (map file_entry fs)))"
      "good_entries None (map to_entry (sort_key be_path (map file_entry fs)))"
    by auto
  have "archive_lookup bytes path = Ok (to_entry (file_entry (path, dat, mode)))"
    if "(path, dat, mode) \<in> set fs" for path dat mode
  proof -
    have "to_entry (file_entry (path, dat, mode)) \<in>
        set (map to_entry (sort_key be_path (map file_entry fs)))" using that by simp
    from lookup_member [OF g this] show ?thesis by (simp add: to_entry_def file_entry_def)
  qed
  with r show ?thesis
    by (auto simp: Ok list_all_iff to_entry_def file_entry_def)
qed (simp_all add: build_archive_Ok)

text \<open>Given memory, a build succeeds exactly when there are no more files than the limit,
  every path is canonical, no path occurs twice and the archive is within the size limit.\<close>

theorem build_succeeds_iff:
  "(\<exists>bytes. build_archive (\<lambda>_ _. True) fs = Ok bytes) =
     (length fs \<le> MAX_RECORDS \<and> list_all (\<lambda>f. canonical_path (fst f)) fs \<and> distinct (map fst fs) \<and>
      length (archive_bytes (map file_entry fs)) \<le> MAX_ARCHIVE_BYTES)"
proof -
  let ?es = "sort_key be_path (map file_entry fs)"
  have "sum_list (map g ?es) = sum_list (map g (map file_entry fs))" for g :: "builder_entry \<Rightarrow> nat"
    by (metis mset_map mset_sort sum_mset_sum_list)
  from this [of "length \<circ> file_bytes"]
  have len: "length (archive_bytes ?es) = length (archive_bytes (map file_entry fs))"
    by (simp add: archive_bytes_length length_concat comp_def)
  have d: "distinct_adj (map be_path ?es) \<longleftrightarrow> distinct (map fst fs)"
    by (simp only: strict_sorted_sort_key sorted_distinct) (simp add: file_entry_def comp_def)
  have "sizes_ok ?es" if "length (archive_bytes ?es) \<le> MAX_ARCHIVE_BYTES"
  proof -
    have "length (file_bytes e) \<le> length (archive_bytes ?es)" if "e \<in> set ?es" for e
      using that member_le_sum_list [of "length (file_bytes e)" "map (length \<circ> file_bytes) ?es"]
      by (simp add: archive_bytes_length length_concat comp_def)
    moreover have "length (be_path e) + 1 \<le> length (file_bytes e)" "length (be_data e) \<le> length (file_bytes e)" for e
      by (simp_all add: file_bytes_def length_newc_record_bytes)
    ultimately have "length (be_path e) + 1 \<le> MAX_ARCHIVE_BYTES \<and> length (be_data e) \<le> MAX_ARCHIVE_BYTES"
      if "e \<in> set ?es" for e
      using that \<open>length (archive_bytes ?es) \<le> MAX_ARCHIVE_BYTES\<close> by (meson order_trans)
    moreover have "MAX_ARCHIVE_BYTES < 2 ^ 32" by (simp add: MAX_ARCHIVE_BYTES_def)
    ultimately show ?thesis unfolding sizes_ok_def list_all_iff by (meson le_less_trans)
  qed
  then have "buildable ?es \<longleftrightarrow> distinct (map fst fs) \<and> length (archive_bytes ?es) \<le> MAX_ARCHIVE_BYTES"
    using d archive_bytes_small [of ?es] by (auto simp: buildable_def)
  then show ?thesis by (auto simp: build_archive_Ok builder_build_Ok len)
qed

end
