(* ===== verification/StartupWrite.thy ===== *)
theory StartupWrite
  imports Elf Utf8
begin

text \<open>
  The startup blocks the loader writes for a child process
  (\<^verbatim>\<open>src/crates/wyrmroot-loader/src/image.rs\<close>): the version 1 page with a display path and the
  version 2 block with arguments and environment, and the plans of the segment and stack objects.
  Strings are the bytes of the source's \<^verbatim>\<open>&str\<close>. The word vectors and the strings are written at
  two offsets that move through the same zeroed buffer.
\<close>

definition STARTUP_ABI_VERSION :: u64 where "STARTUP_ABI_VERSION = 1"
definition STARTUP_ABI_V2 :: u64 where "STARTUP_ABI_V2 = 2"
definition STARTUP_PAGE_ADDRESS :: u64 where "STARTUP_PAGE_ADDRESS = STACK_TOP - PAGE_SIZE"
definition INITIAL_STACK_POINTER :: u64 where "INITIAL_STACK_POINTER = STARTUP_PAGE_ADDRESS"
definition STARTUP_V2_BLOCK_BYTES :: nat where "STARTUP_V2_BLOCK_BYTES = 5 * unat PAGE_SIZE"
definition STARTUP_V2_BLOCK_ADDRESS :: u64 where
  "STARTUP_V2_BLOCK_ADDRESS = STACK_TOP - word_of_nat STARTUP_V2_BLOCK_BYTES"

record materialization_plan =
  mp_object_size :: u64
  mp_source_offset :: u64
  mp_source_size :: u64
  mp_destination_offset :: u64
  mp_child_address :: u64
  mp_protection :: segment_protection

definition materialization_from :: "load_segment \<Rightarrow> materialization_plan" where
  "materialization_from s =
     \<lparr>mp_object_size = ls_mapping_size s, mp_source_offset = ls_file_offset s,
      mp_source_size = ls_file_size s, mp_destination_offset = ls_leading_bytes s,
      mp_child_address = ls_mapping_start s, mp_protection = ls_protection s\<rparr>"

record stack_plan =
  sp_object_size :: u64
  sp_child_address :: u64
  sp_startup_page_offset :: u64
  sp_stack_pointer :: u64

definition INITIAL_STACK :: stack_plan where
  "INITIAL_STACK =
     \<lparr>sp_object_size = STACK_BYTES, sp_child_address = STACK_TOP - STACK_BYTES,
      sp_startup_page_offset = STACK_BYTES - PAGE_SIZE, sp_stack_pointer = INITIAL_STACK_POINTER\<rparr>"

datatype startup_block_error =
    SB_PageSize | SB_EmptyDisplayPath | SB_DisplayPathContainsNul | SB_DisplayPathTooLong
  | SB_PointerOverflow | SB_TooManyArguments | SB_TooManyEnvironmentEntries
  | SB_StringBytesExceeded | SB_InvalidEnvironment | SB_DuplicateEnvironment | SB_Argv0Mismatch
  | SB_StringContainsNul

type_synonym 'a sb_res = "(startup_block_error, 'a) res"

subsection \<open>Buffer writes\<close>

text \<open>\<^verbatim>\<open>block[a..b].copy_from_slice(src)\<close> with a range of the length of the source.\<close>

definition copy_into :: "nat \<Rightarrow> byte list \<Rightarrow> byte list \<Rightarrow> byte list sb_res" where
  "copy_into off bs out = (if off + length bs \<le> length out then Ok (overwrite off bs out) else Panic)"

definition sb_put_u64 :: "byte list \<Rightarrow> nat \<Rightarrow> u64 \<Rightarrow> byte list sb_res" where
  "sb_put_u64 bytes offset value = copy_into offset (to_le 8 value) bytes"

definition fill_zero :: "byte list \<Rightarrow> byte list" where
  "fill_zero bytes = replicate (length bytes) 0"

subsection \<open>Version 1\<close>

definition write_startup_block :: "byte list \<Rightarrow> u64 \<Rightarrow> byte list \<Rightarrow> byte list sb_res" where
  "write_startup_block page page_address display_path =
     (let STRING_OFFSET = 6 * 8 in
      if length page \<noteq> unat PAGE_SIZE then Err SB_PageSize
      else if display_path = [] then Err SB_EmptyDisplayPath
      else if 0 \<in> set display_path then Err SB_DisplayPathContainsNul
      else
        rbind (ok_or SB_DisplayPathTooLong
          (Option.bind (checked_add_usize STRING_OFFSET (length display_path))
             (\<lambda>e. checked_add_usize e 1))) (\<lambda>string_end.
        if length page < string_end then Err SB_DisplayPathTooLong
        else
          rbind (ok_or SB_PointerOverflow (checked_add_u64 page_address (word_of_nat STRING_OFFSET))) (\<lambda>argv0.
          rbind (sb_put_u64 (fill_zero page) 0 1) (\<lambda>page1.
          rbind (sb_put_u64 page1 8 argv0) (\<lambda>page2.
          copy_into STRING_OFFSET display_path page2)))))"

subsection \<open>Version 2\<close>

definition EQUALS :: byte where "EQUALS = 61"

definition ascii_upper :: "byte \<Rightarrow> bool" where "ascii_upper b \<longleftrightarrow> 65 \<le> b \<and> b \<le> 90"

text \<open>\<^verbatim>\<open>split_once('=')\<close>: the part before the first separator.\<close>

definition split_once_eq :: "byte list \<Rightarrow> (byte list \<times> byte list) option" where
  "split_once_eq v =
     map_option (\<lambda>i. (take i v, drop (Suc i) v)) (position (\<lambda>b. b = EQUALS) v)"

definition name_rule :: "byte list \<Rightarrow> bool" where
  "name_rule n \<longleftrightarrow> n \<noteq> [] \<and> length n \<le> 64 \<and> (ascii_upper (hd n) \<or> hd n = 95) \<and>
     list_all (\<lambda>b. ascii_upper b \<or> ascii_digit b \<or> b = 95) (tl n)"

definition sb_environment_name :: "byte list \<Rightarrow> byte list sb_res" where
  "sb_environment_name value =
     rbind (ok_or SB_InvalidEnvironment (split_once_eq value)) (\<lambda>(name, _).
     if \<not> name_rule name then Err SB_InvalidEnvironment else Ok name)"

record startup_plan =
  p_block_address :: u64
  p_argv :: "byte list list"
  p_environment :: "byte list list"
  p_string_start :: nat

fun sum_lengths :: "nat \<Rightarrow> byte list list \<Rightarrow> nat option" where
  "sum_lengths n [] = Some n"
| "sum_lengths n (s # ss) = Option.bind (checked_add_usize n (length s)) (\<lambda>m. sum_lengths m ss)"

text \<open>The loop over the environment, with the entries before the current one.\<close>

fun env_loop :: "byte list list \<Rightarrow> byte list list \<Rightarrow> unit sb_res" where
  "env_loop before [] = Ok ()"
| "env_loop before (v # vs) =
     rbind (sb_environment_name v) (\<lambda>name.
     if list_ex (\<lambda>other. sb_environment_name other = Ok name) before then Err SB_DuplicateEnvironment
     else env_loop (before @ [v]) vs)"

definition MAX_ARGV :: nat where "MAX_ARGV = 64"
definition MAX_ENVIRONMENT :: nat where "MAX_ENVIRONMENT = 64"
definition MAX_STRING_BYTES :: nat where "MAX_STRING_BYTES = 16 * 1024"

definition startup_plan_new ::
  "nat \<Rightarrow> u64 \<Rightarrow> byte list \<Rightarrow> byte list list \<Rightarrow> byte list list \<Rightarrow> startup_plan sb_res" where
  "startup_plan_new block_len block_address path argv environment =
     (if block_len \<noteq> STARTUP_V2_BLOCK_BYTES then Err SB_PageSize
      else if argv = [] \<or> MAX_ARGV < length argv then Err SB_TooManyArguments
      else if MAX_ENVIRONMENT < length environment then Err SB_TooManyEnvironmentEntries
      else if hd argv \<noteq> path then Err SB_Argv0Mismatch
      else if path = [] then Err SB_EmptyDisplayPath
      else if 0 \<in> set path then Err SB_DisplayPathContainsNul
      else if list_ex (\<lambda>v. 0 \<in> set v) (tl argv @ environment) then Err SB_StringContainsNul
      else
        rbind (ok_or SB_StringBytesExceeded (sum_lengths 0 (argv @ environment))) (\<lambda>aggregate.
        if MAX_STRING_BYTES < aggregate then Err SB_StringBytesExceeded
        else
          rbind (ok_or SB_StringBytesExceeded
            (Option.bind (checked_add_usize aggregate (length argv))
               (\<lambda>v. checked_add_usize v (length environment)))) (\<lambda>encoded.
          rbind (env_loop [] environment) (\<lambda>_.
          rbind (ok_or SB_StringBytesExceeded
            (Option.bind (checked_add_usize 1 (length argv)) (\<lambda>v.
             Option.bind (checked_add_usize v 1) (\<lambda>v.
             Option.bind (checked_add_usize v (length environment)) (\<lambda>v.
             checked_add_usize v (1 + 2)))))) (\<lambda>vector_words.
          rbind (ok_or SB_StringBytesExceeded (checked_mul_usize vector_words 8)) (\<lambda>string_start.
          if block_len < string_start + encoded then Err SB_StringBytesExceeded
          else
            rbind (ok_or SB_PointerOverflow
              (checked_add_u64 block_address (word_of_nat (string_start + encoded)))) (\<lambda>_.
            Ok \<lparr>p_block_address = block_address, p_argv = argv, p_environment = environment,
                p_string_start = string_start\<rparr>)))))))"

text \<open>The loop over one vector: its pointer words and its strings. The pointer addition panics on
  overflow, as in a build with overflow checks.\<close>

fun write_vector ::
  "u64 \<Rightarrow> byte list list \<Rightarrow> nat \<Rightarrow> nat \<Rightarrow> byte list \<Rightarrow> (nat \<times> nat \<times> byte list) sb_res" where
  "write_vector addr [] word_offset string_offset block = Ok (word_offset, string_offset, block)"
| "write_vector addr (v # vs) word_offset string_offset block =
     rbind (unwrap (checked_add_u64 addr (word_of_nat string_offset))) (\<lambda>pointer.
     rbind (sb_put_u64 block word_offset pointer) (\<lambda>block1.
     rbind (copy_into string_offset v block1) (\<lambda>block2.
     write_vector addr vs (word_offset + 8) (string_offset + length v + 1) block2)))"

definition startup_plan_write :: "startup_plan \<Rightarrow> byte list \<Rightarrow> byte list sb_res" where
  "startup_plan_write plan block =
     (if length block \<noteq> STARTUP_V2_BLOCK_BYTES then Panic
      else
        rbind (sb_put_u64 (fill_zero block) 0 (word_of_nat (length (p_argv plan)))) (\<lambda>block1.
        rbind (write_vector (p_block_address plan) (p_argv plan) 8 (p_string_start plan) block1)
          (\<lambda>(word_offset, string_offset, block2).
        rbind (write_vector (p_block_address plan) (p_environment plan) (word_offset + 8) string_offset block2)
          (\<lambda>(_, _, block3). Ok block3))))"

definition write_startup_block_v2 ::
  "byte list \<Rightarrow> u64 \<Rightarrow> byte list \<Rightarrow> byte list list \<Rightarrow> byte list list \<Rightarrow> byte list sb_res" where
  "write_startup_block_v2 block block_address path argv environment =
     rbind (startup_plan_new (length block) block_address path argv environment) (\<lambda>plan.
     startup_plan_write plan block)"

end
