(* ===== verification/Startup.thy ===== *)
theory Startup
  imports StartupWrite
begin

text \<open>
  The startup block as the child reads it (\<^verbatim>\<open>src/crates/wyrmroot-runtime/src/startup.rs\<close>):
  validation of both versions, and the accessors for arguments, environment and auxiliary entries.
  The pointer and register values arrive from the kernel; the bytes are arbitrary.
\<close>

definition STARTUP_ABI_V1 :: u64 where "STARTUP_ABI_V1 = 1"
definition STARTUP_BLOCK_SIZE :: nat where "STARTUP_BLOCK_SIZE = 4096"
definition STARTUP_BLOCK_V2_SIZE :: nat where "STARTUP_BLOCK_V2_SIZE = 20 * 1024"
definition WORD_SIZE :: nat where "WORD_SIZE = 8"

record startup_registers =
  startup_argument0 :: u64
  startup_argument1 :: u64

record startup_block =
  sb_bytes :: "byte list"
  sb_address :: u64
  sb_version :: u64
  sb_bootstrap_channel :: u64
  sb_argv_offset :: nat
  sb_argc :: nat
  sb_envp_offset :: nat
  sb_envc :: nat
  sb_auxv_offset :: nat
  sb_auxc :: nat

datatype startup_error =
    SU_UnsupportedVersion | SU_InvalidBootstrapChannelHandle | SU_MisalignedStack
  | SU_WrongBlockSize | SU_AddressOverflow | SU_VectorOverflow | SU_MissingVectorTerminator
  | SU_MissingAuxiliaryTerminator | SU_StringPointerOutOfRange | SU_UnterminatedString
  | SU_InvalidUtf8 | SU_ArgumentLimit | SU_EnvironmentLimit | SU_StringBytesExceeded
  | SU_NoncanonicalStringLayout | SU_InvalidEnvironment | SU_DuplicateEnvironment

type_synonym 'a su_res = "(startup_error, 'a) res"

text \<open>The exit code of a process whose startup block is refused.\<close>

fun startup_error_exit_code :: "startup_error \<Rightarrow> u32" where
  "startup_error_exit_code SU_UnsupportedVersion = 0x57000001"
| "startup_error_exit_code SU_InvalidBootstrapChannelHandle = 0x57000002"
| "startup_error_exit_code SU_MisalignedStack = 0x57000003"
| "startup_error_exit_code SU_WrongBlockSize = 0x57000004"
| "startup_error_exit_code SU_AddressOverflow = 0x57000005"
| "startup_error_exit_code SU_VectorOverflow = 0x57000006"
| "startup_error_exit_code SU_MissingVectorTerminator = 0x57000007"
| "startup_error_exit_code SU_MissingAuxiliaryTerminator = 0x57000008"
| "startup_error_exit_code SU_StringPointerOutOfRange = 0x57000009"
| "startup_error_exit_code SU_UnterminatedString = 0x5700000A"
| "startup_error_exit_code SU_InvalidUtf8 = 0x5700000B"
| "startup_error_exit_code SU_ArgumentLimit = 0x5700000C"
| "startup_error_exit_code SU_EnvironmentLimit = 0x5700000D"
| "startup_error_exit_code SU_StringBytesExceeded = 0x5700000E"
| "startup_error_exit_code SU_NoncanonicalStringLayout = 0x5700000F"
| "startup_error_exit_code SU_InvalidEnvironment = 0x57000010"
| "startup_error_exit_code SU_DuplicateEnvironment = 0x57000011"

subsection \<open>Words\<close>

definition startup_block_size :: "u64 \<Rightarrow> nat su_res" where
  "startup_block_size version =
     (if version = STARTUP_ABI_V1 then Ok STARTUP_BLOCK_SIZE
      else if version = STARTUP_ABI_V2 then Ok STARTUP_BLOCK_V2_SIZE
      else Err SU_UnsupportedVersion)"

definition read_word :: "byte list \<Rightarrow> nat \<Rightarrow> u64 option" where
  "read_word bytes offset =
     Option.bind (checked_add_usize offset WORD_SIZE) (\<lambda>e. map_option from_le (get_range offset e bytes))"

definition advance_words :: "nat \<Rightarrow> nat \<Rightarrow> nat option" where
  "advance_words offset count =
     Option.bind (checked_mul_usize count WORD_SIZE) (\<lambda>n. checked_add_usize offset n)"

definition word_at :: "byte list \<Rightarrow> nat \<Rightarrow> nat \<Rightarrow> u64 su_res" where
  "word_at bytes offset index =
     rbind (ok_or SU_VectorOverflow (advance_words offset index)) (\<lambda>off.
     ok_or SU_VectorOverflow (read_word bytes off))"

definition require_word :: "byte list \<Rightarrow> nat \<Rightarrow> u64 \<Rightarrow> startup_error \<Rightarrow> unit su_res" where
  "require_word bytes offset expected err =
     (if read_word bytes offset = Some expected then Ok () else Err err)"

lemma read_word_bound: "read_word bytes off = Some w \<Longrightarrow> off + 8 \<le> length bytes"
  by (auto simp: read_word_def bind_eq_Some_conv checked_add_usize_def get_range_eq_Some WORD_SIZE_def
      split: if_splits)

function scan_vector :: "byte list \<Rightarrow> nat \<Rightarrow> nat \<Rightarrow> (nat \<times> nat) su_res" where
  "scan_vector bytes count current =
     (case read_word bytes current of
        None \<Rightarrow> Err SU_MissingVectorTerminator
      | Some w \<Rightarrow>
          if w = 0 then
            rbind (ok_or SU_VectorOverflow (checked_add_usize current WORD_SIZE)) (\<lambda>after. Ok (count, after))
          else
            (case checked_add_usize count 1 of
               None \<Rightarrow> Err SU_VectorOverflow
             | Some count' \<Rightarrow>
                 (case checked_add_usize current WORD_SIZE of
                    None \<Rightarrow> Err SU_VectorOverflow
                  | Some current' \<Rightarrow> scan_vector bytes count' current')))"
  by pat_completeness auto
termination
  by (relation "measure (\<lambda>(bytes, _, current). length bytes - current)")
    (auto dest!: read_word_bound simp: checked_add_usize_def WORD_SIZE_def split: if_splits)

definition scan_null_terminated_vector :: "byte list \<Rightarrow> nat \<Rightarrow> (nat \<times> nat) su_res" where
  "scan_null_terminated_vector bytes offset = scan_vector bytes 0 offset"

function scan_aux :: "byte list \<Rightarrow> nat \<Rightarrow> nat \<Rightarrow> nat su_res" where
  "scan_aux bytes count current =
     (case read_word bytes current of
        None \<Rightarrow> Err SU_MissingAuxiliaryTerminator
      | Some kind \<Rightarrow>
          (case checked_add_usize current WORD_SIZE of
             None \<Rightarrow> Err SU_VectorOverflow
           | Some value_offset \<Rightarrow>
               (case read_word bytes value_offset of
                  None \<Rightarrow> Err SU_MissingAuxiliaryTerminator
                | Some value \<Rightarrow>
                    if kind = 0 \<and> value = 0 then Ok count
                    else
                      (case checked_add_usize count 1 of
                         None \<Rightarrow> Err SU_VectorOverflow
                       | Some count' \<Rightarrow>
                           (case checked_add_usize value_offset WORD_SIZE of
                              None \<Rightarrow> Err SU_VectorOverflow
                            | Some current' \<Rightarrow> scan_aux bytes count' current')))))"
  by pat_completeness auto
termination
  by (relation "measure (\<lambda>(bytes, _, current). length bytes - current)")
    (auto dest!: read_word_bound simp: checked_add_usize_def WORD_SIZE_def split: if_splits)

definition scan_auxiliary_vector :: "byte list \<Rightarrow> nat \<Rightarrow> nat su_res" where
  "scan_auxiliary_vector bytes offset = scan_aux bytes 0 offset"

function scan_auxiliary_vector_end :: "byte list \<Rightarrow> nat \<Rightarrow> nat su_res" where
  "scan_auxiliary_vector_end bytes current =
     (case read_word bytes current of
        None \<Rightarrow> Err SU_MissingAuxiliaryTerminator
      | Some kind \<Rightarrow>
          (case read_word bytes (current + WORD_SIZE) of
             None \<Rightarrow> Err SU_MissingAuxiliaryTerminator
           | Some value \<Rightarrow>
               (case checked_add_usize current (2 * WORD_SIZE) of
                  None \<Rightarrow> Err SU_VectorOverflow
                | Some current' \<Rightarrow>
                    if kind = 0 \<and> value = 0 then Ok current'
                    else scan_auxiliary_vector_end bytes current')))"
  by pat_completeness auto
termination
  by (relation "measure (\<lambda>(bytes, current). length bytes - current)")
    (auto dest!: read_word_bound simp: checked_add_usize_def WORD_SIZE_def split: if_splits)

declare scan_vector.simps [simp del] scan_aux.simps [simp del] scan_auxiliary_vector_end.simps [simp del]

subsection \<open>Strings\<close>

text \<open>The bytes before the first NUL.\<close>

definition c_string :: "byte list \<Rightarrow> byte list su_res" where
  "c_string tail =
     rbind (ok_or SU_UnterminatedString (position (\<lambda>b. b = 0) tail)) (\<lambda>nul. Ok (take nul tail))"

definition validate_string :: "byte list \<Rightarrow> u64 \<Rightarrow> u64 \<Rightarrow> u64 \<Rightarrow> unit su_res" where
  "validate_string bytes start finish pointer =
     (if pointer < start \<or> finish \<le> pointer then Err SU_StringPointerOutOfRange
      else
        rbind (region_r (unat (pointer - start)) (length bytes) bytes) (\<lambda>tail.
        rbind (c_string tail) (\<lambda>s.
        if valid_utf8 s then Ok () else Err SU_InvalidUtf8)))"

fun validate_strings :: "byte list \<Rightarrow> u64 \<Rightarrow> u64 \<Rightarrow> nat \<Rightarrow> nat list \<Rightarrow> unit su_res" where
  "validate_strings bytes address block_end offset [] = Ok ()"
| "validate_strings bytes address block_end offset (i # is) =
     rbind (word_at bytes offset i) (\<lambda>p.
     rbind (validate_string bytes address block_end p) (\<lambda>_.
     validate_strings bytes address block_end offset is))"

definition validate_canonical_v2_string ::
  "byte list \<Rightarrow> u64 \<Rightarrow> nat \<Rightarrow> nat \<Rightarrow> nat \<Rightarrow> nat \<Rightarrow> (nat \<times> nat) su_res" where
  "validate_canonical_v2_string bytes address vector_offset index cursor total_bytes =
     rbind (word_at bytes vector_offset index) (\<lambda>pointer.
     rbind (ok_or SU_AddressOverflow (checked_add_u64 address (word_of_nat cursor))) (\<lambda>expected.
     if pointer \<noteq> expected then Err SU_NoncanonicalStringLayout
     else
       rbind (ok_or SU_StringPointerOutOfRange (get_range cursor (length bytes) bytes)) (\<lambda>tail.
       rbind (c_string tail) (\<lambda>s.
       if \<not> valid_utf8 s then Err SU_InvalidUtf8
       else
         rbind (ok_or SU_VectorOverflow (checked_add_usize (length s) 1)) (\<lambda>consumed.
         rbind (ok_or SU_VectorOverflow (checked_add_usize total_bytes (length s))) (\<lambda>total'.
         rbind (ok_or SU_VectorOverflow (checked_add_usize cursor consumed)) (\<lambda>cursor'.
         Ok (cursor', total'))))))))"

fun canonical_strings ::
  "byte list \<Rightarrow> u64 \<Rightarrow> nat \<Rightarrow> nat list \<Rightarrow> nat \<times> nat \<Rightarrow> (nat \<times> nat) su_res" where
  "canonical_strings bytes address offset [] ct = Ok ct"
| "canonical_strings bytes address offset (i # is) ct =
     rbind (validate_canonical_v2_string bytes address offset i (fst ct) (snd ct)) (\<lambda>ct'.
     canonical_strings bytes address offset is ct')"

definition string_slice :: "byte list \<Rightarrow> u64 \<Rightarrow> u64 \<Rightarrow> byte list su_res" where
  "string_slice bytes address pointer =
     (if pointer < address then Err SU_StringPointerOutOfRange
      else
        rbind (ok_or SU_StringPointerOutOfRange
          (get_range (unat (pointer - address)) (length bytes) bytes)) c_string)"

definition environment_name :: "byte list \<Rightarrow> byte list su_res" where
  "environment_name value =
     rbind (ok_or SU_InvalidEnvironment (position (\<lambda>b. b = EQUALS) value)) (\<lambda>eq.
     let name = take eq value in
     if \<not> name_rule name then Err SU_InvalidEnvironment else Ok name)"

text \<open>The comparison of one name with the earlier ones, then the loop over the entries.\<close>

fun earlier_names :: "byte list \<Rightarrow> u64 \<Rightarrow> nat \<Rightarrow> byte list \<Rightarrow> nat list \<Rightarrow> unit su_res" where
  "earlier_names bytes address envp name [] = Ok ()"
| "earlier_names bytes address envp name (j # js) =
     rbind (word_at bytes envp j) (\<lambda>p.
     rbind (string_slice bytes address p) (\<lambda>previous.
     rbind (environment_name previous) (\<lambda>n.
     if n = name then Err SU_DuplicateEnvironment
     else earlier_names bytes address envp name js)))"

fun validate_environment :: "byte list \<Rightarrow> u64 \<Rightarrow> nat \<Rightarrow> nat list \<Rightarrow> unit su_res" where
  "validate_environment bytes address envp [] = Ok ()"
| "validate_environment bytes address envp (i # is) =
     rbind (word_at bytes envp i) (\<lambda>p.
     rbind (string_slice bytes address p) (\<lambda>value.
     rbind (environment_name value) (\<lambda>name.
     rbind (earlier_names bytes address envp name [0..<i]) (\<lambda>_.
     validate_environment bytes address envp is))))"

definition validate_v2_layout ::
  "byte list \<Rightarrow> u64 \<Rightarrow> nat \<Rightarrow> nat \<Rightarrow> nat \<Rightarrow> nat \<Rightarrow> nat \<Rightarrow> unit su_res" where
  "validate_v2_layout bytes address argc argv_offset envc envp_offset auxv_offset =
     (if \<not> (1 \<le> argc \<and> argc \<le> 64) then Err SU_ArgumentLimit
      else if 64 < envc then Err SU_EnvironmentLimit
      else
        rbind (scan_auxiliary_vector_end bytes auxv_offset) (\<lambda>cursor.
        rbind (canonical_strings bytes address argv_offset [0..<argc] (cursor, 0)) (\<lambda>ct.
        rbind (canonical_strings bytes address envp_offset [0..<envc] ct) (\<lambda>(_, string_bytes).
        if 16 * 1024 < string_bytes then Err SU_StringBytesExceeded
        else validate_environment bytes address envp_offset [0..<envc]))))"

subsection \<open>Parsing and access\<close>

definition startup_parse :: "startup_registers \<Rightarrow> u64 \<Rightarrow> byte list \<Rightarrow> startup_block su_res" where
  "startup_parse registers address bytes =
     rbind (startup_block_size (startup_argument1 registers)) (\<lambda>block_size.
     if startup_argument0 registers = 0 then Err SU_InvalidBootstrapChannelHandle
     else if unat address mod 16 \<noteq> 0 then Err SU_MisalignedStack
     else if length bytes \<noteq> block_size then Err SU_WrongBlockSize
     else
       rbind (ok_or SU_AddressOverflow (checked_add_u64 address (word_of_nat block_size))) (\<lambda>block_end.
       rbind (ok_or SU_VectorOverflow (read_word bytes 0)) (\<lambda>argc_word.
       let argc = unat argc_word; argv_offset = WORD_SIZE in
       rbind (ok_or SU_VectorOverflow (advance_words argv_offset argc)) (\<lambda>argv_after.
       rbind (require_word bytes argv_after 0 SU_MissingVectorTerminator) (\<lambda>_.
       rbind (ok_or SU_VectorOverflow (checked_add_usize argv_after WORD_SIZE)) (\<lambda>envp_offset.
       rbind (scan_null_terminated_vector bytes envp_offset) (\<lambda>(envc, auxv_offset).
       rbind (scan_auxiliary_vector bytes auxv_offset) (\<lambda>auxc.
       rbind (validate_strings bytes address block_end argv_offset [0..<argc]) (\<lambda>_.
       rbind (validate_strings bytes address block_end envp_offset [0..<envc]) (\<lambda>_.
       rbind (if startup_argument1 registers = STARTUP_ABI_V2
              then validate_v2_layout bytes address argc argv_offset envc envp_offset auxv_offset
              else Ok ()) (\<lambda>_.
       Ok \<lparr>sb_bytes = bytes, sb_address = address, sb_version = startup_argument1 registers,
           sb_bootstrap_channel = startup_argument0 registers, sb_argv_offset = argv_offset,
           sb_argc = argc, sb_envp_offset = envp_offset, sb_envc = envc,
           sb_auxv_offset = auxv_offset, sb_auxc = auxc\<rparr>)))))))))))"

text \<open>\<^verbatim>\<open>string_at\<close> trusts the validation: a pointer below the block, a slice out of range and a
  missing terminator are panics.\<close>

definition string_at :: "startup_block \<Rightarrow> u64 \<Rightarrow> byte list su_res" where
  "string_at sb pointer =
     (if pointer < sb_address sb then Panic
      else
        rbind (region_r (unat (pointer - sb_address sb)) (length (sb_bytes sb)) (sb_bytes sb)) (\<lambda>tail.
        rbind (unwrap (position (\<lambda>b. b = 0) tail)) (\<lambda>nul. Ok (take nul tail))))"

definition vector_string :: "startup_block \<Rightarrow> nat \<Rightarrow> nat \<Rightarrow> byte list option su_res" where
  "vector_string sb offset index =
     (case word_at (sb_bytes sb) offset index of
        Ok p \<Rightarrow> rbind (string_at sb p) (\<lambda>s. Ok (Some s))
      | Err e \<Rightarrow> Ok None
      | Panic \<Rightarrow> Panic)"

definition startup_arg :: "startup_block \<Rightarrow> nat \<Rightarrow> byte list option su_res" where
  "startup_arg sb index =
     (if sb_argc sb \<le> index then Ok None else vector_string sb (sb_argv_offset sb) index)"

definition startup_env :: "startup_block \<Rightarrow> nat \<Rightarrow> byte list option su_res" where
  "startup_env sb index =
     (if sb_envc sb \<le> index then Ok None else vector_string sb (sb_envp_offset sb) index)"

definition startup_aux :: "startup_block \<Rightarrow> nat \<Rightarrow> (u64 \<times> u64) option" where
  "startup_aux sb index =
     (if sb_auxc sb \<le> index then None
      else
        Option.bind (checked_mul_usize index 2) (\<lambda>n.
        Option.bind (advance_words (sb_auxv_offset sb) n) (\<lambda>offset.
        Option.bind (read_word (sb_bytes sb) offset) (\<lambda>kind.
        Option.bind (read_word (sb_bytes sb) (offset + WORD_SIZE)) (\<lambda>value.
        Some (kind, value))))))"

end
