(* ===== verification/StartupSafe.thy ===== *)
theory StartupSafe
  imports Startup
begin

text \<open>
  Safety of the startup block parser: no registers, address and bytes make it panic, and after it
  accepted a block every argument, environment and auxiliary entry it announces can be read.
\<close>

lemma c_string_no_panic: "c_string tail \<noteq> Panic"
  by (auto simp: c_string_def res_simps)

lemma c_string_Ok:
  assumes "c_string tail = Ok s"
  shows "0 \<notin> set s" "position (\<lambda>b. b = 0) tail = Some (length s)" "s = take (length s) tail"
proof -
  from assms obtain n where n: "position (\<lambda>b. b = 0) tail = Some n" "s = take n tail"
    by (auto simp: c_string_def res_simps)
  from n(1) have "n < length tail" and "\<forall>j < n. tail ! j \<noteq> 0" by (auto simp: position_eq_Some)
  with n show "0 \<notin> set s" "position (\<lambda>b. b = 0) tail = Some (length s)" "s = take (length s) tail"
    by (auto simp: in_set_conv_nth)
qed

lemma word_at_no_panic: "word_at bytes off i \<noteq> Panic"
  by (auto simp: word_at_def res_simps)

lemma scan_vector_no_panic: "scan_vector bytes n cur \<noteq> Panic"
  by (induction bytes n cur rule: scan_vector.induct)
    (subst scan_vector.simps, auto simp: res_simps split: option.splits)

lemma scan_aux_no_panic: "scan_aux bytes n cur \<noteq> Panic"
  by (induction bytes n cur rule: scan_aux.induct)
    (subst scan_aux.simps, auto simp: res_simps split: option.splits)

lemma scan_aux_end_no_panic: "scan_auxiliary_vector_end bytes cur \<noteq> Panic"
  by (induction bytes cur rule: scan_auxiliary_vector_end.induct)
    (subst scan_auxiliary_vector_end.simps, auto split: option.splits)

text \<open>A pointer inside the block is an offset inside its bytes.\<close>

lemma pointer_offset:
  assumes "\<not> (p < start \<or> finish \<le> p)" "unat finish = unat start + n"
  shows "unat (p - start) < n"
proof -
  from assms(1) have "start \<le> p" "p < finish" by auto
  then have "unat (p - start) = unat p - unat start" "unat p < unat finish" "unat start \<le> unat p"
    by (simp_all add: unat_sub word_less_nat_alt word_le_nat_alt)
  with assms(2) show ?thesis by linarith
qed

lemma validate_string_no_panic:
  assumes "unat finish = unat start + length bytes"
  shows "validate_string bytes start finish p \<noteq> Panic"
proof (cases "p < start \<or> finish \<le> p")
  case True
  then show ?thesis by (simp add: validate_string_def)
next
  case False
  from pointer_offset [OF this assms] show ?thesis
    unfolding validate_string_def if_not_P [OF False]
    by (auto simp: res_simps c_string_no_panic)
qed

lemma validate_string_string_at:
  assumes "validate_string bytes start finish p = Ok ()"
    and "sb_bytes sb = bytes" "sb_address sb = start"
  shows "\<exists>s. string_at sb p = Ok s \<and> valid_utf8 s \<and> 0 \<notin> set s"
proof -
  from assms(1) obtain tail s where p: "\<not> p < start"
    and t: "region_r (unat (p - start)) (length bytes) bytes = (Ok tail :: byte list su_res)"
    and s: "c_string tail = Ok s" and v: "valid_utf8 s"
    by (auto simp: validate_string_def res_simps split: if_splits)
  note c = c_string_Ok [OF s]
  have "string_at sb p = Ok s"
    using p t c(2) by (simp add: string_at_def assms(2,3)) (metis c(3))
  with v c(1) show ?thesis by blast
qed

lemma validate_strings_no_panic:
  "unat finish = unat start + length bytes \<Longrightarrow> validate_strings bytes start finish off is \<noteq> Panic"
  by (induction "is") (auto simp: res_simps word_at_no_panic validate_string_no_panic)

lemma validate_strings_vector:
  assumes "validate_strings bytes start finish off is = Ok ()" "i \<in> set is"
    and "sb_bytes sb = bytes" "sb_address sb = start"
  shows "\<exists>s. vector_string sb off i = Ok (Some s) \<and> valid_utf8 s \<and> 0 \<notin> set s"
  using assms
proof (induction "is")
  case Nil
  then show ?case by simp
next
  case (Cons j js)
  show ?case
  proof (cases "i = j")
    case True
    from Cons.prems(1) obtain p where "word_at bytes off j = Ok p" "validate_string bytes start finish p = Ok ()"
      by (auto simp: res_simps)
    with validate_string_string_at [OF this(2) Cons.prems(3,4)] Cons.prems(3) True show ?thesis
      by (auto simp: vector_string_def)
  next
    case False
    with Cons show ?thesis by (auto simp: res_simps)
  qed
qed

text \<open>The auxiliary entries counted are in the block.\<close>

lemma scan_aux_entries:
  "scan_aux bytes c cur = Ok n \<Longrightarrow>
     c \<le> n \<and> (\<forall>i < n - c. read_word bytes (cur + 16 * i) \<noteq> None \<and>
       read_word bytes (cur + 16 * i + 8) \<noteq> None)"
proof (induction bytes c cur rule: scan_aux.induct)
  case (1 bytes c cur)
  obtain k v where r: "read_word bytes cur = Some k" "read_word bytes (cur + 8) = Some v"
    using 1(2) by (subst (asm) scan_aux.simps)
      (auto simp: checked_add_usize_def WORD_SIZE_def split: option.splits if_splits)
  show ?case
  proof (cases "k = 0 \<and> v = 0")
    case True
    with 1(2) r show ?thesis
      by (subst (asm) scan_aux.simps) (auto simp: checked_add_usize_def WORD_SIZE_def split: if_splits)
  next
    case False
    with 1(2) r have rest: "scan_aux bytes (Suc c) (cur + 16) = Ok n"
      and fits: "checked_add_usize cur WORD_SIZE = Some (cur + 8)" "checked_add_usize c 1 = Some (Suc c)"
        "checked_add_usize (cur + 8) WORD_SIZE = Some (cur + 16)"
      by (subst (asm) scan_aux.simps,
          auto simp: checked_add_usize_def WORD_SIZE_def add.assoc split: if_splits)+
    from 1(1) [OF r(1) fits(1) r(2) False fits(2,3) rest]
    have IH: "Suc c \<le> n" "\<forall>i < n - Suc c. read_word bytes (cur + 16 + 16 * i) \<noteq> None \<and>
        read_word bytes (cur + 16 + 16 * i + 8) \<noteq> None" by auto
    have "read_word bytes (cur + 16 * i) \<noteq> None \<and> read_word bytes (cur + 16 * i + 8) \<noteq> None"
      if "i < n - c" for i
    proof (cases i)
      case 0
      then show ?thesis using r by simp
    next
      case (Suc j)
      with IH(2) that show ?thesis by (auto simp: algebra_simps)
    qed
    with IH(1) show ?thesis by auto
  qed
qed

lemma canonical_string_no_panic: "validate_canonical_v2_string bytes a off i c t \<noteq> Panic"
  by (auto simp: validate_canonical_v2_string_def res_simps word_at_no_panic c_string_no_panic)

lemma canonical_strings_no_panic: "canonical_strings bytes a off is ct \<noteq> Panic"
  by (induction "is" arbitrary: ct) (auto simp: res_simps canonical_string_no_panic)

lemma string_slice_no_panic: "string_slice bytes a p \<noteq> Panic"
  by (auto simp: string_slice_def res_simps c_string_no_panic)

lemma environment_name_no_panic: "environment_name v \<noteq> Panic"
  by (auto simp: environment_name_def res_simps Let_def)

lemma earlier_names_no_panic: "earlier_names bytes a envp n js \<noteq> Panic"
  by (induction js)
    (auto simp: res_simps word_at_no_panic string_slice_no_panic environment_name_no_panic)

lemma validate_environment_no_panic: "validate_environment bytes a envp is \<noteq> Panic"
  by (induction "is")
    (auto simp: res_simps word_at_no_panic string_slice_no_panic environment_name_no_panic
      earlier_names_no_panic)

lemma validate_v2_layout_no_panic: "validate_v2_layout bytes a argc ao envc eo xo \<noteq> Panic"
  by (auto simp: validate_v2_layout_def res_simps scan_aux_end_no_panic canonical_strings_no_panic
      validate_environment_no_panic)

lemma startup_block_size_simps:
  "startup_block_size v \<noteq> Panic" "startup_block_size v = Ok n \<Longrightarrow> n \<le> 20480"
  by (auto simp: startup_block_size_def STARTUP_BLOCK_SIZE_def STARTUP_BLOCK_V2_SIZE_def split: if_splits)

text \<open>The end of the block as an address.\<close>

lemma block_end_unat:
  assumes "checked_add_u64 address (word_of_nat n) = Some e" "n \<le> 20480"
  shows "unat e = unat address + n"
proof -
  have "unat (word_of_nat n :: u64) = n" using assms(2) by (simp add: unat_of_nat)
  with assms(1) show ?thesis by (simp add: checked_add_u64_Some)
qed

lemma startup_parse_no_panic: "startup_parse registers address bytes \<noteq> Panic"
  using block_end_unat [of address "length bytes"]
  by (auto simp: startup_parse_def res_simps Let_def startup_block_size_simps
      scan_null_terminated_vector_def scan_auxiliary_vector_def scan_vector_no_panic scan_aux_no_panic
      validate_strings_no_panic validate_v2_layout_no_panic require_word_def
      dest: startup_block_size_simps(2) split: if_splits)

lemma startup_parse_Ok:
  assumes "startup_parse registers address bytes = Ok sb"
  shows "sb_bytes sb = bytes \<and> sb_address sb = address \<and> length bytes \<le> 20480 \<and>
    (\<exists>e. validate_strings bytes address e (sb_argv_offset sb) [0..<sb_argc sb] = Ok () \<and>
         validate_strings bytes address e (sb_envp_offset sb) [0..<sb_envc sb] = Ok ()) \<and>
    scan_aux bytes 0 (sb_auxv_offset sb) = Ok (sb_auxc sb)"
  using assms
  by (auto simp: startup_parse_def res_simps Let_def scan_auxiliary_vector_def
      dest: startup_block_size_simps(2) split: if_splits)

lemma startup_aux_readable:
  assumes "startup_parse registers address bytes = Ok sb" "i < sb_auxc sb"
  shows "startup_aux sb i \<noteq> None"
proof -
  from startup_parse_Ok [OF assms(1)] have sb: "sb_bytes sb = bytes" "length bytes \<le> 20480"
    "scan_aux bytes 0 (sb_auxv_offset sb) = Ok (sb_auxc sb)" by auto
  from scan_aux_entries [OF sb(3)] assms(2)
  have r: "read_word bytes (sb_auxv_offset sb + 16 * i) \<noteq> None"
    "read_word bytes (sb_auxv_offset sb + 16 * i + 8) \<noteq> None" by auto
  then have "sb_auxv_offset sb + 16 * i + 8 \<le> 20480"
    using sb(2) by (auto dest!: read_word_bound)
  then have "checked_mul_usize i 2 = Some (i * 2)"
    "advance_words (sb_auxv_offset sb) (i * 2) = Some (sb_auxv_offset sb + 16 * i)"
    by (simp_all add: checked_mul_usize_def advance_words_def checked_add_usize_def WORD_SIZE_def
        usize_max_def)
  with r assms(2) sb(1) show ?thesis by (auto simp: startup_aux_def WORD_SIZE_def)
qed

definition readable :: "byte list option su_res \<Rightarrow> bool" where
  "readable r = (case r of Ok (Some s) \<Rightarrow> valid_utf8 s \<and> 0 \<notin> set s | _ \<Rightarrow> False)"

lemma startup_strings_readable:
  assumes "startup_parse registers address bytes = Ok sb"
  shows "i < sb_argc sb \<Longrightarrow> readable (startup_arg sb i)"
    and "i < sb_envc sb \<Longrightarrow> readable (startup_env sb i)"
proof -
  from startup_parse_Ok [OF assms] obtain e where sb: "sb_bytes sb = bytes" "sb_address sb = address"
    and a: "validate_strings bytes address e (sb_argv_offset sb) [0..<sb_argc sb] = Ok ()"
    and v: "validate_strings bytes address e (sb_envp_offset sb) [0..<sb_envc sb] = Ok ()" by blast
  show "i < sb_argc sb \<Longrightarrow> readable (startup_arg sb i)"
    using validate_strings_vector [OF a _ sb, of i] by (auto simp: startup_arg_def readable_def)
  show "i < sb_envc sb \<Longrightarrow> readable (startup_env sb i)"
    using validate_strings_vector [OF v _ sb, of i] by (auto simp: startup_env_def readable_def)
qed

text \<open>C16. Whatever the registers, the address and the bytes, the startup parser ends without a
  panic; of an accepted block every announced argument and environment string is readable without
  a panic, valid UTF-8 and free of NUL bytes, and every announced auxiliary entry is present.\<close>

theorem startup_parse_safe:
  "case startup_parse registers address bytes of
     Panic \<Rightarrow> False
   | Err e \<Rightarrow> True
   | Ok sb \<Rightarrow>
       list_all (\<lambda>i. readable (startup_arg sb i)) [0..<sb_argc sb] \<and>
       list_all (\<lambda>i. readable (startup_env sb i)) [0..<sb_envc sb] \<and>
       list_all (\<lambda>i. startup_aux sb i \<noteq> None) [0..<sb_auxc sb]"
  using startup_parse_no_panic [of registers address bytes]
    startup_strings_readable [of registers address bytes] startup_aux_readable [of registers address bytes]
  by (auto simp: list_all_iff split: res.splits)

end
