(* ===== verification/StartupRoundTrip.thy ===== *)
theory StartupRoundTrip
  imports StartupSafe "HOL-Library.Code_Target_Nat"
begin

text \<open>
  The loader against the runtime: the startup block the loader writes is accepted by the child's
  parser and gives back exactly the arguments and the environment of the launch. Both sides meet
  in the layout of the block: a list of words, then the strings with their terminators.
\<close>

subsection \<open>The layout\<close>

definition strs :: "byte list list \<Rightarrow> byte list" where
  "strs vs = concat (map (\<lambda>v. v @ [0]) vs)"

definition word_bytes :: "u64 list \<Rightarrow> byte list" where
  "word_bytes ws = concat (map (to_le 8) ws)"

definition offsets :: "nat \<Rightarrow> byte list list \<Rightarrow> nat list" where
  "offsets s vs = map (\<lambda>i. s + length (strs (take i vs))) [0..<length vs]"

definition pointers :: "u64 \<Rightarrow> nat \<Rightarrow> byte list list \<Rightarrow> u64 list" where
  "pointers addr s vs = map (\<lambda>off. addr + word_of_nat off) (offsets s vs)"

lemma strs_simps [simp]:
  "strs [] = []" "strs (v # vs) = v @ [0] @ strs vs" "strs (vs @ us) = strs vs @ strs us"
  by (simp_all add: strs_def)

lemma word_bytes_simps [simp]:
  "word_bytes [] = []" "word_bytes (w # ws) = to_le 8 w @ word_bytes ws" "word_bytes (ws @ us) = word_bytes ws @ word_bytes us"
  by (simp_all add: word_bytes_def)

lemma length_word_bytes [simp]: "length (word_bytes ws) = 8 * length ws"
  by (induction ws) simp_all

lemma length_pointers [simp]: "length (pointers addr s vs) = length vs"
  by (simp add: pointers_def offsets_def)

lemma offsets_Cons: "offsets s (v # vs) = s # offsets (s + length v + 1) vs"
  by (simp add: offsets_def map_upt_Suc del: upt_Suc)

lemma pointers_Cons:
  "pointers addr s (v # vs) = (addr + word_of_nat s) # pointers addr (s + length v + 1) vs"
  by (simp add: pointers_def offsets_Cons)

lemma pointers_Nil [simp]: "pointers addr s [] = []"
  by (simp add: pointers_def offsets_def)

lemma word_bytes_zeros: "word_bytes (replicate n 0) = replicate (8 * n) 0"
  by (induction n) (simp_all add: replicate_add [symmetric] numeral_eq_Suc)

subsection \<open>Writing\<close>

lemma overwrite_at:
  "length xs = off \<Longrightarrow> length zs = length bs \<Longrightarrow> overwrite off bs (xs @ zs @ ys) = xs @ bs @ ys"
  by (simp add: overwrite_def)

lemma copy_into_zeros:
  assumes "length xs = off" "length bs \<le> k"
  shows "copy_into off bs (xs @ replicate k 0 @ ys) = Ok (xs @ bs @ replicate (k - length bs) 0 @ ys)"
proof -
  have "replicate k (0 :: byte) = replicate (length bs) 0 @ replicate (k - length bs) 0"
    using assms(2) by (simp add: replicate_add [symmetric])
  with overwrite_at [OF assms(1), of "replicate (length bs) 0" bs "replicate (k - length bs) 0 @ ys"]
  show ?thesis using assms by (simp add: copy_into_def)
qed

lemma checked_pointer:
  assumes "unat addr + n < 2 ^ 64"
  shows "checked_add_u64 addr (word_of_nat n) = Some (addr + word_of_nat n)"
    and "unat (addr + word_of_nat n) = unat addr + n"
proof -
  have n: "unat (word_of_nat n :: u64) = n" using assms by (simp add: unat_of_nat)
  with assms show "checked_add_u64 addr (word_of_nat n) = Some (addr + word_of_nat n)"
    by (simp add: checked_add_u64_def)
  from n assms show "unat (addr + word_of_nat n) = unat addr + n" by (simp add: unat_word_ariths)
qed

lemma write_vector_layout:
  assumes "length W = wo" "so = wo + k + length S" "8 * length vs \<le> k" "length (strs vs) \<le> m"
    and "unat addr + so + length (strs vs) < 2 ^ 64"
  shows "write_vector addr vs wo so (W @ replicate k 0 @ S @ replicate m 0) =
    Ok (wo + 8 * length vs, so + length (strs vs),
        W @ word_bytes (pointers addr so vs) @ replicate (k - 8 * length vs) 0 @ S @ strs vs @
        replicate (m - length (strs vs)) 0)"
  using assms
proof (induction vs arbitrary: W wo so k S m)
  case Nil
  then show ?case by simp
next
  case (Cons v vs)
  let ?p = "addr + word_of_nat so"
  have p: "checked_add_u64 addr (word_of_nat so) = Some ?p"
    using Cons.prems(5) by (intro checked_pointer) simp
  have w1: "sb_put_u64 (W @ replicate k 0 @ S @ replicate m 0) wo ?p =
      Ok (W @ to_le 8 ?p @ replicate (k - 8) 0 @ S @ replicate m 0)"
    unfolding sb_put_u64_def using Cons.prems(1,3) by (subst copy_into_zeros) auto
  have w2: "copy_into so v (W @ to_le 8 ?p @ replicate (k - 8) 0 @ S @ replicate m 0) =
      Ok ((W @ to_le 8 ?p) @ replicate (k - 8) 0 @ (S @ v) @ replicate (m - length v) 0)"
    using copy_into_zeros [of "W @ to_le 8 ?p @ replicate (k - 8) 0 @ S" so v m "[]"] Cons.prems
    by simp
  have "replicate (m - length v) (0 :: byte) = [0] @ replicate (m - length v - 1) 0"
    using Cons.prems(4) by (cases "m - length v") auto
  then have w3: "(W @ to_le 8 ?p) @ replicate (k - 8) 0 @ (S @ v) @ replicate (m - length v) 0 =
      (W @ to_le 8 ?p) @ replicate (k - 8) 0 @ (S @ v @ [0]) @ replicate (m - length v - 1) 0" by simp
  have IH: "write_vector addr vs (wo + 8) (so + length v + 1)
      ((W @ to_le 8 ?p) @ replicate (k - 8) 0 @ (S @ v @ [0]) @ replicate (m - length v - 1) 0) =
    Ok (wo + 8 + 8 * length vs, so + length v + 1 + length (strs vs),
        (W @ to_le 8 ?p) @ word_bytes (pointers addr (so + length v + 1) vs) @
        replicate (k - 8 - 8 * length vs) 0 @ (S @ v @ [0]) @ strs vs @
        replicate (m - length v - 1 - length (strs vs)) 0)"
    by (rule Cons.IH) (use Cons.prems in simp_all)
  show ?case
    unfolding write_vector.simps p unwrap.simps rbind.simps w1 w2 w3 IH
    by (simp add: pointers_Cons)
qed

text \<open>The block the plan writes.\<close>

definition block_words :: "u64 \<Rightarrow> byte list list \<Rightarrow> byte list list \<Rightarrow> u64 list" where
  "block_words addr argv env =
     (let s = 8 * (length argv + length env + 5) in
      word_of_nat (length argv) # pointers addr s argv @ [0] @
      pointers addr (s + length (strs argv)) env @ [0, 0, 0])"

definition block_layout :: "u64 \<Rightarrow> byte list list \<Rightarrow> byte list list \<Rightarrow> nat \<Rightarrow> byte list" where
  "block_layout addr argv env n =
     word_bytes (block_words addr argv env) @ strs (argv @ env) @
     replicate (n - 8 * (length argv + length env + 5) - length (strs (argv @ env))) 0"

lemma startup_plan_write_layout:
  assumes "length block = STARTUP_V2_BLOCK_BYTES"
    and "8 * (length argv + length env + 5) + length (strs (argv @ env)) \<le> STARTUP_V2_BLOCK_BYTES"
    and "unat addr + STARTUP_V2_BLOCK_BYTES < 2 ^ 64"
  shows "startup_plan_write \<lparr>p_block_address = addr, p_argv = argv, p_environment = env,
      p_string_start = 8 * (length argv + length env + 5)\<rparr> block =
    Ok (block_layout addr argv env STARTUP_V2_BLOCK_BYTES)"
proof -
  let ?N = "STARTUP_V2_BLOCK_BYTES" and ?a = "length argv" and ?e = "length env"
  let ?s = "8 * (?a + ?e + 5)"
  let ?c = "word_of_nat ?a :: u64"
  have "replicate ?N (0 :: byte) = replicate ?s 0 @ replicate (?N - ?s) 0"
    using assms(2) by (simp add: replicate_add [symmetric])
  then have z: "fill_zero block = [] @ replicate ?s 0 @ [] @ replicate (?N - ?s) 0"
    using assms(1) by (simp add: fill_zero_def)
  have w0: "sb_put_u64 (fill_zero block) 0 ?c = Ok (to_le 8 ?c @ replicate (?s - 8) 0 @ [] @ replicate (?N - ?s) 0)"
    unfolding z sb_put_u64_def by (subst copy_into_zeros) auto
  have w1: "write_vector addr argv 8 ?s (to_le 8 ?c @ replicate (?s - 8) 0 @ [] @ replicate (?N - ?s) 0) =
      Ok (8 + 8 * ?a, ?s + length (strs argv),
        to_le 8 ?c @ word_bytes (pointers addr ?s argv) @ replicate (?s - 8 - 8 * ?a) 0 @ [] @ strs argv @
        replicate (?N - ?s - length (strs argv)) 0)"
    by (rule write_vector_layout) (use assms(2,3) in simp_all)
  have split: "replicate (?s - 8 - 8 * ?a) (0 :: byte) = replicate 8 0 @ replicate (?s - 16 - 8 * ?a) 0"
    by (simp add: replicate_add [symmetric])
  let ?W = "to_le 8 ?c @ word_bytes (pointers addr ?s argv) @ replicate 8 0"
  have w2: "write_vector addr env (8 + 8 * ?a + 8) (?s + length (strs argv))
      (?W @ replicate (?s - 16 - 8 * ?a) 0 @ strs argv @ replicate (?N - ?s - length (strs argv)) 0) =
      Ok (8 + 8 * ?a + 8 + 8 * ?e, ?s + length (strs argv) + length (strs env),
        ?W @ word_bytes (pointers addr (?s + length (strs argv)) env) @
        replicate (?s - 16 - 8 * ?a - 8 * ?e) 0 @ strs argv @ strs env @
        replicate (?N - ?s - length (strs argv) - length (strs env)) 0)"
    by (rule write_vector_layout) (use assms(2,3) in simp_all)
  have gap: "?s - 16 - 8 * ?a - 8 * ?e = 24" by simp
  have z24: "replicate 24 (0 :: byte) = word_bytes [0, 0, 0]" and z8: "replicate 8 (0 :: byte) = word_bytes [0]"
    using word_bytes_zeros [of 3] word_bytes_zeros [of 1] by (simp_all add: numeral_3_eq_3 del: to_le_0)
  have rest: "?N - ?s - length (strs argv) - length (strs env) = ?N - ?s - length (strs (argv @ env))"
    by simp
  have "?W @ word_bytes (pointers addr (?s + length (strs argv)) env) @
      replicate (?s - 16 - 8 * ?a - 8 * ?e) 0 @ strs argv @ strs env @
      replicate (?N - ?s - length (strs argv) - length (strs env)) 0 = block_layout addr argv env ?N"
    unfolding block_layout_def block_words_def Let_def gap z24 z8 rest by simp
  with w2 have w3: "write_vector addr env (8 + 8 * ?a + 8) (?s + length (strs argv))
      (?W @ replicate (?s - 16 - 8 * ?a) 0 @ strs argv @ replicate (?N - ?s - length (strs argv)) 0) =
      Ok (8 + 8 * ?a + 8 + 8 * ?e, ?s + length (strs argv) + length (strs env),
        block_layout addr argv env ?N)" by (simp only:)
  show ?thesis
    using assms(1) w1 [unfolded split] w3
    by (simp only: startup_plan_write_def startup_plan.simps w0 rbind.simps append_Nil append_assoc
        prod.case if_False simp_thms)
qed

subsection \<open>Reading\<close>

text \<open>Word \<open>i\<close> of a block that begins with words.\<close>

lemma read_word_nth:
  assumes "i < length ws" "length (word_bytes ws @ rest) \<le> usize_max"
  shows "read_word (word_bytes ws @ rest) (8 * i) = Some (ws ! i)"
proof -
  have "ws = take i ws @ ws ! i # drop (Suc i) ws" using assms(1) by (rule id_take_nth_drop)
  then have b: "word_bytes ws @ rest = word_bytes (take i ws) @ to_le 8 (ws ! i) @ (word_bytes (drop (Suc i) ws) @ rest)"
    by (metis append_assoc word_bytes_simps(2,3))
  have "8 * i + 8 \<le> length (word_bytes ws @ rest)" using assms(1) by simp
  moreover have "region (8 * i) 8 (word_bytes ws @ rest) = to_le 8 (ws ! i)"
    unfolding b region_def using assms(1) by simp
  ultimately show ?thesis
    using assms(2)
    by (simp add: read_word_def checked_add_usize_def WORD_SIZE_def get_range_def le64.dec_enc)
qed

lemma scan_vector_words:
  assumes "j \<le> e" "e < length ws" "ws ! e = 0" "\<And>i. j \<le> i \<Longrightarrow> i < e \<Longrightarrow> ws ! i \<noteq> 0"
    and "c + (e - j) + 8 * length ws \<le> usize_max" "length (word_bytes ws @ rest) \<le> usize_max"
  shows "scan_vector (word_bytes ws @ rest) c (8 * j) = Ok (c + (e - j), 8 * (e + 1))"
  using assms(1,4,5)
proof (induction "e - j" arbitrary: j c)
  case 0
  then have "j = e" by simp
  with read_word_nth [OF assms(2,6)] assms(2,3) 0 show ?case
    by (subst scan_vector.simps) (simp add: checked_add_usize_def WORD_SIZE_def)
next
  case (Suc n)
  then have j: "j < e" "ws ! j \<noteq> 0" by auto
  have r: "read_word (word_bytes ws @ rest) (8 * j) = Some (ws ! j)"
    using j(1) assms(2,6) by (intro read_word_nth) simp_all
  have f: "checked_add_usize c (Suc 0) = Some (Suc c)" "checked_add_usize (8 * j) WORD_SIZE = Some (8 * Suc j)"
    using Suc.prems(3) j(1) assms(2) by (simp_all add: checked_add_usize_def WORD_SIZE_def)
  have "scan_vector (word_bytes ws @ rest) (Suc c) (8 * Suc j) = Ok (Suc c + (e - Suc j), 8 * (e + 1))"
    using Suc.hyps(2) Suc.prems j by (intro Suc.hyps(1)) auto
  with j show ?case
    by (subst scan_vector.simps) (simp add: r f del: mult_Suc_right)
qed

lemma position_append_nul:
  "0 \<notin> set v \<Longrightarrow> position (\<lambda>b. b = 0) (v @ 0 # r) = Some (length v)" for v r :: "byte list"
  by (induction v) auto

text \<open>A vector of strings in a block: its pointers, and its strings one after the other.\<close>

definition vector_in :: "byte list \<Rightarrow> u64 \<Rightarrow> nat \<Rightarrow> nat \<Rightarrow> byte list list \<Rightarrow> bool" where
  "vector_in B addr off s vs \<longleftrightarrow>
     (\<forall>i < length vs. word_at B off i = Ok (addr + word_of_nat (s + length (strs (take i vs))))) \<and>
     (\<exists>z. drop s B = strs vs @ z) \<and> s \<le> length B \<and>
     list_all (\<lambda>v. valid_utf8 v \<and> 0 \<notin> set v) vs \<and>
     length B \<le> 20480 \<and> unat addr + 20480 < 2 ^ 64"

lemma vector_in_string:
  assumes "vector_in B addr off s vs" "i < length vs"
  defines "c \<equiv> s + length (strs (take i vs))"
  shows "word_at B off i = Ok (addr + word_of_nat c)"
    and "c < length B" and "c_string (drop c B) = Ok (vs ! i)" and "valid_utf8 (vs ! i)"
    and "unat (addr + word_of_nat c) = unat addr + c"
    and "checked_add_u64 addr (word_of_nat c) = Some (addr + word_of_nat c)"
    and "c + length (vs ! i) + 1 \<le> length B"
proof -
  show "word_at B off i = Ok (addr + word_of_nat c)" using assms by (simp add: vector_in_def)
  from assms(1) obtain z where z: "drop s B = strs vs @ z" and s: "s \<le> length B"
    and B: "length B \<le> 20480" "unat addr + 20480 < 2 ^ 64"
    and v: "list_all (\<lambda>v. valid_utf8 v \<and> 0 \<notin> set v) vs"
    by (auto simp: vector_in_def)
  have "vs = take i vs @ vs ! i # drop (Suc i) vs" using assms(2) by (rule id_take_nth_drop)
  then have "strs vs = strs (take i vs) @ vs ! i @ [0] @ strs (drop (Suc i) vs)"
    by (metis strs_simps(2,3))
  moreover have "drop c B = drop (length (strs (take i vs))) (drop s B)"
    by (simp add: c_def add.commute)
  ultimately have d: "drop c B = vs ! i @ 0 # strs (drop (Suc i) vs) @ z"
    using z by simp
  then have "length (drop c B) \<ge> length (vs ! i) + 1" by simp
  then show cB: "c < length B" and "c + length (vs ! i) + 1 \<le> length B" by auto
  have v': "0 \<notin> set (vs ! i)" using v assms(2) by (simp add: list_all_length)
  from position_append_nul [OF v'] d show "c_string (drop c B) = Ok (vs ! i)" by (simp add: c_string_def)
  show "valid_utf8 (vs ! i)" using v assms(2) by (simp add: list_all_length)
  have "unat addr + c < 2 ^ 64" using cB B by simp
  from checked_pointer [OF this]
  show "unat (addr + word_of_nat c) = unat addr + c"
    "checked_add_u64 addr (word_of_nat c) = Some (addr + word_of_nat c)" by simp_all
qed

text \<open>A pointer of such a vector, seen from the block.\<close>

lemma vector_in_pointer:
  assumes "vector_in B addr off s vs" "i < length vs"
  defines "p \<equiv> addr + word_of_nat (s + length (strs (take i vs)))"
  shows "\<not> p < addr" and "unat (p - addr) = s + length (strs (take i vs))"
    and "unat e = unat addr + length B \<Longrightarrow> \<not> e \<le> p"
proof -
  note v = vector_in_string [OF assms(1,2)]
  have u: "unat p = unat addr + (s + length (strs (take i vs)))" using v(5) by (simp add: p_def)
  then show "\<not> p < addr" by (simp add: word_less_nat_alt)
  then have "addr \<le> p" by simp
  then show "unat (p - addr) = s + length (strs (take i vs))" using u by (simp add: unat_sub word_le_nat_alt)
  show "\<not> e \<le> p" if "unat e = unat addr + length B" using u v(2) that by (simp add: word_le_nat_alt)
qed

lemma validate_strings_vector_in:
  assumes "vector_in B addr off s vs" "unat e = unat addr + length B" "list_all (\<lambda>i. i < length vs) is"
  shows "validate_strings B addr e off is = Ok ()"
  using assms(3)
proof (induction "is")
  case Nil
  then show ?case by simp
next
  case (Cons i "is")
  then have i: "i < length vs" by simp
  note v = vector_in_string [OF assms(1) i] and p = vector_in_pointer [OF assms(1) i]
  have "validate_string B addr e (addr + word_of_nat (s + length (strs (take i vs)))) = Ok ()"
    using p(1) p(3) [OF assms(2)] v(2,3,4)
    by (simp only: validate_string_def simp_thms if_False p(2))
      (simp add: region_r_def region_def)
  with Cons v(1) show ?case by simp
qed

lemma canonical_strings_vector_in:
  assumes "vector_in B addr off s vs" "i \<le> length vs" "t + sum_list (map length (drop i vs)) \<le> usize_max"
  shows "canonical_strings B addr off [i..<length vs] (s + length (strs (take i vs)), t) =
    Ok (s + length (strs vs), t + sum_list (map length (drop i vs)))"
  using assms(2,3)
proof (induction "length vs - i" arbitrary: i t)
  case 0
  then show ?case by simp
next
  case (Suc n)
  then have i: "i < length vs" by simp
  note v = vector_in_string [OF assms(1) i]
  let ?c = "s + length (strs (take i vs))"
  have step: "?c + (length (vs ! i) + 1) = s + length (strs (take (Suc i) vs))"
    using i by (simp add: take_Suc_conv_app_nth)
  have dr: "drop i vs = vs ! i # drop (Suc i) vs" using i by (rule Cons_nth_drop_Suc [symmetric])
  have "length B \<le> 20480" using assms(1) by (simp add: vector_in_def)
  with v(7) have fits: "length (vs ! i) + 1 \<le> usize_max" "?c + (length (vs ! i) + 1) \<le> usize_max"
    by (simp_all add: usize_max_def)
  have "t + length (vs ! i) \<le> usize_max" using Suc.prems(2) dr by simp
  then have "validate_canonical_v2_string B addr off i ?c t =
      Ok (s + length (strs (take (Suc i) vs)), t + length (vs ! i))"
    using v(1,2,3,4,6) fits step
    by (simp add: validate_canonical_v2_string_def get_range_def region_def checked_add_usize_def)
  moreover have "canonical_strings B addr off [Suc i..<length vs]
      (s + length (strs (take (Suc i) vs)), t + length (vs ! i)) =
      Ok (s + length (strs vs), t + length (vs ! i) + sum_list (map length (drop (Suc i) vs)))"
    using Suc i dr by (intro Suc.hyps(1)) simp_all
  moreover have "[i..<length vs] = i # [Suc i..<length vs]" using i by (rule upt_conv_Cons)
  ultimately show ?case using dr by simp
qed

lemma string_slice_vector_in:
  assumes "vector_in B addr off s vs" "i < length vs"
  shows "rbind (word_at B off i) (string_slice B addr) = Ok (vs ! i)"
proof -
  note v = vector_in_string [OF assms] and p = vector_in_pointer [OF assms]
  show ?thesis
    unfolding v(1) rbind.simps string_slice_def if_not_P [OF p(1)] p(2)
    using v(2,3) by (simp add: get_range_def region_def)
qed

lemma environment_name_same: "environment_name v = Ok n \<longleftrightarrow> sb_environment_name v = Ok n"
  by (auto simp: environment_name_def sb_environment_name_def split_once_eq_def Let_def res_simps
      split: if_splits)

lemma earlier_names_vector_in:
  assumes "vector_in B addr off s vs" "list_all (\<lambda>j. j < length vs) js"
    and "list_all (\<lambda>j. \<exists>m. environment_name (vs ! j) = Ok m \<and> m \<noteq> n) js"
  shows "earlier_names B addr off n js = Ok ()"
  using assms(2,3)
proof (induction js)
  case Nil
  then show ?case by simp
next
  case (Cons j js)
  then have "rbind (word_at B off j) (string_slice B addr) = Ok (vs ! j)"
    by (intro string_slice_vector_in [OF assms(1)]) simp
  then obtain p where "word_at B off j = Ok p" "string_slice B addr p = Ok (vs ! j)"
    by (auto simp: res_simps)
  with Cons show ?case by auto
qed

text \<open>Names that are valid and differ from those of all earlier entries.\<close>

definition distinct_names :: "byte list list \<Rightarrow> bool" where
  "distinct_names vs \<longleftrightarrow> (\<forall>i < length vs. \<exists>n. environment_name (vs ! i) = Ok n \<and>
     (\<forall>j < i. environment_name (vs ! j) \<noteq> Ok n))"

lemma validate_environment_vector_in:
  assumes "vector_in B addr off s vs" "distinct_names vs" "list_all (\<lambda>i. i < length vs) is"
  shows "validate_environment B addr off is = Ok ()"
  using assms(3)
proof (induction "is")
  case Nil
  then show ?case by simp
next
  case (Cons i "is")
  then have i: "i < length vs" by simp
  from string_slice_vector_in [OF assms(1) i] obtain p
    where p: "word_at B off i = Ok p" "string_slice B addr p = Ok (vs ! i)" by (auto simp: res_simps)
  from assms(2) i obtain n where n: "environment_name (vs ! i) = Ok n"
    "\<forall>j < i. environment_name (vs ! j) \<noteq> Ok n" by (auto simp: distinct_names_def)
  have "\<exists>m. environment_name (vs ! j) = Ok m \<and> m \<noteq> n" if "j < i" for j
  proof -
    have "j < length vs" using that i by simp
    with assms(2) obtain m where "environment_name (vs ! j) = Ok m"
      unfolding distinct_names_def by blast
    with n(2) that show ?thesis by auto
  qed
  then have "earlier_names B addr off n [0..<i] = Ok ()"
    using i by (intro earlier_names_vector_in [OF assms(1)]) (auto simp: list_all_iff)
  with Cons p n(1) show ?case by simp
qed

lemma env_loop_names:
  assumes "env_loop before vs = Ok ()"
  shows "\<forall>i < length vs. \<exists>n. sb_environment_name (vs ! i) = Ok n \<and>
    (\<forall>u \<in> set before \<union> set (take i vs). sb_environment_name u \<noteq> Ok n)"
  using assms
proof (induction vs arbitrary: before)
  case Nil
  then show ?case by simp
next
  case (Cons v vs)
  then obtain n where n: "sb_environment_name v = Ok n" "\<forall>u \<in> set before. sb_environment_name u \<noteq> Ok n"
    and rest: "env_loop (before @ [v]) vs = Ok ()"
    by (auto simp: res_simps list_ex_iff split: if_splits)
  show ?case
  proof (intro allI impI)
    fix i assume "i < length (v # vs)"
    then show "\<exists>n. sb_environment_name ((v # vs) ! i) = Ok n \<and>
        (\<forall>u \<in> set before \<union> set (take i (v # vs)). sb_environment_name u \<noteq> Ok n)"
      using n Cons.IH [OF rest] by (cases i) auto
  qed
qed

lemma env_loop_distinct_names:
  assumes "env_loop [] vs = Ok ()"
  shows "distinct_names vs"
proof -
  have "vs ! j \<in> set (take i vs)" if "j < i" "i < length vs" for i j
    using that by (metis in_set_conv_nth length_take min.absorb4 nth_take)
  with env_loop_names [OF assms] show ?thesis
    unfolding distinct_names_def environment_name_same by fastforce
qed

subsection \<open>The written block is accepted\<close>

text \<open>A launch whose block fits: texts without NUL, and the block below the end of the address
  space.\<close>

definition fits :: "u64 \<Rightarrow> byte list list \<Rightarrow> byte list list \<Rightarrow> nat \<Rightarrow> bool" where
  "fits addr argv env n \<longleftrightarrow>
     8 * (length argv + length env + 5) + length (strs (argv @ env)) \<le> n \<and> n \<le> 20480 \<and>
     unat addr + 20480 < 2 ^ 64 \<and> list_all (\<lambda>v. valid_utf8 v \<and> 0 \<notin> set v) (argv @ env)"

lemma length_block_words [simp]: "length (block_words addr argv env) = length argv + length env + 5"
  by (simp add: block_words_def Let_def)

lemma length_block_layout: "fits addr argv env n \<Longrightarrow> length (block_layout addr argv env n) = n"
  by (simp add: block_layout_def fits_def)

lemma block_words_nth:
  "block_words addr argv env ! 0 = word_of_nat (length argv)"
  "i < length argv \<Longrightarrow> block_words addr argv env ! Suc i =
     pointers addr (8 * (length argv + length env + 5)) argv ! i"
  "block_words addr argv env ! Suc (length argv) = 0"
  "i < length env \<Longrightarrow> block_words addr argv env ! (length argv + 2 + i) =
     pointers addr (8 * (length argv + length env + 5) + length (strs argv)) env ! i"
  "k \<in> {2, 3, 4} \<Longrightarrow> block_words addr argv env ! (length argv + length env + k) = 0"
  by (auto simp: block_words_def Let_def nth_append nth_Cons')

lemma read_block_word:
  assumes "fits addr argv env n" "i < length argv + length env + 5"
  shows "read_word (block_layout addr argv env n) (8 * i) = Some (block_words addr argv env ! i)"
proof -
  have "length (block_layout addr argv env n) \<le> usize_max"
    using assms(1) by (simp add: length_block_layout) (simp add: fits_def usize_max_def)
  then show ?thesis unfolding block_layout_def using assms(2) by (intro read_word_nth) simp_all
qed

lemma word_at_block:
  assumes "fits addr argv env n" "k + i < length argv + length env + 5"
  shows "word_at (block_layout addr argv env n) (8 * k) i = Ok (block_words addr argv env ! (k + i))"
proof -
  have "8 * (k + i) \<le> 20480" using assms by (simp add: fits_def)
  then have "advance_words (8 * k) i = Some (8 * (k + i))"
    by (simp add: advance_words_def checked_mul_usize_def checked_add_usize_def WORD_SIZE_def
        usize_max_def)
  with read_block_word [OF assms] show ?thesis by (simp add: word_at_def)
qed

lemma block_vectors:
  assumes "fits addr argv env n"
  defines "B \<equiv> block_layout addr argv env n" and "s \<equiv> 8 * (length argv + length env + 5)"
  shows "vector_in B addr 8 s argv"
    and "vector_in B addr (8 * (length argv + 2)) (s + length (strs argv)) env"
proof -
  have d: "drop s B = strs argv @ strs env @ replicate (n - s - length (strs (argv @ env))) 0"
    by (simp add: B_def s_def block_layout_def)
  have p: "pointers addr t vs ! i = addr + word_of_nat (t + length (strs (take i vs)))"
    if "i < length vs" for t vs i
    using that by (simp add: pointers_def offsets_def)
  have len: "length B = n" using assms(1) by (simp add: B_def length_block_layout)
  have sB: "s + length (strs argv) \<le> length B" using assms(1) len by (simp add: fits_def s_def)
  have "word_at B 8 i = Ok (addr + word_of_nat (s + length (strs (take i argv))))"
    if "i < length argv" for i
    using word_at_block [OF assms(1), of 1 i] block_words_nth(2) [OF that] p [OF that] that
    by (simp add: B_def s_def)
  then show "vector_in B addr 8 s argv"
    using assms(1) d len sB by (auto simp: vector_in_def fits_def)
  have "word_at B (8 * (length argv + 2)) i =
      Ok (addr + word_of_nat (s + length (strs argv) + length (strs (take i env))))"
    if "i < length env" for i
    using word_at_block [OF assms(1), of "length argv + 2" i] block_words_nth(4) [OF that] p [OF that] that
    by (simp add: B_def s_def)
  moreover have "drop (s + length (strs argv)) B =
      strs env @ replicate (n - s - length (strs (argv @ env))) 0"
    using d by (metis (no_types, lifting) add.commute append_eq_conv_conj drop_drop)
  ultimately show "vector_in B addr (8 * (length argv + 2)) (s + length (strs argv)) env"
    using assms(1) len sB by (auto simp: vector_in_def fits_def)
qed

lemma block_scans:
  assumes "fits addr argv env n"
  defines "B \<equiv> block_layout addr argv env n"
  shows "scan_vector B 0 (8 * (length argv + 2)) = Ok (length env, 8 * (length argv + length env + 3))"
    and "scan_aux B 0 (8 * (length argv + length env + 3)) = Ok 0"
    and "scan_auxiliary_vector_end B (8 * (length argv + length env + 3)) =
      Ok (8 * (length argv + length env + 5))"
proof -
  let ?ws = "block_words addr argv env"
  let ?e = "length argv + length env + 2"
  have n: "8 * (length argv + length env + 5) \<le> 20480" using assms(1) by (simp add: fits_def)
  have nz: "?ws ! i \<noteq> 0" if i: "length argv + 2 \<le> i" "i < ?e" for i
  proof -
    let ?j = "i - (length argv + 2)"
    have j: "?j < length env" "length argv + 2 + ?j = i" using i by auto
    note v = vector_in_string(5) [OF block_vectors(2) [OF assms(1)] j(1)]
    have "?ws ! i = pointers addr (8 * (length argv + length env + 5) + length (strs argv)) env ! ?j"
      using block_words_nth(4) [OF j(1), of addr argv] by (simp only: j(2))
    also have "\<dots> = addr + word_of_nat (8 * (length argv + length env + 5) + length (strs argv) +
        length (strs (take ?j env)))"
      using j(1) by (simp add: pointers_def offsets_def)
    finally have "unat (?ws ! i) = unat addr + (8 * (length argv + length env + 5) +
        length (strs argv) + length (strs (take ?j env)))" using v by simp
    then show ?thesis by (metis add_is_0 mult_is_0 numeral_eq_Suc Suc_neq_Zero unat_0 zero_neq_numeral)
  qed
  have z: "?ws ! ?e = 0" "?ws ! (?e + 1) = 0" "?ws ! (?e + 2) = 0"
    using block_words_nth(5) [of 2 addr argv env] block_words_nth(5) [of 3 addr argv env]
      block_words_nth(5) [of 4 addr argv env] by (simp_all add: eval_nat_numeral)
  have lenB: "length B = n" using assms(1) by (simp add: B_def length_block_layout)
  have us: "n \<le> usize_max" using assms(1) by (simp add: fits_def usize_max_def)
  have "scan_vector (word_bytes ?ws @ drop (8 * length ?ws) B) 0 (8 * (length argv + 2)) =
      Ok (0 + (?e - (length argv + 2)), 8 * (?e + 1))"
    using z(1) nz n us lenB
    by (intro scan_vector_words) (auto simp: usize_max_def B_def block_layout_def)
  moreover have "word_bytes ?ws @ drop (8 * length ?ws) B = B" by (simp add: B_def block_layout_def)
  ultimately show "scan_vector B 0 (8 * (length argv + 2)) = Ok (length env, 8 * (length argv + length env + 3))"
    by (simp add: add.commute add.left_commute)
  have r: "read_word B (8 * (length argv + length env + 3)) = Some 0"
    "read_word B (8 * (length argv + length env + 3) + 8) = Some 0"
    using read_block_word [OF assms(1), of "?e + 1"] read_block_word [OF assms(1), of "?e + 2"] z(2,3)
    by (simp_all add: B_def algebra_simps)
  have fits: "8 * (length argv + length env + 3) + 16 \<le> usize_max" using n by (simp add: usize_max_def)
  show "scan_aux B 0 (8 * (length argv + length env + 3)) = Ok 0"
    using r fits by (subst scan_aux.simps) (simp add: checked_add_usize_def WORD_SIZE_def)
  show "scan_auxiliary_vector_end B (8 * (length argv + length env + 3)) =
      Ok (8 * (length argv + length env + 5))"
    using r fits by (subst scan_auxiliary_vector_end.simps) (simp add: checked_add_usize_def WORD_SIZE_def)
qed

lemma length_strs: "length (strs vs) = sum_list (map length vs) + length vs"
  by (induction vs) simp_all

lemma v2_layout_accepted:
  assumes "fits addr argv env n" "1 \<le> length argv" "length argv \<le> 64" "length env \<le> 64"
    and "sum_list (map length (argv @ env)) \<le> 16384" "distinct_names env"
  shows "validate_v2_layout (block_layout addr argv env n) addr (length argv) 8 (length env)
      (8 * (length argv + 2)) (8 * (length argv + length env + 3)) = Ok ()"
proof -
  let ?s = "8 * (length argv + length env + 5)"
  note v = block_vectors [OF assms(1)]
  have a: "canonical_strings (block_layout addr argv env n) addr 8 [0..<length argv] (?s, 0) =
      Ok (?s + length (strs argv), sum_list (map length argv))"
    using canonical_strings_vector_in [OF v(1), of 0 0] assms(5) by (simp add: usize_max_def)
  have e: "canonical_strings (block_layout addr argv env n) addr (8 * (length argv + 2)) [0..<length env]
      (?s + length (strs argv), sum_list (map length argv)) =
      Ok (?s + length (strs argv) + length (strs env), sum_list (map length argv) + sum_list (map length env))"
    using canonical_strings_vector_in [OF v(2), of 0 "sum_list (map length argv)"] assms(5)
    by (simp add: usize_max_def)
  have x: "validate_environment (block_layout addr argv env n) addr (8 * (length argv + 2)) [0..<length env] = Ok ()"
    by (rule validate_environment_vector_in [OF v(2) assms(6)]) (simp add: list_all_iff)
  show ?thesis
    unfolding validate_v2_layout_def block_scans(3) [OF assms(1)] rbind.simps a e prod.case x
    using assms(2-5) by simp
qed

definition parsed_block ::
  "u64 \<Rightarrow> u64 \<Rightarrow> u64 \<Rightarrow> byte list list \<Rightarrow> byte list list \<Rightarrow> nat \<Rightarrow> startup_block" where
  "parsed_block channel version addr argv env n =
     \<lparr>sb_bytes = block_layout addr argv env n, sb_address = addr, sb_version = version,
      sb_bootstrap_channel = channel, sb_argv_offset = 8, sb_argc = length argv,
      sb_envp_offset = 8 * (length argv + 2), sb_envc = length env,
      sb_auxv_offset = 8 * (length argv + length env + 3), sb_auxc = 0\<rparr>"

lemma parsed_block_simps:
  "sb_argc (parsed_block c v addr argv env n) = length argv"
  "sb_envc (parsed_block c v addr argv env n) = length env"
  "sb_argv_offset (parsed_block c v addr argv env n) = 8"
  "sb_envp_offset (parsed_block c v addr argv env n) = 8 * (length argv + 2)"
  "sb_auxc (parsed_block c v addr argv env n) = 0"
  "sb_bootstrap_channel (parsed_block c v addr argv env n) = c"
  by (simp_all add: parsed_block_def)

lemma layout_parses:
  assumes "fits addr argv env n" "channel \<noteq> 0" "unat addr mod 16 = 0"
    and "startup_block_size version = Ok n"
    and "version = STARTUP_ABI_V2 \<Longrightarrow>
      validate_v2_layout (block_layout addr argv env n) addr (length argv) 8 (length env)
        (8 * (length argv + 2)) (8 * (length argv + length env + 3)) = Ok ()"
  shows "startup_parse \<lparr>startup_argument0 = channel, startup_argument1 = version\<rparr> addr
      (block_layout addr argv env n) = Ok (parsed_block channel version addr argv env n)"
proof -
  let ?B = "block_layout addr argv env n"
  have n: "8 * (length argv + length env + 5) \<le> 20480" "n \<le> 20480" "unat addr + 20480 < 2 ^ 64"
    using assms(1) by (auto simp: fits_def)
  have len: "length ?B = n" by (rule length_block_layout [OF assms(1)])
  have e: "checked_add_u64 addr (word_of_nat n) = Some (addr + word_of_nat n)"
      "unat (addr + word_of_nat n) = unat addr + length ?B"
    using checked_pointer [of addr n] n len by simp_all
  have argc: "unat (word_of_nat (length argv) :: u64) = length argv"
    using n(1) by (simp add: unat_of_nat)
  have adv: "advance_words 8 (length argv) = Some (8 * Suc (length argv))"
    "checked_add_usize (8 * Suc (length argv)) WORD_SIZE = Some (8 * (length argv + 2))"
    using n(1) by (simp_all add: advance_words_def checked_mul_usize_def checked_add_usize_def
        WORD_SIZE_def usize_max_def)
  have r: "read_word ?B 0 = Some (word_of_nat (length argv))" "read_word ?B (8 * Suc (length argv)) = Some 0"
    using read_block_word [OF assms(1), of 0] read_block_word [OF assms(1), of "Suc (length argv)"]
      block_words_nth(1,3) [of addr argv env] by simp_all
  note v = block_vectors [OF assms(1)]
  have s: "validate_strings ?B addr (addr + word_of_nat n) 8 [0..<length argv] = Ok ()"
    "validate_strings ?B addr (addr + word_of_nat n) (8 * (length argv + 2)) [0..<length env] = Ok ()"
    by (rule validate_strings_vector_in [OF v(1) e(2)], simp add: list_all_iff)
      (rule validate_strings_vector_in [OF v(2) e(2)], simp add: list_all_iff)
  show ?thesis
    unfolding startup_parse_def startup_registers.simps assms(4) rbind.simps Let_def WORD_SIZE_def
      if_not_P [OF assms(2)] len e(1) r(1) ok_or.simps argc adv [unfolded WORD_SIZE_def]
      require_word_def r(2) scan_null_terminated_vector_def scan_auxiliary_vector_def
      block_scans(1,2) [OF assms(1)] prod.case s if_P [OF refl]
    using assms(3,5) by (simp add: parsed_block_def)
qed

lemma parsed_strings:
  assumes "fits addr argv env n"
  shows "map (startup_arg (parsed_block channel version addr argv env n)) [0..<length argv] =
      map (\<lambda>v. Ok (Some v)) argv"
    and "map (startup_env (parsed_block channel version addr argv env n)) [0..<length env] =
      map (\<lambda>v. Ok (Some v)) env"
proof -
  let ?B = "block_layout addr argv env n"
  let ?sb = "parsed_block channel version addr argv env n"
  have str: "vector_string ?sb off i = Ok (Some (vs ! i))"
    if "vector_in ?B addr off s vs" "i < length vs" for off s vs i
  proof -
    note v = vector_in_string [OF that] and p = vector_in_pointer [OF that]
    let ?c = "s + length (strs (take i vs))"
    have "string_at ?sb (addr + word_of_nat ?c) = Ok (vs ! i)"
      using p(1,2) v(2) c_string_Ok [OF v(3)]
      by (simp add: string_at_def parsed_block_def region_r_def region_def)
    with v(1) show ?thesis by (simp add: vector_string_def parsed_block_def)
  qed
  note v = block_vectors [OF assms]
  show "map (startup_arg ?sb) [0..<length argv] = map (\<lambda>v. Ok (Some v)) argv"
    by (rule nth_equalityI) (simp_all add: startup_arg_def parsed_block_simps str [OF v(1)])
  show "map (startup_env ?sb) [0..<length env] = map (\<lambda>v. Ok (Some v)) env"
    by (rule nth_equalityI)
      (simp_all only: startup_env_def parsed_block_simps length_map length_upt nth_map nth_upt
        add_0 diff_zero str [OF v(2)], simp_all)
qed

subsection \<open>The loader's blocks\<close>

lemma sum_lengths_Some:
  "sum_lengths n vs = Some m \<Longrightarrow> m = n + sum_list (map length vs)"
proof (induction vs arbitrary: n)
  case Nil
  then show ?case by simp
next
  case (Cons v vs)
  then have "sum_lengths (n + length v) vs = Some m"
    by (auto simp: bind_eq_Some_conv checked_add_usize_def split: if_splits)
  from Cons.IH [OF this] show ?case by simp
qed

lemma startup_plan_new_Ok:
  assumes "startup_plan_new n addr path argv env = Ok plan"
  shows "n = STARTUP_V2_BLOCK_BYTES \<and> 1 \<le> length argv \<and> length argv \<le> 64 \<and> length env \<le> 64 \<and>
    sum_list (map length (argv @ env)) \<le> 16384 \<and> env_loop [] env = Ok () \<and>
    list_all (\<lambda>v. 0 \<notin> set v) (argv @ env) \<and>
    8 * (length argv + length env + 5) + length (strs (argv @ env)) \<le> n \<and>
    plan = \<lparr>p_block_address = addr, p_argv = argv, p_environment = env,
      p_string_start = 8 * (length argv + length env + 5)\<rparr>"
  using assms
  by (cases argv)
    (auto simp: startup_plan_new_def res_simps bind_eq_Some_conv checked_add_usize_def checked_mul_usize_def
      length_strs list_all_iff list_ex_iff MAX_ARGV_def MAX_ENVIRONMENT_def MAX_STRING_BYTES_def
      algebra_simps dest!: sum_lengths_Some split: if_splits)

lemma startup_plan_new_no_panic: "startup_plan_new n addr path argv env \<noteq> Panic"
proof -
  have "sb_environment_name v \<noteq> Panic" for v by (auto simp: sb_environment_name_def res_simps)
  then have "env_loop before vs \<noteq> Panic" for before vs
    by (induction vs arbitrary: before) (auto simp: res_simps)
  then show ?thesis by (auto simp: startup_plan_new_def res_simps)
qed

lemma v2_address:
  "unat STARTUP_V2_BLOCK_ADDRESS mod 16 = 0" "unat STARTUP_V2_BLOCK_ADDRESS + 20480 < 2 ^ 64"
  "unat STARTUP_PAGE_ADDRESS mod 16 = 0" "unat STARTUP_PAGE_ADDRESS + 20480 < 2 ^ 64"
  "STARTUP_V2_BLOCK_BYTES = 20480" "unat PAGE_SIZE = 4096"
  by (simp_all add: STARTUP_V2_BLOCK_ADDRESS_def STARTUP_PAGE_ADDRESS_def STACK_TOP_def PAGE_SIZE_def
      STARTUP_V2_BLOCK_BYTES_def)

text \<open>The version 1 page is the same layout with one argument and no environment.\<close>

lemma v1_writes:
  assumes "length path + 49 \<le> 4096"
  defines "p \<equiv> STARTUP_PAGE_ADDRESS + 48"
  shows "rbind (sb_put_u64 (replicate 4096 0) 0 1) (\<lambda>page1.
      rbind (sb_put_u64 page1 8 p) (\<lambda>page2. copy_into 48 path page2)) =
    Ok (block_layout STARTUP_PAGE_ADDRESS [path] [] 4096)"
proof -
  have 1: "sb_put_u64 (replicate 4096 0) 0 1 = Ok (to_le 8 (1 :: u64) @ replicate 4088 0)"
    using copy_into_zeros [of "[]" 0 "to_le 8 (1 :: u64)" 4096 "[]"] by (simp add: sb_put_u64_def)
  have 2: "sb_put_u64 (to_le 8 (1 :: u64) @ replicate 4088 0) 8 p = Ok (to_le 8 (1 :: u64) @ to_le 8 p @ replicate 4080 0)"
    using copy_into_zeros [of "to_le 8 (1 :: u64)" 8 "to_le 8 p" 4088 "[]"] by (simp add: sb_put_u64_def)
  have z: "replicate 4080 (0 :: byte) = replicate 32 0 @ replicate 4048 0"
    by (simp add: replicate_add [symmetric])
  have 3: "copy_into 48 path (to_le 8 (1 :: u64) @ to_le 8 p @ replicate 4080 0) =
      Ok (to_le 8 (1 :: u64) @ to_le 8 p @ replicate 32 0 @ path @ replicate (4048 - length path) 0)"
    unfolding z
    using copy_into_zeros [of "to_le 8 (1 :: u64) @ to_le 8 p @ replicate 32 0" 48 path 4048 "[]"] assms(1)
    by simp
  have "4048 - length path = Suc (4047 - length path)" using assms(1) by simp
  then have "replicate (4048 - length path) (0 :: byte) = 0 # replicate (4047 - length path) 0"
    by (simp only: replicate_Suc)
  moreover have "replicate 32 (0 :: byte) = word_bytes [0, 0, 0, 0]"
    using word_bytes_zeros [of 4] by (simp add: numeral_eq_Suc del: to_le_0)
  ultimately have "to_le 8 (1 :: u64) @ to_le 8 p @ replicate 32 0 @ path @ replicate (4048 - length path) 0 =
      block_layout STARTUP_PAGE_ADDRESS [path] [] 4096"
    by (simp add: block_layout_def block_words_def Let_def pointers_Cons p_def del: to_le_0)
  then show ?thesis by (simp only: 1 2 3 rbind.simps)
qed

lemma write_v1_layout:
  assumes "write_startup_block page STARTUP_PAGE_ADDRESS path = Ok B" "valid_utf8 path"
  shows "B = block_layout STARTUP_PAGE_ADDRESS [path] [] 4096 \<and> fits STARTUP_PAGE_ADDRESS [path] [] 4096"
proof -
  have p: "checked_add_u64 STARTUP_PAGE_ADDRESS 48 = Some (STARTUP_PAGE_ADDRESS + 48)"
    by (simp add: checked_add_u64_def STARTUP_PAGE_ADDRESS_def STACK_TOP_def PAGE_SIZE_def)
  from assms(1) have len: "length path + 49 \<le> 4096" and nul: "0 \<notin> set path" and "length page = 4096"
    and w: "rbind (sb_put_u64 (fill_zero page) 0 1) (\<lambda>page1.
      rbind (sb_put_u64 page1 8 (STARTUP_PAGE_ADDRESS + 48)) (\<lambda>page2. copy_into 48 path page2)) = Ok B"
    by (auto simp: write_startup_block_def Let_def res_simps p v2_address(6) bind_eq_Some_conv
        checked_add_usize_def split: if_splits)
  with v1_writes [OF len] have "B = block_layout STARTUP_PAGE_ADDRESS [path] [] 4096"
    by (simp add: fill_zero_def)
  with len nul assms(2) v2_address(4) show ?thesis by (simp add: fits_def)
qed

lemma write_v1_no_panic: "write_startup_block page STARTUP_PAGE_ADDRESS path \<noteq> Panic"
proof -
  have p: "checked_add_u64 STARTUP_PAGE_ADDRESS 48 = Some (STARTUP_PAGE_ADDRESS + 48)"
    by (simp add: checked_add_u64_def STARTUP_PAGE_ADDRESS_def STACK_TOP_def PAGE_SIZE_def)
  have "write_startup_block page STARTUP_PAGE_ADDRESS path \<noteq> Panic"
    if "length page = 4096" "length path + 49 \<le> 4096"
    using v1_writes [OF that(2)] that
    by (auto simp: write_startup_block_def Let_def p v2_address(6) checked_add_usize_def fill_zero_def
        usize_max_def)
  then show ?thesis
    by (cases "length page = 4096 \<and> length path + 49 \<le> 4096")
      (auto simp: write_startup_block_def Let_def v2_address(6) checked_add_usize_def res_simps)
qed

text \<open>What the child sees of an accepted block.\<close>

definition startup_view ::
  "startup_block su_res \<Rightarrow> (u64 \<times> byte list option su_res list \<times> byte list option su_res list \<times> nat) option" where
  "startup_view r =
     (case r of
        Ok sb \<Rightarrow> Some (sb_bootstrap_channel sb, map (startup_arg sb) [0..<sb_argc sb],
          map (startup_env sb) [0..<sb_envc sb], sb_auxc sb)
      | _ \<Rightarrow> None)"

lemma v1_round_trip:
  assumes "channel \<noteq> 0" "valid_utf8 path" "write_startup_block page STARTUP_PAGE_ADDRESS path = Ok B"
  shows "startup_view (startup_parse
      \<lparr>startup_argument0 = channel, startup_argument1 = STARTUP_ABI_VERSION\<rparr> STARTUP_PAGE_ADDRESS B) =
    Some (channel, [Ok (Some path)], [], 0)"
proof -
  from write_v1_layout [OF assms(3,2)] have B: "B = block_layout STARTUP_PAGE_ADDRESS [path] [] 4096"
    and f: "fits STARTUP_PAGE_ADDRESS [path] [] 4096" by auto
  have "startup_parse \<lparr>startup_argument0 = channel, startup_argument1 = STARTUP_ABI_VERSION\<rparr>
      STARTUP_PAGE_ADDRESS B = Ok (parsed_block channel STARTUP_ABI_VERSION STARTUP_PAGE_ADDRESS [path] [] 4096)"
    unfolding B
    by (rule layout_parses [OF f assms(1) v2_address(3)])
      (simp_all add: startup_block_size_def STARTUP_ABI_VERSION_def STARTUP_ABI_V1_def STARTUP_ABI_V2_def
        STARTUP_BLOCK_SIZE_def)
  with parsed_strings [OF f] show ?thesis by (simp add: startup_view_def parsed_block_simps)
qed

lemma v2_round_trip:
  assumes "channel \<noteq> 0" "list_all valid_utf8 (argv @ env)"
    and "write_startup_block_v2 block STARTUP_V2_BLOCK_ADDRESS path argv env = Ok B"
  shows "startup_view (startup_parse
      \<lparr>startup_argument0 = channel, startup_argument1 = STARTUP_ABI_V2\<rparr> STARTUP_V2_BLOCK_ADDRESS B) =
    Some (channel, map (\<lambda>v. Ok (Some v)) argv, map (\<lambda>v. Ok (Some v)) env, 0)"
proof -
  let ?A = STARTUP_V2_BLOCK_ADDRESS
  from assms(3) obtain plan where plan: "startup_plan_new (length block) ?A path argv env = Ok plan"
    and w: "startup_plan_write plan block = Ok B" by (auto simp: write_startup_block_v2_def res_simps)
  note p = startup_plan_new_Ok [OF plan]
  have f: "fits ?A argv env 20480"
    using p assms(2) v2_address by (auto simp: fits_def list_all_iff)
  have B: "B = block_layout ?A argv env 20480"
    using w p startup_plan_write_layout [of block argv env ?A] v2_address by auto
  have "validate_v2_layout B ?A (length argv) 8 (length env)
      (8 * (length argv + 2)) (8 * (length argv + length env + 3)) = Ok ()"
    unfolding B using p by (intro v2_layout_accepted [OF f]) (auto intro: env_loop_distinct_names)
  then have "startup_parse \<lparr>startup_argument0 = channel, startup_argument1 = STARTUP_ABI_V2\<rparr> ?A B =
      Ok (parsed_block channel STARTUP_ABI_V2 ?A argv env 20480)"
    unfolding B
    by (intro layout_parses [OF f assms(1) v2_address(1)])
      (simp_all add: startup_block_size_def STARTUP_ABI_V1_def STARTUP_ABI_V2_def STARTUP_BLOCK_V2_SIZE_def)
  with parsed_strings [OF f] show ?thesis by (simp add: startup_view_def parsed_block_simps)
qed

lemma write_v2_no_panic:
  "write_startup_block_v2 block STARTUP_V2_BLOCK_ADDRESS path argv env \<noteq> Panic"
proof -
  have "startup_plan_write plan block \<noteq> Panic"
    if "startup_plan_new (length block) STARTUP_V2_BLOCK_ADDRESS path argv env = Ok plan" for plan
    using startup_plan_new_Ok [OF that] startup_plan_write_layout [of block argv env] v2_address by auto
  then show ?thesis by (auto simp: write_startup_block_v2_def res_simps startup_plan_new_no_panic)
qed

text \<open>C8. The child reads what the loader wrote. For a bootstrap channel that is not zero and
  strings that are UTF-8 text, writing a startup block never panics, and a block that is written,
  of version 1 or of version 2, at the address the loader maps it, is accepted by the runtime's
  parser and shows the child exactly the channel, the arguments and the environment of the launch,
  in order, and no auxiliary entry.\<close>

theorem startup_round_trip:
  assumes "channel \<noteq> 0" "list_all valid_utf8 (path # argv @ env)"
  shows "(case write_startup_block page STARTUP_PAGE_ADDRESS path of
       Panic \<Rightarrow> False
     | Err e \<Rightarrow> True
     | Ok B \<Rightarrow> startup_view (startup_parse
           \<lparr>startup_argument0 = channel, startup_argument1 = STARTUP_ABI_VERSION\<rparr>
           STARTUP_PAGE_ADDRESS B) = Some (channel, [Ok (Some path)], [], 0)) \<and>
    (case write_startup_block_v2 block STARTUP_V2_BLOCK_ADDRESS path argv env of
       Panic \<Rightarrow> False
     | Err e \<Rightarrow> True
     | Ok B \<Rightarrow> startup_view (startup_parse
           \<lparr>startup_argument0 = channel, startup_argument1 = STARTUP_ABI_V2\<rparr>
           STARTUP_V2_BLOCK_ADDRESS B) =
         Some (channel, map (\<lambda>v. Ok (Some v)) argv, map (\<lambda>v. Ok (Some v)) env, 0))"
  using assms v1_round_trip [of channel path page] v2_round_trip [of channel argv env block path]
    write_v1_no_panic [of page path] write_v2_no_panic [of block path argv env]
  by (auto split: res.splits)

definition launch_path :: "byte list" where "launch_path = [98, 105, 110]"
definition launch_env :: "byte list" where "launch_env = [80, 61, 120]"

lemma launch_plan:
  "startup_plan_new 20480 STARTUP_V2_BLOCK_ADDRESS launch_path [launch_path] [launch_env] =
     Ok \<lparr>p_block_address = STARTUP_V2_BLOCK_ADDRESS, p_argv = [launch_path], p_environment = [launch_env],
         p_string_start = 56\<rparr>"
  by code_simp

lemma launch_written:
  "\<exists>B. write_startup_block_v2 (replicate 20480 0) STARTUP_V2_BLOCK_ADDRESS launch_path [launch_path] [launch_env] = Ok B"
proof -
  have "startup_plan_write \<lparr>p_block_address = STARTUP_V2_BLOCK_ADDRESS, p_argv = [launch_path],
      p_environment = [launch_env], p_string_start = 8 * (length [launch_path] + length [launch_env] + 5)\<rparr>
      (replicate 20480 0) = Ok (block_layout STARTUP_V2_BLOCK_ADDRESS [launch_path] [launch_env] STARTUP_V2_BLOCK_BYTES)"
    by (rule startup_plan_write_layout)
      (use v2_address(2) in \<open>simp_all add: launch_path_def launch_env_def v2_address(5)\<close>)
  then show ?thesis by (simp add: write_startup_block_v2_def launch_plan)
qed

theorem startup_round_trip_witness:
  "(7 :: u64) \<noteq> 0 \<and> list_all valid_utf8 (launch_path # [launch_path] @ [launch_env]) \<and>
   (\<exists>B. write_startup_block_v2 (replicate 20480 0) STARTUP_V2_BLOCK_ADDRESS launch_path [launch_path] [launch_env] = Ok B \<and>
      startup_view (startup_parse
          \<lparr>startup_argument0 = 7, startup_argument1 = STARTUP_ABI_V2\<rparr>
          STARTUP_V2_BLOCK_ADDRESS B) =
        Some (7, [Ok (Some launch_path)], [Ok (Some launch_env)], 0))"
proof -
  have v: "list_all valid_utf8 (launch_path # [launch_path] @ [launch_env])" by code_simp
  have c: "(7 :: u64) \<noteq> 0" by simp
  obtain B where B: "write_startup_block_v2 (replicate 20480 0) STARTUP_V2_BLOCK_ADDRESS launch_path [launch_path] [launch_env] = Ok B"
    using launch_written by blast
  from startup_round_trip [OF c v, of "[]" "replicate 20480 0"]
  have "startup_view (startup_parse \<lparr>startup_argument0 = 7, startup_argument1 = STARTUP_ABI_V2\<rparr>
      STARTUP_V2_BLOCK_ADDRESS B) = Some (7, [Ok (Some launch_path)], [Ok (Some launch_env)], 0)"
    by (simp only: B res.case list.map)
  with B v c show ?thesis by blast
qed

end
