(* ===== verification/LaunchPolicy.thy ===== *)
theory LaunchPolicy
  imports BootfsPath Utf8
begin

text \<open>
  The immutable launch policy of the boot archive
  (\<^verbatim>\<open>src/crates/wyrmroot-bootfs/src/launch_policy.rs\<close>): which paths may be launched, with which
  digest, profile and stream shapes. Parsing with every check, lookup, and the encoder. The
  encoder works on the caller's buffer; the model gives the buffer of a successful call (what a
  failed call leaves in the buffer is not modelled).
\<close>

unbundle bit_operations_syntax

definition LP_HEADER_BYTES :: nat where "LP_HEADER_BYTES = 64"
definition LP_RECORD_BYTES :: nat where "LP_RECORD_BYTES = 64"
definition LP_MAX_ENTRIES :: nat where "LP_MAX_ENTRIES = 32"
definition LP_MAX_PATH_BYTES :: nat where "LP_MAX_PATH_BYTES = 256"
definition LP_MAGIC :: "byte list" where "LP_MAGIC = bytes_of ''WRJP''"
definition VERSION_MAJOR :: u16 where "VERSION_MAJOR = 1"
definition VERSION_MINOR_HISTORICAL :: u16 where "VERSION_MINOR_HISTORICAL = 0"
definition VERSION_MINOR_WYRMSH :: u16 where "VERSION_MINOR_WYRMSH = 1"
definition VERSION_MINOR_RECOVERY_TRIGGER :: u16 where "VERSION_MINOR_RECOVERY_TRIGGER = 2"
definition JOB_V2_PROFILE_ID :: u16 where "JOB_V2_PROFILE_ID = 1"
definition WYRMSH_PROFILE_ID :: u16 where "WYRMSH_PROFILE_ID = 2"
definition RECOVERY_TRIGGER_PROFILE_ID :: u16 where "RECOVERY_TRIGGER_PROFILE_ID = 3"
definition WYRMSH_PATH :: "byte list" where "WYRMSH_PATH = bytes_of ''system/wyrmsh''"

record policy_entry =
  pe_path :: "byte list"
  pe_content_sha256 :: "byte list"
  pe_startup_abi :: u16
  pe_profile_id :: u16
  pe_allow_no_streams :: bool
  pe_allow_three_streams :: bool

record launch_policy =
  lp_bytes :: "byte list"
  lp_count :: nat
  lp_strings_offset :: nat
  lp_boot_generation_sha256 :: "byte list"
  lp_minor :: u16

datatype policy_error =
    LP_WrongSize | LP_WrongMagic | LP_UnsupportedVersion | LP_NonzeroReserved | LP_InvalidCount
  | LP_InvalidBootGeneration | LP_InvalidPath | LP_NoncanonicalPathOrder | LP_InvalidDigest
  | LP_InvalidStartupProfile | LP_InvalidStreamModes | LP_InvalidClassification
  | LP_ArithmeticOverflow

type_synonym 'a lp_res = "(policy_error, 'a) res"

subsection \<open>Fields\<close>

definition lp_get_u16 :: "byte list \<Rightarrow> nat \<Rightarrow> u16 lp_res" where
  "lp_get_u16 bytes off = rbind (ok_or LP_WrongSize (get_range off (off + 2) bytes)) (\<lambda>b. Ok (from_le b))"

definition lp_get_u32 :: "byte list \<Rightarrow> nat \<Rightarrow> u32 lp_res" where
  "lp_get_u32 bytes off = rbind (ok_or LP_WrongSize (get_range off (off + 4) bytes)) (\<lambda>b. Ok (from_le b))"

definition lp_get_u64 :: "byte list \<Rightarrow> nat \<Rightarrow> u64 lp_res" where
  "lp_get_u64 bytes off = rbind (ok_or LP_WrongSize (get_range off (off + 8) bytes)) (\<lambda>b. Ok (from_le b))"

definition lp_put :: "nat \<Rightarrow> byte list \<Rightarrow> byte list \<Rightarrow> byte list lp_res" where
  "lp_put off bs out = (if off + length bs \<le> length out then Ok (overwrite off bs out) else Err LP_WrongSize)"

definition lp_put_u16 :: "nat \<Rightarrow> u16 \<Rightarrow> byte list \<Rightarrow> byte list lp_res" where
  "lp_put_u16 off v out = lp_put off (to_le 2 v) out"

definition lp_put_u32 :: "nat \<Rightarrow> u32 \<Rightarrow> byte list \<Rightarrow> byte list lp_res" where
  "lp_put_u32 off v out = lp_put off (to_le 4 v) out"

text \<open>\<^verbatim>\<open>out[a..b].copy_from_slice(src)\<close>: a panic out of range.\<close>

definition lp_copy :: "nat \<Rightarrow> byte list \<Rightarrow> byte list \<Rightarrow> byte list lp_res" where
  "lp_copy off bs out = (if off + length bs \<le> length out then Ok (overwrite off bs out) else Panic)"

definition lp_validate_path :: "byte list \<Rightarrow> unit lp_res" where
  "lp_validate_path path =
     (if path = [] \<or> LP_MAX_PATH_BYTES < length path \<or> \<not> list_all (\<lambda>b. b < 128) path \<or>
         hd path = SLASH \<or> 0 \<in> set path \<or>
         list_ex (\<lambda>c. c = [] \<or> c = [DOT] \<or> c = [DOT, DOT]) (split_at SLASH path)
      then Err LP_InvalidPath else Ok ())"

text \<open>Which profile a policy of some minor version may give a path, and which stream shapes a
  profile may have.\<close>

definition profile_refused :: "u16 \<Rightarrow> u16 \<Rightarrow> byte list \<Rightarrow> bool" where
  "profile_refused minor profile_id path =
     (if minor = VERSION_MINOR_HISTORICAL \<and> profile_id = JOB_V2_PROFILE_ID then False
      else if (minor = VERSION_MINOR_WYRMSH \<or> minor = VERSION_MINOR_RECOVERY_TRIGGER) \<and>
         profile_id = JOB_V2_PROFILE_ID then path = WYRMSH_PATH
      else if (minor = VERSION_MINOR_WYRMSH \<or> minor = VERSION_MINOR_RECOVERY_TRIGGER) \<and>
         profile_id = WYRMSH_PROFILE_ID then path \<noteq> WYRMSH_PATH
      else if minor = VERSION_MINOR_RECOVERY_TRIGGER \<and> profile_id = RECOVERY_TRIGGER_PROFILE_ID then False
      else True)"

definition streams_refused :: "u16 \<Rightarrow> u16 \<Rightarrow> bool" where
  "streams_refused profile_id modes \<longleftrightarrow>
     modes = 0 \<or>
     (profile_id = WYRMSH_PROFILE_ID \<or> profile_id = RECOVERY_TRIGGER_PROFILE_ID) \<and> modes \<noteq> 2"

subsection \<open>Parsing\<close>

definition lp_record :: "launch_policy \<Rightarrow> nat \<Rightarrow> byte list lp_res" where
  "lp_record p index =
     rbind (ok_or LP_ArithmeticOverflow (checked_mul_usize index LP_RECORD_BYTES)) (\<lambda>n.
     rbind (ok_or LP_ArithmeticOverflow (checked_add_usize LP_HEADER_BYTES n)) (\<lambda>start.
     ok_or LP_WrongSize (get_range start (start + LP_RECORD_BYTES) (lp_bytes p))))"

definition lp_path :: "launch_policy \<Rightarrow> byte list \<Rightarrow> byte list lp_res" where
  "lp_path p rec =
     rbind (lp_get_u32 rec 0) (\<lambda>path_offset.
     rbind (lp_get_u16 rec 4) (\<lambda>path_len.
     if path_len = 0 \<or> LP_MAX_PATH_BYTES < unat path_len then Err LP_InvalidPath
     else
       rbind (ok_or LP_ArithmeticOverflow (checked_add_usize (lp_strings_offset p) (unat path_offset))) (\<lambda>start.
       rbind (ok_or LP_ArithmeticOverflow (checked_add_usize start (unat path_len))) (\<lambda>finish.
       rbind (ok_or LP_InvalidPath (get_range start finish (lp_bytes p))) (\<lambda>path.
       if \<not> valid_utf8 path then Err LP_InvalidPath
       else rbind (lp_validate_path path) (\<lambda>_. Ok path))))))"

definition lp_parse_entry :: "launch_policy \<Rightarrow> nat \<Rightarrow> policy_entry lp_res" where
  "lp_parse_entry p index =
     rbind (lp_record p index) (\<lambda>rec.
     rbind (region_r 48 64 rec) (\<lambda>reserved.
     if reserved \<noteq> replicate 16 0 then Err LP_NonzeroReserved
     else
       rbind (lp_path p rec) (\<lambda>path.
       rbind (lp_get_u16 rec 6) (\<lambda>startup_abi.
       rbind (lp_get_u16 rec 8) (\<lambda>profile_id.
       if startup_abi \<noteq> 2 \<or> profile_refused (lp_minor p) profile_id path
         then Err LP_InvalidStartupProfile
       else
         rbind (lp_get_u16 rec 10) (\<lambda>modes.
         if modes AND NOT 3 \<noteq> 0 \<or> streams_refused profile_id modes then Err LP_InvalidStreamModes
         else
           rbind (lp_get_u32 rec 12) (\<lambda>class.
           if class \<noteq> 1 then Err LP_InvalidClassification
           else
             rbind (region_r 16 48 rec) (\<lambda>sha.
             if sha = replicate 32 0 then Err LP_InvalidDigest
             else
               Ok \<lparr>pe_path = path, pe_content_sha256 = sha, pe_startup_abi = startup_abi,
                   pe_profile_id = profile_id, pe_allow_no_streams = (modes AND 1 \<noteq> 0),
                   pe_allow_three_streams = (modes AND 2 \<noteq> 0)\<rparr>))))))))"

definition lp_entry :: "launch_policy \<Rightarrow> nat \<Rightarrow> policy_entry lp_res option" where
  "lp_entry p index = (if lp_count p \<le> index then None else Some (lp_parse_entry p index))"

definition lp_find :: "launch_policy \<Rightarrow> byte list \<Rightarrow> policy_entry option" where
  "lp_find p path =
     find_map (\<lambda>index. case lp_parse_entry p index of
        Ok e \<Rightarrow> if pe_path e = path then Some e else None
      | _ \<Rightarrow> None) [0..<lp_count p]"

text \<open>The loop over the entries: ascending paths, packed strings.\<close>

fun lp_entries_loop ::
  "launch_policy \<Rightarrow> byte list option \<Rightarrow> nat \<Rightarrow> nat list \<Rightarrow> nat lp_res" where
  "lp_entries_loop p previous expected [] = Ok expected"
| "lp_entries_loop p previous expected (i # is) =
     rbind (ok_or LP_WrongSize (lp_entry p i)) (\<lambda>r.
     rbind r (\<lambda>e.
     if (case previous of Some q \<Rightarrow> pe_path e \<le> q | None \<Rightarrow> False) then Err LP_NoncanonicalPathOrder
     else
       rbind (lp_record p i) (\<lambda>rec.
       rbind (lp_get_u32 rec 0) (\<lambda>off.
       if unat off \<noteq> expected then Err LP_InvalidPath
       else
         rbind (ok_or LP_ArithmeticOverflow (checked_add_usize expected (length (pe_path e)))) (\<lambda>expected'.
         lp_entries_loop p (Some (pe_path e)) expected' is)))))"

definition lp_header :: "byte list \<Rightarrow> (launch_policy \<times> nat) lp_res" where
  "lp_header bytes =
     (if length bytes < LP_HEADER_BYTES then Err LP_WrongSize
      else if take 4 bytes \<noteq> LP_MAGIC then Err LP_WrongMagic
      else
        rbind (lp_get_u16 bytes 6) (\<lambda>minor.
        rbind (lp_get_u16 bytes 4) (\<lambda>major.
        if major \<noteq> VERSION_MAJOR \<or>
           \<not> (minor = VERSION_MINOR_HISTORICAL \<or> minor = VERSION_MINOR_WYRMSH \<or>
              minor = VERSION_MINOR_RECOVERY_TRIGGER) then Err LP_UnsupportedVersion
        else
          rbind (lp_get_u16 bytes 8) (\<lambda>hb.
          rbind (lp_get_u16 bytes 10) (\<lambda>rb.
          if unat hb \<noteq> LP_HEADER_BYTES \<or> unat rb \<noteq> LP_RECORD_BYTES then Err LP_WrongSize
          else
            rbind (lp_get_u16 bytes 12) (\<lambda>count_word.
            let count = unat count_word in
            if \<not> (1 \<le> count \<and> count \<le> LP_MAX_ENTRIES) then Err LP_InvalidCount
            else
              rbind (lp_get_u16 bytes 14) (\<lambda>r1.
              rbind (lp_get_u64 bytes 56) (\<lambda>r2.
              if r1 \<noteq> 0 \<or> r2 \<noteq> 0 then Err LP_NonzeroReserved
              else
                rbind (lp_get_u32 bytes 16) (\<lambda>total_word.
                if unat total_word \<noteq> length bytes then Err LP_WrongSize
                else
                  rbind (lp_get_u32 bytes 20) (\<lambda>string_word.
                  rbind (ok_or LP_ArithmeticOverflow (checked_mul_usize count LP_RECORD_BYTES)) (\<lambda>records_bytes.
                  rbind (ok_or LP_ArithmeticOverflow (checked_add_usize LP_HEADER_BYTES records_bytes)) (\<lambda>strings_offset.
                  rbind (ok_or LP_ArithmeticOverflow (checked_add_usize strings_offset (unat string_word))) (\<lambda>all_bytes.
                  if all_bytes \<noteq> length bytes then Err LP_WrongSize
                  else
                    rbind (region_r 24 56 bytes) (\<lambda>boot.
                    if boot = replicate 32 0 then Err LP_InvalidBootGeneration
                    else Ok (\<lparr>lp_bytes = bytes, lp_count = count, lp_strings_offset = strings_offset,
                              lp_boot_generation_sha256 = boot, lp_minor = minor\<rparr>,
                             unat string_word)))))))))))))))"

definition lp_parse :: "byte list \<Rightarrow> launch_policy lp_res" where
  "lp_parse bytes =
     rbind (lp_header bytes) (\<lambda>(p, string_bytes).
     rbind (lp_entries_loop p None 0 [0..<lp_count p]) (\<lambda>expected.
     if expected \<noteq> string_bytes then Err LP_InvalidPath else Ok p))"

subsection \<open>Encoding\<close>

fun lp_string_bytes :: "nat \<Rightarrow> policy_entry list \<Rightarrow> nat lp_res" where
  "lp_string_bytes n [] = Ok n"
| "lp_string_bytes n (e # es) =
     rbind (ok_or LP_ArithmeticOverflow (checked_add_usize n (length (pe_path e)))) (\<lambda>m.
     lp_string_bytes m es)"

definition lp_modes :: "policy_entry \<Rightarrow> u16" where
  "lp_modes e = (if pe_allow_no_streams e then 1 else 0) OR (if pe_allow_three_streams e then 2 else 0)"

text \<open>The checks of one entry, then its record and its path.\<close>

definition lp_check_entry :: "u16 \<Rightarrow> byte list option \<Rightarrow> policy_entry \<Rightarrow> unit lp_res" where
  "lp_check_entry minor previous e =
     rbind (lp_validate_path (pe_path e)) (\<lambda>_.
     if (case previous of Some q \<Rightarrow> pe_path e \<le> q | None \<Rightarrow> False) then Err LP_NoncanonicalPathOrder
     else if pe_content_sha256 e = replicate 32 0 then Err LP_InvalidDigest
     else if pe_startup_abi e \<noteq> 2 \<or> profile_refused minor (pe_profile_id e) (pe_path e)
       then Err LP_InvalidStartupProfile
     else if streams_refused (pe_profile_id e) (lp_modes e) then Err LP_InvalidStreamModes
     else Ok ())"

definition lp_write_entry ::
  "nat \<Rightarrow> nat \<Rightarrow> nat \<Rightarrow> policy_entry \<Rightarrow> byte list \<Rightarrow> byte list lp_res" where
  "lp_write_entry strings_start index string_offset e out =
     (let rec = LP_HEADER_BYTES + index * LP_RECORD_BYTES in
      rbind (lp_put_u32 rec (word_of_nat string_offset) out) (\<lambda>out.
      rbind (lp_put_u16 (rec + 4) (word_of_nat (length (pe_path e))) out) (\<lambda>out.
      rbind (lp_put_u16 (rec + 6) 2 out) (\<lambda>out.
      rbind (lp_put_u16 (rec + 8) (pe_profile_id e) out) (\<lambda>out.
      rbind (lp_put_u16 (rec + 10) (lp_modes e) out) (\<lambda>out.
      rbind (lp_put_u32 (rec + 12) 1 out) (\<lambda>out.
      rbind (lp_copy (rec + 16) (pe_content_sha256 e) out) (\<lambda>out.
      lp_copy (strings_start + string_offset) (pe_path e) out))))))))"

fun lp_encode_loop ::
  "u16 \<Rightarrow> nat \<Rightarrow> nat \<Rightarrow> nat \<Rightarrow> byte list option \<Rightarrow> policy_entry list \<Rightarrow> byte list \<Rightarrow> byte list lp_res" where
  "lp_encode_loop minor strings_start index string_offset previous [] out = Ok out"
| "lp_encode_loop minor strings_start index string_offset previous (e # es) out =
     rbind (lp_check_entry minor previous e) (\<lambda>_.
     rbind (lp_write_entry strings_start index string_offset e out) (\<lambda>out'.
     lp_encode_loop minor strings_start (index + 1) (string_offset + length (pe_path e))
       (Some (pe_path e)) es out'))"

definition lp_write_header ::
  "u16 \<Rightarrow> byte list \<Rightarrow> nat \<Rightarrow> nat \<Rightarrow> nat \<Rightarrow> byte list \<Rightarrow> byte list lp_res" where
  "lp_write_header minor boot count total_size string_bytes out =
     rbind (lp_copy 0 (replicate total_size 0) out) (\<lambda>out.
     rbind (lp_copy 0 LP_MAGIC out) (\<lambda>out.
     rbind (lp_put_u16 4 VERSION_MAJOR out) (\<lambda>out.
     rbind (lp_put_u16 6 minor out) (\<lambda>out.
     rbind (lp_put_u16 8 (word_of_nat LP_HEADER_BYTES) out) (\<lambda>out.
     rbind (lp_put_u16 10 (word_of_nat LP_RECORD_BYTES) out) (\<lambda>out.
     rbind (lp_put_u16 12 (word_of_nat count) out) (\<lambda>out.
     rbind (lp_put_u32 16 (word_of_nat total_size) out) (\<lambda>out.
     rbind (lp_put_u32 20 (word_of_nat string_bytes) out) (\<lambda>out.
     lp_copy 24 boot out)))))))))"

definition lp_encode_version ::
  "u16 \<Rightarrow> byte list \<Rightarrow> policy_entry list \<Rightarrow> byte list \<Rightarrow> (nat \<times> byte list) lp_res" where
  "lp_encode_version minor boot entries out =
     (if boot = replicate 32 0 then Err LP_InvalidBootGeneration
      else if entries = [] \<or> LP_MAX_ENTRIES < length entries then Err LP_InvalidCount
      else
        rbind (lp_string_bytes 0 entries) (\<lambda>string_bytes.
        rbind (ok_or LP_ArithmeticOverflow
          (Option.bind (checked_add_usize LP_HEADER_BYTES (length entries * LP_RECORD_BYTES))
             (\<lambda>v. checked_add_usize v string_bytes))) (\<lambda>total_size.
        if length out < total_size then Err LP_WrongSize
        else
          rbind (lp_write_header minor boot (length entries) total_size string_bytes out) (\<lambda>out1.
          rbind (lp_encode_loop minor (LP_HEADER_BYTES + length entries * LP_RECORD_BYTES) 0 0 None entries out1) (\<lambda>out2.
          rbind (lp_parse (take total_size out2)) (\<lambda>_. Ok (total_size, out2)))))))"

definition lp_encode :: "byte list \<Rightarrow> policy_entry list \<Rightarrow> byte list \<Rightarrow> (nat \<times> byte list) lp_res" where
  "lp_encode = lp_encode_version VERSION_MINOR_HISTORICAL"

definition lp_encode_recovery_trigger :: "byte list \<Rightarrow> policy_entry list \<Rightarrow> byte list \<Rightarrow> (nat \<times> byte list) lp_res" where
  "lp_encode_recovery_trigger = lp_encode_version VERSION_MINOR_RECOVERY_TRIGGER"

definition lp_encode_wyrmsh :: "byte list \<Rightarrow> policy_entry list \<Rightarrow> byte list \<Rightarrow> (nat \<times> byte list) lp_res" where
  "lp_encode_wyrmsh = lp_encode_version VERSION_MINOR_WYRMSH"

end
