(* ===== verification/ByteFields.thy ===== *)
theory ByteFields
  imports Bytes
begin

text \<open>
  Exact fields of a message: a buffer cut into adjacent regions, a field that holds the encoding of
  a value, and runs of adjacent writes. The launch policy and the launch protocol share these
  lemmas; both formats are canonical, so acceptance is equality of bytes.
\<close>

lemma rbind_assoc: "rbind (rbind m f) g = rbind m (\<lambda>x. rbind (f x) g)"
  by (cases m) simp_all

lemma rbind_if: "rbind (if b then x else y) k = (if b then rbind x k else rbind y k)"
  by simp

subsection \<open>Reading\<close>

lemma region_split: "region a (m + n) xs = region a m xs @ region (a + m) n xs"
  by (simp add: region_def take_add add.commute)

lemma append_region_iff:
  assumes "a + m \<le> length B" "length xs = m"
  shows "region a (m + n) B = xs @ ys \<longleftrightarrow> region a m B = xs \<and> region (a + m) n B = ys"
  using assms unfolding region_split by (subst append_eq_append_conv) auto

lemma field_iff:
  "length bs = 2 \<Longrightarrow> (bs = to_le 2 v) = (from_le bs = (v :: u16))"
  "length bs = 4 \<Longrightarrow> (bs = to_le 4 v4) = (from_le bs = (v4 :: u32))"
  "length bs = 8 \<Longrightarrow> (bs = to_le 8 v8) = (from_le bs = (v8 :: u64))"
  using le16.dec_eqD le32.dec_eqD le64.dec_eqD by auto

lemma u32_nat: "n < 2 ^ 32 \<Longrightarrow> (w = (word_of_nat n :: u32)) = (unat w = n)"
  by (auto simp: unat_of_nat)

lemma u16_nat: "n < 2 ^ 16 \<Longrightarrow> (w = (word_of_nat n :: u16)) = (unat w = n)"
  by (auto simp: unat_of_nat)

subsection \<open>Writing\<close>

lemma overwrite_middle:
  "n = length xs \<Longrightarrow> length bs = length ys \<Longrightarrow> overwrite n bs (xs @ ys @ zs) = xs @ bs @ zs"
  by (simp add: overwrite_def)

lemma overwrite_next:
  "k = off + length as \<Longrightarrow> off \<le> length Z \<Longrightarrow> overwrite k bs (overwrite off as Z) = overwrite off (as @ bs) Z"
  using overwrite_overwrite [of off Z as bs] by simp

end
