(* ===== verification/LaunchPolicyCanon.thy ===== *)
theory LaunchPolicyCanon
  imports LaunchPolicy ByteFields
begin

text \<open>
  The launch policy as a format: the exact bytes of a policy, and the proof that the parser accepts
  these bytes and no others. Every field of an accepted policy is therefore determined by its
  entries, its minor version and its boot digest.
\<close>

unbundle bit_operations_syntax

subsection \<open>The bytes of a policy\<close>

definition lp_record_bytes :: "nat \<Rightarrow> policy_entry \<Rightarrow> byte list" where
  "lp_record_bytes off e =
     to_le 4 (word_of_nat off :: u32) @ to_le 2 (word_of_nat (length (pe_path e)) :: u16) @ to_le 2 (2 :: u16) @
     to_le 2 (pe_profile_id e) @ to_le 2 (lp_modes e) @ to_le 4 (1 :: u32) @
     pe_content_sha256 e @ replicate 16 0"

definition lp_strings :: "policy_entry list \<Rightarrow> byte list" where
  "lp_strings es = concat (map pe_path es)"

fun lp_records :: "nat \<Rightarrow> policy_entry list \<Rightarrow> byte list" where
  "lp_records off [] = []"
| "lp_records off (e # es) = lp_record_bytes off e @ lp_records (off + length (pe_path e)) es"

definition lp_header_bytes :: "u16 \<Rightarrow> byte list \<Rightarrow> nat \<Rightarrow> nat \<Rightarrow> byte list" where
  "lp_header_bytes minor boot count string_bytes =
     LP_MAGIC @ to_le 2 VERSION_MAJOR @ to_le 2 minor @ to_le 2 (64 :: u16) @ to_le 2 (64 :: u16) @
     to_le 2 (word_of_nat count :: u16) @ to_le 2 (0 :: u16) @
     to_le 4 (word_of_nat (64 + 64 * count + string_bytes) :: u32) @
     to_le 4 (word_of_nat string_bytes :: u32) @ boot @ to_le 8 (0 :: u64)"

definition policy_bytes :: "u16 \<Rightarrow> byte list \<Rightarrow> policy_entry list \<Rightarrow> byte list" where
  "policy_bytes minor boot es =
     lp_header_bytes minor boot (length es) (length (lp_strings es)) @ lp_records 0 es @ lp_strings es"

text \<open>The rules an entry of a policy obeys, and a whole policy.\<close>

definition lp_good :: "u16 \<Rightarrow> policy_entry \<Rightarrow> bool" where
  "lp_good minor e \<longleftrightarrow> lp_validate_path (pe_path e) = Ok () \<and> pe_startup_abi e = 2 \<and>
     \<not> profile_refused minor (pe_profile_id e) (pe_path e) \<and>
     \<not> streams_refused (pe_profile_id e) (lp_modes e) \<and>
     length (pe_content_sha256 e) = 32 \<and> pe_content_sha256 e \<noteq> replicate 32 0"

fun ascending :: "byte list option \<Rightarrow> policy_entry list \<Rightarrow> bool" where
  "ascending previous [] = True"
| "ascending previous (e # es) =
     ((case previous of Some q \<Rightarrow> q < pe_path e | None \<Rightarrow> True) \<and> ascending (Some (pe_path e)) es)"

definition launch_policy_ok :: "u16 \<Rightarrow> byte list \<Rightarrow> policy_entry list \<Rightarrow> bool" where
  "launch_policy_ok minor boot es \<longleftrightarrow> minor \<in> {0, 1, 2} \<and> length boot = 32 \<and> boot \<noteq> replicate 32 0 \<and>
     1 \<le> length es \<and> length es \<le> 32 \<and> list_all (lp_good minor) es \<and> ascending None es"

definition policy_view :: "u16 \<Rightarrow> byte list \<Rightarrow> policy_entry list \<Rightarrow> launch_policy" where
  "policy_view minor boot es =
     \<lparr>lp_bytes = policy_bytes minor boot es, lp_count = length es,
      lp_strings_offset = 64 + 64 * length es, lp_boot_generation_sha256 = boot, lp_minor = minor\<rparr>"

lemmas lp_consts = LP_HEADER_BYTES_def LP_RECORD_BYTES_def LP_MAX_ENTRIES_def LP_MAX_PATH_BYTES_def

lemma lp_good_sizes:
  assumes "lp_good minor e"
  shows "0 < length (pe_path e)" "length (pe_path e) \<le> 256" "length (pe_content_sha256 e) = 32"
    "valid_utf8 (pe_path e)"
proof -
  from assms have v: "lp_validate_path (pe_path e) = Ok ()" by (simp add: lp_good_def)
  then show "0 < length (pe_path e)" "length (pe_path e) \<le> 256"
    by (auto simp: lp_validate_path_def lp_consts split: if_splits)
  from v have "list_all (\<lambda>b. b < 128) (pe_path e)" by (simp add: lp_validate_path_def split: if_splits)
  then show "valid_utf8 (pe_path e)"
    by (intro valid_utf8_ascii) (auto simp: list_all_iff word_less_nat_alt)
  show "length (pe_content_sha256 e) = 32" using assms by (simp add: lp_good_def)
qed

lemma length_lp_record_bytes: "length (pe_content_sha256 e) = 32 \<Longrightarrow> length (lp_record_bytes off e) = 64"
  by (simp add: lp_record_bytes_def)

lemma length_lp_records: "list_all (lp_good minor) es \<Longrightarrow> length (lp_records off es) = 64 * length es"
  by (induction es arbitrary: off) (auto simp: length_lp_record_bytes lp_good_sizes)

lemma length_lp_header_bytes: "length boot = 32 \<Longrightarrow> length (lp_header_bytes minor boot count n) = 64"
  by (simp add: lp_header_bytes_def LP_MAGIC_def bytes_of_def)

lemma lp_strings_simps [simp]: "lp_strings [] = []" "lp_strings (e # es) = pe_path e @ lp_strings es"
  by (simp_all add: lp_strings_def)

lemma length_lp_strings: "list_all (lp_good minor) es \<Longrightarrow> length (lp_strings es) \<le> 256 * length es"
proof (induction es)
  case (Cons e es)
  then show ?case using lp_good_sizes(2) [of minor e] by auto
qed simp

lemma length_policy_bytes:
  assumes "launch_policy_ok minor boot es"
  shows "length (policy_bytes minor boot es) = 64 + 64 * length es + length (lp_strings es)"
  using assms length_lp_records [of minor es 0]
  by (simp add: policy_bytes_def launch_policy_ok_def length_lp_header_bytes)

subsection \<open>Fields\<close>

lemma lp_get_simps [res_simps]:
  "lp_get_u16 b off = Ok v2 \<longleftrightarrow> off + 2 \<le> length b \<and> v2 = from_le (region off 2 b)"
  "lp_get_u32 b off = Ok v4 \<longleftrightarrow> off + 4 \<le> length b \<and> v4 = from_le (region off 4 b)"
  "lp_get_u64 b off = Ok v8 \<longleftrightarrow> off + 8 \<le> length b \<and> v8 = from_le (region off 8 b)"
  "lp_get_u16 b off \<noteq> Panic" "lp_get_u32 b off \<noteq> Panic" "lp_get_u64 b off \<noteq> Panic"
  by (auto simp: lp_get_u16_def lp_get_u32_def lp_get_u64_def res_simps get_range_def)

text \<open>A record is the concatenation of its fields.\<close>

lemma record_cut:
  assumes "length r = 64"
  shows "r = region 0 4 r @ region 4 2 r @ region 6 2 r @ region 8 2 r @ region 10 2 r @ region 12 4 r @
    region 16 32 r @ region 48 16 r"
proof -
  have "r = region 0 64 r" using assms by (simp add: region_def)
  also have "\<dots> = region 0 (4 + (2 + (2 + (2 + (2 + (4 + (32 + 16))))))) r" by simp
  finally show ?thesis unfolding region_split by simp
qed

lemma header_cut:
  assumes "64 \<le> length b"
  shows "take 64 b = take 4 b @ region 4 2 b @ region 6 2 b @ region 8 2 b @ region 10 2 b @ region 12 2 b @
    region 14 2 b @ region 16 4 b @ region 20 4 b @ region 24 32 b @ region 56 8 b"
proof -
  have "take 64 b = region 0 64 b" by (simp add: region_def)
  also have "\<dots> = region 0 (4 + (2 + (2 + (2 + (2 + (2 + (2 + (4 + (4 + (32 + 8)))))))))) b" by simp
  finally show ?thesis unfolding region_split by (simp add: region_0)
qed

lemma modes_cases:
  assumes "modes AND NOT 3 = (0 :: u16)"
  shows "modes \<in> {0, 1, 2, 3}"
proof -
  have "modes = (modes AND 3) OR (modes AND NOT 3)" by (metis bit.conj_disj_distrib bit.disj_cancel_right word_bw_same(1) and.right_neutral)
  with assms have "modes = modes AND mask 2" by (simp add: mask_eq_decr_exp)
  then have "modes = take_bit 2 modes" by (simp add: take_bit_eq_mask)
  then have "unat modes < 2 ^ 2" by (metis take_bit_nat_less_exp unsigned_take_bit_eq)
  then have "unat modes \<in> {0, 1, 2, 3}" by auto
  then show ?thesis by (auto simp: word_unat_eq_iff)
qed

lemma modes_back:
  assumes "modes AND NOT 3 = (0 :: u16)"
    and "pe_allow_no_streams e = (modes AND 1 \<noteq> 0)" "pe_allow_three_streams e = (modes AND 2 \<noteq> 0)"
  shows "lp_modes e = modes"
  using modes_cases [OF assms(1)] by (auto simp: lp_modes_def assms(2,3))

lemma modes_read:
  "lp_modes e AND NOT 3 = 0" "(lp_modes e AND 1 \<noteq> 0) = pe_allow_no_streams e"
  "(lp_modes e AND 2 \<noteq> 0) = pe_allow_three_streams e"
  by (auto simp: lp_modes_def)

subsection \<open>Records\<close>

lemma lp_record_Ok:
  assumes "64 + 64 * i + 64 \<le> length (lp_bytes p)" "length (lp_bytes p) < 2 ^ 32"
  shows "lp_record p i = Ok (region (64 + 64 * i) 64 (lp_bytes p))"
  using assms
  by (simp add: lp_record_def lp_consts checked_mul_usize_def checked_add_usize_def usize_max_def
      get_range_def algebra_simps)

lemma lp_path_Ok:
  assumes "unat o32 < 2 ^ 32" "lp_strings_offset p + 2 ^ 32 + 256 \<le> usize_max"
    and "length r = 64" "from_le (region 0 4 r) = (o32 :: u32)"
  shows "lp_path p r = Ok path \<longleftrightarrow>
    region 4 2 r = to_le 2 (word_of_nat (length path) :: u16) \<and> 0 < length path \<and> length path \<le> 256 \<and>
    lp_strings_offset p + unat o32 + length path \<le> length (lp_bytes p) \<and>
    region (lp_strings_offset p + unat o32) (length path) (lp_bytes p) = path \<and>
    valid_utf8 path \<and> lp_validate_path path = Ok ()" (is "?l \<longleftrightarrow> ?r")
proof -
  define w where "w = (from_le (region 4 2 r) :: u16)"
  let ?a = "lp_strings_offset p + unat o32"
  have g: "lp_get_u32 r 0 = Ok o32" "lp_get_u16 r 4 = Ok w"
    using assms(3,4) by (simp_all add: res_simps w_def)
  have w16: "w = word_of_nat n \<longleftrightarrow> region 4 2 r = to_le 2 (word_of_nat n :: u16)" for n
    unfolding w_def using assms(3) le16.dec_eqD [of "region 4 2 r"] by auto
  have path: "lp_path p r =
      (if w = 0 \<or> 256 < unat w then Err LP_InvalidPath
       else rbind (ok_or LP_InvalidPath (get_range ?a (?a + unat w) (lp_bytes p))) (\<lambda>path.
         if \<not> valid_utf8 path then Err LP_InvalidPath
         else rbind (lp_validate_path path) (\<lambda>_. Ok path)))"
    using assms(1,2) by (auto simp: lp_path_def g checked_add_usize_def lp_consts)
  show ?thesis
  proof
    assume ?l
    then have l: "w \<noteq> 0" "unat w \<le> 256"
      and s: "?a + unat w \<le> length (lp_bytes p)" "path = region ?a (unat w) (lp_bytes p)"
      and v: "valid_utf8 path" "lp_validate_path path = Ok ()"
      by (auto simp: path res_simps get_range_eq_Some split: if_splits)
    from s have n: "length path = unat w" by simp
    then have "w = word_of_nat (length path)" by simp
    then have "region 4 2 r = to_le 2 (word_of_nat (length path) :: u16)" by (simp only: w16)
    moreover have "0 < unat w" using l(1) by (simp add: unat_gt_0)
    moreover have "region ?a (length path) (lp_bytes p) = path" unfolding n by (rule s(2) [symmetric])
    ultimately show ?r using l(2) s(1) v unfolding n by blast
  next
    assume r: ?r
    then have n: "w = word_of_nat (length path)" by (simp add: w16)
    then have "unat w = length path" using r by (simp add: unat_of_nat)
    moreover from this r have "w \<noteq> 0" by auto
    ultimately show ?l using r by (simp add: path get_range_def)
  qed
qed

lemma lp_parse_entry_iff:
  assumes r: "lp_record p i = Ok r" "length r = 64" and "lp_strings_offset p + 2 ^ 32 + 256 \<le> usize_max"
    and off: "from_le (region 0 4 r) = (word_of_nat off :: u32)" "off < 2 ^ 32"
  shows "lp_parse_entry p i = Ok e \<longleftrightarrow>
    r = lp_record_bytes off e \<and> lp_good (lp_minor p) e \<and>
    lp_strings_offset p + off + length (pe_path e) \<le> length (lp_bytes p) \<and>
    region (lp_strings_offset p + off) (length (pe_path e)) (lp_bytes p) = pe_path e"
    (is "?l \<longleftrightarrow> ?r")
proof -
  have u: "unat (word_of_nat off :: u32) = off" using off(2) by (simp add: unat_of_nat)
  note path = lp_path_Ok [OF _ assms(3) r(2) off(1), unfolded u, OF off(2)]
  show ?thesis
  proof
    assume l: ?l
    let ?m = "from_le (region 10 2 r) :: u16"
    from l r have p: "lp_path p r = Ok (pe_path e)" and z: "region 48 16 r = replicate 16 0"
      and f: "from_le (region 6 2 r) = (2 :: u16)" "from_le (region 8 2 r) = pe_profile_id e"
        "from_le (region 12 4 r) = (1 :: u32)" "region 16 32 r = pe_content_sha256 e"
      and m: "?m AND NOT 3 = 0" "pe_allow_no_streams e = (?m AND 1 \<noteq> 0)"
        "pe_allow_three_streams e = (?m AND 2 \<noteq> 0)"
      and g: "pe_startup_abi e = 2" "\<not> profile_refused (lp_minor p) (pe_profile_id e) (pe_path e)"
        "\<not> streams_refused (pe_profile_id e) ?m" "pe_content_sha256 e \<noteq> replicate 32 0"
      by (auto simp: lp_parse_entry_def res_simps region_r_simps split: if_splits)
    note md = modes_back [OF m] and pp = path [THEN iffD1, OF p]
    from f have w: "region 6 2 r = to_le 2 (2 :: u16)" "region 8 2 r = to_le 2 (pe_profile_id e)"
      "region 12 4 r = to_le 4 (1 :: u32)" "region 10 2 r = to_le 2 (lp_modes e)"
      "region 0 4 r = to_le 4 (word_of_nat off :: u32)"
      using off(1) r(2) md by (auto intro!: le16.dec_eqD le32.dec_eqD)
    have "r = lp_record_bytes off e"
      using record_cut [OF r(2)] pp z f(4) w by (simp add: lp_record_bytes_def)
    moreover have "length (pe_content_sha256 e) = 32" using r(2) by (simp add: f(4) [symmetric])
    ultimately show ?r using pp g md by (simp add: lp_good_def)
  next
    assume x: ?r
    note s = lp_good_sizes [of "lp_minor p" e]
    have w: "region 4 2 r = to_le 2 (word_of_nat (length (pe_path e)) :: u16)" "region 6 2 r = to_le 2 (2 :: u16)"
      "region 8 2 r = to_le 2 (pe_profile_id e)" "region 10 2 r = to_le 2 (lp_modes e)"
      "region 12 4 r = to_le 4 (1 :: u32)" "region 16 32 r = pe_content_sha256 e"
      "region 48 16 r = replicate 16 0"
      using x s by (simp_all add: lp_record_bytes_def chunk_simps)
    have p: "lp_path p r = Ok (pe_path e)" using x s w(1) unfolding path by (simp add: lp_good_def)
    show ?l using x p w r modes_read [of e]
      by (simp add: lp_parse_entry_def region_r_def lp_get_u16_def lp_get_u32_def get_range_def lp_good_def)
  qed
qed

subsection \<open>All entries\<close>

text \<open>A view whose offsets fit its bytes.\<close>

definition lp_framed :: "launch_policy \<Rightarrow> bool" where
  "lp_framed p \<longleftrightarrow> lp_strings_offset p = 64 + 64 * lp_count p \<and>
     lp_strings_offset p \<le> length (lp_bytes p) \<and> length (lp_bytes p) < 2 ^ 32 \<and> lp_count p \<le> 32"

lemma lp_entry_step:
  assumes "lp_framed p" "i < lp_count p" "x < 2 ^ 32"
  shows "lp_entries_loop p previous x (i # is) = Ok n \<longleftrightarrow>
    (\<exists>e. region (64 + 64 * i) 64 (lp_bytes p) = lp_record_bytes x e \<and> lp_good (lp_minor p) e \<and>
       lp_strings_offset p + x + length (pe_path e) \<le> length (lp_bytes p) \<and>
       region (lp_strings_offset p + x) (length (pe_path e)) (lp_bytes p) = pe_path e \<and>
       (case previous of Some q \<Rightarrow> q < pe_path e | None \<Rightarrow> True) \<and>
       lp_entries_loop p (Some (pe_path e)) (x + length (pe_path e)) is = Ok n)" (is "?l \<longleftrightarrow> ?r")
proof -
  let ?r64 = "region (64 + 64 * i) 64 (lp_bytes p)"
  from assms(1,2) have r: "lp_record p i = Ok ?r64" and len: "length ?r64 = 64"
    by (auto simp: lp_framed_def intro!: lp_record_Ok)
  from assms(1) have so: "lp_strings_offset p + 2 ^ 32 + 256 \<le> usize_max"
    by (simp add: lp_framed_def usize_max_def)
  have off: "unat (from_le (region 0 4 ?r64) :: u32) = x \<longleftrightarrow> from_le (region 0 4 ?r64) = (word_of_nat x :: u32)"
    using assms(3) by (auto simp: unat_of_nat)
  have prev: "(case previous of Some q \<Rightarrow> pe_path e \<le> q | None \<Rightarrow> False) \<longleftrightarrow>
      \<not> (case previous of Some q \<Rightarrow> q < pe_path e | None \<Rightarrow> True)" for e
    by (auto split: option.splits)
  have g: "lp_get_u32 ?r64 0 = Ok (from_le (region 0 4 ?r64))" using len by (simp add: res_simps)
  have fits: "x + length (pe_path e) \<le> usize_max"
    if "lp_strings_offset p + x + length (pe_path e) \<le> length (lp_bytes p)" for e
    using that assms(1) by (simp add: lp_framed_def usize_max_def)
  show ?thesis
  proof
    assume ?l
    then obtain e where e: "lp_parse_entry p i = Ok e" and o: "from_le (region 0 4 ?r64) = (word_of_nat x :: u32)"
      and pr: "case previous of Some q \<Rightarrow> q < pe_path e | None \<Rightarrow> True"
      and rest: "lp_entries_loop p (Some (pe_path e)) (x + length (pe_path e)) is = Ok n"
      using assms(2) by (auto simp: lp_entry_def res_simps r g prev off checked_add_usize_def split: if_splits)
    from lp_parse_entry_iff [OF r len so o assms(3)] e pr rest show ?r by blast
  next
    assume ?r
    then obtain e where e: "?r64 = lp_record_bytes x e" "lp_good (lp_minor p) e"
       "lp_strings_offset p + x + length (pe_path e) \<le> length (lp_bytes p)"
       "region (lp_strings_offset p + x) (length (pe_path e)) (lp_bytes p) = pe_path e"
       "case previous of Some q \<Rightarrow> q < pe_path e | None \<Rightarrow> True"
       "lp_entries_loop p (Some (pe_path e)) (x + length (pe_path e)) is = Ok n" by blast
    have o: "from_le (region 0 4 ?r64) = (word_of_nat x :: u32)"
      unfolding e(1) by (simp add: lp_record_bytes_def chunk_simps)
    from lp_parse_entry_iff [OF r len so o assms(3)] e have "lp_parse_entry p i = Ok e" by blast
    with e(5,6) o fits [OF e(3)] show ?l using assms(2,3)
      by (simp add: lp_entry_def r g prev checked_add_usize_def unat_of_nat)
  qed
qed

text \<open>The entries from some index on, laid out as records and as packed strings.\<close>

definition lp_layout :: "launch_policy \<Rightarrow> byte list option \<Rightarrow> nat \<Rightarrow> nat \<Rightarrow> policy_entry list \<Rightarrow> bool" where
  "lp_layout p previous x i es \<longleftrightarrow>
     region (64 + 64 * i) (64 * length es) (lp_bytes p) = lp_records x es \<and>
     lp_strings_offset p + x + length (lp_strings es) \<le> length (lp_bytes p) \<and>
     region (lp_strings_offset p + x) (length (lp_strings es)) (lp_bytes p) = lp_strings es \<and>
     list_all (lp_good (lp_minor p)) es \<and> ascending previous es"

lemma lp_layout_Cons:
  assumes "lp_framed p" "i < lp_count p"
  shows "lp_layout p previous x i (e # es) \<longleftrightarrow>
    region (64 + 64 * i) 64 (lp_bytes p) = lp_record_bytes x e \<and> lp_good (lp_minor p) e \<and>
    lp_strings_offset p + x + length (pe_path e) \<le> length (lp_bytes p) \<and>
    region (lp_strings_offset p + x) (length (pe_path e)) (lp_bytes p) = pe_path e \<and>
    (case previous of Some q \<Rightarrow> q < pe_path e | None \<Rightarrow> True) \<and>
    lp_layout p (Some (pe_path e)) (x + length (pe_path e)) (Suc i) es"
proof (cases "lp_good (lp_minor p) e \<and> lp_strings_offset p + x + length (pe_path e) \<le> length (lp_bytes p)")
  case True
  have b: "64 + 64 * i + 64 \<le> length (lp_bytes p)" using assms by (simp add: lp_framed_def)
  have "64 * length (e # es) = 64 + 64 * length es" "64 + 64 * Suc i = 64 + 64 * i + 64" by simp_all
  then have "region (64 + 64 * i) (64 * length (e # es)) (lp_bytes p) = lp_records x (e # es) \<longleftrightarrow>
      region (64 + 64 * i) 64 (lp_bytes p) = lp_record_bytes x e \<and>
      region (64 + 64 * Suc i) (64 * length es) (lp_bytes p) = lp_records (x + length (pe_path e)) es"
    using append_region_iff [OF b length_lp_record_bytes [OF lp_good_sizes(3) [OF conjunct1 [OF True]]]]
    by (simp only: lp_records.simps)
  moreover have "region (lp_strings_offset p + x) (length (lp_strings (e # es))) (lp_bytes p) = lp_strings (e # es) \<longleftrightarrow>
      region (lp_strings_offset p + x) (length (pe_path e)) (lp_bytes p) = pe_path e \<and>
      region (lp_strings_offset p + (x + length (pe_path e))) (length (lp_strings es)) (lp_bytes p) = lp_strings es"
    using append_region_iff [OF conjunct2 [OF True], of "pe_path e"] by (simp add: add.assoc)
  ultimately show ?thesis using True
    unfolding lp_layout_def by (auto simp: add.assoc simp del: mult_Suc_right)
next
  case False
  then show ?thesis by (auto simp: lp_layout_def)
qed

lemma lp_entries_loop_iff:
  assumes "lp_framed p" "i + k = lp_count p" "lp_strings_offset p + x \<le> length (lp_bytes p)"
  shows "lp_entries_loop p previous x [i..<lp_count p] = Ok n \<longleftrightarrow>
    (\<exists>es. length es = k \<and> lp_layout p previous x i es \<and> n = x + length (lp_strings es))"
  using assms(2,3)
proof (induction k arbitrary: i x previous)
  case 0
  then show ?case by (auto simp: region_def lp_layout_def)
next
  case (Suc k)
  then have i: "i < lp_count p" and up: "[i..<lp_count p] = i # [Suc i..<lp_count p]"
    and x: "x < 2 ^ 32" and k: "Suc i + k = lp_count p"
    using assms(1) by (simp_all add: upt_conv_Cons lp_framed_def)
  note step = lp_entry_step [OF assms(1) i x] and cons = lp_layout_Cons [OF assms(1) i]
  have IH: "lp_entries_loop p (Some (pe_path e)) (x + length (pe_path e)) [Suc i..<lp_count p] = Ok n \<longleftrightarrow>
      (\<exists>es. length es = k \<and> lp_layout p (Some (pe_path e)) (x + length (pe_path e)) (Suc i) es \<and>
         n = x + length (lp_strings (e # es)))"
    if "lp_strings_offset p + x + length (pe_path e) \<le> length (lp_bytes p)" for e
    using Suc.IH [OF k, of "x + length (pe_path e)" "Some (pe_path e)"] that by (simp add: add.assoc)
  have "lp_entries_loop p previous x [i..<lp_count p] = Ok n \<longleftrightarrow>
      (\<exists>e es. length es = k \<and> lp_layout p previous x i (e # es) \<and> n = x + length (lp_strings (e # es)))"
    unfolding up step cons using IH by blast
  also have "\<dots> \<longleftrightarrow> (\<exists>es. length es = Suc k \<and> lp_layout p previous x i es \<and> n = x + length (lp_strings es))"
    by (metis length_Suc_conv)
  finally show ?case .
qed

subsection \<open>The header and the whole policy\<close>

lemma lp_magic: "length LP_MAGIC = 4"
  by (simp add: LP_MAGIC_def bytes_of_def)

lemma minor_versions:
  "minor = VERSION_MINOR_HISTORICAL \<or> minor = VERSION_MINOR_WYRMSH \<or>
     minor = VERSION_MINOR_RECOVERY_TRIGGER \<longleftrightarrow> minor \<in> {0, 1, 2}"
  by (simp add: VERSION_MINOR_HISTORICAL_def VERSION_MINOR_WYRMSH_def VERSION_MINOR_RECOVERY_TRIGGER_def)

text \<open>The conditions the parser checks on the header, in its own terms.\<close>

definition lp_header_checks :: "byte list \<Rightarrow> bool" where
  "lp_header_checks B \<longleftrightarrow> 64 \<le> length B \<and> take 4 B = LP_MAGIC \<and>
     (from_le (region 4 2 B) :: u16) = VERSION_MAJOR \<and> (from_le (region 6 2 B) :: u16) \<in> {0, 1, 2} \<and>
     unat (from_le (region 8 2 B) :: u16) = 64 \<and> unat (from_le (region 10 2 B) :: u16) = 64 \<and>
     (let count = unat (from_le (region 12 2 B) :: u16) in
      1 \<le> count \<and> count \<le> 32 \<and> (from_le (region 14 2 B) :: u16) = 0 \<and>
      (from_le (region 56 8 B) :: u64) = 0 \<and> unat (from_le (region 16 4 B) :: u32) = length B \<and>
      64 + 64 * count + unat (from_le (region 20 4 B) :: u32) = length B \<and>
      region 24 32 B \<noteq> replicate 32 0)"

lemma lp_header_checked:
  "lp_header B = Ok (p, n) \<longleftrightarrow> lp_header_checks B \<and>
     p = \<lparr>lp_bytes = B, lp_count = unat (from_le (region 12 2 B) :: u16),
          lp_strings_offset = 64 + 64 * unat (from_le (region 12 2 B) :: u16),
          lp_boot_generation_sha256 = region 24 32 B, lp_minor = from_le (region 6 2 B)\<rparr> \<and>
     n = unat (from_le (region 20 4 B) :: u32)"
proof (cases "64 \<le> length B")
  case True
  have k: "unat (from_le (region 12 2 B) :: u16) \<le> 32 \<Longrightarrow>
      64 + unat (from_le (region 12 2 B) :: u16) * 64 + unat (from_le (region 20 4 B) :: u32) \<le> usize_max"
    using unsigned_less [of "from_le (region 20 4 B) :: u32", where 'a = nat] by (simp add: usize_max_def)
  have g: "lp_get_u16 B off = Ok (from_le (region off 2 B))" "lp_get_u32 B off = Ok (from_le (region off 4 B))"
      "lp_get_u64 B off = Ok (from_le (region off 8 B))" if "off \<le> 56" for off
    using that True by (simp_all add: res_simps)
  show ?thesis using True k
    by (simp add: lp_header_def lp_header_checks_def g minor_versions lp_consts Let_def region_r_def
        checked_mul_usize_def checked_add_usize_def) auto
next
  case False
  then show ?thesis by (simp add: lp_header_def lp_header_checks_def lp_consts)
qed

text \<open>The same conditions as equations between bytes.\<close>

lemma header_bytes_iff:
  assumes "64 \<le> length B" "length boot = 32"
  shows "take 64 B = lp_header_bytes minor boot count n \<longleftrightarrow>
    take 4 B = LP_MAGIC \<and> (from_le (region 4 2 B) :: u16) = VERSION_MAJOR \<and> from_le (region 6 2 B) = minor \<and>
    (from_le (region 8 2 B) :: u16) = 64 \<and> (from_le (region 10 2 B) :: u16) = 64 \<and>
    (from_le (region 12 2 B) :: u16) = word_of_nat count \<and> (from_le (region 14 2 B) :: u16) = 0 \<and>
    (from_le (region 16 4 B) :: u32) = word_of_nat (64 + 64 * count + n) \<and>
    (from_le (region 20 4 B) :: u32) = word_of_nat n \<and> region 24 32 B = boot \<and>
    (from_le (region 56 8 B) :: u64) = 0"
proof -
  have l: "length (region off m B) = m" if "off + m \<le> 64" for off m using that assms by simp
  have l4: "length (take 4 B) = length LP_MAGIC" using assms by (simp add: lp_magic)
  show ?thesis
    unfolding header_cut [OF assms(1)] lp_header_bytes_def
    using l4 by (simp add: append_eq_append_conv field_iff l assms(2) del: to_le_0 length_region)
qed

lemma lp_header_iff:
  "lp_header B = Ok (p, n) \<longleftrightarrow> length B < 2 ^ 32 \<and> (\<exists>minor boot count.
     minor \<in> {0, 1, 2} \<and> length boot = 32 \<and> boot \<noteq> replicate 32 0 \<and> 1 \<le> count \<and> count \<le> 32 \<and>
     length B = 64 + 64 * count + n \<and> take 64 B = lp_header_bytes minor boot count n \<and>
     p = \<lparr>lp_bytes = B, lp_count = count, lp_strings_offset = 64 + 64 * count,
          lp_boot_generation_sha256 = boot, lp_minor = minor\<rparr>)" (is "_ \<longleftrightarrow> ?r")
proof
  assume "lp_header B = Ok (p, n)"
  note h = this [unfolded lp_header_checked lp_header_checks_def Let_def]
  have B: "length B < 2 ^ 32" using h unsigned_less [of "from_le (region 16 4 B) :: u32", where 'a = nat] by simp
  then have "(from_le (region 16 4 B) :: u32) = word_of_nat (length B)" using h by (simp add: u32_nat)
  moreover have "(from_le (region 8 2 B) :: u16) = 64" "(from_le (region 10 2 B) :: u16) = 64"
    using h by (simp_all add: word_unat_eq_iff)
  moreover have "length (region 24 32 B) = 32" using conjunct1 [OF conjunct1 [OF h]] by simp
  ultimately show ?r using h B
    by (intro conjI exI [of _ "from_le (region 6 2 B)"] exI [of _ "region 24 32 B"]
        exI [of _ "unat (from_le (region 12 2 B) :: u16)"]) (simp_all add: header_bytes_iff del: length_region)
next
  assume ?r
  then obtain minor boot count where h: "minor \<in> {0, 1, 2}" "length boot = 32" "boot \<noteq> replicate 32 0"
    "1 \<le> count" "count \<le> 32" "length B = 64 + 64 * count + n" "length B < 2 ^ 32"
    and t: "take 64 B = lp_header_bytes minor boot count n"
    and p: "p = \<lparr>lp_bytes = B, lp_count = count, lp_strings_offset = 64 + 64 * count,
          lp_boot_generation_sha256 = boot, lp_minor = minor\<rparr>" by blast
  from h(6) have "64 \<le> length B" by simp
  note f = t [unfolded header_bytes_iff [OF this h(2)]]
  have "unat (from_le (region 16 4 B) :: u32) = 64 + 64 * count + n"
    "unat (from_le (region 20 4 B) :: u32) = n"
    using f h(6,7) by (simp_all only: u32_nat [symmetric])
  moreover have "unat (from_le (region 12 2 B) :: u16) = count"
    using f h(5) by (simp add: u16_nat)
  ultimately have "unat (from_le (region 16 4 B) :: u32) = length B" "unat (from_le (region 20 4 B) :: u32) = n"
    "unat (from_le (region 12 2 B) :: u16) = count" using h(6) by simp_all
  with f h show "lp_header B = Ok (p, n)"
    by (auto simp: lp_header_checked lp_header_checks_def p)
qed

lemma policy_view_simps [simp]:
  "lp_bytes (policy_view minor boot es) = policy_bytes minor boot es"
  "lp_count (policy_view minor boot es) = length es" "lp_minor (policy_view minor boot es) = minor"
  "lp_strings_offset (policy_view minor boot es) = 64 + 64 * length es"
  "lp_boot_generation_sha256 (policy_view minor boot es) = boot"
  by (simp_all add: policy_view_def)

text \<open>The bytes of a policy of the right size, cut into header, records and strings.\<close>

lemma policy_bytes_cut:
  assumes "list_all (lp_good minor) es" "length boot = 32"
    and "length B = 64 + 64 * length es + length (lp_strings es)"
  shows "B = policy_bytes minor boot es \<longleftrightarrow>
    take 64 B = lp_header_bytes minor boot (length es) (length (lp_strings es)) \<and>
    region 64 (64 * length es) B = lp_records 0 es \<and>
    region (64 + 64 * length es) (length (lp_strings es)) B = lp_strings es"
proof -
  let ?H = "take 64 B" and ?R = "region 64 (64 * length es) B"
    and ?S = "region (64 + 64 * length es) (length (lp_strings es)) B"
  have cut: "B = ?H @ ?R @ ?S"
    using assms(3) region_split [of 64 "64 * length es" "length (lp_strings es)" B]
    by (simp add: region_def)
  have "?H @ ?R @ ?S = policy_bytes minor boot es \<longleftrightarrow>
      ?H = lp_header_bytes minor boot (length es) (length (lp_strings es)) \<and> ?R = lp_records 0 es \<and> ?S = lp_strings es"
    unfolding policy_bytes_def using assms
    by (simp add: length_lp_header_bytes length_lp_records)
  then show ?thesis by (subst cut)
qed

lemma lp_parse_iff:
  "lp_parse B = Ok p \<longleftrightarrow>
     (\<exists>minor boot es. launch_policy_ok minor boot es \<and> B = policy_bytes minor boot es \<and> p = policy_view minor boot es)"
  (is "_ \<longleftrightarrow> ?r")
proof
  assume "lp_parse B = Ok p"
  then obtain n where hd: "lp_header B = Ok (p, n)" and lo: "lp_entries_loop p None 0 [0..<lp_count p] = Ok n"
    by (auto simp: lp_parse_def res_simps split: if_splits)
  from hd obtain minor boot count where h: "minor \<in> {0, 1, 2}" "length boot = 32" "boot \<noteq> replicate 32 0"
    "1 \<le> count" "count \<le> 32" "length B = 64 + 64 * count + n" "take 64 B = lp_header_bytes minor boot count n"
    and p: "p = \<lparr>lp_bytes = B, lp_count = count, lp_strings_offset = 64 + 64 * count,
          lp_boot_generation_sha256 = boot, lp_minor = minor\<rparr>" and B: "length B < 2 ^ 32"
    unfolding lp_header_iff by blast
  have "lp_framed p" using h B by (simp add: lp_framed_def p)
  from lp_entries_loop_iff [OF this, of 0 count 0 None n] lo h(6) obtain es
    where es: "length es = count" "lp_layout p None 0 0 es" "n = length (lp_strings es)"
    by (auto simp: p)
  have "launch_policy_ok minor boot es" using h es by (simp add: launch_policy_ok_def lp_layout_def p)
  moreover have "B = policy_bytes minor boot es"
    using h es by (subst policy_bytes_cut) (simp_all add: lp_layout_def p)
  ultimately show ?r using es by (auto simp: p policy_view_def)
next
  assume ?r
  then obtain minor boot es where ok: "launch_policy_ok minor boot es" and B: "B = policy_bytes minor boot es"
    and p: "p = policy_view minor boot es" by blast
  note len = length_policy_bytes [OF ok, folded B]
  from ok have g: "list_all (lp_good minor) es" "length boot = 32" "length es \<le> 32" by (simp_all add: launch_policy_ok_def)
  note cut = policy_bytes_cut [OF g(1,2) len, THEN iffD1, OF B]
  have small: "length B < 2 ^ 32" using len length_lp_strings [OF g(1)] g(3) by simp
  have "lp_header B = Ok (p, length (lp_strings es))"
    unfolding lp_header_iff using ok cut len small
    by (auto simp: launch_policy_ok_def p policy_view_def B [symmetric])
  moreover have "lp_framed p" using small len g by (simp add: lp_framed_def p B [symmetric])
  moreover have "lp_layout p None 0 0 es"
    using ok cut len by (simp add: lp_layout_def p B [symmetric] launch_policy_ok_def)
  ultimately show "lp_parse B = Ok p"
    using lp_entries_loop_iff [of p 0 "length es" 0 None "length (lp_strings es)"] len
    by (auto simp: lp_parse_def p B [symmetric])
qed

end
