(* ===== verification/LaunchPolicyProps.thy ===== *)
theory LaunchPolicyProps
  imports LaunchPolicyCanon
begin

text \<open>
  The launch policy's parser never panics, accepts exactly the canonical bytes and looks paths up
  exactly; the encoder succeeds exactly on valid entries, its own final check never refuses what it
  wrote, and the parser reads the entries back.
\<close>

unbundle bit_operations_syntax

subsection \<open>No panic\<close>

lemma lp_record_simps:
  "lp_record p i \<noteq> Panic" "lp_record p i = Ok r \<Longrightarrow> length r = 64"
  by (auto simp: lp_record_def lp_consts res_simps get_range_eq_Some)

lemma lp_parse_entry_no_panic: "lp_parse_entry p i \<noteq> Panic"
proof (cases "lp_record p i")
  case (Ok r)
  note lp_record_simps(2) [OF Ok]
  moreover have "lp_path p r \<noteq> Panic"
    by (auto simp: lp_path_def lp_validate_path_def res_simps)
  ultimately show ?thesis using Ok by (auto simp: lp_parse_entry_def res_simps)
qed (simp_all add: lp_parse_entry_def lp_record_simps)

lemma lp_entries_loop_no_panic: "lp_entries_loop p previous x is \<noteq> Panic"
  by (induction p previous x "is" rule: lp_entries_loop.induct)
    (auto simp: res_simps lp_entry_def lp_parse_entry_no_panic lp_record_simps split: if_splits)

lemma lp_header_no_panic: "lp_header B \<noteq> Panic"
  unfolding lp_header_def by (auto simp: res_simps lp_consts Let_def)

lemma lp_parse_no_panic: "lp_parse B \<noteq> Panic"
  by (auto simp: lp_parse_def res_simps lp_header_no_panic lp_entries_loop_no_panic)

subsection \<open>Entries and lookup of an accepted policy\<close>

lemma ascending_sorted:
  "ascending previous es \<Longrightarrow> sorted_wrt (<) (map pe_path es) \<and>
     (\<forall>q. previous = Some q \<longrightarrow> (\<forall>e \<in> set es. q < pe_path e))"
proof (induction es arbitrary: previous)
  case (Cons e es)
  from Cons.prems have "ascending (Some (pe_path e)) es" by simp
  from Cons.IH [OF this] Cons.prems show ?case by (auto intro: order.strict_trans split: option.splits)
qed simp

lemma lp_records_nth:
  "i < length es \<Longrightarrow> list_all (lp_good minor) es \<Longrightarrow>
     region (64 * i) 64 (lp_records x es) = lp_record_bytes (x + length (lp_strings (take i es))) (es ! i)"
proof (induction es arbitrary: i x)
  case (Cons e es)
  then have "lp_good minor e" by simp
  then have l: "length (lp_record_bytes x e) = 64" by (simp add: length_lp_record_bytes lp_good_sizes(3))
  show ?case
  proof (cases i)
    case 0
    then show ?thesis using l by (simp add: region_def)
  next
    case (Suc j)
    then show ?thesis using Cons l by (simp add: region_append_skip add.assoc)
  qed
qed simp

lemma lp_strings_take:
  "i < length es \<Longrightarrow> lp_strings es = lp_strings (take i es) @ pe_path (es ! i) @ lp_strings (drop (Suc i) es)"
  unfolding lp_strings_def by (metis concat.simps(2) concat_append id_take_nth_drop list.simps(9) map_append)

lemma policy_view_entry:
  assumes ok: "launch_policy_ok minor boot es" and i: "i < length es"
  shows "lp_parse_entry (policy_view minor boot es) i = Ok (es ! i)"
proof -
  let ?p = "policy_view minor boot es" and ?B = "policy_bytes minor boot es"
  let ?x = "length (lp_strings (take i es))"
  note len = length_policy_bytes [OF ok]
  from ok have g: "list_all (lp_good minor) es" "length boot = 32" "length es \<le> 32" by (simp_all add: launch_policy_ok_def)
  note cut = policy_bytes_cut [OF g(1,2) len, simplified]
  have small: "length ?B < 2 ^ 32" using len length_lp_strings [OF g(1)] g(3) by simp
  have "region (64 + 64 * i) 64 ?B = region (64 * i) 64 (region 64 (64 * length es) ?B)"
    using i by (simp add: region_region)
  with cut lp_records_nth [OF i g(1), of 0]
  have rec: "region (64 + 64 * i) 64 ?B = lp_record_bytes ?x (es ! i)" by simp
  have gi: "lp_good minor (es ! i)" using g(1) i by (simp add: list_all_length)
  note st = lp_strings_take [OF i]
  have "region (64 + 64 * length es + ?x) (length (pe_path (es ! i))) ?B =
      region ?x (length (pe_path (es ! i))) (region (64 + 64 * length es) (length (lp_strings es)) ?B)"
    using st by (simp add: region_region)
  also have "\<dots> = region ?x (length (pe_path (es ! i))) (lp_strings es)" using cut by simp
  also have "\<dots> = pe_path (es ! i)" by (subst st) (simp add: chunk_simps)
  finally have str: "region (64 + 64 * length es + ?x) (length (pe_path (es ! i))) ?B = pe_path (es ! i)" .
  have fit: "64 + 64 * length es + ?x + length (pe_path (es ! i)) \<le> length ?B"
    using arg_cong [OF st, of length] len by simp
  have r: "lp_record ?p i = Ok (lp_record_bytes ?x (es ! i))"
    using lp_record_Ok [of i ?p] small len i by (simp add: rec)
  have o: "from_le (region 0 4 (lp_record_bytes ?x (es ! i))) = (word_of_nat ?x :: u32)"
    by (simp add: lp_record_bytes_def chunk_simps)
  show ?thesis
    using lp_parse_entry_iff [OF r length_lp_record_bytes [OF lp_good_sizes(3) [OF gi]] _ o, of "es ! i"]
      gi fit str small g(3) by (simp add: usize_max_def)
qed

lemma find_map_cong: "(\<And>x. x \<in> set xs \<Longrightarrow> f x = g x) \<Longrightarrow> find_map f xs = find_map g xs"
  by (induction xs) (auto split: option.splits)

lemma policy_view_find:
  assumes ok: "launch_policy_ok minor boot es"
  shows "lp_find (policy_view minor boot es) path = Some e \<longleftrightarrow> e \<in> set es \<and> pe_path e = path"
proof -
  let ?f = "\<lambda>i. if pe_path (es ! i) = path then Some (es ! i) else None"
  have f: "lp_find (policy_view minor boot es) path = find_map ?f [0..<length es]"
    unfolding lp_find_def policy_view_simps
    by (intro find_map_cong) (simp_all add: policy_view_entry [OF ok])
  have sound: "e \<in> set es \<and> pe_path e = path" if "find_map ?f [0..<length es] = Some e" for e
    using find_map_SomeD [OF that] by (auto split: if_splits)
  have "sorted_wrt (<) (map pe_path es)"
    using ok ascending_sorted [of None es] by (simp add: launch_policy_ok_def)
  then have inj: "inj_on pe_path (set es)" by (simp add: strict_sorted_iff distinct_map)
  have "find_map ?f [0..<length es] = Some e" if e: "e \<in> set es" "pe_path e = path"
  proof -
    have "find_map ?f [0..<length es] \<noteq> None" using e by (auto simp: find_map_eq_None in_set_conv_nth)
    then obtain e' where e': "find_map ?f [0..<length es] = Some e'" by blast
    with sound [OF this] e inj show ?thesis by (auto dest: inj_onD)
  qed
  then show ?thesis unfolding f using sound by blast
qed

text \<open>C11. Parsing a launch policy never panics. A policy it accepts is canonical: its bytes are
  exactly the encoding of one to thirty-two entries that obey the rules on paths, digests, profiles
  and stream shapes, in strictly ascending order of their paths, under a supported minor version and
  a nonzero boot digest. Every entry can be read, no other index can, and lookup of a path finds
  exactly the entry with that path.\<close>

theorem launch_policy_safe:
  "case lp_parse bytes of
     Panic \<Rightarrow> False
   | Err _ \<Rightarrow> True
   | Ok p \<Rightarrow> (\<exists>es. launch_policy_ok (lp_minor p) (lp_boot_generation_sha256 p) es \<and>
       bytes = policy_bytes (lp_minor p) (lp_boot_generation_sha256 p) es \<and>
       sorted_wrt (<) (map pe_path es) \<and>
       (\<forall>i. lp_entry p i = (if i < length es then Some (Ok (es ! i)) else None)) \<and>
       (\<forall>path e. (lp_find p path = Some e) = (e \<in> set es \<and> pe_path e = path)))"
proof (cases "lp_parse bytes")
  case (Ok p)
  then obtain minor boot es where ok: "launch_policy_ok minor boot es" and b: "bytes = policy_bytes minor boot es"
    and p: "p = policy_view minor boot es" by (auto simp: lp_parse_iff)
  have "sorted_wrt (<) (map pe_path es)"
    using ok ascending_sorted [of None es] by (simp add: launch_policy_ok_def)
  moreover have "lp_entry p i = (if i < length es then Some (Ok (es ! i)) else None)" for i
    by (simp add: p lp_entry_def policy_view_entry [OF ok])
  ultimately show ?thesis using ok b policy_view_find [OF ok, folded p]
    unfolding Ok res.case by (intro exI [of _ es]) (simp add: p)
qed (simp_all add: lp_parse_no_panic)

subsection \<open>The encoder\<close>

lemma lp_check_entry_simps:
  "lp_check_entry minor previous e \<noteq> Panic"
  "length (pe_content_sha256 e) = 32 \<Longrightarrow> lp_check_entry minor previous e = Ok () \<longleftrightarrow>
     lp_good minor e \<and> (case previous of Some q \<Rightarrow> q < pe_path e | None \<Rightarrow> True)"
  by (auto simp: lp_check_entry_def lp_good_def lp_validate_path_def res_simps split: if_splits option.splits)

lemma lp_put_Ok:
  "off + length bs \<le> length out \<Longrightarrow> lp_put off bs out = Ok (overwrite off bs out)"
  "off + length bs \<le> length out \<Longrightarrow> lp_copy off bs out = Ok (overwrite off bs out)"
  by (simp_all add: lp_put_def lp_copy_def)

text \<open>A record's fields are written one after another.\<close>

lemma lp_write_entry_Ok:
  assumes "64 + 64 * index + 64 \<le> length out" "ss + so + length (pe_path e) \<le> length out"
    and "length (pe_content_sha256 e) = 32"
  shows "lp_write_entry ss index so e out =
    Ok (overwrite (ss + so) (pe_path e) (overwrite (64 + 64 * index) (take 48 (lp_record_bytes so e)) out))"
proof -
  have t: "take 48 (lp_record_bytes so e) =
      to_le 4 (word_of_nat so :: u32) @ to_le 2 (word_of_nat (length (pe_path e)) :: u16) @ to_le 2 (2 :: u16) @
      to_le 2 (pe_profile_id e) @ to_le 2 (lp_modes e) @ to_le 4 (1 :: u32) @ pe_content_sha256 e"
    using assms(3) by (simp add: lp_record_bytes_def)
  let ?r = "64 + 64 * index"
  have o: "overwrite k bs (overwrite ?r as out) = overwrite ?r (as @ bs) out" if "k = ?r + length as" for k bs as
    using overwrite_overwrite [of ?r out as bs] assms(1) that by simp
  show ?thesis unfolding t using assms
    by (simp add: lp_write_entry_def lp_consts Let_def lp_put_u32_def lp_put_u16_def lp_put_Ok o
        mult.commute [of _ 64])
qed

lemma lp_write_entry_zeroed:
  assumes "length A = 64 + 64 * index" "ss + so = length A + 64 + length Y"
    and "length (pe_content_sha256 e) = 32"
  shows "lp_write_entry ss index so e (A @ replicate 64 0 @ Y @ replicate (length (pe_path e)) 0 @ W) =
    Ok (A @ lp_record_bytes so e @ Y @ pe_path e @ W)"
proof -
  let ?R = "lp_record_bytes so e" and ?p = "replicate (length (pe_path e)) 0 @ W"
  have R: "?R = take 48 ?R @ replicate 16 0" using assms(3) by (simp add: lp_record_bytes_def)
  have len: "length (take 48 ?R) = 48" using length_lp_record_bytes [OF assms(3)] by simp
  have "overwrite (64 + 64 * index) (take 48 ?R) (A @ replicate 64 0 @ Y @ ?p) =
      A @ (take 48 ?R @ replicate 16 0) @ Y @ ?p"
    unfolding overwrite_def len assms(1) [symmetric] by simp
  also have "\<dots> = (A @ ?R @ Y) @ replicate (length (pe_path e)) 0 @ W" by (simp only: R [symmetric]) simp
  finally have o: "overwrite (64 + 64 * index) (take 48 ?R) (A @ replicate 64 0 @ Y @ ?p) =
      (A @ ?R @ Y) @ replicate (length (pe_path e)) 0 @ W" .
  have "overwrite (ss + so) (pe_path e) ((A @ ?R @ Y) @ replicate (length (pe_path e)) 0 @ W) =
      (A @ ?R @ Y) @ pe_path e @ W"
    using assms length_lp_record_bytes [OF assms(3), of so] by (intro overwrite_middle) simp_all
  then show ?thesis using assms by (simp add: lp_write_entry_Ok o)
qed

text \<open>The loop over the entries fills the zeroed records and strings, or stops at the first
  entry that breaks a rule.\<close>

lemma lp_encode_loop_result:
  assumes "length A = 64 + 64 * index" "ss = length A + 64 * length es" "so = length S"
    and "list_all (\<lambda>e. length (pe_content_sha256 e) = 32) es"
  shows "\<exists>err. lp_encode_loop minor ss index so previous es
      (A @ replicate (64 * length es) 0 @ S @ replicate (length (lp_strings es)) 0 @ Z) =
    (if list_all (lp_good minor) es \<and> ascending previous es
     then Ok (A @ lp_records so es @ S @ lp_strings es @ Z) else Err err)"
  using assms
proof (induction es arbitrary: A S index so previous)
  case Nil
  then show ?case by simp
next
  case (Cons e es)
  let ?out = "A @ replicate (64 * length (e # es)) 0 @ S @ replicate (length (lp_strings (e # es))) 0 @ Z"
  let ?R = "lp_record_bytes so e" and ?z = "replicate (64 * length es) 0"
  let ?y = "replicate (length (lp_strings es)) 0"
  from Cons.prems have sha: "length (pe_content_sha256 e) = 32" by simp
  note len = length_lp_record_bytes [OF sha, of so]
  show ?case
  proof (cases "lp_check_entry minor previous e")
    case (Ok u)
    have out: "?out = A @ replicate 64 0 @ (?z @ S) @ replicate (length (pe_path e)) 0 @ ?y @ Z"
      by (simp add: replicate_add)
    have "ss + so = length A + 64 + length (?z @ S)" using Cons.prems(2,3) by simp
    from lp_write_entry_zeroed [OF Cons.prems(1) this sha, of "?y @ Z"]
    have w: "lp_write_entry ss index so e ?out = Ok ((A @ ?R) @ ?z @ (S @ pe_path e) @ ?y @ Z)"
      unfolding out by simp
    from Ok sha have "lp_good minor e" "case previous of Some q \<Rightarrow> q < pe_path e | None \<Rightarrow> True"
      using lp_check_entry_simps(2) [OF sha, of minor previous] by auto
    then have iff: "list_all (lp_good minor) (e # es) \<and> ascending previous (e # es) \<longleftrightarrow>
        list_all (lp_good minor) es \<and> ascending (Some (pe_path e)) es" by simp
    have "length (A @ ?R) = 64 + 64 * (index + 1)" "ss = length (A @ ?R) + 64 * length es"
      "so + length (pe_path e) = length (S @ pe_path e)"
      "list_all (\<lambda>e. length (pe_content_sha256 e) = 32) es" using Cons.prems len by simp_all
    note ih = Cons.IH [OF this, of "Some (pe_path e)"]
    have "lp_encode_loop minor ss index so previous (e # es) ?out =
        lp_encode_loop minor ss (index + 1) (so + length (pe_path e)) (Some (pe_path e)) es
          ((A @ ?R) @ ?z @ (S @ pe_path e) @ ?y @ Z)" unfolding lp_encode_loop.simps w Ok rbind.simps ..
    with ih show ?thesis unfolding iff by (simp only: lp_records.simps lp_strings_simps append_assoc)
  next
    case (Err err)
    then have "\<not> (lp_good minor e \<and> (case previous of Some q \<Rightarrow> q < pe_path e | None \<Rightarrow> True))"
      using lp_check_entry_simps(2) [OF sha, of minor previous] by auto
    with Err show ?thesis by auto
  qed (simp add: lp_check_entry_simps)
qed

text \<open>The two runs of adjacent header fields, on either side of the reserved field.\<close>

lemma lp_header_fields_before:
  assumes "64 \<le> length Z"
  shows "rbind (lp_copy 0 LP_MAGIC Z) (\<lambda>out.
     rbind (lp_put_u16 4 VERSION_MAJOR out) (\<lambda>out.
     rbind (lp_put_u16 6 minor out) (\<lambda>out.
     rbind (lp_put_u16 8 (word_of_nat LP_HEADER_BYTES) out) (\<lambda>out.
     rbind (lp_put_u16 10 (word_of_nat LP_RECORD_BYTES) out) (\<lambda>out.
     rbind (lp_put_u16 12 count out) K))))) =
   K (overwrite 0 (LP_MAGIC @ to_le 2 VERSION_MAJOR @ to_le 2 minor @ to_le 2 (64 :: u16) @
     to_le 2 (64 :: u16) @ to_le 2 count) Z)"
  using assms by (simp add: lp_put_u16_def lp_put_Ok lp_magic overwrite_next) (simp add: lp_consts)

lemma lp_header_fields_after:
  assumes "64 \<le> length Z" "length boot = 32"
  shows "rbind (lp_put_u32 16 n Z) (\<lambda>out. rbind (lp_put_u32 20 sb out) (lp_copy 24 boot)) =
    Ok (overwrite 16 (to_le 4 n @ to_le 4 sb @ boot) Z)"
  using assms by (simp add: lp_put_u32_def lp_put_Ok overwrite_next)

lemma lp_write_header_zeroed:
  assumes "length boot = 32" "n = 64 + 64 * count + sb" "n \<le> length out"
  shows "lp_write_header minor boot count n sb out =
    Ok (lp_header_bytes minor boot count sb @ replicate (64 * count) 0 @ replicate sb 0 @ drop n out)"
proof -
  let ?T = "replicate (64 * count) 0 @ replicate sb 0 @ drop n out"
  let ?X = "LP_MAGIC @ to_le 2 VERSION_MAJOR @ to_le 2 minor @ to_le 2 (64 :: u16) @ to_le 2 (64 :: u16) @
    to_le 2 (word_of_nat count :: u16)"
  let ?Y = "to_le 4 (word_of_nat n :: u32) @ to_le 4 (word_of_nat sb :: u32) @ boot"
  have "replicate n 0 = replicate 64 0 @ replicate (64 * count) 0 @ replicate sb (0 :: byte)"
    by (simp only: assms(2) replicate_add append_assoc)
  moreover have "lp_copy 0 (replicate n 0) out = Ok (replicate n 0 @ drop n out)"
    using assms(3) by (simp add: lp_copy_def overwrite_def)
  ultimately have z: "lp_copy 0 (replicate n 0) out = Ok (replicate 64 0 @ ?T)" by (simp only: append_assoc)
  define Z where "Z = replicate 64 0 @ ?T"
  have Z: "64 \<le> length Z" "64 \<le> length (overwrite 0 ?X Z)" by (simp_all add: Z_def lp_magic)
  have "lp_write_header minor boot count n sb out = Ok (overwrite 16 ?Y (overwrite 0 ?X Z))"
    unfolding lp_write_header_def z [folded Z_def] rbind.simps lp_header_fields_before [OF Z(1)]
    by (rule lp_header_fields_after [OF Z(2) assms(1)])
  note this [unfolded Z_def]
  moreover have "overwrite 0 ?X (replicate 64 0 @ ?T) = ?X @ replicate 50 0 @ ?T"
    unfolding overwrite_def using lp_magic by simp
  moreover have "overwrite 16 ?Y (?X @ replicate 50 0 @ ?T) = ?X @ replicate 2 0 @ ?Y @ replicate 8 0 @ ?T"
    unfolding overwrite_def using lp_magic assms(1) by simp
  ultimately show ?thesis unfolding lp_header_bytes_def assms(2) by simp
qed

lemma lp_string_bytes_no_panic: "lp_string_bytes n es \<noteq> Panic"
  by (induction es arbitrary: n) (auto simp: res_simps)

lemma lp_string_bytes_OkD: "lp_string_bytes n es = Ok m \<Longrightarrow> m = n + length (lp_strings es)"
proof (induction es arbitrary: n)
  case (Cons e es)
  then have "lp_string_bytes (n + length (pe_path e)) es = Ok m"
    by (auto simp: res_simps checked_add_usize_def split: if_splits)
  from Cons.IH [OF this] show ?case by simp
qed simp

lemma lp_string_bytes_Ok:
  "n + length (lp_strings es) \<le> usize_max \<Longrightarrow> lp_string_bytes n es = Ok (n + length (lp_strings es))"
  by (induction es arbitrary: n) (simp_all add: checked_add_usize_def)

lemma launch_policy_ok_size: "launch_policy_ok minor boot es \<Longrightarrow> length (lp_strings es) \<le> 8192"
  using length_lp_strings [of minor es] by (simp add: launch_policy_ok_def)

lemma lp_sizes: "LP_HEADER_BYTES = 64" "k * LP_RECORD_BYTES = 64 * k"
  by (simp_all add: lp_consts)

text \<open>The encoder once the size of its output is known to fit.\<close>

lemma lp_encode_fitting:
  assumes "minor \<in> {0, 1, 2}" "length boot = 32" "list_all (\<lambda>e. length (pe_content_sha256 e) = 32) es"
    and "boot \<noteq> replicate 32 0" "es \<noteq> []" "length es \<le> 32"
    and "lp_string_bytes 0 es = Ok (length (lp_strings es))"
    and n: "n = 64 + 64 * length es + length (lp_strings es)" "n \<le> usize_max" "n \<le> length out"
  shows "\<exists>err. lp_encode_version minor boot es out =
    (if launch_policy_ok minor boot es then Ok (n, policy_bytes minor boot es @ drop n out) else Err err)"
proof -
  let ?h = "lp_header_bytes minor boot (length es) (length (lp_strings es))"
  let ?zeroed = "?h @ replicate (64 * length es) 0 @ [] @ replicate (length (lp_strings es)) 0 @ drop n out"
  have ok: "launch_policy_ok minor boot es \<longleftrightarrow> list_all (lp_good minor) es \<and> ascending None es"
    using assms by (cases es) (auto simp: launch_policy_ok_def)
  have c: "checked_add_usize 64 (64 * length es) = Some (64 + 64 * length es)"
    "checked_add_usize (64 + 64 * length es) (length (lp_strings es)) = Some n"
    using n by (simp_all add: checked_add_usize_def)
  note w = lp_write_header_zeroed [OF assms(2) n(1,3), of minor]
  have e: "lp_encode_version minor boot es out =
      rbind (lp_encode_loop minor (64 + 64 * length es) 0 0 None es ?zeroed) (\<lambda>out2.
      rbind (lp_parse (take n out2)) (\<lambda>_. Ok (n, out2)))"
    using assms(4-7) n(3) by (simp add: lp_encode_version_def lp_sizes LP_MAX_ENTRIES_def c w)
  have "length ?h = 64 + 64 * 0" "64 + 64 * length es = length ?h + 64 * length es" "0 = length ([] :: byte list)"
    using assms(2) by (simp_all add: length_lp_header_bytes)
  from lp_encode_loop_result [OF this assms(3), of minor None "drop n out"] obtain err
    where l: "lp_encode_loop minor (64 + 64 * length es) 0 0 None es ?zeroed =
      (if launch_policy_ok minor boot es then Ok (policy_bytes minor boot es @ drop n out) else Err err)"
    unfolding ok policy_bytes_def append_assoc append_Nil by blast
  show ?thesis
  proof (cases "launch_policy_ok minor boot es")
    case True
    then have "lp_parse (policy_bytes minor boot es) = Ok (policy_view minor boot es)"
      by (auto simp: lp_parse_iff)
    moreover have "take n (policy_bytes minor boot es @ drop n out) = policy_bytes minor boot es"
      using length_policy_bytes [OF True] n(1) by simp
    ultimately show ?thesis unfolding e l using True by simp
  next
    case False
    then show ?thesis unfolding e l by simp
  qed
qed

lemma lp_encode_result:
  assumes "minor \<in> {0, 1, 2}" "length boot = 32" "list_all (\<lambda>e. length (pe_content_sha256 e) = 32) es"
  defines "n \<equiv> 64 + 64 * length es + length (lp_strings es)"
  shows "\<exists>err. lp_encode_version minor boot es out =
    (if launch_policy_ok minor boot es \<and> n \<le> length out
     then Ok (n, policy_bytes minor boot es @ drop n out) else Err err)"
proof (cases "boot = replicate 32 0 \<or> es = [] \<or> 32 < length es")
  case True
  then have "\<not> launch_policy_ok minor boot es" by (auto simp: launch_policy_ok_def)
  with True show ?thesis by (auto simp: lp_encode_version_def lp_consts)
next
  case False
  show ?thesis
  proof (cases "n \<le> usize_max \<and> n \<le> length out")
    case True
    then have "lp_string_bytes 0 es = Ok (length (lp_strings es))"
      using lp_string_bytes_Ok [of 0 es] by (simp add: n_def)
    from lp_encode_fitting [OF assms(1-3) _ _ _ this, of n out] False True show ?thesis
      by (simp add: n_def)
  next
    case big: False
    have no: "\<not> (launch_policy_ok minor boot es \<and> n \<le> length out)"
      using big launch_policy_ok_size [of minor boot es] False by (auto simp: n_def usize_max_def)
    have "\<exists>err. lp_encode_version minor boot es out = Err err"
    proof (cases "lp_string_bytes 0 es")
      case (Ok m)
      have "\<not> n \<le> usize_max \<or> length out < n" using big by auto
      with lp_string_bytes_OkD [OF Ok] False Ok show ?thesis
        by (auto simp add: lp_encode_version_def lp_sizes LP_MAX_ENTRIES_def n_def checked_add_usize_def)
    qed (use False in \<open>simp_all add: lp_encode_version_def lp_consts lp_string_bytes_no_panic\<close>)
    with no show ?thesis by auto
  qed
qed

text \<open>C10. Encoding a launch policy succeeds exactly when the entries, the boot digest and the
  minor version obey the rules and the buffer is large enough, and it never panics: the parse that
  ends the encoder never refuses what was written. A successful encoding leaves the rest of the
  buffer alone, and its bytes parse to a policy with the same minor version and boot digest, with
  exactly the entries that were encoded, each of them found under its path. The hypotheses are the
  types of the source: digests of 32 bytes, and the minor versions of the three public encoders.\<close>

theorem launch_policy_round_trip:
  assumes "minor \<in> {VERSION_MINOR_HISTORICAL, VERSION_MINOR_WYRMSH, VERSION_MINOR_RECOVERY_TRIGGER}"
    and "length boot = 32" and "list_all (\<lambda>e. length (pe_content_sha256 e) = 32) es"
  shows "case lp_encode_version minor boot es out of
      Panic \<Rightarrow> False
    | Err _ \<Rightarrow> \<not> launch_policy_ok minor boot es \<or> length out < 64 + 64 * length es + length (lp_strings es)
    | Ok (n, out') \<Rightarrow> launch_policy_ok minor boot es \<and> n \<le> length out \<and>
        length out' = length out \<and> drop n out' = drop n out \<and>
        (\<exists>p. lp_parse (take n out') = Ok p \<and> lp_minor p = minor \<and> lp_boot_generation_sha256 p = boot \<and>
           lp_count p = length es \<and> (\<forall>i < length es. lp_entry p i = Some (Ok (es ! i))) \<and>
           (\<forall>path e. (lp_find p path = Some e) = (e \<in> set es \<and> pe_path e = path)))"
proof -
  let ?n = "64 + 64 * length es + length (lp_strings es)"
  have "minor \<in> {0, 1, 2}" using assms(1) minor_versions by blast
  from lp_encode_result [OF this assms(2,3), of out] obtain err
    where r: "lp_encode_version minor boot es out =
      (if launch_policy_ok minor boot es \<and> ?n \<le> length out
       then Ok (?n, policy_bytes minor boot es @ drop ?n out) else Err err)" by blast
  show ?thesis
  proof (cases "launch_policy_ok minor boot es \<and> ?n \<le> length out")
    case True
    then have ok: "launch_policy_ok minor boot es" by simp
    then have "lp_parse (policy_bytes minor boot es) = Ok (policy_view minor boot es)"
      by (auto simp: lp_parse_iff)
    then show ?thesis using True length_policy_bytes [OF ok]
      by (simp add: r policy_view_find [OF ok] policy_view_entry [OF ok] lp_entry_def)
  qed (auto simp: r)
qed

definition hello_entry :: policy_entry where
  "hello_entry = \<lparr>pe_path = bytes_of ''bin/hello'', pe_content_sha256 = replicate 32 34, pe_startup_abi = 2,
     pe_profile_id = 1, pe_allow_no_streams = True, pe_allow_three_streams = True\<rparr>"

lemma hello_policy_ok: "launch_policy_ok 0 (replicate 32 17) [hello_entry]"
  by code_simp

theorem launch_policy_round_trip_witness:
  "(\<exists>n out' p. lp_encode (replicate 32 17) [hello_entry] (replicate 200 0) = Ok (n, out') \<and>
     lp_parse (take n out') = Ok p \<and> lp_find p (bytes_of ''bin/hello'') = Some hello_entry) \<and>
   launch_policy_ok 0 (replicate 32 17) [hello_entry]"
proof -
  have len: "length (lp_strings [hello_entry]) = 9"
    by (simp add: hello_entry_def bytes_of_def)
  have h: "(0 :: u16) \<in> {VERSION_MINOR_HISTORICAL, VERSION_MINOR_WYRMSH, VERSION_MINOR_RECOVERY_TRIGGER}"
    "length (replicate 32 17 :: byte list) = 32"
    "list_all (\<lambda>e. length (pe_content_sha256 e) = 32) [hello_entry]"
    by (simp_all add: hello_entry_def VERSION_MINOR_HISTORICAL_def)
  note t = launch_policy_round_trip [OF h, of "replicate 200 0"]
  have p: "pe_path hello_entry = bytes_of ''bin/hello''" by (simp add: hello_entry_def)
  show ?thesis
  proof (cases "lp_encode_version 0 (replicate 32 17) [hello_entry] (replicate 200 0)")
    case (Ok x)
    with t p hello_policy_ok show ?thesis
      by (cases x) (auto simp: lp_encode_def VERSION_MINOR_HISTORICAL_def)
  qed (use t hello_policy_ok len in simp_all)
qed

end
