(* ===== verification/LaunchProto.thy ===== *)
theory LaunchProto
  imports Bytes BootfsPath
begin

text \<open>
  The launch protocol between a parent and the child it starts
  (\<^verbatim>\<open>src/crates/wyrmroot-loader/src/launch.rs\<close>, WRLP): the launch profiles with the capabilities
  each of them grants, the INIT messages that announce the capabilities and carry correlation
  numbers, and the READY message with which the child answers. The object types and rights are
  numbers of the kernel interface and a parameter of the model.
\<close>

unbundle bit_operations_syntax

subsection \<open>The kernel interface\<close>

text \<open>The constants of the kernel that the protocol names.\<close>

record kernel_abi =
  OBJECT_TYPE_ADDRESS_REGION :: u32
  OBJECT_TYPE_CHANNEL :: u32
  OBJECT_TYPE_MEMORY_OBJECT :: u32
  OBJECT_TYPE_TASK_GROUP :: u32
  RIGHT_DUPLICATE :: u64
  RIGHT_INSPECT :: u64
  RIGHT_MAP :: u64
  RIGHT_MODIFY :: u64
  RIGHT_READ :: u64
  RIGHT_RESOURCE :: u64
  RIGHT_TRANSFER :: u64
  RIGHT_WAIT :: u64
  RIGHT_WRITE :: u64

text \<open>The description of a received handle.\<close>

record handle_info =
  rh_handle :: u64
  rh_object_type :: u32
  rh_rights :: u64
  rh_reserved0 :: u32
  rh_reserved :: "u64 list"

definition SELF_ROOT_RIGHTS :: "kernel_abi \<Rightarrow> u64" where
  "SELF_ROOT_RIGHTS k = RIGHT_MAP k OR RIGHT_MODIFY k OR RIGHT_INSPECT k"

definition BOOTFS_RIGHTS :: "kernel_abi \<Rightarrow> u64" where
  "BOOTFS_RIGHTS k = RIGHT_READ k OR RIGHT_MAP k OR RIGHT_INSPECT k OR RIGHT_DUPLICATE k OR RIGHT_TRANSFER k"

definition LOADER_TASK_GROUP_RIGHTS :: "kernel_abi \<Rightarrow> u64" where
  "LOADER_TASK_GROUP_RIGHTS k = RIGHT_MODIFY k OR RIGHT_INSPECT k OR RIGHT_DUPLICATE k OR RIGHT_TRANSFER k"

definition CHILD_CHANNEL_RIGHTS :: "kernel_abi \<Rightarrow> u64" where
  "CHILD_CHANNEL_RIGHTS k = RIGHT_READ k OR RIGHT_WRITE k OR RIGHT_WAIT k OR RIGHT_INSPECT k"

definition DEVICE_MANIFEST_RIGHTS :: "kernel_abi \<Rightarrow> u64" where
  "DEVICE_MANIFEST_RIGHTS k = RIGHT_READ k OR RIGHT_MAP k OR RIGHT_INSPECT k"

definition RESOURCE_DOMAIN_CLAIM_RIGHTS :: "kernel_abi \<Rightarrow> u64" where
  "RESOURCE_DOMAIN_CLAIM_RIGHTS k = RIGHT_RESOURCE k OR RIGHT_INSPECT k"

definition RESOURCE_DOMAIN_CUSTODY_RIGHTS :: "kernel_abi \<Rightarrow> u64" where
  "RESOURCE_DOMAIN_CUSTODY_RIGHTS k =
     RIGHT_MODIFY k OR RIGHT_DUPLICATE k OR RIGHT_TRANSFER k OR RIGHT_INSPECT k OR RIGHT_RESOURCE k"

subsection \<open>Constants\<close>

definition WRLP_HEADER_BYTES :: nat where "WRLP_HEADER_BYTES = 40"
definition DEVICE_COORDINATOR_BYTES :: nat where "DEVICE_COORDINATOR_BYTES = 72"
definition DEVICE_COORDINATOR_RESOURCE_BYTES :: nat where "DEVICE_COORDINATOR_RESOURCE_BYTES = 80"
definition DEVICE_DRIVER_BYTES :: nat where "DEVICE_DRIVER_BYTES = 104"
definition CONSOLED_BYTES :: nat where "CONSOLED_BYTES = 128"
definition WYRMSH_BYTES :: nat where "WYRMSH_BYTES = 160"

definition WRLP_MAGIC :: "byte list" where "WRLP_MAGIC = bytes_of ''WRLP''"
definition WRLP_MAJOR :: u16 where "WRLP_MAJOR = 1"
definition TYPE_INIT :: u32 where "TYPE_INIT = 1"
definition TYPE_READY :: u32 where "TYPE_READY = 2"
definition ROLE_SELF_ROOT :: u32 where "ROLE_SELF_ROOT = 1"
definition ROLE_BOOTFS :: u32 where "ROLE_BOOTFS = 2"
definition ROLE_LOADER_TASK_GROUP :: u32 where "ROLE_LOADER_TASK_GROUP = 3"
definition ROLE_SUPERVISOR_CONTROL :: u32 where "ROLE_SUPERVISOR_CONTROL = 4"
definition ROLE_PUBLICATION_AUTHORITY :: u32 where "ROLE_PUBLICATION_AUTHORITY = 5"
definition ROLE_REGISTRY_CLIENT :: u32 where "ROLE_REGISTRY_CLIENT = 6"
definition ROLE_LAUNCH_SESSION :: u32 where "ROLE_LAUNCH_SESSION = 7"
definition ROLE_STDIN :: u32 where "ROLE_STDIN = 8"
definition ROLE_STDOUT :: u32 where "ROLE_STDOUT = 9"
definition ROLE_STDERR :: u32 where "ROLE_STDERR = 10"
definition ROLE_DW1B_PROGRESS_DATA :: u32 where "ROLE_DW1B_PROGRESS_DATA = 11"
definition ROLE_DEVICE_MANIFEST :: u32 where "ROLE_DEVICE_MANIFEST = 12"
definition ROLE_DEVICE_CONTROL :: u32 where "ROLE_DEVICE_CONTROL = 13"
definition ROLE_RESOURCE_DOMAIN :: u32 where "ROLE_RESOURCE_DOMAIN = 14"
definition ROLE_D6_RESOURCE_DOMAIN :: u32 where "ROLE_D6_RESOURCE_DOMAIN = 15"
definition ROLE_CONSOLE_STATUS :: u32 where "ROLE_CONSOLE_STATUS = 16"

subsection \<open>Profiles\<close>

datatype launch_profile =
    Init0 | I2Stress | CapabilityController | ProbeChild | Supervisor | SupervisorResourceDomain
  | EarlyBootStub | BootstrapRegistry | BootstrapService | RegistryClient | LaunchClient | Consoled
  | Wyrmsh | JobV2 | JobV2Streams | Dw1bProgress | DeviceCoordinator
  | DeviceCoordinatorResourceDomain | DeviceDriver | D6ResourceOwner | Hello

fun capability_count :: "launch_profile \<Rightarrow> nat" where
  "capability_count Init0 = 3"
| "capability_count I2Stress = 3"
| "capability_count CapabilityController = 3"
| "capability_count Supervisor = 3"
| "capability_count SupervisorResourceDomain = 4"
| "capability_count D6ResourceOwner = 1"
| "capability_count ProbeChild = 1"
| "capability_count Dw1bProgress = 1"
| "capability_count BootstrapRegistry = 2"
| "capability_count BootstrapService = 2"
| "capability_count RegistryClient = 2"
| "capability_count LaunchClient = 2"
| "capability_count Consoled = 3"
| "capability_count Wyrmsh = 6"
| "capability_count JobV2Streams = 3"
| "capability_count DeviceCoordinator = 3"
| "capability_count DeviceCoordinatorResourceDomain = 4"
| "capability_count DeviceDriver = 2"
| "capability_count Hello = 0"
| "capability_count EarlyBootStub = 0"
| "capability_count JobV2 = 0"

fun protocol_minor :: "launch_profile \<Rightarrow> u16" where
  "protocol_minor ProbeChild = 1"
| "protocol_minor Supervisor = 2"
| "protocol_minor EarlyBootStub = 2"
| "protocol_minor SupervisorResourceDomain = 7"
| "protocol_minor D6ResourceOwner = 8"
| "protocol_minor BootstrapRegistry = 3"
| "protocol_minor BootstrapService = 3"
| "protocol_minor RegistryClient = 3"
| "protocol_minor LaunchClient = 3"
| "protocol_minor JobV2 = 3"
| "protocol_minor JobV2Streams = 3"
| "protocol_minor Dw1bProgress = 4"
| "protocol_minor DeviceCoordinator = 5"
| "protocol_minor DeviceCoordinatorResourceDomain = 9"
| "protocol_minor Consoled = 10"
| "protocol_minor Wyrmsh = 11"
| "protocol_minor DeviceDriver = 6"
| "protocol_minor Init0 = 0"
| "protocol_minor I2Stress = 0"
| "protocol_minor CapabilityController = 0"
| "protocol_minor Hello = 0"

definition init_size :: "launch_profile \<Rightarrow> nat" where
  "init_size p =
     (if p = Wyrmsh then WYRMSH_BYTES
      else if p = Consoled then CONSOLED_BYTES
      else if p = DeviceCoordinator then DEVICE_COORDINATOR_BYTES
      else if p = DeviceCoordinatorResourceDomain then DEVICE_COORDINATOR_RESOURCE_BYTES
      else if p = DeviceDriver then DEVICE_DRIVER_BYTES
      else WRLP_HEADER_BYTES + capability_count p * 8)"

definition has_loader_authority_trio :: "launch_profile \<Rightarrow> bool" where
  "has_loader_authority_trio p \<longleftrightarrow> p \<in> {Init0, I2Stress, CapabilityController, Supervisor}"

definition has_loader_authority_quartet :: "launch_profile \<Rightarrow> bool" where
  "has_loader_authority_quartet p \<longleftrightarrow> p = SupervisorResourceDomain"

definition needs_self_root :: "launch_profile \<Rightarrow> bool" where
  "needs_self_root p \<longleftrightarrow> has_loader_authority_trio p \<or> has_loader_authority_quartet p \<or>
     p \<in> {ProbeChild, BootstrapRegistry, BootstrapService, RegistryClient, LaunchClient,
       DeviceCoordinator, DeviceCoordinatorResourceDomain, DeviceDriver, Consoled}"

fun channel_role :: "launch_profile \<Rightarrow> u32 option" where
  "channel_role BootstrapRegistry = Some ROLE_SUPERVISOR_CONTROL"
| "channel_role BootstrapService = Some ROLE_PUBLICATION_AUTHORITY"
| "channel_role RegistryClient = Some ROLE_REGISTRY_CLIENT"
| "channel_role LaunchClient = Some ROLE_LAUNCH_SESSION"
| "channel_role Dw1bProgress = Some ROLE_DW1B_PROGRESS_DATA"
| "channel_role DeviceDriver = Some ROLE_DEVICE_CONTROL"
| "channel_role _ = None"

datatype launch_error =
    LE_BufferSize | LE_BadMagic | LE_BadVersion | LE_BadType | LE_NonzeroFlags | LE_BadTotalSize
  | LE_BadCapabilityCount | LE_ZeroTransaction | LE_TransactionMismatch | LE_NonzeroReserved
  | LE_BadCapabilityRole nat | LE_HandleCount | LE_HandleMetadata nat
  | LE_ProfileSpecificEncoderRequired

type_synonym 'a le_res = "(launch_error, 'a) res"
type_synonym 'a le_action = "(byte list, launch_error, 'a) action"

record device_coordinator_init =
  dc_transaction_id :: u64
  dc_supervisor_generation :: u64

record device_driver_init =
  dd_transaction_id :: u64
  dd_supervisor_generation :: u64
  dd_role_id :: u64
  dd_attempt_generation :: u64
  dd_launch_session :: u64
  dd_endpoint_id :: u64
  dd_endpoint_generation :: u64

record consoled_init =
  ci_transaction_id :: u64
  ci_registry_generation :: u64
  ci_registry_endpoint_id :: u64
  ci_registry_endpoint_generation :: u64
  ci_launch_connection_id :: u64
  ci_launch_connection_generation :: u64

record wyrmsh_init =
  wi_transaction_id :: u64
  wi_registry_generation :: u64
  wi_registry_endpoint_id :: u64
  wi_registry_endpoint_generation :: u64
  wi_launch_connection_id :: u64
  wi_launch_connection_generation :: u64
  wi_console_generation :: u64
  wi_status_generation :: u64
  wi_child_generation :: u64
  wi_outer_launch_transaction :: u64

subsection \<open>Writing\<close>

definition write_header ::
  "u16 \<Rightarrow> u32 \<Rightarrow> u32 \<Rightarrow> u32 \<Rightarrow> u64 \<Rightarrow> unit le_action" where
  "write_header minor message_type total_size capabilities transaction_id =
     abind (write_r 0 WRLP_MAGIC) (\<lambda>_.
     abind (write_r 4 (to_le 2 WRLP_MAJOR)) (\<lambda>_.
     abind (write_r 6 (to_le 2 minor)) (\<lambda>_.
     abind (write_r 8 (to_le 4 message_type)) (\<lambda>_.
     abind (write_r 16 (to_le 4 total_size)) (\<lambda>_.
     abind (write_r 20 (to_le 4 capabilities)) (\<lambda>_.
     write_r 24 (to_le 8 transaction_id)))))))"

text \<open>\<^verbatim>\<open>for (index, role) in [..].into_iter().enumerate()\<close>.\<close>

fun put_roles :: "nat \<Rightarrow> u32 list \<Rightarrow> unit le_action" where
  "put_roles index [] = aret ()"
| "put_roles index (role # roles) =
     abind (write_r (WRLP_HEADER_BYTES + index * 8) (to_le 4 role)) (\<lambda>_. put_roles (index + 1) roles)"

definition put_init_roles :: "launch_profile \<Rightarrow> unit le_action" where
  "put_init_roles p =
     (if has_loader_authority_trio p \<or> has_loader_authority_quartet p then
        abind (put_roles 0 [ROLE_SELF_ROOT, ROLE_BOOTFS, ROLE_LOADER_TASK_GROUP]) (\<lambda>_.
        if has_loader_authority_quartet p then put_roles 3 [ROLE_RESOURCE_DOMAIN] else aret ())
      else if p = Consoled then
        put_roles 0 [ROLE_SELF_ROOT, ROLE_REGISTRY_CLIENT, ROLE_LAUNCH_SESSION]
      else if p = Wyrmsh then
        put_roles 0 [ROLE_STDIN, ROLE_STDOUT, ROLE_STDERR, ROLE_CONSOLE_STATUS, ROLE_REGISTRY_CLIENT,
          ROLE_LAUNCH_SESSION]
      else if p = D6ResourceOwner then put_roles 0 [ROLE_D6_RESOURCE_DOMAIN]
      else if p = DeviceCoordinator \<or> p = DeviceCoordinatorResourceDomain then
        abind (put_roles 0 [ROLE_SELF_ROOT, ROLE_PUBLICATION_AUTHORITY, ROLE_DEVICE_MANIFEST]) (\<lambda>_.
        if p = DeviceCoordinatorResourceDomain then put_roles 3 [ROLE_RESOURCE_DOMAIN] else aret ())
      else if p = DeviceDriver then put_roles 0 [ROLE_SELF_ROOT, ROLE_DEVICE_CONTROL]
      else if p = Dw1bProgress then put_roles 0 [ROLE_DW1B_PROGRESS_DATA]
      else if needs_self_root p then
        abind (put_roles 0 [ROLE_SELF_ROOT]) (\<lambda>_.
        case channel_role p of Some role \<Rightarrow> put_roles 1 [role] | None \<Rightarrow> aret ())
      else if p = JobV2Streams then put_roles 0 [ROLE_STDIN, ROLE_STDOUT, ROLE_STDERR]
      else aret ())"

definition encode_init_inner :: "launch_profile \<Rightarrow> u64 \<Rightarrow> nat le_action" where
  "encode_init_inner p transaction_id output =
     (let size = init_size p in
      if length output < size then (Err LE_BufferSize, output)
      else if transaction_id = 0 then (Err LE_ZeroTransaction, output)
      else
        abind (fill_zero_r size) (\<lambda>_.
        abind (write_header (protocol_minor p) TYPE_INIT (word_of_nat size)
          (word_of_nat (capability_count p)) transaction_id) (\<lambda>_.
        abind (put_init_roles p) (\<lambda>_.
        aret size))) output)"

definition encode_init :: "launch_profile \<Rightarrow> u64 \<Rightarrow> nat le_action" where
  "encode_init p transaction_id =
     (if p \<in> {DeviceCoordinator, DeviceCoordinatorResourceDomain, DeviceDriver, Consoled, Wyrmsh}
      then afail LE_ProfileSpecificEncoderRequired
      else encode_init_inner p transaction_id)"

definition encode_device_coordinator_init :: "u64 \<Rightarrow> u64 \<Rightarrow> nat le_action" where
  "encode_device_coordinator_init transaction_id supervisor_generation =
     (if supervisor_generation = 0 then afail LE_ZeroTransaction
      else
        abind (encode_init_inner DeviceCoordinator transaction_id) (\<lambda>size.
        abind (write_r 64 (to_le 8 supervisor_generation)) (\<lambda>_.
        aret size)))"

definition encode_device_coordinator_resource_init :: "u64 \<Rightarrow> u64 \<Rightarrow> nat le_action" where
  "encode_device_coordinator_resource_init transaction_id supervisor_generation =
     (if supervisor_generation = 0 then afail LE_ZeroTransaction
      else
        abind (encode_init_inner DeviceCoordinatorResourceDomain transaction_id) (\<lambda>size.
        abind (write_r 72 (to_le 8 supervisor_generation)) (\<lambda>_.
        aret size)))"

text \<open>Correlation numbers, eight bytes apart.\<close>

fun put_words :: "nat \<Rightarrow> u64 list \<Rightarrow> unit le_action" where
  "put_words off [] = aret ()"
| "put_words off (v # vs) = abind (write_r off (to_le 8 v)) (\<lambda>_. put_words (off + 8) vs)"

definition encode_device_driver_init :: "device_driver_init \<Rightarrow> nat le_action" where
  "encode_device_driver_init v =
     (if dd_supervisor_generation v = 0 \<or> dd_role_id v = 0 \<or> dd_attempt_generation v = 0 \<or>
         dd_launch_session v = 0 \<or> dd_endpoint_id v = 0 \<or> dd_endpoint_generation v = 0
      then afail LE_ZeroTransaction
      else
        abind (encode_init_inner DeviceDriver (dd_transaction_id v)) (\<lambda>size.
        abind (put_words 56 [dd_supervisor_generation v, dd_role_id v, dd_attempt_generation v,
          dd_launch_session v, dd_endpoint_id v, dd_endpoint_generation v]) (\<lambda>_.
        aret size)))"

definition encode_consoled_init :: "consoled_init \<Rightarrow> nat le_action" where
  "encode_consoled_init v =
     (let fields = [ci_registry_generation v, ci_registry_endpoint_id v, ci_registry_endpoint_generation v,
        ci_launch_connection_id v, ci_launch_connection_generation v] in
      if 0 \<in> set fields then afail LE_ZeroTransaction
      else
        abind (encode_init_inner Consoled (ci_transaction_id v)) (\<lambda>size.
        abind (put_words 88 fields) (\<lambda>_.
        aret size)))"

definition encode_wyrmsh_init :: "wyrmsh_init \<Rightarrow> nat le_action" where
  "encode_wyrmsh_init v =
     (let correlations = [wi_registry_generation v, wi_registry_endpoint_id v,
        wi_registry_endpoint_generation v, wi_launch_connection_id v, wi_launch_connection_generation v,
        wi_console_generation v, wi_status_generation v, wi_child_generation v,
        wi_outer_launch_transaction v] in
      if 0 \<in> set correlations then afail LE_ZeroTransaction
      else
        abind (encode_init_inner Wyrmsh (wi_transaction_id v)) (\<lambda>size.
        abind (put_words 88 correlations) (\<lambda>_.
        aret size)))"

definition encode_ready_for_profile :: "launch_profile \<Rightarrow> u64 \<Rightarrow> nat le_action" where
  "encode_ready_for_profile p transaction_id output =
     (if length output < WRLP_HEADER_BYTES then (Err LE_BufferSize, output)
      else if transaction_id = 0 then (Err LE_ZeroTransaction, output)
      else
        abind (fill_zero_r WRLP_HEADER_BYTES) (\<lambda>_.
        abind (write_header (protocol_minor p) TYPE_READY (word_of_nat WRLP_HEADER_BYTES) 0 transaction_id) (\<lambda>_.
        aret WRLP_HEADER_BYTES)) output)"

definition encode_ready :: "u64 \<Rightarrow> nat le_action" where
  "encode_ready = encode_ready_for_profile Hello"

subsection \<open>Reading\<close>

definition wrlp_parse_header ::
  "byte list \<Rightarrow> u32 \<Rightarrow> u16 \<Rightarrow> nat \<Rightarrow> nat \<Rightarrow> u64 le_res" where
  "wrlp_parse_header bytes message_type expected_minor expected_size expected_capabilities =
     (if length bytes \<noteq> expected_size then Err LE_BufferSize
      else
        rbind (region_r 0 4 bytes) (\<lambda>magic.
        if magic \<noteq> WRLP_MAGIC then Err LE_BadMagic
        else
          rbind (read_int_r 2 4 bytes) (\<lambda>major :: u16.
          rbind (read_int_r 2 6 bytes) (\<lambda>minor :: u16.
          if major \<noteq> WRLP_MAJOR \<or> minor \<noteq> expected_minor then Err LE_BadVersion
          else
            rbind (read_int_r 4 8 bytes) (\<lambda>kind :: u32.
            if kind \<noteq> message_type then Err LE_BadType
            else
              rbind (read_int_r 4 12 bytes) (\<lambda>flags :: u32.
              if flags \<noteq> 0 then Err LE_NonzeroFlags
              else
                rbind (read_int_r 4 16 bytes) (\<lambda>total_size :: u32.
                if unat total_size \<noteq> expected_size then Err LE_BadTotalSize
                else
                  rbind (read_int_r 4 20 bytes) (\<lambda>capabilities :: u32.
                  if unat capabilities \<noteq> expected_capabilities then Err LE_BadCapabilityCount
                  else
                    rbind (read_int_r 8 24 bytes) (\<lambda>transaction_id :: u64.
                    if transaction_id = 0 then Err LE_ZeroTransaction
                    else
                      rbind (read_int_r 8 32 bytes) (\<lambda>reserved :: u64.
                      if reserved \<noteq> 0 then Err LE_NonzeroReserved
                      else Ok transaction_id))))))))))"

definition validate_handle :: "handle_info \<Rightarrow> u32 \<Rightarrow> u64 \<Rightarrow> nat \<Rightarrow> unit le_res" where
  "validate_handle h object_type rights index =
     (if rh_handle h = 0 \<or> rh_object_type h \<noteq> object_type \<or> rh_rights h \<noteq> rights \<or>
         rh_reserved0 h \<noteq> 0 \<or> rh_reserved h \<noteq> [0, 0]
      then Err (LE_HandleMetadata index) else Ok ())"

text \<open>The loop over the expected capabilities.\<close>

fun check_roles ::
  "byte list \<Rightarrow> handle_info list \<Rightarrow> nat \<Rightarrow> (u32 \<times> u32 \<times> u64) list \<Rightarrow> unit le_res" where
  "check_roles bytes handles index [] = Ok ()"
| "check_roles bytes handles index ((role, object_type, rights) # expected) =
     rbind (read_int_r 4 (WRLP_HEADER_BYTES + index * 8) bytes) (\<lambda>r :: u32.
     rbind (read_int_r 4 (WRLP_HEADER_BYTES + index * 8 + 4) bytes) (\<lambda>z :: u32.
     if r \<noteq> role \<or> z \<noteq> 0 then Err (LE_BadCapabilityRole index)
     else
       rbind (index_r handles index) (\<lambda>h.
       rbind (validate_handle h object_type rights index) (\<lambda>_.
       check_roles bytes handles (index + 1) expected))))"

definition self_root :: "kernel_abi \<Rightarrow> u32 \<times> u32 \<times> u64" where
  "self_root k = (ROLE_SELF_ROOT, OBJECT_TYPE_ADDRESS_REGION k, SELF_ROOT_RIGHTS k)"

definition child_channel :: "kernel_abi \<Rightarrow> u32 \<Rightarrow> u32 \<times> u32 \<times> u64" where
  "child_channel k role = (role, OBJECT_TYPE_CHANNEL k, CHILD_CHANNEL_RIGHTS k)"

fun read_words :: "byte list \<Rightarrow> nat \<Rightarrow> nat \<Rightarrow> u64 list le_res" where
  "read_words bytes off 0 = Ok []"
| "read_words bytes off (Suc n) =
     rbind (read_int_r 8 off bytes) (\<lambda>v. rbind (read_words bytes (off + 8) n) (\<lambda>vs. Ok (v # vs)))"

definition check_init_roles ::
  "kernel_abi \<Rightarrow> launch_profile \<Rightarrow> byte list \<Rightarrow> handle_info list \<Rightarrow> unit le_res" where
  "check_init_roles k p bytes handles =
     (if has_loader_authority_trio p \<or> has_loader_authority_quartet p then
        rbind (check_roles bytes handles 0
          [self_root k, (ROLE_BOOTFS, OBJECT_TYPE_MEMORY_OBJECT k, BOOTFS_RIGHTS k),
           (ROLE_LOADER_TASK_GROUP, OBJECT_TYPE_TASK_GROUP k, LOADER_TASK_GROUP_RIGHTS k)]) (\<lambda>_.
        if has_loader_authority_quartet p then
          check_roles bytes handles 3
            [(ROLE_RESOURCE_DOMAIN, OBJECT_TYPE_TASK_GROUP k, RESOURCE_DOMAIN_CUSTODY_RIGHTS k)]
        else Ok ())
      else if p = Consoled then
        check_roles bytes handles 0
          [self_root k, child_channel k ROLE_REGISTRY_CLIENT, child_channel k ROLE_LAUNCH_SESSION]
      else if p = Wyrmsh then
        rbind (check_roles bytes handles 0
          (map (child_channel k) [ROLE_STDIN, ROLE_STDOUT, ROLE_STDERR, ROLE_CONSOLE_STATUS,
             ROLE_REGISTRY_CLIENT, ROLE_LAUNCH_SESSION])) (\<lambda>_.
        rbind (read_words bytes 88 9) (\<lambda>correlations.
        if 0 \<in> set correlations then Err LE_ZeroTransaction else Ok ()))
      else if p = D6ResourceOwner then
        check_roles bytes handles 0
          [(ROLE_D6_RESOURCE_DOMAIN, OBJECT_TYPE_TASK_GROUP k, RESOURCE_DOMAIN_CLAIM_RIGHTS k)]
      else if p = DeviceCoordinator \<or> p = DeviceCoordinatorResourceDomain then
        rbind (check_roles bytes handles 0
          [self_root k, child_channel k ROLE_PUBLICATION_AUTHORITY,
           (ROLE_DEVICE_MANIFEST, OBJECT_TYPE_MEMORY_OBJECT k, DEVICE_MANIFEST_RIGHTS k)]) (\<lambda>_.
        if p = DeviceCoordinatorResourceDomain then
          check_roles bytes handles 3
            [(ROLE_RESOURCE_DOMAIN, OBJECT_TYPE_TASK_GROUP k, RESOURCE_DOMAIN_CLAIM_RIGHTS k)]
        else Ok ())
      else if p = DeviceDriver then
        check_roles bytes handles 0 [self_root k, child_channel k ROLE_DEVICE_CONTROL]
      else if p = Dw1bProgress then
        check_roles bytes handles 0 [child_channel k ROLE_DW1B_PROGRESS_DATA]
      else if needs_self_root p then
        rbind (check_roles bytes handles 0 [self_root k]) (\<lambda>_.
        case channel_role p of
          Some role \<Rightarrow> check_roles bytes handles 1 [child_channel k role]
        | None \<Rightarrow> Ok ())
      else if p = JobV2Streams then
        check_roles bytes handles 0 (map (child_channel k) [ROLE_STDIN, ROLE_STDOUT, ROLE_STDERR])
      else Ok ())"

definition parse_init ::
  "kernel_abi \<Rightarrow> launch_profile \<Rightarrow> byte list \<Rightarrow> handle_info list \<Rightarrow> (u64 \<times> launch_profile) le_res" where
  "parse_init k p bytes handles =
     rbind (wrlp_parse_header bytes TYPE_INIT (protocol_minor p) (init_size p) (capability_count p))
       (\<lambda>transaction_id.
     if length handles \<noteq> capability_count p then Err LE_HandleCount
     else rbind (check_init_roles k p bytes handles) (\<lambda>_. Ok (transaction_id, p)))"

definition parse_device_coordinator_init ::
  "kernel_abi \<Rightarrow> byte list \<Rightarrow> handle_info list \<Rightarrow> device_coordinator_init le_res" where
  "parse_device_coordinator_init k bytes handles =
     rbind (parse_init k DeviceCoordinator bytes handles) (\<lambda>parsed.
     rbind (read_int_r 8 64 bytes) (\<lambda>supervisor_generation.
     if supervisor_generation = 0 then Err LE_ZeroTransaction
     else Ok \<lparr>dc_transaction_id = fst parsed, dc_supervisor_generation = supervisor_generation\<rparr>))"

definition parse_device_coordinator_resource_init ::
  "kernel_abi \<Rightarrow> byte list \<Rightarrow> handle_info list \<Rightarrow> device_coordinator_init le_res" where
  "parse_device_coordinator_resource_init k bytes handles =
     rbind (parse_init k DeviceCoordinatorResourceDomain bytes handles) (\<lambda>parsed.
     rbind (read_int_r 8 72 bytes) (\<lambda>supervisor_generation.
     if supervisor_generation = 0 then Err LE_ZeroTransaction
     else Ok \<lparr>dc_transaction_id = fst parsed, dc_supervisor_generation = supervisor_generation\<rparr>))"

definition parse_device_driver_init ::
  "kernel_abi \<Rightarrow> byte list \<Rightarrow> handle_info list \<Rightarrow> device_driver_init le_res" where
  "parse_device_driver_init k bytes handles =
     rbind (parse_init k DeviceDriver bytes handles) (\<lambda>parsed.
     rbind (read_words bytes 56 6) (\<lambda>fields.
     if 0 \<in> set fields then Err LE_ZeroTransaction
     else Ok \<lparr>dd_transaction_id = fst parsed, dd_supervisor_generation = fields ! 0, dd_role_id = fields ! 1,
       dd_attempt_generation = fields ! 2, dd_launch_session = fields ! 3, dd_endpoint_id = fields ! 4,
       dd_endpoint_generation = fields ! 5\<rparr>))"

definition parse_consoled_init ::
  "kernel_abi \<Rightarrow> byte list \<Rightarrow> handle_info list \<Rightarrow> consoled_init le_res" where
  "parse_consoled_init k bytes handles =
     rbind (parse_init k Consoled bytes handles) (\<lambda>parsed.
     rbind (read_words bytes 88 5) (\<lambda>fields.
     if 0 \<in> set fields then Err LE_ZeroTransaction
     else Ok \<lparr>ci_transaction_id = fst parsed, ci_registry_generation = fields ! 0,
       ci_registry_endpoint_id = fields ! 1, ci_registry_endpoint_generation = fields ! 2,
       ci_launch_connection_id = fields ! 3, ci_launch_connection_generation = fields ! 4\<rparr>))"

definition parse_wyrmsh_init ::
  "kernel_abi \<Rightarrow> byte list \<Rightarrow> handle_info list \<Rightarrow> wyrmsh_init le_res" where
  "parse_wyrmsh_init k bytes handles =
     rbind (parse_init k Wyrmsh bytes handles) (\<lambda>parsed.
     rbind (read_words bytes 88 9) (\<lambda>fields.
     Ok \<lparr>wi_transaction_id = fst parsed, wi_registry_generation = fields ! 0,
       wi_registry_endpoint_id = fields ! 1, wi_registry_endpoint_generation = fields ! 2,
       wi_launch_connection_id = fields ! 3, wi_launch_connection_generation = fields ! 4,
       wi_console_generation = fields ! 5, wi_status_generation = fields ! 6,
       wi_child_generation = fields ! 7, wi_outer_launch_transaction = fields ! 8\<rparr>))"

definition parse_ready_for_profile :: "launch_profile \<Rightarrow> byte list \<Rightarrow> u64 \<Rightarrow> unit le_res" where
  "parse_ready_for_profile p bytes expected_transaction =
     rbind (wrlp_parse_header bytes TYPE_READY (protocol_minor p) WRLP_HEADER_BYTES 0) (\<lambda>transaction_id.
     if transaction_id \<noteq> expected_transaction then Err LE_TransactionMismatch else Ok ())"

definition parse_ready :: "byte list \<Rightarrow> u64 \<Rightarrow> unit le_res" where
  "parse_ready = parse_ready_for_profile Hello"

end
