(* ===== verification/LaunchProtoProps.thy ===== *)
theory LaunchProtoProps
  imports LaunchProto ByteFields
begin

text \<open>
  What a launch profile grants, as a list of roles with object types and rights, and the exact
  bytes of the messages. An INIT message is accepted exactly when its bytes announce the grants of
  the profile and the received handles are these grants; a READY message is accepted exactly when
  it is the one message of the profile and transaction. The encoders write these bytes.
\<close>

lemmas wrlp_sizes = WRLP_HEADER_BYTES_def DEVICE_COORDINATOR_BYTES_def
  DEVICE_COORDINATOR_RESOURCE_BYTES_def DEVICE_DRIVER_BYTES_def CONSOLED_BYTES_def WYRMSH_BYTES_def

lemma wrlp_magic: "length WRLP_MAGIC = 4"
  by (simp add: WRLP_MAGIC_def bytes_of_def)

subsection \<open>The grants of a profile\<close>

fun grants :: "kernel_abi \<Rightarrow> launch_profile \<Rightarrow> (u32 \<times> u32 \<times> u64) list" where
  "grants k SupervisorResourceDomain =
     [self_root k, (ROLE_BOOTFS, OBJECT_TYPE_MEMORY_OBJECT k, BOOTFS_RIGHTS k),
      (ROLE_LOADER_TASK_GROUP, OBJECT_TYPE_TASK_GROUP k, LOADER_TASK_GROUP_RIGHTS k),
      (ROLE_RESOURCE_DOMAIN, OBJECT_TYPE_TASK_GROUP k, RESOURCE_DOMAIN_CUSTODY_RIGHTS k)]"
| "grants k ProbeChild = [self_root k]"
| "grants k BootstrapRegistry = [self_root k, child_channel k ROLE_SUPERVISOR_CONTROL]"
| "grants k BootstrapService = [self_root k, child_channel k ROLE_PUBLICATION_AUTHORITY]"
| "grants k RegistryClient = [self_root k, child_channel k ROLE_REGISTRY_CLIENT]"
| "grants k LaunchClient = [self_root k, child_channel k ROLE_LAUNCH_SESSION]"
| "grants k Consoled = [self_root k, child_channel k ROLE_REGISTRY_CLIENT, child_channel k ROLE_LAUNCH_SESSION]"
| "grants k Wyrmsh = map (child_channel k) [ROLE_STDIN, ROLE_STDOUT, ROLE_STDERR, ROLE_CONSOLE_STATUS,
     ROLE_REGISTRY_CLIENT, ROLE_LAUNCH_SESSION]"
| "grants k JobV2Streams = map (child_channel k) [ROLE_STDIN, ROLE_STDOUT, ROLE_STDERR]"
| "grants k Dw1bProgress = [child_channel k ROLE_DW1B_PROGRESS_DATA]"
| "grants k DeviceCoordinator = [self_root k, child_channel k ROLE_PUBLICATION_AUTHORITY,
     (ROLE_DEVICE_MANIFEST, OBJECT_TYPE_MEMORY_OBJECT k, DEVICE_MANIFEST_RIGHTS k)]"
| "grants k DeviceCoordinatorResourceDomain = [self_root k, child_channel k ROLE_PUBLICATION_AUTHORITY,
     (ROLE_DEVICE_MANIFEST, OBJECT_TYPE_MEMORY_OBJECT k, DEVICE_MANIFEST_RIGHTS k),
     (ROLE_RESOURCE_DOMAIN, OBJECT_TYPE_TASK_GROUP k, RESOURCE_DOMAIN_CLAIM_RIGHTS k)]"
| "grants k DeviceDriver = [self_root k, child_channel k ROLE_DEVICE_CONTROL]"
| "grants k D6ResourceOwner = [(ROLE_D6_RESOURCE_DOMAIN, OBJECT_TYPE_TASK_GROUP k, RESOURCE_DOMAIN_CLAIM_RIGHTS k)]"
| "grants k Hello = []"
| "grants k EarlyBootStub = []"
| "grants k JobV2 = []"
| "grants k _ =
     [self_root k, (ROLE_BOOTFS, OBJECT_TYPE_MEMORY_OBJECT k, BOOTFS_RIGHTS k),
      (ROLE_LOADER_TASK_GROUP, OBJECT_TYPE_TASK_GROUP k, LOADER_TASK_GROUP_RIGHTS k)]"

lemma length_grants [simp]: "length (grants k p) = capability_count p"
  by (cases p) simp_all

text \<open>A received handle is a grant: a live handle of exactly the object type and the rights.\<close>

definition is_grant :: "handle_info \<Rightarrow> u32 \<times> u32 \<times> u64 \<Rightarrow> bool" where
  "is_grant h g \<longleftrightarrow> rh_handle h \<noteq> 0 \<and> rh_object_type h = fst (snd g) \<and> rh_rights h = snd (snd g) \<and>
     rh_reserved0 h = 0 \<and> rh_reserved h = [0, 0]"

definition granted :: "kernel_abi \<Rightarrow> launch_profile \<Rightarrow> handle_info list \<Rightarrow> bool" where
  "granted k p hs \<longleftrightarrow> list_all2 is_grant hs (grants k p)"

lemma check_roles_append:
  "check_roles bytes hs i (xs @ ys) =
     rbind (check_roles bytes hs i xs) (\<lambda>_. check_roles bytes hs (i + length xs) ys)"
  by (induction xs arbitrary: i) (auto simp: rbind_assoc rbind_if cong: if_cong)

text \<open>The parser's chain of cases is one pass over the grants.\<close>

definition correlations_ok :: "launch_profile \<Rightarrow> byte list \<Rightarrow> unit le_res" where
  "correlations_ok p bytes =
     (if p = Wyrmsh then
        rbind (read_words bytes 88 9) (\<lambda>ws. if 0 \<in> set ws then Err LE_ZeroTransaction else Ok ())
      else Ok ())"

lemma check_init_roles_grants:
  "check_init_roles k p bytes hs =
     rbind (check_roles bytes hs 0 (grants k p)) (\<lambda>_. correlations_ok p bytes)"
proof -
  have three: "check_roles bytes hs 0 [a, b, c, d] =
      rbind (check_roles bytes hs 0 [a, b, c]) (\<lambda>_. check_roles bytes hs 3 [d])" for a b c d
    using check_roles_append [of bytes hs 0 "[a, b, c]" "[d]"] by (simp add: numeral_3_eq_3)
  have one: "check_roles bytes hs 0 [a, b] =
      rbind (check_roles bytes hs 0 [a]) (\<lambda>_. check_roles bytes hs 1 [b])" for a b
    using check_roles_append [of bytes hs 0 "[a]" "[b]"] by simp
  have unit: "rbind m Ok = m" for m :: "unit le_res" by (cases m) simp_all
  show ?thesis
    by (cases p) (simp_all add: check_init_roles_def has_loader_authority_trio_def
        has_loader_authority_quartet_def needs_self_root_def correlations_ok_def three one unit
        del: check_roles.simps(2))
qed

subsection \<open>The header\<close>

definition wrlp_header_bytes :: "u16 \<Rightarrow> u32 \<Rightarrow> nat \<Rightarrow> nat \<Rightarrow> u64 \<Rightarrow> byte list" where
  "wrlp_header_bytes minor kind sz caps t =
     WRLP_MAGIC @ to_le 2 WRLP_MAJOR @ to_le 2 minor @ to_le 4 kind @ to_le 4 (0 :: u32) @
     to_le 4 (word_of_nat sz :: u32) @ to_le 4 (word_of_nat caps :: u32) @ to_le 8 t @ to_le 8 (0 :: u64)"

lemma length_wrlp_header_bytes [simp]: "length (wrlp_header_bytes minor kind sz caps t) = 40"
  by (simp add: wrlp_header_bytes_def wrlp_magic)

lemma wrlp_header_cut:
  assumes "40 \<le> length b"
  shows "take 40 b = region 0 4 b @ region 4 2 b @ region 6 2 b @ region 8 4 b @ region 12 4 b @
    region 16 4 b @ region 20 4 b @ region 24 8 b @ region 32 8 b"
proof -
  have "take 40 b = region 0 (4 + (2 + (2 + (4 + (4 + (4 + (4 + (8 + 8)))))))) b" by (simp add: region_def)
  then show ?thesis unfolding region_split by simp
qed

lemma wrlp_header_iff:
  assumes "40 \<le> length b"
  shows "take 40 b = wrlp_header_bytes minor kind sz caps t \<longleftrightarrow>
    region 0 4 b = WRLP_MAGIC \<and> (from_le (region 4 2 b) :: u16) = WRLP_MAJOR \<and>
    from_le (region 6 2 b) = minor \<and> from_le (region 8 4 b) = kind \<and> (from_le (region 12 4 b) :: u32) = 0 \<and>
    (from_le (region 16 4 b) :: u32) = word_of_nat sz \<and> (from_le (region 20 4 b) :: u32) = word_of_nat caps \<and>
    from_le (region 24 8 b) = t \<and> (from_le (region 32 8 b) :: u64) = 0"
proof -
  have l: "length (region off m b) = m" if "off + m \<le> 40" for off m using that assms by simp
  have l4: "length (region 0 4 b) = length WRLP_MAGIC" using assms by (simp add: wrlp_magic)
  show ?thesis
    unfolding wrlp_header_cut [OF assms] wrlp_header_bytes_def
    using l4 by (simp add: append_eq_append_conv field_iff l del: to_le_0 length_region)
qed

lemma wrlp_parse_header_Ok:
  assumes "40 \<le> sz" "sz < 2 ^ 32" "caps < 2 ^ 32"
  shows "wrlp_parse_header b kind minor sz caps = Ok t \<longleftrightarrow>
    length b = sz \<and> t \<noteq> 0 \<and> take 40 b = wrlp_header_bytes minor kind sz caps t"
proof (cases "length b = sz")
  case True
  with assms(1) have l: "40 \<le> length b" by simp
  have rg: "region_r 0 4 b = Ok (region 0 4 b)" using l by (simp add: region_r_def)
  have rd: "read_int_r n off b = Ok (from_le (region off n b))" if "off + n \<le> 40" for off n
    using that l by (simp add: read_int_r_def)
  show ?thesis
    using True unfolding wrlp_header_iff [OF l]
    by (auto simp: wrlp_parse_header_def rg rd u32_nat [OF assms(2)] u32_nat [OF assms(3)])
next
  case False
  then show ?thesis by (simp add: wrlp_parse_header_def)
qed

lemma wrlp_parse_header_no_panic:
  "40 \<le> sz \<Longrightarrow> wrlp_parse_header b kind minor sz caps \<noteq> Panic"
  by (auto simp: wrlp_parse_header_def res_simps)

subsection \<open>INIT\<close>

definition role_bytes :: "u32 \<times> u32 \<times> u64 \<Rightarrow> byte list" where
  "role_bytes g = to_le 4 (fst g) @ to_le 4 (0 :: u32)"

definition roles_bytes :: "(u32 \<times> u32 \<times> u64) list \<Rightarrow> byte list" where
  "roles_bytes gs = concat (map role_bytes gs)"

lemma roles_bytes_simps [simp]:
  "roles_bytes [] = []" "roles_bytes (g # gs) = role_bytes g @ roles_bytes gs"
  "length (role_bytes g) = 8" "length (roles_bytes gs) = 8 * length gs"
proof -
  show "length (roles_bytes gs) = 8 * length gs" by (induction gs) (simp_all add: roles_bytes_def role_bytes_def)
qed (simp_all add: roles_bytes_def role_bytes_def)

lemma validate_handle_Ok:
  "validate_handle h ty rights i = Ok () \<longleftrightarrow> is_grant h (role, ty, rights)"
  "validate_handle h ty rights i \<noteq> Panic"
  by (auto simp: validate_handle_def is_grant_def)

lemma role_at:
  assumes "40 + 8 * i + 8 \<le> length b"
  shows "region (40 + 8 * i) 8 b = role_bytes (role, ty, rights) \<longleftrightarrow>
    from_le (region (40 + 8 * i) 4 b) = role \<and> (from_le (region (40 + 8 * i + 4) 4 b) :: u32) = 0"
proof -
  have "region (40 + 8 * i) (4 + 4) b = region (40 + 8 * i) 4 b @ region (40 + 8 * i + 4) 4 b"
    by (rule region_split)
  then show ?thesis using assms
    by (simp add: role_bytes_def append_eq_append_conv field_iff del: to_le_0)
qed

lemma check_roles_Ok:
  assumes "40 + 8 * i + 8 * length gs \<le> length b" "i + length gs = length hs"
  shows "check_roles b hs i gs = Ok () \<longleftrightarrow>
    region (40 + 8 * i) (8 * length gs) b = roles_bytes gs \<and> list_all2 is_grant (drop i hs) gs"
  using assms
proof (induction gs arbitrary: i)
  case Nil
  then show ?case by (simp add: region_def)
next
  case (Cons g gs)
  obtain role ty rights where g: "g = (role, ty, rights)" by (cases g)
  from Cons.prems have i: "i < length hs" and l: "40 + 8 * i + 8 \<le> length b" by simp_all
  have rd: "read_int_r 4 (WRLP_HEADER_BYTES + i * 8) b = Ok (from_le (region (40 + 8 * i) 4 b))"
    "read_int_r 4 (WRLP_HEADER_BYTES + i * 8 + 4) b = Ok (from_le (region (40 + 8 * i + 4) 4 b))"
    using l by (simp_all add: read_int_r_def wrlp_sizes mult.commute)
  have "drop i hs = hs ! i # drop (Suc i) hs" using i by (rule Cons_nth_drop_Suc [symmetric])
  moreover have "region (40 + 8 * i) (8 * length (g # gs)) b = roles_bytes (g # gs) \<longleftrightarrow>
      region (40 + 8 * i) 8 b = role_bytes g \<and> region (40 + 8 * Suc i) (8 * length gs) b = roles_bytes gs"
    using append_region_iff [OF l, of "role_bytes g" "8 * length gs" "roles_bytes gs"]
    by (simp add: add.commute add.left_commute)
  ultimately show ?case
    using Cons.IH [of "Suc i"] Cons.prems i role_at [OF l, of role ty rights]
      validate_handle_Ok(1) [of "hs ! i" ty rights i role]
    by (auto simp: g rd index_r_def rbind_eq_Ok)
qed

lemma check_roles_no_panic:
  "40 + 8 * i + 8 * length gs \<le> length b \<Longrightarrow> i + length gs = length hs \<Longrightarrow> check_roles b hs i gs \<noteq> Panic"
proof (induction gs arbitrary: i)
  case (Cons g gs)
  then show ?case
    by (cases g) (auto simp: res_simps wrlp_sizes validate_handle_Ok)
qed simp

lemma init_size_bounds: "40 + 8 * capability_count p \<le> init_size p" "init_size p \<le> 160" "capability_count p \<le> 6"
  by (cases p; simp add: init_size_def wrlp_sizes)+

definition init_prefix :: "kernel_abi \<Rightarrow> launch_profile \<Rightarrow> u64 \<Rightarrow> byte list" where
  "init_prefix k p t =
     wrlp_header_bytes (protocol_minor p) TYPE_INIT (init_size p) (capability_count p) t @ roles_bytes (grants k p)"

lemma length_init_prefix [simp]: "length (init_prefix k p t) = 40 + 8 * capability_count p"
  by (simp add: init_prefix_def)

lemma parse_init_iff:
  "parse_init k p b hs = Ok (t, q) \<longleftrightarrow>
     q = p \<and> t \<noteq> 0 \<and> length b = init_size p \<and> take (40 + 8 * capability_count p) b = init_prefix k p t \<and>
     granted k p hs \<and> correlations_ok p b = Ok ()"
proof (cases "length b = init_size p \<and> length hs = capability_count p")
  case True
  note sz = init_size_bounds [of p]
  have hd: "wrlp_parse_header b TYPE_INIT (protocol_minor p) (init_size p) (capability_count p) = Ok u \<longleftrightarrow>
      u \<noteq> 0 \<and> take 40 b = wrlp_header_bytes (protocol_minor p) TYPE_INIT (init_size p) (capability_count p) u" for u
    using True sz by (subst wrlp_parse_header_Ok) auto
  have ro: "check_roles b hs 0 (grants k p) = Ok () \<longleftrightarrow>
      region 40 (8 * capability_count p) b = roles_bytes (grants k p) \<and> granted k p hs"
    using check_roles_Ok [of 0 "grants k p" b hs] True sz by (simp add: granted_def)
  have "take (40 + 8 * capability_count p) b = take 40 b @ region 40 (8 * capability_count p) b"
    by (simp add: take_add region_def)
  moreover have "length (take 40 b) = 40" using True sz by simp
  ultimately have "take (40 + 8 * capability_count p) b = init_prefix k p t \<longleftrightarrow>
      take 40 b = wrlp_header_bytes (protocol_minor p) TYPE_INIT (init_size p) (capability_count p) t \<and>
      region 40 (8 * capability_count p) b = roles_bytes (grants k p)"
    by (simp add: init_prefix_def)
  with True hd ro show ?thesis
    by (auto simp: parse_init_def check_init_roles_grants rbind_eq_Ok)
next
  case False
  have "granted k p hs \<Longrightarrow> length hs = capability_count p"
    by (auto simp: granted_def dest: list_all2_lengthD)
  with False show ?thesis
    by (auto simp: parse_init_def rbind_eq_Ok wrlp_parse_header_def split: if_splits)
qed

lemma read_words_Ok:
  "off + 8 * n \<le> length b \<Longrightarrow> read_words b off n = Ok (map (\<lambda>i. from_le (region (off + 8 * i) 8 b)) [0..<n])"
proof (induction n arbitrary: off)
  case (Suc n)
  have "map (\<lambda>i. from_le (region (off + 8 * i) 8 b)) [0..<Suc n] =
      (from_le (region off 8 b) :: u64) # map (\<lambda>i. from_le (region (off + 8 + 8 * i) 8 b)) [0..<n]"
    by (simp add: upt_conv_Cons map_Suc_upt [symmetric] add.assoc del: upt_Suc)
  with Suc show ?case by (simp add: read_int_r_def del: upt_Suc)
qed simp

lemma parse_init_no_panic: "parse_init k p b hs \<noteq> Panic"
proof -
  note sz = init_size_bounds [of p]
  have "wrlp_parse_header b TYPE_INIT (protocol_minor p) (init_size p) (capability_count p) \<noteq> Panic"
    using sz by (intro wrlp_parse_header_no_panic) simp
  moreover have "check_init_roles k p b hs \<noteq> Panic" if "length b = init_size p" "length hs = capability_count p"
  proof -
    have "correlations_ok p b \<noteq> Panic"
      using that by (auto simp: correlations_ok_def init_size_def wrlp_sizes read_words_Ok)
    moreover have "check_roles b hs 0 (grants k p) \<noteq> Panic"
      using that sz by (intro check_roles_no_panic) simp_all
    ultimately show ?thesis by (auto simp: check_init_roles_grants rbind_eq_Panic)
  qed
  moreover have "length b = init_size p"
    if "wrlp_parse_header b TYPE_INIT (protocol_minor p) (init_size p) (capability_count p) = Ok t" for t
    using that sz by (subst (asm) wrlp_parse_header_Ok) auto
  ultimately show ?thesis by (auto simp: parse_init_def rbind_eq_Panic split: if_splits)
qed

text \<open>Two profiles that accept one message with its handles grant the same.\<close>

lemma list_all2_grants_unique:
  assumes "list_all2 is_grant hs gs" "list_all2 is_grant hs gs'" "map fst gs = map fst gs'"
  shows "gs = gs'"
proof (rule nth_equalityI)
  show "length gs = length gs'" using list_all2_lengthD [OF assms(1)] list_all2_lengthD [OF assms(2)] by simp
next
  fix i assume i: "i < length gs"
  moreover have i': "i < length gs'" using i list_all2_lengthD [OF assms(1)] list_all2_lengthD [OF assms(2)] by simp
  ultimately have "fst (gs ! i) = fst (gs' ! i)" using arg_cong [OF assms(3), of "\<lambda>xs. xs ! i"] by simp
  moreover have "is_grant (hs ! i) (gs ! i)" "is_grant (hs ! i) (gs' ! i)"
    using assms(1,2) i i' by (simp_all add: list_all2_conv_all_nth)
  ultimately show "gs ! i = gs' ! i" by (auto simp: is_grant_def prod_eq_iff)
qed

lemma roles_bytes_inject:
  "length gs = length gs' \<Longrightarrow> roles_bytes gs = roles_bytes gs' \<Longrightarrow> map fst gs = map fst gs'"
proof (induction gs gs' rule: list_induct2)
  case (Cons g gs g' gs')
  then have "role_bytes g = role_bytes g'" and "roles_bytes gs = roles_bytes gs'" by simp_all
  with Cons.IH show ?case by (simp add: role_bytes_def le32.enc_inject)
qed simp

lemma accepted_grants_unique:
  assumes "parse_init k p b hs = Ok r" "parse_init k q b hs = Ok r'"
  shows "grants k p = grants k q"
proof -
  obtain t u where p: "r = (t, p)" and q: "r' = (u, q)"
    using assms by (metis parse_init_iff surj_pair)
  note a = assms(1) [unfolded p parse_init_iff] and c = assms(2) [unfolded q parse_init_iff]
  have n: "capability_count p = capability_count q"
    using a c by (metis granted_def length_grants list_all2_lengthD)
  have "roles_bytes (grants k p) = roles_bytes (grants k q)"
    using a c n unfolding init_prefix_def by (metis append_eq_append_conv length_wrlp_header_bytes)
  then have "map fst (grants k p) = map fst (grants k q)"
    using n by (intro roles_bytes_inject) simp_all
  with a c show ?thesis unfolding granted_def by (metis list_all2_grants_unique)
qed

text \<open>C6. Parsing an INIT message never panics. It accepts exactly when the message has the size,
  version and nonzero transaction of its profile, announces the roles of the profile's grants in
  order, and the received handles are these grants: as many live handles, each of exactly the object
  type and exactly the rights of its role. No message with its handles can pass for two profiles
  that grant different capabilities, whatever the numbers of the kernel interface are.\<close>

theorem launch_init_grants_exact:
  "parse_init k p bytes handles \<noteq> Panic \<and>
   ((\<exists>r. parse_init k p bytes handles = Ok r) \<longleftrightarrow>
     (\<exists>t. t \<noteq> 0 \<and> length bytes = init_size p \<and>
       take (40 + 8 * capability_count p) bytes = init_prefix k p t \<and> granted k p handles \<and>
       correlations_ok p bytes = Ok ())) \<and>
   (case (parse_init k p bytes handles, parse_init k q bytes handles) of
      (Ok (t, p'), Ok (u, q')) \<Rightarrow> p' = p \<and> q' = q \<and> grants k p = grants k q
    | _ \<Rightarrow> True)"
proof (intro conjI)
  show "parse_init k p bytes handles \<noteq> Panic" by (rule parse_init_no_panic)
  show "(\<exists>r. parse_init k p bytes handles = Ok r) \<longleftrightarrow>
     (\<exists>t. t \<noteq> 0 \<and> length bytes = init_size p \<and>
       take (40 + 8 * capability_count p) bytes = init_prefix k p t \<and> granted k p handles \<and>
       correlations_ok p bytes = Ok ())"
    using parse_init_iff [of k p bytes handles] by (metis surj_pair)
  show "case (parse_init k p bytes handles, parse_init k q bytes handles) of
      (Ok (t, p'), Ok (u, q')) \<Rightarrow> p' = p \<and> q' = q \<and> grants k p = grants k q
    | _ \<Rightarrow> True"
    using accepted_grants_unique [of k p bytes handles _ q]
    by (auto simp: parse_init_iff split: res.splits prod.splits)
qed

subsection \<open>READY\<close>

definition ready_bytes :: "launch_profile \<Rightarrow> u64 \<Rightarrow> byte list" where
  "ready_bytes p t = wrlp_header_bytes (protocol_minor p) TYPE_READY 40 0 t"

lemma parse_ready_iff:
  "parse_ready_for_profile p b t = Ok () \<longleftrightarrow> t \<noteq> 0 \<and> b = ready_bytes p t"
proof -
  have "wrlp_parse_header b TYPE_READY (protocol_minor p) 40 0 = Ok u \<longleftrightarrow> u \<noteq> 0 \<and> b = ready_bytes p u" for u
    by (subst wrlp_parse_header_Ok) (auto simp: ready_bytes_def)
  then show ?thesis by (auto simp: parse_ready_for_profile_def wrlp_sizes rbind_eq_Ok)
qed

lemma parse_ready_no_panic: "parse_ready_for_profile p b t \<noteq> Panic"
  by (auto simp: parse_ready_for_profile_def wrlp_sizes rbind_eq_Panic wrlp_parse_header_no_panic)

end
