(* ===== verification/LaunchProtoEncode.thy ===== *)
theory LaunchProtoEncode
  imports LaunchProtoProps
begin

text \<open>
  The encoders of the launch protocol. Every encoder clears the message, writes the header and the
  roles of the profile, and five of them add correlation numbers. The locale \<open>correlated_init\<close> is the
  contract of these five: where the numbers stand and how the message's value is made of them. It
  gives the round trip once and is interpreted for each of them.
\<close>

subsection \<open>Writes into a cleared message\<close>

lemma abind_write_r:
  "off + length bs \<le> length out \<Longrightarrow> abind (write_r off bs) f out = f () (overwrite off bs out)"
  by (simp add: abind_def write_r_def)

lemma write_header_cleared:
  "write_header minor kind (word_of_nat sz) (word_of_nat caps) t (replicate 40 0 @ W) =
     (Ok (), wrlp_header_bytes minor kind sz caps t @ W)"
proof -
  let ?X = "WRLP_MAGIC @ to_le 2 WRLP_MAJOR @ to_le 2 minor @ to_le 4 kind"
  let ?Y = "to_le 4 (word_of_nat sz :: u32) @ to_le 4 (word_of_nat caps :: u32) @ to_le 8 t"
  define Z where "Z = replicate 40 (0 :: byte) @ W"
  have Z: "40 \<le> length Z" by (simp add: Z_def)
  have "write_header minor kind (word_of_nat sz) (word_of_nat caps) t Z = (Ok (), overwrite 16 ?Y (overwrite 0 ?X Z))"
    using Z by (simp add: write_header_def abind_write_r write_r_def wrlp_magic overwrite_next)
  moreover have "overwrite 0 ?X Z = ?X @ replicate 28 0 @ W"
    unfolding overwrite_def Z_def using wrlp_magic by simp
  moreover have "overwrite 16 ?Y (?X @ replicate 28 0 @ W) = ?X @ replicate 4 0 @ ?Y @ replicate 8 0 @ W"
    unfolding overwrite_def using wrlp_magic by simp
  ultimately show ?thesis by (simp add: Z_def wrlp_header_bytes_def)
qed

lemma put_roles_cleared:
  assumes "length A = 40 + 8 * i"
  shows "put_roles i rs (A @ replicate (8 * length rs) 0 @ W) =
    (Ok (), A @ concat (map (\<lambda>r. to_le 4 r @ to_le 4 (0 :: u32)) rs) @ W)"
  using assms
proof (induction rs arbitrary: A i)
  case Nil
  then show ?case by (simp add: aret_def)
next
  case (Cons r rs)
  let ?z = "replicate 4 (0 :: byte) @ replicate (8 * length rs) 0 @ W"
  have out: "A @ replicate (8 * length (r # rs)) 0 @ W = A @ replicate 4 0 @ ?z"
    by (simp add: replicate_add [symmetric])
  have "overwrite (40 + i * 8) (to_le 4 r) (A @ replicate 4 0 @ ?z) = A @ to_le 4 r @ ?z"
    using Cons.prems by (intro overwrite_middle) simp_all
  then have "put_roles i (r # rs) (A @ replicate (8 * length (r # rs)) 0 @ W) =
      put_roles (i + 1) rs ((A @ to_le 4 r @ replicate 4 0) @ replicate (8 * length rs) 0 @ W)"
    unfolding out using Cons.prems by (simp add: abind_write_r wrlp_sizes)
  also have "\<dots> = (Ok (), (A @ to_le 4 r @ replicate 4 0) @ concat (map (\<lambda>r. to_le 4 r @ to_le 4 (0 :: u32)) rs) @ W)"
    using Cons.prems by (intro Cons.IH) simp
  finally show ?case by simp
qed

lemma put_words_cleared:
  assumes "length A = off"
  shows "put_words off vs (A @ replicate (8 * length vs) 0 @ W) = (Ok (), A @ concat (map (to_le 8) vs) @ W)"
  using assms
proof (induction vs arbitrary: A off)
  case Nil
  then show ?case by (simp add: aret_def)
next
  case (Cons v vs)
  have out: "A @ replicate (8 * length (v # vs)) 0 @ W = A @ replicate 8 0 @ replicate (8 * length vs) 0 @ W"
    by (simp add: replicate_add)
  have "overwrite off (to_le 8 v) (A @ replicate 8 0 @ replicate (8 * length vs) 0 @ W) =
      A @ to_le 8 v @ replicate (8 * length vs) 0 @ W"
    using Cons.prems by (intro overwrite_middle) simp_all
  then have "put_words off (v # vs) (A @ replicate (8 * length (v # vs)) 0 @ W) =
      put_words (off + 8) vs ((A @ to_le 8 v) @ replicate (8 * length vs) 0 @ W)"
    unfolding out using Cons.prems by (simp add: abind_write_r)
  also have "\<dots> = (Ok (), (A @ to_le 8 v) @ concat (map (to_le 8) vs) @ W)"
    using Cons.prems by (intro Cons.IH) simp
  finally show ?case by simp
qed

text \<open>The encoder's chain of cases writes the roles of the grants.\<close>

lemma put_roles_append: "put_roles i (xs @ ys) = abind (put_roles i xs) (\<lambda>_. put_roles (i + length xs) ys)"
proof (induction xs arbitrary: i)
  case Nil
  show ?case by (rule ext) (simp add: abind_def aret_def)
next
  case (Cons x xs)
  have "abind (abind m f) g = abind m (\<lambda>x. abind (f x) g)" for m :: "unit le_action" and f g :: "unit \<Rightarrow> unit le_action"
    by (rule ext) (auto simp: abind_def split: prod.splits res.splits)
  then show ?case by (simp add: Cons)
qed

lemma put_init_roles_grants: "put_init_roles p = put_roles 0 (map fst (grants k p))"
proof -
  have three: "put_roles 0 [a, b, c, d] = abind (put_roles 0 [a, b, c]) (\<lambda>_. put_roles 3 [d])" for a b c d
    using put_roles_append [of 0 "[a, b, c]" "[d]"] by (simp add: numeral_3_eq_3)
  have one: "put_roles 0 [a, b] = abind (put_roles 0 [a]) (\<lambda>_. put_roles 1 [b])" for a b
    using put_roles_append [of 0 "[a]" "[b]"] by simp
  have unit: "abind m aret = m" for m :: "unit le_action"
    by (rule ext) (auto simp: abind_def aret_def split: prod.splits res.splits)
  show ?thesis
    by (cases p) (simp_all add: put_init_roles_def has_loader_authority_trio_def
        has_loader_authority_quartet_def needs_self_root_def self_root_def child_channel_def three one unit
        del: put_roles.simps(2))
qed

subsection \<open>INIT without correlation numbers\<close>

lemma encode_init_inner_result:
  assumes "init_size p \<le> length out" "t \<noteq> 0"
  shows "encode_init_inner p t out =
    (Ok (init_size p), init_prefix k p t @ replicate (init_size p - (40 + 8 * capability_count p)) 0 @ drop (init_size p) out)"
proof -
  let ?n = "capability_count p" and ?s = "init_size p"
  let ?W = "replicate (?s - (40 + 8 * ?n)) 0 @ drop ?s out"
  let ?h = "wrlp_header_bytes (protocol_minor p) TYPE_INIT ?s ?n t"
  have s: "?s = 40 + (8 * ?n + (?s - (40 + 8 * ?n)))" using init_size_bounds(1) [of p] by simp
  have "replicate ?s (0 :: byte) = replicate 40 0 @ replicate (8 * ?n) 0 @ replicate (?s - (40 + 8 * ?n)) 0"
    by (subst s) (simp only: replicate_add)
  moreover have "fill_zero_r ?s out = (Ok (), replicate ?s 0 @ drop ?s out)"
    using assms(1) by (simp add: fill_zero_r_def write_r_def overwrite_def)
  ultimately have f: "fill_zero_r ?s out = (Ok (), replicate 40 0 @ replicate (8 * ?n) 0 @ ?W)"
    by (simp only: append_assoc)
  have r: "put_init_roles p (?h @ replicate (8 * ?n) 0 @ ?W) = (Ok (), ?h @ roles_bytes (grants k p) @ ?W)"
    using put_roles_cleared [of ?h 0 "map fst (grants k p)" ?W]
    by (simp add: put_init_roles_grants [of p k] roles_bytes_def role_bytes_def [abs_def] comp_def)
  show ?thesis using assms
    by (simp add: encode_init_inner_def Let_def abind_def aret_def f write_header_cleared r init_prefix_def)
qed

lemma encode_init_inner_refused:
  "\<not> (init_size p \<le> length out \<and> t \<noteq> 0) \<Longrightarrow> \<exists>e. encode_init_inner p t out = (Err e, out)"
  by (auto simp: encode_init_inner_def Let_def)

text \<open>The contract of an encoder: it succeeds exactly on valid values with a large enough buffer,
  leaves a refused buffer and the rest of an accepted one alone, and what it writes parses, with the
  grants of the profile, to the value.\<close>

definition faithful_encoder ::
  "launch_profile \<Rightarrow> nat le_action \<Rightarrow> (kernel_abi \<Rightarrow> byte list \<Rightarrow> handle_info list \<Rightarrow> 'v le_res) \<Rightarrow>
     'v \<Rightarrow> bool \<Rightarrow> bool" where
  "faithful_encoder p enc dec v valid \<longleftrightarrow>
     (\<forall>out. case enc out of
        (Panic, _) \<Rightarrow> False
      | (Err _, out') \<Rightarrow> out' = out \<and> \<not> (valid \<and> init_size p \<le> length out)
      | (Ok n, out') \<Rightarrow> valid \<and> n = init_size p \<and> n \<le> length out \<and> length out' = length out \<and>
          drop n out' = drop n out \<and> (\<forall>k hs. granted k p hs \<longrightarrow> dec k (take n out') hs = Ok v))"

lemma faithful_encoderI:
  assumes "\<And>out. valid \<and> init_size p \<le> length out \<Longrightarrow>
      \<exists>b. length b = init_size p \<and> enc out = (Ok (init_size p), b @ drop (init_size p) out) \<and>
        (\<forall>k hs. granted k p hs \<longrightarrow> dec k b hs = Ok v)"
    and "\<And>out. \<not> (valid \<and> init_size p \<le> length out) \<Longrightarrow> \<exists>e. enc out = (Err e, out)"
  shows "faithful_encoder p enc dec v valid"
  unfolding faithful_encoder_def
proof
  fix out
  show "case enc out of
        (Panic, _) \<Rightarrow> False
      | (Err _, out') \<Rightarrow> out' = out \<and> \<not> (valid \<and> init_size p \<le> length out)
      | (Ok n, out') \<Rightarrow> valid \<and> n = init_size p \<and> n \<le> length out \<and> length out' = length out \<and>
          drop n out' = drop n out \<and> (\<forall>k hs. granted k p hs \<longrightarrow> dec k (take n out') hs = Ok v)"
  proof (cases "valid \<and> init_size p \<le> length out")
    case True
    with assms(1) [OF True] show ?thesis by auto
  next
    case False
    with assms(2) [OF False] show ?thesis by auto
  qed
qed

text \<open>The bytes of a message do not depend on the numbers of the kernel.\<close>

lemma init_prefix_abi: "init_prefix k p t = init_prefix k' p t"
proof -
  have "map fst (grants k p) = map fst (grants k' p)"
    by (cases p) (simp_all add: self_root_def child_channel_def)
  moreover have "roles_bytes gs = concat (map (\<lambda>r. to_le 4 r @ to_le 4 (0 :: u32)) (map fst gs))" for gs
    by (simp add: roles_bytes_def role_bytes_def [abs_def] comp_def)
  ultimately show ?thesis by (simp only: init_prefix_def)
qed

lemma encode_init_faithful:
  assumes "p \<notin> {DeviceCoordinator, DeviceCoordinatorResourceDomain, DeviceDriver, Consoled, Wyrmsh}"
  shows "faithful_encoder p (encode_init p t) (\<lambda>k. parse_init k p) (t, p) (t \<noteq> 0)"
proof (rule faithful_encoderI)
  fix out :: "byte list"
  assume a: "t \<noteq> 0 \<and> init_size p \<le> length out"
  have sz: "init_size p = 40 + 8 * capability_count p"
    using assms by (auto simp: init_size_def wrlp_sizes)
  have "parse_init k p (init_prefix k' p t) hs = Ok (t, p)" if "granted k p hs" for k k' hs
    using that a assms sz init_prefix_abi [of k' p t k] by (simp add: parse_init_iff correlations_ok_def)
  then show "\<exists>b. length b = init_size p \<and> encode_init p t out = (Ok (init_size p), b @ drop (init_size p) out) \<and>
        (\<forall>k hs. granted k p hs \<longrightarrow> parse_init k p b hs = Ok (t, p))"
    using a assms sz
    by (intro exI [of _ "init_prefix undefined p t"])
      (simp add: encode_init_def encode_init_inner_result [of _ _ _ undefined])
next
  fix out :: "byte list"
  assume "\<not> (t \<noteq> 0 \<and> init_size p \<le> length out)"
  then show "\<exists>e. encode_init p t out = (Err e, out)"
    using encode_init_inner_refused [of p out t] assms by (auto simp: encode_init_def)
qed

subsection \<open>INIT with correlation numbers\<close>

lemma length_words [simp]: "length (concat (map (to_le 8) vs)) = 8 * length (vs :: u64 list)"
  by (induction vs) simp_all

lemma read_words_written:
  "length A = off \<Longrightarrow> read_words (A @ concat (map (to_le 8) vs) @ W) off (length vs) = Ok vs"
proof (induction vs arbitrary: A off)
  case (Cons v vs)
  let ?b = "A @ concat (map (to_le 8) (v # vs)) @ W"
  have "region off 8 ?b = to_le 8 v" using Cons.prems by (simp add: region_def)
  then have "read_int_r 8 off ?b = (Ok v :: u64 le_res)" using Cons.prems by (simp add: read_int_r_def)
  moreover have "read_words ?b (off + 8) (length vs) = Ok vs"
    using Cons.IH [of "A @ to_le 8 v" "off + 8"] Cons.prems by simp
  ultimately show ?case by simp
qed simp

locale correlated_init =
  fixes profile :: launch_profile
    and off :: nat
    and count :: nat
    and txn :: "'v \<Rightarrow> u64"
    and numbers :: "'v \<Rightarrow> u64 list"
    and enc :: "'v \<Rightarrow> nat le_action"
    and dec :: "kernel_abi \<Rightarrow> byte list \<Rightarrow> handle_info list \<Rightarrow> 'v le_res"
  assumes numbers_count: "length (numbers v) = count"
    and after_roles: "40 + 8 * capability_count profile \<le> off"
    and to_the_end: "off + 8 * count = init_size profile"
    and shell_layout: "profile = Wyrmsh \<Longrightarrow> off = 88 \<and> count = 9"
    and enc_zero: "0 \<in> set (numbers v) \<Longrightarrow> enc v out = (Err LE_ZeroTransaction, out)"
    and enc_nonzero: "0 \<notin> set (numbers v) \<Longrightarrow> enc v =
      abind (encode_init_inner profile (txn v)) (\<lambda>n. abind (put_words off (numbers v)) (\<lambda>_. aret n))"
    and dec_numbers: "parse_init k profile b hs = Ok (txn v, profile) \<Longrightarrow>
      read_words b off count = Ok (numbers v) \<Longrightarrow> 0 \<notin> set (numbers v) \<Longrightarrow> dec k b hs = Ok v"
begin

definition init_message :: "'v \<Rightarrow> byte list" where
  "init_message v = init_prefix undefined profile (txn v) @
     replicate (off - (40 + 8 * capability_count profile)) 0 @ concat (map (to_le 8) (numbers v))"

lemma length_init_message: "length (init_message v) = init_size profile"
  using after_roles to_the_end by (simp add: init_message_def numbers_count)

lemma enc_message:
  assumes "0 \<notin> set (numbers v)" "txn v \<noteq> 0" "init_size profile \<le> length out"
  shows "enc v out = (Ok (init_size profile), init_message v @ drop (init_size profile) out)"
proof -
  let ?c = "40 + 8 * capability_count profile"
  let ?A = "init_prefix undefined profile (txn v) @ replicate (off - ?c) 0"
  have "init_size profile - ?c = (off - ?c) + 8 * length (numbers v)"
    using after_roles to_the_end by (simp add: numbers_count)
  then have i: "encode_init_inner profile (txn v) out =
      (Ok (init_size profile), ?A @ replicate (8 * length (numbers v)) 0 @ drop (init_size profile) out)"
    using encode_init_inner_result [OF assms(3,2), of undefined] by (simp add: replicate_add)
  have "length ?A = off" using after_roles by simp
  from put_words_cleared [OF this, of "numbers v" "drop (init_size profile) out"] i show ?thesis
    unfolding enc_nonzero [OF assms(1)] by (simp add: abind_def aret_def init_message_def)
qed

lemma dec_message:
  assumes "0 \<notin> set (numbers v)" "txn v \<noteq> 0" "granted k profile hs"
  shows "dec k (init_message v) hs = Ok v"
proof -
  let ?c = "40 + 8 * capability_count profile"
  let ?A = "init_prefix undefined profile (txn v) @ replicate (off - ?c) 0"
  have "length ?A = off" using after_roles by simp
  from read_words_written [OF this, of "numbers v" "[]"]
  have w: "read_words (init_message v) off count = Ok (numbers v)" by (simp add: init_message_def numbers_count)
  have "correlations_ok profile (init_message v) = Ok ()"
    using w assms(1) shell_layout by (auto simp: correlations_ok_def)
  moreover have "take ?c (init_message v) = init_prefix k profile (txn v)"
    using init_prefix_abi [of undefined profile "txn v" k] by (simp add: init_message_def)
  ultimately have "parse_init k profile (init_message v) hs = Ok (txn v, profile)"
    using assms(2,3) length_init_message by (simp add: parse_init_iff)
  from dec_numbers [OF this w assms(1)] show ?thesis .
qed

lemma faithful: "faithful_encoder profile (enc v) dec v (txn v \<noteq> 0 \<and> 0 \<notin> set (numbers v))"
proof (rule faithful_encoderI)
  fix out :: "byte list"
  assume "(txn v \<noteq> 0 \<and> 0 \<notin> set (numbers v)) \<and> init_size profile \<le> length out"
  then show "\<exists>b. length b = init_size profile \<and>
      enc v out = (Ok (init_size profile), b @ drop (init_size profile) out) \<and>
      (\<forall>k hs. granted k profile hs \<longrightarrow> dec k b hs = Ok v)"
    using enc_message dec_message length_init_message by blast
next
  fix out :: "byte list"
  assume a: "\<not> ((txn v \<noteq> 0 \<and> 0 \<notin> set (numbers v)) \<and> init_size profile \<le> length out)"
  show "\<exists>e. enc v out = (Err e, out)"
  proof (cases "0 \<in> set (numbers v)")
    case True
    then show ?thesis by (simp add: enc_zero)
  next
    case False
    with a encode_init_inner_refused [of profile out "txn v"] show ?thesis
      by (auto simp: enc_nonzero abind_def)
  qed
qed

end

lemmas parse_correlated = parse_device_coordinator_init_def parse_device_coordinator_resource_init_def
  parse_device_driver_init_def parse_consoled_init_def parse_wyrmsh_init_def

text \<open>One number is written and read without a loop.\<close>

lemma put_one: "abind (write_r off (to_le 8 v)) (\<lambda>_. aret n) = abind (put_words off [v]) (\<lambda>_. aret n)"
  by (rule ext) (auto simp: abind_def write_r_def aret_def)

lemma read_one: "read_words b off (Suc 0) = Ok [v] \<longleftrightarrow> read_int_r 8 off b = (Ok v :: u64 le_res)"
  by (auto simp: rbind_eq_Ok)

interpretation coordinator: correlated_init DeviceCoordinator 64 1 dc_transaction_id
  "\<lambda>v. [dc_supervisor_generation v]"
  "\<lambda>v. encode_device_coordinator_init (dc_transaction_id v) (dc_supervisor_generation v)"
  parse_device_coordinator_init
  by unfold_locales
    (auto simp: init_size_def wrlp_sizes encode_device_coordinator_init_def afail_def put_one
      parse_correlated read_one simp del: put_words.simps read_words.simps)

interpretation resource_coordinator: correlated_init DeviceCoordinatorResourceDomain 72 1 dc_transaction_id
  "\<lambda>v. [dc_supervisor_generation v]"
  "\<lambda>v. encode_device_coordinator_resource_init (dc_transaction_id v) (dc_supervisor_generation v)"
  parse_device_coordinator_resource_init
  by unfold_locales
    (auto simp: init_size_def wrlp_sizes encode_device_coordinator_resource_init_def afail_def put_one
      parse_correlated read_one simp del: put_words.simps read_words.simps)

interpretation driver: correlated_init DeviceDriver 56 6 dd_transaction_id
  "\<lambda>v. [dd_supervisor_generation v, dd_role_id v, dd_attempt_generation v, dd_launch_session v,
     dd_endpoint_id v, dd_endpoint_generation v]"
  encode_device_driver_init parse_device_driver_init
  by unfold_locales
    (auto simp: init_size_def wrlp_sizes encode_device_driver_init_def afail_def parse_correlated
      simp del: put_words.simps read_words.simps)

interpretation console: correlated_init Consoled 88 5 ci_transaction_id
  "\<lambda>v. [ci_registry_generation v, ci_registry_endpoint_id v, ci_registry_endpoint_generation v,
     ci_launch_connection_id v, ci_launch_connection_generation v]"
  encode_consoled_init parse_consoled_init
  by unfold_locales
    (auto simp: init_size_def wrlp_sizes encode_consoled_init_def afail_def parse_correlated
      simp del: put_words.simps read_words.simps)

interpretation shell: correlated_init Wyrmsh 88 9 wi_transaction_id
  "\<lambda>v. [wi_registry_generation v, wi_registry_endpoint_id v, wi_registry_endpoint_generation v,
     wi_launch_connection_id v, wi_launch_connection_generation v, wi_console_generation v,
     wi_status_generation v, wi_child_generation v, wi_outer_launch_transaction v]"
  encode_wyrmsh_init parse_wyrmsh_init
  by unfold_locales
    (auto simp: init_size_def wrlp_sizes encode_wyrmsh_init_def afail_def parse_correlated
      simp del: put_words.simps read_words.simps)

text \<open>C7. Every INIT encoder is faithful to its parser: it succeeds exactly when the transaction
  and every correlation number are nonzero and the buffer is large enough, it never panics, it
  leaves a refused buffer and the bytes behind the message alone, and the message together with the
  handles of the profile's grants parses to exactly the values that were encoded. The general
  encoder does so for every profile without correlation numbers and refuses the others.\<close>

theorem launch_init_round_trip:
  "(if p \<in> {DeviceCoordinator, DeviceCoordinatorResourceDomain, DeviceDriver, Consoled, Wyrmsh}
    then encode_init p t out = (Err LE_ProfileSpecificEncoderRequired, out)
    else faithful_encoder p (encode_init p t) (\<lambda>k. parse_init k p) (t, p) (t \<noteq> 0)) \<and>
   faithful_encoder DeviceCoordinator
     (encode_device_coordinator_init (dc_transaction_id c) (dc_supervisor_generation c))
     parse_device_coordinator_init c (dc_transaction_id c \<noteq> 0 \<and> dc_supervisor_generation c \<noteq> 0) \<and>
   faithful_encoder DeviceCoordinatorResourceDomain
     (encode_device_coordinator_resource_init (dc_transaction_id c) (dc_supervisor_generation c))
     parse_device_coordinator_resource_init c (dc_transaction_id c \<noteq> 0 \<and> dc_supervisor_generation c \<noteq> 0) \<and>
   faithful_encoder DeviceDriver (encode_device_driver_init d) parse_device_driver_init d
     (dd_transaction_id d \<noteq> 0 \<and> 0 \<notin> {dd_supervisor_generation d, dd_role_id d, dd_attempt_generation d,
        dd_launch_session d, dd_endpoint_id d, dd_endpoint_generation d}) \<and>
   faithful_encoder Consoled (encode_consoled_init e) parse_consoled_init e
     (ci_transaction_id e \<noteq> 0 \<and> 0 \<notin> {ci_registry_generation e, ci_registry_endpoint_id e,
        ci_registry_endpoint_generation e, ci_launch_connection_id e, ci_launch_connection_generation e}) \<and>
   faithful_encoder Wyrmsh (encode_wyrmsh_init w) parse_wyrmsh_init w
     (wi_transaction_id w \<noteq> 0 \<and> 0 \<notin> {wi_registry_generation w, wi_registry_endpoint_id w,
        wi_registry_endpoint_generation w, wi_launch_connection_id w, wi_launch_connection_generation w,
        wi_console_generation w, wi_status_generation w, wi_child_generation w,
        wi_outer_launch_transaction w})"
proof -
  have "encode_init p t out = (Err LE_ProfileSpecificEncoderRequired, out)"
    if "p \<in> {DeviceCoordinator, DeviceCoordinatorResourceDomain, DeviceDriver, Consoled, Wyrmsh}"
    using that by (simp add: encode_init_def afail_def)
  with encode_init_faithful [of p t] coordinator.faithful [of c] resource_coordinator.faithful [of c]
    driver.faithful [of d] console.faithful [of e] shell.faithful [of w]
  show ?thesis by (simp add: eq_commute [of 0])
qed

subsection \<open>READY\<close>

lemma encode_ready_result:
  assumes "40 \<le> length out" "t \<noteq> 0"
  shows "encode_ready_for_profile p t out = (Ok 40, ready_bytes p t @ drop 40 out)"
proof -
  have f: "fill_zero_r 40 out = (Ok (), replicate 40 0 @ drop 40 out)"
    using assms(1) by (simp add: fill_zero_r_def write_r_def overwrite_def)
  from write_header_cleared [of "protocol_minor p" TYPE_READY 40 0 t "drop 40 out"] show ?thesis
    using assms by (simp add: f encode_ready_for_profile_def wrlp_sizes abind_def aret_def ready_bytes_def)
qed

end
