(* ===== verification/Supervision.thy ===== *)
theory Supervision
  imports LaunchProtoEncode
begin

text \<open>
  The observation of one started child (\<^verbatim>\<open>src/crates/wyrmroot-runtime/src/supervision.rs\<close>): its
  READY message on the launch channel, its exit, and the record of its termination. The three
  native operations (waiting, receiving a datagram, querying a termination record) are a parameter,
  a record of functions on a platform state, and so are the numbers of the kernel interface. The
  loops of the source are recursive functions; they are total for every platform.
\<close>

unbundle bit_operations_syntax

subsection \<open>The platform\<close>

record signal_abi =
  SIGNAL_READABLE :: u64
  SIGNAL_PEER_CLOSED :: u64
  SIGNAL_EXITED :: u64
  TASK_STATE_EXITED :: u32
  TERMINATION_NORMAL_EXIT :: u32
  TASK_TERMINATION_INFO_V1_SIZE :: u32
  DEADLINE_INFINITE :: u64

record termination_info =
  ti_size :: u32
  ti_version :: u32
  ti_state :: u32
  ti_reason :: u32
  ti_application_code :: u32
  ti_exception_type :: u32
  ti_detail :: u64
  ti_fault_address :: u64
  ti_reserved0 :: u32
  ti_reserved :: "u64 list"

record wait_item =
  w_handle :: u64
  w_signals :: u64

record wait_result =
  wr_index :: u32
  wr_observed :: u64

record channel_counts =
  rc_bytes :: nat
  rc_handles :: nat

text \<open>\<^verbatim>\<open>SupervisionPlatform\<close>: an operation gives an error or a value, and changes the platform's state.
  Receiving gives the counts and the contents of the caller's buffer after the call.\<close>

record ('s, 'pe) platform =
  pf_wait_many :: "wait_item list \<Rightarrow> u64 \<Rightarrow> 's \<Rightarrow> ('pe + wait_result) \<times> 's"
  pf_receive_channel :: "u64 \<Rightarrow> byte list \<Rightarrow> 's \<Rightarrow> ('pe + channel_counts \<times> byte list) \<times> 's"
  pf_query_task_termination :: "u64 \<Rightarrow> 's \<Rightarrow> ('pe + termination_info) \<times> 's"

definition call :: "('pe \<Rightarrow> 'e) \<Rightarrow> ('s \<Rightarrow> ('pe + 'a) \<times> 's) \<Rightarrow> ('s, 'e, 'a) action" where
  "call f m s = (case m s of (Inl e, s') \<Rightarrow> (Err (f e), s') | (Inr a, s') \<Rightarrow> (Ok a, s'))"

definition with_error :: "('d \<Rightarrow> 'e) \<Rightarrow> ('s, 'd, 'a) action \<Rightarrow> ('s, 'e, 'a) action" where
  "with_error f m s =
     (case m s of (Ok a, s') \<Rightarrow> (Ok a, s') | (Err e, s') \<Rightarrow> (Err (f e), s') | (Panic, s') \<Rightarrow> (Panic, s'))"

definition CHANNEL_SIGNALS :: "signal_abi \<Rightarrow> u64" where
  "CHANNEL_SIGNALS ab = SIGNAL_READABLE ab OR SIGNAL_PEER_CLOSED ab"

subsection \<open>Errors\<close>

datatype exit_validation_error =
    EV_InvalidEnvelope | EV_NotExited | EV_NotNormalExit | EV_NonzeroApplicationCode u32
  | EV_NonzeroExceptionFields

datatype 'pe exit_observed_readiness_error =
    ER_Platform 'pe | ER_InvalidWaitResult | ER_InvalidReadyReceive channel_counts
  | ER_Ready launch_error | ER_DuplicateReady

datatype 'pe supervision_error =
    SE_UnboundedDeadline | SE_Platform 'pe | SE_ExitQuery 'pe | SE_InvalidWaitResult
  | SE_InvalidReadyReceive channel_counts | SE_Ready launch_error | SE_ExitedBeforeReady
  | SE_PeerClosedBeforeReady | SE_DuplicateReady | SE_Exit exit_validation_error
  | SE_ExitObservedReadiness "'pe exit_observed_readiness_error"

datatype 'pe observed_supervision_error =
    OE_Supervision "'pe supervision_error"
  | OE_ExitedBeforeReady termination_info
  | OE_PeerClosedBeforeReady termination_info
  | OE_Exit exit_validation_error termination_info
  | OE_ExitObservedReadiness "'pe exit_observed_readiness_error" termination_info

definition validate_terminal_record :: "signal_abi \<Rightarrow> termination_info \<Rightarrow> (exit_validation_error, unit) res" where
  "validate_terminal_record ab info =
     (if ti_size info \<noteq> TASK_TERMINATION_INFO_V1_SIZE ab \<or> ti_version info \<noteq> 1 \<or>
         ti_reserved0 info \<noteq> 0 \<or> ti_reserved info \<noteq> [0, 0, 0]
      then Err EV_InvalidEnvelope
      else if ti_state info \<noteq> TASK_STATE_EXITED ab then Err EV_NotExited
      else Ok ())"

definition validate_successful_exit :: "signal_abi \<Rightarrow> termination_info \<Rightarrow> (exit_validation_error, unit) res" where
  "validate_successful_exit ab info =
     rbind (validate_terminal_record ab info) (\<lambda>_.
     if ti_reason info \<noteq> TERMINATION_NORMAL_EXIT ab then Err EV_NotNormalExit
     else if ti_application_code info \<noteq> 0 then Err (EV_NonzeroApplicationCode (ti_application_code info))
     else if ti_exception_type info \<noteq> 0 \<or> ti_detail info \<noteq> 0 \<or> ti_fault_address info \<noteq> 0
       then Err EV_NonzeroExceptionFields
     else Ok ())"

fun process_exit_observed :: "'pe supervision_error \<Rightarrow> bool" where
  "process_exit_observed SE_ExitedBeforeReady = True"
| "process_exit_observed SE_PeerClosedBeforeReady = True"
| "process_exit_observed (SE_ExitQuery _) = True"
| "process_exit_observed (SE_Exit _) = True"
| "process_exit_observed (SE_ExitObservedReadiness _) = True"
| "process_exit_observed _ = False"

fun observed_exit :: "'pe observed_supervision_error \<Rightarrow> bool" where
  "observed_exit (OE_Supervision SE_PeerClosedBeforeReady) = False"
| "observed_exit (OE_Supervision e) = process_exit_observed e"
| "observed_exit _ = True"

fun into_legacy :: "signal_abi \<Rightarrow> 'pe observed_supervision_error \<Rightarrow> 'pe supervision_error" where
  "into_legacy ab (OE_Supervision e) = e"
| "into_legacy ab (OE_ExitedBeforeReady info) =
     (case validate_successful_exit ab info of Err e \<Rightarrow> SE_Exit e | _ \<Rightarrow> SE_ExitedBeforeReady)"
| "into_legacy ab (OE_PeerClosedBeforeReady info) = SE_PeerClosedBeforeReady"
| "into_legacy ab (OE_Exit e info) = SE_Exit e"
| "into_legacy ab (OE_ExitObservedReadiness e info) = SE_ExitObservedReadiness e"

subsection \<open>The terminal drain of the launch channel\<close>

definition channel_item :: "signal_abi \<Rightarrow> u64 \<Rightarrow> wait_item" where
  "channel_item ab launch_channel = \<lparr>w_handle = launch_channel, w_signals = CHANNEL_SIGNALS ab\<rparr>"

definition process_item :: "signal_abi \<Rightarrow> u64 \<Rightarrow> wait_item" where
  "process_item ab process = \<lparr>w_handle = process, w_signals = SIGNAL_EXITED ab\<rparr>"

definition ready_counts :: channel_counts where
  "ready_counts = \<lparr>rc_bytes = WRLP_HEADER_BYTES, rc_handles = 0\<rparr>"

definition check_ready ::
  "(launch_error \<Rightarrow> 'e) \<Rightarrow> launch_profile \<Rightarrow> byte list \<Rightarrow> u64 \<Rightarrow> ('s, 'e, unit) action" where
  "check_ready f profile bytes transaction_id =
     with_error f (alift (parse_ready_for_profile profile bytes transaction_id))"

function drain_terminal_launch_channel ::
  "('s, 'pe) platform \<Rightarrow> signal_abi \<Rightarrow> u64 \<Rightarrow> launch_profile \<Rightarrow> u64 \<Rightarrow> bool \<Rightarrow> u64 \<Rightarrow>
     ('s, 'pe exit_observed_readiness_error, bool) action" where
  "drain_terminal_launch_channel pf ab launch_channel profile transaction_id ready deadline =
     abind (call ER_Platform (pf_wait_many pf [channel_item ab launch_channel] deadline)) (\<lambda>result.
     if wr_index result \<noteq> 0 \<or> wr_observed result AND CHANNEL_SIGNALS ab = 0
       then afail ER_InvalidWaitResult
     else if wr_observed result AND SIGNAL_READABLE ab \<noteq> 0 then
       abind (call ER_Platform (pf_receive_channel pf launch_channel (replicate WRLP_HEADER_BYTES 0))) (\<lambda>r.
       if fst r \<noteq> ready_counts then afail (ER_InvalidReadyReceive (fst r))
       else if ready then afail ER_DuplicateReady
       else
         abind (check_ready ER_Ready profile (snd r) transaction_id) (\<lambda>_.
         drain_terminal_launch_channel pf ab launch_channel profile transaction_id True deadline))
     else aret ready)"
  by pat_completeness auto
termination
  by (relation "measure (\<lambda>(pf, ab, launch_channel, profile, transaction_id, ready, deadline). if ready then 0 else 1)")
    auto

subsection \<open>Observation until exit\<close>

definition exit_result ::
  "signal_abi \<Rightarrow> termination_info \<Rightarrow> ('s, 'pe observed_supervision_error, termination_info) action" where
  "exit_result ab info =
     (case validate_successful_exit ab info of
        Err e \<Rightarrow> afail (OE_Exit e info)
      | Ok _ \<Rightarrow> aret info
      | Panic \<Rightarrow> alift Panic)"

function supervise_profile_state ::
  "('s, 'pe) platform \<Rightarrow> signal_abi \<Rightarrow> u64 \<Rightarrow> u64 \<Rightarrow> launch_profile \<Rightarrow> u64 \<Rightarrow> u64 \<Rightarrow> bool \<Rightarrow> bool \<Rightarrow>
     ('s, 'pe observed_supervision_error, termination_info) action" where
  "supervise_profile_state pf ab process launch_channel profile transaction_id deadline ready monitor_channel =
     (let wait_items = (if monitor_channel
        then [channel_item ab launch_channel, process_item ab process] else [process_item ab process]) in
      abind (call (\<lambda>e. OE_Supervision (SE_Platform e)) (pf_wait_many pf wait_items deadline)) (\<lambda>result.
      let index = unat (wr_index result) in
      if length wait_items \<le> index then afail (OE_Supervision SE_InvalidWaitResult)
      else if wr_observed result AND w_signals (wait_items ! index) = 0
        then afail (OE_Supervision SE_InvalidWaitResult)
      else if monitor_channel \<and> index = 0 then
        if wr_observed result AND SIGNAL_READABLE ab \<noteq> 0 then
          abind (call (\<lambda>e. OE_Supervision (SE_Platform e))
            (pf_receive_channel pf launch_channel (replicate WRLP_HEADER_BYTES 0))) (\<lambda>r.
          if fst r \<noteq> ready_counts then afail (OE_Supervision (SE_InvalidReadyReceive (fst r)))
          else if ready then afail (OE_Supervision SE_DuplicateReady)
          else
            abind (check_ready (\<lambda>e. OE_Supervision (SE_Ready e)) profile (snd r) transaction_id) (\<lambda>_.
            supervise_profile_state pf ab process launch_channel profile transaction_id deadline True monitor_channel))
        else
          supervise_profile_state pf ab process launch_channel profile transaction_id deadline ready False
      else if index \<noteq> 0 \<and> \<not> (monitor_channel \<and> index = 1) then afail (OE_Supervision SE_InvalidWaitResult)
      else
        abind (call (\<lambda>e. OE_Supervision (SE_ExitQuery e)) (pf_query_task_termination pf process)) (\<lambda>info.
        case validate_terminal_record ab info of
          Err e \<Rightarrow> afail (OE_Exit e info)
        | Panic \<Rightarrow> alift Panic
        | Ok _ \<Rightarrow>
            if \<not> monitor_channel then
              if ready then exit_result ab info else afail (OE_PeerClosedBeforeReady info)
            else
              abind (with_error (\<lambda>e. OE_ExitObservedReadiness e info)
                (drain_terminal_launch_channel pf ab launch_channel profile transaction_id ready deadline)) (\<lambda>ok.
              if ok then exit_result ab info else afail (OE_ExitedBeforeReady info)))))"
  by pat_completeness auto
termination
  by (relation "measure (\<lambda>(pf, ab, process, launch_channel, profile, transaction_id, deadline, ready, monitor).
      (if ready then 0 else 1) + (if monitor then 1 else 0))") auto

declare drain_terminal_launch_channel.simps [simp del]
declare supervise_profile_state.simps [simp del]

definition supervise_child_profile ::
  "('s, 'pe) platform \<Rightarrow> signal_abi \<Rightarrow> u64 \<Rightarrow> u64 \<Rightarrow> launch_profile \<Rightarrow> u64 \<Rightarrow> u64 \<Rightarrow>
     ('s, 'pe supervision_error, unit) action" where
  "supervise_child_profile pf ab process launch_channel profile transaction_id deadline =
     (if deadline = DEADLINE_INFINITE ab then afail SE_UnboundedDeadline
      else
        with_error (into_legacy ab)
          (abind (supervise_profile_state pf ab process launch_channel profile transaction_id deadline False True)
            (\<lambda>_. aret ())))"

definition supervise_child ::
  "('s, 'pe) platform \<Rightarrow> signal_abi \<Rightarrow> u64 \<Rightarrow> u64 \<Rightarrow> u64 \<Rightarrow> u64 \<Rightarrow> ('s, 'pe supervision_error, unit) action" where
  "supervise_child pf ab process launch_channel transaction_id deadline =
     supervise_child_profile pf ab process launch_channel Hello transaction_id deadline"

definition supervise_ready_child_profile ::
  "('s, 'pe) platform \<Rightarrow> signal_abi \<Rightarrow> u64 \<Rightarrow> u64 \<Rightarrow> launch_profile \<Rightarrow> u64 \<Rightarrow> u64 \<Rightarrow>
     ('s, 'pe observed_supervision_error, termination_info) action" where
  "supervise_ready_child_profile pf ab process launch_channel profile transaction_id lifetime_deadline =
     supervise_profile_state pf ab process launch_channel profile transaction_id lifetime_deadline True True"

subsection \<open>Observation until READY\<close>

text \<open>The query after an exit signal, and the error it leads to before READY.\<close>

definition query_before_ready ::
  "('s, 'pe) platform \<Rightarrow> signal_abi \<Rightarrow> u64 \<Rightarrow> (termination_info \<Rightarrow> 'pe observed_supervision_error) \<Rightarrow>
     ('s, 'pe observed_supervision_error, unit) action" where
  "query_before_ready pf ab process f =
     abind (call (\<lambda>e. OE_Supervision (SE_ExitQuery e)) (pf_query_task_termination pf process)) (\<lambda>info.
     case validate_terminal_record ab info of
       Err e \<Rightarrow> afail (OE_Exit e info)
     | Panic \<Rightarrow> alift Panic
     | Ok _ \<Rightarrow> afail (f info))"

definition await_child_ready_profile_observed ::
  "('s, 'pe) platform \<Rightarrow> signal_abi \<Rightarrow> u64 \<Rightarrow> u64 \<Rightarrow> launch_profile \<Rightarrow> u64 \<Rightarrow> u64 \<Rightarrow>
     ('s, 'pe observed_supervision_error, unit) action" where
  "await_child_ready_profile_observed pf ab process launch_channel profile transaction_id deadline =
     (let items = [channel_item ab launch_channel, process_item ab process] in
      if deadline = DEADLINE_INFINITE ab then afail (OE_Supervision SE_UnboundedDeadline)
      else
        abind (call (\<lambda>e. OE_Supervision (SE_Platform e)) (pf_wait_many pf items deadline)) (\<lambda>result.
        let index = unat (wr_index result) in
        if length items \<le> index then afail (OE_Supervision SE_InvalidWaitResult)
        else if wr_observed result AND w_signals (items ! index) = 0
          then afail (OE_Supervision SE_InvalidWaitResult)
        else if index = 1 then query_before_ready pf ab process OE_ExitedBeforeReady
        else if wr_observed result AND SIGNAL_READABLE ab = 0 then
          abind (call (\<lambda>e. OE_Supervision (SE_Platform e)) (pf_wait_many pf [process_item ab process] deadline)) (\<lambda>terminal.
          if wr_index terminal \<noteq> 0 \<or> wr_observed terminal AND SIGNAL_EXITED ab = 0
            then afail (OE_Supervision SE_InvalidWaitResult)
          else query_before_ready pf ab process OE_PeerClosedBeforeReady)
        else
          abind (call (\<lambda>e. OE_Supervision (SE_Platform e))
            (pf_receive_channel pf launch_channel (replicate WRLP_HEADER_BYTES 0))) (\<lambda>r.
          if fst r \<noteq> ready_counts then afail (OE_Supervision (SE_InvalidReadyReceive (fst r)))
          else check_ready (\<lambda>e. OE_Supervision (SE_Ready e)) profile (snd r) transaction_id)))"

definition await_child_ready_profile ::
  "('s, 'pe) platform \<Rightarrow> signal_abi \<Rightarrow> u64 \<Rightarrow> u64 \<Rightarrow> launch_profile \<Rightarrow> u64 \<Rightarrow> u64 \<Rightarrow>
     ('s, 'pe supervision_error, unit) action" where
  "await_child_ready_profile pf ab process launch_channel profile transaction_id deadline =
     with_error (into_legacy ab)
       (await_child_ready_profile_observed pf ab process launch_channel profile transaction_id deadline)"

end
