(* ===== verification/SupervisionProps.thy ===== *)
theory SupervisionProps
  imports Supervision
begin

text \<open>
  What an observation of a child establishes, for every platform. Any platform is wrapped so that
  it records its calls and their answers; the contract relates the result of an observation to the
  record: which datagrams were received, whether an exit was seen, what the last wait said, and how
  many calls were made.
\<close>

unbundle bit_operations_syntax

subsection \<open>Recorded calls\<close>

datatype 'pe event =
    Waited "wait_item list" "'pe + wait_result"
  | Received "'pe + channel_counts \<times> byte list"
  | Queried "'pe + termination_info"

definition recorded :: "('s, 'pe) platform \<Rightarrow> ('s \<times> 'pe event list, 'pe) platform" where
  "recorded pf =
     \<lparr>pf_wait_many = (\<lambda>items deadline (s, tr).
        let (r, s') = pf_wait_many pf items deadline s in (r, (s', tr @ [Waited items r]))),
      pf_receive_channel = (\<lambda>channel buffer (s, tr).
        let (r, s') = pf_receive_channel pf channel buffer s in (r, (s', tr @ [Received r]))),
      pf_query_task_termination = (\<lambda>process (s, tr).
        let (r, s') = pf_query_task_termination pf process s in (r, (s', tr @ [Queried r])))\<rparr>"

text \<open>The weakest preconditions of the recorded calls: the platform answers anything.\<close>

lemma wp_call_wait:
  assumes "\<And>r s'. Q r (s', snd s @ [Waited items (Inr r)])"
    and "\<And>e s'. E (f e) (s', snd s @ [Waited items (Inl e)])"
  shows "wp (call f (pf_wait_many (recorded pf) items deadline)) Q E s"
  using assms by (cases s) (auto simp: wp_def call_def recorded_def split: prod.splits sum.splits)

lemma wp_call_receive:
  assumes "\<And>r s'. Q r (s', snd s @ [Received (Inr r)])"
    and "\<And>e s'. E (f e) (s', snd s @ [Received (Inl e)])"
  shows "wp (call f (pf_receive_channel (recorded pf) channel buffer)) Q E s"
  using assms by (cases s) (auto simp: wp_def call_def recorded_def split: prod.splits sum.splits)

lemma wp_call_query:
  assumes "\<And>r s'. Q r (s', snd s @ [Queried (Inr r)])"
    and "\<And>e s'. E (f e) (s', snd s @ [Queried (Inl e)])"
  shows "wp (call f (pf_query_task_termination (recorded pf) process)) Q E s"
  using assms by (cases s) (auto simp: wp_def call_def recorded_def split: prod.splits sum.splits)

lemma wp_with_error: "wp (with_error f m) Q E s = wp m Q (\<lambda>e. E (f e)) s"
  by (auto simp: wp_def with_error_def split: prod.splits res.splits)

lemma wp_check_ready:
  assumes "transaction_id \<noteq> 0 \<Longrightarrow> bytes = ready_bytes profile transaction_id \<Longrightarrow> Q () s"
    and "\<And>e. E (f e) s"
  shows "wp (check_ready f profile bytes transaction_id) Q E s"
proof (cases "parse_ready_for_profile profile bytes transaction_id")
  case (Ok u)
  with parse_ready_iff [of profile bytes transaction_id] assms(1) show ?thesis
    by (simp add: check_ready_def wp_with_error wp_alift)
qed (use assms(2) parse_ready_no_panic in \<open>simp_all add: check_ready_def wp_with_error wp_alift\<close>)

subsection \<open>What the record says\<close>

text \<open>An exit was seen: a wait selected the process and its exit signal.\<close>

fun saw_exit :: "signal_abi \<Rightarrow> u64 \<Rightarrow> 'pe event \<Rightarrow> bool" where
  "saw_exit ab process (Waited items (Inr r)) \<longleftrightarrow>
     unat (wr_index r) < length items \<and> items ! unat (wr_index r) = process_item ab process \<and>
     wr_observed r AND SIGNAL_EXITED ab \<noteq> 0"
| "saw_exit ab process _ \<longleftrightarrow> False"

text \<open>The launch channel was seen closed with nothing left to read.\<close>

fun saw_drained :: "signal_abi \<Rightarrow> u64 \<Rightarrow> 'pe event \<Rightarrow> bool" where
  "saw_drained ab channel (Waited items (Inr r)) \<longleftrightarrow>
     unat (wr_index r) < length items \<and> items ! unat (wr_index r) = channel_item ab channel \<and>
     wr_observed r AND SIGNAL_PEER_CLOSED ab \<noteq> 0 \<and> wr_observed r AND SIGNAL_READABLE ab = 0"
| "saw_drained ab channel _ \<longleftrightarrow> False"

fun datagrams :: "'pe event list \<Rightarrow> (channel_counts \<times> byte list) list" where
  "datagrams [] = []"
| "datagrams (Received (Inr r) # es) = r # datagrams es"
| "datagrams (_ # es) = datagrams es"

fun waits :: "'pe event list \<Rightarrow> nat" where
  "waits [] = 0"
| "waits (Waited _ _ # es) = Suc (waits es)"
| "waits (_ # es) = waits es"

fun receives :: "'pe event list \<Rightarrow> nat" where
  "receives [] = 0"
| "receives (Received _ # es) = Suc (receives es)"
| "receives (_ # es) = receives es"

fun queries :: "'pe event list \<Rightarrow> ('pe + termination_info) list" where
  "queries [] = []"
| "queries (Queried r # es) = r # queries es"
| "queries (_ # es) = queries es"

lemma record_append [simp]:
  "datagrams (xs @ ys) = datagrams xs @ datagrams ys" "waits (xs @ ys) = waits xs + waits ys"
  "receives (xs @ ys) = receives xs + receives ys" "queries (xs @ ys) = queries xs @ queries ys"
proof -
  show "datagrams (xs @ ys) = datagrams xs @ datagrams ys" by (induction xs rule: datagrams.induct) simp_all
  show "waits (xs @ ys) = waits xs + waits ys" by (induction xs rule: waits.induct) simp_all
  show "receives (xs @ ys) = receives xs + receives ys" by (induction xs rule: receives.induct) simp_all
  show "queries (xs @ ys) = queries xs @ queries ys" by (induction xs rule: queries.induct) simp_all
qed

text \<open>A channel wait without the readable signal saw the peer close.\<close>

lemma closed_if_not_readable:
  "w AND CHANNEL_SIGNALS ab \<noteq> 0 \<Longrightarrow> w AND SIGNAL_READABLE ab = 0 \<Longrightarrow> w AND SIGNAL_PEER_CLOSED ab \<noteq> 0"
  by (auto simp: CHANNEL_SIGNALS_def bit.conj_disj_distrib)

lemma items_differ: "process \<noteq> channel \<Longrightarrow> channel_item ab channel \<noteq> process_item ab process"
  by (simp add: channel_item_def process_item_def)

lemma saw_exit_waits:
  assumes "process \<noteq> channel"
  shows "\<not> saw_exit ab process (Waited [channel_item ab channel] a)"
    and "saw_exit ab process (Waited [channel_item ab channel, process_item ab process] (Inr r)) \<longleftrightarrow>
      unat (wr_index r) = 1 \<and> wr_observed r AND SIGNAL_EXITED ab \<noteq> 0"
    and "saw_exit ab process (Waited [process_item ab process] (Inr r)) \<longleftrightarrow>
      unat (wr_index r) = 0 \<and> wr_observed r AND SIGNAL_EXITED ab \<noteq> 0"
proof -
  note d = items_differ [OF assms, of ab]
  show "\<not> saw_exit ab process (Waited [channel_item ab channel] a)"
    using d by (cases a) (auto simp: nth_Cons split: nat.splits)
  show "saw_exit ab process (Waited [channel_item ab channel, process_item ab process] (Inr r)) \<longleftrightarrow>
      unat (wr_index r) = 1 \<and> wr_observed r AND SIGNAL_EXITED ab \<noteq> 0"
    using d by (auto simp: less_Suc_eq nth_Cons split: nat.splits)
qed (auto simp: less_Suc_eq)

subsection \<open>The drain\<close>

definition drain_bounds :: "bool \<Rightarrow> 'pe event list \<Rightarrow> bool" where
  "drain_bounds ready es \<longleftrightarrow>
     waits es \<le> (if ready then 1 else 2) \<and> receives es \<le> (if ready then 1 else 2) \<and> queries es = []"

definition drain_ok ::
  "signal_abi \<Rightarrow> u64 \<Rightarrow> launch_profile \<Rightarrow> u64 \<Rightarrow> bool \<Rightarrow> bool \<Rightarrow> 'pe event list \<Rightarrow> bool" where
  "drain_ok ab channel profile t ready result es \<longleftrightarrow>
     (\<exists>xs ev. es = xs @ [ev] \<and> saw_drained ab channel ev \<and>
        datagrams xs = (if result \<and> \<not> ready then [(ready_counts, ready_bytes profile t)] else [])) \<and>
     (ready \<longrightarrow> result)"

lemma wp_if: "wp (if b then m else m') Q E s = (if b then wp m Q E s else wp m' Q E s)"
  by simp

definition drain_post where
  "drain_post ab process channel profile t ready L b s \<longleftrightarrow>
     (\<exists>es. snd s = L @ es \<and> drain_ok ab channel profile t ready b es \<and> drain_bounds ready es \<and>
        (\<forall>ev \<in> set es. \<not> saw_exit ab process ev))"

definition drain_err where
  "drain_err ab process ready L s \<longleftrightarrow>
     (\<exists>es. snd s = L @ es \<and> drain_bounds ready es \<and> (\<forall>ev \<in> set es. \<not> saw_exit ab process ev))"

lemma drain_contract_ready:
  assumes "process \<noteq> channel"
  shows "wp (drain_terminal_launch_channel (recorded pf) ab channel profile t True deadline)
    (drain_post ab process channel profile t True L) (\<lambda>e. drain_err ab process True L) (s0, L)"
  by (subst drain_terminal_launch_channel.simps)
    (auto intro!: wp_call_wait wp_call_receive
      simp: saw_exit_waits [OF assms] closed_if_not_readable wp_simps wp_if drain_post_def drain_err_def drain_ok_def drain_bounds_def
      simp del: saw_exit.simps(1) split: if_splits)

lemma drain_contract:
  assumes "process \<noteq> channel"
  shows "wp (drain_terminal_launch_channel (recorded pf) ab channel profile t ready deadline)
    (drain_post ab process channel profile t ready L) (\<lambda>e. drain_err ab process ready L) (s0, L)"
proof (cases ready)
  case True
  with drain_contract_ready [OF assms] show ?thesis by simp
next
  case False
  note nx = saw_exit_waits(1) [OF assms]
  have rec: "wp (drain_terminal_launch_channel (recorded pf) ab channel profile t True deadline)
      (drain_post ab process channel profile t False L) (\<lambda>e. drain_err ab process False L)
      (s', L @ [Waited [channel_item ab channel] w, Received (Inr (ready_counts, ready_bytes profile t))])"
    for s' w
  proof (rule wp_mono [OF drain_contract_ready [OF assms]])
    fix b s
    assume "drain_post ab process channel profile t True
      (L @ [Waited [channel_item ab channel] w, Received (Inr (ready_counts, ready_bytes profile t))]) b s"
    then obtain xs ev where "snd s = L @ [Waited [channel_item ab channel] w,
        Received (Inr (ready_counts, ready_bytes profile t))] @ xs @ [ev]" "saw_drained ab channel ev" "b"
      "datagrams xs = []" "drain_bounds True (xs @ [ev])" "\<forall>ev \<in> set (xs @ [ev]). \<not> saw_exit ab process ev"
      by (auto simp: drain_post_def drain_ok_def)
    then show "drain_post ab process channel profile t False L b s"
      unfolding drain_post_def
      by (intro exI [of _ "Waited [channel_item ab channel] w #
          Received (Inr (ready_counts, ready_bytes profile t)) # xs @ [ev]"])
        (auto simp: nx drain_ok_def drain_bounds_def simp del: saw_exit.simps(1)
          intro!: exI [of _ "Waited [channel_item ab channel] w # Received (Inr (ready_counts, ready_bytes profile t)) # xs"])
  next
    fix e s
    assume "drain_err ab process True
      (L @ [Waited [channel_item ab channel] w, Received (Inr (ready_counts, ready_bytes profile t))]) s"
    then show "drain_err ab process False L s"
      by (auto simp: nx drain_err_def drain_bounds_def simp del: saw_exit.simps(1))
  qed
  show ?thesis unfolding False [simplified]
    by (subst drain_terminal_launch_channel.simps)
     (auto intro!: wp_call_wait wp_call_receive wp_check_ready rec
      simp: nx closed_if_not_readable wp_simps wp_if drain_post_def drain_err_def drain_ok_def drain_bounds_def
      simp del: saw_exit.simps(1) split: if_splits)
qed

subsection \<open>Observation until exit\<close>

definition sup_bounds :: "bool \<Rightarrow> bool \<Rightarrow> 'pe event list \<Rightarrow> bool" where
  "sup_bounds ready monitor es \<longleftrightarrow>
     waits es \<le> (if ready \<or> \<not> monitor then 0 else 1) + (if monitor then 2 else 1) \<and>
     receives es \<le> (if \<not> monitor then 0 else if ready then 1 else 2) \<and> length (queries es) \<le> 1"

definition observed_ok ::
  "signal_abi \<Rightarrow> u64 \<Rightarrow> u64 \<Rightarrow> launch_profile \<Rightarrow> u64 \<Rightarrow> bool \<Rightarrow> bool \<Rightarrow> termination_info \<Rightarrow> 'pe event list \<Rightarrow> bool"
where
  "observed_ok ab process channel profile t ready monitor info es \<longleftrightarrow>
     queries es = [Inr info] \<and> validate_successful_exit ab info = Ok () \<and>
     (\<exists>ev \<in> set es. saw_exit ab process ev) \<and>
     (if monitor then
        \<exists>xs ys. es = xs @ ys \<and> datagrams ys = [] \<and> (\<exists>ev \<in> set ys. saw_drained ab channel ev) \<and>
          datagrams xs = (if ready then [] else [(ready_counts, ready_bytes profile t)])
      else ready \<and> datagrams es = [])"

definition sup_post where
  "sup_post ab process channel profile t ready monitor L info s \<longleftrightarrow>
     (\<exists>es. snd s = L @ es \<and> observed_ok ab process channel profile t ready monitor info es \<and> sup_bounds ready monitor es)"

definition sup_err where
  "sup_err ab process ready monitor L e s \<longleftrightarrow>
     (\<exists>es. snd s = L @ es \<and> sup_bounds ready monitor es \<and> e \<noteq> OE_Supervision SE_PeerClosedBeforeReady \<and>
        (observed_exit e \<longleftrightarrow> (\<exists>ev \<in> set es. saw_exit ab process ev)))"

lemma wp_exit_result:
  assumes "validate_successful_exit ab info = Ok () \<Longrightarrow> Q info s" "\<And>e. E (OE_Exit e info) s"
  shows "wp (exit_result ab info) Q E s"
proof -
  have "validate_successful_exit ab info \<noteq> Panic"
    by (simp add: validate_successful_exit_def validate_terminal_record_def)
  with assms show ?thesis by (auto simp: exit_result_def wp_simps split: res.splits)
qed

lemma nth_items:
  "\<not> Suc 0 \<le> i \<Longrightarrow> [a] ! i = a" "\<not> Suc (Suc 0) \<le> i \<Longrightarrow> [a, b] ! i = (if i = 0 then a else b)"
  by (auto simp: not_le less_Suc_eq)

lemma item_signals:
  "w_signals (process_item ab process) = SIGNAL_EXITED ab" "w_signals (channel_item ab channel) = CHANNEL_SIGNALS ab"
  by (simp_all add: process_item_def channel_item_def)

lemma validate_terminal_no_panic: "validate_terminal_record ab info \<noteq> Panic"
  by (simp add: validate_terminal_record_def)

lemmas sup_defs = sup_post_def sup_err_def observed_ok_def sup_bounds_def

text \<open>After the channel was closed only the process is observed.\<close>

lemma supervise_unmonitored:
  assumes "process \<noteq> channel"
  shows "wp (supervise_profile_state (recorded pf) ab process channel profile t deadline ready False)
    (sup_post ab process channel profile t ready False L) (sup_err ab process ready False L) (s0, L)"
  by (subst supervise_profile_state.simps)
    (auto intro!: wp_call_wait wp_call_query wp_exit_result
      simp: saw_exit_waits [OF assms] wp_simps wp_if Let_def sup_defs nth_items item_signals
        validate_terminal_no_panic simp del: saw_exit.simps(1) split: if_splits res.splits)

text \<open>The records of the continued observations, seen from before the step that led to them.\<close>

lemma sup_post_closed:
  assumes "process \<noteq> channel" "\<not> saw_exit ab process ev" "saw_drained ab channel ev" "\<exists>items r. ev = Waited items r"
  shows "sup_post ab process channel profile t True False (L @ [ev]) info s \<Longrightarrow>
      sup_post ab process channel profile t True True L info s"
    and "sup_err ab process ready False (L @ [ev]) e s \<Longrightarrow> sup_err ab process ready True L e s"
proof -
  obtain items r where ev: "ev = Waited items r" using assms(4) by blast
  assume "sup_post ab process channel profile t True False (L @ [ev]) info s"
  then obtain es where es: "snd s = L @ [ev] @ es" "observed_ok ab process channel profile t True False info es"
    "sup_bounds True False es" by (auto simp: sup_post_def)
  have "\<exists>xs ys. ev # es = xs @ ys \<and> datagrams ys = [] \<and> (\<exists>ev \<in> set ys. saw_drained ab channel ev) \<and> datagrams xs = []"
    using es(2) assms(3) by (intro exI [of _ "[]"] exI [of _ "ev # es"]) (auto simp: observed_ok_def ev)
  with es(2) have "observed_ok ab process channel profile t True True info (ev # es)"
    unfolding observed_ok_def ev by (simp del: saw_exit.simps(1))
  with es show "sup_post ab process channel profile t True True L info s"
    unfolding sup_post_def by (intro exI [of _ "ev # es"]) (auto simp: ev sup_bounds_def)
next
  obtain items r where ev: "ev = Waited items r" using assms(4) by blast
  assume "sup_err ab process ready False (L @ [ev]) e s"
  then obtain es where es: "snd s = L @ [ev] @ es" "sup_bounds ready False es"
    "e \<noteq> OE_Supervision SE_PeerClosedBeforeReady" "observed_exit e \<longleftrightarrow> (\<exists>ev \<in> set es. saw_exit ab process ev)"
    by (auto simp: sup_err_def)
  then show "sup_err ab process ready True L e s"
    unfolding sup_err_def using assms(2)
    by (intro exI [of _ "ev # es"]) (auto simp: ev sup_bounds_def simp del: saw_exit.simps(1) split: if_splits)
qed

lemma sup_post_ready:
  fixes profile :: launch_profile and t :: u64
  assumes "process \<noteq> channel" "\<not> saw_exit ab process (Waited items r)"
  defines "R \<equiv> Received (Inr (ready_counts, ready_bytes profile t))"
  shows "sup_post ab process channel profile t True True (L @ [Waited items r, R]) info s \<Longrightarrow>
      sup_post ab process channel profile t False True L info s"
    and "sup_err ab process True True (L @ [Waited items r, R]) e s \<Longrightarrow> sup_err ab process False True L e s"
proof -
  assume "sup_post ab process channel profile t True True (L @ [Waited items r, R]) info s"
  then obtain es where es: "snd s = L @ [Waited items r, R] @ es"
    "observed_ok ab process channel profile t True True info es" "sup_bounds True True es" by (auto simp: sup_post_def)
  from es(2) obtain xs ys where "es = xs @ ys" "datagrams ys = []" "\<exists>ev \<in> set ys. saw_drained ab channel ev"
    "datagrams xs = []" by (auto simp: observed_ok_def)
  then have "\<exists>xs ys. Waited items r # R # es = xs @ ys \<and> datagrams ys = [] \<and>
      (\<exists>ev \<in> set ys. saw_drained ab channel ev) \<and> datagrams xs = [(ready_counts, ready_bytes profile t)]"
    by (intro exI [of _ "Waited items r # R # xs"] exI [of _ ys]) (simp add: R_def)
  with es(2) have "observed_ok ab process channel profile t False True info (Waited items r # R # es)"
    unfolding observed_ok_def by (simp add: R_def del: saw_exit.simps(1))
  with es show "sup_post ab process channel profile t False True L info s"
    unfolding sup_post_def by (intro exI [of _ "Waited items r # R # es"]) (auto simp: R_def sup_bounds_def)
next
  assume "sup_err ab process True True (L @ [Waited items r, R]) e s"
  then obtain es where es: "snd s = L @ [Waited items r, R] @ es" "sup_bounds True True es"
    "e \<noteq> OE_Supervision SE_PeerClosedBeforeReady" "observed_exit e \<longleftrightarrow> (\<exists>ev \<in> set es. saw_exit ab process ev)"
    by (auto simp: sup_err_def)
  then show "sup_err ab process False True L e s"
    unfolding sup_err_def using assms(2)
    by (intro exI [of _ "Waited items r # R # es"])
      (auto simp: R_def sup_bounds_def simp del: saw_exit.simps(1) split: if_splits)
qed

text \<open>The exit was selected while the channel is still monitored: the channel is drained.\<close>

lemma supervise_drain:
  assumes "process \<noteq> channel" "saw_exit ab process (Waited items r)"
  shows "wp (abind (with_error (\<lambda>e. OE_ExitObservedReadiness e info)
        (drain_terminal_launch_channel (recorded pf) ab channel profile t ready deadline)) (\<lambda>ok.
        if ok then exit_result ab info else afail (OE_ExitedBeforeReady info)))
      (sup_post ab process channel profile t ready True L) (sup_err ab process ready True L)
      (s', L @ [Waited items r, Queried (Inr info)])"
  unfolding wp_abind wp_with_error
proof (rule wp_mono [OF drain_contract [OF assms(1)]])
  let ?pre = "[Waited items r, Queried (Inr info)]"
  fix ok s
  assume "drain_post ab process channel profile t ready (L @ ?pre) ok s"
  then obtain xs ev where s: "snd s = L @ ?pre @ xs @ [ev]" and ev: "saw_drained ab channel ev"
    and d: "datagrams xs = (if ok \<and> \<not> ready then [(ready_counts, ready_bytes profile t)] else [])"
    and r: "ready \<longrightarrow> ok" and b: "drain_bounds ready (xs @ [ev])"
    by (auto simp: drain_post_def drain_ok_def)
  have bounds: "sup_bounds ready True (?pre @ xs @ [ev])"
    using b by (auto simp: drain_bounds_def sup_bounds_def)
  have err: "sup_err ab process ready True L e s" if "observed_exit e" "e \<noteq> OE_Supervision SE_PeerClosedBeforeReady" for e
    unfolding sup_err_def using s bounds that assms(2)
    by (intro exI [of _ "?pre @ xs @ [ev]"]) (auto simp del: saw_exit.simps(1))
  have dev: "datagrams [ev] = []" using ev by (cases "(ab, channel, ev)" rule: saw_drained.cases) auto
  have "sup_post ab process channel profile t ready True L info s"
    if ok "validate_successful_exit ab info = Ok ()"
  proof -
    have "\<exists>xs' ys. ?pre @ xs @ [ev] = xs' @ ys \<and> datagrams ys = [] \<and> (\<exists>ev \<in> set ys. saw_drained ab channel ev) \<and>
        datagrams xs' = (if ready then [] else [(ready_counts, ready_bytes profile t)])"
      using d dev ev that(1) by (intro exI [of _ "?pre @ xs"] exI [of _ "[ev]"]) simp
    moreover have "queries (?pre @ xs @ [ev]) = [Inr info]" using b by (simp add: drain_bounds_def)
    ultimately show ?thesis unfolding sup_post_def observed_ok_def using s bounds that(2) assms(2)
      by (intro exI [of _ "?pre @ xs @ [ev]"]) (simp del: saw_exit.simps(1))
  qed
  then show "wp (if ok then exit_result ab info else afail (OE_ExitedBeforeReady info))
      (sup_post ab process channel profile t ready True L) (sup_err ab process ready True L) s"
    by (auto intro!: wp_exit_result err simp: wp_if wp_simps)
next
  let ?pre = "[Waited items r, Queried (Inr info)]"
  fix e s
  assume "drain_err ab process ready (L @ ?pre) s"
  then obtain es where "snd s = L @ ?pre @ es" "drain_bounds ready es" by (auto simp: drain_err_def)
  then show "sup_err ab process ready True L (OE_ExitObservedReadiness e info) s"
    unfolding sup_err_def using assms(2)
    by (intro exI [of _ "?pre @ es"]) (auto simp: drain_bounds_def sup_bounds_def simp del: saw_exit.simps(1))
qed

text \<open>The channel was closed with nothing to read: the observation goes on without it.\<close>

lemma supervise_closed:
  fixes pf :: "('s, 'pe) platform"
  defines "items \<equiv> \<lambda>ab process channel. [channel_item ab channel, process_item ab process]"
  assumes ne: "process \<noteq> channel" and r: "unat (wr_index r) = 0" "wr_observed r AND CHANNEL_SIGNALS ab \<noteq> 0"
    "wr_observed r AND SIGNAL_READABLE ab = 0"
  shows "wp (supervise_profile_state (recorded pf) ab process channel profile t deadline ready False)
    (sup_post ab process channel profile t ready True L) (sup_err ab process ready True L)
    (s', L @ [Waited (items ab process channel) (Inr r)])"
proof -
  let ?ev = "Waited (items ab process channel) (Inr r) :: 'pe event"
  have ev: "\<not> saw_exit ab process ?ev" "saw_drained ab channel ?ev" "\<exists>items a. ?ev = Waited items a"
    using r closed_if_not_readable by (auto simp: items_def saw_exit_waits [OF ne] simp del: saw_exit.simps(1))
  show ?thesis
  proof (rule wp_mono [OF supervise_unmonitored [OF ne]])
    fix info and s :: "'s \<times> 'pe event list"
    assume p: "sup_post ab process channel profile t ready False (L @ [?ev]) info s"
    then have ready by (auto simp: sup_post_def observed_ok_def)
    with p sup_post_closed(1) [OF ne ev] show "sup_post ab process channel profile t ready True L info s" by simp
  qed (rule sup_post_closed(2) [OF ne ev])
qed

text \<open>One round with both items: what follows a ready message is a parameter.\<close>

lemma supervise_monitored:
  fixes pf :: "('s, 'pe) platform"
  assumes ne: "process \<noteq> channel"
    and next_ready: "\<And>r s'. \<not> ready \<Longrightarrow> unat (wr_index r) = 0 \<Longrightarrow>
      wp (supervise_profile_state (recorded pf) ab process channel profile t deadline True True)
        (sup_post ab process channel profile t ready True L) (sup_err ab process ready True L)
        (s', L @ [Waited [channel_item ab channel, process_item ab process] (Inr r),
          Received (Inr (ready_counts, ready_bytes profile t))])"
  shows "wp (supervise_profile_state (recorded pf) ab process channel profile t deadline ready True)
    (sup_post ab process channel profile t ready True L) (sup_err ab process ready True L) (s0, L)"
proof -
  note se = saw_exit_waits [OF ne]
  note closed = supervise_closed [OF ne]
  note calls = wp_abind [of "call f m" for f m] wp_abind [of "check_ready f p b t" for f p b t]
  have one: "\<not> Suc (Suc 0) \<le> i \<Longrightarrow> (i = Suc 0) = (0 < i)" for i :: nat by auto
  show ?thesis
  proof (cases ready)
    case True
    then have r: "ready = True" by simp
    show ?thesis unfolding r
      by (subst supervise_profile_state.simps)
        (auto intro!: wp_call_wait wp_call_receive wp_call_query wp_check_ready closed supervise_drain [OF ne]
          simp: se one calls wp_afail wp_if Let_def nth_items item_signals validate_terminal_no_panic sup_err_def
            sup_bounds_def simp del: saw_exit.simps(1) split: res.splits)
  next
    case False
    then have r: "ready = False" by simp
    show ?thesis unfolding r
      by (subst supervise_profile_state.simps)
        (auto intro!: wp_call_wait wp_call_receive wp_call_query wp_check_ready closed
            next_ready [unfolded r] supervise_drain [OF ne]
          simp: se one calls wp_afail wp_if Let_def nth_items item_signals validate_terminal_no_panic sup_err_def
            sup_bounds_def simp del: saw_exit.simps(1) split: res.splits)
  qed
qed

lemma supervise_contract:
  fixes pf :: "('s, 'pe) platform"
  assumes "process \<noteq> channel"
  shows "wp (supervise_profile_state (recorded pf) ab process channel profile t deadline ready True)
    (sup_post ab process channel profile t ready True L) (sup_err ab process ready True L) (s0, L)"
proof (rule supervise_monitored [OF assms])
  fix r :: wait_result and s' :: 's
  assume "\<not> ready" and r: "unat (wr_index r) = 0"
  then have f: "ready = False" by simp
  have ready: "wp (supervise_profile_state (recorded pf) ab process channel profile t deadline True True)
      (sup_post ab process channel profile t True True L') (sup_err ab process True True L') (s', L')" for L'
    by (rule supervise_monitored [OF assms]) simp
  let ?w = "Waited [channel_item ab channel, process_item ab process] (Inr r) :: 'pe event"
  have "\<not> saw_exit ab process ?w" using r by (simp add: saw_exit_waits [OF assms] del: saw_exit.simps(1))
  note shift = sup_post_ready [OF assms this]
  show "wp (supervise_profile_state (recorded pf) ab process channel profile t deadline True True)
      (sup_post ab process channel profile t ready True L) (sup_err ab process ready True L)
      (s', L @ [?w, Received (Inr (ready_counts, ready_bytes profile t))])"
    unfolding f by (rule wp_mono [OF ready]) (erule shift)+
qed

subsection \<open>Observation until READY\<close>

definition await_bounds :: "'pe event list \<Rightarrow> bool" where
  "await_bounds es \<longleftrightarrow> waits es \<le> 2 \<and> receives es \<le> 1 \<and> length (queries es) \<le> 1"

definition await_post where
  "await_post profile t s \<longleftrightarrow>
     (\<exists>items r. snd s = [Waited items (Inr r), Received (Inr (ready_counts, ready_bytes profile t))])"

definition await_err where
  "await_err ab process e s \<longleftrightarrow>
     await_bounds (snd s) \<and> e \<noteq> OE_Supervision SE_PeerClosedBeforeReady \<and>
     (observed_exit e \<longleftrightarrow> (\<exists>ev \<in> set (snd s). saw_exit ab process ev))"

lemma await_contract:
  assumes "process \<noteq> channel"
  shows "wp (await_child_ready_profile_observed (recorded pf) ab process channel profile t deadline)
    (\<lambda>_. await_post profile t) (await_err ab process) (s0, [])"
proof -
  have one: "\<not> Suc (Suc 0) \<le> i \<Longrightarrow> (i = Suc 0) = (0 < i)" for i :: nat by auto
  have idx: "(wr_index r = 0) = (unat (wr_index r) = 0)" for r :: wait_result by (simp add: unat_eq_0)
  show ?thesis
    by (auto intro!: wp_call_wait wp_call_receive wp_call_query wp_check_ready
        simp: await_child_ready_profile_observed_def query_before_ready_def saw_exit_waits [OF assms] one idx wp_simps wp_if
          Let_def nth_items item_signals validate_terminal_no_panic await_post_def await_err_def await_bounds_def
        simp del: saw_exit.simps(1) split: res.splits)
qed

subsection \<open>What the callers learn\<close>

lemma legacy_exit_observed:
  "e \<noteq> OE_Supervision SE_PeerClosedBeforeReady \<Longrightarrow>
     process_exit_observed (into_legacy ab e) \<longleftrightarrow> observed_exit e"
  by (cases e rule: observed_exit.cases) (auto split: res.splits)

text \<open>C4. A successful observation of a child means what it says, on every platform: exactly one
  datagram was taken from the launch channel, it carried no handle and was byte for byte the READY
  message of the launch's profile and transaction; after it the channel was seen closed with nothing
  left to read, so no second message was overlooked; the exit of the process was signalled, and the
  one termination record that was queried is a well-formed normal exit with code zero. For a child
  whose READY was accepted before, no datagram at all was taken and the record is the result.\<close>

theorem supervision_success_explained:
  assumes "process \<noteq> channel"
  shows "(supervise_child_profile (recorded pf) ab process channel profile t deadline (s, []) = (Ok (), (s', es)) \<longrightarrow>
      (\<exists>info xs ys. queries es = [Inr info] \<and> validate_successful_exit ab info = Ok () \<and>
        (\<exists>ev \<in> set es. saw_exit ab process ev) \<and> es = xs @ ys \<and>
        datagrams xs = [(ready_counts, ready_bytes profile t)] \<and> datagrams ys = [] \<and>
        (\<exists>ev \<in> set ys. saw_drained ab channel ev))) \<and>
    (supervise_ready_child_profile (recorded pf) ab process channel profile t deadline (s, []) = (Ok info, (s', es)) \<longrightarrow>
      queries es = [Inr info] \<and> validate_successful_exit ab info = Ok () \<and>
      (\<exists>ev \<in> set es. saw_exit ab process ev) \<and> datagrams es = [] \<and>
      (\<exists>ev \<in> set es. saw_drained ab channel ev))"
proof (intro conjI impI)
  assume "supervise_child_profile (recorded pf) ab process channel profile t deadline (s, []) = (Ok (), (s', es))"
  then obtain info where "supervise_profile_state (recorded pf) ab process channel profile t deadline False True (s, []) =
      (Ok info, (s', es))"
    by (auto simp: supervise_child_profile_def with_error_def abind_def aret_def afail_def
        split: if_splits prod.splits res.splits)
  from wp_Ok [OF supervise_contract [OF assms] this]
  have "observed_ok ab process channel profile t False True info es" by (simp add: sup_post_def)
  then show "\<exists>info xs ys. queries es = [Inr info] \<and> validate_successful_exit ab info = Ok () \<and>
      (\<exists>ev \<in> set es. saw_exit ab process ev) \<and> es = xs @ ys \<and>
      datagrams xs = [(ready_counts, ready_bytes profile t)] \<and> datagrams ys = [] \<and>
      (\<exists>ev \<in> set ys. saw_drained ab channel ev)"
    unfolding observed_ok_def if_True if_False by blast
next
  assume "supervise_ready_child_profile (recorded pf) ab process channel profile t deadline (s, []) = (Ok info, (s', es))"
  from wp_Ok [OF supervise_contract [OF assms] this [unfolded supervise_ready_child_profile_def]]
  have "observed_ok ab process channel profile t True True info es" by (simp add: sup_post_def)
  then show "queries es = [Inr info]" "validate_successful_exit ab info = Ok ()"
    "\<exists>ev \<in> set es. saw_exit ab process ev" "datagrams es = []" "\<exists>ev \<in> set es. saw_drained ab channel ev"
    unfolding observed_ok_def if_True by auto
qed

text \<open>An observation ends within a number of calls and its error says whether an exit was seen.\<close>

definition exit_reported ::
  "signal_abi \<Rightarrow> u64 \<Rightarrow> ('e \<Rightarrow> bool) \<Rightarrow> nat \<Rightarrow> nat \<Rightarrow> ('e, 'a) res \<times> 's \<times> 'pe event list \<Rightarrow> bool" where
  "exit_reported ab process seen max_waits max_receives outcome \<longleftrightarrow>
     (case outcome of (r, s, es) \<Rightarrow>
        r \<noteq> Panic \<and> waits es \<le> max_waits \<and> receives es \<le> max_receives \<and> length (queries es) \<le> 1 \<and>
        (case r of Err e \<Rightarrow> seen e = (\<exists>ev \<in> set es. saw_exit ab process ev) | _ \<Rightarrow> True))"

lemma exit_reportedI:
  assumes "wp m (\<lambda>_ s. waits (snd s) \<le> w \<and> receives (snd s) \<le> d \<and> length (queries (snd s)) \<le> 1)
    (\<lambda>e s. waits (snd s) \<le> w \<and> receives (snd s) \<le> d \<and> length (queries (snd s)) \<le> 1 \<and>
       seen e = (\<exists>ev \<in> set (snd s). saw_exit ab process ev)) s0"
  shows "exit_reported ab process seen w d (m s0)"
  using assms by (auto simp: wp_def exit_reported_def split: prod.splits res.splits)

lemma supervise_state_reported:
  assumes "process \<noteq> channel"
  shows "wp (supervise_profile_state (recorded pf) ab process channel profile t deadline ready True)
    (\<lambda>_ s. sup_bounds ready True (snd s)) (\<lambda>e s. sup_bounds ready True (snd s) \<and>
       e \<noteq> OE_Supervision SE_PeerClosedBeforeReady \<and>
       observed_exit e = (\<exists>ev \<in> set (snd s). saw_exit ab process ev)) (s, [])"
  by (rule wp_mono [OF supervise_contract [OF assms]]) (auto simp: sup_post_def sup_err_def)

text \<open>C5. Observing a child ends after a few calls whatever the platform answers, and its errors
  classify liveness exactly. Supervision until exit makes at most three waits, two receives and one
  query (two and one for a child that was ready before), awaiting READY at most two waits, one
  receive and one query; none of them panics. An error is flagged as produced after the process was
  observed to exit precisely when a wait had selected the process with its exit signal, so cleanup
  neither terminates a process that has exited nor skips the termination of one that may live. The
  conversion to the older error type keeps the flag.\<close>

theorem supervision_reports_exit:
  assumes "process \<noteq> channel"
  shows "exit_reported ab process process_exit_observed 3 2
      (supervise_child_profile (recorded pf) ab process channel profile t deadline (s, [])) \<and>
    exit_reported ab process observed_exit 2 1
      (supervise_ready_child_profile (recorded pf) ab process channel profile t deadline (s, [])) \<and>
    exit_reported ab process process_exit_observed 2 1
      (await_child_ready_profile (recorded pf) ab process channel profile t deadline (s, []))"
proof (intro conjI)
  show "exit_reported ab process process_exit_observed 3 2
      (supervise_child_profile (recorded pf) ab process channel profile t deadline (s, []))"
    unfolding supervise_child_profile_def
    by (intro exit_reportedI)
      (auto simp: wp_if wp_with_error wp_abind wp_aret wp_afail sup_bounds_def legacy_exit_observed
        intro!: wp_mono [OF supervise_state_reported [OF assms]])
  show "exit_reported ab process observed_exit 2 1
      (supervise_ready_child_profile (recorded pf) ab process channel profile t deadline (s, []))"
    unfolding supervise_ready_child_profile_def
    by (intro exit_reportedI wp_mono [OF supervise_state_reported [OF assms]]) (auto simp: sup_bounds_def)
  show "exit_reported ab process process_exit_observed 2 1
      (await_child_ready_profile (recorded pf) ab process channel profile t deadline (s, []))"
    unfolding await_child_ready_profile_def
    by (intro exit_reportedI)
      (auto simp: wp_with_error await_post_def await_err_def await_bounds_def legacy_exit_observed
        intro!: wp_mono [OF await_contract [OF assms]])
qed

subsection \<open>Two runs\<close>

definition sample_abi :: signal_abi where
  "sample_abi = \<lparr>SIGNAL_READABLE = 1, SIGNAL_PEER_CLOSED = 2, SIGNAL_EXITED = 4, TASK_STATE_EXITED = 3,
     TERMINATION_NORMAL_EXIT = 1, TASK_TERMINATION_INFO_V1_SIZE = 64, DEADLINE_INFINITE = - 1\<rparr>"

definition sample_exit :: termination_info where
  "sample_exit = \<lparr>ti_size = 64, ti_version = 1, ti_state = 3, ti_reason = 1, ti_application_code = 0,
     ti_exception_type = 0, ti_detail = 0, ti_fault_address = 0, ti_reserved0 = 0, ti_reserved = [0, 0, 0]\<rparr>"

text \<open>A platform that answers its waits from a script and delivers the READY of transaction 7.\<close>

definition scripted :: "(wait_result list, unit) platform" where
  "scripted =
     \<lparr>pf_wait_many = (\<lambda>items deadline ws. case ws of [] \<Rightarrow> (Inl (), []) | w # ws \<Rightarrow> (Inr w, ws)),
      pf_receive_channel = (\<lambda>channel buffer ws. (Inr (ready_counts, ready_bytes Hello 7), ws)),
      pf_query_task_termination = (\<lambda>process ws. (Inr sample_exit, ws))\<rparr>"

definition orderly_waits :: "wait_result list" where
  "orderly_waits = [\<lparr>wr_index = 0, wr_observed = 1\<rparr>, \<lparr>wr_index = 0, wr_observed = 2\<rparr>, \<lparr>wr_index = 0, wr_observed = 4\<rparr>]"

definition silent_waits :: "wait_result list" where
  "silent_waits = [\<lparr>wr_index = 1, wr_observed = 4\<rparr>, \<lparr>wr_index = 0, wr_observed = 2\<rparr>]"

lemma orderly_run:
  "fst (supervise_child_profile (recorded scripted) sample_abi 1 2 Hello 7 100 (orderly_waits, [])) = Ok ()"
  by code_simp

lemma silent_run:
  "fst (supervise_child_profile (recorded scripted) sample_abi 1 2 Hello 7 100 (silent_waits, [])) = Err SE_ExitedBeforeReady"
  by code_simp

theorem supervision_success_explained_witness:
  "\<exists>s' es xs ys. supervise_child_profile (recorded scripted) sample_abi 1 2 Hello 7 100 (orderly_waits, []) =
      (Ok (), (s', es)) \<and> es = xs @ ys \<and> datagrams xs = [(ready_counts, ready_bytes Hello 7)] \<and>
    datagrams ys = [] \<and> (\<exists>ev \<in> set ys. saw_drained sample_abi 2 ev) \<and> (\<exists>ev \<in> set es. saw_exit sample_abi 1 ev)"
proof -
  obtain s' es where r: "supervise_child_profile (recorded scripted) sample_abi 1 2 Hello 7 100 (orderly_waits, []) =
      (Ok (), (s', es))" using orderly_run by (metis prod.collapse)
  have "(1 :: u64) \<noteq> 2" by simp
  from supervision_success_explained [OF this, THEN conjunct1, THEN mp, OF r] r show ?thesis by blast
qed

theorem supervision_reports_exit_witness:
  "\<exists>s' es. supervise_child_profile (recorded scripted) sample_abi 1 2 Hello 7 100 (silent_waits, []) =
      (Err SE_ExitedBeforeReady, (s', es)) \<and> waits es \<le> 3 \<and> (\<exists>ev \<in> set es. saw_exit sample_abi 1 ev)"
proof -
  obtain s' es where r: "supervise_child_profile (recorded scripted) sample_abi 1 2 Hello 7 100 (silent_waits, []) =
      (Err SE_ExitedBeforeReady, (s', es))" using silent_run by (metis prod.collapse)
  have "(1 :: u64) \<noteq> 2" by simp
  from supervision_reports_exit [OF this, of sample_abi scripted Hello 7 100 silent_waits, THEN conjunct1] r
  show ?thesis by (auto simp: exit_reported_def)
qed

end
