(* ===== verification/Spec2Isabelle.thy ===== *)
theory Spec2Isabelle
  imports StreamProto RegistryProps RegistryServiceStops RestartEnds AccountingReplay ElfSafe CorrelationEnv ShellRedraw ShellCommand
    Uart16550Props BootfsRoundTrip StartupRoundTrip LaunchPolicyProps SupervisionProps
begin

text \<open>
  \<^bold>\<open>Wyrmroot.\<close> Wyrmroot is the userspace of a capability operating system: typed wire protocols
  between services, a boot archive, a loader, a service registry, a supervised set of processes, a serial
  driver and an interactive shell. This
  development models the parts that carry its own logic as HOL functions and proves them correct. The
  kernel, system calls and devices are outside of it.

  \<^bold>\<open>Conventions.\<close> \<^verbatim>\<open>Prelude\<close> and \<^verbatim>\<open>Bytes\<close> are the common ground. A fallible function returns
  \<open>(error, value) res\<close>, with \<open>Ok\<close>, \<open>Err\<close> and \<open>Panic\<close>: an index out of range, a failed
  \<^verbatim>\<open>expect\<close>, an arithmetic overflow in a checked build or a failed debug assertion is the value
  \<open>Panic\<close>, so that its absence is something to prove. A method with \<^verbatim>\<open>&mut self\<close> is an action: a function
  from the state to the result and the new state, which an error keeps as the code leaves it. Integers
  of a fixed width are words; \<^verbatim>\<open>usize\<close> values that are bounded by the length of an array are naturals.
  Fixed-size arrays are lists whose length is part of the invariants. \<^verbatim>\<open>Utf8\<close> models the encoding,
  the validation and the slicing of Rust strings, \<^verbatim>\<open>Decimal\<close> the decimal numbers.

  \<^bold>\<open>Stream records\<close> (\<^verbatim>\<open>crates/wyrmroot-stream-proto\<close>; theory \<^verbatim>\<open>StreamProto\<close>). The WRSD record
  encoder and decoder; they are inverse and the decoder accepts canonical records only.

  \<^bold>\<open>Registry protocol\<close> (\<^verbatim>\<open>crates/wyrmroot-registry-proto\<close>). \<^verbatim>\<open>RegistryProto\<close> has the message types
  and validation, \<^verbatim>\<open>RegistryWire\<close> the header and body parsers, \<^verbatim>\<open>RegistryEncode\<close> the encoders.
  \<^verbatim>\<open>RegistryCodec\<close> and \<^verbatim>\<open>RegistryList\<close> prove the round trips of the messages and of the service
  list pages, \<^verbatim>\<open>RegistrySound\<close> that only valid messages are accepted, that the parser is total without
  overflow checks, and the one datagram shape on which it panics with them. Whether overflow checks are
  compiled in is a parameter of the parser. \<^verbatim>\<open>CorrelationEnv\<close> has the environment strings that hand a
  service its identity; printing and parsing are inverse.

  \<^bold>\<open>Registry state\<close> (\<^verbatim>\<open>userspace/registryd/src/lib.rs\<close>). \<^verbatim>\<open>Replay\<close> is the transaction replay window,
  with its abstract contract as a locale that both window sizes interpret. \<^verbatim>\<open>RegistryState\<close> has the
  state record and every operation; \<^verbatim>\<open>RegistryInv\<close> the invariant; \<^verbatim>\<open>RegistryNotify\<close>,
  \<^verbatim>\<open>RegistryOps\<close> and \<^verbatim>\<open>RegistryReach\<close> prove that each operation keeps it without a panic and define
  the reachable states as an inductive relation over calls in any order; \<^verbatim>\<open>RegistryProps\<close> holds the
  properties: no panic of any call, no lost wake-up, exact lookup, canonical enumeration, endpoint
  identities never reused, increasing generations.

  \<^bold>\<open>Registry service\<close> (\<^verbatim>\<open>userspace/registryd/src/service.rs\<close>). \<^verbatim>\<open>RegistryService\<close> is the service
  step over the registry state and the wire protocol: the control channel, the requests of endpoints,
  replies, notifications, the removal of peers and the sweep over closed ones. The \<^verbatim>\<open>Transport\<close> trait is
  a record of functions and a parameter; the only thing assumed of it is that receiving keeps the length
  of its buffers, which is the type of a slice. \<^verbatim>\<open>RegistryServiceInv\<close>, \<^verbatim>\<open>RegistryServiceSafe\<close> and
  \<^verbatim>\<open>RegistryServiceStep\<close> show that every encoder is called with valid arguments and a large enough
  buffer and that every handler keeps the invariant. \<^verbatim>\<open>RegistryServiceRun\<close> has a kernel that plays a script of
  datagrams and what a step does with a datagram that an encoder wrote, for concrete runs.
  \<^verbatim>\<open>RegistryServiceProps\<close> concludes that a process built without overflow checks never panics, whatever the
  kernel delivers (with them, only a message on the control channel can make it panic);
  \<^verbatim>\<open>RegistryServiceStops\<close> has the run, from the first step on, that one client ends by an error.

  \<^bold>\<open>Restart supervisor\<close> (\<^verbatim>\<open>crates/wyrmroot-runtime/src/supervision/restart.rs\<close>). \<^verbatim>\<open>Restart\<close> is the
  state machine of one supervised service, one definition per event. \<^verbatim>\<open>RestartInv\<close> has the invariant
  (attempts, history, deadlines and generations agree) and what each refusal means. \<^verbatim>\<open>RestartProps\<close> has the
  reachable supervisors as an inductive relation that keeps a log of the events with their results, the
  bound on the attempts, that a replacement follows an accepted report of a complete cleanup and the
  backoff, and that stale events are refused; \<^verbatim>\<open>RestartEnds\<close> bounds the accepted events of an episode by a
  measure on the state, which only a new episode or an admitted recovery renews, and has the window with
  which a supervisor gets stuck. The clock is a parameter of every event and nothing is assumed of it: a
  deadline that does not fit into 64 bits is the error the code reports, and the theorems say when.

  \<^bold>\<open>Resource ledger\<close> (\<^verbatim>\<open>crates/wyrmroot-runtime/src/bounded_accounting.rs\<close>). \<^verbatim>\<open>Accounting\<close> has the
  budgets, the tokens and every operation; it takes the attempt records of the supervisor.
  \<^verbatim>\<open>AccountingInv\<close> has the invariant and the operations on generations and reservations,
  \<^verbatim>\<open>AccountingTx\<close> the transactions, whose FIFO of completed ones interprets the same replay window
  contract as the registry. \<^verbatim>\<open>AccountingTokens\<close> puts the ledger beside the tokens it handed out,
  \<^verbatim>\<open>AccountingSteps\<close> proves that every call keeps the two in balance or changes nothing,
  \<^verbatim>\<open>AccountingProps\<close> and \<^verbatim>\<open>AccountingReplay\<close> hold the properties; a replay is refused while its peer has
  completed fewer others than it remembers and its generation was not retired.

  \<^bold>\<open>Executable parser\<close> (\<^verbatim>\<open>crates/wyrmroot-loader/src/elf.rs\<close>). \<^verbatim>\<open>Elf\<close> has the checks of the header, of
  the program headers and of every load segment, and the plan; \<^verbatim>\<open>ElfSafe\<close> proves that no input makes it
  panic and what an accepted plan guarantees: segments inside the file, disjoint page aligned mappings in
  user space away from the stack, and an entry point in executable code.

  \<^bold>\<open>Startup blocks\<close> (\<^verbatim>\<open>crates/wyrmroot-loader/src/image.rs\<close> writes, \<^verbatim>\<open>crates/wyrmroot-runtime/src/startup.rs\<close>
  reads). \<^verbatim>\<open>StartupWrite\<close> has the blocks of both versions and the version 2 plan with its limits, \<^verbatim>\<open>Startup\<close>
  the parser of the child and its accessors. \<^verbatim>\<open>StartupSafe\<close>: no registers, address and bytes make the
  parser panic, and what it accepts is readable. \<^verbatim>\<open>StartupRoundTrip\<close>: the child sees exactly the channel,
  the arguments and the environment the loader was given.

  \<^bold>\<open>Boot archive\<close> (\<^verbatim>\<open>crates/wyrmroot-bootfs\<close>). \<^verbatim>\<open>BootfsPath\<close> has the limits and the canonical paths,
  \<^verbatim>\<open>BootfsArchive\<close> the record parser, the validation of a whole archive, the iterator and the lookup,
  \<^verbatim>\<open>BootfsBuilder\<close> the builder, with the host allocator as a parameter. \<^verbatim>\<open>BootfsArchiveProps\<close>: validation
  never panics and an accepted archive has canonical ascending paths; \<^verbatim>\<open>BootfsRoundTrip\<close>: what is built reads
  back as the files added, and building succeeds exactly within the limits.

  \<^bold>\<open>Launch policy\<close> (\<^verbatim>\<open>crates/wyrmroot-bootfs/src/launch_policy.rs\<close>). \<^verbatim>\<open>LaunchPolicy\<close> has the parser, the
  lookup and the encoders; \<^verbatim>\<open>LaunchPolicyCanon\<close> the exact bytes of a policy and that the parser accepts no
  others; \<^verbatim>\<open>LaunchPolicyProps\<close> the safety and the round trip.

  \<^bold>\<open>Launch protocol\<close> (\<^verbatim>\<open>crates/wyrmroot-loader/src/launch.rs\<close>). \<^verbatim>\<open>LaunchProto\<close> has the launch profiles,
  the INIT and READY messages with their encoders and parsers, and the check of the received handles. Object
  types and right bits belong to the kernel interface and are a parameter. \<^verbatim>\<open>LaunchProtoProps\<close> reads a
  profile as the list of its grants and shows that INIT is accepted exactly with these; \<^verbatim>\<open>LaunchProtoEncode\<close>
  proves the round trips: the locale \<open>correlated_init\<close> is the contract of the encoders and parsers that
  append correlation numbers, and all five interpret it. \<^verbatim>\<open>ByteFields\<close> holds the lemmas on exact fields
  that the policy and the protocol share.

  \<^bold>\<open>Supervision\<close> (\<^verbatim>\<open>crates/wyrmroot-runtime/src/supervision.rs\<close>). \<^verbatim>\<open>Supervision\<close> observes a child until
  READY or until its exit, over the \<^verbatim>\<open>SupervisionPlatform\<close> trait, which is a record of arbitrary functions.
  \<^verbatim>\<open>SupervisionProps\<close> wraps any platform so that it records its answers, and compares the outcome with the
  record: a success has seen one READY, a drained channel and a normal exit; an error says truthfully whether an
  exit was seen; the number of calls is bounded.

  \<^bold>\<open>UART core\<close> (\<^verbatim>\<open>crates/wyrmroot-uart16550-core\<close>). \<^verbatim>\<open>Uart16550Ring\<close> has the byte rings with their contract
  as the locale \<open>byte_fifo\<close>, \<^verbatim>\<open>Uart16550\<close> the core over an arbitrary register adapter.
  \<^verbatim>\<open>Uart16550Trace\<close> records the register accesses of an operation and states one interrupt service by them;
  \<^verbatim>\<open>Uart16550Props\<close> holds the properties over any sequence of calls: since the last initialization the
  transmitted bytes are those accepted and every lost byte is counted, and the interrupt enable register
  follows the state when the divisor latch was closed at the start.

  \<^bold>\<open>Shell core\<close> (\<^verbatim>\<open>crates/wyrmroot-wyrmsh-core\<close>). Bytes from the console go through the input decoder
  (\<^verbatim>\<open>ShellInput\<close>), whose events drive the line editor (\<^verbatim>\<open>ShellEditor\<close>), which keeps accepted lines in
  the history (\<^verbatim>\<open>ShellHistory\<close>) and is shown by the redraw frames (\<^verbatim>\<open>ShellRedraw\<close>); a submitted line
  is parsed (\<^verbatim>\<open>ShellParser\<close>) and classified (\<^verbatim>\<open>ShellCommand\<close>). The decoder is total and decodes
  text exactly; the history ring refines a bounded list of lines (the locale \<open>line_store\<close> is its
  contract for the editor); \<^verbatim>\<open>ShellEditorSim\<close> proves that the byte buffer editor simulates an editor
  on characters; the scanner of the parser equals a tokenizer on characters; the classification accepts
  exactly the documented commands.

  \<^bold>\<open>Bounds and loops.\<close> Every loop of the code is a structural recursion or has a termination proof. The
  two loops of the supervision end because READY is accepted once and a closed channel is dropped for good.
  The one recursion of the code without an evident measure, the removal of a client that cannot be notified,
  which may notify and remove further clients, carries a bound of 65 nested calls, one more than there
  can be endpoints; running out of it would be a panic, which is proved not to happen. The constants of
  the code (4096 byte lines, 64 arguments, 32 history entries, 64 byte headers, four peers) are kept.

  \<^bold>\<open>Not modelled.\<close> Native system call adapters, the processes that only sequence them, the UEFI loader,
  test programs and the host build tool: their behaviour is that of the kernel, the firmware or the file
  system. Of the resource ledger, the constant classifications of enforcement and the comparison with
  the generated channel limits; of the launch policy encoder, the buffer
  a failed call leaves; of the supervision, the two entry points that choose the native platform. The
  console, job, bootstrap, device and gate protocols and the resource manifest are further fixed-layout
  encodings of the kinds shown here; they and the shell session over the modelled shell core are what an
  extension would add first.
\<close>

end
